(* ===== verification/Prelude.thy ===== *)
theory Prelude
  imports Main "HOL-Library.Word" "HOL-Library.Monad_Syntax"
begin

text \<open>
  Shared vocabulary of the FrameRunner development: the machine integer types of the C sources,
  pointer values, the tagged \<open>void *\<close> values that event and receive contexts carry, the linear
  array scans that every table of the simulator uses, and the allocator.

  Conventions. A pointer to an object that several components share is an address, a natural number,
  with \<open>NULL = 0\<close>. A pointer to a table that a function updates in place is an \<open>option\<close> value, with
  \<open>None\<close> for \<open>NULL\<close>. A function that may run into undefined behaviour (a \<open>NULL\<close> or dangling
  dereference, an access outside an allocation, a cast of a \<open>void *\<close> to the wrong type) returns
  \<open>None\<close> there, and its ordinary result under \<open>Some\<close> otherwise; the option monad threads it.
\<close>

unbundle bit_operations_syntax

section \<open>Types\<close>

type_synonym u8 = "8 word"
type_synonym u16 = "16 word"
type_synonym u32 = "32 word"
type_synonym u64 = "64 word"

type_synonym addr = nat
type_synonym bytes = "u8 list"

abbreviation (input) NULL :: addr where
  "NULL \<equiv> 0"

text \<open>\<open>SIZE_MAX\<close> of a 64-bit \<open>size_t\<close>; sizes are natural numbers, and the code's own overflow guards
  compare against this bound.\<close>

definition SIZE_MAX :: nat where
  "SIZE_MAX = 2 ^ 64 - 1"

text \<open>What a \<open>void *\<close> of the sources points to. The constructor is the object's real type, so a cast
  to another type is a wrong match, which the model treats as undefined behaviour.\<close>

datatype vptr =
    VNull
  | VIface addr
  | VDevice addr
  | VSim addr
  | VSwitch addr
  | VRouter addr
  | VStack addr
  | VUdpCtx addr
  | VTcpCtx addr
  | VTcpTable addr
  | VTcb addr nat
  | VRip addr
  | VOspf addr
  | VApp nat

section \<open>Collections of rules\<close>

named_theorems scan_simps \<open>facts about array scans\<close>
named_theorems byte_simps \<open>facts about byte layouts and byte order\<close>
named_theorems inv_intros \<open>operations that keep a component's invariant\<close>

section \<open>Array scans\<close>

text \<open>\<open>for (i = 0; i < n; i++) if (P(a[i])) return i;\<close> over a fixed-size array: the first index
  that satisfies the test.\<close>

fun first_idx :: "('a \<Rightarrow> bool) \<Rightarrow> 'a list \<Rightarrow> nat option" where
  "first_idx P [] = None"
| "first_idx P (x # xs) = (if P x then Some 0 else map_option Suc (first_idx P xs))"

lemma first_idx_None [scan_simps]: "first_idx P xs = None \<longleftrightarrow> (\<forall>x \<in> set xs. \<not> P x)"
  by (induction xs) auto

lemma first_idx_Some [scan_simps]:
  "first_idx P xs = Some i \<longleftrightarrow> i < length xs \<and> P (xs ! i) \<and> (\<forall>j < i. \<not> P (xs ! j))"
proof (induction xs arbitrary: i)
  case Nil
  then show ?case by simp
next
  case (Cons x xs)
  show ?case
    by (cases i) (auto simp: Cons.IH All_less_Suc2)
qed

lemma first_idx_lt: "first_idx P xs = Some i \<Longrightarrow> i < length xs"
  by (simp add: first_idx_Some)

lemma first_idx_sat: "first_idx P xs = Some i \<Longrightarrow> P (xs ! i)"
  by (simp add: first_idx_Some)

lemma first_idx_exists: "i < length xs \<Longrightarrow> P (xs ! i) \<Longrightarrow> \<exists>j \<le> i. first_idx P xs = Some j"
proof (induction xs arbitrary: i)
  case Nil
  then show ?case by simp
next
  case (Cons x xs)
  then show ?case by (cases i) (fastforce)+
qed

lemma first_idx_replicate [simp]:
  "first_idx P (replicate n x) = (if P x \<and> 0 < n then Some 0 else None)"
  by (cases n) (auto simp: first_idx_None)

lemma first_idx_cong:
  "xs = ys \<Longrightarrow> (\<And>x. x \<in> set ys \<Longrightarrow> P x = Q x) \<Longrightarrow> first_idx P xs = first_idx Q ys"
proof (induction xs arbitrary: ys)
  case Nil
  then show ?case by simp
next
  case (Cons x xs)
  then show ?case by (cases ys) auto
qed

lemma length_filter_update:
  assumes "i < length xs"
  shows "int (length (filter P (xs[i := e]))) =
    int (length (filter P xs)) - (if P (xs ! i) then 1 else 0) + (if P e then 1 else 0)"
  using assms
proof (induction xs arbitrary: i)
  case Nil
  then show ?case by simp
next
  case (Cons x xs)
  show ?case
  proof (cases i)
    case 0
    then show ?thesis by simp
  next
    case (Suc k)
    with Cons.IH [of k] Cons.prems show ?thesis by (auto split: if_splits)
  qed
qed

lemma length_filter_full: "length (filter P xs) = length xs \<longleftrightarrow> (\<forall>x \<in> set xs. P x)"
proof (induction xs)
  case (Cons x xs)
  have "length (filter P xs) \<noteq> Suc (length xs)" using length_filter_le [of P xs] by linarith
  with Cons show ?case by simp
qed simp

section \<open>The allocator\<close>

text \<open>
  Allocation may fail, and the code checks it everywhere. \<open>mem_oom\<close> lists the outcomes of the coming
  calls of \<open>malloc\<close> and \<open>realloc\<close> (\<open>False\<close>: the call returns \<open>NULL\<close>); the empty list means that every
  later call succeeds. Addresses are handed out in increasing order and never reused. \<open>mem_junk\<close> is the
  content of fresh memory.
\<close>

record mem =
  mem_next :: addr
  mem_oom :: "bool list"
  mem_junk :: "nat \<Rightarrow> u8"

definition malloc :: "mem \<Rightarrow> addr \<times> mem" where
  "malloc m = (case mem_oom m of
      [] \<Rightarrow> (Suc (mem_next m), m\<lparr>mem_next := Suc (mem_next m)\<rparr>)
    | b # bs \<Rightarrow> if b then (Suc (mem_next m), m\<lparr>mem_next := Suc (mem_next m), mem_oom := bs\<rparr>)
               else (NULL, m\<lparr>mem_oom := bs\<rparr>))"

definition fresh_bytes :: "nat \<Rightarrow> mem \<Rightarrow> bytes" where
  "fresh_bytes n m = map (mem_junk m) [0..<n]"

lemma length_fresh_bytes [simp]: "length (fresh_bytes n m) = n"
  by (simp add: fresh_bytes_def)

lemma malloc_plenty:
  "mem_oom m = [] \<Longrightarrow> malloc m = (Suc (mem_next m), m\<lparr>mem_next := Suc (mem_next m)\<rparr>)"
  by (simp add: malloc_def)

lemma malloc_fresh: "malloc m = (a, m') \<Longrightarrow> a \<noteq> NULL \<Longrightarrow> a = Suc (mem_next m) \<and> mem_next m' = a"
  by (auto simp: malloc_def split: list.splits if_splits)

lemma malloc_next_mono: "malloc m = (a, m') \<Longrightarrow> mem_next m \<le> mem_next m'"
  by (auto simp: malloc_def split: list.splits if_splits)

lemma malloc_junk: "malloc m = (a, m') \<Longrightarrow> mem_junk m' = mem_junk m"
  by (auto simp: malloc_def split: list.splits if_splits)

section \<open>Byte ranges inside a buffer\<close>

text \<open>\<open>memcpy\<close> into and out of a buffer; \<open>None\<close> outside of it.\<close>

definition read_at :: "bytes \<Rightarrow> nat \<Rightarrow> nat \<Rightarrow> bytes option" where
  "read_at b off n = (if off + n \<le> length b then Some (take n (drop off b)) else None)"

definition write_at :: "bytes \<Rightarrow> nat \<Rightarrow> bytes \<Rightarrow> bytes option" where
  "write_at b off bs =
     (if off + length bs \<le> length b then Some (take off b @ bs @ drop (off + length bs) b) else None)"

lemma read_at_length: "read_at b off n = Some bs \<Longrightarrow> length bs = n"
  by (auto simp: read_at_def split: if_splits)

lemma write_at_length: "write_at b off bs = Some b' \<Longrightarrow> length b' = length b"
  by (auto simp: write_at_def split: if_splits)

lemma write_at_SomeI: "off + length bs \<le> length b \<Longrightarrow>
  write_at b off bs = Some (take off b @ bs @ drop (off + length bs) b)"
  by (simp add: write_at_def)

lemma read_write_same: "write_at b off bs = Some b' \<Longrightarrow> read_at b' off (length bs) = Some bs"
  by (auto simp: read_at_def write_at_def split: if_splits)

lemma read_write_after:
  assumes "write_at b off bs = Some b'" and "off + length bs \<le> i"
  shows "read_at b' i n = read_at b i n"
proof -
  have b': "b' = take off b @ bs @ drop (off + length bs) b" and le: "off + length bs \<le> length b"
    using assms(1) by (auto simp: write_at_def split: if_splits)
  have "drop i b' = drop i b"
    using le assms(2) by (simp add: b')
  then show ?thesis using b' le by (simp add: read_at_def)
qed

lemma read_write_before:
  assumes "write_at b off bs = Some b'" and "i + n \<le> off"
  shows "read_at b' i n = read_at b i n"
proof -
  have b': "b' = take off b @ bs @ drop (off + length bs) b" and le: "off + length bs \<le> length b"
    using assms(1) by (auto simp: write_at_def split: if_splits)
  have "take (i + n) b' = take (i + n) b"
    using le assms(2) by (simp add: b')
  then have "take n (drop i b') = take n (drop i b)"
    by (metis add.commute take_drop)
  then show ?thesis using b' le by (simp add: read_at_def)
qed

end
