(* ===== verification/Byte_Order.thy ===== *)
theory Byte_Order
  imports Prelude
begin

text \<open>
  \<^verbatim>\<open>src/src/common/byte_order.h\<close> and \<^verbatim>\<open>src/src/common/ip_utils.h\<close>: byte swapping between
  host and network order, and the mask of a CIDR prefix. The simulator assumes a little-endian host, so a
  multi-byte field is laid out in a buffer with its low byte first: \<open>put16\<close>, \<open>put32\<close> and \<open>get16\<close>, \<open>get32\<close> are the
  stores and loads of the overlaid header structs.
\<close>

section \<open>Definitions\<close>

definition ns_bswap16 :: "u16 \<Rightarrow> u16" where
  "ns_bswap16 x = (push_bit 8 x OR drop_bit 8 x)"

definition ns_bswap32 :: "u32 \<Rightarrow> u32" where
  "ns_bswap32 x = (push_bit 24 (x AND 0x000000ff) OR push_bit 8 (x AND 0x0000ff00) OR
                   drop_bit 8 (x AND 0x00ff0000) OR drop_bit 24 (x AND 0xff000000))"

definition ns_htons :: "u16 \<Rightarrow> u16" where
  "ns_htons x = ns_bswap16 x"

definition ns_ntohs :: "u16 \<Rightarrow> u16" where
  "ns_ntohs x = ns_bswap16 x"

definition ns_htonl :: "u32 \<Rightarrow> u32" where
  "ns_htonl x = ns_bswap32 x"

definition ns_ntohl :: "u32 \<Rightarrow> u32" where
  "ns_ntohl x = ns_bswap32 x"

definition ipv4_prefix_mask :: "u8 \<Rightarrow> u32" where
  "ipv4_prefix_mask prefix_len =
     (if prefix_len = 0 then 0
      else if prefix_len \<ge> 32 then 0xFFFFFFFF
      else push_bit (32 - unat prefix_len) 0xFFFFFFFF)"

text \<open>Loads and stores of the packed header structs, little-endian.\<close>

definition put16 :: "u16 \<Rightarrow> bytes" where
  "put16 x = [ucast x, ucast (drop_bit 8 x)]"

definition put32 :: "u32 \<Rightarrow> bytes" where
  "put32 x = [ucast x, ucast (drop_bit 8 x), ucast (drop_bit 16 x), ucast (drop_bit 24 x)]"

definition get16 :: "bytes \<Rightarrow> nat \<Rightarrow> u16" where
  "get16 b i = (ucast (b ! i) OR push_bit 8 (ucast (b ! (i + 1))))"

definition get32 :: "bytes \<Rightarrow> nat \<Rightarrow> u32" where
  "get32 b i = (ucast (b ! i) OR push_bit 8 (ucast (b ! (i + 1))) OR
                push_bit 16 (ucast (b ! (i + 2))) OR push_bit 24 (ucast (b ! (i + 3))))"

section \<open>Lemmas\<close>

lemma length_put16 [simp]: "length (put16 x) = 2"
  by (simp add: put16_def)

lemma length_put32 [simp]: "length (put32 x) = 4"
  by (simp add: put32_def)

text \<open>Bit by bit, what the two byte swaps compute.\<close>

lemma bit_bswap16:
  "bit (ns_bswap16 x) n \<longleftrightarrow> n < 16 \<and> bit x (if n < 8 then n + 8 else n - 8)"
  using bit_imp_le_length [of x "8 + n"] bit_imp_le_length [of x n]
  by (auto simp: ns_bswap16_def bit_simps add.commute)

lemma byte_mask32:
  "(0x000000ff :: u32) = mask 8"
  "(0x0000ff00 :: u32) = push_bit 8 (mask 8)"
  "(0x00ff0000 :: u32) = push_bit 16 (mask 8)"
  "(0xff000000 :: u32) = push_bit 24 (mask 8)"
  by (simp_all add: mask_eq_exp_minus_1)

lemmas word_bit_iffs = bit_or_iff bit_and_iff bit_push_bit_iff bit_drop_bit_eq bit_mask_iff
  bit_unsigned_iff o_def possible_bit_word

lemma bit_bswap32:
  "bit (ns_bswap32 x) n \<longleftrightarrow> n < 32 \<and>
     bit x (if n < 8 then n + 24 else if n < 16 then n + 8 else if n < 24 then n - 8 else n - 24)"
  using bit_imp_le_length [of x "24 + n"] bit_imp_le_length [of x "8 + n"] bit_imp_le_length [of x n]
  unfolding ns_bswap32_def byte_mask32
  by (simp only: word_bit_iffs) (auto simp: add.commute)

lemma bswap16_involution [simp]: "ns_bswap16 (ns_bswap16 x) = x"
  by (rule bit_word_eqI) (auto simp: bit_bswap16)

lemma bswap32_involution [simp]: "ns_bswap32 (ns_bswap32 x) = x"
  by (rule bit_word_eqI) (auto simp: bit_bswap32)

lemma ntohs_htons [simp]: "ns_ntohs (ns_htons x) = x"
  by (simp add: ns_ntohs_def ns_htons_def)

lemma ntohl_htonl [simp]: "ns_ntohl (ns_htonl x) = x"
  by (simp add: ns_ntohl_def ns_htonl_def)

lemma htons_ntohs [simp]: "ns_htons (ns_ntohs x) = x"
  by (simp add: ns_ntohs_def ns_htons_def)

lemma htonl_ntohl [simp]: "ns_htonl (ns_ntohl x) = x"
  by (simp add: ns_ntohl_def ns_htonl_def)

lemma htonl_eq_iff [simp]: "ns_htonl x = ns_htonl y \<longleftrightarrow> x = y"
  by (metis ntohl_htonl)

lemma ntohl_eq_iff [simp]: "ns_ntohl x = ns_ntohl y \<longleftrightarrow> x = y"
  by (metis htonl_ntohl)

lemma htons_eq_iff [simp]: "ns_htons x = ns_htons y \<longleftrightarrow> x = y"
  by (metis ntohs_htons)

text \<open>A stored field in network order has its high byte first.\<close>

lemma put16_htons [byte_simps]: "put16 (ns_htons x) = [ucast (drop_bit 8 x), ucast x]"
  using bit_imp_le_length [of x]
  by (auto simp: put16_def ns_htons_def bit_eq_iff bit_bswap16 word_bit_iffs add.commute
           simp del: bit_0)

lemma put32_htonl [byte_simps]:
  "put32 (ns_htonl x) =
     [ucast (drop_bit 24 x), ucast (drop_bit 16 x), ucast (drop_bit 8 x), ucast x]"
  using bit_imp_le_length [of x]
  by (auto simp: put32_def ns_htonl_def bit_eq_iff bit_bswap32 word_bit_iffs add.commute
           simp del: bit_0)

text \<open>Loading what was stored.\<close>

lemma get16_put16 [byte_simps]: "get16 (put16 x) 0 = x"
  by (rule bit_word_eqI) (auto simp: get16_def put16_def word_bit_iffs)

lemma get32_put32 [byte_simps]: "get32 (put32 x) 0 = x"
proof (rule bit_word_eqI)
  fix n
  assume "n < LENGTH(32)"
  then consider "n < 8" | "8 \<le> n" "n < 16" | "16 \<le> n" "n < 24" | "24 \<le> n" "n < 32" by force
  then show "bit (get32 (put32 x) 0) n = bit x n"
    by cases (auto simp: get32_def put32_def word_bit_iffs)
qed

lemma get16_shift [byte_simps]: "get16 (xs @ ys) (length xs + i) = get16 ys i"
  by (simp add: get16_def nth_append)

lemma get32_shift [byte_simps]: "get32 (xs @ ys) (length xs + i) = get32 ys i"
  by (simp add: get32_def nth_append)

lemma get16_append [byte_simps]: "i + 1 < length xs \<Longrightarrow> get16 (xs @ ys) i = get16 xs i"
  by (simp add: get16_def nth_append)

lemma get32_append [byte_simps]: "i + 3 < length xs \<Longrightarrow> get32 (xs @ ys) i = get32 xs i"
  by (simp add: get32_def nth_append)

lemma get16_take: "i + 1 < n \<Longrightarrow> get16 (take n xs) i = get16 xs i"
  by (simp add: get16_def)

lemma get32_take: "i + 3 < n \<Longrightarrow> get32 (take n xs) i = get32 xs i"
  by (simp add: get32_def)

lemma unat_ucast_u8: "unat (ucast (x :: u8) :: u16) = unat x"
  using unsigned_less [of x, where ?'a = nat] by (simp add: unsigned_ucast_eq take_bit_nat_eq_self)

text \<open>The value of a 16-bit field in network order, which the Internet checksums add up.\<close>

lemma unat_ntohs_get16:
  "unat (ns_ntohs (get16 b i)) = 256 * unat (b ! i) + unat (b ! (i + 1))"
proof -
  let ?hi = "ucast (b ! i) :: u16" and ?lo = "ucast (b ! (i + 1)) :: u16"
  have "ns_ntohs (get16 b i) = push_bit 8 ?hi OR ?lo"
    using bit_imp_le_length [of "b ! i"] bit_imp_le_length [of "b ! (i + 1)"]
    by (intro bit_word_eqI) (force simp: ns_ntohs_def get16_def bit_bswap16 word_bit_iffs)
  also have "push_bit 8 ?hi AND ?lo = 0"
    by (rule bit_word_eqI) (auto simp: word_bit_iffs dest: bit_imp_le_length)
  then have "push_bit 8 ?hi OR ?lo = push_bit 8 ?hi + ?lo"
    by (simp add: disjunctive_add_eq_or)
  finally have "unat (ns_ntohs (get16 b i)) = (unat (push_bit 8 ?hi) + unat ?lo) mod 2 ^ 16"
    by (simp add: unat_word_ariths)
  also have "unat ?lo = unat (b ! (i + 1))"
    by (rule unat_ucast_u8)
  also have "unat (push_bit 8 ?hi) = 256 * unat (b ! i)"
    using unsigned_less [of "b ! i", where ?'a = nat]
    by (simp add: push_bit_eq_mult unat_word_ariths unat_ucast_u8)
  finally show ?thesis using unsigned_less [of "b ! i", where ?'a = nat] unsigned_less [of "b ! (i + 1)", where ?'a = nat] by simp
qed

text \<open>The prefix mask is a run of ones in the high bits.\<close>

lemma bit_prefix_mask:
  assumes "p \<le> 32"
  shows "bit (ipv4_prefix_mask p) n \<longleftrightarrow> n < 32 \<and> 32 \<le> n + unat p"
proof -
  have p: "unat p \<le> 32" using assms by (simp add: word_le_nat_alt)
  have ones: "(0xFFFFFFFF :: u32) = mask 32" by (simp add: mask_eq_exp_minus_1)
  show ?thesis
  proof (cases "p = 0 \<or> 32 \<le> p")
    case True
    then have "unat p = 0 \<or> unat p = 32"
      using p by (auto simp: word_le_nat_alt)
    then have "p = 0 \<or> p = 32"
      by (simp add: word_unat_eq_iff)
    then show ?thesis unfolding ipv4_prefix_mask_def ones
      by (auto simp: bit_mask_iff)
  next
    case False
    then have "ipv4_prefix_mask p = push_bit (32 - unat p) (mask 32)"
      by (simp add: ipv4_prefix_mask_def mask_eq_exp_minus_1)
    then show ?thesis using p by (auto simp: word_bit_iffs)
  qed
qed

lemma prefix_mask_inj:
  assumes "p \<le> 32" "q \<le> 32" "ipv4_prefix_mask p = ipv4_prefix_mask q"
  shows "p = q"
proof -
  have eq: "n < 32 \<and> 32 \<le> n + unat p \<longleftrightarrow> n < 32 \<and> 32 \<le> n + unat q" for n
    using bit_prefix_mask [OF assms(1), of n] bit_prefix_mask [OF assms(2), of n] assms(3) by simp
  have "unat p \<le> 32" "unat q \<le> 32" using assms by (simp_all add: word_le_nat_alt)
  then have "unat p = unat q"
    using eq [of "32 - unat p"] eq [of "32 - unat q"] by arith
  then show ?thesis by (simp add: word_unat_eq_iff)
qed

text \<open>Masking keeps the bits of the prefix and clears the others; masking by a longer prefix first
  changes nothing.\<close>

lemma mask_idem [simp]: "(x AND ipv4_prefix_mask p) AND ipv4_prefix_mask p = x AND ipv4_prefix_mask p"
  by (simp add: and.assoc)

lemma mask_coarser:
  assumes "p \<le> q" "q \<le> 32"
  shows "ipv4_prefix_mask q AND ipv4_prefix_mask p = ipv4_prefix_mask p"
proof -
  have "p \<le> 32" "unat p \<le> unat q" using assms by (auto simp: word_le_nat_alt)
  then show ?thesis
    using assms by (intro bit_word_eqI) (auto simp: bit_prefix_mask bit_and_iff)
qed

end
