(* ===== verification/Checksum.thy ===== *)
theory Checksum
  imports Byte_Order
begin

text \<open>
  The Internet checksum loops. Three functions of the sources compute one: \<open>packet_checksum\<close>
  (\<open>network/packet.c\<close>) adds the 16-bit words in host order, \<open>icmp_checksum\<close> (\<open>protocols/icmp.c\<close>) and
  \<open>ip_checksum\<close> (\<open>protocols/ip.c\<close>, in theory \<open>Ip\<close>) in network order. All of them add into a 32-bit
  accumulator, which wraps, and fold the carries with the same loop. The lemmas give the closed form of
  the fold and of the sums; the locale \<open>ones_complement\<close> is what makes a stored checksum verify.
\<close>

unbundle bit_operations_syntax

section \<open>Folding the carries\<close>

lemma unat_low16: "unat ((s :: u32) AND 0xFFFF) = unat s mod 65536"
proof -
  have m: "(0xFFFF :: u32) = mask 16" by (simp add: mask_eq_exp_minus_1)
  show ?thesis unfolding m take_bit_eq_mask [symmetric] by (simp add: take_bit_eq_mod unat_mod_distrib)
qed

lemma unat_high16: "unat (drop_bit 16 (s :: u32)) = unat s div 65536"
  by (simp add: drop_bit_eq_div unat_div_distrib)

lemma high16_zero_iff: "drop_bit 16 (s :: u32) = 0 \<longleftrightarrow> unat s < 65536"
proof -
  have "drop_bit 16 s = 0 \<longleftrightarrow> unat (drop_bit 16 s) = 0" by (simp only: unat_eq_zero)
  then show ?thesis by (simp add: unat_high16 div_eq_0_iff)
qed

lemma fold_step_value:
  "unat (((s :: u32) AND 0xFFFF) + drop_bit 16 s) = unat s mod 65536 + unat s div 65536"
proof -
  have lt: "unat s < 2 ^ 32" using unsigned_less [of s, where ?'a = nat] by simp
  have "unat s div 65536 < 65536" using lt by (simp add: div_less_iff_less_mult)
  moreover have "unat s mod 65536 < 65536" by simp
  ultimately have "unat s mod 65536 + unat s div 65536 < 65536 + 65536" by linarith
  also have "\<dots> < 2 ^ 32" by simp
  finally have "unat s mod 65536 + unat s div 65536 < 2 ^ 32" .
  then show ?thesis by (simp add: unat_word_ariths unat_low16 unat_high16)
qed
text \<open>\<open>while (sum >> 16) sum = (sum & 0xFFFF) + (sum >> 16);\<close>\<close>

function fold_carry :: "u32 \<Rightarrow> u32" where
  "fold_carry s = (if drop_bit 16 s = 0 then s
     else fold_carry ((s AND 0xFFFF) + drop_bit 16 s))"
  by pat_completeness auto
termination
proof (relation "measure unat")
  fix s :: u32 assume "drop_bit 16 s \<noteq> 0"
  then have "unat s div 65536 \<noteq> 0" by (simp add: high16_zero_iff div_eq_0_iff)
  moreover have "unat s = 65536 * (unat s div 65536) + unat s mod 65536" by simp
  ultimately have "unat s mod 65536 + unat s div 65536 < unat s" by linarith
  then show "((s AND 0xFFFF) + drop_bit 16 s, s) \<in> measure unat"
    by (simp add: fold_step_value)
qed simp

declare fold_carry.simps [simp del]

section \<open>The checksum functions\<close>

text \<open>The loop of \<open>packet_checksum\<close>: whole words while two bytes are left, then a last odd byte.\<close>

fun packet_sum_loop :: "u32 \<Rightarrow> bytes \<Rightarrow> u32" where
  "packet_sum_loop s (lo # hi # rest) =
     packet_sum_loop (s + ucast (get16 [lo, hi] 0)) rest"
| "packet_sum_loop s [b] = s + ucast b"
| "packet_sum_loop s [] = s"

definition packet_checksum :: "bytes \<Rightarrow> u16" where
  "packet_checksum data = NOT (ucast (fold_carry (packet_sum_loop 0 data)))"

text \<open>The loop \<open>for (i = 0; i < n; i++) sum += ns_ntohs(words[i]);\<close> of the other two.\<close>

function net_sum_loop :: "bytes \<Rightarrow> nat \<Rightarrow> nat \<Rightarrow> u32 \<Rightarrow> u32" where
  "net_sum_loop b i n s =
     (if i < n then net_sum_loop b (Suc i) n (s + ucast (ns_ntohs (get16 b (2 * i)))) else s)"
  by pat_completeness auto
termination by (relation "measure (\<lambda>(b, i, n, s). n - i)") auto

declare net_sum_loop.simps [simp del]

definition icmp_checksum :: "bytes option \<Rightarrow> u16" where
  "icmp_checksum data = (case data of None \<Rightarrow> 0xFFFF | Some b \<Rightarrow>
     (if length b = 0 then 0xFFFF
      else let s = net_sum_loop b 0 (length b div 2) 0;
               s = (if length b mod 2 = 1 then s + push_bit 8 (ucast (b ! (length b - 1))) else s)
           in ns_htons (NOT (ucast (fold_carry s)))))"

section \<open>Closed forms\<close>

text \<open>The sums without wrap-around, in network and in host order.\<close>

fun net_value :: "bytes \<Rightarrow> nat" where
  "net_value (a # b # rest) = 256 * unat a + unat b + net_value rest"
| "net_value [a] = 256 * unat a"
| "net_value [] = 0"

fun host_value :: "bytes \<Rightarrow> nat" where
  "host_value (a # b # rest) = unat a + 256 * unat b + host_value rest"
| "host_value [a] = unat a"
| "host_value [] = 0"

lemma net_value_bound: "net_value b \<le> (length b + 1) div 2 * 65535"
proof (induction b rule: net_value.induct)
  case (1 x y r)
  have "unat x < 256" "unat y < 256"
    using unsigned_less [of x, where ?'a = nat] unsigned_less [of y, where ?'a = nat] by simp_all
  with 1 show ?case by simp
next
  case (2 x)
  then show ?case using unsigned_less [of x, where ?'a = nat] by simp
qed simp

lemma host_value_bound: "host_value b \<le> (length b + 1) div 2 * 65535"
proof (induction b rule: host_value.induct)
  case (1 x y r)
  have "unat x < 256" "unat y < 256"
    using unsigned_less [of x, where ?'a = nat] unsigned_less [of y, where ?'a = nat] by simp_all
  with 1 show ?case by simp
next
  case (2 x)
  then show ?case using unsigned_less [of x, where ?'a = nat] by simp
qed simp

lemma unat_get16: "unat (get16 b i) = unat (b ! i) + 256 * unat (b ! (i + 1))"
proof -
  have "get16 b i = ns_ntohs (get16 [b ! (i+1), b ! i] 0)"
    by (rule bit_word_eqI) (auto simp: ns_ntohs_def get16_def bit_bswap16 word_bit_iffs dest: bit_imp_le_length)
  then show ?thesis by (simp add: unat_ntohs_get16)
qed

lemma unat_add_u32: "unat (s + ucast (x :: u16) :: u32) = (unat s + unat x) mod 2 ^ 32"
proof -
  have "unat (ucast x :: u32) = unat x"
    using unsigned_less [of x, where ?'a = nat] by (simp add: unsigned_ucast_eq take_bit_nat_eq_self)
  then show ?thesis by (simp add: unat_word_ariths)
qed

lemma unat_add_u8: "unat (s + ucast (x :: u8) :: u32) = (unat s + unat x) mod 2 ^ 32"
proof -
  have "unat (ucast x :: u32) = unat x"
    using unsigned_less [of x, where ?'a = nat] by (simp add: unsigned_ucast_eq take_bit_nat_eq_self)
  then show ?thesis by (simp add: unat_word_ariths)
qed

lemma unat_mod_u32: "unat (s :: u32) mod 4294967296 = unat s"
  using unsigned_less [of s, where ?'a = nat] by simp

lemma packet_sum_value: "unat (packet_sum_loop s b) = (unat s + host_value b) mod 2 ^ 32"
proof (induction s b rule: packet_sum_loop.induct)
  case (1 s lo hi rest)
  then show ?case by (simp add: unat_add_u32 unat_get16 mod_simps add_ac)
qed (simp_all add: unat_add_u8 unat_mod_u32)

lemma net_sum_value:
  "unat (net_sum_loop b i n s) =
     (unat s + (\<Sum>j \<in> {i..<n}. 256 * unat (b ! (2 * j)) + unat (b ! (2 * j + 1)))) mod 2 ^ 32"
proof (induction b i n s rule: net_sum_loop.induct)
  case (1 b i n s)
  show ?case
  proof (cases "i < n")
    case True
    with 1 have "unat (net_sum_loop b i n s) =
      ((unat s + (256 * unat (b ! (2 * i)) + unat (b ! (2 * i + 1)))) mod 2 ^ 32 +
        (\<Sum>j \<in> {Suc i..<n}. 256 * unat (b ! (2 * j)) + unat (b ! (2 * j + 1)))) mod 2 ^ 32"
      by (simp only: net_sum_loop.simps [of b i n s] if_True unat_add_u32 unat_ntohs_get16)
    also have "\<dots> = (unat s + ((256 * unat (b ! (2 * i)) + unat (b ! (2 * i + 1))) +
        (\<Sum>j \<in> {Suc i..<n}. 256 * unat (b ! (2 * j)) + unat (b ! (2 * j + 1))))) mod 2 ^ 32"
      by (simp only: mod_add_left_eq add.assoc)
    finally show ?thesis using True by (simp only: sum.atLeast_Suc_lessThan)
  next
    case False
    then show ?thesis using unsigned_less [of s, where ?'a = nat]
      by (simp add: net_sum_loop.simps [of b i n s])
  qed
qed

lemma net_value_sum:
  "net_value b = (\<Sum>j \<in> {0..<length b div 2}. 256 * unat (b ! (2 * j)) + unat (b ! (2 * j + 1))) +
     (if odd (length b) then 256 * unat (b ! (length b - 1)) else 0)"
proof (induction b rule: net_value.induct)
  case (1 x y r)
  have "(\<Sum>j \<in> {0..<Suc (length r div 2)}. 256 * unat ((x # y # r) ! (2 * j)) + unat ((x # y # r) ! (2 * j + 1)))
    = 256 * unat x + unat y + (\<Sum>j \<in> {0..<length r div 2}. 256 * unat (r ! (2 * j)) + unat (r ! (2 * j + 1)))"
    by (simp add: sum.atLeast0_lessThan_Suc_shift del: sum.op_ivl_Suc)
  with 1 show ?case by (auto simp del: sum.op_ivl_Suc elim: oddE)
qed auto

text \<open>What folding the carries computes: the representative of the sum modulo 65535, where a sum that is
  not zero is represented by 1 to 65535.\<close>

definition ones_sum :: "nat \<Rightarrow> nat" where
  "ones_sum x = (if x = 0 then 0 else (x - 1) mod 65535 + 1)"

lemma fold_carry_value:
  "unat (fold_carry s) = (if s = 0 then 0 else (unat s - 1) mod 65535 + 1)"
proof (induction s rule: fold_carry.induct)
  case (1 s)
  show ?case
  proof (cases "drop_bit 16 s = 0")
    case True
    then have "unat s < 65536" by (simp add: high16_zero_iff)
    moreover have "unat s \<noteq> 0" if "s \<noteq> 0" using that by (simp add: unat_eq_zero)
    ultimately show ?thesis using True by (simp add: fold_carry.simps [of s])
  next
    case False
    let ?t = "(s AND 0xFFFF) + drop_bit 16 s"
    have d: "0 < unat s div 65536" using False by (simp add: high16_zero_iff div_greater_zero_iff)
    then have s0: "s \<noteq> 0" by auto
    have t: "unat ?t = unat s mod 65536 + unat s div 65536" by (rule fold_step_value)
    with d have t0: "?t \<noteq> 0" by (metis add_is_0 less_nat_zero_code unsigned_0)
    have "(unat ?t - 1) mod 65535 = (unat s - 1) mod 65535"
    proof -
      have "unat s = 65535 * (unat s div 65536) + unat ?t"
        using div_mult_mod_eq [of "unat s" 65536] t by linarith
      then have "unat s - 1 = 65535 * (unat s div 65536) + (unat ?t - 1)" using t d by linarith
      then show ?thesis by (metis mod_mult_self4)
    qed
    with "1.IH" [OF False] t0 s0 show ?thesis by (simp add: fold_carry.simps [of s] False)
  qed
qed

lemma ones_sum_le: "ones_sum x \<le> 65535"
  using mod_less_divisor [of 65535 "x - 1"] unfolding ones_sum_def by (cases "x = 0") auto

lemma ones_sum_zero_iff [simp]: "ones_sum x = 0 \<longleftrightarrow> x = 0"
  by (simp add: ones_sum_def)

lemma ones_sum_complement: "ones_sum (x + (65535 - ones_sum x)) = 65535"
proof (cases "x = 0")
  case True
  then show ?thesis by (simp add: ones_sum_def)
next
  case False
  define q where "q = (x - 1) div 65535"
  define r where "r = (x - 1) mod 65535"
  have "r < 65535" by (simp add: r_def)
  moreover have x: "x = 65535 * q + r + 1"
    using False div_mult_mod_eq [of "x - 1" 65535] by (simp add: q_def r_def)
  moreover have "ones_sum x = r + 1" using False by (simp add: ones_sum_def r_def)
  ultimately have "x + (65535 - ones_sum x) - 1 = 65535 * q + 65534" by simp
  then have "(x + (65535 - ones_sum x) - 1) mod 65535 = 65534" by (simp add: mod_mult_self4)
  with x show ?thesis by (simp add: ones_sum_def)
qed

lemma ones_sum_cong:
  assumes "x mod 65535 = y mod 65535" "x = 0 \<longleftrightarrow> y = 0"
  shows "ones_sum x = ones_sum y"
proof (cases "x = 0")
  case True
  with assms show ?thesis by simp
next
  case False
  then obtain x' y' where xy: "x = Suc x'" "y = Suc y'" using assms(2) by (metis not0_implies_Suc)
  with assms(1) have "x' mod 65535 = y' mod 65535" by (simp add: mod_Suc split: if_splits)
  with xy show ?thesis by (simp add: ones_sum_def)
qed

lemma unat_fold_carry: "unat (fold_carry s) = ones_sum (unat s)"
  by (simp add: fold_carry_value ones_sum_def unat_eq_zero)

lemma unat_complement_u16:
  assumes "w + m = (- 1 :: u16)"
  shows "unat m = 65535 - unat w"
proof -
  have "unat (w + m) = 65535" by (simp add: assms unsigned_minus_1_eq_mask mask_eq_exp_minus_1)
  then have "(unat w + unat m) mod 65536 = 65535" by (simp add: unat_word_ariths)
  moreover have "unat w < 65536" "unat m < 65536"
    using unsigned_less [of w, where ?'a = nat] unsigned_less [of m, where ?'a = nat] by simp_all
  ultimately show ?thesis by (cases "unat w + unat m < 65536") (auto simp: mod_if split: if_splits)
qed

lemma unat_not_u16: "unat (NOT (w :: u16)) = 65535 - unat w"
  by (rule unat_complement_u16) simp

lemma unat_fold_u16: "unat (NOT (ucast (fold_carry s) :: u16)) = 65535 - ones_sum (unat s)"
  using ones_sum_le [of "unat s"]
  by (simp add: unat_not_u16 unsigned_ucast_eq take_bit_nat_eq_self unat_fold_carry)

lemma packet_checksum_value:
  assumes "length b \<le> 131072"
  shows "unat (packet_checksum b) = 65535 - ones_sum (host_value b)"
proof -
  have "(length b + 1) div 2 \<le> 65536" using assms by simp
  then have "host_value b < 2 ^ 32" using host_value_bound [of b] by (simp add: order.strict_trans1)
  then show ?thesis by (simp add: packet_checksum_def unat_fold_u16 packet_sum_value)
qed

lemma icmp_checksum_value:
  assumes "b \<noteq> []" "length b \<le> 131072"
  shows "unat (ns_ntohs (icmp_checksum (Some b))) = 65535 - ones_sum (net_value b)"
proof -
  have "(length b + 1) div 2 \<le> 65536" using assms(2) by simp
  then have lt: "net_value b < 2 ^ 32" using net_value_bound [of b] by (simp add: order.strict_trans1)
  let ?s = "net_sum_loop b 0 (length b div 2) 0"
  let ?t = "if length b mod 2 = 1 then ?s + push_bit 8 (ucast (b ! (length b - 1))) else ?s"
  have p: "unat (push_bit 8 (ucast x :: u32)) = 256 * unat x" for x :: u8
    using unsigned_less [of x, where ?'a = nat]
    by (simp add: push_bit_eq_mult unat_word_ariths unsigned_ucast_eq take_bit_nat_eq_self)
  have "unat ?t = net_value b"
    using lt net_value_sum [of b] by (auto simp: unat_word_ariths net_sum_value p odd_iff_mod_2_eq_one)
  then show ?thesis using assms(1) by (simp add: icmp_checksum_def Let_def unat_fold_u16)
qed

lemma swap_mod: "net_value b mod 65535 = 256 * host_value b mod 65535"
proof (induction b rule: net_value.induct)
  case (1 x y r)
  have "256 * host_value (x # y # r) = (256 * unat x + unat y + 256 * host_value r) + 65535 * unat y"
    by (simp add: algebra_simps)
  then have "256 * host_value (x # y # r) mod 65535 = (256 * unat x + unat y + 256 * host_value r) mod 65535"
    by (metis mod_mult_self2)
  also have "\<dots> = (256 * unat x + unat y + net_value r) mod 65535"
    using 1 by (metis mod_add_right_eq)
  finally show ?case by simp
qed simp_all

lemma net_host_zero: "net_value b = 0 \<longleftrightarrow> host_value b = 0"
  by (induction b rule: net_value.induct) auto

lemma bswap16_value: "unat (ns_ntohs x) = 256 * (unat x mod 256) + unat x div 256"
proof -
  have x: "get16 (put16 x) 0 = x" by (simp add: get16_put16)
  have "unat (ucast x :: u8) = unat x mod 256" by (simp add: unsigned_ucast_eq take_bit_eq_mod)
  moreover have "unat (ucast (drop_bit 8 x) :: u8) = unat x div 256"
    using unsigned_less [of x, where ?'a = nat]
    by (simp add: unsigned_ucast_eq take_bit_eq_mod drop_bit_eq_div unat_div_distrib)
  ultimately show ?thesis using unat_ntohs_get16 [of "put16 x" 0] unfolding x by (simp add: put16_def)
qed

lemma ones_sum_small: "x \<le> 65535 \<Longrightarrow> ones_sum x = x"
  by (auto simp: ones_sum_def)

lemma ones_sum_mod: "ones_sum x mod 65535 = x mod 65535"
  by (cases x) (simp_all add: ones_sum_def mod_Suc_eq)

lemma ones_sum_swap:
  fixes b :: bytes
  defines "H \<equiv> ones_sum (host_value b)"
  shows "256 * (H mod 256) + H div 256 = ones_sum (net_value b)"
proof -
  let ?s = "256 * (H mod 256) + H div 256"
  have H: "H \<le> 65535" by (simp add: H_def ones_sum_le)
  have d: "H = 256 * (H div 256) + H mod 256" by simp
  have "H div 256 < 256" using H by (simp add: div_less_iff_less_mult)
  moreover have "H mod 256 < 256" by simp
  ultimately have s: "?s \<le> 65535" by linarith
  have "256 * H = ?s + 65535 * (H div 256)" using d by linarith
  then have "?s mod 65535 = 256 * H mod 65535" by (metis mod_mult_self2)
  also have "\<dots> = 256 * host_value b mod 65535"
    by (metis H_def mod_mult_right_eq ones_sum_mod)
  also have "\<dots> = net_value b mod 65535" by (simp add: swap_mod)
  finally have "?s mod 65535 = net_value b mod 65535" .
  moreover have "?s = 0 \<longleftrightarrow> H = 0" using d by linarith
  ultimately have "ones_sum ?s = ones_sum (net_value b)"
    by (intro ones_sum_cong) (simp_all add: H_def net_host_zero)
  with s show ?thesis by (simp add: ones_sum_small)
qed

lemma swap_complement:
  assumes "x \<le> (65535 :: nat)"
  shows "256 * ((65535 - x) mod 256) + (65535 - x) div 256 = 65535 - (256 * (x mod 256) + x div 256)"
proof -
  define a c where "a = x div 256" and "c = x mod 256"
  have x: "x = 256 * a + c" and c: "c < 256" by (simp_all add: a_def c_def)
  with assms have a: "a < 256" by simp
  have "65535 - x = (255 - a) * 256 + (255 - c)" using x a c by (simp add: diff_mult_distrib)
  moreover have "255 - c < 256" by simp
  ultimately have "(65535 - x) mod 256 = 255 - c" "(65535 - x) div 256 = 255 - a"
    by (metis mod_less mod_mult_self3, metis div_less div_mult_self3 add_0_right zero_neq_numeral)
  then show ?thesis using a c unfolding a_def [symmetric] c_def [symmetric] by simp
qed

section \<open>Agreement of the two byte orders\<close>

text \<open>For every buffer of at most 131072 bytes, for which the 32-bit accumulator cannot wrap,
  \<open>packet_checksum\<close>, which adds the words as the host reads them, and \<open>icmp_checksum\<close>, which
  converts each word to host order and the result back, return the same 16 bits, for odd lengths too.
\<close>

lemma packet_checksum_is_icmp_checksum:
  assumes "length b \<le> 131072"
  shows "packet_checksum b = icmp_checksum (Some b)"
proof (cases "b = []")
  case True
  then show ?thesis by (simp add: packet_checksum_def icmp_checksum_def fold_carry.simps)
next
  case False
  have "unat (ns_ntohs (packet_checksum b)) = unat (ns_ntohs (icmp_checksum (Some b)))"
    unfolding bswap16_value [of "packet_checksum b"] packet_checksum_value [OF assms]
      icmp_checksum_value [OF False assms] swap_complement [OF ones_sum_le] ones_sum_swap ..
  then have "ns_ntohs (packet_checksum b) = ns_ntohs (icmp_checksum (Some b))"
    by (simp only: word_unat_eq_iff)
  then show ?thesis by (metis htons_ntohs)
qed

text \<open>
  The hypothesis of the agreement holds for a three-byte buffer, an odd length.
\<close>

lemma packet_checksum_is_icmp_checksum_witness:
  "packet_checksum [0x45, 0, 0x7F] = icmp_checksum (Some [0x45, 0, 0x7F])"
  by (rule packet_checksum_is_icmp_checksum) simp

section \<open>Stored checksums verify\<close>

text \<open>
  A message with a checksum field: \<open>total\<close> is the sum of its words in network order, \<open>ck\<close> the function
  that computes the checksum and \<open>put\<close> the assignment to the field. The headers of IP and ICMP are the
  instances.
\<close>

text \<open>The assignment to a 16-bit field at an offset.\<close>

definition set16 :: "nat \<Rightarrow> u16 \<Rightarrow> bytes \<Rightarrow> bytes" where
  "set16 off c b = take off b @ put16 c @ drop (off + 2) b"

lemma length_set16 [simp]: "off + 2 \<le> length b \<Longrightarrow> length (set16 off c b) = length b"
  by (simp add: set16_def)

lemma set16_twice: "off + 2 \<le> length b \<Longrightarrow> set16 off c (set16 off d b) = set16 off c b"
  by (simp add: set16_def)

lemma net_value_append: "even (length xs) \<Longrightarrow> net_value (xs @ ys) = net_value xs + net_value ys"
  by (induction xs rule: net_value.induct) auto

lemma net_value_put16: "net_value (put16 c) = unat (ns_ntohs c)"
  using unat_ntohs_get16 [of "put16 c" 0] by (simp add: get16_put16) (simp add: put16_def)

lemma net_value_set16:
  assumes "even off" "off + 2 \<le> length b"
  shows "net_value (set16 off c b) = net_value (set16 off 0 b) + unat (ns_ntohs c)"
proof -
  have "net_value (put16 0) = 0" by (simp add: put16_def)
  then show ?thesis using assms by (simp add: set16_def net_value_append net_value_put16)
qed

locale ones_complement =
  fixes wf :: "'d \<Rightarrow> bool"
    and total :: "'d \<Rightarrow> nat"
    and ck :: "'d \<Rightarrow> u16"
    and put :: "u16 \<Rightarrow> 'd \<Rightarrow> 'd"
  assumes ck_total: "wf d \<Longrightarrow> unat (ns_ntohs (ck d)) = 65535 - ones_sum (total d)"
    and put_wf: "wf d \<Longrightarrow> wf (put c d)"
    and put_total: "wf d \<Longrightarrow> total (put c d) = total (put 0 d) + unat (ns_ntohs c)"
begin

lemma ck_zero_iff: "wf d \<Longrightarrow> ck d = 0 \<longleftrightarrow> ones_sum (total d) = 65535"
proof -
  assume "wf d"
  have "ck d = 0 \<longleftrightarrow> unat (ns_ntohs (ck d)) = 0"
    by (metis bswap16_value div_0 mod_0 mult_0_right add_0 htons_ntohs ns_htons_def ns_ntohs_def unat_eq_zero unsigned_0)
  then show ?thesis using ck_total [OF \<open>wf d\<close>] ones_sum_le [of "total d"] by simp
qed

lemma stored_verifies: "wf d \<Longrightarrow> ck (put (ck (put 0 d)) d) = 0"
  by (simp add: ck_zero_iff put_wf put_total [of d "ck (put 0 d)"] ck_total ones_sum_complement)

end
end
