(* ===== verification/Packet.thy ===== *)
theory Packet
  imports Prelude Checksum
begin

text \<open>
  Packet buffers (\<open>network/packet.h\<close>, \<open>network/packet.c\<close>). A packet owns one buffer, \<open>PKT_HEADROOM\<close>
  bytes of headroom and \<open>capacity\<close> bytes of payload; \<open>data\<close> points into it and moves down when a header
  is prepended and up when one is stripped. The model keeps the buffer as a list of bytes and \<open>data\<close> as
  the offset \<open>data - head\<close>. \<open>malloc\<close> never returns an empty buffer here, so the empty list stands for a
  packet whose \<open>head\<close> (and with it \<open>data\<close>) is \<open>NULL\<close>.

  Packets live in the heap \<open>w_pkts\<close> of the world record, which the other components extend. The
  operations on one packet are functions on the record; \<open>pkt_at\<close> and \<open>pkt_upd\<close> apply them to the packet
  at an address, with \<open>None\<close> for a dangling or \<open>NULL\<close> pointer.
\<close>

section \<open>State\<close>

definition PKT_HEADROOM :: nat where
  "PKT_HEADROOM = 64"

record Packet =
  pkt_head :: bytes
  pkt_data :: nat
  pkt_len :: nat
  pkt_capacity :: nat
  pkt_id :: u32
  pkt_trace_id :: u32
  pkt_parent_id :: u32
  pkt_layer :: int

record pkt_world =
  w_mem :: mem
  w_next_id :: u32
  w_pkts :: "addr \<rightharpoonup> Packet"

definition pkt_at :: "addr \<Rightarrow> 'a pkt_world_scheme \<Rightarrow> Packet option" where
  "pkt_at a w = (if a = NULL then None else w_pkts w a)"

definition pkt_put :: "addr \<Rightarrow> Packet \<Rightarrow> 'a pkt_world_scheme \<Rightarrow> 'a pkt_world_scheme" where
  "pkt_put a p w = w\<lparr>w_pkts := (w_pkts w)(a \<mapsto> p)\<rparr>"

definition alloc :: "'a pkt_world_scheme \<Rightarrow> addr \<times> 'a pkt_world_scheme" where
  "alloc w = (case malloc (w_mem w) of (a, m) \<Rightarrow> (a, w\<lparr>w_mem := m\<rparr>))"

text \<open>No object is larger than \<open>PTRDIFF_MAX\<close> bytes; a request beyond it is refused.\<close>

definition PTRDIFF_MAX :: nat where
  "PTRDIFF_MAX = 2 ^ 63 - 1"

definition alloc_bytes :: "nat \<Rightarrow> 'a pkt_world_scheme \<Rightarrow> addr \<times> 'a pkt_world_scheme" where
  "alloc_bytes n w = (if PTRDIFF_MAX < n then (NULL, w) else alloc w)"

section \<open>Operations\<close>

text \<open>\<open>next_id\<close> is the function-local static counter, which wraps at 32 bits.\<close>

definition packet_create :: "nat \<Rightarrow> 'a pkt_world_scheme \<Rightarrow> addr \<times> 'a pkt_world_scheme" where
  "packet_create capacity w =
     (if SIZE_MAX - PKT_HEADROOM < capacity then (NULL, w)
      else case alloc w of (p, w) \<Rightarrow>
        if p = NULL then (NULL, w)
        else case alloc_bytes (PKT_HEADROOM + capacity) w of (head, w) \<Rightarrow>
          if head = NULL then (NULL, w)
          else (p, (pkt_put p
             \<lparr>pkt_head = fresh_bytes (PKT_HEADROOM + capacity) (w_mem w),
              pkt_data = PKT_HEADROOM, pkt_len = 0, pkt_capacity = capacity,
              pkt_id = w_next_id w, pkt_trace_id = w_next_id w, pkt_parent_id = 0,
              pkt_layer = 0\<rparr> w)\<lparr>w_next_id := w_next_id w + 1\<rparr>))"

definition packet_free :: "addr \<Rightarrow> 'a pkt_world_scheme \<Rightarrow> 'a pkt_world_scheme option" where
  "packet_free p w =
     (if p = NULL then Some w
      else do { _ \<leftarrow> pkt_at p w; Some (w\<lparr>w_pkts := (w_pkts w)(p := None)\<rparr>) })"

definition prepend :: "bytes \<Rightarrow> Packet \<Rightarrow> (int \<times> Packet) option" where
  "prepend header p =
     (if pkt_data p < length header then Some (- 1, p)
      else do {
        let off = pkt_data p - length header;
        h \<leftarrow> write_at (pkt_head p) off header;
        Some (0, p\<lparr>pkt_head := h, pkt_data := off, pkt_len := pkt_len p + length header\<rparr>)
      })"

definition packet_prepend ::
  "addr \<Rightarrow> bytes \<Rightarrow> 'a pkt_world_scheme \<Rightarrow> (int \<times> 'a pkt_world_scheme) option" where
  "packet_prepend a header w = do {
     p \<leftarrow> pkt_at a w;
     (r, p) \<leftarrow> prepend header p;
     Some (r, pkt_put a p w)
   }"

definition strip :: "nat \<Rightarrow> Packet \<Rightarrow> int \<times> Packet" where
  "strip header_len p =
     (if pkt_len p < header_len then (- 1, p)
      else (0, p\<lparr>pkt_data := pkt_data p + header_len, pkt_len := pkt_len p - header_len\<rparr>))"

definition packet_strip ::
  "addr \<Rightarrow> nat \<Rightarrow> 'a pkt_world_scheme \<Rightarrow> (int \<times> 'a pkt_world_scheme) option" where
  "packet_strip a header_len w = do {
     p \<leftarrow> pkt_at a w;
     let (r, p) = strip header_len p;
     Some (r, pkt_put a p w)
   }"

definition packet_validate_view :: "Packet option \<Rightarrow> nat \<Rightarrow> nat \<Rightarrow> int" where
  "packet_validate_view pkt required_headroom minimum_visible_len = (case pkt of
     None \<Rightarrow> - 1
   | Some p \<Rightarrow>
      if pkt_head p = [] then - 1
      else if SIZE_MAX - PKT_HEADROOM < pkt_capacity p then - 1
      else let allocation_size = PKT_HEADROOM + pkt_capacity p in
        if allocation_size < required_headroom then - 1
        else if pkt_data p < required_headroom \<or> allocation_size < pkt_data p then - 1
        else let remaining = allocation_size - pkt_data p in
          if remaining < pkt_len p \<or> pkt_len p < minimum_visible_len then - 1
          else 0)"

definition packet_inherit_trace :: "Packet option \<Rightarrow> Packet option \<Rightarrow> int \<times> Packet option" where
  "packet_inherit_trace child parent = (case (child, parent) of
     (Some c, Some p) \<Rightarrow> (0, Some (c\<lparr>pkt_trace_id := pkt_trace_id p, pkt_parent_id := pkt_id p\<rparr>))
   | _ \<Rightarrow> (- 1, child))"

text \<open>The bytes the packet shows, \<open>data[0 .. n-1]\<close>, and a write at \<open>data + off\<close>.\<close>

definition pkt_read :: "Packet \<Rightarrow> nat \<Rightarrow> nat \<Rightarrow> bytes option" where
  "pkt_read p off n = read_at (pkt_head p) (pkt_data p + off) n"

definition pkt_write :: "nat \<Rightarrow> bytes \<Rightarrow> Packet \<Rightarrow> Packet option" where
  "pkt_write off bs p = do { h \<leftarrow> write_at (pkt_head p) (pkt_data p + off) bs; Some (p\<lparr>pkt_head := h\<rparr>) }"

definition packet_clone :: "addr \<Rightarrow> 'a pkt_world_scheme \<Rightarrow> (addr \<times> 'a pkt_world_scheme) option" where
  "packet_clone a w = do {
     p \<leftarrow> pkt_at a w;
     let (clone, w) = packet_create (pkt_len p) w;
     if clone = NULL then Some (NULL, w)
     else do {
       c \<leftarrow> pkt_at clone w;
       bs \<leftarrow> pkt_read p 0 (pkt_len p);
       c \<leftarrow> pkt_write 0 bs c;
       let c = c\<lparr>pkt_len := pkt_len p, pkt_layer := pkt_layer p\<rparr>;
       let (res, c') = packet_inherit_trace (Some c) (Some p);
       case c' of None \<Rightarrow> None
       | Some c \<Rightarrow>
         let w = pkt_put clone c w in
         if res < 0 then do { w \<leftarrow> packet_free clone w; Some (NULL, w) }
         else Some (clone, w)
     }
   }"

section \<open>Well-formed packets\<close>

definition pkt_wf :: "Packet \<Rightarrow> bool" where
  "pkt_wf p \<longleftrightarrow> pkt_capacity p \<le> SIZE_MAX - PKT_HEADROOM \<and>
     length (pkt_head p) = PKT_HEADROOM + pkt_capacity p \<and>
     pkt_data p + pkt_len p \<le> length (pkt_head p)"

definition visible :: "Packet \<Rightarrow> bytes" where
  "visible p = take (pkt_len p) (drop (pkt_data p) (pkt_head p))"

lemma length_visible [simp]: "pkt_wf p \<Longrightarrow> length (visible p) = pkt_len p"
  by (auto simp: visible_def pkt_wf_def)

lemma pkt_read_visible: "pkt_wf p \<Longrightarrow> pkt_read p 0 (pkt_len p) = Some (visible p)"
  by (simp add: pkt_read_def read_at_def visible_def pkt_wf_def)

lemma pkt_read_within:
  "pkt_wf p \<Longrightarrow> off + n \<le> pkt_len p \<Longrightarrow> pkt_read p off n = Some (take n (drop off (visible p)))"
  by (auto simp: pkt_read_def read_at_def visible_def pkt_wf_def drop_take add.commute)

lemma take_splice:
  assumes "n \<le> length ys" "off + length bs \<le> n"
  shows "take n (take off ys @ bs @ drop (off + length bs) ys) =
    take off (take n ys) @ bs @ drop (off + length bs) (take n ys)"
proof -
  have "length (take off ys) = off" using assms by simp
  then show ?thesis using assms by (simp add: drop_take)
qed

lemma pkt_write_within:
  assumes "pkt_wf p" "off + length bs \<le> pkt_len p"
  obtains p' where "pkt_write off bs p = Some p'" "pkt_wf p'"
    "visible p' = take off (visible p) @ bs @ drop (off + length bs) (visible p)"
    "p' = p\<lparr>pkt_head := pkt_head p'\<rparr>"
proof -
  let ?d = "pkt_data p" and ?h = "pkt_head p"
  let ?h' = "take (?d + off) ?h @ bs @ drop (?d + off + length bs) ?h"
  let ?p' = "p\<lparr>pkt_head := ?h'\<rparr>"
  have le: "?d + off + length bs \<le> length ?h" using assms by (simp add: pkt_wf_def)
  have 1: "pkt_write off bs p = Some ?p'" using le by (simp add: pkt_write_def write_at_def)
  have 2: "pkt_wf ?p'" using assms le by (simp add: pkt_wf_def)
  have "drop ?d ?h' = take off (drop ?d ?h) @ bs @ drop (off + length bs) (drop ?d ?h)"
    using le by (simp add: take_drop add.commute add.left_commute)
  then have "visible ?p' = take (pkt_len p) (take off (drop ?d ?h) @ bs @ drop (off + length bs) (drop ?d ?h))"
    by (simp add: visible_def)
  also have "\<dots> = take off (visible p) @ bs @ drop (off + length bs) (visible p)"
    unfolding visible_def using assms le by (intro take_splice) (auto simp: pkt_wf_def)
  finally show thesis using 1 2 by (intro that [of ?p']) simp_all
qed

text \<open>\<open>packet_validate_view\<close> accepts a well-formed packet exactly when it has the requested headroom in
  front of \<open>data\<close> and the requested number of visible bytes, and it rejects \<open>NULL\<close>.\<close>

lemma validate_view_iff:
  "packet_validate_view None h m = - 1 \<and>
   (pkt_wf p \<longrightarrow> (packet_validate_view (Some p) h m = 0 \<longleftrightarrow> h \<le> pkt_data p \<and> m \<le> pkt_len p))"
  by (auto simp: packet_validate_view_def pkt_wf_def PKT_HEADROOM_def Let_def)

lemma prepend_ok:
  assumes "pkt_wf p" "length h \<le> pkt_data p"
  shows "\<exists>p'. prepend h p = Some (0, p') \<and> pkt_wf p' \<and> visible p' = h @ visible p \<and>
    pkt_data p' = pkt_data p - length h \<and> pkt_len p' = pkt_len p + length h \<and>
    p' = p\<lparr>pkt_head := pkt_head p', pkt_data := pkt_data p', pkt_len := pkt_len p'\<rparr>"
proof -
  let ?off = "pkt_data p - length h"
  let ?h' = "take ?off (pkt_head p) @ h @ drop (pkt_data p) (pkt_head p)"
  have "write_at (pkt_head p) ?off h = Some ?h'"
    using assms by (simp add: write_at_def pkt_wf_def)
  then have "prepend h p = Some (0, p\<lparr>pkt_head := ?h', pkt_data := ?off, pkt_len := pkt_len p + length h\<rparr>)"
    using assms by (simp add: prepend_def Let_def)
  then show ?thesis using assms by (auto simp: pkt_wf_def visible_def)
qed

lemma strip_ok:
  "pkt_wf p \<Longrightarrow> n \<le> pkt_len p \<Longrightarrow> \<exists>p'. strip n p = (0, p') \<and> pkt_wf p' \<and> visible p' = drop n (visible p) \<and>
     pkt_data p' = pkt_data p + n \<and> pkt_len p' = pkt_len p - n \<and> pkt_head p' = pkt_head p"
  by (auto simp: strip_def pkt_wf_def visible_def drop_take add.commute)

section \<open>Headers as a stack\<close>

text \<open>
  The layers of the protocol stack only rely on this: pushing a header succeeds exactly when there is
  room, puts it in front of what is visible, and popping as many bytes undoes it. In particular a whole
  sequence of headers pushed on the way down comes off on the way up.
\<close>

locale header_stack =
  fixes ok :: "'s \<Rightarrow> bool"
    and view :: "'s \<Rightarrow> bytes"
    and room :: "'s \<Rightarrow> nat"
    and push :: "bytes \<Rightarrow> 's \<Rightarrow> 's option"
    and pop :: "nat \<Rightarrow> 's \<Rightarrow> 's option"
  assumes push_room: "ok s \<Longrightarrow> length h \<le> room s \<Longrightarrow>
      \<exists>s'. push h s = Some s' \<and> ok s' \<and> view s' = h @ view s \<and> room s' = room s - length h"
    and push_full: "room s < length h \<Longrightarrow> push h s = None"
    and pop_view: "ok s \<Longrightarrow> n \<le> length (view s) \<Longrightarrow>
      \<exists>s'. pop n s = Some s' \<and> ok s' \<and> view s' = drop n (view s) \<and> room s' = room s + n"
begin

fun push_all :: "bytes list \<Rightarrow> 's \<Rightarrow> 's option" where
  "push_all [] s = Some s"
| "push_all (h # hs) s = do { s \<leftarrow> push h s; push_all hs s }"

lemma push_all_view:
  assumes "ok s" "sum_list (map length hs) \<le> room s"
  shows "\<exists>s'. push_all hs s = Some s' \<and> ok s' \<and> view s' = concat (rev hs) @ view s \<and>
    room s' = room s - sum_list (map length hs)"
  using assms
proof (induction hs arbitrary: s)
  case Nil
  then show ?case by simp
next
  case (Cons h hs)
  then obtain s1 where "push h s = Some s1" "ok s1" "view s1 = h @ view s" "room s1 = room s - length h"
    using push_room [of s h] by auto
  with Cons.IH [of s1] Cons.prems show ?case by auto
qed

lemma push_all_pop:
  assumes "ok s" "sum_list (map length hs) \<le> room s"
  shows "\<exists>s1 s2. push_all hs s = Some s1 \<and> pop (sum_list (map length hs)) s1 = Some s2 \<and> ok s2 \<and>
    view s2 = view s \<and> room s2 = room s"
proof -
  have len: "length (concat (rev hs)) = sum_list (map length hs)"
    by (simp add: length_concat rev_map [symmetric])
  obtain s1 where s1: "push_all hs s = Some s1" "ok s1" "view s1 = concat (rev hs) @ view s"
      "room s1 = room s - sum_list (map length hs)"
    using push_all_view [OF assms] by blast
  with pop_view [of s1 "sum_list (map length hs)"] len assms(2) show ?thesis by auto
qed

end

definition pkt_push :: "bytes \<Rightarrow> Packet \<Rightarrow> Packet option" where
  "pkt_push h p = (case prepend h p of Some (r, p') \<Rightarrow> if r = 0 then Some p' else None | None \<Rightarrow> None)"

definition pkt_pop :: "nat \<Rightarrow> Packet \<Rightarrow> Packet option" where
  "pkt_pop n p = (case strip n p of (r, p') \<Rightarrow> if r = 0 then Some p' else None)"

interpretation pkt_stack: header_stack pkt_wf visible pkt_data pkt_push pkt_pop
proof
  fix p :: Packet and h :: bytes assume "pkt_wf p" "length h \<le> pkt_data p"
  from prepend_ok [OF this] show "\<exists>s'. pkt_push h p = Some s' \<and> pkt_wf s' \<and> visible s' = h @ visible p \<and>
      pkt_data s' = pkt_data p - length h"
    by (auto simp: pkt_push_def)
next
  fix p :: Packet and h :: bytes assume "pkt_data p < length h"
  then show "pkt_push h p = None" by (simp add: pkt_push_def prepend_def)
next
  fix p n assume "pkt_wf p" "n \<le> length (visible p)"
  with strip_ok [of p n] show "\<exists>s'. pkt_pop n p = Some s' \<and> pkt_wf s' \<and> visible s' = drop n (visible p) \<and>
      pkt_data s' = pkt_data p + n"
    by (auto simp: pkt_pop_def)
qed

text \<open>Encapsulation and decapsulation: prepending any sequence of headers that fits into the headroom
  succeeds, leaves them in front of the payload with the last one outermost, and stripping as many bytes
  restores the visible bytes and the headroom.\<close>

lemma encapsulate_decapsulate:
  assumes "pkt_wf p" "sum_list (map length hs) \<le> pkt_data p"
  shows "\<exists>q r. pkt_stack.push_all hs p = Some q \<and> visible q = concat (rev hs) @ visible p \<and>
    strip (sum_list (map length hs)) q = (0, r) \<and> pkt_wf r \<and> visible r = visible p \<and> pkt_data r = pkt_data p"
proof -
  obtain q where q: "pkt_stack.push_all hs p = Some q" "visible q = concat (rev hs) @ visible p"
    using pkt_stack.push_all_view [OF assms] by blast
  with pkt_stack.push_all_pop [OF assms] show ?thesis
    by (auto simp: pkt_pop_def split: prod.splits if_splits)
qed

section \<open>Creation and cloning\<close>

lemma alloc_plenty:
  "mem_oom (w_mem w) = [] \<Longrightarrow>
   alloc w = (Suc (mem_next (w_mem w)), w\<lparr>w_mem := (w_mem w)\<lparr>mem_next := Suc (mem_next (w_mem w))\<rparr>\<rparr>)"
  by (simp add: alloc_def malloc_plenty)

lemma pkt_at_nonnull: "pkt_at a w = Some p \<Longrightarrow> a \<noteq> NULL"
  by (simp add: pkt_at_def split: if_splits)

lemma pkt_at_put [simp]: "a \<noteq> NULL \<Longrightarrow> pkt_at b (pkt_put a p w) = (if b = a then Some p else pkt_at b w)"
  by (simp add: pkt_at_def pkt_put_def)

lemma packet_create_wf:
  assumes "packet_create c w = (a, w')" "a \<noteq> NULL"
  shows "\<exists>p. pkt_at a w' = Some p \<and> pkt_wf p \<and> pkt_len p = 0 \<and> pkt_data p = PKT_HEADROOM \<and>
    pkt_capacity p = c \<and> pkt_layer p = 0 \<and> pkt_id p = w_next_id w \<and> pkt_trace_id p = pkt_id p \<and>
    pkt_parent_id p = 0 \<and> w_next_id w' = w_next_id w + 1 \<and> mem_next (w_mem w) < a \<and>
    (\<forall>b. b \<noteq> a \<longrightarrow> pkt_at b w' = pkt_at b w)"
proof -
  note A = assms
  obtain m1 where m1: "malloc (w_mem w) = (a, m1)" and c: "\<not> SIZE_MAX - PKT_HEADROOM < c"
    using A by (auto simp: packet_create_def alloc_def split: prod.splits if_splits)
  obtain b m2 where m2: "malloc m1 = (b, m2)" by fastforce
  have b: "b \<noteq> NULL" "\<not> PTRDIFF_MAX < PKT_HEADROOM + c"
    using A m1 m2 c by (auto simp: packet_create_def alloc_def alloc_bytes_def split: if_splits)
  have "mem_next (w_mem w) < a" using malloc_fresh [OF m1 A(2)] by simp
  then show ?thesis using A m1 m2 b c
    by (auto simp: packet_create_def alloc_def alloc_bytes_def pkt_at_def pkt_put_def pkt_wf_def fresh_bytes_def)
qed

lemma packet_create_plenty:
  "mem_oom (w_mem w) = [] \<Longrightarrow> PKT_HEADROOM + c \<le> PTRDIFF_MAX \<Longrightarrow> fst (packet_create c w) \<noteq> NULL"
  by (simp add: packet_create_def alloc_def alloc_bytes_def malloc_plenty SIZE_MAX_def PTRDIFF_MAX_def PKT_HEADROOM_def)

lemma packet_clone_cases:
  assumes "pkt_at a w = Some p" "pkt_wf p" "a \<le> mem_next (w_mem w)"
  shows "\<exists>c w'. packet_clone a w = Some (c, w') \<and> c \<noteq> a \<and> pkt_at a w' = Some p \<and>
    (c \<noteq> NULL \<longrightarrow> (\<exists>q. pkt_at c w' = Some q \<and> pkt_wf q \<and> visible q = visible p \<and>
       pkt_data q = PKT_HEADROOM \<and> pkt_layer q = pkt_layer p \<and> pkt_id q = w_next_id w \<and>
       pkt_trace_id q = pkt_trace_id p \<and> pkt_parent_id q = pkt_id p))"
proof -
  have a0: "a \<noteq> NULL" using assms(1) by (rule pkt_at_nonnull)
  obtain c w1 where cr: "packet_create (pkt_len p) w = (c, w1)" by fastforce
  show ?thesis
  proof (cases "c = NULL")
    case True
    moreover have "pkt_at a w1 = pkt_at a w" using cr True
      by (auto simp: packet_create_def alloc_def alloc_bytes_def pkt_at_def split: prod.splits if_splits)
    ultimately show ?thesis using cr assms a0 by (auto simp: packet_clone_def)
  next
    case False
    then obtain q where q: "pkt_at c w1 = Some q" "pkt_wf q" "pkt_data q = PKT_HEADROOM"
        "pkt_capacity q = pkt_len p" "pkt_id q = w_next_id w" and c: "mem_next (w_mem w) < c"
      and other: "\<forall>b. b \<noteq> c \<longrightarrow> pkt_at b w1 = pkt_at b w"
      using packet_create_wf [OF cr] by blast
    have ca: "c \<noteq> a" using c assms(3) by simp
    let ?r = "take (pkt_data q) (pkt_head q) @ visible p @ drop (pkt_data q + length (visible p)) (pkt_head q)"
    have len: "length (visible p) = pkt_len p" using assms(2) by simp
    have lenq: "length (pkt_head q) = PKT_HEADROOM + pkt_len p" using q by (simp add: pkt_wf_def)
    have wr: "pkt_write 0 (visible p) q = Some (q\<lparr>pkt_head := ?r\<rparr>)"
      using q len lenq by (simp add: pkt_write_def write_at_def)
    let ?q = "q\<lparr>pkt_head := ?r, pkt_len := pkt_len p, pkt_layer := pkt_layer p,
      pkt_trace_id := pkt_trace_id p, pkt_parent_id := pkt_id p\<rparr>"
    have "packet_clone a w = Some (c, pkt_put c ?q w1)"
      by (simp add: packet_clone_def assms(1) cr False q(1) pkt_read_visible [OF assms(2)] wr
          packet_inherit_trace_def)
    moreover have "visible ?q = visible p" unfolding visible_def [of ?q] using q(3) len lenq by simp
    moreover have "pkt_wf ?q" using q(2,3,4) len lenq by (simp add: pkt_wf_def)
    moreover have "pkt_at a (pkt_put c ?q w1) = Some p" using False ca other assms(1) by simp
    ultimately show ?thesis using False ca q(3,5) by auto
  qed
qed

lemma packet_clone_plenty:
  assumes "mem_oom (w_mem w) = []" "PKT_HEADROOM + pkt_len p \<le> PTRDIFF_MAX" "pkt_at a w = Some p"
    and "packet_clone a w = Some (c, w')"
  shows "c \<noteq> NULL"
proof -
  obtain d w1 where cr: "packet_create (pkt_len p) w = (d, w1)" by fastforce
  then have "d \<noteq> NULL" using packet_create_plenty [OF assms(1,2)] by simp
  with cr assms(3,4) show ?thesis
    by (auto simp: packet_clone_def packet_inherit_trace_def split: option.splits bind_splits)
qed

text \<open>Cloning a well-formed packet with memory left never faults and returns a new packet with the same
  visible bytes, a full headroom and the trace identity of the original, which is not changed.\<close>

lemma packet_clone_copies:
  assumes "pkt_at a w = Some p" "pkt_wf p" "a \<le> mem_next (w_mem w)"
    and "mem_oom (w_mem w) = []" "PKT_HEADROOM + pkt_len p \<le> PTRDIFF_MAX"
  shows "\<exists>c w' q. packet_clone a w = Some (c, w') \<and> c \<noteq> NULL \<and> c \<noteq> a \<and> pkt_at a w' = Some p \<and>
    pkt_at c w' = Some q \<and> pkt_wf q \<and> visible q = visible p \<and> pkt_data q = PKT_HEADROOM \<and>
    pkt_layer q = pkt_layer p \<and> pkt_id q = w_next_id w \<and>
    pkt_trace_id q = pkt_trace_id p \<and> pkt_parent_id q = pkt_id p"
  using packet_clone_cases [OF assms(1-3)] packet_clone_plenty [OF assms(4,5,1)] by blast

section \<open>What packet operations leave alone\<close>

definition pkt_frame :: "'a pkt_world_scheme \<Rightarrow> 'a pkt_world_scheme \<Rightarrow> bool" where
  "pkt_frame w w' \<longleftrightarrow> w' = w\<lparr>w_mem := w_mem w', w_next_id := w_next_id w', w_pkts := w_pkts w'\<rparr>"

lemma pkt_frameI: "w' = w\<lparr>w_mem := m, w_next_id := n, w_pkts := ps\<rparr> \<Longrightarrow> pkt_frame w w'"
  by (simp add: pkt_frame_def)

lemma pkt_frame_more: "pkt_frame w w' \<Longrightarrow> pkt_world.more w' = pkt_world.more w"
  unfolding pkt_frame_def by (erule ssubst) simp

lemma pkt_frame_iff: "pkt_frame w w' \<longleftrightarrow> pkt_world.more w' = pkt_world.more w"
  by (cases w, cases w') (auto simp: pkt_frame_def)

lemma pkt_frame_refl [simp]: "pkt_frame w w"
  by (simp add: pkt_frame_iff)

lemma pkt_frame_trans: "pkt_frame u v \<Longrightarrow> pkt_frame v w \<Longrightarrow> pkt_frame u w"
  by (simp add: pkt_frame_iff)

lemma pkt_frame_put [simp]: "pkt_frame w (pkt_put a p w)"
  by (simp add: pkt_frame_iff pkt_put_def)

lemma alloc_frame: "alloc w = (a, w') \<Longrightarrow> pkt_frame w w'"
  by (auto simp: alloc_def pkt_frame_iff split: prod.splits)

lemma alloc_bytes_frame: "alloc_bytes n w = (a, w') \<Longrightarrow> pkt_frame w w'"
  by (auto simp: alloc_bytes_def alloc_frame split: if_splits)

lemma packet_create_frame: "packet_create c w = (a, w') \<Longrightarrow> pkt_frame w w'"
  by (auto simp: packet_create_def pkt_put_def pkt_frame_iff alloc_def alloc_bytes_def
      split: if_splits prod.splits)

lemma packet_free_frame: "packet_free p w = Some w' \<Longrightarrow> pkt_frame w w'"
  by (auto simp: packet_free_def pkt_frame_iff split: if_splits bind_splits)

lemma packet_clone_frame: "packet_clone a w = Some (c, w') \<Longrightarrow> pkt_frame w w'"
  by (auto simp: packet_clone_def pkt_frame_iff pkt_put_def packet_inherit_trace_def
      split: bind_splits if_splits prod.splits dest!: packet_create_frame packet_free_frame)

lemma alloc_oom: "alloc w = (a, w') \<Longrightarrow> mem_oom (w_mem w) = [] \<Longrightarrow> mem_oom (w_mem w') = []"
  by (auto simp: alloc_plenty)

lemma packet_create_oom: "packet_create c w = (a, w') \<Longrightarrow> mem_oom (w_mem w) = [] \<Longrightarrow> mem_oom (w_mem w') = []"
  by (auto simp: packet_create_def alloc_bytes_def alloc_plenty pkt_put_def split: if_splits prod.splits)

lemma packet_clone_oom: "packet_clone a w = Some (c, w') \<Longrightarrow> mem_oom (w_mem w) = [] \<Longrightarrow> mem_oom (w_mem w') = []"
  by (auto simp: packet_clone_def pkt_put_def packet_free_def packet_inherit_trace_def
      split: bind_splits if_splits prod.splits dest: packet_create_oom)

lemma packet_prepend_frame: "packet_prepend a h w = Some (r, w') \<Longrightarrow> pkt_frame w w'"
  by (auto simp: packet_prepend_def split: bind_splits)

lemma packet_strip_frame: "packet_strip a n w = Some (r, w') \<Longrightarrow> pkt_frame w w'"
  by (auto simp: packet_strip_def split: bind_splits prod.splits)

lemmas pkt_frames = alloc_frame alloc_bytes_frame packet_create_frame packet_free_frame packet_clone_frame
  packet_prepend_frame packet_strip_frame

section \<open>The packet heap\<close>

text \<open>Every live packet is well formed and was handed out by the allocator.\<close>

definition heap_wf :: "'a pkt_world_scheme \<Rightarrow> bool" where
  "heap_wf w \<longleftrightarrow> (\<forall>a p. pkt_at a w = Some p \<longrightarrow> pkt_wf p \<and> a \<le> mem_next (w_mem w))"

lemma heap_wfD: "heap_wf w \<Longrightarrow> pkt_at a w = Some p \<Longrightarrow> pkt_wf p \<and> a \<le> mem_next (w_mem w)"
  by (simp add: heap_wf_def)

lemma pkt_at_mem [simp]: "pkt_at a (w\<lparr>w_mem := m\<rparr>) = pkt_at a w"
  by (simp add: pkt_at_def)

lemma alloc_heap:
  assumes "alloc w = (a, w')"
  shows "mem_next (w_mem w) \<le> mem_next (w_mem w')" "pkt_at b w' = pkt_at b w" "heap_wf w \<Longrightarrow> heap_wf w'"
proof -
  obtain m where m: "malloc (w_mem w) = (a, m)" "w' = w\<lparr>w_mem := m\<rparr>"
    using assms by (auto simp: alloc_def split: prod.splits)
  then show le: "mem_next (w_mem w) \<le> mem_next (w_mem w')" by (auto dest: malloc_next_mono)
  show at: "pkt_at b w' = pkt_at b w" for b using m by simp
  show "heap_wf w'" if "heap_wf w" using that le unfolding heap_wf_def at by (meson le_trans)
qed

lemma alloc_bytes_heap:
  assumes "alloc_bytes n w = (a, w')"
  shows "mem_next (w_mem w) \<le> mem_next (w_mem w')" "pkt_at b w' = pkt_at b w" "heap_wf w \<Longrightarrow> heap_wf w'"
  using assms alloc_heap [of w a w'] by (auto simp: alloc_bytes_def split: if_splits)

lemma heap_wf_put: "heap_wf w \<Longrightarrow> pkt_at a w \<noteq> None \<Longrightarrow> pkt_wf p \<Longrightarrow> heap_wf (pkt_put a p w)"
proof -
  assume h: "heap_wf w" "pkt_at a w \<noteq> None" "pkt_wf p"
  then have a: "a \<noteq> NULL" "a \<le> mem_next (w_mem w)" by (auto dest: pkt_at_nonnull heap_wfD)
  moreover have "w_mem (pkt_put a p w) = w_mem w" by (simp add: pkt_put_def)
  ultimately show ?thesis using h unfolding heap_wf_def by simp
qed

lemma packet_create_heap:
  assumes "packet_create c w = (a, w')" "heap_wf w"
  shows "heap_wf w'" "b \<noteq> a \<Longrightarrow> pkt_at b w' = pkt_at b w" "a \<noteq> NULL \<Longrightarrow> pkt_at a w = None"
    "mem_next (w_mem w) \<le> mem_next (w_mem w')"
proof -
  have le: "mem_next (w_mem w) \<le> mem_next (w_mem w')" "a \<noteq> NULL \<Longrightarrow> a \<le> mem_next (w_mem w')"
    using assms(1) by (auto simp: packet_create_def alloc_def alloc_bytes_def pkt_put_def malloc_def
        split: if_splits prod.splits list.splits)
  then show "mem_next (w_mem w) \<le> mem_next (w_mem w')" by simp
  have keep: "b \<noteq> a \<Longrightarrow> pkt_at b w' = pkt_at b w" for b
  proof (cases "a = NULL")
    case True
    then show ?thesis using assms(1)
      by (auto simp: packet_create_def alloc_def alloc_bytes_def pkt_at_def split: if_splits prod.splits)
  next
    case False
    then show "b \<noteq> a \<Longrightarrow> pkt_at b w' = pkt_at b w" using packet_create_wf [OF assms(1)] by blast
  qed
  then show "b \<noteq> a \<Longrightarrow> pkt_at b w' = pkt_at b w" .
  show "pkt_at a w = None" if "a \<noteq> NULL"
  proof -
    have "mem_next (w_mem w) < a" using packet_create_wf [OF assms(1) that] by blast
    then show ?thesis using heap_wfD [OF assms(2), of a] by (cases "pkt_at a w") auto
  qed
  show "heap_wf w'" unfolding heap_wf_def
  proof safe
    fix b p assume b: "pkt_at b w' = Some p"
    show "pkt_wf p" using b packet_create_wf [OF assms(1)] keep [of b] assms(2)
      by (cases "b = a") (auto simp: heap_wf_def dest: pkt_at_nonnull)
    show "b \<le> mem_next (w_mem w')" using b keep [of b] assms(2) le
      by (cases "b = a") (auto simp: heap_wf_def dest: pkt_at_nonnull intro: le_trans)
  qed
qed

lemma packet_clone_heap:
  assumes "pkt_at a w = Some p" "heap_wf w"
  obtains c w' where "packet_clone a w = Some (c, w')" "heap_wf w'" "\<And>b. b \<noteq> c \<Longrightarrow> pkt_at b w' = pkt_at b w"
    "c \<noteq> NULL \<Longrightarrow> pkt_at c w = None \<and> pkt_at c w' \<noteq> None"
proof -
  have wf: "pkt_wf p" "a \<le> mem_next (w_mem w)" using assms by (auto simp: heap_wf_def)
  obtain c w1 where cr: "packet_create (pkt_len p) w = (c, w1)" by fastforce
  from packet_clone_cases [OF assms(1) wf] obtain c' w' where cl: "packet_clone a w = Some (c', w')"
    "c' \<noteq> NULL \<longrightarrow> (\<exists>q. pkt_at c' w' = Some q \<and> pkt_wf q)" by blast
  note h = packet_create_heap [OF cr assms(2)]
  have eq: "c' = c" "if c = NULL then w' = w1 else (\<exists>q. w' = pkt_put c q w1)" using cl(1) cr assms(1)
    by (auto simp: packet_clone_def packet_inherit_trace_def split: bind_splits if_splits)
  have at: "pkt_at b w' = pkt_at b w1" if "b \<noteq> c" for b
    using eq(2) that by (auto simp: pkt_put_def pkt_at_def split: if_splits)
  have "heap_wf w'" using eq(2) h(1) cl(2) packet_create_wf [OF cr] eq(1)
    by (cases "c = NULL") (auto intro!: heap_wf_put)
  with that [of c w'] cl eq(1) h at show thesis by auto
qed

lemma packet_free_heap: "packet_free a w = Some w' \<Longrightarrow> heap_wf w \<Longrightarrow> heap_wf w'"
proof -
  assume f: "packet_free a w = Some w'" "heap_wf w"
  then have "w_mem w' = w_mem w" "\<And>b p. pkt_at b w' = Some p \<Longrightarrow> pkt_at b w = Some p"
    by (auto simp: packet_free_def pkt_at_def split: if_splits bind_splits)
  with f(2) show "heap_wf w'" unfolding heap_wf_def by metis
qed

lemma packet_free_live: "pkt_at a w \<noteq> None \<Longrightarrow> \<exists>w'. packet_free a w = Some w'"
  by (auto simp: packet_free_def pkt_at_def)

lemma packet_free_other: "packet_free a w = Some w' \<Longrightarrow> b \<noteq> a \<Longrightarrow> pkt_at b w' = pkt_at b w"
  by (auto simp: packet_free_def pkt_at_def split: if_splits bind_splits)

lemma packet_prepend_heap:
  assumes "pkt_at a w = Some p" "heap_wf w"
  obtains r p' where "packet_prepend a h w = Some (r, pkt_put a p' w)" "pkt_wf p'" "r \<in> {0, - 1}"
    "r = (if pkt_data p < length h then - 1 else 0)"
    "r = 0 \<Longrightarrow> visible p' = h @ visible p \<and> pkt_len p' = pkt_len p + length h" "r = - 1 \<Longrightarrow> p' = p"
proof (cases "pkt_data p < length h")
  case True
  then have "packet_prepend a h w = Some (- 1, pkt_put a p w)" using assms(1)
    by (simp add: packet_prepend_def prepend_def)
  with that [of "- 1" p] True assms show thesis by (simp add: heap_wf_def)
next
  case False
  then have "length h \<le> pkt_data p" by simp
  from prepend_ok [OF _ this] assms obtain p' where "prepend h p = Some (0, p')" "pkt_wf p'"
    "visible p' = h @ visible p" "pkt_len p' = pkt_len p + length h" by (auto simp: heap_wf_def)
  with that [of 0 p'] False assms(1) show thesis by (simp add: packet_prepend_def)
qed

text \<open>A two-byte packet with its data at the end of the headroom.\<close>

definition demo_packet :: Packet where
  "demo_packet = \<lparr>pkt_head = replicate 64 0 @ [1, 2], pkt_data = 64, pkt_len = 2, pkt_capacity = 2,
     pkt_id = 7, pkt_trace_id = 7, pkt_parent_id = 0, pkt_layer = 2\<rparr>"

definition demo_pkt_world :: pkt_world where
  "demo_pkt_world = \<lparr>w_mem = \<lparr>mem_next = 2, mem_oom = [], mem_junk = (\<lambda>_. 0)\<rparr>, w_next_id = 8,
     w_pkts = [1 \<mapsto> demo_packet]\<rparr>"

lemmas demo_packet_facts = demo_packet_def pkt_wf_def PKT_HEADROOM_def SIZE_MAX_def PTRDIFF_MAX_def

lemma validate_view_iff_witness: "packet_validate_view (Some demo_packet) 14 2 = 0"
proof -
  have "pkt_wf demo_packet" by (simp add: demo_packet_facts)
  then show ?thesis using validate_view_iff [of 14 2 demo_packet] by (simp add: demo_packet_facts)
qed

lemma encapsulate_decapsulate_witness:
  "\<exists>q r. pkt_stack.push_all [[5, 6], [9]] demo_packet = Some q \<and> visible q = [9, 5, 6, 1, 2] \<and>
    strip 3 q = (0, r) \<and> visible r = [1, 2]"
proof -
  have "pkt_wf demo_packet" "sum_list (map length [[5, 6 :: u8], [9]]) \<le> pkt_data demo_packet"
    "visible demo_packet = [1, 2]"
    by (simp_all add: demo_packet_facts visible_def)
  then show ?thesis using encapsulate_decapsulate [of demo_packet "[[5, 6], [9]]"] by (auto simp: numeral_3_eq_3)
qed

lemma packet_clone_copies_witness:
  "\<exists>c w q. packet_clone 1 demo_pkt_world = Some (c, w) \<and> pkt_at c w = Some q \<and> visible q = visible demo_packet"
proof -
  have "pkt_at 1 demo_pkt_world = Some demo_packet" "pkt_wf demo_packet"
    "1 \<le> mem_next (w_mem demo_pkt_world)" "mem_oom (w_mem demo_pkt_world) = []"
    "PKT_HEADROOM + pkt_len demo_packet \<le> PTRDIFF_MAX"
    by (simp_all add: demo_packet_facts demo_pkt_world_def pkt_at_def)
  from packet_clone_copies [OF this] show ?thesis by blast
qed

end
