(* ===== verification/Packet_Dump.thy ===== *)
theory Packet_Dump
  imports Packet
begin

text \<open>
  The text that \<open>packet_dump\<close> (\<open>network/packet.c\<close>) prints, with the three conversions of \<open>printf\<close> that it uses.
\<close>

section \<open>Conversions\<close>

text \<open>\<open>%zu\<close>, \<open>%d\<close> and \<open>%02X\<close> of a byte.\<close>

fun fmt_zu :: "nat \<Rightarrow> string" where
  "fmt_zu n = (if n < 10 then [char_of (48 + n)] else fmt_zu (n div 10) @ [char_of (48 + n mod 10)])"

declare fmt_zu.simps [simp del]

definition fmt_d :: "int \<Rightarrow> string" where
  "fmt_d x = (if x < 0 then ''-'' @ fmt_zu (nat (- x)) else fmt_zu (nat x))"

definition fmt_02X :: "u8 \<Rightarrow> string" where
  "fmt_02X b = [''0123456789ABCDEF'' ! (unat b div 16), ''0123456789ABCDEF'' ! (unat b mod 16)]"

definition newline :: string where
  "newline = [CHR 0x0A]"

section \<open>The dump\<close>

text \<open>The loop over the data. The index is an \<open>int\<close>, and so is its bound: a length of \<open>2 ^ 31\<close> and more is cut to 32 bits
  and read as a signed number.\<close>

fun dump_bytes :: "Packet \<Rightarrow> nat list \<Rightarrow> string option" where
  "dump_bytes p [] = Some []"
| "dump_bytes p (i # is) = do {
     b \<leftarrow> pkt_read p i 1;
     rest \<leftarrow> dump_bytes p is;
     Some (fmt_02X (b ! 0) @ '' '' @ (if (i + 1) mod 16 = 0 then newline else []) @ rest)
   }"

definition packet_dump :: "Packet \<Rightarrow> string option" where
  "packet_dump p = do {
     data \<leftarrow> dump_bytes p [0..<nat (sint (of_nat (pkt_len p) :: 32 word))];
     Some (''Packet ID: '' @ fmt_d (sint (pkt_id p)) @ '', Length: '' @ fmt_zu (pkt_len p) @ '', Layer: '' @ fmt_d (pkt_layer p) @ newline @
       ''Data:'' @ newline @ data @ newline)
   }"

section \<open>What is printed\<close>

lemma dump_bytes_visible:
  assumes "pkt_wf p" "\<forall>i \<in> set is. i < pkt_len p"
  shows "dump_bytes p is = Some (concat (map (\<lambda>i. fmt_02X (visible p ! i) @ '' '' @ (if (i + 1) mod 16 = 0 then newline else [])) is))"
  using assms(2)
proof (induction "is")
  case (Cons i "is")
  have i: "i + 1 \<le> pkt_len p" using Cons.prems by simp
  have "pkt_read p i 1 = Some (take 1 (drop i (visible p)))" by (rule pkt_read_within [OF assms(1) i])
  moreover have "i < length (visible p)" using i assms(1) by (auto simp: visible_def pkt_wf_def)
  then have "take 1 (drop i (visible p)) ! 0 = visible p ! i" by simp
  ultimately show ?case using Cons by simp
qed simp

text \<open>A dump shows the bytes of the packet in order, sixteen to a line, and never reads outside the buffer.\<close>

lemma packet_dump_visible:
  assumes "pkt_wf p" "pkt_len p < 2 ^ 31"
  shows "packet_dump p = Some (''Packet ID: '' @ fmt_d (sint (pkt_id p)) @ '', Length: '' @ fmt_zu (pkt_len p) @ '', Layer: '' @ fmt_d (pkt_layer p) @
    newline @ ''Data:'' @ newline @
    concat (map (\<lambda>i. fmt_02X (visible p ! i) @ '' '' @ (if (i + 1) mod 16 = 0 then newline else [])) [0..<pkt_len p]) @ newline)"
proof -
  have "sint (of_nat (pkt_len p) :: 32 word) = int (pkt_len p)" using assms(2) by (simp add: signed_of_nat signed_take_bit_int_eq_self)
  then show ?thesis using dump_bytes_visible [OF assms(1), of "[0..<pkt_len p]"] by (simp add: packet_dump_def)
qed

end
