(* ===== verification/Event.thy ===== *)
theory Event
  imports Packet "HOL-Library.Product_Lexorder" "HOL-Library.Multiset"
begin

text \<open>
  Events and the event queue (\<open>engine/event.h\<close>, \<open>engine/event.c\<close>). The queue is an array of event
  pointers, \<open>count\<close> of \<open>capacity\<close> slots in use, kept sorted by timestamp and sequence number. An unused
  slot of the array is indeterminate, \<open>None\<close> in the model, and reading through one faults.

  A function pointer is a constructor of \<open>EventCallback\<close> named after the C function, and calling it is
  left to the dispatch function that the scheduler takes as an argument. \<open>Cb_extern\<close> stands for callbacks
  that the repository does not define (tests, applications).
\<close>

section \<open>Events\<close>

datatype EventType =
    EVT_PACKET_SEND | EVT_PACKET_RECEIVE | EVT_ARP_REQUEST | EVT_ARP_REPLY | EVT_ROUTING_UPDATE
  | EVT_ROUTE_ADDED | EVT_LINK_UP | EVT_LINK_DOWN | EVT_TIMER_EXPIRED | EVT_RENDER | EVT_RESET
  | EVT_MAC_AGE | EVT_TCP_RETRANSMIT | EVT_RIP_UPDATE | EVT_RIP_TIMEOUT | EVT_RIP_GC
  | EVT_OSPF_HELLO | EVT_OSPF_DEAD | EVT_OSPF_SPF | EVT_BGP_KEEPALIVE | EVT_BGP_HOLD
  | EVT_BGP_CONNECT_RETRY | EVT_ISIS_HELLO | EVT_ISIS_HOLD | EVT_ISIS_SPF | EVT_ISIS_LSP_REGEN
  | EVT_NAT_GC | EVT_TYPE_COUNT

text \<open>The integer value of an enumerator.\<close>

primrec evt_index :: "EventType \<Rightarrow> nat" where
  "evt_index EVT_PACKET_SEND = 0"
| "evt_index EVT_PACKET_RECEIVE = 1"
| "evt_index EVT_ARP_REQUEST = 2"
| "evt_index EVT_ARP_REPLY = 3"
| "evt_index EVT_ROUTING_UPDATE = 4"
| "evt_index EVT_ROUTE_ADDED = 5"
| "evt_index EVT_LINK_UP = 6"
| "evt_index EVT_LINK_DOWN = 7"
| "evt_index EVT_TIMER_EXPIRED = 8"
| "evt_index EVT_RENDER = 9"
| "evt_index EVT_RESET = 10"
| "evt_index EVT_MAC_AGE = 11"
| "evt_index EVT_TCP_RETRANSMIT = 12"
| "evt_index EVT_RIP_UPDATE = 13"
| "evt_index EVT_RIP_TIMEOUT = 14"
| "evt_index EVT_RIP_GC = 15"
| "evt_index EVT_OSPF_HELLO = 16"
| "evt_index EVT_OSPF_DEAD = 17"
| "evt_index EVT_OSPF_SPF = 18"
| "evt_index EVT_BGP_KEEPALIVE = 19"
| "evt_index EVT_BGP_HOLD = 20"
| "evt_index EVT_BGP_CONNECT_RETRY = 21"
| "evt_index EVT_ISIS_HELLO = 22"
| "evt_index EVT_ISIS_HOLD = 23"
| "evt_index EVT_ISIS_SPF = 24"
| "evt_index EVT_ISIS_LSP_REGEN = 25"
| "evt_index EVT_NAT_GC = 26"
| "evt_index EVT_TYPE_COUNT = 27"

definition event_types :: "EventType list" where
  "event_types = [EVT_PACKET_SEND, EVT_PACKET_RECEIVE, EVT_ARP_REQUEST, EVT_ARP_REPLY, EVT_ROUTING_UPDATE,
     EVT_ROUTE_ADDED, EVT_LINK_UP, EVT_LINK_DOWN, EVT_TIMER_EXPIRED, EVT_RENDER, EVT_RESET,
     EVT_MAC_AGE, EVT_TCP_RETRANSMIT, EVT_RIP_UPDATE, EVT_RIP_TIMEOUT, EVT_RIP_GC,
     EVT_OSPF_HELLO, EVT_OSPF_DEAD, EVT_OSPF_SPF, EVT_BGP_KEEPALIVE, EVT_BGP_HOLD, EVT_BGP_CONNECT_RETRY,
     EVT_ISIS_HELLO, EVT_ISIS_HOLD, EVT_ISIS_SPF, EVT_ISIS_LSP_REGEN, EVT_NAT_GC, EVT_TYPE_COUNT]"

lemma event_types_index: "event_types ! evt_index ty = ty"
  by (cases ty) (simp_all add: event_types_def)

lemma evt_index_eq: "evt_index a = evt_index b \<longleftrightarrow> a = b"
  by (metis event_types_index)

text \<open>Comparisons of event types are comparisons of their values.\<close>

instantiation EventType :: linorder
begin

definition less_eq_EventType :: "EventType \<Rightarrow> EventType \<Rightarrow> bool" where
  [simp]: "a \<le> b \<longleftrightarrow> evt_index a \<le> evt_index b"

definition less_EventType :: "EventType \<Rightarrow> EventType \<Rightarrow> bool" where
  [simp]: "a < b \<longleftrightarrow> evt_index a < evt_index b"

instance
  by standard (auto simp: evt_index_eq)

end

datatype EventCallback =
    Cb_NULL
  | Cb_ethernet_receive_event
  | Cb_arp_request_handler
  | Cb_arp_reply_handler
  | Cb_mac_age_handler
  | Cb_tcp_retransmit_handler
  | Cb_tcp_time_wait_handler
  | Cb_rip_update_handler
  | Cb_rip_timeout_handler
  | Cb_rip_gc_handler
  | Cb_ospf_hello_timer
  | Cb_ospf_dead_timer
  | Cb_ospf_spf_timer
  | Cb_extern nat

record Event =
  evt_type :: EventType
  evt_timestamp :: u64
  evt_sequence :: u64
  evt_src_device :: vptr
  evt_dst_device :: vptr
  evt_packet :: addr
  evt_data :: vptr
  evt_handler :: EventCallback
  evt_handler_ctx :: vptr

definition event_create_callback :: "EventType \<Rightarrow> u64 \<Rightarrow> vptr \<Rightarrow> vptr \<Rightarrow> addr \<Rightarrow> vptr \<Rightarrow> EventCallback \<Rightarrow> vptr \<Rightarrow>
    'a pkt_world_scheme \<Rightarrow> Event option \<times> 'a pkt_world_scheme" where
  "event_create_callback ty timestamp src dst packet data handler handler_ctx w =
     (case alloc w of (e, w) \<Rightarrow>
        if e = NULL then (None, w)
        else (Some \<lparr>evt_type = ty, evt_timestamp = timestamp, evt_sequence = 0, evt_src_device = src,
                evt_dst_device = dst, evt_packet = packet, evt_data = data, evt_handler = handler,
                evt_handler_ctx = handler_ctx\<rparr>, w))"

definition event_create :: "EventType \<Rightarrow> u64 \<Rightarrow> vptr \<Rightarrow> vptr \<Rightarrow> addr \<Rightarrow> vptr \<Rightarrow>
    'a pkt_world_scheme \<Rightarrow> Event option \<times> 'a pkt_world_scheme" where
  "event_create ty timestamp src dst packet data w =
     event_create_callback ty timestamp src dst packet data Cb_NULL VNull w"

section \<open>The queue\<close>

record EventQueue =
  eq_events :: "Event option list"
  eq_count :: nat
  eq_capacity :: nat

text \<open>The number of slots of an array of \<open>n\<close> pointers: the byte size \<open>sizeof(Event *) * n\<close> is computed in
  \<open>size_t\<close>.\<close>

definition ptr_slots :: "nat \<Rightarrow> nat" where
  "ptr_slots n = (8 * n) mod 2 ^ 64 div 8"

definition alloc_ptrs :: "nat \<Rightarrow> 'a pkt_world_scheme \<Rightarrow> addr \<times> 'a pkt_world_scheme" where
  "alloc_ptrs n w = alloc_bytes ((8 * n) mod 2 ^ 64) w"

definition event_queue_create :: "nat \<Rightarrow> 'a pkt_world_scheme \<Rightarrow> EventQueue option \<times> 'a pkt_world_scheme" where
  "event_queue_create capacity w = (case alloc w of (eq, w) \<Rightarrow>
     if eq = NULL then (None, w)
     else case alloc_ptrs capacity w of (events, w) \<Rightarrow>
       if events = NULL then (None, w)
       else (Some \<lparr>eq_events = replicate (ptr_slots capacity) None, eq_count = 0, eq_capacity = capacity\<rparr>, w))"

text \<open>Assignment to a slot of the array.\<close>

definition set_slot :: "Event option list \<Rightarrow> nat \<Rightarrow> Event option \<Rightarrow> Event option list option" where
  "set_slot evs i x = (if i < length evs then Some (evs[i := x]) else None)"

definition evt_before :: "Event \<Rightarrow> Event \<Rightarrow> bool" where
  "evt_before previous e \<longleftrightarrow> evt_timestamp previous < evt_timestamp e \<or>
     (evt_timestamp previous = evt_timestamp e \<and> evt_sequence previous \<le> evt_sequence e)"

text \<open>The insertion loop, with \<open>insertion_index\<close> as its counter, and the final assignment.\<close>

fun sift_down :: "Event option list \<Rightarrow> nat \<Rightarrow> Event \<Rightarrow> Event option list option" where
  "sift_down evs 0 e = set_slot evs 0 (Some e)"
| "sift_down evs (Suc i) e =
     (if i < length evs
      then do {
        previous \<leftarrow> evs ! i;
        if evt_before previous e then set_slot evs (Suc i) (Some e)
        else do { evs \<leftarrow> set_slot evs (Suc i) (Some previous); sift_down evs i e }
      }
      else None)"

definition event_queue_push :: "EventQueue \<Rightarrow> Event \<Rightarrow> 'a pkt_world_scheme \<Rightarrow>
    (int \<times> EventQueue \<times> 'a pkt_world_scheme) option" where
  "event_queue_push eq e w = do {
     let (grown, eq, w) =
       (if eq_capacity eq \<le> eq_count eq
        then let new_capacity = eq_capacity eq * 2 mod 2 ^ 64; (new_events, w) = alloc_ptrs new_capacity w in
          if new_events = NULL then (False, eq, w)
          else (True, eq\<lparr>eq_events := take (ptr_slots new_capacity)
                  (eq_events eq @ replicate (ptr_slots new_capacity) None),
                eq_capacity := new_capacity\<rparr>, w)
        else (True, eq, w));
     if \<not> grown then Some (- 1, eq, w)
     else do {
       evs \<leftarrow> sift_down (eq_events eq) (eq_count eq) e;
       Some (0, eq\<lparr>eq_events := evs, eq_count := eq_count eq + 1\<rparr>, w)
     }
   }"

definition event_queue_pop :: "EventQueue \<Rightarrow> (Event option \<times> EventQueue) option" where
  "event_queue_pop eq =
     (if eq_count eq = 0 then Some (None, eq)
      else if eq_count eq \<le> length (eq_events eq) then do {
        e \<leftarrow> eq_events eq ! 0;
        let n = eq_count eq - 1;
        Some (Some e, eq\<lparr>eq_events := take n (drop 1 (eq_events eq)) @ drop n (eq_events eq),
                         eq_count := n\<rparr>)
      }
      else None)"

definition event_queue_peek :: "EventQueue \<Rightarrow> Event option option" where
  "event_queue_peek eq =
     (if eq_count eq = 0 then Some None
      else if 0 < length (eq_events eq) then do { e \<leftarrow> eq_events eq ! 0; Some (Some e) }
      else None)"

definition event_queue_is_empty :: "EventQueue \<Rightarrow> int" where
  "event_queue_is_empty eq = (if eq_count eq = 0 then 1 else 0)"

section \<open>Stable priority queues\<close>

text \<open>
  What a scheduler needs of its queue. The queue holds a list of items sorted by a key, a push puts the
  new item behind all items whose key is not larger, and a pop takes the first item.
\<close>

definition insert_by :: "('e \<Rightarrow> 'k :: linorder) \<Rightarrow> 'e \<Rightarrow> 'e list \<Rightarrow> 'e list" where
  "insert_by f e xs = filter (\<lambda>x. f x \<le> f e) xs @ e # filter (\<lambda>x. \<not> f x \<le> f e) xs"

lemma insert_by_sort_key: "insert_by f e (sort_key f xs) = sort_key f (xs @ [e])"
proof (rule sym, rule properties_for_sort_key)
  show "mset (insert_by f e (sort_key f xs)) = mset (xs @ [e])"
    using mset_filter [of "\<lambda>x. f x \<le> f e" "sort_key f xs"]
    by (simp add: insert_by_def union_filter_mset_complement)
next
  fix k
  have "filter (\<lambda>x. f k = f x) (insert_by f e (sort_key f xs)) =
    filter (\<lambda>x. f k = f x) (sort_key f xs) @ (if f k = f e then [e] else [])"
  proof (cases "f k \<le> f e")
    case True
    then have "(\<lambda>x. f x \<le> f e \<and> f k = f x) = (\<lambda>x. f k = f x)" "(\<lambda>x. \<not> f x \<le> f e \<and> f k = f x) = (\<lambda>x. False)"
      by auto
    then show ?thesis by (auto simp: insert_by_def filter_empty_conv)
  next
    case False
    then have "(\<lambda>x. f x \<le> f e \<and> f k = f x) = (\<lambda>x. False)" "(\<lambda>x. \<not> f x \<le> f e \<and> f k = f x) = (\<lambda>x. f k = f x)"
      by auto
    with False show ?thesis by (auto simp: insert_by_def)
  qed
  then show "filter (\<lambda>x. f k = f x) (insert_by f e (sort_key f xs)) = filter (\<lambda>x. f k = f x) (xs @ [e])"
    using sort_key_stable [of f "f k" xs] by (simp add: eq_commute [of "f k"])
next
  show "sorted (map f (insert_by f e (sort_key f xs)))"
    by (auto simp: insert_by_def sorted_append intro!: sorted_filter)
qed

locale stable_queue =
  fixes ok :: "'q \<Rightarrow> bool"
    and items :: "'q \<Rightarrow> 'e list"
    and key :: "'e \<Rightarrow> 'k :: linorder"
    and push :: "'e \<Rightarrow> 'q \<Rightarrow> 'q option"
    and pop :: "'q \<Rightarrow> ('e option \<times> 'q) option"
  assumes items_sorted: "ok q \<Longrightarrow> sorted (map key (items q))"
    and push_items: "ok q \<Longrightarrow> push e q = Some q' \<Longrightarrow> ok q' \<and> items q' = insert_by key e (items q)"
    and pop_none: "ok q \<Longrightarrow> items q = [] \<Longrightarrow> pop q = Some (None, q)"
    and pop_first: "ok q \<Longrightarrow> items q = e # es \<Longrightarrow> \<exists>q'. pop q = Some (Some e, q') \<and> ok q' \<and> items q' = es"
begin

fun push_list :: "'e list \<Rightarrow> 'q \<Rightarrow> 'q option" where
  "push_list [] q = Some q"
| "push_list (e # es) q = do { q \<leftarrow> push e q; push_list es q }"

fun drain :: "nat \<Rightarrow> 'q \<Rightarrow> 'e list option" where
  "drain 0 q = Some []"
| "drain (Suc n) q = do {
     (r, q) \<leftarrow> pop q;
     case r of None \<Rightarrow> Some [] | Some e \<Rightarrow> do { es \<leftarrow> drain n q; Some (e # es) }
   }"

lemma push_list_items:
  "ok q \<Longrightarrow> items q = sort_key key xs \<Longrightarrow> push_list es q = Some q' \<Longrightarrow>
   ok q' \<and> items q' = sort_key key (xs @ es)"
proof (induction es arbitrary: q xs)
  case Nil
  then show ?case by simp
next
  case (Cons e es)
  then obtain q1 where q1: "push e q = Some q1" "push_list es q1 = Some q'"
    by (auto split: bind_splits)
  with Cons.prems push_items [of q e q1] have "ok q1" "items q1 = sort_key key (xs @ [e])"
    by (simp_all add: insert_by_sort_key)
  from Cons.IH [OF this q1(2)] show ?case by simp
qed

lemma drain_items: "ok q \<Longrightarrow> length (items q) \<le> n \<Longrightarrow> drain n q = Some (items q)"
proof (induction n arbitrary: q)
  case 0
  then show ?case by simp
next
  case (Suc n)
  show ?case
  proof (cases "items q")
    case Nil
    with Suc.prems pop_none [of q] show ?thesis by simp
  next
    case (Cons e es)
    then obtain q' where "pop q = Some (Some e, q')" "ok q'" "items q' = es"
      using pop_first [of q e es] Suc.prems by auto
    with Suc.IH [of q'] Suc.prems Cons show ?thesis by simp
  qed
qed

text \<open>Popping everything returns what was pushed, in the order of a stable sort: by key, and first in first
  out among equal keys.\<close>

lemma push_drain:
  assumes "ok q" "items q = []" "push_list es q = Some q'" "length es \<le> n"
  shows "drain n q' = Some (sort_key key es)"
proof -
  have "items q = sort_key key []" using assms(2) by simp
  from push_list_items [OF assms(1) this assms(3)] assms(4) show ?thesis
    using drain_items [of q' n] by simp
qed

end

section \<open>The array queue implements it\<close>

definition evt_key :: "Event \<Rightarrow> u64 \<times> u64" where
  "evt_key e = (evt_timestamp e, evt_sequence e)"

definition eq_list :: "EventQueue \<Rightarrow> Event list" where
  "eq_list eq = map the (take (eq_count eq) (eq_events eq))"

definition queue_wf :: "EventQueue \<Rightarrow> bool" where
  "queue_wf eq \<longleftrightarrow> 0 < eq_capacity eq \<and> 8 * eq_capacity eq \<le> PTRDIFF_MAX \<and>
     length (eq_events eq) = eq_capacity eq \<and> eq_count eq \<le> eq_capacity eq \<and>
     None \<notin> set (take (eq_count eq) (eq_events eq)) \<and> sorted (map evt_key (eq_list eq))"

lemma evt_before_key: "evt_before a b \<longleftrightarrow> evt_key a \<le> evt_key b"
  by (auto simp: evt_before_def evt_key_def less_eq_prod_def)

text \<open>The array of a well-formed queue: its items, then the unused slots.\<close>

lemma map_Some_the: "None \<notin> set xs \<Longrightarrow> map Some (map the xs) = xs"
  by (induction xs) auto

lemma queue_wf_array:
  assumes "queue_wf eq"
  shows "eq_events eq = map Some (eq_list eq) @ drop (eq_count eq) (eq_events eq)"
    and "length (eq_list eq) = eq_count eq"
proof -
  show "eq_events eq = map Some (eq_list eq) @ drop (eq_count eq) (eq_events eq)"
    using assms map_Some_the [of "take (eq_count eq) (eq_events eq)"]
    by (simp add: queue_wf_def eq_list_def)
  show "length (eq_list eq) = eq_count eq" using assms by (simp add: queue_wf_def eq_list_def)
qed

lemma queue_wfI:
  assumes "eq_events eq = map Some es @ free" "length es = eq_count eq" "sorted (map evt_key es)"
    and "0 < eq_capacity eq" "8 * eq_capacity eq \<le> PTRDIFF_MAX" "length (eq_events eq) = eq_capacity eq"
  shows "queue_wf eq" and "eq_list eq = es"
proof -
  have t: "take (eq_count eq) (eq_events eq) = map Some es" using assms(1,2) by simp
  then have l: "eq_list eq = es" by (simp add: eq_list_def o_def)
  have "eq_count eq \<le> length (eq_events eq)" using assms(1,2) by simp
  with assms t l show "queue_wf eq" by (simp add: queue_wf_def)
  show "eq_list eq = es" by (rule l)
qed

lemma insert_by_snoc:
  assumes "sorted (map f (ys @ [p]))"
  shows "insert_by f e (ys @ [p]) = (if f p \<le> f e then ys @ [p, e] else insert_by f e ys @ [p])"
proof (cases "f p \<le> f e")
  case True
  with assms have "\<forall>x \<in> set ys. f x \<le> f e" by (auto simp: sorted_append)
  with True show ?thesis by (simp add: insert_by_def)
next
  case False
  then show ?thesis by (simp add: insert_by_def)
qed

text \<open>The shifting loop is a stable insertion.\<close>

lemma sift_down_inserts:
  assumes "sorted (map evt_key es)" "free \<noteq> []"
  shows "sift_down (map Some es @ free) (length es) e = Some (map Some (insert_by evt_key e es) @ tl free)"
  using assms
proof (induction es arbitrary: free rule: rev_induct)
  case Nil
  then show ?case by (cases free) (simp_all add: set_slot_def insert_by_def)
next
  case (snoc p es)
  let ?evs = "map Some (es @ [p]) @ free"
  have prev: "?evs ! length es = Some p" by (simp add: nth_append)
  have set: "set_slot ?evs (Suc (length es)) x = Some (map Some es @ Some p # x # tl free)" for x
    using snoc.prems(2) by (cases free) (simp_all add: set_slot_def list_update_append)
  show ?case
  proof (cases "evt_before p e")
    case True
    then show ?thesis using snoc.prems set prev
      by (simp add: insert_by_snoc evt_before_key)
  next
    case False
    have "sorted (map evt_key es)" using snoc.prems(1) by (simp add: sorted_append)
    from snoc.IH [OF this, of "Some p # Some p # tl free"] False show ?thesis
      using snoc.prems set [of "Some p"] prev by (simp add: insert_by_snoc evt_before_key)
  qed
qed

lemma insert_by_sorted: "sorted (map f xs) \<Longrightarrow> sorted (map f (insert_by f e xs))"
  by (auto simp: insert_by_def sorted_append intro!: sorted_filter)

lemma insert_by_mset: "mset (insert_by f e xs) = add_mset e (mset xs)"
  by (simp add: insert_by_def union_filter_mset_complement)

lemma length_insert_by: "length (insert_by f e xs) = Suc (length xs)"
  using insert_by_mset [of f e xs] by (metis size_add_mset size_mset)

lemma push_room:
  assumes "queue_wf eq" "eq_count eq < eq_capacity eq"
  shows "\<exists>eq'. event_queue_push eq e w = Some (0, eq', w) \<and> queue_wf eq' \<and>
    eq_list eq' = insert_by evt_key e (eq_list eq) \<and> eq_capacity eq' = eq_capacity eq"
proof -
  let ?free = "drop (eq_count eq) (eq_events eq)"
  note arr = queue_wf_array [OF assms(1)]
  have s: "sorted (map evt_key (eq_list eq))" and f: "?free \<noteq> []"
    using assms by (auto simp: queue_wf_def)
  let ?eq' = "eq\<lparr>eq_events := map Some (insert_by evt_key e (eq_list eq)) @ tl ?free,
    eq_count := eq_count eq + 1\<rparr>"
  have "sift_down (eq_events eq) (eq_count eq) e = Some (eq_events ?eq')"
    using sift_down_inserts [OF s f] arr by simp
  then have 1: "event_queue_push eq e w = Some (0, ?eq', w)"
    using assms(2) by (simp add: event_queue_push_def)
  have "length (eq_events ?eq') = eq_capacity eq"
    using assms by (simp add: queue_wf_def length_insert_by arr(2))
  then have "queue_wf ?eq'" "eq_list ?eq' = insert_by evt_key e (eq_list eq)"
    using assms(1) arr(2) insert_by_sorted [OF s] length_insert_by [of evt_key e "eq_list eq"]
    by (intro queue_wfI [where es = "insert_by evt_key e (eq_list eq)" and free = "tl ?free"];
        simp add: queue_wf_def)+
  with 1 show ?thesis by auto
qed

lemma push_grow:
  assumes "queue_wf eq" "eq_count eq = eq_capacity eq" "alloc_ptrs (eq_capacity eq * 2) w = (a, w')"
  shows "if a = NULL then event_queue_push eq e w = Some (- 1, eq, w')
    else \<exists>eq1. queue_wf eq1 \<and> eq_list eq1 = eq_list eq \<and> eq_capacity eq1 = eq_capacity eq * 2 \<and>
      eq_count eq1 = eq_count eq \<and> event_queue_push eq e w = event_queue_push eq1 e w'"
proof -
  let ?c = "eq_capacity eq * 2"
  let ?eq1 = "eq\<lparr>eq_events := eq_events eq @ replicate (eq_capacity eq) None, eq_capacity := ?c\<rparr>"
  have small: "8 * eq_capacity eq \<le> PTRDIFF_MAX" "0 < eq_capacity eq"
      "length (eq_events eq) = eq_capacity eq"
    using assms(1) by (simp_all add: queue_wf_def)
  then have c: "eq_capacity eq * 2 mod 2 ^ 64 = ?c" "ptr_slots ?c = ?c" "(8 * ?c) mod 2 ^ 64 = 8 * ?c"
    by (simp_all add: PTRDIFF_MAX_def ptr_slots_def)
  show ?thesis
  proof (cases "a = NULL")
    case True
    then show ?thesis using assms(2,3) c by (simp add: event_queue_push_def Let_def)
  next
    case False
    then have "8 * ?c \<le> PTRDIFF_MAX" using assms(3) c
      by (simp add: alloc_ptrs_def alloc_bytes_def split: if_splits)
    then have "queue_wf ?eq1" "eq_list ?eq1 = eq_list eq"
      using assms(1) small queue_wf_array [OF assms(1)]
      by (intro queue_wfI [where es = "eq_list eq" and
            free = "drop (eq_count eq) (eq_events eq) @ replicate (eq_capacity eq) None"];
          simp add: queue_wf_def)+
    moreover have "take ?c (eq_events eq @ replicate ?c None) = eq_events eq @ replicate (eq_capacity eq) None"
      using small(3) by simp
    then have "event_queue_push eq e w = event_queue_push ?eq1 e w'"
      using False assms(2,3) c small(2) by (simp add: event_queue_push_def Let_def)
    ultimately show ?thesis using False by (auto intro!: exI [of _ ?eq1])
  qed
qed

lemma event_queue_push_cases:
  assumes "queue_wf eq"
  obtains (pushed) eq' w' where "event_queue_push eq e w = Some (0, eq', w')" "queue_wf eq'"
      "eq_list eq' = insert_by evt_key e (eq_list eq)" "w' = w\<lparr>w_mem := w_mem w'\<rparr>"
    | (refused) w' where "event_queue_push eq e w = Some (- 1, eq, w')" "eq_count eq = eq_capacity eq"
      "fst (alloc_ptrs (eq_capacity eq * 2) w) = NULL" "w' = w\<lparr>w_mem := w_mem w'\<rparr>"
proof (cases "eq_count eq < eq_capacity eq")
  case True
  from push_room [OF assms True, of e w] show thesis using pushed by auto
next
  case False
  then have full: "eq_count eq = eq_capacity eq" using assms by (simp add: queue_wf_def)
  obtain a w1 where a: "alloc_ptrs (eq_capacity eq * 2) w = (a, w1)" by fastforce
  have w1: "w1 = w\<lparr>w_mem := w_mem w1\<rparr>" using a
    by (auto simp: alloc_ptrs_def alloc_bytes_def alloc_def split: if_splits prod.splits)
  show thesis
  proof (cases "a = NULL")
    case True
    with push_grow [OF assms full a] a w1 full show thesis by (intro refused) auto
  next
    case False
    then obtain eq1 where eq1: "queue_wf eq1" "eq_list eq1 = eq_list eq"
        "eq_capacity eq1 = eq_capacity eq * 2" "eq_count eq1 = eq_count eq"
        "event_queue_push eq e w = event_queue_push eq1 e w1"
      using push_grow [OF assms full a] by auto
    then have "eq_count eq1 < eq_capacity eq1" using full assms by (simp add: queue_wf_def)
    from push_room [OF eq1(1) this, of e w1] eq1 w1 show thesis using pushed by auto
  qed
qed

lemma event_queue_pop_wf:
  assumes "queue_wf eq" "eq_list eq = e # es"
  shows "\<exists>eq'. event_queue_pop eq = Some (Some e, eq') \<and> queue_wf eq' \<and> eq_list eq' = es \<and>
    eq_capacity eq' = eq_capacity eq"
proof -
  note arr = queue_wf_array [OF assms(1)]
  let ?n = "eq_count eq - 1"
  let ?eq' = "eq\<lparr>eq_events := take ?n (drop 1 (eq_events eq)) @ drop ?n (eq_events eq), eq_count := ?n\<rparr>"
  have n: "eq_count eq = Suc (length es)" using arr(2) assms(2) by simp
  have first: "eq_events eq ! 0 = Some e" using arr(1) assms(2)
    by (metis append_Cons list.simps(9) nth_Cons_0)
  have "event_queue_pop eq = Some (Some e, ?eq')"
    using assms(1) n first by (simp add: event_queue_pop_def queue_wf_def Let_def)
  moreover have "drop 1 (eq_events eq) = map Some es @ drop (eq_count eq) (eq_events eq)"
    using arg_cong [OF arr(1), of "drop 1"] assms(2) by simp
  then have "eq_events ?eq' = map Some es @ drop ?n (eq_events eq)" using n by simp
  then have "queue_wf ?eq'" "eq_list ?eq' = es"
    using assms n by (intro queue_wfI [where es = es and free = "drop ?n (eq_events eq)"];
        simp add: queue_wf_def)+
  ultimately show ?thesis by auto
qed

lemma event_queue_pop_empty: "eq_list eq = [] \<Longrightarrow> queue_wf eq \<Longrightarrow> event_queue_pop eq = Some (None, eq)"
  by (auto simp: eq_list_def event_queue_pop_def queue_wf_def)

lemma event_queue_push_result:
  assumes "queue_wf eq" "event_queue_push eq e w = Some (0, eq', w')"
  shows "queue_wf eq'" and "eq_list eq' = insert_by evt_key e (eq_list eq)"
  by (rule event_queue_push_cases [OF assms(1), of e w]; use assms(2) in simp)+

lemma event_queue_push_next:
  "event_queue_push eq e w = Some (r, eq', w') \<Longrightarrow> mem_next (w_mem w) \<le> mem_next (w_mem w')"
  by (auto simp: event_queue_push_def alloc_ptrs_def Let_def dest: alloc_bytes_heap(1)
      split: if_splits prod.splits bind_splits option.splits)

lemma event_queue_push_oom:
  "event_queue_push eq e w = Some (r, eq', w') \<Longrightarrow> mem_oom (w_mem w) = [] \<Longrightarrow> mem_oom (w_mem w') = []"
  by (auto simp: event_queue_push_def alloc_ptrs_def alloc_bytes_def Let_def dest: alloc_oom
      split: if_splits prod.splits bind_splits option.splits)

text \<open>The queue with the allocator it grows by is a stable priority queue.\<close>

definition eq_push :: "Event \<Rightarrow> EventQueue \<times> 'a pkt_world_scheme \<Rightarrow> (EventQueue \<times> 'a pkt_world_scheme) option" where
  "eq_push e = (\<lambda>(eq, w). case event_queue_push eq e w of
     Some (r, eq', w') \<Rightarrow> if r = 0 then Some (eq', w') else None | None \<Rightarrow> None)"

definition eq_pop :: "EventQueue \<times> 'a pkt_world_scheme \<Rightarrow> (Event option \<times> EventQueue \<times> 'a pkt_world_scheme) option" where
  "eq_pop = (\<lambda>(eq, w). map_option (\<lambda>(r, eq'). (r, eq', w)) (event_queue_pop eq))"

interpretation evq: stable_queue "queue_wf \<circ> fst" "eq_list \<circ> fst" evt_key eq_push eq_pop
proof
  fix q :: "EventQueue \<times> 'a pkt_world_scheme" and e q'
  assume "(queue_wf \<circ> fst) q" and "eq_push e q = Some q'"
  then show "(queue_wf \<circ> fst) q' \<and> (eq_list \<circ> fst) q' = insert_by evt_key e ((eq_list \<circ> fst) q)"
    using event_queue_push_result [of "fst q" e "snd q" "fst q'" "snd q'"]
    by (cases q) (auto simp: eq_push_def split: option.splits if_splits)
next
  fix q :: "EventQueue \<times> 'a pkt_world_scheme" and e es
  assume "(queue_wf \<circ> fst) q" "(eq_list \<circ> fst) q = e # es"
  then show "\<exists>q'. eq_pop q = Some (Some e, q') \<and> (queue_wf \<circ> fst) q' \<and> (eq_list \<circ> fst) q' = es"
    using event_queue_pop_wf [of "fst q" e es] by (cases q) (auto simp: eq_pop_def)
qed (auto simp: queue_wf_def eq_pop_def event_queue_pop_empty)

lemma push_list_fits:
  "queue_wf eq \<Longrightarrow> eq_count eq + length es \<le> eq_capacity eq \<Longrightarrow> \<exists>eq'. evq.push_list es (eq, w) = Some (eq', w)"
proof (induction es arbitrary: eq)
  case Nil
  then show ?case by simp
next
  case (Cons e es)
  then have "eq_count eq < eq_capacity eq" by simp
  from push_room [OF Cons.prems(1) this, of e w] obtain eq1 where
    eq1: "event_queue_push eq e w = Some (0, eq1, w)" "queue_wf eq1"
      "eq_list eq1 = insert_by evt_key e (eq_list eq)" "eq_capacity eq1 = eq_capacity eq" by blast
  then have "eq_count eq1 = Suc (eq_count eq)"
    using queue_wf_array(2) [OF Cons.prems(1)] queue_wf_array(2) [OF eq1(2)] by (simp add: length_insert_by)
  moreover have "eq_push e (eq, w) = Some (eq1, w)" by (simp add: eq_push_def eq1(1))
  ultimately show ?case using Cons.IH [OF eq1(2)] Cons.prems(2) eq1(4) by simp
qed

text \<open>C30. Pushing into a well-formed queue never faults. When it returns 0, the queue holds one event more,
  inserted behind every event that is not later, and stays sorted; when it returns -1 the queue is as it
  was, and this happens only when the array is full and cannot grow.\<close>

lemma event_queue_push_stable:
  assumes "queue_wf eq"
  shows "\<exists>r eq' w'. event_queue_push eq e w = Some (r, eq', w') \<and> queue_wf eq' \<and>
    (r = 0 \<and> eq_list eq' = filter (\<lambda>x. evt_before x e) (eq_list eq) @ e # filter (\<lambda>x. \<not> evt_before x e) (eq_list eq) \<or>
     r = - 1 \<and> eq' = eq \<and> eq_count eq = eq_capacity eq \<and> fst (alloc_ptrs (eq_capacity eq * 2) w) = NULL)"
  by (rule event_queue_push_cases [OF assms, of e w])
     (auto simp: insert_by_def evt_before_key [abs_def] assms)

text \<open>Whatever is pushed into an empty queue comes out in the order of a stable sort by timestamp and
  sequence number: events of the same key leave in the order in which they were pushed.\<close>

lemma event_queue_push_pop_sorts:
  fixes w :: "'a pkt_world_scheme"
  assumes "queue_wf eq" "eq_list eq = []" "evq.push_list es (eq, w) = Some q"
  shows "evq.drain (length es) q = Some (sort_key evt_key es)"
  using evq.push_drain [of "(eq, w)" es q "length es"] assms by simp

text \<open>\<open>event_queue_pop\<close> returns an earliest event of a well-formed queue, removes exactly it and keeps
  the queue well formed; on an empty queue it returns \<open>NULL\<close> and changes nothing.\<close>

lemma event_queue_pop_min:
  assumes "queue_wf eq"
  shows "\<exists>r eq'. event_queue_pop eq = Some (r, eq') \<and> queue_wf eq' \<and>
    (case r of None \<Rightarrow> eq_list eq = [] \<and> eq' = eq
     | Some e \<Rightarrow> eq_list eq = e # eq_list eq' \<and> list_all (evt_before e) (eq_list eq'))"
proof (cases "eq_list eq")
  case Nil
  with assms show ?thesis by (auto simp: event_queue_pop_empty)
next
  case (Cons e es)
  moreover have "sorted (map evt_key (eq_list eq))" using assms by (simp add: queue_wf_def)
  ultimately have "list_all (evt_before e) es" by (auto simp: list_all_iff evt_before_key)
  with event_queue_pop_wf [OF assms Cons] Cons show ?thesis by auto
qed

definition demo_event :: "u64 \<Rightarrow> nat \<Rightarrow> Event" where
  "demo_event t n = \<lparr>evt_type = EVT_TIMER_EXPIRED, evt_timestamp = t, evt_sequence = 0, evt_src_device = VNull,
     evt_dst_device = VNull, evt_packet = NULL, evt_data = VNull, evt_handler = Cb_extern n,
     evt_handler_ctx = VNull\<rparr>"

definition demo_queue :: EventQueue where
  "demo_queue = \<lparr>eq_events = [None, None, None, None], eq_count = 0, eq_capacity = 4\<rparr>"

lemma demo_queue_wf: "queue_wf demo_queue" "eq_list demo_queue = []"
  by (simp_all add: demo_queue_def queue_wf_def eq_list_def PTRDIFF_MAX_def)

lemma event_queue_push_stable_witness:
  "\<exists>r eq' w'. event_queue_push demo_queue (demo_event 5 1) demo_pkt_world = Some (r, eq', w') \<and> queue_wf eq'"
  using event_queue_push_stable [OF demo_queue_wf(1), of "demo_event 5 1" demo_pkt_world] by blast

lemma event_queue_push_pop_sorts_witness:
  "\<exists>q. evq.push_list [demo_event 5 1, demo_event 3 2, demo_event 5 3] (demo_queue, demo_pkt_world) = Some q \<and>
     evq.drain 3 q = Some [demo_event 3 2, demo_event 5 1, demo_event 5 3]"
proof -
  let ?es = "[demo_event 5 1, demo_event 3 2, demo_event 5 3]"
  have "eq_count demo_queue + length ?es \<le> eq_capacity demo_queue" by (simp add: demo_queue_def)
  from push_list_fits [OF demo_queue_wf(1) this]
  obtain q where q: "evq.push_list ?es (demo_queue, demo_pkt_world) = Some q" by blast
  have sorts: "sort_key evt_key ?es = [demo_event 3 2, demo_event 5 1, demo_event 5 3]"
    by (simp add: demo_event_def evt_key_def)
  have len: "length ?es = 3" by simp
  have "evq.drain 3 q = Some [demo_event 3 2, demo_event 5 1, demo_event 5 3]"
    using event_queue_push_pop_sorts [OF demo_queue_wf q] unfolding sorts len .
  with q show ?thesis by blast
qed

lemma event_queue_pop_min_witness: "\<exists>eq'. event_queue_pop demo_queue = Some (None, eq') \<and> queue_wf eq'"
  using event_queue_pop_min [OF demo_queue_wf(1)] demo_queue_wf(2)
  by (auto split: option.splits)

end
