(* ===== verification/Scheduler.thy ===== *)
theory Scheduler
  imports Event
begin

text \<open>
  The event loop (\<open>engine/scheduler.h\<close>, \<open>engine/scheduler.c\<close>). A scheduler owns the event queue, the
  simulated time and one fallback handler per event type. Handlers receive and return the whole world:
  the argument \<open>call\<close> of \<open>scheduler_step\<close> and \<open>scheduler_run\<close> is what calling a function pointer does.
  A run need not end, since handlers schedule events; \<open>scheduler_run\<close> is a partial function whose value is
  \<open>None\<close> when it does not return (or faults).
\<close>

section \<open>State\<close>

record HandlerEntry =
  he_fn :: EventCallback
  he_ctx :: vptr

record Scheduler =
  sch_eq :: EventQueue
  sch_now :: u64
  sch_running :: int
  sch_handlers :: "HandlerEntry list"

record sched_world = pkt_world +
  w_scheds :: "addr \<rightharpoonup> Scheduler"

definition sched_at :: "addr \<Rightarrow> 'a sched_world_scheme \<Rightarrow> Scheduler option" where
  "sched_at a w = (if a = NULL then None else w_scheds w a)"

definition sched_put :: "addr \<Rightarrow> Scheduler \<Rightarrow> 'a sched_world_scheme \<Rightarrow> 'a sched_world_scheme" where
  "sched_put a s w = w\<lparr>w_scheds := (w_scheds w)(a \<mapsto> s)\<rparr>"

section \<open>Operations\<close>

definition scheduler_create :: "nat \<Rightarrow> 'a sched_world_scheme \<Rightarrow> addr \<times> 'a sched_world_scheme" where
  "scheduler_create capacity w =
     (if capacity = 0 then (NULL, w)
      else case alloc w of (s, w) \<Rightarrow>
        if s = NULL then (NULL, w)
        else case event_queue_create capacity w of
          (None, w) \<Rightarrow> (NULL, w)
        | (Some eq, w) \<Rightarrow>
            (s, sched_put s \<lparr>sch_eq = eq, sch_now = 0, sch_running = 0,
              sch_handlers = replicate (evt_index EVT_TYPE_COUNT) \<lparr>he_fn = Cb_NULL, he_ctx = VNull\<rparr>\<rparr> w))"

text \<open>The loop of \<open>scheduler_free\<close> pops until the queue is empty; each turn removes one of the \<open>count\<close>
  events.\<close>

fun pop_all :: "nat \<Rightarrow> EventQueue \<Rightarrow> EventQueue option" where
  "pop_all 0 eq = Some eq"
| "pop_all (Suc n) eq = do {
     (e, eq) \<leftarrow> event_queue_pop eq;
     case e of None \<Rightarrow> Some eq | Some _ \<Rightarrow> pop_all n eq
   }"

definition scheduler_free :: "addr \<Rightarrow> 'a sched_world_scheme \<Rightarrow> 'a sched_world_scheme option" where
  "scheduler_free s w =
     (if s = NULL then Some w
      else do {
        sch \<leftarrow> sched_at s w;
        _ \<leftarrow> pop_all (eq_count (sch_eq sch)) (sch_eq sch);
        Some (w\<lparr>w_scheds := (w_scheds w)(s := None)\<rparr>)
      })"

definition scheduler_register :: "addr \<Rightarrow> EventType \<Rightarrow> EventCallback \<Rightarrow> vptr \<Rightarrow>
    'a sched_world_scheme \<Rightarrow> 'a sched_world_scheme option" where
  "scheduler_register s ty fn ctx w =
     (if s = NULL \<or> EVT_TYPE_COUNT \<le> ty then Some w
      else do {
        sch \<leftarrow> sched_at s w;
        Some (sched_put s (sch\<lparr>sch_handlers :=
          (sch_handlers sch)[evt_index ty := \<lparr>he_fn = fn, he_ctx = ctx\<rparr>]\<rparr>) w)
      })"

definition scheduler_schedule :: "addr \<Rightarrow> Event option \<Rightarrow> 'a sched_world_scheme \<Rightarrow>
    (int \<times> 'a sched_world_scheme) option" where
  "scheduler_schedule s ev w = (case ev of None \<Rightarrow> Some (- 1, w) | Some e \<Rightarrow>
     if s = NULL then Some (- 1, w)
     else do {
       sch \<leftarrow> sched_at s w;
       (r, eq, w) \<leftarrow> event_queue_push (sch_eq sch) e w;
       Some (r, sched_put s (sch\<lparr>sch_eq := eq\<rparr>) w)
     })"

text \<open>The selection of the handler of an event: its own, else the fallback of its type.\<close>

definition handler_of :: "Event \<Rightarrow> Scheduler \<Rightarrow> (EventCallback \<times> vptr) option" where
  "handler_of e sch =
     (if evt_handler e \<noteq> Cb_NULL then Some (evt_handler e, evt_handler_ctx e)
      else if evt_type e < EVT_TYPE_COUNT
      then let entry = sch_handlers sch ! evt_index (evt_type e) in
        if he_fn entry \<noteq> Cb_NULL then Some (he_fn entry, he_ctx entry) else None
      else None)"

definition scheduler_step :: "(EventCallback \<Rightarrow> Event \<Rightarrow> vptr \<Rightarrow> 'a sched_world_scheme \<Rightarrow> 'a sched_world_scheme option) \<Rightarrow>
    addr \<Rightarrow> 'a sched_world_scheme \<Rightarrow> (int \<times> 'a sched_world_scheme) option" where
  "scheduler_step call s w = do {
     sch \<leftarrow> sched_at s w;
     (r, eq) \<leftarrow> event_queue_pop (sch_eq sch);
     case r of
       None \<Rightarrow> Some (0, w)
     | Some e \<Rightarrow> do {
         let sch = sch\<lparr>sch_eq := eq, sch_now := (if sch_now sch < evt_timestamp e then evt_timestamp e else sch_now sch)\<rparr>;
         let w = sched_put s sch w;
         w \<leftarrow> (case handler_of e sch of None \<Rightarrow> Some w | Some (fn, ctx) \<Rightarrow> call fn e ctx w);
         Some (1, w)
       }
   }"

definition sched_set_running :: "addr \<Rightarrow> int \<Rightarrow> 'a sched_world_scheme \<Rightarrow> 'a sched_world_scheme option" where
  "sched_set_running s r w = do { sch \<leftarrow> sched_at s w; Some (sched_put s (sch\<lparr>sch_running := r\<rparr>) w) }"

partial_function (option) scheduler_loop :: "(EventCallback \<Rightarrow> Event \<Rightarrow> vptr \<Rightarrow> 'a sched_world_scheme \<Rightarrow> 'a sched_world_scheme option) \<Rightarrow>
    addr \<Rightarrow> 'a sched_world_scheme \<Rightarrow> 'a sched_world_scheme option" where
  "scheduler_loop call s w = do {
     (r, w) \<leftarrow> scheduler_step call s w;
     if r = 1 then do {
       sch \<leftarrow> sched_at s w;
       if sch_running sch = 1 then scheduler_loop call s w else Some w
     }
     else Some w
   }"

definition scheduler_run :: "(EventCallback \<Rightarrow> Event \<Rightarrow> vptr \<Rightarrow> 'a sched_world_scheme \<Rightarrow> 'a sched_world_scheme option) \<Rightarrow>
    addr \<Rightarrow> 'a sched_world_scheme \<Rightarrow> (int \<times> 'a sched_world_scheme) option" where
  "scheduler_run call s w = do {
     w \<leftarrow> sched_set_running s 1 w;
     w \<leftarrow> scheduler_loop call s w;
     w \<leftarrow> sched_set_running s 0 w;
     Some (0, w)
   }"

definition scheduler_stop :: "addr \<Rightarrow> 'a sched_world_scheme \<Rightarrow> 'a sched_world_scheme option" where
  "scheduler_stop s w = (if s = NULL then Some w else sched_set_running s 0 w)"

definition scheduler_now :: "addr \<Rightarrow> 'a sched_world_scheme \<Rightarrow> u64 option" where
  "scheduler_now s w = (if s = NULL then Some 0 else map_option sch_now (sched_at s w))"

section \<open>Well-formed schedulers\<close>

definition sched_wf :: "Scheduler \<Rightarrow> bool" where
  "sched_wf sch \<longleftrightarrow> queue_wf (sch_eq sch) \<and> length (sch_handlers sch) = evt_index EVT_TYPE_COUNT"

lemma sched_at_put [simp]:
  "s \<noteq> NULL \<Longrightarrow> sched_at a (sched_put s sch w) = (if a = s then Some sch else sched_at a w)"
  by (simp add: sched_at_def sched_put_def)

lemma sched_at_nonnull: "sched_at s w = Some sch \<Longrightarrow> s \<noteq> NULL"
  by (simp add: sched_at_def split: if_splits)

lemma sched_put_put [simp]: "sched_put s b (sched_put s a w) = sched_put s b w"
  by (simp add: sched_put_def)

lemma sched_put_same: "sched_at s w = Some sch \<Longrightarrow> sched_put s sch w = w"
  by (simp add: sched_put_def sched_at_def fun_upd_idem split: if_splits)

lemma sched_at_mem [simp]: "sched_at s (w\<lparr>w_mem := m\<rparr>) = sched_at s w"
  by (simp add: sched_at_def)

text \<open>Operations that touch packets and schedulers only.\<close>

definition sched_frame :: "'a sched_world_scheme \<Rightarrow> 'a sched_world_scheme \<Rightarrow> bool" where
  "sched_frame w w' \<longleftrightarrow> sched_world.more w' = sched_world.more w"

lemma sched_frame_refl [simp]: "sched_frame w w"
  by (simp add: sched_frame_def)

lemma sched_frame_trans: "sched_frame u v \<Longrightarrow> sched_frame v w \<Longrightarrow> sched_frame u w"
  by (simp add: sched_frame_def)

lemma sched_frame_put [simp]: "sched_frame w (sched_put s x w)"
  by (simp add: sched_frame_def sched_put_def)

lemma sched_frame_mem: "w' = w\<lparr>w_mem := m\<rparr> \<Longrightarrow> sched_frame w w'"
  by (simp add: sched_frame_def)

lemma sched_frame_pkt: "pkt_frame w w' \<Longrightarrow> sched_frame w w'"
  unfolding pkt_frame_def by (erule ssubst) (simp add: sched_frame_def)

lemma pkt_frame_scheds: "pkt_frame w w' \<Longrightarrow> sched_at s w' = sched_at s w"
  unfolding pkt_frame_def by (erule ssubst) (simp add: sched_at_def)

lemma evt_index_le: "evt_index ty \<le> 27"
  by (cases ty) simp_all

lemma alloc_scheds [simp]: "alloc w = (a, w') \<Longrightarrow> sched_at s w' = sched_at s w"
  by (auto simp: alloc_def sched_at_def split: prod.splits)

lemma scheduler_schedule_wf:
  assumes "sched_at s w = Some sch" "sched_wf sch"
  shows "\<exists>r sch' w'. scheduler_schedule s (Some e) w = Some (r, w') \<and> sched_at s w' = Some sch' \<and>
    sched_wf sch' \<and> sch' = sch\<lparr>sch_eq := sch_eq sch'\<rparr> \<and>
    (r = 0 \<and> eq_list (sch_eq sch') = insert_by evt_key e (eq_list (sch_eq sch)) \<or> r = - 1 \<and> sch' = sch)"
proof -
  note s = sched_at_nonnull [OF assms(1)]
  have "queue_wf (sch_eq sch)" using assms(2) by (simp add: sched_wf_def)
  then show ?thesis
  proof (cases rule: event_queue_push_cases [where e = e and w = w])
    case (pushed eq' w')
    then show ?thesis using assms s by (simp add: scheduler_schedule_def sched_wf_def)
  next
    case (refused w')
    then show ?thesis using assms s by (simp add: scheduler_schedule_def sched_wf_def)
  qed
qed

section \<open>Runs\<close>

text \<open>Induction over the turns of a loop that returns.\<close>

lemma scheduler_loop_induct [consumes 1, case_names empty stopped again]:
  assumes "scheduler_loop call s w = Some w'"
    and "\<And>w r w1. scheduler_step call s w = Some (r, w1) \<Longrightarrow> r \<noteq> 1 \<Longrightarrow> Q w w1"
    and "\<And>w w1 sch. scheduler_step call s w = Some (1, w1) \<Longrightarrow> sched_at s w1 = Some sch \<Longrightarrow>
      sch_running sch \<noteq> 1 \<Longrightarrow> Q w w1"
    and "\<And>w w1 w2 sch. scheduler_step call s w = Some (1, w1) \<Longrightarrow> sched_at s w1 = Some sch \<Longrightarrow>
      sch_running sch = 1 \<Longrightarrow> Q w1 w2 \<Longrightarrow> Q w w2"
  shows "Q w w'"
proof -
  have "c = call \<and> t = s \<longrightarrow> Q v v'" if "scheduler_loop c t v = Some v'" for c t v v'
    using that
  proof (rule scheduler_loop.raw_induct [rotated])
    fix loop c t v v'
    assume IH: "\<And>c t v v'. loop c t v = Some v' \<Longrightarrow> c = call \<and> t = s \<longrightarrow> Q v v'"
      and body: "do { (r, w) \<leftarrow> scheduler_step c t v;
        if r = 1 then do { sch \<leftarrow> sched_at t w; if sch_running sch = 1 then loop c t w else Some w }
        else Some w } = Some v'"
    from body obtain r w1 where step: "scheduler_step c t v = Some (r, w1)"
      and rest: "(if r = 1 then do { sch \<leftarrow> sched_at t w1; if sch_running sch = 1 then loop c t w1 else Some w1 }
        else Some w1) = Some v'"
      by (auto split: bind_splits)
    show "c = call \<and> t = s \<longrightarrow> Q v v'"
      using assms(2) [of v r w1] assms(3) [of v w1] assms(4) [of v w1 _ v'] step rest IH [of call s w1 v']
      by (auto split: bind_splits if_splits)
  qed
  with assms(1) show ?thesis by blast
qed

text \<open>What a dispatch function must guarantee for the clock and the queue of scheduler \<open>s\<close>: handlers reach
  the scheduler only through its operations, so that it stays well formed and its clock is left alone.\<close>

locale event_dispatch =
  fixes call :: "EventCallback \<Rightarrow> Event \<Rightarrow> vptr \<Rightarrow> 'a sched_world_scheme \<Rightarrow> 'a sched_world_scheme option"
    and s :: addr
  assumes call_frame: "sched_at s w = Some sch \<Longrightarrow> sched_wf sch \<Longrightarrow> call fn e ctx w = Some w' \<Longrightarrow>
      \<exists>sch'. sched_at s w' = Some sch' \<and> sched_wf sch' \<and> sch_now sch' = sch_now sch"
begin

lemma step_frame:
  assumes "sched_at s w = Some sch" "sched_wf sch" "scheduler_step call s w = Some (r, w')"
  shows "\<exists>sch'. sched_at s w' = Some sch' \<and> sched_wf sch' \<and> sch_now sch \<le> sch_now sch' \<and>
    (r = 0 \<and> eq_list (sch_eq sch) = [] \<and> w' = w \<or>
     r = 1 \<and> eq_list (sch_eq sch) \<noteq> [] \<and>
       sch_now sch' = max (sch_now sch) (evt_timestamp (hd (eq_list (sch_eq sch)))))"
proof -
  note s = sched_at_nonnull [OF assms(1)]
  have q: "queue_wf (sch_eq sch)" using assms(2) by (simp add: sched_wf_def)
  show ?thesis
  proof (cases "eq_list (sch_eq sch)")
    case Nil
    with assms q show ?thesis by (auto simp: scheduler_step_def event_queue_pop_empty)
  next
    case (Cons e es)
    obtain eq' where eq': "event_queue_pop (sch_eq sch) = Some (Some e, eq')" "queue_wf eq'"
      using event_queue_pop_wf [OF q Cons] by blast
    let ?sch = "sch\<lparr>sch_eq := eq', sch_now := max (sch_now sch) (evt_timestamp e)\<rparr>"
    have m: "(if sch_now sch < evt_timestamp e then evt_timestamp e else sch_now sch)
        = max (sch_now sch) (evt_timestamp e)" by (auto simp: max_def)
    have wf: "sched_wf ?sch" using assms(2) eq' by (simp add: sched_wf_def)
    from assms(1,3) eq' have st: "r = 1" "(case handler_of e ?sch of None \<Rightarrow> Some (sched_put s ?sch w)
        | Some (fn, ctx) \<Rightarrow> call fn e ctx (sched_put s ?sch w)) = Some w'"
      by (auto simp: scheduler_step_def m Let_def split: bind_splits)
    have "\<exists>sch'. sched_at s w' = Some sch' \<and> sched_wf sch' \<and> sch_now sch' = sch_now ?sch"
      using st(2) s wf call_frame [of "sched_put s ?sch w" ?sch]
      by (auto split: option.splits prod.splits)
    then show ?thesis using st(1) Cons by auto
  qed
qed

text \<open>The simulated time never goes back during a run.\<close>

lemma loop_frame:
  assumes "scheduler_loop call s w = Some w'" "sched_at s w = Some sch" "sched_wf sch"
  shows "\<exists>sch'. sched_at s w' = Some sch' \<and> sched_wf sch' \<and> sch_now sch \<le> sch_now sch' \<and>
    (eq_list (sch_eq sch') = [] \<or> sch_running sch' \<noteq> 1)"
  using assms
proof (induction arbitrary: sch rule: scheduler_loop_induct)
  case (empty w r w1)
  from step_frame [OF empty.prems empty.hyps(1)] empty.hyps(2) empty.prems show ?case by auto
next
  case (stopped w w1 sch1)
  from step_frame [OF stopped.prems stopped.hyps(1)] stopped.hyps show ?case by auto
next
  case (again w w1 w2 sch1)
  from step_frame [OF again.prems again.hyps(1)] again.hyps(2)
  have "sched_wf sch1" "sch_now sch \<le> sch_now sch1" by auto
  with again.IH [OF again.hyps(2)] show ?case by force
qed

end

section \<open>Handlers that schedule nothing\<close>

text \<open>The specification of a run whose handlers leave the scheduler alone: one call per event, in queue
  order.\<close>

fun run_calls :: "(EventCallback \<Rightarrow> Event \<Rightarrow> vptr \<Rightarrow> 'w \<Rightarrow> 'w option) \<Rightarrow> Scheduler \<Rightarrow> Event list \<Rightarrow> 'w \<Rightarrow> 'w option" where
  "run_calls call sch [] w = Some w"
| "run_calls call sch (e # es) w = do {
     w \<leftarrow> (case handler_of e sch of None \<Rightarrow> Some w | Some (fn, ctx) \<Rightarrow> call fn e ctx w);
     run_calls call sch es w
   }"

definition quiet :: "(EventCallback \<Rightarrow> Event \<Rightarrow> vptr \<Rightarrow> 'a sched_world_scheme \<Rightarrow> 'a sched_world_scheme option) \<Rightarrow> addr \<Rightarrow> bool" where
  "quiet call s \<longleftrightarrow> (\<forall>fn e ctx sch w.
     call fn e ctx (sched_put s sch w) = map_option (sched_put s sch) (call fn e ctx w))"

definition time_after :: "u64 \<Rightarrow> Event list \<Rightarrow> u64" where
  "time_after t es = foldl (\<lambda>t e. max t (evt_timestamp e)) t es"

lemma handler_of_cong: "sch_handlers a = sch_handlers b \<Longrightarrow> handler_of e a = handler_of e b"
  by (simp add: handler_of_def)

lemma run_calls_cong:
  assumes "sch_handlers a = sch_handlers b"
  shows "run_calls call a es w = run_calls call b es w"
proof (induction es arbitrary: w)
  case (Cons e es)
  then have "run_calls call a es = run_calls call b es" by (rule ext)
  then show ?case by (simp add: handler_of_cong [OF assms])
qed simp

lemma quiet_step:
  assumes "quiet call s" "s \<noteq> NULL" "queue_wf (sch_eq sch)" "eq_list (sch_eq sch) = e # es"
  obtains eq' where "queue_wf eq'" "eq_list eq' = es"
    "scheduler_step call s (sched_put s sch w) =
      map_option (\<lambda>w. (1, sched_put s (sch\<lparr>sch_eq := eq', sch_now := max (sch_now sch) (evt_timestamp e)\<rparr>) w))
        (case handler_of e sch of None \<Rightarrow> Some w | Some (fn, ctx) \<Rightarrow> call fn e ctx w)"
proof -
  obtain eq' where eq': "event_queue_pop (sch_eq sch) = Some (Some e, eq')" "queue_wf eq'" "eq_list eq' = es"
    using event_queue_pop_wf [OF assms(3,4)] by blast
  let ?sch = "sch\<lparr>sch_eq := eq', sch_now := max (sch_now sch) (evt_timestamp e)\<rparr>"
  have m: "(if sch_now sch < evt_timestamp e then evt_timestamp e else sch_now sch)
        = max (sch_now sch) (evt_timestamp e)" by (auto simp: max_def)
  have h: "handler_of e ?sch = handler_of e sch" by (rule handler_of_cong) simp
  have "scheduler_step call s (sched_put s sch w) =
      map_option (Pair 1) (case handler_of e sch of None \<Rightarrow> Some (sched_put s ?sch w)
        | Some (fn, ctx) \<Rightarrow> call fn e ctx (sched_put s ?sch w))"
    using assms(2) eq'(1) h by (simp add: scheduler_step_def m map_conv_bind_option o_def Let_def)
  also have "\<dots> = map_option (\<lambda>w. (1, sched_put s ?sch w))
      (case handler_of e sch of None \<Rightarrow> Some w | Some (fn, ctx) \<Rightarrow> call fn e ctx w)"
    using assms(1) by (auto simp: quiet_def option.map_comp o_def split: option.splits)
  finally show thesis using that eq'(2,3) by blast
qed

lemma quiet_loop:
  assumes "quiet call s" "s \<noteq> NULL"
  shows "queue_wf (sch_eq sch) \<Longrightarrow> eq_list (sch_eq sch) = es \<Longrightarrow> sch_running sch = 1 \<Longrightarrow>
    \<exists>eq'. queue_wf eq' \<and> eq_list eq' = [] \<and> scheduler_loop call s (sched_put s sch w) =
      map_option (sched_put s (sch\<lparr>sch_eq := eq', sch_now := time_after (sch_now sch) es\<rparr>)) (run_calls call sch es w)"
proof (induction es arbitrary: sch w)
  case Nil
  then have "scheduler_loop call s (sched_put s sch w) = Some (sched_put s sch w)"
    using assms(2) by (simp add: scheduler_loop.simps scheduler_step_def event_queue_pop_empty)
  with Nil show ?case by (intro exI [of _ "sch_eq sch"]) (simp add: time_after_def)
next
  case (Cons e es)
  let ?h = "case handler_of e sch of None \<Rightarrow> Some w | Some (fn, ctx) \<Rightarrow> call fn e ctx w"
  obtain eq1 where eq1: "queue_wf eq1" "eq_list eq1 = es"
    and step: "scheduler_step call s (sched_put s sch w) =
      map_option (\<lambda>w. (1, sched_put s (sch\<lparr>sch_eq := eq1, sch_now := max (sch_now sch) (evt_timestamp e)\<rparr>) w)) ?h"
    by (rule quiet_step [OF assms Cons.prems(1,2), where w = w])
  let ?sch = "sch\<lparr>sch_eq := eq1, sch_now := max (sch_now sch) (evt_timestamp e)\<rparr>"
  show ?case
  proof (cases ?h)
    case None
    with step eq1 Cons.prems show ?thesis
      by (intro exI [of _ "\<lparr>eq_events = [None], eq_count = 0, eq_capacity = 1\<rparr>"])
        (simp add: scheduler_loop.simps [of call s "sched_put s sch w"] eq_list_def queue_wf_def PTRDIFF_MAX_def)
  next
    case (Some w1)
    have loop: "scheduler_loop call s (sched_put s sch w) = scheduler_loop call s (sched_put s ?sch w1)"
      using step Some Cons.prems(3) assms(2)
      by (simp add: scheduler_loop.simps [of call s "sched_put s sch w"])
    obtain eq' where "queue_wf eq'" "eq_list eq' = []" "scheduler_loop call s (sched_put s ?sch w1) =
        map_option (sched_put s (?sch\<lparr>sch_eq := eq', sch_now := time_after (sch_now ?sch) es\<rparr>)) (run_calls call ?sch es w1)"
      using Cons.IH [of ?sch w1] eq1 Cons.prems(3) by auto
    then show ?thesis using loop Some run_calls_cong [of ?sch sch call es w1]
      by (intro exI [of _ eq']) (simp add: time_after_def)
  qed
qed

text \<open>C36. When the handlers schedule nothing and leave the scheduler alone, \<open>scheduler_run\<close> returns as soon
  as they do: it calls the handler of every queued event exactly once, in the order of the queue, leaves the
  queue empty and the clock at the latest timestamp seen, and clears \<open>running\<close>.\<close>

lemma scheduler_run_drains:
  assumes "quiet call s" "sched_at s w = Some sch" "sched_wf sch"
  shows "\<exists>eq'. queue_wf eq' \<and> eq_list eq' = [] \<and> scheduler_run call s w =
    map_option (\<lambda>w'. (0, sched_put s (sch\<lparr>sch_eq := eq',
        sch_now := time_after (sch_now sch) (eq_list (sch_eq sch)), sch_running := 0\<rparr>) w'))
      (run_calls call sch (eq_list (sch_eq sch)) w)"
proof -
  note s = sched_at_nonnull [OF assms(2)]
  let ?sch = "sch\<lparr>sch_running := 1\<rparr>"
  obtain eq' where eq': "queue_wf eq'" "eq_list eq' = []" "scheduler_loop call s (sched_put s ?sch w) =
      map_option (sched_put s (?sch\<lparr>sch_eq := eq', sch_now := time_after (sch_now sch) (eq_list (sch_eq sch))\<rparr>))
        (run_calls call ?sch (eq_list (sch_eq sch)) w)"
    using quiet_loop [OF assms(1) s, of ?sch "eq_list (sch_eq sch)" w] assms(3) by (auto simp: sched_wf_def)
  have "run_calls call ?sch (eq_list (sch_eq sch)) w = run_calls call sch (eq_list (sch_eq sch)) w"
    by (rule run_calls_cong) simp
  then show ?thesis using eq' s assms(2)
    by (intro exI [of _ eq']) (cases "run_calls call sch (eq_list (sch_eq sch)) w";
        simp add: scheduler_run_def sched_set_running_def)
qed

definition demo_sched :: Scheduler where
  "demo_sched = \<lparr>sch_eq = \<lparr>eq_events = [Some (demo_event 3 1), Some (demo_event 9 2)], eq_count = 2, eq_capacity = 2\<rparr>,
     sch_now = 4, sch_running = 0, sch_handlers = replicate 27 \<lparr>he_fn = Cb_NULL, he_ctx = VNull\<rparr>\<rparr>"

definition demo_sched_world :: sched_world where
  "demo_sched_world = \<lparr>w_mem = \<lparr>mem_next = 9, mem_oom = [], mem_junk = (\<lambda>_. 0)\<rparr>, w_next_id = 8,
     w_pkts = Map.empty, w_scheds = [5 \<mapsto> demo_sched]\<rparr>"

text \<open>Handlers that count their calls in the packet id counter.\<close>

definition count_call :: "EventCallback \<Rightarrow> Event \<Rightarrow> vptr \<Rightarrow> sched_world \<Rightarrow> sched_world option" where
  "count_call fn e ctx w = Some (w\<lparr>w_next_id := w_next_id w + 1\<rparr>)"

lemma scheduler_run_drains_witness:
  "\<exists>w sch. scheduler_run count_call 5 demo_sched_world = Some (0, w) \<and> w_next_id w = 10 \<and>
     sched_at 5 w = Some sch \<and> sch_now sch = 9 \<and> eq_list (sch_eq sch) = []"
proof -
  have hyps: "quiet count_call 5" "sched_at 5 demo_sched_world = Some demo_sched" "sched_wf demo_sched"
    by (simp_all add: quiet_def count_call_def sched_put_def sched_at_def demo_sched_world_def sched_wf_def
        demo_sched_def queue_wf_def eq_list_def PTRDIFF_MAX_def demo_event_def evt_key_def)
  have es: "eq_list (sch_eq demo_sched) = [demo_event 3 1, demo_event 9 2]"
    by (simp add: demo_sched_def eq_list_def numeral_2_eq_2)
  have "run_calls count_call demo_sched [demo_event 3 1, demo_event 9 2] demo_sched_world =
      Some (demo_sched_world\<lparr>w_next_id := 10\<rparr>)"
    by (simp add: handler_of_def demo_event_def count_call_def demo_sched_world_def)
  moreover have "time_after (sch_now demo_sched) [demo_event 3 1, demo_event 9 2] = 9"
    by (simp add: time_after_def demo_sched_def demo_event_def max_def)
  ultimately show ?thesis using scheduler_run_drains [OF hyps] unfolding es by (auto simp: sched_put_def sched_at_def)
qed

end
