(* ===== verification/Interface.thy ===== *)
theory Interface
  imports Scheduler
begin

text \<open>
  Network interfaces (\<open>network/interface.h\<close>, \<open>network/interface.c\<close>): addresses, counters, the link the
  interface is attached to and the receive handler that the layer above installed. Character arrays are
  the C strings they hold, cut to the size that \<open>strncpy\<close> keeps.
\<close>

section \<open>State\<close>

datatype RxHandler =
    Rx_NULL
  | Rx_ip_rx_shim
  | Rx_router_rx_shim
  | Rx_switch_rx_shim
  | Rx_extern nat

datatype InterfaceState = IFACE_OK | IFACE_ERR_DISABLED

record Interface =
  if_name :: string
  if_mac :: bytes
  if_ip_addr :: u32
  if_prefix_len :: u8
  if_mtu :: u16
  if_up :: int
  if_link :: addr
  if_device :: addr
  if_tx_bytes :: u64
  if_rx_bytes :: u64
  if_rx_handler :: RxHandler
  if_handler_ctx :: vptr
  if_arp_cache :: addr
  if_rx_dropped :: u64
  if_rx_errors :: u64
  if_tx_errors :: u64
  if_state :: InterfaceState
  if_last_rx_time :: u64
  if_last_tx_time :: u64
  if_last_error_time :: u64

record iface_world = sched_world +
  w_ifaces :: "addr \<rightharpoonup> Interface"

definition iface_at :: "addr \<Rightarrow> 'a iface_world_scheme \<Rightarrow> Interface option" where
  "iface_at a w = (if a = NULL then None else w_ifaces w a)"

definition iface_put :: "addr \<Rightarrow> Interface \<Rightarrow> 'a iface_world_scheme \<Rightarrow> 'a iface_world_scheme" where
  "iface_put a i w = w\<lparr>w_ifaces := (w_ifaces w)(a \<mapsto> i)\<rparr>"

definition iface_upd :: "addr \<Rightarrow> (Interface \<Rightarrow> Interface) \<Rightarrow> 'a iface_world_scheme \<Rightarrow> 'a iface_world_scheme option" where
  "iface_upd a f w = do { i \<leftarrow> iface_at a w; Some (iface_put a (f i) w) }"

section \<open>Operations\<close>

definition interface_create :: "string \<Rightarrow> bytes \<Rightarrow> u32 \<Rightarrow> u8 \<Rightarrow> u16 \<Rightarrow>
    'a iface_world_scheme \<Rightarrow> addr \<times> 'a iface_world_scheme" where
  "interface_create name mac ip_addr prefix_len mtu w = (case alloc w of (iface, w) \<Rightarrow>
     if iface = NULL then (NULL, w)
     else (iface, iface_put iface
       \<lparr>if_name = take 15 name, if_mac = take 6 mac, if_ip_addr = ip_addr, if_prefix_len = prefix_len,
        if_mtu = mtu, if_up = 0, if_link = NULL, if_device = NULL, if_tx_bytes = 0, if_rx_bytes = 0,
        if_rx_handler = Rx_NULL, if_handler_ctx = VNull, if_arp_cache = NULL, if_rx_dropped = 0,
        if_rx_errors = 0, if_tx_errors = 0, if_state = IFACE_OK, if_last_rx_time = 0,
        if_last_tx_time = 0, if_last_error_time = 0\<rparr> w))"

definition interface_free :: "addr \<Rightarrow> 'a iface_world_scheme \<Rightarrow> 'a iface_world_scheme option" where
  "interface_free iface w =
     (if iface = NULL then Some w
      else do { _ \<leftarrow> iface_at iface w; Some (w\<lparr>w_ifaces := (w_ifaces w)(iface := None)\<rparr>) })"

text \<open>The setters ignore \<open>NULL\<close>.\<close>

definition if_nonnull :: "addr \<Rightarrow> (Interface \<Rightarrow> Interface) \<Rightarrow> 'a iface_world_scheme \<Rightarrow> 'a iface_world_scheme option" where
  "if_nonnull iface f w = (if iface = NULL then Some w else iface_upd iface f w)"

definition interface_set_up :: "addr \<Rightarrow> int \<Rightarrow> 'a iface_world_scheme \<Rightarrow> 'a iface_world_scheme option" where
  "interface_set_up iface up w = if_nonnull iface (\<lambda>i. i\<lparr>if_up := up\<rparr>) w"

definition interface_is_up :: "addr \<Rightarrow> 'a iface_world_scheme \<Rightarrow> int option" where
  "interface_is_up iface w =
     (if iface = NULL then Some 0
      else do { i \<leftarrow> iface_at iface w; Some (if if_up i \<noteq> 0 then 1 else 0) })"

definition interface_set_link :: "addr \<Rightarrow> addr \<Rightarrow> 'a iface_world_scheme \<Rightarrow> 'a iface_world_scheme option" where
  "interface_set_link iface link w = if_nonnull iface (\<lambda>i. i\<lparr>if_link := link\<rparr>) w"

definition interface_get_link :: "addr \<Rightarrow> 'a iface_world_scheme \<Rightarrow> addr option" where
  "interface_get_link iface w =
     (if iface = NULL then Some NULL else do { i \<leftarrow> iface_at iface w; Some (if_link i) })"

definition interface_get_mac :: "addr \<Rightarrow> 'a iface_world_scheme \<Rightarrow> bytes option" where
  "interface_get_mac iface w = do { i \<leftarrow> iface_at iface w; Some (if_mac i) }"

definition interface_get_ip :: "addr \<Rightarrow> 'a iface_world_scheme \<Rightarrow> u32 option" where
  "interface_get_ip iface w = do { i \<leftarrow> iface_at iface w; Some (if_ip_addr i) }"

definition interface_add_tx_bytes :: "addr \<Rightarrow> u64 \<Rightarrow> 'a iface_world_scheme \<Rightarrow> 'a iface_world_scheme option" where
  "interface_add_tx_bytes iface n w = if_nonnull iface (\<lambda>i. i\<lparr>if_tx_bytes := if_tx_bytes i + n\<rparr>) w"

definition interface_add_rx_bytes :: "addr \<Rightarrow> u64 \<Rightarrow> 'a iface_world_scheme \<Rightarrow> 'a iface_world_scheme option" where
  "interface_add_rx_bytes iface n w = if_nonnull iface (\<lambda>i. i\<lparr>if_rx_bytes := if_rx_bytes i + n\<rparr>) w"

definition interface_set_rx_handler :: "addr \<Rightarrow> RxHandler \<Rightarrow> vptr \<Rightarrow> 'a iface_world_scheme \<Rightarrow>
    'a iface_world_scheme option" where
  "interface_set_rx_handler iface fn ctx w =
     if_nonnull iface (\<lambda>i. i\<lparr>if_rx_handler := fn, if_handler_ctx := ctx\<rparr>) w"

definition interface_set_arp_cache :: "addr \<Rightarrow> addr \<Rightarrow> 'a iface_world_scheme \<Rightarrow> 'a iface_world_scheme option" where
  "interface_set_arp_cache iface cache w = if_nonnull iface (\<lambda>i. i\<lparr>if_arp_cache := cache\<rparr>) w"

section \<open>Frame rules\<close>

lemma iface_at_nonnull: "iface_at a w = Some i \<Longrightarrow> a \<noteq> NULL"
  by (simp add: iface_at_def split: if_splits)

lemma iface_at_put [simp]:
  "a \<noteq> NULL \<Longrightarrow> iface_at b (iface_put a i w) = (if b = a then Some i else iface_at b w)"
  by (simp add: iface_at_def iface_put_def)

lemma iface_at_pkt_put [simp]: "iface_at a (pkt_put p x w) = iface_at a w"
  by (simp add: iface_at_def pkt_put_def)

lemma iface_at_sched_put [simp]: "iface_at a (sched_put p x w) = iface_at a w"
  by (simp add: iface_at_def sched_put_def)

lemma pkt_at_iface_put [simp]: "pkt_at a (iface_put p x w) = pkt_at a w"
  by (simp add: pkt_at_def iface_put_def)

lemma sched_at_iface_put [simp]: "sched_at a (iface_put p x w) = sched_at a w"
  by (simp add: sched_at_def iface_put_def)

lemma pkt_at_sched_put [simp]: "pkt_at a (sched_put p x w) = pkt_at a w"
  by (simp add: pkt_at_def sched_put_def)

lemma sched_at_pkt_put [simp]: "sched_at a (pkt_put p x w) = sched_at a w"
  by (simp add: sched_at_def pkt_put_def)

lemma sched_frame_ifaces: "sched_frame w w' \<Longrightarrow> iface_at a w' = iface_at a w"
  by (cases w; cases w') (simp add: sched_frame_def iface_at_def)

lemma pkt_frame_ifaces: "pkt_frame w w' \<Longrightarrow> iface_at s w' = iface_at s w"
  unfolding pkt_frame_def by (erule ssubst) (simp add: iface_at_def)

end
