(* ===== verification/Device.thy ===== *)
theory Device
  imports Interface
begin

text \<open>
  Devices (\<open>network/device.h\<close>, \<open>network/device.c\<close>). A device owns its interfaces; the model keeps the
  used part of the interface array, so \<open>iface_count\<close> is its length and \<open>iface_max\<close> the allocated size.
\<close>

record Device =
  dev_name :: string
  dev_interfaces :: "addr list"
  dev_iface_max :: int

record dev_world = iface_world +
  w_devs :: "addr \<rightharpoonup> Device"

definition dev_at :: "addr \<Rightarrow> 'a dev_world_scheme \<Rightarrow> Device option" where
  "dev_at a w = (if a = NULL then None else w_devs w a)"

definition dev_put :: "addr \<Rightarrow> Device \<Rightarrow> 'a dev_world_scheme \<Rightarrow> 'a dev_world_scheme" where
  "dev_put a d w = w\<lparr>w_devs := (w_devs w)(a \<mapsto> d)\<rparr>"

definition device_create :: "string option \<Rightarrow> int \<Rightarrow> 'a dev_world_scheme \<Rightarrow> addr \<times> 'a dev_world_scheme" where
  "device_create name iface_max w = (case name of None \<Rightarrow> (NULL, w) | Some nm \<Rightarrow>
     if iface_max \<le> 0 then (NULL, w)
     else case alloc w of (dev, w) \<Rightarrow>
       if dev = NULL then (NULL, w)
       else case alloc w of (interfaces, w) \<Rightarrow>
         if interfaces = NULL then (NULL, w)
         else (dev, dev_put dev \<lparr>dev_name = take 31 nm, dev_interfaces = [], dev_iface_max = iface_max\<rparr> w))"

fun free_ifaces :: "addr list \<Rightarrow> 'a dev_world_scheme \<Rightarrow> 'a dev_world_scheme option" where
  "free_ifaces [] w = Some w"
| "free_ifaces (i # is) w = do { w \<leftarrow> interface_free i w; free_ifaces is w }"

definition device_free :: "addr \<Rightarrow> 'a dev_world_scheme \<Rightarrow> 'a dev_world_scheme option" where
  "device_free dev w =
     (if dev = NULL then Some w
      else do {
        d \<leftarrow> dev_at dev w;
        w \<leftarrow> free_ifaces (dev_interfaces d) w;
        Some (w\<lparr>w_devs := (w_devs w)(dev := None)\<rparr>)
      })"

text \<open>A scan of the interface array for the first interface with a property; \<open>Some NULL\<close> when there is
  none.\<close>

fun find_iface :: "(Interface \<Rightarrow> bool) \<Rightarrow> addr list \<Rightarrow> 'a iface_world_scheme \<Rightarrow> addr option" where
  "find_iface P [] w = Some NULL"
| "find_iface P (a # as) w = do { i \<leftarrow> iface_at a w; if P i then Some a else find_iface P as w }"

definition device_add_interface :: "addr \<Rightarrow> addr \<Rightarrow> 'a dev_world_scheme \<Rightarrow> (int \<times> 'a dev_world_scheme) option" where
  "device_add_interface dev iface w =
     (if dev = NULL \<or> iface = NULL then Some (- 1, w)
      else do {
        d \<leftarrow> dev_at dev w;
        if dev_iface_max d \<le> int (length (dev_interfaces d)) then Some (- 1, w)
        else do {
          i \<leftarrow> iface_at iface w;
          dup \<leftarrow> find_iface (\<lambda>j. if_name j = if_name i) (dev_interfaces d) w;
          if dup \<noteq> NULL then Some (- 1, w)
          else Some (0, dev_put dev (d\<lparr>dev_interfaces := dev_interfaces d @ [iface]\<rparr>)
                 (iface_put iface (i\<lparr>if_device := dev\<rparr>) w))
        }
      })"

definition device_get_interface_by_name :: "addr \<Rightarrow> string option \<Rightarrow> 'a dev_world_scheme \<Rightarrow> addr option" where
  "device_get_interface_by_name dev iface_name w = (case iface_name of None \<Rightarrow> Some NULL | Some nm \<Rightarrow>
     if dev = NULL then Some NULL
     else do { d \<leftarrow> dev_at dev w; find_iface (\<lambda>i. if_name i = nm) (dev_interfaces d) w })"

definition device_get_interface_by_ip :: "addr \<Rightarrow> u32 \<Rightarrow> 'a dev_world_scheme \<Rightarrow> addr option" where
  "device_get_interface_by_ip dev ip_addr w =
     (if dev = NULL then Some NULL
      else do { d \<leftarrow> dev_at dev w; find_iface (\<lambda>i. if_ip_addr i = ip_addr) (dev_interfaces d) w })"

definition device_receive_packet :: "addr \<Rightarrow> addr \<Rightarrow> addr \<Rightarrow> int" where
  "device_receive_packet dev in_iface pkt = (if dev = NULL \<or> in_iface = NULL \<or> pkt = NULL then - 1 else 0)"

definition device_send_packet :: "addr \<Rightarrow> addr \<Rightarrow> addr \<Rightarrow> int" where
  "device_send_packet dev out_iface pkt = (if dev = NULL \<or> out_iface = NULL \<or> pkt = NULL then - 1 else 0)"

section \<open>Well-formed devices\<close>

text \<open>The interfaces of a device exist, point back to it and have different names.\<close>

definition dev_wf :: "'a dev_world_scheme \<Rightarrow> addr \<Rightarrow> bool" where
  "dev_wf w dev \<longleftrightarrow> (\<exists>d. dev_at dev w = Some d \<and> int (length (dev_interfaces d)) \<le> dev_iface_max d \<and>
     (\<forall>a \<in> set (dev_interfaces d). \<exists>i. iface_at a w = Some i \<and> if_device i = dev) \<and>
     distinct (map (\<lambda>a. if_name (the (iface_at a w))) (dev_interfaces d)))"

lemma find_iface_live:
  "(\<forall>a \<in> set as. iface_at a w \<noteq> None) \<Longrightarrow>
   find_iface P as w = Some (case find (\<lambda>a. P (the (iface_at a w))) as of None \<Rightarrow> NULL | Some a \<Rightarrow> a)"
  by (induction as) (auto split: option.splits)

lemma find_iface_result:
  assumes "find_iface P as w = Some a"
  shows "if a = NULL then (\<forall>b \<in> set as. \<exists>i. iface_at b w = Some i \<and> \<not> P i)
    else a \<in> set as \<and> (\<exists>i. iface_at a w = Some i \<and> P i)"
  using assms
  by (induction as) (auto split: bind_splits if_splits dest: iface_at_nonnull)

lemma dev_at_put [simp]: "a \<noteq> NULL \<Longrightarrow> dev_at b (dev_put a d w) = (if b = a then Some d else dev_at b w)"
  by (simp add: dev_at_def dev_put_def)

lemma dev_at_iface_put [simp]: "dev_at a (iface_put p x w) = dev_at a w"
  by (simp add: dev_at_def iface_put_def)

lemma iface_at_dev_put [simp]: "iface_at a (dev_put p x w) = iface_at a w"
  by (simp add: iface_at_def dev_put_def)

lemma dev_at_nonnull: "dev_at a w = Some d \<Longrightarrow> a \<noteq> NULL"
  by (simp add: dev_at_def split: if_splits)

text \<open>Adding an interface to a well-formed device never faults. It succeeds exactly when a slot is left and
  no interface of the device has the same name; then the interface is the last one of the device, points
  back to it, and the device stays well formed. A refusal changes nothing.\<close>

lemma device_add_interface_wf:
  assumes "dev_wf w dev" "dev_at dev w = Some d" "iface_at iface w = Some i"
  shows "\<exists>r w'. device_add_interface dev iface w = Some (r, w') \<and> dev_wf w' dev \<and>
    (if int (length (dev_interfaces d)) < dev_iface_max d \<and>
        list_all (\<lambda>a. if_name (the (iface_at a w)) \<noteq> if_name i) (dev_interfaces d)
     then r = 0 \<and> dev_at dev w' = Some (d\<lparr>dev_interfaces := dev_interfaces d @ [iface]\<rparr>) \<and>
       iface_at iface w' = Some (i\<lparr>if_device := dev\<rparr>)
     else r = - 1 \<and> w' = w)"
proof -
  have nn: "dev \<noteq> NULL" "iface \<noteq> NULL"
    using assms by (auto dest: dev_at_nonnull iface_at_nonnull)
  have ifs: "\<forall>a \<in> set (dev_interfaces d). \<exists>j. iface_at a w = Some j \<and> if_device j = dev"
    and dist: "distinct (map (\<lambda>a. if_name (the (iface_at a w))) (dev_interfaces d))"
    using assms(1,2) by (auto simp: dev_wf_def)
  let ?P = "\<lambda>j. if_name j = if_name i"
  obtain a where a: "find_iface ?P (dev_interfaces d) w = Some a"
    using find_iface_live [of "dev_interfaces d" w ?P] ifs by fastforce
  note fr = find_iface_result [OF a]
  show ?thesis
  proof (cases "int (length (dev_interfaces d)) < dev_iface_max d \<and> a = NULL")
    case True
    then have new: "\<forall>b \<in> set (dev_interfaces d). if_name (the (iface_at b w)) \<noteq> if_name i"
      using fr by force
    then have "iface \<notin> set (dev_interfaces d)" using assms(3) by auto
    let ?w = "dev_put dev (d\<lparr>dev_interfaces := dev_interfaces d @ [iface]\<rparr>) (iface_put iface (i\<lparr>if_device := dev\<rparr>) w)"
    have names: "map (\<lambda>a. if_name (the (iface_at a ?w))) (dev_interfaces d @ [iface]) =
        map (\<lambda>a. if_name (the (iface_at a w))) (dev_interfaces d) @ [if_name i]"
      using \<open>iface \<notin> set (dev_interfaces d)\<close> nn by (auto simp: map_eq_conv)
    have "distinct (map (\<lambda>a. if_name (the (iface_at a ?w))) (dev_interfaces d @ [iface]))"
      unfolding names using dist new by auto
    moreover have "\<forall>a \<in> set (dev_interfaces d @ [iface]). \<exists>j. iface_at a ?w = Some j \<and> if_device j = dev"
      using ifs nn by auto
    ultimately have "dev_wf ?w dev" unfolding dev_wf_def using True nn
      by (intro exI [of _ "d\<lparr>dev_interfaces := dev_interfaces d @ [iface]\<rparr>"]) simp
    then show ?thesis using True new nn a assms(2,3)
      by (simp add: device_add_interface_def list_all_iff)
  next
    case False
    moreover have "\<not> list_all (\<lambda>b. if_name (the (iface_at b w)) \<noteq> if_name i) (dev_interfaces d)" if "a \<noteq> NULL"
      using fr that by (auto simp: list_all_iff intro!: bexI [of _ a])
    ultimately show ?thesis using nn a assms by (auto simp: device_add_interface_def)
  qed
qed

definition demo_iface :: "string \<Rightarrow> addr \<Rightarrow> Interface" where
  "demo_iface nm dev = \<lparr>if_name = nm, if_mac = [2, 0, 0, 0, 0, 1], if_ip_addr = 0x0A000001, if_prefix_len = 24,
     if_mtu = 1500, if_up = 1, if_link = NULL, if_device = dev, if_tx_bytes = 0, if_rx_bytes = 0,
     if_rx_handler = Rx_NULL, if_handler_ctx = VNull, if_arp_cache = NULL, if_rx_dropped = 0,
     if_rx_errors = 0, if_tx_errors = 0, if_state = IFACE_OK, if_last_rx_time = 0,
     if_last_tx_time = 0, if_last_error_time = 0\<rparr>"

definition demo_dev_world :: dev_world where
  "demo_dev_world = \<lparr>w_mem = \<lparr>mem_next = 9, mem_oom = [], mem_junk = (\<lambda>_. 0)\<rparr>, w_next_id = 8,
     w_pkts = Map.empty, w_scheds = Map.empty,
     w_ifaces = [1 \<mapsto> demo_iface ''eth0'' 3, 2 \<mapsto> demo_iface ''eth1'' NULL],
     w_devs = [3 \<mapsto> \<lparr>dev_name = ''R1'', dev_interfaces = [1], dev_iface_max = 4\<rparr>]\<rparr>"

lemma device_add_interface_wf_witness:
  "\<exists>w. device_add_interface 3 2 demo_dev_world = Some (0, w) \<and> dev_wf w 3"
proof -
  let ?d = "\<lparr>dev_name = ''R1'', dev_interfaces = [1], dev_iface_max = 4\<rparr>"
  have "dev_wf demo_dev_world 3" "dev_at 3 demo_dev_world = Some ?d"
    "iface_at 2 demo_dev_world = Some (demo_iface ''eth1'' NULL)"
    by (simp_all add: dev_wf_def dev_at_def iface_at_def demo_dev_world_def demo_iface_def)
  note add = device_add_interface_wf [OF this]
  have "list_all (\<lambda>a. if_name (the (iface_at a demo_dev_world)) \<noteq> ''eth1'') [1]"
    by (simp add: iface_at_def demo_dev_world_def demo_iface_def)
  with add show ?thesis by (auto simp: demo_iface_def)
qed

end
