(* ===== verification/Link.thy ===== *)
theory Link
  imports Device
begin

text \<open>
  Links (\<open>network/link.h\<close>, \<open>network/link.c\<close>). A link borrows its two end interfaces. Transmitting clones
  the frame and schedules its reception at the other end. The loss rate is a \<open>float\<close> that the code only
  stores; the model keeps its 32 bits.
\<close>

record Link =
  lk_end_a :: addr
  lk_end_b :: addr
  lk_bandwidth_mbps :: u32
  lk_delay_ms :: u32
  lk_loss_rate :: u32
  lk_up :: int

record link_world = dev_world +
  w_links :: "addr \<rightharpoonup> Link"

definition link_at :: "addr \<Rightarrow> 'a link_world_scheme \<Rightarrow> Link option" where
  "link_at a w = (if a = NULL then None else w_links w a)"

definition link_put :: "addr \<Rightarrow> Link \<Rightarrow> 'a link_world_scheme \<Rightarrow> 'a link_world_scheme" where
  "link_put a l w = w\<lparr>w_links := (w_links w)(a \<mapsto> l)\<rparr>"

definition link_create :: "addr \<Rightarrow> addr \<Rightarrow> u32 \<Rightarrow> u32 \<Rightarrow> u32 \<Rightarrow> 'a link_world_scheme \<Rightarrow> addr \<times> 'a link_world_scheme" where
  "link_create end_a end_b bw delay loss_rate w =
     (if end_a = NULL \<or> end_b = NULL \<or> bw = 0 then (NULL, w)
      else case alloc w of (link, w) \<Rightarrow>
        if link = NULL then (NULL, w)
        else (link, link_put link \<lparr>lk_end_a = end_a, lk_end_b = end_b, lk_bandwidth_mbps = bw,
                lk_delay_ms = delay, lk_loss_rate = loss_rate, lk_up = 1\<rparr> w))"

definition link_free :: "addr \<Rightarrow> 'a link_world_scheme \<Rightarrow> 'a link_world_scheme option" where
  "link_free link w =
     (if link = NULL then Some w
      else do { _ \<leftarrow> link_at link w; Some (w\<lparr>w_links := (w_links w)(link := None)\<rparr>) })"

definition link_set_up :: "addr \<Rightarrow> int \<Rightarrow> 'a link_world_scheme \<Rightarrow> 'a link_world_scheme option" where
  "link_set_up link up w =
     (if link = NULL then Some w
      else do { l \<leftarrow> link_at link w; Some (link_put link (l\<lparr>lk_up := up\<rparr>) w) })"

definition link_is_up :: "addr \<Rightarrow> 'a link_world_scheme \<Rightarrow> int option" where
  "link_is_up link w =
     (if link = NULL then Some 0
      else do { l \<leftarrow> link_at link w; Some (if lk_up l \<noteq> 0 then 1 else 0) })"

definition link_get_other_interface :: "addr \<Rightarrow> addr \<Rightarrow> 'a link_world_scheme \<Rightarrow> addr option" where
  "link_get_other_interface link src w =
     (if link = NULL \<or> src = NULL then Some NULL
      else do {
        l \<leftarrow> link_at link w;
        Some (if src = lk_end_a l then lk_end_b l
              else if src = lk_end_b l then lk_end_a l else NULL)
      })"

definition link_transmit :: "addr \<Rightarrow> addr \<Rightarrow> addr \<Rightarrow> addr \<Rightarrow> u64 \<Rightarrow> EventCallback \<Rightarrow> vptr \<Rightarrow>
    'a link_world_scheme \<Rightarrow> (int \<times> 'a link_world_scheme) option" where
  "link_transmit link pkt src sched now rx_handler rx_ctx w =
     (if link = NULL \<or> pkt = NULL \<or> src = NULL \<or> sched = NULL then Some (- 1, w)
      else do {
        l \<leftarrow> link_at link w;
        if lk_up l = 0 then Some (- 1, w)
        else do {
          dst \<leftarrow> link_get_other_interface link src w;
          up \<leftarrow> interface_is_up dst w;
          if dst = NULL \<or> up = 0 then Some (- 1, w)
          else do {
            (pkt_clone, w) \<leftarrow> packet_clone pkt w;
            if pkt_clone = NULL then Some (- 1, w)
            else case event_create_callback EVT_PACKET_RECEIVE (now + ucast (lk_delay_ms l)) (VIface src)
                   (VIface dst) pkt_clone VNull rx_handler rx_ctx w of
              (None, w) \<Rightarrow> do { w \<leftarrow> packet_free pkt_clone w; Some (- 1, w) }
            | (Some e, w) \<Rightarrow> do {
                (scheduled, w) \<leftarrow> scheduler_schedule sched (Some e) w;
                w \<leftarrow> (if scheduled \<noteq> 0 then packet_free pkt_clone w else Some w);
                Some (if scheduled = 0 then 1 else - 1, w)
              }
          }
        }
      })"

section \<open>Behaviour\<close>

lemma link_other_symmetric:
  assumes "link_at link w = Some l" "lk_end_a l \<noteq> NULL" "lk_end_b l \<noteq> NULL"
    and "link_get_other_interface link a w = Some b" "b \<noteq> NULL" "lk_end_a l \<noteq> lk_end_b l"
  shows "link_get_other_interface link b w = Some a"
  using assms by (auto simp: link_get_other_interface_def link_at_def split: if_splits)

text \<open>The event that \<open>link_transmit\<close> schedules.\<close>

definition rx_event :: "u64 \<Rightarrow> addr \<Rightarrow> addr \<Rightarrow> addr \<Rightarrow> EventCallback \<Rightarrow> vptr \<Rightarrow> Event" where
  "rx_event t src dst pkt h ctx = \<lparr>evt_type = EVT_PACKET_RECEIVE, evt_timestamp = t, evt_sequence = 0,
     evt_src_device = VIface src, evt_dst_device = VIface dst, evt_packet = pkt, evt_data = VNull,
     evt_handler = h, evt_handler_ctx = ctx\<rparr>"

lemma schedule_plenty:
  assumes "sched_at s w = Some sch" "sched_wf sch" "mem_oom (w_mem w) = []"
    and "16 * eq_capacity (sch_eq sch) \<le> PTRDIFF_MAX"
  shows "\<exists>sch' w'. scheduler_schedule s (Some e) w = Some (0, w') \<and> sched_at s w' = Some sch' \<and> sched_wf sch' \<and>
    sch_now sch' = sch_now sch \<and> eq_list (sch_eq sch') = insert_by evt_key e (eq_list (sch_eq sch)) \<and>
    w_pkts w' = w_pkts w \<and> sched_frame w w' \<and> mem_oom (w_mem w') = []"
proof -
  note s = sched_at_nonnull [OF assms(1)]
  have q: "queue_wf (sch_eq sch)" using assms(2) by (simp add: sched_wf_def)
  then show ?thesis
  proof (cases rule: event_queue_push_cases [where e = e and w = w])
    case (pushed eq' w')
    then have "w_pkts w' = w_pkts w" "sched_frame w w'"
      by (metis pkt_world.select_convs(3) pkt_world.update_convs(1) pkt_world.surjective)
        (rule sched_frame_mem [OF pushed(4)])
    moreover have "mem_oom (w_mem w') = []" by (rule event_queue_push_oom [OF pushed(1) assms(3)])
    ultimately show ?thesis using pushed assms s by (simp add: scheduler_schedule_def sched_wf_def sched_put_def [of s _ w'] sched_at_def sched_frame_def)
  next
    case (refused w')
    have "\<not> PTRDIFF_MAX < 8 * (eq_capacity (sch_eq sch) * 2) mod 2 ^ 64"
      using assms(4) by (simp add: PTRDIFF_MAX_def)
    with refused(3) assms(3) show ?thesis by (simp add: alloc_ptrs_def alloc_bytes_def alloc_plenty)
  qed
qed

lemma link_transmit_outcome:
  assumes "link_at link w = Some l" "lk_up l \<noteq> 0"
    and "link_get_other_interface link src w = Some dst" "iface_at dst w = Some d" "if_up d \<noteq> 0" "src \<noteq> NULL"
    and "pkt_at pkt w = Some p" "pkt_wf p" "pkt \<le> mem_next (w_mem w)" "PKT_HEADROOM + pkt_len p \<le> PTRDIFF_MAX"
    and "sched_at sched w = Some sch" "sched_wf sch" "16 * eq_capacity (sch_eq sch) \<le> PTRDIFF_MAX"
    and "mem_oom (w_mem w) = []"
  shows "\<exists>w' c q sch'. link_transmit link pkt src sched now h ctx w = Some (1, w') \<and>
    pkt_at pkt w' = Some p \<and> pkt_at c w' = Some q \<and> c \<noteq> pkt \<and> pkt_wf q \<and> visible q = visible p \<and>
    sched_at sched w' = Some sch' \<and> sched_wf sch' \<and> sch_now sch' = sch_now sch \<and>
    eq_list (sch_eq sch') =
      insert_by evt_key (rx_event (now + ucast (lk_delay_ms l)) src dst c h ctx) (eq_list (sch_eq sch)) \<and>
    sched_frame w w' \<and> mem_oom (w_mem w') = []"
proof -
  obtain c w1 q where cl: "packet_clone pkt w = Some (c, w1)" "c \<noteq> NULL" "c \<noteq> pkt" "pkt_at pkt w1 = Some p"
      "pkt_at c w1 = Some q" "pkt_wf q" "visible q = visible p"
    using packet_clone_cases [OF assms(7,8,9)] packet_clone_plenty [OF assms(14,10,7)] by blast
  have oom: "mem_oom (w_mem w1) = []" by (rule packet_clone_oom [OF cl(1) assms(14)])
  let ?w2 = "w1\<lparr>w_mem := (w_mem w1)\<lparr>mem_next := Suc (mem_next (w_mem w1))\<rparr>\<rparr>"
  have ev: "event_create_callback EVT_PACKET_RECEIVE t (VIface src) (VIface dst) c VNull h ctx w1 =
      (Some (rx_event t src dst c h ctx), ?w2)" for t
    by (simp add: event_create_callback_def alloc_plenty [OF oom] rx_event_def)
  have s2: "sched_at sched ?w2 = Some sch"
    using pkt_frame_scheds [OF packet_clone_frame [OF cl(1)]] assms(11) by simp
  let ?e = "rx_event (now + ucast (lk_delay_ms l)) src dst c h ctx"
  obtain w' sch' where sc: "scheduler_schedule sched (Some ?e) ?w2 = Some (0, w')" "sched_at sched w' = Some sch'"
      "sched_wf sch'" "sch_now sch' = sch_now sch" "eq_list (sch_eq sch') = insert_by evt_key ?e (eq_list (sch_eq sch))"
      "w_pkts w' = w_pkts ?w2" "sched_frame ?w2 w'" "mem_oom (w_mem w') = []"
    using schedule_plenty [OF s2 assms(12) _ assms(13), of ?e] oom by auto
  have up: "interface_is_up dst w = Some 1" "dst \<noteq> NULL" "link \<noteq> NULL" "pkt \<noteq> NULL" "sched \<noteq> NULL"
    using assms by (auto simp: interface_is_up_def link_at_def dest: iface_at_nonnull pkt_at_nonnull sched_at_nonnull split: if_splits)
  have "link_transmit link pkt src sched now h ctx w = Some (1, w')"
    using assms(1,2,3,6) up cl(1,2) ev sc(1) by (simp add: link_transmit_def)
  moreover have "pkt_at a w' = pkt_at a w1" for a using sc(6) by (simp add: pkt_at_def)
  moreover have "sched_frame w w'"
    using sched_frame_pkt [OF packet_clone_frame [OF cl(1)]] sc(7) by (simp add: sched_frame_def)
  ultimately show ?thesis using cl sc by auto
qed

text \<open>Transmission over a link that is up to an end that is up, with memory left, never faults and returns 1:
  the scheduler gets exactly one more event, the reception at the other end of the link at \<open>now\<close> plus the
  delay of the link, of a clone of the frame that shows the same bytes; the frame itself and the clock are
  unchanged.\<close>

lemma link_transmit_delivers:
  assumes "link_at link w = Some l" "lk_up l \<noteq> 0"
    and "link_get_other_interface link src w = Some dst" "iface_at dst w = Some d" "if_up d \<noteq> 0" "src \<noteq> NULL"
    and "pkt_at pkt w = Some p" "pkt_wf p" "pkt \<le> mem_next (w_mem w)" "PKT_HEADROOM + pkt_len p \<le> PTRDIFF_MAX"
    and "sched_at sched w = Some sch" "sched_wf sch" "16 * eq_capacity (sch_eq sch) \<le> PTRDIFF_MAX"
    and "mem_oom (w_mem w) = []"
  shows "\<exists>w' c q sch'. link_transmit link pkt src sched now h ctx w = Some (1, w') \<and>
    pkt_at pkt w' = Some p \<and> pkt_at c w' = Some q \<and> c \<noteq> pkt \<and> pkt_wf q \<and> visible q = visible p \<and>
    sched_at sched w' = Some sch' \<and> sched_wf sch' \<and> sch_now sch' = sch_now sch \<and>
    eq_list (sch_eq sch') =
      insert_by evt_key (rx_event (now + ucast (lk_delay_ms l)) src dst c h ctx) (eq_list (sch_eq sch))"
  using link_transmit_outcome [OF assms, of now h ctx] by blast

definition demo_link_world :: link_world where
  "demo_link_world = \<lparr>w_mem = \<lparr>mem_next = 9, mem_oom = [], mem_junk = (\<lambda>_. 0)\<rparr>, w_next_id = 8,
     w_pkts = [4 \<mapsto> demo_packet], w_scheds = [5 \<mapsto> demo_sched],
     w_ifaces = [1 \<mapsto> demo_iface ''eth0'' NULL, 2 \<mapsto> demo_iface ''eth1'' NULL], w_devs = Map.empty,
     w_links = [6 \<mapsto> \<lparr>lk_end_a = 1, lk_end_b = 2, lk_bandwidth_mbps = 100, lk_delay_ms = 5, lk_loss_rate = 0, lk_up = 1\<rparr>]\<rparr>"

lemma demo_sched_wf: "sched_wf demo_sched"
  by (simp add: sched_wf_def demo_sched_def queue_wf_def eq_list_def PTRDIFF_MAX_def demo_event_def evt_key_def)

lemma link_transmit_delivers_witness:
  "\<exists>w c q. link_transmit 6 4 1 5 7 (Cb_extern 0) VNull demo_link_world = Some (1, w) \<and>
     pkt_at c w = Some q \<and> visible q = visible demo_packet"
proof -
  let ?l = "\<lparr>lk_end_a = 1, lk_end_b = 2, lk_bandwidth_mbps = 100, lk_delay_ms = 5, lk_loss_rate = 0, lk_up = 1\<rparr>"
  have "link_at 6 demo_link_world = Some ?l" "lk_up ?l \<noteq> 0"
    "link_get_other_interface 6 1 demo_link_world = Some 2"
    "iface_at 2 demo_link_world = Some (demo_iface ''eth1'' NULL)" "if_up (demo_iface ''eth1'' NULL) \<noteq> 0" "(1 :: nat) \<noteq> NULL"
    "pkt_at 4 demo_link_world = Some demo_packet" "pkt_wf demo_packet" "4 \<le> mem_next (w_mem demo_link_world)"
    "PKT_HEADROOM + pkt_len demo_packet \<le> PTRDIFF_MAX" "sched_at 5 demo_link_world = Some demo_sched"
    "sched_wf demo_sched" "16 * eq_capacity (sch_eq demo_sched) \<le> PTRDIFF_MAX" "mem_oom (w_mem demo_link_world) = []"
    by (simp_all add: demo_link_world_def link_at_def link_get_other_interface_def iface_at_def demo_iface_def
        pkt_at_def demo_packet_facts sched_at_def demo_sched_wf) (simp add: demo_sched_def)
  from link_transmit_delivers [OF this] show ?thesis by blast
qed

end
