(* ===== verification/Topology.thy ===== *)
theory Topology
  imports Link
begin

text \<open>
  The network being simulated (\<open>network/topology.h\<close>, \<open>network/topology.c\<close>): growing arrays of devices and
  links. The model keeps the used part of each array and its capacity; a full array is reallocated at
  twice the size.
\<close>

record Topology =
  tp_devices :: "addr list"
  tp_dev_cap :: int
  tp_links :: "addr list"
  tp_link_cap :: int

record topo_world = link_world +
  w_topos :: "addr \<rightharpoonup> Topology"

definition topo_at :: "addr \<Rightarrow> 'a topo_world_scheme \<Rightarrow> Topology option" where
  "topo_at a w = (if a = NULL then None else w_topos w a)"

definition topo_put :: "addr \<Rightarrow> Topology \<Rightarrow> 'a topo_world_scheme \<Rightarrow> 'a topo_world_scheme" where
  "topo_put a t w = w\<lparr>w_topos := (w_topos w)(a \<mapsto> t)\<rparr>"

definition topology_create :: "'a topo_world_scheme \<Rightarrow> addr \<times> 'a topo_world_scheme" where
  "topology_create w = (case alloc w of (topo, w) \<Rightarrow>
     if topo = NULL then (NULL, w)
     else case alloc w of (devices, w) \<Rightarrow> case alloc w of (links, w) \<Rightarrow>
       if devices = NULL \<or> links = NULL then (NULL, w)
       else (topo, topo_put topo \<lparr>tp_devices = [], tp_dev_cap = 8, tp_links = [], tp_link_cap = 8\<rparr> w))"

fun free_devices :: "addr list \<Rightarrow> 'a topo_world_scheme \<Rightarrow> 'a topo_world_scheme option" where
  "free_devices [] w = Some w"
| "free_devices (d # ds) w = do { w \<leftarrow> device_free d w; free_devices ds w }"

fun free_links :: "addr list \<Rightarrow> 'a topo_world_scheme \<Rightarrow> 'a topo_world_scheme option" where
  "free_links [] w = Some w"
| "free_links (l # ls) w = do { w \<leftarrow> link_free l w; free_links ls w }"

definition topology_free :: "addr \<Rightarrow> 'a topo_world_scheme \<Rightarrow> 'a topo_world_scheme option" where
  "topology_free topo w =
     (if topo = NULL then Some w
      else do {
        t \<leftarrow> topo_at topo w;
        w \<leftarrow> free_devices (tp_devices t) w;
        w \<leftarrow> free_links (tp_links t) w;
        Some (w\<lparr>w_topos := (w_topos w)(topo := None)\<rparr>)
      })"

definition topology_add_device :: "addr \<Rightarrow> addr \<Rightarrow> 'a topo_world_scheme \<Rightarrow> (int \<times> 'a topo_world_scheme) option" where
  "topology_add_device topo dev w =
     (if topo = NULL \<or> dev = NULL then Some (- 1, w)
      else do {
        t \<leftarrow> topo_at topo w;
        if int (length (tp_devices t)) = tp_dev_cap t
        then case alloc w of (new_array, w) \<Rightarrow>
          if new_array = NULL then Some (- 1, w)
          else Some (0, topo_put topo (t\<lparr>tp_dev_cap := tp_dev_cap t * 2, tp_devices := tp_devices t @ [dev]\<rparr>) w)
        else Some (0, topo_put topo (t\<lparr>tp_devices := tp_devices t @ [dev]\<rparr>) w)
      })"

definition topology_add_link :: "addr \<Rightarrow> addr \<Rightarrow> 'a topo_world_scheme \<Rightarrow> (int \<times> 'a topo_world_scheme) option" where
  "topology_add_link topo link w =
     (if topo = NULL \<or> link = NULL then Some (- 1, w)
      else do {
        t \<leftarrow> topo_at topo w;
        if int (length (tp_links t)) = tp_link_cap t
        then case alloc w of (new_array, w) \<Rightarrow>
          if new_array = NULL then Some (- 1, w)
          else Some (0, topo_put topo (t\<lparr>tp_link_cap := tp_link_cap t * 2, tp_links := tp_links t @ [link]\<rparr>) w)
        else Some (0, topo_put topo (t\<lparr>tp_links := tp_links t @ [link]\<rparr>) w)
      })"

fun find_device :: "(Device \<Rightarrow> bool option) \<Rightarrow> addr list \<Rightarrow> 'a topo_world_scheme \<Rightarrow> addr option" where
  "find_device P [] w = Some NULL"
| "find_device P (a # as) w = do {
     d \<leftarrow> dev_at a w;
     hit \<leftarrow> P d;
     if hit then Some a else find_device P as w
   }"

definition topology_find_device_by_name :: "addr \<Rightarrow> string option \<Rightarrow> 'a topo_world_scheme \<Rightarrow> addr option" where
  "topology_find_device_by_name topo name w = (case name of None \<Rightarrow> Some NULL | Some nm \<Rightarrow>
     if topo = NULL then Some NULL
     else do { t \<leftarrow> topo_at topo w; find_device (\<lambda>d. Some (dev_name d = nm)) (tp_devices t) w })"

definition topology_find_device_by_ip :: "addr \<Rightarrow> u32 \<Rightarrow> 'a topo_world_scheme \<Rightarrow> addr option" where
  "topology_find_device_by_ip topo ip_addr w =
     (if topo = NULL then Some NULL
      else do {
        t \<leftarrow> topo_at topo w;
        find_device (\<lambda>d. do {
            i \<leftarrow> find_iface (\<lambda>i. if_ip_addr i = ip_addr) (dev_interfaces d) w;
            Some (i \<noteq> NULL)
          }) (tp_devices t) w
      })"

fun find_link :: "(Link \<Rightarrow> bool) \<Rightarrow> addr list \<Rightarrow> 'a topo_world_scheme \<Rightarrow> addr option" where
  "find_link P [] w = Some NULL"
| "find_link P (a # as) w = do { l \<leftarrow> link_at a w; if P l then Some a else find_link P as w }"

definition topology_get_link_between :: "addr \<Rightarrow> addr \<Rightarrow> addr \<Rightarrow> 'a topo_world_scheme \<Rightarrow> addr option" where
  "topology_get_link_between topo iface_a iface_b w =
     (if topo = NULL \<or> iface_a = NULL \<or> iface_b = NULL then Some NULL
      else do {
        t \<leftarrow> topo_at topo w;
        find_link (\<lambda>l. (lk_end_a l = iface_a \<and> lk_end_b l = iface_b) \<or>
                       (lk_end_a l = iface_b \<and> lk_end_b l = iface_a)) (tp_links t) w
      })"

definition topology_device_count :: "addr \<Rightarrow> 'a topo_world_scheme \<Rightarrow> int option" where
  "topology_device_count topo w =
     (if topo = NULL then Some 0 else do { t \<leftarrow> topo_at topo w; Some (int (length (tp_devices t))) })"

definition topology_link_count :: "addr \<Rightarrow> 'a topo_world_scheme \<Rightarrow> int option" where
  "topology_link_count topo w =
     (if topo = NULL then Some 0 else do { t \<leftarrow> topo_at topo w; Some (int (length (tp_links t))) })"

section \<open>Behaviour\<close>

text \<open>The used part of each array fits its capacity, which is positive.\<close>

definition topo_wf :: "Topology \<Rightarrow> bool" where
  "topo_wf t \<longleftrightarrow> 0 < tp_dev_cap t \<and> int (length (tp_devices t)) \<le> tp_dev_cap t \<and>
     0 < tp_link_cap t \<and> int (length (tp_links t)) \<le> tp_link_cap t"

lemma topo_at_put [simp]: "a \<noteq> NULL \<Longrightarrow> topo_at b (topo_put a t w) = (if b = a then Some t else topo_at b w)"
  by (simp add: topo_at_def topo_put_def)

lemma topo_at_nonnull: "topo_at a w = Some t \<Longrightarrow> a \<noteq> NULL"
  by (simp add: topo_at_def split: if_splits)

text \<open>Adding a device or a link to a well-formed topology never writes outside its array: it either appends
  to it, growing it when it is full, and keeps the topology well formed, or returns -1 without changing the
  topology, which happens only when the allocator refuses.\<close>

lemma topology_add_wf:
  assumes "topo_at topo w = Some t" "topo_wf t" "x \<noteq> NULL"
  shows "(\<exists>r w' t'. topology_add_device topo x w = Some (r, w') \<and> topo_at topo w' = Some t' \<and> topo_wf t' \<and>
      (r = 0 \<and> tp_devices t' = tp_devices t @ [x] \<and> tp_links t' = tp_links t \<or>
       r = - 1 \<and> t' = t \<and> fst (alloc w) = NULL)) \<and>
    (\<exists>r w' t'. topology_add_link topo x w = Some (r, w') \<and> topo_at topo w' = Some t' \<and> topo_wf t' \<and>
      (r = 0 \<and> tp_links t' = tp_links t @ [x] \<and> tp_devices t' = tp_devices t \<or>
       r = - 1 \<and> t' = t \<and> fst (alloc w) = NULL))"
proof -
  note nn = topo_at_nonnull [OF assms(1)]
  obtain a w1 where a: "alloc w = (a, w1)" by fastforce
  have "topo_at topo w1 = topo_at topo w" using a by (auto simp: alloc_def topo_at_def split: prod.splits)
  then show ?thesis using assms nn a
    by (auto simp: topology_add_device_def topology_add_link_def topo_wf_def)
qed

lemma topology_add_wf_witness:
  defines "w \<equiv> link_world.extend demo_link_world
      \<lparr>w_topos = [8 \<mapsto> \<lparr>tp_devices = replicate 8 1, tp_dev_cap = 8, tp_links = [], tp_link_cap = 8\<rparr>]\<rparr>"
  shows "\<exists>w' t'. topology_add_device 8 3 w = Some (0, w') \<and> topo_at 8 w' = Some t' \<and> length (tp_devices t') = 9 \<and> topo_wf t'"
proof -
  let ?t = "\<lparr>tp_devices = replicate 8 1, tp_dev_cap = 8, tp_links = [], tp_link_cap = 8\<rparr>"
  have "topo_at 8 w = Some ?t" "topo_wf ?t" "(3 :: nat) \<noteq> NULL" and "fst (alloc w) \<noteq> NULL"
    by (simp_all add: w_def topo_at_def topo_wf_def link_world.extend_def demo_link_world_def alloc_def malloc_def)
  with topology_add_wf [OF this(1-3)] show ?thesis by force
qed

end
