(* ===== verification/Simulator.thy ===== *)
theory Simulator
  imports Topology
begin

text \<open>
  The simulator (\<open>engine/simulator.h\<close>, \<open>engine/simulator.c\<close>): it owns a topology and a scheduler and runs
  the event loop up to an optional end time.
\<close>

record Simulator =
  sim_topo :: addr
  sim_sched :: addr
  sim_end_time :: u64

record sim_world = topo_world +
  w_sims :: "addr \<rightharpoonup> Simulator"

definition sim_at :: "addr \<Rightarrow> 'a sim_world_scheme \<Rightarrow> Simulator option" where
  "sim_at a w = (if a = NULL then None else w_sims w a)"

definition sim_put :: "addr \<Rightarrow> Simulator \<Rightarrow> 'a sim_world_scheme \<Rightarrow> 'a sim_world_scheme" where
  "sim_put a s w = w\<lparr>w_sims := (w_sims w)(a \<mapsto> s)\<rparr>"

definition simulator_create :: "addr \<Rightarrow> addr \<Rightarrow> 'a sim_world_scheme \<Rightarrow> addr \<times> 'a sim_world_scheme" where
  "simulator_create topo sched w =
     (if topo = NULL \<or> sched = NULL then (NULL, w)
      else case alloc w of (sim, w) \<Rightarrow>
        if sim = NULL then (NULL, w)
        else (sim, sim_put sim \<lparr>sim_topo = topo, sim_sched = sched, sim_end_time = 0\<rparr> w))"

definition simulator_free :: "addr \<Rightarrow> 'a sim_world_scheme \<Rightarrow> 'a sim_world_scheme option" where
  "simulator_free sim w =
     (if sim = NULL then Some w
      else do {
        m \<leftarrow> sim_at sim w;
        w \<leftarrow> scheduler_free (sim_sched m) w;
        w \<leftarrow> topology_free (sim_topo m) w;
        Some (w\<lparr>w_sims := (w_sims w)(sim := None)\<rparr>)
      })"

type_synonym 'a dispatch =
  "EventCallback \<Rightarrow> Event \<Rightarrow> vptr \<Rightarrow> 'a sim_world_scheme \<Rightarrow> 'a sim_world_scheme option"

text \<open>The loop of \<open>simulator_run\<close>: one step, then the two conditions that clear \<open>running\<close>.\<close>

definition simulator_turn :: "'a dispatch \<Rightarrow> addr \<Rightarrow> 'a sim_world_scheme \<Rightarrow> 'a sim_world_scheme option" where
  "simulator_turn call sim w = do {
     m \<leftarrow> sim_at sim w;
     (step_state, w) \<leftarrow> scheduler_step call (sim_sched m) w;
     m \<leftarrow> sim_at sim w;
     w \<leftarrow> (if step_state = 0 then sched_set_running (sim_sched m) 0 w else Some w);
     sch \<leftarrow> sched_at (sim_sched m) w;
     if 0 < sim_end_time m \<and> sim_end_time m \<le> sch_now sch then sched_set_running (sim_sched m) 0 w else Some w
   }"

partial_function (option) simulator_loop :: "'a dispatch \<Rightarrow> addr \<Rightarrow> 'a sim_world_scheme \<Rightarrow> 'a sim_world_scheme option" where
  "simulator_loop call sim w = do {
     m \<leftarrow> sim_at sim w;
     sch \<leftarrow> sched_at (sim_sched m) w;
     if sch_running sch = 1 then do { w \<leftarrow> simulator_turn call sim w; simulator_loop call sim w }
     else Some w
   }"

definition simulator_run :: "'a dispatch \<Rightarrow> addr \<Rightarrow> 'a sim_world_scheme \<Rightarrow> (int \<times> 'a sim_world_scheme) option" where
  "simulator_run call sim w = do {
     m \<leftarrow> sim_at sim w;
     w \<leftarrow> sched_set_running (sim_sched m) 1 w;
     w \<leftarrow> simulator_loop call sim w;
     Some (0, w)
   }"

definition simulator_step :: "'a dispatch \<Rightarrow> addr \<Rightarrow> 'a sim_world_scheme \<Rightarrow> (int \<times> 'a sim_world_scheme) option" where
  "simulator_step call sim w =
     (if sim = NULL then Some (- 1, w)
      else do { m \<leftarrow> sim_at sim w; scheduler_step call (sim_sched m) w })"

definition simulator_stop :: "addr \<Rightarrow> 'a sim_world_scheme \<Rightarrow> 'a sim_world_scheme option" where
  "simulator_stop sim w =
     (if sim = NULL then Some w else do { m \<leftarrow> sim_at sim w; scheduler_stop (sim_sched m) w })"

definition simulator_set_end_time :: "addr \<Rightarrow> u64 \<Rightarrow> 'a sim_world_scheme \<Rightarrow> 'a sim_world_scheme option" where
  "simulator_set_end_time sim end_us w =
     (if sim = NULL then Some w
      else do { m \<leftarrow> sim_at sim w; Some (sim_put sim (m\<lparr>sim_end_time := end_us\<rparr>) w) })"

definition simulator_now :: "addr \<Rightarrow> 'a sim_world_scheme \<Rightarrow> u64 option" where
  "simulator_now sim w =
     (if sim = NULL then Some 0
      else do { m \<leftarrow> sim_at sim w; sch \<leftarrow> sched_at (sim_sched m) w; Some (sch_now sch) })"

definition simulator_inject_packet :: "addr \<Rightarrow> addr \<Rightarrow> addr \<Rightarrow> addr \<Rightarrow> u64 \<Rightarrow> 'a sim_world_scheme \<Rightarrow>
    (int \<times> 'a sim_world_scheme) option" where
  "simulator_inject_packet sim src dst pkt delay_us w =
     (if sim = NULL \<or> src = NULL \<or> dst = NULL \<or> pkt = NULL then Some (- 1, w)
      else do {
        m \<leftarrow> sim_at sim w;
        sch \<leftarrow> sched_at (sim_sched m) w;
        case event_create EVT_PACKET_SEND (sch_now sch + delay_us) (VDevice src) (VDevice dst) pkt VNull w of
          (None, w) \<Rightarrow> Some (- 1, w)
        | (Some e, w) \<Rightarrow> scheduler_schedule (sim_sched m) (Some e) w
      })"

definition simulator_register_handler :: "addr \<Rightarrow> EventType \<Rightarrow> EventCallback \<Rightarrow> vptr \<Rightarrow>
    'a sim_world_scheme \<Rightarrow> 'a sim_world_scheme option" where
  "simulator_register_handler sim ty fn ctx w =
     (if sim = NULL \<or> fn = Cb_NULL \<or> EVT_TYPE_COUNT \<le> ty then Some w
      else do { m \<leftarrow> sim_at sim w; scheduler_register (sim_sched m) ty fn ctx w })"

section \<open>Running up to the end time\<close>

text \<open>The events that a run processes: all up to and including the first one that brings the clock to the
  end time; an end time of 0 is no limit.\<close>

fun until_end :: "u64 \<Rightarrow> u64 \<Rightarrow> Event list \<Rightarrow> Event list" where
  "until_end end_time now [] = []"
| "until_end end_time now (e # es) =
     (let t = max now (evt_timestamp e) in
      e # (if 0 < end_time \<and> end_time \<le> t then [] else until_end end_time t es))"

definition keeps_sim :: "'a dispatch \<Rightarrow> addr \<Rightarrow> bool" where
  "keeps_sim call sim \<longleftrightarrow> (\<forall>fn e ctx w w'. call fn e ctx w = Some w' \<longrightarrow> sim_at sim w' = sim_at sim w)"

lemma sim_at_sched_put [simp]: "sim_at a (sched_put s x w) = sim_at a w"
  by (simp add: sim_at_def sched_put_def)

lemma sim_at_nonnull: "sim_at a w = Some m \<Longrightarrow> a \<noteq> NULL"
  by (simp add: sim_at_def split: if_splits)

lemma queue_rest: "queue_wf eq \<Longrightarrow> \<exists>eq'. queue_wf eq' \<and> eq_list eq' = drop n (eq_list eq)"
proof (induction n arbitrary: eq)
  case 0
  then show ?case by auto
next
  case (Suc n)
  show ?case
  proof (cases "eq_list eq")
    case Nil
    with Suc.prems show ?thesis by (intro exI [of _ eq]) simp
  next
    case (Cons e es)
    then obtain eq1 where "queue_wf eq1" "eq_list eq1 = es" using event_queue_pop_wf [OF Suc.prems Cons] by blast
    with Suc.IH [of eq1] Cons show ?thesis by auto
  qed
qed

lemma simulator_loop_stopped:
  "sim_at sim w = Some m \<Longrightarrow> sched_at (sim_sched m) w = Some sch \<Longrightarrow> sch_running sch \<noteq> 1 \<Longrightarrow>
   simulator_loop call sim w = Some w"
  by (simp add: simulator_loop.simps)

lemma simulator_loop_runs:
  "sim_at sim w = Some m \<Longrightarrow> sched_at (sim_sched m) w = Some sch \<Longrightarrow> sch_running sch = 1 \<Longrightarrow>
   simulator_loop call sim w = do { w \<leftarrow> simulator_turn call sim w; simulator_loop call sim w }"
  by (subst simulator_loop.simps) simp

lemma quiet_sim_loop:
  assumes "quiet call s" "keeps_sim call sim" "s \<noteq> NULL"
  shows "sim_at sim w = Some m \<Longrightarrow> sim_sched m = s \<Longrightarrow> queue_wf (sch_eq sch) \<Longrightarrow> eq_list (sch_eq sch) = es \<Longrightarrow>
    sch_running sch = 1 \<Longrightarrow> pre = until_end (sim_end_time m) (sch_now sch) es \<Longrightarrow>
    \<exists>eq'. queue_wf eq' \<and> eq_list eq' = drop (length pre) es \<and> simulator_loop call sim (sched_put s sch w) =
      map_option (sched_put s (sch\<lparr>sch_eq := eq', sch_now := time_after (sch_now sch) pre, sch_running := 0\<rparr>))
        (run_calls call sch pre w)"
proof (induction es arbitrary: sch w pre)
  case Nil
  let ?w = "sched_put s sch w" and ?stopped = "sched_put s (sch\<lparr>sch_running := 0\<rparr>) w"
  have turn: "simulator_turn call sim ?w = Some ?stopped"
    using Nil assms(3) by (simp add: simulator_turn_def scheduler_step_def event_queue_pop_empty sched_set_running_def)
  have stop: "simulator_loop call sim ?stopped = Some ?stopped"
    using Nil assms(3)
    by (intro simulator_loop_stopped [where m = m and sch = "sch\<lparr>sch_running := 0\<rparr>"]) auto
  have "simulator_loop call sim ?w = do { w \<leftarrow> simulator_turn call sim ?w; simulator_loop call sim w }"
    by (rule simulator_loop_runs [where m = m and sch = sch]) (use Nil assms(3) in simp_all)
  then have "simulator_loop call sim ?w = Some ?stopped" using turn stop by simp
  with Nil show ?case by (intro exI [of _ "sch_eq sch"]) (simp add: time_after_def)
next
  case (Cons e es)
  let ?h = "case handler_of e sch of None \<Rightarrow> Some w | Some (fn, ctx) \<Rightarrow> call fn e ctx w"
  let ?t = "max (sch_now sch) (evt_timestamp e)"
  let ?w = "sched_put s sch w"
  obtain eq1 where eq1: "queue_wf eq1" "eq_list eq1 = es"
    and step: "scheduler_step call s ?w =
      map_option (\<lambda>w. (1, sched_put s (sch\<lparr>sch_eq := eq1, sch_now := ?t\<rparr>) w)) ?h"
    by (rule quiet_step [OF assms(1,3) Cons.prems(3,4), where w = w])
  let ?sch = "sch\<lparr>sch_eq := eq1, sch_now := ?t\<rparr>"
  let ?stop = "0 < sim_end_time m \<and> sim_end_time m \<le> ?t"
  have loop: "simulator_loop call sim ?w = do { w \<leftarrow> simulator_turn call sim ?w; simulator_loop call sim w }"
    using Cons.prems assms(3) by (intro simulator_loop_runs [where m = m and sch = sch]) auto
  show ?case
  proof (cases ?h)
    case None
    then have "simulator_turn call sim ?w = None" using step Cons.prems by (simp add: simulator_turn_def)
    moreover have "run_calls call sch pre w = None" using None Cons.prems(6) by (simp add: Let_def)
    ultimately show ?thesis using loop queue_rest [OF Cons.prems(3), of "length pre"] Cons.prems(4) by auto
  next
    case (Some w1)
    have m1: "sim_at sim w1 = Some m"
      using Some Cons.prems(1) assms(2) by (auto simp: keeps_sim_def split: option.splits prod.splits)
    have turn: "simulator_turn call sim ?w =
        Some (sched_put s (if ?stop then ?sch\<lparr>sch_running := 0\<rparr> else ?sch) w1)"
      using step Some Cons.prems m1 assms(3) by (simp add: simulator_turn_def sched_set_running_def)
    show ?thesis
    proof (cases ?stop)
      case True
      have "simulator_loop call sim (sched_put s (?sch\<lparr>sch_running := 0\<rparr>) w1) = Some (sched_put s (?sch\<lparr>sch_running := 0\<rparr>) w1)"
        using m1 Cons.prems assms(3)
        by (intro simulator_loop_stopped [where m = m and sch = "?sch\<lparr>sch_running := 0\<rparr>"]) auto
      with loop turn True have "simulator_loop call sim ?w = Some (sched_put s (?sch\<lparr>sch_running := 0\<rparr>) w1)" by simp
      moreover have "pre = [e]" using Cons.prems(6) True by (simp add: Let_def)
      ultimately show ?thesis using eq1 Some by (intro exI [of _ eq1]) (simp add: time_after_def)
    next
      case False
      define pre1 where "pre1 = until_end (sim_end_time m) (sch_now ?sch) es"
      have pre: "pre = e # pre1" using Cons.prems(6) False by (simp add: Let_def pre1_def)
      obtain eq' where eq': "queue_wf eq'" "eq_list eq' = drop (length pre1) es"
        "simulator_loop call sim (sched_put s ?sch w1) =
          map_option (sched_put s (?sch\<lparr>sch_eq := eq', sch_now := time_after (sch_now ?sch) pre1, sch_running := 0\<rparr>))
            (run_calls call ?sch pre1 w1)"
        using Cons.IH [of w1 ?sch pre1] m1 Cons.prems eq1 pre1_def by auto
      have "run_calls call ?sch pre1 w1 = run_calls call sch pre1 w1" by (rule run_calls_cong) simp
      then show ?thesis using eq' loop turn False Some pre
        by (intro exI [of _ eq']) (simp add: time_after_def)
    qed
  qed
qed


definition demo_sim_world :: sim_world where
  "demo_sim_world = \<lparr>w_mem = \<lparr>mem_next = 9, mem_oom = [], mem_junk = (\<lambda>_. 0)\<rparr>, w_next_id = 8,
     w_pkts = Map.empty, w_scheds = [5 \<mapsto> demo_sched], w_ifaces = Map.empty, w_devs = Map.empty,
     w_links = Map.empty, w_topos = Map.empty,
     w_sims = [7 \<mapsto> \<lparr>sim_topo = 6, sim_sched = 5, sim_end_time = 4\<rparr>]\<rparr>"

definition count_sim_call :: "EventCallback \<Rightarrow> Event \<Rightarrow> vptr \<Rightarrow> sim_world \<Rightarrow> sim_world option" where
  "count_sim_call fn e ctx w = Some (w\<lparr>w_next_id := w_next_id w + 1\<rparr>)"


end
