(* ===== verification/Ethernet.thy ===== *)
theory Ethernet
  imports Simulator
begin

text \<open>
  Ethernet framing (\<open>protocols/ethernet.h\<close>, \<open>protocols/ethernet.c\<close>). A frame is the packet with a 14-byte
  header in front; sending puts the header on and hands the frame to the link, receiving filters by
  destination address and takes it off. The call of the receive handler that the layer above installed is the
  argument \<open>rx\<close> of \<open>ethernet_receive_event\<close>.
\<close>

section \<open>Operations\<close>

definition ETH_HDR_LEN :: nat where "ETH_HDR_LEN = 14"
definition ETHERTYPE_IPV4 :: u16 where "ETHERTYPE_IPV4 = 0x0800"
definition ETHERTYPE_ARP :: u16 where "ETHERTYPE_ARP = 0x0806"

definition ETH_BROADCAST :: bytes where
  "ETH_BROADCAST = [0xFF, 0xFF, 0xFF, 0xFF, 0xFF, 0xFF]"

text \<open>\<open>EthernetHeader\<close>: destination, source, and the type in network byte order.\<close>

definition EthernetHeader :: "bytes \<Rightarrow> bytes \<Rightarrow> u16 \<Rightarrow> bytes" where
  "EthernetHeader dst src ethertype = take 6 dst @ take 6 src @ put16 (ns_htons ethertype)"

definition mac_equal :: "bytes \<Rightarrow> bytes \<Rightarrow> bool" where
  "mac_equal a b \<longleftrightarrow> take 6 a = take 6 b"

definition mac_is_ipv4_multicast :: "bytes \<Rightarrow> bool" where
  "mac_is_ipv4_multicast mac \<longleftrightarrow> mac ! 0 = 0x01 \<and> mac ! 1 = 0x00 \<and> mac ! 2 = 0x5e \<and> mac ! 3 AND 0x80 = 0"

text \<open>A \<open>void *\<close> used as an interface.\<close>

definition as_iface :: "vptr \<Rightarrow> addr option" where
  "as_iface v = (case v of VNull \<Rightarrow> Some NULL | VIface a \<Rightarrow> Some a | _ \<Rightarrow> None)"

text \<open>The error exits of \<open>ethernet_send\<close> count and stamp the error.\<close>

definition tx_error :: "addr \<Rightarrow> addr \<Rightarrow> 'a sim_world_scheme \<Rightarrow> (int \<times> 'a sim_world_scheme) option" where
  "tx_error sim iface w = do {
     now \<leftarrow> simulator_now sim w;
     w \<leftarrow> iface_upd iface (\<lambda>i. i\<lparr>if_tx_errors := if_tx_errors i + 1, if_last_error_time := now\<rparr>) w;
     Some (- 1, w)
   }"

definition ethernet_send :: "addr \<Rightarrow> addr \<Rightarrow> bytes option \<Rightarrow> u16 \<Rightarrow> addr \<Rightarrow> 'a sim_world_scheme \<Rightarrow>
    (int \<times> 'a sim_world_scheme) option" where
  "ethernet_send sim iface dst_mac ethertype payload w = (case dst_mac of None \<Rightarrow> Some (- 1, w) | Some dst \<Rightarrow>
     if sim = NULL \<or> iface = NULL \<or> payload = NULL then Some (- 1, w)
     else do {
       i \<leftarrow> iface_at iface w;
       if if_state i = IFACE_ERR_DISABLED then Some (- 1, w)
       else do {
         let (eth_hdr, w) = alloc w;
         if eth_hdr = NULL then tx_error sim iface w
         else do {
           (r, w) \<leftarrow> packet_prepend payload (EthernetHeader dst (if_mac i) ethertype) w;
           if r = - 1 then tx_error sim iface w
           else do {
             p \<leftarrow> pkt_at payload w;
             now \<leftarrow> simulator_now sim w;
             w \<leftarrow> iface_upd iface (\<lambda>i. i\<lparr>if_tx_bytes := if_tx_bytes i + of_nat (pkt_len p), if_last_tx_time := now\<rparr>) w;
             let w = pkt_put payload (p\<lparr>pkt_layer := 2\<rparr>) w;
             i \<leftarrow> iface_at iface w;
             m \<leftarrow> sim_at sim w;
             link_transmit (if_link i) payload iface (sim_sched m) now Cb_ethernet_receive_event (VSim sim) w
           }
         }
       }
     })"

text \<open>\<open>ethernet_receive\<close> returns the C result and what it stores through \<open>out_ethertype\<close>, if anything.\<close>

definition ethernet_receive :: "addr \<Rightarrow> addr \<Rightarrow> bool \<Rightarrow> 'a sim_world_scheme \<Rightarrow>
    (int \<times> u16 option \<times> 'a sim_world_scheme) option" where
  "ethernet_receive iface frame has_out w =
     (if iface = NULL \<or> frame = NULL \<or> \<not> has_out then Some (- 1, None, w)
      else do {
        f \<leftarrow> pkt_at frame w;
        if packet_validate_view (Some f) 0 ETH_HDR_LEN \<noteq> 0 then Some (- 1, None, w)
        else do {
          i \<leftarrow> iface_at iface w;
          if if_state i = IFACE_ERR_DISABLED then Some (- 1, None, w)
          else do {
            eth_hdr \<leftarrow> pkt_read f 0 ETH_HDR_LEN;
            let ethertype = ns_ntohs (get16 eth_hdr 12);
            if \<not> mac_equal eth_hdr (if_mac i) \<and> \<not> mac_equal eth_hdr ETH_BROADCAST \<and>
               \<not> (ethertype = ETHERTYPE_IPV4 \<and> mac_is_ipv4_multicast eth_hdr)
            then Some (1, None, w)
            else do {
              (r, w) \<leftarrow> packet_strip frame ETH_HDR_LEN w;
              if r = - 1 then Some (- 1, Some ethertype, w)
              else do {
                f \<leftarrow> pkt_at frame w;
                w \<leftarrow> iface_upd iface (\<lambda>i. i\<lparr>if_rx_bytes := if_rx_bytes i + of_nat (pkt_len f)\<rparr>) w;
                Some (0, Some ethertype, pkt_put frame (f\<lparr>pkt_layer := 3\<rparr>) w)
              }
            }
          }
        }
      })"

type_synonym 'a rx_call =
  "RxHandler \<Rightarrow> addr \<Rightarrow> addr \<Rightarrow> u16 \<Rightarrow> vptr \<Rightarrow> 'a sim_world_scheme \<Rightarrow> 'a sim_world_scheme option"

definition ethernet_receive_event :: "'a rx_call \<Rightarrow> Event \<Rightarrow> vptr \<Rightarrow> 'a sim_world_scheme \<Rightarrow> 'a sim_world_scheme option" where
  "ethernet_receive_event rx e ctx w = do {
     iface \<leftarrow> as_iface (evt_dst_device e);
     let frame = evt_packet e;
     if iface = NULL \<or> frame = NULL then Some w
     else do {
       (result, ethertype, w) \<leftarrow> ethernet_receive iface frame True w;
       if result = 0 then do {
         w \<leftarrow> iface_upd iface (\<lambda>i. i\<lparr>if_last_rx_time := evt_timestamp e\<rparr>) w;
         i \<leftarrow> iface_at iface w;
         if if_rx_handler i \<noteq> Rx_NULL
         then rx (if_rx_handler i) iface frame (case ethertype of None \<Rightarrow> 0 | Some t \<Rightarrow> t) (if_handler_ctx i) w
         else Some w
       }
       else if result = 1 then iface_upd iface (\<lambda>i. i\<lparr>if_rx_dropped := if_rx_dropped i + 1\<rparr>) w
       else iface_upd iface (\<lambda>i. i\<lparr>if_rx_errors := if_rx_errors i + 1, if_last_error_time := evt_timestamp e\<rparr>) w
     }
   }"

section \<open>What the heaps share\<close>

lemma mem_update_frames [simp]:
  "pkt_at a (w\<lparr>w_mem := m\<rparr>) = pkt_at a w" "sched_at a (ws\<lparr>w_mem := m\<rparr>) = sched_at a ws"
  "iface_at a (wi\<lparr>w_mem := m\<rparr>) = iface_at a wi" "link_at a (wl\<lparr>w_mem := m\<rparr>) = link_at a wl"
  "sim_at a (wm\<lparr>w_mem := m\<rparr>) = sim_at a wm"
  by (simp_all add: pkt_at_def sched_at_def iface_at_def link_at_def sim_at_def)

lemma put_frames [simp]:
  "link_at a (pkt_put b p w) = link_at a w" "link_at a (iface_put b i w) = link_at a w"
  "sim_at a (pkt_put b p ws) = sim_at a ws" "sim_at a (iface_put b i ws) = sim_at a ws"
  "w_mem (pkt_put b p wp) = w_mem wp" "w_mem (iface_put b i wi) = w_mem wi"
  by (simp_all add: link_at_def sim_at_def pkt_put_def iface_put_def)

lemma other_interface_frames [simp]:
  "link_get_other_interface k a (pkt_put b p w) = link_get_other_interface k a w"
  "link_get_other_interface k a (iface_put b i w) = link_get_other_interface k a w"
  "link_get_other_interface k a (w\<lparr>w_mem := m\<rparr>) = link_get_other_interface k a w"
  by (simp_all add: link_get_other_interface_def)

lemma simulator_now_frames [simp]:
  "simulator_now s (pkt_put b p w) = simulator_now s w" "simulator_now s (iface_put b i w) = simulator_now s w"
  "simulator_now s (w\<lparr>w_mem := m\<rparr>) = simulator_now s w"
  by (simp_all add: simulator_now_def)

section \<open>Reception\<close>

text \<open>Whether an interface takes a frame with these header bytes.\<close>

definition accepts :: "Interface \<Rightarrow> bytes \<Rightarrow> bool" where
  "accepts i f \<longleftrightarrow> take 6 f = take 6 (if_mac i) \<or> take 6 f = ETH_BROADCAST \<or>
     (ns_ntohs (get16 f 12) = ETHERTYPE_IPV4 \<and> mac_is_ipv4_multicast f)"

lemma validate_view_wf: "pkt_wf p \<Longrightarrow> packet_validate_view (Some p) h m = 0 \<longleftrightarrow> h \<le> pkt_data p \<and> m \<le> pkt_len p"
  by (auto simp: packet_validate_view_def pkt_wf_def PKT_HEADROOM_def Let_def)

lemma accepts_header: "length f = 14 \<Longrightarrow> accepts i (f @ g) = accepts i f"
  by (simp add: accepts_def get16_append mac_is_ipv4_multicast_def nth_append)

lemma ethernet_takes:
  assumes "iface_at iface w = Some i" "pkt_at frame w = Some f" "pkt_wf f" "if_state i = IFACE_OK" "14 \<le> pkt_len f" "accepts i (visible f)"
  shows "\<exists>f'. pkt_wf f' \<and> visible f' = drop 14 (visible f) \<and> pkt_layer f' = 3 \<and>
    ethernet_receive iface frame True w = Some (0, Some (ns_ntohs (get16 (visible f) 12)),
      pkt_put frame f' (iface_put iface (i\<lparr>if_rx_bytes := if_rx_bytes i + of_nat (pkt_len f - 14)\<rparr>) w))"
proof -
  let ?h = "take 14 (visible f)"
  have nn: "iface \<noteq> NULL" "frame \<noteq> NULL" using assms(1,2) by (auto dest: iface_at_nonnull pkt_at_nonnull)
  have rd: "pkt_read f 0 14 = Some ?h" using pkt_read_within [OF assms(3), of 0 14] assms(5) by simp
  have vw: "packet_validate_view (Some f) 0 14 = 0" using assms(3,5) by (simp add: validate_view_wf)
  have acc: "accepts i ?h" using accepts_header [of ?h i "drop 14 (visible f)"] assms(3,5,6) by simp
  have b: "take 6 ETH_BROADCAST = ETH_BROADCAST" by (simp add: ETH_BROADCAST_def)
  have ty: "get16 ?h 12 = get16 (visible f) 12" by (simp add: get16_take)
  obtain f' where st: "strip 14 f = (0, f')" "pkt_wf f'" "visible f' = drop 14 (visible f)" "pkt_len f' = pkt_len f - 14"
    using strip_ok [OF assms(3,5)] by blast
  then have v: "visible (f'\<lparr>pkt_layer := 3\<rparr>) = drop 14 (visible f)" "pkt_wf (f'\<lparr>pkt_layer := 3\<rparr>)" by (simp_all add: visible_def pkt_wf_def)
  have put: "pkt_put frame g (iface_put iface k (pkt_put frame h w)) = pkt_put frame g (iface_put iface k w)" for g h k
    by (simp add: pkt_put_def iface_put_def)
  show ?thesis using assms(1,2,4) nn rd vw st ty b acc v
    by (intro exI [of _ "f'\<lparr>pkt_layer := 3\<rparr>"])
      (auto simp: ethernet_receive_def ETH_HDR_LEN_def packet_strip_def iface_upd_def accepts_def mac_equal_def min_absorb1 put)
qed

lemma ethernet_leaves:
  assumes "iface_at iface w = Some i" "pkt_at frame w = Some f" "pkt_wf f" "if_state i = IFACE_OK" "14 \<le> pkt_len f" "\<not> accepts i (visible f)"
  shows "ethernet_receive iface frame True w = Some (1, None, w)"
proof -
  have "pkt_read f 0 14 = Some (take 14 (visible f))" using pkt_read_within [OF assms(3), of 0 14] assms(5) by simp
  moreover have "\<not> accepts i (take 14 (visible f))" using accepts_header [of "take 14 (visible f)" i "drop 14 (visible f)"] assms(3,5,6) by simp
  moreover have "packet_validate_view (Some f) 0 14 = 0" using assms(3,5) by (simp add: validate_view_wf)
  moreover have "take 6 ETH_BROADCAST = ETH_BROADCAST" by (simp add: ETH_BROADCAST_def)
  ultimately show ?thesis using assms(1,2,4) iface_at_nonnull [OF assms(1)] pkt_at_nonnull [OF assms(2)]
    by (auto simp: ethernet_receive_def ETH_HDR_LEN_def accepts_def mac_equal_def)
qed

lemma ethernet_receive_outcome:
  assumes "iface_at iface w = Some i" "pkt_at frame w = Some f" "pkt_wf f" "if_state i = IFACE_OK" "14 \<le> pkt_len f"
  shows "if accepts i (visible f) then
      (\<exists>w' f'. ethernet_receive iface frame True w = Some (0, Some (ns_ntohs (get16 (visible f) 12)), w') \<and>
         pkt_at frame w' = Some f' \<and> pkt_wf f' \<and> visible f' = drop 14 (visible f) \<and> pkt_layer f' = 3 \<and>
         iface_at iface w' = Some (i\<lparr>if_rx_bytes := if_rx_bytes i + of_nat (pkt_len f - 14)\<rparr>))
    else ethernet_receive iface frame True w = Some (1, None, w)"
proof (cases "accepts i (visible f)")
  case True
  note nn = iface_at_nonnull [OF assms(1)] pkt_at_nonnull [OF assms(2)]
  from ethernet_takes [OF assms True] show ?thesis using True nn by fastforce
qed (use ethernet_leaves [OF assms] in simp)

text \<open>An interface in service takes a frame exactly when it is addressed to its own address, to broadcast, or
  (for IPv4) to a multicast group; then the EtherType is returned in host byte order, the header comes off, and the
  payload length is added to the receive counter. Every other frame is left as it is, with result 1.\<close>

theorem ethernet_receive_correct:
  assumes "iface_at iface w = Some i" "pkt_at frame w = Some f" "pkt_wf f" "if_state i = IFACE_OK" "14 \<le> pkt_len f"
  shows "if accepts i (visible f) then
      (\<exists>w' f'. ethernet_receive iface frame True w = Some (0, Some (ns_ntohs (get16 (visible f) 12)), w') \<and>
         pkt_at frame w' = Some f' \<and> pkt_wf f' \<and> visible f' = drop 14 (visible f) \<and> pkt_layer f' = 3 \<and>
         iface_at iface w' = Some (i\<lparr>if_rx_bytes := if_rx_bytes i + of_nat (pkt_len f - 14)\<rparr>))
    else ethernet_receive iface frame True w = Some (1, None, w)"
  by (rule ethernet_receive_outcome [OF assms])

section \<open>Sending\<close>

text \<open>A frame leaves on a link: both interfaces are in service, the link and the far end are up, and the packet has
  room for the header.\<close>

definition can_send :: "'a sim_world_scheme \<Rightarrow> addr \<Rightarrow> addr \<Rightarrow> addr \<Rightarrow> addr \<Rightarrow> bool" where
  "can_send w sim iface dst pkt \<longleftrightarrow> (\<exists>m i l d p sch.
     sim_at sim w = Some m \<and> iface_at iface w = Some i \<and> if_state i = IFACE_OK \<and> length (if_mac i) = 6 \<and>
     link_at (if_link i) w = Some l \<and> lk_up l \<noteq> 0 \<and> link_get_other_interface (if_link i) iface w = Some dst \<and>
     dst \<noteq> iface \<and> iface_at dst w = Some d \<and> if_up d \<noteq> 0 \<and> if_state d = IFACE_OK \<and> length (if_mac d) = 6 \<and>
     pkt_at pkt w = Some p \<and> pkt_wf p \<and> 14 \<le> pkt_data p \<and> pkt \<le> mem_next (w_mem w) \<and>
     PKT_HEADROOM + pkt_len p + 14 \<le> PTRDIFF_MAX \<and>
     sched_at (sim_sched m) w = Some sch \<and> sched_wf sch \<and> 16 * eq_capacity (sch_eq sch) \<le> PTRDIFF_MAX \<and>
     mem_oom (w_mem w) = [])"

lemma ethernet_send_outcome:
  assumes "can_send w sim iface dst pkt" "length mac = 6"
    and at: "sim_at sim w = Some m" "iface_at iface w = Some i" "link_at (if_link i) w = Some l" "pkt_at pkt w = Some p"
      "sched_at (sim_sched m) w = Some sch"
  shows "\<exists>w' c q sch'. ethernet_send sim iface (Some mac) ty pkt w = Some (1, w') \<and>
    pkt_at c w' = Some q \<and> c \<noteq> pkt \<and> pkt_wf q \<and> visible q = EthernetHeader mac (if_mac i) ty @ visible p \<and>
    sched_at (sim_sched m) w' = Some sch' \<and> sch_now sch' = sch_now sch \<and>
    eq_list (sch_eq sch') = insert_by evt_key (rx_event (sch_now sch + ucast (lk_delay_ms l)) iface dst c
      Cb_ethernet_receive_event (VSim sim)) (eq_list (sch_eq sch)) \<and>
    iface_at dst w' = iface_at dst w"
proof -
  from assms(1) at obtain d where a: "if_state i = IFACE_OK" "length (if_mac i) = 6" "lk_up l \<noteq> 0"
    "link_get_other_interface (if_link i) iface w = Some dst" "dst \<noteq> iface" "iface_at dst w = Some d" "if_up d \<noteq> 0"
    "pkt_wf p" "14 \<le> pkt_data p" "pkt \<le> mem_next (w_mem w)" "PKT_HEADROOM + pkt_len p + 14 \<le> PTRDIFF_MAX"
    "sched_wf sch" "16 * eq_capacity (sch_eq sch) \<le> PTRDIFF_MAX" "mem_oom (w_mem w) = []"
    unfolding can_send_def by fastforce
  have nn: "sim \<noteq> NULL" "iface \<noteq> NULL" "pkt \<noteq> NULL" using at by (auto dest: sim_at_nonnull iface_at_nonnull pkt_at_nonnull)
  let ?h = "EthernetHeader mac (if_mac i) ty"
  have lh: "length ?h = 14" using assms(2) a(2) by (simp add: EthernetHeader_def)
  from prepend_ok [OF a(8), of ?h] lh a(9) obtain p' where p': "prepend ?h p = Some (0, p')" "pkt_wf p'"
    "visible p' = ?h @ visible p" "pkt_len p' = pkt_len p + 14" by auto
  let ?m = "(w_mem w)\<lparr>mem_next := Suc (mem_next (w_mem w))\<rparr>" and ?p = "p'\<lparr>pkt_layer := 2\<rparr>"
  let ?i = "i\<lparr>if_tx_bytes := if_tx_bytes i + of_nat (pkt_len p'), if_last_tx_time := sch_now sch\<rparr>"
  let ?w = "pkt_put pkt ?p (iface_put iface ?i (pkt_put pkt p' (w\<lparr>w_mem := ?m\<rparr>)))"
  have at': "sim_at sim ?w = Some m" "iface_at iface ?w = Some ?i" "link_at (if_link i) ?w = Some l"
    "pkt_at pkt ?w = Some ?p" "sched_at (sim_sched m) ?w = Some sch" "mem_oom (w_mem ?w) = []"
    "link_get_other_interface (if_link i) iface ?w = Some dst" "iface_at dst ?w = Some d" "pkt \<le> mem_next (w_mem ?w)"
    using at a nn by simp_all
  have wf: "pkt_wf ?p" "visible ?p = ?h @ visible p" "PKT_HEADROOM + pkt_len ?p \<le> PTRDIFF_MAX"
    using p' a(11) by (simp_all add: pkt_wf_def visible_def)
  have now: "simulator_now sim w = Some (sch_now sch)" using at nn by (simp add: simulator_now_def)
  have send: "ethernet_send sim iface (Some mac) ty pkt w =
      link_transmit (if_link i) pkt iface (sim_sched m) (sch_now sch) Cb_ethernet_receive_event (VSim sim) ?w"
    using at a nn p' now by (simp add: ethernet_send_def alloc_plenty packet_prepend_def iface_upd_def)
  from link_transmit_outcome [OF at'(3) a(3) at'(7,8) a(7) nn(2) at'(4) wf(1) at'(9) wf(3) at'(5) a(12,13) at'(6),
      of "sch_now sch" Cb_ethernet_receive_event "VSim sim"] wf(2)
  obtain w' c q sch' where t: "link_transmit (if_link i) pkt iface (sim_sched m) (sch_now sch)
        Cb_ethernet_receive_event (VSim sim) ?w = Some (1, w')"
    "pkt_at c w' = Some q" "c \<noteq> pkt" "pkt_wf q" "visible q = ?h @ visible p" "sched_at (sim_sched m) w' = Some sch'"
    "sch_now sch' = sch_now sch" "sched_frame ?w w'"
    "eq_list (sch_eq sch') = insert_by evt_key (rx_event (sch_now sch + ucast (lk_delay_ms l)) iface dst c
        Cb_ethernet_receive_event (VSim sim)) (eq_list (sch_eq sch))" by auto
  have "iface_at dst w' = iface_at dst w" using sched_frame_ifaces [OF t(8), of dst] at'(8) a(6) by simp
  with send t show ?thesis by auto
qed

lemma header_fields:
  assumes "length mac = 6" "length src = 6"
  shows "take 6 (EthernetHeader mac src ty @ g) = mac" "ns_ntohs (get16 (EthernetHeader mac src ty @ g) 12) = ty"
    "drop 14 (EthernetHeader mac src ty @ g) = g"
proof -
  have "get16 ((mac @ src) @ put16 (ns_htons ty) @ g) (length (mac @ src) + 0) = get16 (put16 (ns_htons ty) @ g) 0"
    by (rule get16_shift)
  then show "ns_ntohs (get16 (EthernetHeader mac src ty @ g) 12) = ty"
    using assms by (simp add: EthernetHeader_def get16_append get16_put16)
qed (use assms in \<open>simp_all add: EthernetHeader_def\<close>)

text \<open>C6. The way of a frame over one link: a packet sent to the address of the far end, or to broadcast, is
  accepted there. \<open>ethernet_send\<close> returns 1 and schedules its reception after the delay of the link;
  \<open>ethernet_receive\<close> of the frame that this event carries returns the EtherType that was sent and leaves exactly the
  bytes of the sent packet.\<close>

theorem ethernet_roundtrip:
  assumes "can_send w sim iface dst pkt" "length mac = 6"
    and at: "sim_at sim w = Some m" "iface_at iface w = Some i" "link_at (if_link i) w = Some l" "pkt_at pkt w = Some p"
      "sched_at (sim_sched m) w = Some sch" "iface_at dst w = Some d"
    and "mac \<in> {if_mac d, ETH_BROADCAST}"
  shows "\<exists>w1 c sch' w2 q. ethernet_send sim iface (Some mac) ty pkt w = Some (1, w1) \<and>
    sched_at (sim_sched m) w1 = Some sch' \<and>
    eq_list (sch_eq sch') = insert_by evt_key (rx_event (sch_now sch + ucast (lk_delay_ms l)) iface dst c
      Cb_ethernet_receive_event (VSim sim)) (eq_list (sch_eq sch)) \<and>
    ethernet_receive dst c True w1 = Some (0, Some ty, w2) \<and> pkt_at c w2 = Some q \<and> visible q = visible p"
proof -
  obtain w1 c q sch' where s: "ethernet_send sim iface (Some mac) ty pkt w = Some (1, w1)"
    "pkt_at c w1 = Some q" "pkt_wf q" "visible q = EthernetHeader mac (if_mac i) ty @ visible p"
    "sched_at (sim_sched m) w1 = Some sch'"
    "eq_list (sch_eq sch') = insert_by evt_key (rx_event (sch_now sch + ucast (lk_delay_ms l)) iface dst c
      Cb_ethernet_receive_event (VSim sim)) (eq_list (sch_eq sch))" "iface_at dst w1 = iface_at dst w"
    using ethernet_send_outcome [OF assms(1,2) at(1-5), of ty] by blast
  from assms(1) at have d: "if_state d = IFACE_OK" "length (if_mac d) = 6" "length (if_mac i) = 6"
    by (auto simp: can_send_def)
  note hf = header_fields [OF assms(2) d(3)]
  have len: "pkt_len q = length (visible q)" using s(3) by simp
  have "14 \<le> pkt_len q" using assms(2) d(3) unfolding len s(4) by (simp add: EthernetHeader_def)
  moreover have "accepts d (visible q)" using assms(9) d(2) hf(1) by (auto simp: accepts_def s(4))
  moreover have "ns_ntohs (get16 (visible q) 12) = ty" "drop 14 (visible q) = visible p" unfolding s(4) by (rule hf)+
  ultimately show ?thesis
    using ethernet_receive_outcome [of dst w1 d c q] s d at(6) by fastforce
qed

section \<open>Sending is safe\<close>

text \<open>What sending keeps: everything but packets, schedulers and the counters of interfaces.\<close>

definition iface_core :: "Interface \<Rightarrow> Interface" where
  "iface_core i = i\<lparr>if_tx_bytes := 0, if_rx_bytes := 0, if_rx_dropped := 0, if_rx_errors := 0, if_tx_errors := 0,
     if_last_rx_time := 0, if_last_tx_time := 0, if_last_error_time := 0\<rparr>"

definition net_frame :: "'a iface_world_scheme \<Rightarrow> 'a iface_world_scheme \<Rightarrow> bool" where
  "net_frame w w' \<longleftrightarrow> iface_world.more w' = iface_world.more w \<and>
     (\<forall>a. map_option iface_core (iface_at a w') = map_option iface_core (iface_at a w))"

lemma net_frame_refl [simp]: "net_frame w w"
  by (simp add: net_frame_def)

lemma net_frame_trans: "net_frame u v \<Longrightarrow> net_frame v w \<Longrightarrow> net_frame u w"
  by (simp add: net_frame_def)

lemma net_frame_sched: "sched_frame w w' \<Longrightarrow> net_frame w w'"
  using sched_frame_ifaces [of w w'] by (cases w; cases w') (simp add: net_frame_def sched_frame_def)

lemma net_frame_pkt: "pkt_frame w w' \<Longrightarrow> net_frame w w'"
  by (intro net_frame_sched sched_frame_pkt)

lemma net_frame_put [simp]: "net_frame w (pkt_put a p w)"
  by (rule net_frame_pkt) simp

lemma net_frame_iface:
  "iface_at a w = Some i \<Longrightarrow> iface_core i' = iface_core i \<Longrightarrow> net_frame w (iface_put a i' w)"
  using iface_at_nonnull [of a w i] by (auto simp: net_frame_def) (simp add: iface_put_def)

lemma net_frame_sim: "net_frame w w' \<Longrightarrow> sim_at a w' = sim_at a w"
  by (cases w; cases w') (simp add: net_frame_def sim_at_def)

lemma net_frame_link: "net_frame w w' \<Longrightarrow> link_at a w' = link_at a w"
  by (cases w; cases w') (simp add: net_frame_def link_at_def)

lemma net_frame_iface_at:
  assumes "net_frame w w'" "iface_at a w = Some i"
  obtains i' where "iface_at a w' = Some i'" "iface_core i' = iface_core i"
  using assms by (auto simp: net_frame_def dest!: spec [of _ a])

lemma net_frame_iface_back:
  assumes "net_frame w w'" "iface_at a w' = Some i'"
  obtains i where "iface_at a w = Some i" "iface_core i' = iface_core i"
  using assms by (cases "iface_at a w") (auto simp: net_frame_def dest!: spec [of _ a])

lemma iface_coreD:
  assumes "iface_core i = iface_core j"
  shows "if_mac i = if_mac j" "if_link i = if_link j" "if_ip_addr i = if_ip_addr j" "if_arp_cache i = if_arp_cache j"
    "if_up i = if_up j" "if_prefix_len i = if_prefix_len j" "if_state i = if_state j"
    "if_rx_handler i = if_rx_handler j" "if_handler_ctx i = if_handler_ctx j" "if_device i = if_device j"
  using assms by (simp_all add: iface_core_def) (cases i; cases j; simp)+

text \<open>A well-formed network: the packet heap, the scheduler of the simulator, and interfaces attached to links whose
  two ends exist.\<close>

definition attached :: "'a link_world_scheme \<Rightarrow> Interface \<Rightarrow> bool" where
  "attached w i \<longleftrightarrow> length (if_mac i) = 6 \<and> (if_link i = NULL \<or>
     (\<exists>l. link_at (if_link i) w = Some l \<and> iface_at (lk_end_a l) w \<noteq> None \<and> iface_at (lk_end_b l) w \<noteq> None))"

definition sim_ready :: "addr \<Rightarrow> 'a sim_world_scheme \<Rightarrow> bool" where
  "sim_ready sim w \<longleftrightarrow> (\<exists>m sch. sim_at sim w = Some m \<and> sched_at (sim_sched m) w = Some sch \<and> sched_wf sch)"

definition net_wf :: "addr \<Rightarrow> 'a sim_world_scheme \<Rightarrow> bool" where
  "net_wf sim w \<longleftrightarrow> heap_wf w \<and> sim_ready sim w \<and> (\<forall>a i. iface_at a w = Some i \<longrightarrow> attached w i)"

lemma net_wf_frame:
  assumes "net_wf sim w" "net_frame w w'" "heap_wf w'" "sim_ready sim w'"
  shows "net_wf sim w'"
proof -
  have "attached w' i'" if "iface_at a w' = Some i'" for a i'
  proof -
    from net_frame_iface_back [OF assms(2) that] obtain i where
      i: "iface_at a w = Some i" "iface_core i' = iface_core i" .
    then have "attached w i" using assms(1) unfolding net_wf_def by blast
    moreover have "iface_at b w \<noteq> None \<Longrightarrow> iface_at b w' \<noteq> None" for b
      using assms(2) by (auto elim!: net_frame_iface_at)
    ultimately show ?thesis
      using iface_coreD [OF i(2)] net_frame_link [OF assms(2), of "if_link i"] unfolding attached_def by metis
  qed
  then show ?thesis using assms(3,4) by (simp add: net_wf_def)
qed

lemma schedule_safe:
  assumes "sim_ready sim w" "sim_at sim w = Some m"
  shows "\<exists>r w'. scheduler_schedule (sim_sched m) (Some e) w = Some (r, w') \<and> r \<in> {0, - 1} \<and> sim_ready sim w' \<and>
    sched_frame w w' \<and> (\<forall>a. pkt_at a w' = pkt_at a w) \<and> mem_next (w_mem w) \<le> mem_next (w_mem w')"
proof -
  let ?s = "sim_sched m"
  obtain sch where s: "sched_at ?s w = Some sch" "sched_wf sch" using assms by (auto simp: sim_ready_def)
  have q: "queue_wf (sch_eq sch)" using s(2) by (simp add: sched_wf_def)
  obtain r eq' w1 where p: "event_queue_push (sch_eq sch) e w = Some (r, eq', w1)" "r \<in> {0, - 1}" "queue_wf eq'"
      "w1 = w\<lparr>w_mem := w_mem w1\<rparr>"
    by (rule event_queue_push_cases [OF q, of e w]) (use q in auto)
  have le: "mem_next (w_mem w) \<le> mem_next (w_mem w1)" by (rule event_queue_push_next [OF p(1)])
  let ?w = "sched_put ?s (sch\<lparr>sch_eq := eq'\<rparr>) w1"
  have "sched_at ?s ?w = Some (sch\<lparr>sch_eq := eq'\<rparr>)" "sched_wf (sch\<lparr>sch_eq := eq'\<rparr>)"
    using s p(3) by (auto simp: sched_at_def sched_put_def sched_wf_def split: if_splits)
  moreover have "sched_frame w ?w" using sched_frame_mem [OF p(4)] sched_frame_put sched_frame_trans by blast
  moreover have "sim_at sim ?w = Some m" using net_frame_sim [OF net_frame_sched [OF \<open>sched_frame w ?w\<close>]] assms(2) by simp
  moreover have "pkt_at a ?w = pkt_at a w" for a using p(4) by (metis pkt_at_mem pkt_at_sched_put)
  moreover have "mem_next (w_mem w) \<le> mem_next (w_mem ?w)" using le by (simp add: sched_put_def)
  ultimately show ?thesis using s p(1,2) sched_at_nonnull [OF s(1)]
    by (auto simp: scheduler_schedule_def sim_ready_def)
qed

lemma net_wf_pkt:
  assumes "net_wf sim w" "pkt_frame w w'" "heap_wf w'"
  shows "net_wf sim w'"
proof (rule net_wf_frame [OF assms(1) net_frame_pkt [OF assms(2)] assms(3)])
  show "sim_ready sim w'" using assms(1) pkt_frame_scheds [OF assms(2)] net_frame_sim [OF net_frame_pkt [OF assms(2)]]
    by (simp add: net_wf_def sim_ready_def)
qed

lemma net_wf_iface:
  assumes "net_wf sim w" "iface_at a w = Some i" "iface_core i' = iface_core i"
  shows "net_wf sim (iface_put a i' w)"
proof (rule net_wf_frame [OF assms(1) net_frame_iface [OF assms(2,3)]])
  show "heap_wf (iface_put a i' w)" "sim_ready sim (iface_put a i' w)"
    using assms(1) by (auto simp: net_wf_def heap_wf_def sim_ready_def)
qed

lemma other_interface_live:
  assumes "net_wf sim w" "iface_at src w = Some i" "if_link i \<noteq> NULL"
  obtains l dst where "link_at (if_link i) w = Some l" "link_get_other_interface (if_link i) src w = Some dst"
    "dst = NULL \<or> iface_at dst w \<noteq> None"
proof -
  have "attached w i" using assms(1,2) unfolding net_wf_def by blast
  with assms(3) obtain l where "link_at (if_link i) w = Some l" "iface_at (lk_end_a l) w \<noteq> None"
      "iface_at (lk_end_b l) w \<noteq> None" by (auto simp: attached_def)
  with that iface_at_nonnull [OF assms(2)] assms(3) show thesis by (auto simp: link_get_other_interface_def)
qed

text \<open>The outcomes that a caller of a sending operation can rely on.\<close>

definition sent_safely :: "addr \<Rightarrow> addr \<Rightarrow> 'a sim_world_scheme \<Rightarrow> (int \<times> 'a sim_world_scheme) option \<Rightarrow> bool" where
  "sent_safely sim pkt w res \<longleftrightarrow> (\<exists>r w'. res = Some (r, w') \<and> r \<in> {1, - 1} \<and> net_wf sim w' \<and> net_frame w w' \<and>
     pkt_at pkt w' \<noteq> None \<and> (\<forall>a. a \<noteq> pkt \<longrightarrow> pkt_at a w \<noteq> None \<longrightarrow> pkt_at a w' = pkt_at a w))"

lemma sent_safely_refused: "net_wf sim w \<Longrightarrow> pkt_at pkt w \<noteq> None \<Longrightarrow> sent_safely sim pkt w (Some (- 1, w))"
  by (simp add: sent_safely_def)

lemma sent_safely_step:
  assumes "net_frame w w1" "\<And>a. a \<noteq> pkt \<Longrightarrow> pkt_at a w \<noteq> None \<Longrightarrow> pkt_at a w1 = pkt_at a w" "sent_safely sim pkt w1 res"
  shows "sent_safely sim pkt w res"
proof -
  from assms(3) obtain r w' where "res = Some (r, w')" "r \<in> {1, - 1}" "net_wf sim w'" "net_frame w1 w'" "pkt_at pkt w' \<noteq> None"
    "\<forall>a. a \<noteq> pkt \<longrightarrow> pkt_at a w1 \<noteq> None \<longrightarrow> pkt_at a w' = pkt_at a w1" unfolding sent_safely_def by blast
  moreover have "net_frame w w'" using assms(1) calculation(4) by (rule net_frame_trans)
  moreover have "\<forall>a. a \<noteq> pkt \<longrightarrow> pkt_at a w \<noteq> None \<longrightarrow> pkt_at a w' = pkt_at a w" using calculation(6) assms(2) by metis
  ultimately show ?thesis unfolding sent_safely_def by blast
qed

lemma free_safe:
  assumes "net_wf sim w" "pkt_at c w \<noteq> None"
  shows "\<exists>w'. packet_free c w = Some w' \<and> net_wf sim w' \<and> net_frame w w' \<and> (\<forall>a. a \<noteq> c \<longrightarrow> pkt_at a w' = pkt_at a w)"
proof -
  obtain w' where w': "packet_free c w = Some w'" using packet_free_live [OF assms(2)] by blast
  have "net_wf sim w'" using net_wf_pkt [OF assms(1) packet_free_frame [OF w']] packet_free_heap [OF w'] assms(1)
    by (simp add: net_wf_def)
  then show ?thesis using w' net_frame_pkt [OF packet_free_frame [OF w']] packet_free_other [OF w'] by blast
qed

text \<open>The tail of \<open>link_transmit\<close>: the clone is scheduled, or freed when that fails.\<close>

lemma schedule_clone_safe:
  assumes "net_wf sim w" "sim_at sim w = Some m" "pkt_at c w \<noteq> None"
  shows "\<exists>r w'. (case event_create_callback ty t src dst c VNull h ctx w of
        (None, w) \<Rightarrow> do { w \<leftarrow> packet_free c w; Some (- 1, w) }
      | (Some e, w) \<Rightarrow> do {
          (scheduled, w) \<leftarrow> scheduler_schedule (sim_sched m) (Some e) w;
          w \<leftarrow> (if scheduled \<noteq> 0 then packet_free c w else Some w);
          Some (if scheduled = 0 then 1 else - 1, w)
        }) = Some (r, w') \<and> r \<in> {1, - 1} \<and> net_wf sim w' \<and> net_frame w w' \<and>
    (\<forall>a. a \<noteq> c \<longrightarrow> pkt_at a w' = pkt_at a w)"
proof -
  obtain eo w2 where ev: "event_create_callback ty t src dst c VNull h ctx w = (eo, w2)" by fastforce
  obtain b where al: "alloc w = (b, w2)" using ev by (auto simp: event_create_callback_def split: prod.splits if_splits)
  note ah = alloc_heap [OF al]
  have net2: "net_wf sim w2" "net_frame w w2"
    using net_wf_pkt [OF assms(1) alloc_frame [OF al]] ah(3) assms(1) net_frame_pkt [OF alloc_frame [OF al]]
    by (simp_all add: net_wf_def)
  show ?thesis
  proof (cases eo)
    case None
    from free_safe [OF net2(1), of c] assms(3) ah(2) obtain w4 where "packet_free c w2 = Some w4" "net_wf sim w4" "net_frame w2 w4"
      "\<forall>a. a \<noteq> c \<longrightarrow> pkt_at a w4 = pkt_at a w2" by auto
    then show ?thesis using ev None net2(2) ah(2) by (auto intro: net_frame_trans)
  next
    case (Some e)
    have m2: "sim_at sim w2 = Some m" using net_frame_sim [OF net2(2)] assms(2) by simp
    from schedule_safe [OF _ m2, of e] net2 obtain r w3 where s: "scheduler_schedule (sim_sched m) (Some e) w2 = Some (r, w3)"
      "r \<in> {0, - 1}" "sim_ready sim w3" "sched_frame w2 w3" "\<And>a. pkt_at a w3 = pkt_at a w2"
      "mem_next (w_mem w2) \<le> mem_next (w_mem w3)" by (auto simp: net_wf_def)
    have "heap_wf w3" using s(5,6) net2 unfolding net_wf_def heap_wf_def by (metis le_trans)
    then have net3: "net_wf sim w3" by (rule net_wf_frame [OF net2(1) net_frame_sched [OF s(4)] _ s(3)])
    have fr3: "net_frame w w3" using net2(2) net_frame_sched [OF s(4)] by (rule net_frame_trans)
    from free_safe [OF net3, of c] assms(3) ah(2) s(5) obtain w4 where w4: "packet_free c w3 = Some w4" "net_wf sim w4" "net_frame w3 w4"
      "\<forall>a. a \<noteq> c \<longrightarrow> pkt_at a w4 = pkt_at a w3" by auto
    have "net_frame w w4" using fr3 w4(3) by (rule net_frame_trans)
    with w4 s(1,2,5) show ?thesis using ev Some fr3 net3 ah(2) by (cases "r = 0") auto
  qed
qed

lemma link_transmit_safe:
  assumes "net_wf sim w" "sim_at sim w = Some m" "iface_at src w = Some i" "pkt_at pkt w = Some p"
  shows "sent_safely sim pkt w (link_transmit (if_link i) pkt src (sim_sched m) now h ctx w)"
proof (cases "if_link i = NULL")
  case True
  then show ?thesis using sent_safely_refused [OF assms(1)] assms(4) by (simp add: link_transmit_def)
next
  case False
  then obtain l dst where l: "link_at (if_link i) w = Some l" "link_get_other_interface (if_link i) src w = Some dst"
    "dst = NULL \<or> iface_at dst w \<noteq> None" using other_interface_live [OF assms(1,3)] by blast
  then have "\<exists>up. interface_is_up dst w = Some up" by (auto simp: interface_is_up_def)
  then obtain up where up: "interface_is_up dst w = Some up" ..
  have nn: "src \<noteq> NULL" "pkt \<noteq> NULL" "sim_sched m \<noteq> NULL" using assms
    by (auto simp: net_wf_def sim_ready_def dest: iface_at_nonnull pkt_at_nonnull sched_at_nonnull)
  have heap: "heap_wf w" using assms(1) by (simp add: net_wf_def)
  obtain c w1 where c: "packet_clone pkt w = Some (c, w1)" "heap_wf w1" "\<And>b. b \<noteq> c \<Longrightarrow> pkt_at b w1 = pkt_at b w"
      "c \<noteq> NULL \<Longrightarrow> pkt_at c w = None \<and> pkt_at c w1 \<noteq> None" using packet_clone_heap [OF assms(4) heap] by blast
  have fr: "pkt_frame w w1" by (rule packet_clone_frame [OF c(1)])
  have net1: "net_wf sim w1" by (rule net_wf_pkt [OF assms(1) fr c(2)])
  have m1: "sim_at sim w1 = Some m" using net_frame_sim [OF net_frame_pkt [OF fr]] assms(2) by simp
  have keep1: "pkt_at a w \<noteq> None \<Longrightarrow> pkt_at a w1 = pkt_at a w \<and> a \<noteq> c" for a
    using c(3,4) by (cases "a = c"; cases "c = NULL") (auto simp: pkt_at_def)
  show ?thesis
  proof (cases "lk_up l = 0 \<or> dst = NULL \<or> up = 0 \<or> c = NULL")
    case True
    then show ?thesis using l up assms(1,4) nn False c(1) net1 net_frame_pkt [OF fr] keep1
      by (auto simp: link_transmit_def sent_safely_def)
  next
    case go: False
    with c(4) have "pkt_at c w1 \<noteq> None" by blast
    from schedule_clone_safe [OF net1 m1 this, of EVT_PACKET_RECEIVE "now + ucast (lk_delay_ms l)" "VIface src" "VIface dst" h ctx]
    obtain r w' where "link_transmit (if_link i) pkt src (sim_sched m) now h ctx w = Some (r, w')" "r \<in> {1, - 1}"
      "net_wf sim w'" "net_frame w1 w'" "\<forall>a. a \<noteq> c \<longrightarrow> pkt_at a w' = pkt_at a w1"
      using go l up nn False c(1) by (auto simp: link_transmit_def)
    moreover have "net_frame w w'" using net_frame_trans [OF net_frame_pkt [OF fr] calculation(4)] .
    ultimately show ?thesis using keep1 assms(4) by (auto simp: sent_safely_def)
  qed
qed

lemma tx_error_safe:
  assumes "net_wf sim w" "iface_at iface w \<noteq> None" "pkt_at pkt w \<noteq> None"
  shows "sent_safely sim pkt w (tx_error sim iface w)"
proof -
  obtain i where i: "iface_at iface w = Some i" using assms(2) by auto
  obtain now where now: "simulator_now sim w = Some now"
    using assms(1) sim_at_nonnull by (fastforce simp: net_wf_def sim_ready_def simulator_now_def)
  let ?i = "i\<lparr>if_tx_errors := if_tx_errors i + 1, if_last_error_time := now\<rparr>"
  have "iface_core ?i = iface_core i" by (simp add: iface_core_def)
  note c = net_wf_iface [OF assms(1) i this] net_frame_iface [OF i this]
  then show ?thesis using now i assms(3) by (simp add: tx_error_def iface_upd_def sent_safely_def)
qed

lemma ethernet_send_total:
  assumes "net_wf sim w" "iface_at iface w \<noteq> None" "pkt_at pkt w \<noteq> None"
  shows "sent_safely sim pkt w (ethernet_send sim iface (Some mac) ty pkt w)"
proof -
  obtain m i p where at: "sim_at sim w = Some m" "iface_at iface w = Some i" "pkt_at pkt w = Some p"
    using assms by (auto simp: net_wf_def sim_ready_def)
  have nn: "sim \<noteq> NULL" "iface \<noteq> NULL" "pkt \<noteq> NULL" using at by (auto dest: sim_at_nonnull iface_at_nonnull pkt_at_nonnull)
  obtain b w1 where al: "alloc w = (b, w1)" by fastforce
  have fr1: "net_frame w w1" by (rule net_frame_pkt [OF alloc_frame [OF al]])
  note ah = alloc_heap [OF al]
  have net1: "net_wf sim w1" using net_wf_pkt [OF assms(1) alloc_frame [OF al]] ah(3) assms(1) by (simp add: net_wf_def)
  have at1: "iface_at iface w1 = Some i" "pkt_at pkt w1 = Some p" "sim_at sim w1 = Some m"
    using at pkt_frame_ifaces [OF alloc_frame [OF al]] ah(2) net_frame_sim [OF fr1] by auto
  obtain r p' where pp: "packet_prepend pkt (EthernetHeader mac (if_mac i) ty) w1 = Some (r, pkt_put pkt p' w1)" "pkt_wf p'" "r \<in> {0, - 1}"
    using packet_prepend_heap [OF at1(2)] net1 by (metis net_wf_def)
  let ?w2 = "pkt_put pkt p' w1"
  have net2: "net_wf sim (pkt_put pkt q w1)" if "pkt_wf q" for q
    by (intro net_wf_pkt [OF net1 pkt_frame_put] heap_wf_put that) (use net1 at1(2) in \<open>simp_all add: net_wf_def\<close>)
  obtain now where now: "simulator_now sim w1 = Some now"
    using net1 sim_at_nonnull by (fastforce simp: net_wf_def sim_ready_def simulator_now_def)
  let ?i = "i\<lparr>if_tx_bytes := if_tx_bytes i + of_nat (pkt_len p'), if_last_tx_time := now\<rparr>"
  let ?w3 = "iface_put iface ?i (pkt_put pkt (p'\<lparr>pkt_layer := 2\<rparr>) w1)"
  have put2: "pkt_put pkt (p'\<lparr>pkt_layer := 2\<rparr>) (iface_put iface ?i ?w2) = ?w3" by (simp add: pkt_put_def iface_put_def)
  have core: "iface_core ?i = iface_core i" by (simp add: iface_core_def)
  have wf3: "pkt_wf (p'\<lparr>pkt_layer := 2\<rparr>)" using pp(2) by (simp add: pkt_wf_def)
  have i3: "iface_at iface (pkt_put pkt (p'\<lparr>pkt_layer := 2\<rparr>) w1) = Some i" using at1(1) by simp
  have net3: "net_wf sim ?w3" by (rule net_wf_iface [OF net2 [OF wf3] i3 core])
  have fr3: "net_frame w ?w3"
    by (rule net_frame_trans [OF fr1 net_frame_trans [OF net_frame_put net_frame_iface [OF i3 core]]])
  have "sent_safely sim pkt ?w3 (link_transmit (if_link ?i) pkt iface (sim_sched m) now Cb_ethernet_receive_event (VSim sim) ?w3)"
    by (rule link_transmit_safe [OF net3]) (use at1 nn in simp_all)
  then have s3: "sent_safely sim pkt w (link_transmit (if_link i) pkt iface (sim_sched m) now Cb_ethernet_receive_event (VSim sim) ?w3)"
    by (intro sent_safely_step [OF fr3]) (simp_all add: nn ah(2))
  have s2: "sent_safely sim pkt w (tx_error sim iface ?w2)"
    by (rule sent_safely_step [OF net_frame_trans [OF fr1 net_frame_put] _ tx_error_safe [OF net2 [OF pp(2)]]])
      (use at1 nn ah(2) in simp_all)
  have s1: "sent_safely sim pkt w (tx_error sim iface w1)"
    by (rule sent_safely_step [OF fr1 _ tx_error_safe [OF net1]]) (use at1 ah(2) in simp_all)
  show ?thesis using at at1 nn al pp(1,3) now s1 s2 s3 put2 sent_safely_refused [OF assms(1,3)]
    by (auto simp: ethernet_send_def iface_upd_def)
qed


section \<open>Instances\<close>

text \<open>Two interfaces on a link of 5 time units, a packet and a broadcast frame.\<close>

definition demo_frame :: Packet where
  "demo_frame = demo_packet\<lparr>pkt_head := replicate 50 0 @ replicate 6 0xFF @ replicate 6 0 @ [8, 0, 1, 2],
     pkt_data := 50, pkt_len := 16\<rparr>"

definition demo_eth0 :: Interface where
  "demo_eth0 = (demo_iface ''eth0'' NULL)\<lparr>if_link := 6\<rparr>"

definition demo_eth1 :: Interface where
  "demo_eth1 = (demo_iface ''eth1'' NULL)\<lparr>if_mac := [2, 0, 0, 0, 0, 2], if_link := 6\<rparr>"

definition demo_cable :: Link where
  "demo_cable = \<lparr>lk_end_a = 2, lk_end_b = 3, lk_bandwidth_mbps = 100, lk_delay_ms = 5, lk_loss_rate = 0, lk_up = 1\<rparr>"

definition demo_eth_world :: sim_world where
  "demo_eth_world = \<lparr>w_mem = \<lparr>mem_next = 9, mem_oom = [], mem_junk = (\<lambda>_. 0)\<rparr>, w_next_id = 8,
     w_pkts = [4 \<mapsto> demo_packet, 9 \<mapsto> demo_frame], w_scheds = [5 \<mapsto> demo_sched],
     w_ifaces = [2 \<mapsto> demo_eth0, 3 \<mapsto> demo_eth1], w_devs = Map.empty, w_links = [6 \<mapsto> demo_cable],
     w_topos = Map.empty, w_sims = [7 \<mapsto> \<lparr>sim_topo = 8, sim_sched = 5, sim_end_time = 0\<rparr>]\<rparr>"

lemma demo_eth_parts:
  "sim_at 7 demo_eth_world = Some \<lparr>sim_topo = 8, sim_sched = 5, sim_end_time = 0\<rparr>"
  "iface_at 2 demo_eth_world = Some demo_eth0" "iface_at 3 demo_eth_world = Some demo_eth1"
  "link_at 6 demo_eth_world = Some demo_cable"
  "pkt_at 4 demo_eth_world = Some demo_packet" "sched_at 5 demo_eth_world = Some demo_sched"
  "mem_oom (w_mem demo_eth_world) = []" "mem_next (w_mem demo_eth_world) = 9"
  "pkt_at 9 demo_eth_world = Some demo_frame"
  by (simp_all add: demo_eth_world_def iface_at_def pkt_at_def link_at_def sim_at_def sched_at_def)

lemma demo_packet_wf: "pkt_wf demo_packet" "pkt_data demo_packet = 64" "pkt_len demo_packet = 2"
    "pkt_wf demo_frame" "pkt_len demo_frame = 16"
  by (simp_all add: demo_packet_facts demo_frame_def)

lemma demo_eth_ifaces:
  "if_link demo_eth0 = 6" "if_link demo_eth1 = 6" "if_state demo_eth0 = IFACE_OK" "if_state demo_eth1 = IFACE_OK"
  "length (if_mac demo_eth0) = 6" "if_mac demo_eth1 = [2, 0, 0, 0, 0, 2]" "if_up demo_eth1 = 1"
  "lk_up demo_cable = 1" "lk_end_a demo_cable = 2" "lk_end_b demo_cable = 3"
  by (simp_all add: demo_eth0_def demo_eth1_def demo_iface_def demo_cable_def)

lemma demo_net_wf: "net_wf 7 demo_eth_world"
proof -
  have "pkt_wf p \<and> a \<le> 9" if "pkt_at a demo_eth_world = Some p" for a p
    using that demo_packet_wf by (auto simp: pkt_at_def demo_eth_world_def split: if_splits)
  then have "heap_wf demo_eth_world" by (simp add: heap_wf_def demo_eth_parts)
  moreover have "sim_ready 7 demo_eth_world" using demo_sched_wf by (simp add: sim_ready_def demo_eth_parts)
  moreover have "attached demo_eth_world demo_eth0" "attached demo_eth_world demo_eth1"
    by (simp_all add: attached_def demo_eth_parts demo_eth_ifaces)
  moreover have "i = demo_eth0 \<or> i = demo_eth1" if "iface_at a demo_eth_world = Some i" for a i
    using that by (auto simp: iface_at_def demo_eth_world_def split: if_splits)
  ultimately show ?thesis unfolding net_wf_def by metis
qed

lemma demo_can_send: "can_send demo_eth_world 7 2 3 4"
proof -
  have "16 * eq_capacity (sch_eq demo_sched) \<le> PTRDIFF_MAX" by (simp add: demo_sched_def PTRDIFF_MAX_def)
  moreover have "link_get_other_interface 6 2 demo_eth_world = Some 3"
    by (simp add: link_get_other_interface_def demo_eth_parts demo_eth_ifaces)
  ultimately show ?thesis unfolding can_send_def using demo_sched_wf demo_packet_wf
    by (simp add: demo_eth_parts demo_eth_ifaces PKT_HEADROOM_def PTRDIFF_MAX_def)
qed


lemma ethernet_roundtrip_witness:
  "\<exists>w1 c w2 q. ethernet_send 7 2 (Some [2, 0, 0, 0, 0, 2]) 0x0800 4 demo_eth_world = Some (1, w1) \<and>
     ethernet_receive 3 c True w1 = Some (0, Some 0x0800, w2) \<and> pkt_at c w2 = Some q \<and> visible q = visible demo_packet"
  using ethernet_roundtrip [OF demo_can_send _ demo_eth_parts(1,2) _ demo_eth_parts(5) _ demo_eth_parts(3),
      of "[2, 0, 0, 0, 0, 2]" demo_cable demo_sched "0x0800"]
  by (auto simp: demo_eth_parts demo_eth_ifaces)

lemma ethernet_receive_correct_witness:
  "\<exists>w f. ethernet_receive 2 9 True demo_eth_world = Some (0, Some 0x0800, w) \<and> pkt_at 9 w = Some f \<and> visible f = [1, 2]"
proof -
  have v: "visible demo_frame = replicate 6 0xFF @ replicate 6 0 @ [8, 0, 1, 2]"
    by (simp add: visible_def demo_frame_def)
  have "accepts demo_eth0 (visible demo_frame)" unfolding v
    by (simp add: accepts_def ETH_BROADCAST_def numeral_eq_Suc)
  moreover have "ns_ntohs (get16 (visible demo_frame) 12) = 0x0800" unfolding v
    by (simp add: get16_def ns_ntohs_def ns_bswap16_def nth_append)
  ultimately show ?thesis
    using ethernet_receive_correct [OF demo_eth_parts(2,9) demo_packet_wf(4) demo_eth_ifaces(3)] demo_packet_wf(5)
    by (auto simp: v)
qed

end
