(* ===== verification/Slot_Table.thy ===== *)
theory Slot_Table
  imports Prelude
begin

text \<open>
  The tables of the simulator (MAC table, ARP cache, pending ARP packets, UDP sockets, TCP control
  blocks, RIB, static routes, RIP database, OSPF neighbours and LSDB) are fixed arrays of slots with a
  validity flag, scanned linearly. The locale \<open>slot_array\<close> is what all of them share: which slots
  are live, what their key is and how a slot is killed. Its lemmas give uniqueness of keys, the map that
  the array represents, and the number of live slots, for the three ways the code writes a slot:
  overwriting the slot of the same key, filling a free slot, and killing slots.
  The locale \<open>bounded_map\<close> is the contract that a client of such a table relies on.
\<close>

locale slot_array =
  fixes live :: "'e \<Rightarrow> bool"
    and key :: "'e \<Rightarrow> 'k"
    and kill :: "'e \<Rightarrow> 'e"
  assumes kill_dead: "\<not> live (kill e)"
begin

definition find_key :: "'k \<Rightarrow> 'e list \<Rightarrow> nat option" where
  "find_key k xs = first_idx (\<lambda>e. live e \<and> key e = k) xs"

definition find_free :: "'e list \<Rightarrow> nat option" where
  "find_free xs = first_idx (\<lambda>e. \<not> live e) xs"

definition unique :: "'e list \<Rightarrow> bool" where
  "unique xs \<longleftrightarrow> (\<forall>i < length xs. \<forall>j < length xs.
     live (xs ! i) \<longrightarrow> live (xs ! j) \<longrightarrow> key (xs ! i) = key (xs ! j) \<longrightarrow> i = j)"

definition lookup :: "'e list \<Rightarrow> 'k \<Rightarrow> 'e option" where
  "lookup xs k = map_option ((!) xs) (find_key k xs)"

definition live_count :: "'e list \<Rightarrow> nat" where
  "live_count xs = length (filter live xs)"

lemma find_key_Some:
  "find_key k xs = Some i \<Longrightarrow> i < length xs \<and> live (xs ! i) \<and> key (xs ! i) = k"
  by (simp add: find_key_def first_idx_Some)

lemma find_key_None:
  "find_key k xs = None \<longleftrightarrow> (\<forall>i < length xs. live (xs ! i) \<longrightarrow> key (xs ! i) \<noteq> k)"
  unfolding find_key_def first_idx_None by (metis in_set_conv_nth)

lemma find_free_Some: "find_free xs = Some i \<Longrightarrow> i < length xs \<and> \<not> live (xs ! i)"
  by (simp add: find_free_def first_idx_Some)

lemma find_free_None: "find_free xs = None \<longleftrightarrow> (\<forall>i < length xs. live (xs ! i))"
  unfolding find_free_def first_idx_None by (metis in_set_conv_nth)

lemma uniqueD:
  "unique xs \<Longrightarrow> i < length xs \<Longrightarrow> j < length xs \<Longrightarrow> live (xs ! i) \<Longrightarrow> live (xs ! j) \<Longrightarrow>
   key (xs ! i) = key (xs ! j) \<Longrightarrow> i = j"
  unfolding unique_def by blast

lemma unique_find_key:
  assumes "unique xs" "i < length xs" "live (xs ! i)"
  shows "find_key (key (xs ! i)) xs = Some i"
proof (cases "find_key (key (xs ! i)) xs")
  case None
  then show ?thesis using assms unfolding find_key_None by blast
next
  case (Some j)
  with assms find_key_Some [OF Some] show ?thesis by (auto simp: unique_def)
qed

lemma lookup_Some_iff:
  assumes "unique xs"
  shows "lookup xs k = Some e \<longleftrightarrow> e \<in> set xs \<and> live e \<and> key e = k"
proof
  assume "lookup xs k = Some e"
  then show "e \<in> set xs \<and> live e \<and> key e = k"
    by (auto simp: lookup_def dest!: find_key_Some)
next
  assume *: "e \<in> set xs \<and> live e \<and> key e = k"
  then obtain i where "i < length xs" "xs ! i = e" by (auto simp: in_set_conv_nth)
  with * assms show "lookup xs k = Some e"
    using unique_find_key [of xs i] by (auto simp: lookup_def)
qed

lemma lookup_None_iff: "lookup xs k = None \<longleftrightarrow> (\<forall>e \<in> set xs. live e \<longrightarrow> key e \<noteq> k)"
  by (auto simp: lookup_def find_key_def first_idx_None)

lemma unique_Cons: "unique (x # xs) \<longleftrightarrow> unique xs \<and> (live x \<longrightarrow> lookup xs (key x) = None)"
proof -
  have "lookup xs (key x) = None \<longleftrightarrow> (\<forall>i < length xs. live (xs ! i) \<longrightarrow> key (xs ! i) \<noteq> key x)"
    by (simp add: lookup_None_iff all_set_conv_all_nth)
  then show ?thesis unfolding unique_def by (auto simp: All_less_Suc2 eq_commute [of "key x"])
qed

lemma lookup_Cons: "lookup (x # xs) k = (if live x \<and> key x = k then Some x else lookup xs k)"
  by (simp add: lookup_def find_key_def option.map_comp comp_def)

lemma lookup_map:
  "(\<And>e. live (f e) = live e) \<Longrightarrow> (\<And>e. key (f e) = key e) \<Longrightarrow> lookup (map f xs) k = map_option f (lookup xs k)"
  by (induction xs) (simp_all add: lookup_Cons, simp add: lookup_def find_key_def)

lemma unique_overwrite:
  assumes "unique xs" "find_key (key e) xs = Some i"
  shows "unique (xs[i := e])"
  using assms find_key_Some [OF assms(2)]
  by (auto simp: unique_def nth_list_update)

lemma unique_fill:
  assumes "unique xs" "find_key (key e) xs = None"
  shows "unique (xs[i := e])"
proof (cases "i < length xs")
  case True
  with assms show ?thesis unfolding find_key_None unique_def
    by (simp add: nth_list_update) metis
next
  case False
  with assms show ?thesis by (simp add: list_update_beyond)
qed

lemma unique_dead:
  assumes "unique xs" "\<not> live e"
  shows "unique (xs[i := e])"
proof (cases "i < length xs")
  case True
  with assms show ?thesis unfolding unique_def by (simp add: nth_list_update)
next
  case False
  with assms show ?thesis by (simp add: list_update_beyond)
qed

lemma unique_kill_where: "unique xs \<Longrightarrow> unique (map (\<lambda>e. if P e then kill e else e) xs)"
  by (auto simp: unique_def kill_dead)

lemma unique_all_dead: "(\<forall>e \<in> set xs. \<not> live e) \<Longrightarrow> unique xs"
  by (auto simp: unique_def)

text \<open>Overwriting slot \<open>i\<close> by a live slot of key \<open>k\<close> changes no other key, when slot \<open>i\<close> was dead or of key
  \<open>k\<close>; the two ways of storing and the way of removing share this.\<close>

lemma lookup_other:
  assumes "unique xs" "unique (xs[i := e])" "i < length xs"
    and "live (xs ! i) \<longrightarrow> key (xs ! i) = k'" "live e \<longrightarrow> key e = k'" "k \<noteq> k'"
  shows "lookup (xs[i := e]) k = lookup xs k"
proof -
  have "x \<in> set (xs[i := e]) \<longleftrightarrow> x \<in> set xs" if "live x" "key x = k" for x
  proof
    assume "x \<in> set (xs[i := e])"
    moreover have "x \<noteq> e" using that assms(5,6) by auto
    ultimately show "x \<in> set xs"
      using set_update_subset_insert [of xs i e] by auto
  next
    assume "x \<in> set xs"
    then obtain j where j: "j < length xs" "xs ! j = x" by (auto simp: in_set_conv_nth)
    with that assms(4,6) have "j \<noteq> i" by auto
    with j have "xs[i := e] ! j = x" "j < length (xs[i := e])" by simp_all
    then show "x \<in> set (xs[i := e])" by (metis nth_mem)
  qed
  then have "lookup (xs[i := e]) k = Some x \<longleftrightarrow> lookup xs k = Some x" for x
    using assms(1,2) by (auto simp: lookup_Some_iff)
  then show ?thesis by (metis option.exhaust)
qed

lemma lookup_overwrite:
  assumes "unique xs" "find_key (key e) xs = Some i" "live e"
  shows "lookup (xs[i := e]) = (lookup xs)(key e \<mapsto> e)"
proof
  fix k
  note i = find_key_Some [OF assms(2)]
  have u: "unique (xs[i := e])" using assms by (simp add: unique_overwrite)
  show "lookup (xs[i := e]) k = ((lookup xs)(key e \<mapsto> e)) k"
  proof (cases "k = key e")
    case True
    with u i assms(3) show ?thesis by (simp add: lookup_Some_iff set_update_memI)
  next
    case False
    with lookup_other [OF assms(1) u, of "key e" k] i show ?thesis by simp
  qed
qed

lemma lookup_fill:
  assumes "unique xs" "find_key (key e) xs = None" "i < length xs" "\<not> live (xs ! i)" "live e"
  shows "lookup (xs[i := e]) = (lookup xs)(key e \<mapsto> e)"
proof
  fix k
  have u: "unique (xs[i := e])" using assms by (simp add: unique_fill)
  show "lookup (xs[i := e]) k = ((lookup xs)(key e \<mapsto> e)) k"
  proof (cases "k = key e")
    case True
    with u assms show ?thesis by (simp add: lookup_Some_iff set_update_memI)
  next
    case False
    with lookup_other [OF assms(1) u, of "key e" k] assms show ?thesis by simp
  qed
qed

lemma lookup_dead:
  assumes "unique xs" "i < length xs" "live (xs ! i)" "\<not> live e"
  shows "lookup (xs[i := e]) = (lookup xs)(key (xs ! i) := None)"
proof
  fix k
  have u: "unique (xs[i := e])" using assms by (simp add: unique_dead)
  show "lookup (xs[i := e]) k = ((lookup xs)(key (xs ! i) := None)) k"
  proof (cases "k = key (xs ! i)")
    case True
    have "key x \<noteq> k" if x: "x \<in> set (xs[i := e])" "live x" for x
    proof -
      from x(1) obtain j where j: "j < length xs" "xs[i := e] ! j = x"
        by (metis in_set_conv_nth length_list_update)
      with x(2) assms(4) have "j \<noteq> i" using assms(2) by auto
      with j have "xs ! j = x" by simp
      with x(2) j \<open>j \<noteq> i\<close> assms True show ?thesis unfolding unique_def by metis
    qed
    with True show ?thesis by (simp add: lookup_None_iff)
  next
    case False
    with lookup_other [OF assms(1) u, of "key (xs ! i)" k] assms show ?thesis by simp
  qed
qed

lemma lookup_kill_where:
  assumes "unique xs"
  shows "lookup (map (\<lambda>e. if P e then kill e else e) xs) k =
    (case lookup xs k of None \<Rightarrow> None | Some e \<Rightarrow> if P e then None else Some e)"
proof -
  let ?ys = "map (\<lambda>e. if P e then kill e else e) xs"
  have u: "unique ?ys" using assms by (rule unique_kill_where)
  have iff: "lookup ?ys k = Some x \<longleftrightarrow> lookup xs k = Some x \<and> \<not> P x" for x
    unfolding lookup_Some_iff [OF assms] lookup_Some_iff [OF u] by (auto simp: kill_dead)
  show ?thesis
  proof (cases "lookup ?ys k")
    case None
    with iff have "\<not> (lookup xs k = Some x \<and> \<not> P x)" for x by (metis option.distinct(1))
    with None show ?thesis by (auto split: option.splits)
  next
    case (Some e)
    with iff [of e] show ?thesis by simp
  qed
qed

lemma live_count_overwrite:
  assumes "find_key (key e) xs = Some i" "live e"
  shows "live_count (xs[i := e]) = live_count xs"
  using find_key_Some [OF assms(1)] assms(2) length_filter_update [of i xs live e]
  by (simp add: live_count_def)

lemma live_count_fill:
  assumes "i < length xs" "\<not> live (xs ! i)" "live e"
  shows "live_count (xs[i := e]) = Suc (live_count xs)"
  using assms length_filter_update [of i xs live e] by (simp add: live_count_def)

lemma live_count_dead:
  assumes "i < length xs" "live (xs ! i)" "\<not> live e"
  shows "int (live_count (xs[i := e])) = int (live_count xs) - 1"
  using assms length_filter_update [of i xs live e] by (simp add: live_count_def)

lemma live_count_kill_where:
  assumes "\<And>e. P e \<Longrightarrow> live e"
  shows "live_count (map (\<lambda>e. if P e then kill e else e) xs) + length (filter P xs) = live_count xs"
  using assms by (induction xs) (auto simp: live_count_def kill_dead)

lemma live_count_le: "live_count xs \<le> length xs"
  by (simp add: live_count_def)

lemma live_count_all_dead: "(\<forall>e \<in> set xs. \<not> live e) \<Longrightarrow> live_count xs = 0"
  by (simp add: live_count_def)

lemmas slot_unique = unique_overwrite unique_fill unique_dead unique_kill_where
lemmas slot_lookup = lookup_overwrite lookup_fill lookup_dead lookup_kill_where

end

text \<open>
  The sweeps of the tables: one pass over the array that invalidates the slots with some property and
  counts the table's \<open>count\<close> field down for each.
\<close>

fun sweep :: "('e \<Rightarrow> bool) \<Rightarrow> ('e \<Rightarrow> 'e) \<Rightarrow> 'e list \<Rightarrow> int \<Rightarrow> 'e list \<times> int" where
  "sweep P kill [] n = ([], n)"
| "sweep P kill (e # es) n =
     (if P e then (case sweep P kill es (n - 1) of (es', n') \<Rightarrow> (kill e # es', n'))
      else (case sweep P kill es n of (es', n') \<Rightarrow> (e # es', n')))"

lemma sweep_map [scan_simps]:
  "sweep P kill es n = (map (\<lambda>e. if P e then kill e else e) es, n - int (length (filter P es)))"
  by (induction es arbitrary: n) simp_all

text \<open>
  The contract of a table with a bounded number of entries, as its clients see it: storing a value that
  the table accepts at all may be refused when there is no room, a refused store is for a new key, and a
  store that succeeds updates the represented map at one key.
\<close>

locale bounded_map =
  fixes invar :: "'t \<Rightarrow> bool"
    and get :: "'t \<Rightarrow> 'k \<Rightarrow> 'v option"
    and acceptable :: "'k \<Rightarrow> 'v \<Rightarrow> bool"
    and store :: "'k \<Rightarrow> 'v \<Rightarrow> 't \<Rightarrow> 't option"
  assumes store_invar: "invar t \<Longrightarrow> acceptable k v \<Longrightarrow> store k v t = Some t' \<Longrightarrow> invar t'"
    and store_get: "invar t \<Longrightarrow> acceptable k v \<Longrightarrow> store k v t = Some t' \<Longrightarrow> get t' = (get t)(k \<mapsto> v)"
    and store_refused: "invar t \<Longrightarrow> acceptable k v \<Longrightarrow> store k v t = None \<Longrightarrow> get t k = None"
begin

fun store_all :: "('k \<times> 'v) list \<Rightarrow> 't \<Rightarrow> 't" where
  "store_all [] t = t"
| "store_all ((k, v) # kvs) t = (case store k v t of None \<Rightarrow> store_all kvs t | Some t' \<Rightarrow> store_all kvs t')"

abbreviation all_acceptable :: "('k \<times> 'v) list \<Rightarrow> bool" where
  "all_acceptable kvs \<equiv> list_all (\<lambda>(k, v). acceptable k v) kvs"

lemma store_all_invar: "invar t \<Longrightarrow> all_acceptable kvs \<Longrightarrow> invar (store_all kvs t)"
  by (induction kvs t rule: store_all.induct) (auto split: option.splits dest: store_invar)

lemma store_known: "invar t \<Longrightarrow> acceptable k v \<Longrightarrow> get t k = Some v' \<Longrightarrow> \<exists>t'. store k v t = Some t'"
  by (cases "store k v t") (auto dest: store_refused)

text \<open>Whatever else is stored and whether or not it is refused, a key that is already present keeps
  being present, and the last value stored under it is what is found.\<close>

lemma store_all_keeps:
  "invar t \<Longrightarrow> all_acceptable kvs \<Longrightarrow> get t k \<noteq> None \<Longrightarrow> get (store_all kvs t) k \<noteq> None"
  by (induction kvs t rule: store_all.induct)
     (auto split: option.splits simp: store_get store_invar)

lemma store_all_other:
  "invar t \<Longrightarrow> all_acceptable kvs \<Longrightarrow> k \<notin> fst ` set kvs \<Longrightarrow> get (store_all kvs t) k = get t k"
  by (induction kvs t rule: store_all.induct) (auto split: option.splits simp: store_get store_invar)

lemma store_all_append: "store_all (xs @ ys) t = store_all ys (store_all xs t)"
  by (induction xs t rule: store_all.induct) (auto split: option.splits)

lemma last_store_wins:
  assumes "invar t" "all_acceptable (kvs @ (k, v) # kvs')" "get t k \<noteq> None" "k \<notin> fst ` set kvs'"
  shows "get (store_all (kvs @ (k, v) # kvs') t) k = Some v"
proof -
  have ok: "all_acceptable kvs" "acceptable k v" "all_acceptable kvs'" using assms(2) by simp_all
  have s: "invar (store_all kvs t)" using assms(1) ok(1) by (rule store_all_invar)
  obtain t' where t': "store k v (store_all kvs t) = Some t'"
    using store_known [OF s ok(2)] store_all_keeps [OF assms(1) ok(1) assms(3)] by blast
  have "invar t'" "get t' k = Some v"
    using store_invar [OF s ok(2) t'] store_get [OF s ok(2) t'] by simp_all
  then show ?thesis using t' store_all_other [OF _ ok(3) assms(4)] by (simp add: store_all_append)
qed

end

end
