(* ===== verification/Arp_Cache.thy ===== *)
theory Arp_Cache
  imports Slot_Table
begin

text \<open>
  The ARP cache (\<open>protocols/arp_cache.h\<close>, \<open>protocols/arp_cache.c\<close>): 256 address mappings and 32 packets
  that wait for a mapping. Here are the operations on the tables themselves; \<open>arp_pending_flush\<close>, which
  sends the waiting packets, is in theory \<open>Arp\<close>.
\<close>

section \<open>State and operations\<close>

definition ARP_MAX_CACHE_SIZE :: nat where
  "ARP_MAX_CACHE_SIZE = 256"

definition ARP_MAX_PENDING_PACKETS :: nat where
  "ARP_MAX_PENDING_PACKETS = 32"

definition ARP_CACHE_TIMEOUT_MS :: u64 where
  "ARP_CACHE_TIMEOUT_MS = 300000"

record ArpCacheEntry =
  ae_ip_addr :: u32
  ae_mac_addr :: bytes
  ae_timestamp :: u64
  ae_valid :: int

record ArpPendingPacket =
  pp_target_ip :: u32
  pp_ethertype :: u16
  pp_iface :: addr
  pp_packet :: addr
  pp_valid :: int

record ArpCache =
  ac_entries :: "ArpCacheEntry list"
  ac_count :: int
  ac_pending :: "ArpPendingPacket list"
  ac_pending_count :: int

definition zero_arp_entry :: ArpCacheEntry where
  "zero_arp_entry = \<lparr>ae_ip_addr = 0, ae_mac_addr = replicate 6 0, ae_timestamp = 0, ae_valid = 0\<rparr>"

definition zero_pending :: ArpPendingPacket where
  "zero_pending = \<lparr>pp_target_ip = 0, pp_ethertype = 0, pp_iface = NULL, pp_packet = NULL, pp_valid = 0\<rparr>"

definition arp_cache_init :: "ArpCache option \<Rightarrow> ArpCache option" where
  "arp_cache_init cache = (case cache of None \<Rightarrow> None | Some c \<Rightarrow>
     Some \<lparr>ac_entries = replicate ARP_MAX_CACHE_SIZE zero_arp_entry, ac_count = 0,
           ac_pending = replicate ARP_MAX_PENDING_PACKETS zero_pending, ac_pending_count = 0\<rparr>)"

definition arp_cache_add :: "ArpCache option \<Rightarrow> u32 \<Rightarrow> bytes \<Rightarrow> u64 \<Rightarrow> ArpCache option" where
  "arp_cache_add cache ip_addr mac_addr timestamp = (case cache of None \<Rightarrow> None | Some c \<Rightarrow>
     if ip_addr = 0 then cache
     else (case first_idx (\<lambda>e. ae_valid e = 1 \<and> ae_ip_addr e = ip_addr) (ac_entries c) of
       Some i \<Rightarrow> Some (c\<lparr>ac_entries := (ac_entries c)[i :=
           (ac_entries c ! i)\<lparr>ae_mac_addr := take 6 mac_addr, ae_timestamp := timestamp\<rparr>]\<rparr>)
     | None \<Rightarrow> (case first_idx (\<lambda>e. ae_valid e = 0) (ac_entries c) of
         Some i \<Rightarrow> Some (c\<lparr>ac_entries := (ac_entries c)[i :=
             \<lparr>ae_ip_addr = ip_addr, ae_mac_addr = take 6 mac_addr, ae_timestamp = timestamp, ae_valid = 1\<rparr>],
             ac_count := ac_count c + 1\<rparr>)
       | None \<Rightarrow> cache)))"

text \<open>The lookup returns the C result and the six bytes it copies to \<open>out_mac\<close>; \<open>has_out\<close> is
  \<open>out_mac != NULL\<close>.\<close>

definition arp_cache_lookup :: "ArpCache option \<Rightarrow> u32 \<Rightarrow> bool \<Rightarrow> int \<times> bytes option" where
  "arp_cache_lookup cache ip_addr has_out = (case cache of None \<Rightarrow> (- 1, None) | Some c \<Rightarrow>
     if ip_addr = 0 \<or> \<not> has_out then (- 1, None)
     else (case first_idx (\<lambda>e. ae_valid e = 1 \<and> ae_ip_addr e = ip_addr) (ac_entries c) of
       Some i \<Rightarrow> (0, Some (ae_mac_addr (ac_entries c ! i)))
     | None \<Rightarrow> (- 1, None)))"

definition arp_pending_enqueue :: "ArpCache option \<Rightarrow> addr \<Rightarrow> u32 \<Rightarrow> u16 \<Rightarrow> addr \<Rightarrow> int \<times> ArpCache option" where
  "arp_pending_enqueue cache iface target_ip ethertype packet = (case cache of None \<Rightarrow> (- 1, None) | Some c \<Rightarrow>
     if iface = NULL \<or> target_ip = 0 \<or> packet = NULL then (- 1, cache)
     else (case first_idx (\<lambda>p. pp_valid p = 0) (ac_pending c) of
       Some i \<Rightarrow> (0, Some (c\<lparr>ac_pending := (ac_pending c)[i :=
           \<lparr>pp_target_ip = target_ip, pp_ethertype = ethertype, pp_iface = iface, pp_packet = packet, pp_valid = 1\<rparr>],
           ac_pending_count := ac_pending_count c + 1\<rparr>))
     | None \<Rightarrow> (- 1, cache)))"

definition arp_cache_cleanup :: "ArpCache option \<Rightarrow> u64 \<Rightarrow> ArpCache option" where
  "arp_cache_cleanup cache current_time = map_option (\<lambda>c.
     case sweep (\<lambda>e. ae_valid e = 1 \<and> ARP_CACHE_TIMEOUT_MS \<le> current_time - ae_timestamp e)
            (\<lambda>e. e\<lparr>ae_valid := 0\<rparr>) (ac_entries c) (ac_count c) of
       (es, n) \<Rightarrow> c\<lparr>ac_entries := es, ac_count := n\<rparr>) cache"

section \<open>Invariant and the map that the cache represents\<close>

interpretation arps: slot_array "\<lambda>e. ae_valid e \<noteq> 0" ae_ip_addr "\<lambda>e. e\<lparr>ae_valid := 0\<rparr>"
  by unfold_locales simp

definition arp_cache_wf :: "ArpCache \<Rightarrow> bool" where
  "arp_cache_wf c \<longleftrightarrow> length (ac_entries c) = ARP_MAX_CACHE_SIZE \<and> arps.unique (ac_entries c) \<and>
     ac_count c = int (arps.live_count (ac_entries c)) \<and>
     (\<forall>e \<in> set (ac_entries c). length (ae_mac_addr e) = 6 \<and> ae_valid e \<in> {0, 1} \<and>
        (ae_valid e = 1 \<longrightarrow> ae_ip_addr e \<noteq> 0)) \<and>
     length (ac_pending c) = ARP_MAX_PENDING_PACKETS \<and>
     (\<forall>p \<in> set (ac_pending c). pp_valid p \<in> {0, 1} \<and>
        (pp_valid p = 1 \<longrightarrow> pp_target_ip p \<noteq> 0 \<and> pp_iface p \<noteq> NULL \<and> pp_packet p \<noteq> NULL)) \<and>
     ac_pending_count c = int (length (filter (\<lambda>p. pp_valid p \<noteq> 0) (ac_pending c)))"

definition arp_map :: "ArpCache \<Rightarrow> u32 \<Rightarrow> (bytes \<times> u64) option" where
  "arp_map c ip = map_option (\<lambda>e. (ae_mac_addr e, ae_timestamp e)) (arps.lookup (ac_entries c) ip)"

lemma arp_valid_find:
  "\<forall>e \<in> set es. ae_valid e \<in> {0, 1} \<Longrightarrow>
   first_idx (\<lambda>e. ae_valid e = 1 \<and> ae_ip_addr e = ip) es = arps.find_key ip es"
  unfolding arps.find_key_def by (intro first_idx_cong) auto

lemma arp_free_find: "first_idx (\<lambda>e. ae_valid e = 0) es = arps.find_free es"
  by (simp add: arps.find_free_def)

lemma arp_find: "arp_cache_wf c \<Longrightarrow>
  first_idx (\<lambda>e. ae_valid e = 1 \<and> ae_ip_addr e = ip) (ac_entries c) = arps.find_key ip (ac_entries c)"
  by (rule arp_valid_find) (auto simp: arp_cache_wf_def)

lemma arp_wf_update:
  assumes "arp_cache_wf c" "length (ae_mac_addr e) = 6" "ae_valid e = 1" "ae_ip_addr e \<noteq> 0"
    and "arps.unique ((ac_entries c)[i := e])" "n = int (arps.live_count ((ac_entries c)[i := e]))"
  shows "arp_cache_wf (c\<lparr>ac_entries := (ac_entries c)[i := e], ac_count := n\<rparr>)"
proof -
  have "set ((ac_entries c)[i := e]) \<subseteq> insert e (set (ac_entries c))" by (rule set_update_subset_insert)
  then show ?thesis using assms unfolding arp_cache_wf_def by auto
qed

lemma arp_add_cases:
  assumes "arp_cache_wf c" "length mac = 6" "ip \<noteq> 0"
  obtains (stored) c' where "arp_cache_add (Some c) ip mac ts = Some c'" "arp_cache_wf c'"
      "arp_map c' = (arp_map c)(ip \<mapsto> (mac, ts))"
    | (full) "arp_cache_add (Some c) ip mac ts = Some c" "arp_map c ip = None"
      "ac_count c = int ARP_MAX_CACHE_SIZE"
proof (cases "arps.find_key ip (ac_entries c)")
  case (Some i)
  let ?e = "(ac_entries c ! i)\<lparr>ae_mac_addr := mac, ae_timestamp := ts\<rparr>"
  note i = arps.find_key_Some [OF Some]
  have e: "ac_entries c ! i \<in> set (ac_entries c)" using i by simp
  have key: "ae_ip_addr ?e = ip" "ae_valid ?e \<noteq> 0" "ae_valid ?e = 1"
    using i e assms(1) by (auto simp: arp_cache_wf_def)
  have u: "arps.unique (ac_entries c)" using assms(1) by (simp add: arp_cache_wf_def)
  have fk: "arps.find_key (ae_ip_addr ?e) (ac_entries c) = Some i" using Some key by simp
  let ?c = "c\<lparr>ac_entries := (ac_entries c)[i := ?e]\<rparr>"
  have "arp_cache_wf (c\<lparr>ac_entries := (ac_entries c)[i := ?e], ac_count := ac_count c\<rparr>)"
    using assms key arps.unique_overwrite [OF u fk] arps.live_count_overwrite [OF fk key(2)]
    by (intro arp_wf_update) (auto simp: arp_cache_wf_def)
  moreover have "arp_map ?c = (arp_map c)(ip \<mapsto> (mac, ts))"
    using arps.lookup_overwrite [OF u fk key(2)] key(1) by (auto simp: arp_map_def)
  moreover have "arp_cache_add (Some c) ip mac ts = Some ?c"
    using Some assms by (simp add: arp_cache_add_def arp_find)
  ultimately show thesis by (intro stored [of ?c]) auto
next
  case None
  have u: "arps.unique (ac_entries c)" using assms(1) by (simp add: arp_cache_wf_def)
  show thesis
  proof (cases "arps.find_free (ac_entries c)")
    case (Some i)
    let ?e = "\<lparr>ae_ip_addr = ip, ae_mac_addr = mac, ae_timestamp = ts, ae_valid = 1\<rparr>"
    note i = arps.find_free_Some [OF Some]
    have fk: "arps.find_key (ae_ip_addr ?e) (ac_entries c) = None" using None by simp
    let ?c = "c\<lparr>ac_entries := (ac_entries c)[i := ?e], ac_count := ac_count c + 1\<rparr>"
    have "arp_cache_wf ?c"
      using assms i arps.unique_fill [OF u fk, of i] arps.live_count_fill [of i "ac_entries c" ?e]
      by (intro arp_wf_update) (auto simp: arp_cache_wf_def)
    moreover have "arp_map ?c = (arp_map c)(ip \<mapsto> (mac, ts))"
      using arps.lookup_fill [OF u fk, of i] i by (auto simp: arp_map_def)
    moreover have "arp_cache_add (Some c) ip mac ts = Some ?c"
      using Some None assms by (simp add: arp_cache_add_def arp_find arp_free_find)
    ultimately show thesis by (intro stored [of ?c]) auto
  next
    case free: None
    then have "filter (\<lambda>e. ae_valid e \<noteq> 0) (ac_entries c) = ac_entries c"
      unfolding arps.find_free_def first_idx_None by (simp add: filter_id_conv)
    then have "ac_count c = int ARP_MAX_CACHE_SIZE"
      using assms(1) by (simp add: arp_cache_wf_def arps.live_count_def)
    then show thesis using None free assms
      by (intro full) (auto simp: arp_cache_add_def arp_find arp_free_find arp_map_def arps.lookup_def)
  qed
qed

text \<open>The cache as a bounded map. \<open>arp_cache_add\<close> returns nothing; that it had no room shows in a lookup.\<close>

definition arp_store :: "u32 \<Rightarrow> bytes \<times> u64 \<Rightarrow> ArpCache \<Rightarrow> ArpCache option" where
  "arp_store ip v c = (case arp_cache_add (Some c) ip (fst v) (snd v) of
     Some c' \<Rightarrow> if fst (arp_cache_lookup (Some c') ip True) = 0 then Some c' else None | None \<Rightarrow> None)"

lemma arp_lookup_map:
  assumes "arp_cache_wf c"
  shows "arp_cache_lookup (Some c) ip True =
    (case arp_map c ip of None \<Rightarrow> (- 1, None) | Some (mac, _) \<Rightarrow> if ip = 0 then (- 1, None) else (0, Some mac))"
  using assms by (auto simp: arp_cache_lookup_def arp_find arp_map_def arps.lookup_def split: option.splits)

interpretation arp_bm: bounded_map arp_cache_wf arp_map "\<lambda>ip v. ip \<noteq> 0 \<and> length (fst v) = 6" arp_store
proof
  fix c :: ArpCache and ip :: u32 and v :: "bytes \<times> u64"
  assume wf: "arp_cache_wf c" "ip \<noteq> 0 \<and> length (fst v) = 6"
  have cases: "(\<exists>c'. arp_store ip v c = Some c' \<and> arp_cache_wf c' \<and> arp_map c' = (arp_map c)(ip \<mapsto> v)) \<or>
      arp_store ip v c = None \<and> arp_map c ip = None"
    by (rule arp_add_cases [of c "fst v" ip "snd v"])
       (use wf in \<open>auto simp: arp_store_def arp_lookup_map split: prod.splits\<close>)
  show "arp_store ip v c = Some c' \<Longrightarrow> arp_cache_wf c'" for c' using cases by auto
  show "arp_store ip v c = Some c' \<Longrightarrow> arp_map c' = (arp_map c)(ip \<mapsto> v)" for c' using cases by auto
  show "arp_store ip v c = None \<Longrightarrow> arp_map c ip = None" using cases by auto
qed

section \<open>Correctness\<close>

text \<open>After an address mapping was added to a well-formed cache, the cache is well formed and a lookup of any
  address returns what it returned before, except that the added address now resolves to the added MAC
  address; only when the address was unknown and all 256 entries were in use does it stay unresolved.\<close>

lemma arp_cache_add_lookup:
  assumes "arp_cache_wf c" "length mac = 6" "ip \<noteq> 0"
  shows "\<exists>c'. arp_cache_add (Some c) ip mac ts = Some c' \<and> arp_cache_wf c' \<and>
    (if arp_cache_lookup (Some c) ip True = (- 1, None) \<and> ac_count c = int ARP_MAX_CACHE_SIZE
     then c' = c
     else arp_cache_lookup (Some c') ip True = (0, Some mac) \<and>
       (\<forall>j. j \<noteq> ip \<longrightarrow> arp_cache_lookup (Some c') j True = arp_cache_lookup (Some c) j True))"
proof (rule arp_add_cases [OF assms, of ts])
  fix c' assume st: "arp_cache_add (Some c) ip mac ts = Some c'" "arp_cache_wf c'"
    "arp_map c' = (arp_map c)(ip \<mapsto> (mac, ts))"
  have "\<not> (arp_map c ip = None \<and> ac_count c = int ARP_MAX_CACHE_SIZE)"
  proof
    assume full: "arp_map c ip = None \<and> ac_count c = int ARP_MAX_CACHE_SIZE"
    then have "arps.find_key ip (ac_entries c) = None" by (simp add: arp_map_def arps.lookup_def)
    moreover have "length (filter (\<lambda>e. ae_valid e \<noteq> 0) (ac_entries c)) = length (ac_entries c)"
      using full assms(1) by (simp add: arp_cache_wf_def arps.live_count_def)
    then have "arps.find_free (ac_entries c) = None"
      unfolding arps.find_free_def first_idx_None length_filter_full by simp
    ultimately have "c' = c" using st(1) assms by (simp add: arp_cache_add_def arp_find arp_free_find)
    with st(3) full show False by (metis fun_upd_same option.distinct(1))
  qed
  with st show ?thesis using assms(1,3) by (auto simp: arp_lookup_map split: option.splits prod.splits)
next
  assume "arp_cache_add (Some c) ip mac ts = Some c" "arp_map c ip = None" "ac_count c = int ARP_MAX_CACHE_SIZE"
  then show ?thesis using assms(1) by (auto simp: arp_lookup_map)
qed

lemma arp_sweep_wf:
  fixes c :: ArpCache
  assumes "arp_cache_wf c" and P: "\<And>e. P e \<Longrightarrow> ae_valid e \<noteq> 0"
  defines "c' \<equiv> c\<lparr>ac_entries := map (\<lambda>e. if P e then e\<lparr>ae_valid := 0\<rparr> else e) (ac_entries c),
    ac_count := ac_count c - int (length (filter P (ac_entries c)))\<rparr>"
  shows "arp_cache_wf c'"
    and "arps.lookup (ac_entries c') ip = (case arps.lookup (ac_entries c) ip of None \<Rightarrow> None
      | Some e \<Rightarrow> if P e then None else Some e)"
proof -
  have u: "arps.unique (ac_entries c)" using assms(1) by (simp add: arp_cache_wf_def)
  show "arps.lookup (ac_entries c') ip = (case arps.lookup (ac_entries c) ip of None \<Rightarrow> None
      | Some e \<Rightarrow> if P e then None else Some e)"
    using arps.lookup_kill_where [OF u] by (simp add: c'_def)
  show "arp_cache_wf c'"
    using assms(1) arps.unique_kill_where [OF u, of P] arps.live_count_kill_where [of P "ac_entries c"] P
    by (auto simp: arp_cache_wf_def c'_def)
qed

text \<open>The cleanup keeps the invariant and removes from the represented map exactly the mappings whose age is
  at least 300000 time units.\<close>

lemma arp_cache_cleanup_correct:
  assumes "arp_cache_wf c"
  shows "\<exists>c'. arp_cache_cleanup (Some c) now = Some c' \<and> arp_cache_wf c' \<and> ac_pending c' = ac_pending c \<and>
    arp_map c' = (\<lambda>ip. case arp_map c ip of None \<Rightarrow> None
      | Some (mac, ts) \<Rightarrow> if ARP_CACHE_TIMEOUT_MS \<le> now - ts then None else Some (mac, ts))"
proof -
  let ?P = "\<lambda>e. ae_valid e = 1 \<and> ARP_CACHE_TIMEOUT_MS \<le> now - ae_timestamp e"
  have live: "ae_valid e = 1" if "arps.lookup (ac_entries c) ip = Some e" for ip e
    using that assms by (auto simp: arp_cache_wf_def arps.lookup_Some_iff)
  show ?thesis using arp_sweep_wf [OF assms, of ?P] live
    by (auto simp: arp_cache_cleanup_def sweep_map arp_map_def fun_eq_iff split: option.splits)
qed

lemma arp_enqueue_outcome:
  assumes "arp_cache_wf c" "iface \<noteq> NULL" "ip \<noteq> 0" "pkt \<noteq> NULL"
  shows "\<exists>r c'. arp_pending_enqueue (Some c) iface ip ety pkt = (r, Some c') \<and> arp_cache_wf c' \<and>
    ac_entries c' = ac_entries c \<and>
    (if ac_pending_count c = int ARP_MAX_PENDING_PACKETS then r = - 1 \<and> c' = c
     else r = 0 \<and> ac_pending_count c' = ac_pending_count c + 1 \<and>
       (\<exists>i. pp_valid (ac_pending c ! i) = 0 \<and> ac_pending c' = (ac_pending c)[i :=
          \<lparr>pp_target_ip = ip, pp_ethertype = ety, pp_iface = iface, pp_packet = pkt, pp_valid = 1\<rparr>]))"
proof (cases "first_idx (\<lambda>p. pp_valid p = 0) (ac_pending c)")
  case None
  then have "filter (\<lambda>p. pp_valid p \<noteq> 0) (ac_pending c) = ac_pending c"
    unfolding first_idx_None by (simp add: filter_id_conv)
  with None assms show ?thesis by (simp add: arp_pending_enqueue_def arp_cache_wf_def)
next
  case (Some i)
  let ?p = "\<lparr>pp_target_ip = ip, pp_ethertype = ety, pp_iface = iface, pp_packet = pkt, pp_valid = 1\<rparr>"
  let ?c = "c\<lparr>ac_pending := (ac_pending c)[i := ?p], ac_pending_count := ac_pending_count c + 1\<rparr>"
  have i: "i < length (ac_pending c)" "pp_valid (ac_pending c ! i) = 0"
    using Some by (simp_all add: first_idx_Some)
  have n: "int (length (filter (\<lambda>p. pp_valid p \<noteq> 0) ((ac_pending c)[i := ?p]))) =
      int (length (filter (\<lambda>p. pp_valid p \<noteq> 0) (ac_pending c))) + 1"
    using length_filter_update [OF i(1), of "\<lambda>p. pp_valid p \<noteq> 0" ?p] i(2) by simp
  have "set ((ac_pending c)[i := ?p]) \<subseteq> insert ?p (set (ac_pending c))" by (rule set_update_subset_insert)
  then have "arp_cache_wf ?c" using assms n unfolding arp_cache_wf_def by auto
  moreover have "ac_pending_count c \<noteq> int ARP_MAX_PENDING_PACKETS"
  proof
    assume "ac_pending_count c = int ARP_MAX_PENDING_PACKETS"
    then have "length (filter (\<lambda>p. pp_valid p \<noteq> 0) (ac_pending c)) = length (ac_pending c)"
      using assms(1) by (simp add: arp_cache_wf_def)
    moreover have "ac_pending c ! i \<in> set (ac_pending c)" using i(1) by simp
    ultimately show False using i(2) unfolding length_filter_full by auto
  qed
  ultimately show ?thesis using Some assms i by (auto simp: arp_pending_enqueue_def)
qed

text \<open>Queueing a packet for an unresolved address keeps the invariant, in particular \<open>pending_count\<close> is the
  number of waiting packets, and leaves the packets that wait already and the mappings alone; it is refused
  exactly when 32 packets are waiting.\<close>

theorem arp_pending_enqueue_correct:
  assumes "arp_cache_wf c" "iface \<noteq> NULL" "ip \<noteq> 0" "pkt \<noteq> NULL"
  shows "\<exists>r c'. arp_pending_enqueue (Some c) iface ip ety pkt = (r, Some c') \<and> arp_cache_wf c' \<and>
    ac_entries c' = ac_entries c \<and>
    (if ac_pending_count c = int ARP_MAX_PENDING_PACKETS then r = - 1 \<and> c' = c
     else r = 0 \<and> ac_pending_count c' = ac_pending_count c + 1 \<and>
       (\<exists>i. pp_valid (ac_pending c ! i) = 0 \<and> ac_pending c' = (ac_pending c)[i :=
          \<lparr>pp_target_ip = ip, pp_ethertype = ety, pp_iface = iface, pp_packet = pkt, pp_valid = 1\<rparr>]))"
  by (rule arp_enqueue_outcome [OF assms])

section \<open>Instances\<close>

definition demo_arp_cache :: ArpCache where
  "demo_arp_cache = \<lparr>ac_entries = replicate ARP_MAX_CACHE_SIZE zero_arp_entry, ac_count = 0,
     ac_pending = replicate ARP_MAX_PENDING_PACKETS zero_pending, ac_pending_count = 0\<rparr>"

lemma arp_init_wf: "arp_cache_init (Some x) = Some demo_arp_cache" "arp_cache_wf demo_arp_cache"
proof -
  show "arp_cache_init (Some x) = Some demo_arp_cache" by (simp add: arp_cache_init_def demo_arp_cache_def)
  let ?es = "replicate ARP_MAX_CACHE_SIZE zero_arp_entry"
  have dead: "\<forall>e \<in> set ?es. \<not> ae_valid e \<noteq> 0" by (simp add: zero_arp_entry_def)
  show "arp_cache_wf demo_arp_cache"
    using arps.unique_all_dead [OF dead] arps.live_count_all_dead [OF dead]
    by (auto simp: demo_arp_cache_def arp_cache_wf_def zero_arp_entry_def zero_pending_def)
qed

lemma arp_cache_add_lookup_witness:
  "\<exists>c'. arp_cache_add (Some demo_arp_cache) 0x0A000002 [2, 0, 0, 0, 0, 2] 5 = Some c' \<and>
    arp_cache_lookup (Some c') 0x0A000002 True = (0, Some [2, 0, 0, 0, 0, 2])"
  using arp_cache_add_lookup [OF arp_init_wf(2), of "[2, 0, 0, 0, 0, 2]" "0x0A000002" 5]
  by (auto simp: demo_arp_cache_def ARP_MAX_CACHE_SIZE_def)

lemma arp_cache_cleanup_correct_witness:
  "\<exists>c'. arp_cache_cleanup (Some demo_arp_cache) 9 = Some c' \<and> arp_cache_wf c'"
  using arp_cache_cleanup_correct [OF arp_init_wf(2), of 9] by blast

lemma arp_pending_enqueue_correct_witness:
  "\<exists>c'. arp_pending_enqueue (Some demo_arp_cache) 1 0x0A000002 0x0800 4 = (0, Some c') \<and> ac_pending_count c' = 1"
  using arp_pending_enqueue_correct [OF arp_init_wf(2), of 1 "0x0A000002" 4 "0x0800"]
  by (auto simp: demo_arp_cache_def ARP_MAX_PENDING_PACKETS_def)

end
