(* ===== verification/Arp.thy ===== *)
theory Arp
  imports Ethernet Arp_Cache
begin

text \<open>
  Address resolution (\<open>protocols/arp.h\<close>, \<open>protocols/arp.c\<close>, and \<open>arp_pending_flush\<close> of
  \<open>protocols/arp_cache.c\<close>): requests and replies on the wire, the handlers that learn from them, and the
  transmission of the packets that waited for an address. Caches live in the heap \<open>w_caches\<close>.
\<close>

section \<open>State\<close>

record arp_world = sim_world +
  w_caches :: "addr \<rightharpoonup> ArpCache"

definition cache_at :: "addr \<Rightarrow> 'a arp_world_scheme \<Rightarrow> ArpCache option" where
  "cache_at a w = (if a = NULL then None else w_caches w a)"

definition cache_put :: "addr \<Rightarrow> ArpCache \<Rightarrow> 'a arp_world_scheme \<Rightarrow> 'a arp_world_scheme" where
  "cache_put a c w = w\<lparr>w_caches := (w_caches w)(a \<mapsto> c)\<rparr>"

definition HARDWARE_TYPE_ETHERNET :: u16 where "HARDWARE_TYPE_ETHERNET = 1"
definition PROTOCOL_TYPE_IPV4 :: u16 where "PROTOCOL_TYPE_IPV4 = 0x0800"
definition HARDWARE_ADDR_LEN :: u8 where "HARDWARE_ADDR_LEN = 6"
definition PROTOCOL_ADDR_LEN :: u8 where "PROTOCOL_ADDR_LEN = 4"
definition ARP_OPCODE_REQUEST :: u16 where "ARP_OPCODE_REQUEST = 1"
definition ARP_OPCODE_REPLY :: u16 where "ARP_OPCODE_REPLY = 2"

text \<open>The 28 bytes of the packed \<open>ArpPacket\<close>; addresses are stored as they are given, in network byte order.\<close>

definition ArpPacket :: "u16 \<Rightarrow> bytes \<Rightarrow> u32 \<Rightarrow> bytes \<Rightarrow> u32 \<Rightarrow> bytes" where
  "ArpPacket opcode sender_mac sender_ip target_mac target_ip =
     put16 (ns_htons HARDWARE_TYPE_ETHERNET) @ put16 (ns_htons PROTOCOL_TYPE_IPV4) @
     [HARDWARE_ADDR_LEN, PROTOCOL_ADDR_LEN] @ put16 (ns_htons opcode) @
     take 6 sender_mac @ put32 sender_ip @ take 6 target_mac @ put32 target_ip"

definition arp_opcode :: "bytes \<Rightarrow> u16" where "arp_opcode b = get16 b 6"
definition arp_sender_mac :: "bytes \<Rightarrow> bytes" where "arp_sender_mac b = take 6 (drop 8 b)"
definition arp_sender_ip :: "bytes \<Rightarrow> u32" where "arp_sender_ip b = get32 b 14"
definition arp_target_ip :: "bytes \<Rightarrow> u32" where "arp_target_ip b = get32 b 24"

definition as_sim :: "vptr \<Rightarrow> addr option" where
  "as_sim v = (case v of VNull \<Rightarrow> Some NULL | VSim a \<Rightarrow> Some a | _ \<Rightarrow> None)"

section \<open>Packets that waited\<close>

text \<open>One turn of the loop of \<open>arp_pending_flush\<close> for slot \<open>i\<close>: the slot is released before the packet is sent, and
  a packet that cannot be sent is freed.\<close>

definition flush_slot :: "addr \<Rightarrow> addr \<Rightarrow> u32 \<Rightarrow> bytes \<Rightarrow> nat \<Rightarrow> int \<Rightarrow> 'a arp_world_scheme \<Rightarrow>
    (int \<times> 'a arp_world_scheme) option" where
  "flush_slot sim cache target_ip mac_addr i sent w = do {
     c \<leftarrow> cache_at cache w;
     if length (ac_pending c) \<le> i then None
     else do {
       let pending = ac_pending c ! i;
       if pp_valid pending = 0 \<or> pp_target_ip pending \<noteq> target_ip then Some (sent, w)
       else do {
         let w = cache_put cache (c\<lparr>
           ac_pending := (ac_pending c)[i := pending\<lparr>pp_valid := 0, pp_packet := NULL, pp_iface := NULL\<rparr>],
           ac_pending_count := (if 0 < ac_pending_count c then ac_pending_count c - 1 else ac_pending_count c)\<rparr>) w;
         (res, w) \<leftarrow> (if pp_iface pending \<noteq> NULL \<and> pp_packet pending \<noteq> NULL
           then ethernet_send sim (pp_iface pending) (Some mac_addr) (pp_ethertype pending) (pp_packet pending) w
           else Some (- 1, w));
         if 0 \<le> res then Some (sent + 1, w)
         else do { w \<leftarrow> packet_free (pp_packet pending) w; Some (sent, w) }
       }
     }
   }"

fun flush_slots :: "addr \<Rightarrow> addr \<Rightarrow> u32 \<Rightarrow> bytes \<Rightarrow> nat list \<Rightarrow> int \<Rightarrow> 'a arp_world_scheme \<Rightarrow>
    (int \<times> 'a arp_world_scheme) option" where
  "flush_slots sim cache target_ip mac_addr [] sent w = Some (sent, w)"
| "flush_slots sim cache target_ip mac_addr (i # is) sent w = do {
     (sent, w) \<leftarrow> flush_slot sim cache target_ip mac_addr i sent w;
     flush_slots sim cache target_ip mac_addr is sent w
   }"

definition arp_pending_flush :: "addr \<Rightarrow> addr \<Rightarrow> u32 \<Rightarrow> bytes option \<Rightarrow> 'a arp_world_scheme \<Rightarrow>
    (int \<times> 'a arp_world_scheme) option" where
  "arp_pending_flush sim cache target_ip mac_addr w = (case mac_addr of None \<Rightarrow> Some (0, w) | Some mac \<Rightarrow>
     if sim = NULL \<or> cache = NULL \<or> target_ip = 0 then Some (0, w)
     else flush_slots sim cache target_ip mac [0..<ARP_MAX_PENDING_PACKETS] 0 w)"

section \<open>Requests and replies\<close>

definition arp_send_request :: "addr \<Rightarrow> addr \<Rightarrow> u32 \<Rightarrow> 'a arp_world_scheme \<Rightarrow> (int \<times> 'a arp_world_scheme) option" where
  "arp_send_request sim iface target_ip w =
     (if sim = NULL \<or> iface = NULL \<or> target_ip = 0 then Some (- 1, w)
      else do {
        let (pkt, w) = packet_create 28 w;
        let (arp_pkt, w) = alloc w;
        if pkt = NULL \<or> arp_pkt = NULL then do { w \<leftarrow> packet_free pkt w; Some (- 1, w) }
        else do {
          i \<leftarrow> iface_at iface w;
          (_, w) \<leftarrow> packet_prepend pkt (ArpPacket ARP_OPCODE_REQUEST (if_mac i) (if_ip_addr i) (replicate 6 0) target_ip) w;
          (res, w) \<leftarrow> ethernet_send sim iface (Some ETH_BROADCAST) ETHERTYPE_ARP pkt w;
          Some (if 0 \<le> res then 0 else - 1, w)
        }
      })"

definition arp_send_reply :: "addr \<Rightarrow> addr \<Rightarrow> addr \<Rightarrow> 'a arp_world_scheme \<Rightarrow> (int \<times> 'a arp_world_scheme) option" where
  "arp_send_reply sim iface req_pkt w =
     (if sim = NULL \<or> iface = NULL \<or> req_pkt = NULL then Some (- 1, w)
      else do {
        q \<leftarrow> pkt_at req_pkt w;
        if packet_validate_view (Some q) 0 28 \<noteq> 0 then Some (- 1, w)
        else do {
          req \<leftarrow> pkt_read q 0 28;
          let dst_mac = arp_sender_mac req;
          let dst_ip = arp_sender_ip req;
          let (reply_pkt, w) = packet_create 28 w;
          let (arp_pkt, w) = alloc w;
          if reply_pkt = NULL \<or> arp_pkt = NULL then do { w \<leftarrow> packet_free reply_pkt w; Some (- 1, w) }
          else do {
            i \<leftarrow> iface_at iface w;
            (_, w) \<leftarrow> packet_prepend reply_pkt (ArpPacket ARP_OPCODE_REPLY (if_mac i) (if_ip_addr i) dst_mac dst_ip) w;
            (res, w) \<leftarrow> ethernet_send sim iface (Some dst_mac) ETHERTYPE_ARP reply_pkt w;
            Some (if 0 \<le> res then 0 else - 1, w)
          }
        }
      })"

section \<open>Handlers\<close>

text \<open>What both handlers do with the sender of a packet: cache its address and send what waited for it.\<close>

definition learn_sender :: "addr \<Rightarrow> addr \<Rightarrow> bytes \<Rightarrow> u64 \<Rightarrow> 'a arp_world_scheme \<Rightarrow> 'a arp_world_scheme option" where
  "learn_sender sim iface arp_pkt timestamp w = do {
     i \<leftarrow> iface_at iface w;
     if if_arp_cache i = NULL then Some w
     else do {
       let sender_ip = ns_ntohl (arp_sender_ip arp_pkt);
       c \<leftarrow> cache_at (if_arp_cache i) w;
       c \<leftarrow> arp_cache_add (Some c) sender_ip (arp_sender_mac arp_pkt) timestamp;
       (_, w) \<leftarrow> arp_pending_flush sim (if_arp_cache i) sender_ip (Some (arp_sender_mac arp_pkt))
         (cache_put (if_arp_cache i) c w);
       Some w
     }
   }"

definition arp_request_handler :: "Event \<Rightarrow> vptr \<Rightarrow> 'a arp_world_scheme \<Rightarrow> 'a arp_world_scheme option" where
  "arp_request_handler e ctx w = do {
     sim \<leftarrow> as_sim ctx;
     iface \<leftarrow> as_iface (evt_dst_device e);
     let pkt = evt_packet e;
     if iface = NULL \<or> pkt = NULL then Some w
     else do {
       p \<leftarrow> pkt_at pkt w;
       if packet_validate_view (Some p) 0 28 \<noteq> 0
       then iface_upd iface (\<lambda>i. i\<lparr>if_rx_errors := if_rx_errors i + 1\<rparr>) w
       else do {
         arp_pkt \<leftarrow> pkt_read p 0 28;
         if ns_ntohs (arp_opcode arp_pkt) \<noteq> ARP_OPCODE_REQUEST then Some w
         else do {
           i \<leftarrow> iface_at iface w;
           if ns_ntohl (arp_target_ip arp_pkt) \<noteq> ns_ntohl (if_ip_addr i) then Some w
           else do {
             (result, w) \<leftarrow> arp_send_reply sim iface pkt w;
             q \<leftarrow> pkt_at pkt w;
             arp_pkt \<leftarrow> read_at (pkt_head q) (pkt_data p) 28;
             w \<leftarrow> learn_sender sim iface arp_pkt (evt_timestamp e) w;
             iface_upd iface (\<lambda>i. if result = 0 then i\<lparr>if_last_tx_time := evt_timestamp e\<rparr>
               else i\<lparr>if_tx_errors := if_tx_errors i + 1, if_last_error_time := evt_timestamp e\<rparr>) w
           }
         }
       }
     }
   }"

definition arp_reply_handler :: "Event \<Rightarrow> vptr \<Rightarrow> 'a arp_world_scheme \<Rightarrow> 'a arp_world_scheme option" where
  "arp_reply_handler e ctx w = do {
     sim \<leftarrow> as_sim ctx;
     iface \<leftarrow> as_iface (evt_dst_device e);
     let pkt = evt_packet e;
     if iface = NULL \<or> pkt = NULL then Some w
     else do {
       p \<leftarrow> pkt_at pkt w;
       if packet_validate_view (Some p) 0 28 \<noteq> 0
       then iface_upd iface (\<lambda>i. i\<lparr>if_rx_errors := if_rx_errors i + 1\<rparr>) w
       else do {
         arp_pkt \<leftarrow> pkt_read p 0 28;
         if ns_ntohs (arp_opcode arp_pkt) \<noteq> ARP_OPCODE_REPLY then Some w
         else do {
           w \<leftarrow> learn_sender sim iface arp_pkt (evt_timestamp e) w;
           iface_upd iface (\<lambda>i. i\<lparr>if_last_rx_time := evt_timestamp e\<rparr>) w
         }
       }
     }
   }"

definition arp_init :: "addr \<Rightarrow> 'a arp_world_scheme \<Rightarrow> 'a arp_world_scheme option" where
  "arp_init sim w =
     (if sim = NULL then Some w
      else do {
        m \<leftarrow> sim_at sim w;
        w \<leftarrow> scheduler_register (sim_sched m) EVT_ARP_REQUEST Cb_arp_request_handler (VSim sim) w;
        scheduler_register (sim_sched m) EVT_ARP_REPLY Cb_arp_reply_handler (VSim sim) w
      })"

section \<open>Requests are safe\<close>

text \<open>A step of a well-formed network that leaves the live packets outside a set unchanged.\<close>

definition safe_step :: "addr \<Rightarrow> addr set \<Rightarrow> 'a sim_world_scheme \<Rightarrow> 'a sim_world_scheme \<Rightarrow> bool" where
  "safe_step sim X w w' \<longleftrightarrow> net_wf sim w' \<and> net_frame w w' \<and>
     (\<forall>a. a \<notin> X \<longrightarrow> pkt_at a w \<noteq> None \<longrightarrow> pkt_at a w' = pkt_at a w)"

lemma safe_step_refl: "net_wf sim w \<Longrightarrow> safe_step sim X w w"
  by (simp add: safe_step_def)

lemma safe_step_trans: "safe_step sim X u v \<Longrightarrow> safe_step sim X v w \<Longrightarrow> safe_step sim X u w"
  unfolding safe_step_def by (metis net_frame_trans)

lemma safe_step_mono: "safe_step sim X w w' \<Longrightarrow> X \<subseteq> Y \<Longrightarrow> safe_step sim Y w w'"
  unfolding safe_step_def by blast

lemma safe_step_fresh:
  assumes "safe_step sim (insert a X) w w'" "pkt_at a w = None"
  shows "safe_step sim X w w'"
  using assms unfolding safe_step_def by (metis insertE)

lemma safe_step_pkts:
  assumes "net_wf sim w" "pkt_frame w w'" "heap_wf w'"
    "\<And>a. a \<notin> X \<Longrightarrow> pkt_at a w \<noteq> None \<Longrightarrow> pkt_at a w' = pkt_at a w"
  shows "safe_step sim X w w'"
  using assms net_wf_pkt [OF assms(1-3)] net_frame_pkt [OF assms(2)] by (simp add: safe_step_def)

lemma safe_step_create:
  assumes "net_wf sim w" "packet_create n w = (a, w')"
  shows "safe_step sim {} w w'" "a \<noteq> NULL \<Longrightarrow> pkt_at a w = None"
proof -
  have h: "heap_wf w" using assms(1) by (simp add: net_wf_def)
  note ph = packet_create_heap [OF assms(2) h]
  have "pkt_at b w' = pkt_at b w" if "pkt_at b w \<noteq> None" for b
    by (rule ph(2)) (metis that ph(3) pkt_at_def)
  then show "safe_step sim {} w w'" by (intro safe_step_pkts [OF assms(1) packet_create_frame [OF assms(2)] ph(1)])
  show "a \<noteq> NULL \<Longrightarrow> pkt_at a w = None" using ph by auto
qed

lemma safe_step_alloc: "net_wf sim w \<Longrightarrow> alloc w = (a, w') \<Longrightarrow> safe_step sim {} w w'"
  using alloc_heap [of w a w'] by (intro safe_step_pkts alloc_frame) (auto simp: net_wf_def)

lemma safe_step_put:
  assumes "net_wf sim w" "pkt_at a w \<noteq> None" "pkt_wf p"
  shows "safe_step sim {a} w (pkt_put a p w)"
  using assms heap_wf_put [of w a p] pkt_at_nonnull [of a w] by (intro safe_step_pkts) (auto simp: net_wf_def)

lemma safe_step_free:
  assumes "net_wf sim w" "pkt_at a w \<noteq> None"
  obtains w' where "packet_free a w = Some w'" "safe_step sim {a} w w'"
  using free_safe [OF assms] by (auto simp: safe_step_def)

lemma safe_step_send:
  assumes "net_wf sim w" "iface_at iface w \<noteq> None" "pkt_at pkt w \<noteq> None"
  obtains r w' where "ethernet_send sim iface (Some mac) ty pkt w = Some (r, w')" "r \<in> {1, - 1}" "safe_step sim {pkt} w w'"
    "pkt_at pkt w' \<noteq> None"
  using ethernet_send_total [OF assms, of mac ty] by (auto simp: sent_safely_def safe_step_def)

lemma safe_step_clone:
  assumes "net_wf sim w" "pkt_at a w \<noteq> None"
  obtains c w' where "packet_clone a w = Some (c, w')" "safe_step sim {} w w'"
    "c \<noteq> NULL \<longrightarrow> pkt_at c w = None \<and> pkt_at c w' \<noteq> None"
proof -
  obtain p where p: "pkt_at a w = Some p" using assms(2) by auto
  have h: "heap_wf w" using assms(1) by (simp add: net_wf_def)
  obtain c w' where c: "packet_clone a w = Some (c, w')" "heap_wf w'" "\<And>b. b \<noteq> c \<Longrightarrow> pkt_at b w' = pkt_at b w"
    "c \<noteq> NULL \<longrightarrow> pkt_at c w = None \<and> pkt_at c w' \<noteq> None"
    by (rule packet_clone_heap [OF p h]) blast
  have "pkt_at b w' = pkt_at b w" if "pkt_at b w \<noteq> None" for b
    by (rule c(3)) (metis that c(4) pkt_at_def)
  then have "safe_step sim {} w w'" by (intro safe_step_pkts [OF assms(1) packet_clone_frame [OF c(1)] c(2)])
  with that c(1,4) show thesis by blast
qed

lemma safe_step_count:
  assumes "net_wf sim w" "iface_at a w \<noteq> None" "\<And>i. iface_core (f i) = iface_core i"
  obtains w' where "iface_upd a f w = Some w'" "safe_step sim {} w w'" "\<And>b. pkt_at b w' = pkt_at b w"
proof -
  obtain i where i: "iface_at a w = Some i" using assms(2) by auto
  have "safe_step sim {} w (iface_put a (f i) w)"
    using net_wf_iface [OF assms(1) i assms(3)] net_frame_iface [OF i assms(3)] by (simp add: safe_step_def)
  with that [of "iface_put a (f i) w"] i show thesis by (simp add: iface_upd_def)
qed

lemma safe_step_wf: "safe_step sim X w w' \<Longrightarrow> net_wf sim w'"
  by (simp add: safe_step_def)

lemma safe_step_iface: "safe_step sim X w w' \<Longrightarrow> iface_at a w \<noteq> None \<Longrightarrow> iface_at a w' \<noteq> None"
  by (metis net_frame_iface_at option.exhaust option.simps(3) safe_step_def)

lemma safe_step_pkt: "safe_step sim X w w' \<Longrightarrow> a \<notin> X \<Longrightarrow> pkt_at a w = Some p \<Longrightarrow> pkt_at a w' = Some p"
  by (simp add: safe_step_def)

lemma arp_send_request_safe:
  assumes "net_wf sim w" "iface_at iface w \<noteq> None"
  obtains r w' where "arp_send_request sim iface ip w = Some (r, w')" "r \<in> {0, - 1}" "safe_step sim {} w w'"
proof (cases "ip = 0")
  case True
  then show thesis using that [of "- 1" w] safe_step_refl [OF assms(1)] by (simp add: arp_send_request_def)
next
  case False
  have nn: "sim \<noteq> NULL" "iface \<noteq> NULL"
    using assms by (auto simp: net_wf_def sim_ready_def dest: sim_at_nonnull iface_at_nonnull)
  obtain pkt w1 where c: "packet_create 28 w = (pkt, w1)" by fastforce
  obtain b w2 where al: "alloc w1 = (b, w2)" by fastforce
  note s1 = safe_step_create [OF assms(1) c]
  note s2 = safe_step_alloc [OF safe_step_wf [OF s1(1)] al]
  note s12 = safe_step_trans [OF s1(1) s2]
  note n2 = safe_step_wf [OF s12] and that' = that
  obtain i where i: "iface_at iface w2 = Some i" using safe_step_iface [OF s12 assms(2)] by auto
  show thesis
  proof (cases "pkt = NULL")
    case True
    then show thesis using that [of "- 1" w2] s12 nn False c al by (simp add: arp_send_request_def packet_free_def)
  next
    case pkt: False
    obtain p where p: "pkt_at pkt w2 = Some p" using packet_create_wf [OF c pkt] alloc_heap(2) [OF al, of pkt] by auto
    note fresh = s1(2) [OF pkt]
    have finish: thesis if "arp_send_request sim iface ip w = Some (r, w')" "r \<in> {0, - 1}" "safe_step sim {pkt} w2 w'" for r w'
      by (rule that' [OF that(1,2) safe_step_fresh [OF safe_step_trans [OF safe_step_mono [OF s12] that(3)] fresh]]) simp
    show thesis
    proof (cases "b = NULL")
      case True
      obtain w3 where "packet_free pkt w2 = Some w3" "safe_step sim {pkt} w2 w3" using safe_step_free [OF n2, of pkt] p by auto
      then show thesis using finish [of "- 1" w3] True pkt nn False c al by (simp add: arp_send_request_def)
    next
      case b: False
      have h2: "heap_wf w2" using n2 by (simp add: net_wf_def)
      obtain r p' where pp: "packet_prepend pkt (ArpPacket ARP_OPCODE_REQUEST (if_mac i) (if_ip_addr i) (replicate 6 0) ip) w2 =
          Some (r, pkt_put pkt p' w2)" "pkt_wf p'" by (rule packet_prepend_heap [OF p h2])
      have s3: "safe_step sim {pkt} w2 (pkt_put pkt p' w2)" by (rule safe_step_put [OF n2 _ pp(2)]) (simp add: p)
      obtain r w4 where s: "ethernet_send sim iface (Some ETH_BROADCAST) ETHERTYPE_ARP pkt (pkt_put pkt p' w2) = Some (r, w4)"
        "safe_step sim {pkt} (pkt_put pkt p' w2) w4"
        by (rule safe_step_send [OF safe_step_wf [OF s3], of iface pkt]) (use i pkt in simp_all)
      show thesis by (rule finish [of "if 0 \<le> r then 0 else - 1" w4, OF _ _ safe_step_trans [OF s3 s(2)]])
        (use c al nn False pkt b i pp(1) s(1) in \<open>simp_all add: arp_send_request_def\<close>)
    qed
  qed
qed

section \<open>Flushing\<close>

text \<open>The heaps under a cache update, and caches under sending.\<close>

lemma cache_put_frames [simp]:
  "pkt_at a (cache_put b c w) = pkt_at a w" "iface_at a (cache_put b c w) = iface_at a w"
  "sim_at a (cache_put b c w) = sim_at a w" "sched_at a (cache_put b c w) = sched_at a w"
  "link_at a (cache_put b c w) = link_at a w" "w_mem (cache_put b c w) = w_mem w"
  by (simp_all add: pkt_at_def iface_at_def sim_at_def sched_at_def link_at_def cache_put_def)

lemma cache_at_put [simp]: "a \<noteq> NULL \<Longrightarrow> cache_at b (cache_put a c w) = (if b = a then Some c else cache_at b w)"
  by (simp add: cache_at_def cache_put_def)

lemma net_wf_cache_put [simp]: "net_wf sim (cache_put a c w) = net_wf sim w"
  by (simp add: net_wf_def heap_wf_def sim_ready_def attached_def)

lemma net_frame_cache: "net_frame w w' \<Longrightarrow> cache_at a w' = cache_at a w"
  by (cases w; cases w') (simp add: net_frame_def cache_at_def)

lemma cache_at_nonnull: "cache_at a w = Some c \<Longrightarrow> a \<noteq> NULL"
  by (simp add: cache_at_def split: if_splits)

text \<open>The interfaces are the same up to their counters.\<close>

definition same_ifaces :: "'a iface_world_scheme \<Rightarrow> 'b iface_world_scheme \<Rightarrow> bool" where
  "same_ifaces w w' \<longleftrightarrow> (\<forall>a. map_option iface_core (iface_at a w') = map_option iface_core (iface_at a w))"

lemma same_ifaces_refl [simp]: "same_ifaces w w"
  by (simp add: same_ifaces_def)

lemma same_ifaces_trans: "same_ifaces u v \<Longrightarrow> same_ifaces v w \<Longrightarrow> same_ifaces u w"
  by (simp add: same_ifaces_def)

lemma same_ifaces_net_frame: "net_frame w w' \<Longrightarrow> same_ifaces w w'"
  by (simp add: net_frame_def same_ifaces_def)

lemma same_ifaces_cache_put: "same_ifaces (cache_put a c w) w' = same_ifaces w w'"
  by (simp add: same_ifaces_def)

lemma same_ifaces_at:
  assumes "same_ifaces w w'" "iface_at a w = Some i"
  obtains i' where "iface_at a w' = Some i'" "iface_core i' = iface_core i"
  using assms by (auto simp: same_ifaces_def dest!: spec [of _ a])

text \<open>The packets that wait are live and wait once, on live interfaces.\<close>

definition pending_ok :: "'a arp_world_scheme \<Rightarrow> ArpCache \<Rightarrow> bool" where
  "pending_ok w c \<longleftrightarrow> (\<forall>i < length (ac_pending c). pp_valid (ac_pending c ! i) \<noteq> 0 \<longrightarrow>
     iface_at (pp_iface (ac_pending c ! i)) w \<noteq> None \<and> pkt_at (pp_packet (ac_pending c ! i)) w \<noteq> None \<and>
     (\<forall>j < length (ac_pending c). j \<noteq> i \<longrightarrow> pp_valid (ac_pending c ! j) \<noteq> 0 \<longrightarrow>
        pp_packet (ac_pending c ! j) \<noteq> pp_packet (ac_pending c ! i)))"

definition waits_for :: "u32 \<Rightarrow> ArpPendingPacket \<Rightarrow> bool" where
  "waits_for ip p \<longleftrightarrow> pp_valid p \<noteq> 0 \<and> pp_target_ip p = ip"

definition released :: "u32 \<Rightarrow> ArpPendingPacket \<Rightarrow> ArpPendingPacket" where
  "released ip p = (if waits_for ip p then p\<lparr>pp_valid := 0, pp_packet := NULL, pp_iface := NULL\<rparr> else p)"

definition release_slot :: "u32 \<Rightarrow> nat \<Rightarrow> ArpCache \<Rightarrow> ArpCache" where
  "release_slot ip i c = c\<lparr>ac_pending := (ac_pending c)[i := released ip (ac_pending c ! i)],
     ac_pending_count := ac_pending_count c - (if waits_for ip (ac_pending c ! i) then 1 else 0)\<rparr>"

lemma release_slot_wf:
  assumes "arp_cache_wf c" "i < length (ac_pending c)"
  shows "arp_cache_wf (release_slot ip i c)" "waits_for ip (ac_pending c ! i) \<Longrightarrow> 0 < ac_pending_count c"
proof -
  let ?f = "\<lambda>p. pp_valid p \<noteq> (0 :: int)"
  let ?ps = "(ac_pending c)[i := released ip (ac_pending c ! i)]"
  have n: "int (length (filter ?f ?ps)) = int (length (filter ?f (ac_pending c))) -
      (if waits_for ip (ac_pending c ! i) then 1 else 0)"
    using length_filter_update [OF assms(2), of ?f "released ip (ac_pending c ! i)"]
    by (auto simp: released_def waits_for_def)
  have "set ?ps \<subseteq> insert (released ip (ac_pending c ! i)) (set (ac_pending c))" by (rule set_update_subset_insert)
  moreover have "ac_pending c ! i \<in> set (ac_pending c)" using assms(2) by simp
  ultimately have ok: "\<forall>p \<in> set ?ps. pp_valid p \<in> {0, 1} \<and>
      (pp_valid p = 1 \<longrightarrow> pp_target_ip p \<noteq> 0 \<and> pp_iface p \<noteq> NULL \<and> pp_packet p \<noteq> NULL)"
    using assms(1) unfolding arp_cache_wf_def released_def by (auto split: if_splits)
  show "arp_cache_wf (release_slot ip i c)" using assms(1) ok n unfolding arp_cache_wf_def release_slot_def by simp
  show "0 < ac_pending_count c" if "waits_for ip (ac_pending c ! i)"
  proof -
    have "ac_pending_count c = int (length (filter ?f (ac_pending c)))" using assms(1) by (simp add: arp_cache_wf_def)
    moreover have "filter ?f (ac_pending c) \<noteq> []"
      using that nth_mem [OF assms(2)] by (auto simp: filter_empty_conv waits_for_def)
    ultimately show ?thesis by simp
  qed
qed

lemma pending_ok_frame:
  assumes "pending_ok w c" "\<And>a. iface_at a w \<noteq> None \<Longrightarrow> iface_at a w' \<noteq> None"
    and "\<And>j. j < length (ac_pending c) \<Longrightarrow> j \<noteq> i \<Longrightarrow> pp_valid (ac_pending c ! j) \<noteq> 0 \<Longrightarrow>
      pkt_at (pp_packet (ac_pending c ! j)) w' \<noteq> None"
    and "pp_valid (ac_pending c' ! i) = 0" "ac_pending c' = (ac_pending c)[i := x]"
  shows "pending_ok w' c'"
proof -
  have "pp_valid (ac_pending c' ! j) \<noteq> 0 \<Longrightarrow> j \<noteq> i \<and> ac_pending c' ! j = ac_pending c ! j" for j
    using assms(4,5) by (cases "j = i") auto
  then show ?thesis using assms(1,2,3) unfolding pending_ok_def by (metis assms(5) length_list_update)
qed

lemma flush_slot_safe:
  assumes "net_wf sim w" "cache_at cache w = Some c" "arp_cache_wf c" "pending_ok w c" "i < length (ac_pending c)"
  shows "\<exists>sent' w'. flush_slot sim cache ip mac i sent w = Some (sent', w') \<and> net_wf sim w' \<and>
    cache_at cache w' = Some (release_slot ip i c) \<and> pending_ok w' (release_slot ip i c) \<and>
    same_ifaces w w' \<and> sent \<le> sent' \<and> sent' \<le> sent + (if waits_for ip (ac_pending c ! i) then 1 else 0)"
proof (cases "waits_for ip (ac_pending c ! i)")
  case False
  then have "release_slot ip i c = c" by (simp add: release_slot_def released_def)
  then show ?thesis using assms False by (auto simp: flush_slot_def waits_for_def)
next
  case True
  let ?p = "ac_pending c ! i" and ?c = "release_slot ip i c"
  note cnn = cache_at_nonnull [OF assms(2)]
  have v: "pp_valid ?p \<noteq> 0" "pp_target_ip ?p = ip" using True by (auto simp: waits_for_def)
  with assms(4,5) have live: "iface_at (pp_iface ?p) w \<noteq> None" "pkt_at (pp_packet ?p) w \<noteq> None"
    and alone: "\<And>j. j < length (ac_pending c) \<Longrightarrow> j \<noteq> i \<Longrightarrow> pp_valid (ac_pending c ! j) \<noteq> 0 \<Longrightarrow>
      pkt_at (pp_packet (ac_pending c ! j)) w \<noteq> None \<and> pp_packet (ac_pending c ! j) \<noteq> pp_packet ?p"
    unfolding pending_ok_def by blast+
  then have nn: "pp_iface ?p \<noteq> NULL" "pp_packet ?p \<noteq> NULL" by (auto dest: iface_at_nonnull pkt_at_nonnull)
  let ?w = "cache_put cache ?c w"
  have rs: "c\<lparr>ac_pending := (ac_pending c)[i := ?p\<lparr>pp_valid := 0, pp_packet := NULL, pp_iface := NULL\<rparr>],
      ac_pending_count := (if 0 < ac_pending_count c then ac_pending_count c - 1 else ac_pending_count c)\<rparr> = ?c"
    using release_slot_wf(2) [OF assms(3,5) True] True by (simp add: release_slot_def released_def)
  have "sent_safely sim (pp_packet ?p) ?w (ethernet_send sim (pp_iface ?p) (Some mac) (pp_ethertype ?p) (pp_packet ?p) ?w)"
    by (rule ethernet_send_total) (use assms(1) live in simp_all)
  then obtain r w1 where s: "ethernet_send sim (pp_iface ?p) (Some mac) (pp_ethertype ?p) (pp_packet ?p) ?w = Some (r, w1)"
    "r \<in> {1, - 1}" "net_wf sim w1" "net_frame ?w w1" "pkt_at (pp_packet ?p) w1 \<noteq> None"
    "\<forall>a. a \<noteq> pp_packet ?p \<longrightarrow> pkt_at a ?w \<noteq> None \<longrightarrow> pkt_at a w1 = pkt_at a ?w"
    unfolding sent_safely_def by blast
  from free_safe [OF s(3,5)] obtain w2 where f: "packet_free (pp_packet ?p) w1 = Some w2" "net_wf sim w2" "net_frame w1 w2"
    "\<forall>a. a \<noteq> pp_packet ?p \<longrightarrow> pkt_at a w2 = pkt_at a w1" by blast
  have pv: "pp_valid (ac_pending ?c ! i) = 0" "ac_pending ?c = (ac_pending c)[i := released ip ?p]"
    using True assms(5) by (simp_all add: release_slot_def released_def)
  have ok: "pending_ok w' ?c" if "net_frame ?w w'" "\<And>a. a \<noteq> pp_packet ?p \<Longrightarrow> pkt_at a w \<noteq> None \<Longrightarrow> pkt_at a w' \<noteq> None" for w'
    by (rule pending_ok_frame [OF assms(4) _ _ pv]) (use that alone in \<open>auto elim!: net_frame_iface_at\<close>)
  have at: "cache_at cache w' = Some ?c \<and> same_ifaces w w'" if "net_frame ?w w'" for w'
    using net_frame_cache [OF that] same_ifaces_net_frame [OF that] cnn by (simp add: same_ifaces_cache_put)
  show ?thesis
  proof (cases "r = 1")
    case True
    then show ?thesis using assms(2,5) v nn s ok [OF s(4)] at [OF s(4)] \<open>waits_for ip ?p\<close>
      by (auto simp: flush_slot_def rs)
  next
    case False
    note fr = net_frame_trans [OF s(4) f(3)]
    have "pending_ok w2 ?c" by (rule ok [OF fr]) (use s(6) f(4) in auto)
    then show ?thesis using assms(2,5) v nn s(1,2) f(1,2) False at [OF fr] \<open>waits_for ip ?p\<close>
      by (auto simp: flush_slot_def rs)
  qed
qed

lemma flush_slots_safe:
  assumes "net_wf sim w" "cache_at cache w = Some c" "arp_cache_wf c" "pending_ok w c"
    "\<forall>i \<in> set ks. i < length (ac_pending c)"
  shows "\<exists>sent' w'. flush_slots sim cache ip mac ks sent w = Some (sent', w') \<and> net_wf sim w' \<and>
    cache_at cache w' = Some (fold (release_slot ip) ks c) \<and> pending_ok w' (fold (release_slot ip) ks c) \<and>
    same_ifaces w w' \<and> sent \<le> sent' \<and> sent' \<le> sent + int (length ks)"
  using assms
proof (induction ks arbitrary: sent w c)
  case (Cons i ks)
  obtain s1 w1 where 1: "flush_slot sim cache ip mac i sent w = Some (s1, w1)" "net_wf sim w1"
    "cache_at cache w1 = Some (release_slot ip i c)" "pending_ok w1 (release_slot ip i c)" "sent \<le> s1" "s1 \<le> sent + 1"
    "same_ifaces w w1"
    using flush_slot_safe [OF Cons.prems(1-4), of i ip mac sent] Cons.prems(5) by (auto split: if_splits)
  have "\<forall>j \<in> set ks. j < length (ac_pending (release_slot ip i c))" using Cons.prems(5) by (simp add: release_slot_def)
  then obtain s2 w2 where "flush_slots sim cache ip mac ks s1 w1 = Some (s2, w2)" "net_wf sim w2"
    "cache_at cache w2 = Some (fold (release_slot ip) ks (release_slot ip i c))"
    "pending_ok w2 (fold (release_slot ip) ks (release_slot ip i c))" "same_ifaces w1 w2" "s1 \<le> s2" "s2 \<le> s1 + int (length ks)"
    using Cons.IH [OF 1(2,3) release_slot_wf(1) 1(4), of s1] Cons.prems(3,5) by force
  then show ?case using 1 same_ifaces_trans [OF 1(7)] by auto
qed simp

lemma release_slots:
  assumes "arp_cache_wf c" "k \<le> length (ac_pending c)"
  shows "let c' = fold (release_slot ip) [0..<k] c in arp_cache_wf c' \<and>
    ac_pending c' = map (released ip) (take k (ac_pending c)) @ drop k (ac_pending c) \<and> ac_entries c' = ac_entries c"
  using assms(2)
proof (induction k)
  case 0
  then show ?case using assms(1) by simp
next
  case (Suc k)
  let ?c = "fold (release_slot ip) [0..<k] c"
  have ih: "arp_cache_wf ?c" "ac_pending ?c = map (released ip) (take k (ac_pending c)) @ drop k (ac_pending c)"
    "ac_entries ?c = ac_entries c" using Suc by (simp_all add: Let_def)
  have "ac_pending ?c ! k = ac_pending c ! k" using ih(2) Suc.prems by (simp add: nth_append min_absorb1)
  moreover have "drop k (ac_pending c) = ac_pending c ! k # drop (Suc k) (ac_pending c)"
    using Suc.prems by (simp add: Cons_nth_drop_Suc)
  ultimately have "ac_pending (release_slot ip k ?c) =
      map (released ip) (take (Suc k) (ac_pending c)) @ drop (Suc k) (ac_pending c)"
    using ih(2) Suc.prems by (simp add: release_slot_def list_update_append min_absorb1 take_Suc_conv_app_nth)
  moreover have "k < length (ac_pending ?c)" using ih(2) Suc.prems by simp
  moreover have "ac_entries (release_slot ip k ?c) = ac_entries ?c" by (simp add: release_slot_def)
  ultimately show ?case using release_slot_wf(1) [OF ih(1), of k ip] ih(3) by simp
qed

lemma arp_pending_flush_outcome:
  assumes "net_wf sim w" "cache_at cache w = Some c" "arp_cache_wf c" "pending_ok w c" "ip \<noteq> 0"
  shows "\<exists>n w' c'. arp_pending_flush sim cache ip (Some mac) w = Some (n, w') \<and> net_wf sim w' \<and>
    cache_at cache w' = Some c' \<and> arp_cache_wf c' \<and> pending_ok w' c' \<and>
    ac_pending c' = map (released ip) (ac_pending c) \<and> ac_entries c' = ac_entries c \<and> 0 \<le> n \<and> n \<le> 32 \<and> same_ifaces w w'"
proof -
  have len: "length (ac_pending c) = 32" using assms(3) by (simp add: arp_cache_wf_def ARP_MAX_PENDING_PACKETS_def)
  have nn: "sim \<noteq> NULL" "cache \<noteq> NULL"
    using assms(1,2) by (auto simp: net_wf_def sim_ready_def dest: sim_at_nonnull cache_at_nonnull)
  let ?c = "fold (release_slot ip) [0..<32] c"
  obtain n w' where f: "flush_slots sim cache ip mac [0..<32] 0 w = Some (n, w')" "net_wf sim w'"
    "cache_at cache w' = Some ?c" "pending_ok w' ?c" "0 \<le> n" "n \<le> 32" "same_ifaces w w'"
    using flush_slots_safe [OF assms(1-4), of "[0..<32]" ip mac 0] len by auto
  have "arp_cache_wf ?c \<and> ac_pending ?c = map (released ip) (ac_pending c) \<and> ac_entries ?c = ac_entries c"
    using release_slots [OF assms(3), of 32 ip] len by (simp add: Let_def)
  then show ?thesis using f nn assms(5)
    by (intro exI [of _ n] exI [of _ w'] exI [of _ ?c]) (simp add: arp_pending_flush_def ARP_MAX_PENDING_PACKETS_def)
qed

text \<open>\<open>arp_pending_flush\<close> in a well-formed network, on a well-formed cache whose waiting packets are live, never
  faults: every slot that waited for the address is released, every other slot and every mapping is unchanged, the
  number of packets sent is returned, and cache, waiting packets and network stay well formed.\<close>

theorem arp_pending_flush_correct:
  assumes "net_wf sim w" "cache_at cache w = Some c" "arp_cache_wf c" "pending_ok w c" "ip \<noteq> 0"
  shows "\<exists>n w' c'. arp_pending_flush sim cache ip (Some mac) w = Some (n, w') \<and> net_wf sim w' \<and>
    cache_at cache w' = Some c' \<and> arp_cache_wf c' \<and> pending_ok w' c' \<and>
    ac_pending c' = map (released ip) (ac_pending c) \<and> ac_entries c' = ac_entries c \<and> 0 \<le> n \<and> n \<le> 32"
  using arp_pending_flush_outcome [OF assms, of mac] by blast

section \<open>Wire format\<close>

text \<open>What the sender put into an ARP packet is what the receiver reads.\<close>

lemma arp_packet_fields:
  assumes "length sm = 6" "length tm = 6"
  shows "length (ArpPacket op sm sip tm tip) = 28" "ns_ntohs (arp_opcode (ArpPacket op sm sip tm tip)) = op"
    "arp_sender_mac (ArpPacket op sm sip tm tip) = sm" "arp_sender_ip (ArpPacket op sm sip tm tip) = sip"
    "arp_target_ip (ArpPacket op sm sip tm tip) = tip"
proof -
  let ?h = "put16 (ns_htons HARDWARE_TYPE_ETHERNET) @ put16 (ns_htons PROTOCOL_TYPE_IPV4) @ [HARDWARE_ADDR_LEN, PROTOCOL_ADDR_LEN]"
  let ?o = "put16 (ns_htons op)"
  have p: "ArpPacket op sm sip tm tip = ?h @ ?o @ sm @ put32 sip @ tm @ put32 tip"
    using assms by (simp add: ArpPacket_def)
  show "length (ArpPacket op sm sip tm tip) = 28" using assms by (simp add: p)
  have "get16 (?h @ ?o @ sm @ put32 sip @ tm @ put32 tip) (length ?h + 0) = get16 (?o @ sm @ put32 sip @ tm @ put32 tip) 0"
    by (rule get16_shift)
  then show "ns_ntohs (arp_opcode (ArpPacket op sm sip tm tip)) = op"
    by (simp add: arp_opcode_def p get16_append get16_put16)
  show "arp_sender_mac (ArpPacket op sm sip tm tip) = sm" using assms by (simp add: arp_sender_mac_def p)
  have "get32 ((?h @ ?o @ sm) @ put32 sip @ tm @ put32 tip) (length (?h @ ?o @ sm) + 0) = get32 (put32 sip @ tm @ put32 tip) 0"
    by (rule get32_shift)
  then show "arp_sender_ip (ArpPacket op sm sip tm tip) = sip"
    using assms by (simp add: arp_sender_ip_def p get32_append get32_put32)
  have "get32 ((?h @ ?o @ sm @ put32 sip @ tm) @ put32 tip) (length (?h @ ?o @ sm @ put32 sip @ tm) + 0) = get32 (put32 tip) 0"
    by (rule get32_shift)
  then show "arp_target_ip (ArpPacket op sm sip tm tip) = tip"
    using assms by (simp add: arp_target_ip_def p get32_put32)
qed

section \<open>Learning\<close>

lemma arp_cache_add_pending: "arp_cache_add (Some c) ip mac ts = Some c' \<Longrightarrow> ac_pending c' = ac_pending c"
  by (auto simp: arp_cache_add_def split: if_splits option.splits)

lemma waits_released: "waits_for ip (released jp p) \<longleftrightarrow> waits_for ip p \<and> jp \<noteq> ip"
  by (auto simp: waits_for_def released_def)

text \<open>A cache of an interface in a network: well formed, with live waiting packets.\<close>

definition cache_ready :: "addr \<Rightarrow> addr \<Rightarrow> 'a arp_world_scheme \<Rightarrow> ArpCache \<Rightarrow> bool" where
  "cache_ready sim iface w c \<longleftrightarrow> net_wf sim w \<and> (\<exists>i. iface_at iface w = Some i \<and> cache_at (if_arp_cache i) w = Some c) \<and>
     arp_cache_wf c \<and> pending_ok w c"

lemma learn_sender_outcome:
  assumes "cache_ready sim iface w c" "iface_at iface w = Some i"
    and "length (arp_sender_mac b) = 6" "ns_ntohl (arp_sender_ip b) = ip" "ip \<noteq> 0"
    and room: "arp_map c ip \<noteq> None \<or> ac_count c < int ARP_MAX_CACHE_SIZE"
  shows "\<exists>w' c'. learn_sender sim iface b ts w = Some w' \<and> net_wf sim w' \<and> cache_at (if_arp_cache i) w' = Some c' \<and>
    arp_cache_wf c' \<and> pending_ok w' c' \<and> arp_map c' = (arp_map c)(ip \<mapsto> (arp_sender_mac b, ts)) \<and>
    ac_pending c' = map (released ip) (ac_pending c) \<and> same_ifaces w w'"
proof -
  let ?m = "arp_sender_mac b" and ?a = "if_arp_cache i"
  have r: "net_wf sim w" "cache_at ?a w = Some c" "arp_cache_wf c" "pending_ok w c"
    using assms(1,2) by (auto simp: cache_ready_def)
  note ann = cache_at_nonnull [OF r(2)]
  obtain c1 where c1: "arp_cache_add (Some c) ip ?m ts = Some c1" "arp_cache_wf c1" "arp_map c1 = (arp_map c)(ip \<mapsto> (?m, ts))"
    by (rule arp_add_cases [OF r(3) assms(3,5), of ts]) (use room in auto)
  have p1: "ac_pending c1 = ac_pending c" by (rule arp_cache_add_pending [OF c1(1)])
  let ?w = "cache_put ?a c1 w"
  have w1: "net_wf sim ?w" "cache_at ?a ?w = Some c1" "pending_ok ?w c1"
    using r ann p1 by (simp_all add: pending_ok_def)
  from arp_pending_flush_outcome [OF w1(1,2) c1(2) w1(3) assms(5), of ?m] obtain n w' c' where f:
    "arp_pending_flush sim ?a ip (Some ?m) ?w = Some (n, w')" "net_wf sim w'" "cache_at ?a w' = Some c'" "arp_cache_wf c'"
    "pending_ok w' c'" "ac_pending c' = map (released ip) (ac_pending c1)" "ac_entries c' = ac_entries c1" "same_ifaces ?w w'" by blast
  have "arp_map c' = arp_map c1" using f(7) by (auto simp: arp_map_def)
  then show ?thesis using f c1 p1 r(2) assms(2,4) ann by (simp add: learn_sender_def same_ifaces_cache_put)
qed

text \<open>C32. Address resolution completes: when the event of an ARP reply reaches an interface whose cache knows the
  sender or has room, the handler returns without a fault, the sender's address resolves to the sender's MAC address
  and to the time of the event, no packet is left waiting for it, packets that wait for others still wait, and
  network and cache stay well formed.\<close>

theorem arp_reply_resolves:
  assumes "cache_ready sim iface w c" "iface_at iface w = Some i" "evt_dst_device e = VIface iface"
    and "pkt_at (evt_packet e) w = Some p" "visible p = ArpPacket ARP_OPCODE_REPLY sm (ns_htonl ip) tm tip @ rest"
    and "length sm = 6" "length tm = 6" "ip \<noteq> 0"
    and "arp_map c ip \<noteq> None \<or> ac_count c < int ARP_MAX_CACHE_SIZE"
  shows "\<exists>w' c'. arp_reply_handler e (VSim sim) w = Some w' \<and> net_wf sim w' \<and> cache_at (if_arp_cache i) w' = Some c' \<and>
    arp_cache_wf c' \<and> pending_ok w' c' \<and> arp_map c' = (arp_map c)(ip \<mapsto> (sm, evt_timestamp e)) \<and>
    (\<forall>q \<in> set (ac_pending c'). \<not> waits_for ip q) \<and>
    (\<forall>j < 32. waits_for jp (ac_pending c' ! j) = (jp \<noteq> ip \<and> waits_for jp (ac_pending c ! j)))"
proof -
  let ?b = "ArpPacket ARP_OPCODE_REPLY sm (ns_htonl ip) tm tip" and ?a = "if_arp_cache i"
  have r: "net_wf sim w" "arp_cache_wf c" using assms(1) by (auto simp: cache_ready_def)
  note f = arp_packet_fields [OF assms(6,7), of ARP_OPCODE_REPLY "ns_htonl ip" tip]
  have wf: "pkt_wf p" using r(1) assms(4) by (auto simp: net_wf_def dest: heap_wfD)
  have len: "28 \<le> pkt_len p" using length_visible [OF wf] assms(5) f(1) by simp
  then have rd: "pkt_read p 0 28 = Some ?b" using pkt_read_within [OF wf, of 0 28] assms(5) f(1) by simp
  have vw: "packet_validate_view (Some p) 0 28 = 0" using wf len by (simp add: validate_view_wf)
  have nn: "iface \<noteq> NULL" "evt_packet e \<noteq> NULL" using assms(2,4) by (auto dest: iface_at_nonnull pkt_at_nonnull)
  obtain w1 c' where l: "learn_sender sim iface ?b (evt_timestamp e) w = Some w1" "net_wf sim w1" "cache_at ?a w1 = Some c'"
    "arp_cache_wf c'" "pending_ok w1 c'" "arp_map c' = (arp_map c)(ip \<mapsto> (sm, evt_timestamp e))"
    "ac_pending c' = map (released ip) (ac_pending c)" "same_ifaces w w1"
    using learn_sender_outcome [OF assms(1,2), of ?b ip "evt_timestamp e"] f(3,4) assms(6,8,9) by auto
  obtain i1 where i1: "iface_at iface w1 = Some i1" using same_ifaces_at [OF l(8) assms(2)] by blast
  let ?i = "i1\<lparr>if_last_rx_time := evt_timestamp e\<rparr>"
  have core: "iface_core ?i = iface_core i1" by (simp add: iface_core_def)
  have "arp_reply_handler e (VSim sim) w = Some (iface_put iface ?i w1)"
    using assms(3,4) nn vw rd f(2) l(1) i1 by (simp add: arp_reply_handler_def as_sim_def as_iface_def iface_upd_def)
  moreover have "net_wf sim (iface_put iface ?i w1)" by (rule net_wf_iface [OF l(2) i1 core])
  moreover have "cache_at ?a (iface_put iface ?i w1) = Some c'" using l(3) by (simp add: cache_at_def iface_put_def split: if_splits)
  moreover have "pending_ok (iface_put iface ?i w1) c'" using l(5) nn(1) i1 by (simp add: pending_ok_def)
  moreover have "length (ac_pending c) = 32" using r(2) by (simp add: arp_cache_wf_def ARP_MAX_PENDING_PACKETS_def)
  ultimately show ?thesis using l(4,6,7) by (auto simp: waits_released)
qed

section \<open>Instances\<close>

text \<open>The Ethernet example with a cache on the first interface, and a reply from the second one on its way.\<close>

definition demo_reply :: Packet where
  "demo_reply = \<lparr>pkt_head = replicate 64 0 @ ArpPacket ARP_OPCODE_REPLY [2, 0, 0, 0, 0, 2] (ns_htonl 0x0A000002) [2, 0, 0, 0, 0, 1] 0,
     pkt_data = 64, pkt_len = 28, pkt_capacity = 28, pkt_id = 3, pkt_trace_id = 3, pkt_parent_id = 0, pkt_layer = 3\<rparr>"

definition demo_reply_event :: Event where
  "demo_reply_event = \<lparr>evt_type = EVT_ARP_REPLY, evt_timestamp = 20, evt_sequence = 0,
     evt_src_device = VIface 3, evt_dst_device = VIface 2, evt_packet = 9, evt_data = VNull,
     evt_handler = Cb_NULL, evt_handler_ctx = VNull\<rparr>"

definition demo_arp_world :: arp_world where
  "demo_arp_world = \<lparr>w_mem = \<lparr>mem_next = 10, mem_oom = [], mem_junk = (\<lambda>_. 0)\<rparr>, w_next_id = 8,
     w_pkts = [4 \<mapsto> demo_packet, 9 \<mapsto> demo_reply], w_scheds = [5 \<mapsto> demo_sched],
     w_ifaces = [2 \<mapsto> demo_eth0\<lparr>if_arp_cache := 10\<rparr>, 3 \<mapsto> demo_eth1], w_devs = Map.empty, w_links = [6 \<mapsto> demo_cable],
     w_topos = Map.empty, w_sims = [7 \<mapsto> \<lparr>sim_topo = 8, sim_sched = 5, sim_end_time = 0\<rparr>],
     w_caches = [10 \<mapsto> demo_arp_cache]\<rparr>"

lemma demo_arp_parts:
  "sim_at 7 demo_arp_world = Some \<lparr>sim_topo = 8, sim_sched = 5, sim_end_time = 0\<rparr>"
  "iface_at 2 demo_arp_world = Some (demo_eth0\<lparr>if_arp_cache := 10\<rparr>)" "iface_at 3 demo_arp_world = Some demo_eth1"
  "link_at 6 demo_arp_world = Some demo_cable"
  "pkt_at 9 demo_arp_world = Some demo_reply" "sched_at 5 demo_arp_world = Some demo_sched"
  "mem_next (w_mem demo_arp_world) = 10" "cache_at 10 demo_arp_world = Some demo_arp_cache"
  by (simp_all add: demo_arp_world_def iface_at_def pkt_at_def link_at_def sim_at_def sched_at_def cache_at_def)

lemma demo_reply_visible: "visible demo_reply = ArpPacket ARP_OPCODE_REPLY [2, 0, 0, 0, 0, 2] (ns_htonl 0x0A000002) [2, 0, 0, 0, 0, 1] 0 @ []"
  "pkt_wf demo_reply"
  using arp_packet_fields(1) [of "[2, 0, 0, 0, 0, 2]" "[2, 0, 0, 0, 0, 1]" ARP_OPCODE_REPLY "ns_htonl 0x0A000002" 0]
  by (simp_all add: visible_def demo_reply_def pkt_wf_def PKT_HEADROOM_def SIZE_MAX_def)

lemma demo_arp_net_wf: "net_wf 7 demo_arp_world"
proof -
  have "pkt_wf p \<and> a \<le> 10" if "pkt_at a demo_arp_world = Some p" for a p
    using that demo_packet_wf demo_reply_visible(2) by (auto simp: pkt_at_def demo_arp_world_def split: if_splits)
  then have "heap_wf demo_arp_world" by (simp add: heap_wf_def demo_arp_parts)
  moreover have "sim_ready 7 demo_arp_world" using demo_sched_wf by (simp add: sim_ready_def demo_arp_parts)
  moreover have "attached demo_arp_world (demo_eth0\<lparr>if_arp_cache := 10\<rparr>)" "attached demo_arp_world demo_eth1"
    by (simp_all add: attached_def demo_arp_parts demo_eth_ifaces)
  moreover have "i = demo_eth0\<lparr>if_arp_cache := 10\<rparr> \<or> i = demo_eth1" if "iface_at a demo_arp_world = Some i" for a i
    using that by (auto simp: iface_at_def demo_arp_world_def split: if_splits)
  ultimately show ?thesis unfolding net_wf_def by metis
qed

lemma demo_cache_ready: "cache_ready 7 2 demo_arp_world demo_arp_cache" "ac_count demo_arp_cache = 0" "pending_ok demo_arp_world demo_arp_cache"
proof -
  have z: "ac_pending demo_arp_cache = replicate 32 zero_pending" "ac_count demo_arp_cache = 0"
    by (simp_all add: demo_arp_cache_def ARP_MAX_PENDING_PACKETS_def)
  then show "ac_count demo_arp_cache = 0" by simp
  show p: "pending_ok demo_arp_world demo_arp_cache" using z by (simp add: pending_ok_def zero_pending_def)
  then show "cache_ready 7 2 demo_arp_world demo_arp_cache"
    using demo_arp_net_wf arp_init_wf(2) by (simp add: cache_ready_def demo_arp_parts)
qed

lemma arp_pending_flush_correct_witness:
  "\<exists>n w c. arp_pending_flush 7 10 0x0A000002 (Some [2, 0, 0, 0, 0, 2]) demo_arp_world = Some (n, w) \<and>
     cache_at 10 w = Some c \<and> arp_cache_wf c"
  using arp_pending_flush_correct [OF demo_arp_net_wf demo_arp_parts(8) arp_init_wf(2) demo_cache_ready(3),
      of "0x0A000002" "[2, 0, 0, 0, 0, 2]"]
  by auto

lemma arp_reply_resolves_witness:
  "\<exists>w c. arp_reply_handler demo_reply_event (VSim 7) demo_arp_world = Some w \<and> cache_at 10 w = Some c \<and>
     arp_map c 0x0A000002 = Some ([2, 0, 0, 0, 0, 2], 20)"
  using arp_reply_resolves [OF demo_cache_ready(1) demo_arp_parts(2) _ _ demo_reply_visible(1), of demo_reply_event 0]
  by (auto simp: demo_reply_event_def demo_arp_parts demo_cache_ready(2) ARP_MAX_CACHE_SIZE_def)

end
