(* ===== verification/Ip.thy ===== *)
theory Ip
  imports Arp
begin

text \<open>
  IPv4 (\<open>protocols/ip.h\<close>, \<open>protocols/ip.c\<close>): the 20-byte header with its checksum, the protocol stack that
  hands a received packet to the handler registered for its protocol, and output to a neighbour through the ARP
  cache. Calling a registered protocol handler is the argument \<open>pcall\<close> of \<open>ip_receive\<close>.
\<close>

section \<open>State\<close>

datatype IpProtocolHandler =
    Ip_NULL
  | Ip_icmp_receive
  | Ip_udp_receive
  | Ip_tcp_receive
  | Ip_ospf_receive
  | Ip_extern nat

record IpProtocolEntry =
  pe_handler :: IpProtocolHandler
  pe_ctx :: vptr

record IpStack =
  st_sim :: addr
  st_protocols :: "IpProtocolEntry list"

record ip_world = arp_world +
  w_stacks :: "addr \<rightharpoonup> IpStack"

definition stack_at :: "addr \<Rightarrow> 'a ip_world_scheme \<Rightarrow> IpStack option" where
  "stack_at a w = (if a = NULL then None else w_stacks w a)"

definition stack_put :: "addr \<Rightarrow> IpStack \<Rightarrow> 'a ip_world_scheme \<Rightarrow> 'a ip_world_scheme" where
  "stack_put a s w = w\<lparr>w_stacks := (w_stacks w)(a \<mapsto> s)\<rparr>"

definition as_stack :: "vptr \<Rightarrow> addr option" where
  "as_stack v = (case v of VNull \<Rightarrow> Some NULL | VStack a \<Rightarrow> Some a | _ \<Rightarrow> None)"

definition IP_HDR_LEN :: nat where "IP_HDR_LEN = 20"
definition IP_VERSION :: u8 where "IP_VERSION = 4"
definition IPPROTO_ICMP :: u8 where "IPPROTO_ICMP = 1"
definition IPPROTO_TCP :: u8 where "IPPROTO_TCP = 6"
definition IPPROTO_UDP :: u8 where "IPPROTO_UDP = 17"
definition IPPROTO_OSPF :: u8 where "IPPROTO_OSPF = 89"
definition IP_DEFAULT_TTL :: u8 where "IP_DEFAULT_TTL = 64"
definition IP_MULTICAST_BASE :: u32 where "IP_MULTICAST_BASE = 0xE0000000"
definition IP_MULTICAST_MASK :: u32 where "IP_MULTICAST_MASK = 0xF0000000"

text \<open>The packed header: the values of its fields and its 20 bytes.\<close>

record IpHeader =
  ih_version_ihl :: u8
  ih_dscp_ecn :: u8
  ih_total_length :: u16
  ih_identification :: u16
  ih_flags_fragment_offset :: u16
  ih_ttl :: u8
  ih_protocol :: u8
  ih_header_checksum :: u16
  ih_src_ip :: u32
  ih_dst_ip :: u32

definition ip_bytes :: "IpHeader \<Rightarrow> bytes" where
  "ip_bytes h = [ih_version_ihl h, ih_dscp_ecn h] @ put16 (ih_total_length h) @ put16 (ih_identification h) @
     put16 (ih_flags_fragment_offset h) @ [ih_ttl h, ih_protocol h] @ put16 (ih_header_checksum h) @
     put32 (ih_src_ip h) @ put32 (ih_dst_ip h)"

definition ip_load :: "bytes \<Rightarrow> IpHeader" where
  "ip_load b = \<lparr>ih_version_ihl = b ! 0, ih_dscp_ecn = b ! 1, ih_total_length = get16 b 2, ih_identification = get16 b 4,
     ih_flags_fragment_offset = get16 b 6, ih_ttl = b ! 8, ih_protocol = b ! 9, ih_header_checksum = get16 b 10,
     ih_src_ip = get32 b 12, ih_dst_ip = get32 b 16\<rparr>"

section \<open>Headers\<close>

definition ip_checksum :: "bytes option \<Rightarrow> u16" where
  "ip_checksum ip_hdr = (case ip_hdr of None \<Rightarrow> 0xFFFF | Some b \<Rightarrow>
     ns_htons (ucast (NOT (fold_carry (net_sum_loop b 0 (IP_HDR_LEN div 2) 0)))))"

definition ip_validate_header :: "Packet option \<Rightarrow> int option" where
  "ip_validate_header pkt =
     (if packet_validate_view pkt 0 IP_HDR_LEN \<noteq> 0 then Some (- 1)
      else do {
        p \<leftarrow> pkt;
        b \<leftarrow> pkt_read p 0 IP_HDR_LEN;
        if drop_bit 4 (b ! 0) \<noteq> IP_VERSION then Some (- 1)
        else if b ! 0 AND 0x0F \<noteq> of_nat (IP_HDR_LEN div 4) then Some (- 1)
        else if ip_checksum (Some b) \<noteq> 0 then Some (- 1)
        else Some 0
      })"

definition ip_same_subnet :: "u32 \<Rightarrow> u32 \<Rightarrow> u8 \<Rightarrow> bool" where
  "ip_same_subnet a_host b_host prefix_len =
     (a_host AND ipv4_prefix_mask prefix_len = b_host AND ipv4_prefix_mask prefix_len)"

text \<open>The header that \<open>ip_prepend_header\<close> builds: first with a zero checksum, then with the checksum of that.\<close>

definition new_ip_header :: "u32 \<Rightarrow> u32 \<Rightarrow> u8 \<Rightarrow> nat \<Rightarrow> IpHeader" where
  "new_ip_header src_ip dst_ip protocol payload_len =
     (let h = \<lparr>ih_version_ihl = push_bit 4 IP_VERSION OR of_nat (IP_HDR_LEN div 4), ih_dscp_ecn = 0,
            ih_total_length = ns_htons (of_nat (IP_HDR_LEN + payload_len)), ih_identification = 0,
            ih_flags_fragment_offset = 0, ih_ttl = IP_DEFAULT_TTL, ih_protocol = protocol, ih_header_checksum = 0,
            ih_src_ip = ns_htonl src_ip, ih_dst_ip = ns_htonl dst_ip\<rparr>
      in h\<lparr>ih_header_checksum := ip_checksum (Some (ip_bytes h))\<rparr>)"

definition ip_prepend_header :: "u32 \<Rightarrow> u32 \<Rightarrow> u8 \<Rightarrow> addr \<Rightarrow> 'a ip_world_scheme \<Rightarrow>
    (int \<times> 'a ip_world_scheme) option" where
  "ip_prepend_header src_ip dst_ip protocol payload w =
     (if payload = NULL then Some (- 1, w)
      else do {
        p \<leftarrow> pkt_at payload w;
        (r, w) \<leftarrow> packet_prepend payload (ip_bytes (new_ip_header src_ip dst_ip protocol (pkt_len p))) w;
        if r = - 1 then Some (- 1, w)
        else do {
          p \<leftarrow> pkt_at payload w;
          Some (0, pkt_put payload (p\<lparr>pkt_layer := 3\<rparr>) w)
        }
      })"

definition ip_is_multicast :: "u32 \<Rightarrow> int" where
  "ip_is_multicast ip_addr = (if ip_addr AND IP_MULTICAST_MASK = IP_MULTICAST_BASE then 1 else 0)"

definition ip_multicast_to_mac :: "u32 \<Rightarrow> bool \<Rightarrow> int \<times> bytes option" where
  "ip_multicast_to_mac ip_addr has_out =
     (if \<not> has_out \<or> ip_is_multicast ip_addr = 0 then (- 1, None)
      else (0, Some [0x01, 0x00, 0x5e, ucast (drop_bit 16 ip_addr AND 0x7f), ucast (drop_bit 8 ip_addr AND 0xff),
              ucast (ip_addr AND 0xff)]))"

text \<open>The loop of \<open>ip_mask_to_prefix_len\<close> over the bits from 31 down to 0; \<open>None\<close> is its early return.\<close>

fun mask_loop :: "u32 \<Rightarrow> nat list \<Rightarrow> u8 \<Rightarrow> bool \<Rightarrow> u8 option" where
  "mask_loop m [] prefix_len seen_zero = Some prefix_len"
| "mask_loop m (b # bs) prefix_len seen_zero =
     (if drop_bit b m AND 1 \<noteq> 0
      then if seen_zero then None else mask_loop m bs (prefix_len + 1) seen_zero
      else mask_loop m bs prefix_len True)"

definition ip_mask_to_prefix_len :: "u32 \<Rightarrow> bool \<Rightarrow> int \<times> u8 option" where
  "ip_mask_to_prefix_len m has_out =
     (if \<not> has_out then (- 1, None)
      else case mask_loop m (rev [0..<32]) 0 False of None \<Rightarrow> (- 1, None) | Some p \<Rightarrow> (0, Some p))"

definition ip_is_local :: "addr \<Rightarrow> u32 \<Rightarrow> 'a ip_world_scheme \<Rightarrow> int option" where
  "ip_is_local dev dst_ip w =
     (if dev = NULL then Some 0
      else do {
        d \<leftarrow> dev_at dev w;
        a \<leftarrow> find_iface (\<lambda>i. if_ip_addr i = dst_ip) (dev_interfaces d) w;
        Some (if a \<noteq> NULL then 1 else 0)
      })"

section \<open>The stack\<close>

definition ip_stack_init :: "addr \<Rightarrow> addr \<Rightarrow> 'a ip_world_scheme \<Rightarrow> 'a ip_world_scheme" where
  "ip_stack_init stack sim w =
     (if stack = NULL then w
      else stack_put stack \<lparr>st_sim = sim, st_protocols = replicate 256 \<lparr>pe_handler = Ip_NULL, pe_ctx = VNull\<rparr>\<rparr> w)"

definition ip_stack_bind_interface :: "addr \<Rightarrow> addr \<Rightarrow> 'a ip_world_scheme \<Rightarrow> (int \<times> 'a ip_world_scheme) option" where
  "ip_stack_bind_interface stack iface w =
     (if stack = NULL \<or> iface = NULL then Some (- 1, w)
      else do { w \<leftarrow> interface_set_rx_handler iface Rx_ip_rx_shim (VStack stack) w; Some (0, w) })"

text \<open>Both loops of \<open>ip_init\<close> bind every interface of every device of the topology.\<close>

fun bind_all :: "addr \<Rightarrow> addr list \<Rightarrow> 'a ip_world_scheme \<Rightarrow> 'a ip_world_scheme option" where
  "bind_all stack [] w = Some w"
| "bind_all stack (i # is) w = do { (_, w) \<leftarrow> ip_stack_bind_interface stack i w; bind_all stack is w }"

fun bind_devices :: "addr \<Rightarrow> addr list \<Rightarrow> 'a ip_world_scheme \<Rightarrow> 'a ip_world_scheme option" where
  "bind_devices stack [] w = Some w"
| "bind_devices stack (d # ds) w = do {
     dev \<leftarrow> dev_at d w;
     w \<leftarrow> bind_all stack (dev_interfaces dev) w;
     bind_devices stack ds w
   }"

definition ip_init :: "addr \<Rightarrow> addr \<Rightarrow> 'a ip_world_scheme \<Rightarrow> 'a ip_world_scheme option" where
  "ip_init sim stack w =
     (if sim = NULL then Some w
      else do {
        m \<leftarrow> sim_at sim w;
        if sim_topo m = NULL \<or> stack = NULL then Some w
        else do {
          let w = ip_stack_init stack sim w;
          t \<leftarrow> topo_at (sim_topo m) w;
          bind_devices stack (tp_devices t) w
        }
      })"

definition ip_stack_register_protocol :: "addr \<Rightarrow> u8 \<Rightarrow> IpProtocolHandler \<Rightarrow> vptr \<Rightarrow> 'a ip_world_scheme \<Rightarrow>
    (int \<times> 'a ip_world_scheme) option" where
  "ip_stack_register_protocol stack protocol handler ctx w =
     (if stack = NULL \<or> handler = Ip_NULL then Some (- 1, w)
      else do {
        s \<leftarrow> stack_at stack w;
        Some (0, stack_put stack (s\<lparr>st_protocols :=
          (st_protocols s)[unat protocol := \<lparr>pe_handler = handler, pe_ctx = ctx\<rparr>]\<rparr>) w)
      })"

definition ip_stack_unregister_protocol :: "addr \<Rightarrow> u8 \<Rightarrow> 'a ip_world_scheme \<Rightarrow> (int \<times> 'a ip_world_scheme) option" where
  "ip_stack_unregister_protocol stack protocol w =
     (if stack = NULL then Some (- 1, w)
      else do {
        s \<leftarrow> stack_at stack w;
        Some (0, stack_put stack (s\<lparr>st_protocols :=
          (st_protocols s)[unat protocol := \<lparr>pe_handler = Ip_NULL, pe_ctx = VNull\<rparr>]\<rparr>) w)
      })"

section \<open>Input and output\<close>

type_synonym 'a proto_call =
  "IpProtocolHandler \<Rightarrow> addr \<Rightarrow> addr \<Rightarrow> vptr \<Rightarrow> 'a ip_world_scheme \<Rightarrow> (int \<times> 'a ip_world_scheme) option"

definition ip_receive :: "'a proto_call \<Rightarrow> addr \<Rightarrow> addr \<Rightarrow> u16 \<Rightarrow> vptr \<Rightarrow> 'a ip_world_scheme \<Rightarrow>
    (int \<times> 'a ip_world_scheme) option" where
  "ip_receive pcall iface frame ethertype ctx w =
     (if iface = NULL \<or> frame = NULL then Some (- 1, w)
      else do {
        f \<leftarrow> pkt_at frame w;
        if pkt_len f < IP_HDR_LEN then Some (- 1, w)
        else do {
          valid \<leftarrow> ip_validate_header (Some f);
          if valid \<noteq> 0 then do {
            w \<leftarrow> iface_upd iface (\<lambda>i. i\<lparr>if_rx_errors := if_rx_errors i + 1\<rparr>) w;
            w \<leftarrow> packet_free frame w;
            Some (- 1, w)
          }
          else do {
            b \<leftarrow> pkt_read f 0 IP_HDR_LEN;
            if ih_ttl (ip_load b) = 0 then do {
              w \<leftarrow> iface_upd iface (\<lambda>i. i\<lparr>if_rx_dropped := if_rx_dropped i + 1\<rparr>) w;
              w \<leftarrow> packet_free frame w;
              Some (- 1, w)
            }
            else do {
              stack \<leftarrow> as_stack ctx;
              sim \<leftarrow> (if stack \<noteq> NULL then do { s \<leftarrow> stack_at stack w; Some (st_sim s) } else Some NULL);
              now \<leftarrow> (if sim \<noteq> NULL then simulator_now sim w else Some 0);
              w \<leftarrow> iface_upd iface (\<lambda>i. i\<lparr>if_rx_bytes := if_rx_bytes i + of_nat (pkt_len f), if_last_rx_time := now\<rparr>) w;
              let w = pkt_put frame (f\<lparr>pkt_data := pkt_data f + IP_HDR_LEN, pkt_len := pkt_len f - IP_HDR_LEN, pkt_layer := 4\<rparr>) w;
              if stack = NULL then Some (0, w)
              else do {
                s \<leftarrow> stack_at stack w;
                let entry = st_protocols s ! unat (ih_protocol (ip_load b));
                if pe_handler entry \<noteq> Ip_NULL then pcall (pe_handler entry) iface frame (pe_ctx entry) w
                else Some (0, w)
              }
            }
          }
        }
      })"

definition ip_rx_shim :: "'a proto_call \<Rightarrow> addr \<Rightarrow> addr \<Rightarrow> u16 \<Rightarrow> vptr \<Rightarrow> 'a ip_world_scheme \<Rightarrow>
    'a ip_world_scheme option" where
  "ip_rx_shim pcall iface pkt ethertype ctx w = do { (_, w) \<leftarrow> ip_receive pcall iface pkt ethertype ctx w; Some w }"

text \<open>\<open>iface->tx_bytes += payload->len; iface->last_tx_time = simulator_now(sim);\<close> and the frame is sent.\<close>

definition ip_transmit :: "addr \<Rightarrow> addr \<Rightarrow> bytes \<Rightarrow> addr \<Rightarrow> 'a ip_world_scheme \<Rightarrow> (int \<times> 'a ip_world_scheme) option" where
  "ip_transmit sim iface dst_mac payload w = do {
     p \<leftarrow> pkt_at payload w;
     now \<leftarrow> simulator_now sim w;
     w \<leftarrow> iface_upd iface (\<lambda>i. i\<lparr>if_tx_bytes := if_tx_bytes i + of_nat (pkt_len p), if_last_tx_time := now\<rparr>) w;
     ethernet_send sim iface (Some dst_mac) ETHERTYPE_IPV4 payload w
   }"

definition ip_send :: "addr \<Rightarrow> addr \<Rightarrow> bytes option \<Rightarrow> u32 \<Rightarrow> u32 \<Rightarrow> u8 \<Rightarrow> addr \<Rightarrow> 'a ip_world_scheme \<Rightarrow>
    (int \<times> 'a ip_world_scheme) option" where
  "ip_send sim iface dst_mac src_ip dst_ip protocol payload w = (case dst_mac of None \<Rightarrow> Some (- 1, w) | Some mac \<Rightarrow>
     if sim = NULL \<or> iface = NULL \<or> payload = NULL then Some (- 1, w)
     else do {
       (r, w) \<leftarrow> ip_prepend_header src_ip dst_ip protocol payload w;
       if r = - 1 then Some (- 1, w) else ip_transmit sim iface mac payload w
     })"

text \<open>The search of \<open>ip_find_source_iface\<close> over the interfaces of a device and over the devices; \<open>NULL\<close> entries are
  skipped.\<close>

fun source_iface_in :: "u32 \<Rightarrow> addr list \<Rightarrow> 'a ip_world_scheme \<Rightarrow> addr option" where
  "source_iface_in src_net [] w = Some NULL"
| "source_iface_in src_net (a # as) w =
     (if a = NULL then source_iface_in src_net as w
      else do { i \<leftarrow> iface_at a w; if if_ip_addr i = src_net then Some a else source_iface_in src_net as w })"

fun source_iface_of :: "u32 \<Rightarrow> addr list \<Rightarrow> 'a ip_world_scheme \<Rightarrow> addr option" where
  "source_iface_of src_net [] w = Some NULL"
| "source_iface_of src_net (d # ds) w =
     (if d = NULL then source_iface_of src_net ds w
      else do {
        dev \<leftarrow> dev_at d w;
        a \<leftarrow> source_iface_in src_net (dev_interfaces dev) w;
        if a \<noteq> NULL then Some a else source_iface_of src_net ds w
      })"

definition ip_find_source_iface :: "addr \<Rightarrow> u32 \<Rightarrow> 'a ip_world_scheme \<Rightarrow> addr option" where
  "ip_find_source_iface sim src_ip w =
     (if sim = NULL then Some NULL
      else do {
        m \<leftarrow> sim_at sim w;
        if sim_topo m = NULL then Some NULL
        else do { t \<leftarrow> topo_at (sim_topo m) w; source_iface_of (ns_htonl src_ip) (tp_devices t) w }
      })"

text \<open>The last part of \<open>ip_output\<close>: to the neighbour when its address is cached, else a request goes out and the
  packet waits.\<close>

definition ip_resolve_and_send :: "addr \<Rightarrow> addr \<Rightarrow> u32 \<Rightarrow> addr \<Rightarrow> 'a ip_world_scheme \<Rightarrow>
    (int \<times> 'a ip_world_scheme) option" where
  "ip_resolve_and_send sim iface dst_ip payload w = do {
     i \<leftarrow> iface_at iface w;
     c \<leftarrow> cache_at (if_arp_cache i) w;
     case arp_cache_lookup (Some c) dst_ip True of
       (_, Some dst_mac) \<Rightarrow> ip_transmit sim iface dst_mac payload w
     | (_, None) \<Rightarrow> do {
         (r, w) \<leftarrow> arp_send_request sim iface (ns_htonl dst_ip) w;
         if r \<noteq> 0 then Some (- 1, w)
         else do {
           i \<leftarrow> iface_at iface w;
           c \<leftarrow> cache_at (if_arp_cache i) w;
           let (r, c') = arp_pending_enqueue (Some c) iface dst_ip ETHERTYPE_IPV4 payload;
           c' \<leftarrow> c';
           let w = cache_put (if_arp_cache i) c' w;
           Some (if r \<noteq> 0 then - 1 else 0, w)
         }
       }
   }"

definition ip_output :: "addr \<Rightarrow> u32 \<Rightarrow> u32 \<Rightarrow> u8 \<Rightarrow> addr \<Rightarrow> 'a ip_world_scheme \<Rightarrow>
    (int \<times> 'a ip_world_scheme) option" where
  "ip_output sim src_ip dst_ip protocol payload w =
     (if sim = NULL \<or> payload = NULL then Some (- 1, w)
      else do {
        iface \<leftarrow> ip_find_source_iface sim src_ip w;
        up \<leftarrow> interface_is_up iface w;
        if iface = NULL \<or> up = 0 then Some (- 1, w)
        else if ip_is_multicast dst_ip \<noteq> 0
        then (case ip_multicast_to_mac dst_ip True of
            (_, None) \<Rightarrow> Some (- 1, w)
          | (_, Some dst_mac) \<Rightarrow> do {
              (r, w) \<leftarrow> ip_prepend_header src_ip dst_ip protocol payload w;
              if r = - 1 then Some (- 1, w) else ip_transmit sim iface dst_mac payload w
            })
        else do {
          i \<leftarrow> iface_at iface w;
          if if_arp_cache i = NULL then Some (- 1, w)
          else if \<not> ip_same_subnet (ns_ntohl (if_ip_addr i)) dst_ip (if_prefix_len i) then Some (- 1, w)
          else do {
            (r, w) \<leftarrow> ip_prepend_header src_ip dst_ip protocol payload w;
            if r = - 1 then Some (- 1, w) else ip_resolve_and_send sim iface dst_ip payload w
          }
        }
      })"

lemma stack_at_frames [simp]:
  "stack_at a (pkt_put b p w) = stack_at a w" "stack_at a (iface_put b i w) = stack_at a w"
  "stack_at a (cache_put b c w) = stack_at a w"
  by (simp_all add: stack_at_def pkt_put_def iface_put_def cache_put_def)

lemma stack_at_nonnull: "stack_at a w = Some s \<Longrightarrow> a \<noteq> NULL"
  by (simp add: stack_at_def split: if_splits)

section \<open>The header checksum\<close>

lemma ip_checksum_icmp: "length b = 20 \<Longrightarrow> ip_checksum (Some b) = icmp_checksum (Some b)"
proof -
  have "(ucast (NOT s) :: u16) = NOT (ucast s)" for s :: u32
    by (rule bit_word_eqI) (auto simp: bit_ucast_iff bit_not_iff)
  then show "length b = 20 \<Longrightarrow> ?thesis" by (auto simp: ip_checksum_def icmp_checksum_def Let_def IP_HDR_LEN_def)
qed

interpretation ip_ck: ones_complement "\<lambda>b. length b = 20" net_value "\<lambda>b. ip_checksum (Some b)" "set16 10"
proof
  fix b :: bytes and c :: u16 assume len: "length b = 20"
  then have "b \<noteq> []" by auto
  with len icmp_checksum_value [of b] show "unat (ns_ntohs (ip_checksum (Some b))) = 65535 - ones_sum (net_value b)"
    by (simp add: ip_checksum_icmp)
  show "length (set16 10 c b) = 20" using len by simp
  show "net_value (set16 10 c b) = net_value (set16 10 0 b) + unat (ns_ntohs c)" using len by (intro net_value_set16) simp_all
qed

lemma length_ip_bytes [simp]: "length (ip_bytes h) = 20"
  by (simp add: ip_bytes_def)

lemma ip_bytes_checksum: "ip_bytes (h\<lparr>ih_header_checksum := c\<rparr>) = set16 10 c (ip_bytes h)"
  by (simp add: ip_bytes_def set16_def put16_def put32_def)

lemma two_bytes: "(ucast (ucast x :: u8) :: u16) OR push_bit 8 (ucast (ucast (drop_bit 8 x) :: u8)) = x"
  using get16_put16 [of x] by (simp add: get16_def put16_def)

lemma four_bytes: "(ucast (ucast x :: u8) :: u32) OR push_bit 8 (ucast (ucast (drop_bit 8 x) :: u8)) OR
    push_bit 16 (ucast (ucast (drop_bit 16 x) :: u8)) OR push_bit 24 (ucast (ucast (drop_bit 24 x) :: u8)) = x"
  using get32_put32 [of x] by (simp add: get32_def put32_def numeral_2_eq_2 numeral_3_eq_3)

lemma ip_load_bytes: "ip_load (ip_bytes h @ rest) = h"
  by (cases h) (simp add: ip_load_def ip_bytes_def put16_def put32_def get16_def get32_def two_bytes four_bytes)

lemma new_ip_header_fields:
  "ih_version_ihl (new_ip_header s d pr n) = 0x45" "ih_ttl (new_ip_header s d pr n) = 64"
  "ih_protocol (new_ip_header s d pr n) = pr" "ns_ntohl (ih_src_ip (new_ip_header s d pr n)) = s"
  "ns_ntohl (ih_dst_ip (new_ip_header s d pr n)) = d"
  "ns_ntohs (ih_total_length (new_ip_header s d pr n)) = of_nat (20 + n)"
  by (simp_all add: new_ip_header_def Let_def IP_VERSION_def IP_HDR_LEN_def IP_DEFAULT_TTL_def)

lemma new_ip_header_checksum: "ip_checksum (Some (ip_bytes (new_ip_header s d pr n))) = 0"
proof -
  let ?h = "\<lparr>ih_version_ihl = push_bit 4 IP_VERSION OR of_nat (IP_HDR_LEN div 4), ih_dscp_ecn = 0,
      ih_total_length = ns_htons (of_nat (IP_HDR_LEN + n)), ih_identification = 0,
      ih_flags_fragment_offset = 0, ih_ttl = IP_DEFAULT_TTL, ih_protocol = pr, ih_header_checksum = 0,
      ih_src_ip = ns_htonl s, ih_dst_ip = ns_htonl d\<rparr>"
  have z: "set16 10 0 (ip_bytes ?h) = ip_bytes ?h" using ip_bytes_checksum [of 0 ?h] by simp
  have "new_ip_header s d pr n = ?h\<lparr>ih_header_checksum := ip_checksum (Some (ip_bytes ?h))\<rparr>"
    by (simp only: new_ip_header_def Let_def)
  then have "ip_bytes (new_ip_header s d pr n) = set16 10 (ip_checksum (Some (ip_bytes ?h))) (ip_bytes ?h)"
    by (simp only: ip_bytes_checksum)
  then show ?thesis using ip_ck.stored_verifies [of "ip_bytes ?h"] z by (simp only: length_ip_bytes)
qed

text \<open>What \<open>ip_validate_header\<close> checks of a well-formed packet.\<close>

lemma validate_header_iff:
  assumes "pkt_wf p"
  shows "ip_validate_header (Some p) = Some (if 20 \<le> pkt_len p \<and> drop_bit 4 (visible p ! 0) = 4 \<and>
    visible p ! 0 AND 0x0F = 5 \<and> ip_checksum (Some (take 20 (visible p))) = 0 then 0 else - 1)"
proof (cases "20 \<le> pkt_len p")
  case True
  then have "pkt_read p 0 20 = Some (take 20 (visible p))" using pkt_read_within [OF assms, of 0 20] by simp
  then show ?thesis using True assms
    by (simp add: ip_validate_header_def IP_HDR_LEN_def validate_view_wf IP_VERSION_def)
next
  case False
  then show ?thesis using assms by (simp add: ip_validate_header_def IP_HDR_LEN_def validate_view_wf)
qed

lemma validate_new_header:
  assumes "pkt_wf p" "visible p = ip_bytes (new_ip_header s d pr n) @ rest"
  shows "ip_validate_header (Some p) = Some 0"
proof -
  have len: "20 \<le> pkt_len p" using length_visible [OF assms(1)] assms(2) by simp
  have "ip_bytes (new_ip_header s d pr n) ! 0 = 0x45" using new_ip_header_fields(1) [of s d pr n] by (simp add: ip_bytes_def)
  then have "visible p ! 0 = 0x45" by (simp add: assms(2) nth_append)
  then show ?thesis using len by (simp add: validate_header_iff [OF assms(1)] assms(2) new_ip_header_checksum)
qed

section \<open>Delivery\<close>

text \<open>\<open>ip_prepend_header\<close> puts a valid header on a packet with enough headroom.\<close>

lemma ip_prepend_outcome:
  assumes "pkt_at pkt w = Some p" "pkt_wf p" "20 \<le> pkt_data p"
  obtains p' where "ip_prepend_header src dst pr pkt w = Some (0, pkt_put pkt p' w)" "pkt_wf p'"
    "visible p' = ip_bytes (new_ip_header src dst pr (pkt_len p)) @ visible p" "pkt_data p' = pkt_data p - 20"
    "pkt_len p' = pkt_len p + 20" "pkt_layer p' = 3"
proof -
  let ?h = "ip_bytes (new_ip_header src dst pr (pkt_len p))"
  obtain q where q: "prepend ?h p = Some (0, q)" "pkt_wf q" "visible q = ?h @ visible p"
    "pkt_data q = pkt_data p - 20" "pkt_len q = pkt_len p + 20"
    using prepend_ok [OF assms(2), of ?h] assms(3) by auto
  have nn: "pkt \<noteq> NULL" by (rule pkt_at_nonnull [OF assms(1)])
  have put: "pkt_put pkt x (pkt_put pkt y w) = pkt_put pkt x w" for x y by (simp add: pkt_put_def)
  have "ip_prepend_header src dst pr pkt w = Some (0, pkt_put pkt (q\<lparr>pkt_layer := 3\<rparr>) w)"
    using q(1) nn assms(1) put by (simp add: ip_prepend_header_def packet_prepend_def)
  moreover have "pkt_wf (q\<lparr>pkt_layer := 3\<rparr>)" "visible (q\<lparr>pkt_layer := 3\<rparr>) = ?h @ visible p"
    using q by (simp_all add: pkt_wf_def visible_def)
  ultimately show thesis using that q by simp
qed

text \<open>A packet with a new header, received.\<close>

definition ip_taken :: "Packet \<Rightarrow> Packet" where
  "ip_taken f = f\<lparr>pkt_data := pkt_data f + 20, pkt_len := pkt_len f - 20, pkt_layer := 4\<rparr>"

lemma ip_taken_view:
  assumes "pkt_wf f" "visible f = ip_bytes h @ payload"
  shows "pkt_wf (ip_taken f)" "visible (ip_taken f) = payload" "20 \<le> pkt_data (ip_taken f)" "pkt_read f 0 20 = Some (ip_bytes h)"
proof -
  have len: "pkt_len f = 20 + length payload" using length_visible [OF assms(1)] assms(2) by simp
  show "pkt_wf (ip_taken f)" "20 \<le> pkt_data (ip_taken f)" using assms(1) len by (simp_all add: pkt_wf_def ip_taken_def)
  have "visible (ip_taken f) = drop 20 (visible f)" by (simp add: visible_def drop_take add.commute ip_taken_def)
  then show "visible (ip_taken f) = payload" by (simp add: assms(2))
  show "pkt_read f 0 20 = Some (ip_bytes h)" using pkt_read_within [OF assms(1), of 0 20] assms(2) len by simp
qed

lemma ip_received:
  assumes "pkt_at frame w = Some f" "pkt_wf f" "visible f = ip_bytes (new_ip_header src dst pr n) @ payload"
    and "iface_at iface w = Some i" "stack_at stack w = Some s" "st_sim s = sim" "simulator_now sim w = Some now"
  shows "ip_receive pcall iface frame ethertype (VStack stack) w =
    (let entry = st_protocols s ! unat pr; w2 = pkt_put frame (ip_taken f) (iface_put iface
        (i\<lparr>if_rx_bytes := if_rx_bytes i + of_nat (pkt_len f), if_last_rx_time := (if sim = NULL then 0 else now)\<rparr>) w) in
     if pe_handler entry = Ip_NULL then Some (0, w2) else pcall (pe_handler entry) iface frame (pe_ctx entry) w2)"
proof -
  have nn: "frame \<noteq> NULL" "iface \<noteq> NULL" "stack \<noteq> NULL" using assms(1,4,5) by (auto dest: pkt_at_nonnull iface_at_nonnull stack_at_nonnull)
  have len: "20 \<le> pkt_len f" using length_visible [OF assms(2)] assms(3) by simp
  have ld: "ip_load (ip_bytes x) = x" for x using ip_load_bytes [of x "[]"] by simp
  show ?thesis using nn assms(1,4-7) len validate_new_header [OF assms(2,3)] ip_taken_view(4) [OF assms(2,3)]
    by (auto simp: ip_receive_def IP_HDR_LEN_def ld new_ip_header_fields as_stack_def iface_upd_def ip_taken_def Let_def)
qed

lemma ip_delivery:
  assumes "pkt_at pkt w = Some p" "pkt_wf p" "20 \<le> pkt_data p" "iface_at iface w = Some i"
    and "stack_at stack w = Some s" "st_sim s = sim" "simulator_now sim w = Some now"
  shows "\<exists>w1 w2 q. ip_prepend_header src dst pr pkt w = Some (0, w1) \<and>
    pkt_at pkt w2 = Some q \<and> visible q = visible p \<and> pkt_data q = pkt_data p \<and> pkt_layer q = 4 \<and>
    iface_at iface w2 = Some (i\<lparr>if_rx_bytes := if_rx_bytes i + of_nat (pkt_len p + 20), if_last_rx_time := (if sim = NULL then 0 else now)\<rparr>) \<and>
    ip_receive pcall iface pkt ethertype (VStack stack) w1 =
      (let entry = st_protocols s ! unat pr in
       if pe_handler entry = Ip_NULL then Some (0, w2) else pcall (pe_handler entry) iface pkt (pe_ctx entry) w2)"
proof -
  obtain p' where p': "ip_prepend_header src dst pr pkt w = Some (0, pkt_put pkt p' w)" "pkt_wf p'"
    "visible p' = ip_bytes (new_ip_header src dst pr (pkt_len p)) @ visible p" "pkt_data p' = pkt_data p - 20" "pkt_len p' = pkt_len p + 20"
    using ip_prepend_outcome [OF assms(1-3), of src dst pr] by metis
  let ?w1 = "pkt_put pkt p' w"
  let ?i = "i\<lparr>if_rx_bytes := if_rx_bytes i + of_nat (pkt_len p + 20), if_last_rx_time := (if sim = NULL then 0 else now)\<rparr>"
  let ?w2 = "pkt_put pkt (ip_taken p') (iface_put iface ?i ?w1)"
  have nn: "pkt \<noteq> NULL" "iface \<noteq> NULL" using assms(1,4) by (auto dest: pkt_at_nonnull iface_at_nonnull)
  have q: "visible (ip_taken p') = visible p" "pkt_data (ip_taken p') = pkt_data p" "pkt_layer (ip_taken p') = 4"
    using ip_taken_view(2) [OF p'(2,3)] p'(4) assms(3) by (simp_all add: ip_taken_def)
  have "ip_receive pcall iface pkt ethertype (VStack stack) ?w1 =
      (let entry = st_protocols s ! unat pr in
       if pe_handler entry = Ip_NULL then Some (0, ?w2) else pcall (pe_handler entry) iface pkt (pe_ctx entry) ?w2)"
    using ip_received [of pkt ?w1 p' src dst pr "pkt_len p" "visible p" iface i stack s sim now pcall ethertype] nn p' assms(4-7) by (simp add: Let_def)
  then show ?thesis using p'(1) q nn by (intro exI [of _ ?w1] exI [of _ ?w2] exI [of _ "ip_taken p'"]) simp
qed

text \<open>C33. A packet with the header that \<open>ip_prepend_header\<close> builds is valid, and receiving it hands exactly the
  original bytes, with the handler's own context, to the handler registered for its protocol (and to nobody when none
  is), after the length was added to the receive counter and the time was noted.\<close>

theorem ip_roundtrip:
  assumes "pkt_at pkt w = Some p" "pkt_wf p" "20 \<le> pkt_data p" "iface_at iface w = Some i"
    and "stack_at stack w = Some s" "st_sim s = sim" "simulator_now sim w = Some now"
  shows "\<exists>w1 w2 q. ip_prepend_header src dst pr pkt w = Some (0, w1) \<and>
    pkt_at pkt w2 = Some q \<and> visible q = visible p \<and> pkt_data q = pkt_data p \<and> pkt_layer q = 4 \<and>
    iface_at iface w2 = Some (i\<lparr>if_rx_bytes := if_rx_bytes i + of_nat (pkt_len p + 20), if_last_rx_time := (if sim = NULL then 0 else now)\<rparr>) \<and>
    ip_receive pcall iface pkt ethertype (VStack stack) w1 =
      (let entry = st_protocols s ! unat pr in
       if pe_handler entry = Ip_NULL then Some (0, w2) else pcall (pe_handler entry) iface pkt (pe_ctx entry) w2)"
  by (rule ip_delivery [OF assms])

section \<open>Addresses\<close>

lemma multicast_iff: "ip_is_multicast ip = 1 \<longleftrightarrow> 0xE0000000 \<le> ip \<and> ip \<le> 0xEFFFFFFF"
proof -
  have m: "(0xF0000000 :: u32) = push_bit 28 (mask 4)" by (simp add: mask_eq_exp_minus_1)
  have "ip AND 0xF0000000 = push_bit 28 (drop_bit 28 ip)"
    unfolding m by (rule bit_word_eqI) (auto simp: word_bit_iffs)
  then have "unat (ip AND 0xF0000000) = unat ip div 2 ^ 28 * 2 ^ 28"
    using unsigned_less [of ip, where ?'a = nat]
    by (simp add: push_bit_eq_mult drop_bit_eq_div unat_word_ariths unat_div_distrib)
  then have "ip AND 0xF0000000 = 0xE0000000 \<longleftrightarrow> unat ip div 2 ^ 28 * 2 ^ 28 = 14 * 2 ^ 28"
    by (simp add: word_unat_eq_iff)
  then show ?thesis using unsigned_less [of ip, where ?'a = nat]
    by (simp add: ip_is_multicast_def IP_MULTICAST_MASK_def IP_MULTICAST_BASE_def word_le_nat_alt) linarith
qed

lemma unat_low_bits:
  "unat (ucast (drop_bit k ip AND 0xff) :: u8) = unat ip div 2 ^ k mod 256"
  "unat (ucast (drop_bit k ip AND 0x7f) :: u8) = unat ip div 2 ^ k mod 128" for ip :: u32
proof -
  have m: "(0xff :: u32) = mask 8" "(0x7f :: u32) = mask 7" by (simp_all add: mask_eq_exp_minus_1)
  have d: "unat (drop_bit k ip) = unat ip div 2 ^ k" by (subst unat_drop_bit_eq) (rule drop_bit_eq_div)
  have low: "unat (drop_bit k ip AND mask n) = unat ip div 2 ^ k mod 2 ^ n" for n
    unfolding take_bit_eq_mask [symmetric] unsigned_take_bit_eq d by (rule take_bit_eq_mod)
  have "unat (ucast (y :: u32) :: u8) = unat y mod 256" for y by (simp add: unsigned_ucast_eq take_bit_eq_mod)
  then show "unat (ucast (drop_bit k ip AND 0xff) :: u8) = unat ip div 2 ^ k mod 256"
    "unat (ucast (drop_bit k ip AND 0x7f) :: u8) = unat ip div 2 ^ k mod 128"
    unfolding m using low [of 8] low [of 7] by (simp_all add: mod_mod_cancel)
qed

lemma low7_no_high: "(ucast (x AND 0x7f) :: u8) AND 0x80 = 0" for x :: u32
proof -
  have m: "(0x7f :: u32) = mask 7" "(0x80 :: u8) = 2 ^ 7" by (simp_all add: mask_eq_exp_minus_1)
  have b: "bit (0x80 :: u8) n \<longleftrightarrow> n = 7" for n unfolding m(2) bit_exp_iff by auto
  have "\<not> bit ((ucast (x AND 0x7f) :: u8) AND 0x80) n" for n
    unfolding m(1) bit_and_iff bit_ucast_iff b bit_mask_iff by auto
  then show ?thesis by (intro bit_word_eqI) simp
qed

lemma low23: "65536 * (u div 65536 mod 128) + 256 * (u div 256 mod 256) + u mod 256 = u mod (8388608 :: nat)"
proof -
  have "u mod (256 * 32768) = 256 * (u div 256 mod 32768) + u mod 256" by (rule mod_mult2_eq)
  moreover have "u div 256 mod (256 * 128) = 256 * (u div 256 div 256 mod 128) + u div 256 mod 256" by (rule mod_mult2_eq)
  ultimately show ?thesis by (simp flip: div_mult2_eq)
qed

text \<open>A multicast group address maps to a MAC address that Ethernet reception takes as IPv4 multicast, with the
  low 23 bits of the group in it; every other address is refused.\<close>

theorem ip_multicast_to_mac_correct:
  "case ip_multicast_to_mac ip True of
     (r, None) \<Rightarrow> r = - 1 \<and> \<not> (0xE0000000 \<le> ip \<and> ip \<le> 0xEFFFFFFF)
   | (r, Some mac) \<Rightarrow> r = 0 \<and> 0xE0000000 \<le> ip \<and> ip \<le> 0xEFFFFFFF \<and> length mac = 6 \<and> mac_is_ipv4_multicast mac \<and>
       65536 * unat (mac ! 3) + 256 * unat (mac ! 4) + unat (mac ! 5) = unat ip mod 2 ^ 23"
proof (cases "ip_is_multicast ip = 1")
  case True
  have "unat (ucast (ip AND 0xff) :: u8) = unat ip mod 256" using unat_low_bits(1) [of 0 ip] by simp
  with True show ?thesis using unat_low_bits(1) [of 8 ip] unat_low_bits(2) [of 16 ip] low23 [of "unat ip"]
    by (simp add: ip_multicast_to_mac_def mac_is_ipv4_multicast_def low7_no_high multicast_iff [symmetric])
next
  case False
  then show ?thesis using multicast_iff [of ip] by (auto simp: ip_multicast_to_mac_def ip_is_multicast_def split: if_splits)
qed

lemma low_bit: "(drop_bit b m AND 1 = 0) = (\<not> bit m b)" for m :: u32
  by (simp add: and_one_eq bit_iff_odd_drop_bit odd_iff_mod_2_eq_one)

lemma mask_loop_seen: "mask_loop m bs p True = (if \<exists>b \<in> set bs. bit m b then None else Some p)"
  by (induction bs) (auto simp: low_bit)

lemma ex_le_Suc: "(\<exists>j \<le> Suc k. P j) \<longleftrightarrow> P 0 \<or> (\<exists>j \<le> k. P (Suc j))"
  by (metis Suc_le_mono not0_implies_Suc zero_le)

lemma mask_loop_ones:
  "mask_loop m (rev [0..<k]) p False = Some q \<longleftrightarrow>
     (\<exists>j \<le> k. q = p + of_nat j \<and> (\<forall>b < k. bit m b \<longleftrightarrow> k - j \<le> b))"
proof (induction k arbitrary: p)
  case 0
  then show ?case by auto
next
  case (Suc k)
  show ?case
  proof (cases "bit m k")
    case True
    then have "mask_loop m (rev [0..<Suc k]) p False = mask_loop m (rev [0..<k]) (p + 1) False"
      by (simp add: low_bit)
    also have "\<dots> = Some q \<longleftrightarrow> (\<exists>j \<le> k. q = p + of_nat (Suc j) \<and> (\<forall>b < Suc k. bit m b \<longleftrightarrow> Suc k - Suc j \<le> b))"
      unfolding Suc.IH using True by (auto simp: less_Suc_eq add.assoc)
    also have "\<dots> \<longleftrightarrow> (\<exists>j \<le> Suc k. q = p + of_nat j \<and> (\<forall>b < Suc k. bit m b \<longleftrightarrow> Suc k - j \<le> b))"
      unfolding ex_le_Suc using True by auto
    finally show ?thesis .
  next
    case False
    then have "mask_loop m (rev [0..<Suc k]) p False = Some q \<longleftrightarrow> q = p \<and> (\<forall>b < Suc k. \<not> bit m b)"
      by (auto simp: low_bit mask_loop_seen less_Suc_eq)
    also have "\<dots> \<longleftrightarrow> (\<exists>j \<le> Suc k. q = p + of_nat j \<and> (\<forall>b < Suc k. bit m b \<longleftrightarrow> Suc k - j \<le> b))"
      unfolding ex_le_Suc using False by auto
    finally show ?thesis .
  qed
qed

lemma mask_prefix_inverse:
  "(ip_mask_to_prefix_len m True = (0, Some p) \<longleftrightarrow> p \<le> 32 \<and> m = ipv4_prefix_mask p) \<and>
   ((\<forall>p. \<not> (p \<le> 32 \<and> m = ipv4_prefix_mask p)) \<longleftrightarrow> ip_mask_to_prefix_len m True = (- 1, None))"
proof -
  have loop: "mask_loop m (rev [0..<32]) 0 False = Some q \<longleftrightarrow> q \<le> 32 \<and> m = ipv4_prefix_mask q" for q :: u8
  proof -
    have "mask_loop m (rev [0..<32]) 0 False = Some q \<longleftrightarrow>
        (\<exists>j \<le> 32. q = of_nat j \<and> (\<forall>b < 32. bit m b \<longleftrightarrow> 32 - j \<le> b))"
      using mask_loop_ones [of m 32 0 q] by simp
    also have "\<dots> \<longleftrightarrow> unat q \<le> 32 \<and> (\<forall>b < 32. bit m b \<longleftrightarrow> 32 - unat q \<le> b)"
    proof -
      have "unat (of_nat j :: u8) = j" if "j \<le> 32" for j using that by (simp add: unsigned_of_nat take_bit_nat_eq_self)
      then show ?thesis by (auto intro!: exI [of _ "unat q"])
    qed
    also have "\<dots> \<longleftrightarrow> q \<le> 32 \<and> m = ipv4_prefix_mask q"
    proof (cases "q \<le> 32")
      case True
      then have "m = ipv4_prefix_mask q \<longleftrightarrow> (\<forall>b < 32. bit m b \<longleftrightarrow> 32 \<le> b + unat q)"
        using bit_prefix_mask [OF True] bit_word_eqI [of m "ipv4_prefix_mask q"] by auto
      then show ?thesis using True by (auto simp: word_le_nat_alt)
    qed (simp add: word_le_nat_alt)
    finally show ?thesis .
  qed
  show ?thesis
  proof (cases "mask_loop m (rev [0..<32]) 0 False")
    case None
    then show ?thesis using loop by (auto simp: ip_mask_to_prefix_len_def)
  next
    case (Some q)
    then show ?thesis using loop [of q] loop [of p] by (auto simp: ip_mask_to_prefix_len_def)
  qed
qed

text \<open>\<open>ip_mask_to_prefix_len\<close> inverts \<open>ipv4_prefix_mask\<close>: it returns the prefix length \<open>p\<close> for exactly the mask
  of the prefix length \<open>p\<close> from 0 to 32, and -1 for a mask with a hole.\<close>

theorem ip_mask_to_prefix_len_inverts:
  "(ip_mask_to_prefix_len m True = (0, Some p) \<longleftrightarrow> p \<le> 32 \<and> m = ipv4_prefix_mask p) \<and>
   ((\<forall>p. \<not> (p \<le> 32 \<and> m = ipv4_prefix_mask p)) \<longleftrightarrow> ip_mask_to_prefix_len m True = (- 1, None))"
  by (rule mask_prefix_inverse)

section \<open>Instances\<close>

definition demo_stack :: IpStack where
  "demo_stack = \<lparr>st_sim = 7, st_protocols = (replicate 256 \<lparr>pe_handler = Ip_NULL, pe_ctx = VNull\<rparr>)
     [1 := \<lparr>pe_handler = Ip_icmp_receive, pe_ctx = VSim 7\<rparr>]\<rparr>"

definition demo_ip_world :: ip_world where
  "demo_ip_world = \<lparr>w_mem = \<lparr>mem_next = 11, mem_oom = [], mem_junk = (\<lambda>_. 0)\<rparr>, w_next_id = 8,
     w_pkts = [4 \<mapsto> demo_packet, 9 \<mapsto> demo_reply], w_scheds = [5 \<mapsto> demo_sched],
     w_ifaces = [2 \<mapsto> demo_eth0\<lparr>if_arp_cache := 10\<rparr>, 3 \<mapsto> demo_eth1], w_devs = Map.empty, w_links = [6 \<mapsto> demo_cable],
     w_topos = Map.empty, w_sims = [7 \<mapsto> \<lparr>sim_topo = 8, sim_sched = 5, sim_end_time = 0\<rparr>],
     w_caches = [10 \<mapsto> demo_arp_cache], w_stacks = [11 \<mapsto> demo_stack]\<rparr>"

lemma demo_ip_parts:
  "pkt_at 4 demo_ip_world = Some demo_packet" "iface_at 2 demo_ip_world = Some (demo_eth0\<lparr>if_arp_cache := 10\<rparr>)"
  "stack_at 11 demo_ip_world = Some demo_stack" "simulator_now 7 demo_ip_world = Some 4"
  "cache_at 10 demo_ip_world = Some demo_arp_cache"
  "sim_at 7 demo_ip_world = Some \<lparr>sim_topo = 8, sim_sched = 5, sim_end_time = 0\<rparr>"
  by (simp_all add: demo_ip_world_def pkt_at_def iface_at_def stack_at_def simulator_now_def sim_at_def sched_at_def cache_at_def)
    (simp add: demo_sched_def)

lemma ip_roundtrip_witness:
  "\<exists>w1 w2 q. ip_prepend_header 0x0A000001 0x0A000002 1 4 demo_ip_world = Some (0, w1) \<and> pkt_at 4 w2 = Some q \<and>
     visible q = [1, 2] \<and>
     ip_receive (\<lambda>h i p ctx w. if h = Ip_icmp_receive \<and> ctx = VSim 7 then Some (5, w) else None) 2 4 0x0800 (VStack 11) w1 = Some (5, w2)"
proof -
  have v: "visible demo_packet = [1, 2]" by (simp add: visible_def demo_packet_def)
  have e: "st_protocols demo_stack ! 1 = \<lparr>pe_handler = Ip_icmp_receive, pe_ctx = VSim 7\<rparr>" "st_sim demo_stack = 7"
    by (simp_all add: demo_stack_def)
  have "20 \<le> pkt_data demo_packet" by (simp add: demo_packet_wf)
  from ip_roundtrip [OF demo_ip_parts(1) demo_packet_wf(1) this demo_ip_parts(2,3) e(2) demo_ip_parts(4),
      of "0x0A000001" "0x0A000002" 1
        "\<lambda>h i p ctx w. if h = Ip_icmp_receive \<and> ctx = VSim 7 then Some (5, w) else None" "0x0800"]
  show ?thesis using v e(1) by (auto simp: Let_def)
qed

end
