(* ===== verification/Icmp.thy ===== *)
theory Icmp
  imports Ip
begin

text \<open>
  ICMP (\<open>protocols/icmp.h\<close>, \<open>protocols/icmp.c\<close>): echo requests and replies, and the error messages that quote
  the packet that caused them. The checksum is in theory \<open>Checksum\<close>.
\<close>

section \<open>Operations\<close>

definition ICMP_ECHO_REPLY :: u8 where "ICMP_ECHO_REPLY = 0"
definition ICMP_DEST_UNREACH :: u8 where "ICMP_DEST_UNREACH = 3"
definition ICMP_ECHO_REQUEST :: u8 where "ICMP_ECHO_REQUEST = 8"
definition ICMP_TIME_EXCEEDED :: u8 where "ICMP_TIME_EXCEEDED = 11"
definition ICMP_CODE_NET_UNREACH :: u8 where "ICMP_CODE_NET_UNREACH = 0"
definition ICMP_CODE_HOST_UNREACH :: u8 where "ICMP_CODE_HOST_UNREACH = 1"
definition ICMP_CODE_PROTO_UNREACH :: u8 where "ICMP_CODE_PROTO_UNREACH = 2"
definition ICMP_CODE_PORT_UNREACH :: u8 where "ICMP_CODE_PORT_UNREACH = 3"
definition ICMP_CODE_FRAG_NEEDED :: u8 where "ICMP_CODE_FRAG_NEEDED = 4"
definition ICMP_CODE_TTL_EXCEEDED :: u8 where "ICMP_CODE_TTL_EXCEEDED = 0"
definition ICMP_HDR_LEN :: nat where "ICMP_HDR_LEN = 8"

definition IcmpHeader :: "u8 \<Rightarrow> u8 \<Rightarrow> u16 \<Rightarrow> u16 \<Rightarrow> u16 \<Rightarrow> bytes" where
  "IcmpHeader ty code checksum ident seq = [ty, code] @ put16 checksum @ put16 ident @ put16 seq"

text \<open>\<open>hdr->checksum = icmp_checksum(pkt->data, pkt->len)\<close>.\<close>

definition store_checksum :: "Packet \<Rightarrow> Packet option" where
  "store_checksum p = do { b \<leftarrow> pkt_read p 0 (pkt_len p); pkt_write 2 (put16 (icmp_checksum (Some b))) p }"

text \<open>The IP header in front of the data, \<open>pkt->data - IP_HDR_LEN\<close>.\<close>

definition ip_before :: "Packet \<Rightarrow> bytes option" where
  "ip_before p = (if pkt_data p < IP_HDR_LEN then None else read_at (pkt_head p) (pkt_data p - IP_HDR_LEN) IP_HDR_LEN)"

definition count_tx_error :: "addr \<Rightarrow> 'a ip_world_scheme \<Rightarrow> 'a ip_world_scheme option" where
  "count_tx_error iface w = iface_upd iface (\<lambda>i. i\<lparr>if_tx_errors := if_tx_errors i + 1\<rparr>) w"

definition count_rx_error :: "addr \<Rightarrow> 'a ip_world_scheme \<Rightarrow> 'a ip_world_scheme option" where
  "count_rx_error iface w = iface_upd iface (\<lambda>i. i\<lparr>if_rx_errors := if_rx_errors i + 1\<rparr>) w"

definition count_rx_drop :: "addr \<Rightarrow> 'a ip_world_scheme \<Rightarrow> 'a ip_world_scheme option" where
  "count_rx_drop iface w = iface_upd iface (\<lambda>i. i\<lparr>if_rx_dropped := if_rx_dropped i + 1\<rparr>) w"

definition payload_quote_len :: "Packet \<Rightarrow> nat" where
  "payload_quote_len orig = (if pkt_len orig < 8 then pkt_len orig else 8)"

text \<open>The test that suppresses an error about an ICMP error.\<close>

definition icmp_suppressed :: "bytes \<Rightarrow> Packet \<Rightarrow> bool option" where
  "icmp_suppressed orig_ip orig =
     (if ih_protocol (ip_load orig_ip) = IPPROTO_ICMP
      then if pkt_len orig < ICMP_HDR_LEN then Some True
        else do { b \<leftarrow> pkt_read orig 0 1; Some (b ! 0 = ICMP_DEST_UNREACH \<or> b ! 0 = ICMP_TIME_EXCEEDED) }
      else Some False)"

text \<open>The error packet that \<open>icmp_send_error\<close> fills in: the header, the quoted IP header, the quoted payload, and the
  checksum over all of it.\<close>

definition fill_error :: "u8 \<Rightarrow> u8 \<Rightarrow> u16 \<Rightarrow> Packet \<Rightarrow> Packet \<Rightarrow> Packet option" where
  "fill_error ty code next_hop_mtu orig err = do {
     err \<leftarrow> pkt_write 0 (IcmpHeader ty code 0 0 (if code = ICMP_CODE_FRAG_NEEDED then ns_htons next_hop_mtu else 0)) err;
     orig_ip \<leftarrow> ip_before orig;
     err \<leftarrow> pkt_write ICMP_HDR_LEN orig_ip err;
     quote \<leftarrow> pkt_read orig 0 (payload_quote_len orig);
     err \<leftarrow> pkt_write (ICMP_HDR_LEN + IP_HDR_LEN) quote err;
     store_checksum err
   }"

definition icmp_send_error :: "addr \<Rightarrow> addr \<Rightarrow> addr \<Rightarrow> u8 \<Rightarrow> u8 \<Rightarrow> u16 \<Rightarrow> 'a ip_world_scheme \<Rightarrow>
    (int \<times> 'a ip_world_scheme) option" where
  "icmp_send_error sim iface orig_pkt ty code next_hop_mtu w =
     (if sim = NULL \<or> iface = NULL \<or> orig_pkt = NULL then Some (- 1, w)
      else do {
        orig \<leftarrow> pkt_at orig_pkt w;
        if packet_validate_view (Some orig) IP_HDR_LEN 0 \<noteq> 0 then do { w \<leftarrow> count_tx_error iface w; Some (- 1, w) }
        else do {
          orig_ip \<leftarrow> ip_before orig;
          suppress \<leftarrow> icmp_suppressed orig_ip orig;
          if suppress then Some (0, w)
          else do {
            let error_len = ICMP_HDR_LEN + (IP_HDR_LEN + payload_quote_len orig);
            let (err_pkt, w) = packet_create error_len w;
            if err_pkt = NULL then do { w \<leftarrow> count_tx_error iface w; Some (- 1, w) }
            else do {
              err \<leftarrow> pkt_at err_pkt w;
              err \<leftarrow> fill_error ty code next_hop_mtu orig (err\<lparr>pkt_len := error_len, pkt_layer := 4\<rparr>);
              let w = pkt_put err_pkt err w;
              i \<leftarrow> iface_at iface w;
              (res, w) \<leftarrow> ip_output sim (ns_ntohl (if_ip_addr i)) (ns_ntohl (ih_src_ip (ip_load orig_ip))) IPPROTO_ICMP err_pkt w;
              if res = - 1 then do {
                w \<leftarrow> count_tx_error iface w;
                w \<leftarrow> packet_free err_pkt w;
                Some (- 1, w)
              }
              else Some (res, w)
            }
          }
        }
      })"

definition icmp_send_echo_request :: "addr \<Rightarrow> u32 \<Rightarrow> u32 \<Rightarrow> u16 \<Rightarrow> u16 \<Rightarrow> bytes option \<Rightarrow> nat \<Rightarrow> 'a ip_world_scheme \<Rightarrow>
    (int \<times> 'a ip_world_scheme) option" where
  "icmp_send_echo_request sim src_ip dst_ip ident seq payload payload_len w =
     (if sim = NULL then Some (- 1, w)
      else if 0 < payload_len \<and> payload = None then Some (- 1, w)
      else do {
        let (pkt, w) = packet_create ((ICMP_HDR_LEN + payload_len) mod 2 ^ 64) w;
        if pkt = NULL then Some (- 1, w)
        else do {
          p \<leftarrow> pkt_at pkt w;
          p \<leftarrow> pkt_write 0 (IcmpHeader ICMP_ECHO_REQUEST 0 0 (ns_htons ident) (ns_htons seq)) p;
          let p = p\<lparr>pkt_len := (ICMP_HDR_LEN + payload_len) mod 2 ^ 64, pkt_layer := 4\<rparr>;
          p \<leftarrow> (if 0 < payload_len then do {
              b \<leftarrow> payload;
              if length b < payload_len then None else pkt_write ICMP_HDR_LEN (take payload_len b) p
            } else Some p);
          p \<leftarrow> store_checksum p;
          (res, w) \<leftarrow> ip_output sim src_ip dst_ip IPPROTO_ICMP pkt (pkt_put pkt p w);
          w \<leftarrow> (if res = - 1 then packet_free pkt w else Some w);
          Some (res, w)
        }
      })"

definition icmp_send_echo_reply :: "addr \<Rightarrow> addr \<Rightarrow> addr \<Rightarrow> 'a ip_world_scheme \<Rightarrow> (int \<times> 'a ip_world_scheme) option" where
  "icmp_send_echo_reply sim iface req_pkt w =
     (if sim = NULL \<or> iface = NULL \<or> req_pkt = NULL then Some (- 1, w)
      else do {
        req \<leftarrow> pkt_at req_pkt w;
        if packet_validate_view (Some req) IP_HDR_LEN ICMP_HDR_LEN \<noteq> 0
        then do { w \<leftarrow> count_tx_error iface w; w \<leftarrow> packet_free req_pkt w; Some (- 1, w) }
        else do {
          b \<leftarrow> pkt_read req 0 ICMP_HDR_LEN;
          if b ! 0 \<noteq> ICMP_ECHO_REQUEST \<or> b ! 1 \<noteq> 0
          then do { w \<leftarrow> count_tx_error iface w; w \<leftarrow> packet_free req_pkt w; Some (- 1, w) }
          else do {
            let (reply_pkt, w) = packet_create (pkt_len req) w;
            if reply_pkt = NULL then do { w \<leftarrow> count_tx_error iface w; w \<leftarrow> packet_free req_pkt w; Some (- 1, w) }
            else do {
              r \<leftarrow> pkt_at reply_pkt w;
              data \<leftarrow> pkt_read req 0 (pkt_len req);
              r \<leftarrow> pkt_write 0 data (r\<lparr>pkt_len := pkt_len req, pkt_layer := 4\<rparr>);
              r \<leftarrow> pkt_write 0 [ICMP_ECHO_REPLY] r;
              r \<leftarrow> pkt_write 2 (put16 0) r;
              r \<leftarrow> store_checksum r;
              req_ip \<leftarrow> ip_before req;
              (res, w) \<leftarrow> ip_output sim (ns_ntohl (ih_dst_ip (ip_load req_ip))) (ns_ntohl (ih_src_ip (ip_load req_ip)))
                IPPROTO_ICMP reply_pkt (pkt_put reply_pkt r w);
              if res = - 1 then do {
                w \<leftarrow> count_tx_error iface w;
                w \<leftarrow> packet_free reply_pkt w;
                w \<leftarrow> packet_free req_pkt w;
                Some (- 1, w)
              }
              else do { w \<leftarrow> packet_free req_pkt w; Some (res, w) }
            }
          }
        }
      })"

definition icmp_send_time_exceeded :: "addr \<Rightarrow> addr \<Rightarrow> addr \<Rightarrow> 'a ip_world_scheme \<Rightarrow> (int \<times> 'a ip_world_scheme) option" where
  "icmp_send_time_exceeded sim iface orig_pkt =
     icmp_send_error sim iface orig_pkt ICMP_TIME_EXCEEDED ICMP_CODE_TTL_EXCEEDED 0"

definition icmp_send_unreach_net :: "addr \<Rightarrow> addr \<Rightarrow> addr \<Rightarrow> 'a ip_world_scheme \<Rightarrow> (int \<times> 'a ip_world_scheme) option" where
  "icmp_send_unreach_net sim iface orig_pkt =
     icmp_send_error sim iface orig_pkt ICMP_DEST_UNREACH ICMP_CODE_NET_UNREACH 0"

definition icmp_send_unreach_host :: "addr \<Rightarrow> addr \<Rightarrow> addr \<Rightarrow> 'a ip_world_scheme \<Rightarrow> (int \<times> 'a ip_world_scheme) option" where
  "icmp_send_unreach_host sim iface orig_pkt =
     icmp_send_error sim iface orig_pkt ICMP_DEST_UNREACH ICMP_CODE_HOST_UNREACH 0"

definition icmp_send_unreach_proto :: "addr \<Rightarrow> addr \<Rightarrow> addr \<Rightarrow> 'a ip_world_scheme \<Rightarrow> (int \<times> 'a ip_world_scheme) option" where
  "icmp_send_unreach_proto sim iface orig_pkt =
     icmp_send_error sim iface orig_pkt ICMP_DEST_UNREACH ICMP_CODE_PROTO_UNREACH 0"

definition icmp_send_unreach_port :: "addr \<Rightarrow> addr \<Rightarrow> addr \<Rightarrow> 'a ip_world_scheme \<Rightarrow> (int \<times> 'a ip_world_scheme) option" where
  "icmp_send_unreach_port sim iface orig_pkt =
     icmp_send_error sim iface orig_pkt ICMP_DEST_UNREACH ICMP_CODE_PORT_UNREACH 0"

definition icmp_send_frag_needed :: "addr \<Rightarrow> addr \<Rightarrow> addr \<Rightarrow> u16 \<Rightarrow> 'a ip_world_scheme \<Rightarrow> (int \<times> 'a ip_world_scheme) option" where
  "icmp_send_frag_needed sim iface orig_pkt next_hop_mtu =
     icmp_send_error sim iface orig_pkt ICMP_DEST_UNREACH ICMP_CODE_FRAG_NEEDED next_hop_mtu"

definition icmp_receive :: "addr \<Rightarrow> addr \<Rightarrow> vptr \<Rightarrow> 'a ip_world_scheme \<Rightarrow> (int \<times> 'a ip_world_scheme) option" where
  "icmp_receive iface pkt ctx w = do {
     sim \<leftarrow> as_sim ctx;
     if iface = NULL then Some (- 1, w)
     else if pkt = NULL then do { w \<leftarrow> count_rx_error iface w; Some (- 1, w) }
     else do {
       p \<leftarrow> pkt_at pkt w;
       if packet_validate_view (Some p) IP_HDR_LEN ICMP_HDR_LEN \<noteq> 0
       then do { w \<leftarrow> count_rx_error iface w; w \<leftarrow> packet_free pkt w; Some (- 1, w) }
       else do {
         b \<leftarrow> pkt_read p 0 (pkt_len p);
         if icmp_checksum (Some b) \<noteq> 0
         then do { w \<leftarrow> count_rx_error iface w; w \<leftarrow> packet_free pkt w; Some (- 1, w) }
         else if b ! 0 = ICMP_ECHO_REQUEST \<and> b ! 1 = 0 then icmp_send_echo_reply sim iface pkt w
         else if b ! 0 = ICMP_ECHO_REPLY \<and> b ! 1 = 0 \<or> b ! 0 = ICMP_DEST_UNREACH \<and> b ! 1 \<in> {0, 1, 2, 3, 4} \<or>
           b ! 0 = ICMP_TIME_EXCEEDED \<and> b ! 1 = 0
         then do { w \<leftarrow> packet_free pkt w; Some (0, w) }
         else do { w \<leftarrow> count_rx_drop iface w; w \<leftarrow> packet_free pkt w; Some (- 1, w) }
       }
     }
   }"

section \<open>Checksums of messages\<close>

interpretation icmp_ck: ones_complement "\<lambda>b. 4 \<le> length b \<and> length b \<le> 131072" net_value "\<lambda>b. icmp_checksum (Some b)" "set16 2"
proof
  fix b :: bytes and c :: u16 assume len: "4 \<le> length b \<and> length b \<le> 131072"
  then have "b \<noteq> []" by auto
  with len icmp_checksum_value [of b] show "unat (ns_ntohs (icmp_checksum (Some b))) = 65535 - ones_sum (net_value b)" by simp
  show "4 \<le> length (set16 2 c b) \<and> length (set16 2 c b) \<le> 131072" using len by simp
  show "net_value (set16 2 c b) = net_value (set16 2 0 b) + unat (ns_ntohs c)" using len by (intro net_value_set16) simp_all
qed

lemma pkt_write_set16:
  assumes "pkt_wf p" "off + 2 \<le> pkt_len p"
  obtains p' where "pkt_write off (put16 c) p = Some p'" "pkt_wf p'" "visible p' = set16 off c (visible p)"
    "p' = p\<lparr>pkt_head := pkt_head p'\<rparr>"
  using pkt_write_within [OF assms(1), of off "put16 c"] assms(2) by (metis length_put16 set16_def)

lemma store_checksum_ok:
  assumes "pkt_wf p" "4 \<le> pkt_len p" "pkt_len p \<le> 131072" "set16 2 0 (visible p) = visible p"
  obtains p' where "store_checksum p = Some p'" "pkt_wf p'" "visible p' = set16 2 (icmp_checksum (Some (visible p))) (visible p)"
    "icmp_checksum (Some (visible p')) = 0" "p' = p\<lparr>pkt_head := pkt_head p'\<rparr>"
proof -
  let ?c = "icmp_checksum (Some (visible p))"
  obtain p' where p': "pkt_write 2 (put16 ?c) p = Some p'" "pkt_wf p'" "visible p' = set16 2 ?c (visible p)"
    "p' = p\<lparr>pkt_head := pkt_head p'\<rparr>"
    using pkt_write_set16 [OF assms(1), of 2 ?c] assms(2) by auto
  moreover have "store_checksum p = Some p'" using p'(1) pkt_read_visible [OF assms(1)] by (simp add: store_checksum_def)
  moreover have "icmp_checksum (Some (visible p')) = 0"
    using icmp_ck.stored_verifies [of "visible p"] assms(1-4) p'(3) by simp
  ultimately show thesis using that by blast
qed

section \<open>Echo\<close>

text \<open>The message of an echo reply: the type changed, everything after the checksum as it was.\<close>

definition echo_reply_of :: "bytes \<Rightarrow> bytes" where
  "echo_reply_of b = (let b = set16 2 0 (ICMP_ECHO_REPLY # tl b) in set16 2 (icmp_checksum (Some b)) b)"

lemma echo_reply_of_fields:
  assumes "8 \<le> length b" "length b \<le> 131072"
  shows "length (echo_reply_of b) = length b" "echo_reply_of b ! 0 = ICMP_ECHO_REPLY" "echo_reply_of b ! 1 = b ! 1"
    "drop 4 (echo_reply_of b) = drop 4 b" "icmp_checksum (Some (echo_reply_of b)) = 0"
proof -
  let ?b = "set16 2 0 (ICMP_ECHO_REPLY # tl b)"
  have len: "length ?b = length b" using assms(1) by simp
  show "length (echo_reply_of b) = length b" using assms(1) by (simp add: echo_reply_of_def Let_def)
  show "echo_reply_of b ! 0 = ICMP_ECHO_REPLY" "echo_reply_of b ! 1 = b ! 1" "drop 4 (echo_reply_of b) = drop 4 b"
  proof -
    obtain x0 x1 x2 x3 r where b: "b = x0 # x1 # x2 # x3 # r"
      using assms(1) by (auto simp: numeral_eq_Suc Suc_le_length_iff)
    show "echo_reply_of b ! 0 = ICMP_ECHO_REPLY" "echo_reply_of b ! 1 = b ! 1" "drop 4 (echo_reply_of b) = drop 4 b"
      by (simp_all add: b echo_reply_of_def Let_def set16_def put16_def)
  qed
  show "icmp_checksum (Some (echo_reply_of b)) = 0"
    using icmp_ck.stored_verifies [of ?b] set16_twice [of 2 "ICMP_ECHO_REPLY # tl b" 0 0] assms len
    by (simp add: echo_reply_of_def Let_def)
qed

lemma head_only_len: "r = q\<lparr>pkt_head := pkt_head r\<rparr> \<Longrightarrow> pkt_len r = pkt_len q"
  by (cases r; cases q) simp

lemma head_only_trans: "r = s\<lparr>pkt_head := pkt_head r\<rparr> \<Longrightarrow> s = q\<lparr>pkt_head := pkt_head s\<rparr> \<Longrightarrow> r = q\<lparr>pkt_head := pkt_head r\<rparr>"
  by (cases r; cases s; cases q) simp

lemma fill_reply:
  assumes "pkt_wf q" "pkt_len q = length b" "8 \<le> length b" "length b \<le> 131072"
  obtains r where "do { r \<leftarrow> pkt_write 0 b q; r \<leftarrow> pkt_write 0 [ICMP_ECHO_REPLY] r; r \<leftarrow> pkt_write 2 (put16 0) r; store_checksum r } = Some r"
    "pkt_wf r" "visible r = echo_reply_of b" "r = q\<lparr>pkt_head := pkt_head r\<rparr>"
proof -
  obtain r1 where 1: "pkt_write 0 b q = Some r1" "pkt_wf r1" "visible r1 = b" "r1 = q\<lparr>pkt_head := pkt_head r1\<rparr>"
    by (rule pkt_write_within [OF assms(1), of 0 b]) (use assms in auto)
  have l1: "pkt_len r1 = length b" using head_only_len [OF 1(4)] assms(2) by simp
  obtain r2 where 2: "pkt_write 0 [ICMP_ECHO_REPLY] r1 = Some r2" "pkt_wf r2" "visible r2 = ICMP_ECHO_REPLY # tl b"
      "r2 = r1\<lparr>pkt_head := pkt_head r2\<rparr>"
    by (rule pkt_write_within [OF 1(2), of 0 "[ICMP_ECHO_REPLY]"]) (use assms(3) l1 1(3) in \<open>auto simp: drop_Suc\<close>)
  have l2: "pkt_len r2 = length b" using head_only_len [OF 2(4)] l1 by simp
  obtain r3 where 3: "pkt_write 2 (put16 0) r2 = Some r3" "pkt_wf r3" "visible r3 = set16 2 0 (ICMP_ECHO_REPLY # tl b)"
      "r3 = r2\<lparr>pkt_head := pkt_head r3\<rparr>"
    using pkt_write_set16 [OF 2(2), of 2 0] 2(3) l2 assms(3) by auto
  have l3: "pkt_len r3 = length b" using head_only_len [OF 3(4)] l2 by simp
  have z: "set16 2 0 (visible r3) = visible r3" unfolding 3(3) using assms(3) by (intro set16_twice) simp
  obtain r where "store_checksum r3 = Some r" "pkt_wf r" "visible r = set16 2 (icmp_checksum (Some (visible r3))) (visible r3)"
      "r = r3\<lparr>pkt_head := pkt_head r\<rparr>"
    using store_checksum_ok [OF 3(2) _ _ z] l3 assms(3,4) by auto
  moreover have "visible r = echo_reply_of b" using calculation(3) 3(3) by (simp add: echo_reply_of_def Let_def)
  moreover have "r = q\<lparr>pkt_head := pkt_head r\<rparr>" 
    by (intro head_only_trans [OF calculation(4)] head_only_trans [OF 3(4)] head_only_trans [OF 2(4) 1(4)])
  ultimately show thesis using that 1(1) 2(1) 3(1) by simp
qed

lemma ip_before_ok:
  assumes "pkt_wf p" "20 \<le> pkt_data p"
  shows "ip_before p = Some (take 20 (drop (pkt_data p - 20) (pkt_head p)))"
proof -
  have "pkt_data p - 20 + 20 \<le> length (pkt_head p)" using assms by (simp add: pkt_wf_def)
  then show ?thesis using assms(2) by (simp add: ip_before_def IP_HDR_LEN_def read_at_def)
qed

text \<open>What is left after the reply was handed to \<open>ip_output\<close>.\<close>

definition after_reply :: "addr \<Rightarrow> addr \<Rightarrow> addr \<Rightarrow> int \<times> 'a ip_world_scheme \<Rightarrow> (int \<times> 'a ip_world_scheme) option" where
  "after_reply iface reply_pkt req_pkt = (\<lambda>(res, w).
     if res = - 1 then do {
       w \<leftarrow> count_tx_error iface w;
       w \<leftarrow> packet_free reply_pkt w;
       w \<leftarrow> packet_free req_pkt w;
       Some (- 1, w)
     }
     else do { w \<leftarrow> packet_free req_pkt w; Some (res, w) })"

lemma echo_reply_outcome:
  assumes "pkt_at req w = Some p" "pkt_wf p" "20 \<le> pkt_data p" "8 \<le> pkt_len p" "pkt_len p \<le> 131072"
    and "visible p ! 0 = ICMP_ECHO_REQUEST" "visible p ! 1 = 0" "ip_before p = Some ip"
    and "packet_create (pkt_len p) w = (reply, w1)" "reply \<noteq> NULL" "sim \<noteq> NULL" "iface \<noteq> NULL"
  shows "\<exists>w2 r. pkt_at reply w2 = Some r \<and> pkt_wf r \<and> visible r = echo_reply_of (visible p) \<and> pkt_data r = PKT_HEADROOM \<and>
    icmp_send_echo_reply sim iface req w =
      do { res \<leftarrow> ip_output sim (ns_ntohl (ih_dst_ip (ip_load ip))) (ns_ntohl (ih_src_ip (ip_load ip))) IPPROTO_ICMP reply w2;
           after_reply iface reply req res }"
proof -
  have nn: "req \<noteq> NULL" by (rule pkt_at_nonnull [OF assms(1)])
  have rd: "pkt_read p 0 8 = Some (take 8 (visible p))" "pkt_read p 0 (pkt_len p) = Some (visible p)"
    using pkt_read_within [OF assms(2), of 0 8] pkt_read_visible [OF assms(2)] assms(4) by simp_all
  obtain q where q: "pkt_at reply w1 = Some q" "pkt_wf q" "pkt_data q = PKT_HEADROOM" "pkt_capacity q = pkt_len p"
    using packet_create_wf [OF assms(9,10)] by blast
  let ?q = "q\<lparr>pkt_len := pkt_len p, pkt_layer := 4\<rparr>"
  have wq: "pkt_wf ?q" "pkt_len ?q = length (visible p)" using q assms(2) by (simp_all add: pkt_wf_def)
  obtain r where r: "do { r \<leftarrow> pkt_write 0 (visible p) ?q; r \<leftarrow> pkt_write 0 [ICMP_ECHO_REPLY] r; r \<leftarrow> pkt_write 2 (put16 0) r;
      store_checksum r } = Some r" "pkt_wf r" "visible r = echo_reply_of (visible p)" "r = ?q\<lparr>pkt_head := pkt_head r\<rparr>"
    using fill_reply [OF wq] assms(2,4,5) by auto
  then obtain r1 r2 r3 where s: "pkt_write 0 (visible p) ?q = Some r1" "pkt_write 0 [ICMP_ECHO_REPLY] r1 = Some r2"
    "pkt_write 2 (put16 0) r2 = Some r3" "store_checksum r3 = Some r" by (auto simp: bind_eq_Some_conv)
  have d: "pkt_data r = PKT_HEADROOM" using arg_cong [OF r(4), of pkt_data] q(3) by simp
  have vw: "packet_validate_view (Some p) IP_HDR_LEN ICMP_HDR_LEN = 0"
    using assms(2-4) by (simp add: validate_view_wf IP_HDR_LEN_def ICMP_HDR_LEN_def)
  have "icmp_send_echo_reply sim iface req w =
      do { res \<leftarrow> ip_output sim (ns_ntohl (ih_dst_ip (ip_load ip))) (ns_ntohl (ih_src_ip (ip_load ip))) IPPROTO_ICMP reply (pkt_put reply r w1);
           after_reply iface reply req res }"
    using assms(1,4,6-12) nn vw rd q(1) s by (simp add: icmp_send_echo_reply_def ICMP_HDR_LEN_def after_reply_def)
  then show ?thesis using r d assms(10) by (intro exI [of _ "pkt_put reply r w1"] exI [of _ r]) simp
qed


section \<open>Errors\<close>

text \<open>The error message about a packet: type and code, the unused or MTU word, and the quote.\<close>

definition error_message :: "u8 \<Rightarrow> u8 \<Rightarrow> u16 \<Rightarrow> bytes \<Rightarrow> bytes \<Rightarrow> bytes" where
  "error_message ty code mtu ip payload =
     (let b = IcmpHeader ty code 0 0 (if code = ICMP_CODE_FRAG_NEEDED then ns_htons mtu else 0) @ ip @ take 8 payload
      in set16 2 (icmp_checksum (Some b)) b)"

lemma pkt_write_at_end:
  assumes "pkt_wf p" "off + length bs = pkt_len p"
  obtains p' where "pkt_write off bs p = Some p'" "pkt_wf p'" "visible p' = take off (visible p) @ bs"
    "p' = p\<lparr>pkt_head := pkt_head p'\<rparr>"
  by (rule pkt_write_within [OF assms(1), of off bs]) (use assms in auto)

lemma length_IcmpHeader [simp]: "length (IcmpHeader ty code ck i s) = 8"
  by (simp add: IcmpHeader_def)

lemma fill_error_ok:
  assumes "pkt_wf e" "pkt_wf orig" "ip_before orig = Some ip" "length ip = 20" "pkt_len e = 28 + min 8 (pkt_len orig)"
  obtains e' where "fill_error ty code mtu orig e = Some e'" "pkt_wf e'" "visible e' = error_message ty code mtu ip (visible orig)"
    "icmp_checksum (Some (visible e')) = 0" "e' = e\<lparr>pkt_head := pkt_head e'\<rparr>"
proof -
  let ?n = "min 8 (pkt_len orig)"
  let ?h = "IcmpHeader ty code 0 0 (if code = ICMP_CODE_FRAG_NEEDED then ns_htons mtu else 0)"
  let ?b = "?h @ ip @ take 8 (visible orig)"
  obtain e1 where 1: "pkt_write 0 ?h e = Some e1" "pkt_wf e1" "visible e1 = ?h @ drop 8 (visible e)" "e1 = e\<lparr>pkt_head := pkt_head e1\<rparr>"
    by (rule pkt_write_within [OF assms(1), of 0 ?h]) (use assms(5) in auto)
  have l1: "pkt_len e1 = 28 + ?n" using head_only_len [OF 1(4)] assms(5) by simp
  obtain e2 where 2: "pkt_write 8 ip e1 = Some e2" "pkt_wf e2" "visible e2 = ?h @ ip @ drop 28 (visible e)" "e2 = e1\<lparr>pkt_head := pkt_head e2\<rparr>"
    by (rule pkt_write_within [OF 1(2), of 8 ip]) (use l1 1(3) assms(4) in auto)
  have l2: "pkt_len e2 = 28 + ?n" using head_only_len [OF 2(4)] l1 by simp
  have q: "pkt_read orig 0 ?n = Some (take 8 (visible orig))"
    using pkt_read_within [OF assms(2), of 0 ?n] assms(2) by (simp add: min_def)
  have lq: "length (take 8 (visible orig)) = ?n" using assms(2) by simp
  obtain e3 where 3: "pkt_write 28 (take 8 (visible orig)) e2 = Some e3" "pkt_wf e3" "visible e3 = ?b" "e3 = e2\<lparr>pkt_head := pkt_head e3\<rparr>"
    by (rule pkt_write_at_end [OF 2(2), of 28 "take 8 (visible orig)"]) (use l2 lq 2(3) assms(4) in auto)
  have l3: "pkt_len e3 = 28 + ?n" using head_only_len [OF 3(4)] l2 by simp
  have b3: "4 \<le> pkt_len e3" "pkt_len e3 \<le> 131072" using l3 by auto
  have z: "set16 2 0 (visible e3) = visible e3" by (simp add: 3(3) set16_def IcmpHeader_def put16_def)
  obtain e' where "store_checksum e3 = Some e'" "pkt_wf e'" "visible e' = set16 2 (icmp_checksum (Some ?b)) ?b"
    "icmp_checksum (Some (visible e')) = 0" "e' = e3\<lparr>pkt_head := pkt_head e'\<rparr>"
    using store_checksum_ok [OF 3(2) b3 z] unfolding 3(3) by blast
  moreover have "e' = e\<lparr>pkt_head := pkt_head e'\<rparr>"
    by (intro head_only_trans [OF calculation(5)] head_only_trans [OF 3(4)] head_only_trans [OF 2(4) 1(4)])
  moreover have "fill_error ty code mtu orig e = Some e'"
    using 1(1) 2(1) 3(1) calculation(1) q assms(3)
    by (auto simp: fill_error_def ICMP_HDR_LEN_def IP_HDR_LEN_def payload_quote_len_def min_def split: if_splits)
  ultimately show thesis using that by (simp add: error_message_def Let_def)
qed

text \<open>What is left after the error was handed to \<open>ip_output\<close>.\<close>

definition after_error :: "addr \<Rightarrow> addr \<Rightarrow> int \<times> 'a ip_world_scheme \<Rightarrow> (int \<times> 'a ip_world_scheme) option" where
  "after_error iface err_pkt = (\<lambda>(res, w).
     if res = - 1 then do { w \<leftarrow> count_tx_error iface w; w \<leftarrow> packet_free err_pkt w; Some (- 1, w) } else Some (res, w))"

text \<open>An error about an ICMP error, or about an ICMP message that is cut short, is not sent.\<close>

definition about_error :: "bytes \<Rightarrow> bytes \<Rightarrow> bool" where
  "about_error ip b \<longleftrightarrow> ih_protocol (ip_load ip) = IPPROTO_ICMP \<and>
     (length b < 8 \<or> b ! 0 = ICMP_DEST_UNREACH \<or> b ! 0 = ICMP_TIME_EXCEEDED)"

lemma suppress_test:
  assumes "pkt_wf p"
  shows "icmp_suppressed ip p = Some (about_error ip (visible p))"
proof (cases "pkt_len p < 8")
  case False
  then have "pkt_read p 0 1 = Some (take 1 (visible p))" using pkt_read_within [OF assms, of 0 1] by simp
  then show ?thesis using False assms by (simp add: icmp_suppressed_def about_error_def ICMP_HDR_LEN_def)
qed (use assms in \<open>simp add: icmp_suppressed_def about_error_def ICMP_HDR_LEN_def\<close>)

lemma icmp_send_error_outcome:
  assumes "pkt_at pkt w = Some p" "pkt_wf p" "20 \<le> pkt_data p" "iface_at iface w = Some i" "sim \<noteq> NULL"
    and "packet_create (28 + min 8 (pkt_len p)) w = (err, w1)" "err \<noteq> NULL"
  shows "\<exists>ip w2 e. ip_before p = Some ip \<and> pkt_at err w2 = Some e \<and> pkt_wf e \<and>
    visible e = error_message ty code mtu ip (visible p) \<and> icmp_checksum (Some (visible e)) = 0 \<and>
    icmp_send_error sim iface pkt ty code mtu w =
      (if about_error ip (visible p) then Some (0, w)
       else do { res \<leftarrow> ip_output sim (ns_ntohl (if_ip_addr i)) (ns_ntohl (ih_src_ip (ip_load ip))) IPPROTO_ICMP err w2;
                 after_error iface err res })"
proof -
  let ?ip = "take 20 (drop (pkt_data p - 20) (pkt_head p))"
  note ip = ip_before_ok [OF assms(2,3)]
  have lip: "length ?ip = 20" using assms(2,3) by (auto simp: pkt_wf_def min_def)
  have nn: "pkt \<noteq> NULL" "iface \<noteq> NULL" using assms(1,4) by (auto dest: pkt_at_nonnull iface_at_nonnull)
  have vw: "packet_validate_view (Some p) IP_HDR_LEN 0 = 0" using assms(2,3) by (simp add: validate_view_wf IP_HDR_LEN_def)
  obtain q where q: "pkt_at err w1 = Some q" "pkt_wf q" "pkt_data q = PKT_HEADROOM" "pkt_capacity q = 28 + min 8 (pkt_len p)"
    using packet_create_wf [OF assms(6,7)] by blast
  let ?q = "q\<lparr>pkt_len := 28 + min 8 (pkt_len p), pkt_layer := 4\<rparr>"
  have wq: "pkt_wf ?q" using q by (simp add: pkt_wf_def)
  obtain e where e: "fill_error ty code mtu p ?q = Some e" "pkt_wf e" "visible e = error_message ty code mtu ?ip (visible p)"
    "icmp_checksum (Some (visible e)) = 0"
    by (rule fill_error_ok [OF wq assms(2) ip lip, of ty code mtu]) simp_all
  have i1: "iface_at iface w1 = Some i" using pkt_frame_ifaces [OF packet_create_frame [OF assms(6)]] assms(4) by simp
  have n: "ICMP_HDR_LEN + (IP_HDR_LEN + payload_quote_len p) = 28 + min 8 (pkt_len p)"
    by (simp add: ICMP_HDR_LEN_def IP_HDR_LEN_def payload_quote_len_def)
  have "icmp_send_error sim iface pkt ty code mtu w =
      (if about_error ?ip (visible p) then Some (0, w)
       else do { res \<leftarrow> ip_output sim (ns_ntohl (if_ip_addr i)) (ns_ntohl (ih_src_ip (ip_load ?ip))) IPPROTO_ICMP err (pkt_put err e w1);
                 after_error iface err res })"
    using assms(1,5-7) nn vw ip q(1) e(1) i1
    by (simp add: icmp_send_error_def suppress_test [OF assms(2)] after_error_def n)
  then show ?thesis using ip e assms(7)
    by (intro exI [of _ ?ip] exI [of _ "pkt_put err e w1"] exI [of _ e]) simp
qed


section \<open>Instances\<close>

text \<open>An echo request behind its IP header.\<close>

definition demo_request :: Packet where
  "demo_request = \<lparr>pkt_head = replicate 44 0 @ ip_bytes (new_ip_header 0x0A000002 0x0A000001 1 8) @ [8, 0, 0xF7, 0xFF, 0, 0, 0, 0],
     pkt_data = 64, pkt_len = 8, pkt_capacity = 8, pkt_id = 4, pkt_trace_id = 4, pkt_parent_id = 0, pkt_layer = 4\<rparr>"

definition demo_icmp_world :: ip_world where
  "demo_icmp_world = demo_ip_world\<lparr>w_pkts := [4 \<mapsto> demo_request]\<rparr>"

lemma demo_request_parts:
  "pkt_at 4 demo_icmp_world = Some demo_request" "pkt_wf demo_request" "20 \<le> pkt_data demo_request" "8 \<le> pkt_len demo_request"
  "pkt_len demo_request \<le> 131072" "visible demo_request = [8, 0, 0xF7, 0xFF, 0, 0, 0, 0]"
  "iface_at 2 demo_icmp_world = Some (demo_eth0\<lparr>if_arp_cache := 10\<rparr>)" "mem_oom (w_mem demo_icmp_world) = []"
  by (simp_all add: demo_icmp_world_def demo_ip_world_def pkt_at_def demo_request_def pkt_wf_def PKT_HEADROOM_def
      SIZE_MAX_def visible_def iface_at_def)

lemma demo_request_ip: "ip_before demo_request = Some (ip_bytes (new_ip_header 0x0A000002 0x0A000001 1 8))"
  by (simp add: ip_before_def demo_request_def IP_HDR_LEN_def read_at_def)

lemma demo_request_checksum: "icmp_checksum (Some (visible demo_request)) = 0"
  using icmp_ck.ck_zero_iff [of "[8, 0, 0xF7, 0xFF, 0, 0, 0, 0]"] by (simp add: demo_request_parts ones_sum_def)

lemma demo_request_load: "ip_load (ip_bytes h) = h"
  using ip_load_bytes [of h "[]"] by simp

lemma demo_icmp_create: "packet_create n demo_icmp_world = (a, w) \<Longrightarrow> n \<le> 100 \<Longrightarrow> a \<noteq> NULL"
  using packet_create_plenty [OF demo_request_parts(8), of n] by (simp add: PKT_HEADROOM_def PTRDIFF_MAX_def)



end
