(* ===== verification/Udp.thy ===== *)
theory Udp
  imports Icmp
begin

text \<open>
  UDP (\<open>protocols/udp.h\<close>, \<open>protocols/udp.c\<close>): a table of bound ports, sending, and reception with a port
  unreachable message for a port that nobody bound. Calling the handler of a socket is the argument \<open>ucall\<close> of
  \<open>udp_receive\<close>.
\<close>

section \<open>State\<close>

datatype Udp_Recv_Handler =
    Udp_NULL
  | Udp_rip_receive
  | Udp_extern nat

record UdpSocket =
  us_port :: u16
  us_valid :: int
  us_recv_handler :: Udp_Recv_Handler
  us_ctx :: vptr

record UdpState =
  ud_sockets :: "UdpSocket list"
  ud_count :: int

record UdpContext =
  uc_sim :: addr
  uc_state :: addr

record udp_world = ip_world +
  w_udps :: "addr \<rightharpoonup> UdpState"
  w_udp_ctxs :: "addr \<rightharpoonup> UdpContext"

definition udp_at :: "addr \<Rightarrow> 'a udp_world_scheme \<Rightarrow> UdpState option" where
  "udp_at a w = (if a = NULL then None else w_udps w a)"

definition udp_put :: "addr \<Rightarrow> UdpState \<Rightarrow> 'a udp_world_scheme \<Rightarrow> 'a udp_world_scheme" where
  "udp_put a s w = w\<lparr>w_udps := (w_udps w)(a \<mapsto> s)\<rparr>"

definition udp_ctx_at :: "addr \<Rightarrow> 'a udp_world_scheme \<Rightarrow> UdpContext option" where
  "udp_ctx_at a w = (if a = NULL then None else w_udp_ctxs w a)"

definition as_udp_ctx :: "vptr \<Rightarrow> addr option" where
  "as_udp_ctx v = (case v of VNull \<Rightarrow> Some NULL | VUdpCtx a \<Rightarrow> Some a | _ \<Rightarrow> None)"

definition UDP_HDR_LEN :: nat where "UDP_HDR_LEN = 8"
definition UDP_MAX_SOCKETS :: nat where "UDP_MAX_SOCKETS = 32"

definition UdpHeader :: "u16 \<Rightarrow> u16 \<Rightarrow> u16 \<Rightarrow> u16 \<Rightarrow> bytes" where
  "UdpHeader src_port dst_port len checksum = put16 src_port @ put16 dst_port @ put16 len @ put16 checksum"

section \<open>Sockets\<close>

definition udp_init :: "UdpState option \<Rightarrow> UdpState option" where
  "udp_init state = map_option (\<lambda>s. s\<lparr>ud_sockets := map (\<lambda>k. k\<lparr>us_valid := 0\<rparr>) (ud_sockets s), ud_count := 0\<rparr>) state"

definition udp_bind :: "UdpState option \<Rightarrow> u16 \<Rightarrow> Udp_Recv_Handler \<Rightarrow> vptr \<Rightarrow> int \<times> UdpState option" where
  "udp_bind state port recv_handler ctx = (case state of None \<Rightarrow> (- 1, None) | Some s \<Rightarrow>
     if recv_handler = Udp_NULL \<or> port = 0 then (- 1, state)
     else (case first_idx (\<lambda>k. us_valid k \<noteq> 0 \<and> us_port k = port) (ud_sockets s) of
       Some _ \<Rightarrow> (- 1, state)
     | None \<Rightarrow> (case first_idx (\<lambda>k. us_valid k = 0) (ud_sockets s) of
         Some i \<Rightarrow> (0, Some (s\<lparr>ud_sockets := (ud_sockets s)[i :=
             \<lparr>us_port = port, us_valid = 1, us_recv_handler = recv_handler, us_ctx = ctx\<rparr>],
             ud_count := ud_count s + 1\<rparr>))
       | None \<Rightarrow> (- 1, state))))"

definition udp_unbind :: "UdpState option \<Rightarrow> u16 \<Rightarrow> int \<times> UdpState option" where
  "udp_unbind state port = (case state of None \<Rightarrow> (- 1, None) | Some s \<Rightarrow>
     if port = 0 then (- 1, state)
     else (case first_idx (\<lambda>k. us_valid k = 1 \<and> us_port k = port) (ud_sockets s) of
       Some i \<Rightarrow> (0, Some (s\<lparr>ud_sockets := (ud_sockets s)[i := (ud_sockets s ! i)\<lparr>us_valid := 0, us_port := 0\<rparr>],
           ud_count := ud_count s - 1\<rparr>))
     | None \<Rightarrow> (- 1, state)))"

section \<open>Datagrams\<close>

definition udp_send :: "addr \<Rightarrow> u32 \<Rightarrow> u32 \<Rightarrow> u16 \<Rightarrow> u16 \<Rightarrow> bytes option \<Rightarrow> nat \<Rightarrow> 'a udp_world_scheme \<Rightarrow>
    (int \<times> 'a udp_world_scheme) option" where
  "udp_send sim src_ip dst_ip src_port dst_port payload payload_len w =
     (if sim = NULL \<or> dst_port = 0 \<or> (0 < payload_len \<and> payload = None) then Some (- 1, w)
      else if 65535 - UDP_HDR_LEN < payload_len then Some (- 1, w)
      else do {
        let (pkt, w) = packet_create (UDP_HDR_LEN + payload_len) w;
        if pkt = NULL then Some (- 1, w)
        else do {
          p \<leftarrow> pkt_at pkt w;
          p \<leftarrow> pkt_write 0 (UdpHeader (ns_htons src_port) (ns_htons dst_port) (ns_htons (of_nat (UDP_HDR_LEN + payload_len))) 0) p;
          p \<leftarrow> (if 0 < payload_len then do {
              b \<leftarrow> payload;
              if length b < payload_len then None else pkt_write UDP_HDR_LEN (take payload_len b) p
            } else Some p);
          let w = pkt_put pkt (p\<lparr>pkt_len := UDP_HDR_LEN + payload_len, pkt_layer := 4\<rparr>) w;
          (res, w) \<leftarrow> ip_output sim src_ip dst_ip IPPROTO_UDP pkt w;
          if res = - 1 then do { w \<leftarrow> packet_free pkt w; Some (- 1, w) } else Some (0, w)
        }
      })"

type_synonym 'a udp_call =
  "Udp_Recv_Handler \<Rightarrow> addr \<Rightarrow> u32 \<Rightarrow> u16 \<Rightarrow> addr \<Rightarrow> vptr \<Rightarrow> 'a udp_world_scheme \<Rightarrow> 'a udp_world_scheme option"

text \<open>The error exits of \<open>udp_receive\<close> free the packet and count the error.\<close>

definition udp_discard :: "addr \<Rightarrow> addr \<Rightarrow> 'a udp_world_scheme \<Rightarrow> (int \<times> 'a udp_world_scheme) option" where
  "udp_discard iface pkt w = do { w \<leftarrow> packet_free pkt w; w \<leftarrow> count_rx_error iface w; Some (- 1, w) }"

definition udp_receive :: "'a udp_call \<Rightarrow> addr \<Rightarrow> addr \<Rightarrow> vptr \<Rightarrow> 'a udp_world_scheme \<Rightarrow>
    (int \<times> 'a udp_world_scheme) option" where
  "udp_receive ucall iface pkt ctx w =
     (if iface = NULL then Some (- 1, w)
      else if pkt = NULL then do { w \<leftarrow> count_rx_error iface w; Some (- 1, w) }
      else do {
        udp_ctx \<leftarrow> as_udp_ctx ctx;
        if udp_ctx = NULL then udp_discard iface pkt w
        else do {
          c \<leftarrow> udp_ctx_at udp_ctx w;
          if uc_state c = NULL then udp_discard iface pkt w
          else do {
            p \<leftarrow> pkt_at pkt w;
            if packet_validate_view (Some p) IP_HDR_LEN UDP_HDR_LEN \<noteq> 0 then udp_discard iface pkt w
            else do {
              ip_hdr \<leftarrow> ip_before p;
              if ih_protocol (ip_load ip_hdr) \<noteq> IPPROTO_UDP then udp_discard iface pkt w
              else do {
                b \<leftarrow> pkt_read p 0 UDP_HDR_LEN;
                let src_port = ns_ntohs (get16 b 0);
                let dst_port = ns_ntohs (get16 b 2);
                let udp_len = ns_ntohs (get16 b 4);
                let src_ip = ns_ntohl (ih_src_ip (ip_load ip_hdr));
                if unat udp_len < UDP_HDR_LEN then udp_discard iface pkt w
                else if pkt_len p < unat udp_len then udp_discard iface pkt w
                else do {
                  s \<leftarrow> udp_at (uc_state c) w;
                  case first_idx (\<lambda>k. us_valid k = 1 \<and> us_port k = dst_port) (ud_sockets s) of
                    Some i \<Rightarrow> do {
                      (r, w) \<leftarrow> packet_strip pkt UDP_HDR_LEN w;
                      if r < 0 then udp_discard iface pkt w
                      else do {
                        p \<leftarrow> pkt_at pkt w;
                        let w = pkt_put pkt (p\<lparr>pkt_layer := 5\<rparr>) w;
                        w \<leftarrow> ucall (us_recv_handler (ud_sockets s ! i)) iface src_ip src_port pkt (us_ctx (ud_sockets s ! i)) w;
                        Some (0, w)
                      }
                    }
                  | None \<Rightarrow>
                      if uc_sim c \<noteq> NULL then icmp_send_unreach_port (uc_sim c) iface pkt w
                      else do { w \<leftarrow> packet_free pkt w; w \<leftarrow> count_rx_drop iface w; Some (- 1, w) }
                }
              }
            }
          }
        }
      })"

section \<open>The table as a map\<close>

interpretation socks: slot_array "\<lambda>k. us_valid k \<noteq> 0" us_port "\<lambda>k. k\<lparr>us_valid := 0, us_port := 0\<rparr>"
  by unfold_locales simp

definition udp_wf :: "UdpState \<Rightarrow> bool" where
  "udp_wf s \<longleftrightarrow> length (ud_sockets s) = UDP_MAX_SOCKETS \<and> socks.unique (ud_sockets s) \<and>
     ud_count s = int (socks.live_count (ud_sockets s)) \<and>
     (\<forall>k \<in> set (ud_sockets s). us_valid k \<noteq> 0 \<longrightarrow> us_valid k = 1 \<and> us_port k \<noteq> 0 \<and> us_recv_handler k \<noteq> Udp_NULL)"

definition udp_map :: "UdpState \<Rightarrow> u16 \<Rightarrow> (Udp_Recv_Handler \<times> vptr) option" where
  "udp_map s port = map_option (\<lambda>k. (us_recv_handler k, us_ctx k)) (socks.lookup (ud_sockets s) port)"

lemma udp_find:
  "udp_wf s \<Longrightarrow> first_idx (\<lambda>k. us_valid k = 1 \<and> us_port k = port) (ud_sockets s) = socks.find_key port (ud_sockets s)"
  unfolding socks.find_key_def by (intro first_idx_cong) (auto simp: udp_wf_def)

lemma udp_bound: "first_idx (\<lambda>k. us_valid k \<noteq> 0 \<and> us_port k = port) ss = socks.find_key port ss"
  by (simp add: socks.find_key_def)

lemma udp_free: "first_idx (\<lambda>k. us_valid k = 0) ss = socks.find_free ss"
  by (simp add: socks.find_free_def)

lemma udp_wf_update:
  assumes "udp_wf s" "us_valid k \<noteq> 0 \<longrightarrow> us_valid k = 1 \<and> us_port k \<noteq> 0 \<and> us_recv_handler k \<noteq> Udp_NULL"
    and "socks.unique ((ud_sockets s)[i := k])" "n = int (socks.live_count ((ud_sockets s)[i := k]))"
  shows "udp_wf (s\<lparr>ud_sockets := (ud_sockets s)[i := k], ud_count := n\<rparr>)"
proof -
  have "set ((ud_sockets s)[i := k]) \<subseteq> insert k (set (ud_sockets s))" by (rule set_update_subset_insert)
  then show ?thesis using assms unfolding udp_wf_def by auto
qed

lemma udp_map_None: "udp_map s port = None \<longleftrightarrow> socks.find_key port (ud_sockets s) = None"
  by (simp add: udp_map_def socks.lookup_def)

lemma udp_full_iff: "udp_wf s \<Longrightarrow> ud_count s < 32 \<longleftrightarrow> socks.find_free (ud_sockets s) \<noteq> None"
proof -
  assume wf: "udp_wf s"
  let ?P = "\<lambda>k. us_valid k \<noteq> (0 :: int)"
  have "length (filter ?P (ud_sockets s)) \<le> 32" using wf length_filter_le [of ?P "ud_sockets s"]
    by (simp add: udp_wf_def UDP_MAX_SOCKETS_def)
  moreover have "ud_count s = int (length (filter ?P (ud_sockets s)))" using wf by (simp add: udp_wf_def socks.live_count_def)
  moreover have "length (filter ?P (ud_sockets s)) = 32 \<longleftrightarrow> (\<forall>k \<in> set (ud_sockets s). ?P k)"
    using length_filter_full [of ?P "ud_sockets s"] wf by (simp add: udp_wf_def UDP_MAX_SOCKETS_def)
  moreover have "socks.find_free (ud_sockets s) = None \<longleftrightarrow> (\<forall>k \<in> set (ud_sockets s). ?P k)"
    by (simp add: socks.find_free_def first_idx_None)
  ultimately show ?thesis by auto
qed

lemma udp_bind_outcome:
  assumes "udp_wf s"
  shows "\<exists>r s'. udp_bind (Some s) port h ctx = (r, Some s') \<and> udp_wf s' \<and>
    (if h \<noteq> Udp_NULL \<and> port \<noteq> 0 \<and> udp_map s port = None \<and> ud_count s < 32
     then r = 0 \<and> udp_map s' = (udp_map s)(port \<mapsto> (h, ctx)) else r = - 1 \<and> s' = s)"
proof (cases "h \<noteq> Udp_NULL \<and> port \<noteq> 0 \<and> udp_map s port = None \<and> ud_count s < 32")
  case False
  then show ?thesis using assms
    by (auto simp: udp_bind_def udp_bound udp_free udp_map_None udp_full_iff split: option.splits)
next
  case True
  then obtain i where i: "socks.find_free (ud_sockets s) = Some i" using udp_full_iff [OF assms] by auto
  let ?k = "\<lparr>us_port = port, us_valid = 1, us_recv_handler = h, us_ctx = ctx\<rparr>"
  let ?s = "s\<lparr>ud_sockets := (ud_sockets s)[i := ?k], ud_count := ud_count s + 1\<rparr>"
  have u: "socks.unique (ud_sockets s)" "ud_count s = int (socks.live_count (ud_sockets s))"
    using assms by (simp_all add: udp_wf_def)
  have fk: "socks.find_key (us_port ?k) (ud_sockets s) = None" using True by (simp add: udp_map_None)
  note f = socks.find_free_Some [OF i]
  have "udp_wf ?s" using True socks.unique_fill [OF u(1) fk, of i] socks.live_count_fill [of i "ud_sockets s" ?k] f u(2)
    by (intro udp_wf_update [OF assms]) simp_all
  moreover have "udp_map ?s = (udp_map s)(port \<mapsto> (h, ctx))"
    using socks.lookup_fill [OF u(1) fk, of i] f by (auto simp: udp_map_def)
  moreover have "udp_bind (Some s) port h ctx = (0, Some ?s)"
    using True i fk by (simp add: udp_bind_def udp_bound udp_free)
  ultimately show ?thesis using True by auto
qed

lemma udp_unbind_outcome:
  assumes "udp_wf s"
  shows "\<exists>r s'. udp_unbind (Some s) port = (r, Some s') \<and> udp_wf s' \<and>
    (if port \<noteq> 0 \<and> udp_map s port \<noteq> None then r = 0 \<and> udp_map s' = (udp_map s)(port := None) else r = - 1 \<and> s' = s)"
proof (cases "port \<noteq> 0 \<and> udp_map s port \<noteq> None")
  case False
  then show ?thesis using assms by (auto simp: udp_unbind_def udp_find udp_map_None)
next
  case True
  then obtain i where i: "socks.find_key port (ud_sockets s) = Some i" using udp_map_None by auto
  let ?k = "(ud_sockets s ! i)\<lparr>us_valid := 0, us_port := 0\<rparr>"
  let ?s = "s\<lparr>ud_sockets := (ud_sockets s)[i := ?k], ud_count := ud_count s - 1\<rparr>"
  have u: "socks.unique (ud_sockets s)" "ud_count s = int (socks.live_count (ud_sockets s))"
    using assms by (simp_all add: udp_wf_def)
  note f = socks.find_key_Some [OF i]
  have "udp_wf ?s" using socks.unique_dead [OF u(1), of ?k i] socks.live_count_dead [of i "ud_sockets s" ?k] f u(2)
    by (intro udp_wf_update [OF assms]) simp_all
  moreover have "udp_map ?s = (udp_map s)(port := None)"
    using socks.lookup_dead [OF u(1), of i ?k] f by (auto simp: udp_map_def)
  moreover have "udp_unbind (Some s) port = (0, Some ?s)" using True i assms by (simp add: udp_unbind_def udp_find)
  ultimately show ?thesis using True by auto
qed

text \<open>Binding and unbinding a port on a well-formed socket table, on every branch. Binding succeeds exactly when
  handler and port are given, the port is not bound and one of the 32 sockets is free, and then the port is bound to
  exactly this handler and context; unbinding removes exactly the port. The table stays well formed, and a refusal
  changes nothing.\<close>

theorem udp_bind_unbind_correct:
  assumes "udp_wf s"
  shows "(\<exists>r s'. udp_bind (Some s) port h ctx = (r, Some s') \<and> udp_wf s' \<and>
      (if h \<noteq> Udp_NULL \<and> port \<noteq> 0 \<and> udp_map s port = None \<and> ud_count s < 32
       then r = 0 \<and> udp_map s' = (udp_map s)(port \<mapsto> (h, ctx)) else r = - 1 \<and> s' = s)) \<and>
    (\<exists>r s'. udp_unbind (Some s) port = (r, Some s') \<and> udp_wf s' \<and>
      (if port \<noteq> 0 \<and> udp_map s port \<noteq> None then r = 0 \<and> udp_map s' = (udp_map s)(port := None) else r = - 1 \<and> s' = s))"
  using udp_bind_outcome [OF assms] udp_unbind_outcome [OF assms] by blast

section \<open>Delivery\<close>

lemma udp_header_fields:
  "length (UdpHeader a b c d) = 8" "get16 (UdpHeader a b c d @ rest) 0 = a" "get16 (UdpHeader a b c d @ rest) 2 = b"
  "get16 (UdpHeader a b c d @ rest) 4 = c"
  by (simp_all add: UdpHeader_def put16_def get16_def two_bytes)

lemma udp_datagram:
  assumes "udp_ctx_at ctx w = Some c" "uc_state c = st" "udp_at st w = Some s" "udp_wf s" "iface \<noteq> NULL"
    and "pkt_at pkt w = Some p" "pkt_wf p" "20 \<le> pkt_data p" "ip_before p = Some (ip_bytes h)" "ih_protocol h = IPPROTO_UDP"
    and "visible p = UdpHeader (ns_htons sp) (ns_htons dp) (ns_htons (of_nat (8 + length payload))) 0 @ payload"
    and "length payload \<le> 65527"
  shows "case udp_map s dp of
      Some (fn, fctx) \<Rightarrow> \<exists>q. visible q = payload \<and> pkt_wf q \<and> pkt_layer q = 5 \<and>
        udp_receive ucall iface pkt (VUdpCtx ctx) w =
          do { w \<leftarrow> ucall fn iface (ns_ntohl (ih_src_ip h)) sp pkt fctx (pkt_put pkt q w); Some (0, w) }
    | None \<Rightarrow> udp_receive ucall iface pkt (VUdpCtx ctx) w =
        (if uc_sim c \<noteq> NULL then icmp_send_unreach_port (uc_sim c) iface pkt w
         else do { w \<leftarrow> packet_free pkt w; w \<leftarrow> count_rx_drop iface w; Some (- 1, w) })"
proof -
  let ?n = "8 + length payload" and ?hd = "UdpHeader (ns_htons sp) (ns_htons dp) (ns_htons (of_nat (8 + length payload))) 0"
  have len: "pkt_len p = ?n" using length_visible [OF assms(7)] assms(11) by (simp add: udp_header_fields)
  have nn: "pkt \<noteq> NULL" "ctx \<noteq> NULL" "st \<noteq> NULL" using assms(1,3,6)
    by (auto simp: udp_ctx_at_def udp_at_def dest: pkt_at_nonnull split: if_splits)
  have vw: "packet_validate_view (Some p) IP_HDR_LEN UDP_HDR_LEN = 0"
    using assms(7,8) len by (simp add: validate_view_wf IP_HDR_LEN_def UDP_HDR_LEN_def)
  have rd: "pkt_read p 0 8 = Some ?hd"
    using pkt_read_within [OF assms(7), of 0 8] len assms(11) by (simp add: udp_header_fields)
  have f: "ns_ntohs (get16 ?hd 0) = sp" "ns_ntohs (get16 ?hd 2) = dp" "ns_ntohs (get16 ?hd 4) = of_nat ?n"
    using udp_header_fields(2-4) [where rest = "[]"] by simp_all
  have un: "unat (of_nat ?n :: u16) = ?n" using assms(12) by (simp only: unsigned_of_nat) (simp add: take_bit_nat_eq_self)
  have ld: "ip_load (ip_bytes h) = h" using ip_load_bytes [of h "[]"] by simp
  obtain b where b: "pkt_read p 0 8 = Some b" "ns_ntohs (get16 b 0) = sp" "ns_ntohs (get16 b 2) = dp"
      "unat (ns_ntohs (get16 b 4)) = ?n"
    using rd f un by metis
  note rx = assms(1-3,5,6,9,10) nn vw b len as_udp_ctx_def ld UDP_HDR_LEN_def udp_find [OF assms(4)] Let_def
  show ?thesis
  proof (cases "socks.find_key dp (ud_sockets s)")
    case None
    then show ?thesis unfolding udp_receive_def using rx by (simp add: udp_map_def socks.lookup_def)
  next
    case (Some i)
    obtain q where q: "strip 8 p = (0, q)" "pkt_wf q" "visible q = drop 8 (visible p)"
      using strip_ok [OF assms(7), of 8] len by auto
    have v: "visible (q\<lparr>pkt_layer := 5\<rparr>) = payload" "pkt_wf (q\<lparr>pkt_layer := 5\<rparr>)"
      using q assms(11) by (simp_all add: visible_def pkt_wf_def udp_header_fields)
    have "pkt_put pkt x (pkt_put pkt y w) = pkt_put pkt x w" for x y by (simp add: pkt_put_def)
    then show ?thesis unfolding udp_receive_def using Some v q(1) rx
      by (auto simp: udp_map_def socks.lookup_def packet_strip_def
          intro!: exI [of _ "q\<lparr>pkt_layer := 5\<rparr>"])
  qed
qed


text \<open>C40. A datagram with the header that \<open>udp_send\<close> writes, received behind an IP header of protocol UDP: the
  handler bound to the destination port is called once with the source address and port and a packet that shows
  exactly the payload; when nobody bound the port, the packet is reported to its sender as port unreachable, or
  dropped when there is no simulator.\<close>

theorem udp_delivery:
  assumes "udp_ctx_at ctx w = Some c" "uc_state c = st" "udp_at st w = Some s" "udp_wf s" "iface \<noteq> NULL"
    and "pkt_at pkt w = Some p" "pkt_wf p" "20 \<le> pkt_data p" "ip_before p = Some (ip_bytes h)" "ih_protocol h = IPPROTO_UDP"
    and "visible p = UdpHeader (ns_htons sp) (ns_htons dp) (ns_htons (of_nat (8 + length payload))) 0 @ payload"
    and "length payload \<le> 65527"
  shows "case udp_map s dp of
      Some (fn, fctx) \<Rightarrow> \<exists>w' q. pkt_at pkt w' = Some q \<and> visible q = payload \<and> pkt_wf q \<and> pkt_layer q = 5 \<and>
        udp_receive ucall iface pkt (VUdpCtx ctx) w =
          do { w \<leftarrow> ucall fn iface (ns_ntohl (ih_src_ip h)) sp pkt fctx w'; Some (0, w) }
    | None \<Rightarrow> udp_receive ucall iface pkt (VUdpCtx ctx) w =
        (if uc_sim c \<noteq> NULL then icmp_send_unreach_port (uc_sim c) iface pkt w
         else do { w \<leftarrow> packet_free pkt w; w \<leftarrow> count_rx_drop iface w; Some (- 1, w) })"
proof (cases "udp_map s dp")
  case (Some v)
  obtain fn fctx where v: "v = (fn, fctx)" by fastforce
  from udp_datagram [OF assms, of ucall] obtain q where "visible q = payload" "pkt_wf q" "pkt_layer q = 5"
    "udp_receive ucall iface pkt (VUdpCtx ctx) w = do { w \<leftarrow> ucall fn iface (ns_ntohl (ih_src_ip h)) sp pkt fctx (pkt_put pkt q w); Some (0, w) }"
    unfolding Some v by auto
  then show ?thesis unfolding Some v using pkt_at_nonnull [OF assms(6)] by (auto intro!: exI [of _ "pkt_put pkt q w"])
qed (use udp_datagram [OF assms, of ucall] in simp)

section \<open>Instances\<close>

definition demo_udp :: UdpState where
  "demo_udp = \<lparr>ud_sockets = \<lparr>us_port = 520, us_valid = 1, us_recv_handler = Udp_rip_receive, us_ctx = VNull\<rparr> #
       replicate 31 \<lparr>us_port = 0, us_valid = 0, us_recv_handler = Udp_NULL, us_ctx = VNull\<rparr>, ud_count = 1\<rparr>"

lemma demo_udp_wf: "udp_wf demo_udp"
  by (auto simp: udp_wf_def demo_udp_def UDP_MAX_SOCKETS_def socks.live_count_def socks.unique_def nth_Cons split: nat.splits)

lemma demo_udp_map: "udp_map demo_udp 520 = Some (Udp_rip_receive, VNull)" "udp_map demo_udp 53 = None" "ud_count demo_udp = 1"
  by (simp_all add: udp_map_def socks.lookup_def socks.find_key_def demo_udp_def)

lemma udp_bind_unbind_correct_witness:
  "udp_wf demo_udp \<and> (\<exists>s'. udp_bind (Some demo_udp) 53 (Udp_extern 9) VNull = (0, Some s') \<and>
     udp_map s' = (udp_map demo_udp)(53 \<mapsto> (Udp_extern 9, VNull)))"
  using udp_bind_unbind_correct [OF demo_udp_wf, of 53 "Udp_extern 9" VNull] demo_udp_wf demo_udp_map by auto

definition demo_datagram :: Packet where
  "demo_datagram = \<lparr>pkt_head = replicate 44 0 @ ip_bytes (new_ip_header 0x0A000002 0x0A000001 17 9) @
       UdpHeader (ns_htons 1000) (ns_htons 520) (ns_htons 9) 0 @ [7],
     pkt_data = 64, pkt_len = 9, pkt_capacity = 9, pkt_id = 4, pkt_trace_id = 4, pkt_parent_id = 0, pkt_layer = 4\<rparr>"

definition demo_udp_world :: udp_world where
  "demo_udp_world = ip_world.extend (demo_ip_world\<lparr>w_pkts := [4 \<mapsto> demo_datagram]\<rparr>)
     \<lparr>w_udps = [20 \<mapsto> demo_udp], w_udp_ctxs = [21 \<mapsto> \<lparr>uc_sim = 7, uc_state = 20\<rparr>]\<rparr>"

lemma demo_datagram_parts:
  "pkt_at 4 demo_udp_world = Some demo_datagram" "pkt_wf demo_datagram" "20 \<le> pkt_data demo_datagram"
  "visible demo_datagram = UdpHeader (ns_htons 1000) (ns_htons 520) (ns_htons (of_nat (8 + length [7 :: u8]))) 0 @ [7]"
  "ip_before demo_datagram = Some (ip_bytes (new_ip_header 0x0A000002 0x0A000001 17 9))"
  "udp_ctx_at 21 demo_udp_world = Some \<lparr>uc_sim = 7, uc_state = 20\<rparr>" "udp_at 20 demo_udp_world = Some demo_udp"
  by (simp_all add: demo_udp_world_def pkt_at_def demo_datagram_def pkt_wf_def PKT_HEADROOM_def SIZE_MAX_def visible_def
      ip_before_def IP_HDR_LEN_def read_at_def udp_header_fields udp_ctx_at_def udp_at_def ip_world.defs)

lemma udp_delivery_witness:
  "\<exists>w' q. pkt_at 4 w' = Some q \<and> visible q = [7] \<and>
     udp_receive (\<lambda>h iface src port pkt ctx w. Some w) 2 4 (VUdpCtx 21) demo_udp_world = Some (0, w')"
  using udp_delivery [OF demo_datagram_parts(6) _ demo_datagram_parts(7) demo_udp_wf _ demo_datagram_parts(1-3,5) _ demo_datagram_parts(4),
      of 2 "\<lambda>h iface src port pkt ctx w. Some w"]
  by (auto simp: demo_udp_map new_ip_header_fields IPPROTO_UDP_def)


end
