(* ===== verification/Route_Table.thy ===== *)
theory Route_Table
  imports Slot_Table Byte_Order "HOL-Library.Product_Lexorder"
begin

text \<open>
  The routing table (\<open>routing/route_table.h\<close>, \<open>routing/route_table.c\<close>). The RIB holds one candidate per
  prefix and protocol; \<open>route_table_rebuild_fib\<close> recomputes the FIB, which holds the best candidate of each
  prefix by administrative distance, metric and age; \<open>route_table_lookup\<close> is a longest prefix match on the
  FIB. The pointer to a FIB entry that the lookup returns is the index of the entry. Every operation that
  changes the RIB rebuilds the FIB.
\<close>

unbundle bit_operations_syntax

section \<open>State\<close>

definition ROUTE_RIB_SIZE :: nat where
  "ROUTE_RIB_SIZE = 256"

definition ROUTE_FIB_SIZE :: nat where
  "ROUTE_FIB_SIZE = 256"

definition ROUTE_PROTO_STATIC :: u8 where "ROUTE_PROTO_STATIC = 1"
definition ROUTE_PROTO_DIRECT :: u8 where "ROUTE_PROTO_DIRECT = 2"
definition ROUTE_PROTO_RIP :: u8 where "ROUTE_PROTO_RIP = 3"
definition ROUTE_PROTO_OSPF :: u8 where "ROUTE_PROTO_OSPF = 4"
definition ROUTE_PROTO_BGP :: u8 where "ROUTE_PROTO_BGP = 5"
definition ROUTE_PROTO_ISIS :: u8 where "ROUTE_PROTO_ISIS = 6"

record RouteRibEntry =
  rr_prefix :: u32
  rr_prefix_len :: u8
  rr_proto :: u8
  rr_valid :: u8
  rr_selected :: u8
  rr_next_hop :: u32
  rr_iface :: addr
  rr_metric :: u32
  rr_sequence :: u32

record RouteFibEntry =
  rf_prefix :: u32
  rf_prefix_len :: u8
  rf_proto :: u8
  rf_valid :: u8
  rf_next_hop :: u32
  rf_iface :: addr
  rf_metric :: u32
  rf_rib_index :: nat

record RouteTable =
  rt_rib :: "RouteRibEntry list"
  rt_rib_count :: int
  rt_fib :: "RouteFibEntry list"
  rt_fib_count :: int
  rt_next_sequence :: u32

section \<open>Operations\<close>

definition route_admin_distance :: "u8 \<Rightarrow> nat" where
  "route_admin_distance proto =
     (if proto = ROUTE_PROTO_DIRECT then 0
      else if proto = ROUTE_PROTO_STATIC then 1
      else if proto = ROUTE_PROTO_BGP then 20
      else if proto = ROUTE_PROTO_OSPF then 110
      else if proto = ROUTE_PROTO_ISIS then 115
      else if proto = ROUTE_PROTO_RIP then 120
      else 255)"

definition zero_rib :: RouteRibEntry where
  "zero_rib = \<lparr>rr_prefix = 0, rr_prefix_len = 0, rr_proto = 0, rr_valid = 0, rr_selected = 0,
     rr_next_hop = 0, rr_iface = NULL, rr_metric = 0, rr_sequence = 0\<rparr>"

definition zero_fib :: RouteFibEntry where
  "zero_fib = \<lparr>rf_prefix = 0, rf_prefix_len = 0, rf_proto = 0, rf_valid = 0, rf_next_hop = 0,
     rf_iface = NULL, rf_metric = 0, rf_rib_index = 0\<rparr>"

definition route_table_init :: "RouteTable option \<Rightarrow> RouteTable option" where
  "route_table_init table = (case table of None \<Rightarrow> None | Some t \<Rightarrow>
     Some \<lparr>rt_rib = replicate ROUTE_RIB_SIZE zero_rib, rt_rib_count = 0,
           rt_fib = replicate ROUTE_FIB_SIZE zero_fib, rt_fib_count = 0, rt_next_sequence = 1\<rparr>)"

text \<open>The FIB entry that a candidate is copied to.\<close>

definition fib_of :: "RouteRibEntry \<Rightarrow> nat \<Rightarrow> RouteFibEntry" where
  "fib_of e i = \<lparr>rf_prefix = rr_prefix e, rf_prefix_len = rr_prefix_len e, rf_proto = rr_proto e, rf_valid = 1,
     rf_next_hop = rr_next_hop e, rf_iface = rr_iface e, rf_metric = rr_metric e, rf_rib_index = i\<rparr>"

definition replaces :: "RouteRibEntry \<Rightarrow> RouteRibEntry \<Rightarrow> bool" where
  "replaces rib_entry current =
     (let rib_ad = route_admin_distance (rr_proto rib_entry);
          current_ad = route_admin_distance (rr_proto current) in
      if rib_ad < current_ad then True
      else if rib_ad = current_ad \<and> rr_metric rib_entry < rr_metric current then True
      else rib_ad = current_ad \<and> rr_metric rib_entry = rr_metric current \<and>
           rr_sequence rib_entry < rr_sequence current)"

text \<open>The body of the main loop of \<open>route_table_rebuild_fib\<close> for RIB slot \<open>i\<close>.\<close>

definition rebuild_step :: "nat \<Rightarrow> RouteTable \<Rightarrow> RouteTable" where
  "rebuild_step i t =
     (let rib_entry = rt_rib t ! i in
      if rr_valid rib_entry = 0 then t
      else (case first_idx (\<lambda>f. rf_valid f \<noteq> 0 \<and> rf_prefix f = rr_prefix rib_entry \<and>
                     rf_prefix_len f = rr_prefix_len rib_entry) (rt_fib t) of
        Some j \<Rightarrow>
          let c = rf_rib_index (rt_fib t ! j) in
          if replaces rib_entry (rt_rib t ! c)
          then t\<lparr>rt_rib := (rt_rib t)[c := (rt_rib t ! c)\<lparr>rr_selected := 0\<rparr>, i := rib_entry\<lparr>rr_selected := 1\<rparr>],
                 rt_fib := (rt_fib t)[j := fib_of rib_entry i]\<rparr>
          else t
      | None \<Rightarrow> (case first_idx (\<lambda>f. rf_valid f = 0) (rt_fib t) of
          Some j \<Rightarrow> t\<lparr>rt_rib := (rt_rib t)[i := rib_entry\<lparr>rr_selected := 1\<rparr>],
                     rt_fib := (rt_fib t)[j := fib_of rib_entry i],
                     rt_fib_count := rt_fib_count t + 1\<rparr>
        | None \<Rightarrow> t)))"

definition route_table_rebuild_fib :: "RouteTable option \<Rightarrow> int \<times> RouteTable option" where
  "route_table_rebuild_fib table = (case table of None \<Rightarrow> (- 1, None) | Some t \<Rightarrow>
     let t = t\<lparr>rt_fib := map (\<lambda>_. zero_fib) (rt_fib t), rt_fib_count := 0\<rparr>;
         t = t\<lparr>rt_rib := map (\<lambda>e. if rr_valid e \<noteq> 0 then e\<lparr>rr_selected := 0\<rparr> else e) (rt_rib t)\<rparr>
     in (0, Some (fold rebuild_step [0..<ROUTE_RIB_SIZE] t)))"

definition rib_matches :: "u32 \<Rightarrow> u8 \<Rightarrow> u8 \<Rightarrow> RouteRibEntry \<Rightarrow> bool" where
  "rib_matches prefix prefix_len proto e \<longleftrightarrow> rr_valid e \<noteq> 0 \<and> rr_prefix e = prefix \<and>
     rr_prefix_len e = prefix_len \<and> rr_proto e = proto"

definition rib_invalidate :: "RouteRibEntry \<Rightarrow> RouteRibEntry" where
  "rib_invalidate e = e\<lparr>rr_valid := 0, rr_selected := 0, rr_iface := NULL\<rparr>"

definition route_table_add :: "RouteTable option \<Rightarrow> u32 \<Rightarrow> u8 \<Rightarrow> u32 \<Rightarrow> addr \<Rightarrow> u32 \<Rightarrow> u8 \<Rightarrow>
    int \<times> RouteTable option" where
  "route_table_add table prefix prefix_len next_hop iface metric proto = (case table of None \<Rightarrow> (- 1, None) | Some t \<Rightarrow>
     if iface = NULL \<or> 32 < prefix_len \<or> proto = 0 then (- 1, table)
     else
       let normalized_prefix = prefix AND ipv4_prefix_mask prefix_len in
       case first_idx (rib_matches normalized_prefix prefix_len proto) (rt_rib t) of
         Some i \<Rightarrow>
           let e = (rt_rib t ! i)\<lparr>rr_next_hop := next_hop, rr_iface := iface, rr_metric := metric\<rparr>;
               (res, table) = route_table_rebuild_fib (Some (t\<lparr>rt_rib := (rt_rib t)[i := e]\<rparr>))
           in (if res = 0 then 0 else - 1, table)
       | None \<Rightarrow> (case first_idx (\<lambda>e. rr_valid e = 0) (rt_rib t) of
           Some i \<Rightarrow>
             let e = \<lparr>rr_prefix = normalized_prefix, rr_prefix_len = prefix_len, rr_proto = proto, rr_valid = 1,
                      rr_selected = 0, rr_next_hop = next_hop, rr_iface = iface, rr_metric = metric,
                      rr_sequence = rt_next_sequence t\<rparr>;
                 t' = t\<lparr>rt_rib := (rt_rib t)[i := e], rt_next_sequence := rt_next_sequence t + 1,
                        rt_rib_count := rt_rib_count t + 1\<rparr>;
                 (res, table) = route_table_rebuild_fib (Some t')
             in if res = 0 then (0, table)
                else (- 1, map_option (\<lambda>t. t\<lparr>rt_rib := (rt_rib t)[i := rib_invalidate (rt_rib t ! i)],
                        rt_next_sequence := rt_next_sequence t - 1, rt_rib_count := rt_rib_count t - 1\<rparr>) table)
         | None \<Rightarrow> (- 1, table)))"

definition route_table_delete :: "RouteTable option \<Rightarrow> u32 \<Rightarrow> u8 \<Rightarrow> u8 \<Rightarrow> int \<times> RouteTable option" where
  "route_table_delete table prefix prefix_len proto = (case table of None \<Rightarrow> (- 1, None) | Some t \<Rightarrow>
     if 32 < prefix_len \<or> proto = 0 then (- 1, table)
     else
       let normalized_prefix = prefix AND ipv4_prefix_mask prefix_len in
       case first_idx (rib_matches normalized_prefix prefix_len proto) (rt_rib t) of
         Some i \<Rightarrow>
           let t' = t\<lparr>rt_rib := (rt_rib t)[i := rib_invalidate (rt_rib t ! i)],
                      rt_rib_count := (if 0 < rt_rib_count t then rt_rib_count t - 1 else rt_rib_count t)\<rparr>;
               (res, table) = route_table_rebuild_fib (Some t')
           in (if res = 0 then 0 else - 1, table)
       | None \<Rightarrow> (- 1, table))"

definition lookup_step :: "u32 \<Rightarrow> RouteFibEntry list \<Rightarrow> nat option \<Rightarrow> nat \<Rightarrow> nat option" where
  "lookup_step dst_ip fib best_match i =
     (let entry = fib ! i;
          longer = (best_match = None \<or> rf_prefix_len (fib ! the best_match) < rf_prefix_len entry) in
      if rf_valid entry \<noteq> 0 \<and> rf_prefix_len entry \<le> 32
      then if 24 < rf_prefix_len entry
        then if dst_ip AND ipv4_prefix_mask (rf_prefix_len entry) = rf_prefix entry \<and> longer then Some i else best_match
        else if dst_ip AND ipv4_prefix_mask (rf_prefix_len entry) = rf_prefix entry \<and> longer then Some i else best_match
      else best_match)"

definition route_table_lookup :: "RouteTable option \<Rightarrow> u32 \<Rightarrow> nat option" where
  "route_table_lookup table dst_ip = (case table of None \<Rightarrow> None | Some t \<Rightarrow>
     foldl (lookup_step dst_ip (rt_fib t)) None [0..<ROUTE_FIB_SIZE])"

text \<open>The loop of \<open>route_table_flush_proto\<close>: the RIB, \<open>rib_count\<close> and \<open>invalidated\<close>.\<close>

fun flush_loop :: "u8 \<Rightarrow> RouteRibEntry list \<Rightarrow> int \<Rightarrow> int \<Rightarrow> RouteRibEntry list \<times> int \<times> int" where
  "flush_loop proto [] n invalidated = ([], n, invalidated)"
| "flush_loop proto (e # es) n invalidated =
     (if rr_valid e \<noteq> 0 \<and> rr_proto e = proto
      then case flush_loop proto es (if 0 < n then n - 1 else n) (invalidated + 1) of
        (es', n', inv') \<Rightarrow> (rib_invalidate e # es', n', inv')
      else case flush_loop proto es n invalidated of (es', n', inv') \<Rightarrow> (e # es', n', inv'))"

definition route_table_flush_proto :: "RouteTable option \<Rightarrow> u8 \<Rightarrow> int \<times> RouteTable option" where
  "route_table_flush_proto table proto = (case table of None \<Rightarrow> (0, None) | Some t \<Rightarrow>
     if proto = 0 then (0, table)
     else case flush_loop proto (rt_rib t) (rt_rib_count t) 0 of (rib, n, invalidated) \<Rightarrow>
       (invalidated, snd (route_table_rebuild_fib (Some (t\<lparr>rt_rib := rib, rt_rib_count := n\<rparr>)))))"

section \<open>The best candidate of a prefix\<close>

text \<open>Route selection as a specification: among the valid candidates of a prefix, the one of least
  administrative distance, then metric, then sequence number; the lower slot among equals.\<close>

type_synonym pfx = "u32 \<times> u8"

definition rib_pfx :: "RouteRibEntry \<Rightarrow> pfx" where
  "rib_pfx e = (rr_prefix e, rr_prefix_len e)"

definition fib_pfx :: "RouteFibEntry \<Rightarrow> pfx" where
  "fib_pfx f = (rf_prefix f, rf_prefix_len f)"

definition route_cost :: "RouteRibEntry \<Rightarrow> nat \<times> u32 \<times> u32" where
  "route_cost e = (route_admin_distance (rr_proto e), rr_metric e, rr_sequence e)"

definition candidate :: "RouteRibEntry list \<Rightarrow> pfx \<Rightarrow> nat \<Rightarrow> bool" where
  "candidate rib k i \<longleftrightarrow> rr_valid (rib ! i) \<noteq> 0 \<and> rib_pfx (rib ! i) = k"

definition best_route :: "RouteRibEntry list \<Rightarrow> nat \<Rightarrow> pfx \<Rightarrow> nat \<Rightarrow> bool" where
  "best_route rib n k b \<longleftrightarrow> b < n \<and> candidate rib k b \<and>
     (\<forall>i < n. candidate rib k i \<longrightarrow> route_cost (rib ! b) < route_cost (rib ! i) \<or>
        route_cost (rib ! b) = route_cost (rib ! i) \<and> b \<le> i)"

lemma replaces_cost: "replaces a b \<longleftrightarrow> route_cost a < route_cost b"
  by (auto simp: replaces_def route_cost_def less_prod_def less_eq_prod_def Let_def)

lemma best_route_unique: "best_route rib n k b \<Longrightarrow> best_route rib n k c \<Longrightarrow> b = c"
  unfolding best_route_def by (metis less_asym' nle_le order_less_irrefl)

lemma best_route_step_other:
  "\<not> candidate rib k n \<Longrightarrow> best_route rib (Suc n) k b \<longleftrightarrow> best_route rib n k b"
  by (auto simp: best_route_def less_Suc_eq)

lemma best_route_first:
  "candidate rib k n \<Longrightarrow> \<forall>i < n. \<not> candidate rib k i \<Longrightarrow> best_route rib (Suc n) k n"
  by (auto simp: best_route_def less_Suc_eq)

lemma best_route_better:
  assumes "best_route rib n k b" "candidate rib k n" "route_cost (rib ! n) < route_cost (rib ! b)"
  shows "best_route rib (Suc n) k n"
  unfolding best_route_def
proof (intro conjI allI impI)
  fix i assume "i < Suc n" "candidate rib k i"
  then consider "i = n" | "route_cost (rib ! b) \<le> route_cost (rib ! i)"
    using assms(1) unfolding best_route_def by (metis less_Suc_eq order.order_iff_strict)
  then show "route_cost (rib ! n) < route_cost (rib ! i) \<or> route_cost (rib ! n) = route_cost (rib ! i) \<and> n \<le> i"
    using assms(3) by cases auto
qed (use assms(2) in auto)

lemma best_route_worse:
  assumes "best_route rib n k b" "\<not> route_cost (rib ! n) < route_cost (rib ! b)"
  shows "best_route rib (Suc n) k b"
  using assms unfolding best_route_def by (auto simp: less_Suc_eq)

lemma best_route_exists: "i < n \<Longrightarrow> candidate rib k i \<Longrightarrow> \<exists>b. best_route rib n k b"
proof (induction n arbitrary: i)
  case 0
  then show ?case by simp
next
  case (Suc n)
  show ?case
  proof (cases "\<exists>i < n. candidate rib k i")
    case True
    then obtain b where b: "best_route rib n k b" using Suc.IH by blast
    then show ?thesis
      using best_route_better [OF b] best_route_worse [OF b] best_route_step_other [of rib k n b] by blast
  next
    case False
    with Suc.prems have "i = n" by (auto simp: less_Suc_eq)
    with False Suc.prems show ?thesis using best_route_first [of rib k n] by blast
  qed
qed

section \<open>Rebuilding the FIB\<close>

interpretation fibs: slot_array "\<lambda>f. rf_valid f \<noteq> 0" fib_pfx "\<lambda>f. zero_fib"
  by unfold_locales (simp add: zero_fib_def)

text \<open>The state of the rebuild after the first \<open>n\<close> RIB slots. The array \<open>rib\<close> is the RIB with all
  \<open>selected\<close> flags cleared.\<close>

definition fib_slot_ok :: "RouteRibEntry list \<Rightarrow> nat \<Rightarrow> RouteFibEntry \<Rightarrow> bool" where
  "fib_slot_ok rib n f \<longleftrightarrow> (if rf_valid f \<noteq> 0
     then \<exists>b. best_route rib n (fib_pfx f) b \<and> f = fib_of (rib ! b) b else f = zero_fib)"

definition rebuilt :: "RouteRibEntry list \<Rightarrow> nat \<Rightarrow> RouteTable \<Rightarrow> bool" where
  "rebuilt rib n t \<longleftrightarrow> length (rt_rib t) = length rib \<and> length (rt_fib t) = ROUTE_FIB_SIZE \<and>
     (\<forall>i < length rib. rt_rib t ! i =
        (rib ! i)\<lparr>rr_selected := (if \<exists>k. best_route rib n k i then 1 else rr_selected (rib ! i))\<rparr>) \<and>
     (\<forall>f \<in> set (rt_fib t). fib_slot_ok rib n f) \<and>
     (\<forall>k b. best_route rib n k b \<longrightarrow> (\<exists>f \<in> set (rt_fib t). rf_valid f \<noteq> 0 \<and> fib_pfx f = k)) \<and>
     fibs.unique (rt_fib t) \<and> rt_fib_count t = int (fibs.live_count (rt_fib t)) \<and> fibs.live_count (rt_fib t) \<le> n"

lemma fib_pfx_of [simp]: "fib_pfx (fib_of e i) = rib_pfx e"
  by (simp add: fib_pfx_def fib_of_def rib_pfx_def)

lemma fib_of_valid [simp]: "rf_valid (fib_of e i) = 1" "rf_rib_index (fib_of e i) = i"
  by (simp_all add: fib_of_def)

lemma fib_of_selected [simp]: "fib_of (e\<lparr>rr_selected := x\<rparr>) i = fib_of e i"
  by (simp add: fib_of_def)

lemma replaces_selected [simp]: "replaces (a\<lparr>rr_selected := x\<rparr>) (b\<lparr>rr_selected := y\<rparr>) = replaces a b"
  by (simp add: replaces_def)

lemma fib_find:
  "first_idx (\<lambda>f. rf_valid f \<noteq> 0 \<and> rf_prefix f = rr_prefix e \<and> rf_prefix_len f = rr_prefix_len e) fs
    = fibs.find_key (rib_pfx e) fs"
  by (simp add: fibs.find_key_def fib_pfx_def rib_pfx_def)

lemma best_route_pfx: "best_route rib n k b \<Longrightarrow> rib_pfx (rib ! b) = k"
  by (simp add: best_route_def candidate_def)

lemma rebuilt_same:
  assumes "rebuilt rib n t" "\<And>k b. best_route rib (Suc n) k b \<longleftrightarrow> best_route rib n k b"
  shows "rebuilt rib (Suc n) t"
  using assms(1) unfolding rebuilt_def fib_slot_ok_def assms(2) by simp

text \<open>Slot \<open>n\<close> becomes the best candidate of its prefix and is written to FIB slot \<open>j\<close>, which was free or
  held this prefix.\<close>

lemma rebuilt_install:
  fixes rib n
  defines "k \<equiv> rib_pfx (rib ! n)" and "f' \<equiv> fib_of (rib ! n) n"
  assumes "rebuilt rib n t" and j: "j < length (rt_fib t)"
    and best: "\<And>k' b. best_route rib (Suc n) k' b \<longleftrightarrow> (if k' = k then b = n else best_route rib n k' b)"
    and old: "rf_valid (rt_fib t ! j) \<noteq> 0 \<longrightarrow> fib_pfx (rt_fib t ! j) = k"
    and uniq: "fibs.unique ((rt_fib t)[j := f'])" and small: "fibs.live_count ((rt_fib t)[j := f']) \<le> Suc n"
    and rib': "length rib' = length rib"
      "\<And>i. i < length rib \<Longrightarrow> rib' ! i =
        (rib ! i)\<lparr>rr_selected := (if \<exists>k. best_route rib (Suc n) k i then 1 else rr_selected (rib ! i))\<rparr>"
  shows "rebuilt rib (Suc n) (t\<lparr>rt_rib := rib', rt_fib := (rt_fib t)[j := f'],
    rt_fib_count := int (fibs.live_count ((rt_fib t)[j := f']))\<rparr>)"
proof -
  let ?fib = "(rt_fib t)[j := f']"
  have f'_live: "rf_valid f' \<noteq> 0" "fib_pfx f' = k" by (simp_all add: f'_def k_def)
  have len: "length (rt_fib t) = ROUTE_FIB_SIZE"
    and slots: "\<And>f. f \<in> set (rt_fib t) \<Longrightarrow> fib_slot_ok rib n f"
    and cover: "\<And>k b. best_route rib n k b \<Longrightarrow> \<exists>f \<in> set (rt_fib t). rf_valid f \<noteq> 0 \<and> fib_pfx f = k"
    using assms(3) unfolding rebuilt_def by blast+
  have "fib_slot_ok rib (Suc n) f" if mem: "f \<in> set ?fib" for f
  proof (cases "f = f'")
    case True
    have "best_route rib (Suc n) k n" using best [of k n] by simp
    then have "best_route rib (Suc n) (fib_pfx f') n \<and> f' = fib_of (rib ! n) n" using f'_live(2) f'_def by simp
    then have "\<exists>b. best_route rib (Suc n) (fib_pfx f') b \<and> f' = fib_of (rib ! b) b" by blast
    then show ?thesis using f'_live(1) True unfolding fib_slot_ok_def by simp
  next
    case False
    obtain i where i': "i < length (rt_fib t)" "?fib ! i = f" using mem by (auto simp: in_set_conv_nth)
    with False j have "i \<noteq> j" by auto
    with i' have i: "i < length (rt_fib t)" "rt_fib t ! i = f" "i \<noteq> j" by simp_all
    have "f \<in> set (rt_fib t)" using i by auto
    moreover have "fib_pfx f \<noteq> k" if "rf_valid f \<noteq> 0"
    proof
      assume "fib_pfx f = k"
      then show False using fibs.uniqueD [OF uniq, of i j] i j that f'_live by simp
    qed
    ultimately show ?thesis using slots [of f] unfolding fib_slot_ok_def best by simp
  qed
  moreover have "\<exists>f \<in> set ?fib. rf_valid f \<noteq> 0 \<and> fib_pfx f = k'" if b: "best_route rib (Suc n) k' b" for k' b
  proof (cases "k' = k")
    case True
    then show ?thesis using f'_live set_update_memI [OF j, of f'] by blast
  next
    case False
    then have "best_route rib n k' b" using b best by simp
    then obtain f where f: "f \<in> set (rt_fib t)" "rf_valid f \<noteq> 0" "fib_pfx f = k'" using cover by blast
    then obtain i where i: "i < length (rt_fib t)" "rt_fib t ! i = f" by (auto simp: in_set_conv_nth)
    with f old False have "i \<noteq> j" by auto
    with i have "?fib ! i = f" "i < length ?fib" by simp_all
    then have "f \<in> set ?fib" by (metis nth_mem)
    with f show ?thesis by blast
  qed
  ultimately show ?thesis using rib' uniq small len by (simp add: rebuilt_def)
qed

lemma rebuild_step_rebuilt:
  assumes inv: "rebuilt rib n t" and n: "n < length rib" "n < ROUTE_FIB_SIZE"
    and clear: "\<And>i. i < length rib \<Longrightarrow> rr_valid (rib ! i) \<noteq> 0 \<Longrightarrow> rr_selected (rib ! i) = 0"
  shows "rebuilt rib (Suc n) (rebuild_step n t)"
proof -
  have ribs: "\<And>i. i < length rib \<Longrightarrow> rt_rib t ! i =
      (rib ! i)\<lparr>rr_selected := (if \<exists>k. best_route rib n k i then 1 else rr_selected (rib ! i))\<rparr>"
    and len: "length (rt_rib t) = length rib" "length (rt_fib t) = ROUTE_FIB_SIZE"
    and slots: "\<And>f. f \<in> set (rt_fib t) \<Longrightarrow> fib_slot_ok rib n f"
    and cover: "\<And>k b. best_route rib n k b \<Longrightarrow> \<exists>f \<in> set (rt_fib t). rf_valid f \<noteq> 0 \<and> fib_pfx f = k"
    and uniq: "fibs.unique (rt_fib t)" and cnt: "rt_fib_count t = int (fibs.live_count (rt_fib t))"
      "fibs.live_count (rt_fib t) \<le> n"
    using inv unfolding rebuilt_def by blast+
  define e where "e = rib ! n"
  define k where "k = rib_pfx e"
  have nob: "\<not> best_route rib n k' n" for k' by (simp add: best_route_def)
  have en: "rt_rib t ! n = e" using ribs [OF n(1)] nob by (simp add: e_def)
  have other: "best_route rib (Suc n) k' b \<longleftrightarrow> best_route rib n k' b" if "k' \<noteq> k \<or> rr_valid e = 0" for k' b
    using that by (intro best_route_step_other) (auto simp: candidate_def e_def k_def)
  show ?thesis
  proof (cases "rr_valid e = 0")
    case True
    then have "rebuild_step n t = t" by (simp add: rebuild_step_def en)
    then show ?thesis using rebuilt_same [OF inv] other True by simp
  next
    case valid: False
    then have cand: "candidate rib k n" by (simp add: candidate_def e_def k_def)
    show ?thesis
    proof (cases "fibs.find_key k (rt_fib t)")
      case (Some j)
      then have j: "j < length (rt_fib t)" "rf_valid (rt_fib t ! j) \<noteq> 0" "fib_pfx (rt_fib t ! j) = k"
        using fibs.find_key_Some by blast+
      then obtain b where b: "best_route rib n k b" "rt_fib t ! j = fib_of (rib ! b) b"
        using slots [OF nth_mem [OF j(1)]] by (auto simp: fib_slot_ok_def)
      have bn: "b < n" "b < length rib" using b(1) n by (auto simp: best_route_def)
      have step: "rebuild_step n t = (if replaces e (rt_rib t ! b)
          then t\<lparr>rt_rib := (rt_rib t)[b := (rt_rib t ! b)\<lparr>rr_selected := 0\<rparr>, n := e\<lparr>rr_selected := 1\<rparr>],
            rt_fib := (rt_fib t)[j := fib_of e n]\<rparr> else t)"
        using valid Some b(2) by (simp add: rebuild_step_def en fib_find k_def)
      have rep: "replaces e (rt_rib t ! b) \<longleftrightarrow> route_cost e < route_cost (rib ! b)"
        using ribs [OF bn(2)] by (metis replaces_cost replaces_selected RouteRibEntry.update_convs(5) RouteRibEntry.surjective)
      show ?thesis
      proof (cases "replaces e (rt_rib t ! b)")
        case True
        have bS: "best_route rib (Suc n) k n"
          using best_route_better [OF b(1) cand] True rep by (simp add: e_def)
        have best: "best_route rib (Suc n) k' c \<longleftrightarrow> (if k' = k then c = n else best_route rib n k' c)" for k' c
          using other [of k' c] bS best_route_unique [of rib "Suc n" k c n] by (cases "k' = k") auto
        have fk: "fibs.find_key (fib_pfx (fib_of e n)) (rt_fib t) = Some j" using Some by (simp add: k_def)
        note lc = fibs.live_count_overwrite [OF fk]
        have won: "(\<exists>k'. best_route rib (Suc n) k' i) \<longleftrightarrow> i = n \<or> i \<noteq> b \<and> (\<exists>k'. best_route rib n k' i)" for i
          using best b(1) best_route_unique best_route_pfx bn(1) by (metis less_irrefl)
        let ?rib = "(rt_rib t)[b := (rt_rib t ! b)\<lparr>rr_selected := 0\<rparr>, n := e\<lparr>rr_selected := 1\<rparr>]"
        have "?rib ! i = (rib ! i)\<lparr>rr_selected := (if \<exists>k. best_route rib (Suc n) k i then 1 else rr_selected (rib ! i))\<rparr>"
          if "i < length rib" for i
          using that ribs [OF that] clear [OF bn(2)] b(1) len n bn unfolding won
          by (auto simp: nth_list_update e_def best_route_def candidate_def)
        then have "rebuilt rib (Suc n) (t\<lparr>rt_rib := ?rib, rt_fib := (rt_fib t)[j := fib_of (rib ! n) n],
            rt_fib_count := int (fibs.live_count ((rt_fib t)[j := fib_of (rib ! n) n]))\<rparr>)"
          using best j lc cnt len fibs.unique_overwrite [OF uniq fk]
          by (intro rebuilt_install [OF inv j(1)]) (simp_all add: e_def k_def)
        moreover have "rebuild_step n t = t\<lparr>rt_rib := ?rib, rt_fib := (rt_fib t)[j := fib_of (rib ! n) n],
            rt_fib_count := int (fibs.live_count ((rt_fib t)[j := fib_of (rib ! n) n]))\<rparr>"
          using step True lc cnt by (cases t) (simp add: e_def)
        ultimately show ?thesis by simp
      next
        case False
        have bS: "best_route rib (Suc n) k b"
          using best_route_worse [OF b(1)] False rep by (simp add: e_def)
        have "best_route rib (Suc n) k' c \<longleftrightarrow> best_route rib n k' c" for k' c
          using other [of k' c] bS b(1) best_route_unique by (cases "k' = k") blast+
        then show ?thesis using rebuilt_same [OF inv] step False by simp
      qed
    next
      case None
      have "\<not> best_route rib n k c" for c
        using cover [of k c] None unfolding fibs.find_key_def first_idx_None by blast
      then have fresh: "\<forall>i < n. \<not> candidate rib k i" using best_route_exists by blast
      have best: "best_route rib (Suc n) k' c \<longleftrightarrow> (if k' = k then c = n else best_route rib n k' c)" for k' c
        using other [of k' c] best_route_first [OF cand fresh] best_route_unique [of rib "Suc n" k c n]
        by (cases "k' = k") auto
      have "fibs.find_free (rt_fib t) \<noteq> None"
      proof
        assume "fibs.find_free (rt_fib t) = None"
        then have "fibs.live_count (rt_fib t) = ROUTE_FIB_SIZE"
          using len(2) length_filter_full [of "\<lambda>f. rf_valid f \<noteq> 0" "rt_fib t"]
          by (simp add: fibs.find_free_def first_idx_None fibs.live_count_def)
        with cnt(2) n(2) show False by simp
      qed
      then obtain j where ff: "fibs.find_free (rt_fib t) = Some j" by blast
      have j: "j < length (rt_fib t)" "rf_valid (rt_fib t ! j) = 0" using fibs.find_free_Some [OF ff] by auto
      have step: "rebuild_step n t = t\<lparr>rt_rib := (rt_rib t)[n := e\<lparr>rr_selected := 1\<rparr>],
          rt_fib := (rt_fib t)[j := fib_of e n], rt_fib_count := rt_fib_count t + 1\<rparr>"
        using valid None ff by (simp add: rebuild_step_def en fib_find k_def fibs.find_free_def)
      have lc: "fibs.live_count ((rt_fib t)[j := fib_of e n]) = Suc (fibs.live_count (rt_fib t))"
        using j by (intro fibs.live_count_fill) simp_all
      have u: "fibs.unique ((rt_fib t)[j := fib_of e n])"
        using uniq None by (intro fibs.unique_fill) (simp_all add: k_def)
      have won: "(\<exists>k'. best_route rib (Suc n) k' i) \<longleftrightarrow> i = n \<or> (\<exists>k'. best_route rib n k' i)" for i
        using best \<open>\<And>c. \<not> best_route rib n k c\<close> by metis
      let ?rib = "(rt_rib t)[n := e\<lparr>rr_selected := 1\<rparr>]"
      have "?rib ! i = (rib ! i)\<lparr>rr_selected := (if \<exists>k. best_route rib (Suc n) k i then 1 else rr_selected (rib ! i))\<rparr>"
        if "i < length rib" for i
        using that ribs [OF that] len n unfolding won by (auto simp: nth_list_update e_def)
      then have "rebuilt rib (Suc n) (t\<lparr>rt_rib := ?rib, rt_fib := (rt_fib t)[j := fib_of (rib ! n) n],
          rt_fib_count := int (fibs.live_count ((rt_fib t)[j := fib_of (rib ! n) n]))\<rparr>)"
        using best j lc cnt len u by (intro rebuilt_install [OF inv j(1)]) (simp_all add: e_def k_def)
      then show ?thesis using step lc cnt by (simp add: e_def add.commute)
    qed
  qed
qed

text \<open>The RIB with the \<open>selected\<close> flags of its valid slots cleared, as the rebuild starts from it.\<close>

definition clear_selected :: "RouteRibEntry list \<Rightarrow> RouteRibEntry list" where
  "clear_selected rib = map (\<lambda>e. if rr_valid e \<noteq> 0 then e\<lparr>rr_selected := 0\<rparr> else e) rib"

lemma length_clear [simp]: "length (clear_selected rib) = length rib"
  by (simp add: clear_selected_def)

lemma clear_nth: "i < length rib \<Longrightarrow>
  clear_selected rib ! i = (if rr_valid (rib ! i) \<noteq> 0 then (rib ! i)\<lparr>rr_selected := 0\<rparr> else rib ! i)"
  by (simp add: clear_selected_def)

lemma best_route_clear:
  assumes "n \<le> length rib"
  shows "best_route (clear_selected rib) n k b \<longleftrightarrow> best_route rib n k b"
proof -
  have "candidate (clear_selected rib) k i = candidate rib k i"
    "route_cost (clear_selected rib ! i) = route_cost (rib ! i)" if "i < n" for i
    using that assms by (auto simp: candidate_def clear_nth rib_pfx_def route_cost_def)
  then show ?thesis by (auto simp: best_route_def)
qed

lemma rebuild_loop:
  assumes "length (rt_rib t) = ROUTE_RIB_SIZE" "rebuilt rib 0 t"
    and "\<And>i. i < length rib \<Longrightarrow> rr_valid (rib ! i) \<noteq> 0 \<Longrightarrow> rr_selected (rib ! i) = 0"
  shows "n \<le> ROUTE_RIB_SIZE \<Longrightarrow> rebuilt rib n (fold rebuild_step [0..<n] t)"
proof (induction n)
  case 0
  then show ?case using assms(2) by simp
next
  case (Suc n)
  have "length rib = ROUTE_RIB_SIZE" using assms(1,2) unfolding rebuilt_def by simp
  with Suc rebuild_step_rebuilt [OF _ _ _ assms(3), of n "fold rebuild_step [0..<n] t"] show ?case
    by (simp add: ROUTE_RIB_SIZE_def ROUTE_FIB_SIZE_def)
qed

lemma rebuild_step_other [simp]:
  "rt_rib_count (rebuild_step i t) = rt_rib_count t" "rt_next_sequence (rebuild_step i t) = rt_next_sequence t"
  by (simp_all add: rebuild_step_def Let_def split: option.splits)

lemma fold_rebuild_other [simp]:
  "rt_rib_count (fold rebuild_step is t) = rt_rib_count t"
  "rt_next_sequence (fold rebuild_step is t) = rt_next_sequence t"
  by (induction "is" arbitrary: t) simp_all

lemma rebuild_fib_result:
  assumes "length (rt_rib t) = ROUTE_RIB_SIZE" "length (rt_fib t) = ROUTE_FIB_SIZE"
  shows "\<exists>t'. route_table_rebuild_fib (Some t) = (0, Some t') \<and>
    rebuilt (clear_selected (rt_rib t)) ROUTE_RIB_SIZE t' \<and>
    rt_rib_count t' = rt_rib_count t \<and> rt_next_sequence t' = rt_next_sequence t"
proof -
  let ?rib = "clear_selected (rt_rib t)"
  let ?t = "t\<lparr>rt_fib := map (\<lambda>_. zero_fib) (rt_fib t), rt_fib_count := 0, rt_rib := ?rib\<rparr>"
  have dead: "\<forall>f \<in> set (map (\<lambda>_. zero_fib) (rt_fib t)). \<not> rf_valid f \<noteq> 0" by (simp add: zero_fib_def)
  have "rebuilt ?rib 0 ?t"
    using assms fibs.unique_all_dead [OF dead] fibs.live_count_all_dead [OF dead]
    by (auto simp: rebuilt_def best_route_def fib_slot_ok_def zero_fib_def)
  then have "rebuilt ?rib ROUTE_RIB_SIZE (fold rebuild_step [0..<ROUTE_RIB_SIZE] ?t)"
    using assms by (intro rebuild_loop) (auto simp: clear_nth split: if_splits)
  then show ?thesis by (simp add: route_table_rebuild_fib_def clear_selected_def Let_def)
qed

lemma rebuilt_clear:
  assumes "rebuilt (clear_selected rib) ROUTE_RIB_SIZE t" "length rib = ROUTE_RIB_SIZE"
  shows "clear_selected (rt_rib t) = clear_selected rib"
proof (rule nth_equalityI)
  show len: "length (clear_selected (rt_rib t)) = length (clear_selected rib)"
    using assms(1) unfolding rebuilt_def by simp
  fix i assume "i < length (clear_selected (rt_rib t))"
  then have i: "i < length rib" "i < length (rt_rib t)" using len by simp_all
  have "rt_rib t ! i = (clear_selected rib ! i)\<lparr>rr_selected :=
      (if \<exists>k. best_route (clear_selected rib) ROUTE_RIB_SIZE k i then 1 else rr_selected (clear_selected rib ! i))\<rparr>"
    using assms(1) i unfolding rebuilt_def by simp
  moreover have "rr_valid (rib ! i) \<noteq> 0" if "best_route (clear_selected rib) ROUTE_RIB_SIZE k i" for k
    using that i by (auto simp: best_route_def candidate_def clear_nth split: if_splits)
  ultimately show "clear_selected (rt_rib t) ! i = clear_selected rib ! i"
    using i by (auto simp: clear_nth)
qed

text \<open>The table is consistent: its FIB is what a rebuild would compute.\<close>

definition fib_consistent :: "RouteTable \<Rightarrow> bool" where
  "fib_consistent t \<longleftrightarrow> rebuilt (clear_selected (rt_rib t)) ROUTE_RIB_SIZE t"

lemma rebuild_consistent:
  assumes "length (rt_rib t) = ROUTE_RIB_SIZE" "length (rt_fib t) = ROUTE_FIB_SIZE"
  shows "\<exists>t'. route_table_rebuild_fib (Some t) = (0, Some t') \<and> fib_consistent t' \<and>
    clear_selected (rt_rib t') = clear_selected (rt_rib t) \<and> length (rt_fib t') = ROUTE_FIB_SIZE \<and>
    rt_rib_count t' = rt_rib_count t \<and> rt_next_sequence t' = rt_next_sequence t"
proof -
  obtain t' where t': "route_table_rebuild_fib (Some t) = (0, Some t')"
      "rebuilt (clear_selected (rt_rib t)) ROUTE_RIB_SIZE t'"
      "rt_rib_count t' = rt_rib_count t" "rt_next_sequence t' = rt_next_sequence t"
    using rebuild_fib_result [OF assms] by blast
  have "clear_selected (rt_rib t') = clear_selected (rt_rib t)" by (rule rebuilt_clear [OF t'(2) assms(1)])
  moreover have "length (rt_fib t') = ROUTE_FIB_SIZE" using t'(2) unfolding rebuilt_def by blast
  ultimately show ?thesis using t' unfolding fib_consistent_def by simp
qed

section \<open>Longest prefix match\<close>

definition fib_matches :: "u32 \<Rightarrow> RouteFibEntry \<Rightarrow> bool" where
  "fib_matches dst f \<longleftrightarrow> rf_valid f \<noteq> 0 \<and> rf_prefix_len f \<le> 32 \<and>
     dst AND ipv4_prefix_mask (rf_prefix_len f) = rf_prefix f"

lemma lookup_step_eq: "lookup_step dst fib best i =
  (if fib_matches dst (fib ! i) \<and> (best = None \<or> rf_prefix_len (fib ! the best) < rf_prefix_len (fib ! i))
   then Some i else best)"
  by (auto simp: lookup_step_def fib_matches_def Let_def)

definition lpm_upto :: "u32 \<Rightarrow> RouteFibEntry list \<Rightarrow> nat \<Rightarrow> nat option \<Rightarrow> bool" where
  "lpm_upto dst fib n best \<longleftrightarrow> (case best of
     None \<Rightarrow> \<forall>i < n. \<not> fib_matches dst (fib ! i)
   | Some b \<Rightarrow> b < n \<and> fib_matches dst (fib ! b) \<and>
       (\<forall>i < n. fib_matches dst (fib ! i) \<longrightarrow> rf_prefix_len (fib ! i) \<le> rf_prefix_len (fib ! b)))"

lemma lookup_step_lpm: "lpm_upto dst fib n best \<Longrightarrow> lpm_upto dst fib (Suc n) (lookup_step dst fib best n)"
  by (cases best) (auto simp: lpm_upto_def lookup_step_eq less_Suc_eq)

lemma lookup_loop: "lpm_upto dst fib n (foldl (lookup_step dst fib) None [0..<n])"
  by (induction n) (simp_all add: lookup_step_lpm, simp add: lpm_upto_def)

section \<open>Well-formed tables\<close>

definition rib_key :: "RouteRibEntry \<Rightarrow> u32 \<times> u8 \<times> u8" where
  "rib_key e = (rr_prefix e, rr_prefix_len e, rr_proto e)"

interpretation ribs: slot_array "\<lambda>e. rr_valid e \<noteq> 0" rib_key rib_invalidate
  by unfold_locales (simp add: rib_invalidate_def)

text \<open>What a RIB slot satisfies, after the predicate \<open>route_valid_rib_slot\<close> of the header; the part about the
  \<open>selected\<close> flag of valid slots is in \<open>fib_consistent\<close>.\<close>

definition route_valid_rib_slot :: "RouteRibEntry \<Rightarrow> bool" where
  "route_valid_rib_slot e \<longleftrightarrow>
     (rr_valid e = 0 \<and> rr_selected e = 0 \<and> rr_iface e = NULL) \<or>
     (rr_valid e = 1 \<and> rr_prefix_len e \<le> 32 \<and> rr_prefix e AND ipv4_prefix_mask (rr_prefix_len e) = rr_prefix e \<and>
      rr_proto e \<noteq> 0 \<and> rr_iface e \<noteq> NULL)"

definition rib_wf :: "RouteRibEntry list \<Rightarrow> bool" where
  "rib_wf rib \<longleftrightarrow> length rib = ROUTE_RIB_SIZE \<and> ribs.unique rib \<and> (\<forall>e \<in> set rib. route_valid_rib_slot e)"

definition route_table_wf :: "RouteTable \<Rightarrow> bool" where
  "route_table_wf t \<longleftrightarrow> rib_wf (rt_rib t) \<and> length (rt_fib t) = ROUTE_FIB_SIZE \<and>
     rt_rib_count t = int (ribs.live_count (rt_rib t)) \<and> fib_consistent t"

definition rib_map :: "RouteTable \<Rightarrow> u32 \<times> u8 \<times> u8 \<Rightarrow> (u32 \<times> addr \<times> u32) option" where
  "rib_map t k = map_option (\<lambda>e. (rr_next_hop e, rr_iface e, rr_metric e)) (ribs.lookup (rt_rib t) k)"

text \<open>Only the \<open>selected\<close> flags tell apart two RIBs that are equal after clearing.\<close>

lemma clear_same:
  assumes "clear_selected a = clear_selected b"
  shows "length a = length b"
    and "i < length a \<Longrightarrow> rr_valid (a ! i) = rr_valid (b ! i) \<and> rib_key (a ! i) = rib_key (b ! i) \<and>
      rr_next_hop (a ! i) = rr_next_hop (b ! i) \<and> rr_iface (a ! i) = rr_iface (b ! i) \<and>
      rr_metric (a ! i) = rr_metric (b ! i) \<and> (rr_valid (a ! i) = 0 \<longrightarrow> a ! i = b ! i)"
proof -
  show len: "length a = length b" using assms by (metis length_clear)
  assume i: "i < length a"
  have "clear_selected a ! i = clear_selected b ! i" using assms by simp
  then show "rr_valid (a ! i) = rr_valid (b ! i) \<and> rib_key (a ! i) = rib_key (b ! i) \<and>
      rr_next_hop (a ! i) = rr_next_hop (b ! i) \<and> rr_iface (a ! i) = rr_iface (b ! i) \<and>
      rr_metric (a ! i) = rr_metric (b ! i) \<and> (rr_valid (a ! i) = 0 \<longrightarrow> a ! i = b ! i)"
    using i len by (cases "a ! i"; cases "b ! i") (auto simp: clear_nth rib_key_def split: if_splits)
qed

lemma clear_same_wf:
  assumes "clear_selected a = clear_selected b"
  shows "rib_wf a = rib_wf b" and "ribs.live_count a = ribs.live_count b"
    and "ribs.find_key k a = ribs.find_key k b"
proof -
  note len = clear_same(1) [OF assms] and same = clear_same(2) [OF assms]
  have "route_valid_rib_slot (a ! i) = route_valid_rib_slot (b ! i)" if "i < length a" for i
    using same [OF that] by (auto simp: route_valid_rib_slot_def rib_key_def)
  then have "(\<forall>e \<in> set a. route_valid_rib_slot e) = (\<forall>e \<in> set b. route_valid_rib_slot e)"
    using len by (simp add: all_set_conv_all_nth)
  moreover have "ribs.unique a = ribs.unique b"
    using len same by (auto simp: ribs.unique_def)
  ultimately show "rib_wf a = rib_wf b" using len by (simp add: rib_wf_def)
  have lf: "length (filter P xs) = length (filter id (map P xs))" for P and xs :: "RouteRibEntry list"
    by (simp add: filter_map o_def)
  have "map (\<lambda>e. rr_valid e \<noteq> 0) a = map (\<lambda>e. rr_valid e \<noteq> 0) b"
    using len same by (auto intro: nth_equalityI)
  then show "ribs.live_count a = ribs.live_count b"
    unfolding ribs.live_count_def lf [of "\<lambda>e. rr_valid e \<noteq> 0" a] lf [of "\<lambda>e. rr_valid e \<noteq> 0" b] by (rule arg_cong)
  have "first_idx id (map (\<lambda>e. rr_valid e \<noteq> 0 \<and> rib_key e = k) a) = first_idx id (map (\<lambda>e. rr_valid e \<noteq> 0 \<and> rib_key e = k) b)"
    using len same by (intro arg_cong [where f = "first_idx id"] nth_equalityI) auto
  moreover have "first_idx id (map P xs) = first_idx P xs" for P and xs :: "RouteRibEntry list"
    by (induction xs) simp_all
  ultimately show "ribs.find_key k a = ribs.find_key k b" by (simp add: ribs.find_key_def)
qed

section \<open>Correctness of the lookup\<close>

definition rib_covers :: "u32 \<Rightarrow> RouteRibEntry \<Rightarrow> bool" where
  "rib_covers dst e \<longleftrightarrow> rr_valid e \<noteq> 0 \<and> dst AND ipv4_prefix_mask (rr_prefix_len e) = rr_prefix e"

lemma consistent_best:
  assumes "route_table_wf t"
  shows "\<And>f. f \<in> set (rt_fib t) \<Longrightarrow> rf_valid f \<noteq> 0 \<Longrightarrow>
      \<exists>b. best_route (rt_rib t) ROUTE_RIB_SIZE (fib_pfx f) b \<and> f = fib_of (rt_rib t ! b) b"
    and "\<And>k b. best_route (rt_rib t) ROUTE_RIB_SIZE k b \<Longrightarrow>
      fib_of (rt_rib t ! b) b \<in> set (rt_fib t) \<and> rr_selected (rt_rib t ! b) = 1"
proof -
  let ?rib = "clear_selected (rt_rib t)"
  have len: "length (rt_rib t) = ROUTE_RIB_SIZE" using assms by (simp add: route_table_wf_def rib_wf_def)
  have rb: "rebuilt ?rib ROUTE_RIB_SIZE t" using assms by (simp add: route_table_wf_def fib_consistent_def)
  have eq: "best_route ?rib ROUTE_RIB_SIZE k b = best_route (rt_rib t) ROUTE_RIB_SIZE k b" for k b
    using best_route_clear [of ROUTE_RIB_SIZE "rt_rib t"] len by simp
  have fo: "fib_of (?rib ! b) b = fib_of (rt_rib t ! b) b" if "b < ROUTE_RIB_SIZE" for b
    using that len by (simp add: clear_nth)
  have slot: "\<exists>b. best_route (rt_rib t) ROUTE_RIB_SIZE (fib_pfx f) b \<and> f = fib_of (rt_rib t ! b) b"
    if "f \<in> set (rt_fib t)" "rf_valid f \<noteq> 0" for f
  proof -
    from that rb obtain b where "best_route ?rib ROUTE_RIB_SIZE (fib_pfx f) b" "f = fib_of (?rib ! b) b"
      unfolding rebuilt_def fib_slot_ok_def by metis
    then show ?thesis using fo [of b] eq by (metis best_route_def)
  qed
  then show "\<And>f. f \<in> set (rt_fib t) \<Longrightarrow> rf_valid f \<noteq> 0 \<Longrightarrow>
      \<exists>b. best_route (rt_rib t) ROUTE_RIB_SIZE (fib_pfx f) b \<and> f = fib_of (rt_rib t ! b) b" .
  fix k b assume b: "best_route (rt_rib t) ROUTE_RIB_SIZE k b"
  then obtain f where "f \<in> set (rt_fib t)" "rf_valid f \<noteq> 0" "fib_pfx f = k"
    using rb unfolding rebuilt_def eq by blast
  then have "fib_of (rt_rib t ! b) b \<in> set (rt_fib t)"
    using slot [of f] best_route_unique [OF b] by metis
  moreover have "rt_rib t ! b = (?rib ! b)\<lparr>rr_selected := 1\<rparr>"
  proof -
    have "b < ROUTE_RIB_SIZE" using b by (simp add: best_route_def)
    moreover have "\<exists>k. best_route ?rib ROUTE_RIB_SIZE k b" using b eq by blast
    ultimately show ?thesis using rb len unfolding rebuilt_def by simp
  qed
  then have "rr_selected (rt_rib t ! b) = 1" by (metis RouteRibEntry.select_convs(5) RouteRibEntry.surjective RouteRibEntry.update_convs(5))
  ultimately show "fib_of (rt_rib t ! b) b \<in> set (rt_fib t) \<and> rr_selected (rt_rib t ! b) = 1" by simp
qed

lemma best_route_covers:
  assumes "route_table_wf t" "i < ROUTE_RIB_SIZE" "rib_covers dst (rt_rib t ! i)"
  obtains b where "best_route (rt_rib t) ROUTE_RIB_SIZE (rib_pfx (rt_rib t ! i)) b"
    "fib_matches dst (fib_of (rt_rib t ! b) b)" "fib_of (rt_rib t ! b) b \<in> set (rt_fib t)"
    "rib_pfx (rt_rib t ! b) = rib_pfx (rt_rib t ! i)"
proof -
  have "candidate (rt_rib t) (rib_pfx (rt_rib t ! i)) i" using assms(3) by (simp add: candidate_def rib_covers_def)
  then obtain b where b: "best_route (rt_rib t) ROUTE_RIB_SIZE (rib_pfx (rt_rib t ! i)) b"
    using best_route_exists assms(2) by blast
  have e: "rt_rib t ! i \<in> set (rt_rib t)" using assms(1,2) by (simp add: route_table_wf_def rib_wf_def)
  have "rr_prefix_len (rt_rib t ! i) \<le> 32"
    using e assms(1,3) by (auto simp: route_table_wf_def rib_wf_def rib_covers_def route_valid_rib_slot_def)
  then have "fib_matches dst (fib_of (rt_rib t ! b) b)"
    using best_route_pfx [OF b] assms(3) by (simp add: fib_matches_def fib_of_def rib_pfx_def rib_covers_def)
  then show thesis using that b consistent_best(2) [OF assms(1) b] best_route_pfx [OF b] by blast
qed

lemma route_lookup_longest:
  assumes "route_table_wf t"
  shows "case route_table_lookup (Some t) dst of
      None \<Rightarrow> \<forall>i < ROUTE_RIB_SIZE. \<not> rib_covers dst (rt_rib t ! i)
    | Some j \<Rightarrow> j < ROUTE_FIB_SIZE \<and> (\<exists>b < ROUTE_RIB_SIZE. rt_fib t ! j = fib_of (rt_rib t ! b) b \<and>
        rib_covers dst (rt_rib t ! b) \<and> rr_selected (rt_rib t ! b) = 1 \<and>
        (\<forall>i < ROUTE_RIB_SIZE. rib_covers dst (rt_rib t ! i) \<longrightarrow>
           rr_prefix_len (rt_rib t ! i) < rr_prefix_len (rt_rib t ! b) \<or>
           rr_prefix_len (rt_rib t ! i) = rr_prefix_len (rt_rib t ! b) \<and>
           route_cost (rt_rib t ! b) \<le> route_cost (rt_rib t ! i)))"
proof -
  let ?rib = "rt_rib t"
  have len: "length (rt_fib t) = ROUTE_FIB_SIZE" using assms by (simp add: route_table_wf_def)
  have lpm: "lpm_upto dst (rt_fib t) ROUTE_FIB_SIZE (route_table_lookup (Some t) dst)"
    by (simp add: route_table_lookup_def lookup_loop)
  show ?thesis
  proof (cases "route_table_lookup (Some t) dst")
    case None
    have "\<not> rib_covers dst (?rib ! i)" if "i < ROUTE_RIB_SIZE" for i
    proof
      assume "rib_covers dst (?rib ! i)"
      then obtain b where "fib_matches dst (fib_of (?rib ! b) b)" "fib_of (?rib ! b) b \<in> set (rt_fib t)"
        using best_route_covers [OF assms \<open>i < ROUTE_RIB_SIZE\<close>] by blast
      then show False using lpm None len by (auto simp: lpm_upto_def in_set_conv_nth)
    qed
    with None show ?thesis by simp
  next
    case (Some j)
    then have j: "j < ROUTE_FIB_SIZE" "fib_matches dst (rt_fib t ! j)"
      and long: "\<And>i. i < ROUTE_FIB_SIZE \<Longrightarrow> fib_matches dst (rt_fib t ! i) \<Longrightarrow>
        rf_prefix_len (rt_fib t ! i) \<le> rf_prefix_len (rt_fib t ! j)"
      using lpm by (simp_all add: lpm_upto_def)
    then have "rt_fib t ! j \<in> set (rt_fib t)" "rf_valid (rt_fib t ! j) \<noteq> 0" using len by (simp_all add: fib_matches_def)
    then obtain b where b: "best_route ?rib ROUTE_RIB_SIZE (fib_pfx (rt_fib t ! j)) b" "rt_fib t ! j = fib_of (?rib ! b) b"
      using consistent_best(1) [OF assms] by blast
    have cov: "rib_covers dst (?rib ! b)" using b j(2)
      by (auto simp: rib_covers_def fib_matches_def fib_of_def best_route_def candidate_def)
    have "rr_prefix_len (?rib ! i) < rr_prefix_len (?rib ! b) \<or> rr_prefix_len (?rib ! i) = rr_prefix_len (?rib ! b) \<and>
        route_cost (?rib ! b) \<le> route_cost (?rib ! i)" if i: "i < ROUTE_RIB_SIZE" "rib_covers dst (?rib ! i)" for i
    proof -
      obtain c where c: "fib_matches dst (fib_of (?rib ! c) c)" "fib_of (?rib ! c) c \<in> set (rt_fib t)"
          "rib_pfx (?rib ! c) = rib_pfx (?rib ! i)"
        by (rule best_route_covers [OF assms i])
      then obtain m where m: "m < ROUTE_FIB_SIZE" "rt_fib t ! m = fib_of (?rib ! c) c"
        using len by (auto simp: in_set_conv_nth)
      have "rr_prefix_len (?rib ! i) \<le> rr_prefix_len (?rib ! b)"
        using long [OF m(1)] m(2) c(1,3) b(2) by (simp add: fib_of_def rib_pfx_def)
      moreover have "route_cost (?rib ! b) \<le> route_cost (?rib ! i)" if "rr_prefix_len (?rib ! i) = rr_prefix_len (?rib ! b)"
      proof -
        have "candidate ?rib (fib_pfx (rt_fib t ! j)) i"
          using that i(2) cov b(2) by (auto simp: candidate_def rib_covers_def rib_pfx_def)
        then show ?thesis using b(1) i(1) unfolding best_route_def by (metis order.order_iff_strict)
      qed
      ultimately show ?thesis by (metis order.order_iff_strict)
    qed
    moreover have "b < ROUTE_RIB_SIZE" using b(1) by (simp add: best_route_def)
    ultimately show ?thesis using Some j(1) b(2) cov consistent_best(2) [OF assms b(1)] by auto
  qed
qed

text \<open>C1. Route selection and longest prefix match. In a well-formed table, a lookup returns \<open>NULL\<close> exactly when no
  valid RIB entry covers the destination. Otherwise it returns the FIB copy of a selected RIB entry that
  covers the destination, has the longest prefix among all entries that do, and among those of that
  length the least (administrative distance, metric, sequence number).\<close>

theorem route_table_lookup_best:
  assumes "route_table_wf t"
  shows "case route_table_lookup (Some t) dst of
      None \<Rightarrow> \<forall>i < ROUTE_RIB_SIZE. \<not> rib_covers dst (rt_rib t ! i)
    | Some j \<Rightarrow> j < ROUTE_FIB_SIZE \<and> (\<exists>b < ROUTE_RIB_SIZE. rt_fib t ! j = fib_of (rt_rib t ! b) b \<and>
        rib_covers dst (rt_rib t ! b) \<and> rr_selected (rt_rib t ! b) = 1 \<and>
        (\<forall>i < ROUTE_RIB_SIZE. rib_covers dst (rt_rib t ! i) \<longrightarrow>
           rr_prefix_len (rt_rib t ! i) < rr_prefix_len (rt_rib t ! b) \<or>
           rr_prefix_len (rt_rib t ! i) = rr_prefix_len (rt_rib t ! b) \<and>
           route_cost (rt_rib t ! b) \<le> route_cost (rt_rib t ! i)))"
  by (rule route_lookup_longest [OF assms])

section \<open>Updates\<close>

lemma rebuild_wf:
  assumes "rib_wf (rt_rib t)" "length (rt_fib t) = ROUTE_FIB_SIZE" "rt_rib_count t = int (ribs.live_count (rt_rib t))"
  shows "\<exists>t'. route_table_rebuild_fib (Some t) = (0, Some t') \<and> route_table_wf t' \<and> rib_map t' = rib_map t"
proof -
  have len: "length (rt_rib t) = ROUTE_RIB_SIZE" using assms(1) by (simp add: rib_wf_def)
  obtain t' where t': "route_table_rebuild_fib (Some t) = (0, Some t')" "fib_consistent t'"
      "clear_selected (rt_rib t') = clear_selected (rt_rib t)" "length (rt_fib t') = ROUTE_FIB_SIZE"
      "rt_rib_count t' = rt_rib_count t"
    using rebuild_consistent [OF len assms(2)] by blast
  note same = clear_same [OF t'(3)] and wf = clear_same_wf [OF t'(3)]
  have "rib_map t' k = rib_map t k" for k
  proof (cases "ribs.find_key k (rt_rib t)")
    case None
    then show ?thesis by (simp add: rib_map_def ribs.lookup_def wf(3))
  next
    case (Some i)
    then have "i < length (rt_rib t')" using ribs.find_key_Some same(1) by simp
    with Some same(2) show ?thesis by (simp add: rib_map_def ribs.lookup_def wf(3))
  qed
  then have "rib_map t' = rib_map t" by (rule ext)
  then show ?thesis using t' assms wf(1,2) by (auto simp: route_table_wf_def)
qed

lemma rib_wf_update:
  assumes "rib_wf rib" "route_valid_rib_slot e" "ribs.unique (rib[i := e])"
  shows "rib_wf (rib[i := e])"
proof -
  have "set (rib[i := e]) \<subseteq> insert e (set rib)" by (rule set_update_subset_insert)
  then show ?thesis using assms unfolding rib_wf_def by auto
qed

lemma rib_find: "first_idx (rib_matches p l pr) rib = ribs.find_key (p, l, pr) rib"
  by (simp add: ribs.find_key_def rib_matches_def [abs_def] rib_key_def)

lemma rib_free: "first_idx (\<lambda>e. rr_valid e = 0) rib = ribs.find_free rib"
  by (simp add: ribs.find_free_def)

lemma route_add_cases:
  fixes prefix :: u32 and len :: u8
  defines "k \<equiv> \<lambda>proto. (prefix AND ipv4_prefix_mask len, len, proto)"
  assumes wf: "route_table_wf t" and arg: "iface \<noteq> NULL" "len \<le> 32" "proto \<noteq> 0"
  obtains (stored) t' where "route_table_add (Some t) prefix len nh iface metric proto = (0, Some t')"
      "route_table_wf t'" "rib_map t' = (rib_map t)(k proto \<mapsto> (nh, iface, metric))"
    | (full) "route_table_add (Some t) prefix len nh iface metric proto = (- 1, Some t)" "rib_map t (k proto) = None"
      "rt_rib_count t = int ROUTE_RIB_SIZE"
proof (cases "ribs.find_key (k proto) (rt_rib t)")
  case (Some i)
  let ?e = "(rt_rib t ! i)\<lparr>rr_next_hop := nh, rr_iface := iface, rr_metric := metric\<rparr>"
  let ?t = "t\<lparr>rt_rib := (rt_rib t)[i := ?e]\<rparr>"
  note i = ribs.find_key_Some [OF Some]
  have rw: "rib_wf (rt_rib t)" and u: "ribs.unique (rt_rib t)"
    using wf by (simp_all add: route_table_wf_def rib_wf_def)
  have key: "rib_key ?e = k proto" "rr_valid ?e \<noteq> 0" using i by (simp_all add: rib_key_def)
  then have fk: "ribs.find_key (rib_key ?e) (rt_rib t) = Some i" using Some by simp
  have "route_valid_rib_slot (rt_rib t ! i)" using rw i by (auto simp: rib_wf_def)
  then have slot: "route_valid_rib_slot ?e" using i arg by (auto simp: route_valid_rib_slot_def)
  have "rib_wf (rt_rib ?t)" using rib_wf_update [OF rw slot] ribs.unique_overwrite [OF u fk] by simp
  then obtain t' where t': "route_table_rebuild_fib (Some ?t) = (0, Some t')" "route_table_wf t'" "rib_map t' = rib_map ?t"
    using rebuild_wf [of ?t] wf ribs.live_count_overwrite [OF fk key(2)] by (auto simp: route_table_wf_def)
  have "rib_map ?t = (rib_map t)(k proto \<mapsto> (nh, iface, metric))"
    using ribs.lookup_overwrite [OF u fk key(2)] key(1) by (auto simp: rib_map_def)
  moreover have "route_table_add (Some t) prefix len nh iface metric proto = (0, Some t')"
    using Some arg t'(1) by (simp add: route_table_add_def rib_find k_def Let_def not_less)
  ultimately show thesis using t' by (intro stored [of t']) simp_all
next
  case None
  have rw: "rib_wf (rt_rib t)" and u: "ribs.unique (rt_rib t)"
    using wf by (simp_all add: route_table_wf_def rib_wf_def)
  show thesis
  proof (cases "ribs.find_free (rt_rib t)")
    case (Some i)
    let ?e = "\<lparr>rr_prefix = prefix AND ipv4_prefix_mask len, rr_prefix_len = len, rr_proto = proto, rr_valid = 1,
      rr_selected = 0, rr_next_hop = nh, rr_iface = iface, rr_metric = metric, rr_sequence = rt_next_sequence t\<rparr>"
    let ?t = "t\<lparr>rt_rib := (rt_rib t)[i := ?e], rt_next_sequence := rt_next_sequence t + 1,
      rt_rib_count := rt_rib_count t + 1\<rparr>"
    note i = ribs.find_free_Some [OF Some]
    have key: "rib_key ?e = k proto" "rr_valid ?e \<noteq> 0" by (simp_all add: rib_key_def k_def)
    then have fk: "ribs.find_key (rib_key ?e) (rt_rib t) = None" using None by simp
    have slot: "route_valid_rib_slot ?e" using arg by (simp add: route_valid_rib_slot_def)
    have "rib_wf (rt_rib ?t)" using rib_wf_update [OF rw slot] ribs.unique_fill [OF u fk] by simp
    then obtain t' where t': "route_table_rebuild_fib (Some ?t) = (0, Some t')" "route_table_wf t'" "rib_map t' = rib_map ?t"
      using rebuild_wf [of ?t] wf ribs.live_count_fill [of i "rt_rib t" ?e] i by (auto simp: route_table_wf_def)
    have "rib_map ?t = (rib_map t)(k proto \<mapsto> (nh, iface, metric))"
      using ribs.lookup_fill [OF u fk, of i] i key by (auto simp: rib_map_def)
    moreover have "route_table_add (Some t) prefix len nh iface metric proto = (0, Some t')"
      using Some None arg t'(1) by (simp add: route_table_add_def rib_find rib_free k_def Let_def not_less)
    ultimately show thesis using t' by (intro stored [of t']) simp_all
  next
    case free: None
    then have "length (filter (\<lambda>e. rr_valid e \<noteq> 0) (rt_rib t)) = length (rt_rib t)"
      unfolding length_filter_full ribs.find_free_def first_idx_None by simp
    then have "rt_rib_count t = int ROUTE_RIB_SIZE"
      using wf by (simp add: route_table_wf_def rib_wf_def ribs.live_count_def)
    then show thesis using None free arg
      by (intro full) (auto simp: route_table_add_def rib_find rib_free k_def rib_map_def ribs.lookup_def Let_def not_less)
  qed
qed

text \<open>Adding a route to a well-formed table, with a usable interface, prefix length and protocol, keeps the
  table well formed, in particular its FIB consistent with its RIB, and either stores it under its
  normalized prefix and protocol, leaving every other route as it was, or returns -1 without changing the
  table, exactly when the route is new and all 256 RIB slots are in use.\<close>

lemma route_table_add_correct:
  assumes "route_table_wf t" "iface \<noteq> NULL" "len \<le> 32" "proto \<noteq> 0"
  shows "(\<exists>t'. route_table_add (Some t) prefix len nh iface metric proto = (0, Some t') \<and> route_table_wf t' \<and>
      rib_map t' = (rib_map t)((prefix AND ipv4_prefix_mask len, len, proto) \<mapsto> (nh, iface, metric))) \<noteq>
    (route_table_add (Some t) prefix len nh iface metric proto = (- 1, Some t) \<and>
      rib_map t (prefix AND ipv4_prefix_mask len, len, proto) = None \<and> rt_rib_count t = int ROUTE_RIB_SIZE)"
  by (rule route_add_cases [OF assms, of prefix nh metric]) auto

text \<open>The RIB as a bounded map from normalized prefix and protocol to next hop, interface and metric, for the
  routing protocols.\<close>

definition rib_acceptable :: "u32 \<times> u8 \<times> u8 \<Rightarrow> u32 \<times> addr \<times> u32 \<Rightarrow> bool" where
  "rib_acceptable = (\<lambda>(prefix, len, proto) (nh, iface, metric).
     prefix AND ipv4_prefix_mask len = prefix \<and> len \<le> 32 \<and> proto \<noteq> 0 \<and> iface \<noteq> NULL)"

definition rib_store :: "u32 \<times> u8 \<times> u8 \<Rightarrow> u32 \<times> addr \<times> u32 \<Rightarrow> RouteTable \<Rightarrow> RouteTable option" where
  "rib_store = (\<lambda>(prefix, len, proto) (nh, iface, metric) t.
     case route_table_add (Some t) prefix len nh iface metric proto of (r, t') \<Rightarrow> if r = 0 then t' else None)"

interpretation rib_bm: bounded_map route_table_wf rib_map rib_acceptable rib_store
proof
  fix t :: RouteTable and k :: "u32 \<times> u8 \<times> u8" and v :: "u32 \<times> addr \<times> u32"
  obtain prefix len proto nh iface metric where kv: "k = (prefix, len, proto)" "v = (nh, iface, metric)"
    by (cases k; cases v) auto
  assume wf: "route_table_wf t" "rib_acceptable k v"
  then have ok: "prefix AND ipv4_prefix_mask len = prefix" "iface \<noteq> NULL" "len \<le> 32" "proto \<noteq> 0"
    by (simp_all add: rib_acceptable_def kv)
  have cases: "(\<exists>t'. rib_store k v t = Some t' \<and> route_table_wf t' \<and> rib_map t' = (rib_map t)(k \<mapsto> v)) \<or>
      rib_store k v t = None \<and> rib_map t k = None"
    by (rule route_add_cases [OF wf(1) ok(2-4), of prefix nh metric]) (auto simp: rib_store_def kv ok(1))
  show "rib_store k v t = Some t' \<Longrightarrow> route_table_wf t'" for t' using cases by auto
  show "rib_store k v t = Some t' \<Longrightarrow> rib_map t' = (rib_map t)(k \<mapsto> v)" for t' using cases by auto
  show "rib_store k v t = None \<Longrightarrow> rib_map t k = None" using cases by auto
qed

lemma rib_invalidate_slot [simp]: "route_valid_rib_slot (rib_invalidate e)" "rr_valid (rib_invalidate e) = 0"
  by (simp_all add: route_valid_rib_slot_def rib_invalidate_def)

lemma route_delete_result:
  assumes "route_table_wf t" "len \<le> 32" "proto \<noteq> 0"
  shows "\<exists>r t'. route_table_delete (Some t) prefix len proto = (r, Some t') \<and> route_table_wf t' \<and>
    rib_map t' = (rib_map t)((prefix AND ipv4_prefix_mask len, len, proto) := None) \<and>
    (r = 0 \<longleftrightarrow> rib_map t (prefix AND ipv4_prefix_mask len, len, proto) \<noteq> None) \<and> (r \<noteq> 0 \<longrightarrow> r = - 1 \<and> t' = t)"
proof (cases "ribs.find_key (prefix AND ipv4_prefix_mask len, len, proto) (rt_rib t)")
  case None
  then show ?thesis using assms
    by (auto simp: route_table_delete_def rib_find rib_map_def ribs.lookup_def Let_def not_less)
next
  case (Some i)
  let ?k = "(prefix AND ipv4_prefix_mask len, len, proto)"
  let ?e = "rib_invalidate (rt_rib t ! i)"
  note i = ribs.find_key_Some [OF Some]
  have rw: "rib_wf (rt_rib t)" and u: "ribs.unique (rt_rib t)"
    using assms(1) by (simp_all add: route_table_wf_def rib_wf_def)
  have lc: "int (ribs.live_count ((rt_rib t)[i := ?e])) = int (ribs.live_count (rt_rib t)) - 1"
    using i by (intro ribs.live_count_dead) simp_all
  let ?t = "t\<lparr>rt_rib := (rt_rib t)[i := ?e],
    rt_rib_count := (if 0 < rt_rib_count t then rt_rib_count t - 1 else rt_rib_count t)\<rparr>"
  have "rib_wf (rt_rib ?t)" using rw u by (simp add: rib_wf_update ribs.unique_dead)
  moreover have "rt_rib_count ?t = int (ribs.live_count (rt_rib ?t))"
    using lc assms(1) by (auto simp: route_table_wf_def)
  ultimately obtain t' where t': "route_table_rebuild_fib (Some ?t) = (0, Some t')" "route_table_wf t'" "rib_map t' = rib_map ?t"
    using rebuild_wf [of ?t] assms(1) by (auto simp: route_table_wf_def)
  have "rib_map ?t = (rib_map t)(?k := None)"
    using ribs.lookup_dead [OF u, of i ?e] i by (auto simp: rib_map_def)
  moreover have "rib_map t ?k \<noteq> None" using Some by (simp add: rib_map_def ribs.lookup_def)
  moreover have "route_table_delete (Some t) prefix len proto = (0, Some t')"
    using Some assms t'(1) by (simp add: route_table_delete_def rib_find Let_def not_less)
  ultimately show ?thesis using t' by auto
qed

text \<open>Deleting a route from a well-formed table removes exactly it and returns 0, or returns -1 and changes
  nothing when the table has no such route; the table stays well formed with a consistent FIB.\<close>

lemma route_table_delete_correct:
  assumes "route_table_wf t" "len \<le> 32" "proto \<noteq> 0"
  shows "\<exists>r t'. route_table_delete (Some t) prefix len proto = (r, Some t') \<and> route_table_wf t' \<and>
    rib_map t' = (rib_map t)((prefix AND ipv4_prefix_mask len, len, proto) := None) \<and>
    (r = 0 \<longleftrightarrow> rib_map t (prefix AND ipv4_prefix_mask len, len, proto) \<noteq> None) \<and> (r \<noteq> 0 \<longrightarrow> r = - 1 \<and> t' = t)"
  using assms by (rule route_delete_result)

lemma flush_loop_map:
  fixes proto :: u8
  defines "P \<equiv> \<lambda>e. rr_valid e \<noteq> 0 \<and> rr_proto e = proto"
  shows "int (length (filter P es)) \<le> n \<Longrightarrow> flush_loop proto es n cnt =
    (map (\<lambda>e. if P e then rib_invalidate e else e) es, n - int (length (filter P es)), cnt + int (length (filter P es)))"
proof (induction es arbitrary: n cnt)
  case Nil
  then show ?case by simp
next
  case (Cons e es)
  show ?case
  proof (cases "P e")
    case True
    with Cons.prems have "0 < n" by simp
    with True Cons.IH [of "n - 1" "cnt + 1"] Cons.prems show ?thesis by (simp add: P_def)
  next
    case False
    with Cons show ?thesis by (auto simp: P_def)
  qed
qed

lemma route_flush_result:
  assumes "route_table_wf t" "proto \<noteq> 0"
  shows "\<exists>n t'. route_table_flush_proto (Some t) proto = (n, Some t') \<and> route_table_wf t' \<and>
    n = int (length (filter (\<lambda>e. rr_valid e \<noteq> 0 \<and> rr_proto e = proto) (rt_rib t))) \<and>
    rt_rib_count t' = rt_rib_count t - n \<and>
    rib_map t' = (\<lambda>(p, l, pr). if pr = proto then None else rib_map t (p, l, pr))"
proof -
  let ?P = "\<lambda>e. rr_valid e \<noteq> 0 \<and> rr_proto e = proto"
  let ?rib = "map (\<lambda>e. if ?P e then rib_invalidate e else e) (rt_rib t)"
  let ?n = "int (length (filter ?P (rt_rib t)))"
  have rw: "rib_wf (rt_rib t)" and u: "ribs.unique (rt_rib t)"
    using assms(1) by (simp_all add: route_table_wf_def rib_wf_def)
  have lc: "ribs.live_count ?rib + length (filter ?P (rt_rib t)) = ribs.live_count (rt_rib t)"
    by (rule ribs.live_count_kill_where) simp
  then have le: "?n \<le> rt_rib_count t" using assms(1) by (simp add: route_table_wf_def)
  let ?t = "t\<lparr>rt_rib := ?rib, rt_rib_count := rt_rib_count t - ?n\<rparr>"
  have "rib_wf (rt_rib ?t)" using rw ribs.unique_kill_where [OF u, of ?P] by (auto simp: rib_wf_def)
  moreover have "rt_rib_count ?t = int (ribs.live_count (rt_rib ?t))"
    using lc assms(1) by (simp add: route_table_wf_def)
  ultimately obtain t' where t': "route_table_rebuild_fib (Some ?t) = (0, Some t')" "route_table_wf t'" "rib_map t' = rib_map ?t"
    using rebuild_wf [of ?t] assms(1) by (auto simp: route_table_wf_def)
  have c: "rt_rib_count t' = rt_rib_count ?t"
    using t'(1) rebuild_fib_result [of ?t] assms(1) by (auto simp: route_table_wf_def rib_wf_def)
  have "rib_map ?t (p, l, pr) = (if pr = proto then None else rib_map t (p, l, pr))" for p l pr
  proof -
    have "rr_valid e \<noteq> 0 \<and> rr_proto e = pr" if "ribs.lookup (rt_rib t) (p, l, pr) = Some e" for e
      using that ribs.lookup_Some_iff [OF u] by (simp add: rib_key_def)
    then show ?thesis using ribs.lookup_kill_where [OF u, of ?P "(p, l, pr)"]
      by (auto simp: rib_map_def split: option.splits)
  qed
  then have "rib_map t' = (\<lambda>(p, l, pr). if pr = proto then None else rib_map t (p, l, pr))"
    using t'(3) by (auto simp: fun_eq_iff)
  moreover have "route_table_flush_proto (Some t) proto = (?n, Some t')"
    using assms(2) t'(1) flush_loop_map [OF le, where cnt = 0] by (simp add: route_table_flush_proto_def)
  ultimately show ?thesis using t'(2) c by auto
qed

text \<open>Flushing a protocol removes exactly its routes, returns how many there were, counts \<open>rib_count\<close> down
  accordingly and leaves a well-formed table with a consistent FIB.\<close>

lemma route_table_flush_proto_correct:
  assumes "route_table_wf t" "proto \<noteq> 0"
  shows "\<exists>n t'. route_table_flush_proto (Some t) proto = (n, Some t') \<and> route_table_wf t' \<and>
    n = int (length (filter (\<lambda>e. rr_valid e \<noteq> 0 \<and> rr_proto e = proto) (rt_rib t))) \<and>
    rt_rib_count t' = rt_rib_count t - n \<and>
    rib_map t' = (\<lambda>(p, l, pr). if pr = proto then None else rib_map t (p, l, pr))"
  using assms by (rule route_flush_result)

section \<open>Rebuild and reachable tables\<close>

text \<open>Rebuilding the FIB of any table with arrays of the right size returns 0 and makes the FIB the best routes of
  the RIB: it has exactly one valid entry for every prefix that has a valid candidate, which is the copy of
  the best candidate and refers to it by index; the \<open>selected\<close> flags of the valid RIB entries mark exactly
  the best candidates; \<open>fib_count\<close> is the number of valid FIB entries; nothing else in the RIB changes.\<close>

lemma route_table_rebuild_fib_correct:
  assumes "length (rt_rib t) = ROUTE_RIB_SIZE" "length (rt_fib t) = ROUTE_FIB_SIZE"
  shows "\<exists>t'. route_table_rebuild_fib (Some t) = (0, Some t') \<and>
    clear_selected (rt_rib t') = clear_selected (rt_rib t) \<and>
    (\<forall>k b. best_route (rt_rib t) ROUTE_RIB_SIZE k b \<longleftrightarrow>
       fib_of (rt_rib t ! b) b \<in> set (rt_fib t') \<and> b < ROUTE_RIB_SIZE \<and> rib_pfx (rt_rib t ! b) = k) \<and>
    fibs.unique (rt_fib t') \<and> rt_fib_count t' = int (fibs.live_count (rt_fib t'))"
proof -
  let ?rib = "clear_selected (rt_rib t)"
  obtain t' where t': "route_table_rebuild_fib (Some t) = (0, Some t')" "rebuilt ?rib ROUTE_RIB_SIZE t'"
    using rebuild_fib_result [OF assms] by blast
  have eq: "best_route ?rib ROUTE_RIB_SIZE k b = best_route (rt_rib t) ROUTE_RIB_SIZE k b" for k b
    using best_route_clear [of ROUTE_RIB_SIZE "rt_rib t"] assms(1) by simp
  have fo: "fib_of (?rib ! b) b = fib_of (rt_rib t ! b) b" if "b < ROUTE_RIB_SIZE" for b
    using that assms(1) by (simp add: clear_nth)
  have slot: "\<exists>b. best_route (rt_rib t) ROUTE_RIB_SIZE (fib_pfx f) b \<and> f = fib_of (?rib ! b) b"
    if "f \<in> set (rt_fib t')" "rf_valid f \<noteq> 0" for f
    using that t'(2) unfolding rebuilt_def fib_slot_ok_def eq by metis
  have "best_route (rt_rib t) ROUTE_RIB_SIZE k b \<longleftrightarrow>
      fib_of (rt_rib t ! b) b \<in> set (rt_fib t') \<and> b < ROUTE_RIB_SIZE \<and> rib_pfx (rt_rib t ! b) = k" for k b
  proof
    assume b: "best_route (rt_rib t) ROUTE_RIB_SIZE k b"
    then obtain f where f: "f \<in> set (rt_fib t')" "rf_valid f \<noteq> 0" "fib_pfx f = k"
      using t'(2) unfolding rebuilt_def eq by blast
    moreover obtain c where c: "best_route (rt_rib t) ROUTE_RIB_SIZE (fib_pfx f) c" "f = fib_of (?rib ! c) c"
      using slot [OF f(1,2)] by blast
    moreover have "b < ROUTE_RIB_SIZE" using b by (simp add: best_route_def)
    moreover have "c = b" using best_route_unique b c(1) f(3) by blast
    ultimately show "fib_of (rt_rib t ! b) b \<in> set (rt_fib t') \<and> b < ROUTE_RIB_SIZE \<and> rib_pfx (rt_rib t ! b) = k"
      using fo best_route_pfx [OF b] by simp
  next
    assume b: "fib_of (rt_rib t ! b) b \<in> set (rt_fib t') \<and> b < ROUTE_RIB_SIZE \<and> rib_pfx (rt_rib t ! b) = k"
    then obtain c where c: "best_route (rt_rib t) ROUTE_RIB_SIZE k c" "fib_of (rt_rib t ! b) b = fib_of (?rib ! c) c"
      using slot [of "fib_of (rt_rib t ! b) b"] by auto
    have "b = c" using arg_cong [OF c(2), of rf_rib_index] by simp
    with c(1) show "best_route (rt_rib t) ROUTE_RIB_SIZE k b" by simp
  qed
  moreover have "fibs.unique (rt_fib t')" "rt_fib_count t' = int (fibs.live_count (rt_fib t'))"
    using t'(2) unfolding rebuilt_def by blast+
  ultimately show ?thesis using t'(1) rebuilt_clear [OF t'(2) assms(1)] by blast
qed

definition empty_route_table :: RouteTable where
  "empty_route_table = \<lparr>rt_rib = replicate ROUTE_RIB_SIZE zero_rib, rt_rib_count = 0,
     rt_fib = replicate ROUTE_FIB_SIZE zero_fib, rt_fib_count = 0, rt_next_sequence = 1\<rparr>"

lemma route_init: "route_table_init (Some x) = Some empty_route_table"
  by (simp add: route_table_init_def empty_route_table_def)

lemma empty_route_table_wf: "route_table_wf empty_route_table" "rib_map empty_route_table = Map.empty"
proof -
  let ?rib = "replicate ROUTE_RIB_SIZE zero_rib" and ?fib = "replicate ROUTE_FIB_SIZE zero_fib"
  have dead: "\<forall>e \<in> set ?rib. \<not> rr_valid e \<noteq> 0" "\<forall>f \<in> set ?fib. \<not> rf_valid f \<noteq> 0"
    by (simp_all add: zero_rib_def zero_fib_def)
  have clear: "clear_selected ?rib = ?rib" by (simp add: clear_selected_def zero_rib_def)
  have nob: "\<not> best_route ?rib ROUTE_RIB_SIZE k b" for k b
    by (auto simp: best_route_def candidate_def zero_rib_def)
  have "rebuilt ?rib ROUTE_RIB_SIZE empty_route_table"
    using fibs.unique_all_dead [OF dead(2)] fibs.live_count_all_dead [OF dead(2)] nob
    by (simp add: rebuilt_def empty_route_table_def fib_slot_ok_def) (simp add: zero_rib_def zero_fib_def)
  moreover have "rib_wf ?rib" using ribs.unique_all_dead [OF dead(1)]
    by (simp add: rib_wf_def route_valid_rib_slot_def zero_rib_def)
  ultimately show "route_table_wf empty_route_table"
    using ribs.live_count_all_dead [OF dead(1)] clear
    by (simp add: route_table_wf_def fib_consistent_def empty_route_table_def)
  show "rib_map empty_route_table = Map.empty"
    by (auto simp: rib_map_def empty_route_table_def ribs.lookup_None_iff zero_rib_def)
qed

text \<open>The tables that the program can reach: what the operations make of an initialised table, with any
  arguments.\<close>

inductive rt_reachable :: "RouteTable \<Rightarrow> bool" where
  rt_init: "route_table_init (Some x) = Some t \<Longrightarrow> rt_reachable t"
| rt_add: "rt_reachable t \<Longrightarrow> route_table_add (Some t) prefix len nh iface metric proto = (r, Some t') \<Longrightarrow> rt_reachable t'"
| rt_delete: "rt_reachable t \<Longrightarrow> route_table_delete (Some t) prefix len proto = (r, Some t') \<Longrightarrow> rt_reachable t'"
| rt_flush: "rt_reachable t \<Longrightarrow> route_table_flush_proto (Some t) proto = (n, Some t') \<Longrightarrow> rt_reachable t'"

lemma route_add_wf:
  assumes "route_table_wf t" "route_table_add (Some t) prefix len nh iface metric proto = (r, Some t')"
  shows "route_table_wf t'"
proof (cases "iface \<noteq> NULL \<and> len \<le> 32 \<and> proto \<noteq> 0")
  case True
  then have a: "iface \<noteq> NULL" "len \<le> 32" "proto \<noteq> 0" by simp_all
  show ?thesis
    by (rule route_add_cases [OF assms(1) a, of prefix nh metric]) (use assms in simp_all)
next
  case False
  with assms show ?thesis by (auto simp: route_table_add_def not_le)
qed

lemma route_delete_wf:
  assumes "route_table_wf t" "route_table_delete (Some t) prefix len proto = (r, Some t')"
  shows "route_table_wf t'"
proof (cases "len \<le> 32 \<and> proto \<noteq> 0")
  case True
  with route_delete_result [OF assms(1), of len proto prefix] assms(2) show ?thesis by auto
next
  case False
  with assms show ?thesis by (auto simp: route_table_delete_def not_le)
qed

lemma route_flush_wf:
  assumes "route_table_wf t" "route_table_flush_proto (Some t) proto = (n, Some t')"
  shows "route_table_wf t'"
proof (cases "proto = 0")
  case True
  with assms show ?thesis by (simp add: route_table_flush_proto_def)
next
  case False
  with route_flush_result [OF assms(1), of proto] assms(2) show ?thesis by auto
qed

text \<open>C31. Every table that the program can reach from an initialised one by adding, deleting and flushing routes,
  with any arguments, is well formed: unique normalized prefixes per protocol, exact counts, and a FIB that
  agrees with the RIB.\<close>

lemma rt_reachable_wf:
  assumes "rt_reachable t"
  shows "route_table_wf t"
  using assms
proof (induction rule: rt_reachable.induct)
  case (rt_init x t)
  then show ?case by (simp add: route_init empty_route_table_wf(1))
next
  case (rt_add t prefix len nh iface metric proto r t')
  then show ?case by (blast intro: route_add_wf)
next
  case (rt_delete t prefix len proto r t')
  then show ?case by (blast intro: route_delete_wf)
next
  case (rt_flush t proto n t')
  then show ?case by (blast intro: route_flush_wf)
qed

section \<open>Instances\<close>

lemma demo_route_table:
  obtains t where "route_table_add (Some empty_route_table) 0x0A010203 16 0x0A000002 7 5 ROUTE_PROTO_STATIC = (0, Some t)"
    "route_table_wf t" "rib_map t (0x0A010000, 16, ROUTE_PROTO_STATIC) = Some (0x0A000002, 7, 5)"
proof -
  have k: "(0x0A010203 :: u32) AND ipv4_prefix_mask 16 = 0x0A010000" by (simp add: ipv4_prefix_mask_def)
  have a: "(7 :: addr) \<noteq> NULL" "(16 :: u8) \<le> 32" "ROUTE_PROTO_STATIC \<noteq> 0" by (simp_all add: ROUTE_PROTO_STATIC_def)
  show thesis
    by (rule route_add_cases [OF empty_route_table_wf(1) a, of "0x0A010203" "0x0A000002" 5])
       (use that k in \<open>auto simp: empty_route_table_def ROUTE_RIB_SIZE_def\<close>)
qed

lemma route_table_add_correct_witness:
  "\<exists>t. route_table_add (Some empty_route_table) 0x0A010203 16 0x0A000002 7 5 ROUTE_PROTO_STATIC = (0, Some t) \<and> route_table_wf t"
  using route_table_add_correct [OF empty_route_table_wf(1), of 7 16 ROUTE_PROTO_STATIC "0x0A010203" "0x0A000002" 5]
  by (auto simp: ROUTE_PROTO_STATIC_def empty_route_table_def ROUTE_RIB_SIZE_def)

lemma route_table_lookup_best_witness:
  "\<exists>t. route_table_wf t \<and> rib_map t \<noteq> Map.empty \<and> (case route_table_lookup (Some t) 0x0A01FFFF of
      None \<Rightarrow> \<forall>i < ROUTE_RIB_SIZE. \<not> rib_covers 0x0A01FFFF (rt_rib t ! i)
    | Some j \<Rightarrow> j < ROUTE_FIB_SIZE)"
proof -
  obtain t where t: "route_table_wf t" "rib_map t (0x0A010000, 16, ROUTE_PROTO_STATIC) = Some (0x0A000002, 7, 5)"
    by (rule demo_route_table)
  then have "rib_map t \<noteq> Map.empty" by (metis option.distinct(1))
  with t(1) route_table_lookup_best [OF t(1), of "0x0A01FFFF"] show ?thesis
    by (intro exI [of _ t]) (auto split: option.splits)
qed

lemma route_table_delete_correct_witness:
  "\<exists>t. route_table_delete (Some empty_route_table) 0x0A000000 8 1 = (- 1, Some t) \<and> route_table_wf t"
  using route_table_delete_correct [OF empty_route_table_wf(1), of 8 1 "0x0A000000"]
  by (auto simp: empty_route_table_wf(2))

lemma route_table_flush_proto_correct_witness:
  "\<exists>n t. route_table_flush_proto (Some empty_route_table) 3 = (n, Some t) \<and> route_table_wf t"
  using route_table_flush_proto_correct [OF empty_route_table_wf(1), of 3] by auto

lemma route_table_rebuild_fib_correct_witness:
  "\<exists>t. route_table_rebuild_fib (Some empty_route_table) = (0, Some t) \<and> fibs.unique (rt_fib t)"
  using route_table_rebuild_fib_correct [of empty_route_table]
  by (auto simp: empty_route_table_def)

lemma rt_reachable_wf_witness: "\<exists>t. rt_reachable t \<and> route_table_wf t \<and> rib_map t \<noteq> Map.empty"
proof -
  obtain t where t: "route_table_add (Some empty_route_table) 0x0A010203 16 0x0A000002 7 5 ROUTE_PROTO_STATIC = (0, Some t)"
      "rib_map t (0x0A010000, 16, ROUTE_PROTO_STATIC) = Some (0x0A000002, 7, 5)"
    by (rule demo_route_table)
  have "rt_reachable t" by (rule rt_add [OF rt_init [OF route_init] t(1)])
  moreover have "rib_map t \<noteq> Map.empty" using t(2) by (metis option.distinct(1))
  ultimately show ?thesis using rt_reachable_wf by blast
qed

end
