(* ===== verification/Router.thy ===== *)
theory Router
  imports Udp Route_Table
begin

text \<open>
  Routers (\<open>network/router.h\<close>, \<open>network/router.c\<close>): forwarding by the routing table with address resolution of
  the next hop, and local delivery to the protocol stack of the router. The device, the ARP cache and the IP stack
  are members of the C structure; here each lives in the heap of its type at the address of the router, so that
  pointers to them are that address. The routing table and the simulator pointer are in the heap \<open>w_routers\<close>.
\<close>

section \<open>State\<close>

record Router =
  ro_route_tbl :: RouteTable
  ro_sim :: addr

record router_world = udp_world +
  w_routers :: "addr \<rightharpoonup> Router"

definition router_at :: "addr \<Rightarrow> 'a router_world_scheme \<Rightarrow> Router option" where
  "router_at a w = (if a = NULL then None else w_routers w a)"

definition router_put :: "addr \<Rightarrow> Router \<Rightarrow> 'a router_world_scheme \<Rightarrow> 'a router_world_scheme" where
  "router_put a r w = w\<lparr>w_routers := (w_routers w)(a \<mapsto> r)\<rparr>"

definition as_router :: "vptr \<Rightarrow> addr option" where
  "as_router v = (case v of VNull \<Rightarrow> Some NULL | VRouter a \<Rightarrow> Some a | _ \<Rightarrow> None)"

definition ROUTER_MAX_PORTS :: nat where "ROUTER_MAX_PORTS = 8"

section \<open>Operations\<close>

text \<open>The scan of \<open>router_ip_is_local\<close> skips \<open>NULL\<close> interfaces and compares in host byte order.\<close>

fun local_in :: "u32 \<Rightarrow> addr list \<Rightarrow> 'a router_world_scheme \<Rightarrow> int option" where
  "local_in dst_ip [] w = Some 0"
| "local_in dst_ip (a # as) w =
     (if a = NULL then local_in dst_ip as w
      else do { i \<leftarrow> iface_at a w; if ns_ntohl (if_ip_addr i) = dst_ip then Some 1 else local_in dst_ip as w })"

definition router_ip_is_local :: "addr \<Rightarrow> u32 \<Rightarrow> 'a router_world_scheme \<Rightarrow> int option" where
  "router_ip_is_local router dst_ip w =
     (if router = NULL then Some 0 else do { d \<leftarrow> dev_at router w; local_in dst_ip (dev_interfaces d) w })"

definition router_ip_is_control_multicast :: "u32 \<Rightarrow> bool" where
  "router_ip_is_control_multicast dst_ip \<longleftrightarrow> dst_ip = 0xE0000005 \<or> dst_ip = 0xE0000006"

text \<open>The members of a router after \<open>memset\<close>.\<close>

definition zero_cache :: ArpCache where
  "zero_cache = \<lparr>ac_entries = replicate ARP_MAX_CACHE_SIZE zero_arp_entry, ac_count = 0,
     ac_pending = replicate ARP_MAX_PENDING_PACKETS zero_pending, ac_pending_count = 0\<rparr>"

definition zero_table :: RouteTable where
  "zero_table = \<lparr>rt_rib = replicate ROUTE_RIB_SIZE zero_rib, rt_rib_count = 0, rt_fib = replicate ROUTE_FIB_SIZE zero_fib,
     rt_fib_count = 0, rt_next_sequence = 0\<rparr>"

definition router_create :: "string option \<Rightarrow> addr \<Rightarrow> 'a router_world_scheme \<Rightarrow> (addr \<times> 'a router_world_scheme) option" where
  "router_create name sim w =
     (if name = None \<or> sim = NULL then Some (NULL, w)
      else case alloc w of (router, w) \<Rightarrow>
        if router = NULL then Some (NULL, w)
        else case device_create name (int ROUTER_MAX_PORTS) w of (dev, w) \<Rightarrow>
          if dev = NULL then Some (NULL, w)
          else do {
            d \<leftarrow> dev_at dev w;
            let w = (dev_put router d w)\<lparr>w_devs := (w_devs (dev_put router d w))(dev := None)\<rparr>;
            c \<leftarrow> arp_cache_init (Some zero_cache);
            t \<leftarrow> route_table_init (Some zero_table);
            let w = router_put router \<lparr>ro_route_tbl = t, ro_sim = sim\<rparr> (cache_put router c w);
            Some (router, ip_stack_init router sim w)
          })"

definition router_free :: "addr \<Rightarrow> 'a router_world_scheme \<Rightarrow> 'a router_world_scheme option" where
  "router_free router w =
     (if router = NULL then Some w
      else do {
        _ \<leftarrow> router_at router w;
        d \<leftarrow> dev_at router w;
        w \<leftarrow> free_ifaces (dev_interfaces d) w;
        Some (w\<lparr>w_devs := (w_devs w)(router := None), w_caches := (w_caches w)(router := None),
          w_stacks := (w_stacks w)(router := None), w_routers := (w_routers w)(router := None)\<rparr>)
      })"

definition router_add_interface :: "addr \<Rightarrow> addr \<Rightarrow> 'a router_world_scheme \<Rightarrow> (int \<times> 'a router_world_scheme) option" where
  "router_add_interface router iface w =
     (if router = NULL \<or> iface = NULL then Some (- 1, w)
      else do {
        d \<leftarrow> dev_at router w;
        if ROUTER_MAX_PORTS \<le> length (dev_interfaces d) then Some (- 1, w)
        else do {
          (res, w) \<leftarrow> device_add_interface router iface w;
          if res = - 1 then Some (- 1, w)
          else do {
            w \<leftarrow> interface_set_arp_cache iface router w;
            w \<leftarrow> interface_set_rx_handler iface Rx_router_rx_shim (VRouter router) w;
            Some (0, w)
          }
        }
      })"

text \<open>A packet that is not forwarded: the ICMP error has been sent (its result is ignored), the drop is counted and
  the packet freed.\<close>

definition router_drop :: "addr \<Rightarrow> addr \<Rightarrow> (int \<times> 'a router_world_scheme) option \<Rightarrow> (int \<times> 'a router_world_scheme) option" where
  "router_drop iface pkt res = do {
     (_, w) \<leftarrow> res;
     w \<leftarrow> iface_upd iface (\<lambda>i. i\<lparr>if_rx_dropped := if_rx_dropped i + 1\<rparr>) w;
     w \<leftarrow> packet_free pkt w;
     Some (- 1, w)
   }"

text \<open>The stores \<open>ttl--\<close>, \<open>header_checksum = 0\<close> and \<open>header_checksum = ip_checksum(ip_hdr)\<close> on the 20 header bytes.\<close>

definition decrement_ttl :: "bytes \<Rightarrow> bytes" where
  "decrement_ttl b =
     (let b = set16 10 0 (b[8 := b ! 8 - 1]) in set16 10 (ip_checksum (Some b)) b)"

text \<open>The end of \<open>router_receive\<close>: the packet goes to the neighbour whose address is cached, or waits for it.\<close>

definition router_output :: "addr \<Rightarrow> addr \<Rightarrow> addr \<Rightarrow> u32 \<Rightarrow> addr \<Rightarrow> 'a router_world_scheme \<Rightarrow>
    (int \<times> 'a router_world_scheme) option" where
  "router_output router sim out target_ip pkt w = do {
     c \<leftarrow> cache_at router w;
     case arp_cache_lookup (Some c) target_ip True of
       (_, Some dst_mac) \<Rightarrow> ethernet_send sim out (Some dst_mac) ETHERTYPE_IPV4 pkt w
     | (_, None) \<Rightarrow> do {
         (r, w) \<leftarrow> arp_send_request sim out (ns_htonl target_ip) w;
         if r \<noteq> 0 then do { w \<leftarrow> packet_free pkt w; Some (- 1, w) }
         else do {
           c \<leftarrow> cache_at router w;
           let (r, c') = arp_pending_enqueue (Some c) out target_ip ETHERTYPE_IPV4 pkt;
           c' \<leftarrow> c';
           let w = cache_put router c' w;
           if r = - 1 then do { w \<leftarrow> packet_free pkt w; Some (- 1, w) } else Some (0, w)
         }
       }
   }"

type_synonym 'a router_pcall =
  "IpProtocolHandler \<Rightarrow> addr \<Rightarrow> addr \<Rightarrow> vptr \<Rightarrow> 'a router_world_scheme \<Rightarrow> (int \<times> 'a router_world_scheme) option"

definition router_receive :: "'a router_pcall \<Rightarrow> addr \<Rightarrow> addr \<Rightarrow> addr \<Rightarrow> 'a router_world_scheme \<Rightarrow>
    (int \<times> 'a router_world_scheme) option" where
  "router_receive pcall router iface pkt w =
     (if router = NULL \<or> iface = NULL \<or> pkt = NULL then Some (- 1, w)
      else do {
        r \<leftarrow> router_at router w;
        if ro_sim r = NULL then do { w \<leftarrow> packet_free pkt w; Some (- 1, w) }
        else do {
          p \<leftarrow> pkt_at pkt w;
          valid \<leftarrow> ip_validate_header (Some p);
          if valid \<noteq> 0 then do {
            w \<leftarrow> packet_free pkt w;
            w \<leftarrow> iface_upd iface (\<lambda>i. i\<lparr>if_rx_errors := if_rx_errors i + 1\<rparr>) w;
            Some (- 1, w)
          }
          else do {
            b \<leftarrow> pkt_read p 0 IP_HDR_LEN;
            let dst_ip = ns_ntohl (ih_dst_ip (ip_load b));
            is_local \<leftarrow> router_ip_is_local router dst_ip w;
            if is_local \<noteq> 0 \<or> router_ip_is_control_multicast dst_ip
            then ip_receive pcall iface pkt ETHERTYPE_IPV4 (VStack router) w
            else if ih_ttl (ip_load b) \<le> 1 then router_drop iface pkt (icmp_send_time_exceeded (ro_sim r) iface pkt w)
            else (case route_table_lookup (Some (ro_route_tbl r)) dst_ip of
                None \<Rightarrow> router_drop iface pkt (icmp_send_unreach_net (ro_sim r) iface pkt w)
              | Some k \<Rightarrow> do {
                  let route = rt_fib (ro_route_tbl r) ! k;
                  let target = (if rf_next_hop route \<noteq> 0 then rf_next_hop route else dst_ip);
                  p \<leftarrow> pkt_write 0 (decrement_ttl b) p;
                  router_output router (ro_sim r) (rf_iface route) target pkt (pkt_put pkt p w)
                })
          }
        }
      })"

definition router_rx_shim :: "'a router_pcall \<Rightarrow> addr \<Rightarrow> addr \<Rightarrow> u16 \<Rightarrow> vptr \<Rightarrow> 'a router_world_scheme \<Rightarrow>
    'a router_world_scheme option" where
  "router_rx_shim pcall iface pkt ethertype ctx w =
     (if pkt = NULL then Some w
      else if iface = NULL then packet_free pkt w
      else do {
        router \<leftarrow> as_router ctx;
        if router = NULL \<or> ethertype \<noteq> ETHERTYPE_IPV4 then do {
          w \<leftarrow> packet_free pkt w;
          iface_upd iface (\<lambda>i. i\<lparr>if_rx_dropped := if_rx_dropped i + 1\<rparr>) w
        }
        else do { (_, w) \<leftarrow> router_receive pcall router iface pkt w; Some w }
      })"

text \<open>Both route operations act on the table inside the router.\<close>

definition on_route_tbl :: "addr \<Rightarrow> (RouteTable option \<Rightarrow> int \<times> RouteTable option) \<Rightarrow> 'a router_world_scheme \<Rightarrow>
    (int \<times> 'a router_world_scheme) option" where
  "on_route_tbl router f w =
     (if router = NULL then Some (- 1, w)
      else do {
        r \<leftarrow> router_at router w;
        let (res, t) = f (Some (ro_route_tbl r));
        t \<leftarrow> t;
        Some (res, router_put router (r\<lparr>ro_route_tbl := t\<rparr>) w)
      })"

definition router_add_route :: "addr \<Rightarrow> u32 \<Rightarrow> u8 \<Rightarrow> u32 \<Rightarrow> addr \<Rightarrow> u32 \<Rightarrow> u8 \<Rightarrow> 'a router_world_scheme \<Rightarrow>
    (int \<times> 'a router_world_scheme) option" where
  "router_add_route router prefix prefix_len next_hop iface metric proto =
     on_route_tbl router (\<lambda>t. route_table_add t prefix prefix_len next_hop iface metric proto)"

definition router_del_route :: "addr \<Rightarrow> u32 \<Rightarrow> u8 \<Rightarrow> u8 \<Rightarrow> 'a router_world_scheme \<Rightarrow>
    (int \<times> 'a router_world_scheme) option" where
  "router_del_route router prefix prefix_len proto =
     on_route_tbl router (\<lambda>t. route_table_delete t prefix prefix_len proto)"

section \<open>Well-formed routers\<close>

definition router_wf :: "'a router_world_scheme \<Rightarrow> addr \<Rightarrow> bool" where
  "router_wf w router \<longleftrightarrow> (\<exists>r d c s. router_at router w = Some r \<and> ro_sim r \<noteq> NULL \<and> route_table_wf (ro_route_tbl r) \<and>
     dev_wf w router \<and> dev_at router w = Some d \<and> dev_iface_max d = int ROUTER_MAX_PORTS \<and>
     (\<forall>a \<in> set (dev_interfaces d). \<exists>i. iface_at a w = Some i \<and> if_arp_cache i = router \<and>
        if_rx_handler i = Rx_router_rx_shim \<and> if_handler_ctx i = VRouter router) \<and>
     cache_at router w = Some c \<and> arp_cache_wf c \<and>
     stack_at router w = Some s \<and> st_sim s = ro_sim r \<and> length (st_protocols s) = 256)"

text \<open>The addresses of a router, in host byte order.\<close>

definition local_addrs :: "'a router_world_scheme \<Rightarrow> Device \<Rightarrow> u32 set" where
  "local_addrs w d = (\<lambda>a. ns_ntohl (if_ip_addr (the (iface_at a w)))) ` set (dev_interfaces d)"

lemma router_at_nonnull: "router_at a w = Some r \<Longrightarrow> a \<noteq> NULL"
  by (simp add: router_at_def split: if_splits)

lemma router_at_frames [simp]:
  "router_at a (pkt_put b p w) = router_at a w" "router_at a (iface_put b i w) = router_at a w"
  "router_at a (cache_put b c w) = router_at a w" "router_at a (dev_put b d w) = router_at a w"
  by (simp_all add: router_at_def pkt_put_def iface_put_def cache_put_def dev_put_def)

lemma cache_at_frames [simp]:
  "cache_at a (pkt_put b p w) = cache_at a w" "cache_at a (iface_put b i w) = cache_at a w"
  "cache_at a (dev_put b d w) = cache_at a w" "stack_at a (dev_put b d ws) = stack_at a ws"
  by (simp_all add: cache_at_def stack_at_def pkt_put_def iface_put_def dev_put_def)

lemma local_in_live:
  "\<forall>a \<in> set as. iface_at a w \<noteq> None \<Longrightarrow>
   local_in dst as w = Some (if dst \<in> (\<lambda>a. ns_ntohl (if_ip_addr (the (iface_at a w)))) ` set as then 1 else 0)"
  by (induction as) (auto dest: iface_at_nonnull)

lemma router_local:
  assumes "router_wf w router" "dev_at router w = Some d"
  shows "router_ip_is_local router dst w = Some (if dst \<in> local_addrs w d then 1 else 0)"
proof -
  have "\<forall>a \<in> set (dev_interfaces d). iface_at a w \<noteq> None" using assms by (auto simp: router_wf_def)
  then show ?thesis using local_in_live [of "dev_interfaces d" w dst] assms(2)
    by (simp add: router_ip_is_local_def local_addrs_def dev_at_nonnull)
qed

section \<open>Forwarding\<close>

text \<open>The header of a forwarded packet.\<close>

definition forwarded :: "IpHeader \<Rightarrow> IpHeader" where
  "forwarded h = (let h = h\<lparr>ih_ttl := ih_ttl h - 1, ih_header_checksum := 0\<rparr>
     in h\<lparr>ih_header_checksum := ip_checksum (Some (ip_bytes h))\<rparr>)"

lemma ip_bytes_ttl: "ip_bytes (h\<lparr>ih_ttl := x\<rparr>) = (ip_bytes h)[8 := x]" "ip_bytes h ! 8 = ih_ttl h"
  by (simp_all add: ip_bytes_def put16_def put32_def)

lemma decrement_ttl_forwarded: "decrement_ttl (ip_bytes h) = ip_bytes (forwarded h)"
  by (simp only: decrement_ttl_def forwarded_def Let_def ip_bytes_checksum ip_bytes_ttl)

lemma forwarded_verifies: "ip_checksum (Some (ip_bytes (forwarded h))) = 0"
proof -
  let ?h = "h\<lparr>ih_ttl := ih_ttl h - 1, ih_header_checksum := 0\<rparr>"
  have z: "set16 10 0 (ip_bytes ?h) = ip_bytes ?h" using ip_bytes_checksum [of 0 ?h] by simp
  have "ip_bytes (forwarded h) = set16 10 (ip_checksum (Some (ip_bytes ?h))) (ip_bytes ?h)"
    by (simp only: forwarded_def Let_def ip_bytes_checksum)
  then show ?thesis using ip_ck.stored_verifies [of "ip_bytes ?h"] z by (simp only: length_ip_bytes)
qed

lemma forwarded_fields [simp]:
  "ih_ttl (forwarded h) = ih_ttl h - 1" "ih_version_ihl (forwarded h) = ih_version_ihl h" "ih_src_ip (forwarded h) = ih_src_ip h"
  "ih_dst_ip (forwarded h) = ih_dst_ip h" "ih_protocol (forwarded h) = ih_protocol h" "ih_total_length (forwarded h) = ih_total_length h"
  by (simp_all add: forwarded_def Let_def)

lemma ip_bytes_first: "(ip_bytes h @ rest) ! 0 = ih_version_ihl h"
  by (simp add: ip_bytes_def)

text \<open>A valid packet that is not for the router and may travel on.\<close>

definition in_transit :: "'a router_world_scheme \<Rightarrow> addr \<Rightarrow> addr \<Rightarrow> IpHeader \<Rightarrow> bytes \<Rightarrow> bool" where
  "in_transit w router pkt h payload \<longleftrightarrow> (\<exists>p d. pkt_at pkt w = Some p \<and> pkt_wf p \<and> visible p = ip_bytes h @ payload \<and>
     ip_validate_header (Some p) = Some 0 \<and> dev_at router w = Some d \<and>
     ns_ntohl (ih_dst_ip h) \<notin> local_addrs w d \<union> {0xE0000005, 0xE0000006})"

lemma forward_step:
  assumes "router_wf w router" "router_at router w = Some r" "iface \<noteq> NULL" "in_transit w router pkt h payload"
    and "1 < ih_ttl h" "route_table_lookup (Some (ro_route_tbl r)) (ns_ntohl (ih_dst_ip h)) = Some k"
    and "route = rt_fib (ro_route_tbl r) ! k"
    and "pkt_at pkt w = Some p"
  obtains p' where "pkt_wf p'" "visible p' = ip_bytes (forwarded h) @ payload" "p' = p\<lparr>pkt_head := pkt_head p'\<rparr>"
    "ip_validate_header (Some p') = Some 0"
    "router_receive pcall router iface pkt w = router_output router (ro_sim r) (rf_iface route)
       (if rf_next_hop route \<noteq> 0 then rf_next_hop route else ns_ntohl (ih_dst_ip h)) pkt (pkt_put pkt p' w)"
proof -
  from assms(4,8) obtain d where t: "pkt_wf p" "visible p = ip_bytes h @ payload" "ip_validate_header (Some p) = Some 0"
    "dev_at router w = Some d" "ns_ntohl (ih_dst_ip h) \<notin> local_addrs w d \<union> {0xE0000005, 0xE0000006}"
    unfolding in_transit_def by auto
  have len: "20 \<le> pkt_len p" using length_visible [OF t(1)] t(2) by simp
  have rd: "pkt_read p 0 20 = Some (ip_bytes h)" using pkt_read_within [OF t(1), of 0 20] len t(2) by simp
  obtain p' where w: "pkt_write 0 (ip_bytes (forwarded h)) p = Some p'" "pkt_wf p'"
    "visible p' = ip_bytes (forwarded h) @ payload" "p' = p\<lparr>pkt_head := pkt_head p'\<rparr>"
    by (rule pkt_write_within [OF t(1), of 0 "ip_bytes (forwarded h)"]) (use len t(2) in simp_all)
  have l': "pkt_len p' = pkt_len p" using arg_cong [OF w(4), of pkt_len] by simp
  have v: "ip_validate_header (Some p') = Some 0"
    using t(3) forwarded_verifies [of h] len l'
    by (simp add: validate_header_iff [OF t(1)] validate_header_iff [OF w(2)] t(2) w(3) ip_bytes_first split: if_splits)
  have sim: "ro_sim r \<noteq> NULL" using assms(1,2) by (auto simp: router_wf_def)
  have nn: "router \<noteq> NULL" "pkt \<noteq> NULL" using assms(2,8) by (auto dest: router_at_nonnull pkt_at_nonnull)
  have ld: "ip_load (ip_bytes h) = h" using ip_load_bytes [of h "[]"] by simp
  have ttl: "\<not> ih_ttl h \<le> 1" using assms(5) by simp
  have "router_receive pcall router iface pkt w = router_output router (ro_sim r) (rf_iface route)
       (if rf_next_hop route \<noteq> 0 then rf_next_hop route else ns_ntohl (ih_dst_ip h)) pkt (pkt_put pkt p' w)"
    using assms(2,3,6,8) t(3,5) nn sim rd ld w(1) ttl router_local [OF assms(1) t(4)]
    by (simp add: router_receive_def IP_HDR_LEN_def router_ip_is_control_multicast_def decrement_ttl_forwarded assms(7) Let_def)
  with that w v show thesis by blast
qed


lemma arp_map_mac: "arp_cache_wf c \<Longrightarrow> arp_map c ip = Some (mac, ts) \<Longrightarrow> length mac = 6 \<and> ip \<noteq> 0"
  by (auto simp: arp_cache_wf_def arp_map_def arps.lookup_def arps.find_key_def first_idx_Some)

lemma can_send_put:
  assumes "can_send w sim iface dst pkt" "pkt_at pkt w = Some p" "p' = p\<lparr>pkt_head := pkt_head p'\<rparr>" "pkt_wf p'"
  shows "can_send (pkt_put pkt p' w) sim iface dst pkt"
proof -
  have "pkt_len p' = pkt_len p" "pkt_data p' = pkt_data p"
    using arg_cong [OF assms(3), of pkt_len] arg_cong [OF assms(3), of pkt_data] by simp_all
  then show ?thesis using assms(1,2,4) pkt_at_nonnull [OF assms(2)] unfolding can_send_def by force
qed

text \<open>C7. Forwarding to a neighbour whose address is known. A valid packet that is not for the router and has a time to
  live above one leaves on the interface of the best route of the longest matching prefix, to the next hop of that
  route (the destination itself when the route has none): the frame that reaches the far end of the link carries
  the MAC address of the next hop, the header with the time to live decremented and a checksum that verifies, and
  the payload unchanged. The return value is 1.\<close>

theorem router_forwards:
  assumes "router_wf w router" "router_at router w = Some r" "iface \<noteq> NULL" "in_transit w router pkt h payload"
    and "1 < ih_ttl h" "route_table_lookup (Some (ro_route_tbl r)) (ns_ntohl (ih_dst_ip h)) = Some k"
    and "route = rt_fib (ro_route_tbl r) ! k"
    and "target = (if rf_next_hop route \<noteq> 0 then rf_next_hop route else ns_ntohl (ih_dst_ip h))"
    and "cache_at router w = Some c" "arp_map c target = Some (mac, ts)"
    and "can_send w (ro_sim r) (rf_iface route) nbr pkt" "sim_at (ro_sim r) w = Some m" "iface_at (rf_iface route) w = Some out"
    and "link_at (if_link out) w = Some l" "sched_at (sim_sched m) w = Some sch"
  shows "(\<exists>b < ROUTE_RIB_SIZE. let rib = rt_rib (ro_route_tbl r) in route = fib_of (rib ! b) b \<and>
      rib_covers (ns_ntohl (ih_dst_ip h)) (rib ! b) \<and>
      (\<forall>i < ROUTE_RIB_SIZE. rib_covers (ns_ntohl (ih_dst_ip h)) (rib ! i) \<longrightarrow>
        rr_prefix_len (rib ! i) < rr_prefix_len (rib ! b) \<or>
        rr_prefix_len (rib ! i) = rr_prefix_len (rib ! b) \<and> route_cost (rib ! b) \<le> route_cost (rib ! i))) \<and>
    ip_checksum (Some (ip_bytes (forwarded h))) = 0 \<and>
    (\<exists>w' f q sch'. router_receive pcall router iface pkt w = Some (1, w') \<and> pkt_at f w' = Some q \<and> pkt_wf q \<and>
      visible q = EthernetHeader mac (if_mac out) ETHERTYPE_IPV4 @ ip_bytes (forwarded h) @ payload \<and>
      sched_at (sim_sched m) w' = Some sch' \<and>
      eq_list (sch_eq sch') = insert_by evt_key (rx_event (sch_now sch + ucast (lk_delay_ms l)) (rf_iface route) nbr f
        Cb_ethernet_receive_event (VSim (ro_sim r))) (eq_list (sch_eq sch)))"
proof -
  from assms(4) obtain p where p: "pkt_at pkt w = Some p" unfolding in_transit_def by blast
  obtain p' where s: "pkt_wf p'" "visible p' = ip_bytes (forwarded h) @ payload" "p' = p\<lparr>pkt_head := pkt_head p'\<rparr>"
    "router_receive pcall router iface pkt w = router_output router (ro_sim r) (rf_iface route) target pkt (pkt_put pkt p' w)"
    unfolding assms(8) by (rule forward_step [OF assms(1-7) p])
  have wf: "arp_cache_wf c" "route_table_wf (ro_route_tbl r)" using assms(1,2,9) by (auto simp: router_wf_def)
  note mac = arp_map_mac [OF wf(1) assms(10)]
  have c: "cache_at router (pkt_put pkt p' w) = Some c" using assms(9) by simp
  have at: "sim_at (ro_sim r) (pkt_put pkt p' w) = Some m" "iface_at (rf_iface route) (pkt_put pkt p' w) = Some out"
    "link_at (if_link out) (pkt_put pkt p' w) = Some l" "pkt_at pkt (pkt_put pkt p' w) = Some p'"
    "sched_at (sim_sched m) (pkt_put pkt p' w) = Some sch"
    using assms(12-15) pkt_at_nonnull [OF p] by simp_all
  have out: "router_output router (ro_sim r) (rf_iface route) target pkt (pkt_put pkt p' w) =
      ethernet_send (ro_sim r) (rf_iface route) (Some mac) ETHERTYPE_IPV4 pkt (pkt_put pkt p' w)"
    using c mac assms(10) by (simp add: router_output_def arp_lookup_map [OF wf(1)])
  from ethernet_send_outcome [OF can_send_put [OF assms(11) p s(3,1)] _ at, of mac ETHERTYPE_IPV4] mac
  have "\<exists>w' f q sch'. router_receive pcall router iface pkt w = Some (1, w') \<and> pkt_at f w' = Some q \<and> pkt_wf q \<and>
      visible q = EthernetHeader mac (if_mac out) ETHERTYPE_IPV4 @ ip_bytes (forwarded h) @ payload \<and>
      sched_at (sim_sched m) w' = Some sch' \<and>
      eq_list (sch_eq sch') = insert_by evt_key (rx_event (sch_now sch + ucast (lk_delay_ms l)) (rf_iface route) nbr f
        Cb_ethernet_receive_event (VSim (ro_sim r))) (eq_list (sch_eq sch))"
    unfolding s(4) out s(2) [symmetric] by blast
  then show ?thesis using route_lookup_longest [OF wf(2), of "ns_ntohl (ih_dst_ip h)"] assms(6,7) forwarded_verifies [of h]
    by (simp add: Let_def) blast
qed


text \<open>The pending slot that a packet for an unresolved next hop takes.\<close>

definition queued :: "ArpCache \<Rightarrow> ArpCache \<Rightarrow> ArpPendingPacket \<Rightarrow> bool" where
  "queued c c' x \<longleftrightarrow> arp_cache_wf c' \<and> ac_entries c' = ac_entries c \<and>
     (\<exists>i. pp_valid (ac_pending c ! i) = 0 \<and> ac_pending c' = (ac_pending c)[i := x])"

lemma packet_free_gone: "packet_free a w = Some w' \<Longrightarrow> pkt_at a w' = None"
  by (auto simp: packet_free_def pkt_at_def split: if_splits bind_splits)

lemma router_output_waits:
  assumes "net_wf sim w" "cache_at router w = Some c" "arp_cache_wf c" "arp_map c target = None"
    and "iface_at out w \<noteq> None" "pkt_at pkt w = Some p"
  shows "\<exists>res w' c'. router_output router sim out target pkt w = Some (res, w') \<and> net_wf sim w' \<and>
    (\<forall>a. a \<noteq> pkt \<longrightarrow> pkt_at a w \<noteq> None \<longrightarrow> pkt_at a w' = pkt_at a w) \<and> cache_at router w' = Some c' \<and>
    (if res = 0 then pkt_at pkt w' = Some p \<and> queued c c' \<lparr>pp_target_ip = target, pp_ethertype = ETHERTYPE_IPV4,
          pp_iface = out, pp_packet = pkt, pp_valid = 1\<rparr>
     else res = - 1 \<and> pkt_at pkt w' = None \<and> c' = c)"
proof -
  have lk: "arp_cache_lookup (Some c) target True = (- 1, None)" using arp_lookup_map [OF assms(3), of target] assms(4) by simp
  obtain r w1 where q: "arp_send_request sim out (ns_htonl target) w = Some (r, w1)" "r \<in> {0, - 1}" "safe_step sim {} w w1"
    by (rule arp_send_request_safe [OF assms(1,5)])
  have p1: "pkt_at pkt w1 = Some p" by (rule safe_step_pkt [OF q(3) _ assms(6)]) simp
  have c1: "cache_at router w1 = Some c" using q(3) net_frame_cache [of w w1 router] assms(2) by (simp add: safe_step_def)
  obtain w2 where f: "packet_free pkt w1 = Some w2" "safe_step sim {pkt} w1 w2"
    using safe_step_free [OF safe_step_wf [OF q(3)], of pkt] p1 by auto
  have c2: "cache_at router w2 = Some c" using f(2) net_frame_cache [of w1 w2 router] c1 by (simp add: safe_step_def)
  have s2: "safe_step sim {pkt} w w2" by (rule safe_step_trans [OF safe_step_mono [OF q(3)] f(2)]) simp
  note nn = cache_at_nonnull [OF assms(2)] pkt_at_nonnull [OF assms(6)]
  show ?thesis
  proof (cases "r = 0")
    case False
    then have "router_output router sim out target pkt w = Some (- 1, w2)"
      using assms(2) lk q(1) f(1) by (simp add: router_output_def)
    with s2 c2 packet_free_gone [OF f(1)] show ?thesis by (auto simp: safe_step_def)
  next
    case True
    have "ns_htonl 0 = 0" by (simp add: ns_htonl_def ns_bswap32_def)
    with True have t: "target \<noteq> 0" using q(1) by (auto simp: arp_send_request_def)
    have o: "out \<noteq> NULL" using assms(5) by (auto dest: iface_at_nonnull)
    from arp_enqueue_outcome [OF assms(3) o t nn(2), of ETHERTYPE_IPV4] obtain e c' where
      e: "arp_pending_enqueue (Some c) out target ETHERTYPE_IPV4 pkt = (e, Some c')" "arp_cache_wf c'" "ac_entries c' = ac_entries c"
      "if ac_pending_count c = int ARP_MAX_PENDING_PACKETS then e = - 1 \<and> c' = c else e = 0 \<and>
        (\<exists>i. pp_valid (ac_pending c ! i) = 0 \<and> ac_pending c' = (ac_pending c)[i := \<lparr>pp_target_ip = target,
          pp_ethertype = ETHERTYPE_IPV4, pp_iface = out, pp_packet = pkt, pp_valid = 1\<rparr>])" by auto
    show ?thesis
    proof (cases "e = 0")
      case True
      then have "router_output router sim out target pkt w = Some (0, cache_put router c' w1)"
        using assms(2) lk q(1) \<open>r = 0\<close> c1 e(1) by (simp add: router_output_def)
      then show ?thesis using True e(2-4) q(3) p1 nn(1)
        by (auto simp: safe_step_def queued_def split: if_splits)
    next
      case False
      then have "e = - 1" "c' = c" using e(4) by (auto split: if_splits)
      moreover have "cache_put router c w1 = w1" using c1 nn(1) by (simp add: cache_at_def cache_put_def fun_upd_idem)
      ultimately have "router_output router sim out target pkt w = Some (- 1, w2)"
        using assms(2) lk q(1) \<open>r = 0\<close> c1 e(1) f(1) by (simp add: router_output_def)
      with s2 c2 packet_free_gone [OF f(1)] show ?thesis by (auto simp: safe_step_def)
    qed
  qed
qed


text \<open>C9. Forwarding to a neighbour whose address is not known, in a well-formed network, never faults. When the result is
  0 the packet, with its time to live decremented, waits for the address of the next hop on the interface of the
  route; otherwise the result is -1, the packet is freed and the cache is as it was. No other packet changes and
  the network stays well formed.\<close>

theorem router_waits_for_address:
  assumes "router_wf w router" "router_at router w = Some r" "iface \<noteq> NULL" "in_transit w router pkt h payload"
    and "1 < ih_ttl h" "route_table_lookup (Some (ro_route_tbl r)) (ns_ntohl (ih_dst_ip h)) = Some k"
    and "route = rt_fib (ro_route_tbl r) ! k"
    and "target = (if rf_next_hop route \<noteq> 0 then rf_next_hop route else ns_ntohl (ih_dst_ip h))"
    and "cache_at router w = Some c" "arp_map c target = None"
    and "net_wf (ro_sim r) w" "iface_at (rf_iface route) w \<noteq> None"
  shows "\<exists>res w' c'. router_receive pcall router iface pkt w = Some (res, w') \<and> net_wf (ro_sim r) w' \<and>
    (\<forall>a. a \<noteq> pkt \<longrightarrow> pkt_at a w \<noteq> None \<longrightarrow> pkt_at a w' = pkt_at a w) \<and> cache_at router w' = Some c' \<and>
    (if res = 0 then (\<exists>p. pkt_at pkt w' = Some p \<and> visible p = ip_bytes (forwarded h) @ payload) \<and>
        queued c c' \<lparr>pp_target_ip = target, pp_ethertype = ETHERTYPE_IPV4, pp_iface = rf_iface route, pp_packet = pkt, pp_valid = 1\<rparr>
     else res = - 1 \<and> pkt_at pkt w' = None \<and> c' = c)"
proof -
  from assms(4) obtain p where p: "pkt_at pkt w = Some p" unfolding in_transit_def by blast
  obtain p' where s: "pkt_wf p'" "visible p' = ip_bytes (forwarded h) @ payload"
    "router_receive pcall router iface pkt w = router_output router (ro_sim r) (rf_iface route) target pkt (pkt_put pkt p' w)"
    unfolding assms(8) by (rule forward_step [OF assms(1-7) p])
  have "net_wf (ro_sim r) (pkt_put pkt p' w)" by (rule safe_step_wf [OF safe_step_put [OF assms(11) _ s(1)]]) (simp add: p)
  moreover have "arp_cache_wf c" using assms(1,9) by (auto simp: router_wf_def)
  ultimately show ?thesis unfolding s(3)
    using router_output_waits [of "ro_sim r" "pkt_put pkt p' w" router c target "rf_iface route" pkt p'] assms(9,10,12) s(2)
      pkt_at_nonnull [OF p] by fastforce
qed

text \<open>The bytes in front of a packet that \<open>ethernet_receive\<close> has stripped of its frame header.\<close>

lemma sender_from_frame:
  assumes "ip_before p = Some (pre @ EthernetHeader dmac smac ty)" "length pre = 6" "length dmac = 6" "length smac = 6"
  shows "ih_src_ip (ip_load (pre @ EthernetHeader dmac smac ty)) = get32 smac 0"
  using assms(2-4) by (simp add: ip_load_def EthernetHeader_def get32_def nth_append numeral_2_eq_2)



section \<open>The life of a router\<close>

text \<open>What a program does with a router: create it, add interfaces, add and delete routes.\<close>

inductive router_reach :: "addr \<Rightarrow> 'a router_world_scheme \<Rightarrow> bool" for router where
  rr_create: "router_create (Some nm) sim w0 = Some (router, w) \<Longrightarrow> router \<noteq> NULL \<Longrightarrow> router_reach router w"
| rr_iface: "router_reach router w \<Longrightarrow> iface_at iface w \<noteq> None \<Longrightarrow> router_add_interface router iface w = Some (res, w') \<Longrightarrow>
    router_reach router w'"
| rr_add: "router_reach router w \<Longrightarrow> router_add_route router prefix len nh iface metric proto w = Some (res, w') \<Longrightarrow>
    router_reach router w'"
| rr_del: "router_reach router w \<Longrightarrow> router_del_route router prefix len proto w = Some (res, w') \<Longrightarrow> router_reach router w'"

lemma router_put_frames [simp]:
  "dev_at a (router_put b r w) = dev_at a w" "cache_at a (router_put b r w) = cache_at a w"
  "stack_at a (router_put b r w) = stack_at a w" "iface_at a (router_put b r w) = iface_at a w"
  "b \<noteq> NULL \<Longrightarrow> router_at a (router_put b r w) = (if a = b then Some r else router_at a w)"
  by (simp_all add: dev_at_def cache_at_def stack_at_def iface_at_def router_at_def router_put_def)

lemma router_create_wf:
  assumes "router_create (Some nm) sim w0 = Some (router, w)" "router \<noteq> NULL"
  shows "router_wf w router \<and> dev_at router w = Some \<lparr>dev_name = take 31 nm, dev_interfaces = [], dev_iface_max = 8\<rparr>"
proof -
  let ?d = "\<lparr>dev_name = take 31 nm, dev_interfaces = [], dev_iface_max = 8\<rparr> :: Device"
  have sim: "sim \<noteq> NULL" using assms by (cases "sim = NULL") (simp_all add: router_create_def)
  obtain r w1 where r: "alloc w0 = (r, w1)" by fastforce
  obtain dev w2 where d: "alloc w1 = (dev, w2)" by fastforce
  obtain fs w3 where f: "alloc w2 = (fs, w3)" by fastforce
  have nn: "r \<noteq> NULL" "dev \<noteq> NULL" "fs \<noteq> NULL" "r = router"
    using assms r d f by (auto simp: router_create_def device_create_def ROUTER_MAX_PORTS_def Let_def split: if_splits bind_splits)
  have ne: "dev \<noteq> r" using r d nn by (auto simp: alloc_def malloc_def split: prod.splits list.splits if_splits)
  let ?w = "dev_put dev ?d w3"
  let ?w4 = "(dev_put r ?d ?w)\<lparr>w_devs := (w_devs (dev_put r ?d ?w))(dev := None)\<rparr>"
  have w: "w = ip_stack_init r sim (router_put r \<lparr>ro_route_tbl = empty_route_table, ro_sim = sim\<rparr> (cache_put r demo_arp_cache ?w4))"
    using assms r d f nn sim
    by (simp add: router_create_def device_create_def ROUTER_MAX_PORTS_def Let_def route_init arp_init_wf)
  have at: "dev_at r w = Some ?d" "cache_at r w = Some demo_arp_cache"
    "router_at r w = Some \<lparr>ro_route_tbl = empty_route_table, ro_sim = sim\<rparr>"
    "stack_at r w = Some \<lparr>st_sim = sim, st_protocols = replicate 256 \<lparr>pe_handler = Ip_NULL, pe_ctx = VNull\<rparr>\<rparr>"
    unfolding w using nn(1) ne by (simp_all add: ip_stack_init_def dev_at_def cache_at_def router_at_def stack_at_def
        stack_put_def router_put_def cache_put_def dev_put_def)
  have "dev_wf w r" using at(1) by (simp add: dev_wf_def)
  then show ?thesis using at sim empty_route_table_wf(1) arp_init_wf(2) nn(4) unfolding router_wf_def ROUTER_MAX_PORTS_def
    by simp
qed

lemma on_route_tbl_wf:
  assumes "router_wf w router" "on_route_tbl router f w = Some (res, w')"
    and "\<And>t res t'. route_table_wf t \<Longrightarrow> f (Some t) = (res, Some t') \<Longrightarrow> route_table_wf t'"
  shows "router_wf w' router"
proof -
  obtain r where r: "router_at router w = Some r" using assms(1) by (auto simp: router_wf_def)
  note nn = router_at_nonnull [OF r]
  obtain t' where t: "f (Some (ro_route_tbl r)) = (res, Some t')" "w' = router_put router (r\<lparr>ro_route_tbl := t'\<rparr>) w"
    using assms(2) r nn by (auto simp: on_route_tbl_def split: bind_splits prod.splits)
  have "route_table_wf t'" by (rule assms(3) [OF _ t(1)]) (use assms(1) r in \<open>auto simp: router_wf_def\<close>)
  moreover have "dev_wf w' router = dev_wf w router" unfolding dev_wf_def t(2) by simp
  ultimately show ?thesis using assms(1) r nn unfolding router_wf_def t(2) by auto
qed

lemma iface_put_twice: "iface_put a x (iface_put a y w) = iface_put a x w"
  by (simp add: iface_put_def)

lemma router_add_interface_wf:
  assumes "router_wf w router" "iface_at iface w \<noteq> None" "router_add_interface router iface w = Some (res, w')"
  shows "router_wf w' router"
proof -
  obtain r d c s where at: "router_at router w = Some r" "dev_at router w = Some d" "cache_at router w = Some c"
    "stack_at router w = Some s" "dev_wf w router" "dev_iface_max d = int ROUTER_MAX_PORTS"
    and ifs: "\<forall>a \<in> set (dev_interfaces d). \<exists>i. iface_at a w = Some i \<and> if_arp_cache i = router \<and>
        if_rx_handler i = Rx_router_rx_shim \<and> if_handler_ctx i = VRouter router"
    and wf: "ro_sim r \<noteq> NULL" "route_table_wf (ro_route_tbl r)" "arp_cache_wf c" "st_sim s = ro_sim r" "length (st_protocols s) = 256"
    using assms(1) unfolding router_wf_def by blast
  obtain i where i: "iface_at iface w = Some i" using assms(2) by auto
  have nn: "router \<noteq> NULL" "iface \<noteq> NULL" using at(1) i by (auto dest: router_at_nonnull iface_at_nonnull)
  from device_add_interface_wf [OF at(5,2) i] obtain q w1 where a: "device_add_interface router iface w = Some (q, w1)"
    "dev_wf w1 router" "if int (length (dev_interfaces d)) < dev_iface_max d \<and>
        list_all (\<lambda>a. if_name (the (iface_at a w)) \<noteq> if_name i) (dev_interfaces d)
     then q = 0 \<and> dev_at router w1 = Some (d\<lparr>dev_interfaces := dev_interfaces d @ [iface]\<rparr>) \<and>
       iface_at iface w1 = Some (i\<lparr>if_device := router\<rparr>) else q = - 1 \<and> w1 = w" by blast
  show ?thesis
  proof (cases "q = 0 \<and> \<not> ROUTER_MAX_PORTS \<le> length (dev_interfaces d)")
    case False
    then have "w' = w" using assms(3) at(2) nn a(1,3) by (auto simp: router_add_interface_def split: if_splits)
    with assms(1) show ?thesis by simp
  next
    case True
    let ?d = "d\<lparr>dev_interfaces := dev_interfaces d @ [iface]\<rparr>" and ?i = "i\<lparr>if_device := router\<rparr>"
    let ?j = "?i\<lparr>if_arp_cache := router, if_rx_handler := Rx_router_rx_shim, if_handler_ctx := VRouter router\<rparr>"
    have new: "iface \<notin> set (dev_interfaces d)" "dev_at router w1 = Some ?d" "iface_at iface w1 = Some ?i"
      using a(3) True i by (auto simp: list_all_iff split: if_splits)
    have w1: "w1 = dev_put router ?d (iface_put iface ?i w)"
      using a(1) True at(2) i nn by (auto simp: device_add_interface_def split: if_splits bind_splits)
    have w': "w' = iface_put iface ?j w1" using assms(3) True at(2) nn a(1) new(3)
      by (simp add: router_add_interface_def interface_set_arp_cache_def interface_set_rx_handler_def if_nonnull_def
          iface_upd_def iface_put_twice)
    have at': "dev_at router w' = Some ?d" "router_at router w' = Some r" "cache_at router w' = Some c" "stack_at router w' = Some s"
      "\<And>a. iface_at a w' = (if a = iface then Some ?j else iface_at a w)"
      unfolding w' w1 using at nn by simp_all
    have nm: "if_name (the (iface_at a w')) = if_name (the (iface_at a w1))" for a unfolding w' using new(3) nn(2) by simp
    have dv: "\<exists>j. iface_at a w' = Some j \<and> if_device j = router" if "iface_at a w1 = Some k" "if_device k = router" for a k
      unfolding w' using that new(3) nn(2) by simp
    have "dev_wf w' router" using a(2) new(2) at'(1) dv unfolding dev_wf_def by (auto simp: nm)
    then show ?thesis using at' at(6) ifs wf new(1) unfolding router_wf_def by auto
  qed
qed

text \<open>C8. Every router that creation, adding interfaces and adding and deleting routes can reach is well formed: its
  routing table and its ARP cache satisfy their invariants, it has at most eight interfaces, with different names,
  each of which points back to the router, uses its ARP cache and hands received packets to it.\<close>

theorem router_reach_wf: "router_reach router w \<Longrightarrow> router_wf w router"
proof (induction rule: router_reach.induct)
  case (rr_create nm sim w0 w)
  then show ?case using router_create_wf by blast
next
  case (rr_iface w iface res w')
  then show ?case by (blast intro: router_add_interface_wf)
next
  case (rr_add w prefix len nh iface metric proto res w')
  show ?case by (rule on_route_tbl_wf [OF rr_add.IH rr_add.hyps(2) [unfolded router_add_route_def] route_add_wf])
next
  case (rr_del w prefix len proto res w')
  show ?case by (rule on_route_tbl_wf [OF rr_del.IH rr_del.hyps(2) [unfolded router_del_route_def] route_delete_wf])
qed


section \<open>Instances\<close>

text \<open>A lookup result as an entry of the table, and a table with a single route.\<close>

lemma lookup_rib_map:
  assumes "route_table_wf t" "route_table_lookup (Some t) dst = Some k"
  shows "rib_map t (rf_prefix (rt_fib t ! k), rf_prefix_len (rt_fib t ! k), rf_proto (rt_fib t ! k)) =
    Some (rf_next_hop (rt_fib t ! k), rf_iface (rt_fib t ! k), rf_metric (rt_fib t ! k))"
proof -
  from route_lookup_longest [OF assms(1), of dst] assms(2) obtain b where b: "b < ROUTE_RIB_SIZE"
    "rt_fib t ! k = fib_of (rt_rib t ! b) b" "rib_covers dst (rt_rib t ! b)" by auto
  have wf: "length (rt_rib t) = ROUTE_RIB_SIZE" "ribs.unique (rt_rib t)"
    using assms(1) by (simp_all add: route_table_wf_def rib_wf_def)
  have "ribs.lookup (rt_rib t) (rib_key (rt_rib t ! b)) = Some (rt_rib t ! b)"
    using b wf by (simp add: ribs.lookup_Some_iff rib_covers_def)
  then show ?thesis unfolding b(2) by (simp add: rib_map_def rib_key_def fib_of_def)
qed

lemma single_route:
  assumes "route_table_wf t" "rib_map t = [(p, l, pr) \<mapsto> (nh, out, m)]" "dst AND ipv4_prefix_mask l = p"
  obtains k where "route_table_lookup (Some t) dst = Some k" "rf_next_hop (rt_fib t ! k) = nh" "rf_iface (rt_fib t ! k) = out"
proof (cases "route_table_lookup (Some t) dst")
  case None
  have wf: "length (rt_rib t) = ROUTE_RIB_SIZE" "ribs.unique (rt_rib t)"
    using assms(1) by (simp_all add: route_table_wf_def rib_wf_def)
  obtain e where "ribs.lookup (rt_rib t) (p, l, pr) = Some e" using fun_cong [OF assms(2), of "(p, l, pr)"]
    by (auto simp: rib_map_def)
  then have "e \<in> set (rt_rib t)" "rib_covers dst e" using wf(2) assms(3)
    by (auto simp: ribs.lookup_Some_iff rib_key_def rib_covers_def)
  moreover have "\<forall>i < ROUTE_RIB_SIZE. \<not> rib_covers dst (rt_rib t ! i)"
    using route_lookup_longest [OF assms(1), of dst] None by simp
  ultimately show thesis using wf(1) by (metis in_set_conv_nth)
next
  case (Some k)
  then show thesis using that [OF Some] lookup_rib_map [OF assms(1) Some] assms(2) by (auto split: if_splits)
qed

definition demo_transit :: Packet where
  "demo_transit = \<lparr>pkt_head = replicate 30 0 @ EthernetHeader [2, 0, 0, 0, 0, 1] [2, 0, 0, 0, 0, 9] 0x0800 @
       ip_bytes (new_ip_header 0x0A000005 0x0A010009 17 2) @ [1, 2],
     pkt_data = 44, pkt_len = 22, pkt_capacity = 2, pkt_id = 4, pkt_trace_id = 4, pkt_parent_id = 0, pkt_layer = 3\<rparr>"

definition demo_port :: Interface where
  "demo_port = demo_eth0\<lparr>if_device := 30, if_arp_cache := 30, if_rx_handler := Rx_router_rx_shim, if_handler_ctx := VRouter 30\<rparr>"

definition demo_router_world :: "RouteTable \<Rightarrow> ArpCache \<Rightarrow> router_world" where
  "demo_router_world t c = \<lparr>w_mem = \<lparr>mem_next = 40, mem_oom = [], mem_junk = (\<lambda>_. 0)\<rparr>, w_next_id = 8,
     w_pkts = [4 \<mapsto> demo_transit], w_scheds = [5 \<mapsto> demo_sched],
     w_ifaces = [2 \<mapsto> demo_port, 3 \<mapsto> demo_eth1], w_devs = [30 \<mapsto> \<lparr>dev_name = ''R1'', dev_interfaces = [2], dev_iface_max = 8\<rparr>],
     w_links = [6 \<mapsto> demo_cable], w_topos = Map.empty, w_sims = [7 \<mapsto> \<lparr>sim_topo = 8, sim_sched = 5, sim_end_time = 0\<rparr>],
     w_caches = [30 \<mapsto> c], w_stacks = [30 \<mapsto> \<lparr>st_sim = 7, st_protocols = replicate 256 \<lparr>pe_handler = Ip_NULL, pe_ctx = VNull\<rparr>\<rparr>],
     w_udps = Map.empty, w_udp_ctxs = Map.empty, w_routers = [30 \<mapsto> \<lparr>ro_route_tbl = t, ro_sim = 7\<rparr>]\<rparr>"

lemma demo_router_parts:
  "router_at 30 (demo_router_world t c) = Some \<lparr>ro_route_tbl = t, ro_sim = 7\<rparr>" "cache_at 30 (demo_router_world t c) = Some c"
  "dev_at 30 (demo_router_world t c) = Some \<lparr>dev_name = ''R1'', dev_interfaces = [2], dev_iface_max = 8\<rparr>"
  "iface_at 2 (demo_router_world t c) = Some demo_port" "iface_at 3 (demo_router_world t c) = Some demo_eth1"
  "pkt_at 4 (demo_router_world t c) = Some demo_transit" "link_at 6 (demo_router_world t c) = Some demo_cable"
  "sim_at 7 (demo_router_world t c) = Some \<lparr>sim_topo = 8, sim_sched = 5, sim_end_time = 0\<rparr>"
  "sched_at 5 (demo_router_world t c) = Some demo_sched" "w_mem (demo_router_world t c) = \<lparr>mem_next = 40, mem_oom = [], mem_junk = (\<lambda>_. 0)\<rparr>"
  "stack_at 30 (demo_router_world t c) = Some \<lparr>st_sim = 7, st_protocols = replicate 256 \<lparr>pe_handler = Ip_NULL, pe_ctx = VNull\<rparr>\<rparr>"
  by (simp_all add: demo_router_world_def router_at_def cache_at_def dev_at_def iface_at_def pkt_at_def link_at_def sim_at_def
      sched_at_def stack_at_def)

lemma demo_port_fields:
  "if_device demo_port = 30" "if_arp_cache demo_port = 30" "if_rx_handler demo_port = Rx_router_rx_shim" "if_handler_ctx demo_port = VRouter 30"
  "if_link demo_port = 6" "if_state demo_port = IFACE_OK" "length (if_mac demo_port) = 6" "if_ip_addr demo_port = 0x0A000001"
  by (simp_all add: demo_port_def demo_eth_ifaces) (simp add: demo_eth0_def demo_iface_def)

lemma demo_router_wf: "route_table_wf t \<Longrightarrow> arp_cache_wf c \<Longrightarrow> router_wf (demo_router_world t c) 30"
  by (simp add: router_wf_def demo_router_parts dev_wf_def demo_port_fields ROUTER_MAX_PORTS_def)

lemma demo_transit_facts:
  "pkt_wf demo_transit" "visible demo_transit = ip_bytes (new_ip_header 0x0A000005 0x0A010009 17 2) @ [1, 2]"
  "ip_before demo_transit = Some (replicate 6 0 @ EthernetHeader [2, 0, 0, 0, 0, 1] [2, 0, 0, 0, 0, 9] 0x0800)"
  "pkt_data demo_transit = 44" "pkt_len demo_transit = 22"
proof -
  have l: "length (EthernetHeader [2, 0, 0, 0, 0, 1] [2, 0, 0, 0, 0, 9] 0x0800) = 14" by (simp add: EthernetHeader_def)
  show "pkt_wf demo_transit" "visible demo_transit = ip_bytes (new_ip_header 0x0A000005 0x0A010009 17 2) @ [1, 2]"
    "pkt_data demo_transit = 44" "pkt_len demo_transit = 22"
    using l by (simp_all add: demo_transit_def pkt_wf_def PKT_HEADROOM_def SIZE_MAX_def visible_def)
  have r: "replicate 30 0 = replicate 24 0 @ replicate 6 (0 :: u8)" by (simp add: replicate_add [symmetric])
  show "ip_before demo_transit = Some (replicate 6 0 @ EthernetHeader [2, 0, 0, 0, 0, 1] [2, 0, 0, 0, 0, 9] 0x0800)"
    using l unfolding demo_transit_def r by (simp add: ip_before_def IP_HDR_LEN_def read_at_def)
qed

lemma demo_in_transit: "in_transit (demo_router_world t c) 30 4 (new_ip_header 0x0A000005 0x0A010009 17 2) [1, 2]"
proof -
  have "ip_validate_header (Some demo_transit) = Some 0"
    using demo_transit_facts new_ip_header_checksum [of "0x0A000005" "0x0A010009" 17 2]
    by (simp add: validate_header_iff ip_bytes_first new_ip_header_fields)
  moreover have "(0x0A010009 :: u32) \<noteq> ns_ntohl 0x0A000001" by (simp add: ns_ntohl_def ns_bswap32_def)
  ultimately show ?thesis using demo_transit_facts unfolding in_transit_def
    by (simp add: demo_router_parts local_addrs_def demo_port_fields new_ip_header_fields)
qed


lemma demo_empty_cache: "arp_map demo_arp_cache ip = None" "ac_count demo_arp_cache = 0" "rt_rib_count empty_route_table = 0"
  by (simp_all add: arp_map_def arps.lookup_def arps.find_key_def demo_arp_cache_def zero_arp_entry_def empty_route_table_def)

lemma demo_route:
  obtains t where "route_table_wf t" "rib_map t = [(0x0A010000, 16, ROUTE_PROTO_STATIC) \<mapsto> (0x0A000002, 2, 5)]"
proof -
  have k: "(0x0A010000 :: u32) AND ipv4_prefix_mask 16 = 0x0A010000" by (simp add: ipv4_prefix_mask_def)
  have a: "(2 :: addr) \<noteq> NULL" "(16 :: u8) \<le> 32" "ROUTE_PROTO_STATIC \<noteq> 0" by (simp_all add: ROUTE_PROTO_STATIC_def)
  show thesis
    by (rule route_add_cases [OF empty_route_table_wf(1) a, of "0x0A010000" "0x0A000002" 5])
       (use that k in \<open>auto simp: demo_empty_cache(3) ROUTE_RIB_SIZE_def empty_route_table_wf(2)\<close>)
qed

lemma demo_covered: "(0x0A010009 :: u32) AND ipv4_prefix_mask 16 = 0x0A010000"
  by (simp add: ipv4_prefix_mask_def)

lemma demo_router_can_send: "can_send (demo_router_world t c) 7 2 3 4"
proof -
  have "16 * eq_capacity (sch_eq demo_sched) \<le> PTRDIFF_MAX" by (simp add: demo_sched_def PTRDIFF_MAX_def)
  moreover have "link_get_other_interface 6 2 (demo_router_world t c) = Some 3"
    by (simp add: link_get_other_interface_def demo_router_parts demo_eth_ifaces)
  ultimately show ?thesis unfolding can_send_def using demo_sched_wf demo_transit_facts
    by (simp add: demo_router_parts demo_port_fields demo_eth_ifaces PKT_HEADROOM_def PTRDIFF_MAX_def)
qed

lemma router_forwards_witness:
  "\<exists>t c w' f q. router_receive (\<lambda>h i p ctx w. None) 30 2 4 (demo_router_world t c) = Some (1, w') \<and> pkt_at f w' = Some q \<and>
     visible q = EthernetHeader [2, 0, 0, 0, 0, 2] (if_mac demo_port) ETHERTYPE_IPV4 @
       ip_bytes (forwarded (new_ip_header 0x0A000005 0x0A010009 17 2)) @ [1, 2]"
proof -
  obtain t where t: "route_table_wf t" "rib_map t = [(0x0A010000, 16, ROUTE_PROTO_STATIC) \<mapsto> (0x0A000002, 2, 5)]" by (rule demo_route)
  obtain k where k: "route_table_lookup (Some t) 0x0A010009 = Some k" "rf_next_hop (rt_fib t ! k) = 0x0A000002" "rf_iface (rt_fib t ! k) = 2"
    by (rule single_route [OF t demo_covered])
  obtain c where c: "arp_cache_wf c" "arp_map c = [0x0A000002 \<mapsto> ([2, 0, 0, 0, 0, 2], 5)]"
    by (rule arp_add_cases [OF arp_init_wf(2), of "[2, 0, 0, 0, 0, 2]" "0x0A000002" 5])
      (use demo_empty_cache(1) in \<open>auto simp: demo_empty_cache(2) ARP_MAX_CACHE_SIZE_def fun_eq_iff\<close>)
  from router_forwards [OF demo_router_wf [OF t(1) c(1)] demo_router_parts(1) _ demo_in_transit _ _ refl refl demo_router_parts(2),
      of 2 k "[2, 0, 0, 0, 0, 2]" 5 3 _ demo_port demo_cable demo_sched "\<lambda>h i p ctx w. None"]
  show ?thesis using k c(2) demo_router_can_send
    by (intro exI [of _ t] exI [of _ c]) (auto simp: demo_router_parts new_ip_header_fields demo_port_fields Let_def)
qed

lemma demo_router_net_wf: "net_wf 7 (demo_router_world t c)"
proof -
  have "pkt_wf p \<and> a \<le> 40" if "pkt_at a (demo_router_world t c) = Some p" for a p
    using that demo_transit_facts(1) by (auto simp: pkt_at_def demo_router_world_def split: if_splits)
  then have "heap_wf (demo_router_world t c)" by (simp add: heap_wf_def demo_router_parts)
  moreover have "sim_ready 7 (demo_router_world t c)" using demo_sched_wf by (simp add: sim_ready_def demo_router_parts)
  moreover have "attached (demo_router_world t c) demo_port" "attached (demo_router_world t c) demo_eth1"
    by (simp_all add: attached_def demo_router_parts demo_eth_ifaces demo_port_fields)
  moreover have "i = demo_port \<or> i = demo_eth1" if "iface_at a (demo_router_world t c) = Some i" for a i
    using that by (auto simp: iface_at_def demo_router_world_def split: if_splits)
  ultimately show ?thesis unfolding net_wf_def by metis
qed

lemma router_waits_for_address_witness:
  "\<exists>t res w' c'. router_receive (\<lambda>h i p ctx w. None) 30 2 4 (demo_router_world t demo_arp_cache) = Some (res, w') \<and>
     cache_at 30 w' = Some c' \<and> (res = 0 \<longrightarrow> queued demo_arp_cache c' \<lparr>pp_target_ip = 0x0A000002,
        pp_ethertype = ETHERTYPE_IPV4, pp_iface = 2, pp_packet = 4, pp_valid = 1\<rparr>)"
proof -
  obtain t where t: "route_table_wf t" "rib_map t = [(0x0A010000, 16, ROUTE_PROTO_STATIC) \<mapsto> (0x0A000002, 2, 5)]" by (rule demo_route)
  obtain k where k: "route_table_lookup (Some t) 0x0A010009 = Some k" "rf_next_hop (rt_fib t ! k) = 0x0A000002" "rf_iface (rt_fib t ! k) = 2"
    by (rule single_route [OF t demo_covered])
  from router_waits_for_address [OF demo_router_wf [OF t(1) arp_init_wf(2)] demo_router_parts(1) _ demo_in_transit _ _ refl refl
      demo_router_parts(2) demo_empty_cache(1), of 2 k "\<lambda>h i p ctx w. None"]
  show ?thesis using k demo_router_net_wf by (auto simp: demo_router_parts new_ip_header_fields split: if_splits)
qed


lemma router_reach_wf_witness:
  "\<exists>r w. router_create (Some ''R1'') 7 (demo_router_world empty_route_table demo_arp_cache) = Some (r, w) \<and> r \<noteq> NULL \<and> router_wf w r"
proof -
  have "\<exists>r w. router_create (Some ''R1'') 7 (demo_router_world empty_route_table demo_arp_cache) = Some (r, w) \<and> r \<noteq> NULL"
    by (simp add: router_create_def device_create_def alloc_def malloc_def demo_router_parts ROUTER_MAX_PORTS_def Let_def
        arp_init_wf route_init dev_at_def dev_put_def)
  then show ?thesis using router_reach_wf [OF rr_create] by blast
qed


end
