(* ===== verification/Mac_Table.thy ===== *)
theory Mac_Table
  imports Slot_Table
begin

text \<open>
  The MAC address table of a switch (\<open>network/mac_table.h\<close>, \<open>network/mac_table.c\<close>): 1024 slots, learned
  and refreshed by source address, aged by time and flushed by port. The table pointer is an \<open>option\<close>, and
  the pointer to an entry that \<open>mac_table_learn\<close> returns is the index of the entry. Padding fields are
  left out.
\<close>

section \<open>State and operations\<close>

definition MAC_TABLE_SIZE :: nat where
  "MAC_TABLE_SIZE = 1024"

definition MAC_AGE_MS :: u64 where
  "MAC_AGE_MS = 300000"

record MacEntry =
  me_mac :: bytes
  me_port :: addr
  me_timestamp :: u64
  me_valid :: int

record MacTable =
  mt_entries :: "MacEntry list"
  mt_count :: int

definition zero_mac_entry :: MacEntry where
  "zero_mac_entry = \<lparr>me_mac = replicate 6 0, me_port = NULL, me_timestamp = 0, me_valid = 0\<rparr>"

definition mac_table_init :: "MacTable option \<Rightarrow> MacTable option" where
  "mac_table_init table = (case table of None \<Rightarrow> None | Some t \<Rightarrow>
     Some \<lparr>mt_entries = replicate MAC_TABLE_SIZE zero_mac_entry, mt_count = 0\<rparr>)"

definition mac_matches :: "bytes \<Rightarrow> MacEntry \<Rightarrow> bool" where
  "mac_matches mac e \<longleftrightarrow> me_valid e \<noteq> 0 \<and> me_mac e = take 6 mac"

definition mac_table_learn :: "MacTable option \<Rightarrow> bytes option \<Rightarrow> addr \<Rightarrow> u64 \<Rightarrow> nat option \<times> MacTable option" where
  "mac_table_learn table mac port now = (case (table, mac) of
     (Some t, Some m) \<Rightarrow>
       if port = NULL then (None, table)
       else (case first_idx (mac_matches m) (mt_entries t) of
         Some i \<Rightarrow> (Some i, Some (t\<lparr>mt_entries := (mt_entries t)[i :=
             (mt_entries t ! i)\<lparr>me_port := port, me_timestamp := now\<rparr>]\<rparr>))
       | None \<Rightarrow> (case first_idx (\<lambda>e. me_valid e = 0) (mt_entries t) of
           Some i \<Rightarrow> (Some i, Some (t\<lparr>mt_entries := (mt_entries t)[i :=
               \<lparr>me_mac = take 6 m, me_port = port, me_timestamp = now, me_valid = 1\<rparr>],
               mt_count := mt_count t + 1\<rparr>))
         | None \<Rightarrow> (None, table)))
   | _ \<Rightarrow> (None, table))"

definition mac_table_lookup :: "MacTable option \<Rightarrow> bytes option \<Rightarrow> addr" where
  "mac_table_lookup table mac = (case (table, mac) of
     (Some t, Some m) \<Rightarrow> (case first_idx (mac_matches m) (mt_entries t) of
         Some i \<Rightarrow> me_port (mt_entries t ! i) | None \<Rightarrow> NULL)
   | _ \<Rightarrow> NULL)"

definition mac_table_age :: "MacTable option \<Rightarrow> u64 \<Rightarrow> MacTable option" where
  "mac_table_age table now = map_option (\<lambda>t.
     case sweep (\<lambda>e. me_valid e \<noteq> 0 \<and> MAC_AGE_MS < now - me_timestamp e) (\<lambda>e. e\<lparr>me_valid := 0\<rparr>)
            (mt_entries t) (mt_count t) of
       (es, n) \<Rightarrow> t\<lparr>mt_entries := es, mt_count := n\<rparr>) table"

definition mac_table_flush_port :: "MacTable option \<Rightarrow> addr \<Rightarrow> MacTable option" where
  "mac_table_flush_port table port = (case table of None \<Rightarrow> None | Some t \<Rightarrow>
     if port = NULL then table
     else case sweep (\<lambda>e. me_valid e \<noteq> 0 \<and> me_port e = port) (\<lambda>e. e\<lparr>me_valid := 0\<rparr>)
                (mt_entries t) (mt_count t) of
       (es, n) \<Rightarrow> Some (t\<lparr>mt_entries := es, mt_count := n\<rparr>))"

section \<open>Invariant and the map that the table represents\<close>

interpretation macs: slot_array "\<lambda>e. me_valid e \<noteq> 0" me_mac "\<lambda>e. e\<lparr>me_valid := 0\<rparr>"
  by unfold_locales simp

definition mac_table_wf :: "MacTable \<Rightarrow> bool" where
  "mac_table_wf t \<longleftrightarrow> length (mt_entries t) = MAC_TABLE_SIZE \<and> macs.unique (mt_entries t) \<and>
     mt_count t = int (macs.live_count (mt_entries t)) \<and>
     (\<forall>e \<in> set (mt_entries t). length (me_mac e) = 6 \<and> (me_valid e \<noteq> 0 \<longrightarrow> me_valid e = 1 \<and> me_port e \<noteq> NULL))"

definition mac_map :: "MacTable \<Rightarrow> bytes \<Rightarrow> (addr \<times> u64) option" where
  "mac_map t m = map_option (\<lambda>e. (me_port e, me_timestamp e)) (macs.lookup (mt_entries t) m)"

lemma mac_matches_find: "length m = 6 \<Longrightarrow> first_idx (mac_matches m) es = macs.find_key m es"
  by (simp add: macs.find_key_def mac_matches_def [abs_def])

lemma mac_free_find: "first_idx (\<lambda>e. me_valid e = 0) es = macs.find_free es"
  by (simp add: macs.find_free_def)

lemma mac_wf_update:
  assumes "mac_table_wf t" "length (me_mac e) = 6" "me_valid e = 1" "me_port e \<noteq> NULL"
    and "macs.unique ((mt_entries t)[i := e])"
    and "n = int (macs.live_count ((mt_entries t)[i := e]))"
  shows "mac_table_wf (t\<lparr>mt_entries := (mt_entries t)[i := e], mt_count := n\<rparr>)"
proof -
  have "set ((mt_entries t)[i := e]) \<subseteq> insert e (set (mt_entries t))" by (rule set_update_subset_insert)
  then show ?thesis using assms unfolding mac_table_wf_def by auto
qed

lemma mac_learn_cases:
  assumes "mac_table_wf t" "length m = 6" "port \<noteq> NULL"
  obtains (stored) i t' where "mac_table_learn (Some t) (Some m) port now = (Some i, Some t')"
      "i < MAC_TABLE_SIZE" "mac_table_wf t'" "mac_map t' = (mac_map t)(m \<mapsto> (port, now))"
    | (full) "mac_table_learn (Some t) (Some m) port now = (None, Some t)" "mac_map t m = None"
      "mt_count t = int MAC_TABLE_SIZE"
proof (cases "macs.find_key m (mt_entries t)")
  case (Some i)
  let ?e = "(mt_entries t ! i)\<lparr>me_port := port, me_timestamp := now\<rparr>"
  note i = macs.find_key_Some [OF Some]
  have e: "mt_entries t ! i \<in> set (mt_entries t)" using i by simp
  have key: "me_mac ?e = m" "me_valid ?e \<noteq> 0" "me_valid ?e = 1"
    using i e assms(1) by (auto simp: mac_table_wf_def)
  have u: "macs.unique (mt_entries t)" using assms(1) by (simp add: mac_table_wf_def)
  have fk: "macs.find_key (me_mac ?e) (mt_entries t) = Some i" using Some key by simp
  let ?t = "t\<lparr>mt_entries := (mt_entries t)[i := ?e]\<rparr>"
  have "mac_table_wf (t\<lparr>mt_entries := (mt_entries t)[i := ?e], mt_count := mt_count t\<rparr>)"
    using assms key macs.unique_overwrite [OF u fk] macs.live_count_overwrite [OF fk key(2)]
    by (intro mac_wf_update) (auto simp: mac_table_wf_def)
  moreover have "mac_map ?t = (mac_map t)(m \<mapsto> (port, now))"
    using macs.lookup_overwrite [OF u fk key(2)] key(1) by (auto simp: mac_map_def)
  moreover have "mac_table_learn (Some t) (Some m) port now = (Some i, Some ?t)"
    using Some assms by (simp add: mac_table_learn_def mac_matches_find)
  ultimately show thesis using i assms(1) by (intro stored [of i ?t]) (auto simp: mac_table_wf_def)
next
  case None
  have u: "macs.unique (mt_entries t)" and len: "length (mt_entries t) = MAC_TABLE_SIZE"
    using assms(1) by (simp_all add: mac_table_wf_def)
  show thesis
  proof (cases "macs.find_free (mt_entries t)")
    case (Some i)
    let ?e = "\<lparr>me_mac = m, me_port = port, me_timestamp = now, me_valid = 1\<rparr>"
    note i = macs.find_free_Some [OF Some]
    have fk: "macs.find_key (me_mac ?e) (mt_entries t) = None" using None by simp
    let ?t = "t\<lparr>mt_entries := (mt_entries t)[i := ?e], mt_count := mt_count t + 1\<rparr>"
    have "mac_table_wf ?t"
      using assms i macs.unique_fill [OF u fk, of i] macs.live_count_fill [of i "mt_entries t" ?e]
      by (intro mac_wf_update) (auto simp: mac_table_wf_def)
    moreover have "mac_map ?t = (mac_map t)(m \<mapsto> (port, now))"
      using macs.lookup_fill [OF u fk, of i] i by (auto simp: mac_map_def)
    moreover have "mac_table_learn (Some t) (Some m) port now = (Some i, Some ?t)"
      using Some None assms by (simp add: mac_table_learn_def mac_matches_find mac_free_find)
    ultimately show thesis using i len by (intro stored [of i ?t]) auto
  next
    case free: None
    then have "filter (\<lambda>e. me_valid e \<noteq> 0) (mt_entries t) = mt_entries t"
      unfolding macs.find_free_def first_idx_None by (simp add: filter_id_conv)
    then have "mt_count t = int MAC_TABLE_SIZE"
      using assms(1) len by (simp add: mac_table_wf_def macs.live_count_def)
    then show thesis using None free assms
      by (intro full) (auto simp: mac_table_learn_def mac_matches_find mac_free_find mac_map_def macs.lookup_def)
  qed
qed

text \<open>The table as a bounded map, for the switch.\<close>

lemma mac_learn_full:
  assumes "mac_table_wf t" "length m = 6" "port \<noteq> NULL" "mac_map t m = None" "mt_count t = int MAC_TABLE_SIZE"
  shows "mac_table_learn (Some t) (Some m) port now = (None, Some t)"
proof -
  have "length (filter (\<lambda>e. me_valid e \<noteq> 0) (mt_entries t)) = length (mt_entries t)"
    using assms(1,5) by (simp add: mac_table_wf_def macs.live_count_def)
  then have "macs.find_free (mt_entries t) = None"
    unfolding macs.find_free_def first_idx_None length_filter_full by simp
  moreover have "macs.find_key m (mt_entries t) = None" using assms(4) by (simp add: mac_map_def macs.lookup_def)
  ultimately show ?thesis using assms(2,3) by (simp add: mac_table_learn_def mac_matches_find mac_free_find)
qed

definition mac_store :: "bytes \<Rightarrow> addr \<times> u64 \<Rightarrow> MacTable \<Rightarrow> MacTable option" where
  "mac_store m v t = (case mac_table_learn (Some t) (Some m) (fst v) (snd v) of
     (Some _, t') \<Rightarrow> t' | (None, _) \<Rightarrow> None)"

interpretation mac_bm: bounded_map mac_table_wf mac_map "\<lambda>m v. length m = 6 \<and> fst v \<noteq> NULL" mac_store
proof
  fix t :: MacTable and m :: bytes and v :: "addr \<times> u64"
  assume wf: "mac_table_wf t" "length m = 6 \<and> fst v \<noteq> NULL"
  have cases: "(\<exists>t'. mac_store m v t = Some t' \<and> mac_table_wf t' \<and> mac_map t' = (mac_map t)(m \<mapsto> v)) \<or>
      mac_store m v t = None \<and> mac_map t m = None"
    by (rule mac_learn_cases [of t m "fst v" "snd v"]) (use wf in \<open>auto simp: mac_store_def\<close>)
  show "mac_store m v t = Some t' \<Longrightarrow> mac_table_wf t'" for t' using cases by auto
  show "mac_store m v t = Some t' \<Longrightarrow> mac_map t' = (mac_map t)(m \<mapsto> v)" for t' using cases by auto
  show "mac_store m v t = None \<Longrightarrow> mac_map t m = None" using cases by auto
qed

lemma mac_init_wf: "\<exists>t. mac_table_init (Some x) = Some t \<and> mac_table_wf t \<and> mac_map t = Map.empty"
proof -
  let ?es = "replicate MAC_TABLE_SIZE zero_mac_entry"
  have dead: "\<forall>e \<in> set ?es. \<not> me_valid e \<noteq> 0" by (simp add: zero_mac_entry_def)
  have "macs.lookup ?es m = None" for m by (simp add: macs.lookup_None_iff zero_mac_entry_def)
  moreover have "macs.unique ?es" "macs.live_count ?es = 0"
    using macs.unique_all_dead [OF dead] macs.live_count_all_dead [OF dead] by simp_all
  ultimately show ?thesis
    by (auto simp: mac_table_init_def mac_table_wf_def mac_map_def zero_mac_entry_def)
qed

section \<open>Correctness\<close>

text \<open>Learning an address in a well-formed table either stores it, keeping the invariant (unique addresses,
  \<open>count\<close> equal to the number of valid entries, 1024 slots), and makes the represented map return the port
  and time under it with every other address unchanged; or returns \<open>NULL\<close> and changes nothing, which
  happens exactly when the address is new and all 1024 entries are in use.\<close>

lemma mac_table_learn_correct:
  assumes "mac_table_wf t" "length m = 6" "port \<noteq> NULL"
  shows "(\<exists>i t'. mac_table_learn (Some t) (Some m) port now = (Some i, Some t') \<and> mac_table_wf t' \<and>
      mac_map t' = (mac_map t)(m \<mapsto> (port, now))) \<noteq>
    (mac_table_learn (Some t) (Some m) port now = (None, Some t) \<and> mac_map t m = None \<and>
      mt_count t = int MAC_TABLE_SIZE)"
  by (rule mac_learn_cases [OF assms, of now]) auto

text \<open>\<open>mac_table_lookup\<close> returns the port that the represented map has for the address, \<open>NULL\<close> for unknown
  addresses and for \<open>NULL\<close> arguments.\<close>

lemma mac_table_lookup_correct:
  assumes "length m = 6"
  shows "mac_table_lookup (Some t) (Some m) = (case mac_map t m of None \<Rightarrow> NULL | Some (port, _) \<Rightarrow> port) \<and>
    mac_table_lookup None mac = NULL \<and> mac_table_lookup table None = NULL"
  using assms by (auto simp: mac_table_lookup_def mac_matches_find mac_map_def macs.lookup_def split: option.splits)

lemma mac_sweep_wf:
  fixes t :: MacTable
  assumes "mac_table_wf t" and P: "\<And>e. P e \<Longrightarrow> me_valid e \<noteq> 0"
  defines "t' \<equiv> t\<lparr>mt_entries := map (\<lambda>e. if P e then e\<lparr>me_valid := 0\<rparr> else e) (mt_entries t),
    mt_count := mt_count t - int (length (filter P (mt_entries t)))\<rparr>"
  shows "mac_table_wf t'"
    and "macs.lookup (mt_entries t') m = (case macs.lookup (mt_entries t) m of None \<Rightarrow> None
      | Some e \<Rightarrow> if P e then None else Some e)"
proof -
  have u: "macs.unique (mt_entries t)" using assms(1) by (simp add: mac_table_wf_def)
  show "macs.lookup (mt_entries t') m = (case macs.lookup (mt_entries t) m of None \<Rightarrow> None
      | Some e \<Rightarrow> if P e then None else Some e)"
    using macs.lookup_kill_where [OF u] by (simp add: t'_def)
  show "mac_table_wf t'"
    using assms(1) macs.unique_kill_where [OF u, of P] macs.live_count_kill_where [of P "mt_entries t"] P
    by (auto simp: mac_table_wf_def t'_def)
qed

lemma mac_lookup_live: "mac_table_wf t \<Longrightarrow> macs.lookup (mt_entries t) m = Some e \<Longrightarrow> me_valid e \<noteq> 0"
  by (simp add: mac_table_wf_def macs.lookup_Some_iff)

lemma mac_age_map:
  assumes "mac_table_wf t"
  shows "\<exists>t'. mac_table_age (Some t) now = Some t' \<and> mac_table_wf t' \<and>
    mac_map t' = (\<lambda>m. case mac_map t m of None \<Rightarrow> None
      | Some (port, ts) \<Rightarrow> if MAC_AGE_MS < now - ts then None else Some (port, ts))"
  using mac_sweep_wf [OF assms, of "\<lambda>e. me_valid e \<noteq> 0 \<and> MAC_AGE_MS < now - me_timestamp e"] mac_lookup_live [OF assms]
  by (auto simp: mac_table_age_def sweep_map mac_map_def fun_eq_iff split: option.splits)

lemma mac_flush_map:
  assumes "mac_table_wf t"
  shows "\<exists>t'. mac_table_flush_port (Some t) p = Some t' \<and> mac_table_wf t' \<and>
    mac_map t' = (\<lambda>m. case mac_map t m of None \<Rightarrow> None
      | Some (port, ts) \<Rightarrow> if p \<noteq> NULL \<and> port = p then None else Some (port, ts))"
  using mac_sweep_wf [OF assms, of "\<lambda>e. me_valid e \<noteq> 0 \<and> me_port e = p"] mac_lookup_live [OF assms] assms
  by (auto simp: mac_table_flush_port_def sweep_map mac_map_def fun_eq_iff split: option.splits)

text \<open>Aging and flushing keep the invariant, and remove from the represented map exactly the addresses whose
  entry is older than 300000 time units, and exactly the addresses learned on the flushed port.\<close>

lemma mac_table_sweeps_correct:
  assumes "mac_table_wf t"
  shows "(\<exists>t'. mac_table_age (Some t) now = Some t' \<and> mac_table_wf t' \<and>
      mac_map t' = (\<lambda>m. case mac_map t m of None \<Rightarrow> None
        | Some (port, ts) \<Rightarrow> if MAC_AGE_MS < now - ts then None else Some (port, ts))) \<and>
    (\<exists>t'. mac_table_flush_port (Some t) p = Some t' \<and> mac_table_wf t' \<and>
      mac_map t' = (\<lambda>m. case mac_map t m of None \<Rightarrow> None
        | Some (port, ts) \<Rightarrow> if p \<noteq> NULL \<and> port = p then None else Some (port, ts)))"
  using mac_age_map [OF assms] mac_flush_map [OF assms] by blast

text \<open>Whatever addresses are learned, an address the table knows is never lost, and the switch finds the port
  it was seen on last.\<close>

lemma mac_table_last_learned:
  assumes "mac_table_wf t" "list_all (\<lambda>(m, v). length m = 6 \<and> fst v \<noteq> NULL) (kvs @ (m, v) # kvs')"
    and "mac_map t m \<noteq> None" "m \<notin> fst ` set kvs'"
  shows "mac_map (mac_bm.store_all (kvs @ (m, v) # kvs') t) m = Some v"
  using assms by (rule mac_bm.last_store_wins)

section \<open>Instances\<close>

lemma demo_mac_table:
  obtains t t' i where "mac_table_init (Some x) = Some t" "mac_table_wf t" "mac_map t = Map.empty"
    "mac_table_learn (Some t) (Some [2, 0, 0, 0, 0, 1]) 7 5 = (Some i, Some t')" "mac_table_wf t'"
    "mac_map t' = [[2, 0, 0, 0, 0, 1] \<mapsto> (7, 5)]"
proof -
  obtain t where t: "mac_table_init (Some x) = Some t" "mac_table_wf t" "mac_map t = Map.empty"
    using mac_init_wf by blast
  then have "mt_count t = 0" by (auto simp: mac_table_init_def)
  show thesis
  proof (rule mac_learn_cases [OF t(2), of "[2, 0, 0, 0, 0, 1]" 7 5])
    fix i t' assume "mac_table_learn (Some t) (Some [2, 0, 0, 0, 0, 1]) 7 5 = (Some i, Some t')" "mac_table_wf t'"
      "mac_map t' = (mac_map t)([2, 0, 0, 0, 0, 1] \<mapsto> (7, 5))"
    with t show thesis by (intro that [of t i t']) auto
  next
    assume "mt_count t = int MAC_TABLE_SIZE"
    with \<open>mt_count t = 0\<close> show thesis by (simp add: MAC_TABLE_SIZE_def)
  qed simp_all
qed

definition demo_empty_mac_table :: MacTable where
  "demo_empty_mac_table = \<lparr>mt_entries = replicate MAC_TABLE_SIZE zero_mac_entry, mt_count = 0\<rparr>"

lemma demo_empty_mac_wf: "mac_table_wf demo_empty_mac_table" "mac_map demo_empty_mac_table = Map.empty"
  using mac_init_wf by (auto simp: mac_table_init_def demo_empty_mac_table_def)

lemma mac_table_learn_correct_witness:
  "\<exists>i t'. mac_table_learn (Some demo_empty_mac_table) (Some [2, 0, 0, 0, 0, 1]) 7 5 = (Some i, Some t') \<and>
    mac_map t' [2, 0, 0, 0, 0, 1] = Some (7, 5)"
  using mac_table_learn_correct [OF demo_empty_mac_wf(1), of "[2, 0, 0, 0, 0, 1]" 7 5]
  by (auto simp: demo_empty_mac_table_def MAC_TABLE_SIZE_def)

lemma mac_table_lookup_correct_witness: "mac_table_lookup (Some demo_empty_mac_table) (Some [2, 0, 0, 0, 0, 1]) = NULL"
  using mac_table_lookup_correct [of "[2, 0, 0, 0, 0, 1]" demo_empty_mac_table] demo_empty_mac_wf(2) by simp

lemma mac_table_sweeps_correct_witness: "\<exists>t'. mac_table_age (Some demo_empty_mac_table) 9 = Some t' \<and> mac_table_wf t'"
  using mac_table_sweeps_correct [OF demo_empty_mac_wf(1), of 9] by blast

lemma mac_table_last_learned_witness:
  "\<exists>t. mac_map t [2, 0, 0, 0, 0, 1] = Some (7, 5) \<and>
    mac_map (mac_bm.store_all [([2, 0, 0, 0, 0, 1], (9, 8))] t) [2, 0, 0, 0, 0, 1] = Some (9, 8)"
proof -
  obtain t where "mac_table_wf t" "mac_map t = [[2, 0, 0, 0, 0, 1] \<mapsto> (7, 5)]" by (rule demo_mac_table)
  then show ?thesis using mac_table_last_learned [of t "[]" "[2, 0, 0, 0, 0, 1]" "(9, 8)" "[]"] by (intro exI [of _ t]) simp
qed

end
