(* ===== verification/Switch.thy ===== *)
theory Switch
  imports Router Mac_Table
begin

text \<open>
  Switches (\<open>network/switch.h\<close>, \<open>network/switch.c\<close>): learning of source addresses, forwarding to the learned port,
  flooding, and the periodic ageing of the MAC table. As for routers, the device of a switch is in the heap of devices
  at the address of the switch.
\<close>

section \<open>State\<close>

record Switch =
  sw_mac_tbl :: MacTable
  sw_port_count :: int
  sw_sim :: addr

record switch_world = router_world +
  w_switches :: "addr \<rightharpoonup> Switch"

definition switch_at :: "addr \<Rightarrow> 'a switch_world_scheme \<Rightarrow> Switch option" where
  "switch_at a w = (if a = NULL then None else w_switches w a)"

definition switch_put :: "addr \<Rightarrow> Switch \<Rightarrow> 'a switch_world_scheme \<Rightarrow> 'a switch_world_scheme" where
  "switch_put a s w = w\<lparr>w_switches := (w_switches w)(a \<mapsto> s)\<rparr>"

definition as_switch :: "vptr \<Rightarrow> addr option" where
  "as_switch v = (case v of VNull \<Rightarrow> Some NULL | VSwitch a \<Rightarrow> Some a | _ \<Rightarrow> None)"

definition SW_MAX_PORTS :: nat where "SW_MAX_PORTS = 48"
definition SW_AGE_INTERVAL :: u64 where "SW_AGE_INTERVAL = 30000"

section \<open>Operations\<close>

text \<open>The creation of the next ageing event, \<open>SW_AGE_INTERVAL\<close> after the current time.\<close>

definition mac_age_event :: "addr \<Rightarrow> u64 \<Rightarrow> 'a switch_world_scheme \<Rightarrow> Event option \<times> 'a switch_world_scheme" where
  "mac_age_event sw now w =
     event_create_callback EVT_MAC_AGE (now + SW_AGE_INTERVAL) VNull VNull NULL VNull Cb_mac_age_handler (VSwitch sw) w"

definition mac_age_handler :: "Event \<Rightarrow> vptr \<Rightarrow> 'a switch_world_scheme \<Rightarrow> 'a switch_world_scheme option" where
  "mac_age_handler e ctx w = do {
     sw \<leftarrow> as_switch ctx;
     if sw = NULL then Some w
     else do {
       s \<leftarrow> switch_at sw w;
       if sw_sim s = NULL then Some w
       else do {
         m \<leftarrow> sim_at (sw_sim s) w;
         if sim_sched m = NULL then Some w
         else do {
           sch \<leftarrow> sched_at (sim_sched m) w;
           t \<leftarrow> mac_table_age (Some (sw_mac_tbl s)) (sch_now sch);
           let w = switch_put sw (s\<lparr>sw_mac_tbl := t\<rparr>) w;
           case mac_age_event sw (sch_now sch) w of
             (None, w) \<Rightarrow> Some w
           | (Some next, w) \<Rightarrow> do { (_, w) \<leftarrow> scheduler_schedule (sim_sched m) (Some next) w; Some w }
         }
       }
     }
   }"

definition switch_create :: "string option \<Rightarrow> addr \<Rightarrow> 'a switch_world_scheme \<Rightarrow> (addr \<times> 'a switch_world_scheme) option" where
  "switch_create name sim w =
     (if name = None \<or> sim = NULL then Some (NULL, w)
      else case alloc w of (sw, w) \<Rightarrow>
        if sw = NULL then Some (NULL, w)
        else case device_create name (int SW_MAX_PORTS) w of (dev, w) \<Rightarrow>
          if dev = NULL then Some (NULL, w)
          else do {
            d \<leftarrow> dev_at dev w;
            let w = (dev_put sw d w)\<lparr>w_devs := (w_devs (dev_put sw d w))(dev := None)\<rparr>;
            t \<leftarrow> mac_table_init (Some \<lparr>mt_entries = replicate MAC_TABLE_SIZE zero_mac_entry, mt_count = 0\<rparr>);
            let w = switch_put sw \<lparr>sw_mac_tbl = t, sw_port_count = 0, sw_sim = sim\<rparr> w;
            m \<leftarrow> sim_at sim w;
            sch \<leftarrow> sched_at (sim_sched m) w;
            let (age_event, w) = mac_age_event sw (sch_now sch) w;
            (scheduled, w) \<leftarrow> (case age_event of None \<Rightarrow> Some (- 1, w) | Some e \<Rightarrow> scheduler_schedule (sim_sched m) (Some e) w);
            if scheduled \<noteq> 0 then do {
              w \<leftarrow> device_free sw w;
              Some (NULL, w\<lparr>w_switches := (w_switches w)(sw := None)\<rparr>)
            }
            else Some (sw, w)
          })"

definition switch_free :: "addr \<Rightarrow> 'a switch_world_scheme \<Rightarrow> 'a switch_world_scheme option" where
  "switch_free sw w =
     (if sw = NULL then Some w
      else do { w \<leftarrow> device_free sw w; Some (w\<lparr>w_switches := (w_switches w)(sw := None)\<rparr>) })"

definition switch_add_port :: "addr \<Rightarrow> addr \<Rightarrow> 'a switch_world_scheme \<Rightarrow> (int \<times> 'a switch_world_scheme) option" where
  "switch_add_port sw iface w =
     (if sw = NULL \<or> iface = NULL then Some (- 1, w)
      else do {
        s \<leftarrow> switch_at sw w;
        if int SW_MAX_PORTS \<le> sw_port_count s then Some (- 1, w)
        else do {
          (res, w) \<leftarrow> device_add_interface sw iface w;
          if res = 0 then do {
            w \<leftarrow> interface_set_rx_handler iface Rx_switch_rx_shim (VSwitch sw) w;
            w \<leftarrow> interface_set_up iface 1 w;
            d \<leftarrow> dev_at sw w;
            Some (res, switch_put sw (s\<lparr>sw_port_count := int (length (dev_interfaces d))\<rparr>) w)
          }
          else Some (res, w)
        }
      })"

text \<open>The flooding loop: a clone of the frame on every other port that is up and has a link, until a clone cannot be
  allocated.\<close>

fun flood :: "addr \<Rightarrow> addr \<Rightarrow> bytes \<Rightarrow> u16 \<Rightarrow> addr \<Rightarrow> addr list \<Rightarrow> 'a switch_world_scheme \<Rightarrow> 'a switch_world_scheme option" where
  "flood sim in_port dst_mac ethertype frame [] w = Some w"
| "flood sim in_port dst_mac ethertype frame (out_port # ports) w =
     (if out_port = in_port then flood sim in_port dst_mac ethertype frame ports w
      else do {
        up \<leftarrow> interface_is_up out_port w;
        if up = 0 then flood sim in_port dst_mac ethertype frame ports w
        else do {
          i \<leftarrow> iface_at out_port w;
          if if_link i = NULL then flood sim in_port dst_mac ethertype frame ports w
          else do {
            (pkt_clone, w) \<leftarrow> packet_clone frame w;
            if pkt_clone \<noteq> NULL then do {
              (_, w) \<leftarrow> ethernet_send sim out_port (Some dst_mac) ethertype pkt_clone w;
              flood sim in_port dst_mac ethertype frame ports w
            }
            else iface_upd in_port (\<lambda>i. i\<lparr>if_rx_errors := if_rx_errors i + 1\<rparr>) w
          }
        }
      })"

text \<open>The part of \<open>switch_receive\<close> after learning.\<close>

definition switch_deliver :: "addr \<Rightarrow> Switch \<Rightarrow> addr \<Rightarrow> bytes \<Rightarrow> u16 \<Rightarrow> addr \<Rightarrow> 'a switch_world_scheme \<Rightarrow> 'a switch_world_scheme option" where
  "switch_deliver sw s in_port dst_mac ethertype frame w = do {
     let egress = mac_table_lookup (Some (sw_mac_tbl s)) (Some dst_mac);
     if mac_equal dst_mac ETH_BROADCAST \<or> egress = NULL then do {
       d \<leftarrow> dev_at sw w;
       if int (length (dev_interfaces d)) < sw_port_count s then None
       else do {
         w \<leftarrow> flood (sw_sim s) in_port dst_mac ethertype frame (take (nat (sw_port_count s)) (dev_interfaces d)) w;
         packet_free frame w
       }
     }
     else do {
       up \<leftarrow> interface_is_up egress w;
       if egress \<noteq> in_port \<and> up \<noteq> 0 then do {
         (_, w) \<leftarrow> ethernet_send (sw_sim s) egress (Some dst_mac) ethertype frame w;
         Some w
       }
       else do {
         w \<leftarrow> iface_upd in_port (\<lambda>i. i\<lparr>if_rx_dropped := if_rx_dropped i + 1\<rparr>) w;
         packet_free frame w
       }
     }
   }"

definition switch_receive :: "addr \<Rightarrow> addr \<Rightarrow> addr \<Rightarrow> u16 \<Rightarrow> 'a switch_world_scheme \<Rightarrow> 'a switch_world_scheme option" where
  "switch_receive sw in_port frame ethertype w =
     (if sw = NULL \<or> in_port = NULL \<or> frame = NULL then Some w
      else do {
        up \<leftarrow> interface_is_up in_port w;
        if up = 0 then packet_free frame w
        else do {
          f \<leftarrow> pkt_at frame w;
          if packet_validate_view (Some f) ETH_HDR_LEN 0 \<noteq> 0 then do {
            w \<leftarrow> packet_free frame w;
            iface_upd in_port (\<lambda>i. i\<lparr>if_rx_errors := if_rx_errors i + 1\<rparr>) w
          }
          else do {
            eth_hdr \<leftarrow> read_at (pkt_head f) (pkt_data f - ETH_HDR_LEN) ETH_HDR_LEN;
            let dst_mac = take 6 eth_hdr;
            let src_mac = take 6 (drop 6 eth_hdr);
            s \<leftarrow> switch_at sw w;
            now \<leftarrow> simulator_now (sw_sim s) w;
            let (entry, t) = mac_table_learn (Some (sw_mac_tbl s)) (Some src_mac) in_port now;
            t \<leftarrow> t;
            let w = switch_put sw (s\<lparr>sw_mac_tbl := t\<rparr>) w;
            if entry = None then do {
              w \<leftarrow> iface_upd in_port (\<lambda>i. i\<lparr>if_rx_dropped := if_rx_dropped i + 1\<rparr>) w;
              packet_free frame w
            }
            else switch_deliver sw (s\<lparr>sw_mac_tbl := t\<rparr>) in_port dst_mac ethertype frame w
          }
        }
      })"

definition switch_rx_shim :: "addr \<Rightarrow> addr \<Rightarrow> u16 \<Rightarrow> vptr \<Rightarrow> 'a switch_world_scheme \<Rightarrow> 'a switch_world_scheme option" where
  "switch_rx_shim iface pkt ethertype ctx w = do {
     sw \<leftarrow> as_switch ctx;
     if sw = NULL \<or> iface = NULL \<or> pkt = NULL then Some w else switch_receive sw iface pkt ethertype w
   }"

definition switch_port_down :: "addr \<Rightarrow> addr \<Rightarrow> 'a switch_world_scheme \<Rightarrow> 'a switch_world_scheme option" where
  "switch_port_down sw port w =
     (if sw = NULL \<or> port = NULL then Some w
      else do {
        w \<leftarrow> interface_set_up port 0 w;
        s \<leftarrow> switch_at sw w;
        t \<leftarrow> mac_table_flush_port (Some (sw_mac_tbl s)) port;
        Some (switch_put sw (s\<lparr>sw_mac_tbl := t\<rparr>) w)
      })"

definition switch_get_port_by_name :: "addr \<Rightarrow> string option \<Rightarrow> 'a switch_world_scheme \<Rightarrow> addr option" where
  "switch_get_port_by_name sw name w =
     (if sw = NULL \<or> name = None then Some NULL else device_get_interface_by_name sw name w)"

section \<open>Well-formed switches\<close>

text \<open>A switch of the simulator \<open>sim\<close>: its ports are the interfaces of its device, and the MAC table names live
  interfaces only.\<close>

definition switch_wf :: "addr \<Rightarrow> 'a switch_world_scheme \<Rightarrow> addr \<Rightarrow> bool" where
  "switch_wf sim w sw \<longleftrightarrow> (\<exists>s d. switch_at sw w = Some s \<and> sw_sim s = sim \<and> mac_table_wf (sw_mac_tbl s) \<and>
     (\<forall>m p ts. mac_map (sw_mac_tbl s) m = Some (p, ts) \<longrightarrow> iface_at p w \<noteq> None) \<and>
     dev_at sw w = Some d \<and> (\<forall>a \<in> set (dev_interfaces d). iface_at a w \<noteq> None) \<and> length (dev_interfaces d) \<le> SW_MAX_PORTS \<and>
     sw_port_count s = int (length (dev_interfaces d)))"

lemma switch_at_nonnull: "switch_at a w = Some s \<Longrightarrow> a \<noteq> NULL"
  by (simp add: switch_at_def split: if_splits)

lemma switch_put_frames [simp]:
  "pkt_at a (switch_put b s w) = pkt_at a w" "iface_at a (switch_put b s w) = iface_at a w"
  "sim_at a (switch_put b s w) = sim_at a w" "sched_at a (switch_put b s w) = sched_at a w"
  "link_at a (switch_put b s w) = link_at a w" "w_mem (switch_put b s w) = w_mem w" "dev_at a (switch_put b s w) = dev_at a w"
  "b \<noteq> NULL \<Longrightarrow> switch_at a (switch_put b s w) = (if a = b then Some s else switch_at a w)"
  by (simp_all add: pkt_at_def iface_at_def sim_at_def sched_at_def link_at_def dev_at_def switch_at_def switch_put_def)

lemma net_wf_switch_put [simp]: "net_wf sim (switch_put a s w) = net_wf sim w"
  by (simp add: net_wf_def heap_wf_def sim_ready_def attached_def)

lemma net_frame_switch: "net_frame w w' \<Longrightarrow> switch_at a w' = switch_at a w" "net_frame v v' \<Longrightarrow> dev_at a v' = dev_at a v"
  by (cases w; cases w'; simp add: net_frame_def switch_at_def) (cases v; cases v'; simp add: net_frame_def dev_at_def)

lemma switch_wf_step:
  assumes "switch_wf sim w sw" "safe_step sim X w w'"
  shows "switch_wf sim w' sw" "switch_at sw w' = switch_at sw w"
proof -
  have "net_frame w w'" using assms(2) by (simp add: safe_step_def)
  note f = net_frame_switch(1) [OF this, of sw] net_frame_switch(2) [OF this, of sw]
  show "switch_at sw w' = switch_at sw w" by (rule f(1))
  show "switch_wf sim w' sw" using assms(1) safe_step_iface [OF assms(2)] unfolding switch_wf_def f by blast
qed

lemma interface_is_up_live: "iface_at a w \<noteq> None \<Longrightarrow> \<exists>u. interface_is_up a w = Some u"
  by (auto simp: interface_is_up_def)

lemma flood_safe:
  assumes "net_wf sim w" "pkt_at frame w \<noteq> None" "iface_at in_port w \<noteq> None" "\<forall>a \<in> set ports. iface_at a w \<noteq> None"
  shows "\<exists>w'. flood sim in_port dst ty frame ports w = Some w' \<and> safe_step sim {} w w'"
  using assms
proof (induction ports arbitrary: w)
  case Nil
  then show ?case by (simp add: safe_step_refl)
next
  case (Cons p ports)
  obtain i where i: "iface_at p w = Some i" using Cons.prems(4) by auto
  obtain u where u: "interface_is_up p w = Some u" using interface_is_up_live [of p w] i by auto
  show ?case
  proof (cases "p = in_port \<or> u = 0 \<or> if_link i = NULL")
    case True
    then show ?thesis using Cons.IH [OF Cons.prems(1-3)] Cons.prems(4) i u by auto
  next
    case False
    obtain c w1 where c: "packet_clone frame w = Some (c, w1)" "safe_step sim {} w w1"
      "c \<noteq> NULL \<longrightarrow> pkt_at c w = None \<and> pkt_at c w1 \<noteq> None"
      by (rule safe_step_clone [OF Cons.prems(1,2)])
    note n1 = safe_step_wf [OF c(2)] and i1 = safe_step_iface [OF c(2)]
    show ?thesis
    proof (cases "c = NULL")
      case True
      obtain w2 where w2: "iface_upd in_port (\<lambda>i. i\<lparr>if_rx_errors := if_rx_errors i + 1\<rparr>) w1 = Some w2" "safe_step sim {} w1 w2"
        by (rule safe_step_count [OF n1 i1 [OF Cons.prems(3)], of "\<lambda>i. i\<lparr>if_rx_errors := if_rx_errors i + 1\<rparr>"]) (auto simp: iface_core_def)
      then show ?thesis using False i u c(1) True safe_step_trans [OF c(2) w2(2)] by auto
    next
      case live: False
      note cl = c(3) [THEN mp, OF live]
      obtain r w2 where s: "ethernet_send sim p (Some dst) ty c w1 = Some (r, w2)" "safe_step sim {c} w1 w2"
        by (rule safe_step_send [OF n1, of p c dst ty]) (use i1 [of p] i cl in auto)
      have s2: "safe_step sim {} w w2"
        by (rule safe_step_fresh [OF safe_step_trans [OF safe_step_mono [OF c(2)] s(2)]]) (use cl in simp_all)
      have "pkt_at frame w2 \<noteq> None" using s2 Cons.prems(2) by (auto simp: safe_step_def)
      then obtain w3 where "flood sim in_port dst ty frame ports w2 = Some w3" "safe_step sim {} w2 w3"
        using Cons.IH [OF safe_step_wf [OF s2]] safe_step_iface [OF s2] Cons.prems(3,4) by auto
      then show ?thesis using False i u c(1) live s(1) safe_step_trans [OF s2] by auto
    qed
  qed
qed


lemma mac_lookup_map: "length m = 6 \<Longrightarrow> mac_table_lookup (Some t) (Some m) = (case mac_map t m of None \<Rightarrow> NULL | Some (port, _) \<Rightarrow> port)"
  by (auto simp: mac_table_lookup_def mac_matches_find mac_map_def macs.lookup_def split: option.splits)

lemma switch_wf_learn:
  assumes "switch_wf sim w sw" "switch_at sw w = Some s" "mac_table_wf t" "iface_at p w \<noteq> None"
    "mac_map t = (mac_map (sw_mac_tbl s))(m \<mapsto> (p, now))"
  shows "switch_wf sim (switch_put sw (s\<lparr>sw_mac_tbl := t\<rparr>) w) sw"
proof -
  from assms(1,2) obtain d where d: "sw_sim s = sim" "\<forall>m p ts. mac_map (sw_mac_tbl s) m = Some (p, ts) \<longrightarrow> iface_at p w \<noteq> None"
    "dev_at sw w = Some d" "\<forall>a \<in> set (dev_interfaces d). iface_at a w \<noteq> None" "length (dev_interfaces d) \<le> SW_MAX_PORTS"
    "sw_port_count s = int (length (dev_interfaces d))" unfolding switch_wf_def by auto
  have "\<forall>k q ts. mac_map t k = Some (q, ts) \<longrightarrow> iface_at q w \<noteq> None"
    using d(2) assms(4) unfolding assms(5) by (metis fun_upd_apply fst_conv option.inject)
  then show ?thesis using d assms(3) switch_at_nonnull [OF assms(2)] by (simp add: switch_wf_def)
qed

lemma drop_frame_safe:
  assumes "net_wf sim w" "iface_at p w \<noteq> None" "pkt_at frame w \<noteq> None"
  obtains w' where "do { w \<leftarrow> iface_upd p (\<lambda>i. i\<lparr>if_rx_dropped := if_rx_dropped i + 1\<rparr>) w; packet_free frame w } = Some w'"
    "safe_step sim {frame} w w'" "pkt_at frame w' = None"
proof -
  obtain w1 where w1: "iface_upd p (\<lambda>i. i\<lparr>if_rx_dropped := if_rx_dropped i + 1\<rparr>) w = Some w1" "safe_step sim {} w w1"
    "\<And>b. pkt_at b w1 = pkt_at b w"
    by (rule safe_step_count [OF assms(1,2), of "\<lambda>i. i\<lparr>if_rx_dropped := if_rx_dropped i + 1\<rparr>"]) (auto simp: iface_core_def)
  obtain w2 where w2: "packet_free frame w1 = Some w2" "safe_step sim {frame} w1 w2"
    using safe_step_free [OF safe_step_wf [OF w1(2)], of frame] w1(3) assms(3) by metis
  show thesis by (rule that [of w2, OF _ safe_step_trans [OF safe_step_mono [OF w1(2)] w2(2)] packet_free_gone [OF w2(1)]])
    (simp_all add: w1(1) w2(1))
qed

lemma switch_deliver_safe:
  assumes "switch_wf sim w sw" "net_wf sim w" "switch_at sw w = Some s" "iface_at in_port w \<noteq> None" "pkt_at frame w \<noteq> None"
    and "length dst = 6"
  shows "\<exists>w'. switch_deliver sw s in_port dst ty frame w = Some w' \<and> safe_step sim {frame} w w'"
proof -
  from assms(1,3) obtain d where d: "sw_sim s = sim" "mac_table_wf (sw_mac_tbl s)"
    "\<forall>m p ts. mac_map (sw_mac_tbl s) m = Some (p, ts) \<longrightarrow> iface_at p w \<noteq> None"
    "dev_at sw w = Some d" "\<forall>a \<in> set (dev_interfaces d). iface_at a w \<noteq> None"
    "sw_port_count s = int (length (dev_interfaces d))" unfolding switch_wf_def by auto
  let ?e = "mac_table_lookup (Some (sw_mac_tbl s)) (Some dst)"
  show ?thesis
  proof (cases "mac_equal dst ETH_BROADCAST \<or> ?e = NULL")
    case True
    obtain w1 where w1: "flood sim in_port dst ty frame (dev_interfaces d) w = Some w1" "safe_step sim {} w w1"
      using flood_safe [OF assms(2,5,4) d(5)] by blast
    have "pkt_at frame w1 \<noteq> None" using w1(2) assms(5) by (auto simp: safe_step_def)
    from safe_step_free [OF safe_step_wf [OF w1(2)] this] obtain w2 where "packet_free frame w1 = Some w2" "safe_step sim {frame} w1 w2"
      by blast
    then show ?thesis using True d w1 safe_step_trans [OF safe_step_mono [OF w1(2)]] by (auto simp: switch_deliver_def)
  next
    case False
    have e: "iface_at ?e w \<noteq> None" using False d(3) mac_lookup_map [OF assms(6), of "sw_mac_tbl s"]
      by (auto split: option.splits)
    obtain u where u: "interface_is_up ?e w = Some u" using interface_is_up_live [OF e] by blast
    obtain w1 where w1: "do { w \<leftarrow> iface_upd in_port (\<lambda>i. i\<lparr>if_rx_dropped := if_rx_dropped i + 1\<rparr>) w; packet_free frame w } = Some w1"
      "safe_step sim {frame} w w1" by (rule drop_frame_safe [OF assms(2,4,5)])
    obtain r w2 where "ethernet_send sim ?e (Some dst) ty frame w = Some (r, w2)" "safe_step sim {frame} w w2"
      by (rule safe_step_send [OF assms(2) e assms(5), of dst ty])
    then show ?thesis using False u w1 d(1) by (auto simp: switch_deliver_def Let_def)
  qed
qed

lemma switch_receive_step:
  assumes "switch_at sw w = Some s" "iface_at in_port w = Some i" "if_up i \<noteq> 0"
    and "pkt_at frame w = Some f" "pkt_wf f" "14 \<le> pkt_data f" "simulator_now (sw_sim s) w = Some now"
    and "hdr = take 14 (drop (pkt_data f - 14) (pkt_head f))"
    and "mac_table_learn (Some (sw_mac_tbl s)) (Some (take 6 (drop 6 hdr))) in_port now = (entry, Some t)"
  shows "length hdr = 14" "switch_receive sw in_port frame ty w =
    (let w = switch_put sw (s\<lparr>sw_mac_tbl := t\<rparr>) w in
     if entry = None then do { w \<leftarrow> iface_upd in_port (\<lambda>i. i\<lparr>if_rx_dropped := if_rx_dropped i + 1\<rparr>) w; packet_free frame w }
     else switch_deliver sw (s\<lparr>sw_mac_tbl := t\<rparr>) in_port (take 6 hdr) ty frame w)"
proof -
  show len: "length hdr = 14" using assms(5,6,8) by (auto simp: pkt_wf_def)
  have rd: "read_at (pkt_head f) (pkt_data f - 14) 14 = Some hdr" using assms(5,6,8) by (auto simp: read_at_def pkt_wf_def)
  have nn: "sw \<noteq> NULL" "in_port \<noteq> NULL" "frame \<noteq> NULL"
    using assms(1,2,4) by (auto dest: switch_at_nonnull iface_at_nonnull pkt_at_nonnull)
  have vw: "packet_validate_view (Some f) 14 0 = 0" using assms(5,6) by (simp add: validate_view_wf)
  show "switch_receive sw in_port frame ty w =
    (let w = switch_put sw (s\<lparr>sw_mac_tbl := t\<rparr>) w in
     if entry = None then do { w \<leftarrow> iface_upd in_port (\<lambda>i. i\<lparr>if_rx_dropped := if_rx_dropped i + 1\<rparr>) w; packet_free frame w }
     else switch_deliver sw (s\<lparr>sw_mac_tbl := t\<rparr>) in_port (take 6 hdr) ty frame w)"
    using nn assms(1-4,7,9) rd vw
    by (simp add: switch_receive_def interface_is_up_def ETH_HDR_LEN_def Let_def)
qed

text \<open>C27. Reception by a switch in a well-formed network never faults, whatever is down or out of memory: the source
  address of the frame is learned on the port it came in on, unless it is unknown and the table is full, in which
  case the frame is dropped; no mapping of another address changes, no other packet changes, and switch and network stay
  well formed.\<close>

theorem switch_receive_learns:
  assumes "switch_wf sim w sw" "net_wf sim w" "switch_at sw w = Some s" "iface_at in_port w = Some i" "if_up i \<noteq> 0"
    and "pkt_at frame w = Some f" "14 \<le> pkt_data f" "simulator_now sim w = Some now"
    and "src = take 6 (drop (pkt_data f - 8) (pkt_head f))"
  shows "\<exists>w' s'. switch_receive sw in_port frame ty w = Some w' \<and> net_wf sim w' \<and> switch_wf sim w' sw \<and> switch_at sw w' = Some s' \<and>
    (\<forall>a. a \<noteq> frame \<longrightarrow> pkt_at a w \<noteq> None \<longrightarrow> pkt_at a w' = pkt_at a w) \<and>
    (if mac_map (sw_mac_tbl s) src = None \<and> mt_count (sw_mac_tbl s) = int MAC_TABLE_SIZE
     then mac_map (sw_mac_tbl s') = mac_map (sw_mac_tbl s) \<and> pkt_at frame w' = None
     else mac_map (sw_mac_tbl s') = (mac_map (sw_mac_tbl s))(src \<mapsto> (in_port, now)))"
proof -
  let ?hdr = "take 14 (drop (pkt_data f - 14) (pkt_head f))"
  have wf: "pkt_wf f" using assms(2,6) by (auto simp: net_wf_def dest: heap_wfD)
  have s: "sw_sim s = sim" "mac_table_wf (sw_mac_tbl s)" using assms(1,3) by (auto simp: switch_wf_def)
  note nn = switch_at_nonnull [OF assms(3)] iface_at_nonnull [OF assms(4)]
  have "6 + (pkt_data f - 14) = pkt_data f - 8" using assms(7) by simp
  then have src: "take 6 (drop 6 ?hdr) = src" unfolding assms(9) by (simp add: drop_take)
  have l: "length src = 6" using wf assms(7,9) by (auto simp: pkt_wf_def)
  have live: "iface_at in_port w \<noteq> None" "pkt_at frame w \<noteq> None" using assms(4,6) by simp_all
  note step = switch_receive_step(2) [OF assms(3-6) wf assms(7) _ refl, of now, unfolded s(1) src, OF assms(8)]
  show ?thesis
  proof (rule mac_learn_cases [OF s(2) l nn(2), of now])
    fix e t assume t: "mac_table_learn (Some (sw_mac_tbl s)) (Some src) in_port now = (Some e, Some t)" "mac_table_wf t"
      "mac_map t = (mac_map (sw_mac_tbl s))(src \<mapsto> (in_port, now))"
    let ?s = "s\<lparr>sw_mac_tbl := t\<rparr>" and ?w = "switch_put sw (s\<lparr>sw_mac_tbl := t\<rparr>) w"
    note sw' = switch_wf_learn [OF assms(1,3) t(2) live(1) t(3)]
    have at': "switch_at sw ?w = Some ?s" "net_wf sim ?w" "iface_at in_port ?w \<noteq> None" "pkt_at frame ?w \<noteq> None" using nn assms(2) live by simp_all
    have l6: "length (take 6 ?hdr) = 6" using assms(7) wf by (auto simp: pkt_wf_def)
    obtain w' where w': "switch_deliver sw ?s in_port (take 6 ?hdr) ty frame ?w = Some w'" "safe_step sim {frame} ?w w'"
      using switch_deliver_safe [OF sw' at'(2,1,3,4) l6] by blast
    have nf: "\<not> (mac_map (sw_mac_tbl s) src = None \<and> mt_count (sw_mac_tbl s) = int MAC_TABLE_SIZE)"
      using t(1) mac_learn_full [OF s(2) l nn(2), of now] by (metis option.distinct(1) prod.inject)
    have "switch_receive sw in_port frame ty w = Some w'" using step [OF t(1)] w'(1) by (simp add: Let_def)
    then show ?thesis unfolding if_not_P [OF nf] using switch_wf_step [OF sw' w'(2)] at'(1) t(3) w'(2)
      by (intro exI [of _ w'] exI [of _ ?s]) (simp add: safe_step_def)
  next
    assume t: "mac_table_learn (Some (sw_mac_tbl s)) (Some src) in_port now = (None, Some (sw_mac_tbl s))" "mac_map (sw_mac_tbl s) src = None"
      "mt_count (sw_mac_tbl s) = int MAC_TABLE_SIZE"
    have id: "switch_put sw s w = w" using assms(3) nn by (simp add: switch_at_def switch_put_def fun_upd_idem)
    obtain w' where "do { w \<leftarrow> iface_upd in_port (\<lambda>i. i\<lparr>if_rx_dropped := if_rx_dropped i + 1\<rparr>) w; packet_free frame w } = Some w'"
      "safe_step sim {frame} w w'" "pkt_at frame w' = None" by (rule drop_frame_safe [OF assms(2) live])
    moreover from this have "switch_receive sw in_port frame ty w = Some w'" using step [OF t(1)] id by simp
    ultimately show ?thesis using switch_wf_step [OF assms(1), of "{frame}" w'] t(2,3) assms(3)
      by (intro exI [of _ w'] exI [of _ s]) (simp add: safe_step_def)
  qed
qed


lemma can_send_switch_put [simp]: "can_send (switch_put a s w) sim iface dst pkt = can_send w sim iface dst pkt"
  by (simp add: can_send_def link_get_other_interface_def)

text \<open>C26. Forwarding by a learned address. A frame whose destination has been learned on another port that is up goes out
  on that port only: exactly one reception is scheduled, at the far end of its link, of the payload behind a header with the
  destination address and the type of the frame. The source address of that header is the one of the outgoing port
  and not the one of the frame.\<close>

theorem switch_forwards_learned:
  assumes "switch_wf sim w sw" "switch_at sw w = Some s" "iface_at in_port w = Some i" "if_up i \<noteq> 0"
    and "pkt_at frame w = Some f" "pkt_wf f" "14 \<le> pkt_data f" "simulator_now sim w = Some now"
    and "src = take 6 (drop (pkt_data f - 8) (pkt_head f))" "dst = take 6 (drop (pkt_data f - 14) (pkt_head f))"
    and "mac_map (sw_mac_tbl s) src \<noteq> None" "mac_map (sw_mac_tbl s) dst = Some (egress, ts)" "dst \<noteq> src" "dst \<noteq> ETH_BROADCAST"
    and "egress \<noteq> in_port" "iface_at egress w = Some out" "if_up out \<noteq> 0"
    and "can_send w sim egress nbr frame" "sim_at sim w = Some m" "link_at (if_link out) w = Some l" "sched_at (sim_sched m) w = Some sch"
  shows "\<exists>w' c q sch'. switch_receive sw in_port frame ty w = Some w' \<and> pkt_at c w' = Some q \<and>
    visible q = EthernetHeader dst (if_mac out) ty @ visible f \<and> sched_at (sim_sched m) w' = Some sch' \<and>
    eq_list (sch_eq sch') = insert_by evt_key (rx_event (sch_now sch + ucast (lk_delay_ms l)) egress nbr c
      Cb_ethernet_receive_event (VSim sim)) (eq_list (sch_eq sch))"
proof -
  let ?hdr = "take 14 (drop (pkt_data f - 14) (pkt_head f))"
  have s: "sw_sim s = sim" "mac_table_wf (sw_mac_tbl s)" using assms(1,2) by (auto simp: switch_wf_def)
  note nn = switch_at_nonnull [OF assms(2)] iface_at_nonnull [OF assms(3)]
  have "6 + (pkt_data f - 14) = pkt_data f - 8" using assms(7) by simp
  then have src: "take 6 (drop 6 ?hdr) = src" unfolding assms(9) by (simp add: drop_take)
  have dst: "take 6 ?hdr = dst" using assms(10) by simp
  have l: "length src = 6" "length dst = 6" using assms(6,7,9,10) by (auto simp: pkt_wf_def)
  obtain e t where t: "mac_table_learn (Some (sw_mac_tbl s)) (Some src) in_port now = (Some e, Some t)"
    "mac_map t = (mac_map (sw_mac_tbl s))(src \<mapsto> (in_port, now))"
    by (rule mac_learn_cases [OF s(2) l(1) nn(2), of now]) (use assms(11) in auto)
  note step = switch_receive_step(2) [OF assms(2-7) _ refl, of now, unfolded s(1) src dst, OF assms(8) t(1)]
  let ?w = "switch_put sw (s\<lparr>sw_mac_tbl := t\<rparr>) w"
  have lk: "mac_table_lookup (Some t) (Some dst) = egress" using mac_lookup_map [OF l(2), of t] t(2) assms(12,13) by simp
  have up: "interface_is_up egress ?w = Some 1" "egress \<noteq> NULL"
    using assms(16,17) by (auto simp: interface_is_up_def dest: iface_at_nonnull)
  have nb: "\<not> mac_equal dst ETH_BROADCAST" using assms(14) l(2) by (simp add: mac_equal_def ETH_BROADCAST_def)
  have "switch_receive sw in_port frame ty w = do { (_, w) \<leftarrow> ethernet_send sim egress (Some dst) ty frame ?w; Some w }"
    unfolding step using lk up nb assms(15) s(1) by (simp add: switch_deliver_def Let_def)
  moreover have at: "can_send ?w sim egress nbr frame" "sim_at sim ?w = Some m" "iface_at egress ?w = Some out"
    "link_at (if_link out) ?w = Some l" "pkt_at frame ?w = Some f" "sched_at (sim_sched m) ?w = Some sch"
    using assms(5,16,18-21) by simp_all
  ultimately show ?thesis using ethernet_send_outcome [OF at(1) l(2) at(2-6), of ty] by fastforce
qed

section \<open>Instances\<close>

definition demo_sw_frame :: Packet where
  "demo_sw_frame = \<lparr>pkt_head = replicate 50 0 @ EthernetHeader [2, 0, 0, 0, 0, 2] [2, 0, 0, 0, 0, 9] 0x0800 @ [1, 2],
     pkt_data = 64, pkt_len = 2, pkt_capacity = 2, pkt_id = 4, pkt_trace_id = 4, pkt_parent_id = 0, pkt_layer = 3\<rparr>"

definition demo_switch_world :: "MacTable \<Rightarrow> switch_world" where
  "demo_switch_world t = \<lparr>w_mem = \<lparr>mem_next = 60, mem_oom = [], mem_junk = (\<lambda>_. 0)\<rparr>, w_next_id = 8,
     w_pkts = [4 \<mapsto> demo_sw_frame], w_scheds = [5 \<mapsto> demo_sched],
     w_ifaces = [2 \<mapsto> demo_eth0, 3 \<mapsto> demo_eth1, 11 \<mapsto> demo_eth1\<lparr>if_link := NULL\<rparr>],
     w_devs = [50 \<mapsto> \<lparr>dev_name = ''SW1'', dev_interfaces = [2, 11], dev_iface_max = 48\<rparr>],
     w_links = [6 \<mapsto> demo_cable], w_topos = Map.empty, w_sims = [7 \<mapsto> \<lparr>sim_topo = 8, sim_sched = 5, sim_end_time = 0\<rparr>],
     w_caches = Map.empty, w_stacks = Map.empty, w_udps = Map.empty, w_udp_ctxs = Map.empty, w_routers = Map.empty,
     w_switches = [50 \<mapsto> \<lparr>sw_mac_tbl = t, sw_port_count = 2, sw_sim = 7\<rparr>]\<rparr>"

lemma demo_switch_parts:
  "switch_at 50 (demo_switch_world t) = Some \<lparr>sw_mac_tbl = t, sw_port_count = 2, sw_sim = 7\<rparr>"
  "dev_at 50 (demo_switch_world t) = Some \<lparr>dev_name = ''SW1'', dev_interfaces = [2, 11], dev_iface_max = 48\<rparr>"
  "iface_at 2 (demo_switch_world t) = Some demo_eth0" "iface_at 3 (demo_switch_world t) = Some demo_eth1"
  "iface_at 11 (demo_switch_world t) = Some (demo_eth1\<lparr>if_link := NULL\<rparr>)"
  "pkt_at 4 (demo_switch_world t) = Some demo_sw_frame" "link_at 6 (demo_switch_world t) = Some demo_cable"
  "sim_at 7 (demo_switch_world t) = Some \<lparr>sim_topo = 8, sim_sched = 5, sim_end_time = 0\<rparr>"
  "sched_at 5 (demo_switch_world t) = Some demo_sched" "w_mem (demo_switch_world t) = \<lparr>mem_next = 60, mem_oom = [], mem_junk = (\<lambda>_. 0)\<rparr>"
  "simulator_now 7 (demo_switch_world t) = Some 4"
  by (simp_all add: demo_switch_world_def switch_at_def dev_at_def iface_at_def pkt_at_def link_at_def sim_at_def sched_at_def simulator_now_def)
    (simp add: demo_sched_def)

lemma demo_sw_frame_facts:
  "pkt_wf demo_sw_frame" "pkt_data demo_sw_frame = 64" "pkt_len demo_sw_frame = 2" "visible demo_sw_frame = [1, 2]"
  "take 6 (drop 50 (pkt_head demo_sw_frame)) = [2, 0, 0, 0, 0, 2]" "take 6 (drop 56 (pkt_head demo_sw_frame)) = [2, 0, 0, 0, 0, 9]"
  by (simp_all add: demo_sw_frame_def pkt_wf_def PKT_HEADROOM_def SIZE_MAX_def visible_def EthernetHeader_def)

lemma demo_switch_net_wf: "net_wf 7 (demo_switch_world t)"
proof -
  have "pkt_wf p \<and> a \<le> 60" if "pkt_at a (demo_switch_world t) = Some p" for a p
    using that demo_sw_frame_facts(1) by (auto simp: pkt_at_def demo_switch_world_def split: if_splits)
  then have "heap_wf (demo_switch_world t)" by (simp add: heap_wf_def demo_switch_parts)
  moreover have "sim_ready 7 (demo_switch_world t)" using demo_sched_wf by (simp add: sim_ready_def demo_switch_parts)
  moreover have "attached (demo_switch_world t) demo_eth0" "attached (demo_switch_world t) demo_eth1"
    "attached (demo_switch_world t) (demo_eth1\<lparr>if_link := NULL\<rparr>)"
    by (simp_all add: attached_def demo_switch_parts demo_eth_ifaces)
  moreover have "i \<in> {demo_eth0, demo_eth1, demo_eth1\<lparr>if_link := NULL\<rparr>}" if "iface_at a (demo_switch_world t) = Some i" for a i
    using that by (auto simp: iface_at_def demo_switch_world_def split: if_splits)
  ultimately show ?thesis unfolding net_wf_def by blast
qed

lemma demo_switch_wf:
  assumes "mac_table_wf t" "\<And>m p ts. mac_map t m = Some (p, ts) \<Longrightarrow> p \<in> {2, 11}"
  shows "switch_wf 7 (demo_switch_world t) 50"
  using assms by (fastforce simp: switch_wf_def demo_switch_parts SW_MAX_PORTS_def)

lemma switch_receive_learns_witness:
  "\<exists>w s. switch_receive 50 11 4 0x0800 (demo_switch_world demo_empty_mac_table) = Some w \<and> switch_at 50 w = Some s \<and>
     mac_map (sw_mac_tbl s) = [[2, 0, 0, 0, 0, 9] \<mapsto> (11, 4)]"
proof -
  have "switch_wf 7 (demo_switch_world demo_empty_mac_table) 50"
    by (rule demo_switch_wf) (simp_all add: demo_empty_mac_wf)
  moreover have "mt_count demo_empty_mac_table = 0" by (simp add: demo_empty_mac_table_def)
  ultimately show ?thesis
    using switch_receive_learns [OF _ demo_switch_net_wf demo_switch_parts(1,5) _ demo_switch_parts(6) _ demo_switch_parts(11) refl,
        of demo_empty_mac_table "0x0800"]
    by (auto simp: demo_sw_frame_facts demo_eth_ifaces demo_empty_mac_wf MAC_TABLE_SIZE_def)
qed

lemma mac_learn_count: "mac_table_learn (Some t) (Some m) p now = (e, Some t') \<Longrightarrow> mt_count t' \<le> mt_count t + 1"
  by (auto simp: mac_table_learn_def split: if_splits option.splits)

lemma demo_empty_count: "mt_count demo_empty_mac_table = 0"
  by (simp add: demo_empty_mac_table_def)

lemma demo_learned:
  obtains t where "mac_table_wf t" "mac_map t = [[2, 0, 0, 0, 0, 2] \<mapsto> (2, 1), [2, 0, 0, 0, 0, 9] \<mapsto> (11, 1)]"
proof -
  obtain t e where t: "mac_table_wf t" "mac_map t = [[2, 0, 0, 0, 0, 2] \<mapsto> (2, 1)]"
    "mac_table_learn (Some demo_empty_mac_table) (Some [2, 0, 0, 0, 0, 2]) 2 1 = (Some e, Some t)"
    by (rule mac_learn_cases [OF demo_empty_mac_wf(1), of "[2, 0, 0, 0, 0, 2]" 2 1])
      (auto simp: demo_empty_mac_wf(2) demo_empty_count MAC_TABLE_SIZE_def)
  have n: "mt_count t \<le> 1" using mac_learn_count [OF t(3)] by (simp add: demo_empty_count)
  show thesis
    by (rule mac_learn_cases [OF t(1), of "[2, 0, 0, 0, 0, 9]" 11 1]) (use t(2) n that in \<open>auto simp: MAC_TABLE_SIZE_def\<close>)
qed

lemma switch_forwards_learned_witness:
  "\<exists>t w' c q. switch_receive 50 11 4 0x0800 (demo_switch_world t) = Some w' \<and> pkt_at c w' = Some q \<and>
     visible q = EthernetHeader [2, 0, 0, 0, 0, 2] (if_mac demo_eth0) 0x0800 @ [1, 2]"
proof -
  obtain t where t: "mac_table_wf t" "mac_map t = [[2, 0, 0, 0, 0, 2] \<mapsto> (2, 1), [2, 0, 0, 0, 0, 9] \<mapsto> (11, 1)]" by (rule demo_learned)
  have wf: "switch_wf 7 (demo_switch_world t) 50" by (rule demo_switch_wf [OF t(1)]) (auto simp: t(2) split: if_splits)
  have "16 * eq_capacity (sch_eq demo_sched) \<le> PTRDIFF_MAX" by (simp add: demo_sched_def PTRDIFF_MAX_def)
  moreover have "link_get_other_interface 6 2 (demo_switch_world t) = Some 3"
    by (simp add: link_get_other_interface_def demo_switch_parts demo_eth_ifaces)
  ultimately have cs: "can_send (demo_switch_world t) 7 2 3 4" unfolding can_send_def using demo_sched_wf demo_sw_frame_facts
    by (simp add: demo_switch_parts demo_eth_ifaces PKT_HEADROOM_def PTRDIFF_MAX_def)
  have up: "if_up demo_eth0 = 1" by (simp add: demo_eth0_def demo_iface_def)
  show ?thesis
    using switch_forwards_learned [OF wf demo_switch_parts(1,5) _ demo_switch_parts(6) demo_sw_frame_facts(1) _ demo_switch_parts(11) refl refl,
        of 2 1 demo_eth0 3 _ demo_cable demo_sched "0x0800"] cs up
    by (intro exI [of _ t]) (auto simp: demo_sw_frame_facts demo_switch_parts demo_eth_ifaces t(2) ETH_BROADCAST_def)
qed


end
