(* ===== verification/Static_Route.thy ===== *)
theory Static_Route
  imports Router
begin

text \<open>
  Configured routes (\<open>routing/static_route.h\<close>, \<open>routing/static_route.c\<close>): a table of 128 configured routes and their
  installation in the routing table of a router.
\<close>

section \<open>State\<close>

definition STATIC_ROUTE_MAX_ROUTES :: nat where "STATIC_ROUTE_MAX_ROUTES = 128"

record StaticRouteEntry =
  sr_prefix :: u32
  sr_prefix_len :: u8
  sr_valid :: u8
  sr_installed :: u8
  sr_next_hop :: u32
  sr_iface :: addr
  sr_metric :: u32

record StaticRouteTable =
  srt_routes :: "StaticRouteEntry list"
  srt_count :: int

definition zero_static :: StaticRouteEntry where
  "zero_static = \<lparr>sr_prefix = 0, sr_prefix_len = 0, sr_valid = 0, sr_installed = 0, sr_next_hop = 0, sr_iface = NULL, sr_metric = 0\<rparr>"

section \<open>Operations\<close>

definition static_route_init :: "StaticRouteTable option \<Rightarrow> StaticRouteTable option" where
  "static_route_init table = map_option (\<lambda>_. \<lparr>srt_routes = replicate STATIC_ROUTE_MAX_ROUTES zero_static, srt_count = 0\<rparr>) table"

definition sr_matches :: "u32 \<Rightarrow> u8 \<Rightarrow> StaticRouteEntry \<Rightarrow> bool" where
  "sr_matches prefix prefix_len e \<longleftrightarrow> sr_valid e \<noteq> 0 \<and> sr_prefix e = prefix \<and> sr_prefix_len e = prefix_len"

definition static_route_add :: "StaticRouteTable option \<Rightarrow> addr \<Rightarrow> u32 \<Rightarrow> u8 \<Rightarrow> u32 \<Rightarrow> addr \<Rightarrow> u32 \<Rightarrow>
    'a router_world_scheme \<Rightarrow> (int \<times> StaticRouteTable option \<times> 'a router_world_scheme) option" where
  "static_route_add table router prefix prefix_len next_hop iface metric w = (case table of None \<Rightarrow> Some (- 1, None, w) | Some t \<Rightarrow>
     if router = NULL \<or> iface = NULL \<or> 32 < prefix_len then Some (- 1, table, w)
     else let normalized = prefix AND ipv4_prefix_mask prefix_len in
       (case first_idx (sr_matches normalized prefix_len) (srt_routes t) of
          Some i \<Rightarrow> do {
            (res, w) \<leftarrow> router_add_route router normalized prefix_len next_hop iface metric ROUTE_PROTO_STATIC w;
            if res \<noteq> 0 then Some (- 1, table, w)
            else Some (0, Some (t\<lparr>srt_routes := (srt_routes t)[i := (srt_routes t ! i)\<lparr>
                sr_next_hop := next_hop, sr_iface := iface, sr_metric := metric, sr_installed := 1\<rparr>]\<rparr>), w)
          }
        | None \<Rightarrow> (case first_idx (\<lambda>e. sr_valid e = 0) (srt_routes t) of
            Some i \<Rightarrow> do {
              (res, w) \<leftarrow> router_add_route router normalized prefix_len next_hop iface metric ROUTE_PROTO_STATIC w;
              if res \<noteq> 0 then Some (- 1, table, w)
              else Some (0, Some (t\<lparr>srt_routes := (srt_routes t)[i := (srt_routes t ! i)\<lparr>
                  sr_prefix := normalized, sr_prefix_len := prefix_len, sr_valid := 1, sr_installed := 1,
                  sr_next_hop := next_hop, sr_iface := iface, sr_metric := metric\<rparr>], srt_count := srt_count t + 1\<rparr>), w)
            }
          | None \<Rightarrow> Some (- 1, table, w))))"

definition static_route_delete :: "StaticRouteTable option \<Rightarrow> addr \<Rightarrow> u32 \<Rightarrow> u8 \<Rightarrow> 'a router_world_scheme \<Rightarrow>
    (int \<times> StaticRouteTable option \<times> 'a router_world_scheme) option" where
  "static_route_delete table router prefix prefix_len w = (case table of None \<Rightarrow> Some (- 1, None, w) | Some t \<Rightarrow>
     if router = NULL \<or> 32 < prefix_len then Some (- 1, table, w)
     else let normalized = prefix AND ipv4_prefix_mask prefix_len in
       (case first_idx (sr_matches normalized prefix_len) (srt_routes t) of
          None \<Rightarrow> Some (- 1, table, w)
        | Some i \<Rightarrow> do {
            (route_res, w) \<leftarrow> (if sr_installed (srt_routes t ! i) \<noteq> 0
              then router_del_route router normalized prefix_len ROUTE_PROTO_STATIC w else Some (0, w));
            Some (if route_res = 0 then 0 else - 1,
              Some (t\<lparr>srt_routes := (srt_routes t)[i := zero_static],
                srt_count := (if 0 < srt_count t then srt_count t - 1 else srt_count t)\<rparr>), w)
          }))"

text \<open>The loop of \<open>static_route_apply\<close>; the flag says that it stopped at a route that was refused.\<close>

fun apply_loop :: "addr \<Rightarrow> StaticRouteEntry list \<Rightarrow> int \<Rightarrow> 'a router_world_scheme \<Rightarrow>
    (int \<times> StaticRouteEntry list \<times> 'a router_world_scheme) option" where
  "apply_loop router [] applied w = Some (applied, [], w)"
| "apply_loop router (e # es) applied w =
     (if sr_valid e = 0 then do { (n, es, w) \<leftarrow> apply_loop router es applied w; Some (n, e # es, w) }
      else do {
        (res, w) \<leftarrow> router_add_route router (sr_prefix e) (sr_prefix_len e) (sr_next_hop e) (sr_iface e) (sr_metric e)
          ROUTE_PROTO_STATIC w;
        if res \<noteq> 0 then Some (- 1, e\<lparr>sr_installed := 0\<rparr> # es, w)
        else do { (n, es, w) \<leftarrow> apply_loop router es (applied + 1) w; Some (n, e\<lparr>sr_installed := 1\<rparr> # es, w) }
      })"

definition static_route_apply :: "StaticRouteTable option \<Rightarrow> addr \<Rightarrow> 'a router_world_scheme \<Rightarrow>
    (int \<times> StaticRouteTable option \<times> 'a router_world_scheme) option" where
  "static_route_apply table router w = (case table of None \<Rightarrow> Some (- 1, None, w) | Some t \<Rightarrow>
     if router = NULL then Some (- 1, table, w)
     else do { (n, es, w) \<leftarrow> apply_loop router (srt_routes t) 0 w; Some (n, Some (t\<lparr>srt_routes := es\<rparr>), w) })"

fun flush_static :: "addr \<Rightarrow> StaticRouteEntry list \<Rightarrow> int \<Rightarrow> 'a router_world_scheme \<Rightarrow>
    (int \<times> StaticRouteEntry list \<times> 'a router_world_scheme) option" where
  "flush_static router [] removed w = Some (removed, [], w)"
| "flush_static router (e # es) removed w =
     (if sr_valid e = 0 then do { (n, es, w) \<leftarrow> flush_static router es removed w; Some (n, e # es, w) }
      else do {
        w \<leftarrow> (if sr_installed e \<noteq> 0
          then do { (_, w) \<leftarrow> router_del_route router (sr_prefix e) (sr_prefix_len e) ROUTE_PROTO_STATIC w; Some w }
          else Some w);
        (n, es, w) \<leftarrow> flush_static router es (removed + 1) w;
        Some (n, zero_static # es, w)
      })"

definition static_route_flush :: "StaticRouteTable option \<Rightarrow> addr \<Rightarrow> 'a router_world_scheme \<Rightarrow>
    (int \<times> StaticRouteTable option \<times> 'a router_world_scheme) option" where
  "static_route_flush table router w = (case table of None \<Rightarrow> Some (- 1, None, w) | Some t \<Rightarrow>
     if router = NULL then Some (- 1, table, w)
     else do {
       (n, es, w) \<leftarrow> flush_static router (srt_routes t) 0 w;
       Some (n, Some (t\<lparr>srt_routes := es, srt_count := 0\<rparr>), w)
     })"

section \<open>The table and the routes of the router\<close>

lemma router_add_route_outcome:
  assumes "router_at router w = Some r" "route_table_wf (ro_route_tbl r)" "iface \<noteq> NULL" "len \<le> 32" "proto \<noteq> 0"
  obtains (stored) t' where "router_add_route router prefix len nh iface metric proto w = Some (0, router_put router (r\<lparr>ro_route_tbl := t'\<rparr>) w)"
      "route_table_wf t'" "rib_map t' = (rib_map (ro_route_tbl r))((prefix AND ipv4_prefix_mask len, len, proto) \<mapsto> (nh, iface, metric))"
    | (full) "router_add_route router prefix len nh iface metric proto w = Some (- 1, w)"
      "rib_map (ro_route_tbl r) (prefix AND ipv4_prefix_mask len, len, proto) = None"
proof (rule route_add_cases [OF assms(2-5), of prefix nh metric])
  note nn = router_at_nonnull [OF assms(1)]
  show thesis if "route_table_add (Some (ro_route_tbl r)) prefix len nh iface metric proto = (0, Some t')" "route_table_wf t'"
    "rib_map t' = (rib_map (ro_route_tbl r))((prefix AND ipv4_prefix_mask len, len, proto) \<mapsto> (nh, iface, metric))" for t'
    using stored that assms(1) nn by (simp add: router_add_route_def on_route_tbl_def)
  show thesis if "route_table_add (Some (ro_route_tbl r)) prefix len nh iface metric proto = (- 1, Some (ro_route_tbl r))"
    "rib_map (ro_route_tbl r) (prefix AND ipv4_prefix_mask len, len, proto) = None"
  proof (rule full [OF _ that(2)])
    have "router_put router r w = w" using assms(1) nn by (simp add: router_at_def router_put_def fun_upd_idem)
    then show "router_add_route router prefix len nh iface metric proto w = Some (- 1, w)"
      using that(1) assms(1) nn by (simp add: router_add_route_def on_route_tbl_def)
  qed
qed

lemma router_del_route_outcome:
  assumes "router_at router w = Some r" "route_table_wf (ro_route_tbl r)" "len \<le> 32" "proto \<noteq> 0"
  obtains res t' where "router_del_route router prefix len proto w = Some (res, router_put router (r\<lparr>ro_route_tbl := t'\<rparr>) w)"
    "route_table_wf t'" "rib_map t' = (rib_map (ro_route_tbl r))((prefix AND ipv4_prefix_mask len, len, proto) := None)"
    "res = (if rib_map (ro_route_tbl r) (prefix AND ipv4_prefix_mask len, len, proto) \<noteq> None then 0 else - 1)"
proof -
  from route_delete_result [OF assms(2-4), of prefix] obtain res t' where
    d: "route_table_delete (Some (ro_route_tbl r)) prefix len proto = (res, Some t')" "route_table_wf t'"
      "rib_map t' = (rib_map (ro_route_tbl r))((prefix AND ipv4_prefix_mask len, len, proto) := None)"
      "res = 0 \<longleftrightarrow> rib_map (ro_route_tbl r) (prefix AND ipv4_prefix_mask len, len, proto) \<noteq> None" "res \<noteq> 0 \<longrightarrow> res = - 1" by blast
  have "router_del_route router prefix len proto w = Some (res, router_put router (r\<lparr>ro_route_tbl := t'\<rparr>) w)"
    using d(1) assms(1) router_at_nonnull [OF assms(1)] by (simp add: router_del_route_def on_route_tbl_def)
  then show thesis by (rule that [OF _ d(2,3)]) (use d(4,5) in auto)
qed

interpretation statics: slot_array "\<lambda>e. sr_valid e \<noteq> 0" "\<lambda>e. (sr_prefix e, sr_prefix_len e)" "\<lambda>_. zero_static"
  by unfold_locales (simp add: zero_static_def)

definition static_entry_ok :: "StaticRouteEntry \<Rightarrow> bool" where
  "static_entry_ok e \<longleftrightarrow> (sr_valid e \<noteq> 0 \<longrightarrow> sr_installed e = 1 \<and> sr_prefix_len e \<le> 32 \<and> sr_iface e \<noteq> NULL \<and>
     sr_prefix e AND ipv4_prefix_mask (sr_prefix_len e) = sr_prefix e)"

definition static_wf :: "StaticRouteTable \<Rightarrow> bool" where
  "static_wf t \<longleftrightarrow> length (srt_routes t) = STATIC_ROUTE_MAX_ROUTES \<and> statics.unique (srt_routes t) \<and>
     srt_count t = int (statics.live_count (srt_routes t)) \<and> (\<forall>e \<in> set (srt_routes t). static_entry_ok e)"

definition sr_route :: "StaticRouteEntry \<Rightarrow> u32 \<times> addr \<times> u32" where
  "sr_route e = (sr_next_hop e, sr_iface e, sr_metric e)"

definition static_map :: "StaticRouteTable \<Rightarrow> u32 \<times> u8 \<Rightarrow> (u32 \<times> addr \<times> u32) option" where
  "static_map t k = map_option sr_route (statics.lookup (srt_routes t) k)"

text \<open>The routing table of the router has exactly the configured static routes, and the routes \<open>m\<close> of other
  protocols.\<close>

definition in_sync :: "'a router_world_scheme \<Rightarrow> addr \<Rightarrow> StaticRouteTable \<Rightarrow> (u32 \<times> u8 \<times> u8 \<rightharpoonup> u32 \<times> addr \<times> u32) \<Rightarrow> bool" where
  "in_sync w router t m \<longleftrightarrow> static_wf t \<and> (\<exists>r. router_at router w = Some r \<and> route_table_wf (ro_route_tbl r) \<and>
     rib_map (ro_route_tbl r) = (\<lambda>(p, l, proto). if proto = ROUTE_PROTO_STATIC then static_map t (p, l) else m (p, l, proto)))"

lemma sr_find: "first_idx (sr_matches p l) es = statics.find_key (p, l) es"
  unfolding statics.find_key_def by (intro first_idx_cong) (auto simp: sr_matches_def)

lemma sr_free: "first_idx (\<lambda>e. sr_valid e = 0) es = statics.find_free es"
  by (simp add: statics.find_free_def)

lemma static_wf_update:
  assumes "static_wf t" "static_entry_ok e" "statics.unique ((srt_routes t)[i := e])"
    "n = int (statics.live_count ((srt_routes t)[i := e]))"
  shows "static_wf (t\<lparr>srt_routes := (srt_routes t)[i := e], srt_count := n\<rparr>)"
proof -
  have "set ((srt_routes t)[i := e]) \<subseteq> insert e (set (srt_routes t))" by (rule set_update_subset_insert)
  then show ?thesis using assms unfolding static_wf_def by auto
qed

lemma prefix_mask_idem: "(p AND ipv4_prefix_mask l) AND ipv4_prefix_mask l = p AND ipv4_prefix_mask l"
  by (simp add: and.assoc)

lemma ROUTE_PROTO_STATIC_nz [simp]: "ROUTE_PROTO_STATIC \<noteq> 0"
  by (simp add: ROUTE_PROTO_STATIC_def)

lemma static_add_outcome:
  fixes prefix :: u32 and len :: u8
  assumes "in_sync w router t m" "iface \<noteq> NULL" "len \<le> 32"
  defines "k \<equiv> (prefix AND ipv4_prefix_mask len, len)"
  shows "\<exists>res t' w'. static_route_add (Some t) router prefix len nh iface metric w = Some (res, Some t', w') \<and>
    in_sync w' router t' m \<and>
    (if res = 0 then static_map t' = (static_map t)(k \<mapsto> (nh, iface, metric)) else res = - 1 \<and> t' = t \<and> w' = w)"
proof -
  obtain r where r: "static_wf t" "router_at router w = Some r" "route_table_wf (ro_route_tbl r)" and
    rib: "rib_map (ro_route_tbl r) = (\<lambda>(p, l, proto). if proto = ROUTE_PROTO_STATIC then static_map t (p, l) else m (p, l, proto))"
    using assms(1) unfolding in_sync_def by blast
  note nn = router_at_nonnull [OF r(2)]
  have u: "statics.unique (srt_routes t)" "srt_count t = int (statics.live_count (srt_routes t))" using r(1) by (simp_all add: static_wf_def)
  have sync: "in_sync (router_put router (r\<lparr>ro_route_tbl := rt\<rparr>) w) router t' m"
    if "static_wf t'" "static_map t' = (static_map t)(k \<mapsto> (nh, iface, metric))" "route_table_wf rt"
      "rib_map rt = (rib_map (ro_route_tbl r))((fst k, snd k, ROUTE_PROTO_STATIC) \<mapsto> (nh, iface, metric))" for t' rt
    using that nn unfolding in_sync_def by (auto simp: rib fun_eq_iff)
  show ?thesis
  proof (rule router_add_route_outcome [OF r(2,3) assms(2,3) ROUTE_PROTO_STATIC_nz, of "fst k" nh metric])
    assume full: "router_add_route router (fst k) len nh iface metric ROUTE_PROTO_STATIC w = Some (- 1, w)"
    then show ?thesis using assms nn
      by (intro exI [of _ "- 1"] exI [of _ t] exI [of _ w]) (auto simp: static_route_add_def Let_def split: option.splits)
  next
    fix rt assume st: "router_add_route router (fst k) len nh iface metric ROUTE_PROTO_STATIC w =
        Some (0, router_put router (r\<lparr>ro_route_tbl := rt\<rparr>) w)" "route_table_wf rt"
      "rib_map rt = (rib_map (ro_route_tbl r))((fst k AND ipv4_prefix_mask len, len, ROUTE_PROTO_STATIC) \<mapsto> (nh, iface, metric))"
    have rb: "rib_map rt = (rib_map (ro_route_tbl r))((fst k, snd k, ROUTE_PROTO_STATIC) \<mapsto> (nh, iface, metric))"
      using st(3) by (simp add: k_def prefix_mask_idem)
    show ?thesis
    proof (cases "statics.find_key k (srt_routes t)")
      case (Some i)
      let ?e = "(srt_routes t ! i)\<lparr>sr_next_hop := nh, sr_iface := iface, sr_metric := metric, sr_installed := 1\<rparr>"
      note f = statics.find_key_Some [OF Some]
      have ok: "static_entry_ok ?e" using f r(1) assms(2) by (auto simp: static_entry_ok_def static_wf_def)
      have fk: "statics.find_key (sr_prefix ?e, sr_prefix_len ?e) (srt_routes t) = Some i" using Some f by simp
      let ?t = "t\<lparr>srt_routes := (srt_routes t)[i := ?e], srt_count := srt_count t\<rparr>"
      have "static_wf ?t" using statics.unique_overwrite [OF u(1) fk] statics.live_count_overwrite [OF fk] f u(2)
        by (intro static_wf_update [OF r(1) ok]) simp_all
      moreover have "static_map ?t = (static_map t)(k \<mapsto> (nh, iface, metric))"
        using statics.lookup_overwrite [OF u(1) fk] f by (auto simp: static_map_def sr_route_def)
      ultimately show ?thesis using sync [of ?t rt] st(1,2) rb assms(2,3) nn Some
        by (auto simp: static_route_add_def sr_find k_def Let_def)
    next
      case None
      show ?thesis
      proof (cases "statics.find_free (srt_routes t)")
        case free: None
        then show ?thesis using assms(1,2,3) nn None by (auto simp: static_route_add_def sr_find sr_free k_def Let_def)
      next
        case (Some i)
        let ?e = "(srt_routes t ! i)\<lparr>sr_prefix := fst k, sr_prefix_len := len, sr_valid := 1, sr_installed := 1,
            sr_next_hop := nh, sr_iface := iface, sr_metric := metric\<rparr>"
        note f = statics.find_free_Some [OF Some]
        have ok: "static_entry_ok ?e" using assms(2,3) by (simp add: static_entry_ok_def k_def prefix_mask_idem)
        have fk: "statics.find_key (sr_prefix ?e, sr_prefix_len ?e) (srt_routes t) = None" using None by (simp add: k_def)
        let ?t = "t\<lparr>srt_routes := (srt_routes t)[i := ?e], srt_count := srt_count t + 1\<rparr>"
        have "static_wf ?t" using statics.unique_fill [OF u(1) fk, of i] statics.live_count_fill [of i "srt_routes t" ?e] f u(2)
          by (intro static_wf_update [OF r(1) ok]) simp_all
        moreover have "static_map ?t = (static_map t)(k \<mapsto> (nh, iface, metric))"
          using statics.lookup_fill [OF u(1) fk, of i] f by (auto simp: static_map_def sr_route_def k_def)
        ultimately show ?thesis using sync [of ?t rt] st(1,2) rb assms(2,3) nn None Some
          by (auto simp: static_route_add_def sr_find sr_free k_def Let_def)
      qed
    qed
  qed
qed


lemma static_delete_outcome:
  fixes prefix :: u32 and len :: u8
  assumes "in_sync w router t m" "len \<le> 32"
  defines "k \<equiv> (prefix AND ipv4_prefix_mask len, len)"
  shows "\<exists>res t' w'. static_route_delete (Some t) router prefix len w = Some (res, Some t', w') \<and> in_sync w' router t' m \<and>
    (if static_map t k \<noteq> None then res = 0 \<and> static_map t' = (static_map t)(k := None) else res = - 1 \<and> t' = t \<and> w' = w)"
proof -
  obtain r where r: "static_wf t" "router_at router w = Some r" "route_table_wf (ro_route_tbl r)" and
    rib: "rib_map (ro_route_tbl r) = (\<lambda>(p, l, proto). if proto = ROUTE_PROTO_STATIC then static_map t (p, l) else m (p, l, proto))"
    using assms(1) unfolding in_sync_def by blast
  note nn = router_at_nonnull [OF r(2)]
  have u: "statics.unique (srt_routes t)" "srt_count t = int (statics.live_count (srt_routes t))" using r(1) by (simp_all add: static_wf_def)
  show ?thesis
  proof (cases "statics.find_key k (srt_routes t)")
    case None
    then show ?thesis using assms(1,2) nn
      by (intro exI [of _ "- 1"] exI [of _ t] exI [of _ w])
        (simp add: static_route_delete_def sr_find k_def Let_def static_map_def statics.lookup_def not_less)
  next
    case (Some i)
    note f = statics.find_key_Some [OF Some]
    have e: "static_entry_ok (srt_routes t ! i)" "sr_installed (srt_routes t ! i) \<noteq> 0"
      using f r(1) by (auto simp: static_wf_def static_entry_ok_def)
    obtain res rt where d: "router_del_route router (fst k) len ROUTE_PROTO_STATIC w = Some (res, router_put router (r\<lparr>ro_route_tbl := rt\<rparr>) w)"
      "route_table_wf rt" "rib_map rt = (rib_map (ro_route_tbl r))((fst k AND ipv4_prefix_mask len, len, ROUTE_PROTO_STATIC) := None)"
      "res = (if rib_map (ro_route_tbl r) (fst k AND ipv4_prefix_mask len, len, ROUTE_PROTO_STATIC) \<noteq> None then 0 else - 1)"
      by (rule router_del_route_outcome [OF r(2,3) assms(2) ROUTE_PROTO_STATIC_nz, of "fst k"])
    have sm: "static_map t k \<noteq> None" using Some by (simp add: static_map_def statics.lookup_def)
    then have res: "res = 0" using d(4) by (auto simp: rib k_def prefix_mask_idem)
    let ?t = "t\<lparr>srt_routes := (srt_routes t)[i := zero_static], srt_count := srt_count t - 1\<rparr>"
    have dead: "\<not> sr_valid zero_static \<noteq> 0" "static_entry_ok zero_static" by (simp_all add: zero_static_def static_entry_ok_def)
    have pos: "0 < srt_count t" using statics.live_count_dead [of i "srt_routes t" zero_static] f dead u(2) by simp
    have "static_wf ?t" using statics.unique_dead [OF u(1), of zero_static i] statics.live_count_dead [of i "srt_routes t" zero_static] f u(2) dead(1)
      by (intro static_wf_update [OF r(1) dead(2)]) simp_all
    moreover have sm': "static_map ?t = (static_map t)(k := None)"
      using statics.lookup_dead [OF u(1), of i zero_static] f dead(1) by (auto simp: static_map_def)
    moreover have "rib_map rt = (\<lambda>(p, l, proto). if proto = ROUTE_PROTO_STATIC then static_map ?t (p, l) else m (p, l, proto))"
      unfolding sm' d(3) rib by (auto simp: fun_eq_iff k_def prefix_mask_idem)
    ultimately have "in_sync (router_put router (r\<lparr>ro_route_tbl := rt\<rparr>) w) router ?t m" using d(2) nn by (simp add: in_sync_def)
    then show ?thesis using sm sm' d(1) res pos e(2) Some assms(2) nn
      by (auto simp: static_route_delete_def sr_find k_def Let_def not_less)
  qed
qed

text \<open>Flushing slot by slot: the entries not yet reached are still the static routes of the router.\<close>

lemma router_put_twice [simp]: "router_put a x (router_put a y w) = router_put a x w"
  by (simp add: router_put_def)

lemma flush_static_outcome:
  assumes "router_at router w = Some r" "route_table_wf (ro_route_tbl r)" "statics.unique es" "\<forall>e \<in> set es. static_entry_ok e"
    and "rib_map (ro_route_tbl r) = (\<lambda>(p, l, proto). if proto = ROUTE_PROTO_STATIC then map_option sr_route (statics.lookup es (p, l)) else m (p, l, proto))"
  shows "\<exists>rt es'. flush_static router es n w = Some (n + int (statics.live_count es), es', router_put router (r\<lparr>ro_route_tbl := rt\<rparr>) w) \<and>
    route_table_wf rt \<and> length es' = length es \<and> (\<forall>e \<in> set es'. sr_valid e = 0) \<and>
    rib_map rt = (\<lambda>(p, l, proto). if proto = ROUTE_PROTO_STATIC then None else m (p, l, proto))"
  using assms
proof (induction es arbitrary: n w r)
  case Nil
  have "router_put router r w = w" using Nil(1) router_at_nonnull [OF Nil(1)] by (simp add: router_at_def router_put_def fun_upd_idem)
  moreover have "statics.lookup [] k = None" for k by (simp add: statics.lookup_None_iff)
  ultimately show ?case using Nil by (intro exI [of _ "ro_route_tbl r"]) (simp add: statics.live_count_def fun_eq_iff)
next
  case (Cons e es)
  have u: "statics.unique es" using Cons.prems(3) by (simp add: statics.unique_Cons)
  note lk = statics.lookup_Cons [of e es]
  show ?case
  proof (cases "sr_valid e = 0")
    case True
    then have "statics.lookup (e # es) = statics.lookup es" using lk by auto
    then show ?thesis using Cons.IH [OF Cons.prems(1,2) u, of n] Cons.prems(4,5) True
      by (fastforce simp: statics.live_count_def)
  next
    case False
    have ok: "sr_installed e = 1" "sr_prefix_len e \<le> 32" "sr_prefix e AND ipv4_prefix_mask (sr_prefix_len e) = sr_prefix e"
      using Cons.prems(4) False by (auto simp: static_entry_ok_def)
    obtain res rt where d: "router_del_route router (sr_prefix e) (sr_prefix_len e) ROUTE_PROTO_STATIC w =
        Some (res, router_put router (r\<lparr>ro_route_tbl := rt\<rparr>) w)" "route_table_wf rt"
      "rib_map rt = (rib_map (ro_route_tbl r))((sr_prefix e, sr_prefix_len e, ROUTE_PROTO_STATIC) := None)"
      using router_del_route_outcome [OF Cons.prems(1,2) ok(2) ROUTE_PROTO_STATIC_nz, of "sr_prefix e"] ok(3) by metis
    let ?w = "router_put router (r\<lparr>ro_route_tbl := rt\<rparr>) w"
    have gone: "statics.lookup es (sr_prefix e, sr_prefix_len e) = None"
      using Cons.prems(3) False by (simp add: statics.unique_Cons)
    have "rib_map rt = (\<lambda>(p, l, proto). if proto = ROUTE_PROTO_STATIC then map_option sr_route (statics.lookup es (p, l)) else m (p, l, proto))"
      unfolding d(3) Cons.prems(5) using gone by (auto simp: fun_eq_iff lk)
    with Cons.IH [of ?w "r\<lparr>ro_route_tbl := rt\<rparr>" "n + 1"] u Cons.prems(4) d(2) router_at_nonnull [OF Cons.prems(1)] obtain rt' es' where
      "flush_static router es (n + 1) ?w = Some (n + 1 + int (statics.live_count es), es', router_put router (r\<lparr>ro_route_tbl := rt'\<rparr>) w)"
      "route_table_wf rt'" "length es' = length es" "\<forall>e \<in> set es'. sr_valid e = 0"
      "rib_map rt' = (\<lambda>(p, l, proto). if proto = ROUTE_PROTO_STATIC then None else m (p, l, proto))" by auto
    then show ?thesis using False ok(1) d(1) by (auto simp: statics.live_count_def zero_static_def)
  qed
qed

lemma static_flush_outcome:
  assumes "in_sync w router t m"
  shows "\<exists>t' w'. static_route_flush (Some t) router w = Some (srt_count t, Some t', w') \<and> in_sync w' router t' m \<and> static_map t' = Map.empty"
proof -
  obtain r where r: "static_wf t" "router_at router w = Some r" "route_table_wf (ro_route_tbl r)" and
    rib: "rib_map (ro_route_tbl r) = (\<lambda>(p, l, proto). if proto = ROUTE_PROTO_STATIC then static_map t (p, l) else m (p, l, proto))"
    using assms(1) unfolding in_sync_def by blast
  note nn = router_at_nonnull [OF r(2)]
  obtain rt es' where f: "flush_static router (srt_routes t) 0 w =
      Some (0 + int (statics.live_count (srt_routes t)), es', router_put router (r\<lparr>ro_route_tbl := rt\<rparr>) w)"
    "route_table_wf rt" "length es' = length (srt_routes t)" "\<forall>e \<in> set es'. sr_valid e = 0"
    "rib_map rt = (\<lambda>(p, l, proto). if proto = ROUTE_PROTO_STATIC then None else m (p, l, proto))"
    using flush_static_outcome [OF r(2,3), of "srt_routes t" m 0] r(1) rib [unfolded static_map_def] unfolding static_wf_def by blast
  let ?t = "t\<lparr>srt_routes := es', srt_count := 0\<rparr>"
  have dead: "\<forall>e \<in> set es'. \<not> sr_valid e \<noteq> 0" using f(4) by simp
  have sm: "static_map ?t k = None" for k using f(4) by (auto simp: static_map_def statics.lookup_None_iff)
  have "static_wf ?t" using statics.unique_all_dead [OF dead] statics.live_count_all_dead [OF dead] r(1) f(3,4)
    by (simp add: static_wf_def static_entry_ok_def)
  then have "in_sync (router_put router (r\<lparr>ro_route_tbl := rt\<rparr>) w) router ?t m" using f(2,5) nn sm by (simp add: in_sync_def fun_eq_iff)
  then show ?thesis using f(1) r(1) nn sm by (auto simp: static_route_flush_def static_wf_def)
qed

text \<open>C28. The configured routes and the routing table of a router stay in step. As long as only this table writes the
  static routes of the router, adding, deleting and flushing configured routes act on it as on a map from prefixes
  to routes, the routing table has exactly these routes as its static ones, the routes of other protocols are never
  touched, and a refused operation changes neither side.\<close>

theorem static_routes_in_sync:
  assumes "in_sync w router t m" "iface \<noteq> NULL" "len \<le> 32" "k = (prefix AND ipv4_prefix_mask len, len)"
  shows "(\<exists>res t' w'. static_route_add (Some t) router prefix len nh iface metric w = Some (res, Some t', w') \<and>
      in_sync w' router t' m \<and>
      (if res = 0 then static_map t' = (static_map t)(k \<mapsto> (nh, iface, metric)) else res = - 1 \<and> t' = t \<and> w' = w)) \<and>
    (\<exists>res t' w'. static_route_delete (Some t) router prefix len w = Some (res, Some t', w') \<and> in_sync w' router t' m \<and>
      (if static_map t k \<noteq> None then res = 0 \<and> static_map t' = (static_map t)(k := None) else res = - 1 \<and> t' = t \<and> w' = w)) \<and>
    (\<exists>t' w'. static_route_flush (Some t) router w = Some (srt_count t, Some t', w') \<and> in_sync w' router t' m \<and> static_map t' = Map.empty)"
  unfolding assms(4) using static_add_outcome [OF assms(1-3)] static_delete_outcome [OF assms(1,3)] static_flush_outcome [OF assms(1)]
  by blast

section \<open>Instances\<close>

definition demo_static :: StaticRouteTable where
  "demo_static = \<lparr>srt_routes = replicate STATIC_ROUTE_MAX_ROUTES zero_static, srt_count = 0\<rparr>"

lemma static_routes_in_sync_witness:
  "static_route_init (Some demo_static) = Some demo_static \<and>
    (\<exists>res t' w'. static_route_add (Some demo_static) 30 0x0A010203 16 0x0A000002 2 5 (demo_router_world empty_route_table demo_arp_cache) =
       Some (res, Some t', w') \<and>
     (if res = 0 then static_map t' = (static_map demo_static)((0x0A010000, 16) \<mapsto> (0x0A000002, 2, 5)) else res = - 1 \<and> t' = demo_static))"
proof -
  have dead: "\<forall>e \<in> set (srt_routes demo_static). \<not> sr_valid e \<noteq> 0" by (simp add: demo_static_def zero_static_def)
  have "static_wf demo_static" using statics.unique_all_dead [OF dead] statics.live_count_all_dead [OF dead]
    by (simp add: static_wf_def demo_static_def static_entry_ok_def zero_static_def)
  moreover have "static_map demo_static k = None" for k using dead by (auto simp: static_map_def statics.lookup_None_iff)
  ultimately have "in_sync (demo_router_world empty_route_table demo_arp_cache) 30 demo_static Map.empty"
    by (simp add: in_sync_def demo_router_parts empty_route_table_wf fun_eq_iff)
  from static_routes_in_sync [OF this, of 2 16 _ "0x0A010203" "0x0A000002" 5] obtain res t' w' where
    "static_route_add (Some demo_static) 30 0x0A010203 16 0x0A000002 2 5 (demo_router_world empty_route_table demo_arp_cache) = Some (res, Some t', w')"
    "if res = 0 then static_map t' = (static_map demo_static)((0x0A010000, 16) \<mapsto> (0x0A000002, 2, 5)) else res = - 1 \<and> t' = demo_static"
    by (fastforce simp: ipv4_prefix_mask_def split: if_splits)
  moreover have "static_route_init (Some demo_static) = Some demo_static" by (simp add: static_route_init_def demo_static_def)
  ultimately show ?thesis by blast
qed


end
