(* ===== verification/Rip.thy ===== *)
theory Rip
  imports Switch Static_Route
begin

text \<open>
  RIP version 2 (\<open>protocols/rip.h\<close>, \<open>protocols/rip.c\<close>): the route database, reception and sending of updates, and the
  three periodic handlers. States live in the heap \<open>w_rips\<close>; routes are installed in the router through
  \<open>router_add_route\<close> and \<open>router_del_route\<close>.
\<close>

section \<open>State\<close>

definition RIP_PORT :: u16 where "RIP_PORT = 520"
definition RIP_VERSION :: u8 where "RIP_VERSION = 2"
definition RIP_CMD_RESPONSE :: u8 where "RIP_CMD_RESPONSE = 2"
definition RIP_AFI_IPV4 :: u16 where "RIP_AFI_IPV4 = 2"
definition RIP_MULTICAST :: u32 where "RIP_MULTICAST = 0xE0000009"
definition RIP_INFINITY :: u32 where "RIP_INFINITY = 16"
definition RIP_UPDATE_INTERVAL_US :: u64 where "RIP_UPDATE_INTERVAL_US = 30000000"
definition RIP_TIMEOUT_US :: u64 where "RIP_TIMEOUT_US = 180000000"
definition RIP_GC_US :: u64 where "RIP_GC_US = 120000000"
definition RIP_MAX_IFACES :: nat where "RIP_MAX_IFACES = 16"
definition RIP_DB_SIZE :: nat where "RIP_DB_SIZE = 128"
definition RIP_MAX_ROUTES :: nat where "RIP_MAX_ROUTES = 25"
definition RIP_HDR_LEN :: nat where "RIP_HDR_LEN = 4"
definition RIP_ENTRY_LEN :: nat where "RIP_ENTRY_LEN = 20"
definition RIP_ROUTE_ACTIVE :: u8 where "RIP_ROUTE_ACTIVE = 1"
definition RIP_ROUTE_GC :: u8 where "RIP_ROUTE_GC = 2"

record RipRouteInfo =
  ri_prefix :: u32
  ri_prefix_len :: u8
  ri_state :: u8
  ri_valid :: u8
  ri_metric :: u32
  ri_next_hop :: u32
  ri_learned_on :: addr
  ri_last_update :: u64

record RipState =
  rs_db :: "RipRouteInfo list"
  rs_db_count :: int
  rs_ifaces :: "addr list"
  rs_iface_count :: int
  rs_sim :: addr
  rs_router :: addr
  rs_udp_state :: addr

record rip_world = switch_world +
  w_rips :: "addr \<rightharpoonup> RipState"

definition rip_at :: "addr \<Rightarrow> 'a rip_world_scheme \<Rightarrow> RipState option" where
  "rip_at a w = (if a = NULL then None else w_rips w a)"

definition rip_put :: "addr \<Rightarrow> RipState \<Rightarrow> 'a rip_world_scheme \<Rightarrow> 'a rip_world_scheme" where
  "rip_put a s w = w\<lparr>w_rips := (w_rips w)(a \<mapsto> s)\<rparr>"

definition as_rip :: "vptr \<Rightarrow> addr option" where
  "as_rip v = (case v of VNull \<Rightarrow> Some NULL | VRip a \<Rightarrow> Some a | _ \<Rightarrow> None)"

definition zero_route_info :: RipRouteInfo where
  "zero_route_info = \<lparr>ri_prefix = 0, ri_prefix_len = 0, ri_state = 0, ri_valid = 0, ri_metric = 0, ri_next_hop = 0,
     ri_learned_on = NULL, ri_last_update = 0\<rparr>"

text \<open>The packed messages.\<close>

definition RipHeader :: "u8 \<Rightarrow> u8 \<Rightarrow> u16 \<Rightarrow> bytes" where
  "RipHeader command version zero = [command, version] @ put16 zero"

definition RipEntry :: "u16 \<Rightarrow> u16 \<Rightarrow> u32 \<Rightarrow> u32 \<Rightarrow> u32 \<Rightarrow> u32 \<Rightarrow> bytes" where
  "RipEntry afi route_tag ip_addr subnet_mask next_hop metric =
     put16 afi @ put16 route_tag @ put32 ip_addr @ put32 subnet_mask @ put32 next_hop @ put32 metric"

section \<open>Set-up\<close>

definition rip_schedule_periodic :: "addr \<Rightarrow> EventType \<Rightarrow> u64 \<Rightarrow> EventCallback \<Rightarrow> addr \<Rightarrow> 'a rip_world_scheme \<Rightarrow>
    'a rip_world_scheme option" where
  "rip_schedule_periodic sim ty delay handler state w =
     (if sim = NULL then Some w
      else do {
        m \<leftarrow> sim_at sim w;
        if sim_sched m = NULL then Some w
        else do {
          sch \<leftarrow> sched_at (sim_sched m) w;
          case event_create_callback ty (sch_now sch + delay) VNull VNull NULL VNull handler (VRip state) w of
            (None, w) \<Rightarrow> Some w
          | (Some event, w) \<Rightarrow> do { (_, w) \<leftarrow> scheduler_schedule (sim_sched m) (Some event) w; Some w }
        }
      })"

definition rip_init :: "addr \<Rightarrow> addr \<Rightarrow> addr \<Rightarrow> addr \<Rightarrow> 'a rip_world_scheme \<Rightarrow> 'a rip_world_scheme option" where
  "rip_init state sim router udp_state w =
     (if state = NULL then Some w
      else do {
        let w = rip_put state \<lparr>rs_db = replicate RIP_DB_SIZE zero_route_info, rs_db_count = 0,
          rs_ifaces = replicate RIP_MAX_IFACES NULL, rs_iface_count = 0, rs_sim = sim, rs_router = router,
          rs_udp_state = udp_state\<rparr> w;
        (bound, w) \<leftarrow> (if udp_state \<noteq> NULL then do {
            u \<leftarrow> udp_at udp_state w;
            let (r, u) = udp_bind (Some u) RIP_PORT Udp_rip_receive (VRip state);
            u \<leftarrow> u;
            Some (r, udp_put udp_state u w)
          } else Some (0, w));
        if bound = - 1 then Some w
        else do {
          w \<leftarrow> rip_schedule_periodic sim EVT_RIP_UPDATE RIP_UPDATE_INTERVAL_US Cb_rip_update_handler state w;
          w \<leftarrow> rip_schedule_periodic sim EVT_RIP_TIMEOUT RIP_TIMEOUT_US Cb_rip_timeout_handler state w;
          rip_schedule_periodic sim EVT_RIP_GC RIP_GC_US Cb_rip_gc_handler state w
        }
      })"

definition rip_enable_iface :: "RipState option \<Rightarrow> addr \<Rightarrow> int \<times> RipState option" where
  "rip_enable_iface state iface = (case state of None \<Rightarrow> (- 1, None) | Some s \<Rightarrow>
     if iface = NULL then (- 1, state)
     else if iface \<in> set (rs_ifaces s) then (0, state)
     else if int RIP_MAX_IFACES \<le> rs_iface_count s then (- 1, state)
     else (case first_idx (\<lambda>a. a = NULL) (rs_ifaces s) of
         None \<Rightarrow> (- 1, state)
       | Some i \<Rightarrow> (0, Some (s\<lparr>rs_ifaces := (rs_ifaces s)[i := iface], rs_iface_count := rs_iface_count s + 1\<rparr>))))"

section \<open>Reception\<close>

definition ri_matches :: "u32 \<Rightarrow> u8 \<Rightarrow> RipRouteInfo \<Rightarrow> bool" where
  "ri_matches prefix prefix_len e \<longleftrightarrow> ri_valid e \<noteq> 0 \<and> ri_prefix e = prefix \<and> ri_prefix_len e = prefix_len"

text \<open>The metric of a route through the neighbour, with infinity at 16.\<close>

definition candidate_metric :: "u32 \<Rightarrow> u32" where
  "candidate_metric metric =
     (let metric = (if RIP_INFINITY < metric then RIP_INFINITY else metric)
      in if RIP_INFINITY < metric + 1 then RIP_INFINITY else metric + 1)"

text \<open>One entry of a response for a known prefix. The C slot pointer \<open>found_match\<close> is the slot index.\<close>

definition rip_learn :: "addr \<Rightarrow> addr \<Rightarrow> u64 \<Rightarrow> u32 \<Rightarrow> u8 \<Rightarrow> u32 \<Rightarrow> u32 \<Rightarrow> 'a rip_world_scheme \<Rightarrow> 'a rip_world_scheme option" where
  "rip_learn state iface last_update prefix prefix_len next_hop metric w = do {
     s \<leftarrow> rip_at state w;
     let found_match = first_idx (ri_matches prefix prefix_len) (rs_db s);
     if metric = RIP_INFINITY then (case found_match of
         None \<Rightarrow> Some w
       | Some j \<Rightarrow> do {
           let w = rip_put state (s\<lparr>rs_db := (rs_db s)[j := (rs_db s ! j)\<lparr>ri_prefix := prefix, ri_prefix_len := prefix_len,
             ri_state := RIP_ROUTE_GC, ri_last_update := last_update, ri_learned_on := iface, ri_metric := RIP_INFINITY, ri_valid := 1\<rparr>]\<rparr>) w;
           (_, w) \<leftarrow> router_del_route (rs_router s) prefix prefix_len ROUTE_PROTO_RIP w;
           Some w
         })
     else do {
       let (slot, db_count) = (case found_match of
           Some j \<Rightarrow> (Some j, rs_db_count s)
         | None \<Rightarrow> (case first_idx (\<lambda>e. ri_valid e = 0) (rs_db s) of
               Some k \<Rightarrow> (Some k, rs_db_count s + 1) | None \<Rightarrow> (None, rs_db_count s)));
       case slot of
         None \<Rightarrow> Some w
       | Some j \<Rightarrow> do {
           let w = rip_put state (s\<lparr>rs_db := (rs_db s)[j := (rs_db s ! j)\<lparr>ri_prefix := prefix, ri_prefix_len := prefix_len,
             ri_metric := metric, ri_next_hop := next_hop, ri_learned_on := iface, ri_last_update := last_update,
             ri_state := RIP_ROUTE_ACTIVE, ri_valid := 1\<rparr>], rs_db_count := db_count\<rparr>) w;
           (_, w) \<leftarrow> router_add_route (rs_router s) prefix prefix_len next_hop iface metric ROUTE_PROTO_RIP w;
           Some w
         }
     }
   }"

text \<open>The body of the loop over the entries of a response.\<close>

definition rip_receive_entry :: "addr \<Rightarrow> addr \<Rightarrow> u32 \<Rightarrow> u64 \<Rightarrow> bytes \<Rightarrow> 'a rip_world_scheme \<Rightarrow> 'a rip_world_scheme option" where
  "rip_receive_entry state iface src_ip last_update b w =
     (if ns_ntohs (get16 b 0) \<noteq> RIP_AFI_IPV4 then Some w
      else (case ip_mask_to_prefix_len (ns_ntohl (get32 b 8)) True of
          (_, None) \<Rightarrow> Some w
        | (_, Some prefix_len) \<Rightarrow>
            rip_learn state iface last_update (ns_ntohl (get32 b 4) AND ipv4_prefix_mask prefix_len) prefix_len
              (if ns_ntohl (get32 b 12) = 0 then src_ip else ns_ntohl (get32 b 12))
              (candidate_metric (ns_ntohl (get32 b 16))) w))"

fun rip_receive_entries :: "addr \<Rightarrow> addr \<Rightarrow> u32 \<Rightarrow> u64 \<Rightarrow> addr \<Rightarrow> nat list \<Rightarrow> 'a rip_world_scheme \<Rightarrow> 'a rip_world_scheme option" where
  "rip_receive_entries state iface src_ip last_update payload [] w = Some w"
| "rip_receive_entries state iface src_ip last_update payload (i # is) w = do {
     p \<leftarrow> pkt_at payload w;
     b \<leftarrow> pkt_read p (RIP_HDR_LEN + i * RIP_ENTRY_LEN) RIP_ENTRY_LEN;
     w \<leftarrow> rip_receive_entry state iface src_ip last_update b w;
     rip_receive_entries state iface src_ip last_update payload is w
   }"

definition rip_receive :: "addr \<Rightarrow> u32 \<Rightarrow> u16 \<Rightarrow> addr \<Rightarrow> vptr \<Rightarrow> 'a rip_world_scheme \<Rightarrow> 'a rip_world_scheme option" where
  "rip_receive iface src_ip src_port payload ctx w =
     (if payload = NULL then Some w
      else do {
        state \<leftarrow> as_rip ctx;
        if state = NULL \<or> iface = NULL then packet_free payload w
        else do {
          s \<leftarrow> rip_at state w;
          if rs_router s = NULL \<or> rs_sim s = NULL then packet_free payload w
          else do {
            m \<leftarrow> sim_at (rs_sim s) w;
            p \<leftarrow> pkt_at payload w;
            let num_entries = unat (of_nat ((pkt_len p - RIP_HDR_LEN) div RIP_ENTRY_LEN) :: u32);
            if sim_sched m = NULL \<or> packet_validate_view (Some p) 0 RIP_HDR_LEN \<noteq> 0 \<or>
               (pkt_len p - RIP_HDR_LEN) mod RIP_ENTRY_LEN \<noteq> 0 \<or> RIP_MAX_ROUTES < num_entries
            then packet_free payload w
            else do {
              h \<leftarrow> pkt_read p 0 RIP_HDR_LEN;
              if h ! 1 \<noteq> RIP_VERSION \<or> h ! 0 \<noteq> RIP_CMD_RESPONSE then packet_free payload w
              else do {
                sch \<leftarrow> sched_at (sim_sched m) w;
                w \<leftarrow> rip_receive_entries state iface src_ip (sch_now sch) payload [0..<num_entries] w;
                packet_free payload w
              }
            }
          }
        }
      })"

section \<open>Sending\<close>

definition rip_wire_entry :: "RipRouteInfo \<Rightarrow> bytes" where
  "rip_wire_entry e = RipEntry (ns_htons RIP_AFI_IPV4) (ns_htons 0) (ns_htonl (ri_prefix e))
     (ns_htonl (ipv4_prefix_mask (ri_prefix_len e))) (ns_htonl (ri_next_hop e))
     (ns_htonl (if RIP_INFINITY < ri_metric e then RIP_INFINITY else ri_metric e))"

text \<open>\<open>udp_send\<close> of the first \<open>entry_count\<close> entries of the payload buffer, behind the response header.\<close>

definition rip_flush_payload :: "addr \<Rightarrow> u32 \<Rightarrow> bytes \<Rightarrow> nat \<Rightarrow> 'a rip_world_scheme \<Rightarrow> (int \<times> 'a rip_world_scheme) option" where
  "rip_flush_payload sim src_ip entries entry_count w =
     udp_send sim src_ip RIP_MULTICAST RIP_PORT RIP_PORT
       (Some (RipHeader RIP_CMD_RESPONSE RIP_VERSION (ns_htons 0) @ entries)) (RIP_HDR_LEN + entry_count * RIP_ENTRY_LEN) w"

fun rip_send_entries :: "addr \<Rightarrow> u32 \<Rightarrow> addr \<Rightarrow> RipRouteInfo list \<Rightarrow> bytes \<Rightarrow> nat \<Rightarrow> 'a rip_world_scheme \<Rightarrow>
    (int \<times> 'a rip_world_scheme) option" where
  "rip_send_entries sim src_ip out_iface [] entries entry_count w =
     (if 0 < entry_count then do {
        (res, w) \<leftarrow> rip_flush_payload sim src_ip entries entry_count w;
        Some (if res = - 1 then - 1 else 0, w)
      } else Some (0, w))"
| "rip_send_entries sim src_ip out_iface (e # es) entries entry_count w =
     (if ri_valid e = 0 \<or> ri_learned_on e = out_iface then rip_send_entries sim src_ip out_iface es entries entry_count w
      else if entry_count + 1 = RIP_MAX_ROUTES then do {
        (res, w) \<leftarrow> rip_flush_payload sim src_ip (entries @ rip_wire_entry e) (entry_count + 1) w;
        if res = - 1 then Some (- 1, w) else rip_send_entries sim src_ip out_iface es [] 0 w
      }
      else rip_send_entries sim src_ip out_iface es (entries @ rip_wire_entry e) (entry_count + 1) w)"

definition rip_send_update :: "addr \<Rightarrow> addr \<Rightarrow> 'a rip_world_scheme \<Rightarrow> (int \<times> 'a rip_world_scheme) option" where
  "rip_send_update state out_iface w =
     (if state = NULL \<or> out_iface = NULL then Some (- 1, w)
      else do {
        s \<leftarrow> rip_at state w;
        if rs_sim s = NULL then Some (- 1, w)
        else do {
          i \<leftarrow> iface_at out_iface w;
          rip_send_entries (rs_sim s) (ns_ntohl (if_ip_addr i)) out_iface (rs_db s) [] 0 w
        }
      })"

section \<open>Periodic handlers\<close>

fun rip_update_ifaces :: "addr \<Rightarrow> addr list \<Rightarrow> 'a rip_world_scheme \<Rightarrow> 'a rip_world_scheme option" where
  "rip_update_ifaces state [] w = Some w"
| "rip_update_ifaces state (iface # ifaces) w =
     (if iface = NULL then rip_update_ifaces state ifaces w
      else do { (_, w) \<leftarrow> rip_send_update state iface w; rip_update_ifaces state ifaces w })"

text \<open>The guard that the three handlers share: they do nothing without a simulator and its scheduler.\<close>

definition rip_handler :: "vptr \<Rightarrow> (addr \<Rightarrow> RipState \<Rightarrow> u64 \<Rightarrow> 'a rip_world_scheme \<Rightarrow> 'a rip_world_scheme option) \<Rightarrow>
    'a rip_world_scheme \<Rightarrow> 'a rip_world_scheme option" where
  "rip_handler ctx body w = do {
     state \<leftarrow> as_rip ctx;
     if state = NULL then Some w
     else do {
       s \<leftarrow> rip_at state w;
       if rs_sim s = NULL then Some w
       else do {
         m \<leftarrow> sim_at (rs_sim s) w;
         if sim_sched m = NULL then Some w
         else do { sch \<leftarrow> sched_at (sim_sched m) w; body state s (sch_now sch) w }
       }
     }
   }"

definition rip_update_handler :: "Event \<Rightarrow> vptr \<Rightarrow> 'a rip_world_scheme \<Rightarrow> 'a rip_world_scheme option" where
  "rip_update_handler e ctx = rip_handler ctx (\<lambda>state s now w. do {
     w \<leftarrow> rip_update_ifaces state (rs_ifaces s) w;
     rip_schedule_periodic (rs_sim s) EVT_RIP_UPDATE RIP_UPDATE_INTERVAL_US Cb_rip_update_handler state w
   })"

definition rip_expired :: "u64 \<Rightarrow> RipRouteInfo \<Rightarrow> bool" where
  "rip_expired current_time e \<longleftrightarrow> ri_valid e \<noteq> 0 \<and> ri_state e = RIP_ROUTE_ACTIVE \<and>
     \<not> current_time - ri_last_update e \<le> RIP_TIMEOUT_US"

fun rip_timeout_slots :: "addr \<Rightarrow> u64 \<Rightarrow> nat list \<Rightarrow> 'a rip_world_scheme \<Rightarrow> 'a rip_world_scheme option" where
  "rip_timeout_slots state current_time [] w = Some w"
| "rip_timeout_slots state current_time (i # is) w = do {
     s \<leftarrow> rip_at state w;
     if length (rs_db s) \<le> i then None
     else if rip_expired current_time (rs_db s ! i) then do {
       let w = rip_put state (s\<lparr>rs_db := (rs_db s)[i := (rs_db s ! i)\<lparr>ri_metric := RIP_INFINITY, ri_state := RIP_ROUTE_GC\<rparr>]\<rparr>) w;
       w \<leftarrow> (if rs_router s \<noteq> NULL
         then do { (_, w) \<leftarrow> router_del_route (rs_router s) (ri_prefix (rs_db s ! i)) (ri_prefix_len (rs_db s ! i)) ROUTE_PROTO_RIP w; Some w }
         else Some w);
       rip_timeout_slots state current_time is w
     }
     else rip_timeout_slots state current_time is w
   }"

definition rip_timeout_handler :: "Event \<Rightarrow> vptr \<Rightarrow> 'a rip_world_scheme \<Rightarrow> 'a rip_world_scheme option" where
  "rip_timeout_handler e ctx = rip_handler ctx (\<lambda>state s now w. do {
     w \<leftarrow> rip_timeout_slots state now [0..<RIP_DB_SIZE] w;
     rip_schedule_periodic (rs_sim s) EVT_RIP_TIMEOUT RIP_TIMEOUT_US Cb_rip_timeout_handler state w
   })"

definition rip_garbage :: "u64 \<Rightarrow> RipRouteInfo \<Rightarrow> bool" where
  "rip_garbage current_time e \<longleftrightarrow> ri_valid e \<noteq> 0 \<and> ri_state e = RIP_ROUTE_GC \<and>
     \<not> current_time - ri_last_update e \<le> RIP_TIMEOUT_US + RIP_GC_US"

fun rip_gc_slots :: "u64 \<Rightarrow> RipRouteInfo list \<Rightarrow> int \<Rightarrow> RipRouteInfo list \<times> int" where
  "rip_gc_slots current_time [] db_count = ([], db_count)"
| "rip_gc_slots current_time (e # es) db_count =
     (if rip_garbage current_time e
      then (case rip_gc_slots current_time es (if 0 < db_count then db_count - 1 else db_count) of
          (es, n) \<Rightarrow> (e\<lparr>ri_valid := 0, ri_learned_on := NULL\<rparr> # es, n))
      else (case rip_gc_slots current_time es db_count of (es, n) \<Rightarrow> (e # es, n)))"

definition rip_gc_handler :: "Event \<Rightarrow> vptr \<Rightarrow> 'a rip_world_scheme \<Rightarrow> 'a rip_world_scheme option" where
  "rip_gc_handler e ctx = rip_handler ctx (\<lambda>state s now w.
     case rip_gc_slots now (rs_db s) (rs_db_count s) of (db, n) \<Rightarrow>
       rip_schedule_periodic (rs_sim s) EVT_RIP_GC RIP_GC_US Cb_rip_gc_handler state
         (rip_put state (s\<lparr>rs_db := db, rs_db_count := n\<rparr>) w))"

section \<open>The database\<close>

interpretation rips: slot_array "\<lambda>e. ri_valid e \<noteq> 0" "\<lambda>e. (ri_prefix e, ri_prefix_len e)" "\<lambda>e. e\<lparr>ri_valid := 0, ri_learned_on := NULL\<rparr>"
  by unfold_locales simp

definition rip_entry_ok :: "RipRouteInfo \<Rightarrow> bool" where
  "rip_entry_ok e \<longleftrightarrow> (ri_valid e \<noteq> 0 \<longrightarrow> ri_prefix_len e \<le> 32 \<and> ri_prefix e AND ipv4_prefix_mask (ri_prefix_len e) = ri_prefix e \<and>
     ri_learned_on e \<noteq> NULL \<and>
     (ri_state e = RIP_ROUTE_ACTIVE \<and> 1 \<le> ri_metric e \<and> ri_metric e < RIP_INFINITY \<or>
      ri_state e = RIP_ROUTE_GC \<and> ri_metric e = RIP_INFINITY))"

definition rip_wf :: "RipState \<Rightarrow> bool" where
  "rip_wf s \<longleftrightarrow> length (rs_db s) = RIP_DB_SIZE \<and> rips.unique (rs_db s) \<and> rs_db_count s = int (rips.live_count (rs_db s)) \<and>
     (\<forall>e \<in> set (rs_db s). rip_entry_ok e)"

definition rip_map :: "RipState \<Rightarrow> u32 \<times> u8 \<Rightarrow> RipRouteInfo option" where
  "rip_map s = rips.lookup (rs_db s)"

text \<open>Every RIP route of a routing table is an active route of the database, with the same next hop, interface and
  metric.\<close>

definition rip_backed :: "RouteTable \<Rightarrow> RipState \<Rightarrow> bool" where
  "rip_backed t s \<longleftrightarrow> (\<forall>p l v. rib_map t (p, l, ROUTE_PROTO_RIP) = Some v \<longrightarrow>
     (\<exists>e. rip_map s (p, l) = Some e \<and> ri_state e = RIP_ROUTE_ACTIVE \<and> v = (ri_next_hop e, ri_learned_on e, ri_metric e)))"

definition rip_ok :: "'a rip_world_scheme \<Rightarrow> addr \<Rightarrow> bool" where
  "rip_ok w state \<longleftrightarrow> (\<exists>s r. rip_at state w = Some s \<and> rip_wf s \<and> router_at (rs_router s) w = Some r \<and>
     route_table_wf (ro_route_tbl r) \<and> rip_backed (ro_route_tbl r) s)"

text \<open>Only RIP states and routers change.\<close>

definition rip_frame :: "'a rip_world_scheme \<Rightarrow> 'a rip_world_scheme \<Rightarrow> bool" where
  "rip_frame w w' \<longleftrightarrow> (\<exists>rs ps. w' = w\<lparr>w_routers := rs, w_rips := ps\<rparr>)"

lemma rip_frame_refl [simp]: "rip_frame w w"
  unfolding rip_frame_def by (intro exI [of _ "w_routers w"] exI [of _ "w_rips w"]) simp

lemma rip_frame_trans: "rip_frame u v \<Longrightarrow> rip_frame v w \<Longrightarrow> rip_frame u w"
  unfolding rip_frame_def by fastforce

lemma rip_frameI: "w' = w\<lparr>w_routers := rs, w_rips := ps\<rparr> \<Longrightarrow> rip_frame w w'"
  by (auto simp: rip_frame_def)

lemma rip_frame_put [simp]: "rip_frame w (rip_put a s w)"
  by (rule rip_frameI [where rs = "w_routers w"]) (simp add: rip_put_def)

lemma rip_frame_router_put [simp]: "rip_frame w (router_put a r w)"
  by (rule rip_frameI [where ps = "w_rips w"]) (simp add: router_put_def)

lemma rip_frame_puts [simp]: "rip_frame w (router_put b r (rip_put a s w))"
  by (rule rip_frame_trans [OF rip_frame_put rip_frame_router_put])

lemma rip_frame_at:
  assumes "rip_frame w w'"
  shows "pkt_at a w' = pkt_at a w" "sim_at a w' = sim_at a w" "sched_at a w' = sched_at a w" "iface_at a w' = iface_at a w"
  using assms by (auto simp: rip_frame_def pkt_at_def sim_at_def sched_at_def iface_at_def)

lemma rip_at_nonnull: "rip_at a w = Some s \<Longrightarrow> a \<noteq> NULL"
  by (simp add: rip_at_def split: if_splits)

lemma rip_put_frames [simp]:
  "router_at a (rip_put b s w) = router_at a w" "rip_at a (router_put b r w) = rip_at a w"
  "b \<noteq> NULL \<Longrightarrow> rip_at a (rip_put b s w) = (if a = b then Some s else rip_at a w)"
  by (simp_all add: router_at_def rip_at_def rip_put_def router_put_def)

lemma rip_find: "first_idx (ri_matches p l) es = rips.find_key (p, l) es"
  unfolding rips.find_key_def by (intro first_idx_cong) (auto simp: ri_matches_def)

lemma rip_free: "first_idx (\<lambda>e. ri_valid e = 0) es = rips.find_free es"
  by (simp add: rips.find_free_def)

lemma rip_wf_update:
  assumes "rip_wf s" "rip_entry_ok e" "rips.unique ((rs_db s)[i := e])" "n = int (rips.live_count ((rs_db s)[i := e]))"
  shows "rip_wf (s\<lparr>rs_db := (rs_db s)[i := e], rs_db_count := n\<rparr>)"
proof -
  have "set ((rs_db s)[i := e]) \<subseteq> insert e (set (rs_db s))" by (rule set_update_subset_insert)
  then show ?thesis using assms unfolding rip_wf_def by auto
qed

lemma candidate_metric_value: "unat (candidate_metric m) = min 16 (unat m + 1)"
proof (cases "16 < m")
  case False
  then have m: "unat m \<le> 16" by (simp add: word_less_nat_alt)
  then have "unat (m + 1) = unat m + 1" by (simp add: unat_word_ariths)
  then show ?thesis using False m by (auto simp: candidate_metric_def RIP_INFINITY_def Let_def word_less_nat_alt)
qed (simp add: candidate_metric_def RIP_INFINITY_def Let_def word_less_nat_alt)

lemma ROUTE_PROTO_RIP_nz [simp]: "ROUTE_PROTO_RIP \<noteq> 0"
  by (simp add: ROUTE_PROTO_RIP_def)

text \<open>Storing an entry in the slot of its prefix, or in a free one.\<close>

lemma rip_store:
  assumes "rip_wf s" "rip_entry_ok e" "ri_valid e \<noteq> 0"
    and "rips.find_key (ri_prefix e, ri_prefix_len e) (rs_db s) = Some j \<and> n = rs_db_count s \<or>
      rips.find_key (ri_prefix e, ri_prefix_len e) (rs_db s) = None \<and> rips.find_free (rs_db s) = Some j \<and> n = rs_db_count s + 1"
  defines "s' \<equiv> s\<lparr>rs_db := (rs_db s)[j := e], rs_db_count := n\<rparr>"
  shows "rip_wf s'" "rip_map s' = (rip_map s)((ri_prefix e, ri_prefix_len e) \<mapsto> e)"
proof -
  have u: "rips.unique (rs_db s)" "rs_db_count s = int (rips.live_count (rs_db s))" using assms(1) by (simp_all add: rip_wf_def)
  have "rip_wf s' \<and> rip_map s' = (rip_map s)((ri_prefix e, ri_prefix_len e) \<mapsto> e)"
  proof (cases "rips.find_key (ri_prefix e, ri_prefix_len e) (rs_db s)")
    case (Some i)
    then have i: "rips.find_key (ri_prefix e, ri_prefix_len e) (rs_db s) = Some j" "n = rs_db_count s" using assms(4) by auto
    have "rip_wf s'" unfolding s'_def
      using rips.unique_overwrite [OF u(1) i(1)] rips.live_count_overwrite [OF i(1) assms(3)] u(2) i(2)
      by (intro rip_wf_update [OF assms(1,2)]) simp_all
    then show ?thesis using rips.lookup_overwrite [OF u(1) i(1) assms(3)] by (simp add: s'_def rip_map_def)
  next
    case None
    then have j: "rips.find_free (rs_db s) = Some j" "n = rs_db_count s + 1" using assms(4) by auto
    note f = rips.find_free_Some [OF j(1)]
    have "rip_wf s'" unfolding s'_def
      using rips.unique_fill [OF u(1) None, of j] rips.live_count_fill [of j "rs_db s" e] f assms(3) u(2) j(2)
      by (intro rip_wf_update [OF assms(1,2)]) simp_all
    then show ?thesis using rips.lookup_fill [OF u(1) None, of j] f assms(3) by (simp add: s'_def rip_map_def)
  qed
  then show "rip_wf s'" "rip_map s' = (rip_map s)((ri_prefix e, ri_prefix_len e) \<mapsto> e)" by simp_all
qed

text \<open>What an entry of a response makes of the database.\<close>

definition learned :: "u32 \<Rightarrow> u8 \<Rightarrow> u32 \<Rightarrow> u32 \<Rightarrow> addr \<Rightarrow> u64 \<Rightarrow> RipState \<Rightarrow> u32 \<times> u8 \<Rightarrow> RipRouteInfo option" where
  "learned p l nh metric iface now s =
     (if metric = RIP_INFINITY then (case rip_map s (p, l) of None \<Rightarrow> rip_map s
        | Some e \<Rightarrow> (rip_map s)((p, l) \<mapsto> e\<lparr>ri_state := RIP_ROUTE_GC, ri_last_update := now, ri_learned_on := iface,
            ri_metric := RIP_INFINITY, ri_valid := 1\<rparr>))
      else if rip_map s (p, l) = None \<and> rs_db_count s = int RIP_DB_SIZE then rip_map s
      else (rip_map s)((p, l) \<mapsto> \<lparr>ri_prefix = p, ri_prefix_len = l, ri_state = RIP_ROUTE_ACTIVE, ri_valid = 1, ri_metric = metric,
          ri_next_hop = nh, ri_learned_on = iface, ri_last_update = now\<rparr>))"

lemma rip_full_iff: "rip_wf s \<Longrightarrow> rips.find_free (rs_db s) = None \<longleftrightarrow> rs_db_count s = int RIP_DB_SIZE"
  unfolding rips.find_free_def first_idx_None rip_wf_def rips.live_count_def
  using length_filter_full [of "\<lambda>e. ri_valid e \<noteq> 0" "rs_db s"] by auto

lemma rip_map_None: "rip_map s k = None \<longleftrightarrow> rips.find_key k (rs_db s) = None"
  by (simp add: rip_map_def rips.lookup_def)

lemma rip_put_same: "rip_at state w = Some s \<Longrightarrow> rip_put state s w = w"
  by (simp add: rip_at_def rip_put_def fun_upd_idem split: if_splits)

lemma rip_okI:
  assumes "rip_at state w = Some s" "rip_wf s" "router_at (rs_router s) w = Some r" "route_table_wf (ro_route_tbl r)" "rip_backed (ro_route_tbl r) s"
  shows "rip_ok w state"
  using assms unfolding rip_ok_def by blast

lemma rip_backed_del:
  assumes "rip_backed t s" "rib_map t' = (rib_map t)((p, l, ROUTE_PROTO_RIP) := None)" "\<And>k. k \<noteq> (p, l) \<Longrightarrow> rip_map s' k = rip_map s k"
  shows "rip_backed t' s'"
  using assms unfolding rip_backed_def by (auto split: if_splits)

lemma rip_learn_infinity:
  assumes "rip_ok w state" "rip_at state w = Some s" "iface \<noteq> NULL" "l \<le> 32" "p AND ipv4_prefix_mask l = p"
  shows "\<exists>w' s'. rip_learn state iface now p l nh RIP_INFINITY w = Some w' \<and> rip_ok w' state \<and> rip_frame w w' \<and>
    rip_at state w' = Some s' \<and> rs_router s' = rs_router s \<and> rs_sim s' = rs_sim s \<and> rip_map s' = learned p l nh RIP_INFINITY iface now s"
proof -
  from assms(1,2) obtain r where r: "rip_wf s" "router_at (rs_router s) w = Some r" "route_table_wf (ro_route_tbl r)" "rip_backed (ro_route_tbl r) s"
    unfolding rip_ok_def by auto
  note nn = rip_at_nonnull [OF assms(2)] router_at_nonnull [OF r(2)]
  show ?thesis
  proof (cases "rips.find_key (p, l) (rs_db s)")
    case None
    then have "rip_map s (p, l) = None" by (simp add: rip_map_None)
    then show ?thesis using None assms(1,2) by (intro exI [of _ w] exI [of _ s]) (simp add: rip_learn_def rip_find learned_def)
  next
    case (Some j)
    note f = rips.find_key_Some [OF Some]
    let ?e = "(rs_db s ! j)\<lparr>ri_prefix := p, ri_prefix_len := l, ri_state := RIP_ROUTE_GC, ri_last_update := now,
        ri_learned_on := iface, ri_metric := RIP_INFINITY, ri_valid := 1\<rparr>"
    let ?s = "s\<lparr>rs_db := (rs_db s)[j := ?e], rs_db_count := rs_db_count s\<rparr>"
    have ok: "rip_entry_ok ?e" using assms(3-5) by (simp add: rip_entry_ok_def)
    have s': "rip_wf ?s" "rip_map ?s = (rip_map s)((p, l) \<mapsto> ?e)" using rip_store [OF r(1) ok, of j "rs_db_count s"] Some by simp_all
    have r': "router_at (rs_router s) (rip_put state ?s w) = Some r" using r(2) by simp
    obtain res t' where d: "router_del_route (rs_router s) p l ROUTE_PROTO_RIP (rip_put state ?s w) =
        Some (res, router_put (rs_router s) (r\<lparr>ro_route_tbl := t'\<rparr>) (rip_put state ?s w))" "route_table_wf t'"
      "rib_map t' = (rib_map (ro_route_tbl r))((p, l, ROUTE_PROTO_RIP) := None)"
      by (rule router_del_route_outcome [OF r' r(3) assms(4) ROUTE_PROTO_RIP_nz, of p, unfolded assms(5)])
    let ?w = "router_put (rs_router s) (r\<lparr>ro_route_tbl := t'\<rparr>) (rip_put state ?s w)"
    have bk: "rip_backed t' ?s" by (rule rip_backed_del [OF r(4) d(3)]) (unfold s'(2), simp)
    have "rip_ok ?w state" by (rule rip_okI [of _ _ ?s "r\<lparr>ro_route_tbl := t'\<rparr>"]) (use s'(1) bk d(2) nn in simp_all)
    moreover have "rip_map ?s = learned p l nh RIP_INFINITY iface now s"
    proof -
      have "rip_map s (p, l) = Some (rs_db s ! j)" using Some by (simp add: rip_map_def rips.lookup_def)
      moreover have "?e = (rs_db s ! j)\<lparr>ri_state := RIP_ROUTE_GC, ri_last_update := now, ri_learned_on := iface,
          ri_metric := RIP_INFINITY, ri_valid := 1\<rparr>" using f by (cases "rs_db s ! j") simp
      ultimately show ?thesis unfolding s'(2) learned_def by simp
    qed
    moreover have "rip_learn state iface now p l nh RIP_INFINITY w = Some ?w" using assms(2) Some d(1)
      by (simp add: rip_learn_def rip_find)
    ultimately show ?thesis using nn by (intro exI [of _ ?w] exI [of _ ?s]) simp
  qed
qed

lemma rip_backed_add:
  assumes "rip_backed t s" "ri_state e = RIP_ROUTE_ACTIVE" "rip_map s' = (rip_map s)((p, l) \<mapsto> e)"
    and "rib_map t' = (rib_map t)((p, l, ROUTE_PROTO_RIP) \<mapsto> (ri_next_hop e, ri_learned_on e, ri_metric e)) \<or>
      rib_map t' = rib_map t \<and> rib_map t (p, l, ROUTE_PROTO_RIP) = None"
  shows "rip_backed t' s'"
  using assms unfolding rip_backed_def by (auto split: if_splits)

lemma rip_learn_active:
  assumes "rip_ok w state" "rip_at state w = Some s" "iface \<noteq> NULL" "l \<le> 32" "p AND ipv4_prefix_mask l = p"
    and "1 \<le> metric" "metric < RIP_INFINITY"
  shows "\<exists>w' s'. rip_learn state iface now p l nh metric w = Some w' \<and> rip_ok w' state \<and> rip_frame w w' \<and>
    rip_at state w' = Some s' \<and> rs_router s' = rs_router s \<and> rs_sim s' = rs_sim s \<and> rip_map s' = learned p l nh metric iface now s"
proof -
  from assms(1,2) obtain r where r: "rip_wf s" "router_at (rs_router s) w = Some r" "route_table_wf (ro_route_tbl r)" "rip_backed (ro_route_tbl r) s"
    unfolding rip_ok_def by auto
  note nn = rip_at_nonnull [OF assms(2)] router_at_nonnull [OF r(2)]
  have mne: "metric \<noteq> RIP_INFINITY" using assms(7) by auto
  let ?e = "\<lparr>ri_prefix = p, ri_prefix_len = l, ri_state = RIP_ROUTE_ACTIVE, ri_valid = 1, ri_metric = metric,
      ri_next_hop = nh, ri_learned_on = iface, ri_last_update = now\<rparr>"
  have ok: "rip_entry_ok ?e" using assms(3-7) by (simp add: rip_entry_ok_def)
  show ?thesis
  proof (cases "rips.find_key (p, l) (rs_db s) = None \<and> rips.find_free (rs_db s) = None")
    case True
    then have "learned p l nh metric iface now s = rip_map s" using mne rip_full_iff [OF r(1)] by (simp add: learned_def rip_map_None)
    then show ?thesis using True assms(1,2) mne
      by (intro exI [of _ w] exI [of _ s]) (simp add: rip_learn_def rip_find rip_free)
  next
    case False
    then obtain j n where j: "rips.find_key (p, l) (rs_db s) = Some j \<and> n = rs_db_count s \<or>
        rips.find_key (p, l) (rs_db s) = None \<and> rips.find_free (rs_db s) = Some j \<and> n = rs_db_count s + 1"
      by (cases "rips.find_key (p, l) (rs_db s)") auto
    let ?s = "s\<lparr>rs_db := (rs_db s)[j := ?e], rs_db_count := n\<rparr>"
    have s': "rip_wf ?s" "rip_map ?s = (rip_map s)((p, l) \<mapsto> ?e)" using rip_store [OF r(1) ok, of j n] j by simp_all
    have lm: "learned p l nh metric iface now s = rip_map ?s"
      using j mne rip_full_iff [OF r(1)] unfolding s'(2) learned_def rip_map_None by auto
    have up: "(rs_db s ! j)\<lparr>ri_prefix := p, ri_prefix_len := l, ri_metric := metric, ri_next_hop := nh, ri_learned_on := iface,
        ri_last_update := now, ri_state := RIP_ROUTE_ACTIVE, ri_valid := 1\<rparr> = ?e" by simp
    have lrn: "rip_learn state iface now p l nh metric w =
        do { (_, w) \<leftarrow> router_add_route (rs_router s) p l nh iface metric ROUTE_PROTO_RIP (rip_put state ?s w); Some w }"
      using assms(2) mne j by (auto simp: rip_learn_def rip_find rip_free Let_def up)
    have r': "router_at (rs_router s) (rip_put state ?s w) = Some r" using r(2) by simp
    show ?thesis
    proof (rule router_add_route_outcome [OF r' r(3) assms(3,4) ROUTE_PROTO_RIP_nz, of p nh metric, unfolded assms(5)])
      fix t' assume t': "router_add_route (rs_router s) p l nh iface metric ROUTE_PROTO_RIP (rip_put state ?s w) =
          Some (0, router_put (rs_router s) (r\<lparr>ro_route_tbl := t'\<rparr>) (rip_put state ?s w))" "route_table_wf t'"
        "rib_map t' = (rib_map (ro_route_tbl r))((p, l, ROUTE_PROTO_RIP) \<mapsto> (nh, iface, metric))"
      have bk: "rip_backed t' ?s" by (rule rip_backed_add [OF r(4) _ s'(2)]) (use t'(3) in simp_all)
      let ?w = "router_put (rs_router s) (r\<lparr>ro_route_tbl := t'\<rparr>) (rip_put state ?s w)"
      have "rip_ok ?w state" by (rule rip_okI [of _ _ ?s "r\<lparr>ro_route_tbl := t'\<rparr>"]) (use s'(1) bk t'(2) nn in simp_all)
      then show ?thesis using lrn t'(1) lm nn by (intro exI [of _ ?w] exI [of _ ?s]) simp
    next
      assume f: "router_add_route (rs_router s) p l nh iface metric ROUTE_PROTO_RIP (rip_put state ?s w) = Some (- 1, rip_put state ?s w)"
        "rib_map (ro_route_tbl r) (p, l, ROUTE_PROTO_RIP) = None"
      have bk: "rip_backed (ro_route_tbl r) ?s" by (rule rip_backed_add [OF r(4) _ s'(2)]) (use f(2) in simp_all)
      let ?w = "rip_put state ?s w"
      have "rip_ok ?w state" by (rule rip_okI [of _ _ ?s r]) (use s'(1) bk r nn in simp_all)
      then show ?thesis using lrn f(1) lm nn by (intro exI [of _ ?w] exI [of _ ?s]) simp
    qed
  qed
qed

lemma rip_learn_outcome:
  assumes "rip_ok w state" "rip_at state w = Some s" "iface \<noteq> NULL" "l \<le> 32" "p AND ipv4_prefix_mask l = p"
  shows "\<exists>w' s'. rip_learn state iface now p l nh (candidate_metric m) w = Some w' \<and> rip_ok w' state \<and> rip_frame w w' \<and>
    rip_at state w' = Some s' \<and> rs_router s' = rs_router s \<and> rs_sim s' = rs_sim s \<and> rip_map s' = learned p l nh (candidate_metric m) iface now s"
proof (cases "candidate_metric m = RIP_INFINITY")
  case True
  then show ?thesis using rip_learn_infinity [OF assms, of now nh] by simp
next
  case False
  have v: "unat (candidate_metric m) = min 16 (unat m + 1)" by (rule candidate_metric_value)
  have "candidate_metric m < RIP_INFINITY"
    using False v by (auto simp: RIP_INFINITY_def word_less_nat_alt word_unat_eq_iff)
  moreover have "1 \<le> candidate_metric m" using v by (simp add: word_le_nat_alt)
  ultimately show ?thesis using rip_learn_active [OF assms] by blast
qed


section \<open>Reception\<close>

lemma rip_receive_entry_ok:
  assumes "rip_ok w state" "rip_at state w = Some s" "iface \<noteq> NULL"
  shows "\<exists>w' s'. rip_receive_entry state iface src now b w = Some w' \<and> rip_ok w' state \<and> rip_frame w w' \<and> rip_at state w' = Some s'"
proof (cases "ns_ntohs (get16 b 0) = RIP_AFI_IPV4")
  case True
  let ?m = "ns_ntohl (get32 b 8)"
  show ?thesis
  proof (cases "ip_mask_to_prefix_len ?m True")
    case (Pair r l)
    show ?thesis
    proof (cases l)
      case None
      then show ?thesis using assms True Pair by (auto simp: rip_receive_entry_def)
    next
      case (Some l')
      have "r = 0" using Pair Some by (auto simp: ip_mask_to_prefix_len_def split: option.splits)
      then have "l' \<le> 32" using Pair Some mask_prefix_inverse [of ?m l'] by simp
      from rip_learn_outcome [OF assms this prefix_mask_idem] show ?thesis using True Pair Some
        by (simp add: rip_receive_entry_def) blast
    qed
  qed
qed (use assms in \<open>auto simp: rip_receive_entry_def\<close>)

lemma rip_receive_entries_ok:
  assumes "rip_ok w state" "rip_at state w = Some s" "iface \<noteq> NULL" "pkt_at payload w = Some p" "pkt_wf p"
    and "\<forall>i \<in> set ks. 4 + i * 20 + 20 \<le> pkt_len p"
  shows "\<exists>w' s'. rip_receive_entries state iface src now payload ks w = Some w' \<and> rip_ok w' state \<and> rip_frame w w' \<and> rip_at state w' = Some s'"
  using assms
proof (induction ks arbitrary: w s)
  case (Cons i ks)
  have rd: "pkt_read p (RIP_HDR_LEN + i * RIP_ENTRY_LEN) RIP_ENTRY_LEN = Some (take 20 (drop (4 + i * 20) (visible p)))"
    using pkt_read_within [OF Cons.prems(5), of "4 + i * 20" 20] Cons.prems(6) by (simp add: RIP_HDR_LEN_def RIP_ENTRY_LEN_def)
  obtain w1 s1 where 1: "rip_receive_entry state iface src now (take 20 (drop (4 + i * 20) (visible p))) w = Some w1"
    "rip_ok w1 state" "rip_frame w w1" "rip_at state w1 = Some s1"
    using rip_receive_entry_ok [OF Cons.prems(1-3)] by blast
  have "pkt_at payload w1 = Some p" using rip_frame_at(1) [OF 1(3)] Cons.prems(4) by simp
  from Cons.IH [OF 1(2,4) Cons.prems(3) this Cons.prems(5)] Cons.prems(6) obtain w2 s2 where
    "rip_receive_entries state iface src now payload ks w1 = Some w2" "rip_ok w2 state" "rip_frame w1 w2" "rip_at state w2 = Some s2" by auto
  then show ?case using Cons.prems(4) rd 1(1) rip_frame_trans [OF 1(3)] by auto
qed auto

lemma rip_ok_free: "rip_ok w state \<Longrightarrow> packet_free p w = Some w' \<Longrightarrow> rip_ok w' state"
proof -
  assume ok: "rip_ok w state" and f: "packet_free p w = Some w'"
  from packet_free_frame [OF f] obtain m n ps where "w' = w\<lparr>w_mem := m, w_next_id := n, w_pkts := ps\<rparr>" by (auto simp: pkt_frame_def)
  then have "rip_at a w' = rip_at a w" "router_at a w' = router_at a w" for a by (simp_all add: rip_at_def router_at_def)
  then show ?thesis using ok by (simp add: rip_ok_def)
qed

text \<open>C11. Whatever bytes a RIP message has, receiving it on a live interface never faults, frees the packet and keeps the
  invariant of RIP: the database holds at most one route for a prefix, its counter is exact, every metric is between 1
  and 16, and every RIP route of the routing table is an active route of the database with the same next hop, interface and
  metric.\<close>

theorem rip_receive_sound:
  assumes "rip_ok w state" "rip_at state w = Some s" "iface \<noteq> NULL" "pkt_at payload w = Some p" "pkt_wf p"
    and "sim_at (rs_sim s) w = Some m" "sched_at (sim_sched m) w = Some sch"
  shows "\<exists>w'. rip_receive iface src port payload (VRip state) w = Some w' \<and> rip_ok w' state \<and> pkt_at payload w' = None"
proof -
  have nn: "payload \<noteq> NULL" "state \<noteq> NULL" "rs_sim s \<noteq> NULL" "sim_sched m \<noteq> NULL" "rs_router s \<noteq> NULL"
    using assms by (auto simp: rip_ok_def dest: pkt_at_nonnull rip_at_nonnull sim_at_nonnull sched_at_nonnull router_at_nonnull)
  have free: "\<exists>w'. packet_free payload v = Some w' \<and> rip_ok w' state \<and> pkt_at payload w' = None" if "rip_frame w v" "rip_ok v state" for v
  proof -
    have "pkt_at payload v \<noteq> None" using rip_frame_at(1) [OF that(1)] assms(4) by simp
    from packet_free_live [OF this] show ?thesis using rip_ok_free [OF that(2)] packet_free_gone by blast
  qed
  show ?thesis
  proof (cases "packet_validate_view (Some p) 0 RIP_HDR_LEN = 0 \<and> (pkt_len p - RIP_HDR_LEN) mod RIP_ENTRY_LEN = 0 \<and>
      \<not> RIP_MAX_ROUTES < unat (of_nat ((pkt_len p - RIP_HDR_LEN) div RIP_ENTRY_LEN) :: u32)")
    case False
    then show ?thesis using assms(2,3,4,6) nn free [OF rip_frame_refl assms(1)] by (auto simp: rip_receive_def as_rip_def)
  next
    case True
    let ?n = "unat (of_nat ((pkt_len p - RIP_HDR_LEN) div RIP_ENTRY_LEN) :: u32)"
    have len: "4 \<le> pkt_len p" using True validate_view_wf [OF assms(5), of 0 4] by (simp add: RIP_HDR_LEN_def)
    have "?n \<le> (pkt_len p - 4) div 20" by (simp add: RIP_HDR_LEN_def RIP_ENTRY_LEN_def unsigned_of_nat take_bit_nat_eq_self_iff)
    then have "\<forall>i \<in> set [0..<?n]. 4 + i * 20 + 20 \<le> pkt_len p" using len by auto
    from rip_receive_entries_ok [OF assms(1-5) this, of src "sch_now sch"] obtain w1 where
      e: "rip_receive_entries state iface src (sch_now sch) payload [0..<?n] w = Some w1" "rip_ok w1 state" "rip_frame w w1" by auto
    have "pkt_read p 0 RIP_HDR_LEN = Some (take 4 (visible p))" using pkt_read_within [OF assms(5), of 0 4] len by (simp add: RIP_HDR_LEN_def)
    then show ?thesis using assms(2,3,4,6,7) nn True e(1) free [OF e(3,2)] free [OF rip_frame_refl assms(1)]
      by (auto simp: rip_receive_def as_rip_def)
  qed
qed


section \<open>Ageing\<close>

definition timer_event :: "EventType \<Rightarrow> u64 \<Rightarrow> EventCallback \<Rightarrow> vptr \<Rightarrow> Event" where
  "timer_event ty t h ctx = \<lparr>evt_type = ty, evt_timestamp = t, evt_sequence = 0, evt_src_device = VNull, evt_dst_device = VNull,
     evt_packet = NULL, evt_data = VNull, evt_handler = h, evt_handler_ctx = ctx\<rparr>"

text \<open>A scheduler with memory for one more event.\<close>

definition can_schedule :: "'a sim_world_scheme \<Rightarrow> Simulator \<Rightarrow> Scheduler \<Rightarrow> bool" where
  "can_schedule w m sch \<longleftrightarrow> sched_at (sim_sched m) w = Some sch \<and> sched_wf sch \<and> 16 * eq_capacity (sch_eq sch) \<le> PTRDIFF_MAX \<and>
     mem_oom (w_mem w) = []"

lemma rip_frame_mem: "rip_frame w w' \<Longrightarrow> w_mem w' = w_mem w"
  by (auto simp: rip_frame_def)

lemma rip_periodic_outcome:
  assumes "sim_at sim w = Some m" "can_schedule w m sch"
  shows "\<exists>w' sch'. rip_schedule_periodic sim ty delay h state w = Some w' \<and> sched_at (sim_sched m) w' = Some sch' \<and>
    eq_list (sch_eq sch') = insert_by evt_key (timer_event ty (sch_now sch + delay) h (VRip state)) (eq_list (sch_eq sch)) \<and>
    rip_at a w' = rip_at a w \<and> (rip_ok w state \<longrightarrow> rip_ok w' state)"
proof -
  let ?e = "timer_event ty (sch_now sch + delay) h (VRip state)"
  let ?w = "w\<lparr>w_mem := (w_mem w)\<lparr>mem_next := Suc (mem_next (w_mem w))\<rparr>\<rparr>"
  have c: "sched_at (sim_sched m) w = Some sch" "sched_wf sch" "16 * eq_capacity (sch_eq sch) \<le> PTRDIFF_MAX" "mem_oom (w_mem w) = []"
    using assms(2) by (simp_all add: can_schedule_def)
  have ev: "event_create_callback ty (sch_now sch + delay) VNull VNull NULL VNull h (VRip state) w = (Some ?e, ?w)"
    by (simp add: event_create_callback_def alloc_plenty [OF c(4)] timer_event_def)
  have s: "sched_at (sim_sched m) ?w = Some sch" "mem_oom (w_mem ?w) = []" using c by simp_all
  obtain sch' w' where q: "scheduler_schedule (sim_sched m) (Some ?e) ?w = Some (0, w')" "sched_at (sim_sched m) w' = Some sch'"
    "eq_list (sch_eq sch') = insert_by evt_key ?e (eq_list (sch_eq sch))" "sched_frame ?w w'"
    using schedule_plenty [OF s(1) c(2) s(2) c(3), of ?e] by blast
  have fr: "rip_at b w' = rip_at b w" "router_at b w' = router_at b w" for b
    using q(4) by (cases w; cases w'; simp add: sched_frame_def rip_at_def router_at_def)+
  have nn: "sim \<noteq> NULL" "sim_sched m \<noteq> NULL" using assms(1) c(1) by (auto dest: sim_at_nonnull sched_at_nonnull)
  have "rip_schedule_periodic sim ty delay h state w = Some w'"
    using nn assms(1) c(1) ev q(1) by (simp add: rip_schedule_periodic_def)
  then show ?thesis using q(2,3) fr by (auto simp: rip_ok_def)
qed

definition poison :: "u64 \<Rightarrow> RipRouteInfo \<Rightarrow> RipRouteInfo" where
  "poison now e = (if rip_expired now e then e\<lparr>ri_metric := RIP_INFINITY, ri_state := RIP_ROUTE_GC\<rparr> else e)"

lemma poison_key [simp]: "ri_valid (poison now e) = ri_valid e" "ri_prefix (poison now e) = ri_prefix e"
    "ri_prefix_len (poison now e) = ri_prefix_len e"
  by (simp_all add: poison_def)

lemma poison_ok: "rip_entry_ok e \<Longrightarrow> rip_entry_ok (poison now e)"
  by (auto simp: rip_entry_ok_def poison_def)

lemma rip_timeout_slot:
  assumes "rip_ok w state" "rip_at state w = Some s" "i < RIP_DB_SIZE"
  shows "\<exists>w'. rip_timeout_slots state now (i # ks) w = rip_timeout_slots state now ks w' \<and> rip_ok w' state \<and> rip_frame w w' \<and>
    rip_at state w' = Some (s\<lparr>rs_db := (rs_db s)[i := poison now (rs_db s ! i)]\<rparr>)"
proof -
  from assms(1,2) obtain r where r: "rip_wf s" "router_at (rs_router s) w = Some r" "route_table_wf (ro_route_tbl r)" "rip_backed (ro_route_tbl r) s"
    unfolding rip_ok_def by auto
  note nn = rip_at_nonnull [OF assms(2)] router_at_nonnull [OF r(2)]
  let ?e = "rs_db s ! i"
  have i: "i < length (rs_db s)" using assms(3) r(1) by (simp add: rip_wf_def)
  have e: "rip_entry_ok ?e" "rips.unique (rs_db s)" using r(1) i by (auto simp: rip_wf_def)
  show ?thesis
  proof (cases "rip_expired now ?e")
    case False
    then show ?thesis using assms(1,2) i by (intro exI [of _ w]) (simp add: poison_def)
  next
    case True
    then have v: "ri_valid ?e \<noteq> 0" by (simp add: rip_expired_def)
    then have k: "ri_prefix_len ?e \<le> 32" "ri_prefix ?e AND ipv4_prefix_mask (ri_prefix_len ?e) = ri_prefix ?e" using e(1) by (simp_all add: rip_entry_ok_def)
    let ?s = "s\<lparr>rs_db := (rs_db s)[i := poison now ?e], rs_db_count := rs_db_count s\<rparr>"
    have fk: "rips.find_key (ri_prefix ?e, ri_prefix_len ?e) (rs_db s) = Some i" using rips.unique_find_key [OF e(2) i] v by simp
    have s': "rip_wf ?s" "rip_map ?s = (rip_map s)((ri_prefix ?e, ri_prefix_len ?e) \<mapsto> poison now ?e)"
      using rip_store [OF r(1) poison_ok [OF e(1)], of now i "rs_db_count s"] v fk by simp_all
    have r': "router_at (rs_router s) (rip_put state ?s w) = Some r" using r(2) by simp
    obtain res t' where d: "router_del_route (rs_router s) (ri_prefix ?e) (ri_prefix_len ?e) ROUTE_PROTO_RIP (rip_put state ?s w) =
        Some (res, router_put (rs_router s) (r\<lparr>ro_route_tbl := t'\<rparr>) (rip_put state ?s w))" "route_table_wf t'"
      "rib_map t' = (rib_map (ro_route_tbl r))((ri_prefix ?e, ri_prefix_len ?e, ROUTE_PROTO_RIP) := None)"
      by (rule router_del_route_outcome [OF r' r(3) k(1) ROUTE_PROTO_RIP_nz, of "ri_prefix ?e", unfolded k(2)])
    let ?w = "router_put (rs_router s) (r\<lparr>ro_route_tbl := t'\<rparr>) (rip_put state ?s w)"
    have bk: "rip_backed t' ?s" by (rule rip_backed_del [OF r(4) d(3)]) (unfold s'(2), simp)
    have "rip_ok ?w state" by (rule rip_okI [of _ _ ?s "r\<lparr>ro_route_tbl := t'\<rparr>"]) (use s'(1) bk d(2) nn in simp_all)
    moreover have "poison now ?e = ?e\<lparr>ri_metric := RIP_INFINITY, ri_state := RIP_ROUTE_GC\<rparr>" using True by (simp add: poison_def)
    ultimately show ?thesis using assms(2) i True d(1) nn by (intro exI [of _ ?w]) simp
  qed
qed

lemma rip_timeout_all:
  assumes "rip_ok w state" "rip_at state w = Some s" "k \<le> RIP_DB_SIZE"
  shows "\<exists>w'. rip_timeout_slots state now [RIP_DB_SIZE - k..<RIP_DB_SIZE] w = Some w' \<and> rip_ok w' state \<and> rip_frame w w' \<and>
    rip_at state w' = Some (s\<lparr>rs_db := take (RIP_DB_SIZE - k) (rs_db s) @ map (poison now) (drop (RIP_DB_SIZE - k) (rs_db s))\<rparr>)"
  using assms
proof (induction k arbitrary: w s)
  case 0
  then have "length (rs_db s) = RIP_DB_SIZE" by (auto simp: rip_ok_def rip_wf_def)
  then show ?case using 0 by auto
next
  case (Suc k)
  let ?i = "RIP_DB_SIZE - Suc k"
  have len: "length (rs_db s) = RIP_DB_SIZE" using Suc.prems(1,2) by (auto simp: rip_ok_def rip_wf_def)
  have i: "?i < RIP_DB_SIZE" "Suc ?i = RIP_DB_SIZE - k" using Suc.prems(3) by (auto simp: RIP_DB_SIZE_def)
  have up: "[?i..<RIP_DB_SIZE] = ?i # [RIP_DB_SIZE - k..<RIP_DB_SIZE]" using upt_conv_Cons [OF i(1)] i(2) by simp
  obtain w1 where 1: "rip_timeout_slots state now [?i..<RIP_DB_SIZE] w = rip_timeout_slots state now [RIP_DB_SIZE - k..<RIP_DB_SIZE] w1"
    "rip_ok w1 state" "rip_frame w w1" "rip_at state w1 = Some (s\<lparr>rs_db := (rs_db s)[?i := poison now (rs_db s ! ?i)]\<rparr>)"
    using rip_timeout_slot [OF Suc.prems(1,2) i(1)] up by metis
  let ?x = "poison now (rs_db s ! ?i)"
  have db: "take (RIP_DB_SIZE - k) ((rs_db s)[?i := ?x]) = take ?i (rs_db s) @ [?x]"
    using take_Suc_conv_app_nth [of ?i "(rs_db s)[?i := ?x]", unfolded i(2)] i(1) len by simp
  have dr: "drop (RIP_DB_SIZE - k) ((rs_db s)[?i := ?x]) = drop (RIP_DB_SIZE - k) (rs_db s)"
    using i by simp
  have tl: "drop ?i (rs_db s) = rs_db s ! ?i # drop (RIP_DB_SIZE - k) (rs_db s)"
    using Cons_nth_drop_Suc [of ?i "rs_db s"] i len by simp
  have "k \<le> RIP_DB_SIZE" using Suc.prems(3) by simp
  note Suc.IH [OF 1(2,4) this]
  moreover have "take (RIP_DB_SIZE - k) (rs_db (s\<lparr>rs_db := (rs_db s)[?i := ?x]\<rparr>)) @
      map (poison now) (drop (RIP_DB_SIZE - k) (rs_db (s\<lparr>rs_db := (rs_db s)[?i := ?x]\<rparr>))) =
      take ?i (rs_db s) @ map (poison now) (drop ?i (rs_db s))"
    by (simp add: db dr tl)
  ultimately obtain w2 where "rip_timeout_slots state now [RIP_DB_SIZE - k..<RIP_DB_SIZE] w1 = Some w2" "rip_ok w2 state" "rip_frame w1 w2"
    "rip_at state w2 = Some (s\<lparr>rs_db := take ?i (rs_db s) @ map (poison now) (drop ?i (rs_db s))\<rparr>)"
    by (elim exE conjE) simp
  then show ?case using 1(1) rip_frame_trans [OF 1(3)] by auto
qed


lemma rip_wf_poisoned:
  assumes "rip_wf s"
  shows "rip_map (s\<lparr>rs_db := map (poison now) (rs_db s)\<rparr>) k = map_option (poison now) (rip_map s k)"
  using rips.lookup_map [of "poison now" "rs_db s" k] by (simp add: rip_map_def)

text \<open>C12. The timeout handler poisons exactly the active routes that no response has refreshed for 180 seconds, and keeps
  every other route; afterwards no RIP route of the routing table is a poisoned one, the invariant of RIP holds, and the next
  timeout is queued behind the events before it.\<close>

theorem rip_timeout_correct:
  assumes "rip_ok w state" "rip_at state w = Some s" "sim_at (rs_sim s) w = Some m" "can_schedule w m sch"
  shows "\<exists>w' s' sch'. rip_timeout_handler e (VRip state) w = Some w' \<and> rip_ok w' state \<and> rip_at state w' = Some s' \<and>
    (\<forall>k. rip_map s' k = (case rip_map s k of None \<Rightarrow> None
       | Some r \<Rightarrow> if ri_state r = RIP_ROUTE_ACTIVE \<and> RIP_TIMEOUT_US < sch_now sch - ri_last_update r
           then Some (r\<lparr>ri_metric := RIP_INFINITY, ri_state := RIP_ROUTE_GC\<rparr>) else Some r)) \<and>
    sched_at (sim_sched m) w' = Some sch' \<and>
    eq_list (sch_eq sch') = insert_by evt_key
      (timer_event EVT_RIP_TIMEOUT (sch_now sch + RIP_TIMEOUT_US) Cb_rip_timeout_handler (VRip state)) (eq_list (sch_eq sch))"
proof -
  have wf: "rip_wf s" using assms(1,2) by (auto simp: rip_ok_def)
  have nn: "state \<noteq> NULL" "rs_sim s \<noteq> NULL" "sim_sched m \<noteq> NULL"
    using assms by (auto simp: can_schedule_def dest: rip_at_nonnull sim_at_nonnull sched_at_nonnull)
  let ?s = "s\<lparr>rs_db := map (poison (sch_now sch)) (rs_db s)\<rparr>"
  obtain w1 where 1: "rip_timeout_slots state (sch_now sch) [0..<RIP_DB_SIZE] w = Some w1" "rip_ok w1 state" "rip_frame w w1"
    "rip_at state w1 = Some ?s"
    using rip_timeout_all [OF assms(1,2) order_refl, of "sch_now sch"] by auto
  have s1: "sim_at (rs_sim s) w1 = Some m" "can_schedule w1 m sch"
    using rip_frame_at [OF 1(3)] rip_frame_mem [OF 1(3)] assms(3,4) by (simp_all add: can_schedule_def)
  obtain w' sch' where 2: "rip_schedule_periodic (rs_sim s) EVT_RIP_TIMEOUT RIP_TIMEOUT_US Cb_rip_timeout_handler state w1 = Some w'"
    "sched_at (sim_sched m) w' = Some sch'" "rip_at state w' = rip_at state w1" "rip_ok w1 state \<longrightarrow> rip_ok w' state"
    "eq_list (sch_eq sch') = insert_by evt_key
      (timer_event EVT_RIP_TIMEOUT (sch_now sch + RIP_TIMEOUT_US) Cb_rip_timeout_handler (VRip state)) (eq_list (sch_eq sch))"
    using rip_periodic_outcome [OF s1, of EVT_RIP_TIMEOUT RIP_TIMEOUT_US Cb_rip_timeout_handler state state] by blast
  have "rip_timeout_handler e (VRip state) w = Some w'" using assms(2-4) nn 1(1) 2(1)
    by (simp add: rip_timeout_handler_def rip_handler_def as_rip_def can_schedule_def)
  moreover have "ri_valid r \<noteq> 0" if "rip_map s k = Some r" for k r
    using that wf rips.lookup_Some_iff [of "rs_db s" k r] by (simp add: rip_map_def rip_wf_def)
  then have "rip_map ?s k = (case rip_map s k of None \<Rightarrow> None
       | Some r \<Rightarrow> if ri_state r = RIP_ROUTE_ACTIVE \<and> RIP_TIMEOUT_US < sch_now sch - ri_last_update r
           then Some (r\<lparr>ri_metric := RIP_INFINITY, ri_state := RIP_ROUTE_GC\<rparr>) else Some r)" for k
    unfolding rip_wf_poisoned [OF wf] by (cases "rip_map s k") (auto simp: poison_def rip_expired_def)
  ultimately show ?thesis using 1(2,4) 2 by (intro exI [of _ w'] exI [of _ ?s] exI [of _ sch']) simp
qed

lemma rip_gc_slots_map:
  assumes "int (length (filter (rip_garbage now) es)) \<le> n"
  shows "rip_gc_slots now es n = (map (\<lambda>e. if rip_garbage now e then e\<lparr>ri_valid := 0, ri_learned_on := NULL\<rparr> else e) es,
     n - int (length (filter (rip_garbage now) es)))"
  using assms by (induction es arbitrary: n) auto

lemma rip_gc_slots_eq:
  assumes "rip_wf s"
  shows "rip_gc_slots now (rs_db s) (rs_db_count s) =
    (let db = map (\<lambda>e. if rip_garbage now e then e\<lparr>ri_valid := 0, ri_learned_on := NULL\<rparr> else e) (rs_db s)
     in (db, int (rips.live_count db)))"
proof -
  have "rips.live_count (map (\<lambda>e. if rip_garbage now e then e\<lparr>ri_valid := 0, ri_learned_on := NULL\<rparr> else e) (rs_db s)) +
      length (filter (rip_garbage now) (rs_db s)) = rips.live_count (rs_db s)"
    by (rule rips.live_count_kill_where) (simp add: rip_garbage_def)
  then show ?thesis using assms rip_gc_slots_map [of now "rs_db s" "rs_db_count s"] by (simp add: rip_wf_def Let_def)
qed

text \<open>Garbage collection removes exactly the poisoned routes that are older than the timeout and the collection time
  together, keeps every other route and the invariant of RIP, and queues the next collection.\<close>

theorem rip_gc_correct:
  assumes "rip_ok w state" "rip_at state w = Some s" "sim_at (rs_sim s) w = Some m" "can_schedule w m sch"
  shows "\<exists>w' s' sch'. rip_gc_handler e (VRip state) w = Some w' \<and> rip_ok w' state \<and> rip_at state w' = Some s' \<and>
    (\<forall>k. rip_map s' k = (case rip_map s k of None \<Rightarrow> None
       | Some r \<Rightarrow> if ri_state r = RIP_ROUTE_GC \<and> RIP_TIMEOUT_US + RIP_GC_US < sch_now sch - ri_last_update r then None else Some r)) \<and>
    sched_at (sim_sched m) w' = Some sch' \<and>
    eq_list (sch_eq sch') = insert_by evt_key
      (timer_event EVT_RIP_GC (sch_now sch + RIP_GC_US) Cb_rip_gc_handler (VRip state)) (eq_list (sch_eq sch))"
proof -
  from assms(1,2) obtain r where r: "rip_wf s" "router_at (rs_router s) w = Some r" "route_table_wf (ro_route_tbl r)" "rip_backed (ro_route_tbl r) s"
    unfolding rip_ok_def by auto
  have nn: "state \<noteq> NULL" "rs_sim s \<noteq> NULL" "sim_sched m \<noteq> NULL"
    using assms by (auto simp: can_schedule_def dest: rip_at_nonnull sim_at_nonnull sched_at_nonnull)
  let ?db = "map (\<lambda>e. if rip_garbage (sch_now sch) e then e\<lparr>ri_valid := 0, ri_learned_on := NULL\<rparr> else e) (rs_db s)"
  let ?s = "s\<lparr>rs_db := ?db, rs_db_count := int (rips.live_count ?db)\<rparr>" and ?w = "rip_put state (s\<lparr>rs_db := ?db, rs_db_count := int (rips.live_count ?db)\<rparr>) w"
  have u: "rips.unique (rs_db s)" using r(1) by (simp add: rip_wf_def)
  have wf: "rip_wf ?s" using r(1) rips.unique_kill_where [OF u, of "rip_garbage (sch_now sch)"] by (auto simp: rip_wf_def rip_entry_ok_def)
  have lk: "rip_map ?s k = (case rip_map s k of None \<Rightarrow> None | Some e \<Rightarrow> if rip_garbage (sch_now sch) e then None else Some e)" for k
    using rips.lookup_kill_where [OF u] by (simp add: rip_map_def)
  have live: "ri_valid e \<noteq> 0" if "rip_map s k = Some e" for k e
    using that u rips.lookup_Some_iff [of "rs_db s" k e] by (simp add: rip_map_def)
  have bk: "rip_backed (ro_route_tbl r) ?s"
    unfolding rip_backed_def lk using r(4) by (fastforce simp: rip_backed_def rip_garbage_def RIP_ROUTE_ACTIVE_def RIP_ROUTE_GC_def)
  have ok: "rip_ok ?w state" by (rule rip_okI [of _ _ ?s r]) (use wf bk r(2,3) nn in simp_all)
  have s1: "sim_at (rs_sim s) ?w = Some m" "can_schedule ?w m sch"
    using assms(3,4) by (simp_all add: can_schedule_def rip_frame_at [OF rip_frame_put] rip_frame_mem [OF rip_frame_put])
  obtain w' sch' where 2: "rip_schedule_periodic (rs_sim s) EVT_RIP_GC RIP_GC_US Cb_rip_gc_handler state ?w = Some w'"
    "sched_at (sim_sched m) w' = Some sch'" "rip_at state w' = rip_at state ?w" "rip_ok ?w state \<longrightarrow> rip_ok w' state"
    "eq_list (sch_eq sch') = insert_by evt_key
      (timer_event EVT_RIP_GC (sch_now sch + RIP_GC_US) Cb_rip_gc_handler (VRip state)) (eq_list (sch_eq sch))"
    using rip_periodic_outcome [OF s1, of EVT_RIP_GC RIP_GC_US Cb_rip_gc_handler state state] by blast
  have "rip_gc_handler e (VRip state) w = Some w'" using assms(2-4) nn 2(1)
    by (simp add: rip_gc_handler_def rip_handler_def as_rip_def can_schedule_def rip_gc_slots_eq [OF r(1)] Let_def)
  moreover have "rip_map ?s k = (case rip_map s k of None \<Rightarrow> None
       | Some r \<Rightarrow> if ri_state r = RIP_ROUTE_GC \<and> RIP_TIMEOUT_US + RIP_GC_US < sch_now sch - ri_last_update r then None else Some r)" for k
    unfolding lk using live [of k] by (cases "rip_map s k") (auto simp: rip_garbage_def)
  ultimately show ?thesis using ok nn 2 by (intro exI [of _ w'] exI [of _ ?s] exI [of _ sch']) simp
qed

section \<open>Sending\<close>

lemma rip_wire_length [simp]: "length (rip_wire_entry e) = RIP_ENTRY_LEN"
  by (simp add: rip_wire_entry_def RipEntry_def RIP_ENTRY_LEN_def)

lemma RipEntry_fields:
  "get16 (RipEntry afi tag ip msk nh metric) 0 = afi" "get32 (RipEntry afi tag ip msk nh metric) 4 = ip"
  "get32 (RipEntry afi tag ip msk nh metric) 8 = msk" "get32 (RipEntry afi tag ip msk nh metric) 12 = nh"
  "get32 (RipEntry afi tag ip msk nh metric) 16 = metric"
  using get32_shift [of "put16 a @ put16 b" _ 0 for a b] get32_shift [of "put16 a @ put16 b @ put32 c" _ 0 for a b c]
    get32_shift [of "put16 a @ put16 b @ put32 c @ put32 d" _ 0 for a b c d]
    get32_shift [of "put16 a @ put16 b @ put32 c @ put32 d @ put32 f" "put32 metric" 0 for a b c d f]
  by (simp_all add: RipEntry_def get16_append get32_append get16_put16 get32_put32)

text \<open>A route that one router advertises is read back by its neighbour: the receiver learns the same prefix with the same
  length and next hop (the sender itself for a route with next hop 0), at the metric of the sender plus one, with infinity at
  16.\<close>

theorem rip_entry_roundtrip:
  assumes "ri_prefix_len e \<le> 32" "ri_prefix e AND ipv4_prefix_mask (ri_prefix_len e) = ri_prefix e"
  shows "rip_receive_entry state iface src now (rip_wire_entry e) w =
    rip_learn state iface now (ri_prefix e) (ri_prefix_len e) (if ri_next_hop e = 0 then src else ri_next_hop e)
      (candidate_metric (ri_metric e)) w \<and> unat (candidate_metric (ri_metric e)) = min 16 (unat (ri_metric e) + 1)"
proof -
  have g: "get16 (rip_wire_entry e) 0 = ns_htons RIP_AFI_IPV4" "get32 (rip_wire_entry e) 4 = ns_htonl (ri_prefix e)"
    "get32 (rip_wire_entry e) 8 = ns_htonl (ipv4_prefix_mask (ri_prefix_len e))" "get32 (rip_wire_entry e) 12 = ns_htonl (ri_next_hop e)"
    "get32 (rip_wire_entry e) 16 = ns_htonl (if RIP_INFINITY < ri_metric e then RIP_INFINITY else ri_metric e)"
    unfolding rip_wire_entry_def by (rule RipEntry_fields)+
  have m: "ip_mask_to_prefix_len (ipv4_prefix_mask (ri_prefix_len e)) True = (0, Some (ri_prefix_len e))"
    using mask_prefix_inverse assms(1) by blast
  have c: "candidate_metric (if RIP_INFINITY < ri_metric e then RIP_INFINITY else ri_metric e) = candidate_metric (ri_metric e)"
    by (simp add: candidate_metric_def)
  show ?thesis unfolding rip_receive_entry_def g using m c assms(2) candidate_metric_value by simp
qed

text \<open>A reference for sending: the messages one after another, until one of them fails.\<close>

fun send_messages :: "addr \<Rightarrow> u32 \<Rightarrow> RipRouteInfo list list \<Rightarrow> 'a rip_world_scheme \<Rightarrow> (int \<times> 'a rip_world_scheme) option" where
  "send_messages sim src_ip [] w = Some (0, w)"
| "send_messages sim src_ip (c # cs) w = do {
     (res, w) \<leftarrow> udp_send sim src_ip RIP_MULTICAST RIP_PORT RIP_PORT
       (Some (RipHeader RIP_CMD_RESPONSE RIP_VERSION 0 @ concat (map rip_wire_entry c))) (4 + 20 * length c) w;
     if res = - 1 then Some (- 1, w) else send_messages sim src_ip cs w
   }"

fun chunks :: "nat \<Rightarrow> 'a list \<Rightarrow> 'a list list" where
  "chunks n xs = (if xs = [] \<or> n = 0 then [] else take n xs # chunks n (drop n xs))"

declare chunks.simps [simp del]

lemma chunks_Nil [simp]: "chunks n [] = []"
  by (simp add: chunks.simps)

lemma chunks_full: "0 < n \<Longrightarrow> length xs = n \<Longrightarrow> chunks n (xs @ ys) = xs # chunks n ys"
  by (subst chunks.simps) auto

lemma chunks_short: "xs \<noteq> [] \<Longrightarrow> length xs < n \<Longrightarrow> chunks n xs = [xs]"
  by (subst chunks.simps) auto

lemma chunks_spec:
  "0 < n \<Longrightarrow> concat (chunks n xs) = xs \<and> (\<forall>c \<in> set (chunks n xs). c \<noteq> [] \<and> length c \<le> n) \<and> (\<forall>c \<in> set (butlast (chunks n xs)). length c = n)"
proof (induction n xs rule: chunks.induct)
  case (1 n xs)
  show ?case
  proof (cases "xs = []")
    case False
    have ch: "chunks n xs = take n xs # chunks n (drop n xs)" using False 1(2) by (subst chunks.simps) simp
    have ih: "concat (chunks n (drop n xs)) = drop n xs" "\<forall>c \<in> set (chunks n (drop n xs)). c \<noteq> [] \<and> length c \<le> n"
      "\<forall>c \<in> set (butlast (chunks n (drop n xs))). length c = n" using 1(1) [OF _ 1(2)] False 1(2) by blast+
    obtain cs where cs: "cs = chunks n (drop n xs)" by simp
    have "n \<le> length xs" if "cs \<noteq> []" using that unfolding cs by (cases "n \<le> length xs") simp_all
    moreover have "concat (chunks n xs) = xs" unfolding ch using ih(1) by simp
    moreover have "take n xs \<noteq> []" using False 1(2) by simp
    ultimately show ?thesis using ih(2,3) unfolding ch cs [symmetric] by auto
  qed simp
qed

lemma htons_0 [simp]: "ns_htons 0 = 0"
  by (simp add: ns_htons_def ns_bswap16_def)

lemma rip_send_entries_chunks:
  fixes w :: "'a rip_world_scheme"
  assumes "length a < RIP_MAX_ROUTES"
  shows "rip_send_entries sim src out es (concat (map rip_wire_entry a)) (length a) w =
    send_messages sim src (chunks RIP_MAX_ROUTES (a @ filter (\<lambda>e. ri_valid e \<noteq> 0 \<and> ri_learned_on e \<noteq> out) es)) w"
  using assms
proof (induction es arbitrary: a w)
  case Nil
  have fin: "(\<lambda>(res :: int, w :: 'a rip_world_scheme). Some (if res = - 1 then - 1 else 0, w)) =
      (\<lambda>(res, w). if res = - 1 then Some (- 1, w) else send_messages sim src [] w)"
    by (simp add: fun_eq_iff)
  show ?case
  proof (cases "a = []")
    case False
    then have "chunks RIP_MAX_ROUTES a = [a]" using Nil by (simp add: chunks_short)
    then show ?thesis using False fin by (simp add: rip_flush_payload_def RIP_HDR_LEN_def RIP_ENTRY_LEN_def mult.commute)
  qed simp
next
  case (Cons e es)
  let ?rest = "filter (\<lambda>e. ri_valid e \<noteq> 0 \<and> ri_learned_on e \<noteq> out) es"
  show ?case
  proof (cases "ri_valid e = 0 \<or> ri_learned_on e = out")
    case True
    then show ?thesis using Cons by auto
  next
    case False
    show ?thesis
    proof (cases "length a + 1 = RIP_MAX_ROUTES")
      case True
      then have ch: "chunks RIP_MAX_ROUTES ((a @ [e]) @ ?rest) = (a @ [e]) # chunks RIP_MAX_ROUTES ?rest"
        by (intro chunks_full) (auto simp: RIP_MAX_ROUTES_def)
      have ih: "rip_send_entries sim src out es [] 0 v = send_messages sim src (chunks RIP_MAX_ROUTES ?rest) v" for v :: "'a rip_world_scheme"
        using Cons.IH [of "[]" v] by (simp add: RIP_MAX_ROUTES_def)
      have n: "length (a @ [e]) = RIP_MAX_ROUTES" using True by simp
      have "rip_send_entries sim src out (e # es) (concat (map rip_wire_entry a)) (length a) w =
          do { (res, w) \<leftarrow> rip_flush_payload sim src (concat (map rip_wire_entry (a @ [e]))) RIP_MAX_ROUTES w;
            if res = - 1 then Some (- 1, w) else rip_send_entries sim src out es [] 0 w }"
        using False True by simp
      also have "\<dots> = send_messages sim src ((a @ [e]) # chunks RIP_MAX_ROUTES ?rest) w"
        unfolding send_messages.simps n ih by (simp add: rip_flush_payload_def RIP_HDR_LEN_def RIP_ENTRY_LEN_def mult.commute)
      finally show ?thesis using False ch by simp
    next
      case ne: False
      then have "length (a @ [e]) < RIP_MAX_ROUTES" using Cons.prems by simp
      from Cons.IH [OF this, of w] show ?thesis using False ne by simp
    qed
  qed
qed

text \<open>C13. An update sends exactly the valid routes that were not learned on the interface it leaves by (split horizon), each
  once and in the order of the database, in messages of 25 routes with a last one of 1 to 25; so a message never exceeds
  the buffer of 504 bytes, and the first message that fails ends the update with -1.\<close>

theorem rip_send_update_chunks:
  assumes "rip_at state w = Some s" "iface_at out w = Some i" "rs_sim s \<noteq> NULL"
  shows "\<exists>cs. concat cs = filter (\<lambda>e. ri_valid e \<noteq> 0 \<and> ri_learned_on e \<noteq> out) (rs_db s) \<and>
    (\<forall>c \<in> set cs. c \<noteq> [] \<and> length c \<le> 25) \<and> (\<forall>c \<in> set (butlast cs). length c = 25) \<and>
    rip_send_update state out w = send_messages (rs_sim s) (ns_ntohl (if_ip_addr i)) cs w"
proof -
  have nn: "state \<noteq> NULL" "out \<noteq> NULL" using assms by (auto dest: rip_at_nonnull iface_at_nonnull)
  let ?cs = "chunks 25 (filter (\<lambda>e. ri_valid e \<noteq> 0 \<and> ri_learned_on e \<noteq> out) (rs_db s))"
  have "rip_send_update state out w = send_messages (rs_sim s) (ns_ntohl (if_ip_addr i)) ?cs w"
    using rip_send_entries_chunks [of "[]"] nn assms by (simp add: rip_send_update_def RIP_MAX_ROUTES_def)
  then show ?thesis using chunks_spec [of 25] by (intro exI [of _ ?cs]) simp
qed

text \<open>C14. A router never hands a message for the RIP group 224.0.0.9 to a protocol handler, whatever the handlers are:
  \<open>router_ip_is_control_multicast\<close> lists only the two groups of OSPF, so the updates that \<open>rip_send_update\<close> sends
  are treated by their receivers as packets in transit and \<open>rip_receive\<close> is never reached.\<close>

theorem rip_group_unheard:
  assumes "router_wf w router" "pkt_at pkt w = Some p" "pkt_wf p" "ip_validate_header (Some p) = Some 0"
    and "visible p = ip_bytes h @ payload" "ns_ntohl (ih_dst_ip h) = RIP_MULTICAST"
    and "dev_at router w = Some d" "RIP_MULTICAST \<notin> local_addrs w d"
  shows "router_receive pcall router iface pkt w = router_receive pcall' router iface pkt w"
proof -
  have "20 \<le> pkt_len p" using length_visible [OF assms(3)] assms(5) by simp
  then have rd: "pkt_read p 0 IP_HDR_LEN = Some (ip_bytes h)"
    using pkt_read_within [OF assms(3), of 0 20] assms(5) by (simp add: IP_HDR_LEN_def)
  have "router_ip_is_local router RIP_MULTICAST w = Some 0" using router_local [OF assms(1,7), of RIP_MULTICAST] assms(8) by simp
  moreover have "\<not> router_ip_is_control_multicast RIP_MULTICAST"
    by (simp add: router_ip_is_control_multicast_def RIP_MULTICAST_def)
  moreover obtain r where "router_at router w = Some r" using assms(1) unfolding router_wf_def by blast
  moreover have "ip_load (ip_bytes h) = h" using ip_load_bytes [of h "[]"] by simp
  ultimately show ?thesis using assms(2,4,6) rd
    by (cases "router = NULL \<or> iface = NULL \<or> pkt = NULL"; cases "ro_sim r = NULL") (simp_all add: router_receive_def)
qed

section \<open>Instances\<close>

text \<open>A RIP speaker on the router of the example network, which knows one route, and a response with another one.\<close>

definition demo_rip_route :: RipRouteInfo where
  "demo_rip_route = \<lparr>ri_prefix = 0x0A020000, ri_prefix_len = 16, ri_state = RIP_ROUTE_ACTIVE, ri_valid = 1, ri_metric = 3,
     ri_next_hop = 0x0A000002, ri_learned_on = 2, ri_last_update = 2\<rparr>"

definition demo_rip :: RipState where
  "demo_rip = \<lparr>rs_db = demo_rip_route # replicate 127 zero_route_info, rs_db_count = 1, rs_ifaces = replicate RIP_MAX_IFACES NULL,
     rs_iface_count = 0, rs_sim = 7, rs_router = 30, rs_udp_state = NULL\<rparr>"

definition demo_rip_message :: Packet where
  "demo_rip_message = \<lparr>pkt_head = replicate 64 0 @ RipHeader 2 2 0 @ rip_wire_entry (demo_rip_route\<lparr>ri_prefix := 0x0A030000\<rparr>),
     pkt_data = 64, pkt_len = 24, pkt_capacity = 24, pkt_id = 5, pkt_trace_id = 5, pkt_parent_id = 0, pkt_layer = 4\<rparr>"

definition demo_rip_world :: rip_world where
  "demo_rip_world = \<lparr>w_mem = \<lparr>mem_next = 70, mem_oom = [], mem_junk = (\<lambda>_. 0)\<rparr>, w_next_id = 8,
     w_pkts = [4 \<mapsto> demo_rip_message, 9 \<mapsto> demo_transit\<lparr>pkt_head := replicate 44 0 @ ip_bytes (new_ip_header 0x0A000005 RIP_MULTICAST 17 2) @ [1, 2]\<rparr>],
     w_scheds = [5 \<mapsto> demo_sched], w_ifaces = [2 \<mapsto> demo_port, 3 \<mapsto> demo_eth1],
     w_devs = [30 \<mapsto> \<lparr>dev_name = ''R1'', dev_interfaces = [2], dev_iface_max = 8\<rparr>],
     w_links = [6 \<mapsto> demo_cable], w_topos = Map.empty, w_sims = [7 \<mapsto> \<lparr>sim_topo = 8, sim_sched = 5, sim_end_time = 0\<rparr>],
     w_caches = [30 \<mapsto> demo_arp_cache], w_stacks = [30 \<mapsto> \<lparr>st_sim = 7, st_protocols = replicate 256 \<lparr>pe_handler = Ip_NULL, pe_ctx = VNull\<rparr>\<rparr>],
     w_udps = Map.empty, w_udp_ctxs = Map.empty, w_routers = [30 \<mapsto> \<lparr>ro_route_tbl = empty_route_table, ro_sim = 7\<rparr>],
     w_switches = Map.empty, w_rips = [60 \<mapsto> demo_rip]\<rparr>"

lemma demo_rip_parts:
  "rip_at 60 demo_rip_world = Some demo_rip" "rs_sim demo_rip = 7" "rs_router demo_rip = 30"
  "router_at 30 demo_rip_world = Some \<lparr>ro_route_tbl = empty_route_table, ro_sim = 7\<rparr>" "pkt_at 4 demo_rip_world = Some demo_rip_message"
  "sim_at 7 demo_rip_world = Some \<lparr>sim_topo = 8, sim_sched = 5, sim_end_time = 0\<rparr>" "sched_at 5 demo_rip_world = Some demo_sched"
  "iface_at 2 demo_rip_world = Some demo_port" "iface_at 3 demo_rip_world = Some demo_eth1"
  "dev_at 30 demo_rip_world = Some \<lparr>dev_name = ''R1'', dev_interfaces = [2], dev_iface_max = 8\<rparr>"
  "cache_at 30 demo_rip_world = Some demo_arp_cache"
  "stack_at 30 demo_rip_world = Some \<lparr>st_sim = 7, st_protocols = replicate 256 \<lparr>pe_handler = Ip_NULL, pe_ctx = VNull\<rparr>\<rparr>"
  "pkt_at 9 demo_rip_world = Some (demo_transit\<lparr>pkt_head := replicate 44 0 @ ip_bytes (new_ip_header 0x0A000005 RIP_MULTICAST 17 2) @ [1, 2]\<rparr>)"
  "mem_oom (w_mem demo_rip_world) = []"
  by (simp_all add: demo_rip_world_def rip_at_def router_at_def pkt_at_def sim_at_def sched_at_def iface_at_def dev_at_def cache_at_def stack_at_def)
    (simp_all add: demo_rip_def)

lemma demo_rip_map: "rip_wf demo_rip" "rip_map demo_rip (0x0A020000, 16) = Some demo_rip_route"
proof -
  let ?z = "replicate 127 zero_route_info"
  have z: "rips.unique ?z" "rips.live_count ?z = 0" "rips.lookup ?z k = None" for k
    by (simp_all add: rips.unique_all_dead rips.live_count_all_dead rips.lookup_None_iff zero_route_info_def)
  then have "rips.live_count (rs_db demo_rip) = 1" by (simp add: demo_rip_def rips.live_count_def demo_rip_route_def zero_route_info_def)
  then show "rip_wf demo_rip" using z unfolding rip_wf_def
    by (auto simp: demo_rip_def rips.unique_Cons RIP_DB_SIZE_def rip_entry_ok_def demo_rip_route_def zero_route_info_def ipv4_prefix_mask_def RIP_INFINITY_def)
  show "rip_map demo_rip (0x0A020000, 16) = Some demo_rip_route"
    by (simp add: rip_map_def demo_rip_def rips.lookup_Cons demo_rip_route_def)
qed

lemma demo_rip_ok: "rip_ok demo_rip_world 60"
  using demo_rip_map(1) by (intro rip_okI [OF demo_rip_parts(1), where r = "\<lparr>ro_route_tbl = empty_route_table, ro_sim = 7\<rparr>"]) (simp_all add: demo_rip_parts empty_route_table_wf rip_backed_def)

lemma demo_rip_schedule: "can_schedule demo_rip_world \<lparr>sim_topo = 8, sim_sched = 5, sim_end_time = 0\<rparr> demo_sched"
  using demo_sched_wf by (simp add: can_schedule_def demo_rip_parts) (simp add: demo_sched_def PTRDIFF_MAX_def)

lemma rip_receive_sound_witness:
  "\<exists>w'. rip_receive 2 0x0A000002 520 4 (VRip 60) demo_rip_world = Some w' \<and> rip_ok w' 60 \<and> pkt_at 4 w' = None"
proof -
  have "pkt_wf demo_rip_message" by (simp add: demo_rip_message_def pkt_wf_def PKT_HEADROOM_def SIZE_MAX_def RipHeader_def RIP_ENTRY_LEN_def)
  then show ?thesis
    using rip_receive_sound [OF demo_rip_ok demo_rip_parts(1) _ demo_rip_parts(5), of 2 _ demo_sched] demo_rip_parts by simp
qed

lemma demo_sched_fields: "sch_now demo_sched = 4" "length (eq_list (sch_eq demo_sched)) = 2"
  by (simp_all add: demo_sched_def eq_list_def)

lemma rip_timeout_correct_witness:
  "\<exists>w' s' sch'. rip_timeout_handler (demo_event 9 2) (VRip 60) demo_rip_world = Some w' \<and> rip_ok w' 60 \<and> rip_at 60 w' = Some s' \<and>
    rip_map s' (0x0A020000, 16) = Some demo_rip_route \<and> sched_at 5 w' = Some sch' \<and> length (eq_list (sch_eq sch')) = 3"
proof -
  have sim: "sim_at (rs_sim demo_rip) demo_rip_world = Some \<lparr>sim_topo = 8, sim_sched = 5, sim_end_time = 0\<rparr>" by (simp add: demo_rip_parts)
  from rip_timeout_correct [OF demo_rip_ok demo_rip_parts(1) sim demo_rip_schedule, of "demo_event 9 2"] obtain w' s' sch' where
    "rip_timeout_handler (demo_event 9 2) (VRip 60) demo_rip_world = Some w'" "rip_ok w' 60" "rip_at 60 w' = Some s'" "sched_at 5 w' = Some sch'"
    "rip_map s' (0x0A020000, 16) = (case rip_map demo_rip (0x0A020000, 16) of None \<Rightarrow> None
       | Some r \<Rightarrow> if ri_state r = RIP_ROUTE_ACTIVE \<and> RIP_TIMEOUT_US < sch_now demo_sched - ri_last_update r
           then Some (r\<lparr>ri_metric := RIP_INFINITY, ri_state := RIP_ROUTE_GC\<rparr>) else Some r)"
    "length (eq_list (sch_eq sch')) = 3"
    using demo_sched_fields(2) by (auto simp: length_insert_by)
  then show ?thesis using demo_rip_map(2)
    by (intro exI [of _ w'] exI [of _ s'] exI [of _ sch']) (simp add: demo_sched_fields demo_rip_route_def RIP_TIMEOUT_US_def)
qed

lemma rip_gc_correct_witness:
  "\<exists>w' s' sch'. rip_gc_handler (demo_event 9 2) (VRip 60) demo_rip_world = Some w' \<and> rip_ok w' 60 \<and> rip_at 60 w' = Some s' \<and>
    rip_map s' (0x0A020000, 16) = Some demo_rip_route \<and> sched_at 5 w' = Some sch' \<and> length (eq_list (sch_eq sch')) = 3"
proof -
  have sim: "sim_at (rs_sim demo_rip) demo_rip_world = Some \<lparr>sim_topo = 8, sim_sched = 5, sim_end_time = 0\<rparr>" by (simp add: demo_rip_parts)
  from rip_gc_correct [OF demo_rip_ok demo_rip_parts(1) sim demo_rip_schedule, of "demo_event 9 2"] obtain w' s' sch' where
    "rip_gc_handler (demo_event 9 2) (VRip 60) demo_rip_world = Some w'" "rip_ok w' 60" "rip_at 60 w' = Some s'" "sched_at 5 w' = Some sch'"
    "rip_map s' (0x0A020000, 16) = (case rip_map demo_rip (0x0A020000, 16) of None \<Rightarrow> None
       | Some r \<Rightarrow> if ri_state r = RIP_ROUTE_GC \<and> RIP_TIMEOUT_US + RIP_GC_US < sch_now demo_sched - ri_last_update r then None else Some r)"
    "length (eq_list (sch_eq sch')) = 3"
    using demo_sched_fields(2) by (auto simp: length_insert_by)
  then show ?thesis using demo_rip_map(2)
    by (intro exI [of _ w'] exI [of _ s'] exI [of _ sch']) (simp add: demo_rip_route_def RIP_ROUTE_ACTIVE_def RIP_ROUTE_GC_def)
qed

lemma rip_entry_roundtrip_witness:
  "rip_receive_entry 60 3 0x0A000005 4 (rip_wire_entry demo_rip_route) demo_rip_world =
     rip_learn 60 3 4 0x0A020000 16 0x0A000002 (candidate_metric 3) demo_rip_world"
  using rip_entry_roundtrip [of demo_rip_route 60 3 "0x0A000005" 4 demo_rip_world]
  by (simp add: demo_rip_route_def ipv4_prefix_mask_def)

lemma rip_send_update_chunks_witness:
  "\<exists>cs. concat cs = [demo_rip_route] \<and>
    rip_send_update 60 3 demo_rip_world = send_messages 7 (ns_ntohl (if_ip_addr demo_eth1)) cs demo_rip_world"
  using rip_send_update_chunks [OF demo_rip_parts(1,9)]
  by (auto simp: demo_rip_def zero_route_info_def demo_rip_route_def)

lemma rip_group_unheard_witness:
  "router_receive (\<lambda>h i p ctx w. None) 30 2 9 demo_rip_world = router_receive (\<lambda>h i p ctx w. Some (0, w)) 30 2 9 demo_rip_world"
proof -
  let ?p = "demo_transit\<lparr>pkt_head := replicate 44 0 @ ip_bytes (new_ip_header 0x0A000005 RIP_MULTICAST 17 2) @ [1, 2]\<rparr>"
  have p: "pkt_wf ?p" "visible ?p = ip_bytes (new_ip_header 0x0A000005 RIP_MULTICAST 17 2) @ [1, 2]" "pkt_len ?p = 22"
    by (simp_all add: demo_transit_def pkt_wf_def PKT_HEADROOM_def SIZE_MAX_def visible_def)
  then have "ip_validate_header (Some ?p) = Some 0" using new_ip_header_checksum [of "0x0A000005" RIP_MULTICAST 17 2]
    by (simp add: validate_header_iff ip_bytes_first new_ip_header_fields)
  moreover have "router_wf demo_rip_world 30" using empty_route_table_wf(1) arp_init_wf(2)
    by (simp add: router_wf_def demo_rip_parts dev_wf_def demo_port_fields ROUTER_MAX_PORTS_def)
  moreover have "RIP_MULTICAST \<notin> local_addrs demo_rip_world \<lparr>dev_name = ''R1'', dev_interfaces = [2], dev_iface_max = 8\<rparr>"
    by (simp add: local_addrs_def demo_rip_parts demo_port_fields RIP_MULTICAST_def ns_ntohl_def ns_bswap32_def)
  ultimately show ?thesis
    using rip_group_unheard [OF _ demo_rip_parts(13) p(1) _ p(2) _ demo_rip_parts(10)] by (simp add: new_ip_header_fields)
qed

end
