(* ===== verification/Ip_Output.thy ===== *)
theory Ip_Output
  imports Ip
begin

text \<open>
  The safety of \<open>ip_output\<close> (\<open>protocols/ip.c\<close>), on which the transport protocols rest: in a network whose
  topology, devices, interfaces and ARP caches are live it never faults, keeps the network so, and leaves the packet
  with its caller or with the ARP cache. Steps compose, so that a client of \<open>ip_output\<close> proves its own operations from
  these lemmas.
\<close>

section \<open>Live networks\<close>

definition topo_live :: "addr \<Rightarrow> 'a sim_world_scheme \<Rightarrow> bool" where
  "topo_live sim w \<longleftrightarrow> (\<forall>m. sim_at sim w = Some m \<longrightarrow> sim_topo m = NULL \<or> (\<exists>t. topo_at (sim_topo m) w = Some t \<and>
     (\<forall>d \<in> set (tp_devices t). d = NULL \<or> (\<exists>dev. dev_at d w = Some dev \<and>
        (\<forall>a \<in> set (dev_interfaces dev). a = NULL \<or> iface_at a w \<noteq> None)))))"

definition caches_live :: "'a arp_world_scheme \<Rightarrow> bool" where
  "caches_live w \<longleftrightarrow> (\<forall>a i. iface_at a w = Some i \<longrightarrow> if_arp_cache i \<noteq> NULL \<longrightarrow>
     (\<exists>c. cache_at (if_arp_cache i) w = Some c \<and> arp_cache_wf c))"

definition ip_ready :: "addr \<Rightarrow> 'a arp_world_scheme \<Rightarrow> bool" where
  "ip_ready sim w \<longleftrightarrow> net_wf sim w \<and> topo_live sim w \<and> caches_live w"

text \<open>A step of the network layer: packets outside \<open>X\<close> stay as they are, and nothing above the ARP caches changes.\<close>

definition ip_step :: "addr \<Rightarrow> addr set \<Rightarrow> 'a arp_world_scheme \<Rightarrow> 'a arp_world_scheme \<Rightarrow> bool" where
  "ip_step sim X w w' \<longleftrightarrow> ip_ready sim w' \<and> arp_world.more w' = arp_world.more w \<and> same_ifaces w w' \<and>
     w_devs w' = w_devs w \<and> w_links w' = w_links w \<and> w_topos w' = w_topos w \<and> w_sims w' = w_sims w \<and>
     (\<forall>a. a \<notin> X \<longrightarrow> pkt_at a w \<noteq> None \<longrightarrow> pkt_at a w' = pkt_at a w)"

lemma ip_step_refl: "ip_ready sim w \<Longrightarrow> ip_step sim X w w"
  by (simp add: ip_step_def)

lemma ip_step_trans: "ip_step sim X u v \<Longrightarrow> ip_step sim X v w \<Longrightarrow> ip_step sim X u w"
  unfolding ip_step_def by (metis same_ifaces_trans)

lemma ip_step_mono: "ip_step sim X w w' \<Longrightarrow> X \<subseteq> Y \<Longrightarrow> ip_step sim Y w w'"
  unfolding ip_step_def by blast

lemma ip_step_fresh: "ip_step sim (insert a X) w w' \<Longrightarrow> pkt_at a w = None \<Longrightarrow> ip_step sim X w w'"
  unfolding ip_step_def by (metis insertE)

lemma ip_step_ready: "ip_step sim X w w' \<Longrightarrow> ip_ready sim w'"
  by (simp add: ip_step_def)

lemma ip_step_pkt: "ip_step sim X w w' \<Longrightarrow> a \<notin> X \<Longrightarrow> pkt_at a w = Some p \<Longrightarrow> pkt_at a w' = Some p"
  by (simp add: ip_step_def)

lemma same_ifaces_live: "same_ifaces w w' \<Longrightarrow> iface_at a w' \<noteq> None \<longleftrightarrow> iface_at a w \<noteq> None"
  unfolding same_ifaces_def by (metis option.map_disc_iff)

lemma ip_step_iface: "ip_step sim X w w' \<Longrightarrow> iface_at a w' \<noteq> None \<longleftrightarrow> iface_at a w \<noteq> None"
  unfolding ip_step_def using same_ifaces_live by blast

lemma ip_ready_net: "ip_ready sim w \<Longrightarrow> net_wf sim w"
  by (simp add: ip_ready_def)

lemma topo_live_frame:
  assumes "topo_live sim w" "same_ifaces w w'" "w_devs w' = w_devs w" "w_topos w' = w_topos w" "w_sims w' = w_sims w"
  shows "topo_live sim w'"
  using assms(1) unfolding topo_live_def sim_at_def topo_at_def dev_at_def assms(3-5)
  by (simp only: same_ifaces_live [OF assms(2)])

lemma caches_live_frame:
  assumes "caches_live w" "same_ifaces w w'" "w_caches w' = w_caches w"
  shows "caches_live w'"
  unfolding caches_live_def
proof (intro allI impI)
  fix a i' assume i': "iface_at a w' = Some i'" "if_arp_cache i' \<noteq> NULL"
  then obtain i where i: "iface_at a w = Some i" "iface_core i' = iface_core i"
    using assms(2) [unfolded same_ifaces_def, rule_format, of a] by (cases "iface_at a w") auto
  have "if_arp_cache i' = if_arp_cache i" using arg_cong [OF i(2), of if_arp_cache] by (simp add: iface_core_def)
  then show "\<exists>c. cache_at (if_arp_cache i') w' = Some c \<and> arp_cache_wf c"
    using assms(1,3) i(1) i'(2) by (simp add: caches_live_def cache_at_def)
qed

text \<open>Every step of the link layer is one of the network layer.\<close>

lemma ip_step_safe:
  assumes "ip_ready sim w" "safe_step sim X w w'"
  shows "ip_step sim X w w'"
proof -
  have f: "net_frame w w'" "net_wf sim w'" using assms(2) by (simp_all add: safe_step_def)
  have "iface_world.more w' = iface_world.more w" using f(1) by (simp add: net_frame_def)
  then have m: "w_devs w' = w_devs w" "w_links w' = w_links w" "w_topos w' = w_topos w" "w_sims w' = w_sims w" "w_caches w' = w_caches w"
    "arp_world.more w' = arp_world.more w" by (cases w; cases w'; simp)+
  note s = same_ifaces_net_frame [OF f(1)]
  have "topo_live sim w" "caches_live w" using assms(1) by (simp_all add: ip_ready_def)
  then have "ip_ready sim w'" unfolding ip_ready_def using f(2) topo_live_frame [OF _ s m(1,3,4)] caches_live_frame [OF _ s m(5)] by blast
  then show ?thesis using assms(2) m s by (simp add: ip_step_def safe_step_def)
qed

lemma ip_step_cache_put:
  assumes "ip_ready sim w" "a \<noteq> NULL" "arp_cache_wf c"
  shows "ip_step sim X w (cache_put a c w)"
proof -
  have "topo_live sim w" using assms(1) by (simp add: ip_ready_def)
  then have "topo_live sim (cache_put a c w)"
    by (rule topo_live_frame) (simp add: same_ifaces_def, simp_all add: cache_put_def)
  moreover have "caches_live (cache_put a c w)" using assms by (auto simp: ip_ready_def caches_live_def)
  ultimately have "ip_ready sim (cache_put a c w)" using assms(1) by (simp add: ip_ready_def)
  then show ?thesis unfolding ip_step_def by (simp add: same_ifaces_def) (simp add: cache_put_def)
qed

section \<open>Output\<close>

lemma source_iface_in_live:
  "\<forall>a \<in> set as. a = NULL \<or> iface_at a w \<noteq> None \<Longrightarrow> \<exists>r. source_iface_in src as w = Some r \<and> (r = NULL \<or> iface_at r w \<noteq> None)"
  by (induction "as") auto

lemma source_iface_of_live:
  "\<forall>d \<in> set ds. d = NULL \<or> (\<exists>dev. dev_at d w = Some dev \<and> (\<forall>a \<in> set (dev_interfaces dev). a = NULL \<or> iface_at a w \<noteq> None)) \<Longrightarrow>
   \<exists>r. source_iface_of src ds w = Some r \<and> (r = NULL \<or> iface_at r w \<noteq> None)"
proof (induction ds)
  case (Cons d ds)
  then obtain r where r: "source_iface_of src ds w = Some r" "r = NULL \<or> iface_at r w \<noteq> None" by auto
  show ?case
  proof (cases "d = NULL")
    case False
    then obtain dev where dev: "dev_at d w = Some dev" "\<forall>a \<in> set (dev_interfaces dev). a = NULL \<or> iface_at a w \<noteq> None"
      using Cons.prems by auto
    obtain a where "source_iface_in src (dev_interfaces dev) w = Some a" "a = NULL \<or> iface_at a w \<noteq> None"
      using source_iface_in_live [OF dev(2)] by blast
    then show ?thesis using False dev(1) r by auto
  qed (use r in simp)
qed simp

lemma find_source_live:
  assumes "ip_ready sim w" "sim \<noteq> NULL"
  obtains r where "ip_find_source_iface sim src w = Some r" "r = NULL \<or> iface_at r w \<noteq> None"
proof -
  obtain m where m: "sim_at sim w = Some m" using assms(1) by (auto simp: ip_ready_def net_wf_def sim_ready_def)
  show thesis
  proof (cases "sim_topo m = NULL")
    case True
    then show thesis using that m assms(2) by (simp add: ip_find_source_iface_def)
  next
    case False
    then obtain t where t: "topo_at (sim_topo m) w = Some t" "\<forall>d \<in> set (tp_devices t). d = NULL \<or> (\<exists>dev. dev_at d w = Some dev \<and>
        (\<forall>a \<in> set (dev_interfaces dev). a = NULL \<or> iface_at a w \<noteq> None))"
      using assms(1) m unfolding ip_ready_def topo_live_def by auto
    from source_iface_of_live [OF t(2), of "ns_htonl src"] show thesis
      using that m False t(1) assms(2) by (auto simp: ip_find_source_iface_def)
  qed
qed

lemma ip_prepend_safe:
  assumes "ip_ready sim w" "pkt_at pkt w \<noteq> None"
  obtains r w' where "ip_prepend_header src dst pr pkt w = Some (r, w')" "r \<in> {0, - 1}" "ip_step sim {pkt} w w'" "pkt_at pkt w' \<noteq> None"
    "\<And>a. iface_at a w' = iface_at a w"
proof -
  obtain p where p: "pkt_at pkt w = Some p" using assms(2) by auto
  note nn = pkt_at_nonnull [OF p]
  note net = ip_ready_net [OF assms(1)]
  let ?h = "ip_bytes (new_ip_header src dst pr (pkt_len p))"
  obtain r p' where q: "packet_prepend pkt ?h w = Some (r, pkt_put pkt p' w)" "pkt_wf p'" "r \<in> {0, - 1}"
    by (rule packet_prepend_heap [OF p, of ?h]) (use net in \<open>simp_all add: net_wf_def\<close>)
  have wf: "pkt_wf (p'\<lparr>pkt_layer := 3\<rparr>)" using q(2) by (simp add: pkt_wf_def)
  have put: "pkt_put pkt x (pkt_put pkt y w) = pkt_put pkt x w" for x y by (simp add: pkt_put_def)
  show thesis
  proof (cases "r = - 1")
    case True
    show thesis by (rule that [of "- 1" "pkt_put pkt p' w"])
      (use True p q(1) nn ip_step_safe [OF assms(1) safe_step_put [OF net assms(2) q(2)]] in \<open>simp_all add: ip_prepend_header_def\<close>)
  next
    case False
    show thesis by (rule that [of 0 "pkt_put pkt (p'\<lparr>pkt_layer := 3\<rparr>) w"])
      (use False p q(1) nn put ip_step_safe [OF assms(1) safe_step_put [OF net assms(2) wf]] in \<open>simp_all add: ip_prepend_header_def\<close>)
  qed
qed

lemma ip_transmit_safe:
  assumes "ip_ready sim w" "iface_at iface w \<noteq> None" "pkt_at pkt w \<noteq> None"
  obtains r w' where "ip_transmit sim iface mac pkt w = Some (r, w')" "r \<in> {1, - 1}" "ip_step sim {pkt} w w'" "pkt_at pkt w' \<noteq> None"
proof -
  note net = ip_ready_net [OF assms(1)]
  obtain p where p: "pkt_at pkt w = Some p" using assms(3) by auto
  have "\<exists>now. simulator_now sim w = Some now" using net by (auto simp: net_wf_def sim_ready_def simulator_now_def)
  then obtain now where now: "simulator_now sim w = Some now" ..
  let ?f = "\<lambda>i. i\<lparr>if_tx_bytes := if_tx_bytes i + of_nat (pkt_len p), if_last_tx_time := now\<rparr>"
  obtain w1 where 1: "iface_upd iface ?f w = Some w1" "safe_step sim {} w w1" "\<And>b. pkt_at b w1 = pkt_at b w"
    by (rule safe_step_count [OF net assms(2), of ?f]) (simp_all add: iface_core_def)
  have l: "iface_at iface w1 \<noteq> None" "pkt_at pkt w1 \<noteq> None" using safe_step_iface [OF 1(2) assms(2)] 1(3) assms(3) by simp_all
  obtain r w2 where 2: "ethernet_send sim iface (Some mac) ETHERTYPE_IPV4 pkt w1 = Some (r, w2)" "r \<in> {1, - 1}" "safe_step sim {pkt} w1 w2"
    "pkt_at pkt w2 \<noteq> None" by (rule safe_step_send [OF safe_step_wf [OF 1(2)] l])
  have "safe_step sim {pkt} w w2" by (rule safe_step_trans [OF safe_step_mono [OF 1(2)] 2(3)]) simp
  then show thesis using that [of r w2] 1(1) 2 p now ip_step_safe [OF assms(1)] by (simp add: ip_transmit_def)
qed

lemma ip_resolve_safe:
  assumes "ip_ready sim w" "iface_at iface w = Some i" "if_arp_cache i \<noteq> NULL" "pkt_at pkt w \<noteq> None"
  obtains r w' where "ip_resolve_and_send sim iface dst pkt w = Some (r, w')" "r \<in> {0, 1, - 1}" "ip_step sim {pkt} w w'" "pkt_at pkt w' \<noteq> None"
proof -
  note net = ip_ready_net [OF assms(1)]
  have live: "iface_at iface w \<noteq> None" using assms(2) by simp
  obtain c where c: "cache_at (if_arp_cache i) w = Some c" "arp_cache_wf c" using assms by (auto simp: ip_ready_def caches_live_def)
  show thesis
  proof (cases "arp_cache_lookup (Some c) dst True")
    case (Pair e m)
    show thesis
    proof (cases m)
      case (Some mac)
      from ip_transmit_safe [OF assms(1) live assms(4), of mac] obtain r w' where
        "ip_transmit sim iface mac pkt w = Some (r, w')" "r \<in> {1, - 1}" "ip_step sim {pkt} w w'" "pkt_at pkt w' \<noteq> None" .
      then show thesis using that [of r w'] assms(2) c Pair Some by (simp add: ip_resolve_and_send_def)
    next
      case None
      obtain r w1 where 1: "arp_send_request sim iface (ns_htonl dst) w = Some (r, w1)" "r \<in> {0, - 1}" "safe_step sim {} w w1"
        by (rule arp_send_request_safe [OF net live])
      have s1: "ip_step sim {pkt} w w1" by (rule ip_step_safe [OF assms(1) safe_step_mono [OF 1(3)]]) simp
      have p1: "pkt_at pkt w1 \<noteq> None" using 1(3) assms(4) by (auto simp: safe_step_def)
      obtain i1 where i1: "iface_at iface w1 = Some i1" "iface_core i1 = iface_core i"
        using same_ifaces_at [OF _ assms(2), of w1] s1 by (auto simp: ip_step_def)
      have ac: "if_arp_cache i1 = if_arp_cache i" using arg_cong [OF i1(2), of if_arp_cache] by (simp add: iface_core_def)
      have c1: "cache_at (if_arp_cache i) w1 = Some c" using 1(3) c(1) net_frame_cache [of w w1] by (simp add: safe_step_def)
      show thesis
      proof (cases "r = 0")
        case False
        then show thesis using that [of "- 1" w1] 1(1) s1 p1 assms(2) c Pair None by (simp add: ip_resolve_and_send_def)
      next
        case True
        have "ns_htonl 0 = 0" by (simp add: ns_htonl_def ns_bswap32_def)
        with True have d: "dst \<noteq> 0" using 1(1) by (auto simp: arp_send_request_def)
        obtain e' c' where e: "arp_pending_enqueue (Some c) iface dst ETHERTYPE_IPV4 pkt = (e', Some c')" "arp_cache_wf c'"
          using arp_enqueue_outcome [OF c(2) iface_at_nonnull [OF assms(2)] d, of pkt ETHERTYPE_IPV4] assms(4)
          by (auto dest: pkt_at_nonnull)
        have s2: "ip_step sim {pkt} w (cache_put (if_arp_cache i) c' w1)"
          by (rule ip_step_trans [OF s1 ip_step_cache_put [OF ip_step_ready [OF s1] assms(3) e(2)]])
        show thesis by (rule that [of "if e' \<noteq> 0 then - 1 else 0" "cache_put (if_arp_cache i) c' w1"])
          (use True 1(1) s2 p1 assms(2) c(1) Pair None i1(1) ac c1 e(1) in \<open>simp_all add: ip_resolve_and_send_def\<close>)
      qed
    qed
  qed
qed

lemma ip_output_total:
  assumes "ip_ready sim w" "pkt_at pkt w \<noteq> None"
  obtains r w' where "ip_output sim src dst pr pkt w = Some (r, w')" "r \<in> {0, 1, - 1}" "ip_step sim {pkt} w w'" "pkt_at pkt w' \<noteq> None"
proof -
  have nn: "sim \<noteq> NULL" "pkt \<noteq> NULL" using assms
    by (auto simp: ip_ready_def net_wf_def sim_ready_def dest: sim_at_nonnull pkt_at_nonnull)
  note refused = that [OF _ _ ip_step_refl [OF assms(1)] assms(2), of "- 1"]
  obtain iface where f: "ip_find_source_iface sim src w = Some iface" "iface = NULL \<or> iface_at iface w \<noteq> None"
    by (rule find_source_live [OF assms(1) nn(1), of src])
  show thesis
  proof (cases "iface = NULL")
    case True
    then show thesis using refused f(1) nn by (simp add: ip_output_def interface_is_up_def)
  next
    case False
    then obtain i where i: "iface_at iface w = Some i" using f(2) by auto
    have up: "interface_is_up iface w = Some (if if_up i \<noteq> 0 then 1 else 0)" using False i by (simp add: interface_is_up_def)
    obtain r1 w1 where 1: "ip_prepend_header src dst pr pkt w = Some (r1, w1)" "r1 \<in> {0, - 1}" "ip_step sim {pkt} w w1"
      "pkt_at pkt w1 \<noteq> None" "\<And>a. iface_at a w1 = iface_at a w" by (rule ip_prepend_safe [OF assms, of src dst pr]) blast
    note rd = ip_step_ready [OF 1(3)]
    have i1: "iface_at iface w1 = Some i" using 1(5) i by simp
    have l1: "iface_at iface w1 \<noteq> None" using i1 by simp
    show thesis
    proof (cases "ip_is_multicast dst \<noteq> 0")
      case True
      then obtain mac where mac: "ip_multicast_to_mac dst True = (0, Some mac)" by (auto simp: ip_multicast_to_mac_def)
      obtain r2 w2 where 2: "ip_transmit sim iface mac pkt w1 = Some (r2, w2)" "r2 \<in> {1, - 1}" "ip_step sim {pkt} w1 w2" "pkt_at pkt w2 \<noteq> None"
        by (rule ip_transmit_safe [OF rd l1 1(4), of mac]) blast
      show thesis
      proof (cases "if_up i = 0")
        case True
        then show thesis using refused f(1) nn up by (simp add: ip_output_def)
      next
        case up': False
        show thesis
        proof (cases "r1 = - 1")
          case fail: True
          then show thesis using that [OF _ _ 1(3,4), of "- 1"] f(1) nn up up' True mac 1(1) False by (simp add: ip_output_def)
        next
          case ok: False
          then show thesis using that [OF _ _ ip_step_trans [OF 1(3) 2(3)] 2(4), of r2] f(1) nn up up' True mac 1(1) 2(1,2) False
            by (auto simp: ip_output_def)
        qed
      qed
    next
      case uni: False
      show thesis
      proof (cases "if_up i = 0 \<or> if_arp_cache i = NULL \<or> \<not> ip_same_subnet (ns_ntohl (if_ip_addr i)) dst (if_prefix_len i) \<or> r1 = - 1")
        case True
        then show thesis using refused that [OF _ _ 1(3,4), of "- 1"] f(1) nn up uni False i 1(1)
          by (cases "if_up i = 0 \<or> if_arp_cache i = NULL \<or> \<not> ip_same_subnet (ns_ntohl (if_ip_addr i)) dst (if_prefix_len i)")
             (auto simp: ip_output_def)
      next
        case ok: False
        then obtain r2 w2 where 2: "ip_resolve_and_send sim iface dst pkt w1 = Some (r2, w2)" "r2 \<in> {0, 1, - 1}" "ip_step sim {pkt} w1 w2"
          "pkt_at pkt w2 \<noteq> None" using ip_resolve_safe [OF rd i1 _ 1(4), of dst] by blast
        then show thesis using that [OF _ _ ip_step_trans [OF 1(3) 2(3)] 2(4), of r2] f(1) nn up uni False ok i 1(1)
          by (simp add: ip_output_def)
      qed
    qed
  qed
qed

end
