(* ===== verification/Tcp.thy ===== *)
theory Tcp
  imports Rip Ip_Output
begin

text \<open>
  TCP (\<open>protocols/tcp.h\<close>, \<open>protocols/tcp.c\<close>): connection tables, segments, the state machine of \<open>tcp_receive\<close>,
  opening, sending, closing and the two timers. Tables live in the heap \<open>w_tcps\<close>; a \<open>Tcb *\<close> is the address of
  its table with the index of the slot, and \<open>None\<close> for \<open>NULL\<close>. The receive and connect handlers that a client
  registers are parameters of the operations that call them.
\<close>

section \<open>State\<close>

definition TCP_HDR_LEN :: nat where "TCP_HDR_LEN = 20"
definition TCP_HDR_WORDS :: u16 where "TCP_HDR_WORDS = 5"
definition TCP_FLAG_FIN :: u8 where "TCP_FLAG_FIN = 0x01"
definition TCP_FLAG_SYN :: u8 where "TCP_FLAG_SYN = 0x02"
definition TCP_FLAG_PSH :: u8 where "TCP_FLAG_PSH = 0x08"
definition TCP_FLAG_ACK :: u8 where "TCP_FLAG_ACK = 0x10"
definition TCP_MAX_CONNS :: nat where "TCP_MAX_CONNS = 64"
definition TCP_MAX_INFLIGHT :: nat where "TCP_MAX_INFLIGHT = 1"
definition TCP_RETRANSMIT_US :: u64 where "TCP_RETRANSMIT_US = 1000000"
definition TCP_TIME_WAIT_US :: u64 where "TCP_TIME_WAIT_US = 2 * TCP_RETRANSMIT_US"
definition TCP_MSS :: nat where "TCP_MSS = 1460"
definition TCP_DEFAULT_WINDOW :: u16 where "TCP_DEFAULT_WINDOW = 65535"

definition TcpHeader :: "u16 \<Rightarrow> u16 \<Rightarrow> u32 \<Rightarrow> u32 \<Rightarrow> u16 \<Rightarrow> u16 \<Rightarrow> u16 \<Rightarrow> u16 \<Rightarrow> bytes" where
  "TcpHeader src_port dst_port seq_num ack_num data_off_flags window checksum urgent_ptr =
     put16 src_port @ put16 dst_port @ put32 seq_num @ put32 ack_num @ put16 data_off_flags @ put16 window @
     put16 checksum @ put16 urgent_ptr"

datatype TcpState =
    TCP_CLOSED
  | TCP_LISTEN
  | TCP_SYN_SENT
  | TCP_SYN_RECEIVED
  | TCP_ESTABLISHED
  | TCP_FIN_WAIT_1
  | TCP_FIN_WAIT_2
  | TCP_CLOSE_WAIT
  | TCP_CLOSING
  | TCP_LAST_ACK
  | TCP_TIME_WAIT

datatype TcpRecvHandler = Tcp_recv_NULL | Tcp_recv_extern nat

datatype TcpConnectHandler = Tcp_connect_NULL | Tcp_connect_extern nat

record TcpSegment =
  sg_pkt :: addr
  sg_seq_start :: u32
  sg_seq_end :: u32
  sg_flags :: u8
  sg_sent_ts :: u64
  sg_retransmits :: int
  sg_acked :: int

record TcbSendQueue =
  sq_entries :: "TcpSegment list"
  sq_count :: int

record Tcb =
  tb_local_ip :: u32
  tb_remote_ip :: u32
  tb_local_port :: u16
  tb_remote_port :: u16
  tb_state :: TcpState
  tb_snd_una :: u32
  tb_snd_nxt :: u32
  tb_rcv_nxt :: u32
  tb_rcv_wnd :: u16
  tb_snd_wnd :: u16
  tb_sendq :: TcbSendQueue
  tb_retransmit_ts :: u64
  tb_recv_handler :: TcpRecvHandler
  tb_connect_handler :: TcpConnectHandler
  tb_handler_ctx :: vptr
  tb_valid :: int

record TcpTable =
  tt_tcbs :: "Tcb list"
  tt_count :: int

record TcpContext =
  tx_sim :: addr
  tx_table :: addr

record tcp_world = rip_world +
  w_tcps :: "addr \<rightharpoonup> TcpTable"
  w_tcp_ctxs :: "addr \<rightharpoonup> TcpContext"

type_synonym tcb_ptr = "(addr \<times> nat) option"

type_synonym 'a tcp_recv_call = "TcpRecvHandler \<Rightarrow> addr \<times> nat \<Rightarrow> addr \<Rightarrow> vptr \<Rightarrow> 'a tcp_world_scheme \<Rightarrow> 'a tcp_world_scheme option"

type_synonym 'a tcp_connect_call = "TcpConnectHandler \<Rightarrow> addr \<times> nat \<Rightarrow> vptr \<Rightarrow> 'a tcp_world_scheme \<Rightarrow> 'a tcp_world_scheme option"

definition tcp_at :: "addr \<Rightarrow> 'a tcp_world_scheme \<Rightarrow> TcpTable option" where
  "tcp_at a w = (if a = NULL then None else w_tcps w a)"

definition tcp_put :: "addr \<Rightarrow> TcpTable \<Rightarrow> 'a tcp_world_scheme \<Rightarrow> 'a tcp_world_scheme" where
  "tcp_put a t w = w\<lparr>w_tcps := (w_tcps w)(a \<mapsto> t)\<rparr>"

definition tcp_ctx_at :: "addr \<Rightarrow> 'a tcp_world_scheme \<Rightarrow> TcpContext option" where
  "tcp_ctx_at a w = (if a = NULL then None else w_tcp_ctxs w a)"

text \<open>Reading and writing through a \<open>Tcb *\<close>.\<close>

definition tcb_at :: "addr \<times> nat \<Rightarrow> 'a tcp_world_scheme \<Rightarrow> Tcb option" where
  "tcb_at tcb w = do { t \<leftarrow> tcp_at (fst tcb) w; if snd tcb < length (tt_tcbs t) then Some (tt_tcbs t ! snd tcb) else None }"

definition tcb_upd :: "addr \<times> nat \<Rightarrow> (Tcb \<Rightarrow> Tcb) \<Rightarrow> 'a tcp_world_scheme \<Rightarrow> 'a tcp_world_scheme option" where
  "tcb_upd tcb f w = do {
     t \<leftarrow> tcp_at (fst tcb) w;
     if snd tcb < length (tt_tcbs t)
     then Some (tcp_put (fst tcb) (t\<lparr>tt_tcbs := (tt_tcbs t)[snd tcb := f (tt_tcbs t ! snd tcb)]\<rparr>) w)
     else None
   }"

definition as_tcp_ctx :: "vptr \<Rightarrow> addr option" where
  "as_tcp_ctx v = (case v of VNull \<Rightarrow> Some NULL | VTcpCtx a \<Rightarrow> Some a | _ \<Rightarrow> None)"

definition as_tcp_table :: "vptr \<Rightarrow> addr option" where
  "as_tcp_table v = (case v of VNull \<Rightarrow> Some NULL | VTcpTable a \<Rightarrow> Some a | _ \<Rightarrow> None)"

definition as_tcb :: "vptr \<Rightarrow> tcb_ptr option" where
  "as_tcb v = (case v of VNull \<Rightarrow> Some None | VTcb a i \<Rightarrow> Some (Some (a, i)) | _ \<Rightarrow> None)"

definition zero_segment :: TcpSegment where
  "zero_segment = \<lparr>sg_pkt = NULL, sg_seq_start = 0, sg_seq_end = 0, sg_flags = 0, sg_sent_ts = 0, sg_retransmits = 0, sg_acked = 0\<rparr>"

definition zero_tcb :: Tcb where
  "zero_tcb = \<lparr>tb_local_ip = 0, tb_remote_ip = 0, tb_local_port = 0, tb_remote_port = 0, tb_state = TCP_CLOSED,
     tb_snd_una = 0, tb_snd_nxt = 0, tb_rcv_nxt = 0, tb_rcv_wnd = 0, tb_snd_wnd = 0,
     tb_sendq = \<lparr>sq_entries = replicate TCP_MAX_INFLIGHT zero_segment, sq_count = 0\<rparr>, tb_retransmit_ts = 0,
     tb_recv_handler = Tcp_recv_NULL, tb_connect_handler = Tcp_connect_NULL, tb_handler_ctx = VNull, tb_valid = 0\<rparr>"

section \<open>Connection blocks\<close>

definition tcp_alloc_tcb :: "addr \<Rightarrow> 'a tcp_world_scheme \<Rightarrow> (tcb_ptr \<times> 'a tcp_world_scheme) option" where
  "tcp_alloc_tcb table w =
     (if table = NULL then Some (None, w)
      else do {
        t \<leftarrow> tcp_at table w;
        case first_idx (\<lambda>x. tb_valid x = 0) (tt_tcbs t) of
          None \<Rightarrow> Some (None, w)
        | Some i \<Rightarrow> Some (Some (table, i),
            tcp_put table (t\<lparr>tt_tcbs := (tt_tcbs t)[i := zero_tcb\<lparr>tb_valid := 1\<rparr>], tt_count := tt_count t + 1\<rparr>) w)
      })"

fun free_segments :: "TcpSegment list \<Rightarrow> 'a tcp_world_scheme \<Rightarrow> 'a tcp_world_scheme option" where
  "free_segments [] w = Some w"
| "free_segments (s # ss) w =
     (if sg_pkt s \<noteq> NULL then do { w \<leftarrow> packet_free (sg_pkt s) w; free_segments ss w } else free_segments ss w)"

definition tcp_release_tcb :: "addr \<Rightarrow> tcb_ptr \<Rightarrow> 'a tcp_world_scheme \<Rightarrow> 'a tcp_world_scheme option" where
  "tcp_release_tcb table tcb w = (case tcb of None \<Rightarrow> Some w | Some b \<Rightarrow>
     if table = NULL then Some w
     else do {
       x \<leftarrow> tcb_at b w;
       w \<leftarrow> free_segments (sq_entries (tb_sendq x)) w;
       w \<leftarrow> tcb_upd b (\<lambda>_. zero_tcb) w;
       t \<leftarrow> tcp_at table w;
       Some (tcp_put table (t\<lparr>tt_count := (if 0 < tt_count t then tt_count t - 1 else tt_count t)\<rparr>) w)
     })"

definition tcp_sendq_has_unacked :: "Tcb option \<Rightarrow> int" where
  "tcp_sendq_has_unacked tcb = (case tcb of None \<Rightarrow> 0 | Some x \<Rightarrow>
     if list_ex (\<lambda>s. sg_pkt s \<noteq> NULL \<and> sg_acked s = 0) (sq_entries (tb_sendq x)) then 1 else 0)"

definition tcp_sendq_track :: "tcb_ptr \<Rightarrow> addr \<Rightarrow> u32 \<Rightarrow> u32 \<Rightarrow> u8 \<Rightarrow> u64 \<Rightarrow> 'a tcp_world_scheme \<Rightarrow>
    (int \<times> 'a tcp_world_scheme) option" where
  "tcp_sendq_track tcb clone seq_start seq_end flags now w = (case tcb of None \<Rightarrow> Some (- 1, w) | Some b \<Rightarrow>
     if clone = NULL then Some (- 1, w)
     else do {
       x \<leftarrow> tcb_at b w;
       let q = tb_sendq x;
       if int TCP_MAX_INFLIGHT \<le> sq_count q then Some (- 1, w)
       else (case first_idx (\<lambda>s. sg_pkt s = NULL) (sq_entries q) of
           None \<Rightarrow> Some (- 1, w)
         | Some i \<Rightarrow> do {
             w \<leftarrow> tcb_upd b (\<lambda>x. x\<lparr>tb_sendq := \<lparr>sq_entries = (sq_entries q)[i := \<lparr>sg_pkt = clone, sg_seq_start = seq_start,
               sg_seq_end = seq_end, sg_flags = flags, sg_sent_ts = now, sg_retransmits = 0, sg_acked = 0\<rparr>],
               sq_count = sq_count q + 1\<rparr>\<rparr>) w;
             Some (0, w)
           })
     })"

fun ack_segments :: "u32 \<Rightarrow> TcpSegment list \<Rightarrow> int \<Rightarrow> 'a tcp_world_scheme \<Rightarrow> (TcpSegment list \<times> int \<times> 'a tcp_world_scheme) option" where
  "ack_segments ack [] n w = Some ([], n, w)"
| "ack_segments ack (s # ss) n w =
     (if sg_pkt s \<noteq> NULL \<and> sg_seq_end s \<le> ack then do {
        w \<leftarrow> packet_free (sg_pkt s) w;
        (ss, n, w) \<leftarrow> ack_segments ack ss (n - 1) w;
        Some (s\<lparr>sg_acked := 1, sg_pkt := NULL\<rparr> # ss, n, w)
      }
      else do { (ss, n, w) \<leftarrow> ack_segments ack ss n w; Some (s # ss, n, w) })"

definition tcp_sendq_ack :: "tcb_ptr \<Rightarrow> u32 \<Rightarrow> 'a tcp_world_scheme \<Rightarrow> 'a tcp_world_scheme option" where
  "tcp_sendq_ack tcb ack w = (case tcb of None \<Rightarrow> Some w | Some b \<Rightarrow> do {
     x \<leftarrow> tcb_at b w;
     (es, n, w) \<leftarrow> ack_segments ack (sq_entries (tb_sendq x)) (sq_count (tb_sendq x)) w;
     tcb_upd b (\<lambda>x. x\<lparr>tb_sendq := \<lparr>sq_entries = es, sq_count = n\<rparr>\<rparr>) w
   })"

definition exact_match :: "u32 \<Rightarrow> u16 \<Rightarrow> u32 \<Rightarrow> u16 \<Rightarrow> Tcb \<Rightarrow> bool" where
  "exact_match local_ip local_port remote_ip remote_port x \<longleftrightarrow> tb_valid x \<noteq> 0 \<and> tb_state x \<noteq> TCP_LISTEN \<and>
     tb_local_ip x = local_ip \<and> tb_local_port x = local_port \<and> tb_remote_ip x = remote_ip \<and> tb_remote_port x = remote_port"

definition tcp_find_exact :: "TcpTable option \<Rightarrow> u32 \<Rightarrow> u16 \<Rightarrow> u32 \<Rightarrow> u16 \<Rightarrow> nat option" where
  "tcp_find_exact table local_ip local_port remote_ip remote_port = (case table of None \<Rightarrow> None | Some t \<Rightarrow>
     first_idx (exact_match local_ip local_port remote_ip remote_port) (tt_tcbs t))"

definition listener_match :: "u32 \<Rightarrow> u16 \<Rightarrow> Tcb \<Rightarrow> bool" where
  "listener_match local_ip local_port x \<longleftrightarrow> tb_valid x \<noteq> 0 \<and> tb_state x = TCP_LISTEN \<and>
     (tb_local_ip x = local_ip \<or> tb_local_ip x = 0) \<and> tb_local_port x = local_port"

definition tcp_find_listener :: "TcpTable option \<Rightarrow> u32 \<Rightarrow> u16 \<Rightarrow> nat option" where
  "tcp_find_listener table local_ip local_port = (case table of None \<Rightarrow> None | Some t \<Rightarrow>
     first_idx (listener_match local_ip local_port) (tt_tcbs t))"

section \<open>Segments\<close>

text \<open>The result is the return value and what \<open>*sent_clone\<close> holds afterwards; \<open>want_clone\<close> says whether
  \<open>sent_clone\<close> is a pointer.\<close>

definition tcp_send_segment :: "addr \<Rightarrow> u32 \<Rightarrow> u32 \<Rightarrow> u16 \<Rightarrow> u16 \<Rightarrow> u32 \<Rightarrow> u32 \<Rightarrow> u8 \<Rightarrow> bytes option \<Rightarrow> nat \<Rightarrow> bool \<Rightarrow>
    'a tcp_world_scheme \<Rightarrow> (int \<times> addr \<times> 'a tcp_world_scheme) option" where
  "tcp_send_segment sim src_ip dst_ip src_port dst_port seq ack flags payload payload_len want_clone w =
     (if sim = NULL \<or> TCP_MSS < payload_len \<or> (0 < payload_len \<and> payload = None) then Some (- 1, NULL, w)
      else do {
        let (pkt, w) = packet_create (TCP_HDR_LEN + payload_len) w;
        if pkt = NULL then Some (- 1, NULL, w)
        else do {
          p \<leftarrow> pkt_at pkt w;
          p \<leftarrow> pkt_write 0 (TcpHeader (ns_htons src_port) (ns_htons dst_port) (ns_htonl seq) (ns_htonl ack)
            (ns_htons (push_bit 12 TCP_HDR_WORDS OR ucast flags)) (ns_htons TCP_DEFAULT_WINDOW) 0 0) p;
          p \<leftarrow> (if 0 < payload_len then do {
              b \<leftarrow> payload;
              if length b < payload_len then None else pkt_write TCP_HDR_LEN (take payload_len b) p
            } else Some p);
          let w = pkt_put pkt (p\<lparr>pkt_len := TCP_HDR_LEN + payload_len, pkt_layer := 4\<rparr>) w;
          (track_clone, w) \<leftarrow> (if want_clone then packet_clone pkt w else Some (NULL, w));
          if want_clone \<and> track_clone = NULL then do { w \<leftarrow> packet_free pkt w; Some (- 1, NULL, w) }
          else do {
            (res, w) \<leftarrow> ip_output sim src_ip dst_ip IPPROTO_TCP pkt w;
            if res = - 1 then do {
              w \<leftarrow> packet_free pkt w;
              w \<leftarrow> packet_free track_clone w;
              Some (- 1, NULL, w)
            }
            else Some (0, track_clone, w)
          }
        }
      })"

text \<open>The pure acknowledgement that \<open>tcp_receive\<close> sends from a connection.\<close>

definition tcp_send_ack :: "addr \<Rightarrow> addr \<times> nat \<Rightarrow> 'a tcp_world_scheme \<Rightarrow> (int \<times> 'a tcp_world_scheme) option" where
  "tcp_send_ack sim tcb w = do {
     x \<leftarrow> tcb_at tcb w;
     (res, _, w) \<leftarrow> tcp_send_segment sim (tb_local_ip x) (tb_remote_ip x) (tb_local_port x) (tb_remote_port x)
       (tb_snd_nxt x) (tb_rcv_nxt x) TCP_FLAG_ACK None 0 False w;
     Some (res, w)
   }"

section \<open>Timers\<close>

definition tcp_schedule_retransmit :: "addr \<Rightarrow> addr \<Rightarrow> tcb_ptr \<Rightarrow> 'a tcp_world_scheme \<Rightarrow> 'a tcp_world_scheme option" where
  "tcp_schedule_retransmit sim tcp_ctx tcb w =
     (if sim = NULL then Some w
      else do {
        m \<leftarrow> sim_at sim w;
        if sim_sched m = NULL then Some w
        else (case tcb of None \<Rightarrow> Some w | Some b \<Rightarrow> do {
          sch \<leftarrow> sched_at (sim_sched m) w;
          let now = sch_now sch + TCP_RETRANSMIT_US;
          let (e, w) = (if tcp_ctx \<noteq> NULL
            then event_create_callback EVT_TCP_RETRANSMIT now VNull VNull NULL (VTcb (fst b) (snd b)) Cb_tcp_retransmit_handler (VTcpCtx tcp_ctx) w
            else event_create EVT_TCP_RETRANSMIT now VNull VNull NULL (VTcb (fst b) (snd b)) w);
          case e of None \<Rightarrow> Some w
          | Some e \<Rightarrow> do {
              (res, w) \<leftarrow> scheduler_schedule (sim_sched m) (Some e) w;
              if res = - 1 then Some w else tcb_upd b (\<lambda>x. x\<lparr>tb_retransmit_ts := now\<rparr>) w
            }
        })
      })"

text \<open>The three places that do so only when the simulator has a scheduler.\<close>

definition tcp_arm :: "addr \<Rightarrow> tcb_ptr \<Rightarrow> 'a tcp_world_scheme \<Rightarrow> 'a tcp_world_scheme option" where
  "tcp_arm sim tcb w = do {
     m \<leftarrow> sim_at sim w;
     if sim_sched m \<noteq> NULL then tcp_schedule_retransmit sim NULL tcb w else Some w
   }"

text \<open>\<open>sim->sched ? scheduler_now(sim->sched) : 0\<close>\<close>

definition tcp_now :: "addr \<Rightarrow> 'a tcp_world_scheme \<Rightarrow> u64 option" where
  "tcp_now sim w = do {
     m \<leftarrow> sim_at sim w;
     if sim_sched m \<noteq> NULL then do { sch \<leftarrow> sched_at (sim_sched m) w; Some (sch_now sch) } else Some 0
   }"

definition tcp_time_wait_handler :: "Event \<Rightarrow> vptr \<Rightarrow> 'a tcp_world_scheme \<Rightarrow> 'a tcp_world_scheme option" where
  "tcp_time_wait_handler e ctx w = do {
     table \<leftarrow> as_tcp_table ctx;
     if table = NULL then Some w
     else do {
       tcb \<leftarrow> as_tcb (evt_data e);
       case tcb of None \<Rightarrow> Some w | Some b \<Rightarrow> do {
         x \<leftarrow> tcb_at b w;
         if tb_valid x \<noteq> 1 \<or> tb_state x \<noteq> TCP_TIME_WAIT then Some w else tcp_release_tcb table tcb w
       }
     }
   }"

section \<open>Opening\<close>

definition tcp_init :: "TcpTable option \<Rightarrow> TcpTable option" where
  "tcp_init table = (case table of None \<Rightarrow> None | Some _ \<Rightarrow> Some \<lparr>tt_tcbs = replicate TCP_MAX_CONNS zero_tcb, tt_count = 0\<rparr>)"

definition tcp_listen :: "addr \<Rightarrow> u32 \<Rightarrow> u16 \<Rightarrow> TcpRecvHandler \<Rightarrow> TcpConnectHandler \<Rightarrow> vptr \<Rightarrow> 'a tcp_world_scheme \<Rightarrow>
    (tcb_ptr \<times> 'a tcp_world_scheme) option" where
  "tcp_listen table local_ip local_port recv_fn connect_fn ctx w =
     (if table = NULL \<or> local_port = 0 then Some (None, w)
      else do {
        t \<leftarrow> tcp_at table w;
        if tcp_find_listener (Some t) local_ip local_port \<noteq> None then Some (None, w)
        else do {
          (tcb, w) \<leftarrow> tcp_alloc_tcb table w;
          case tcb of None \<Rightarrow> Some (None, w)
          | Some b \<Rightarrow> do {
              w \<leftarrow> tcb_upd b (\<lambda>x. x\<lparr>tb_local_ip := local_ip, tb_local_port := local_port, tb_remote_ip := 0, tb_remote_port := 0,
                tb_state := TCP_LISTEN, tb_rcv_wnd := TCP_DEFAULT_WINDOW, tb_recv_handler := recv_fn,
                tb_connect_handler := connect_fn, tb_handler_ctx := ctx\<rparr>) w;
              Some (tcb, w)
            }
        }
      })"

definition tcp_connect :: "addr \<Rightarrow> addr \<Rightarrow> u32 \<Rightarrow> u32 \<Rightarrow> u16 \<Rightarrow> u16 \<Rightarrow> TcpRecvHandler \<Rightarrow> TcpConnectHandler \<Rightarrow> vptr \<Rightarrow>
    'a tcp_world_scheme \<Rightarrow> (tcb_ptr \<times> 'a tcp_world_scheme) option" where
  "tcp_connect sim table local_ip remote_ip local_port remote_port recv_fn connect_fn ctx w =
     (if sim = NULL \<or> table = NULL \<or> local_ip = 0 \<or> remote_ip = 0 \<or> local_port = 0 \<or> remote_port = 0 then Some (None, w)
      else do {
        t \<leftarrow> tcp_at table w;
        if tcp_find_exact (Some t) local_ip local_port remote_ip remote_port \<noteq> None then Some (None, w)
        else do {
          (tcb, w) \<leftarrow> tcp_alloc_tcb table w;
          case tcb of None \<Rightarrow> Some (None, w)
          | Some b \<Rightarrow> do {
              w \<leftarrow> tcb_upd b (\<lambda>x. x\<lparr>tb_local_ip := local_ip, tb_local_port := local_port, tb_remote_ip := remote_ip,
                tb_remote_port := remote_port, tb_state := TCP_SYN_SENT, tb_snd_una := 0, tb_snd_nxt := 1, tb_rcv_nxt := 0,
                tb_snd_wnd := TCP_DEFAULT_WINDOW, tb_rcv_wnd := TCP_DEFAULT_WINDOW, tb_recv_handler := recv_fn,
                tb_connect_handler := connect_fn, tb_handler_ctx := ctx\<rparr>) w;
              (res, syn_clone, w) \<leftarrow> tcp_send_segment sim local_ip remote_ip local_port remote_port 0 0 TCP_FLAG_SYN None 0 True w;
              if res = - 1 then do { w \<leftarrow> tcp_release_tcb table tcb w; Some (None, w) }
              else do {
                now \<leftarrow> tcp_now sim w;
                (res, w) \<leftarrow> tcp_sendq_track tcb syn_clone 0 1 TCP_FLAG_SYN now w;
                if res = - 1 then do {
                  w \<leftarrow> packet_free syn_clone w;
                  w \<leftarrow> tcp_release_tcb table tcb w;
                  Some (None, w)
                }
                else do { w \<leftarrow> tcp_arm sim tcb w; Some (tcb, w) }
              }
            }
        }
      })"

section \<open>Reception\<close>

text \<open>The two error exits of \<open>tcp_receive\<close> and its normal one.\<close>

definition tcp_fail :: "addr \<Rightarrow> addr \<Rightarrow> 'a tcp_world_scheme \<Rightarrow> (int \<times> 'a tcp_world_scheme) option" where
  "tcp_fail iface pkt w = do { w \<leftarrow> packet_free pkt w; w \<leftarrow> count_rx_error iface w; Some (- 1, w) }"

definition tcp_drop :: "addr \<Rightarrow> addr \<Rightarrow> 'a tcp_world_scheme \<Rightarrow> (int \<times> 'a tcp_world_scheme) option" where
  "tcp_drop iface pkt w = do { w \<leftarrow> packet_free pkt w; w \<leftarrow> count_rx_drop iface w; Some (- 1, w) }"

definition tcp_done :: "addr \<Rightarrow> 'a tcp_world_scheme \<Rightarrow> (int \<times> 'a tcp_world_scheme) option" where
  "tcp_done pkt w = do { w \<leftarrow> packet_free pkt w; Some (0, w) }"

definition has_flag :: "u8 \<Rightarrow> u8 \<Rightarrow> bool" where
  "has_flag flags f \<longleftrightarrow> flags AND f \<noteq> 0"

text \<open>A listener receives SYN.\<close>

definition tcp_accept :: "addr \<Rightarrow> addr \<Rightarrow> TcpContext \<Rightarrow> addr \<times> nat \<Rightarrow> u32 \<Rightarrow> u16 \<Rightarrow> u32 \<Rightarrow> u16 \<Rightarrow> u32 \<Rightarrow>
    'a tcp_world_scheme \<Rightarrow> (int \<times> 'a tcp_world_scheme) option" where
  "tcp_accept iface pkt c listener dst_ip dst_port src_ip src_port seq_num w = do {
     (child, w) \<leftarrow> tcp_alloc_tcb (tx_table c) w;
     case child of None \<Rightarrow> tcp_drop iface pkt w
     | Some b \<Rightarrow> do {
         l \<leftarrow> tcb_at listener w;
         w \<leftarrow> tcb_upd b (\<lambda>x. x\<lparr>tb_local_ip := dst_ip, tb_local_port := dst_port, tb_remote_ip := src_ip, tb_remote_port := src_port,
           tb_state := TCP_SYN_RECEIVED, tb_snd_una := 0, tb_snd_nxt := 1, tb_rcv_nxt := seq_num + 1,
           tb_snd_wnd := TCP_DEFAULT_WINDOW, tb_rcv_wnd := TCP_DEFAULT_WINDOW, tb_recv_handler := tb_recv_handler l,
           tb_connect_handler := tb_connect_handler l, tb_handler_ctx := tb_handler_ctx l\<rparr>) w;
         now \<leftarrow> tcp_now (tx_sim c) w;
         x \<leftarrow> tcb_at b w;
         (res, syn_ack_clone, w) \<leftarrow> tcp_send_segment (tx_sim c) (tb_local_ip x) (tb_remote_ip x) (tb_local_port x) (tb_remote_port x)
           0 (tb_rcv_nxt x) (TCP_FLAG_SYN OR TCP_FLAG_ACK) None 0 True w;
         if res = - 1 then do { w \<leftarrow> tcp_release_tcb (tx_table c) child w; tcp_fail iface pkt w }
         else do {
           (res, w) \<leftarrow> tcp_sendq_track child syn_ack_clone 0 1 (TCP_FLAG_SYN OR TCP_FLAG_ACK) now w;
           if res = - 1 then do {
             w \<leftarrow> packet_free syn_ack_clone w;
             w \<leftarrow> tcp_release_tcb (tx_table c) child w;
             tcp_fail iface pkt w
           }
           else tcp_done pkt w
         }
       }
   }"

definition tcp_connected :: "'a tcp_connect_call \<Rightarrow> addr \<times> nat \<Rightarrow> 'a tcp_world_scheme \<Rightarrow> 'a tcp_world_scheme option" where
  "tcp_connected ccall tcb w = do {
     x \<leftarrow> tcb_at tcb w;
     if tb_connect_handler x \<noteq> Tcp_connect_NULL then ccall (tb_connect_handler x) tcb (tb_handler_ctx x) w else Some w
   }"

definition tcp_syn_sent :: "'a tcp_connect_call \<Rightarrow> addr \<Rightarrow> addr \<Rightarrow> TcpContext \<Rightarrow> addr \<times> nat \<Rightarrow> u32 \<Rightarrow> u32 \<Rightarrow> u8 \<Rightarrow>
    'a tcp_world_scheme \<Rightarrow> (int \<times> 'a tcp_world_scheme) option" where
  "tcp_syn_sent ccall iface pkt c tcb seq_num ack_num flags w = do {
     x \<leftarrow> tcb_at tcb w;
     if has_flag flags TCP_FLAG_SYN \<and> has_flag flags TCP_FLAG_ACK \<and> ack_num = tb_snd_nxt x then do {
       w \<leftarrow> tcb_upd tcb (\<lambda>x. x\<lparr>tb_rcv_nxt := seq_num + 1, tb_snd_una := ack_num\<rparr>) w;
       w \<leftarrow> tcp_sendq_ack (Some tcb) ack_num w;
       w \<leftarrow> tcb_upd tcb (\<lambda>x. x\<lparr>tb_state := TCP_ESTABLISHED\<rparr>) w;
       (res, w) \<leftarrow> tcp_send_ack (tx_sim c) tcb w;
       if res = - 1 then tcp_fail iface pkt w
       else do { w \<leftarrow> tcp_connected ccall tcb w; tcp_done pkt w }
     }
     else tcp_drop iface pkt w
   }"

definition tcp_syn_received :: "'a tcp_connect_call \<Rightarrow> addr \<Rightarrow> addr \<Rightarrow> addr \<times> nat \<Rightarrow> u32 \<Rightarrow> u8 \<Rightarrow>
    'a tcp_world_scheme \<Rightarrow> (int \<times> 'a tcp_world_scheme) option" where
  "tcp_syn_received ccall iface pkt tcb ack_num flags w = do {
     x \<leftarrow> tcb_at tcb w;
     if has_flag flags TCP_FLAG_ACK \<and> ack_num = tb_snd_nxt x then do {
       w \<leftarrow> tcb_upd tcb (\<lambda>x. x\<lparr>tb_snd_una := ack_num\<rparr>) w;
       w \<leftarrow> tcp_sendq_ack (Some tcb) ack_num w;
       w \<leftarrow> tcb_upd tcb (\<lambda>x. x\<lparr>tb_state := TCP_ESTABLISHED\<rparr>) w;
       w \<leftarrow> tcp_connected ccall tcb w;
       tcp_done pkt w
     }
     else tcp_drop iface pkt w
   }"

text \<open>An established connection: the acknowledgement field, then data, then FIN.\<close>

definition tcp_take_ack :: "addr \<times> nat \<Rightarrow> u32 \<Rightarrow> u8 \<Rightarrow> 'a tcp_world_scheme \<Rightarrow> 'a tcp_world_scheme option" where
  "tcp_take_ack tcb ack_num flags w = do {
     x \<leftarrow> tcb_at tcb w;
     if has_flag flags TCP_FLAG_ACK \<and> tb_snd_una x < ack_num \<and> ack_num \<le> tb_snd_nxt x then do {
       w \<leftarrow> tcp_sendq_ack (Some tcb) ack_num w;
       tcb_upd tcb (\<lambda>x. x\<lparr>tb_snd_una := ack_num\<rparr>) w
     }
     else Some w
   }"

definition tcp_data :: "'a tcp_recv_call \<Rightarrow> addr \<Rightarrow> addr \<Rightarrow> TcpContext \<Rightarrow> addr \<times> nat \<Rightarrow> u32 \<Rightarrow> nat \<Rightarrow>
    'a tcp_world_scheme \<Rightarrow> (int \<times> 'a tcp_world_scheme) option" where
  "tcp_data rcall iface pkt c tcb seq_num payload_len w = do {
     x \<leftarrow> tcb_at tcb w;
     if seq_num = tb_rcv_nxt x then do {
       w \<leftarrow> tcb_upd tcb (\<lambda>x. x\<lparr>tb_rcv_nxt := tb_rcv_nxt x + of_nat payload_len\<rparr>) w;
       (res, w) \<leftarrow> tcp_send_ack (tx_sim c) tcb w;
       if res = - 1 then tcp_fail iface pkt w
       else do {
         (r, w) \<leftarrow> packet_strip pkt TCP_HDR_LEN w;
         if r = - 1 then tcp_fail iface pkt w
         else do {
           p \<leftarrow> pkt_at pkt w;
           let w = pkt_put pkt (p\<lparr>pkt_layer := 5\<rparr>) w;
           x \<leftarrow> tcb_at tcb w;
           if tb_recv_handler x \<noteq> Tcp_recv_NULL
           then do { w \<leftarrow> rcall (tb_recv_handler x) tcb pkt (tb_handler_ctx x) w; Some (0, w) }
           else tcp_done pkt w
         }
       }
     }
     else do {
       (res, w) \<leftarrow> tcp_send_ack (tx_sim c) tcb w;
       if res = - 1 then tcp_fail iface pkt w else tcp_done pkt w
     }
   }"

definition tcp_established :: "'a tcp_recv_call \<Rightarrow> addr \<Rightarrow> addr \<Rightarrow> TcpContext \<Rightarrow> addr \<times> nat \<Rightarrow> u32 \<Rightarrow> u32 \<Rightarrow> u8 \<Rightarrow> nat \<Rightarrow>
    'a tcp_world_scheme \<Rightarrow> (int \<times> 'a tcp_world_scheme) option" where
  "tcp_established rcall iface pkt c tcb seq_num ack_num flags payload_len w = do {
     w \<leftarrow> tcp_take_ack tcb ack_num flags w;
     if 0 < payload_len then tcp_data rcall iface pkt c tcb seq_num payload_len w
     else do {
       x \<leftarrow> tcb_at tcb w;
       if has_flag flags TCP_FLAG_FIN \<and> seq_num = tb_rcv_nxt x then do {
         w \<leftarrow> tcb_upd tcb (\<lambda>x. x\<lparr>tb_rcv_nxt := seq_num + 1\<rparr>) w;
         (res, w) \<leftarrow> tcp_send_ack (tx_sim c) tcb w;
         if res = - 1 then tcp_fail iface pkt w
         else do { w \<leftarrow> tcb_upd tcb (\<lambda>x. x\<lparr>tb_state := TCP_CLOSE_WAIT\<rparr>) w; tcp_done pkt w }
       }
       else if \<not> has_flag flags TCP_FLAG_FIN then tcp_done pkt w
       else tcp_drop iface pkt w
     }
   }"

text \<open>\<open>fin_is_acked\<close>: no segment with FIN is left in the queue.\<close>

definition fin_is_acked :: "Tcb \<Rightarrow> bool" where
  "fin_is_acked x \<longleftrightarrow> \<not> list_ex (\<lambda>s. sg_pkt s \<noteq> NULL \<and> has_flag (sg_flags s) TCP_FLAG_FIN) (sq_entries (tb_sendq x))"

definition tcp_ack_fin :: "addr \<times> nat \<Rightarrow> u32 \<Rightarrow> 'a tcp_world_scheme \<Rightarrow> (bool \<times> 'a tcp_world_scheme) option" where
  "tcp_ack_fin tcb ack_num w = do {
     w \<leftarrow> tcb_upd tcb (\<lambda>x. x\<lparr>tb_snd_una := ack_num\<rparr>) w;
     w \<leftarrow> tcp_sendq_ack (Some tcb) ack_num w;
     x \<leftarrow> tcb_at tcb w;
     Some (fin_is_acked x, w)
   }"

definition tcp_fin_wait_1 :: "addr \<Rightarrow> addr \<Rightarrow> addr \<times> nat \<Rightarrow> u32 \<Rightarrow> u8 \<Rightarrow> 'a tcp_world_scheme \<Rightarrow> (int \<times> 'a tcp_world_scheme) option" where
  "tcp_fin_wait_1 iface pkt tcb ack_num flags w = do {
     x \<leftarrow> tcb_at tcb w;
     if has_flag flags TCP_FLAG_ACK \<and> tb_snd_una x < ack_num then do {
       (acked, w) \<leftarrow> tcp_ack_fin tcb ack_num w;
       w \<leftarrow> (if acked then tcb_upd tcb (\<lambda>x. x\<lparr>tb_state := TCP_FIN_WAIT_2\<rparr>) w else Some w);
       tcp_done pkt w
     }
     else tcp_drop iface pkt w
   }"

text \<open>Entering TIME_WAIT schedules the release of the connection.\<close>

definition tcp_enter_time_wait :: "TcpContext \<Rightarrow> addr \<times> nat \<Rightarrow> 'a tcp_world_scheme \<Rightarrow> 'a tcp_world_scheme option" where
  "tcp_enter_time_wait c tcb w = do {
     w \<leftarrow> tcb_upd tcb (\<lambda>x. x\<lparr>tb_state := TCP_TIME_WAIT\<rparr>) w;
     m \<leftarrow> sim_at (tx_sim c) w;
     if sim_sched m \<noteq> NULL then do {
       sch \<leftarrow> sched_at (sim_sched m) w;
       case event_create_callback EVT_TIMER_EXPIRED (sch_now sch + TCP_TIME_WAIT_US) VNull VNull NULL (VTcb (fst tcb) (snd tcb))
           Cb_tcp_time_wait_handler (VTcpTable (tx_table c)) w of
         (None, w) \<Rightarrow> Some w
       | (Some e, w) \<Rightarrow> do { (_, w) \<leftarrow> scheduler_schedule (sim_sched m) (Some e) w; Some w }
     }
     else Some w
   }"

definition tcp_fin_wait_2 :: "addr \<Rightarrow> addr \<Rightarrow> TcpContext \<Rightarrow> addr \<times> nat \<Rightarrow> u32 \<Rightarrow> u8 \<Rightarrow> 'a tcp_world_scheme \<Rightarrow>
    (int \<times> 'a tcp_world_scheme) option" where
  "tcp_fin_wait_2 iface pkt c tcb seq_num flags w = do {
     x \<leftarrow> tcb_at tcb w;
     if has_flag flags TCP_FLAG_FIN \<and> seq_num = tb_rcv_nxt x then do {
       w \<leftarrow> tcb_upd tcb (\<lambda>x. x\<lparr>tb_rcv_nxt := seq_num + 1\<rparr>) w;
       (res, w) \<leftarrow> tcp_send_ack (tx_sim c) tcb w;
       if res = - 1 then tcp_fail iface pkt w
       else do { w \<leftarrow> tcp_enter_time_wait c tcb w; tcp_done pkt w }
     }
     else tcp_done pkt w
   }"

definition tcp_closing :: "addr \<Rightarrow> addr \<Rightarrow> TcpContext \<Rightarrow> addr \<times> nat \<Rightarrow> u32 \<Rightarrow> 'a tcp_world_scheme \<Rightarrow> (int \<times> 'a tcp_world_scheme) option" where
  "tcp_closing iface pkt c tcb ack_num w = do {
     x \<leftarrow> tcb_at tcb w;
     if tb_snd_una x < ack_num then do {
       (acked, w) \<leftarrow> tcp_ack_fin tcb ack_num w;
       w \<leftarrow> (if acked then tcp_enter_time_wait c tcb w else Some w);
       tcp_done pkt w
     }
     else tcp_drop iface pkt w
   }"

definition tcp_last_ack :: "addr \<Rightarrow> addr \<Rightarrow> TcpContext \<Rightarrow> addr \<times> nat \<Rightarrow> u32 \<Rightarrow> u8 \<Rightarrow> 'a tcp_world_scheme \<Rightarrow> (int \<times> 'a tcp_world_scheme) option" where
  "tcp_last_ack iface pkt c tcb ack_num flags w = do {
     x \<leftarrow> tcb_at tcb w;
     if has_flag flags TCP_FLAG_ACK \<and> tb_snd_una x < ack_num then do {
       (acked, w) \<leftarrow> tcp_ack_fin tcb ack_num w;
       w \<leftarrow> (if acked then tcp_release_tcb (tx_table c) (Some tcb) w else Some w);
       tcp_done pkt w
     }
     else tcp_drop iface pkt w
   }"

text \<open>The \<open>switch\<close> over the state of the connection.\<close>

definition tcp_segment_arrives :: "'a tcp_recv_call \<Rightarrow> 'a tcp_connect_call \<Rightarrow> addr \<Rightarrow> addr \<Rightarrow> TcpContext \<Rightarrow> addr \<times> nat \<Rightarrow>
    u32 \<Rightarrow> u32 \<Rightarrow> u8 \<Rightarrow> nat \<Rightarrow> 'a tcp_world_scheme \<Rightarrow> (int \<times> 'a tcp_world_scheme) option" where
  "tcp_segment_arrives rcall ccall iface pkt c tcb seq_num ack_num flags payload_len w = do {
     x \<leftarrow> tcb_at tcb w;
     case tb_state x of
       TCP_SYN_SENT \<Rightarrow> tcp_syn_sent ccall iface pkt c tcb seq_num ack_num flags w
     | TCP_SYN_RECEIVED \<Rightarrow> tcp_syn_received ccall iface pkt tcb ack_num flags w
     | TCP_ESTABLISHED \<Rightarrow> tcp_established rcall iface pkt c tcb seq_num ack_num flags payload_len w
     | TCP_FIN_WAIT_1 \<Rightarrow> tcp_fin_wait_1 iface pkt tcb ack_num flags w
     | TCP_FIN_WAIT_2 \<Rightarrow> tcp_fin_wait_2 iface pkt c tcb seq_num flags w
     | TCP_CLOSING \<Rightarrow> tcp_closing iface pkt c tcb ack_num w
     | TCP_LAST_ACK \<Rightarrow> tcp_last_ack iface pkt c tcb ack_num flags w
     | TCP_TIME_WAIT \<Rightarrow> tcp_done pkt w
     | _ \<Rightarrow> tcp_drop iface pkt w
   }"

definition tcp_receive :: "'a tcp_recv_call \<Rightarrow> 'a tcp_connect_call \<Rightarrow> addr \<Rightarrow> addr \<Rightarrow> vptr \<Rightarrow> 'a tcp_world_scheme \<Rightarrow>
    (int \<times> 'a tcp_world_scheme) option" where
  "tcp_receive rcall ccall iface pkt ctx w =
     (if iface = NULL then Some (- 1, w)
      else if pkt = NULL then do { w \<leftarrow> count_rx_error iface w; Some (- 1, w) }
      else do {
        tcp_ctx \<leftarrow> as_tcp_ctx ctx;
        if tcp_ctx = NULL then tcp_fail iface pkt w
        else do {
          c \<leftarrow> tcp_ctx_at tcp_ctx w;
          if tx_sim c = NULL \<or> tx_table c = NULL then tcp_fail iface pkt w
          else do {
            p \<leftarrow> pkt_at pkt w;
            if packet_validate_view (Some p) IP_HDR_LEN TCP_HDR_LEN \<noteq> 0 then tcp_fail iface pkt w
            else do {
              ip_hdr \<leftarrow> ip_before p;
              let src_ip = ns_ntohl (ih_src_ip (ip_load ip_hdr));
              let dst_ip = ns_ntohl (ih_dst_ip (ip_load ip_hdr));
              if ih_protocol (ip_load ip_hdr) \<noteq> IPPROTO_TCP then tcp_fail iface pkt w
              else do {
                b \<leftarrow> pkt_read p 0 TCP_HDR_LEN;
                let src_port = ns_ntohs (get16 b 0);
                let dst_port = ns_ntohs (get16 b 2);
                let seq_num = ns_ntohl (get32 b 4);
                let ack_num = ns_ntohl (get32 b 8);
                let data_off = ns_ntohs (get16 b 12);
                let flags = (ucast (data_off AND 0x3F) :: u8);
                if drop_bit 12 data_off \<noteq> TCP_HDR_WORDS then tcp_fail iface pkt w
                else do {
                  let payload_len = pkt_len p - TCP_HDR_LEN;
                  t \<leftarrow> tcp_at (tx_table c) w;
                  case tcp_find_exact (Some t) dst_ip dst_port src_ip src_port of
                    Some i \<Rightarrow> tcp_segment_arrives rcall ccall iface pkt c (tx_table c, i) seq_num ack_num flags payload_len w
                  | None \<Rightarrow> (case (if flags = TCP_FLAG_SYN then tcp_find_listener (Some t) dst_ip dst_port else None) of
                        Some l \<Rightarrow> tcp_accept iface pkt c (tx_table c, l) dst_ip dst_port src_ip src_port seq_num w
                      | None \<Rightarrow> tcp_drop iface pkt w)
                }
              }
            }
          }
        }
      })"

section \<open>Sending and closing\<close>

definition tcp_send :: "addr \<Rightarrow> tcb_ptr \<Rightarrow> bytes option \<Rightarrow> nat \<Rightarrow> 'a tcp_world_scheme \<Rightarrow> (int \<times> 'a tcp_world_scheme) option" where
  "tcp_send sim tcb data len w = (case tcb of None \<Rightarrow> Some (- 1, w) | Some b \<Rightarrow>
     if sim = NULL then Some (- 1, w)
     else do {
       x \<leftarrow> tcb_at b w;
       if tb_valid x \<noteq> 1 \<or> tb_state x \<noteq> TCP_ESTABLISHED \<or> (0 < len \<and> data = None) then Some (- 1, w)
       else if len = 0 then Some (0, w)
       else do {
         let send_len = (if TCP_MSS < len then TCP_MSS else len);
         if tcp_sendq_has_unacked (Some x) \<noteq> 0 then Some (- 1, w)
         else do {
           let old_snd_nxt = tb_snd_nxt x;
           (res, track_clone, w) \<leftarrow> tcp_send_segment sim (tb_local_ip x) (tb_remote_ip x) (tb_local_port x) (tb_remote_port x)
             old_snd_nxt (tb_rcv_nxt x) (TCP_FLAG_ACK OR TCP_FLAG_PSH) data send_len True w;
           if res = - 1 then do { w \<leftarrow> packet_free track_clone w; Some (- 1, w) }
           else do {
             now \<leftarrow> tcp_now sim w;
             (res, w) \<leftarrow> tcp_sendq_track tcb track_clone old_snd_nxt (old_snd_nxt + of_nat send_len) (TCP_FLAG_ACK OR TCP_FLAG_PSH) now w;
             if res = - 1 then do { w \<leftarrow> packet_free track_clone w; Some (- 1, w) }
             else do {
               w \<leftarrow> tcb_upd b (\<lambda>x. x\<lparr>tb_snd_nxt := tb_snd_nxt x + of_nat send_len\<rparr>) w;
               w \<leftarrow> tcp_arm sim tcb w;
               Some (0, w)
             }
           }
         }
       }
     })"

definition tcp_close :: "addr \<Rightarrow> tcb_ptr \<Rightarrow> 'a tcp_world_scheme \<Rightarrow> (int \<times> 'a tcp_world_scheme) option" where
  "tcp_close sim tcb w = (case tcb of None \<Rightarrow> Some (- 1, w) | Some b \<Rightarrow>
     if sim = NULL then Some (- 1, w)
     else do {
       x \<leftarrow> tcb_at b w;
       if tb_valid x \<noteq> 1 \<or> (tb_state x \<noteq> TCP_ESTABLISHED \<and> tb_state x \<noteq> TCP_CLOSE_WAIT) then Some (- 1, w)
       else if tcp_sendq_has_unacked (Some x) \<noteq> 0 then Some (- 1, w)
       else do {
         (res, track_clone, w) \<leftarrow> tcp_send_segment sim (tb_local_ip x) (tb_remote_ip x) (tb_local_port x) (tb_remote_port x)
           (tb_snd_nxt x) (tb_rcv_nxt x) (TCP_FLAG_FIN OR TCP_FLAG_ACK) None 0 True w;
         if res = - 1 then do { w \<leftarrow> packet_free track_clone w; Some (- 1, w) }
         else do {
           now \<leftarrow> tcp_now sim w;
           (res, w) \<leftarrow> tcp_sendq_track tcb track_clone (tb_snd_nxt x) (tb_snd_nxt x + 1) (TCP_FLAG_FIN OR TCP_FLAG_ACK) now w;
           if res = - 1 then do { w \<leftarrow> packet_free track_clone w; Some (- 1, w) }
           else do {
             w \<leftarrow> tcb_upd b (\<lambda>y. y\<lparr>tb_snd_nxt := tb_snd_nxt y + 1,
               tb_state := (if tb_state x = TCP_ESTABLISHED then TCP_FIN_WAIT_1
                 else if tb_state x = TCP_CLOSE_WAIT then TCP_LAST_ACK else tb_state y)\<rparr>) w;
             w \<leftarrow> tcp_arm sim tcb w;
             Some (0, w)
           }
         }
       }
     })"

fun retransmit_segments :: "TcpContext \<Rightarrow> addr \<Rightarrow> addr \<times> nat \<Rightarrow> nat list \<Rightarrow> 'a tcp_world_scheme \<Rightarrow> 'a tcp_world_scheme option" where
  "retransmit_segments c tcp_ctx tcb [] w = Some w"
| "retransmit_segments c tcp_ctx tcb (i # is) w = do {
     x \<leftarrow> tcb_at tcb w;
     if length (sq_entries (tb_sendq x)) \<le> i then None
     else do {
       let seg = sq_entries (tb_sendq x) ! i;
       if sg_pkt seg = NULL \<or> sg_acked seg \<noteq> 0 then retransmit_segments c tcp_ctx tcb is w
       else do {
         (clone, w) \<leftarrow> packet_clone (sg_pkt seg) w;
         if clone = NULL then retransmit_segments c tcp_ctx tcb is w
         else do {
           (res, w) \<leftarrow> ip_output (tx_sim c) (tb_local_ip x) (tb_remote_ip x) IPPROTO_TCP clone w;
           if res = - 1 then packet_free clone w
           else do {
             m \<leftarrow> sim_at (tx_sim c) w;
             now \<leftarrow> tcp_now (tx_sim c) w;
             w \<leftarrow> tcb_upd tcb (\<lambda>x. x\<lparr>tb_sendq := (tb_sendq x)\<lparr>sq_entries := (sq_entries (tb_sendq x))[i :=
               seg\<lparr>sg_retransmits := sg_retransmits seg + 1,
                 sg_sent_ts := (if sim_sched m \<noteq> NULL then now else sg_sent_ts seg)\<rparr>]\<rparr>\<rparr>) w;
             w \<leftarrow> (if sim_sched m \<noteq> NULL then tcp_schedule_retransmit (tx_sim c) tcp_ctx (Some tcb) w else Some w);
             retransmit_segments c tcp_ctx tcb is w
           }
         }
       }
     }
   }"

definition tcp_retransmit_handler :: "Event \<Rightarrow> vptr \<Rightarrow> 'a tcp_world_scheme \<Rightarrow> 'a tcp_world_scheme option" where
  "tcp_retransmit_handler e ctx w = do {
     tcp_ctx \<leftarrow> as_tcp_ctx ctx;
     if tcp_ctx = NULL then Some w
     else do {
       c \<leftarrow> tcp_ctx_at tcp_ctx w;
       if tx_sim c = NULL \<or> tx_table c = NULL then Some w
       else do {
         tcb \<leftarrow> as_tcb (evt_data e);
         case tcb of None \<Rightarrow> Some w | Some b \<Rightarrow> do {
           x \<leftarrow> tcb_at b w;
           if tb_valid x \<noteq> 1 then Some w else retransmit_segments c tcp_ctx b [0..<TCP_MAX_INFLIGHT] w
         }
       }
     }
   }"

end
