(* ===== verification/Tcp_Safety.thy ===== *)
theory Tcp_Safety
  imports Tcp
begin

text \<open>
  The invariant of a TCP connection table and that every operation of TCP keeps it without a fault. A table has an exact
  counter of its connections, at most one connection for a pair of endpoints, and no two connections track the same
  packet for retransmission; the tracked packets are live.
\<close>

section \<open>Tables\<close>

text \<open>The connections of a table, by their endpoints; listeners are not among them.\<close>

definition conn_key :: "Tcb \<Rightarrow> u32 \<times> u16 \<times> u32 \<times> u16" where
  "conn_key x = (tb_local_ip x, tb_local_port x, tb_remote_ip x, tb_remote_port x)"

interpretation conns: slot_array "\<lambda>x. tb_valid x \<noteq> 0 \<and> tb_state x \<noteq> TCP_LISTEN" conn_key "\<lambda>_. zero_tcb"
  by unfold_locales (simp add: zero_tcb_def)

definition segs :: "Tcb \<Rightarrow> addr set" where
  "segs x = sg_pkt ` set (sq_entries (tb_sendq x)) - {NULL}"

definition tcb_ok :: "Tcb \<Rightarrow> bool" where
  "tcb_ok x \<longleftrightarrow> tb_valid x \<in> {0, 1} \<and> length (sq_entries (tb_sendq x)) = TCP_MAX_INFLIGHT \<and>
     sq_count (tb_sendq x) = int (length (filter (\<lambda>s. sg_pkt s \<noteq> NULL) (sq_entries (tb_sendq x)))) \<and>
     (\<forall>s \<in> set (sq_entries (tb_sendq x)). sg_pkt s \<noteq> NULL \<longrightarrow> sg_acked s = 0) \<and>
     (if tb_valid x = 0 then segs x = {} else tb_state x \<noteq> TCP_CLOSED \<and> tb_state x \<noteq> TCP_CLOSING)"

definition tracked :: "TcpTable \<Rightarrow> addr set" where
  "tracked t = (\<Union>x \<in> set (tt_tcbs t). segs x)"

definition table_wf :: "TcpTable \<Rightarrow> bool" where
  "table_wf t \<longleftrightarrow> length (tt_tcbs t) = TCP_MAX_CONNS \<and> tt_count t = int (length (filter (\<lambda>x. tb_valid x \<noteq> 0) (tt_tcbs t))) \<and>
     (\<forall>x \<in> set (tt_tcbs t). tcb_ok x) \<and> conns.unique (tt_tcbs t) \<and>
     (\<forall>i < TCP_MAX_CONNS. \<forall>j < TCP_MAX_CONNS. i \<noteq> j \<longrightarrow> segs (tt_tcbs t ! i) \<inter> segs (tt_tcbs t ! j) = {})"

definition tinv :: "addr \<Rightarrow> addr \<Rightarrow> 'a tcp_world_scheme \<Rightarrow> TcpTable \<Rightarrow> bool" where
  "tinv sim a w t \<longleftrightarrow> ip_ready sim w \<and> tcp_at a w = Some t \<and> table_wf t \<and> (\<forall>p \<in> tracked t. pkt_at p w \<noteq> None)"

lemma tinvD:
  assumes "tinv sim a w t"
  shows "ip_ready sim w" "net_wf sim w" "tcp_at a w = Some t" "table_wf t" "a \<noteq> NULL" "length (tt_tcbs t) = TCP_MAX_CONNS"
  using assms by (auto simp: tinv_def ip_ready_def table_wf_def tcp_at_def split: if_splits)

lemma tinv_slot:
  assumes "tinv sim a w t" "i < TCP_MAX_CONNS"
  shows "tcb_at (a, i) w = Some (tt_tcbs t ! i)" "tcb_ok (tt_tcbs t ! i)" "segs (tt_tcbs t ! i) \<subseteq> tracked t"
proof -
  note d = tinvD [OF assms(1)]
  have m: "tt_tcbs t ! i \<in> set (tt_tcbs t)" using d(6) assms(2) by simp
  show "tcb_at (a, i) w = Some (tt_tcbs t ! i)" using d(3,6) assms(2) by (simp add: tcb_at_def)
  show "tcb_ok (tt_tcbs t ! i)" using d(4) m unfolding table_wf_def by blast
  show "segs (tt_tcbs t ! i) \<subseteq> tracked t" unfolding tracked_def using m by blast
qed

lemma tcp_put_frames [simp]:
  "pkt_at b (tcp_put a t w) = pkt_at b w" "iface_at b (tcp_put a t w) = iface_at b w" "sim_at b (tcp_put a t w) = sim_at b w"
  "sched_at b (tcp_put a t w) = sched_at b w" "link_at b (tcp_put a t w) = link_at b w" "cache_at b (tcp_put a t w) = cache_at b w"
  "dev_at b (tcp_put a t w) = dev_at b w" "topo_at b (tcp_put a t w) = topo_at b w" "w_mem (tcp_put a t w) = w_mem w"
  "tcp_ctx_at b (tcp_put a t w) = tcp_ctx_at b w"
  by (simp_all add: pkt_at_def iface_at_def sim_at_def sched_at_def link_at_def cache_at_def dev_at_def topo_at_def
      tcp_ctx_at_def tcp_put_def)

lemma tcp_at_put [simp]: "a \<noteq> NULL \<Longrightarrow> tcp_at b (tcp_put a t w) = (if b = a then Some t else tcp_at b w)"
  by (simp add: tcp_at_def tcp_put_def)

lemma ip_ready_tcp_put [simp]: "ip_ready sim (tcp_put a t w) = ip_ready sim w"
  by (simp add: ip_ready_def net_wf_def heap_wf_def sim_ready_def attached_def topo_live_def caches_live_def)

lemma tcp_put_put [simp]: "tcp_put a t (tcp_put a s w) = tcp_put a t w"
  by (simp add: tcp_put_def)

lemma ip_step_tcp:
  assumes "ip_step sim X w w'"
  shows "tcp_at a w' = tcp_at a w" "tcp_ctx_at a w' = tcp_ctx_at a w"
proof -
  have m: "arp_world.more w' = arp_world.more w" using assms by (simp add: ip_step_def)
  show "tcp_at a w' = tcp_at a w" using m by (cases w; cases w') (simp add: tcp_at_def)
  show "tcp_ctx_at a w' = tcp_ctx_at a w" using m by (cases w; cases w') (simp add: tcp_ctx_at_def)
qed

text \<open>Steps of the network that leave the tracked packets alone keep the invariant.\<close>

lemma tinv_net:
  assumes "tinv sim a w t" "ip_step sim X w w'" "X \<inter> tracked t = {}"
  shows "tinv sim a w' t"
proof -
  have "pkt_at p w' \<noteq> None" if "p \<in> tracked t" for p
    using assms that unfolding tinv_def ip_step_def by (metis disjoint_iff)
  then show ?thesis using assms(1) ip_step_ready [OF assms(2)] ip_step_tcp(1) [OF assms(2)] by (simp add: tinv_def)
qed

lemma tracked_update: "i < length (tt_tcbs t) \<Longrightarrow> tracked (t\<lparr>tt_tcbs := (tt_tcbs t)[i := x], tt_count := n\<rparr>) \<subseteq> tracked t \<union> segs x"
  using set_update_subset_insert [of "tt_tcbs t" i x] by (auto simp: tracked_def)

text \<open>Writing a slot. The new packets it tracks are live and were not tracked before.\<close>

lemma tinv_update:
  assumes "tinv sim a w t" "i < TCP_MAX_CONNS" "tcb_ok x" "conns.unique ((tt_tcbs t)[i := x])"
    and "segs x \<subseteq> segs (tt_tcbs t ! i) \<union> F" "F \<inter> tracked t = {}" "\<And>p. p \<in> F \<Longrightarrow> pkt_at p w \<noteq> None"
    and "n = tt_count t - (if tb_valid (tt_tcbs t ! i) \<noteq> 0 then 1 else 0) + (if tb_valid x \<noteq> 0 then 1 else 0)"
  shows "tinv sim a (tcp_put a (t\<lparr>tt_tcbs := (tt_tcbs t)[i := x], tt_count := n\<rparr>) w) (t\<lparr>tt_tcbs := (tt_tcbs t)[i := x], tt_count := n\<rparr>)"
proof -
  let ?t = "t\<lparr>tt_tcbs := (tt_tcbs t)[i := x], tt_count := n\<rparr>"
  note d = tinvD [OF assms(1)]
  have il: "i < length (tt_tcbs t)" using d(6) assms(2) by simp
  have cnt: "tt_count ?t = int (length (filter (\<lambda>x. tb_valid x \<noteq> 0) (tt_tcbs ?t)))"
    using length_filter_update [OF il, of "\<lambda>x. tb_valid x \<noteq> 0" x] d(4) assms(8) by (simp add: table_wf_def)
  have ok: "\<forall>y \<in> set (tt_tcbs ?t). tcb_ok y"
    using d(4) assms(3) set_update_subset_insert [of "tt_tcbs t" i x] by (auto simp: table_wf_def)
  have sub: "segs (tt_tcbs t ! j) \<subseteq> tracked t" if "j < TCP_MAX_CONNS" for j using tinv_slot(3) [OF assms(1) that] .
  have old: "segs (tt_tcbs t ! j) \<inter> segs (tt_tcbs t ! k) = {}" if "j < TCP_MAX_CONNS" "k < TCP_MAX_CONNS" "j \<noteq> k" for j k
    using d(4) that by (simp add: table_wf_def)
  have new: "segs x \<inter> segs (tt_tcbs t ! j) = {}" if "j < TCP_MAX_CONNS" "j \<noteq> i" for j
    using assms(5,6) sub [OF that(1)] old [OF assms(2) that(1)] that(2) by blast
  have dis: "segs (tt_tcbs ?t ! j) \<inter> segs (tt_tcbs ?t ! k) = {}" if "j < TCP_MAX_CONNS" "k < TCP_MAX_CONNS" "j \<noteq> k" for j k
    using old [OF that] new [OF that(1)] new [OF that(2)] that il by (cases "j = i"; cases "k = i") auto
  have wf: "table_wf ?t" unfolding table_wf_def using cnt ok dis assms(4) d(6) by simp
  have "pkt_at p w \<noteq> None" if "p \<in> tracked ?t" for p
    using tracked_update [OF il, where x = x and n = n] that assms(1,5,7) sub [OF assms(2)] unfolding tinv_def by blast
  then show ?thesis using wf d(1,5) by (simp add: tinv_def)
qed

text \<open>A connection block that keeps its identity and its queue.\<close>

definition tcb_like :: "Tcb \<Rightarrow> Tcb \<Rightarrow> bool" where
  "tcb_like x y \<longleftrightarrow> tb_sendq y = tb_sendq x \<and> tb_valid y = tb_valid x \<and> conn_key y = conn_key x \<and>
     (tb_state y = TCP_LISTEN \<longleftrightarrow> tb_state x = TCP_LISTEN) \<and> (tb_valid x \<noteq> 0 \<longrightarrow> tb_state y \<noteq> TCP_CLOSED \<and> tb_state y \<noteq> TCP_CLOSING)"

lemma unique_like:
  assumes "conns.unique xs" "i < length xs" "conn_key y = conn_key (xs ! i)"
    "tb_valid y \<noteq> 0 \<and> tb_state y \<noteq> TCP_LISTEN \<longrightarrow> tb_valid (xs ! i) \<noteq> 0 \<and> tb_state (xs ! i) \<noteq> TCP_LISTEN"
  shows "conns.unique (xs[i := y])"
proof (cases "tb_valid y \<noteq> 0 \<and> tb_state y \<noteq> TCP_LISTEN")
  case True
  then have "conns.find_key (conn_key y) xs = Some i" using conns.unique_find_key [OF assms(1,2)] assms(3,4) by simp
  then show ?thesis by (rule conns.unique_overwrite [OF assms(1)])
next
  case False
  then show ?thesis by (intro conns.unique_dead [OF assms(1)])
qed

lemma tinv_like:
  assumes "tinv sim a w t" "i < TCP_MAX_CONNS" "tcb_like (tt_tcbs t ! i) (f (tt_tcbs t ! i))"
  shows "\<exists>w'. tcb_upd (a, i) f w = Some w' \<and> tinv sim a w' (t\<lparr>tt_tcbs := (tt_tcbs t)[i := f (tt_tcbs t ! i)]\<rparr>) \<and>
    w' = tcp_put a (t\<lparr>tt_tcbs := (tt_tcbs t)[i := f (tt_tcbs t ! i)]\<rparr>) w"
proof -
  note d = tinvD [OF assms(1)]
  let ?x = "tt_tcbs t ! i"
  have segs: "segs (f ?x) = segs ?x" using assms(3) by (simp add: tcb_like_def segs_def)
  have ok: "tcb_ok (f ?x)" using tinv_slot(2) [OF assms(1,2)] assms(3) segs by (auto simp: tcb_ok_def tcb_like_def)
  have u: "conns.unique ((tt_tcbs t)[i := f ?x])"
    using d(4,6) assms(2,3) by (intro unique_like) (auto simp: table_wf_def tcb_like_def)
  have "tinv sim a (tcp_put a (t\<lparr>tt_tcbs := (tt_tcbs t)[i := f ?x], tt_count := tt_count t\<rparr>) w)
      (t\<lparr>tt_tcbs := (tt_tcbs t)[i := f ?x], tt_count := tt_count t\<rparr>)"
    by (rule tinv_update [OF assms(1,2) ok u, of "{}"]) (use segs assms(3) in \<open>auto simp: tcb_like_def\<close>)
  then show ?thesis using d(3,6) assms(2) by (simp add: tcb_upd_def)
qed

section \<open>The network under TCP\<close>

lemma ip_step_free:
  assumes "ip_ready sim w" "p = NULL \<or> pkt_at p w \<noteq> None"
  obtains w' where "packet_free p w = Some w'" "ip_step sim {p} w w'"
proof (cases "p = NULL")
  case True
  then show thesis using that [of w] ip_step_refl [OF assms(1)] by (simp add: packet_free_def)
next
  case False
  then show thesis using safe_step_free [OF ip_ready_net [OF assms(1)], of p] assms(2) that ip_step_safe [OF assms(1)] by metis
qed

lemma ip_step_counts:
  assumes "ip_ready sim w" "iface_at a w \<noteq> None"
  shows "\<exists>w'. count_rx_error a w = Some w' \<and> ip_step sim {} w w'" "\<exists>w'. count_rx_drop a w = Some w' \<and> ip_step sim {} w w'"
proof -
  have "\<exists>w'. iface_upd a f w = Some w' \<and> ip_step sim {} w w'" if "\<And>i. iface_core (f i) = iface_core i" for f
    using safe_step_count [OF ip_ready_net [OF assms(1)] assms(2), of f] that ip_step_safe [OF assms(1)] by metis
  note this [of "\<lambda>i. i\<lparr>if_rx_errors := if_rx_errors i + 1\<rparr>"] this [of "\<lambda>i. i\<lparr>if_rx_dropped := if_rx_dropped i + 1\<rparr>"]
  then show "\<exists>w'. count_rx_error a w = Some w' \<and> ip_step sim {} w w'" "\<exists>w'. count_rx_drop a w = Some w' \<and> ip_step sim {} w w'"
    by (simp_all add: iface_core_def count_rx_error_def count_rx_drop_def)
qed

text \<open>The bytes of a segment.\<close>

definition segment_bytes :: "u16 \<Rightarrow> u16 \<Rightarrow> u32 \<Rightarrow> u32 \<Rightarrow> u8 \<Rightarrow> bytes \<Rightarrow> bytes" where
  "segment_bytes sp dp seq ack fl b = TcpHeader (ns_htons sp) (ns_htons dp) (ns_htonl seq) (ns_htonl ack)
     (ns_htons (push_bit 12 TCP_HDR_WORDS OR ucast fl)) (ns_htons TCP_DEFAULT_WINDOW) 0 0 @ b"

lemma length_TcpHeader [simp]: "length (TcpHeader a b c d e f g h) = 20"
  by (simp add: TcpHeader_def)

lemma pkt_write_len: "pkt_write off bs (p\<lparr>pkt_len := n\<rparr>) = map_option (\<lambda>q. q\<lparr>pkt_len := n\<rparr>) (pkt_write off bs p)"
  by (cases "write_at (pkt_head p) (pkt_data p + off) bs") (simp_all add: pkt_write_def)

lemma write_segment:
  assumes "pkt_wf p" "pkt_data p = PKT_HEADROOM" "pkt_capacity p = TCP_HDR_LEN + n" "n = 0 \<or> (\<exists>b. payload = Some b \<and> n \<le> length b)"
  obtains p1 p2 where "pkt_write 0 (segment_bytes sp dp seq ack fl []) p = Some p1"
    "(if 0 < n then do { b \<leftarrow> payload; if length b < n then None else pkt_write TCP_HDR_LEN (take n b) p1 } else Some p1) = Some p2"
    "pkt_wf (p2\<lparr>pkt_len := TCP_HDR_LEN + n, pkt_layer := 4\<rparr>)"
    "visible (p2\<lparr>pkt_len := TCP_HDR_LEN + n, pkt_layer := 4\<rparr>) = segment_bytes sp dp seq ack fl (if n = 0 then [] else take n (the payload))"
    "p2 = p\<lparr>pkt_head := pkt_head p2\<rparr>"
proof -
  let ?q = "p\<lparr>pkt_len := TCP_HDR_LEN + n\<rparr>" and ?h = "segment_bytes sp dp seq ack fl []"
  have wf: "pkt_wf ?q" using assms(1-3) by (simp add: pkt_wf_def)
  have lh: "length ?h = 20" by (simp add: segment_bytes_def)
  obtain q1 where 1: "pkt_write 0 ?h ?q = Some q1" "pkt_wf q1" "visible q1 = take 0 (visible ?q) @ ?h @ drop (0 + length ?h) (visible ?q)"
    "q1 = ?q\<lparr>pkt_head := pkt_head q1\<rparr>" by (rule pkt_write_within [OF wf, of 0 ?h]) (use lh in \<open>simp_all add: TCP_HDR_LEN_def\<close>)
  obtain p1 where p1: "pkt_write 0 ?h p = Some p1" "q1 = p1\<lparr>pkt_len := TCP_HDR_LEN + n\<rparr>"
    using 1(1) unfolding pkt_write_len by auto
  have l1: "pkt_len q1 = TCP_HDR_LEN + n" using arg_cong [OF 1(4), of pkt_len] by simp
  have lv: "length (visible ?q) = TCP_HDR_LEN + n" using length_visible [OF wf] by simp
  have e1: "p1 = p\<lparr>pkt_head := pkt_head p1\<rparr>" using p1(1) by (cases p) (auto simp: pkt_write_def split: bind_splits)
  have vis: "visible (x\<lparr>pkt_len := m, pkt_layer := 4\<rparr>) = visible (x\<lparr>pkt_len := m\<rparr>)"
    "pkt_wf (x\<lparr>pkt_len := m, pkt_layer := 4\<rparr>) = pkt_wf (x\<lparr>pkt_len := m\<rparr>)" for x m by (simp_all add: visible_def pkt_wf_def)
  show thesis
  proof (cases "n = 0")
    case True
    then have "visible q1 = ?h" using 1(3) lh lv by (simp add: TCP_HDR_LEN_def)
    then show thesis using that [OF p1(1), of p1] True 1(2) p1(2) e1 vis by simp
  next
    case False
    then obtain b where b: "payload = Some b" "n \<le> length b" using assms(4) by auto
    obtain q2 where 2: "pkt_write TCP_HDR_LEN (take n b) q1 = Some q2" "pkt_wf q2"
      "visible q2 = take TCP_HDR_LEN (visible q1) @ take n b @ drop (TCP_HDR_LEN + length (take n b)) (visible q1)" "q2 = q1\<lparr>pkt_head := pkt_head q2\<rparr>"
      by (rule pkt_write_within [OF 1(2), of TCP_HDR_LEN "take n b"]) (use l1 b(2) in simp_all)
    obtain p2 where p2: "pkt_write TCP_HDR_LEN (take n b) p1 = Some p2" "q2 = p2\<lparr>pkt_len := TCP_HDR_LEN + n\<rparr>"
      using 2(1) unfolding p1(2) pkt_write_len by auto
    have "p2 = p1\<lparr>pkt_head := pkt_head p2\<rparr>" using p2(1) by (cases p1) (auto simp: pkt_write_def split: bind_splits)
    then have e2: "p2 = p\<lparr>pkt_head := pkt_head p2\<rparr>" by (rule head_only_trans [OF _ e1])
    have "length (visible q1) = TCP_HDR_LEN + n" using length_visible [OF 1(2)] l1 by simp
    then have "visible q2 = segment_bytes sp dp seq ack fl (take n b)"
      using 2(3) 1(3) lh lv b(2) by (simp add: TCP_HDR_LEN_def segment_bytes_def)
    then show thesis using that [OF p1(1), of p2] False b p2 2(2) e2 vis by simp
  qed
qed

lemma tcp_send_segment_steps:
  assumes "ip_ready sim w" "n = 0 \<or> (\<exists>b. payload = Some b \<and> n \<le> length b)" "n \<le> TCP_MSS"
    and "packet_create (TCP_HDR_LEN + n) w = (pkt, w1)" "pkt \<noteq> NULL"
  obtains q where "pkt_at pkt w = None" "ip_step sim {} w (pkt_put pkt q w1)" "pkt_wf q"
    "visible q = segment_bytes sp dp seq ack fl (if n = 0 then [] else take n (the payload))"
    "tcp_send_segment sim src dst sp dp seq ack fl payload n want w = do {
       (track_clone, w) \<leftarrow> (if want then packet_clone pkt (pkt_put pkt q w1) else Some (NULL, pkt_put pkt q w1));
       if want \<and> track_clone = NULL then do { w \<leftarrow> packet_free pkt w; Some (- 1, NULL, w) }
       else do {
         (res, w) \<leftarrow> ip_output sim src dst IPPROTO_TCP pkt w;
         if res = - 1 then do { w \<leftarrow> packet_free pkt w; w \<leftarrow> packet_free track_clone w; Some (- 1, NULL, w) }
         else Some (0, track_clone, w)
       }
     }"
proof -
  note net = ip_ready_net [OF assms(1)]
  have s: "sim \<noteq> NULL" using net by (auto simp: net_wf_def sim_ready_def dest: sim_at_nonnull)
  note s1 = safe_step_create [OF net assms(4)]
  obtain p where p: "pkt_at pkt w1 = Some p" "pkt_wf p" "pkt_data p = PKT_HEADROOM" "pkt_capacity p = TCP_HDR_LEN + n"
    using packet_create_wf [OF assms(4,5)] by blast
  obtain p1 p2 where w: "pkt_write 0 (segment_bytes sp dp seq ack fl []) p = Some p1"
    "(if 0 < n then do { b \<leftarrow> payload; if length b < n then None else pkt_write TCP_HDR_LEN (take n b) p1 } else Some p1) = Some p2"
    "pkt_wf (p2\<lparr>pkt_len := TCP_HDR_LEN + n, pkt_layer := 4\<rparr>)"
    "visible (p2\<lparr>pkt_len := TCP_HDR_LEN + n, pkt_layer := 4\<rparr>) = segment_bytes sp dp seq ack fl (if n = 0 then [] else take n (the payload))"
    by (rule write_segment [OF p(2-4) assms(2), of sp dp seq ack fl])
  let ?q = "p2\<lparr>pkt_len := TCP_HDR_LEN + n, pkt_layer := 4\<rparr>"
  have "safe_step sim {pkt} w1 (pkt_put pkt ?q w1)" by (rule safe_step_put [OF safe_step_wf [OF s1(1)] _ w(3)]) (simp add: p(1))
  then have "safe_step sim {} w (pkt_put pkt ?q w1)"
    using safe_step_fresh [OF safe_step_trans [OF safe_step_mono [OF s1(1)]]] s1(2) [OF assms(5)] by blast
  note st = ip_step_safe [OF assms(1) this]
  have g: "\<not> (sim = NULL \<or> TCP_MSS < n \<or> (0 < n \<and> payload = None))" using assms(2,3) s by auto
  show thesis
    by (rule that [OF s1(2) [OF assms(5)] st w(3,4)], unfold tcp_send_segment_def if_not_P [OF g])
       (use assms(4,5) p(1) w(1,2) in \<open>simp add: segment_bytes_def\<close>)
qed

lemma tcp_send_segment_safe:
  assumes "ip_ready sim w" "n = 0 \<or> (\<exists>b. payload = Some b \<and> n \<le> length b)"
  obtains r c w' where "tcp_send_segment sim src dst sp dp seq ack fl payload n want w = Some (r, c, w')" "r \<in> {0, - 1}"
    "ip_step sim {} w w'" "if r = 0 \<and> want then c \<noteq> NULL \<and> pkt_at c w = None \<and> pkt_at c w' \<noteq> None else c = NULL"
proof (cases "TCP_MSS < n")
  case True
  then show thesis using that [of "- 1" NULL w] ip_step_refl [OF assms(1)] by (simp add: tcp_send_segment_def)
next
  case ok: False
  have sim: "sim \<noteq> NULL" using ip_ready_net [OF assms(1)] by (auto simp: net_wf_def sim_ready_def dest: sim_at_nonnull)
  have pl: "\<not> (0 < n \<and> payload = None)" using assms(2) by auto
  obtain pkt w1 where c: "packet_create (TCP_HDR_LEN + n) w = (pkt, w1)" by (cases "packet_create (TCP_HDR_LEN + n) w") auto
  show thesis
  proof (cases "pkt = NULL")
    case True
    then show thesis using that [of "- 1" NULL w1] ip_step_safe [OF assms(1) safe_step_create(1) [OF ip_ready_net [OF assms(1)] c]] ok c sim pl
      by (auto simp: tcp_send_segment_def)
  next
    case pkt: False
    from ok have "n \<le> TCP_MSS" by simp
    from tcp_send_segment_steps [OF assms this c pkt, of sp dp seq ack fl src dst want] obtain q where
      q: "pkt_at pkt w = None" "ip_step sim {} w (pkt_put pkt q w1)" "pkt_wf q"
      "tcp_send_segment sim src dst sp dp seq ack fl payload n want w = do {
       (track_clone, w) \<leftarrow> (if want then packet_clone pkt (pkt_put pkt q w1) else Some (NULL, pkt_put pkt q w1));
       if want \<and> track_clone = NULL then do { w \<leftarrow> packet_free pkt w; Some (- 1, NULL, w) }
       else do {
         (res, w) \<leftarrow> ip_output sim src dst IPPROTO_TCP pkt w;
         if res = - 1 then do { w \<leftarrow> packet_free pkt w; w \<leftarrow> packet_free track_clone w; Some (- 1, NULL, w) }
         else Some (0, track_clone, w)
       }
     }" by blast
    let ?w2 = "pkt_put pkt q w1"
    note r2 = ip_step_ready [OF q(2)]
    have l2: "pkt_at pkt ?w2 \<noteq> None" using pkt by simp
    obtain c w3 where 3: "(if want then packet_clone pkt ?w2 else Some (NULL, ?w2)) = Some (c, w3)" "ip_step sim {} ?w2 w3"
      "c \<noteq> NULL \<longrightarrow> want \<and> pkt_at c ?w2 = None \<and> pkt_at c w3 \<noteq> None"
    proof (cases want)
      case True
      obtain c w' where "packet_clone pkt ?w2 = Some (c, w')" "safe_step sim {} ?w2 w'" "c \<noteq> NULL \<longrightarrow> pkt_at c ?w2 = None \<and> pkt_at c w' \<noteq> None"
        by (rule safe_step_clone [OF ip_ready_net [OF r2] l2])
      then show thesis using that [of c w'] True ip_step_safe [OF r2] by simp
    qed (use that [of NULL ?w2] ip_step_refl [OF r2] in simp)
    note s3 = ip_step_trans [OF q(2) 3(2)] and r3 = ip_step_ready [OF 3(2)]
    have l3: "pkt_at pkt w3 \<noteq> None" using 3(2) l2 by (auto simp: ip_step_def)
    have fresh: "pkt_at c w = None" if "c \<noteq> NULL" using 3(3) that q(2) by (metis empty_iff ip_step_pkt not_None_eq)
    have cp: "c \<noteq> pkt" if "c \<noteq> NULL" using 3(3) that l2 by auto
    show thesis
    proof (cases "want \<and> c = NULL")
      case True
      obtain w4 where 4: "packet_free pkt w3 = Some w4" "ip_step sim {pkt} w3 w4" using ip_step_free [OF r3, of pkt] l3 by blast
      have "ip_step sim {} w w4" by (rule ip_step_fresh [OF ip_step_trans [OF ip_step_mono [OF s3] 4(2)] q(1)]) simp
      moreover have "tcp_send_segment sim src dst sp dp seq ack fl payload n want w = Some (- 1, NULL, w4)"
        unfolding q(4) 3(1) using True 4(1) by simp
      ultimately show thesis using that [of "- 1" NULL w4] by simp
    next
      case nt: False
      obtain r w4 where 4: "ip_output sim src dst IPPROTO_TCP pkt w3 = Some (r, w4)" "ip_step sim {pkt} w3 w4" "pkt_at pkt w4 \<noteq> None"
        by (rule ip_output_total [OF r3 l3])
      have s4: "ip_step sim {pkt} w w4" by (rule ip_step_trans [OF ip_step_mono [OF s3] 4(2)]) simp
      have c4: "pkt_at c w4 \<noteq> None" if "c \<noteq> NULL" using that 3(3) cp 4(2) by (auto simp: ip_step_def)
      show thesis
      proof (cases "r = - 1")
        case False
        have "tcp_send_segment sim src dst sp dp seq ack fl payload n want w = Some (0, c, w4)"
          unfolding q(4) 3(1) using nt 4(1) False by (cases want) simp_all
        then show thesis by (rule that [OF _ _ ip_step_fresh [OF s4 q(1)]]) (use nt fresh c4 3(3) in auto)
      next
        case True
        obtain w5 where 5: "packet_free pkt w4 = Some w5" "ip_step sim {pkt} w4 w5"
          using ip_step_free [OF ip_step_ready [OF 4(2)], of pkt] 4(3) by blast
        have "pkt_at c w5 \<noteq> None" if "c \<noteq> NULL" using c4 [OF that] cp [OF that] 5(2) by (simp add: ip_step_def)
        then have "c = NULL \<or> pkt_at c w5 \<noteq> None" by blast
        from ip_step_free [OF ip_step_ready [OF 5(2)] this] obtain w6 where 6: "packet_free c w5 = Some w6" "ip_step sim {c} w5 w6" .
        have "ip_step sim {pkt, c} w w6"
          using ip_step_trans [OF ip_step_mono [OF ip_step_trans [OF s4 5(2)]] ip_step_mono [OF 6(2)], of "{pkt, c}"] by blast
        moreover have "pkt_at c w = None" using fresh by (cases "c = NULL") (auto simp: pkt_at_def)
        ultimately have "ip_step sim {} w w6" using ip_step_fresh [of sim pkt "{c}" w w6] ip_step_fresh [of sim c "{}" w w6] q(1) by blast
        moreover have "tcp_send_segment sim src dst sp dp seq ack fl payload n want w = Some (- 1, NULL, w6)"
          unfolding q(4) 3(1) using nt 4(1) True 5(1) 6(1) by (cases want) simp_all
        ultimately show thesis using that [of "- 1" NULL w6] by simp
      qed
    qed
  qed
qed

section \<open>The send queue\<close>

text \<open>The invariant with what happened to the packets: those outside \<open>X\<close> are as they were.\<close>

definition tstep :: "addr \<Rightarrow> addr \<Rightarrow> addr set \<Rightarrow> 'a tcp_world_scheme \<Rightarrow> 'a tcp_world_scheme \<Rightarrow> TcpTable \<Rightarrow> bool" where
  "tstep sim a X w w' t \<longleftrightarrow> tinv sim a w' t \<and> (\<forall>b. tcp_ctx_at b w' = tcp_ctx_at b w) \<and>
     (\<forall>b. iface_at b w' \<noteq> None \<longleftrightarrow> iface_at b w \<noteq> None) \<and> (\<forall>b. b \<notin> X \<longrightarrow> pkt_at b w \<noteq> None \<longrightarrow> pkt_at b w' = pkt_at b w)"

lemma tstep_net:
  assumes "tinv sim a w t" "ip_step sim X w w'" "X \<inter> tracked t = {}"
  shows "tstep sim a X w w' t"
  using tinv_net [OF assms] ip_step_tcp(2) [OF assms(2)] ip_step_iface [OF assms(2)] assms(2) by (simp add: tstep_def ip_step_def)

lemma tstep_trans: "tstep sim a X u v s \<Longrightarrow> tstep sim a X v w t \<Longrightarrow> tstep sim a X u w t"
  unfolding tstep_def by simp

lemma tstep_mono: "tstep sim a X w w' t \<Longrightarrow> X \<subseteq> Y \<Longrightarrow> tstep sim a Y w w' t"
  unfolding tstep_def by blast

lemma tstep_inv: "tstep sim a X w w' t \<Longrightarrow> tinv sim a w' t"
  by (simp add: tstep_def)

lemma tstep_pkt: "tstep sim a X w w' t \<Longrightarrow> p \<notin> X \<Longrightarrow> pkt_at p w \<noteq> None \<Longrightarrow> pkt_at p w' \<noteq> None"
  by (simp add: tstep_def)

lemma tstep_iface: "tstep sim a X w w' t \<Longrightarrow> iface_at i w \<noteq> None \<Longrightarrow> iface_at i w' \<noteq> None"
  by (simp add: tstep_def)

lemma tstep_put: "tinv sim a (tcp_put a t' w) t' \<Longrightarrow> tstep sim a X w (tcp_put a t' w) t'"
  by (simp add: tstep_def)

lemma tstep_like:
  assumes "tinv sim a w t" "i < TCP_MAX_CONNS" "tcb_like (tt_tcbs t ! i) (f (tt_tcbs t ! i))"
  obtains w' where "tcb_upd (a, i) f w = Some w'" "tstep sim a X w w' (t\<lparr>tt_tcbs := (tt_tcbs t)[i := f (tt_tcbs t ! i)]\<rparr>)"
  using tinv_like [OF assms(1,2), of f, OF assms(3)] tstep_put by metis

definition acked_seg :: "u32 \<Rightarrow> TcpSegment \<Rightarrow> TcpSegment" where
  "acked_seg ack s = (if sg_pkt s \<noteq> NULL \<and> sg_seq_end s \<le> ack then s\<lparr>sg_acked := 1, sg_pkt := NULL\<rparr> else s)"

definition acked_tcb :: "u32 \<Rightarrow> Tcb \<Rightarrow> Tcb" where
  "acked_tcb ack x = (let es = map (acked_seg ack) (sq_entries (tb_sendq x))
     in x\<lparr>tb_sendq := \<lparr>sq_entries = es, sq_count = int (length (filter (\<lambda>s. sg_pkt s \<noteq> NULL) es))\<rparr>\<rparr>)"

lemma singleton_list: "length xs = Suc 0 \<Longrightarrow> xs = [hd xs]"
  by (cases xs) auto

lemma ack_segments_one:
  assumes "ip_ready sim w" "sg_pkt s = NULL \<or> pkt_at (sg_pkt s) w \<noteq> None" "n = (if sg_pkt s \<noteq> NULL then 1 else 0)"
  obtains w' where "ack_segments ack [s] n w = Some ([acked_seg ack s], if sg_pkt (acked_seg ack s) \<noteq> NULL then 1 else 0, w')"
    "ip_step sim {sg_pkt s} w w'"
proof (cases "sg_pkt s \<noteq> NULL \<and> sg_seq_end s \<le> ack")
  case True
  obtain w' where "packet_free (sg_pkt s) w = Some w'" "ip_step sim {sg_pkt s} w w'" by (rule ip_step_free [OF assms(1,2)])
  then show thesis using that [of w'] True assms(3) by (simp add: acked_seg_def)
next
  case False
  then have "acked_seg ack s = s" "ack_segments ack [s] n w = Some ([s], n, w)" by (auto simp: acked_seg_def)
  then show thesis using that [of w] ip_step_refl [OF assms(1)] assms(3) by simp
qed

lemma segs_one: "sq_entries (tb_sendq x) = [s] \<Longrightarrow> segs x = {sg_pkt s} - {NULL}"
  by (simp add: segs_def)

lemma tcb_ok_one: "tcb_ok x \<Longrightarrow> \<exists>s. sq_entries (tb_sendq x) = [s] \<and> sq_count (tb_sendq x) = (if sg_pkt s \<noteq> NULL then 1 else 0)"
  using singleton_list [of "sq_entries (tb_sendq x)"] by (auto simp: tcb_ok_def TCP_MAX_INFLIGHT_def intro!: exI [of _ "hd (sq_entries (tb_sendq x))"] elim: ssubst)

text \<open>Replacing the queue of a slot by one that tracks no more, after a step that freed the rest.\<close>

lemma tinv_requeue:
  assumes "tinv sim a w t" "i < TCP_MAX_CONNS" "ip_step sim X w w'" "X \<inter> tracked t \<subseteq> segs (tt_tcbs t ! i)"
    and "tcb_ok y" "segs y \<subseteq> segs (tt_tcbs t ! i) - X" "conn_key y = conn_key (tt_tcbs t ! i) \<or> tb_valid y = 0"
    and "tb_valid y \<noteq> 0 \<longrightarrow> tb_valid (tt_tcbs t ! i) \<noteq> 0 \<and> tb_state y \<noteq> TCP_LISTEN \<longrightarrow> tb_state (tt_tcbs t ! i) \<noteq> TCP_LISTEN"
    and "tb_valid y \<noteq> 0 \<longrightarrow> tb_valid (tt_tcbs t ! i) \<noteq> 0"
    and "n = tt_count t - (if tb_valid (tt_tcbs t ! i) \<noteq> 0 then 1 else 0) + (if tb_valid y \<noteq> 0 then 1 else 0)"
  shows "tinv sim a (tcp_put a (t\<lparr>tt_tcbs := (tt_tcbs t)[i := y], tt_count := n\<rparr>) w') (t\<lparr>tt_tcbs := (tt_tcbs t)[i := y], tt_count := n\<rparr>)"
proof -
  let ?x = "tt_tcbs t ! i"
  note d = tinvD [OF assms(1)]
  have il: "i < length (tt_tcbs t)" using d(6) assms(2) by simp
  let ?t = "t\<lparr>tt_tcbs := (tt_tcbs t)[i := y], tt_count := n\<rparr>"
  have u: "conns.unique ((tt_tcbs t)[i := y])"
  proof (cases "tb_valid y \<noteq> 0 \<and> tb_state y \<noteq> TCP_LISTEN")
    case True
    then show ?thesis using assms(7-9) d(4) il by (intro unique_like) (auto simp: table_wf_def)
  next
    case False
    then show ?thesis using d(4) by (intro conns.unique_dead) (auto simp: table_wf_def)
  qed
  have "tinv sim a (tcp_put a ?t w) ?t" by (rule tinv_update [OF assms(1,2,5) u, of "{}"]) (use assms(6,10) in auto)
  then have wf: "table_wf ?t" by (simp add: tinv_def)
  have other: "segs (tt_tcbs t ! j) \<inter> X = {}" if "j < TCP_MAX_CONNS" "j \<noteq> i" for j
  proof -
    have "segs (tt_tcbs t ! j) \<inter> segs ?x = {}" using d(4) that assms(2) by (simp add: table_wf_def)
    then show ?thesis using assms(4) tinv_slot(3) [OF assms(1) that(1)] by blast
  qed
  have "pkt_at p w' \<noteq> None" if "p \<in> tracked ?t" for p
  proof -
    from that obtain j where j: "j < TCP_MAX_CONNS" "p \<in> segs (tt_tcbs ?t ! j)" using d(6) by (auto simp: tracked_def in_set_conv_nth)
    then have "p \<notin> X \<and> p \<in> segs (tt_tcbs t ! j)" using other [OF j(1)] assms(6) il by (cases "j = i") auto
    then show ?thesis using tinv_slot(3) [OF assms(1) j(1)] assms(1,3) unfolding tinv_def ip_step_def by (metis subsetD)
  qed
  then show ?thesis using wf d(5) ip_step_ready [OF assms(3)] by (simp add: tinv_def)
qed

text \<open>The table with a slot replaced.\<close>

abbreviation with_slot :: "TcpTable \<Rightarrow> nat \<Rightarrow> Tcb \<Rightarrow> TcpTable" where
  "with_slot t i x \<equiv> t\<lparr>tt_tcbs := (tt_tcbs t)[i := x]\<rparr>"

lemma segs_acked: "segs (acked_tcb ack x) \<subseteq> segs x"
  by (auto simp: segs_def acked_tcb_def acked_seg_def Let_def)

lemma tcb_ok_acked:
  assumes "tcb_ok x"
  shows "tcb_ok (acked_tcb ack x)"
proof -
  have "segs (acked_tcb ack x) = {}" if "tb_valid x = 0" using assms segs_acked [of ack x] that by (simp add: tcb_ok_def)
  then show ?thesis using assms unfolding tcb_ok_def by (auto simp: acked_tcb_def acked_seg_def Let_def)
qed

lemma acked_tcb_fields [simp]:
  "tb_valid (acked_tcb ack x) = tb_valid x" "tb_state (acked_tcb ack x) = tb_state x" "conn_key (acked_tcb ack x) = conn_key x"
  "tb_snd_una (acked_tcb ack x) = tb_snd_una x" "tb_snd_nxt (acked_tcb ack x) = tb_snd_nxt x" "tb_rcv_nxt (acked_tcb ack x) = tb_rcv_nxt x"
  by (simp_all add: acked_tcb_def conn_key_def Let_def)

lemma with_slot_count: "t\<lparr>tt_tcbs := xs, tt_count := tt_count t\<rparr> = t\<lparr>tt_tcbs := xs\<rparr>"
  by (cases t) simp

lemma tcp_sendq_ack_safe:
  assumes "tinv sim a w t" "i < TCP_MAX_CONNS"
  obtains w' where "tcp_sendq_ack (Some (a, i)) ack w = Some w'" "tstep sim a (segs (tt_tcbs t ! i)) w w' (with_slot t i (acked_tcb ack (tt_tcbs t ! i)))"
proof -
  let ?x = "tt_tcbs t ! i"
  note d = tinvD [OF assms(1)] and sl = tinv_slot [OF assms]
  obtain s where s: "sq_entries (tb_sendq ?x) = [s]" "sq_count (tb_sendq ?x) = (if sg_pkt s \<noteq> NULL then 1 else 0)"
    using tcb_ok_one [OF sl(2)] by blast
  have live: "sg_pkt s = NULL \<or> pkt_at (sg_pkt s) w \<noteq> None" using segs_one [OF s(1)] sl(3) assms(1) by (auto simp: tinv_def)
  obtain w1 where 1: "ack_segments ack [s] (sq_count (tb_sendq ?x)) w =
      Some ([acked_seg ack s], if sg_pkt (acked_seg ack s) \<noteq> NULL then 1 else 0, w1)" "ip_step sim {sg_pkt s} w w1"
    by (rule ack_segments_one [OF d(1) live s(2)])
  have st: "ip_step sim (segs ?x) w w1"
  proof (cases "sg_pkt s = NULL")
    case True
    then have "ip_step sim {} w w1" using 1(2) by (intro ip_step_fresh [of sim NULL "{}"]) (simp_all add: pkt_at_def)
    then show ?thesis by (rule ip_step_mono) simp
  qed (use 1(2) segs_one [OF s(1)] in simp)
  let ?y = "acked_tcb ack ?x"
  have y: "?y = ?x\<lparr>tb_sendq := \<lparr>sq_entries = [acked_seg ack s], sq_count = (if sg_pkt (acked_seg ack s) \<noteq> NULL then 1 else 0)\<rparr>\<rparr>"
    by (simp add: acked_tcb_def s(1) Let_def)
  have t1: "tcp_at a w1 = Some t" using ip_step_tcp(1) [OF st] d(3) by simp
  have res: "tcp_sendq_ack (Some (a, i)) ack w = Some (tcp_put a (with_slot t i ?y) w1)"
    using sl(1) s(1) 1(1) t1 d(6) assms(2) y by (simp add: tcp_sendq_ack_def tcb_upd_def del: ack_segments.simps)
  have sub: "segs ?y \<subseteq> segs ?x" by (rule segs_acked)
  have "tinv sim a (tcp_put a (t\<lparr>tt_tcbs := (tt_tcbs t)[i := ?y], tt_count := tt_count t\<rparr>) w1) (t\<lparr>tt_tcbs := (tt_tcbs t)[i := ?y], tt_count := tt_count t\<rparr>)"
  proof (cases "sg_pkt (acked_seg ack s) = NULL")
    case True
    then have "segs ?y = {}" unfolding y by (simp add: segs_def)
    then show ?thesis by (intro tinv_requeue [OF assms st _ tcb_ok_acked [OF sl(2)]]) auto
  next
    case False
    then have "w1 = w" using 1(1) by (auto simp: acked_seg_def split: if_splits bind_splits)
    then have "ip_step sim {} w w1" using ip_step_refl [OF d(1)] by simp
    then show ?thesis by (rule tinv_requeue [OF assms _ _ tcb_ok_acked [OF sl(2)]]) (use sub in auto)
  qed
  then have inv: "tinv sim a (tcp_put a (with_slot t i ?y) w1) (with_slot t i ?y)" unfolding with_slot_count .
  have "tstep sim a (segs ?x) w (tcp_put a (with_slot t i ?y) w1) (with_slot t i ?y)"
    using inv st ip_step_tcp(2) [OF st] ip_step_iface [OF st] by (simp add: tstep_def ip_step_def)
  with res show thesis by (rule that)
qed

lemma zero_tcb_ok [simp]: "tcb_ok zero_tcb" "segs zero_tcb = {}" "tb_valid zero_tcb = 0"
  by (simp_all add: tcb_ok_def zero_tcb_def segs_def zero_segment_def TCP_MAX_INFLIGHT_def)

lemma free_segments_one:
  assumes "ip_ready sim w" "sg_pkt s = NULL \<or> pkt_at (sg_pkt s) w \<noteq> None"
  obtains w' where "free_segments [s] w = Some w'" "ip_step sim ({sg_pkt s} - {NULL}) w w'"
proof (cases "sg_pkt s = NULL")
  case True
  then show thesis using that [of w] ip_step_refl [OF assms(1)] by simp
next
  case False
  obtain w' where "packet_free (sg_pkt s) w = Some w'" "ip_step sim {sg_pkt s} w w'" by (rule ip_step_free [OF assms])
  then show thesis using that [of w'] False by simp
qed

lemma tcp_release_safe:
  assumes "tinv sim a w t" "i < TCP_MAX_CONNS" "tb_valid (tt_tcbs t ! i) = 1"
  obtains w' where "tcp_release_tcb a (Some (a, i)) w = Some w'"
    "tstep sim a (segs (tt_tcbs t ! i)) w w' (t\<lparr>tt_tcbs := (tt_tcbs t)[i := zero_tcb], tt_count := tt_count t - 1\<rparr>)"
proof -
  let ?x = "tt_tcbs t ! i" and ?t = "t\<lparr>tt_tcbs := (tt_tcbs t)[i := zero_tcb], tt_count := tt_count t - 1\<rparr>"
  note d = tinvD [OF assms(1)] and sl = tinv_slot [OF assms(1,2)]
  obtain s where s: "sq_entries (tb_sendq ?x) = [s]" using tcb_ok_one [OF sl(2)] by blast
  have live: "sg_pkt s = NULL \<or> pkt_at (sg_pkt s) w \<noteq> None" using segs_one [OF s] sl(3) assms(1) by (auto simp: tinv_def)
  obtain w1 where 1: "free_segments [s] w = Some w1" "ip_step sim (segs ?x) w w1"
    using free_segments_one [OF d(1) live] segs_one [OF s] by metis
  have inv: "tinv sim a (tcp_put a ?t w1) ?t"
    by (rule tinv_requeue [OF assms(1,2) 1(2) _ zero_tcb_ok(1)]) (use assms(3) in auto)
  have "?x \<in> set (filter (\<lambda>x. tb_valid x \<noteq> 0) (tt_tcbs t))" using d(6) assms(2,3) by simp
  then have "0 < length (filter (\<lambda>x. tb_valid x \<noteq> 0) (tt_tcbs t))" by (rule length_pos_if_in_set)
  then have pos: "0 < tt_count t" using d(4) by (simp add: table_wf_def)
  have t1: "tcp_at a w1 = Some t" using ip_step_tcp(1) [OF 1(2)] d(3) by simp
  have "tcp_release_tcb a (Some (a, i)) w = Some (tcp_put a ?t w1)"
    using sl(1) s 1(1) t1 d(5,6) assms(2) pos by (simp add: tcp_release_tcb_def tcb_upd_def)
  moreover have "tstep sim a (segs ?x) w (tcp_put a ?t w1) ?t"
    using inv 1(2) ip_step_tcp(2) [OF 1(2)] ip_step_iface [OF 1(2)] by (simp add: tstep_def ip_step_def)
  ultimately show thesis by (rule that)
qed

lemma tcp_track_safe:
  assumes "tinv sim a w t" "i < TCP_MAX_CONNS" "tb_valid (tt_tcbs t ! i) = 1" "segs (tt_tcbs t ! i) = {}"
    and "c \<noteq> NULL" "pkt_at c w \<noteq> None" "c \<notin> tracked t"
  obtains w' where "tcp_sendq_track (Some (a, i)) c s e fl now w = Some (0, w')"
    "tstep sim a X w w' (with_slot t i ((tt_tcbs t ! i)\<lparr>tb_sendq := \<lparr>sq_entries = [\<lparr>sg_pkt = c, sg_seq_start = s, sg_seq_end = e,
        sg_flags = fl, sg_sent_ts = now, sg_retransmits = 0, sg_acked = 0\<rparr>], sq_count = 1\<rparr>\<rparr>))"
proof -
  let ?x = "tt_tcbs t ! i" and ?g = "\<lparr>sg_pkt = c, sg_seq_start = s, sg_seq_end = e, sg_flags = fl, sg_sent_ts = now, sg_retransmits = 0, sg_acked = 0\<rparr>"
  let ?y = "?x\<lparr>tb_sendq := \<lparr>sq_entries = [?g], sq_count = 1\<rparr>\<rparr>"
  note d = tinvD [OF assms(1)] and sl = tinv_slot [OF assms(1,2)]
  obtain g where g: "sq_entries (tb_sendq ?x) = [g]" "sq_count (tb_sendq ?x) = (if sg_pkt g \<noteq> NULL then 1 else 0)" using tcb_ok_one [OF sl(2)] by blast
  have g0: "sg_pkt g = NULL" using segs_one [OF g(1)] assms(4) by auto
  have ok: "tcb_ok ?y" using sl(2) assms(3,5) by (auto simp: tcb_ok_def TCP_MAX_INFLIGHT_def)
  have "tb_state ?x \<noteq> TCP_LISTEN \<longrightarrow> tb_state ?x \<noteq> TCP_LISTEN" by simp
  then have u: "conns.unique ((tt_tcbs t)[i := ?y])"
    using d(4,6) assms(2) by (intro unique_like) (auto simp: table_wf_def conn_key_def)
  have "tinv sim a (tcp_put a (t\<lparr>tt_tcbs := (tt_tcbs t)[i := ?y], tt_count := tt_count t\<rparr>) w) (t\<lparr>tt_tcbs := (tt_tcbs t)[i := ?y], tt_count := tt_count t\<rparr>)"
    by (rule tinv_update [OF assms(1,2) ok u, of "{c}"]) (use assms(6,7) in \<open>auto simp: segs_def\<close>)
  then have "tstep sim a X w (tcp_put a (with_slot t i ?y) w) (with_slot t i ?y)" unfolding with_slot_count by (rule tstep_put)
  moreover have "tcp_sendq_track (Some (a, i)) c s e fl now w = Some (0, tcp_put a (with_slot t i ?y) w)"
    using assms(2,5) sl(1) g g0 d(3,6) by (simp add: tcp_sendq_track_def tcb_upd_def TCP_MAX_INFLIGHT_def)
  ultimately show thesis using that by blast
qed

text \<open>Filling a free slot by a block with endpoints that no connection has.\<close>

definition fresh_tcb :: "Tcb \<Rightarrow> bool" where
  "fresh_tcb y \<longleftrightarrow> tb_valid y = 1 \<and> tb_sendq y = tb_sendq zero_tcb \<and> tb_state y \<noteq> TCP_CLOSED \<and> tb_state y \<noteq> TCP_CLOSING"

lemma fresh_tcb_ok: "fresh_tcb y \<Longrightarrow> tcb_ok y \<and> segs y = {}"
  by (simp add: fresh_tcb_def tcb_ok_def segs_def zero_tcb_def zero_segment_def TCP_MAX_INFLIGHT_def)

lemma tcp_alloc_fill:
  assumes "tinv sim a w t" "fresh_tcb (f (zero_tcb\<lparr>tb_valid := 1\<rparr>))"
    and "tb_state (f (zero_tcb\<lparr>tb_valid := 1\<rparr>)) = TCP_LISTEN \<or> conns.find_key (conn_key (f (zero_tcb\<lparr>tb_valid := 1\<rparr>))) (tt_tcbs t) = None"
  obtains "tcp_alloc_tcb a w = Some (None, w)" "tt_count t = int TCP_MAX_CONNS"
    | i w1 w' where "tcp_alloc_tcb a w = Some (Some (a, i), w1)" "tcb_upd (a, i) f w1 = Some w'" "i < TCP_MAX_CONNS" "tb_valid (tt_tcbs t ! i) = 0"
      "tstep sim a X w w' (t\<lparr>tt_tcbs := (tt_tcbs t)[i := f (zero_tcb\<lparr>tb_valid := 1\<rparr>)], tt_count := tt_count t + 1\<rparr>)"
      "\<And>j. j < TCP_MAX_CONNS \<Longrightarrow> tb_valid (tt_tcbs t ! j) \<noteq> 0 \<Longrightarrow> tcb_at (a, j) w1 = Some (tt_tcbs t ! j)"
proof (cases "first_idx (\<lambda>x. tb_valid x = 0) (tt_tcbs t)")
  case None
  note d = tinvD [OF assms(1)]
  have "tt_count t = int TCP_MAX_CONNS" using None d(4) length_filter_full [of "\<lambda>x. tb_valid x \<noteq> 0" "tt_tcbs t"]
    by (simp add: first_idx_None table_wf_def)
  then show thesis using that(1) None d(3,5) by (simp add: tcp_alloc_tcb_def)
next
  case (Some i)
  note d = tinvD [OF assms(1)]
  let ?y = "f (zero_tcb\<lparr>tb_valid := 1\<rparr>)" and ?t1 = "t\<lparr>tt_tcbs := (tt_tcbs t)[i := zero_tcb\<lparr>tb_valid := 1\<rparr>], tt_count := tt_count t + 1\<rparr>"
  have i: "i < TCP_MAX_CONNS" "tb_valid (tt_tcbs t ! i) = 0" using Some d(6) by (simp_all add: first_idx_Some)
  have y: "tcb_ok ?y" "segs ?y = {}" using fresh_tcb_ok [OF assms(2)] by simp_all
  have u: "conns.unique ((tt_tcbs t)[i := ?y])"
  proof (cases "tb_state ?y = TCP_LISTEN")
    case True
    then show ?thesis using d(4) by (intro conns.unique_dead) (simp_all add: table_wf_def)
  next
    case False
    then show ?thesis using assms(3) d(4) by (intro conns.unique_fill) (simp_all add: table_wf_def)
  qed
  let ?t = "t\<lparr>tt_tcbs := (tt_tcbs t)[i := ?y], tt_count := tt_count t + 1\<rparr>"
  have "tinv sim a (tcp_put a ?t w) ?t"
    by (rule tinv_update [OF assms(1) i(1) y(1) u, of "{}"]) (use y(2) i(2) assms(2) in \<open>auto simp: fresh_tcb_def\<close>)
  then have st: "tstep sim a X w (tcp_put a ?t w) ?t" by (rule tstep_put)
  have al: "tcp_alloc_tcb a w = Some (Some (a, i), tcp_put a ?t1 w)" using Some d(3,5) by (simp add: tcp_alloc_tcb_def)
  have up: "tcb_upd (a, i) f (tcp_put a ?t1 w) = Some (tcp_put a ?t w)" using d(5,6) i(1) by (simp add: tcb_upd_def) (cases t, simp)
  have "tcb_at (a, j) (tcp_put a ?t1 w) = Some (tt_tcbs t ! j)" if "j < TCP_MAX_CONNS" "tb_valid (tt_tcbs t ! j) \<noteq> 0" for j
    using that d(5,6) i(2) by (cases "j = i") (auto simp: tcb_at_def)
  then show thesis using that(2) [OF al up i st] by blast
qed

section \<open>Runs over one connection\<close>

text \<open>The state of a run of an operation that works on slot \<open>i\<close> of the table \<open>t\<close> it began with, whose block is now
  \<open>x\<close>.\<close>

definition cur :: "addr \<Rightarrow> addr \<Rightarrow> addr set \<Rightarrow> 'a tcp_world_scheme \<Rightarrow> 'a tcp_world_scheme \<Rightarrow> TcpTable \<Rightarrow> nat \<Rightarrow> Tcb \<Rightarrow> bool" where
  "cur sim a X w0 w t i x \<longleftrightarrow> i < TCP_MAX_CONNS \<and> length (tt_tcbs t) = TCP_MAX_CONNS \<and> tstep sim a X w0 w (with_slot t i x) \<and>
     segs x \<subseteq> segs (tt_tcbs t ! i)"

lemma cur_start: "tinv sim a w t \<Longrightarrow> i < TCP_MAX_CONNS \<Longrightarrow> cur sim a X w w t i (tt_tcbs t ! i)"
  using tinvD(6) by (auto simp: cur_def tstep_def)

lemma cur_inv: "cur sim a X w0 w t i x \<Longrightarrow> tinv sim a w (with_slot t i x)"
  by (simp add: cur_def tstep_def)

lemma cur_at: "cur sim a X w0 w t i x \<Longrightarrow> tcb_at (a, i) w = Some x"
  using tinv_slot(1) [of sim a w "with_slot t i x" i] by (simp add: cur_def tstep_def)

lemma cur_ok: "cur sim a X w0 w t i x \<Longrightarrow> tcb_ok x"
  using tinv_slot(2) [of sim a w "with_slot t i x" i] by (simp add: cur_def tstep_def)

lemma cur_ready: "cur sim a X w0 w t i x \<Longrightarrow> ip_ready sim w"
  using tinvD(1) [OF cur_inv] .

lemma tracked_with_slot:
  assumes "i < length (tt_tcbs t)" "segs x \<subseteq> segs (tt_tcbs t ! i)"
  shows "tracked (with_slot t i x) \<subseteq> tracked t"
proof -
  have "segs (tt_tcbs t ! i) \<subseteq> tracked t" using assms(1) nth_mem unfolding tracked_def by blast
  then show ?thesis using assms(2) set_update_subset_insert [of "tt_tcbs t" i x] by (fastforce simp: tracked_def)
qed

lemma cur_tracked: "cur sim a X w0 w t i x \<Longrightarrow> tracked (with_slot t i x) \<subseteq> tracked t"
  by (intro tracked_with_slot) (simp_all add: cur_def)

lemma cur_like:
  assumes "cur sim a X w0 w t i x" "tcb_like x (f x)"
  obtains w' where "tcb_upd (a, i) f w = Some w'" "cur sim a X w0 w' t i (f x)"
proof -
  have c: "i < TCP_MAX_CONNS" "length (tt_tcbs t) = TCP_MAX_CONNS" "tstep sim a X w0 w (with_slot t i x)" "segs x \<subseteq> segs (tt_tcbs t ! i)"
    using assms(1) by (simp_all add: cur_def)
  have l: "tcb_like (tt_tcbs (with_slot t i x) ! i) (f (tt_tcbs (with_slot t i x) ! i))" using c assms(2) by simp
  obtain w' where "tcb_upd (a, i) f w = Some w'" "tstep sim a X w w' (with_slot t i (f x))"
    using tstep_like [OF tstep_inv [OF c(3)] c(1), of f X, OF l] c(1,2) by auto
  moreover have "segs (f x) = segs x" using assms(2) by (simp add: tcb_like_def segs_def)
  ultimately show thesis using that c tstep_trans [OF c(3)] by (simp add: cur_def)
qed

lemma cur_ack:
  assumes "cur sim a X w0 w t i x" "segs (tt_tcbs t ! i) \<subseteq> X"
  obtains w' where "tcp_sendq_ack (Some (a, i)) ack w = Some w'" "cur sim a X w0 w' t i (acked_tcb ack x)"
proof -
  have c: "i < TCP_MAX_CONNS" "length (tt_tcbs t) = TCP_MAX_CONNS" "tstep sim a X w0 w (with_slot t i x)" "segs x \<subseteq> segs (tt_tcbs t ! i)"
    using assms(1) by (simp_all add: cur_def)
  obtain w' where w': "tcp_sendq_ack (Some (a, i)) ack w = Some w'"
    "tstep sim a (segs (tt_tcbs (with_slot t i x) ! i)) w w' (with_slot (with_slot t i x) i (acked_tcb ack (tt_tcbs (with_slot t i x) ! i)))"
    by (rule tcp_sendq_ack_safe [OF tstep_inv [OF c(3)] c(1)])
  then have "tstep sim a X w w' (with_slot t i (acked_tcb ack x))" using c(1,2,4) assms(2) by (auto intro: tstep_mono)
  then show thesis using that w'(1) c segs_acked [of ack x] tstep_trans [OF c(3)] by (simp add: cur_def)
qed

lemma cur_net:
  assumes "cur sim a X w0 w t i x" "ip_step sim Y w w'" "Y \<inter> tracked t = {}" "Y \<subseteq> X"
  shows "cur sim a X w0 w' t i x"
proof -
  have "tstep sim a Y w w' (with_slot t i x)"
    using assms(2,3) cur_tracked [OF assms(1)] by (intro tstep_net [OF cur_inv [OF assms(1)]]) auto
  then have "tstep sim a X w w' (with_slot t i x)" by (rule tstep_mono) (rule assms(4))
  then show ?thesis using assms(1) tstep_trans unfolding cur_def by blast
qed

lemma cur_send_ack:
  assumes "cur sim a X w0 w t i x"
  obtains r w' where "tcp_send_ack sim (a, i) w = Some (r, w')" "r \<in> {0, - 1}" "cur sim a X w0 w' t i x"
proof -
  obtain r c w' where "tcp_send_segment sim (tb_local_ip x) (tb_remote_ip x) (tb_local_port x) (tb_remote_port x)
       (tb_snd_nxt x) (tb_rcv_nxt x) TCP_FLAG_ACK None 0 False w = Some (r, c, w')" "r \<in> {0, - 1}" "ip_step sim {} w w'"
    by (rule tcp_send_segment_safe [OF cur_ready [OF assms]]) auto
  then show thesis using that [of r w'] cur_at [OF assms] cur_net [OF assms, of "{}" w'] by (simp add: tcp_send_ack_def)
qed

text \<open>The exits.\<close>

lemma exits_safe:
  assumes "tinv sim a w t" "pkt_at pkt w \<noteq> None" "pkt \<notin> tracked t" "iface_at iface w \<noteq> None"
  shows "\<exists>w'. tcp_fail iface pkt w = Some (- 1, w') \<and> tstep sim a {pkt} w w' t"
    "\<exists>w'. tcp_drop iface pkt w = Some (- 1, w') \<and> tstep sim a {pkt} w w' t"
    "\<exists>w'. tcp_done pkt w = Some (0, w') \<and> tstep sim a {pkt} w w' t"
proof -
  have l: "pkt = NULL \<or> pkt_at pkt w \<noteq> None" using assms(2) by simp
  obtain w1 where 1: "packet_free pkt w = Some w1" "ip_step sim {pkt} w w1" by (rule ip_step_free [OF tinvD(1) [OF assms(1)] l])
  have t1: "tstep sim a {pkt} w w1 t" using tstep_net [OF assms(1) 1(2)] assms(3) by simp
  have i1: "iface_at iface w1 \<noteq> None" using ip_step_iface [OF 1(2)] assms(4) by simp
  note c = ip_step_counts [OF ip_step_ready [OF 1(2)] i1]
  have t2: "tstep sim a {pkt} w w2 t" if "ip_step sim {} w1 w2" for w2
    using tstep_trans [OF t1 tstep_mono [OF tstep_net [OF tstep_inv [OF t1] that]]] by simp
  show "\<exists>w'. tcp_fail iface pkt w = Some (- 1, w') \<and> tstep sim a {pkt} w w' t" using c(1) 1(1) t2 by (auto simp: tcp_fail_def)
  show "\<exists>w'. tcp_drop iface pkt w = Some (- 1, w') \<and> tstep sim a {pkt} w w' t" using c(2) 1(1) t2 by (auto simp: tcp_drop_def)
  show "\<exists>w'. tcp_done pkt w = Some (0, w') \<and> tstep sim a {pkt} w w' t" using 1(1) t1 by (auto simp: tcp_done_def)
qed

text \<open>An operation ends with 0 or -1 and a table that satisfies \<open>Q\<close> with that result.\<close>

definition ends :: "addr \<Rightarrow> addr \<Rightarrow> (int \<Rightarrow> TcpTable \<Rightarrow> bool) \<Rightarrow> (int \<times> 'a tcp_world_scheme) option \<Rightarrow> bool" where
  "ends sim a Q res \<longleftrightarrow> (\<exists>r w' t. res = Some (r, w') \<and> r \<in> {0, - 1} \<and> tinv sim a w' t \<and> Q r t)"

lemma endsI: "res = Some (r, w') \<Longrightarrow> r \<in> {0, - 1} \<Longrightarrow> tinv sim a w' t \<Longrightarrow> Q r t \<Longrightarrow> ends sim a Q res"
  unfolding ends_def by blast

lemma step_exit:
  assumes "tstep sim a X w0 w t" "pkt \<notin> X" "pkt_at pkt w0 \<noteq> None" "pkt \<notin> tracked t" "iface_at iface w0 \<noteq> None"
  shows "Q (- 1) t \<Longrightarrow> ends sim a Q (tcp_fail iface pkt w)" "Q (- 1) t \<Longrightarrow> ends sim a Q (tcp_drop iface pkt w)"
    "Q 0 t \<Longrightarrow> ends sim a Q (tcp_done pkt w)"
  using exits_safe [OF tstep_inv [OF assms(1)] tstep_pkt [OF assms(1,2,3)] assms(4) tstep_iface [OF assms(1,5)]] tstep_inv
  unfolding ends_def by blast+

lemma cur_exit:
  assumes "cur sim a X w0 w t i x" "pkt \<notin> X" "pkt_at pkt w0 \<noteq> None" "pkt \<notin> tracked t" "iface_at iface w0 \<noteq> None"
  shows "Q (- 1) (with_slot t i x) \<Longrightarrow> ends sim a Q (tcp_fail iface pkt w)"
    "Q (- 1) (with_slot t i x) \<Longrightarrow> ends sim a Q (tcp_drop iface pkt w)" "Q 0 (with_slot t i x) \<Longrightarrow> ends sim a Q (tcp_done pkt w)"
proof -
  have s: "tstep sim a X w0 w (with_slot t i x)" using assms(1) by (simp add: cur_def)
  have p: "pkt \<notin> tracked (with_slot t i x)" using cur_tracked [OF assms(1)] assms(4) by auto
  note e = step_exit [OF s assms(2,3) p assms(5)]
  show "Q (- 1) (with_slot t i x) \<Longrightarrow> ends sim a Q (tcp_fail iface pkt w)"
    "Q (- 1) (with_slot t i x) \<Longrightarrow> ends sim a Q (tcp_drop iface pkt w)" "Q 0 (with_slot t i x) \<Longrightarrow> ends sim a Q (tcp_done pkt w)"
    by (fact e(1), fact e(2), fact e(3))
qed

text \<open>Scheduling an event.\<close>

lemma ip_step_schedule:
  assumes "ip_ready sim w" "sim_at sim w = Some m"
  obtains r w' where "scheduler_schedule (sim_sched m) (Some e) w = Some (r, w')" "r \<in> {0, - 1}" "ip_step sim {} w w'"
proof -
  note net = ip_ready_net [OF assms(1)]
  have sr: "sim_ready sim w" "heap_wf w" using net by (simp_all add: net_wf_def)
  from schedule_safe [OF sr(1) assms(2), of e] obtain r w' where s: "scheduler_schedule (sim_sched m) (Some e) w = Some (r, w')"
    "r \<in> {0, - 1}" "sim_ready sim w'" "sched_frame w w'" "\<forall>a. pkt_at a w' = pkt_at a w" "mem_next (w_mem w) \<le> mem_next (w_mem w')" by blast
  have "heap_wf w'" using sr(2) s(5,6) by (fastforce simp: heap_wf_def)
  then have "net_wf sim w'" using net_wf_frame [OF net net_frame_sched [OF s(4)]] s(3) by blast
  then have "safe_step sim {} w w'" using s(5) net_frame_sched [OF s(4)] by (simp add: safe_step_def)
  then show thesis using that s(1,2) ip_step_safe [OF assms(1)] by blast
qed

lemma ip_step_event:
  assumes "ip_ready sim w"
  obtains e w' where "event_create_callback ty ts s d p x h c w = (e, w')" "ip_step sim {} w w'"
proof -
  obtain b w' where al: "alloc w = (b, w')" by (cases "alloc w") auto
  have "ip_step sim {} w w'" by (rule ip_step_safe [OF assms safe_step_alloc [OF ip_ready_net [OF assms] al]])
  then show thesis using that al by (cases "b = NULL") (auto simp: event_create_callback_def)
qed

lemma ready_parts:
  assumes "ip_ready sim w"
  obtains m sch where "sim_at sim w = Some m" "sched_at (sim_sched m) w = Some sch" "sim_sched m \<noteq> NULL" "sim \<noteq> NULL"
proof -
  from assms obtain m sch where m: "sim_at sim w = Some m" "sched_at (sim_sched m) w = Some sch"
    by (auto simp: ip_ready_def net_wf_def sim_ready_def)
  show thesis by (rule that [OF m sched_at_nonnull [OF m(2)] sim_at_nonnull [OF m(1)]])
qed

lemma ip_step_sim: "ip_step sim X w w' \<Longrightarrow> sim_at b w' = sim_at b w"
  by (simp add: ip_step_def sim_at_def)

lemma cur_time_wait:
  assumes "cur sim a X w0 w t i x" "tb_state x \<noteq> TCP_LISTEN"
  obtains w' where "tcp_enter_time_wait \<lparr>tx_sim = sim, tx_table = a\<rparr> (a, i) w = Some w'" "cur sim a X w0 w' t i (x\<lparr>tb_state := TCP_TIME_WAIT\<rparr>)"
proof -
  have "tcb_like x (x\<lparr>tb_state := TCP_TIME_WAIT\<rparr>)" using assms(2) by (simp add: tcb_like_def conn_key_def)
  then obtain w1 where 1: "tcb_upd (a, i) (\<lambda>x. x\<lparr>tb_state := TCP_TIME_WAIT\<rparr>) w = Some w1" "cur sim a X w0 w1 t i (x\<lparr>tb_state := TCP_TIME_WAIT\<rparr>)"
    using cur_like [OF assms(1), of "\<lambda>x. x\<lparr>tb_state := TCP_TIME_WAIT\<rparr>"] by blast
  note rd = cur_ready [OF 1(2)]
  obtain m sch where m: "sim_at sim w1 = Some m" "sched_at (sim_sched m) w1 = Some sch" "sim_sched m \<noteq> NULL" by (rule ready_parts [OF rd])
  obtain e w2 where 2: "event_create_callback EVT_TIMER_EXPIRED (sch_now sch + TCP_TIME_WAIT_US) VNull VNull NULL (VTcb a i)
      Cb_tcp_time_wait_handler (VTcpTable a) w1 = (e, w2)" "ip_step sim {} w1 w2" by (rule ip_step_event [OF rd])
  note c2 = cur_net [OF 1(2) 2(2)]
  show thesis
  proof (cases e)
    case None
    then show thesis using that [of w2] 1(1) m 2(1) c2 by (simp add: tcp_enter_time_wait_def)
  next
    case (Some ev)
    have "sim_at sim w2 = Some m" using ip_step_sim [OF 2(2)] m(1) by simp
    then obtain r w3 where "scheduler_schedule (sim_sched m) (Some ev) w2 = Some (r, w3)" "ip_step sim {} w2 w3"
      using ip_step_schedule [OF ip_step_ready [OF 2(2)]] by blast
    then show thesis using that [of w3] 1(1) m 2(1) Some cur_net [OF c2, of "{}" w3] by (simp add: tcp_enter_time_wait_def)
  qed
qed

section \<open>Segments\<close>

text \<open>What the handlers of the client have to do: return, with the table of connections as it was, and leave alone the
  packets that TCP tracks. A receive handler takes over the packet it is given.\<close>

definition handlers_ok :: "addr \<Rightarrow> addr \<Rightarrow> 'a tcp_recv_call \<Rightarrow> 'a tcp_connect_call \<Rightarrow> bool" where
  "handlers_ok sim a rcall ccall \<longleftrightarrow>
     (\<forall>h b ctx w t. tinv sim a w t \<longrightarrow> (\<exists>w'. ccall h b ctx w = Some w' \<and> tstep sim a {} w w' t)) \<and>
     (\<forall>h b p ctx w t. tinv sim a w t \<longrightarrow> pkt_at p w \<noteq> None \<longrightarrow> p \<notin> tracked t \<longrightarrow>
        (\<exists>w'. rcall h b p ctx w = Some w' \<and> tinv sim a w' t))"

text \<open>The effect of a segment on a connection, as a function. The argument \<open>ok\<close> says whether the acknowledgement that the
  segment asks for, if any, could be sent.\<close>

definition take_ack :: "u32 \<Rightarrow> u8 \<Rightarrow> Tcb \<Rightarrow> Tcb" where
  "take_ack ack fl x = (if has_flag fl TCP_FLAG_ACK \<and> tb_snd_una x < ack \<and> ack \<le> tb_snd_nxt x
     then (acked_tcb ack x)\<lparr>tb_snd_una := ack\<rparr> else x)"

definition seg_next :: "bool \<Rightarrow> u32 \<Rightarrow> u32 \<Rightarrow> u8 \<Rightarrow> nat \<Rightarrow> Tcb \<Rightarrow> Tcb" where
  "seg_next ok seq ack fl n x = (case tb_state x of
     TCP_SYN_SENT \<Rightarrow> if has_flag fl TCP_FLAG_SYN \<and> has_flag fl TCP_FLAG_ACK \<and> ack = tb_snd_nxt x
       then (acked_tcb ack (x\<lparr>tb_rcv_nxt := seq + 1, tb_snd_una := ack\<rparr>))\<lparr>tb_state := TCP_ESTABLISHED\<rparr> else x
   | TCP_SYN_RECEIVED \<Rightarrow> if has_flag fl TCP_FLAG_ACK \<and> ack = tb_snd_nxt x
       then (acked_tcb ack (x\<lparr>tb_snd_una := ack\<rparr>))\<lparr>tb_state := TCP_ESTABLISHED\<rparr> else x
   | TCP_ESTABLISHED \<Rightarrow> (let y = take_ack ack fl x in
       if 0 < n then (if seq = tb_rcv_nxt y then y\<lparr>tb_rcv_nxt := tb_rcv_nxt y + of_nat n\<rparr> else y)
       else if has_flag fl TCP_FLAG_FIN \<and> seq = tb_rcv_nxt y
         then (if ok then y\<lparr>tb_rcv_nxt := seq + 1, tb_state := TCP_CLOSE_WAIT\<rparr> else y\<lparr>tb_rcv_nxt := seq + 1\<rparr>)
       else y)
   | TCP_FIN_WAIT_1 \<Rightarrow> if has_flag fl TCP_FLAG_ACK \<and> tb_snd_una x < ack
       then (let y = acked_tcb ack (x\<lparr>tb_snd_una := ack\<rparr>) in if fin_is_acked y then y\<lparr>tb_state := TCP_FIN_WAIT_2\<rparr> else y) else x
   | TCP_FIN_WAIT_2 \<Rightarrow> if has_flag fl TCP_FLAG_FIN \<and> seq = tb_rcv_nxt x
       then (if ok then x\<lparr>tb_rcv_nxt := seq + 1, tb_state := TCP_TIME_WAIT\<rparr> else x\<lparr>tb_rcv_nxt := seq + 1\<rparr>) else x
   | TCP_LAST_ACK \<Rightarrow> if has_flag fl TCP_FLAG_ACK \<and> tb_snd_una x < ack
       then (let y = acked_tcb ack (x\<lparr>tb_snd_una := ack\<rparr>) in if fin_is_acked y then zero_tcb else y) else x
   | _ \<Rightarrow> x)"

text \<open>The table after it; a released connection is counted out.\<close>

definition table_next :: "TcpTable \<Rightarrow> nat \<Rightarrow> Tcb \<Rightarrow> TcpTable" where
  "table_next t i y = (if tb_valid y = 0 then t\<lparr>tt_tcbs := (tt_tcbs t)[i := y], tt_count := tt_count t - 1\<rparr> else with_slot t i y)"

text \<open>The situation in which the segments of connection \<open>i\<close> are handled.\<close>

definition arrival :: "addr \<Rightarrow> addr \<Rightarrow> 'a tcp_world_scheme \<Rightarrow> TcpTable \<Rightarrow> nat \<Rightarrow> addr \<Rightarrow> addr \<Rightarrow> bool" where
  "arrival sim a w t i iface pkt \<longleftrightarrow> tinv sim a w t \<and> i < TCP_MAX_CONNS \<and> tb_valid (tt_tcbs t ! i) = 1 \<and>
     pkt_at pkt w \<noteq> None \<and> pkt \<notin> tracked t \<and> iface_at iface w \<noteq> None"

lemma arrivalD:
  assumes "arrival sim a w t i iface pkt"
  shows "cur sim a (segs (tt_tcbs t ! i)) w w t i (tt_tcbs t ! i)" "pkt \<notin> segs (tt_tcbs t ! i)" "pkt_at pkt w \<noteq> None" "pkt \<notin> tracked t"
    "iface_at iface w \<noteq> None" "tb_valid (tt_tcbs t ! i) = 1" "tcb_at (a, i) w = Some (tt_tcbs t ! i)"
  using assms tinv_slot [of sim a w t i] cur_start by (auto simp: arrival_def)

lemmas arrival_exit = cur_exit [OF _ arrivalD(2) arrivalD(3) arrivalD(4) arrivalD(5)]

lemma cur_connected:
  assumes "cur sim a X w0 w t i x" "handlers_ok sim a rcall ccall"
  obtains w' where "tcp_connected ccall (a, i) w = Some w'" "cur sim a X w0 w' t i x"
proof (cases "tb_connect_handler x = Tcp_connect_NULL")
  case True
  then show thesis using that [of w] cur_at [OF assms(1)] assms(1) by (simp add: tcp_connected_def)
next
  case False
  obtain w' where w': "ccall (tb_connect_handler x) (a, i) (tb_handler_ctx x) w = Some w'" "tstep sim a {} w w' (with_slot t i x)"
    using assms(2) cur_inv [OF assms(1)] unfolding handlers_ok_def by blast
  then have "cur sim a X w0 w' t i x" using assms(1) tstep_trans [OF _ tstep_mono [OF w'(2), of X]] unfolding cur_def by blast
  then show thesis using that w'(1) False cur_at [OF assms(1)] by (simp add: tcp_connected_def)
qed

text \<open>An update of the block of a connection.\<close>

lemma cur_upd:
  assumes "cur sim a X w0 w t i x" "tb_sendq (f x) = tb_sendq x" "tb_valid (f x) = tb_valid x" "conn_key (f x) = conn_key x"
    "tb_state x \<noteq> TCP_LISTEN" "tb_state (f x) \<notin> {TCP_LISTEN, TCP_CLOSED, TCP_CLOSING}"
  obtains w' where "tcb_upd (a, i) f w = Some w'" "cur sim a X w0 w' t i (f x)"
  using cur_like [OF assms(1), of f] assms(2-6) by (auto simp: tcb_like_def)

lemma conn_key_updates [simp]:
  "conn_key (x\<lparr>tb_rcv_nxt := u\<rparr>) = conn_key x" "conn_key (x\<lparr>tb_snd_una := u\<rparr>) = conn_key x" "conn_key (x\<lparr>tb_state := s\<rparr>) = conn_key x"
  "conn_key (x\<lparr>tb_snd_nxt := u\<rparr>) = conn_key x" "conn_key (x\<lparr>tb_sendq := q\<rparr>) = conn_key x" "conn_key (x\<lparr>tb_retransmit_ts := v\<rparr>) = conn_key x"
  by (simp_all add: conn_key_def)

lemma syn_sent_arrives:
  assumes "arrival sim a w t i iface pkt" "handlers_ok sim a rcall ccall" "tb_state (tt_tcbs t ! i) = TCP_SYN_SENT"
  shows "ends sim a (\<lambda>r t'. t' = table_next t i (seg_next (r = 0) seq ack fl n (tt_tcbs t ! i)))
    (tcp_syn_sent ccall iface pkt \<lparr>tx_sim = sim, tx_table = a\<rparr> (a, i) seq ack fl w)"
proof -
  let ?x = "tt_tcbs t ! i"
  note d = arrivalD [OF assms(1)] and ex = arrival_exit [OF _ assms(1,1,1,1)]
  show ?thesis
  proof (cases "has_flag fl TCP_FLAG_SYN \<and> has_flag fl TCP_FLAG_ACK \<and> ack = tb_snd_nxt ?x")
    case False
    then show ?thesis using d assms(3) ex(2) [OF d(1)] by (auto simp: tcp_syn_sent_def seg_next_def table_next_def)
  next
    case True
    let ?x1 = "?x\<lparr>tb_rcv_nxt := seq + 1, tb_snd_una := ack\<rparr>"
    let ?x3 = "(acked_tcb ack ?x1)\<lparr>tb_state := TCP_ESTABLISHED\<rparr>"
    have nx: "table_next t i (seg_next b seq ack fl n ?x) = with_slot t i ?x3" for b
      using True assms(3) d(6) by (simp add: seg_next_def table_next_def)
    obtain w1 where 1: "tcb_upd (a, i) (\<lambda>x. x\<lparr>tb_rcv_nxt := seq + 1, tb_snd_una := ack\<rparr>) w = Some w1" "cur sim a (segs ?x) w w1 t i ?x1"
      by (rule cur_upd [OF d(1), of "\<lambda>x. x\<lparr>tb_rcv_nxt := seq + 1, tb_snd_una := ack\<rparr>"]) (use assms(3) in simp_all)
    obtain w2 where 2: "tcp_sendq_ack (Some (a, i)) ack w1 = Some w2" "cur sim a (segs ?x) w w2 t i (acked_tcb ack ?x1)" by (rule cur_ack [OF 1(2)]) auto
    obtain w3 where 3: "tcb_upd (a, i) (\<lambda>x. x\<lparr>tb_state := TCP_ESTABLISHED\<rparr>) w2 = Some w3" "cur sim a (segs ?x) w w3 t i ?x3"
      by (rule cur_upd [OF 2(2), of "\<lambda>x. x\<lparr>tb_state := TCP_ESTABLISHED\<rparr>"]) (use assms(3) in simp_all)
    obtain r w4 where 4: "tcp_send_ack sim (a, i) w3 = Some (r, w4)" "r \<in> {0, - 1}" "cur sim a (segs ?x) w w4 t i ?x3" by (rule cur_send_ack [OF 3(2)])
    obtain w5 where 5: "tcp_connected ccall (a, i) w4 = Some w5" "cur sim a (segs ?x) w w5 t i ?x3" by (rule cur_connected [OF 4(3) assms(2)])
    have "tcp_syn_sent ccall iface pkt \<lparr>tx_sim = sim, tx_table = a\<rparr> (a, i) seq ack fl w = (if r = - 1 then tcp_fail iface pkt w4 else tcp_done pkt w5)"
      using d(7) True 1(1) 2(1) 3(1) 4(1) 5(1) by (simp add: tcp_syn_sent_def)
    then show ?thesis using ex(1) [OF 4(3)] ex(3) [OF 5(2)] nx by (cases "r = - 1") simp_all
  qed
qed

lemma syn_received_arrives:
  assumes "arrival sim a w t i iface pkt" "handlers_ok sim a rcall ccall" "tb_state (tt_tcbs t ! i) = TCP_SYN_RECEIVED"
  shows "ends sim a (\<lambda>r t'. t' = table_next t i (seg_next (r = 0) seq ack fl n (tt_tcbs t ! i)))
    (tcp_syn_received ccall iface pkt (a, i) ack fl w)"
proof -
  let ?x = "tt_tcbs t ! i"
  note d = arrivalD [OF assms(1)] and ex = arrival_exit [OF _ assms(1,1,1,1)]
  show ?thesis
  proof (cases "has_flag fl TCP_FLAG_ACK \<and> ack = tb_snd_nxt ?x")
    case False
    then show ?thesis using d assms(3) ex(2) [OF d(1)] by (auto simp: tcp_syn_received_def seg_next_def table_next_def)
  next
    case True
    let ?x1 = "?x\<lparr>tb_snd_una := ack\<rparr>"
    let ?x3 = "(acked_tcb ack ?x1)\<lparr>tb_state := TCP_ESTABLISHED\<rparr>"
    have nx: "table_next t i (seg_next b seq ack fl n ?x) = with_slot t i ?x3" for b
      using True assms(3) d(6) by (simp add: seg_next_def table_next_def)
    obtain w1 where 1: "tcb_upd (a, i) (\<lambda>x. x\<lparr>tb_snd_una := ack\<rparr>) w = Some w1" "cur sim a (segs ?x) w w1 t i ?x1"
      by (rule cur_upd [OF d(1), of "\<lambda>x. x\<lparr>tb_snd_una := ack\<rparr>"]) (use assms(3) in simp_all)
    obtain w2 where 2: "tcp_sendq_ack (Some (a, i)) ack w1 = Some w2" "cur sim a (segs ?x) w w2 t i (acked_tcb ack ?x1)" by (rule cur_ack [OF 1(2)]) auto
    obtain w3 where 3: "tcb_upd (a, i) (\<lambda>x. x\<lparr>tb_state := TCP_ESTABLISHED\<rparr>) w2 = Some w3" "cur sim a (segs ?x) w w3 t i ?x3"
      by (rule cur_upd [OF 2(2), of "\<lambda>x. x\<lparr>tb_state := TCP_ESTABLISHED\<rparr>"]) (use assms(3) in simp_all)
    obtain w5 where 5: "tcp_connected ccall (a, i) w3 = Some w5" "cur sim a (segs ?x) w w5 t i ?x3" by (rule cur_connected [OF 3(2) assms(2)])
    have "tcp_syn_received ccall iface pkt (a, i) ack fl w = tcp_done pkt w5"
      using d(7) True 1(1) 2(1) 3(1) 5(1) by (simp add: tcp_syn_received_def)
    then show ?thesis using ex(3) [OF 5(2)] nx by simp
  qed
qed

text \<open>The acknowledgement of a FIN, in three states.\<close>

lemma cur_ack_fin:
  assumes "cur sim a X w0 w t i x" "segs (tt_tcbs t ! i) \<subseteq> X" "tb_state x \<notin> {TCP_LISTEN, TCP_CLOSED, TCP_CLOSING}"
  obtains w' where "tcp_ack_fin (a, i) ack w = Some (fin_is_acked (acked_tcb ack (x\<lparr>tb_snd_una := ack\<rparr>)), w')"
    "cur sim a X w0 w' t i (acked_tcb ack (x\<lparr>tb_snd_una := ack\<rparr>))"
proof -
  obtain w1 where 1: "tcb_upd (a, i) (\<lambda>x. x\<lparr>tb_snd_una := ack\<rparr>) w = Some w1" "cur sim a X w0 w1 t i (x\<lparr>tb_snd_una := ack\<rparr>)"
    by (rule cur_upd [OF assms(1), of "\<lambda>x. x\<lparr>tb_snd_una := ack\<rparr>"]) (use assms(3) in simp_all)
  obtain w2 where 2: "tcp_sendq_ack (Some (a, i)) ack w1 = Some w2" "cur sim a X w0 w2 t i (acked_tcb ack (x\<lparr>tb_snd_una := ack\<rparr>))"
    by (rule cur_ack [OF 1(2) assms(2)])
  show thesis by (rule that [OF _ 2(2)]) (use 1(1) 2(1) cur_at [OF 2(2)] in \<open>simp add: tcp_ack_fin_def\<close>)
qed

lemma fin_wait_1_arrives:
  assumes "arrival sim a w t i iface pkt" "tb_state (tt_tcbs t ! i) = TCP_FIN_WAIT_1"
  shows "ends sim a (\<lambda>r t'. t' = table_next t i (seg_next (r = 0) seq ack fl n (tt_tcbs t ! i)))
    (tcp_fin_wait_1 iface pkt (a, i) ack fl w)"
proof -
  let ?x = "tt_tcbs t ! i" and ?y = "acked_tcb ack ((tt_tcbs t ! i)\<lparr>tb_snd_una := ack\<rparr>)"
  note d = arrivalD [OF assms(1)] and ex = arrival_exit [OF _ assms(1,1,1,1)]
  show ?thesis
  proof (cases "has_flag fl TCP_FLAG_ACK \<and> tb_snd_una ?x < ack")
    case False
    then show ?thesis using d assms(2) ex(2) [OF d(1)] by (auto simp: tcp_fin_wait_1_def seg_next_def table_next_def)
  next
    case True
    obtain w1 where 1: "tcp_ack_fin (a, i) ack w = Some (fin_is_acked ?y, w1)" "cur sim a (segs ?x) w w1 t i ?y"
      by (rule cur_ack_fin [OF d(1)]) (use assms(2) in simp_all)
    obtain w2 where 2: "tcb_upd (a, i) (\<lambda>x. x\<lparr>tb_state := TCP_FIN_WAIT_2\<rparr>) w1 = Some w2" "cur sim a (segs ?x) w w2 t i (?y\<lparr>tb_state := TCP_FIN_WAIT_2\<rparr>)"
      by (rule cur_upd [OF 1(2), of "\<lambda>x. x\<lparr>tb_state := TCP_FIN_WAIT_2\<rparr>"]) (use assms(2) in simp_all)
    have "tcp_fin_wait_1 iface pkt (a, i) ack fl w = tcp_done pkt (if fin_is_acked ?y then w2 else w1)"
      using d(7) True 1(1) 2(1) by (simp add: tcp_fin_wait_1_def)
    then show ?thesis using ex(3) [OF 1(2)] ex(3) [OF 2(2)] True assms(2) d(6)
      by (cases "fin_is_acked ?y") (simp_all add: seg_next_def table_next_def)
  qed
qed

lemma fin_wait_2_arrives:
  assumes "arrival sim a w t i iface pkt" "tb_state (tt_tcbs t ! i) = TCP_FIN_WAIT_2"
  shows "ends sim a (\<lambda>r t'. t' = table_next t i (seg_next (r = 0) seq ack fl n (tt_tcbs t ! i)))
    (tcp_fin_wait_2 iface pkt \<lparr>tx_sim = sim, tx_table = a\<rparr> (a, i) seq fl w)"
proof -
  let ?x = "tt_tcbs t ! i" and ?y = "(tt_tcbs t ! i)\<lparr>tb_rcv_nxt := seq + 1\<rparr>"
  note d = arrivalD [OF assms(1)] and ex = arrival_exit [OF _ assms(1,1,1,1)]
  show ?thesis
  proof (cases "has_flag fl TCP_FLAG_FIN \<and> seq = tb_rcv_nxt ?x")
    case False
    then show ?thesis using d assms(2) ex(3) [OF d(1)] by (auto simp: tcp_fin_wait_2_def seg_next_def table_next_def)
  next
    case True
    obtain w1 where 1: "tcb_upd (a, i) (\<lambda>x. x\<lparr>tb_rcv_nxt := seq + 1\<rparr>) w = Some w1" "cur sim a (segs ?x) w w1 t i ?y"
      by (rule cur_upd [OF d(1), of "\<lambda>x. x\<lparr>tb_rcv_nxt := seq + 1\<rparr>"]) (use assms(2) in simp_all)
    obtain r w2 where 2: "tcp_send_ack sim (a, i) w1 = Some (r, w2)" "r \<in> {0, - 1}" "cur sim a (segs ?x) w w2 t i ?y" by (rule cur_send_ack [OF 1(2)])
    obtain w3 where 3: "tcp_enter_time_wait \<lparr>tx_sim = sim, tx_table = a\<rparr> (a, i) w2 = Some w3" "cur sim a (segs ?x) w w3 t i (?y\<lparr>tb_state := TCP_TIME_WAIT\<rparr>)"
      by (rule cur_time_wait [OF 2(3)]) (use assms(2) in simp_all)
    have "tcp_fin_wait_2 iface pkt \<lparr>tx_sim = sim, tx_table = a\<rparr> (a, i) seq fl w = (if r = - 1 then tcp_fail iface pkt w2 else tcp_done pkt w3)"
      using d(7) True 1(1) 2(1) 3(1) by (simp add: tcp_fin_wait_2_def)
    then show ?thesis using ex(1) [OF 2(3)] ex(3) [OF 3(2)] True assms(2) d(6)
      by (cases "r = - 1") (simp_all add: seg_next_def table_next_def)
  qed
qed

lemma last_ack_arrives:
  assumes "arrival sim a w t i iface pkt" "tb_state (tt_tcbs t ! i) = TCP_LAST_ACK"
  shows "ends sim a (\<lambda>r t'. t' = table_next t i (seg_next (r = 0) seq ack fl n (tt_tcbs t ! i)))
    (tcp_last_ack iface pkt \<lparr>tx_sim = sim, tx_table = a\<rparr> (a, i) ack fl w)"
proof -
  let ?x = "tt_tcbs t ! i" and ?y = "acked_tcb ack ((tt_tcbs t ! i)\<lparr>tb_snd_una := ack\<rparr>)"
  note d = arrivalD [OF assms(1)] and ex = arrival_exit [OF _ assms(1,1,1,1)]
  show ?thesis
  proof (cases "has_flag fl TCP_FLAG_ACK \<and> tb_snd_una ?x < ack")
    case False
    then show ?thesis using d assms(2) ex(2) [OF d(1)] by (auto simp: tcp_last_ack_def seg_next_def table_next_def)
  next
    case True
    obtain w1 where 1: "tcp_ack_fin (a, i) ack w = Some (fin_is_acked ?y, w1)" "cur sim a (segs ?x) w w1 t i ?y"
      by (rule cur_ack_fin [OF d(1)]) (use assms(2) in simp_all)
    have c: "i < TCP_MAX_CONNS" "length (tt_tcbs t) = TCP_MAX_CONNS" "tstep sim a (segs ?x) w w1 (with_slot t i ?y)" "segs ?y \<subseteq> segs ?x"
      using 1(2) by (simp_all add: cur_def)
    have sl: "tt_tcbs (with_slot t i ?y) ! i = ?y" using c by simp
    have v: "tb_valid (tt_tcbs (with_slot t i ?y) ! i) = 1" unfolding sl using d(6) by simp
    let ?t2 = "t\<lparr>tt_tcbs := (tt_tcbs t)[i := zero_tcb], tt_count := tt_count t - 1\<rparr>"
    obtain w2 where 2: "tcp_release_tcb a (Some (a, i)) w1 = Some w2" "tstep sim a (segs ?y) w1 w2 ?t2"
      using tcp_release_safe [OF tstep_inv [OF c(3)] c(1) v] unfolding sl by auto
    have s2: "tstep sim a (segs ?x) w w2 ?t2" by (rule tstep_trans [OF c(3) tstep_mono [OF 2(2) c(4)]])
    have il: "i < length (tt_tcbs t)" using c by simp
    have p2: "pkt \<notin> tracked ?t2" using d(4) tracked_update [OF il, where x = zero_tcb and n = "tt_count t - 1"] by auto
    have "tcp_last_ack iface pkt \<lparr>tx_sim = sim, tx_table = a\<rparr> (a, i) ack fl w = tcp_done pkt (if fin_is_acked ?y then w2 else w1)"
      using d(7) True 1(1) 2(1) by (simp add: tcp_last_ack_def)
    then show ?thesis using ex(3) [OF 1(2)] step_exit(3) [OF s2 d(2,3) p2 d(5)] True assms(2) d(6)
      by (cases "fin_is_acked ?y") (simp_all add: seg_next_def table_next_def)
  qed
qed

lemma take_ack_fields [simp]:
  "tb_valid (take_ack ack fl x) = tb_valid x" "tb_state (take_ack ack fl x) = tb_state x" "tb_rcv_nxt (take_ack ack fl x) = tb_rcv_nxt x"
  by (simp_all add: take_ack_def)

lemma cur_take_ack:
  assumes "cur sim a X w0 w t i x" "segs (tt_tcbs t ! i) \<subseteq> X" "tb_state x \<notin> {TCP_LISTEN, TCP_CLOSED, TCP_CLOSING}"
  obtains w' where "tcp_take_ack (a, i) ack fl w = Some w'" "cur sim a X w0 w' t i (take_ack ack fl x)"
proof (cases "has_flag fl TCP_FLAG_ACK \<and> tb_snd_una x < ack \<and> ack \<le> tb_snd_nxt x")
  case True
  obtain w1 where 1: "tcp_sendq_ack (Some (a, i)) ack w = Some w1" "cur sim a X w0 w1 t i (acked_tcb ack x)" by (rule cur_ack [OF assms(1,2)])
  obtain w2 where 2: "tcb_upd (a, i) (\<lambda>x. x\<lparr>tb_snd_una := ack\<rparr>) w1 = Some w2" "cur sim a X w0 w2 t i ((acked_tcb ack x)\<lparr>tb_snd_una := ack\<rparr>)"
    by (rule cur_upd [OF 1(2), of "\<lambda>x. x\<lparr>tb_snd_una := ack\<rparr>"]) (use assms(3) in simp_all)
  show thesis by (rule that [of w2]) (use True 1(1) 2 cur_at [OF assms(1)] in \<open>simp_all add: tcp_take_ack_def take_ack_def\<close>)
next
  case False
  then have "take_ack ack fl x = x" "tcp_take_ack (a, i) ack fl w = Some w" using cur_at [OF assms(1)]
    unfolding take_ack_def tcp_take_ack_def by auto
  then show thesis using that [of w] assms(1) by simp
qed

lemma data_arrives:
  assumes "arrival sim a w0 t i iface pkt" "handlers_ok sim a rcall ccall" "cur sim a (segs (tt_tcbs t ! i)) w0 w t i y"
    and "tb_state y = TCP_ESTABLISHED"
  shows "ends sim a (\<lambda>r t'. t' = with_slot t i (if seq = tb_rcv_nxt y then y\<lparr>tb_rcv_nxt := tb_rcv_nxt y + of_nat n\<rparr> else y))
    (tcp_data rcall iface pkt \<lparr>tx_sim = sim, tx_table = a\<rparr> (a, i) seq n w)"
proof (cases "seq = tb_rcv_nxt y")
  case False
  note d = arrivalD [OF assms(1)] and ex = arrival_exit [OF _ assms(1,1,1,1)]
  obtain r w1 where 1: "tcp_send_ack sim (a, i) w = Some (r, w1)" "r \<in> {0, - 1}" "cur sim a (segs (tt_tcbs t ! i)) w0 w1 t i y" by (rule cur_send_ack [OF assms(3)])
  have "tcp_data rcall iface pkt \<lparr>tx_sim = sim, tx_table = a\<rparr> (a, i) seq n w = (if r = - 1 then tcp_fail iface pkt w1 else tcp_done pkt w1)"
    using False 1(1) cur_at [OF assms(3)] by (simp add: tcp_data_def)
  then show ?thesis using ex(1) [OF 1(3)] ex(3) [OF 1(3)] False by (cases "r = - 1") simp_all
next
  case True
  let ?X = "segs (tt_tcbs t ! i)" and ?y = "y\<lparr>tb_rcv_nxt := tb_rcv_nxt y + of_nat n\<rparr>"
  note d = arrivalD [OF assms(1)] and ex = arrival_exit [OF _ assms(1,1,1,1)]
  obtain w1 where 1: "tcb_upd (a, i) (\<lambda>x. x\<lparr>tb_rcv_nxt := tb_rcv_nxt x + of_nat n\<rparr>) w = Some w1" "cur sim a ?X w0 w1 t i ?y"
    by (rule cur_upd [OF assms(3), of "\<lambda>x. x\<lparr>tb_rcv_nxt := tb_rcv_nxt x + of_nat n\<rparr>"]) (use assms(4) in simp_all)
  obtain r w2 where 2: "tcp_send_ack sim (a, i) w1 = Some (r, w2)" "r \<in> {0, - 1}" "cur sim a ?X w0 w2 t i ?y" by (rule cur_send_ack [OF 1(2)])
  show ?thesis
  proof (cases "r = - 1")
    case fail: True
    have "tcp_data rcall iface pkt \<lparr>tx_sim = sim, tx_table = a\<rparr> (a, i) seq n w = tcp_fail iface pkt w2"
      using True fail 1(1) 2(1) cur_at [OF assms(3)] by (simp add: tcp_data_def)
    then show ?thesis using ex(1) [OF 2(3)] True by simp
  next
    case sent: False
    have s2: "tstep sim a ?X w0 w2 (with_slot t i ?y)" using 2(3) by (simp add: cur_def)
    have p2: "pkt_at pkt w2 \<noteq> None" by (rule tstep_pkt [OF s2 d(2,3)])
    then obtain p where p: "pkt_at pkt w2 = Some p" by auto
    note rd = cur_ready [OF 2(3)]
    have pw: "pkt_wf p" using ip_ready_net [OF rd] p by (auto simp: net_wf_def dest: heap_wfD)
    obtain r3 p3 where st: "strip TCP_HDR_LEN p = (r3, p3)" by (cases "strip TCP_HDR_LEN p") auto
    have pw3: "pkt_wf p3" "pkt_wf (p3\<lparr>pkt_layer := 5\<rparr>)" using pw st by (auto simp: strip_def pkt_wf_def split: if_splits)
    have pt: "pkt \<notin> tracked (with_slot t i ?y)" using cur_tracked [OF 2(3)] d(4) by auto
    have puts: "tstep sim a {pkt} w2 (pkt_put pkt q w2) (with_slot t i ?y)" if "pkt_wf q" for q
      by (rule tstep_net [OF cur_inv [OF 2(3)] ip_step_safe [OF rd safe_step_put [OF ip_ready_net [OF rd] p2 that]]]) (use pt in simp)
    have nn: "pkt \<noteq> NULL" by (rule pkt_at_nonnull [OF p])
    have sp: "packet_strip pkt TCP_HDR_LEN w2 = Some (r3, pkt_put pkt p3 w2)" using p st by (simp add: packet_strip_def)
    have live: "pkt_at pkt (pkt_put pkt q w2) \<noteq> None" "iface_at iface (pkt_put pkt q w2) \<noteq> None" for q
      using nn tstep_iface [OF s2 d(5)] by simp_all
    show ?thesis
    proof (cases "r3 = - 1")
      case True
      have "tcp_data rcall iface pkt \<lparr>tx_sim = sim, tx_table = a\<rparr> (a, i) seq n w = tcp_fail iface pkt (pkt_put pkt p3 w2)"
        using \<open>seq = tb_rcv_nxt y\<close> True sent 1(1) 2(1) sp cur_at [OF assms(3)] by (simp add: tcp_data_def)
      then show ?thesis using exits_safe(1) [OF tstep_inv [OF puts [OF pw3(1)]] live(1) pt live(2)] \<open>seq = tb_rcv_nxt y\<close> tstep_inv
        unfolding ends_def by fastforce
    next
      case ok: False
      let ?w4 = "pkt_put pkt (p3\<lparr>pkt_layer := 5\<rparr>) w2"
      have pp: "pkt_put pkt u (pkt_put pkt v w2) = pkt_put pkt u w2" for u v by (simp add: pkt_put_def)
      note i4 = tstep_inv [OF puts [OF pw3(2)]]
      have b4: "tcb_at (a, i) ?w4 = Some ?y" using tinv_slot(1) [OF i4, of i] 2(3) by (simp add: cur_def)
      have go: "tcp_data rcall iface pkt \<lparr>tx_sim = sim, tx_table = a\<rparr> (a, i) seq n w =
          (if tb_recv_handler y \<noteq> Tcp_recv_NULL then do { w \<leftarrow> rcall (tb_recv_handler y) (a, i) pkt (tb_handler_ctx y) ?w4; Some (0, w) } else tcp_done pkt ?w4)"
        using True ok sent 1(1) 2(1) sp nn pp b4 cur_at [OF assms(3)] by (simp add: tcp_data_def)
      obtain w5 where "rcall (tb_recv_handler y) (a, i) pkt (tb_handler_ctx y) ?w4 = Some w5" "tinv sim a w5 (with_slot t i ?y)"
        using conjunct2 [OF assms(2) [unfolded handlers_ok_def], rule_format, OF i4 live(1) [of "p3\<lparr>pkt_layer := 5\<rparr>"] pt] by blast
      then show ?thesis unfolding go using exits_safe(3) [OF i4 live(1) pt live(2)] True tstep_inv
        unfolding ends_def by (cases "tb_recv_handler y = Tcp_recv_NULL") fastforce+
    qed
  qed
qed

lemma established_arrives:
  assumes "arrival sim a w t i iface pkt" "handlers_ok sim a rcall ccall" "tb_state (tt_tcbs t ! i) = TCP_ESTABLISHED"
  shows "ends sim a (\<lambda>r t'. t' = table_next t i (seg_next (r = 0) seq ack fl n (tt_tcbs t ! i)))
    (tcp_established rcall iface pkt \<lparr>tx_sim = sim, tx_table = a\<rparr> (a, i) seq ack fl n w)"
proof -
  let ?x = "tt_tcbs t ! i" and ?y = "take_ack ack fl (tt_tcbs t ! i)"
  note d = arrivalD [OF assms(1)] and ex = arrival_exit [OF _ assms(1,1,1,1)]
  obtain w1 where 1: "tcp_take_ack (a, i) ack fl w = Some w1" "cur sim a (segs ?x) w w1 t i ?y"
    by (rule cur_take_ack [OF d(1)]) (use assms(3) in simp_all)
  have ys: "tb_state ?y = TCP_ESTABLISHED" using assms(3) by simp
  show ?thesis
  proof (cases "0 < n")
    case True
    have "table_next t i (seg_next b seq ack fl n ?x) = with_slot t i (if seq = tb_rcv_nxt ?y then ?y\<lparr>tb_rcv_nxt := tb_rcv_nxt ?y + of_nat n\<rparr> else ?y)" for b
      using True assms(3) d(6) by (simp add: seg_next_def table_next_def)
    then show ?thesis using data_arrives [OF assms(1,2) 1(2) ys, of seq n] True 1(1) by (simp add: tcp_established_def)
  next
    case n: False
    show ?thesis
    proof (cases "has_flag fl TCP_FLAG_FIN \<and> seq = tb_rcv_nxt ?y")
      case False
      then have "tcp_established rcall iface pkt \<lparr>tx_sim = sim, tx_table = a\<rparr> (a, i) seq ack fl n w =
          (if has_flag fl TCP_FLAG_FIN then tcp_drop iface pkt w1 else tcp_done pkt w1)"
        using n 1(1) cur_at [OF 1(2)] by (auto simp: tcp_established_def)
      moreover have "table_next t i (seg_next b seq ack fl n ?x) = with_slot t i ?y" for b
        using False n assms(3) d(6) by (auto simp: seg_next_def table_next_def Let_def)
      ultimately show ?thesis using ex(2,3) [OF 1(2)] by (cases "has_flag fl TCP_FLAG_FIN") simp_all
    next
      case True
      let ?z = "?y\<lparr>tb_rcv_nxt := seq + 1\<rparr>"
      obtain w2 where 2: "tcb_upd (a, i) (\<lambda>x. x\<lparr>tb_rcv_nxt := seq + 1\<rparr>) w1 = Some w2" "cur sim a (segs ?x) w w2 t i ?z"
        by (rule cur_upd [OF 1(2), of "\<lambda>x. x\<lparr>tb_rcv_nxt := seq + 1\<rparr>"]) (use ys in simp_all)
      obtain r w3 where 3: "tcp_send_ack sim (a, i) w2 = Some (r, w3)" "r \<in> {0, - 1}" "cur sim a (segs ?x) w w3 t i ?z" by (rule cur_send_ack [OF 2(2)])
      obtain w4 where 4: "tcb_upd (a, i) (\<lambda>x. x\<lparr>tb_state := TCP_CLOSE_WAIT\<rparr>) w3 = Some w4" "cur sim a (segs ?x) w w4 t i (?z\<lparr>tb_state := TCP_CLOSE_WAIT\<rparr>)"
        by (rule cur_upd [OF 3(3), of "\<lambda>x. x\<lparr>tb_state := TCP_CLOSE_WAIT\<rparr>"]) (use ys in simp_all)
      have "tcp_established rcall iface pkt \<lparr>tx_sim = sim, tx_table = a\<rparr> (a, i) seq ack fl n w = (if r = - 1 then tcp_fail iface pkt w3 else tcp_done pkt w4)"
        using n True 1(1) cur_at [OF 1(2)] 2(1) 3(1) 4(1) by (simp add: tcp_established_def)
      then show ?thesis using ex(1) [OF 3(3)] ex(3) [OF 4(2)] True n assms(3) d(6)
        by (cases "r = - 1") (simp_all add: seg_next_def table_next_def Let_def)
    qed
  qed
qed

lemma segment_arrives:
  assumes "arrival sim a w t i iface pkt" "handlers_ok sim a rcall ccall" "tb_state (tt_tcbs t ! i) \<noteq> TCP_LISTEN"
  shows "ends sim a (\<lambda>r t'. t' = table_next t i (seg_next (r = 0) seq ack fl n (tt_tcbs t ! i)))
    (tcp_segment_arrives rcall ccall iface pkt \<lparr>tx_sim = sim, tx_table = a\<rparr> (a, i) seq ack fl n w)"
proof -
  note d = arrivalD [OF assms(1)] and ex = arrival_exit [OF _ assms(1,1,1,1)]
  have ok: "tb_state (tt_tcbs t ! i) \<noteq> TCP_CLOSED" "tb_state (tt_tcbs t ! i) \<noteq> TCP_CLOSING"
    using cur_ok [OF d(1)] d(6) by (simp_all add: tcb_ok_def)
  show ?thesis using d(7) assms(3) ok d(6) ex(2,3) [OF d(1)] syn_sent_arrives [OF assms(1,2), of seq ack fl n] syn_received_arrives [OF assms(1,2), of seq ack fl n]
      established_arrives [OF assms(1,2), of seq ack fl n] fin_wait_1_arrives [OF assms(1), of seq ack fl n] fin_wait_2_arrives [OF assms(1), of seq ack fl n]
      last_ack_arrives [OF assms(1), of seq ack fl n]
    by (cases "tb_state (tt_tcbs t ! i)") (simp_all add: tcp_segment_arrives_def seg_next_def table_next_def)
qed

end
