(* ===== verification/Tcp_Ops.thy ===== *)
theory Tcp_Ops
  imports Tcp_Safety
begin

text \<open>
  The operations of TCP on a table that satisfies the invariant: opening, accepting, receiving, sending, closing and the
  timers. Each returns, keeps the invariant, and changes the table only as the state diagram of TCP allows.
\<close>

section \<open>Sending and tracking a segment\<close>

definition in_flight :: "addr \<Rightarrow> u32 \<Rightarrow> u32 \<Rightarrow> u8 \<Rightarrow> u64 \<Rightarrow> Tcb \<Rightarrow> Tcb" where
  "in_flight c s e fl now x = x\<lparr>tb_sendq := \<lparr>sq_entries = [\<lparr>sg_pkt = c, sg_seq_start = s, sg_seq_end = e, sg_flags = fl,
     sg_sent_ts = now, sg_retransmits = 0, sg_acked = 0\<rparr>], sq_count = 1\<rparr>\<rparr>"

lemma in_flight_fields [simp]:
  "tb_valid (in_flight c s e fl now x) = tb_valid x" "tb_state (in_flight c s e fl now x) = tb_state x"
  "conn_key (in_flight c s e fl now x) = conn_key x" "tb_snd_nxt (in_flight c s e fl now x) = tb_snd_nxt x"
  by (simp_all add: in_flight_def)

lemma tstep_refl: "tinv sim a w t \<Longrightarrow> tstep sim a X w w t"
  by (simp add: tstep_def)

lemma send_track:
  assumes "tinv sim a w t" "i < TCP_MAX_CONNS" "tb_valid (tt_tcbs t ! i) = 1" "segs (tt_tcbs t ! i) = {}"
    and "n = 0 \<or> (\<exists>b. payload = Some b \<and> n \<le> length b)"
  obtains w1 where "tcp_send_segment sim src dst sp dp seq ack fl payload n True w = Some (- 1, NULL, w1)" "tstep sim a {} w w1 t"
  | c w1 where "tcp_send_segment sim src dst sp dp seq ack fl payload n True w = Some (0, c, w1)" "tstep sim a {} w w1 t" "pkt_at c w = None"
      "\<And>s e f now. \<exists>w2. tcp_sendq_track (Some (a, i)) c s e f now w1 = Some (0, w2) \<and>
         tstep sim a {} w w2 (with_slot t i (in_flight c s e f now (tt_tcbs t ! i)))"
proof -
  obtain r c w1 where s: "tcp_send_segment sim src dst sp dp seq ack fl payload n True w = Some (r, c, w1)" "r \<in> {0, - 1}"
    "ip_step sim {} w w1" "if r = 0 \<and> True then c \<noteq> NULL \<and> pkt_at c w = None \<and> pkt_at c w1 \<noteq> None else c = NULL"
    by (rule tcp_send_segment_safe [OF tinvD(1) [OF assms(1)] assms(5)])
  have st: "tstep sim a {} w w1 t" by (rule tstep_net [OF assms(1) s(3)]) simp
  show thesis
  proof (cases "r = 0")
    case True
    with s(4) have c: "c \<noteq> NULL" "pkt_at c w1 \<noteq> None" "c \<notin> tracked t" using assms(1) by (auto simp: tinv_def)
    have "\<exists>w2. tcp_sendq_track (Some (a, i)) c s e f now w1 = Some (0, w2) \<and>
        tstep sim a {} w w2 (with_slot t i (in_flight c s e f now (tt_tcbs t ! i)))" for s e f now
      by (rule tcp_track_safe [OF tstep_inv [OF st] assms(2-4) c, of s e f now "{}"])
         (use tstep_trans [OF st] in \<open>auto simp: in_flight_def\<close>)
    then show thesis using that(2) s(1) st s(4) True by simp
  next
    case False
    then show thesis using that(1) s st by simp
  qed
qed

lemma tcp_schedule_safe:
  assumes "tinv sim a w t" "i < TCP_MAX_CONNS"
  obtains w' v where "tcp_schedule_retransmit sim ctx (Some (a, i)) w = Some w'"
    "tstep sim a {} w w' (with_slot t i ((tt_tcbs t ! i)\<lparr>tb_retransmit_ts := v\<rparr>))"
proof -
  let ?x = "tt_tcbs t ! i"
  note d = tinvD [OF assms(1)]
  have same: "with_slot t i (?x\<lparr>tb_retransmit_ts := tb_retransmit_ts ?x\<rparr>) = t" by simp
  obtain m sch where m: "sim_at sim w = Some m" "sched_at (sim_sched m) w = Some sch" "sim_sched m \<noteq> NULL" "sim \<noteq> NULL"
    by (rule ready_parts [OF d(1)])
  obtain e w1 where 1: "(if ctx \<noteq> NULL
      then event_create_callback EVT_TCP_RETRANSMIT (sch_now sch + TCP_RETRANSMIT_US) VNull VNull NULL (VTcb a i) Cb_tcp_retransmit_handler (VTcpCtx ctx) w
      else event_create EVT_TCP_RETRANSMIT (sch_now sch + TCP_RETRANSMIT_US) VNull VNull NULL (VTcb a i) w) = (e, w1)" "ip_step sim {} w w1"
  proof (cases "ctx = NULL")
    case True
    show thesis by (rule ip_step_event [OF d(1)]) (rule that, auto simp: event_create_def True)
  next
    case False
    show thesis by (rule ip_step_event [OF d(1)]) (rule that, auto simp: False)
  qed
  have t1: "tstep sim a {} w w1 t" by (rule tstep_net [OF assms(1) 1(2)]) simp
  have go: "tcp_schedule_retransmit sim ctx (Some (a, i)) w = (case e of None \<Rightarrow> Some w1 | Some e \<Rightarrow> do {
      (res, w) \<leftarrow> scheduler_schedule (sim_sched m) (Some e) w1;
      if res = - 1 then Some w else tcb_upd (a, i) (\<lambda>x. x\<lparr>tb_retransmit_ts := sch_now sch + TCP_RETRANSMIT_US\<rparr>) w
    })"
    unfolding tcp_schedule_retransmit_def Let_def fst_conv snd_conv using m 1(1) by (cases "ctx = NULL") simp_all
  show thesis
  proof (cases e)
    case None
    then show thesis using that [of w1 "tb_retransmit_ts ?x"] same t1 go by simp
  next
    case (Some ev)
    have "sim_at sim w1 = Some m" using ip_step_sim [OF 1(2)] m(1) by simp
    then obtain r w2 where 2: "scheduler_schedule (sim_sched m) (Some ev) w1 = Some (r, w2)" "ip_step sim {} w1 w2"
      using ip_step_schedule [OF ip_step_ready [OF 1(2)]] by blast
    have t2: "tstep sim a {} w w2 t" by (rule tstep_trans [OF t1 tstep_net [OF tstep_inv [OF t1] 2(2)]]) simp
    let ?now = "sch_now sch + TCP_RETRANSMIT_US"
    have v: "tb_valid ?x \<noteq> 0 \<longrightarrow> tb_state ?x \<noteq> TCP_CLOSED \<and> tb_state ?x \<noteq> TCP_CLOSING" using tinv_slot(2) [OF assms] by (auto simp: tcb_ok_def)
    obtain w3 where 3: "tcb_upd (a, i) (\<lambda>x. x\<lparr>tb_retransmit_ts := ?now\<rparr>) w2 = Some w3"
      "tstep sim a {} w2 w3 (with_slot t i (?x\<lparr>tb_retransmit_ts := ?now\<rparr>))"
      by (rule tstep_like [OF tstep_inv [OF t2] assms(2), of "\<lambda>x. x\<lparr>tb_retransmit_ts := ?now\<rparr>" "{}"]) (use v in \<open>simp_all add: tcb_like_def\<close>)
    show thesis
    proof (cases "r = - 1")
      case True
      then show thesis using that [of w2 "tb_retransmit_ts ?x"] same t2 go 2(1) Some by simp
    next
      case False
      then show thesis using that [of w3 ?now] tstep_trans [OF t2 3(2)] 3(1) go 2(1) Some by simp
    qed
  qed
qed

lemma tcp_arm_safe:
  assumes "tinv sim a w t" "i < TCP_MAX_CONNS"
  obtains w' v where "tcp_arm sim (Some (a, i)) w = Some w'"
    "tstep sim a {} w w' (with_slot t i ((tt_tcbs t ! i)\<lparr>tb_retransmit_ts := v\<rparr>))"
proof -
  obtain m where "sim_at sim w = Some m" "sim_sched m \<noteq> NULL" using ready_parts [OF tinvD(1) [OF assms(1)]] by metis
  then show thesis using that tcp_schedule_safe [OF assms] by (auto simp: tcp_arm_def)
qed

lemma tcp_now_safe:
  assumes "tinv sim a w t"
  obtains now where "tcp_now sim w = Some now"
  using ready_parts [OF tinvD(1) [OF assms]] by (force simp: tcp_now_def)

section \<open>Opening\<close>

text \<open>A table with a new connection in a free slot, and one in which a slot was given back.\<close>

definition opened :: "TcpTable \<Rightarrow> nat \<Rightarrow> Tcb \<Rightarrow> TcpTable" where
  "opened t i y = t\<lparr>tt_tcbs := (tt_tcbs t)[i := y], tt_count := tt_count t + 1\<rparr>"

lemma opened_simps [simp]:
  "with_slot (opened t i y) i z = opened t i z"
  "length (tt_tcbs t) = TCP_MAX_CONNS \<Longrightarrow> i < TCP_MAX_CONNS \<Longrightarrow> tt_tcbs (opened t i y) ! i = y"
  "length (tt_tcbs (opened t i y)) = length (tt_tcbs t)"
  by (simp_all add: opened_def)

lemma find_exact_key: "tcp_find_exact (Some t) lip lport rip rport = conns.find_key (lip, lport, rip, rport) (tt_tcbs t)"
  unfolding tcp_find_exact_def conns.find_key_def option.case
  by (rule arg_cong [where f = "\<lambda>P. first_idx P (tt_tcbs t)"]) (auto simp: exact_match_def conn_key_def fun_eq_iff)

definition listen_tcb :: "u32 \<Rightarrow> u16 \<Rightarrow> TcpRecvHandler \<Rightarrow> TcpConnectHandler \<Rightarrow> vptr \<Rightarrow> Tcb" where
  "listen_tcb local_ip local_port recv_fn connect_fn ctx = zero_tcb\<lparr>tb_valid := 1, tb_local_ip := local_ip, tb_local_port := local_port,
     tb_state := TCP_LISTEN, tb_rcv_wnd := TCP_DEFAULT_WINDOW, tb_recv_handler := recv_fn, tb_connect_handler := connect_fn,
     tb_handler_ctx := ctx\<rparr>"

definition open_tcb :: "TcpState \<Rightarrow> u32 \<Rightarrow> u16 \<Rightarrow> u32 \<Rightarrow> u16 \<Rightarrow> u32 \<Rightarrow> TcpRecvHandler \<Rightarrow> TcpConnectHandler \<Rightarrow> vptr \<Rightarrow> Tcb" where
  "open_tcb st lip lport rip rport rcv recv_fn connect_fn ctx = zero_tcb\<lparr>tb_valid := 1, tb_local_ip := lip, tb_local_port := lport,
     tb_remote_ip := rip, tb_remote_port := rport, tb_state := st, tb_snd_nxt := 1, tb_rcv_nxt := rcv,
     tb_snd_wnd := TCP_DEFAULT_WINDOW, tb_rcv_wnd := TCP_DEFAULT_WINDOW, tb_recv_handler := recv_fn,
     tb_connect_handler := connect_fn, tb_handler_ctx := ctx\<rparr>"

lemma open_tcb_simps [simp]:
  "tb_valid (open_tcb st lip lport rip rport rcv rf cf ctx) = 1" "tb_state (open_tcb st lip lport rip rport rcv rf cf ctx) = st"
  "conn_key (open_tcb st lip lport rip rport rcv rf cf ctx) = (lip, lport, rip, rport)"
  "segs (open_tcb st lip lport rip rport rcv rf cf ctx) = {}"
  "tb_rcv_nxt (open_tcb st lip lport rip rport rcv rf cf ctx) = rcv"
  "tb_local_ip (open_tcb st lip lport rip rport rcv rf cf ctx) = lip" "tb_local_port (open_tcb st lip lport rip rport rcv rf cf ctx) = lport"
  "tb_remote_ip (open_tcb st lip lport rip rport rcv rf cf ctx) = rip" "tb_remote_port (open_tcb st lip lport rip rport rcv rf cf ctx) = rport"
  by (simp_all add: open_tcb_def conn_key_def segs_def zero_tcb_def zero_segment_def TCP_MAX_INFLIGHT_def)

lemma tcp_listen_safe:
  assumes "tinv sim a w t" "lport \<noteq> 0"
  obtains "tcp_listen a lip lport rf cf ctx w = Some (None, w)" "tcp_find_listener (Some t) lip lport \<noteq> None \<or> tt_count t = int TCP_MAX_CONNS"
  | i w' where "tcp_listen a lip lport rf cf ctx w = Some (Some (a, i), w')" "i < TCP_MAX_CONNS" "tb_valid (tt_tcbs t ! i) = 0"
      "tcp_find_listener (Some t) lip lport = None" "tstep sim a {} w w' (opened t i (listen_tcb lip lport rf cf ctx))"
proof (cases "tcp_find_listener (Some t) lip lport")
  case (Some l)
  then show thesis using that(1) tinvD(3,5) [OF assms(1)] assms(2) by (simp add: tcp_listen_def)
next
  case None
  note d = tinvD [OF assms(1)]
  let ?f = "\<lambda>x. x\<lparr>tb_local_ip := lip, tb_local_port := lport, tb_remote_ip := 0, tb_remote_port := 0,
     tb_state := TCP_LISTEN, tb_rcv_wnd := TCP_DEFAULT_WINDOW, tb_recv_handler := rf, tb_connect_handler := cf, tb_handler_ctx := ctx\<rparr>"
  have f: "?f (zero_tcb\<lparr>tb_valid := 1\<rparr>) = listen_tcb lip lport rf cf ctx" by (simp add: listen_tcb_def zero_tcb_def)
  show thesis
  proof (rule tcp_alloc_fill [where f = ?f and X = "{}", OF assms(1)], unfold f)
    show "fresh_tcb (listen_tcb lip lport rf cf ctx)" by (simp add: fresh_tcb_def listen_tcb_def)
    show "tb_state (listen_tcb lip lport rf cf ctx) = TCP_LISTEN \<or> conns.find_key (conn_key (listen_tcb lip lport rf cf ctx)) (tt_tcbs t) = None"
      by (simp add: listen_tcb_def)
    assume "tcp_alloc_tcb a w = Some (None, w)" "tt_count t = int TCP_MAX_CONNS"
    then show thesis using that(1) None d(3,5) assms(2) by (simp add: tcp_listen_def)
  next
    fix i w1 w' assume "tcp_alloc_tcb a w = Some (Some (a, i), w1)" "tcb_upd (a, i) ?f w1 = Some w'" "i < TCP_MAX_CONNS"
      "tb_valid (tt_tcbs t ! i) = 0" "tstep sim a {} w w' (t\<lparr>tt_tcbs := (tt_tcbs t)[i := listen_tcb lip lport rf cf ctx], tt_count := tt_count t + 1\<rparr>)"
    then show thesis using that(2) None d(3,5) assms(2) by (simp add: tcp_listen_def opened_def)
  qed
qed

text \<open>Giving back a slot that was just opened.\<close>

lemma release_opened:
  assumes "tinv sim a w (opened t i y)" "length (tt_tcbs t) = TCP_MAX_CONNS" "i < TCP_MAX_CONNS" "tb_valid y = 1" "segs y = {}"
  obtains w' where "tcp_release_tcb a (Some (a, i)) w = Some w'" "tstep sim a {} w w' (with_slot t i zero_tcb)"
proof -
  have y: "tt_tcbs (opened t i y) ! i = y" using assms(2,3) by simp
  have e: "(opened t i y)\<lparr>tt_tcbs := (tt_tcbs (opened t i y))[i := zero_tcb], tt_count := tt_count (opened t i y) - 1\<rparr> = with_slot t i zero_tcb"
    by (cases t) (simp add: opened_def)
  show thesis by (rule tcp_release_safe [OF assms(1,3)]) (use y e assms(4,5) that in auto)
qed

lemma tinv_opened:
  "tinv sim a w (opened t i y) \<Longrightarrow> length (tt_tcbs t) = TCP_MAX_CONNS"
  using tinvD(6) [of sim a w "opened t i y"] by simp

text \<open>The first segment of a connection that was just opened.\<close>

lemma open_send:
  assumes "tinv sim a w (opened t i y)" "i < TCP_MAX_CONNS" "tb_valid y = 1" "segs y = {}"
  obtains w1 w2 where "tcp_send_segment sim src dst sp dp seq ack fl None 0 True w = Some (- 1, NULL, w1)"
      "tcp_release_tcb a (Some (a, i)) w1 = Some w2" "tstep sim a {} w w2 (with_slot t i zero_tcb)"
  | c w1 where "tcp_send_segment sim src dst sp dp seq ack fl None 0 True w = Some (0, c, w1)" "tstep sim a {} w w1 (opened t i y)" "pkt_at c w = None"
      "\<And>s e f now. \<exists>w2. tcp_sendq_track (Some (a, i)) c s e f now w1 = Some (0, w2) \<and>
         tstep sim a {} w w2 (opened t i (in_flight c s e f now y))"
proof -
  note l = tinv_opened [OF assms(1)]
  have sl: "tt_tcbs (opened t i y) ! i = y" using l assms(2) by simp
  show thesis
  proof (rule send_track [OF assms(1,2), of 0 None src dst sp dp seq ack fl], unfold sl opened_simps(1))
    fix w3 assume 3: "tcp_send_segment sim src dst sp dp seq ack fl None 0 True w = Some (- 1, NULL, w3)" "tstep sim a {} w w3 (opened t i y)"
    obtain w4 where "tcp_release_tcb a (Some (a, i)) w3 = Some w4" "tstep sim a {} w3 w4 (with_slot t i zero_tcb)"
      by (rule release_opened [OF tstep_inv [OF 3(2)] l assms(2-4)])
    then show thesis using that(1) [of w3 w4] 3 tstep_trans [OF 3(2)] by simp
  qed (use that(2) assms(3,4) in simp_all)
qed

lemma tcp_connect_safe:
  assumes "tinv sim a w t" "lip \<noteq> 0" "lport \<noteq> 0" "rip \<noteq> 0" "rport \<noteq> 0"
  obtains "tcp_connect sim a lip rip lport rport rf cf ctx w = Some (None, w)"
      "tcp_find_exact (Some t) lip lport rip rport \<noteq> None \<or> tt_count t = int TCP_MAX_CONNS"
  | i w' where "tcp_connect sim a lip rip lport rport rf cf ctx w = Some (None, w')" "i < TCP_MAX_CONNS" "tb_valid (tt_tcbs t ! i) = 0"
      "tstep sim a {} w w' (with_slot t i zero_tcb)"
  | i w' c now v where "tcp_connect sim a lip rip lport rport rf cf ctx w = Some (Some (a, i), w')" "i < TCP_MAX_CONNS"
      "tb_valid (tt_tcbs t ! i) = 0" "tcp_find_exact (Some t) lip lport rip rport = None"
      "tstep sim a {} w w' (opened t i ((in_flight c 0 1 TCP_FLAG_SYN now (open_tcb TCP_SYN_SENT lip lport rip rport 0 rf cf ctx))\<lparr>tb_retransmit_ts := v\<rparr>))"
proof (cases "tcp_find_exact (Some t) lip lport rip rport")
  case (Some l)
  then show thesis using that(1) tinvD(3,5) [OF assms(1)] assms(2-5) ready_parts [OF tinvD(1) [OF assms(1)]] by (auto simp: tcp_connect_def)
next
  case None
  note d = tinvD [OF assms(1)]
  have sim: "sim \<noteq> NULL" using ready_parts [OF d(1)] by metis
  let ?f = "\<lambda>x. x\<lparr>tb_local_ip := lip, tb_local_port := lport, tb_remote_ip := rip, tb_remote_port := rport, tb_state := TCP_SYN_SENT,
     tb_snd_una := 0, tb_snd_nxt := 1, tb_rcv_nxt := 0, tb_snd_wnd := TCP_DEFAULT_WINDOW, tb_rcv_wnd := TCP_DEFAULT_WINDOW,
     tb_recv_handler := rf, tb_connect_handler := cf, tb_handler_ctx := ctx\<rparr>"
  let ?y = "open_tcb TCP_SYN_SENT lip lport rip rport 0 rf cf ctx"
  have f: "?f (zero_tcb\<lparr>tb_valid := 1\<rparr>) = ?y" by (simp add: open_tcb_def zero_tcb_def)
  have g: "\<not> (sim = NULL \<or> a = NULL \<or> lip = 0 \<or> rip = 0 \<or> lport = 0 \<or> rport = 0)" using sim d(5) assms(2-5) by simp
  show thesis
  proof (rule tcp_alloc_fill [where f = ?f and X = "{}", OF assms(1)], unfold f)
    show "fresh_tcb ?y" by (simp add: fresh_tcb_def open_tcb_def)
    show "tb_state ?y = TCP_LISTEN \<or> conns.find_key (conn_key ?y) (tt_tcbs t) = None"
      using None by (simp add: find_exact_key)
    assume "tcp_alloc_tcb a w = Some (None, w)" "tt_count t = int TCP_MAX_CONNS"
    then show thesis using that(1) None d(3) unfolding tcp_connect_def if_not_P [OF g] by simp
  next
    fix i w1 w2 assume al: "tcp_alloc_tcb a w = Some (Some (a, i), w1)" "tcb_upd (a, i) ?f w1 = Some w2" and i: "i < TCP_MAX_CONNS"
      "tb_valid (tt_tcbs t ! i) = 0" and "tstep sim a {} w w2 (t\<lparr>tt_tcbs := (tt_tcbs t)[i := ?y], tt_count := tt_count t + 1\<rparr>)"
    then have s2: "tstep sim a {} w w2 (opened t i ?y)" by (simp add: opened_def)
    have sl: "tt_tcbs (opened t i ?y) ! i = ?y" using d(6) i(1) by simp
    have go: "tcp_connect sim a lip rip lport rport rf cf ctx w = do {
        (res, syn_clone, w) \<leftarrow> tcp_send_segment sim lip rip lport rport 0 0 TCP_FLAG_SYN None 0 True w2;
        if res = - 1 then do { w \<leftarrow> tcp_release_tcb a (Some (a, i)) w; Some (None, w) }
        else do {
          now \<leftarrow> tcp_now sim w;
          (res, w) \<leftarrow> tcp_sendq_track (Some (a, i)) syn_clone 0 1 TCP_FLAG_SYN now w;
          if res = - 1 then do { w \<leftarrow> packet_free syn_clone w; w \<leftarrow> tcp_release_tcb a (Some (a, i)) w; Some (None, w) }
          else do { w \<leftarrow> tcp_arm sim (Some (a, i)) w; Some (Some (a, i), w) }
        }
      }" unfolding tcp_connect_def if_not_P [OF g] using None d(3) al by simp
    show thesis
    proof (rule open_send [OF tstep_inv [OF s2] i(1), of lip rip lport rport 0 0 TCP_FLAG_SYN])
      fix w3 w4 assume "tcp_send_segment sim lip rip lport rport 0 0 TCP_FLAG_SYN None 0 True w2 = Some (- 1, NULL, w3)"
        "tcp_release_tcb a (Some (a, i)) w3 = Some w4" "tstep sim a {} w2 w4 (with_slot t i zero_tcb)"
      then show thesis using that(2) [of w4 i] go i tstep_trans [OF s2] by simp
    next
      fix c w3 assume 3: "tcp_send_segment sim lip rip lport rport 0 0 TCP_FLAG_SYN None 0 True w2 = Some (0, c, w3)" "tstep sim a {} w2 w3 (opened t i ?y)" "pkt_at c w2 = None"
        and tr: "\<And>s e f now. \<exists>w4. tcp_sendq_track (Some (a, i)) c s e f now w3 = Some (0, w4) \<and> tstep sim a {} w2 w4 (opened t i (in_flight c s e f now ?y))"
      obtain now where now: "tcp_now sim w3 = Some now" by (rule tcp_now_safe [OF tstep_inv [OF 3(2)]])
      obtain w4 where 4: "tcp_sendq_track (Some (a, i)) c 0 1 TCP_FLAG_SYN now w3 = Some (0, w4)"
        "tstep sim a {} w2 w4 (opened t i (in_flight c 0 1 TCP_FLAG_SYN now ?y))" using tr [of 0 1 TCP_FLAG_SYN now] by auto
      obtain w5 v where 5: "tcp_arm sim (Some (a, i)) w4 = Some w5"
        "tstep sim a {} w4 w5 (opened t i ((in_flight c 0 1 TCP_FLAG_SYN now ?y)\<lparr>tb_retransmit_ts := v\<rparr>))"
        using tcp_arm_safe [OF tstep_inv [OF 4(2)] i(1)] d(6) i(1) by auto
      then show thesis using that(3) [of i w5 v c now] go 3(1) now 4(1) i None tstep_trans [OF tstep_trans [OF s2 4(2)] 5(2)] by simp
    qed simp_all
  qed
qed

text \<open>The connection that a listener opens.\<close>

definition child_tcb :: "u32 \<Rightarrow> u16 \<Rightarrow> u32 \<Rightarrow> u16 \<Rightarrow> u32 \<Rightarrow> Tcb \<Rightarrow> Tcb" where
  "child_tcb dst_ip dst_port src_ip src_port seq l = open_tcb TCP_SYN_RECEIVED dst_ip dst_port src_ip src_port (seq + 1)
     (tb_recv_handler l) (tb_connect_handler l) (tb_handler_ctx l)"

definition accepted :: "u32 \<Rightarrow> u16 \<Rightarrow> u32 \<Rightarrow> u16 \<Rightarrow> u32 \<Rightarrow> TcpTable \<Rightarrow> nat \<Rightarrow> int \<Rightarrow> TcpTable \<Rightarrow> bool" where
  "accepted dst_ip dst_port src_ip src_port seq t l r t' \<longleftrightarrow>
     (if r = 0 then \<exists>i < TCP_MAX_CONNS. \<exists>c now. tb_valid (tt_tcbs t ! i) = 0 \<and>
        t' = opened t i (in_flight c 0 1 (TCP_FLAG_SYN OR TCP_FLAG_ACK) now (child_tcb dst_ip dst_port src_ip src_port seq (tt_tcbs t ! l)))
      else t' = t \<or> (\<exists>i < TCP_MAX_CONNS. tb_valid (tt_tcbs t ! i) = 0 \<and> t' = with_slot t i zero_tcb))"

lemma tracked_opened:
  assumes "length (tt_tcbs t) = TCP_MAX_CONNS" "i < TCP_MAX_CONNS"
  shows "tracked (opened t i y) \<subseteq> tracked t \<union> segs y"
  using assms tracked_update [of i t "tt_count t + 1" y] by (simp add: opened_def)

lemma tracked_zero:
  assumes "length (tt_tcbs t) = TCP_MAX_CONNS" "i < TCP_MAX_CONNS"
  shows "tracked (with_slot t i zero_tcb) \<subseteq> tracked t"
  using assms tracked_update [of i t "tt_count t" zero_tcb] unfolding with_slot_count by simp

lemma segs_in_flight: "segs (in_flight c s e f now y) = {c} - {NULL}"
  by (simp add: in_flight_def segs_def)

lemma tcp_accept_safe:
  assumes "tinv sim a w t" "pkt_at pkt w \<noteq> None" "pkt \<notin> tracked t" "iface_at iface w \<noteq> None"
    and "l < TCP_MAX_CONNS" "tb_valid (tt_tcbs t ! l) \<noteq> 0" "tcp_find_exact (Some t) dip dport sip sport = None"
  shows "ends sim a (accepted dip dport sip sport seq t l) (tcp_accept iface pkt \<lparr>tx_sim = sim, tx_table = a\<rparr> (a, l) dip dport sip sport seq w)"
    (is "ends sim a ?Q ?res")
proof -
  note d = tinvD [OF assms(1)]
  let ?l = "tt_tcbs t ! l" and ?y = "child_tcb dip dport sip sport seq (tt_tcbs t ! l)"
  let ?f = "\<lambda>x. x\<lparr>tb_local_ip := dip, tb_local_port := dport, tb_remote_ip := sip, tb_remote_port := sport, tb_state := TCP_SYN_RECEIVED,
     tb_snd_una := 0, tb_snd_nxt := 1, tb_rcv_nxt := seq + 1, tb_snd_wnd := TCP_DEFAULT_WINDOW, tb_rcv_wnd := TCP_DEFAULT_WINDOW,
     tb_recv_handler := tb_recv_handler ?l, tb_connect_handler := tb_connect_handler ?l, tb_handler_ctx := tb_handler_ctx ?l\<rparr>"
  have f: "?f (zero_tcb\<lparr>tb_valid := 1\<rparr>) = ?y" by (simp add: child_tcb_def open_tcb_def zero_tcb_def)
  have y: "tb_valid ?y = 1" "segs ?y = {}" by (simp_all add: child_tcb_def)
  show ?thesis
  proof (rule tcp_alloc_fill [where f = ?f and X = "{}", OF assms(1)], unfold f)
    show "fresh_tcb ?y" by (simp add: fresh_tcb_def child_tcb_def open_tcb_def)
    show "tb_state ?y = TCP_LISTEN \<or> conns.find_key (conn_key ?y) (tt_tcbs t) = None"
      using assms(7) by (simp add: find_exact_key child_tcb_def)
    assume "tcp_alloc_tcb a w = Some (None, w)"
    then have "?res = tcp_drop iface pkt w" by (simp add: tcp_accept_def)
    then show ?thesis using step_exit(2) [OF tstep_refl [OF assms(1)] _ assms(2,3,4), of "{}" ?Q] by (simp add: accepted_def)
  next
    fix i w1 w2 assume al: "tcp_alloc_tcb a w = Some (Some (a, i), w1)" "tcb_upd (a, i) ?f w1 = Some w2" and i: "i < TCP_MAX_CONNS"
      "tb_valid (tt_tcbs t ! i) = 0" and "tstep sim a {} w w2 (t\<lparr>tt_tcbs := (tt_tcbs t)[i := ?y], tt_count := tt_count t + 1\<rparr>)"
      and old: "\<And>j. j < TCP_MAX_CONNS \<Longrightarrow> tb_valid (tt_tcbs t ! j) \<noteq> 0 \<Longrightarrow> tcb_at (a, j) w1 = Some (tt_tcbs t ! j)"
    then have s2: "tstep sim a {} w w2 (opened t i ?y)" by (simp add: opened_def)
    have at2: "tcb_at (a, i) w2 = Some ?y" using tinv_slot(1) [OF tstep_inv [OF s2] i(1)] d(6) i(1) by simp
    obtain now where now: "tcp_now sim w2 = Some now" by (rule tcp_now_safe [OF tstep_inv [OF s2]])
    let ?fl = "TCP_FLAG_SYN OR TCP_FLAG_ACK"
    have go: "?res = do {
        (res, clone, w) \<leftarrow> tcp_send_segment sim dip sip dport sport 0 (seq + 1) ?fl None 0 True w2;
        if res = - 1 then do { w \<leftarrow> tcp_release_tcb a (Some (a, i)) w; tcp_fail iface pkt w }
        else do {
          (res, w) \<leftarrow> tcp_sendq_track (Some (a, i)) clone 0 1 ?fl now w;
          if res = - 1 then do { w \<leftarrow> packet_free clone w; w \<leftarrow> tcp_release_tcb a (Some (a, i)) w; tcp_fail iface pkt w }
          else tcp_done pkt w
        }
      }" unfolding tcp_accept_def TcpContext.select_convs using al old [OF assms(5,6)] at2 now by (simp add: child_tcb_def)
    show ?thesis
    proof (rule open_send [OF tstep_inv [OF s2] i(1) y, of dip sip dport sport 0 "seq + 1" ?fl])
      fix w3 w4 assume 4: "tcp_send_segment sim dip sip dport sport 0 (seq + 1) ?fl None 0 True w2 = Some (- 1, NULL, w3)"
        "tcp_release_tcb a (Some (a, i)) w3 = Some w4" "tstep sim a {} w2 w4 (with_slot t i zero_tcb)"
      then have "?res = tcp_fail iface pkt w4" using go by simp
      moreover have "pkt \<notin> tracked (with_slot t i zero_tcb)" using assms(3) tracked_zero [OF d(6) i(1)] by auto
      moreover have "?Q (- 1) (with_slot t i zero_tcb)" using i by (auto simp: accepted_def)
      ultimately show ?thesis using step_exit(1) [OF tstep_trans [OF s2 4(3)] _ assms(2) _ assms(4)] by simp
    next
      fix c w3 assume 3: "tcp_send_segment sim dip sip dport sport 0 (seq + 1) ?fl None 0 True w2 = Some (0, c, w3)" "tstep sim a {} w2 w3 (opened t i ?y)" "pkt_at c w2 = None"
        and tr: "\<And>s e f now. \<exists>w4. tcp_sendq_track (Some (a, i)) c s e f now w3 = Some (0, w4) \<and> tstep sim a {} w2 w4 (opened t i (in_flight c s e f now ?y))"
      let ?t = "opened t i (in_flight c 0 1 ?fl now ?y)"
      obtain w4 where 4: "tcp_sendq_track (Some (a, i)) c 0 1 ?fl now w3 = Some (0, w4)" "tstep sim a {} w2 w4 ?t" using tr [of 0 1 ?fl now] by auto
      have "?res = tcp_done pkt w4" using go 3(1) 4(1) by simp
      moreover have "?Q 0 ?t" using i by (auto simp: accepted_def)
      moreover have "pkt \<notin> tracked ?t"
        using tracked_opened [OF d(6) i(1), of "in_flight c 0 1 ?fl now ?y"] assms(3) tstep_pkt [OF s2 _ assms(2)] 3(3) by (auto simp: segs_in_flight)
      ultimately show ?thesis using step_exit(3) [OF tstep_trans [OF s2 4(2)] _ assms(2) _ assms(4)] by simp
    qed
  qed
qed

section \<open>Receiving\<close>

text \<open>A segment as its receiver sees it; \<open>parse_segment\<close> reads one from the bytes of a packet and those in front of it.\<close>

record segment =
  s_src_ip :: u32
  s_dst_ip :: u32
  s_src_port :: u16
  s_dst_port :: u16
  s_seq :: u32
  s_ack :: u32
  s_flags :: u8
  s_len :: nat

definition parse_segment :: "bytes \<Rightarrow> bytes \<Rightarrow> segment option" where
  "parse_segment ip b =
     (if length ip < IP_HDR_LEN \<or> length b < TCP_HDR_LEN \<or> ih_protocol (ip_load ip) \<noteq> IPPROTO_TCP \<or>
         drop_bit 12 (ns_ntohs (get16 b 12)) \<noteq> TCP_HDR_WORDS then None
      else Some \<lparr>s_src_ip = ns_ntohl (ih_src_ip (ip_load ip)), s_dst_ip = ns_ntohl (ih_dst_ip (ip_load ip)),
        s_src_port = ns_ntohs (get16 b 0), s_dst_port = ns_ntohs (get16 b 2), s_seq = ns_ntohl (get32 b 4),
        s_ack = ns_ntohl (get32 b 8), s_flags = ucast (ns_ntohs (get16 b 12) AND 0x3F), s_len = length b - TCP_HDR_LEN\<rparr>)"

definition ip_part :: "Packet \<Rightarrow> bytes" where
  "ip_part p = (if pkt_data p < IP_HDR_LEN then [] else take IP_HDR_LEN (drop (pkt_data p - IP_HDR_LEN) (pkt_head p)))"

text \<open>The specification of reception: the table \<open>t'\<close> and the result \<open>r\<close> that a segment may lead to.\<close>

definition receive_spec :: "TcpTable \<Rightarrow> segment option \<Rightarrow> int \<Rightarrow> TcpTable \<Rightarrow> bool" where
  "receive_spec t sg r t' = (case sg of None \<Rightarrow> r = - 1 \<and> t' = t
   | Some s \<Rightarrow> (case tcp_find_exact (Some t) (s_dst_ip s) (s_dst_port s) (s_src_ip s) (s_src_port s) of
       Some i \<Rightarrow> t' = table_next t i (seg_next (r = 0) (s_seq s) (s_ack s) (s_flags s) (s_len s) (tt_tcbs t ! i))
     | None \<Rightarrow> (case (if s_flags s = TCP_FLAG_SYN then tcp_find_listener (Some t) (s_dst_ip s) (s_dst_port s) else None) of
         None \<Rightarrow> r = - 1 \<and> t' = t
       | Some l \<Rightarrow> accepted (s_dst_ip s) (s_dst_port s) (s_src_ip s) (s_src_port s) (s_seq s) t l r t')))"

text \<open>Some facts on the two searches.\<close>

lemma find_exact_Some:
  assumes "table_wf t" "tcp_find_exact (Some t) lip lport rip rport = Some i"
  shows "i < TCP_MAX_CONNS" "tb_valid (tt_tcbs t ! i) = 1" "tb_state (tt_tcbs t ! i) \<noteq> TCP_LISTEN"
    "conn_key (tt_tcbs t ! i) = (lip, lport, rip, rport)"
proof -
  note f = conns.find_key_Some [OF assms(2) [unfolded find_exact_key]]
  show i: "i < TCP_MAX_CONNS" using f assms(1) by (simp add: table_wf_def)
  show "tb_state (tt_tcbs t ! i) \<noteq> TCP_LISTEN" "conn_key (tt_tcbs t ! i) = (lip, lport, rip, rport)" using f by simp_all
  have "tcb_ok (tt_tcbs t ! i)" using assms(1) i by (simp add: table_wf_def)
  then show "tb_valid (tt_tcbs t ! i) = 1" using f by (auto simp: tcb_ok_def)
qed

lemma find_listener_Some:
  assumes "table_wf t" "tcp_find_listener (Some t) lip lport = Some l"
  shows "l < TCP_MAX_CONNS" "tb_valid (tt_tcbs t ! l) \<noteq> 0"
  using assms by (auto simp: tcp_find_listener_def first_idx_Some listener_match_def table_wf_def)

lemma tcp_receive_safe:
  assumes "tinv sim a w t" "handlers_ok sim a rcall ccall" "tcp_ctx_at x w = Some \<lparr>tx_sim = sim, tx_table = a\<rparr>"
    and "pkt_at pkt w = Some p" "pkt \<notin> tracked t" "iface_at iface w \<noteq> None"
  shows "ends sim a (receive_spec t (parse_segment (ip_part p) (visible p))) (tcp_receive rcall ccall iface pkt (VTcpCtx x) w)"
proof -
  let ?Q = "receive_spec t (parse_segment (ip_part p) (visible p))" and ?c = "\<lparr>tx_sim = sim, tx_table = a\<rparr>"
  note d = tinvD [OF assms(1)]
  have wf: "pkt_wf p" using d(2) assms(4) by (auto simp: net_wf_def dest: heap_wfD)
  have nn: "pkt \<noteq> NULL" "iface \<noteq> NULL" "x \<noteq> NULL" "a \<noteq> NULL" using d(5) pkt_at_nonnull [OF assms(4)] assms(3,6)
    by (auto simp: tcp_ctx_at_def iface_at_def split: if_splits)
  have sim: "sim \<noteq> NULL" using ready_parts [OF d(1)] by metis
  have lv: "pkt_at pkt w \<noteq> None" using assms(4) by simp
  note ex = step_exit [OF tstep_refl [OF assms(1)] _ lv assms(5,6), of "{}" ?Q]
  have len: "length (visible p) = pkt_len p" by (rule length_visible [OF wf])
  note rx = nn sim assms(3,4) d(3) as_tcp_ctx_def
  show ?thesis
  proof (cases "20 \<le> pkt_data p \<and> 20 \<le> pkt_len p")
    case False
    then have "packet_validate_view (Some p) IP_HDR_LEN TCP_HDR_LEN \<noteq> 0" by (auto simp: validate_view_wf [OF wf] IP_HDR_LEN_def TCP_HDR_LEN_def)
    moreover have "parse_segment (ip_part p) (visible p) = None" using False len by (auto simp: parse_segment_def ip_part_def IP_HDR_LEN_def TCP_HDR_LEN_def)
    ultimately show ?thesis using ex(1) rx by (simp add: tcp_receive_def receive_spec_def)
  next
    case True
    have ip: "ip_before p = Some (ip_part p)" "length (ip_part p) = 20" using ip_before_ok [OF wf] True wf
      by (auto simp: ip_part_def IP_HDR_LEN_def pkt_wf_def)
    have vw: "packet_validate_view (Some p) IP_HDR_LEN TCP_HDR_LEN = 0" using True by (auto simp: validate_view_wf [OF wf] IP_HDR_LEN_def TCP_HDR_LEN_def)
    have rd: "pkt_read p 0 TCP_HDR_LEN = Some (take 20 (visible p))"
      using pkt_read_within [OF wf, of 0 TCP_HDR_LEN] True by (simp add: TCP_HDR_LEN_def)
    show ?thesis
    proof (cases "parse_segment (ip_part p) (visible p)")
      case None
      have "tcp_receive rcall ccall iface pkt (VTcpCtx x) w = tcp_fail iface pkt w"
        using None rx vw ip(1) rd ip(2) len True
        by (auto simp: tcp_receive_def parse_segment_def IP_HDR_LEN_def TCP_HDR_LEN_def get16_take Let_def split: if_splits)
      then show ?thesis using ex(1) None by (simp add: receive_spec_def)
    next
      case (Some s)
      have go: "tcp_receive rcall ccall iface pkt (VTcpCtx x) w =
          (case tcp_find_exact (Some t) (s_dst_ip s) (s_dst_port s) (s_src_ip s) (s_src_port s) of
             Some i \<Rightarrow> tcp_segment_arrives rcall ccall iface pkt ?c (a, i) (s_seq s) (s_ack s) (s_flags s) (s_len s) w
           | None \<Rightarrow> (case (if s_flags s = TCP_FLAG_SYN then tcp_find_listener (Some t) (s_dst_ip s) (s_dst_port s) else None) of
               Some l \<Rightarrow> tcp_accept iface pkt ?c (a, l) (s_dst_ip s) (s_dst_port s) (s_src_ip s) (s_src_port s) (s_seq s) w
             | None \<Rightarrow> tcp_drop iface pkt w))"
        using Some rx vw ip(1) rd ip(2) len True
        by (auto simp: tcp_receive_def parse_segment_def IP_HDR_LEN_def TCP_HDR_LEN_def get16_take get32_take Let_def split: if_splits option.splits)
      show ?thesis
      proof (cases "tcp_find_exact (Some t) (s_dst_ip s) (s_dst_port s) (s_src_ip s) (s_src_port s)")
        case e: (Some i)
        note f = find_exact_Some [OF d(4) e]
        have "arrival sim a w t i iface pkt" using assms(1,5,6) lv f by (simp add: arrival_def)
        from segment_arrives [OF this assms(2) f(3), of "s_seq s" "s_ack s" "s_flags s" "s_len s"]
        show ?thesis using go e Some by (simp add: receive_spec_def [abs_def])
      next
        case e: None
        show ?thesis
        proof (cases "if s_flags s = TCP_FLAG_SYN then tcp_find_listener (Some t) (s_dst_ip s) (s_dst_port s) else None")
          case None
          then show ?thesis using go e Some ex(2) by (simp add: receive_spec_def)
        next
          case l: (Some l)
          then have "tcp_find_listener (Some t) (s_dst_ip s) (s_dst_port s) = Some l" by (simp split: if_splits)
          note f = find_listener_Some [OF d(4) this]
          show ?thesis using tcp_accept_safe [OF assms(1) lv assms(5,6) f e, of "s_seq s"] go e l Some by (simp add: receive_spec_def [abs_def])
        qed
      qed
    qed
  qed
qed

section \<open>Sending and closing\<close>

lemma has_unacked_iff: "tcb_ok x \<Longrightarrow> tcp_sendq_has_unacked (Some x) = (if segs x = {} then 0 else 1)"
  by (fastforce simp: tcp_sendq_has_unacked_def tcb_ok_def segs_def list_ex_iff)

text \<open>The tail that sending and closing share: send, track, update the block and arm the timer.\<close>

definition send_tail :: "addr \<Rightarrow> addr \<times> nat \<Rightarrow> u32 \<Rightarrow> u32 \<Rightarrow> u16 \<Rightarrow> u16 \<Rightarrow> u32 \<Rightarrow> u32 \<Rightarrow> u8 \<Rightarrow> bytes option \<Rightarrow> nat \<Rightarrow> u32 \<Rightarrow> u32 \<Rightarrow>
    (Tcb \<Rightarrow> Tcb) \<Rightarrow> 'a tcp_world_scheme \<Rightarrow> (int \<times> 'a tcp_world_scheme) option" where
  "send_tail sim b src dst sp dp seq ack fl payload n s e g w = do {
     (res, clone, w) \<leftarrow> tcp_send_segment sim src dst sp dp seq ack fl payload n True w;
     if res = - 1 then do { w \<leftarrow> packet_free clone w; Some (- 1, w) }
     else do {
       now \<leftarrow> tcp_now sim w;
       (res, w) \<leftarrow> tcp_sendq_track (Some b) clone s e fl now w;
       if res = - 1 then do { w \<leftarrow> packet_free clone w; Some (- 1, w) }
       else do { w \<leftarrow> tcb_upd b g w; w \<leftarrow> tcp_arm sim (Some b) w; Some (0, w) }
     }
   }"

lemma send_update:
  assumes "tinv sim a w t" "i < TCP_MAX_CONNS" "tb_valid (tt_tcbs t ! i) = 1" "segs (tt_tcbs t ! i) = {}"
    and "n = 0 \<or> (\<exists>b. payload = Some b \<and> n \<le> length b)" "\<And>x. tb_sendq (g x) = tb_sendq x" "\<And>x. tb_valid (g x) = tb_valid x"
    and "\<And>x. conn_key (g x) = conn_key x" "tb_state (tt_tcbs t ! i) \<noteq> TCP_LISTEN"
    and "\<And>x. tb_state x = tb_state (tt_tcbs t ! i) \<Longrightarrow> tb_state (g x) \<notin> {TCP_LISTEN, TCP_CLOSED, TCP_CLOSING}"
  obtains w' where "send_tail sim (a, i) src dst sp dp seq ack fl payload n s e g w = Some (- 1, w')" "tstep sim a {} w w' t"
  | w' c now v where "send_tail sim (a, i) src dst sp dp seq ack fl payload n s e g w = Some (0, w')" "tstep sim a {} w w' (with_slot t i ((g (in_flight c s e fl now (tt_tcbs t ! i)))\<lparr>tb_retransmit_ts := v\<rparr>))"
proof -
  note d = tinvD [OF assms(1)]
  show thesis
  proof (rule send_track [OF assms(1-5), of src dst sp dp seq ack fl])
    fix w1 assume 1: "tcp_send_segment sim src dst sp dp seq ack fl payload n True w = Some (- 1, NULL, w1)" "tstep sim a {} w w1 t"
    then show thesis using that(1) [of w1] by (simp add: send_tail_def packet_free_def)
  next
    fix c w1 assume 1: "tcp_send_segment sim src dst sp dp seq ack fl payload n True w = Some (0, c, w1)" "tstep sim a {} w w1 t"
      and tr: "\<And>s e f now. \<exists>w2. tcp_sendq_track (Some (a, i)) c s e f now w1 = Some (0, w2) \<and>
         tstep sim a {} w w2 (with_slot t i (in_flight c s e f now (tt_tcbs t ! i)))"
    obtain now where now: "tcp_now sim w1 = Some now" by (rule tcp_now_safe [OF tstep_inv [OF 1(2)]])
    let ?x = "in_flight c s e fl now (tt_tcbs t ! i)"
    obtain w2 where 2: "tcp_sendq_track (Some (a, i)) c s e fl now w1 = Some (0, w2)" "tstep sim a {} w w2 (with_slot t i ?x)" using tr by blast
    have sl: "tt_tcbs (with_slot t i ?x) ! i = ?x" "tt_tcbs (with_slot t i (g ?x)) ! i = g ?x" using d(6) assms(2) by simp_all
    have "tcb_like ?x (g ?x)" using assms(6-10) by (simp add: tcb_like_def)
    then obtain w3 where 3: "tcb_upd (a, i) g w2 = Some w3" "tstep sim a {} w2 w3 (with_slot t i (g ?x))"
      using tstep_like [OF tstep_inv [OF 2(2)] assms(2), of g "{}"] unfolding sl by auto
    obtain w4 v where 4: "tcp_arm sim (Some (a, i)) w3 = Some w4" "tstep sim a {} w3 w4 (with_slot t i ((g ?x)\<lparr>tb_retransmit_ts := v\<rparr>))"
      using tcp_arm_safe [OF tstep_inv [OF 3(2)] assms(2)] unfolding sl by auto
    have st: "tstep sim a {} w w4 (with_slot t i ((g ?x)\<lparr>tb_retransmit_ts := v\<rparr>))" by (rule tstep_trans [OF tstep_trans [OF 2(2) 3(2)] 4(2)])
    show thesis by (rule that(2) [OF _ st]) (use 1(1) now 2(1) 3(1) 4(1) in \<open>simp add: send_tail_def\<close>)
  qed
qed

lemma tcp_send_safe:
  assumes "tinv sim a w t" "i < TCP_MAX_CONNS" "\<And>b. data = Some b \<Longrightarrow> len \<le> length b"
  obtains r w' where "tcp_send sim (Some (a, i)) data len w = Some (r, w')" "tstep sim a {} w w' t" "r = - 1 \<or> r = 0 \<and> len = 0"
  | w' c now v where "tcp_send sim (Some (a, i)) data len w = Some (0, w')" "tb_valid (tt_tcbs t ! i) = 1" "segs (tt_tcbs t ! i) = {}"
      "tb_state (tt_tcbs t ! i) = TCP_ESTABLISHED" "0 < len"
      "tstep sim a {} w w' (with_slot t i ((in_flight c (tb_snd_nxt (tt_tcbs t ! i)) (tb_snd_nxt (tt_tcbs t ! i) + of_nat (min len TCP_MSS))
         (TCP_FLAG_ACK OR TCP_FLAG_PSH) now (tt_tcbs t ! i))\<lparr>tb_snd_nxt := tb_snd_nxt (tt_tcbs t ! i) + of_nat (min len TCP_MSS), tb_retransmit_ts := v\<rparr>))"
proof -
  let ?x = "tt_tcbs t ! i" and ?n = "if TCP_MSS < len then TCP_MSS else len" and ?fl = "TCP_FLAG_ACK OR TCP_FLAG_PSH"
  note d = tinvD [OF assms(1)] and sl = tinv_slot [OF assms(1,2)]
  have sim: "sim \<noteq> NULL" using ready_parts [OF d(1)] by metis
  have n: "?n = min len TCP_MSS" by simp
  show thesis
  proof (cases "tb_valid ?x \<noteq> 1 \<or> tb_state ?x \<noteq> TCP_ESTABLISHED \<or> (0 < len \<and> data = None) \<or> len = 0 \<or> segs ?x \<noteq> {}")
    case True
    let ?bad = "tb_valid ?x \<noteq> 1 \<or> tb_state ?x \<noteq> TCP_ESTABLISHED \<or> (0 < len \<and> data = None)"
    have u: "tcp_sendq_has_unacked (Some ?x) \<noteq> 0 \<or> ?bad \<or> len = 0" using True has_unacked_iff [OF sl(2)] by auto
    have "tcp_send sim (Some (a, i)) data len w = Some (if ?bad \<or> len \<noteq> 0 then - 1 else 0, w)"
      using u sim sl(1) by (cases ?bad; cases "len = 0") (auto simp add: tcp_send_def)
    then show thesis using that(1) tstep_refl [OF assms(1)] by (cases "?bad \<or> len \<noteq> 0") simp_all
  next
    case False
    then have ok: "tb_valid ?x = 1" "segs ?x = {}" "tb_state ?x = TCP_ESTABLISHED" "0 < len" "\<exists>b. data = Some b" by auto
    have pl: "?n = 0 \<or> (\<exists>b. data = Some b \<and> ?n \<le> length b)" using ok(5) assms(3) by fastforce
    have go: "tcp_send sim (Some (a, i)) data len w = send_tail sim (a, i) (tb_local_ip ?x) (tb_remote_ip ?x) (tb_local_port ?x) (tb_remote_port ?x)
        (tb_snd_nxt ?x) (tb_rcv_nxt ?x) ?fl data ?n (tb_snd_nxt ?x) (tb_snd_nxt ?x + of_nat ?n) (\<lambda>x. x\<lparr>tb_snd_nxt := tb_snd_nxt x + of_nat ?n\<rparr>) w"
      using False sim sl(1) has_unacked_iff [OF sl(2)] unfolding tcp_send_def send_tail_def Let_def by auto
    show thesis unfolding n
    proof (rule send_update [where g = "\<lambda>x. x\<lparr>tb_snd_nxt := tb_snd_nxt x + of_nat ?n\<rparr>", OF assms(1,2) ok(1,2) pl])
      fix w' assume "send_tail sim (a, i) (tb_local_ip ?x) (tb_remote_ip ?x) (tb_local_port ?x) (tb_remote_port ?x)
        (tb_snd_nxt ?x) (tb_rcv_nxt ?x) ?fl data ?n (tb_snd_nxt ?x) (tb_snd_nxt ?x + of_nat ?n) (\<lambda>x. x\<lparr>tb_snd_nxt := tb_snd_nxt x + of_nat ?n\<rparr>) w = Some (- 1, w')"
        "tstep sim a {} w w' t"
      then show thesis using that(1) [of "- 1" w'] by (simp add: go)
    next
      fix w' c now v assume "send_tail sim (a, i) (tb_local_ip ?x) (tb_remote_ip ?x) (tb_local_port ?x) (tb_remote_port ?x)
        (tb_snd_nxt ?x) (tb_rcv_nxt ?x) ?fl data ?n (tb_snd_nxt ?x) (tb_snd_nxt ?x + of_nat ?n) (\<lambda>x. x\<lparr>tb_snd_nxt := tb_snd_nxt x + of_nat ?n\<rparr>) w = Some (0, w')"
        and st: "tstep sim a {} w w' (with_slot t i ((in_flight c (tb_snd_nxt ?x) (tb_snd_nxt ?x + of_nat ?n) ?fl now ?x)\<lparr>tb_snd_nxt :=
          tb_snd_nxt (in_flight c (tb_snd_nxt ?x) (tb_snd_nxt ?x + of_nat ?n) ?fl now ?x) + of_nat ?n, tb_retransmit_ts := v\<rparr>))"
      then show thesis using that(2) [OF _ ok(1-4) st [unfolded n in_flight_fields]] by (simp add: go)
    qed (use ok in simp_all)
  qed
qed

definition close_state :: "TcpState \<Rightarrow> TcpState" where
  "close_state s = (if s = TCP_ESTABLISHED then TCP_FIN_WAIT_1 else if s = TCP_CLOSE_WAIT then TCP_LAST_ACK else s)"

lemma tcp_close_safe:
  assumes "tinv sim a w t" "i < TCP_MAX_CONNS"
  obtains w' where "tcp_close sim (Some (a, i)) w = Some (- 1, w')" "tstep sim a {} w w' t"
  | w' c now v where "tcp_close sim (Some (a, i)) w = Some (0, w')" "tb_valid (tt_tcbs t ! i) = 1" "segs (tt_tcbs t ! i) = {}"
      "tb_state (tt_tcbs t ! i) \<in> {TCP_ESTABLISHED, TCP_CLOSE_WAIT}"
      "tstep sim a {} w w' (with_slot t i ((in_flight c (tb_snd_nxt (tt_tcbs t ! i)) (tb_snd_nxt (tt_tcbs t ! i) + 1)
         (TCP_FLAG_FIN OR TCP_FLAG_ACK) now (tt_tcbs t ! i))\<lparr>tb_snd_nxt := tb_snd_nxt (tt_tcbs t ! i) + 1,
           tb_state := close_state (tb_state (tt_tcbs t ! i)), tb_retransmit_ts := v\<rparr>))"
proof -
  let ?x = "tt_tcbs t ! i" and ?fl = "TCP_FLAG_FIN OR TCP_FLAG_ACK"
  note d = tinvD [OF assms(1)] and sl = tinv_slot [OF assms(1,2)]
  have sim: "sim \<noteq> NULL" using ready_parts [OF d(1)] by metis
  show thesis
  proof (cases "tb_valid ?x \<noteq> 1 \<or> (tb_state ?x \<noteq> TCP_ESTABLISHED \<and> tb_state ?x \<noteq> TCP_CLOSE_WAIT) \<or> segs ?x \<noteq> {}")
    case True
    then have "tcp_close sim (Some (a, i)) w = Some (- 1, w)" using sim sl(1) has_unacked_iff [OF sl(2)] by (auto simp: tcp_close_def)
    then show thesis using that(1) tstep_refl [OF assms(1)] by simp
  next
    case False
    then have ok: "tb_valid ?x = 1" "segs ?x = {}" "tb_state ?x \<in> {TCP_ESTABLISHED, TCP_CLOSE_WAIT}" by auto
    let ?g = "\<lambda>y. y\<lparr>tb_snd_nxt := tb_snd_nxt y + 1, tb_state := (if tb_state ?x = TCP_ESTABLISHED then TCP_FIN_WAIT_1
        else if tb_state ?x = TCP_CLOSE_WAIT then TCP_LAST_ACK else tb_state y)\<rparr>"
    have go: "tcp_close sim (Some (a, i)) w = send_tail sim (a, i) (tb_local_ip ?x) (tb_remote_ip ?x) (tb_local_port ?x) (tb_remote_port ?x)
        (tb_snd_nxt ?x) (tb_rcv_nxt ?x) ?fl None 0 (tb_snd_nxt ?x) (tb_snd_nxt ?x + 1) ?g w"
      using False sim sl(1) has_unacked_iff [OF sl(2)] unfolding tcp_close_def send_tail_def by auto
    have g: "?g (in_flight c s e fl now ?x) = (in_flight c s e fl now ?x)\<lparr>tb_snd_nxt := tb_snd_nxt ?x + 1, tb_state := close_state (tb_state ?x)\<rparr>" for c s e fl now
      using ok(3) by (auto simp: close_state_def in_flight_def)
    show thesis
    proof (rule send_update [where g = ?g, OF assms(1,2) ok(1,2)])
      fix w' assume "send_tail sim (a, i) (tb_local_ip ?x) (tb_remote_ip ?x) (tb_local_port ?x) (tb_remote_port ?x)
        (tb_snd_nxt ?x) (tb_rcv_nxt ?x) ?fl None 0 (tb_snd_nxt ?x) (tb_snd_nxt ?x + 1) ?g w = Some (- 1, w')" "tstep sim a {} w w' t"
      then show thesis by (intro that(1)) (simp_all add: go)
    next
      fix w' c now v assume "send_tail sim (a, i) (tb_local_ip ?x) (tb_remote_ip ?x) (tb_local_port ?x) (tb_remote_port ?x)
        (tb_snd_nxt ?x) (tb_rcv_nxt ?x) ?fl None 0 (tb_snd_nxt ?x) (tb_snd_nxt ?x + 1) ?g w = Some (0, w')"
        and st: "tstep sim a {} w w' (with_slot t i ((?g (in_flight c (tb_snd_nxt ?x) (tb_snd_nxt ?x + 1) ?fl now ?x))\<lparr>tb_retransmit_ts := v\<rparr>))"
      then show thesis using that(2) [OF _ ok(1-3) st [unfolded g]] by (simp add: go)
    qed (use ok in auto)
  qed
qed

section \<open>Timers\<close>

text \<open>A queue whose entries differ only in what retransmission counts.\<close>

definition retried :: "int \<Rightarrow> u64 \<Rightarrow> Tcb \<Rightarrow> Tcb" where
  "retried n now x = x\<lparr>tb_sendq := (tb_sendq x)\<lparr>sq_entries := [(hd (sq_entries (tb_sendq x)))\<lparr>sg_retransmits := n, sg_sent_ts := now\<rparr>]\<rparr>\<rparr>"

lemma retried_fields [simp]:
  "tb_valid (retried n now x) = tb_valid x" "tb_state (retried n now x) = tb_state x" "conn_key (retried n now x) = conn_key x"
  by (simp_all add: retried_def)

lemma retried_ok:
  assumes "tcb_ok x"
  shows "tcb_ok (retried n now x)" "segs (retried n now x) = segs x"
proof -
  obtain s where "sq_entries (tb_sendq x) = [s]" using tcb_ok_one [OF assms] by blast
  then show "segs (retried n now x) = segs x" "tcb_ok (retried n now x)" using assms by (auto simp: retried_def segs_def tcb_ok_def)
qed

lemma tstep_retried:
  assumes "tinv sim a w t" "i < TCP_MAX_CONNS"
  shows "tstep sim a X w (tcp_put a (with_slot t i (retried n now (tt_tcbs t ! i))) w) (with_slot t i (retried n now (tt_tcbs t ! i)))"
proof -
  let ?x = "tt_tcbs t ! i"
  note d = tinvD [OF assms(1)] and r = retried_ok [OF tinv_slot(2) [OF assms]]
  have u: "conns.unique ((tt_tcbs t)[i := retried n now ?x])" using d(4,6) assms(2) by (intro unique_like) (auto simp: table_wf_def)
  have "tinv sim a (tcp_put a (t\<lparr>tt_tcbs := (tt_tcbs t)[i := retried n now ?x], tt_count := tt_count t\<rparr>) w)
      (t\<lparr>tt_tcbs := (tt_tcbs t)[i := retried n now ?x], tt_count := tt_count t\<rparr>)"
    by (rule tinv_update [OF assms r(1) u, of "{}"]) (use r(2) in auto)
  then show ?thesis unfolding with_slot_count by (rule tstep_put)
qed

lemma tcp_time_wait_safe:
  assumes "tinv sim a w t" "i < TCP_MAX_CONNS" "evt_data e = VTcb a i"
  obtains "tcp_time_wait_handler e (VTcpTable a) w = Some w" "tb_valid (tt_tcbs t ! i) \<noteq> 1 \<or> tb_state (tt_tcbs t ! i) \<noteq> TCP_TIME_WAIT"
  | w' where "tcp_time_wait_handler e (VTcpTable a) w = Some w'" "tb_valid (tt_tcbs t ! i) = 1" "tb_state (tt_tcbs t ! i) = TCP_TIME_WAIT"
      "tstep sim a (segs (tt_tcbs t ! i)) w w' (t\<lparr>tt_tcbs := (tt_tcbs t)[i := zero_tcb], tt_count := tt_count t - 1\<rparr>)"
proof -
  note d = tinvD [OF assms(1)] and sl = tinv_slot [OF assms(1,2)]
  show thesis
  proof (cases "tb_valid (tt_tcbs t ! i) \<noteq> 1 \<or> tb_state (tt_tcbs t ! i) \<noteq> TCP_TIME_WAIT")
    case True
    then show thesis using that(1) sl(1) d(5) assms(3) by (auto simp: tcp_time_wait_handler_def as_tcp_table_def as_tcb_def)
  next
    case False
    then obtain w' where "tcp_release_tcb a (Some (a, i)) w = Some w'"
      "tstep sim a (segs (tt_tcbs t ! i)) w w' (t\<lparr>tt_tcbs := (tt_tcbs t)[i := zero_tcb], tt_count := tt_count t - 1\<rparr>)"
      using tcp_release_safe [OF assms(1,2)] by auto
    then show thesis using that(2) False sl(1) d(5) assms(3) by (simp add: tcp_time_wait_handler_def as_tcp_table_def as_tcb_def)
  qed
qed

text \<open>A clone of a tracked packet goes out; what was tracked stays.\<close>

lemma resend_safe:
  assumes "tinv sim a w t" "pkt_at p w \<noteq> None"
  obtains w' where "packet_clone p w = Some (NULL, w')" "tstep sim a {} w w' t"
  | c w1 r w2 w3 where "packet_clone p w = Some (c, w1)" "c \<noteq> NULL" "ip_output sim src dst IPPROTO_TCP c w1 = Some (r, w2)" "tstep sim a {} w w2 t"
      "packet_free c w2 = Some w3" "tstep sim a {} w w3 t"
proof -
  note d = tinvD [OF assms(1)]
  obtain c w1 where 1: "packet_clone p w = Some (c, w1)" "safe_step sim {} w w1" "c \<noteq> NULL \<longrightarrow> pkt_at c w = None \<and> pkt_at c w1 \<noteq> None"
    by (rule safe_step_clone [OF ip_ready_net [OF d(1)] assms(2)])
  note s1 = ip_step_safe [OF d(1) 1(2)]
  show thesis
  proof (cases "c = NULL")
    case True
    then show thesis using that(1) 1(1) tstep_net [OF assms(1) s1] by simp
  next
    case False
    then have c: "pkt_at c w = None" "pkt_at c w1 \<noteq> None" using 1(3) by simp_all
    obtain r w2 where 2: "ip_output sim src dst IPPROTO_TCP c w1 = Some (r, w2)" "ip_step sim {c} w1 w2" "pkt_at c w2 \<noteq> None"
      by (rule ip_output_total [OF ip_step_ready [OF s1] c(2)])
    have "c = NULL \<or> pkt_at c w2 \<noteq> None" using 2(3) by simp
    from ip_step_free [OF ip_step_ready [OF 2(2)] this] obtain w3 where 3: "packet_free c w2 = Some w3" "ip_step sim {c} w2 w3" .
    have s2: "ip_step sim {c} w w2" by (rule ip_step_trans [OF ip_step_mono [OF s1] 2(2)]) simp
    have "tstep sim a {} w v t" if "ip_step sim {c} w v" for v using tstep_net [OF assms(1) ip_step_fresh [OF that c(1)]] by simp
    then show thesis using that(2) 1(1) False 2(1) 3(1) s2 ip_step_trans [OF s2 3(2)] by blast
  qed
qed

lemma tcp_retransmit_safe:
  assumes "tinv sim a w t" "i < TCP_MAX_CONNS" "evt_data e = VTcb a i" "tcp_ctx_at x w = Some \<lparr>tx_sim = sim, tx_table = a\<rparr>"
  obtains w' where "tcp_retransmit_handler e (VTcpCtx x) w = Some w'" "tstep sim a {} w w' t"
  | w' n now v where "tcp_retransmit_handler e (VTcpCtx x) w = Some w'" "tb_valid (tt_tcbs t ! i) = 1"
      "tstep sim a {} w w' (with_slot t i ((retried n now (tt_tcbs t ! i))\<lparr>tb_retransmit_ts := v\<rparr>))"
proof -
  let ?x = "tt_tcbs t ! i"
  note d = tinvD [OF assms(1)] and sl = tinv_slot [OF assms(1,2)]
  have nn: "sim \<noteq> NULL" "a \<noteq> NULL" "x \<noteq> NULL" using ready_parts [OF d(1)] d(5) assms(4) by (auto simp: tcp_ctx_at_def split: if_splits)
  obtain s where s: "sq_entries (tb_sendq ?x) = [s]" using tcb_ok_one [OF sl(2)] by blast
  have one: "[0..<TCP_MAX_INFLIGHT] = [0]" by (simp add: TCP_MAX_INFLIGHT_def)
  have go: "tcp_retransmit_handler e (VTcpCtx x) w = (if tb_valid ?x \<noteq> 1 then Some w else retransmit_segments \<lparr>tx_sim = sim, tx_table = a\<rparr> x (a, i) [0] w)"
    using nn assms(3,4) sl(1) unfolding tcp_retransmit_handler_def one by (simp add: as_tcp_ctx_def as_tcb_def)
  show thesis
  proof (cases "tb_valid ?x \<noteq> 1 \<or> sg_pkt s = NULL \<or> sg_acked s \<noteq> 0")
    case True
    then have "tcp_retransmit_handler e (VTcpCtx x) w = Some w" unfolding go using sl(1) s by auto
    then show thesis using that(1) tstep_refl [OF assms(1)] by simp
  next
    case False
    then have ok: "tb_valid ?x = 1" "sg_pkt s \<noteq> NULL" "sg_acked s = 0" by auto
    have lv: "pkt_at (sg_pkt s) w \<noteq> None" using segs_one [OF s] sl(3) ok(2) assms(1) by (auto simp: tinv_def)
    show thesis
    proof (rule resend_safe [OF assms(1) lv, where src = "tb_local_ip ?x" and dst = "tb_remote_ip ?x"])
      fix w' assume "packet_clone (sg_pkt s) w = Some (NULL, w')" "tstep sim a {} w w' t"
      then show thesis using that(1) go ok sl(1) s by simp
    next
      fix c w1 r w2 w3 assume r: "packet_clone (sg_pkt s) w = Some (c, w1)" "c \<noteq> NULL" "ip_output sim (tb_local_ip ?x) (tb_remote_ip ?x) IPPROTO_TCP c w1 = Some (r, w2)"
        "tstep sim a {} w w2 t" "packet_free c w2 = Some w3" "tstep sim a {} w w3 t"
      note i2 = tstep_inv [OF r(4)]
      obtain m sch where m: "sim_at sim w2 = Some m" "sched_at (sim_sched m) w2 = Some sch" "sim_sched m \<noteq> NULL" by (rule ready_parts [OF tinvD(1) [OF i2]])
      let ?y = "retried (sg_retransmits s + 1) (sch_now sch) ?x"
      let ?w4 = "tcp_put a (with_slot t i ?y) w2"
      have s4: "tstep sim a {} w ?w4 (with_slot t i ?y)" by (rule tstep_trans [OF r(4) tstep_retried [OF i2 assms(2)]])
      have up: "tcb_upd (a, i) (\<lambda>x. x\<lparr>tb_sendq := (tb_sendq x)\<lparr>sq_entries := (sq_entries (tb_sendq x))[0 := s\<lparr>sg_retransmits := sg_retransmits s + 1, sg_sent_ts := sch_now sch\<rparr>]\<rparr>\<rparr>) w2 = Some ?w4"
        using tinvD(3) [OF i2] d(6) assms(2) s by (simp add: tcb_upd_def retried_def)
      obtain w5 v where 5: "tcp_schedule_retransmit sim x (Some (a, i)) ?w4 = Some w5"
        "tstep sim a {} ?w4 w5 (with_slot t i (?y\<lparr>tb_retransmit_ts := v\<rparr>))"
        using tcp_schedule_safe [OF tstep_inv [OF s4] assms(2), of x] d(6) assms(2) by auto
      have "tcp_retransmit_handler e (VTcpCtx x) w = Some (if r = - 1 then w3 else w5)"
        using go ok sl(1) s r m up 5(1) by (simp add: tcp_now_def)
      then show thesis using that r(6) ok(1) tstep_trans [OF s4 5(2)] by (cases "r = - 1") simp_all
    qed
  qed
qed

end
