(* ===== verification/Tcp_Machine.thy ===== *)
theory Tcp_Machine
  imports Tcp_Ops
begin

text \<open>
  TCP as a state machine: the steps that the operations make on the world, the invariant of every reachable world, and
  the state diagram that each slot of a table follows.
\<close>

section \<open>Steps\<close>

inductive tcp_step :: "addr \<Rightarrow> addr \<Rightarrow> addr \<Rightarrow> 'a tcp_recv_call \<Rightarrow> 'a tcp_connect_call \<Rightarrow> 'a tcp_world_scheme \<Rightarrow> 'a tcp_world_scheme \<Rightarrow> bool"
  for sim a x rcall ccall where
  listen: "tcp_listen a lip lport rf cf ctx w = Some (b, w') \<Longrightarrow> tcp_step sim a x rcall ccall w w'"
| connect: "tcp_connect sim a lip rip lport rport rf cf ctx w = Some (b, w') \<Longrightarrow> tcp_step sim a x rcall ccall w w'"
| receive: "tcp_receive rcall ccall iface pkt (VTcpCtx x) w = Some (r, w') \<Longrightarrow> tcp_ctx_at x w = Some \<lparr>tx_sim = sim, tx_table = a\<rparr> \<Longrightarrow>
    pkt_at pkt w \<noteq> None \<Longrightarrow> iface_at iface w \<noteq> None \<Longrightarrow> \<forall>t. tcp_at a w = Some t \<longrightarrow> pkt \<notin> tracked t \<Longrightarrow> tcp_step sim a x rcall ccall w w'"
| send: "tcp_send sim (Some (a, i)) data len w = Some (r, w') \<Longrightarrow> i < TCP_MAX_CONNS \<Longrightarrow> \<forall>b. data = Some b \<longrightarrow> len \<le> length b \<Longrightarrow>
    tcp_step sim a x rcall ccall w w'"
| close: "tcp_close sim (Some (a, i)) w = Some (r, w') \<Longrightarrow> i < TCP_MAX_CONNS \<Longrightarrow> tcp_step sim a x rcall ccall w w'"
| retransmit: "tcp_retransmit_handler e (VTcpCtx x) w = Some w' \<Longrightarrow> tcp_ctx_at x w = Some \<lparr>tx_sim = sim, tx_table = a\<rparr> \<Longrightarrow>
    evt_data e = VTcb a i \<Longrightarrow> i < TCP_MAX_CONNS \<Longrightarrow> tcp_step sim a x rcall ccall w w'"
| time_wait: "tcp_time_wait_handler e (VTcpTable a) w = Some w' \<Longrightarrow> evt_data e = VTcb a i \<Longrightarrow> i < TCP_MAX_CONNS \<Longrightarrow>
    tcp_step sim a x rcall ccall w w'"
| network: "ip_step sim X w w' \<Longrightarrow> \<forall>t. tcp_at a w = Some t \<longrightarrow> X \<inter> tracked t = {} \<Longrightarrow> tcp_step sim a x rcall ccall w w'"

text \<open>The state diagram. A free slot counts as CLOSED.\<close>

inductive tcp_edge :: "TcpState \<Rightarrow> TcpState \<Rightarrow> bool" where
  "tcp_edge TCP_CLOSED TCP_LISTEN"
| "tcp_edge TCP_CLOSED TCP_SYN_SENT"
| "tcp_edge TCP_CLOSED TCP_SYN_RECEIVED"
| "tcp_edge TCP_SYN_SENT TCP_ESTABLISHED"
| "tcp_edge TCP_SYN_RECEIVED TCP_ESTABLISHED"
| "tcp_edge TCP_ESTABLISHED TCP_CLOSE_WAIT"
| "tcp_edge TCP_ESTABLISHED TCP_FIN_WAIT_1"
| "tcp_edge TCP_FIN_WAIT_1 TCP_FIN_WAIT_2"
| "tcp_edge TCP_FIN_WAIT_2 TCP_TIME_WAIT"
| "tcp_edge TCP_CLOSE_WAIT TCP_LAST_ACK"
| "tcp_edge TCP_LAST_ACK TCP_CLOSED"
| "tcp_edge TCP_TIME_WAIT TCP_CLOSED"

inductive_simps tcp_edge_from: "tcp_edge s s'"

definition conn_state :: "Tcb \<Rightarrow> TcpState" where
  "conn_state x = (if tb_valid x = 0 then TCP_CLOSED else tb_state x)"

definition slot_next :: "Tcb \<Rightarrow> Tcb \<Rightarrow> bool" where
  "slot_next x y \<longleftrightarrow> (conn_state y = conn_state x \<or> tcp_edge (conn_state x) (conn_state y)) \<and>
     (conn_state x \<noteq> TCP_CLOSED \<and> conn_state y \<noteq> TCP_CLOSED \<longrightarrow> conn_key y = conn_key x)"

definition table_moves :: "TcpTable \<Rightarrow> TcpTable \<Rightarrow> bool" where
  "table_moves t t' \<longleftrightarrow> (\<forall>i < TCP_MAX_CONNS. slot_next (tt_tcbs t ! i) (tt_tcbs t' ! i))"

lemma slot_next_refl [simp]: "slot_next x x"
  by (simp add: slot_next_def)

lemma table_moves_refl [simp]: "table_moves t t"
  by (simp add: table_moves_def)

lemma moves_slot:
  assumes "length (tt_tcbs t) = TCP_MAX_CONNS" "tt_tcbs t' = (tt_tcbs t)[i := y]" "slot_next (tt_tcbs t ! i) y"
  shows "table_moves t t'"
  unfolding table_moves_def
proof (intro allI impI)
  fix j assume "j < TCP_MAX_CONNS"
  then show "slot_next (tt_tcbs t ! j) (tt_tcbs t' ! j)" using assms by (cases "j = i") simp_all
qed

lemma slot_next_opened: "tb_valid x = 0 \<Longrightarrow> tb_state y \<in> {TCP_LISTEN, TCP_SYN_SENT, TCP_SYN_RECEIVED} \<Longrightarrow> slot_next x y"
  by (auto simp: slot_next_def conn_state_def tcp_edge_from)

lemma slot_next_zero: "tb_valid x = 0 \<Longrightarrow> slot_next x zero_tcb" "tb_state x \<in> {TCP_LAST_ACK, TCP_TIME_WAIT} \<Longrightarrow> slot_next x zero_tcb"
  by (auto simp: slot_next_def conn_state_def tcp_edge_from)

lemma slot_next_seg:
  assumes "tb_valid x = 1"
  shows "slot_next x (seg_next ok seq ack fl n x)"
proof (cases "tb_state x")
  case TCP_LAST_ACK
  then show ?thesis using assms slot_next_zero(2) [of x]
    by (auto simp: seg_next_def Let_def) (auto simp: slot_next_def conn_state_def)
qed (use assms in \<open>auto simp: seg_next_def slot_next_def conn_state_def tcp_edge_from take_ack_def Let_def\<close>)

lemma moves_accepted:
  assumes "length (tt_tcbs t) = TCP_MAX_CONNS" "accepted dip dport sip sport seq t l r t'"
  shows "table_moves t t'"
proof (cases "t' = t")
  case False
  then obtain i y where y: "tb_valid (tt_tcbs t ! i) = 0" "tt_tcbs t' = (tt_tcbs t)[i := y]" "y = zero_tcb \<or> tb_state y = TCP_SYN_RECEIVED"
    using assms(2) by (auto simp: accepted_def opened_def child_tcb_def split: if_splits)
  have "slot_next (tt_tcbs t ! i) y" using y(3) slot_next_zero(1) [OF y(1)] slot_next_opened [OF y(1), of y] by auto
  then show ?thesis by (rule moves_slot [OF assms(1) y(2)])
qed simp

lemma moves_receive:
  assumes "table_wf t" "receive_spec t sg r t'"
  shows "table_moves t t'"
proof -
  have l: "length (tt_tcbs t) = TCP_MAX_CONNS" using assms(1) by (simp add: table_wf_def)
  have nx: "table_moves t (table_next t i (seg_next ok seq ack fl n (tt_tcbs t ! i)))" if "tcp_find_exact (Some t) lip lp rip rp = Some i"
    for i ok seq ack fl n lip lp rip rp
    by (rule moves_slot [OF l, of _ i "seg_next ok seq ack fl n (tt_tcbs t ! i)"])
       (use slot_next_seg [OF find_exact_Some(2) [OF assms(1) that]] in \<open>auto simp: table_next_def\<close>)
  show ?thesis using assms(2) nx moves_accepted [OF l] unfolding receive_spec_def by (auto split: option.splits if_splits)
qed

text \<open>The operations move the table along the diagram.\<close>

lemma tstep_moves:
  assumes "tstep sim a X w w' t'" "length (tt_tcbs t) = TCP_MAX_CONNS" "tt_tcbs t' = (tt_tcbs t)[i := y]" "slot_next (tt_tcbs t ! i) y"
  shows "\<exists>t'. tinv sim a w' t' \<and> table_moves t t'"
  using tstep_inv [OF assms(1)] moves_slot [OF assms(2-4)] by blast

lemma tstep_stays: "tstep sim a X w w' t \<Longrightarrow> \<exists>t'. tinv sim a w' t' \<and> table_moves t t'"
  using tstep_inv by force

lemma listen_moves:
  assumes "tinv sim a w t" "tcp_listen a lip lport rf cf ctx w = Some (b, w')"
  shows "\<exists>t'. tinv sim a w' t' \<and> table_moves t t'"
proof (cases "lport = 0")
  case True
  then show ?thesis using assms by (auto simp: tcp_listen_def intro: exI [of _ t])
next
  case False
  show ?thesis
  proof (rule tcp_listen_safe [OF assms(1) False, of lip rf cf ctx])
    assume "tcp_listen a lip lport rf cf ctx w = Some (None, w)"
    then show ?thesis using assms by (auto intro: exI [of _ t])
  next
    fix i w1 assume 1: "tcp_listen a lip lport rf cf ctx w = Some (Some (a, i), w1)" "tb_valid (tt_tcbs t ! i) = 0"
      "tstep sim a {} w w1 (opened t i (listen_tcb lip lport rf cf ctx))"
    have "w' = w1" using 1(1) assms(2) by simp
    then show ?thesis using tstep_moves [OF 1(3) tinvD(6) [OF assms(1)], of i "listen_tcb lip lport rf cf ctx"] slot_next_opened [OF 1(2)]
      by (simp add: opened_def listen_tcb_def)
  qed
qed

lemma connect_moves:
  assumes "tinv sim a w t" "tcp_connect sim a lip rip lport rport rf cf ctx w = Some (b, w')"
  shows "\<exists>t'. tinv sim a w' t' \<and> table_moves t t'"
proof (cases "lip = 0 \<or> lport = 0 \<or> rip = 0 \<or> rport = 0")
  case True
  then show ?thesis using assms by (auto simp: tcp_connect_def intro: exI [of _ t])
next
  case False
  then have nz: "lip \<noteq> 0" "lport \<noteq> 0" "rip \<noteq> 0" "rport \<noteq> 0" by simp_all
  note l = tinvD(6) [OF assms(1)]
  show ?thesis
  proof (rule tcp_connect_safe [OF assms(1) nz, of rf cf ctx])
    assume "tcp_connect sim a lip rip lport rport rf cf ctx w = Some (None, w)"
    then show ?thesis using assms by (auto intro: exI [of _ t])
  next
    fix i w1 assume "tcp_connect sim a lip rip lport rport rf cf ctx w = Some (None, w1)" "tb_valid (tt_tcbs t ! i) = 0"
      "tstep sim a {} w w1 (with_slot t i zero_tcb)"
    then show ?thesis using tstep_moves [OF _ l, of sim a "{}" w w' _ i zero_tcb] slot_next_zero(1) assms(2) by simp
  next
    fix i w1 c now v
    let ?y = "(in_flight c 0 1 TCP_FLAG_SYN now (open_tcb TCP_SYN_SENT lip lport rip rport 0 rf cf ctx))\<lparr>tb_retransmit_ts := v\<rparr>"
    assume 1: "tcp_connect sim a lip rip lport rport rf cf ctx w = Some (Some (a, i), w1)" "tb_valid (tt_tcbs t ! i) = 0"
      "tstep sim a {} w w1 (opened t i ?y)"
    have "slot_next (tt_tcbs t ! i) ?y" by (rule slot_next_opened [OF 1(2)]) simp
    then show ?thesis using tstep_moves [OF 1(3) l, of i ?y] 1(1) assms(2) by (simp add: opened_def)
  qed
qed

lemma slot_moves:
  assumes "tinv sim a w t" "tstep sim a X w w' (with_slot t i y)" "tb_valid y = tb_valid (tt_tcbs t ! i)" "conn_key y = conn_key (tt_tcbs t ! i)"
    "tb_state y = tb_state (tt_tcbs t ! i) \<or> tcp_edge (tb_state (tt_tcbs t ! i)) (tb_state y)"
  shows "\<exists>t'. tinv sim a w' t' \<and> table_moves t t'"
  by (rule tstep_moves [OF assms(2) tinvD(6) [OF assms(1)], of i y]) (use assms(3-5) in \<open>simp_all add: slot_next_def conn_state_def\<close>)

lemma send_moves:
  assumes "tinv sim a w t" "i < TCP_MAX_CONNS" "\<And>b. data = Some b \<Longrightarrow> len \<le> length b" "tcp_send sim (Some (a, i)) data len w = Some (r, w')"
  shows "\<exists>t'. tinv sim a w' t' \<and> table_moves t t'"
proof (rule tcp_send_safe [OF assms(1-3)])
  fix q w1 assume "tcp_send sim (Some (a, i)) data len w = Some (q, w1)" "tstep sim a {} w w1 t"
  then show ?thesis using tstep_stays assms(4) by simp
next
  let ?x = "tt_tcbs t ! i"
  fix w1 c now v assume 1: "tcp_send sim (Some (a, i)) data len w = Some (0, w1)"
    and st: "tstep sim a {} w w1 (with_slot t i ((in_flight c (tb_snd_nxt ?x) (tb_snd_nxt ?x + of_nat (min len TCP_MSS))
         (TCP_FLAG_ACK OR TCP_FLAG_PSH) now ?x)\<lparr>tb_snd_nxt := tb_snd_nxt ?x + of_nat (min len TCP_MSS), tb_retransmit_ts := v\<rparr>))"
  have "w' = w1" using 1 assms(4) by simp
  then show ?thesis using slot_moves [OF assms(1) st] by simp
qed

lemma close_moves:
  assumes "tinv sim a w t" "i < TCP_MAX_CONNS" "tcp_close sim (Some (a, i)) w = Some (r, w')"
  shows "\<exists>t'. tinv sim a w' t' \<and> table_moves t t'"
proof (rule tcp_close_safe [OF assms(1,2)])
  fix w1 assume "tcp_close sim (Some (a, i)) w = Some (- 1, w1)" "tstep sim a {} w w1 t"
  then show ?thesis using tstep_stays assms(3) by simp
next
  let ?x = "tt_tcbs t ! i"
  fix w1 c now v assume 1: "tcp_close sim (Some (a, i)) w = Some (0, w1)" "tb_state ?x \<in> {TCP_ESTABLISHED, TCP_CLOSE_WAIT}"
    and st: "tstep sim a {} w w1 (with_slot t i ((in_flight c (tb_snd_nxt ?x) (tb_snd_nxt ?x + 1) (TCP_FLAG_FIN OR TCP_FLAG_ACK) now ?x)
      \<lparr>tb_snd_nxt := tb_snd_nxt ?x + 1, tb_state := close_state (tb_state ?x), tb_retransmit_ts := v\<rparr>))"
  have w: "w' = w1" using 1 assms(3) by simp
  have "tcp_edge (tb_state ?x) (close_state (tb_state ?x))" using 1(2) by (auto simp: close_state_def tcp_edge_from)
  then show ?thesis unfolding w by (intro slot_moves [OF assms(1) st]) simp_all
qed

lemma retransmit_moves:
  assumes "tinv sim a w t" "i < TCP_MAX_CONNS" "evt_data e = VTcb a i" "tcp_ctx_at x w = Some \<lparr>tx_sim = sim, tx_table = a\<rparr>"
    "tcp_retransmit_handler e (VTcpCtx x) w = Some w'"
  shows "\<exists>t'. tinv sim a w' t' \<and> table_moves t t'"
proof (rule tcp_retransmit_safe [OF assms(1-4)])
  fix w1 assume "tcp_retransmit_handler e (VTcpCtx x) w = Some w1" "tstep sim a {} w w1 t"
  then show ?thesis using tstep_stays assms(5) by simp
next
  fix w1 n now v assume "tcp_retransmit_handler e (VTcpCtx x) w = Some w1"
    and st: "tstep sim a {} w w1 (with_slot t i ((retried n now (tt_tcbs t ! i))\<lparr>tb_retransmit_ts := v\<rparr>))"
  then show ?thesis using slot_moves [OF assms(1) st] assms(5) by simp
qed

lemma time_wait_moves:
  assumes "tinv sim a w t" "i < TCP_MAX_CONNS" "evt_data e = VTcb a i" "tcp_time_wait_handler e (VTcpTable a) w = Some w'"
  shows "\<exists>t'. tinv sim a w' t' \<and> table_moves t t'"
proof (rule tcp_time_wait_safe [OF assms(1-3)])
  assume "tcp_time_wait_handler e (VTcpTable a) w = Some w"
  then show ?thesis using tstep_stays [OF tstep_refl [OF assms(1)]] assms(4) by simp
next
  fix w1 assume 1: "tcp_time_wait_handler e (VTcpTable a) w = Some w1" "tb_state (tt_tcbs t ! i) = TCP_TIME_WAIT"
    "tstep sim a (segs (tt_tcbs t ! i)) w w1 (t\<lparr>tt_tcbs := (tt_tcbs t)[i := zero_tcb], tt_count := tt_count t - 1\<rparr>)"
  then have w: "w' = w1" using assms(4) by simp
  show ?thesis unfolding w by (rule tstep_moves [OF 1(3) tinvD(6) [OF assms(1)], of i zero_tcb]) (use 1(2) slot_next_zero(2) in simp_all)
qed

lemma tcp_step_next:
  assumes "tcp_step sim a x rcall ccall w w'" "tinv sim a w t" "handlers_ok sim a rcall ccall"
  shows "\<exists>t'. tinv sim a w' t' \<and> table_moves t t'"
  using assms(1)
proof cases
  case (receive iface pkt r)
  note d = tinvD [OF assms(2)]
  obtain p where p: "pkt_at pkt w = Some p" "pkt \<notin> tracked t" using d(3) receive by auto
  from tcp_receive_safe [OF assms(2,3) receive(2) p receive(4)] show ?thesis
    using receive(1) moves_receive [OF d(4)] by (auto simp: ends_def)
next
  case (network X)
  then show ?thesis using tstep_stays [OF tstep_net [OF assms(2)]] tinvD(3) [OF assms(2)] by simp
next
  case (send i data len r)
  then show ?thesis using send_moves [OF assms(2)] by blast
next
  case (close i r)
  then show ?thesis using close_moves [OF assms(2)] by blast
next
  case (retransmit e i)
  then show ?thesis using retransmit_moves [OF assms(2)] by blast
next
  case (time_wait e i)
  then show ?thesis using time_wait_moves [OF assms(2)] by blast
qed (use listen_moves [OF assms(2)] connect_moves [OF assms(2)] in blast)+

text \<open>Every world that TCP can reach.\<close>

lemma tcp_reach_inv:
  assumes "(tcp_step sim a x rcall ccall)\<^sup>*\<^sup>* w w'" "tinv sim a w t" "handlers_ok sim a rcall ccall"
  shows "\<exists>t'. tinv sim a w' t'"
  using assms(1)
proof (induction rule: rtranclp_induct)
  case base
  then show ?case using assms(2) by blast
next
  case (step w1 w2)
  then show ?case using tcp_step_next [OF step.hyps(2) _ assms(3)] by blast
qed

lemma tcp_init_wf:
  assumes "tcp_init (Some t0) = Some t"
  shows "table_wf t" "tracked t = {}"
proof -
  have t: "t = \<lparr>tt_tcbs = replicate TCP_MAX_CONNS zero_tcb, tt_count = 0\<rparr>" using assms by (simp add: tcp_init_def)
  show "table_wf t" unfolding table_wf_def t by (auto simp: conns.unique_def)
  show "tracked t = {}" unfolding tracked_def t by simp
qed

end
