(* ===== verification/Tcp_Theorems.thy ===== *)
theory Tcp_Theorems
  imports Tcp_Machine
begin

text \<open>
  What TCP promises, and an example network on which it holds: a listener on port 80 of the host at 10.0.0.1, and a SYN
  that arrives for it.
\<close>

section \<open>An example network\<close>

definition demo_listener :: Tcb where
  "demo_listener = listen_tcb 0 80 Tcp_recv_NULL Tcp_connect_NULL VNull"

definition demo_tcp_table :: "Tcb \<Rightarrow> TcpTable" where
  "demo_tcp_table x = \<lparr>tt_tcbs = x # replicate 63 zero_tcb, tt_count = 1\<rparr>"

definition demo_segment :: "u32 \<Rightarrow> u32 \<Rightarrow> u8 \<Rightarrow> Packet" where
  "demo_segment seq ack fl = \<lparr>pkt_head = replicate 44 0 @ ip_bytes (new_ip_header 0x0A000002 0x0A000001 6 20) @ segment_bytes 1000 80 seq ack fl [],
     pkt_data = 64, pkt_len = 20, pkt_capacity = 20, pkt_id = 5, pkt_trace_id = 5, pkt_parent_id = 0, pkt_layer = 4\<rparr>"

definition demo_tcp_world :: "TcpTable \<Rightarrow> tcp_world" where
  "demo_tcp_world t = \<lparr>w_mem = \<lparr>mem_next = 70, mem_oom = [], mem_junk = (\<lambda>_. 0)\<rparr>, w_next_id = 8,
     w_pkts = [4 \<mapsto> demo_segment 500 0 TCP_FLAG_SYN, 9 \<mapsto> demo_segment 501 1 TCP_FLAG_ACK],
     w_scheds = [5 \<mapsto> demo_sched], w_ifaces = [2 \<mapsto> demo_port, 3 \<mapsto> demo_eth1],
     w_devs = [30 \<mapsto> \<lparr>dev_name = ''H1'', dev_interfaces = [2], dev_iface_max = 8\<rparr>],
     w_links = [6 \<mapsto> demo_cable], w_topos = [8 \<mapsto> \<lparr>tp_devices = [30], tp_dev_cap = 4, tp_links = [6], tp_link_cap = 4\<rparr>],
     w_sims = [7 \<mapsto> \<lparr>sim_topo = 8, sim_sched = 5, sim_end_time = 0\<rparr>],
     w_caches = [30 \<mapsto> demo_arp_cache], w_stacks = Map.empty, w_udps = Map.empty, w_udp_ctxs = Map.empty, w_routers = Map.empty,
     w_switches = Map.empty, w_rips = Map.empty, w_tcps = [40 \<mapsto> t], w_tcp_ctxs = [41 \<mapsto> \<lparr>tx_sim = 7, tx_table = 40\<rparr>]\<rparr>"

lemma demo_tcp_parts:
  "tcp_at 40 (demo_tcp_world t) = Some t" "tcp_ctx_at 41 (demo_tcp_world t) = Some \<lparr>tx_sim = 7, tx_table = 40\<rparr>"
  "pkt_at 4 (demo_tcp_world t) = Some (demo_segment 500 0 TCP_FLAG_SYN)" "pkt_at 9 (demo_tcp_world t) = Some (demo_segment 501 1 TCP_FLAG_ACK)"
  "iface_at 2 (demo_tcp_world t) = Some demo_port" "iface_at 3 (demo_tcp_world t) = Some demo_eth1"
  "dev_at 30 (demo_tcp_world t) = Some \<lparr>dev_name = ''H1'', dev_interfaces = [2], dev_iface_max = 8\<rparr>"
  "sim_at 7 (demo_tcp_world t) = Some \<lparr>sim_topo = 8, sim_sched = 5, sim_end_time = 0\<rparr>" "sched_at 5 (demo_tcp_world t) = Some demo_sched"
  "topo_at 8 (demo_tcp_world t) = Some \<lparr>tp_devices = [30], tp_dev_cap = 4, tp_links = [6], tp_link_cap = 4\<rparr>"
  "cache_at 30 (demo_tcp_world t) = Some demo_arp_cache" "link_at 6 (demo_tcp_world t) = Some demo_cable" "mem_next (w_mem (demo_tcp_world t)) = 70"
  by (simp_all add: demo_tcp_world_def tcp_at_def tcp_ctx_at_def pkt_at_def iface_at_def dev_at_def sim_at_def sched_at_def topo_at_def cache_at_def link_at_def)

lemma length_segment_bytes [simp]: "length (segment_bytes sp dp seq ack fl b) = 20 + length b"
  by (simp add: segment_bytes_def)

lemma demo_segment_wf: "pkt_wf (demo_segment seq ack fl)"
  by (simp add: demo_segment_def pkt_wf_def PKT_HEADROOM_def SIZE_MAX_def)

lemma demo_tcp_ready: "ip_ready 7 (demo_tcp_world t)"
proof -
  have "pkt_wf p \<and> a \<le> 70" if "pkt_at a (demo_tcp_world t) = Some p" for a p
    using that demo_segment_wf by (auto simp: pkt_at_def demo_tcp_world_def split: if_splits)
  then have "heap_wf (demo_tcp_world t)" by (simp add: heap_wf_def demo_tcp_parts)
  moreover have "sim_ready 7 (demo_tcp_world t)" using demo_sched_wf by (simp add: sim_ready_def demo_tcp_parts)
  moreover have "attached (demo_tcp_world t) demo_port" "attached (demo_tcp_world t) demo_eth1"
    by (simp_all add: attached_def demo_tcp_parts demo_eth_ifaces demo_port_fields)
  moreover have i: "i = demo_port \<or> i = demo_eth1" if "iface_at a (demo_tcp_world t) = Some i" for a i
    using that by (auto simp: iface_at_def demo_tcp_world_def split: if_splits)
  ultimately have "net_wf 7 (demo_tcp_world t)" unfolding net_wf_def by metis
  moreover have "topo_live 7 (demo_tcp_world t)" by (simp add: topo_live_def demo_tcp_parts)
  moreover have "if_arp_cache demo_eth1 = NULL" by (simp add: demo_eth1_def demo_iface_def)
  then have "caches_live (demo_tcp_world t)" using i arp_init_wf(2) unfolding caches_live_def by (metis demo_tcp_parts(11) demo_port_fields(2))
  ultimately show ?thesis by (simp add: ip_ready_def)
qed

lemma demo_tcp_tinv:
  assumes "fresh_tcb x"
  shows "tinv 7 40 (demo_tcp_world (demo_tcp_table x)) (demo_tcp_table x)" "tracked (demo_tcp_table x) = {}"
proof -
  note x = fresh_tcb_ok [OF assms]
  have s: "segs y = {}" "tcb_ok y" if "y \<in> set (tt_tcbs (demo_tcp_table x))" for y using that x by (auto simp: demo_tcp_table_def)
  then show tr: "tracked (demo_tcp_table x) = {}" by (simp add: tracked_def)
  have l: "length (tt_tcbs (demo_tcp_table x)) = 64" by (simp add: demo_tcp_table_def)
  have z: "conns.unique (replicate 63 zero_tcb)" "conns.lookup (replicate 63 zero_tcb) k = None" for k
    by (simp_all add: conns.unique_all_dead conns.lookup_None_iff)
  have "conns.unique (tt_tcbs (demo_tcp_table x))" using z by (simp add: demo_tcp_table_def conns.unique_Cons)
  moreover have "segs (tt_tcbs (demo_tcp_table x) ! i) = {}" if "i < 64" for i using s(1) [OF nth_mem] l that by simp
  moreover have "tt_count (demo_tcp_table x) = int (length (filter (\<lambda>x. tb_valid x \<noteq> 0) (tt_tcbs (demo_tcp_table x))))"
    using assms by (simp add: demo_tcp_table_def fresh_tcb_def)
  ultimately have "table_wf (demo_tcp_table x)" using s(2) l by (simp add: table_wf_def TCP_MAX_CONNS_def)
  then show "tinv 7 40 (demo_tcp_world (demo_tcp_table x)) (demo_tcp_table x)" using tr demo_tcp_ready by (simp add: tinv_def demo_tcp_parts)
qed

text \<open>Handlers that a client may register: nothing to do on connection, and a receiver that frees what it is given.\<close>

definition demo_rcall :: "unit tcp_recv_call" where
  "demo_rcall h b p ctx w = packet_free p w"

definition demo_ccall :: "unit tcp_connect_call" where
  "demo_ccall h b ctx w = Some w"

lemma demo_handlers_ok: "handlers_ok sim a demo_rcall demo_ccall"
proof -
  have "\<exists>w'. demo_rcall h b p ctx w = Some w' \<and> tinv sim a w' t" if "tinv sim a w t" "pkt_at p w \<noteq> None" "p \<notin> tracked t" for h b p ctx w t
  proof -
    note h = that
    have "p = NULL \<or> pkt_at p w \<noteq> None" using h by simp
    then obtain w' where "packet_free p w = Some w'" "ip_step sim {p} w w'" by (rule ip_step_free [OF tinvD(1) [OF h(1)]])
    then show ?thesis using tinv_net [OF h(1)] h(3) by (auto simp: demo_rcall_def)
  qed
  then show ?thesis using tstep_refl by (auto simp: handlers_ok_def demo_ccall_def)
qed

lemma demo_listener_fresh: "fresh_tcb demo_listener"
  by (simp add: fresh_tcb_def demo_listener_def listen_tcb_def)

section \<open>Segments on the wire\<close>

lemma tcp_header_fields:
  "get16 (TcpHeader a b c d e f g h @ r) 0 = a" "get16 (TcpHeader a b c d e f g h @ r) 2 = b" "get32 (TcpHeader a b c d e f g h @ r) 4 = c"
  "get32 (TcpHeader a b c d e f g h @ r) 8 = d" "get16 (TcpHeader a b c d e f g h @ r) 12 = e"
  by (simp_all add: TcpHeader_def put16_def put32_def get16_def get32_def two_bytes four_bytes)

lemma offset_flags:
  assumes "fl < 64"
  shows "drop_bit 12 (push_bit 12 TCP_HDR_WORDS OR ucast fl) = TCP_HDR_WORDS" "ucast ((push_bit 12 TCP_HDR_WORDS OR ucast fl) AND 0x3F :: u16) = (fl :: u8)"
proof -
  have "unat fl < 64" using assms by (simp add: word_less_nat_alt)
  then have "take_bit 6 (unat fl) = unat fl" by (simp add: take_bit_nat_eq_self)
  then have "take_bit 6 fl = fl" by (metis unsigned_take_bit_eq word_unat_eq_iff)
  then have f: "bit fl n \<Longrightarrow> n < 6" for n by (metis bit_take_bit_iff)
  have "take_bit 4 TCP_HDR_WORDS = TCP_HDR_WORDS" by (simp add: TCP_HDR_WORDS_def)
  then have h: "bit TCP_HDR_WORDS n \<Longrightarrow> n < 4" for n by (metis bit_take_bit_iff)
  have m: "(0x3F :: u16) = mask 6" by (simp add: mask_eq_exp_minus_1)
  show "drop_bit 12 (push_bit 12 TCP_HDR_WORDS OR ucast fl) = TCP_HDR_WORDS"
    by (rule bit_word_eqI) (use f h in \<open>force simp: bit_simps\<close>)
  show "ucast ((push_bit 12 TCP_HDR_WORDS OR ucast fl) AND 0x3F :: u16) = fl"
    unfolding m by (rule bit_word_eqI) (use f in \<open>force simp: bit_simps\<close>)
qed

lemma parse_written:
  assumes "fl < 64"
  shows "parse_segment (ip_bytes (new_ip_header src dst IPPROTO_TCP n)) (segment_bytes sp dp seq ack fl b) =
    Some \<lparr>s_src_ip = src, s_dst_ip = dst, s_src_port = sp, s_dst_port = dp, s_seq = seq, s_ack = ack, s_flags = fl, s_len = length b\<rparr>"
proof -
  have ld: "ip_load (ip_bytes h) = h" for h using ip_load_bytes [of h "[]"] by simp
  show ?thesis using offset_flags [OF assms]
    by (simp add: parse_segment_def ld new_ip_header_fields segment_bytes_def tcp_header_fields IP_HDR_LEN_def TCP_HDR_LEN_def)
qed

lemma send_segment_clone:
  assumes "ip_ready sim w" "n = 0 \<or> (\<exists>b. payload = Some b \<and> n \<le> length b)"
    and "tcp_send_segment sim src dst sp dp seq ack fl payload n True w = Some (0, c, w')"
  obtains q where "pkt_at c w' = Some q" "visible q = segment_bytes sp dp seq ack fl (if n = 0 then [] else take n (the payload))" "n \<le> TCP_MSS"
proof -
  have n: "n \<le> TCP_MSS" using assms(3) by (auto simp: tcp_send_segment_def split: if_splits)
  obtain pkt w1 where cr: "packet_create (TCP_HDR_LEN + n) w = (pkt, w1)" by (cases "packet_create (TCP_HDR_LEN + n) w") auto
  have pkt: "pkt \<noteq> NULL" using assms(3) cr by (auto simp: tcp_send_segment_def split: if_splits)
  from tcp_send_segment_steps [OF assms(1,2) n cr pkt, of sp dp seq ack fl src dst True] obtain q where
    q: "ip_step sim {} w (pkt_put pkt q w1)" "pkt_wf q" "visible q = segment_bytes sp dp seq ack fl (if n = 0 then [] else take n (the payload))"
    "tcp_send_segment sim src dst sp dp seq ack fl payload n True w = do {
       (track_clone, w) \<leftarrow> packet_clone pkt (pkt_put pkt q w1);
       if track_clone = NULL then do { w \<leftarrow> packet_free pkt w; Some (- 1, NULL, w) }
       else do {
         (res, w) \<leftarrow> ip_output sim src dst IPPROTO_TCP pkt w;
         if res = - 1 then do { w \<leftarrow> packet_free pkt w; w \<leftarrow> packet_free track_clone w; Some (- 1, NULL, w) }
         else Some (0, track_clone, w)
       }
     }" by (simp only: if_True simp_thms) blast
  let ?w2 = "pkt_put pkt q w1"
  note r2 = ip_step_ready [OF q(1)]
  have p2: "pkt_at pkt ?w2 = Some q" using pkt by simp
  have "pkt \<le> mem_next (w_mem ?w2)" using ip_ready_net [OF r2] p2 by (auto simp: net_wf_def dest: heap_wfD)
  from packet_clone_cases [OF p2 q(2) this] obtain d w3 where 3: "packet_clone pkt ?w2 = Some (d, w3)" "d \<noteq> pkt"
    "d \<noteq> NULL \<longrightarrow> (\<exists>x. pkt_at d w3 = Some x \<and> visible x = visible q)" by blast
  have l2: "pkt_at pkt ?w2 \<noteq> None" using p2 by simp
  obtain d' w3' where "packet_clone pkt ?w2 = Some (d', w3')" "safe_step sim {} ?w2 w3'" by (rule safe_step_clone [OF ip_ready_net [OF r2] l2])
  then have s3: "ip_step sim {} ?w2 w3" using 3(1) ip_step_safe [OF r2] by simp
  have p3: "pkt_at pkt w3 \<noteq> None" using ip_step_pkt [OF s3 _ p2] by simp
  obtain r w4 where 4: "ip_output sim src dst IPPROTO_TCP pkt w3 = Some (r, w4)" "ip_step sim {pkt} w3 w4"
    by (rule ip_output_total [OF ip_step_ready [OF s3] p3])
  have e: "d \<noteq> NULL" "r \<noteq> - 1" "c = d" "w' = w4" using assms(3) unfolding q(4) using 3(1) 4(1) by (auto split: if_splits bind_splits)
  obtain x where x: "pkt_at d w3 = Some x" "visible x = visible q" using 3(3) e(1) by blast
  have "pkt_at d w4 = Some x" using ip_step_pkt [OF 4(2) _ x(1)] 3(2) by simp
  then show thesis using that e(3,4) x(2) q(3) n by simp
qed



section \<open>Reception\<close>

text \<open>C15. Reception refines its specification. On a table that satisfies the invariant, with handlers that return, every
  packet that arrives is consumed without a fault: the result is 0 or -1, the invariant holds again, and the table
  changed exactly as \<open>receive_spec\<close> says. A packet that is no TCP segment changes nothing; a segment of a connection
  changes the block of this connection alone, by \<open>seg_next\<close>; a SYN for a listener opens one connection in a free slot;
  everything else is dropped.\<close>

theorem tcp_receive_refines:
  assumes "tinv sim a w t" "handlers_ok sim a rcall ccall" "tcp_ctx_at x w = Some \<lparr>tx_sim = sim, tx_table = a\<rparr>"
    and "pkt_at pkt w = Some p" "pkt \<notin> tracked t" "iface_at iface w \<noteq> None"
  shows "\<exists>r w' t'. tcp_receive rcall ccall iface pkt (VTcpCtx x) w = Some (r, w') \<and> r \<in> {0, - 1} \<and> tinv sim a w' t' \<and>
    receive_spec t (parse_segment (ip_part p) (visible p)) r t'"
  using tcp_receive_safe [OF assms] unfolding ends_def .

lemma demo_segment_parse:
  assumes "fl < 64"
  shows "parse_segment (ip_part (demo_segment seq ack fl)) (visible (demo_segment seq ack fl)) =
    Some \<lparr>s_src_ip = 0x0A000002, s_dst_ip = 0x0A000001, s_src_port = 1000, s_dst_port = 80, s_seq = seq, s_ack = ack, s_flags = fl, s_len = 0\<rparr>"
proof -
  have "ip_part (demo_segment seq ack fl) = ip_bytes (new_ip_header 0x0A000002 0x0A000001 IPPROTO_TCP 20)"
    by (simp add: ip_part_def demo_segment_def IP_HDR_LEN_def IPPROTO_TCP_def)
  moreover have "visible (demo_segment seq ack fl) = segment_bytes 1000 80 seq ack fl []" by (simp add: visible_def demo_segment_def)
  ultimately show ?thesis using parse_written [OF assms] by simp
qed

lemma demo_listener_found:
  "tcp_find_exact (Some (demo_tcp_table demo_listener)) 0x0A000001 80 0x0A000002 1000 = None"
  "tcp_find_listener (Some (demo_tcp_table demo_listener)) 0x0A000001 80 = Some 0"
  by (auto simp: tcp_find_exact_def tcp_find_listener_def first_idx_None demo_tcp_table_def demo_listener_def listen_tcb_def exact_match_def listener_match_def)

lemmas demo_tcp_facts = demo_tcp_tinv [OF demo_listener_fresh] demo_handlers_ok demo_tcp_parts

lemma tcp_receive_refines_witness:
  "\<exists>r w' t'. tcp_receive demo_rcall demo_ccall 2 4 (VTcpCtx 41) (demo_tcp_world (demo_tcp_table demo_listener)) = Some (r, w') \<and>
     tinv 7 40 w' t' \<and> accepted 0x0A000001 80 0x0A000002 1000 500 (demo_tcp_table demo_listener) 0 r t'"
proof -
  have "TCP_FLAG_SYN < 64" by (simp add: TCP_FLAG_SYN_def)
  note p = demo_segment_parse [OF this, of 500 0]
  from tcp_receive_refines [OF demo_tcp_facts(1,3,5,6), where iface = 2]
  show ?thesis by (simp add: demo_tcp_facts(2) demo_tcp_parts(5) p receive_spec_def demo_listener_found) blast
qed

section \<open>Invariant and state diagram\<close>

text \<open>C16. However the operations of TCP and the network interleave from an initialised table, the table stays well
  formed: the counter is exact, no two connections have the same endpoints, at most one segment per connection waits for
  its acknowledgement, every packet that waits is live and waits for one connection only, and no connection is ever in
  the state CLOSING.\<close>

theorem tcp_reachable_wf:
  assumes "ip_ready sim w" "tcp_init (Some t0) = Some t" "tcp_at a w = Some t" "handlers_ok sim a rcall ccall"
    and "(tcp_step sim a x rcall ccall)\<^sup>*\<^sup>* w w'"
  shows "\<exists>t'. tcp_at a w' = Some t' \<and> ip_ready sim w' \<and> table_wf t' \<and> (\<forall>p \<in> tracked t'. pkt_at p w' \<noteq> None)"
proof -
  have "tinv sim a w t" using assms(1,3) tcp_init_wf [OF assms(2)] by (simp add: tinv_def)
  from tcp_reach_inv [OF assms(5) this assms(4)] show ?thesis by (auto simp: tinv_def)
qed

lemma tcp_reachable_wf_witness:
  "\<exists>w' t' i. tcp_listen 40 0 80 Tcp_recv_NULL Tcp_connect_NULL VNull (demo_tcp_world \<lparr>tt_tcbs = replicate 64 zero_tcb, tt_count = 0\<rparr>) = Some (Some (40, i), w') \<and>
     tcp_at 40 w' = Some t' \<and> table_wf t'"
proof -
  let ?t = "\<lparr>tt_tcbs = replicate 64 zero_tcb, tt_count = 0\<rparr>"
  have i: "tcp_init (Some ?t) = Some ?t" by (simp add: tcp_init_def TCP_MAX_CONNS_def)
  have v: "tinv 7 40 (demo_tcp_world ?t) ?t" using tcp_init_wf [OF i] demo_tcp_ready by (simp add: tinv_def demo_tcp_parts)
  have nl: "tcp_find_listener (Some ?t) 0 80 = None" by (simp add: tcp_find_listener_def first_idx_None listener_match_def)
  obtain j w' where l: "tcp_listen 40 0 80 Tcp_recv_NULL Tcp_connect_NULL VNull (demo_tcp_world ?t) = Some (Some (40, j), w')"
    by (rule tcp_listen_safe [OF v, of 80 0 Tcp_recv_NULL Tcp_connect_NULL VNull]) (use nl in \<open>auto simp: TCP_MAX_CONNS_def\<close>)
  have "(tcp_step 7 40 41 demo_rcall demo_ccall)\<^sup>*\<^sup>* (demo_tcp_world ?t) w'" using tcp_step.listen [OF l] by blast
  from tcp_reachable_wf [OF demo_tcp_ready i demo_tcp_parts(1) demo_handlers_ok this] show ?thesis using l by blast
qed

text \<open>C17. Every step moves every slot of the table along the state diagram of TCP, or leaves its state alone, and a
  connection keeps its endpoints until its slot is free again. In particular a connection becomes established only from
  SYN_SENT or SYN_RECEIVED, and a slot is given back only from LAST_ACK or TIME_WAIT.\<close>

theorem tcp_follows_diagram:
  assumes "tcp_step sim a x rcall ccall w w'" "tinv sim a w t" "handlers_ok sim a rcall ccall" "i < TCP_MAX_CONNS"
  shows "\<exists>t'. tcp_at a w' = Some t' \<and>
    (conn_state (tt_tcbs t' ! i) = conn_state (tt_tcbs t ! i) \<or> tcp_edge (conn_state (tt_tcbs t ! i)) (conn_state (tt_tcbs t' ! i))) \<and>
    (conn_state (tt_tcbs t ! i) \<noteq> TCP_CLOSED \<and> conn_state (tt_tcbs t' ! i) \<noteq> TCP_CLOSED \<longrightarrow> conn_key (tt_tcbs t' ! i) = conn_key (tt_tcbs t ! i))"
  using tcp_step_next [OF assms(1-3)] assms(4) by (auto simp: table_moves_def slot_next_def tinv_def)

lemma tcp_follows_diagram_witness:
  "\<exists>r w' t'. tcp_receive demo_rcall demo_ccall 2 4 (VTcpCtx 41) (demo_tcp_world (demo_tcp_table demo_listener)) = Some (r, w') \<and>
     tcp_at 40 w' = Some t' \<and> (conn_state (tt_tcbs t' ! 0) = TCP_LISTEN \<or> tcp_edge TCP_LISTEN (conn_state (tt_tcbs t' ! 0)))"
proof -
  let ?w = "demo_tcp_world (demo_tcp_table demo_listener)"
  obtain r w' where r: "tcp_receive demo_rcall demo_ccall 2 4 (VTcpCtx 41) ?w = Some (r, w')"
    using tcp_receive_safe [OF demo_tcp_facts(1,3,5,6), where iface = 2] by (auto simp: ends_def demo_tcp_facts(2) demo_tcp_parts(5))
  have "tcp_step 7 40 41 demo_rcall demo_ccall ?w w'" by (rule tcp_step.receive [OF r demo_tcp_parts(2)]) (simp_all add: demo_tcp_parts demo_tcp_facts(2))
  from tcp_follows_diagram [OF this demo_tcp_facts(1) demo_handlers_ok, of 0] show ?thesis using r
    by (auto simp: TCP_MAX_CONNS_def demo_tcp_table_def conn_state_def demo_listener_def listen_tcb_def)
qed

section \<open>Sending\<close>

lemma min_mss_word: "unat (of_nat (min len TCP_MSS) :: u32) = min len TCP_MSS"
proof -
  have "min len TCP_MSS < 2 ^ 32" by (simp add: TCP_MSS_def)
  then show ?thesis by (simp only: unsigned_of_nat) (simp add: take_bit_nat_eq_self)
qed

lemma wrap_below:
  assumes "2 ^ 32 \<le> unat x + min len TCP_MSS"
  shows "(x :: u32) + of_nat (min len TCP_MSS) \<le> x"
proof -
  have x: "unat x < 2 ^ 32" using unsigned_less [of x] by simp
  have n: "min len TCP_MSS < 2 ^ 32" by (simp add: TCP_MSS_def)
  have "unat (x + of_nat (min len TCP_MSS)) = (unat x + min len TCP_MSS) mod 2 ^ 32"
    by (simp add: unat_word_ariths min_mss_word)
  also have "\<dots> = unat x + min len TCP_MSS - 2 ^ 32" using assms x n by (simp add: mod_if del: power_numeral)
  also have "\<dots> \<le> unat x" using n by simp
  finally show ?thesis by (simp add: word_le_nat_alt)
qed

lemma one_unacked:
  assumes "tcb_ok y" "sq_entries (tb_sendq y) = [s]" "sq_count (tb_sendq y) = 1"
  shows "tcp_sendq_has_unacked (Some y) = 1"
proof -
  have "sg_pkt s \<noteq> NULL" using tcb_ok_one [OF assms(1)] assms(2,3) by (metis list.inject zero_neq_one)
  then show ?thesis using has_unacked_iff [OF assms(1)] segs_one [OF assms(2)] by simp
qed


text \<open>A connection whose sending side wrapped around never accepts an acknowledgement again.\<close>

lemma wrapped_stuck:
  assumes "tb_state x \<in> {TCP_ESTABLISHED, TCP_CLOSE_WAIT}" "tb_snd_nxt x \<le> tb_snd_una x"
  shows "let y = seg_next ok seq ack fl n x in tb_state y \<in> {TCP_ESTABLISHED, TCP_CLOSE_WAIT} \<and> tb_sendq y = tb_sendq x \<and>
    tb_snd_nxt y = tb_snd_nxt x \<and> tb_snd_una y = tb_snd_una x"
proof -
  have t: "take_ack ack fl x = x" using assms(2) by (auto simp: take_ack_def)
  show ?thesis
  proof (cases "tb_state x = TCP_ESTABLISHED")
    case True
    then show ?thesis by (simp add: seg_next_def Let_def t)
  qed (use assms(1) in \<open>simp add: seg_next_def\<close>)
qed

definition segs_next :: "(bool \<times> u32 \<times> u32 \<times> u8 \<times> nat) list \<Rightarrow> Tcb \<Rightarrow> Tcb" where
  "segs_next xs x = foldl (\<lambda>x (ok, seq, ack, fl, n). seg_next ok seq ack fl n x) x xs"

lemma wrapped_stays:
  assumes "tb_state x \<in> {TCP_ESTABLISHED, TCP_CLOSE_WAIT}" "tb_snd_nxt x \<le> tb_snd_una x"
  shows "tb_sendq (segs_next xs x) = tb_sendq x"
  using assms
proof (induction xs arbitrary: x)
  case Nil
  then show ?case by (simp add: segs_next_def)
next
  case (Cons s xs)
  obtain ok seq ack fl n where s: "s = (ok, seq, ack, fl, n)" by (cases s) auto
  let ?y = "seg_next ok seq ack fl n x"
  have y: "tb_state ?y \<in> {TCP_ESTABLISHED, TCP_CLOSE_WAIT}" "tb_snd_nxt ?y \<le> tb_snd_una ?y" "tb_sendq ?y = tb_sendq x"
    using wrapped_stuck [OF Cons.prems, of ok seq ack fl n] Cons.prems(2) by (simp_all add: Let_def)
  then show ?case using Cons.IH [OF y(1,2)] s by (simp add: segs_next_def)
qed


definition demo_established :: "u32 \<Rightarrow> Tcb" where
  "demo_established s = (open_tcb TCP_ESTABLISHED 0x0A000001 80 0x0A000002 1000 501 Tcp_recv_NULL Tcp_connect_NULL VNull)\<lparr>tb_snd_una := s, tb_snd_nxt := s\<rparr>"

lemma demo_established_fresh: "fresh_tcb (demo_established s)"
  by (simp add: fresh_tcb_def demo_established_def open_tcb_def)



section \<open>The handshake\<close>

text \<open>The acknowledgement that ends the handshake.\<close>

definition synack_tcb :: "addr \<Rightarrow> u64 \<Rightarrow> Tcb \<Rightarrow> Tcb" where
  "synack_tcb c now y = in_flight c 0 1 (TCP_FLAG_SYN OR TCP_FLAG_ACK) now y"

lemma child_established:
  fixes l c now lip lport rip rport seq ok m
  defines "y \<equiv> synack_tcb c now (child_tcb lip lport rip rport seq l)"
  defines "z \<equiv> seg_next ok m 1 TCP_FLAG_ACK 0 y"
  shows "conn_state z = TCP_ESTABLISHED" "tb_snd_una z = 1" "tb_snd_nxt z = 1" "tb_rcv_nxt z = seq + 1" "tb_valid z = 1"
    "tcp_sendq_has_unacked (Some z) = 0"
proof -
  have f: "tb_state y = TCP_SYN_RECEIVED" "tb_snd_nxt y = 1" "tb_rcv_nxt y = seq + 1" "tb_valid y = 1"
    "sq_entries (tb_sendq y) = [\<lparr>sg_pkt = c, sg_seq_start = 0, sg_seq_end = 1, sg_flags = TCP_FLAG_SYN OR TCP_FLAG_ACK, sg_sent_ts = now, sg_retransmits = 0, sg_acked = 0\<rparr>]"
    by (simp_all add: y_def synack_tcb_def child_tcb_def in_flight_def) (simp add: open_tcb_def)
  have "has_flag TCP_FLAG_ACK TCP_FLAG_ACK" by (simp add: has_flag_def TCP_FLAG_ACK_def)
  then have z: "z = (acked_tcb 1 (y\<lparr>tb_snd_una := 1\<rparr>))\<lparr>tb_state := TCP_ESTABLISHED\<rparr>" using f by (simp add: z_def seg_next_def)
  show "conn_state z = TCP_ESTABLISHED" "tb_snd_una z = 1" "tb_snd_nxt z = 1" "tb_rcv_nxt z = seq + 1" "tb_valid z = 1"
    using f unfolding z by (simp_all add: conn_state_def)
  show "tcp_sendq_has_unacked (Some z) = 0" using f(5) unfolding z by (simp add: tcp_sendq_has_unacked_def acked_tcb_def acked_seg_def Let_def)
qed

lemma find_exact_slot:
  assumes "table_wf t" "i < TCP_MAX_CONNS" "tb_valid (tt_tcbs t ! i) \<noteq> 0" "tb_state (tt_tcbs t ! i) \<noteq> TCP_LISTEN"
    "conn_key (tt_tcbs t ! i) = (lip, lport, rip, rport)"
  shows "tcp_find_exact (Some t) lip lport rip rport = Some i"
proof -
  have "conns.unique (tt_tcbs t)" "i < length (tt_tcbs t)" using assms(1,2) by (simp_all add: table_wf_def)
  from conns.unique_find_key [OF this] show ?thesis using assms(3-5) by (simp add: find_exact_key)
qed

lemma handshake_ack:
  assumes "tinv sim a w t1" "handlers_ok sim a rcall ccall" "tcp_ctx_at x w = Some \<lparr>tx_sim = sim, tx_table = a\<rparr>"
    and "pkt_at pkt w = Some q" "pkt \<notin> tracked t1" "iface_at iface w \<noteq> None"
    and "parse_segment (ip_part q) (visible q) = Some \<lparr>s_src_ip = rip, s_dst_ip = lip, s_src_port = rport, s_dst_port = lport,
      s_seq = m, s_ack = 1, s_flags = TCP_FLAG_ACK, s_len = 0\<rparr>"
    and "i < TCP_MAX_CONNS" "tt_tcbs t1 ! i = synack_tcb c now (child_tcb lip lport rip rport seq l)"
  shows "\<exists>r w' y. tcp_receive rcall ccall iface pkt (VTcpCtx x) w = Some (r, w') \<and> tinv sim a w' (with_slot t1 i y) \<and>
    conn_state y = TCP_ESTABLISHED \<and> tb_snd_una y = 1 \<and> tb_snd_nxt y = 1 \<and> tb_rcv_nxt y = seq + 1 \<and> tcp_sendq_has_unacked (Some y) = 0"
proof -
  let ?y = "synack_tcb c now (child_tcb lip lport rip rport seq l)"
  have f: "tcp_find_exact (Some t1) lip lport rip rport = Some i"
    by (rule find_exact_slot [OF tinvD(4) [OF assms(1)] assms(8)]) (simp_all add: assms(9) synack_tcb_def child_tcb_def)
  obtain r w' t' where r: "tcp_receive rcall ccall iface pkt (VTcpCtx x) w = Some (r, w')" "tinv sim a w' t'"
    "t' = table_next t1 i (seg_next (r = 0) m 1 TCP_FLAG_ACK 0 ?y)"
    using tcp_receive_safe [OF assms(1-6)] by (auto simp: ends_def assms(7,9) receive_spec_def f)
  note ce = child_established [of "r = 0" m c now lip lport rip rport seq l]
  have "t' = with_slot t1 i (seg_next (r = 0) m 1 TCP_FLAG_ACK 0 ?y)" using r(3) ce(5) by (simp add: table_next_def)
  then show ?thesis using r(1,2) ce by blast
qed

lemma other_slot: "tb_valid (xs ! i) = 0 \<Longrightarrow> tb_valid (xs ! j) \<noteq> 0 \<Longrightarrow> xs[i := y] ! j = xs ! j"
  by (cases "i = j") auto



end
