(* ===== verification/Host.thy ===== *)
theory Host
  imports Tcp_Theorems
begin

text \<open>
  Hosts (\<open>network/host.h\<close>, \<open>network/host.c\<close>): a device with the protocol stack of an end system. The device is the first
  member of the C structure and lives at the address of the host; the ARP cache, the IP stack, the UDP state, the TCP table
  and the two contexts are allocated one by one, and the host keeps pointers to them.
\<close>

section \<open>State\<close>

definition HOST_MAX_PORTS :: nat where "HOST_MAX_PORTS = 8"

record Host =
  ho_interfaces :: addr
  ho_sim :: addr
  ho_arp_cache :: addr
  ho_ip_stack :: addr
  ho_udp_state :: addr
  ho_udp_context :: addr
  ho_tcp_table :: addr
  ho_tcp_context :: addr
  ho_gateway_ip :: u32

record host_world = tcp_world +
  w_hosts :: "addr \<rightharpoonup> Host"

definition host_at :: "addr \<Rightarrow> 'a host_world_scheme \<Rightarrow> Host option" where
  "host_at a w = (if a = NULL then None else w_hosts w a)"

definition host_put :: "addr \<Rightarrow> Host \<Rightarrow> 'a host_world_scheme \<Rightarrow> 'a host_world_scheme" where
  "host_put a h w = w\<lparr>w_hosts := (w_hosts w)(a \<mapsto> h)\<rparr>"

section \<open>Operations\<close>

text \<open>\<open>free\<close> of a member: \<open>NULL\<close> is ignored, and what is freed must be live.\<close>

definition free_at :: "addr \<Rightarrow> (addr \<rightharpoonup> 'b) \<Rightarrow> (addr \<rightharpoonup> 'b) option" where
  "free_at a m = (if a = NULL then Some m else if m a = None then None else Some (m(a := None)))"

definition host_free :: "addr \<Rightarrow> 'a host_world_scheme \<Rightarrow> 'a host_world_scheme option" where
  "host_free host w =
     (if host = NULL then Some w
      else do {
        h \<leftarrow> host_at host w;
        d \<leftarrow> dev_at host w;
        w \<leftarrow> (if ho_interfaces h \<noteq> NULL then free_ifaces (dev_interfaces d) w else Some w);
        caches \<leftarrow> free_at (ho_arp_cache h) (w_caches w);
        stacks \<leftarrow> free_at (ho_ip_stack h) (w_stacks w);
        udps \<leftarrow> free_at (ho_udp_state h) (w_udps w);
        tcps \<leftarrow> free_at (ho_tcp_table h) (w_tcps w);
        uctxs \<leftarrow> free_at (ho_udp_context h) (w_udp_ctxs w);
        tctxs \<leftarrow> free_at (ho_tcp_context h) (w_tcp_ctxs w);
        Some (w\<lparr>w_caches := caches, w_stacks := stacks, w_udps := udps, w_tcps := tcps, w_udp_ctxs := uctxs, w_tcp_ctxs := tctxs,
          w_hosts := (w_hosts w)(host := None), w_devs := (w_devs w)(host := None)\<rparr>)
      })"

text \<open>One of the allocations of \<open>host_create\<close>: the pointer is stored in the host, and when there is no memory the host
  is freed and creation fails.\<close>

definition host_member :: "addr \<Rightarrow> (addr \<Rightarrow> Host \<Rightarrow> Host) \<Rightarrow> 'a host_world_scheme \<Rightarrow> (addr \<times> 'a host_world_scheme) option" where
  "host_member host f w = (case alloc w of (a, w) \<Rightarrow> do {
     h \<leftarrow> host_at host w;
     let w = host_put host (f a h) w;
     if a = NULL then do { w \<leftarrow> host_free host w; Some (NULL, w) } else Some (a, w)
   })"

text \<open>One of its registrations, which frees the host when it fails.\<close>

definition host_register :: "addr \<Rightarrow> addr \<Rightarrow> u8 \<Rightarrow> IpProtocolHandler \<Rightarrow> vptr \<Rightarrow> 'a host_world_scheme \<Rightarrow> (int \<times> 'a host_world_scheme) option" where
  "host_register host stack protocol handler ctx w = do {
     (r, w) \<leftarrow> ip_stack_register_protocol stack protocol handler ctx w;
     if r \<noteq> 0 then do { w \<leftarrow> host_free host w; Some (r, w) } else Some (0, w)
   }"

definition host_protocols :: "addr \<Rightarrow> addr \<Rightarrow> addr \<Rightarrow> addr \<Rightarrow> addr \<Rightarrow> 'a host_world_scheme \<Rightarrow> (int \<times> 'a host_world_scheme) option" where
  "host_protocols host stack sim uc tc w = do {
     (r, w) \<leftarrow> host_register host stack IPPROTO_ICMP Ip_icmp_receive (VSim sim) w;
     if r \<noteq> 0 then Some (r, w) else do {
       (r, w) \<leftarrow> host_register host stack IPPROTO_UDP Ip_udp_receive (VUdpCtx uc) w;
       if r \<noteq> 0 then Some (r, w) else host_register host stack IPPROTO_TCP Ip_tcp_receive (VTcpCtx tc) w
     }
   }"

text \<open>The host after \<open>memset\<close>, with the fields set before the first allocation.\<close>

definition new_host :: "addr \<Rightarrow> Host" where
  "new_host sim = \<lparr>ho_interfaces = NULL, ho_sim = sim, ho_arp_cache = NULL, ho_ip_stack = NULL, ho_udp_state = NULL,
     ho_udp_context = NULL, ho_tcp_table = NULL, ho_tcp_context = NULL, ho_gateway_ip = 0\<rparr>"

text \<open>The argument \<open>junk\<close> is what the memory of the UDP state holds before \<open>udp_init\<close>, which does not write all of it.\<close>

definition host_create :: "UdpState \<Rightarrow> string option \<Rightarrow> addr \<Rightarrow> u32 \<Rightarrow> 'a host_world_scheme \<Rightarrow> (addr \<times> 'a host_world_scheme) option" where
  "host_create junk name sim gateway_ip w = (case name of None \<Rightarrow> Some (NULL, w) | Some nm \<Rightarrow>
     if sim = NULL then Some (NULL, w)
     else (case alloc w of (host, w) \<Rightarrow>
       if host = NULL then Some (NULL, w)
       else do {
         let w = dev_put host \<lparr>dev_name = take 31 nm, dev_interfaces = [], dev_iface_max = int HOST_MAX_PORTS\<rparr> (host_put host (new_host sim) w);
         (a, w) \<leftarrow> host_member host (\<lambda>a h. h\<lparr>ho_interfaces := a\<rparr>) w;
         if a = NULL then Some (NULL, w) else do {
           (cache, w) \<leftarrow> host_member host (\<lambda>a h. h\<lparr>ho_arp_cache := a\<rparr>) w;
           if cache = NULL then Some (NULL, w) else do {
             c \<leftarrow> arp_cache_init (Some zero_cache);
             let w = cache_put cache c w;
             (stack, w) \<leftarrow> host_member host (\<lambda>a h. h\<lparr>ho_ip_stack := a\<rparr>) w;
             if stack = NULL then Some (NULL, w) else do {
               let w = ip_stack_init stack sim w;
               (us, w) \<leftarrow> host_member host (\<lambda>a h. h\<lparr>ho_udp_state := a\<rparr>) w;
               if us = NULL then Some (NULL, w) else do {
                 u \<leftarrow> udp_init (Some junk);
                 let w = udp_put us u w;
                 (table, w) \<leftarrow> host_member host (\<lambda>a h. h\<lparr>ho_tcp_table := a\<rparr>) w;
                 if table = NULL then Some (NULL, w) else do {
                   t \<leftarrow> tcp_init (Some \<lparr>tt_tcbs = [], tt_count = 0\<rparr>);
                   let w = tcp_put table t w;
                   (uc, w) \<leftarrow> host_member host (\<lambda>a h. h\<lparr>ho_udp_context := a\<rparr>) w;
                   if uc = NULL then Some (NULL, w) else do {
                     let w = w\<lparr>w_udp_ctxs := (w_udp_ctxs w)(uc \<mapsto> \<lparr>uc_sim = sim, uc_state = us\<rparr>)\<rparr>;
                     (tc, w) \<leftarrow> host_member host (\<lambda>a h. h\<lparr>ho_tcp_context := a\<rparr>) w;
                     if tc = NULL then Some (NULL, w) else do {
                       let w = w\<lparr>w_tcp_ctxs := (w_tcp_ctxs w)(tc \<mapsto> \<lparr>tx_sim = sim, tx_table = table\<rparr>)\<rparr>;
                       (r, w) \<leftarrow> host_protocols host stack sim uc tc w;
                       if r \<noteq> 0 then Some (NULL, w) else do {
                         h \<leftarrow> host_at host w;
                         Some (host, host_put host (h\<lparr>ho_gateway_ip := gateway_ip\<rparr>) w)
                       }
                     }
                   }
                 }
               }
             }
           }
         }
       }))"

definition host_add_interface :: "addr \<Rightarrow> addr \<Rightarrow> 'a host_world_scheme \<Rightarrow> (int \<times> 'a host_world_scheme) option" where
  "host_add_interface host iface w =
     (if host = NULL \<or> iface = NULL then Some (- 1, w)
      else do {
        h \<leftarrow> host_at host w;
        d \<leftarrow> dev_at host w;
        if ho_ip_stack h = NULL \<or> ho_arp_cache h = NULL then Some (- 1, w)
        else if dev_iface_max d \<le> int (length (dev_interfaces d)) then Some (- 1, w)
        else do {
          (r, w) \<leftarrow> device_add_interface host iface w;
          if r \<noteq> 0 then Some (- 1, w)
          else do {
            w \<leftarrow> interface_set_arp_cache iface (ho_arp_cache h) w;
            (_, w) \<leftarrow> ip_stack_bind_interface (ho_ip_stack h) iface w;
            Some (0, w)
          }
        }
      })"

type_synonym 'a host_pcall =
  "IpProtocolHandler \<Rightarrow> addr \<Rightarrow> addr \<Rightarrow> vptr \<Rightarrow> 'a host_world_scheme \<Rightarrow> (int \<times> 'a host_world_scheme) option"

definition host_receive :: "'a host_pcall \<Rightarrow> addr \<Rightarrow> addr \<Rightarrow> addr \<Rightarrow> u16 \<Rightarrow> 'a host_world_scheme \<Rightarrow> (int \<times> 'a host_world_scheme) option" where
  "host_receive pcall host iface pkt ethertype w =
     (if host = NULL \<or> iface = NULL \<or> pkt = NULL then Some (- 1, w)
      else do {
        h \<leftarrow> host_at host w;
        if ho_ip_stack h = NULL then Some (- 1, w)
        else if ethertype \<noteq> ETHERTYPE_IPV4 then do { w \<leftarrow> packet_free pkt w; Some (- 1, w) }
        else ip_receive pcall iface pkt ethertype (VStack (ho_ip_stack h)) w
      })"

definition host_send_ip :: "addr \<Rightarrow> u32 \<Rightarrow> u32 \<Rightarrow> u8 \<Rightarrow> addr \<Rightarrow> 'a host_world_scheme \<Rightarrow> (int \<times> 'a host_world_scheme) option" where
  "host_send_ip host src_ip dst_ip protocol payload w =
     (if host = NULL then Some (- 1, w)
      else do {
        h \<leftarrow> host_at host w;
        if ho_sim h = NULL then Some (- 1, w)
        else if payload = NULL then Some (- 1, w)
        else if src_ip = 0 \<or> dst_ip = 0 then Some (- 1, w)
        else ip_output (ho_sim h) src_ip dst_ip protocol payload w
      })"

text \<open>The handlers that hosts register, called through the protocol stack; those of clients are parameters.\<close>

definition host_pcall :: "(Udp_Recv_Handler \<Rightarrow> addr \<Rightarrow> u32 \<Rightarrow> u16 \<Rightarrow> addr \<Rightarrow> vptr \<Rightarrow> 'a host_world_scheme \<Rightarrow> 'a host_world_scheme option) \<Rightarrow>
    (TcpRecvHandler \<Rightarrow> addr \<times> nat \<Rightarrow> addr \<Rightarrow> vptr \<Rightarrow> 'a host_world_scheme \<Rightarrow> 'a host_world_scheme option) \<Rightarrow>
    (TcpConnectHandler \<Rightarrow> addr \<times> nat \<Rightarrow> vptr \<Rightarrow> 'a host_world_scheme \<Rightarrow> 'a host_world_scheme option) \<Rightarrow> 'a host_pcall \<Rightarrow> 'a host_pcall" where
  "host_pcall ucall rcall ccall other h iface pkt ctx w = (case h of
     Ip_icmp_receive \<Rightarrow> icmp_receive iface pkt ctx w
   | Ip_udp_receive \<Rightarrow> udp_receive ucall iface pkt ctx w
   | Ip_tcp_receive \<Rightarrow> tcp_receive rcall ccall iface pkt ctx w
   | _ \<Rightarrow> other h iface pkt ctx w)"

section \<open>Creation\<close>

text \<open>No live object lies above the addresses that were handed out.\<close>

definition fresh_above :: "'a host_world_scheme \<Rightarrow> bool" where
  "fresh_above w \<longleftrightarrow> (\<forall>a > mem_next (w_mem w). w_devs w a = None \<and> w_caches w a = None \<and> w_stacks w a = None \<and> w_udps w a = None \<and>
     w_udp_ctxs w a = None \<and> w_tcps w a = None \<and> w_tcp_ctxs w a = None \<and> w_hosts w a = None)"

text \<open>A member that is not allocated yet, or that is live and was not there before.\<close>

definition owned :: "addr \<Rightarrow> (addr \<rightharpoonup> 'b) \<Rightarrow> (addr \<rightharpoonup> 'b) \<Rightarrow> bool" where
  "owned a m m0 \<longleftrightarrow> (if a = NULL then m = m0 else m a \<noteq> None \<and> m(a := None) = m0)"

lemma owned_free: "owned a m m0 \<Longrightarrow> free_at a m = Some m0"
  by (auto simp: owned_def free_at_def split: if_splits)

lemma owned_new: "owned NULL m m0 \<Longrightarrow> m0 a = None \<Longrightarrow> owned a (m(a \<mapsto> x)) m0" if "a \<noteq> NULL"
  using that by (auto simp: owned_def)

text \<open>A host under construction in \<open>w\<close>, begun in \<open>w0\<close>: freeing it gives \<open>w0\<close> back.\<close>

definition building :: "'a host_world_scheme \<Rightarrow> addr \<Rightarrow> Host \<Rightarrow> string \<Rightarrow> 'a host_world_scheme \<Rightarrow> bool" where
  "building w0 host h nm w \<longleftrightarrow> host \<noteq> NULL \<and> w_hosts w host = Some h \<and>
     w_devs w host = Some \<lparr>dev_name = take 31 nm, dev_interfaces = [], dev_iface_max = 8\<rparr> \<and>
     (w_hosts w)(host := None) = w_hosts w0 \<and> (w_devs w)(host := None) = w_devs w0 \<and>
     owned (ho_arp_cache h) (w_caches w) (w_caches w0) \<and> owned (ho_ip_stack h) (w_stacks w) (w_stacks w0) \<and>
     owned (ho_udp_state h) (w_udps w) (w_udps w0) \<and> owned (ho_tcp_table h) (w_tcps w) (w_tcps w0) \<and>
     owned (ho_udp_context h) (w_udp_ctxs w) (w_udp_ctxs w0) \<and> owned (ho_tcp_context h) (w_tcp_ctxs w) (w_tcp_ctxs w0) \<and>
     fresh_above w0 \<and> mem_next (w_mem w0) \<le> mem_next (w_mem w) \<and> (mem_oom (w_mem w0) = [] \<longrightarrow> mem_oom (w_mem w) = []) \<and>
     w\<lparr>w_mem := w_mem w0, w_devs := w_devs w0, w_caches := w_caches w0, w_stacks := w_stacks w0, w_udps := w_udps w0,
       w_udp_ctxs := w_udp_ctxs w0, w_tcps := w_tcps w0, w_tcp_ctxs := w_tcp_ctxs w0, w_hosts := w_hosts w0\<rparr> = w0"

lemma building_free:
  assumes "building w0 host h nm w"
  shows "host_free host w = Some (w0\<lparr>w_mem := w_mem w\<rparr>)"
proof -
  have e: "w0\<lparr>w_mem := w_mem w\<rparr> = w\<lparr>w_devs := w_devs w0, w_caches := w_caches w0, w_stacks := w_stacks w0, w_udps := w_udps w0,
       w_udp_ctxs := w_udp_ctxs w0, w_tcps := w_tcps w0, w_tcp_ctxs := w_tcp_ctxs w0, w_hosts := w_hosts w0\<rparr>"
    using assms unfolding building_def by (cases w; cases w0) simp
  have f: "free_at (ho_arp_cache h) (w_caches w) = Some (w_caches w0)" "free_at (ho_ip_stack h) (w_stacks w) = Some (w_stacks w0)"
    "free_at (ho_udp_state h) (w_udps w) = Some (w_udps w0)" "free_at (ho_tcp_table h) (w_tcps w) = Some (w_tcps w0)"
    "free_at (ho_udp_context h) (w_udp_ctxs w) = Some (w_udp_ctxs w0)" "free_at (ho_tcp_context h) (w_tcp_ctxs w) = Some (w_tcp_ctxs w0)"
    using assms by (simp_all add: building_def owned_free)
  have d: "host \<noteq> NULL" "host_at host w = Some h" "dev_at host w = Some \<lparr>dev_name = take 31 nm, dev_interfaces = [], dev_iface_max = 8\<rparr>"
    "(w_hosts w)(host := None) = w_hosts w0" "(w_devs w)(host := None) = w_devs w0"
    using assms by (simp_all add: building_def host_at_def dev_at_def)
  show ?thesis unfolding e using f d by (simp add: host_free_def)
qed

lemma building_alloc:
  assumes "building w0 host h nm w" "alloc w = (a, w')"
  shows "building w0 host h nm w'" "a \<noteq> NULL \<Longrightarrow> mem_next (w_mem w0) < a" "w' = w\<lparr>w_mem := w_mem w'\<rparr>"
proof -
  obtain m where m: "malloc (w_mem w) = (a, m)" "w' = w\<lparr>w_mem := m\<rparr>" using assms(2) by (auto simp: alloc_def split: prod.splits)
  show "w' = w\<lparr>w_mem := w_mem w'\<rparr>" using m(2) by simp
  have "mem_oom (w_mem w) = [] \<longrightarrow> mem_oom m = []" using m(1) by (auto simp: malloc_def)
  then show "building w0 host h nm w'" using assms(1) malloc_next_mono [OF m(1)] unfolding building_def m(2) by (cases w; cases w0) simp
  show "a \<noteq> NULL \<Longrightarrow> mem_next (w_mem w0) < a" using malloc_fresh [OF m(1)] assms(1) by (auto simp: building_def)
qed

text \<open>What an allocation of a member leads to.\<close>

lemma host_member_cases:
  assumes "building w0 host h nm w" "f NULL h = h"
  obtains m where "host_member host f w = Some (NULL, w0\<lparr>w_mem := m\<rparr>)" "mem_oom (w_mem w0) \<noteq> []"
  | a w' where "host_member host f w = Some (a, host_put host (f a h) w')" "a \<noteq> NULL" "mem_next (w_mem w0) < a" "building w0 host h nm w'"
      "w' = w\<lparr>w_mem := w_mem w'\<rparr>"
proof -
  obtain a w' where al: "alloc w = (a, w')" by fastforce
  note b = building_alloc [OF assms(1) al]
  have at: "host_at host w' = Some h" using b(1) by (simp add: building_def host_at_def)
  have oom: "mem_oom (w_mem w0) = [] \<Longrightarrow> a \<noteq> NULL" using al assms(1) by (auto simp: alloc_def malloc_def building_def)
  show thesis
  proof (cases "a = NULL")
    case True
    have "host_put host h w' = w'" using at by (simp add: host_put_def host_at_def fun_upd_idem split: if_splits)
    then have "host_member host f w = Some (NULL, w0\<lparr>w_mem := w_mem w'\<rparr>)"
      using al at True assms(2) building_free [OF b(1)] by (simp add: host_member_def)
    then show thesis using that(1) oom True by blast
  next
    case False
    show thesis by (rule that(2) [OF _ False b(2) [OF False] b(1,3)]) (use al at False in \<open>simp_all add: host_member_def\<close>)
  qed
qed

lemma fresh_aboveD:
  assumes "fresh_above w" "mem_next (w_mem w) < a"
  shows "w_devs w a = None" "w_caches w a = None" "w_stacks w a = None" "w_udps w a = None" "w_udp_ctxs w a = None" "w_tcps w a = None"
    "w_tcp_ctxs w a = None" "w_hosts w a = None"
  using assms by (simp_all add: fresh_above_def)

lemma building_fresh:
  assumes "building w0 host h nm w" "mem_next (w_mem w0) < a"
  shows "w_caches w0 a = None" "w_stacks w0 a = None" "w_udps w0 a = None" "w_udp_ctxs w0 a = None" "w_tcps w0 a = None" "w_tcp_ctxs w0 a = None" "a \<noteq> NULL"
  using fresh_aboveD [of w0 a] assms by (auto simp: building_def)

text \<open>Storing a member in a host under construction.\<close>

lemma building_stores:
  assumes "building w0 host h nm w" "mem_next (w_mem w0) < a"
  shows "building w0 host (h\<lparr>ho_interfaces := a\<rparr>) nm (host_put host (h\<lparr>ho_interfaces := a\<rparr>) w)"
    "ho_arp_cache h = NULL \<Longrightarrow> building w0 host (h\<lparr>ho_arp_cache := a\<rparr>) nm (cache_put a c (host_put host (h\<lparr>ho_arp_cache := a\<rparr>) w))"
    "ho_ip_stack h = NULL \<Longrightarrow> building w0 host (h\<lparr>ho_ip_stack := a\<rparr>) nm (stack_put a s (host_put host (h\<lparr>ho_ip_stack := a\<rparr>) w))"
    "ho_udp_state h = NULL \<Longrightarrow> building w0 host (h\<lparr>ho_udp_state := a\<rparr>) nm (udp_put a u (host_put host (h\<lparr>ho_udp_state := a\<rparr>) w))"
    "ho_tcp_table h = NULL \<Longrightarrow> building w0 host (h\<lparr>ho_tcp_table := a\<rparr>) nm (tcp_put a t (host_put host (h\<lparr>ho_tcp_table := a\<rparr>) w))"
  using assms(1) building_fresh [OF assms] unfolding building_def host_put_def cache_put_def stack_put_def udp_put_def tcp_put_def
  by (simp_all add: owned_new)

lemma building_contexts:
  assumes "building w0 host h nm w" "mem_next (w_mem w0) < a"
  defines "v \<equiv> host_put host (h\<lparr>ho_udp_context := a\<rparr>) w" and "v' \<equiv> host_put host (h\<lparr>ho_tcp_context := a\<rparr>) w"
  shows "ho_udp_context h = NULL \<Longrightarrow> building w0 host (h\<lparr>ho_udp_context := a\<rparr>) nm (v\<lparr>w_udp_ctxs := (w_udp_ctxs v)(a \<mapsto> uc)\<rparr>)"
    "ho_tcp_context h = NULL \<Longrightarrow> building w0 host (h\<lparr>ho_tcp_context := a\<rparr>) nm (v'\<lparr>w_tcp_ctxs := (w_tcp_ctxs v')(a \<mapsto> tc)\<rparr>)"
  using assms(1) building_fresh [OF assms(1,2)] unfolding building_def host_put_def v_def v'_def
  by (simp_all add: owned_new)

lemma building_begin:
  assumes "alloc w0 = (host, w1)" "host \<noteq> NULL" "fresh_above w0"
  shows "building w0 host (new_host sim) nm (dev_put host \<lparr>dev_name = take 31 nm, dev_interfaces = [], dev_iface_max = int HOST_MAX_PORTS\<rparr> (host_put host (new_host sim) w1))"
proof -
  obtain m where m: "malloc (w_mem w0) = (host, m)" "w1 = w0\<lparr>w_mem := m\<rparr>" using assms(1) by (auto simp: alloc_def split: prod.splits)
  have "mem_next (w_mem w0) < host" "mem_next (w_mem w0) \<le> mem_next m" "mem_oom (w_mem w0) = [] \<longrightarrow> mem_oom m = []"
    using malloc_fresh [OF m(1) assms(2)] m(1) by (auto simp: malloc_def)
  with fresh_aboveD [OF assms(3) this(1)] assms(2,3) show ?thesis
    unfolding building_def m(2) by (simp add: host_put_def dev_put_def new_host_def owned_def HOST_MAX_PORTS_def fun_upd_idem)
qed

text \<open>Well-formed hosts: the members are live and well formed, the contexts lead from the stack to the states of UDP and
  TCP, and every interface resolves with the cache of the host and delivers to its stack.\<close>

definition host_wf :: "'a host_world_scheme \<Rightarrow> addr \<Rightarrow> bool" where
  "host_wf w host \<longleftrightarrow> (\<exists>h d c s u t. host_at host w = Some h \<and> ho_sim h \<noteq> NULL \<and> dev_wf w host \<and> dev_at host w = Some d \<and>
     dev_iface_max d = int HOST_MAX_PORTS \<and>
     (\<forall>a \<in> set (dev_interfaces d). \<exists>i. iface_at a w = Some i \<and> if_arp_cache i = ho_arp_cache h \<and> if_rx_handler i = Rx_ip_rx_shim \<and>
        if_handler_ctx i = VStack (ho_ip_stack h)) \<and>
     cache_at (ho_arp_cache h) w = Some c \<and> arp_cache_wf c \<and>
     stack_at (ho_ip_stack h) w = Some s \<and> st_sim s = ho_sim h \<and> length (st_protocols s) = 256 \<and>
     st_protocols s ! unat IPPROTO_ICMP = \<lparr>pe_handler = Ip_icmp_receive, pe_ctx = VSim (ho_sim h)\<rparr> \<and>
     st_protocols s ! unat IPPROTO_UDP = \<lparr>pe_handler = Ip_udp_receive, pe_ctx = VUdpCtx (ho_udp_context h)\<rparr> \<and>
     st_protocols s ! unat IPPROTO_TCP = \<lparr>pe_handler = Ip_tcp_receive, pe_ctx = VTcpCtx (ho_tcp_context h)\<rparr> \<and>
     udp_ctx_at (ho_udp_context h) w = Some \<lparr>uc_sim = ho_sim h, uc_state = ho_udp_state h\<rparr> \<and> udp_at (ho_udp_state h) w = Some u \<and> udp_wf u \<and>
     tcp_ctx_at (ho_tcp_context h) w = Some \<lparr>tx_sim = ho_sim h, tx_table = ho_tcp_table h\<rparr> \<and> tcp_at (ho_tcp_table h) w = Some t \<and> table_wf t)"

lemma udp_init_wf:
  assumes "length (ud_sockets junk) = UDP_MAX_SOCKETS"
  shows "\<exists>u. udp_init (Some junk) = Some u \<and> udp_wf u"
  using assms by (simp add: udp_init_def udp_wf_def socks.unique_def socks.live_count_def)

text \<open>The registrations cannot fail.\<close>

definition host_stack :: "addr \<Rightarrow> addr \<Rightarrow> addr \<Rightarrow> IpStack" where
  "host_stack sim uc tc = \<lparr>st_sim = sim, st_protocols = (replicate 256 \<lparr>pe_handler = Ip_NULL, pe_ctx = VNull\<rparr>)
     [1 := \<lparr>pe_handler = Ip_icmp_receive, pe_ctx = VSim sim\<rparr>, 17 := \<lparr>pe_handler = Ip_udp_receive, pe_ctx = VUdpCtx uc\<rparr>,
      6 := \<lparr>pe_handler = Ip_tcp_receive, pe_ctx = VTcpCtx tc\<rparr>]\<rparr>"

lemma host_protocols_ok:
  assumes "stack_at stack w = Some \<lparr>st_sim = sim, st_protocols = replicate 256 \<lparr>pe_handler = Ip_NULL, pe_ctx = VNull\<rparr>\<rparr>"
  shows "host_protocols host stack sim uc tc w = Some (0, stack_put stack (host_stack sim uc tc) w)"
proof -
  have nn: "stack \<noteq> NULL" by (rule stack_at_nonnull [OF assms])
  have put: "stack_put stack x (stack_put stack y w) = stack_put stack x w" "stack_at stack (stack_put stack y w) = Some y" for x y
    using nn by (simp_all add: stack_put_def stack_at_def)
  show ?thesis using assms nn put
    by (simp add: host_protocols_def host_register_def ip_stack_register_protocol_def host_stack_def IPPROTO_ICMP_def IPPROTO_UDP_def IPPROTO_TCP_def)
qed

text \<open>The frame of the heaps of a host under the stores of its members.\<close>

lemma host_heaps [simp]:
  "host_at b (host_put a h w) = (if b = a \<and> a \<noteq> NULL then Some h else host_at b w)" "dev_at b (host_put a h w) = dev_at b w"
  "cache_at b (host_put a h w) = cache_at b w" "stack_at b (host_put a h w) = stack_at b w" "udp_at b (host_put a h w) = udp_at b w"
  "udp_ctx_at b (host_put a h w) = udp_ctx_at b w" "tcp_at b (host_put a h w) = tcp_at b w" "tcp_ctx_at b (host_put a h w) = tcp_ctx_at b w"
  "iface_at b (host_put a h w) = iface_at b w"
  by (simp_all add: host_at_def host_put_def dev_at_def cache_at_def stack_at_def udp_at_def udp_ctx_at_def tcp_at_def tcp_ctx_at_def iface_at_def)

text \<open>The end of creation, when all members are there.\<close>

definition same_network :: "'a host_world_scheme \<Rightarrow> 'a host_world_scheme \<Rightarrow> bool" where
  "same_network w w' \<longleftrightarrow> w_pkts w' = w_pkts w \<and> w_scheds w' = w_scheds w \<and> w_ifaces w' = w_ifaces w \<and> w_links w' = w_links w \<and>
     w_topos w' = w_topos w \<and> w_sims w' = w_sims w"

lemma building_network:
  assumes "building w0 host h nm w"
  shows "same_network w0 w"
proof -
  have "w\<lparr>w_mem := w_mem w0, w_devs := w_devs w0, w_caches := w_caches w0, w_stacks := w_stacks w0, w_udps := w_udps w0,
       w_udp_ctxs := w_udp_ctxs w0, w_tcps := w_tcps w0, w_tcp_ctxs := w_tcp_ctxs w0, w_hosts := w_hosts w0\<rparr> = w0" (is "?v = w0")
    using assms by (simp add: building_def)
  note e = arg_cong [OF this]
  show ?thesis using e [of w_pkts] e [of w_scheds] e [of w_ifaces] e [of w_links] e [of w_topos] e [of w_sims] by (simp add: same_network_def)
qed

definition created :: "string \<Rightarrow> addr \<Rightarrow> u32 \<Rightarrow> 'a host_world_scheme \<Rightarrow> (addr \<times> 'a host_world_scheme) option \<Rightarrow> bool" where
  "created nm sim gw w0 r \<longleftrightarrow> (\<exists>host w'. r = Some (host, w') \<and>
     (if host = NULL then mem_oom (w_mem w0) \<noteq> [] \<and> (\<exists>m. w' = w0\<lparr>w_mem := m\<rparr>)
      else host_wf w' host \<and> dev_at host w' = Some \<lparr>dev_name = take 31 nm, dev_interfaces = [], dev_iface_max = 8\<rparr> \<and>
        (\<exists>h. host_at host w' = Some h \<and> ho_gateway_ip h = gw \<and> ho_sim h = sim) \<and> same_network w0 w'))"

lemma created_fail: "mem_oom (w_mem w0) \<noteq> [] \<Longrightarrow> created nm sim gw w0 (Some (NULL, w0\<lparr>w_mem := m\<rparr>))"
  by (auto simp: created_def)

lemma host_finish:
  assumes "building w0 host h nm w" "sim \<noteq> NULL" "ho_sim h = sim"
    and "cache_at (ho_arp_cache h) w = Some c" "arp_cache_wf c" "ho_ip_stack h = stack"
    and "stack_at stack w = Some \<lparr>st_sim = sim, st_protocols = replicate 256 \<lparr>pe_handler = Ip_NULL, pe_ctx = VNull\<rparr>\<rparr>"
    and "udp_at (ho_udp_state h) w = Some u" "udp_wf u" "tcp_at (ho_tcp_table h) w = Some t" "table_wf t"
    and "udp_ctx_at (ho_udp_context h) w = Some \<lparr>uc_sim = sim, uc_state = ho_udp_state h\<rparr>" "ho_udp_context h = uc"
    and "tcp_ctx_at (ho_tcp_context h) w = Some \<lparr>tx_sim = sim, tx_table = ho_tcp_table h\<rparr>" "ho_tcp_context h = tc"
  shows "created nm sim gw w0 (do {
      (r, w) \<leftarrow> host_protocols host stack sim uc tc w;
      if r \<noteq> 0 then Some (NULL, w) else do { h \<leftarrow> host_at host w; Some (host, host_put host (h\<lparr>ho_gateway_ip := gw\<rparr>) w) } })"
proof -
  let ?w = "stack_put stack (host_stack sim uc tc) w"
  have hn: "host \<noteq> NULL" "host_at host w = Some h" "dev_at host w = Some \<lparr>dev_name = take 31 nm, dev_interfaces = [], dev_iface_max = 8\<rparr>"
    using assms(1) by (simp_all add: building_def host_at_def dev_at_def)
  have nn: "stack \<noteq> NULL" by (rule stack_at_nonnull [OF assms(7)])
  have fr: "host_at b ?w = host_at b w" "dev_at b ?w = dev_at b w" "cache_at b ?w = cache_at b w" "udp_at b ?w = udp_at b w"
    "udp_ctx_at b ?w = udp_ctx_at b w" "tcp_at b ?w = tcp_at b w" "tcp_ctx_at b ?w = tcp_ctx_at b w" "stack_at stack ?w = Some (host_stack sim uc tc)" for b
    using nn by (simp_all add: host_at_def dev_at_def cache_at_def udp_at_def udp_ctx_at_def tcp_at_def tcp_ctx_at_def stack_at_def stack_put_def)
  let ?v = "host_put host (h\<lparr>ho_gateway_ip := gw\<rparr>) ?w"
  have "host_wf ?v host" unfolding host_wf_def
    by (rule exI [of _ "h\<lparr>ho_gateway_ip := gw\<rparr>"], rule exI [of _ "\<lparr>dev_name = take 31 nm, dev_interfaces = [], dev_iface_max = 8\<rparr>"],
        rule exI [of _ c], rule exI [of _ "host_stack sim uc tc"], rule exI [of _ u], rule exI [of _ t])
       (use assms hn fr in \<open>simp add: dev_wf_def host_stack_def HOST_MAX_PORTS_def IPPROTO_ICMP_def IPPROTO_UDP_def IPPROTO_TCP_def\<close>)
  moreover have "host_at host ?v = Some (h\<lparr>ho_gateway_ip := gw\<rparr>)" "dev_at host ?v = Some \<lparr>dev_name = take 31 nm, dev_interfaces = [], dev_iface_max = 8\<rparr>"
    using hn fr by simp_all
  moreover have "same_network w0 ?v" using building_network [OF assms(1)] by (simp add: same_network_def host_put_def stack_put_def)
  ultimately show ?thesis using hn fr assms(3) host_protocols_ok [OF assms(7), of host uc tc] by (simp add: created_def)
qed

text \<open>One allocation of \<open>host_create\<close> and what follows it.\<close>

lemma member_created:
  assumes "building w0 host h nm w" "f NULL h = h"
    and "\<And>a m. mem_next (w_mem w0) < a \<Longrightarrow> building w0 host h nm (w\<lparr>w_mem := m\<rparr>) \<Longrightarrow> created nm sim gw w0 (k a (host_put host (f a h) (w\<lparr>w_mem := m\<rparr>)))"
  shows "created nm sim gw w0 (do { (a, w) \<leftarrow> host_member host f w; if a = NULL then Some (NULL, w) else k a w })"
proof (rule host_member_cases [OF assms(1), of f])
  fix m assume "host_member host f w = Some (NULL, w0\<lparr>w_mem := m\<rparr>)" "mem_oom (w_mem w0) \<noteq> []"
  then show ?thesis using created_fail by simp
next
  fix a w' assume "host_member host f w = Some (a, host_put host (f a h) w')" "a \<noteq> NULL" "mem_next (w_mem w0) < a" "building w0 host h nm w'"
    "w' = w\<lparr>w_mem := w_mem w'\<rparr>"
  then show ?thesis using assms(3) [of a "w_mem w'"] by auto
qed (rule assms(2))

lemma mem_heaps [simp]:
  "host_at b (w\<lparr>w_mem := m\<rparr>) = host_at b w" "cache_at b (wc\<lparr>w_mem := m\<rparr>) = cache_at b wc" "stack_at b (ws\<lparr>w_mem := m\<rparr>) = stack_at b ws"
  "udp_at b (wu\<lparr>w_mem := m\<rparr>) = udp_at b wu" "udp_ctx_at b (wu\<lparr>w_mem := m\<rparr>) = udp_ctx_at b wu"
  "tcp_at b (wt\<lparr>w_mem := m\<rparr>) = tcp_at b wt" "tcp_ctx_at b (wt\<lparr>w_mem := m\<rparr>) = tcp_ctx_at b wt"
  by (simp_all add: host_at_def cache_at_def stack_at_def udp_at_def udp_ctx_at_def tcp_at_def tcp_ctx_at_def)

lemma init_stack:
  assumes "building w0 host h nm w" "mem_next (w_mem w0) < a" "ho_ip_stack h = NULL"
  shows "building w0 host (h\<lparr>ho_ip_stack := a\<rparr>) nm (ip_stack_init a sim (host_put host (h\<lparr>ho_ip_stack := a\<rparr>) w))"
  using building_stores(3) [OF assms] building_fresh(7) [OF assms(1,2)] by (simp add: ip_stack_init_def)

lemma host_create_outcome:
  assumes "fresh_above w0" "sim \<noteq> NULL" "length (ud_sockets junk) = UDP_MAX_SOCKETS"
  shows "created nm sim gw w0 (host_create junk (Some nm) sim gw w0)"
proof -
  obtain u where u: "udp_init (Some junk) = Some u" "udp_wf u" using udp_init_wf [OF assms(3)] by blast
  obtain c where c: "arp_cache_init (Some zero_cache) = Some c" "arp_cache_wf c" using arp_init_wf by (simp add: arp_cache_init_def demo_arp_cache_def)
  obtain t where t: "tcp_init (Some \<lparr>tt_tcbs = [], tt_count = 0\<rparr>) = Some t" "table_wf t" using tcp_init_wf(1) by (simp add: tcp_init_def)
  obtain host w1 where al: "alloc w0 = (host, w1)" by fastforce
  show ?thesis
  proof (cases "host = NULL")
    case True
    then have "mem_oom (w_mem w0) \<noteq> []" "w1 = w0\<lparr>w_mem := w_mem w1\<rparr>" using al by (auto simp: alloc_def malloc_def split: prod.splits)
    then show ?thesis using created_fail [of w0 nm sim gw "w_mem w1"] al True assms(2) by (simp add: host_create_def)
  next
    case False
    note b1 = building_begin [OF al False assms(1), of sim nm]
    note bind = u(1) c(1) t(1) Option.bind.bind_lunit
    show ?thesis
      unfolding host_create_def al option.case prod.case if_not_P [OF assms(2)] if_not_P [OF False] Let_def bind
      apply (rule member_created [OF b1], simp add: new_host_def)
      subgoal premises p for fs m1
        apply (rule member_created [OF building_stores(1) [OF p(2,1)]], simp add: new_host_def)
        subgoal premises q for cache m2
          apply (rule member_created [OF building_stores(2) [OF q(2,1)]], simp add: new_host_def, simp add: new_host_def)
          subgoal premises r for stack m3
            apply (rule member_created [OF init_stack [OF r(2,1)]], simp add: new_host_def, simp add: new_host_def)
            subgoal premises s for us m4
              apply (rule member_created [OF building_stores(4) [OF s(2,1)]], simp add: new_host_def, simp add: new_host_def)
              subgoal premises v for table m5
                apply (rule member_created [OF building_stores(5) [OF v(2,1)]], simp add: new_host_def, simp add: new_host_def)
                subgoal premises x for uc m6
                  apply (rule member_created [OF building_contexts(1) [OF x(2,1)]], simp add: new_host_def, simp add: new_host_def)
                  subgoal premises y for tc m7
                    apply (rule host_finish [OF building_contexts(2) [OF y(2,1)] assms(2) _ _ c(2) _ _ _ u(2) _ t(2)])
                    using building_fresh(7) [OF p(2,1)] building_fresh(7) [OF q(2,1)] building_fresh(7) [OF r(2,1)] building_fresh(7) [OF s(2,1)]
                      building_fresh(7) [OF v(2,1)] building_fresh(7) [OF x(2,1)] building_fresh(7) [OF y(2,1)]
                    by (simp_all add: new_host_def ip_stack_init_def cache_at_def cache_put_def stack_at_def stack_put_def udp_at_def udp_put_def
                        tcp_at_def tcp_put_def udp_ctx_at_def tcp_ctx_at_def host_put_def dev_put_def)
                  done
                done
              done
            done
          done
        done
      done
  qed
qed

section \<open>Interfaces\<close>

lemma host_add_interface_outcome:
  assumes "host_wf w host" "host_at host w = Some h" "dev_at host w = Some d" "iface_at iface w = Some i"
  shows "\<exists>r w'. host_add_interface host iface w = Some (r, w') \<and> host_wf w' host \<and>
    (if length (dev_interfaces d) < HOST_MAX_PORTS \<and> (\<forall>a \<in> set (dev_interfaces d). if_name (the (iface_at a w)) \<noteq> if_name i)
     then r = 0 \<and> dev_at host w' = Some (d\<lparr>dev_interfaces := dev_interfaces d @ [iface]\<rparr>) \<and>
       iface_at iface w' = Some (i\<lparr>if_device := host, if_arp_cache := ho_arp_cache h, if_rx_handler := Rx_ip_rx_shim, if_handler_ctx := VStack (ho_ip_stack h)\<rparr>)
     else r = - 1 \<and> w' = w)"
proof -
  from assms(1-3) have dw: "dev_wf w host" and mx: "dev_iface_max d = 8" and st: "ho_ip_stack h \<noteq> NULL" "ho_arp_cache h \<noteq> NULL"
    by (auto simp: host_wf_def HOST_MAX_PORTS_def stack_at_def cache_at_def split: if_splits)
  have nn: "host \<noteq> NULL" "iface \<noteq> NULL" using assms(2,4) by (auto simp: host_at_def iface_at_nonnull split: if_splits)
  from device_add_interface_wf [OF dw assms(3,4)] obtain q w1 where a: "device_add_interface host iface w = Some (q, w1)" "dev_wf w1 host"
    "if int (length (dev_interfaces d)) < dev_iface_max d \<and> list_all (\<lambda>a. if_name (the (iface_at a w)) \<noteq> if_name i) (dev_interfaces d)
     then q = 0 \<and> dev_at host w1 = Some (d\<lparr>dev_interfaces := dev_interfaces d @ [iface]\<rparr>) \<and>
       iface_at iface w1 = Some (i\<lparr>if_device := host\<rparr>) else q = - 1 \<and> w1 = w" by blast
  show ?thesis
  proof (cases "length (dev_interfaces d) < HOST_MAX_PORTS \<and> (\<forall>a \<in> set (dev_interfaces d). if_name (the (iface_at a w)) \<noteq> if_name i)")
    case False
    then have "host_add_interface host iface w = Some (- 1, w)" using a(1,3) assms(2,3) st nn mx
      by (auto simp: host_add_interface_def HOST_MAX_PORTS_def list_all_iff split: if_splits)
    then show ?thesis using False assms(1) by auto
  next
    case True
    let ?d = "d\<lparr>dev_interfaces := dev_interfaces d @ [iface]\<rparr>" and ?i = "i\<lparr>if_device := host\<rparr>"
    let ?j = "?i\<lparr>if_arp_cache := ho_arp_cache h, if_rx_handler := Rx_ip_rx_shim, if_handler_ctx := VStack (ho_ip_stack h)\<rparr>"
    have new: "q = 0" "dev_at host w1 = Some ?d" "iface_at iface w1 = Some ?i" "iface \<notin> set (dev_interfaces d)"
      using a(3) True assms(4) mx by (auto simp: list_all_iff HOST_MAX_PORTS_def)
    have w1: "w1 = dev_put host ?d (iface_put iface ?i w)"
      using a(1) new(1) assms(3,4) nn by (auto simp: device_add_interface_def split: if_splits bind_splits)
    let ?w = "iface_put iface ?j w1"
    have r: "host_add_interface host iface w = Some (0, ?w)" using a(1) new assms(2,3) st nn True mx
      by (simp add: host_add_interface_def interface_set_arp_cache_def ip_stack_bind_interface_def interface_set_rx_handler_def if_nonnull_def
          iface_upd_def iface_put_twice HOST_MAX_PORTS_def)
    have at: "dev_at host ?w = Some ?d" "\<And>b. host_at b ?w = host_at b w" "\<And>b. cache_at b ?w = cache_at b w" "\<And>b. stack_at b ?w = stack_at b w"
      "\<And>b. udp_at b ?w = udp_at b w" "\<And>b. udp_ctx_at b ?w = udp_ctx_at b w" "\<And>b. tcp_at b ?w = tcp_at b w" "\<And>b. tcp_ctx_at b ?w = tcp_ctx_at b w"
      "\<And>b. iface_at b ?w = (if b = iface then Some ?j else iface_at b w)"
      unfolding w1 using nn by (simp_all add: host_at_def cache_at_def stack_at_def udp_at_def udp_ctx_at_def tcp_at_def tcp_ctx_at_def iface_put_def dev_put_def dev_at_def iface_at_def)
    have nm: "if_name (the (iface_at b ?w)) = if_name (the (iface_at b w1))" for b using new(3) nn(2) by simp
    have dv: "\<exists>j. iface_at b ?w = Some j \<and> if_device j = host" if "iface_at b w1 = Some k" "if_device k = host" for b k
      using that new(3) nn(2) by simp
    have "dev_wf ?w host" using a(2) new(2) at(1) dv unfolding dev_wf_def by (auto simp: nm)
    then have "host_wf ?w host" using assms(1-3) at new(4) unfolding host_wf_def by auto
    then show ?thesis using r True at(1,9) by simp
  qed
qed

section \<open>What hosts promise\<close>

text \<open>C34. Creating a host, on every branch. When one of its eight allocations fails, creation returns \<open>NULL\<close> and
  everything it had allocated is freed again: the world differs only in the state of the allocator. Otherwise, and always
  when memory suffices, the host is well formed, without interfaces and with the given gateway, and ICMP, UDP and TCP are
  registered with contexts that lead to its own states; the network around it is as it was. Adding an interface keeps the
  host well formed; it succeeds exactly when fewer than eight are there and the name is new, and then the interface
  resolves with the ARP cache of the host and delivers to its stack.\<close>

theorem host_create_correct:
  assumes "fresh_above w0" "sim \<noteq> NULL" "length (ud_sockets junk) = UDP_MAX_SOCKETS"
  shows "\<exists>host w'. host_create junk (Some nm) sim gw w0 = Some (host, w') \<and>
    (if host = NULL then mem_oom (w_mem w0) \<noteq> [] \<and> (\<exists>m. w' = w0\<lparr>w_mem := m\<rparr>)
     else host_wf w' host \<and> same_network w0 w' \<and>
       (\<forall>iface i. iface_at iface w' = Some i \<longrightarrow> (\<exists>w'' h. host_add_interface host iface w' = Some (0, w'') \<and> host_wf w'' host \<and>
          host_at host w' = Some h \<and> ho_gateway_ip h = gw \<and> dev_at host w'' = Some \<lparr>dev_name = take 31 nm, dev_interfaces = [iface], dev_iface_max = 8\<rparr> \<and>
          iface_at iface w'' = Some (i\<lparr>if_device := host, if_arp_cache := ho_arp_cache h, if_rx_handler := Rx_ip_rx_shim, if_handler_ctx := VStack (ho_ip_stack h)\<rparr>))))"
proof -
  obtain host w' where c: "host_create junk (Some nm) sim gw w0 = Some (host, w')"
    "if host = NULL then mem_oom (w_mem w0) \<noteq> [] \<and> (\<exists>m. w' = w0\<lparr>w_mem := m\<rparr>)
      else host_wf w' host \<and> dev_at host w' = Some \<lparr>dev_name = take 31 nm, dev_interfaces = [], dev_iface_max = 8\<rparr> \<and>
        (\<exists>h. host_at host w' = Some h \<and> ho_gateway_ip h = gw \<and> ho_sim h = sim) \<and> same_network w0 w'"
    using host_create_outcome [OF assms, of nm gw] unfolding created_def by blast
  show ?thesis
  proof (cases "host = NULL")
    case False
    then obtain h where h: "host_wf w' host" "dev_at host w' = Some \<lparr>dev_name = take 31 nm, dev_interfaces = [], dev_iface_max = 8\<rparr>"
      "host_at host w' = Some h" "ho_gateway_ip h = gw" "same_network w0 w'" using c(2) by auto
    have "\<exists>w''. host_add_interface host iface w' = Some (0, w'') \<and> host_wf w'' host \<and>
        dev_at host w'' = Some \<lparr>dev_name = take 31 nm, dev_interfaces = [iface], dev_iface_max = 8\<rparr> \<and>
        iface_at iface w'' = Some (i\<lparr>if_device := host, if_arp_cache := ho_arp_cache h, if_rx_handler := Rx_ip_rx_shim, if_handler_ctx := VStack (ho_ip_stack h)\<rparr>)"
      if "iface_at iface w' = Some i" for iface i
      using host_add_interface_outcome [OF h(1,3,2) that] by (simp add: HOST_MAX_PORTS_def)
    then show ?thesis using c(1) h False by (intro exI [of _ host] exI [of _ w']) simp
  qed (use c in auto)
qed


section \<open>Instances\<close>

definition demo_host_world :: host_world where
  "demo_host_world = tcp_world.extend (demo_tcp_world (demo_tcp_table demo_listener)) \<lparr>w_hosts = Map.empty\<rparr>"

lemma demo_host_parts:
  "fresh_above demo_host_world" "mem_oom (w_mem demo_host_world) = []" "w_pkts demo_host_world 4 = Some (demo_segment 500 0 TCP_FLAG_SYN)"
  "w_ifaces demo_host_world 2 = Some demo_port" "w_sims demo_host_world 7 = Some \<lparr>sim_topo = 8, sim_sched = 5, sim_end_time = 0\<rparr>"
  "w_scheds demo_host_world 5 = Some demo_sched"
  by (simp_all add: demo_host_world_def demo_tcp_world_def tcp_world.defs fresh_above_def)

definition demo_junk :: UdpState where
  "demo_junk = \<lparr>ud_sockets = replicate 32 \<lparr>us_port = 9, us_valid = 5, us_recv_handler = Udp_NULL, us_ctx = VNull\<rparr>, ud_count = 77\<rparr>"

lemma demo_junk_length: "length (ud_sockets demo_junk) = UDP_MAX_SOCKETS"
  by (simp add: demo_junk_def UDP_MAX_SOCKETS_def)

lemma host_create_correct_witness:
  "\<exists>host w' w''. host_create demo_junk (Some ''H2'') 7 0x0A000001 demo_host_world = Some (host, w') \<and> host_wf w' host \<and>
     host_add_interface host 2 w' = Some (0, w'') \<and> host_wf w'' host"
proof -
  have seven: "(7::addr) \<noteq> NULL" by simp
  show ?thesis
  proof (rule exE [OF host_create_correct [OF demo_host_parts(1) seven demo_junk_length, of "''H2''" "0x0A000001"]], elim exE conjE)
    fix host w'
    assume c: "host_create demo_junk (Some ''H2'') 7 0x0A000001 demo_host_world = Some (host, w')"
      and if_null: "if host = NULL then mem_oom (w_mem demo_host_world) \<noteq> [] \<and> (\<exists>m. w' = demo_host_world\<lparr>w_mem := m\<rparr>)
        else host_wf w' host \<and> same_network demo_host_world w' \<and>
         (\<forall>iface i. iface_at iface w' = Some i \<longrightarrow> (\<exists>w'' h. host_add_interface host iface w' = Some (0, w'') \<and> host_wf w'' host \<and>
          host_at host w' = Some h \<and> ho_gateway_ip h = 0x0A000001 \<and> dev_at host w'' = Some \<lparr>dev_name = take 31 ''H2'', dev_interfaces = [iface], dev_iface_max = 8\<rparr> \<and>
          iface_at iface w'' = Some (i\<lparr>if_device := host, if_arp_cache := ho_arp_cache h, if_rx_handler := Rx_ip_rx_shim, if_handler_ctx := VStack (ho_ip_stack h)\<rparr>)))"
    have host: "host \<noteq> NULL" using if_null demo_host_parts(2) by (auto split: if_splits)
    note made = if_null [unfolded if_not_P [OF host]]
    have "iface_at 2 w' = Some demo_port" using made demo_host_parts(4) by (simp add: same_network_def iface_at_def)
    then obtain w'' where "host_add_interface host 2 w' = Some (0, w'') \<and> host_wf w'' host" using made by blast
    then show ?thesis using c made by blast
  qed
qed


end
