(* ===== verification/Ospf_Spf.thy ===== *)
theory Ospf_Spf
  imports Prelude
begin

text \<open>
  The shortest-path computation of OSPF (\<open>ospf_run_spf\<close> of \<open>protocols/ospf.c\<close>, up to the installation of routes):
  the link-state database, the array of vertices, the construction of the vertices from the database and the
  iteration of Dijkstra's algorithm. The reference are the paths of the graph that the database describes; the
  theorems say that the iteration ends and that its distances and first hops are those of shortest paths.

  The C array \<open>vertices\<close> has room for \<open>OSPF_SPF_MAX_NODES\<close> entries of which the first \<open>vertex_count\<close> are
  initialised; the model is the list of these. A loop body that may \<open>return\<close> from the function yields \<open>Inl\<close> of the
  returned value, and \<open>Inr\<close> of the array otherwise; \<open>None\<close> is an access outside an array.
\<close>

section \<open>Data\<close>

definition OSPF_LSDB_SIZE :: nat where "OSPF_LSDB_SIZE = 256"
definition OSPF_MAX_LSA_LINKS :: nat where "OSPF_MAX_LSA_LINKS = 4"
definition OSPF_INFINITY :: u32 where "OSPF_INFINITY = 0xFFFFFFFF"
definition OSPF_LSA_TYPE_ROUTER :: u8 where "OSPF_LSA_TYPE_ROUTER = 1"
definition OSPF_LINK_P2P :: u8 where "OSPF_LINK_P2P = 1"

definition OSPF_SPF_MAX_NODES :: nat where
  "OSPF_SPF_MAX_NODES = 1 + OSPF_LSDB_SIZE * (1 + OSPF_MAX_LSA_LINKS)"

record OspfLsaLink =
  ol_link_id :: u32
  ol_link_data :: u32
  ol_type :: u8
  ol_num_tos :: u8
  ol_metric :: u16

record OspfLsaEntry =
  le_lsa_id :: u32
  le_adv_router :: u32
  le_seq_num :: u32
  le_checksum :: u16
  le_lsa_type :: u8
  le_valid :: u8
  le_links :: "OspfLsaLink list"
  le_link_count :: int

record OspfSpfVertex =
  sv_router_id :: u32
  sv_distance :: u32
  sv_predecessor :: int
  sv_first_hop :: int
  sv_visited :: u8

section \<open>Vertices\<close>

definition ospf_find_spf_vertex :: "OspfSpfVertex list \<Rightarrow> u32 \<Rightarrow> int" where
  "ospf_find_spf_vertex vertices router_id =
     (case first_idx (\<lambda>v. sv_router_id v = router_id) vertices of Some i \<Rightarrow> int i | None \<Rightarrow> - 1)"

definition ospf_ensure_spf_vertex :: "OspfSpfVertex list \<Rightarrow> u32 \<Rightarrow> int \<times> OspfSpfVertex list" where
  "ospf_ensure_spf_vertex vertices router_id =
     (case first_idx (\<lambda>v. sv_router_id v = router_id) vertices of
        Some i \<Rightarrow> (int i, vertices)
      | None \<Rightarrow>
          if OSPF_SPF_MAX_NODES \<le> length vertices then (- 1, vertices)
          else (int (length vertices), vertices @ [\<lparr>sv_router_id = router_id, sv_distance = OSPF_INFINITY, sv_predecessor = - 1,
            sv_first_hop = - 1, sv_visited = 0\<rparr>]))"

definition lsa_link :: "OspfLsaEntry \<Rightarrow> nat \<Rightarrow> OspfLsaLink option" where
  "lsa_link lsa_slot j = (if j < length (le_links lsa_slot) then Some (le_links lsa_slot ! j) else None)"

definition lsa_indices :: "OspfLsaEntry \<Rightarrow> nat list" where
  "lsa_indices lsa_slot = [0..<nat (le_link_count lsa_slot)]"

fun spf_add_links :: "OspfLsaEntry \<Rightarrow> nat list \<Rightarrow> OspfSpfVertex list \<Rightarrow> (int + OspfSpfVertex list) option" where
  "spf_add_links lsa_slot [] vertices = Some (Inr vertices)"
| "spf_add_links lsa_slot (j # js) vertices = do {
     link \<leftarrow> lsa_link lsa_slot j;
     if ol_type link \<noteq> OSPF_LINK_P2P then spf_add_links lsa_slot js vertices
     else (case ospf_ensure_spf_vertex vertices (ol_link_id link) of (index, vertices) \<Rightarrow>
       if index < 0 then Some (Inl (- 1)) else spf_add_links lsa_slot js vertices)
   }"

fun spf_build :: "OspfLsaEntry list \<Rightarrow> OspfSpfVertex list \<Rightarrow> (int + OspfSpfVertex list) option" where
  "spf_build [] vertices = Some (Inr vertices)"
| "spf_build (lsa_slot # lsdb) vertices =
     (if le_valid lsa_slot = 0 \<or> le_lsa_type lsa_slot \<noteq> OSPF_LSA_TYPE_ROUTER then spf_build lsdb vertices
      else (case ospf_ensure_spf_vertex vertices (le_adv_router lsa_slot) of (index, vertices) \<Rightarrow>
        if index < 0 then Some (Inl (- 1))
        else do {
          r \<leftarrow> spf_add_links lsa_slot (lsa_indices lsa_slot) vertices;
          case r of Inl res \<Rightarrow> Some (Inl res) | Inr vertices \<Rightarrow> spf_build lsdb vertices
        }))"

definition spf_root :: "u32 \<Rightarrow> OspfSpfVertex" where
  "spf_root router_id = \<lparr>sv_router_id = router_id, sv_distance = 0, sv_predecessor = - 1, sv_first_hop = - 1, sv_visited = 0\<rparr>"

section \<open>The iteration\<close>

text \<open>The scan for the next vertex; \<open>None\<close> is the index -1.\<close>

fun spf_select :: "OspfSpfVertex list \<Rightarrow> nat list \<Rightarrow> nat option \<Rightarrow> nat option" where
  "spf_select vertices [] selected = selected"
| "spf_select vertices (i # is) selected =
     (if sv_visited (vertices ! i) \<noteq> 0 \<or> sv_distance (vertices ! i) = OSPF_INFINITY then spf_select vertices is selected
      else if (case selected of None \<Rightarrow> True
          | Some s \<Rightarrow> sv_distance (vertices ! i) < sv_distance (vertices ! s) \<or>
              (sv_distance (vertices ! i) = sv_distance (vertices ! s) \<and> sv_router_id (vertices ! i) < sv_router_id (vertices ! s)))
        then spf_select vertices is (Some i)
      else spf_select vertices is selected)"

definition spf_relax :: "nat \<Rightarrow> OspfLsaLink \<Rightarrow> OspfSpfVertex list \<Rightarrow> int + OspfSpfVertex list" where
  "spf_relax selected link vertices =
     (let link_vertex_index = ospf_find_spf_vertex vertices (ol_link_id link); destination = vertices ! nat link_vertex_index;
          distance = sv_distance (vertices ! selected) + ucast (ol_metric link) in
      if link_vertex_index = - 1 then Inl (- 1)
      else if sv_visited destination \<noteq> 0 then Inr vertices
      else if OSPF_INFINITY - ucast (ol_metric link) \<le> sv_distance (vertices ! selected) then Inr vertices
      else if sv_distance destination \<le> distance then Inr vertices
      else if selected = 0 then
        Inr (vertices[nat link_vertex_index := destination\<lparr>sv_distance := distance, sv_predecessor := int selected,
          sv_first_hop := link_vertex_index\<rparr>])
      else if sv_first_hop (vertices ! selected) < 0 \<or> int (length vertices) \<le> sv_first_hop (vertices ! selected) then Inl (- 1)
      else Inr (vertices[nat link_vertex_index := destination\<lparr>sv_distance := distance, sv_predecessor := int selected,
          sv_first_hop := sv_first_hop (vertices ! selected)\<rparr>]))"

fun spf_relax_links :: "nat \<Rightarrow> OspfLsaEntry \<Rightarrow> nat list \<Rightarrow> OspfSpfVertex list \<Rightarrow> (int + OspfSpfVertex list) option" where
  "spf_relax_links selected lsa_slot [] vertices = Some (Inr vertices)"
| "spf_relax_links selected lsa_slot (j # js) vertices = do {
     link \<leftarrow> lsa_link lsa_slot j;
     if ol_type link \<noteq> OSPF_LINK_P2P then spf_relax_links selected lsa_slot js vertices
     else (case spf_relax selected link vertices of
         Inl res \<Rightarrow> Some (Inl res)
       | Inr vertices \<Rightarrow> spf_relax_links selected lsa_slot js vertices)
   }"

fun spf_relax_lsas :: "nat \<Rightarrow> OspfLsaEntry list \<Rightarrow> OspfSpfVertex list \<Rightarrow> (int + OspfSpfVertex list) option" where
  "spf_relax_lsas selected [] vertices = Some (Inr vertices)"
| "spf_relax_lsas selected (lsa_slot # lsdb) vertices =
     (if le_valid lsa_slot = 0 \<or> le_lsa_type lsa_slot \<noteq> OSPF_LSA_TYPE_ROUTER \<or>
         le_adv_router lsa_slot \<noteq> sv_router_id (vertices ! selected)
      then spf_relax_lsas selected lsdb vertices
      else do {
        r \<leftarrow> spf_relax_links selected lsa_slot (lsa_indices lsa_slot) vertices;
        case r of Inl res \<Rightarrow> Some (Inl res) | Inr vertices \<Rightarrow> spf_relax_lsas selected lsdb vertices
      })"

text \<open>One turn marks the selected vertex as visited, and relaxation leaves the marks alone: the number of unvisited
  vertices decreases, which ends the loop.\<close>

definition unvisited :: "OspfSpfVertex list \<Rightarrow> nat" where
  "unvisited vertices = length (filter (\<lambda>v. sv_visited v = 0) vertices)"

definition marks :: "OspfSpfVertex list \<Rightarrow> (u32 \<times> u8) list" where
  "marks vertices = map (\<lambda>v. (sv_router_id v, sv_visited v)) vertices"

lemma spf_relax_step:
  "spf_relax selected link vertices =
     (case first_idx (\<lambda>v. sv_router_id v = ol_link_id link) vertices of
        None \<Rightarrow> Inl (- 1)
      | Some k \<Rightarrow>
          let destination = vertices ! k; distance = sv_distance (vertices ! selected) + ucast (ol_metric link) in
          if sv_visited destination \<noteq> 0 then Inr vertices
          else if OSPF_INFINITY - ucast (ol_metric link) \<le> sv_distance (vertices ! selected) then Inr vertices
          else if sv_distance destination \<le> distance then Inr vertices
          else if selected = 0 then
            Inr (vertices[k := destination\<lparr>sv_distance := distance, sv_predecessor := int selected, sv_first_hop := int k\<rparr>])
          else if sv_first_hop (vertices ! selected) < 0 \<or> int (length vertices) \<le> sv_first_hop (vertices ! selected) then Inl (- 1)
          else Inr (vertices[k := destination\<lparr>sv_distance := distance, sv_predecessor := int selected,
              sv_first_hop := sv_first_hop (vertices ! selected)\<rparr>]))"
  by (simp add: spf_relax_def ospf_find_spf_vertex_def Let_def split: option.split)

lemma spf_relax_marks: "spf_relax s link vs = Inr vs' \<Longrightarrow> marks vs' = marks vs"
  by (auto simp: spf_relax_step marks_def Let_def map_update intro!: nth_equalityI simp: nth_list_update
      dest!: first_idx_lt split: option.splits if_splits)

lemma spf_relax_links_marks: "spf_relax_links s l js vs = Some (Inr vs') \<Longrightarrow> marks vs' = marks vs"
  by (induction js arbitrary: vs) (auto simp: bind_eq_Some_conv dest: spf_relax_marks split: if_splits sum.splits)

lemma spf_relax_lsas_marks: "spf_relax_lsas s db vs = Some (Inr vs') \<Longrightarrow> marks vs' = marks vs"
proof (induction db arbitrary: vs)
  case (Cons l db)
  show ?case
  proof (cases "spf_relax_links s l (lsa_indices l) vs")
    case (Some r)
    then show ?thesis using Cons by (cases r) (auto dest: spf_relax_links_marks split: if_splits)
  qed (use Cons in \<open>auto split: if_splits\<close>)
qed simp

lemma unvisited_marks: "marks vs' = marks vs \<Longrightarrow> unvisited vs' = unvisited vs"
proof -
  have "unvisited vs = length (filter (\<lambda>m. snd m = 0) (marks vs))" for vs
    by (simp add: unvisited_def marks_def filter_map comp_def)
  then show "marks vs' = marks vs \<Longrightarrow> unvisited vs' = unvisited vs" by simp
qed

lemma spf_select_unvisited:
  assumes "spf_select vs is sel = Some s" "\<forall>i \<in> set is. i < length vs"
    and "\<And>t. sel = Some t \<Longrightarrow> t < length vs \<and> sv_visited (vs ! t) = 0 \<and> sv_distance (vs ! t) \<noteq> OSPF_INFINITY"
  shows "s < length vs \<and> sv_visited (vs ! s) = 0 \<and> sv_distance (vs ! s) \<noteq> OSPF_INFINITY"
  using assms by (induction vs "is" sel rule: spf_select.induct) (simp_all split: if_splits option.splits)

function (sequential) spf_loop :: "OspfLsaEntry list \<Rightarrow> OspfSpfVertex list \<Rightarrow> (int + OspfSpfVertex list) option" where
  "spf_loop lsdb vertices =
     (case spf_select vertices [0..<length vertices] None of
        None \<Rightarrow> Some (Inr vertices)
      | Some selected \<Rightarrow>
          (case spf_relax_lsas selected lsdb (vertices[selected := (vertices ! selected)\<lparr>sv_visited := 1\<rparr>]) of
             None \<Rightarrow> None
           | Some (Inl res) \<Rightarrow> Some (Inl res)
           | Some (Inr vertices) \<Rightarrow> spf_loop lsdb vertices))"
  by pat_completeness auto
termination
proof (relation "measure (unvisited \<circ> snd)", goal_cases)
  case (2 lsdb vs s r vs')
  let ?v = "vs[s := (vs ! s)\<lparr>sv_visited := 1\<rparr>]"
  have s: "s < length vs" "sv_visited (vs ! s) = 0" using spf_select_unvisited [OF 2(1)] by simp_all
  have "unvisited vs' = unvisited ?v" using spf_relax_lsas_marks 2(2,3) unvisited_marks by blast
  also have "\<dots> < unvisited vs"
    using length_filter_update [OF s(1), of "\<lambda>v. sv_visited v = 0" "(vs ! s)\<lparr>sv_visited := 1\<rparr>"] s(2) by (simp add: unvisited_def)
  finally show ?case by simp
qed simp

declare spf_loop.simps [simp del]

text \<open>The part of \<open>ospf_run_spf\<close> up to the routes.\<close>

definition spf_vertices :: "u32 \<Rightarrow> OspfLsaEntry list \<Rightarrow> (int + OspfSpfVertex list) option" where
  "spf_vertices router_id lsdb = do {
     r \<leftarrow> spf_build lsdb [spf_root router_id];
     case r of Inl res \<Rightarrow> Some (Inl res) | Inr vertices \<Rightarrow> spf_loop lsdb vertices
   }"

section \<open>The graph of the database\<close>

definition lsa_ok :: "OspfLsaEntry \<Rightarrow> bool" where
  "lsa_ok e \<longleftrightarrow> length (le_links e) = OSPF_MAX_LSA_LINKS \<and> 0 \<le> le_link_count e \<and> le_link_count e \<le> int OSPF_MAX_LSA_LINKS"

text \<open>A point-to-point link of a router LSA.\<close>

definition ospf_edge :: "OspfLsaEntry list \<Rightarrow> u32 \<Rightarrow> u32 \<Rightarrow> nat \<Rightarrow> bool" where
  "ospf_edge lsdb u v m \<longleftrightarrow> (\<exists>e \<in> set lsdb. le_valid e \<noteq> 0 \<and> le_lsa_type e = OSPF_LSA_TYPE_ROUTER \<and> le_adv_router e = u \<and>
     (\<exists>j < nat (le_link_count e). ol_type (le_links e ! j) = OSPF_LINK_P2P \<and> ol_link_id (le_links e ! j) = v \<and>
        unat (ol_metric (le_links e ! j)) = m))"

inductive ospf_path :: "OspfLsaEntry list \<Rightarrow> u32 \<Rightarrow> u32 \<Rightarrow> nat \<Rightarrow> bool" for lsdb where
  path_nil: "ospf_path lsdb u u 0"
| path_snoc: "ospf_path lsdb u v d \<Longrightarrow> ospf_edge lsdb v x m \<Longrightarrow> ospf_path lsdb u x (d + m)"

text \<open>\<open>d\<close> is the length of a shortest path, and less than infinity.\<close>

definition ospf_distance :: "OspfLsaEntry list \<Rightarrow> u32 \<Rightarrow> u32 \<Rightarrow> nat \<Rightarrow> bool" where
  "ospf_distance lsdb u v d \<longleftrightarrow> ospf_path lsdb u v d \<and> (\<forall>d'. ospf_path lsdb u v d' \<longrightarrow> d \<le> d') \<and> d < unat OSPF_INFINITY"

text \<open>\<open>h\<close> is the first hop of a path from \<open>r\<close> to \<open>v\<close> of length \<open>d\<close>.\<close>

definition ospf_first_hop :: "OspfLsaEntry list \<Rightarrow> u32 \<Rightarrow> u32 \<Rightarrow> nat \<Rightarrow> u32 \<Rightarrow> bool" where
  "ospf_first_hop lsdb r v d h \<longleftrightarrow> (\<exists>m d'. ospf_edge lsdb r h m \<and> ospf_path lsdb h v d' \<and> d = m + d')"

lemma ospf_first_hop_snoc: "ospf_first_hop lsdb r v d h \<Longrightarrow> ospf_edge lsdb v x m \<Longrightarrow> ospf_first_hop lsdb r x (d + m) h"
  unfolding ospf_first_hop_def by (metis add.assoc path_snoc)

lemma ospf_first_hop_edge: "ospf_edge lsdb r x m \<Longrightarrow> ospf_first_hop lsdb r x m x"
  unfolding ospf_first_hop_def using path_nil by (metis add_0_right)

section \<open>Invariant of the iteration\<close>

abbreviation sv_dist :: "OspfSpfVertex list \<Rightarrow> nat \<Rightarrow> nat" where
  "sv_dist vs i \<equiv> unat (sv_distance (vs ! i))"

definition vertex_ok :: "OspfLsaEntry list \<Rightarrow> u32 \<Rightarrow> OspfSpfVertex list \<Rightarrow> nat \<Rightarrow> bool" where
  "vertex_ok lsdb r vs i \<longleftrightarrow> (sv_distance (vs ! i) \<noteq> OSPF_INFINITY \<longrightarrow> ospf_path lsdb r (sv_router_id (vs ! i)) (sv_dist vs i) \<and>
     (i \<noteq> 0 \<longrightarrow> (\<exists>h < length vs. sv_first_hop (vs ! i) = int h \<and>
        ospf_first_hop lsdb r (sv_router_id (vs ! i)) (sv_dist vs i) (sv_router_id (vs ! h)))))"

definition spf_inv :: "OspfLsaEntry list \<Rightarrow> u32 \<Rightarrow> OspfSpfVertex list \<Rightarrow> bool" where
  "spf_inv lsdb r vs \<longleftrightarrow> vs \<noteq> [] \<and> distinct (map sv_router_id vs) \<and> sv_router_id (vs ! 0) = r \<and> sv_distance (vs ! 0) = 0 \<and>
     (\<forall>u v m. ospf_edge lsdb u v m \<longrightarrow> v \<in> sv_router_id ` set vs) \<and> (\<forall>i < length vs. vertex_ok lsdb r vs i) \<and>
     (\<forall>i < length vs. \<forall>j < length vs. sv_visited (vs ! i) \<noteq> 0 \<longrightarrow> sv_visited (vs ! j) = 0 \<longrightarrow> sv_distance (vs ! i) \<le> sv_distance (vs ! j))"

text \<open>The links from vertex \<open>i\<close> give no shorter path.\<close>

definition settled :: "OspfLsaEntry list \<Rightarrow> OspfSpfVertex list \<Rightarrow> nat \<Rightarrow> bool" where
  "settled lsdb vs i \<longleftrightarrow> (\<forall>j < length vs. \<forall>m. ospf_edge lsdb (sv_router_id (vs ! i)) (sv_router_id (vs ! j)) m \<longrightarrow>
     sv_dist vs i + m < unat OSPF_INFINITY \<longrightarrow> sv_dist vs j \<le> sv_dist vs i + m)"

text \<open>Relaxation only lowers distances, and only of unvisited vertices.\<close>

definition spf_lower :: "OspfSpfVertex list \<Rightarrow> OspfSpfVertex list \<Rightarrow> bool" where
  "spf_lower vs vs' \<longleftrightarrow> marks vs' = marks vs \<and> (\<forall>i < length vs. sv_distance (vs' ! i) \<le> sv_distance (vs ! i) \<and>
     (sv_visited (vs ! i) \<noteq> 0 \<longrightarrow> vs' ! i = vs ! i))"

lemma spf_lower_refl [simp]: "spf_lower vs vs"
  by (simp add: spf_lower_def)

lemma marks_length: "marks vs' = marks vs \<Longrightarrow> length vs' = length vs"
  unfolding marks_def by (drule arg_cong [of _ _ length]) simp

lemma marks_nth:
  assumes "marks vs' = marks vs" "i < length vs"
  shows "sv_router_id (vs' ! i) = sv_router_id (vs ! i)" "sv_visited (vs' ! i) = sv_visited (vs ! i)"
  using arg_cong [OF assms(1), of "\<lambda>xs. xs ! i"] marks_length [OF assms(1)] assms(2) by (simp_all add: marks_def)

lemma marks_ids: "marks vs' = marks vs \<Longrightarrow> map sv_router_id vs' = map sv_router_id vs"
  unfolding marks_def by (drule arg_cong [of _ _ "map fst"]) (simp add: comp_def)

lemma spf_lower_length: "spf_lower vs vs' \<Longrightarrow> length vs' = length vs"
  unfolding spf_lower_def using marks_length by blast

lemma spf_lower_trans:
  assumes "spf_lower u v" "spf_lower v w"
  shows "spf_lower u w"
proof -
  have m: "marks v = marks u" "marks w = marks u" using assms by (simp_all add: spf_lower_def)
  have "sv_distance (w ! i) \<le> sv_distance (u ! i) \<and> (sv_visited (u ! i) \<noteq> 0 \<longrightarrow> w ! i = u ! i)" if i: "i < length u" for i
  proof -
    have "sv_distance (v ! i) \<le> sv_distance (u ! i)" "sv_visited (u ! i) \<noteq> 0 \<longrightarrow> v ! i = u ! i" using assms(1) i by (simp_all add: spf_lower_def)
    moreover have "sv_distance (w ! i) \<le> sv_distance (v ! i)" "sv_visited (v ! i) \<noteq> 0 \<longrightarrow> w ! i = v ! i"
      using assms(2) i marks_length [OF m(1)] by (simp_all add: spf_lower_def)
    ultimately show ?thesis using marks_nth(2) [OF m(1) i] by (metis order_trans)
  qed
  then show ?thesis using m(2) by (simp add: spf_lower_def)
qed

lemma OSPF_INFINITY_unat [simp]: "unat OSPF_INFINITY = 4294967295"
  by (simp add: OSPF_INFINITY_def)

lemma OSPF_INFINITY_max [simp]: "d \<le> OSPF_INFINITY"
  by (simp add: word_le_nat_alt) (use unsigned_less [of d, where ?'a = nat] in simp)

lemma unat_metric: "unat (ucast (m :: u16) :: u32) = unat m"
  by (simp add: unsigned_ucast_eq take_bit_nat_eq_self_iff) (use unsigned_less [of m, where ?'a = nat] in simp)

lemma spf_guard: "OSPF_INFINITY - ucast (m :: u16) \<le> d \<longleftrightarrow> unat OSPF_INFINITY \<le> unat d + unat m"
proof -
  have "unat (OSPF_INFINITY - ucast m) = unat OSPF_INFINITY - unat m"
    by (simp add: unat_sub OSPF_INFINITY_max unat_metric del: OSPF_INFINITY_unat)
  then show ?thesis by (simp add: word_le_nat_alt) linarith
qed

lemma spf_sum: "\<not> OSPF_INFINITY - ucast (m :: u16) \<le> d \<Longrightarrow> unat (d + ucast m) = unat d + unat m"
  unfolding spf_guard by (subst unat_add_lem [THEN iffD1]) (simp_all add: unat_metric)

section \<open>Relaxation\<close>

lemma vertex_ok_same:
  assumes "vertex_ok lsdb r vs i" "vs' ! i = vs ! i" "marks vs' = marks vs"
  shows "vertex_ok lsdb r vs' i"
  using assms marks_nth(1) [OF assms(3)] marks_length [OF assms(3)] unfolding vertex_ok_def by metis

text \<open>Lowering the distance of one unvisited vertex along a link of the vertex being visited keeps the invariant.\<close>

lemma spf_inv_lower:
  assumes inv: "spf_inv lsdb r vs" and s: "s < length vs" "sv_visited (vs ! s) \<noteq> 0" "sv_distance (vs ! s) \<noteq> OSPF_INFINITY"
    and settled: "\<And>j. j < length vs \<Longrightarrow> sv_visited (vs ! j) \<noteq> 0 \<Longrightarrow> sv_distance (vs ! j) \<le> sv_distance (vs ! s)"
    and i: "i < length vs" "sv_visited (vs ! i) = 0" "ospf_edge lsdb (sv_router_id (vs ! s)) (sv_router_id (vs ! i)) m"
    and d: "unat d = sv_dist vs s + m" "d < sv_distance (vs ! i)"
    and h: "h < length vs" "if s = 0 then h = i else sv_first_hop (vs ! s) = int h"
  defines "vs' \<equiv> vs[i := (vs ! i)\<lparr>sv_distance := d, sv_predecessor := int s, sv_first_hop := int h\<rparr>]"
  shows "spf_inv lsdb r vs'" "spf_lower vs vs'"
proof -
  have nth: "vs' ! j = (if j = i then (vs ! i)\<lparr>sv_distance := d, sv_predecessor := int s, sv_first_hop := int h\<rparr> else vs ! j)" for j
    using i(1) by (simp add: vs'_def nth_list_update)
  have mk: "marks vs' = marks vs" using i(1) unfolding vs'_def marks_def
    by (intro nth_equalityI) (simp_all add: nth_list_update)
  note len = marks_length [OF mk]
  show low: "spf_lower vs vs'" using mk less_imp_le [OF d(2)] i(2) by (simp add: spf_lower_def nth)
  have root: "vs \<noteq> []" "sv_router_id (vs ! 0) = r" "sv_distance (vs ! 0) = 0" using inv by (simp_all add: spf_inv_def)
  have i0: "i \<noteq> 0" using root(3) d(2) by (cases "i = 0") simp_all
  have ok: "vertex_ok lsdb r vs s" using inv s(1) by (simp add: spf_inv_def)
  have new: "vertex_ok lsdb r vs' i"
  proof -
    have "ospf_path lsdb r (sv_router_id (vs ! i)) (unat d)" using path_snoc [OF _ i(3)] ok s(3) d(1) by (simp add: vertex_ok_def)
    moreover have "ospf_first_hop lsdb r (sv_router_id (vs ! i)) (unat d) (sv_router_id (vs ! h))"
    proof (cases "s = 0")
      case True
      then show ?thesis using ospf_first_hop_edge [of lsdb r _ m] i(3) d(1) h(2) root by simp
    next
      case False
      then show ?thesis using ospf_first_hop_snoc [OF _ i(3)] ok s(3) d(1) h(2) by (auto simp: vertex_ok_def)
    qed
    ultimately show ?thesis using h(1) marks_nth(1) [OF mk h(1)] i0 len by (auto simp: vertex_ok_def nth)
  qed
  have oks: "vertex_ok lsdb r vs' j" if "j < length vs" for j
    using that new vertex_ok_same [OF _ _ mk, of lsdb r j] inv by (cases "j = i") (simp_all add: spf_inv_def nth)
  have ge: "sv_distance (vs ! s) \<le> d" using d(1) by (simp add: word_le_nat_alt)
  have ord: "sv_distance (vs' ! j) \<le> sv_distance (vs' ! k)"
    if "j < length vs" "k < length vs" "sv_visited (vs' ! j) \<noteq> 0" "sv_visited (vs' ! k) = 0" for j k
  proof -
    have j: "j \<noteq> i" "sv_visited (vs ! j) \<noteq> 0" "sv_visited (vs ! k) = 0" using that i(2) by (auto simp: nth split: if_splits)
    then show ?thesis using settled [OF that(1) j(2)] ge inv that(1,2) by (auto simp: spf_inv_def nth)
  qed
  have "sv_router_id ` set vs' = sv_router_id ` set vs" using marks_ids [OF mk] by (metis set_map)
  moreover have "vs' \<noteq> []" "vs' ! 0 = vs ! 0" using root(1) len i0 by (auto simp: nth)
  ultimately show "spf_inv lsdb r vs'" using inv oks ord unfolding spf_inv_def len marks_ids [OF mk] by simp
qed

text \<open>One link: the search finds its vertex, no exit with -1 is taken, and afterwards the link gives no shorter path.\<close>

definition visiting :: "OspfLsaEntry list \<Rightarrow> u32 \<Rightarrow> nat \<Rightarrow> OspfSpfVertex list \<Rightarrow> bool" where
  "visiting lsdb r s vs \<longleftrightarrow> spf_inv lsdb r vs \<and> s < length vs \<and> sv_visited (vs ! s) \<noteq> 0 \<and> sv_distance (vs ! s) \<noteq> OSPF_INFINITY \<and>
     (\<forall>j < length vs. sv_visited (vs ! j) \<noteq> 0 \<longrightarrow> sv_distance (vs ! j) \<le> sv_distance (vs ! s))"

definition relaxed :: "nat \<Rightarrow> OspfSpfVertex list \<Rightarrow> u32 \<Rightarrow> nat \<Rightarrow> bool" where
  "relaxed s vs v m \<longleftrightarrow> (\<forall>j < length vs. sv_router_id (vs ! j) = v \<longrightarrow> sv_dist vs s + m < unat OSPF_INFINITY \<longrightarrow>
     sv_dist vs j \<le> sv_dist vs s + m)"

lemma visiting_lower:
  assumes "visiting lsdb r s vs" "spf_inv lsdb r vs'" "spf_lower vs vs'"
  shows "visiting lsdb r s vs'" "vs' ! s = vs ! s"
proof -
  have m: "marks vs' = marks vs" using assms(3) by (simp add: spf_lower_def)
  show s: "vs' ! s = vs ! s" using assms(1,3) by (simp add: visiting_def spf_lower_def)
  have old: "s < length vs" "sv_visited (vs ! s) \<noteq> 0" "sv_distance (vs ! s) \<noteq> OSPF_INFINITY"
    using assms(1) by (simp_all add: visiting_def)
  have "sv_distance (vs' ! j) \<le> sv_distance (vs ! s)" if j: "j < length vs'" "sv_visited (vs' ! j) \<noteq> 0" for j
  proof -
    have j': "j < length vs" "sv_visited (vs ! j) \<noteq> 0" using j marks_nth(2) [OF m] marks_length [OF m] by simp_all
    then have "vs' ! j = vs ! j" using assms(3) unfolding spf_lower_def by blast
    then show ?thesis using assms(1) j' by (simp add: visiting_def)
  qed
  then show "visiting lsdb r s vs'" using old s assms(2) unfolding visiting_def marks_length [OF m] s by blast
qed

lemma relaxed_lower:
  assumes "relaxed s vs v m" "spf_lower vs vs'" "vs' ! s = vs ! s"
  shows "relaxed s vs' v m"
  unfolding relaxed_def
proof (intro allI impI)
  fix j assume j: "j < length vs'" "sv_router_id (vs' ! j) = v" "sv_dist vs' s + m < unat OSPF_INFINITY"
  have mk: "marks vs' = marks vs" using assms(2) by (simp add: spf_lower_def)
  have j': "j < length vs" "sv_router_id (vs ! j) = v" using j marks_nth(1) [OF mk] marks_length [OF mk] by simp_all
  have "sv_dist vs' j \<le> sv_dist vs j" using assms(2) j'(1) by (simp add: spf_lower_def word_le_nat_alt)
  also have "\<dots> \<le> sv_dist vs s + m" using assms(1,3) j' j(3) by (simp add: relaxed_def)
  finally show "sv_dist vs' j \<le> sv_dist vs' s + m" using assms(3) by simp
qed

lemma spf_relax_outcome:
  assumes "visiting lsdb r s vs"
    and edge: "ospf_edge lsdb (sv_router_id (vs ! s)) (ol_link_id link) (unat (ol_metric link))"
  shows "\<exists>vs'. spf_relax s link vs = Inr vs' \<and> spf_inv lsdb r vs' \<and> spf_lower vs vs' \<and>
    relaxed s vs' (ol_link_id link) (unat (ol_metric link))"
proof -
  let ?m = "ol_metric link"
  have inv: "spf_inv lsdb r vs" and s: "s < length vs" "sv_visited (vs ! s) \<noteq> 0" "sv_distance (vs ! s) \<noteq> OSPF_INFINITY"
    and settled: "\<And>j. j < length vs \<Longrightarrow> sv_visited (vs ! j) \<noteq> 0 \<Longrightarrow> sv_distance (vs ! j) \<le> sv_distance (vs ! s)"
    using assms(1) by (simp_all add: visiting_def)
  have "ol_link_id link \<in> sv_router_id ` set vs" using inv edge by (auto simp: spf_inv_def)
  then have "first_idx (\<lambda>v. sv_router_id v = ol_link_id link) vs \<noteq> None" by (auto simp: first_idx_None)
  then obtain i where f: "first_idx (\<lambda>v. sv_router_id v = ol_link_id link) vs = Some i" by auto
  have i: "i < length vs" "sv_router_id (vs ! i) = ol_link_id link" using first_idx_lt [OF f] first_idx_sat [OF f] by simp_all
  have uni: "j = i" if "j < length vs" "sv_router_id (vs ! j) = ol_link_id link" for j
    using inv that i nth_eq_iff_index_eq [of "map sv_router_id vs" j i] by (simp add: spf_inv_def)
  let ?d = "sv_distance (vs ! s) + ucast ?m"
  show ?thesis
  proof (cases "sv_visited (vs ! i) \<noteq> 0 \<or> OSPF_INFINITY - ucast ?m \<le> sv_distance (vs ! s) \<or> sv_distance (vs ! i) \<le> ?d")
    case True
    have "sv_dist vs i \<le> sv_dist vs s + unat ?m" if "sv_dist vs s + unat ?m < unat OSPF_INFINITY"
    proof -
      have g: "\<not> OSPF_INFINITY - ucast ?m \<le> sv_distance (vs ! s)" using that spf_guard [of ?m "sv_distance (vs ! s)"] by simp
      then show ?thesis using True settled [OF i(1)] spf_sum [OF g] by (auto simp: word_le_nat_alt)
    qed
    then have "relaxed s vs (ol_link_id link) (unat ?m)" using uni unfolding relaxed_def by blast
    then show ?thesis using True f inv by (intro exI [of _ vs]) (auto simp: spf_relax_step Let_def)
  next
    case False
    then have g: "\<not> OSPF_INFINITY - ucast ?m \<le> sv_distance (vs ! s)" "sv_visited (vs ! i) = 0" "?d < sv_distance (vs ! i)" by auto
    have edge': "ospf_edge lsdb (sv_router_id (vs ! s)) (sv_router_id (vs ! i)) (unat ?m)" using edge i(2) by simp
    obtain h where h: "h < length vs" "if s = 0 then h = i else sv_first_hop (vs ! s) = int h"
    proof (cases "s = 0")
      case False
      then show thesis using inv s that by (auto simp: spf_inv_def vertex_ok_def)
    qed (use i(1) that in simp)
    let ?vs = "vs[i := (vs ! i)\<lparr>sv_distance := ?d, sv_predecessor := int s, sv_first_hop := int h\<rparr>]"
    note new = spf_inv_lower [OF inv s settled i(1) g(2) edge' spf_sum [OF g(1)] g(3) h]
    have "spf_relax s link vs = Inr ?vs" using False f h by (auto simp: spf_relax_step Let_def)
    moreover have "relaxed s ?vs (ol_link_id link) (unat ?m)"
    proof -
      have "s \<noteq> i" using s(2) g(2) by auto
      moreover have "marks ?vs = marks vs" using new(2) by (simp add: spf_lower_def)
      moreover have "sv_dist ?vs i = sv_dist vs s + unat ?m" using i(1) spf_sum [OF g(1)] by simp
      ultimately show ?thesis using uni marks_nth(1) [of ?vs vs] unfolding relaxed_def length_list_update
        by (metis nth_list_update_neq order_refl)
    qed
    ultimately show ?thesis using new by blast
  qed
qed

lemma spf_relax_links_outcome:
  assumes "visiting lsdb r s vs" "e \<in> set lsdb" "le_valid e \<noteq> 0" "le_lsa_type e = OSPF_LSA_TYPE_ROUTER" "lsa_ok e"
    and "le_adv_router e = sv_router_id (vs ! s)" "\<forall>j \<in> set js. j < nat (le_link_count e)"
  shows "\<exists>vs'. spf_relax_links s e js vs = Some (Inr vs') \<and> spf_inv lsdb r vs' \<and> spf_lower vs vs' \<and>
    (\<forall>j \<in> set js. ol_type (le_links e ! j) = OSPF_LINK_P2P \<longrightarrow> relaxed s vs' (ol_link_id (le_links e ! j)) (unat (ol_metric (le_links e ! j))))"
  using assms
proof (induction js arbitrary: vs)
  case (Cons j js)
  let ?l = "le_links e ! j"
  have l: "lsa_link e j = Some ?l" using Cons.prems(5,7) by (auto simp: lsa_ok_def lsa_link_def OSPF_MAX_LSA_LINKS_def)
  show ?case
  proof (cases "ol_type ?l = OSPF_LINK_P2P")
    case False
    then show ?thesis using Cons.IH [OF Cons.prems(1-6)] Cons.prems(7) l by auto
  next
    case True
    have "ospf_edge lsdb (sv_router_id (vs ! s)) (ol_link_id ?l) (unat (ol_metric ?l))"
      unfolding ospf_edge_def using Cons.prems True by auto
    from spf_relax_outcome [OF Cons.prems(1) this] obtain v1 where 1: "spf_relax s ?l vs = Inr v1" "spf_inv lsdb r v1" "spf_lower vs v1"
      "relaxed s v1 (ol_link_id ?l) (unat (ol_metric ?l))" by blast
    note v = visiting_lower [OF Cons.prems(1) 1(2,3)]
    have adv: "le_adv_router e = sv_router_id (v1 ! s)" using Cons.prems(6) v(2) by simp
    obtain v2 where 2: "spf_relax_links s e js v1 = Some (Inr v2)" "spf_inv lsdb r v2" "spf_lower v1 v2"
      "\<forall>j \<in> set js. ol_type (le_links e ! j) = OSPF_LINK_P2P \<longrightarrow> relaxed s v2 (ol_link_id (le_links e ! j)) (unat (ol_metric (le_links e ! j)))"
      using Cons.IH [OF v(1) Cons.prems(2-5) adv] Cons.prems(7) by auto
    have "relaxed s v2 (ol_link_id ?l) (unat (ol_metric ?l))"
      by (rule relaxed_lower [OF 1(4) 2(3) visiting_lower(2) [OF v(1) 2(2,3)]])
    then show ?thesis using l True 1(1) 2 spf_lower_trans [OF 1(3) 2(3)] by auto
  qed
qed (auto simp: visiting_def)

lemma spf_relax_lsas_outcome:
  assumes "visiting lsdb r s vs" "set db \<subseteq> set lsdb" "\<forall>e \<in> set lsdb. le_valid e \<noteq> 0 \<longrightarrow> lsa_ok e"
  shows "\<exists>vs'. spf_relax_lsas s db vs = Some (Inr vs') \<and> spf_inv lsdb r vs' \<and> spf_lower vs vs' \<and>
    (\<forall>v m. ospf_edge db (sv_router_id (vs ! s)) v m \<longrightarrow> relaxed s vs' v m)"
  using assms(1,2)
proof (induction db arbitrary: vs)
  case (Cons e db)
  let ?u = "sv_router_id (vs ! s)"
  show ?case
  proof (cases "le_valid e = 0 \<or> le_lsa_type e \<noteq> OSPF_LSA_TYPE_ROUTER \<or> le_adv_router e \<noteq> ?u")
    case True
    then have "ospf_edge (e # db) ?u v m = ospf_edge db ?u v m" for v m by (auto simp: ospf_edge_def)
    then show ?thesis using Cons True by simp
  next
    case False
    then have e: "e \<in> set lsdb" "le_valid e \<noteq> 0" "le_lsa_type e = OSPF_LSA_TYPE_ROUTER" "lsa_ok e" "le_adv_router e = ?u"
      using Cons.prems(2) assms(3) by auto
    have "\<forall>j \<in> set (lsa_indices e). j < nat (le_link_count e)" by (simp add: lsa_indices_def)
    from spf_relax_links_outcome [OF Cons.prems(1) e this] obtain v1 where
      1: "spf_relax_links s e (lsa_indices e) vs = Some (Inr v1)" "spf_inv lsdb r v1" "spf_lower vs v1"
      "\<forall>j \<in> set (lsa_indices e). ol_type (le_links e ! j) = OSPF_LINK_P2P \<longrightarrow>
         relaxed s v1 (ol_link_id (le_links e ! j)) (unat (ol_metric (le_links e ! j)))" by blast
    note v = visiting_lower [OF Cons.prems(1) 1(2,3)]
    obtain v2 where 2: "spf_relax_lsas s db v1 = Some (Inr v2)" "spf_inv lsdb r v2" "spf_lower v1 v2"
      "\<forall>v m. ospf_edge db ?u v m \<longrightarrow> relaxed s v2 v m" using Cons.IH [OF v(1)] Cons.prems(2) v(2) by auto
    note lower = relaxed_lower [OF _ 2(3) visiting_lower(2) [OF v(1) 2(2,3)]]
    have "relaxed s v2 v m" if "ospf_edge (e # db) ?u v m" for v m
      using that 2(4) lower 1(4) by (auto simp: ospf_edge_def lsa_indices_def)
    then show ?thesis using False 1(1) 2 spf_lower_trans [OF 1(3) 2(3)] by auto
  qed
qed (auto simp: visiting_def ospf_edge_def)

section \<open>Selection and the loop\<close>

lemma spf_select_min:
  assumes "spf_select vs is sel = Some s" "\<forall>i \<in> set is. i < length vs"
  shows "(\<forall>i \<in> set is. sv_visited (vs ! i) = 0 \<longrightarrow> sv_distance (vs ! s) \<le> sv_distance (vs ! i)) \<and>
    (\<forall>t. sel = Some t \<longrightarrow> sv_distance (vs ! s) \<le> sv_distance (vs ! t))"
  using assms
proof (induction "is" arbitrary: sel)
  case (Cons i "is")
  consider "sv_visited (vs ! i) \<noteq> 0 \<or> sv_distance (vs ! i) = OSPF_INFINITY" "spf_select vs is sel = Some s"
    | "spf_select vs is (Some i) = Some s" "\<And>t. sel = Some t \<Longrightarrow> sv_distance (vs ! i) \<le> sv_distance (vs ! t)"
    | t where "sel = Some t" "sv_distance (vs ! t) \<le> sv_distance (vs ! i)" "spf_select vs is sel = Some s"
  proof (cases "sv_visited (vs ! i) \<noteq> 0 \<or> sv_distance (vs ! i) = OSPF_INFINITY")
    case True
    then show thesis using Cons.prems(1) that(1) by simp
  next
    case False
    show thesis
    proof (cases sel)
      case None
      then show thesis using Cons.prems(1) False that(2) by simp
    next
      case (Some t)
      show thesis
      proof (cases "sv_distance (vs ! i) < sv_distance (vs ! t) \<or> sv_distance (vs ! i) = sv_distance (vs ! t) \<and> sv_router_id (vs ! i) < sv_router_id (vs ! t)")
        case True
        then have "sv_distance (vs ! i) \<le> sv_distance (vs ! t)" by auto
        then show thesis using Cons.prems(1) False Some True by (intro that(2)) simp_all
      next
        case none: False
        then have "sv_distance (vs ! t) \<le> sv_distance (vs ! i)" by auto
        then show thesis using Cons.prems(1) False Some none by (intro that(3)) (auto split: if_splits)
      qed
    qed
  qed
  then show ?case
  proof cases
    case 1
    then show ?thesis using Cons.IH [OF 1(2)] Cons.prems(2) by auto
  next
    case 2
    have ih: "\<forall>j \<in> set is. sv_visited (vs ! j) = 0 \<longrightarrow> sv_distance (vs ! s) \<le> sv_distance (vs ! j)" "sv_distance (vs ! s) \<le> sv_distance (vs ! i)"
      using Cons.IH [OF 2(1)] Cons.prems(2) by simp_all
    then show ?thesis using order_trans [OF ih(2) 2(2)] by simp
  next
    case 3
    have ih: "\<forall>j \<in> set is. sv_visited (vs ! j) = 0 \<longrightarrow> sv_distance (vs ! s) \<le> sv_distance (vs ! j)" "sv_distance (vs ! s) \<le> sv_distance (vs ! t)"
      using Cons.IH [OF 3(3)] Cons.prems(2) 3(1) by simp_all
    then show ?thesis using order_trans [OF ih(2) 3(2)] 3(1) by simp
  qed
qed simp

lemma spf_select_None:
  "spf_select vs is sel = None \<Longrightarrow> sel = None \<and> (\<forall>i \<in> set is. sv_visited (vs ! i) = 0 \<longrightarrow> sv_distance (vs ! i) = OSPF_INFINITY)"
proof (induction "is" arbitrary: sel)
  case (Cons i "is")
  have "spf_select vs is sel = None \<and> (sv_visited (vs ! i) = 0 \<longrightarrow> sv_distance (vs ! i) = OSPF_INFINITY)"
  proof (cases "sv_visited (vs ! i) \<noteq> 0 \<or> sv_distance (vs ! i) = OSPF_INFINITY")
    case False
    have "False" if "spf_select vs is (Some t) = None" for t using Cons.IH [OF that] by simp
    then show ?thesis using Cons.prems False by (cases sel) (auto split: if_splits)
  qed (use Cons.prems in auto)
  then show ?case using Cons.IH by auto
qed simp

lemma settled_lower:
  assumes "settled lsdb vs i" "spf_lower vs vs'" "i < length vs" "sv_visited (vs ! i) \<noteq> 0"
  shows "settled lsdb vs' i"
  unfolding settled_def
proof (intro allI impI)
  fix j m
  assume j: "j < length vs'" "ospf_edge lsdb (sv_router_id (vs' ! i)) (sv_router_id (vs' ! j)) m" "sv_dist vs' i + m < unat OSPF_INFINITY"
  have mk: "marks vs' = marks vs" "vs' ! i = vs ! i" using assms(2-4) by (simp_all add: spf_lower_def)
  have j': "j < length vs" using j(1) marks_length [OF mk(1)] by simp
  have "sv_dist vs' j \<le> sv_dist vs j" using assms(2) j' by (simp add: spf_lower_def word_le_nat_alt)
  also have "\<dots> \<le> sv_dist vs i + m" using assms(1) j j' mk(2) marks_nth(1) [OF mk(1) j'] by (simp add: settled_def)
  finally show "sv_dist vs' j \<le> sv_dist vs' i + m" using mk(2) by simp
qed

lemma settled_relaxed:
  assumes "\<And>v m. ospf_edge lsdb (sv_router_id (vs ! s)) v m \<Longrightarrow> relaxed s vs v m"
  shows "settled lsdb vs s"
  using assms unfolding settled_def relaxed_def by blast

text \<open>Marking the selected vertex.\<close>

lemma visiting_selected:
  assumes inv: "spf_inv lsdb r vs" and sel: "spf_select vs [0..<length vs] None = Some s"
  defines "vs' \<equiv> vs[s := (vs ! s)\<lparr>sv_visited := 1\<rparr>]"
  shows "visiting lsdb r s vs'"
proof -
  have s: "s < length vs" "sv_visited (vs ! s) = 0" "sv_distance (vs ! s) \<noteq> OSPF_INFINITY" using spf_select_unvisited [OF sel] by simp_all
  have min: "sv_distance (vs ! s) \<le> sv_distance (vs ! j)" if "j < length vs" "sv_visited (vs ! j) = 0" for j
    using spf_select_min [OF sel] that by simp
  have old: "sv_distance (vs ! i) \<le> sv_distance (vs ! j)"
    if "i < length vs" "j < length vs" "sv_visited (vs ! i) \<noteq> 0" "sv_visited (vs ! j) = 0" for i j
    using inv that unfolding spf_inv_def by blast
  have nth: "vs' ! j = (if j = s then (vs ! s)\<lparr>sv_visited := 1\<rparr> else vs ! j)" and len: "length vs' = length vs" for j
    using s(1) by (simp_all add: vs'_def nth_list_update)
  have flds: "sv_router_id (vs' ! j) = sv_router_id (vs ! j)" "sv_distance (vs' ! j) = sv_distance (vs ! j)"
    "sv_first_hop (vs' ! j) = sv_first_hop (vs ! j)" for j by (simp_all add: nth)
  have ids: "map sv_router_id vs' = map sv_router_id vs" by (rule nth_equalityI) (simp_all add: len flds)
  then have img: "sv_router_id ` set vs' = sv_router_id ` set vs" by (metis set_map)
  have ok: "vertex_ok lsdb r vs' i = vertex_ok lsdb r vs i" for i by (simp add: vertex_ok_def flds len)
  have ord: "sv_distance (vs' ! i) \<le> sv_distance (vs' ! j)"
    if "i < length vs" "j < length vs" "sv_visited (vs' ! i) \<noteq> 0" "sv_visited (vs' ! j) = 0" for i j
    using that min old by (auto simp: nth split: if_splits)
  have ne: "vs' \<noteq> []" using s(1) len by auto
  have "spf_inv lsdb r vs'" using inv ord ne unfolding spf_inv_def ids img len ok flds by blast
  moreover have "sv_distance (vs' ! j) \<le> sv_distance (vs' ! s)" if "j < length vs" "sv_visited (vs' ! j) \<noteq> 0" for j
    using that old [OF _ s(1) _ s(2)] by (auto simp: nth split: if_splits)
  ultimately show ?thesis using s unfolding visiting_def len by (simp add: nth)
qed

lemma spf_loop_outcome:
  assumes "spf_inv lsdb r vs" "\<forall>i < length vs. sv_visited (vs ! i) \<noteq> 0 \<longrightarrow> settled lsdb vs i" "\<forall>e \<in> set lsdb. le_valid e \<noteq> 0 \<longrightarrow> lsa_ok e"
  shows "\<exists>vs'. spf_loop lsdb vs = Some (Inr vs') \<and> spf_inv lsdb r vs' \<and> map sv_router_id vs' = map sv_router_id vs \<and>
    (\<forall>i < length vs'. sv_distance (vs' ! i) \<noteq> OSPF_INFINITY \<longrightarrow> settled lsdb vs' i)"
  using assms
proof (induction lsdb vs rule: spf_loop.induct)
  case (1 lsdb vs)
  show ?case
  proof (cases "spf_select vs [0..<length vs] None")
    case None
    then have "spf_loop lsdb vs = Some (Inr vs)" by (simp add: spf_loop.simps)
    moreover have "settled lsdb vs i" if "i < length vs" "sv_distance (vs ! i) \<noteq> OSPF_INFINITY" for i
      using that spf_select_None [OF None] "1.prems"(2) by auto
    ultimately show ?thesis using "1.prems"(1) by blast
  next
    case (Some s)
    let ?v = "vs[s := (vs ! s)\<lparr>sv_visited := 1\<rparr>]"
    have s: "s < length vs" using spf_select_unvisited [OF Some] by simp
    note vis = visiting_selected [OF "1.prems"(1) Some]
    from spf_relax_lsas_outcome [OF vis subset_refl "1.prems"(3)] obtain v1 where
      v1: "spf_relax_lsas s lsdb ?v = Some (Inr v1)" "spf_inv lsdb r v1" "spf_lower ?v v1"
      "\<forall>v m. ospf_edge lsdb (sv_router_id (?v ! s)) v m \<longrightarrow> relaxed s v1 v m" by blast
    have len: "length v1 = length vs" using spf_lower_length [OF v1(3)] by simp
    have mk: "marks v1 = marks ?v" using v1(3) by (simp add: spf_lower_def)
    have "settled lsdb v1 i" if i: "i < length v1" "sv_visited (v1 ! i) \<noteq> 0" for i
    proof (cases "i = s")
      case True
      have "v1 ! s = ?v ! s" using visiting_lower(2) [OF vis v1(2,3)] .
      then show ?thesis using v1(4) True by (intro settled_relaxed) simp
    next
      case False
      have vi: "sv_visited (?v ! i) \<noteq> 0" using i marks_nth(2) [OF mk, of i] len by simp
      have "settled lsdb vs i" using "1.prems"(2) vi False i(1) len by simp
      moreover have "sv_router_id (?v ! j) = sv_router_id (vs ! j)" "sv_distance (?v ! j) = sv_distance (vs ! j)" for j
        using s by (simp_all add: nth_list_update)
      ultimately have "settled lsdb ?v i" by (simp add: settled_def)
      then show ?thesis using settled_lower [OF _ v1(3) _ vi] i(1) len by simp
    qed
    then obtain v2 where 2: "spf_loop lsdb v1 = Some (Inr v2)" "spf_inv lsdb r v2" "map sv_router_id v2 = map sv_router_id v1"
      "\<forall>i < length v2. sv_distance (v2 ! i) \<noteq> OSPF_INFINITY \<longrightarrow> settled lsdb v2 i"
      using "1.IH" [OF Some v1(1) refl v1(2)] "1.prems"(3) by blast
    have "map sv_router_id v1 = map sv_router_id vs" unfolding marks_ids [OF mk] by (rule nth_equalityI) (simp_all add: s nth_list_update)
    then show ?thesis using 2 Some v1(1) by (auto simp: spf_loop.simps [of lsdb vs])
  qed
qed

section \<open>Construction of the vertices\<close>

text \<open>The vertices before the iteration: the root, and every other one at infinity.\<close>

definition fresh_vertices :: "u32 \<Rightarrow> OspfSpfVertex list \<Rightarrow> bool" where
  "fresh_vertices r vs \<longleftrightarrow> vs \<noteq> [] \<and> hd vs = spf_root r \<and> distinct (map sv_router_id vs) \<and>
     (\<forall>v \<in> set (tl vs). sv_distance v = OSPF_INFINITY) \<and> (\<forall>v \<in> set vs. sv_visited v = 0)"

lemma ensure_outcome:
  assumes "fresh_vertices r vs" "length vs < OSPF_SPF_MAX_NODES"
  shows "\<exists>i vs'. ospf_ensure_spf_vertex vs a = (i, vs') \<and> 0 \<le> i \<and> fresh_vertices r vs' \<and> length vs' \<le> Suc (length vs) \<and>
    sv_router_id ` set vs' = insert a (sv_router_id ` set vs)"
proof (cases "first_idx (\<lambda>v. sv_router_id v = a) vs")
  case None
  then have "a \<notin> sv_router_id ` set vs" by (auto simp: first_idx_None)
  then show ?thesis using assms None by (auto simp: ospf_ensure_spf_vertex_def fresh_vertices_def)
next
  case (Some i)
  then have "a \<in> sv_router_id ` set vs" using first_idx_lt [OF Some] first_idx_sat [OF Some] by (metis image_eqI nth_mem)
  then show ?thesis using assms Some by (auto simp: ospf_ensure_spf_vertex_def)
qed

lemma spf_add_links_outcome:
  assumes "fresh_vertices r vs" "length vs + length js \<le> OSPF_SPF_MAX_NODES" "\<forall>j \<in> set js. j < length (le_links e)"
  shows "\<exists>vs'. spf_add_links e js vs = Some (Inr vs') \<and> fresh_vertices r vs' \<and> length vs' \<le> length vs + length js \<and>
    sv_router_id ` set vs' = sv_router_id ` set vs \<union> {ol_link_id (le_links e ! j) | j. j \<in> set js \<and> ol_type (le_links e ! j) = OSPF_LINK_P2P}"
  using assms
proof (induction js arbitrary: vs)
  case (Cons j js)
  have l: "lsa_link e j = Some (le_links e ! j)" using Cons.prems(3) by (simp add: lsa_link_def)
  show ?case
  proof (cases "ol_type (le_links e ! j) = OSPF_LINK_P2P")
    case False
    then obtain vs' where "spf_add_links e js vs = Some (Inr vs')" "fresh_vertices r vs'" "length vs' \<le> length vs + length js"
      "sv_router_id ` set vs' = sv_router_id ` set vs \<union> {ol_link_id (le_links e ! j) | j. j \<in> set js \<and> ol_type (le_links e ! j) = OSPF_LINK_P2P}"
      using Cons.IH [OF Cons.prems(1)] Cons.prems(2,3) by auto
    then show ?thesis using l False by auto
  next
    case True
    obtain i v1 where 1: "ospf_ensure_spf_vertex vs (ol_link_id (le_links e ! j)) = (i, v1)" "0 \<le> i" "fresh_vertices r v1"
      "length v1 \<le> Suc (length vs)" "sv_router_id ` set v1 = insert (ol_link_id (le_links e ! j)) (sv_router_id ` set vs)"
      using ensure_outcome [OF Cons.prems(1)] Cons.prems(2) by fastforce
    obtain v2 where "spf_add_links e js v1 = Some (Inr v2)" "fresh_vertices r v2" "length v2 \<le> length v1 + length js"
      "sv_router_id ` set v2 = sv_router_id ` set v1 \<union> {ol_link_id (le_links e ! j) | j. j \<in> set js \<and> ol_type (le_links e ! j) = OSPF_LINK_P2P}"
      using Cons.IH [OF 1(3)] Cons.prems(2,3) 1(4) by auto
    then show ?thesis using l True 1 by auto
  qed
qed simp

lemma spf_build_outcome:
  assumes "fresh_vertices r vs" "length vs + 5 * length db \<le> OSPF_SPF_MAX_NODES" "\<forall>e \<in> set db. le_valid e \<noteq> 0 \<longrightarrow> lsa_ok e"
  shows "\<exists>vs'. spf_build db vs = Some (Inr vs') \<and> fresh_vertices r vs' \<and> sv_router_id ` set vs \<subseteq> sv_router_id ` set vs' \<and>
    (\<forall>u v m. ospf_edge db u v m \<longrightarrow> v \<in> sv_router_id ` set vs')"
  using assms
proof (induction db arbitrary: vs)
  case (Cons e db)
  show ?case
  proof (cases "le_valid e = 0 \<or> le_lsa_type e \<noteq> OSPF_LSA_TYPE_ROUTER")
    case True
    then have "ospf_edge (e # db) u v m = ospf_edge db u v m" for u v m by (auto simp: ospf_edge_def)
    then show ?thesis using Cons True by simp
  next
    case False
    then have e: "lsa_ok e" using Cons.prems(3) by simp
    then have js: "length (lsa_indices e) \<le> 4" "\<forall>j \<in> set (lsa_indices e). j < length (le_links e)"
      by (auto simp: lsa_indices_def lsa_ok_def OSPF_MAX_LSA_LINKS_def)
    obtain i v1 where 1: "ospf_ensure_spf_vertex vs (le_adv_router e) = (i, v1)" "0 \<le> i" "fresh_vertices r v1"
      "length v1 \<le> Suc (length vs)" "sv_router_id ` set v1 = insert (le_adv_router e) (sv_router_id ` set vs)"
      using ensure_outcome [OF Cons.prems(1)] Cons.prems(2) by fastforce
    obtain v2 where 2: "spf_add_links e (lsa_indices e) v1 = Some (Inr v2)" "fresh_vertices r v2" "length v2 \<le> length v1 + 4"
      "sv_router_id ` set v2 = sv_router_id ` set v1 \<union>
         {ol_link_id (le_links e ! j) | j. j \<in> set (lsa_indices e) \<and> ol_type (le_links e ! j) = OSPF_LINK_P2P}"
      using spf_add_links_outcome [OF 1(3) _ js(2)] js(1) 1(4) Cons.prems(2) by fastforce
    obtain v3 where 3: "spf_build db v2 = Some (Inr v3)" "fresh_vertices r v3" "sv_router_id ` set v2 \<subseteq> sv_router_id ` set v3"
      "\<forall>u v m. ospf_edge db u v m \<longrightarrow> v \<in> sv_router_id ` set v3"
      using Cons.IH [OF 2(2)] 1(4) 2(3) Cons.prems(2,3) by auto
    have "v \<in> sv_router_id ` set v3" if edge: "ospf_edge (e # db) u v m" for u v m
    proof (cases "ospf_edge db u v m")
      case False
      then obtain j where "j < nat (le_link_count e)" "ol_type (le_links e ! j) = OSPF_LINK_P2P" "ol_link_id (le_links e ! j) = v"
        using edge by (auto simp: ospf_edge_def)
      then have "v \<in> sv_router_id ` set v2" unfolding 2(4) by (auto simp: lsa_indices_def)
      then show ?thesis using 3(3) by blast
    qed (use 3(4) in blast)
    moreover have "sv_router_id ` set vs \<subseteq> sv_router_id ` set v3" using 1(5) 2(4) 3(3) by blast
    ultimately show ?thesis using False 1(1,2) 2(1) 3(1,2) by auto
  qed
qed (auto simp: ospf_edge_def)

lemma fresh_inv:
  assumes "fresh_vertices r vs" "\<And>u v m. ospf_edge lsdb u v m \<Longrightarrow> v \<in> sv_router_id ` set vs"
  shows "spf_inv lsdb r vs"
proof -
  obtain v vs' where v: "vs = v # vs'" using assms(1) by (cases vs) (auto simp: fresh_vertices_def)
  have "vertex_ok lsdb r vs i" if "i < length vs" for i
    using that assms(1) v path_nil [of lsdb r] by (cases i) (auto simp: vertex_ok_def fresh_vertices_def spf_root_def)
  moreover have "sv_visited (vs ! i) = 0" if "i < length vs" for i using assms(1) that by (simp add: fresh_vertices_def)
  ultimately show ?thesis using assms v by (auto simp: spf_inv_def fresh_vertices_def spf_root_def)
qed

section \<open>Shortest paths\<close>

text \<open>With all links settled, no path is shorter than the distance of its end.\<close>

lemma settled_shortest:
  assumes "spf_inv lsdb r vs" "\<forall>i < length vs. sv_distance (vs ! i) \<noteq> OSPF_INFINITY \<longrightarrow> settled lsdb vs i"
    and "ospf_path lsdb r v d" "d < unat OSPF_INFINITY"
  shows "\<exists>i < length vs. sv_router_id (vs ! i) = v \<and> sv_dist vs i \<le> d"
  using assms(3,4,1)
proof (induction r v d rule: ospf_path.induct)
  case (path_nil r)
  then show ?case by (intro exI [of _ 0]) (auto simp: spf_inv_def)
next
  case (path_snoc r v d x m)
  then obtain i where i: "i < length vs" "sv_router_id (vs ! i) = v" "sv_dist vs i \<le> d" by auto
  have "sv_distance (vs ! i) \<noteq> OSPF_INFINITY" using i(3) path_snoc.prems(1) by auto
  then have "settled lsdb vs i" using assms(2) i(1) by blast
  moreover have "x \<in> sv_router_id ` set vs" using path_snoc.prems(2) path_snoc.hyps(2) unfolding spf_inv_def by blast
  then obtain j where j: "j < length vs" "sv_router_id (vs ! j) = x" by (auto simp: in_set_conv_nth)
  ultimately have "sv_dist vs j \<le> sv_dist vs i + m" using i j path_snoc.hyps(2) path_snoc.prems(1) by (simp add: settled_def)
  then show ?case using j i(3) by (intro exI [of _ j]) simp
qed

lemma dist_finite: "d \<noteq> OSPF_INFINITY \<longleftrightarrow> unat d < unat OSPF_INFINITY"
proof -
  have "d \<noteq> OSPF_INFINITY \<longleftrightarrow> unat d \<noteq> unat OSPF_INFINITY" using word_unat_eq_iff by blast
  moreover have "unat d \<le> unat OSPF_INFINITY" using OSPF_INFINITY_max [of d] unfolding word_le_nat_alt .
  ultimately show ?thesis by linarith
qed

lemma spf_vertices_outcome:
  assumes "length lsdb \<le> OSPF_LSDB_SIZE" "\<forall>e \<in> set lsdb. le_valid e \<noteq> 0 \<longrightarrow> lsa_ok e"
  shows "\<exists>vs. spf_vertices r lsdb = Some (Inr vs) \<and> vs \<noteq> [] \<and> distinct (map sv_router_id vs) \<and> sv_router_id (vs ! 0) = r \<and> sv_distance (vs ! 0) = 0 \<and>
    (\<forall>i < length vs. sv_distance (vs ! i) \<noteq> OSPF_INFINITY \<longrightarrow> ospf_distance lsdb r (sv_router_id (vs ! i)) (sv_dist vs i) \<and>
       (i \<noteq> 0 \<longrightarrow> (\<exists>h < length vs. sv_first_hop (vs ! i) = int h \<and>
          ospf_first_hop lsdb r (sv_router_id (vs ! i)) (sv_dist vs i) (sv_router_id (vs ! h))))) \<and>
    (\<forall>v d. ospf_distance lsdb r v d \<longrightarrow> (\<exists>i < length vs. sv_router_id (vs ! i) = v \<and> sv_dist vs i = d))"
proof -
  have root: "fresh_vertices r [spf_root r]" by (simp add: fresh_vertices_def) (simp add: spf_root_def)
  obtain v1 where 1: "spf_build lsdb [spf_root r] = Some (Inr v1)" "fresh_vertices r v1" "\<forall>u v m. ospf_edge lsdb u v m \<longrightarrow> v \<in> sv_router_id ` set v1"
    using spf_build_outcome [OF root _ assms(2)] assms(1) by (auto simp: OSPF_SPF_MAX_NODES_def OSPF_LSDB_SIZE_def OSPF_MAX_LSA_LINKS_def)
  have fresh: "\<forall>i < length v1. sv_visited (v1 ! i) \<noteq> 0 \<longrightarrow> settled lsdb v1 i" using 1(2) by (simp add: fresh_vertices_def)
  have "spf_inv lsdb r v1" using fresh_inv [OF 1(2)] 1(3) by blast
  from spf_loop_outcome [OF this fresh assms(2)] obtain vs where 2: "spf_loop lsdb v1 = Some (Inr vs)" "spf_inv lsdb r vs"
    "\<forall>i < length vs. sv_distance (vs ! i) \<noteq> OSPF_INFINITY \<longrightarrow> settled lsdb vs i" by blast
  have uni: "i = j" if "i < length vs" "j < length vs" "sv_router_id (vs ! i) = sv_router_id (vs ! j)" for i j
    using 2(2) that nth_eq_iff_index_eq [of "map sv_router_id vs" i j] by (simp add: spf_inv_def)
  have short: "ospf_distance lsdb r (sv_router_id (vs ! i)) (sv_dist vs i)" if i: "i < length vs" "sv_distance (vs ! i) \<noteq> OSPF_INFINITY" for i
  proof -
    have "sv_dist vs i \<le> d" if "ospf_path lsdb r (sv_router_id (vs ! i)) d" for d
    proof (cases "d < unat OSPF_INFINITY")
      case True
      then show ?thesis using settled_shortest [OF 2(2,3) that True] uni i(1) by blast
    qed (use i(2) dist_finite in fastforce)
    then show ?thesis using i 2(2) dist_finite by (auto simp: ospf_distance_def spf_inv_def vertex_ok_def)
  qed
  have found: "\<exists>i < length vs. sv_router_id (vs ! i) = v \<and> sv_dist vs i = d" if d: "ospf_distance lsdb r v d" for v d
  proof -
    obtain i where i: "i < length vs" "sv_router_id (vs ! i) = v" "sv_dist vs i \<le> d"
      using settled_shortest [OF 2(2,3), of v d] d unfolding ospf_distance_def by blast
    then have "ospf_distance lsdb r v (sv_dist vs i)" using short [of i] dist_finite d by (auto simp: ospf_distance_def)
    then show ?thesis using i d by (intro exI [of _ i]) (simp add: ospf_distance_def le_antisym)
  qed
  have "spf_vertices r lsdb = Some (Inr vs)" using 1(1) 2(1) by (simp add: spf_vertices_def)
  then show ?thesis using 2(2) short found by (intro exI [of _ vs]) (auto simp: spf_inv_def vertex_ok_def)
qed

end
