(* ===== verification/Ospf.thy ===== *)
theory Ospf
  imports Host Ospf_Spf
begin

text \<open>
  OSPF (\<open>protocols/ospf.h\<close>, \<open>protocols/ospf.c\<close>): neighbours and hellos, the link-state database and the flooding of
  updates, the installation of the shortest paths as routes, and the three timers. States live in the heap \<open>w_ospfs\<close>.
  \<open>Ospf_Spf\<close> holds the shortest-path computation.
\<close>

section \<open>State\<close>

definition OSPF_VERSION :: u8 where "OSPF_VERSION = 2"
definition OSPF_PROTO_NUM :: u8 where "OSPF_PROTO_NUM = 89"
definition OSPF_ALLSPFROUTERS :: u32 where "OSPF_ALLSPFROUTERS = 0xE0000005"
definition OSPF_HELLO_INTERVAL_US :: u64 where "OSPF_HELLO_INTERVAL_US = 10000000"
definition OSPF_DEAD_INTERVAL_US :: u64 where "OSPF_DEAD_INTERVAL_US = 40000000"
definition OSPF_SPF_DELAY_US :: u64 where "OSPF_SPF_DELAY_US = 500000"
definition OSPF_MAX_NEIGHBORS :: nat where "OSPF_MAX_NEIGHBORS = 32"
definition OSPF_MAX_IFACES :: nat where "OSPF_MAX_IFACES = 16"
definition OSPF_TYPE_HELLO :: u8 where "OSPF_TYPE_HELLO = 1"
definition OSPF_TYPE_DBD :: u8 where "OSPF_TYPE_DBD = 2"
definition OSPF_TYPE_LSR :: u8 where "OSPF_TYPE_LSR = 3"
definition OSPF_TYPE_LSU :: u8 where "OSPF_TYPE_LSU = 4"
definition OSPF_TYPE_LSACK :: u8 where "OSPF_TYPE_LSACK = 5"

text \<open>The sizes of the packed structures.\<close>

definition sizeof_OspfHeader :: nat where "sizeof_OspfHeader = 24"
definition sizeof_OspfHello :: nat where "sizeof_OspfHello = 20"
definition sizeof_OspfLsaLink :: nat where "sizeof_OspfLsaLink = 12"
definition sizeof_OspfLsuHeader :: nat where "sizeof_OspfLsuHeader = 4"
definition sizeof_OspfLsaWire :: nat where "sizeof_OspfLsaWire = 16"

lemmas ospf_sizes = sizeof_OspfHeader_def sizeof_OspfHello_def sizeof_OspfLsaLink_def sizeof_OspfLsuHeader_def sizeof_OspfLsaWire_def

datatype OspfNbrState = OSPF_NBR_DOWN | OSPF_NBR_ATTEMPT | OSPF_NBR_INIT | OSPF_NBR_TWOWAY | OSPF_NBR_EXSTART | OSPF_NBR_EXCHANGE
  | OSPF_NBR_LOADING | OSPF_NBR_FULL

record OspfNeighbor =
  nb_router_id :: u32
  nb_ip_addr :: u32
  nb_state :: OspfNbrState
  nb_last_hello_ts :: u64
  nb_iface :: addr
  nb_valid :: int

record OspfIface =
  oi_iface :: addr
  oi_cost :: u16
  oi_valid :: int

record OspfState =
  os_router_id :: u32
  os_area_id :: u32
  os_neighbors :: "OspfNeighbor list"
  os_neighbor_count :: int
  os_lsdb :: "OspfLsaEntry list"
  os_lsdb_count :: int
  os_ifaces :: "OspfIface list"
  os_iface_count :: int
  os_sim :: addr
  os_router :: addr

record ospf_world = host_world +
  w_ospfs :: "addr \<rightharpoonup> OspfState"

definition ospf_at :: "addr \<Rightarrow> 'a ospf_world_scheme \<Rightarrow> OspfState option" where
  "ospf_at a w = (if a = NULL then None else w_ospfs w a)"

definition ospf_put :: "addr \<Rightarrow> OspfState \<Rightarrow> 'a ospf_world_scheme \<Rightarrow> 'a ospf_world_scheme" where
  "ospf_put a s w = w\<lparr>w_ospfs := (w_ospfs w)(a \<mapsto> s)\<rparr>"

definition as_ospf :: "vptr \<Rightarrow> addr option" where
  "as_ospf v = (case v of VNull \<Rightarrow> Some NULL | VOspf a \<Rightarrow> Some a | _ \<Rightarrow> None)"

text \<open>The packed messages.\<close>

definition OspfHeader :: "u8 \<Rightarrow> u8 \<Rightarrow> u16 \<Rightarrow> u32 \<Rightarrow> u32 \<Rightarrow> u16 \<Rightarrow> u16 \<Rightarrow> u32 \<Rightarrow> u32 \<Rightarrow> bytes" where
  "OspfHeader version ty len router_id area_id checksum au_type auth_data_0 auth_data_1 =
     [version, ty] @ put16 len @ put32 router_id @ put32 area_id @ put16 checksum @ put16 au_type @ put32 auth_data_0 @ put32 auth_data_1"

definition OspfHello :: "u32 \<Rightarrow> u16 \<Rightarrow> u8 \<Rightarrow> u8 \<Rightarrow> u32 \<Rightarrow> u32 \<Rightarrow> u32 \<Rightarrow> bytes" where
  "OspfHello network_mask hello_interval options router_priority dead_interval dr bdr =
     put32 network_mask @ put16 hello_interval @ [options, router_priority] @ put32 dead_interval @ put32 dr @ put32 bdr"

definition OspfLsuHeader :: "u16 \<Rightarrow> u16 \<Rightarrow> bytes" where
  "OspfLsuHeader lsa_count reserved = put16 lsa_count @ put16 reserved"

definition OspfLsaWire :: "u32 \<Rightarrow> u32 \<Rightarrow> u32 \<Rightarrow> u16 \<Rightarrow> u8 \<Rightarrow> u8 \<Rightarrow> bytes" where
  "OspfLsaWire lsa_id adv_router seq_num checksum lsa_type link_count =
     put32 lsa_id @ put32 adv_router @ put32 seq_num @ put16 checksum @ [lsa_type, link_count]"

definition wire_link :: "OspfLsaLink \<Rightarrow> bytes" where
  "wire_link l = put32 (ns_htonl (ol_link_id l)) @ put32 (ns_htonl (ol_link_data l)) @ [ol_type l, ol_num_tos l] @ put16 (ns_htons (ol_metric l))"

definition zero_neighbor :: OspfNeighbor where
  "zero_neighbor = \<lparr>nb_router_id = 0, nb_ip_addr = 0, nb_state = OSPF_NBR_DOWN, nb_last_hello_ts = 0, nb_iface = NULL, nb_valid = 0\<rparr>"

definition zero_link :: OspfLsaLink where
  "zero_link = \<lparr>ol_link_id = 0, ol_link_data = 0, ol_type = 0, ol_num_tos = 0, ol_metric = 0\<rparr>"

definition zero_lsa :: OspfLsaEntry where
  "zero_lsa = \<lparr>le_lsa_id = 0, le_adv_router = 0, le_seq_num = 0, le_checksum = 0, le_lsa_type = 0, le_valid = 0,
     le_links = replicate OSPF_MAX_LSA_LINKS zero_link, le_link_count = 0\<rparr>"

section \<open>Set-up\<close>

definition ospf_schedule_periodic :: "addr \<Rightarrow> EventType \<Rightarrow> u64 \<Rightarrow> EventCallback \<Rightarrow> addr \<Rightarrow> 'a ospf_world_scheme \<Rightarrow>
    'a ospf_world_scheme option" where
  "ospf_schedule_periodic sim ty delay handler state w =
     (if sim = NULL then Some w
      else do {
        m \<leftarrow> sim_at sim w;
        if sim_sched m = NULL then Some w
        else do {
          sch \<leftarrow> sched_at (sim_sched m) w;
          case event_create_callback ty (sch_now sch + delay) VNull VNull NULL VNull handler (VOspf state) w of
            (None, w) \<Rightarrow> Some w
          | (Some event, w) \<Rightarrow> do { (_, w) \<leftarrow> scheduler_schedule (sim_sched m) (Some event) w; Some w }
        }
      })"

definition ospf_init :: "addr \<Rightarrow> addr \<Rightarrow> addr \<Rightarrow> u32 \<Rightarrow> 'a ospf_world_scheme \<Rightarrow> 'a ospf_world_scheme option" where
  "ospf_init state sim router router_id w =
     (if state = NULL then Some w
      else do {
        let w = ospf_put state \<lparr>os_router_id = router_id, os_area_id = 0, os_neighbors = replicate OSPF_MAX_NEIGHBORS zero_neighbor,
          os_neighbor_count = 0, os_lsdb = replicate OSPF_LSDB_SIZE zero_lsa, os_lsdb_count = 0,
          os_ifaces = replicate OSPF_MAX_IFACES \<lparr>oi_iface = NULL, oi_cost = 0, oi_valid = 0\<rparr>, os_iface_count = 0,
          os_sim = sim, os_router = router\<rparr> w;
        w \<leftarrow> ospf_schedule_periodic sim EVT_OSPF_HELLO OSPF_HELLO_INTERVAL_US Cb_ospf_hello_timer state w;
        ospf_schedule_periodic sim EVT_OSPF_DEAD OSPF_DEAD_INTERVAL_US Cb_ospf_dead_timer state w
      })"

definition ospf_enable_iface :: "OspfState option \<Rightarrow> addr \<Rightarrow> u16 \<Rightarrow> int \<times> OspfState option" where
  "ospf_enable_iface state iface cost = (case state of None \<Rightarrow> (- 1, None) | Some s \<Rightarrow>
     if iface = NULL then (- 1, state)
     else if cost = 0 then (- 1, state)
     else (case first_idx (\<lambda>slot. oi_iface slot = iface \<and> oi_valid slot = 1) (os_ifaces s) of
         Some i \<Rightarrow> (0, Some (s\<lparr>os_ifaces := (os_ifaces s)[i := (os_ifaces s ! i)\<lparr>oi_cost := cost\<rparr>]\<rparr>))
       | None \<Rightarrow>
           if int OSPF_MAX_IFACES \<le> os_iface_count s then (- 1, state)
           else (case first_idx (\<lambda>slot. oi_valid slot = 0) (os_ifaces s) of
               None \<Rightarrow> (- 1, state)
             | Some i \<Rightarrow> (0, Some (s\<lparr>os_ifaces := (os_ifaces s)[i := \<lparr>oi_iface = iface, oi_cost = cost, oi_valid = 1\<rparr>],
                 os_iface_count := os_iface_count s + 1\<rparr>)))))"

section \<open>Sending\<close>

text \<open>The neighbours that a hello on an interface lists.\<close>

definition hello_lists :: "addr \<Rightarrow> OspfNeighbor \<Rightarrow> bool" where
  "hello_lists iface neighbor \<longleftrightarrow> nb_valid neighbor \<noteq> 0 \<and> nb_iface neighbor = iface \<and> nb_state neighbor \<noteq> OSPF_NBR_DOWN"

fun hello_ids :: "addr \<Rightarrow> OspfNeighbor list \<Rightarrow> nat \<Rightarrow> Packet \<Rightarrow> (nat \<times> Packet) option" where
  "hello_ids iface [] neighbor_idx p = Some (neighbor_idx, p)"
| "hello_ids iface (neighbor # neighbors) neighbor_idx p =
     (if \<not> hello_lists iface neighbor then hello_ids iface neighbors neighbor_idx p
      else do {
        p \<leftarrow> pkt_write (sizeof_OspfHeader + sizeof_OspfHello + 4 * neighbor_idx) (put32 (ns_htonl (nb_router_id neighbor))) p;
        hello_ids iface neighbors (neighbor_idx + 1) p
      })"

text \<open>The header that both kinds of messages start with.\<close>

definition ospf_header :: "OspfState \<Rightarrow> u8 \<Rightarrow> u16 \<Rightarrow> bytes" where
  "ospf_header s ty len = OspfHeader OSPF_VERSION ty (ns_htons len) (ns_htonl (os_router_id s)) (ns_htonl (os_area_id s)) 0 (ns_htons 0) 0 0"

text \<open>The output at the end of both: the packet is freed whatever \<open>ip_output\<close> returns.\<close>

definition ospf_transmit :: "addr \<Rightarrow> u32 \<Rightarrow> addr \<Rightarrow> 'a ospf_world_scheme \<Rightarrow> (int \<times> 'a ospf_world_scheme) option" where
  "ospf_transmit sim src_ip pkt w = do {
     (res, w) \<leftarrow> ip_output sim src_ip OSPF_ALLSPFROUTERS OSPF_PROTO_NUM pkt w;
     w \<leftarrow> packet_free pkt w;
     Some (if res < 0 then - 1 else 0, w)
   }"

definition ospf_send_hello :: "addr \<Rightarrow> addr \<Rightarrow> 'a ospf_world_scheme \<Rightarrow> (int \<times> 'a ospf_world_scheme) option" where
  "ospf_send_hello state iface w =
     (if state = NULL \<or> iface = NULL then Some (- 1, w)
      else do {
        s \<leftarrow> ospf_at state w;
        if os_sim s = NULL then Some (- 1, w)
        else do {
          i \<leftarrow> iface_at iface w;
          if 32 < if_prefix_len i then Some (- 1, w)
          else do {
            let neighbor_count = length (filter (hello_lists iface) (os_neighbors s));
            let payload_len = (of_nat (sizeof_OspfHeader + sizeof_OspfHello + neighbor_count * 4) :: u16);
            let (pkt, w) = packet_create (unat payload_len) w;
            if pkt = NULL then Some (- 1, w)
            else do {
              p \<leftarrow> pkt_at pkt w;
              let p = p\<lparr>pkt_len := unat payload_len\<rparr>;
              p \<leftarrow> pkt_write 0 (ospf_header s OSPF_TYPE_HELLO payload_len) p;
              p \<leftarrow> pkt_write sizeof_OspfHeader (OspfHello (ns_htonl (ipv4_prefix_mask (if_prefix_len i))) (ns_htons (ucast (OSPF_HELLO_INTERVAL_US div 1000000)))
                0 0 (ns_htonl (ucast (OSPF_DEAD_INTERVAL_US div 1000000))) (ns_htonl 0) (ns_htonl 0)) p;
              (neighbor_idx, p) \<leftarrow> hello_ids iface (os_neighbors s) 0 p;
              let w = pkt_put pkt p w;
              if neighbor_idx \<noteq> neighbor_count then do { w \<leftarrow> packet_free pkt w; Some (- 1, w) }
              else ospf_transmit (os_sim s) (ns_ntohl (if_ip_addr i)) pkt w
            }
          }
        }
      })"

text \<open>The loop over the links of an LSA that is flooded.\<close>

fun flood_links :: "OspfLsaEntry \<Rightarrow> nat list \<Rightarrow> Packet \<Rightarrow> Packet option" where
  "flood_links lsa [] p = Some p"
| "flood_links lsa (k # ks) p = do {
     l \<leftarrow> lsa_link lsa k;
     p \<leftarrow> pkt_write (sizeof_OspfHeader + sizeof_OspfLsuHeader + sizeof_OspfLsaWire + k * sizeof_OspfLsaLink) (wire_link l) p;
     flood_links lsa ks p
   }"

text \<open>The LSU for one interface, and the loop over the interfaces.\<close>

definition flood_on :: "OspfState \<Rightarrow> OspfLsaEntry \<Rightarrow> u32 \<Rightarrow> 'a ospf_world_scheme \<Rightarrow> (int \<times> 'a ospf_world_scheme) option" where
  "flood_on s lsa src_ip w = do {
     let total_len = sizeof_OspfHeader + sizeof_OspfLsuHeader + sizeof_OspfLsaWire + nat (le_link_count lsa) * sizeof_OspfLsaLink;
     let (pkt, w) = packet_create total_len w;
     if pkt = NULL then Some (- 1, w)
     else do {
       p \<leftarrow> pkt_at pkt w;
       let p = p\<lparr>pkt_len := total_len\<rparr>;
       p \<leftarrow> pkt_write 0 (ospf_header s OSPF_TYPE_LSU (of_nat total_len)) p;
       p \<leftarrow> pkt_write sizeof_OspfHeader (OspfLsuHeader (ns_htons 1) (ns_htons 0)) p;
       p \<leftarrow> pkt_write (sizeof_OspfHeader + sizeof_OspfLsuHeader) (OspfLsaWire (ns_htonl (le_lsa_id lsa)) (ns_htonl (le_adv_router lsa))
         (ns_htonl (le_seq_num lsa)) (ns_htons (le_checksum lsa)) (le_lsa_type lsa) (of_int (le_link_count lsa))) p;
       p \<leftarrow> flood_links lsa (lsa_indices lsa) p;
       ospf_transmit (os_sim s) src_ip pkt (pkt_put pkt p w)
     }
   }"

fun flood_ifaces :: "OspfState \<Rightarrow> OspfLsaEntry \<Rightarrow> addr \<Rightarrow> OspfIface list \<Rightarrow> 'a ospf_world_scheme \<Rightarrow> (int \<times> 'a ospf_world_scheme) option" where
  "flood_ifaces s lsa except_iface [] w = Some (0, w)"
| "flood_ifaces s lsa except_iface (slot # slots) w =
     (if oi_valid slot = 0 \<or> oi_iface slot = NULL then flood_ifaces s lsa except_iface slots w
      else do {
        out_iface \<leftarrow> iface_at (oi_iface slot) w;
        if oi_iface slot = except_iface then flood_ifaces s lsa except_iface slots w
        else do {
          (res, w) \<leftarrow> flood_on s lsa (ns_ntohl (if_ip_addr out_iface)) w;
          if res < 0 then Some (- 1, w) else flood_ifaces s lsa except_iface slots w
        }
      })"

definition ospf_flood_lsa :: "addr \<Rightarrow> OspfLsaEntry option \<Rightarrow> addr \<Rightarrow> 'a ospf_world_scheme \<Rightarrow> (int \<times> 'a ospf_world_scheme) option" where
  "ospf_flood_lsa state lsa except_iface w =
     (if state = NULL then Some (- 1, w)
      else (case lsa of None \<Rightarrow> Some (- 1, w) | Some lsa \<Rightarrow> do {
        s \<leftarrow> ospf_at state w;
        if os_sim s = NULL \<or> os_router s = NULL then Some (- 1, w)
        else if le_link_count lsa < 0 \<or> int OSPF_MAX_LSA_LINKS < le_link_count lsa then Some (- 1, w)
        else flood_ifaces s lsa except_iface (os_ifaces s) w
      }))"

section \<open>Reception\<close>

definition ospf_error :: "addr \<Rightarrow> addr \<Rightarrow> 'a ospf_world_scheme \<Rightarrow> (int \<times> 'a ospf_world_scheme) option" where
  "ospf_error iface pkt w = do { w \<leftarrow> packet_free pkt w; w \<leftarrow> count_rx_error iface w; Some (- 1, w) }"

definition ospf_drop :: "addr \<Rightarrow> addr \<Rightarrow> 'a ospf_world_scheme \<Rightarrow> (int \<times> 'a ospf_world_scheme) option" where
  "ospf_drop iface pkt w = do { w \<leftarrow> packet_free pkt w; w \<leftarrow> count_rx_drop iface w; Some (- 1, w) }"

text \<open>Whether the neighbours that a hello lists contain the local router.\<close>

fun local_id_in :: "u32 \<Rightarrow> Packet \<Rightarrow> nat list \<Rightarrow> bool option" where
  "local_id_in router_id p [] = Some False"
| "local_id_in router_id p (i # is) = do {
     b \<leftarrow> pkt_read p (sizeof_OspfHeader + sizeof_OspfHello + 4 * i) 4;
     seen \<leftarrow> local_id_in router_id p is;
     Some (ns_ntohl (get32 b 0) = router_id \<or> seen)
   }"

text \<open>The slot for the sender of a hello and the new \<open>neighbor_count\<close>.\<close>

definition neighbor_slot :: "u32 \<Rightarrow> OspfState \<Rightarrow> (nat \<times> int) option" where
  "neighbor_slot sender s = (case first_idx (\<lambda>n. nb_valid n \<noteq> 0 \<and> nb_router_id n = sender) (os_neighbors s) of
       Some i \<Rightarrow> Some (i, os_neighbor_count s)
     | None \<Rightarrow> map_option (\<lambda>i. (i, os_neighbor_count s + 1)) (first_idx (\<lambda>n. nb_valid n = 0) (os_neighbors s)))"

definition ospf_receive_hello :: "addr \<Rightarrow> OspfState \<Rightarrow> addr \<Rightarrow> Interface \<Rightarrow> addr \<Rightarrow> Packet \<Rightarrow> u32 \<Rightarrow> u32 \<Rightarrow> nat \<Rightarrow> u64 \<Rightarrow>
    'a ospf_world_scheme \<Rightarrow> (int \<times> 'a ospf_world_scheme) option" where
  "ospf_receive_hello state s iface i pkt p sender_ip sender_router_id len now w =
     (if len < sizeof_OspfHeader + sizeof_OspfHello then ospf_error iface pkt w
      else do {
        hello \<leftarrow> pkt_read p sizeof_OspfHeader sizeof_OspfHello;
        let network_mask = ns_ntohl (get32 hello 0);
        let hello_interval = ns_ntohs (get16 hello 4);
        let dead_interval = ns_ntohl (get32 hello 8);
        let neighbor_bytes = len - sizeof_OspfHeader - sizeof_OspfHello;
        if neighbor_bytes mod 4 \<noteq> 0 then ospf_error iface pkt w
        else if sender_router_id = os_router_id s \<or> network_mask \<noteq> ipv4_prefix_mask (if_prefix_len i) \<or>
            hello_interval \<noteq> ucast (OSPF_HELLO_INTERVAL_US div 1000000) \<or> dead_interval \<noteq> ucast (OSPF_DEAD_INTERVAL_US div 1000000)
          then ospf_drop iface pkt w
        else do {
          local_id_seen \<leftarrow> local_id_in (os_router_id s) p [0..<neighbor_bytes div 4];
          case neighbor_slot sender_router_id s of
            None \<Rightarrow> ospf_drop iface pkt w
          | Some (k, cnt) \<Rightarrow> do {
              let neighbor = \<lparr>nb_router_id = sender_router_id, nb_ip_addr = sender_ip,
                nb_state = if local_id_seen then OSPF_NBR_FULL else OSPF_NBR_INIT, nb_last_hello_ts = now, nb_iface = iface, nb_valid = 1\<rparr>;
              w \<leftarrow> packet_free pkt (ospf_put state (s\<lparr>os_neighbors := (os_neighbors s)[k := neighbor], os_neighbor_count := cnt\<rparr>) w);
              Some (0, w)
            }
        }
      })"

text \<open>Parsing an LSU. \<open>Inl\<close> is an exit with an error; the position is that of \<open>cursor\<close> relative to \<open>data\<close>.\<close>

fun parse_links :: "Packet \<Rightarrow> nat \<Rightarrow> nat list \<Rightarrow> OspfLsaEntry \<Rightarrow> OspfLsaEntry option" where
  "parse_links p cursor [] parsed = Some parsed"
| "parse_links p cursor (k # ks) parsed = do {
     b \<leftarrow> pkt_read p (cursor + k * sizeof_OspfLsaLink) sizeof_OspfLsaLink;
     _ \<leftarrow> lsa_link parsed k;
     parse_links p cursor ks (parsed\<lparr>le_links := (le_links parsed)[k := \<lparr>ol_link_id = ns_ntohl (get32 b 0), ol_link_data = ns_ntohl (get32 b 4),
       ol_type = b ! 8, ol_num_tos = b ! 9, ol_metric = ns_ntohs (get16 b 10)\<rparr>]\<rparr>)
   }"

fun parse_lsas :: "Packet \<Rightarrow> nat \<Rightarrow> nat \<Rightarrow> nat \<Rightarrow> (unit + OspfLsaEntry list \<times> nat) option" where
  "parse_lsas p 0 cursor remaining = Some (Inr ([], remaining))"
| "parse_lsas p (Suc n) cursor remaining =
     (if remaining < sizeof_OspfLsaWire then Some (Inl ())
      else do {
        b \<leftarrow> pkt_read p cursor sizeof_OspfLsaWire;
        let parsed = zero_lsa\<lparr>le_lsa_id := ns_ntohl (get32 b 0), le_adv_router := ns_ntohl (get32 b 4), le_seq_num := ns_ntohl (get32 b 8),
          le_checksum := ns_ntohs (get16 b 12), le_lsa_type := b ! 14, le_link_count := uint (b ! 15)\<rparr>;
        let cursor = cursor + sizeof_OspfLsaWire;
        let remaining = remaining - sizeof_OspfLsaWire;
        if int OSPF_MAX_LSA_LINKS < le_link_count parsed then Some (Inl ())
        else if remaining < nat (le_link_count parsed) * sizeof_OspfLsaLink then Some (Inl ())
        else do {
          parsed \<leftarrow> parse_links p cursor (lsa_indices parsed) parsed;
          let link_bytes = nat (le_link_count parsed) * sizeof_OspfLsaLink;
          r \<leftarrow> parse_lsas p n (cursor + link_bytes) (remaining - link_bytes);
          Some (case r of Inl _ \<Rightarrow> Inl () | Inr (lsas, remaining) \<Rightarrow> Inr (parsed # lsas, remaining))
        }
      })"

text \<open>Storing one parsed LSA: the database, \<open>lsdb_count\<close> and \<open>changed_slots\<close>, an array of \<open>OSPF_LSDB_SIZE\<close> indices.\<close>

definition lsdb_index :: "OspfLsaEntry \<Rightarrow> OspfLsaEntry list \<Rightarrow> nat option" where
  "lsdb_index parsed lsdb =
     (case first_idx (\<lambda>e. le_valid e \<noteq> 0 \<and> le_lsa_id e = le_lsa_id parsed \<and> le_adv_router e = le_adv_router parsed) lsdb of
        Some k \<Rightarrow> if le_seq_num parsed \<le> le_seq_num (lsdb ! k) then None else Some k
      | None \<Rightarrow> first_idx (\<lambda>e. le_valid e = 0) lsdb)"

fun lsdb_store :: "OspfLsaEntry list \<Rightarrow> OspfLsaEntry list \<Rightarrow> int \<Rightarrow> nat list \<Rightarrow> (OspfLsaEntry list \<times> int \<times> nat list) option" where
  "lsdb_store [] lsdb cnt changed = Some (lsdb, cnt, changed)"
| "lsdb_store (parsed # rest) lsdb cnt changed = (case lsdb_index parsed lsdb of
       None \<Rightarrow> lsdb_store rest lsdb cnt changed
     | Some k \<Rightarrow> do {
         let cnt = (if le_valid (lsdb ! k) = 0 then cnt + 1 else cnt);
         let lsdb = lsdb[k := parsed\<lparr>le_valid := 1\<rparr>];
         if k \<in> set changed then lsdb_store rest lsdb cnt changed
         else if OSPF_LSDB_SIZE \<le> length changed then None
         else lsdb_store rest lsdb cnt (changed @ [k])
       })"

fun flood_changed :: "addr \<Rightarrow> addr \<Rightarrow> nat list \<Rightarrow> bool \<Rightarrow> 'a ospf_world_scheme \<Rightarrow> (bool \<times> 'a ospf_world_scheme) option" where
  "flood_changed state iface [] failed w = Some (failed, w)"
| "flood_changed state iface (k # ks) failed w = do {
     s \<leftarrow> ospf_at state w;
     (r, w) \<leftarrow> ospf_flood_lsa state (Some (os_lsdb s ! k)) iface w;
     flood_changed state iface ks (failed \<or> r = - 1) w
   }"

definition ospf_schedule_spf :: "addr \<Rightarrow> addr \<Rightarrow> u64 \<Rightarrow> 'a ospf_world_scheme \<Rightarrow> (int \<times> 'a ospf_world_scheme) option" where
  "ospf_schedule_spf state sched now w =
     (case event_create_callback EVT_OSPF_SPF (now + OSPF_SPF_DELAY_US) VNull VNull NULL VNull Cb_ospf_spf_timer (VOspf state) w of
        (None, w) \<Rightarrow> Some (- 1, w)
      | (Some e, w) \<Rightarrow> do { (r, w) \<leftarrow> scheduler_schedule sched (Some e) w; Some (if r \<noteq> 0 then - 1 else 0, w) })"

definition ospf_receive_lsu :: "addr \<Rightarrow> OspfState \<Rightarrow> addr \<Rightarrow> addr \<Rightarrow> Packet \<Rightarrow> nat \<Rightarrow> addr \<Rightarrow> 'a ospf_world_scheme \<Rightarrow>
    (int \<times> 'a ospf_world_scheme) option" where
  "ospf_receive_lsu state s iface pkt p len sched w =
     (if len < sizeof_OspfHeader + sizeof_OspfLsuHeader then ospf_error iface pkt w
      else do {
        b \<leftarrow> pkt_read p sizeof_OspfHeader sizeof_OspfLsuHeader;
        let lsa_count = unat (ns_ntohs (get16 b 0));
        if OSPF_LSDB_SIZE < lsa_count then ospf_error iface pkt w
        else do {
          r \<leftarrow> parse_lsas p lsa_count (sizeof_OspfHeader + sizeof_OspfLsuHeader) (len - sizeof_OspfHeader - sizeof_OspfLsuHeader);
          case r of
            Inl _ \<Rightarrow> ospf_error iface pkt w
          | Inr (parsed_lsas, remaining) \<Rightarrow>
              if remaining \<noteq> 0 then ospf_error iface pkt w
              else do {
                (lsdb, cnt, changed) \<leftarrow> lsdb_store parsed_lsas (os_lsdb s) (os_lsdb_count s) [];
                let w = ospf_put state (s\<lparr>os_lsdb := lsdb, os_lsdb_count := cnt\<rparr>) w;
                (failed, w) \<leftarrow> flood_changed state iface changed False w;
                (failed, w) \<leftarrow> (if changed = [] then Some (failed, w)
                  else do {
                    sch \<leftarrow> sched_at sched w;
                    (r, w) \<leftarrow> ospf_schedule_spf state sched (sch_now sch) w;
                    Some (failed \<or> r \<noteq> 0, w)
                  });
                w \<leftarrow> packet_free pkt w;
                if failed then do { w \<leftarrow> count_rx_error iface w; Some (- 1, w) } else Some (0, w)
              }
        }
      })"

definition ospf_receive :: "addr \<Rightarrow> addr \<Rightarrow> vptr \<Rightarrow> 'a ospf_world_scheme \<Rightarrow> (int \<times> 'a ospf_world_scheme) option" where
  "ospf_receive iface pkt ctx w =
     (if iface = NULL then Some (- 1, w)
      else if pkt = NULL then do { w \<leftarrow> count_rx_error iface w; Some (- 1, w) }
      else do {
        state \<leftarrow> as_ospf ctx;
        if state = NULL then ospf_error iface pkt w
        else do {
          i \<leftarrow> iface_at iface w;
          if 32 < if_prefix_len i then ospf_error iface pkt w
          else do {
            s \<leftarrow> ospf_at state w;
            if os_sim s = NULL then ospf_error iface pkt w
            else do {
              m \<leftarrow> sim_at (os_sim s) w;
              if sim_sched m = NULL \<or> os_router s = NULL then ospf_error iface pkt w
              else do {
                p \<leftarrow> pkt_at pkt w;
                if packet_validate_view (Some p) IP_HDR_LEN sizeof_OspfHeader \<noteq> 0 then ospf_error iface pkt w
                else do {
                  ip_header \<leftarrow> ip_before p;
                  if ih_protocol (ip_load ip_header) \<noteq> OSPF_PROTO_NUM then ospf_error iface pkt w
                  else do {
                    let sender_ip = ns_ntohl (ih_src_ip (ip_load ip_header));
                    header \<leftarrow> pkt_read p 0 sizeof_OspfHeader;
                    let len = unat (ns_ntohs (get16 header 2));
                    let sender_router_id = ns_ntohl (get32 header 4);
                    if header ! 0 \<noteq> OSPF_VERSION then ospf_error iface pkt w
                    else if ns_ntohl (get32 header 8) \<noteq> os_area_id s then ospf_drop iface pkt w
                    else if len \<noteq> pkt_len p \<or> len < sizeof_OspfHeader then ospf_error iface pkt w
                    else if ns_ntohs (get16 header 12) \<noteq> 0 then ospf_error iface pkt w
                    else if ns_ntohs (get16 header 14) \<noteq> 0 \<or> get32 header 16 \<noteq> 0 \<or> get32 header 20 \<noteq> 0 then ospf_error iface pkt w
                    else if header ! 1 = OSPF_TYPE_HELLO then do {
                      sch \<leftarrow> sched_at (sim_sched m) w;
                      ospf_receive_hello state s iface i pkt p sender_ip sender_router_id len (sch_now sch) w
                    }
                    else if header ! 1 = OSPF_TYPE_LSU then ospf_receive_lsu state s iface pkt p len (sim_sched m) w
                    else if header ! 1 = OSPF_TYPE_DBD \<or> header ! 1 = OSPF_TYPE_LSR \<or> header ! 1 = OSPF_TYPE_LSACK
                    then do { w \<leftarrow> packet_free pkt w; Some (0, w) }
                    else ospf_error iface pkt w
                  }
                }
              }
            }
          }
        }
      })"

section \<open>Routes\<close>

definition spf_neighbor :: "u32 \<Rightarrow> OspfNeighbor \<Rightarrow> bool" where
  "spf_neighbor first_hop_router_id n \<longleftrightarrow> nb_valid n \<noteq> 0 \<and> nb_router_id n = first_hop_router_id \<and> nb_state n \<noteq> OSPF_NBR_DOWN \<and> nb_iface n \<noteq> NULL"

fun spf_routes :: "OspfState \<Rightarrow> OspfSpfVertex list \<Rightarrow> OspfSpfVertex list \<Rightarrow> 'a ospf_world_scheme \<Rightarrow> (int \<times> 'a ospf_world_scheme) option" where
  "spf_routes s vertices [] w = Some (0, w)"
| "spf_routes s vertices (route_vertex # rest) w =
     (if sv_distance route_vertex = OSPF_INFINITY then spf_routes s vertices rest w
      else if sv_first_hop route_vertex < 0 \<or> int (length vertices) \<le> sv_first_hop route_vertex then Some (- 1, w)
      else (case first_idx (spf_neighbor (sv_router_id (vertices ! nat (sv_first_hop route_vertex)))) (os_neighbors s) of
          None \<Rightarrow> spf_routes s vertices rest w
        | Some k \<Rightarrow> do {
            (res, w) \<leftarrow> router_add_route (os_router s) (sv_router_id route_vertex) 32 (nb_ip_addr (os_neighbors s ! k)) (nb_iface (os_neighbors s ! k))
              (sv_distance route_vertex) ROUTE_PROTO_OSPF w;
            if res \<noteq> 0 then Some (- 1, w) else spf_routes s vertices rest w
          }))"

definition ospf_run_spf :: "addr \<Rightarrow> 'a ospf_world_scheme \<Rightarrow> (int \<times> 'a ospf_world_scheme) option" where
  "ospf_run_spf state w =
     (if state = NULL then Some (- 1, w)
      else do {
        s \<leftarrow> ospf_at state w;
        if os_router s = NULL then Some (- 1, w)
        else do {
          r \<leftarrow> spf_vertices (os_router_id s) (os_lsdb s);
          case r of
            Inl res \<Rightarrow> Some (res, w)
          | Inr vertices \<Rightarrow> do {
              (_, w) \<leftarrow> on_route_tbl (os_router s) (\<lambda>t. route_table_flush_proto t ROUTE_PROTO_OSPF) w;
              spf_routes s vertices (tl vertices) w
            }
        }
      })"

section \<open>Timers\<close>

fun hello_ifaces :: "addr \<Rightarrow> OspfIface list \<Rightarrow> 'a ospf_world_scheme \<Rightarrow> 'a ospf_world_scheme option" where
  "hello_ifaces state [] w = Some w"
| "hello_ifaces state (slot # slots) w =
     (if oi_valid slot = 0 \<or> oi_iface slot = NULL then hello_ifaces state slots w
      else do { (_, w) \<leftarrow> ospf_send_hello state (oi_iface slot) w; hello_ifaces state slots w })"

definition ospf_hello_timer :: "Event \<Rightarrow> vptr \<Rightarrow> 'a ospf_world_scheme \<Rightarrow> 'a ospf_world_scheme option" where
  "ospf_hello_timer e ctx w = do {
     state \<leftarrow> as_ospf ctx;
     if state = NULL then Some w
     else do {
       s \<leftarrow> ospf_at state w;
       w \<leftarrow> hello_ifaces state (os_ifaces s) w;
       ospf_schedule_periodic (os_sim s) EVT_OSPF_HELLO OSPF_HELLO_INTERVAL_US Cb_ospf_hello_timer state w
     }
   }"

definition nbr_dead :: "u64 \<Rightarrow> OspfNeighbor \<Rightarrow> bool" where
  "nbr_dead now n \<longleftrightarrow> nb_valid n \<noteq> 0 \<and> nb_state n \<noteq> OSPF_NBR_DOWN \<and> \<not> now < nb_last_hello_ts n \<and>
     \<not> now - nb_last_hello_ts n < OSPF_DEAD_INTERVAL_US"

fun dead_slots :: "u64 \<Rightarrow> OspfNeighbor list \<Rightarrow> bool \<Rightarrow> OspfNeighbor list \<times> bool" where
  "dead_slots now [] changed = ([], changed)"
| "dead_slots now (n # ns) changed =
     (if nbr_dead now n then (case dead_slots now ns True of (ns, c) \<Rightarrow> (n\<lparr>nb_state := OSPF_NBR_DOWN\<rparr> # ns, c))
      else (case dead_slots now ns changed of (ns, c) \<Rightarrow> (n # ns, c)))"

definition ospf_dead_timer :: "Event \<Rightarrow> vptr \<Rightarrow> 'a ospf_world_scheme \<Rightarrow> 'a ospf_world_scheme option" where
  "ospf_dead_timer e ctx w = do {
     state \<leftarrow> as_ospf ctx;
     if state = NULL then Some w
     else do {
       s \<leftarrow> ospf_at state w;
       if os_sim s = NULL then Some w
       else do {
         m \<leftarrow> sim_at (os_sim s) w;
         if sim_sched m = NULL then Some w
         else do {
           sch \<leftarrow> sched_at (sim_sched m) w;
           let (neighbors, neighbor_changed) = dead_slots (sch_now sch) (os_neighbors s) False;
           let w = ospf_put state (s\<lparr>os_neighbors := neighbors\<rparr>) w;
           w \<leftarrow> (if neighbor_changed then map_option snd (ospf_schedule_spf state (sim_sched m) (sch_now sch) w) else Some w);
           ospf_schedule_periodic (os_sim s) EVT_OSPF_DEAD OSPF_DEAD_INTERVAL_US Cb_ospf_dead_timer state w
         }
       }
     }
   }"

definition ospf_spf_timer :: "Event \<Rightarrow> vptr \<Rightarrow> 'a ospf_world_scheme \<Rightarrow> 'a ospf_world_scheme option" where
  "ospf_spf_timer e ctx w = do {
     state \<leftarrow> as_ospf ctx;
     if state = NULL then Some w else map_option snd (ospf_run_spf state w)
   }"

end
