(* ===== verification/Ospf_Routes.thy ===== *)
theory Ospf_Routes
  imports Ospf
begin

text \<open>
  The correctness of OSPF as a routing protocol (\<open>ospf_run_spf\<close>, \<open>ospf_dead_timer\<close> of \<open>protocols/ospf.c\<close>): the
  invariant of its state, the routes that a run of the shortest-path computation leaves in the routing table, and the
  ageing of neighbours.
\<close>

section \<open>Well-formed states\<close>

interpretation nbrs: slot_array "\<lambda>n. nb_valid n \<noteq> 0" nb_router_id "\<lambda>n. n\<lparr>nb_valid := 0\<rparr>"
  by unfold_locales simp

interpretation lsas: slot_array "\<lambda>e. le_valid e \<noteq> 0" "\<lambda>e. (le_lsa_id e, le_adv_router e)" "\<lambda>e. e\<lparr>le_valid := 0\<rparr>"
  by unfold_locales simp

interpretation oifs: slot_array "\<lambda>i. oi_valid i \<noteq> 0" oi_iface "\<lambda>i. i\<lparr>oi_valid := 0\<rparr>"
  by unfold_locales simp

definition neighbors_wf :: "OspfNeighbor list \<Rightarrow> int \<Rightarrow> bool" where
  "neighbors_wf ns n \<longleftrightarrow> length ns = OSPF_MAX_NEIGHBORS \<and> nbrs.unique ns \<and> n = int (nbrs.live_count ns)"

definition lsdb_wf :: "OspfLsaEntry list \<Rightarrow> int \<Rightarrow> bool" where
  "lsdb_wf db n \<longleftrightarrow> length db = OSPF_LSDB_SIZE \<and> lsas.unique db \<and> n = int (lsas.live_count db) \<and> (\<forall>e \<in> set db. lsa_ok e)"

definition ifaces_wf :: "OspfIface list \<Rightarrow> int \<Rightarrow> bool" where
  "ifaces_wf is n \<longleftrightarrow> length is = OSPF_MAX_IFACES \<and> oifs.unique is \<and> n = int (oifs.live_count is) \<and>
     (\<forall>i \<in> set is. oi_valid i = 0 \<or> oi_valid i = 1 \<and> oi_iface i \<noteq> NULL \<and> oi_cost i \<noteq> 0)"

definition ospf_wf :: "OspfState \<Rightarrow> bool" where
  "ospf_wf s \<longleftrightarrow> neighbors_wf (os_neighbors s) (os_neighbor_count s) \<and> lsdb_wf (os_lsdb s) (os_lsdb_count s) \<and>
     ifaces_wf (os_ifaces s) (os_iface_count s)"

lemma ospf_wfD:
  assumes "ospf_wf s"
  shows "neighbors_wf (os_neighbors s) (os_neighbor_count s)" "lsdb_wf (os_lsdb s) (os_lsdb_count s)" "ifaces_wf (os_ifaces s) (os_iface_count s)"
  using assms by (simp_all add: ospf_wf_def)

lemma ospf_at_nonnull: "ospf_at a w = Some s \<Longrightarrow> a \<noteq> NULL"
  by (simp add: ospf_at_def split: if_splits)

section \<open>Routes\<close>

text \<open>The route to a vertex: through the neighbour that is the first hop.\<close>

definition spf_route :: "OspfState \<Rightarrow> OspfSpfVertex list \<Rightarrow> OspfSpfVertex \<Rightarrow> (u32 \<times> addr \<times> u32) option" where
  "spf_route s vs v = (if sv_distance v = OSPF_INFINITY then None
     else map_option (\<lambda>k. (nb_ip_addr (os_neighbors s ! k), nb_iface (os_neighbors s ! k), sv_distance v))
       (first_idx (spf_neighbor (sv_router_id (vs ! nat (sv_first_hop v)))) (os_neighbors s)))"

abbreviation spf_key :: "OspfSpfVertex \<Rightarrow> u32 \<times> u8 \<times> u8" where
  "spf_key v \<equiv> (sv_router_id v, 32, ROUTE_PROTO_OSPF)"

lemma prefix_32 [simp]: "x AND ipv4_prefix_mask 32 = x"
proof -
  have "ipv4_prefix_mask 32 = - 1" by (simp add: ipv4_prefix_mask_def)
  then show ?thesis by simp
qed

lemma router_put_same: "router_at a w = Some r \<Longrightarrow> router_put a r w = w"
  by (simp add: router_at_def router_put_def fun_upd_idem split: if_splits)

lemma spf_routes_outcome:
  assumes "router_at (os_router s) w = Some r" "route_table_wf (ro_route_tbl r)" "distinct (map sv_router_id rest)"
    and "\<forall>v \<in> set rest. sv_distance v \<noteq> OSPF_INFINITY \<longrightarrow> 0 \<le> sv_first_hop v \<and> sv_first_hop v < int (length vs)"
  shows "\<exists>res t'. spf_routes s vs rest w = Some (res, router_put (os_router s) (r\<lparr>ro_route_tbl := t'\<rparr>) w) \<and> route_table_wf t' \<and>
    (\<forall>k. rib_map t' k = rib_map (ro_route_tbl r) k \<or> (\<exists>v \<in> set rest. k = spf_key v \<and> spf_route s vs v \<noteq> None \<and> rib_map t' k = spf_route s vs v)) \<and>
    (res = 0 \<and> (\<forall>v \<in> set rest. spf_route s vs v \<noteq> None \<longrightarrow> rib_map t' (spf_key v) = spf_route s vs v) \<or>
     res = - 1 \<and> rt_rib_count t' = int ROUTE_RIB_SIZE)"
  using assms
proof (induction rest arbitrary: w r)
  case Nil
  then show ?case by (intro exI [of _ 0] exI [of _ "ro_route_tbl r"]) (simp add: router_put_same)
next
  case (Cons v rest)
  let ?rt = "os_router s"
  have nn: "?rt \<noteq> NULL" using Cons.prems(1) by (rule router_at_nonnull)
  have d: "distinct (map sv_router_id rest)"
    "\<forall>v \<in> set rest. sv_distance v \<noteq> OSPF_INFINITY \<longrightarrow> 0 \<le> sv_first_hop v \<and> sv_first_hop v < int (length vs)" using Cons.prems(3,4) by simp_all
  show ?case
  proof (cases "spf_route s vs v")
    case None
    then have "spf_routes s vs (v # rest) w = spf_routes s vs rest w" using Cons.prems(4) by (auto simp: spf_route_def)
    then show ?thesis using Cons.IH [OF Cons.prems(1,2) d] None by auto
  next
    case (Some x)
    then obtain k where k: "sv_distance v \<noteq> OSPF_INFINITY" "first_idx (spf_neighbor (sv_router_id (vs ! nat (sv_first_hop v)))) (os_neighbors s) = Some k"
      "x = (nb_ip_addr (os_neighbors s ! k), nb_iface (os_neighbors s ! k), sv_distance v)" by (auto simp: spf_route_def split: if_splits)
    let ?n = "os_neighbors s ! k"
    have ifc: "nb_iface ?n \<noteq> NULL" using first_idx_sat [OF k(2)] by (simp add: spf_neighbor_def)
    have hop: "\<not> (sv_first_hop v < 0 \<or> int (length vs) \<le> sv_first_hop v)" using Cons.prems(4) k(1) by auto
    let ?add = "router_add_route ?rt (sv_router_id v) 32 (nb_ip_addr ?n) (nb_iface ?n) (sv_distance v) ROUTE_PROTO_OSPF w"
    have step: "spf_routes s vs (v # rest) w = do { (res, w) \<leftarrow> ?add; if res \<noteq> 0 then Some (- 1, w) else spf_routes s vs rest w }"
      using k hop by simp
    have pr: "(32 :: u8) \<le> 32" "ROUTE_PROTO_OSPF \<noteq> 0" by (simp_all add: ROUTE_PROTO_OSPF_def)
    show ?thesis
    proof (rule route_add_cases [OF Cons.prems(2) ifc pr, of "sv_router_id v" "nb_ip_addr ?n" "sv_distance v", unfolded prefix_32])
      fix t1 assume t1: "route_table_add (Some (ro_route_tbl r)) (sv_router_id v) 32 (nb_ip_addr ?n) (nb_iface ?n) (sv_distance v) ROUTE_PROTO_OSPF = (0, Some t1)"
        "route_table_wf t1" "rib_map t1 = (rib_map (ro_route_tbl r))(spf_key v \<mapsto> (nb_ip_addr ?n, nb_iface ?n, sv_distance v))"
      let ?r = "r\<lparr>ro_route_tbl := t1\<rparr>" and ?w = "router_put ?rt (r\<lparr>ro_route_tbl := t1\<rparr>) w"
      have add: "?add = Some (0, ?w)" using t1(1) Cons.prems(1) nn by (simp add: router_add_route_def on_route_tbl_def)
      have r1: "router_at ?rt ?w = Some ?r" "route_table_wf (ro_route_tbl ?r)" using nn t1(2) by (simp_all add: router_at_def router_put_def)
      obtain res t' where ih: "spf_routes s vs rest ?w = Some (res, router_put ?rt (?r\<lparr>ro_route_tbl := t'\<rparr>) ?w)" "route_table_wf t'"
        "\<And>k. rib_map t' k = rib_map t1 k \<or> (\<exists>v \<in> set rest. k = spf_key v \<and> spf_route s vs v \<noteq> None \<and> rib_map t' k = spf_route s vs v)"
        "res = 0 \<and> (\<forall>v \<in> set rest. spf_route s vs v \<noteq> None \<longrightarrow> rib_map t' (spf_key v) = spf_route s vs v) \<or>
         res = - 1 \<and> rt_rib_count t' = int ROUTE_RIB_SIZE"
        using Cons.IH [OF r1 d] by fastforce
      have put: "router_put ?rt (?r\<lparr>ro_route_tbl := t'\<rparr>) ?w = router_put ?rt (r\<lparr>ro_route_tbl := t'\<rparr>) w" by (simp add: router_put_def)
      have v: "rib_map t' (spf_key v) = spf_route s vs v" using ih(3) [of "spf_key v"] Cons.prems(3) t1(3) Some k(3) by auto
      have all: "rib_map t' k = rib_map (ro_route_tbl r) k \<or>
          (\<exists>v \<in> set (v # rest). k = spf_key v \<and> spf_route s vs v \<noteq> None \<and> rib_map t' k = spf_route s vs v)" for k
        using ih(3) [of k] v Some t1(3) by (cases "k = spf_key v") auto
      show ?thesis using step add ih(1,2,4) put v all by (intro exI [of _ res] exI [of _ t']) simp
    next
      assume f: "route_table_add (Some (ro_route_tbl r)) (sv_router_id v) 32 (nb_ip_addr ?n) (nb_iface ?n) (sv_distance v) ROUTE_PROTO_OSPF =
          (- 1, Some (ro_route_tbl r))" "rt_rib_count (ro_route_tbl r) = int ROUTE_RIB_SIZE"
      have "?add = Some (- 1, w)" using f(1) Cons.prems(1) nn router_put_same [OF Cons.prems(1)] by (simp add: router_add_route_def on_route_tbl_def)
      then show ?thesis using step f(2) Cons.prems(1,2) by (intro exI [of _ "- 1"] exI [of _ "ro_route_tbl r"]) (simp add: router_put_same)
    qed
  qed
qed

text \<open>What a route of OSPF to router \<open>v\<close> stands for: the metric is the length of the shortest paths to \<open>v\<close> in the graph of the
  database, and the next hop is a live neighbour, the first hop of one of these paths.\<close>

definition spf_route_sound :: "OspfState \<Rightarrow> u32 \<Rightarrow> u32 \<times> addr \<times> u32 \<Rightarrow> bool" where
  "spf_route_sound s v route \<longleftrightarrow> (case route of (nh, iface, metric) \<Rightarrow> v \<noteq> os_router_id s \<and> ospf_distance (os_lsdb s) (os_router_id s) v (unat metric) \<and>
     (\<exists>n \<in> set (os_neighbors s). nb_ip_addr n = nh \<and> nb_iface n = iface \<and> spf_neighbor (nb_router_id n) n \<and>
        ospf_first_hop (os_lsdb s) (os_router_id s) v (unat metric) (nb_router_id n)))"

lemma spf_run_outcome:
  assumes "ospf_at state w = Some s" "ospf_wf s" "router_at (os_router s) w = Some r" "route_table_wf (ro_route_tbl r)"
  shows "\<exists>res t'. ospf_run_spf state w = Some (res, router_put (os_router s) (r\<lparr>ro_route_tbl := t'\<rparr>) w) \<and> route_table_wf t' \<and>
    (\<forall>p l pr. pr \<noteq> ROUTE_PROTO_OSPF \<longrightarrow> rib_map t' (p, l, pr) = rib_map (ro_route_tbl r) (p, l, pr)) \<and>
    (\<forall>v l x. rib_map t' (v, l, ROUTE_PROTO_OSPF) = Some x \<longrightarrow> l = 32 \<and> spf_route_sound s v x) \<and>
    (res = 0 \<and> (\<forall>v d. v \<noteq> os_router_id s \<longrightarrow> ospf_distance (os_lsdb s) (os_router_id s) v d \<longrightarrow>
        (\<forall>h. ospf_first_hop (os_lsdb s) (os_router_id s) v d h \<longrightarrow> (\<exists>n \<in> set (os_neighbors s). spf_neighbor h n)) \<longrightarrow>
        rib_map t' (v, 32, ROUTE_PROTO_OSPF) \<noteq> None) \<or>
     res = - 1 \<and> rt_rib_count t' = int ROUTE_RIB_SIZE)"
proof -
  let ?rt = "os_router s" and ?id = "os_router_id s" and ?db = "os_lsdb s"
  have nn: "state \<noteq> NULL" "?rt \<noteq> NULL" using assms(1,3) by (auto dest: ospf_at_nonnull router_at_nonnull)
  have "length ?db \<le> OSPF_LSDB_SIZE" "\<forall>e \<in> set ?db. le_valid e \<noteq> 0 \<longrightarrow> lsa_ok e" using ospf_wfD(2) [OF assms(2)] by (simp_all add: lsdb_wf_def)
  from spf_vertices_outcome [OF this, of ?id] obtain vs where vs: "spf_vertices ?id ?db = Some (Inr vs)" "vs \<noteq> []" "distinct (map sv_router_id vs)"
    "sv_router_id (vs ! 0) = ?id"
    and short: "\<And>i. i < length vs \<Longrightarrow> sv_distance (vs ! i) \<noteq> OSPF_INFINITY \<Longrightarrow> ospf_distance ?db ?id (sv_router_id (vs ! i)) (sv_dist vs i) \<and>
       (i \<noteq> 0 \<longrightarrow> (\<exists>h < length vs. sv_first_hop (vs ! i) = int h \<and> ospf_first_hop ?db ?id (sv_router_id (vs ! i)) (sv_dist vs i) (sv_router_id (vs ! h))))"
    and found: "\<And>v d. ospf_distance ?db ?id v d \<Longrightarrow> \<exists>i < length vs. sv_router_id (vs ! i) = v \<and> sv_dist vs i = d" by blast
  obtain v0 rest where cons: "vs = v0 # rest" using vs(2) by (cases vs) auto
  have rest: "\<exists>i < length vs. i \<noteq> 0 \<and> v = vs ! i" if "v \<in> set rest" for v
  proof -
    obtain i where "i < length rest" "v = rest ! i" using \<open>v \<in> set rest\<close> by (auto simp: in_set_conv_nth)
    then show ?thesis using cons by (intro exI [of _ "Suc i"]) simp
  qed
  have hop: "\<exists>h < length vs. sv_first_hop v = int h \<and> ospf_first_hop ?db ?id (sv_router_id v) (unat (sv_distance v)) (sv_router_id (vs ! h))"
    "ospf_distance ?db ?id (sv_router_id v) (unat (sv_distance v))" "sv_router_id v \<noteq> ?id"
    if v: "v \<in> set rest" "sv_distance v \<noteq> OSPF_INFINITY" for v
  proof -
    obtain i where i: "i < length vs" "i \<noteq> 0" "v = vs ! i" using rest [OF v(1)] by blast
    show "\<exists>h < length vs. sv_first_hop v = int h \<and> ospf_first_hop ?db ?id (sv_router_id v) (unat (sv_distance v)) (sv_router_id (vs ! h))"
      "ospf_distance ?db ?id (sv_router_id v) (unat (sv_distance v))" using short [OF i(1)] v(2) i by auto
    have "?id \<notin> sv_router_id ` set rest" using vs(3,4) cons by simp
    then show "sv_router_id v \<noteq> ?id" using v(1) by (metis imageI)
  qed
  obtain n t1 where t1: "route_table_flush_proto (Some (ro_route_tbl r)) ROUTE_PROTO_OSPF = (n, Some t1)" "route_table_wf t1"
    "rib_map t1 = (\<lambda>(p, l, pr). if pr = ROUTE_PROTO_OSPF then None else rib_map (ro_route_tbl r) (p, l, pr))"
    using route_flush_result [OF assms(4), of ROUTE_PROTO_OSPF] by (auto simp: ROUTE_PROTO_OSPF_def)
  let ?r = "r\<lparr>ro_route_tbl := t1\<rparr>" and ?w = "router_put ?rt (r\<lparr>ro_route_tbl := t1\<rparr>) w"
  have r1: "router_at ?rt ?w = Some ?r" "route_table_wf (ro_route_tbl ?r)" using nn t1(2) by (simp_all add: router_at_def router_put_def)
  have fh: "\<forall>v \<in> set rest. sv_distance v \<noteq> OSPF_INFINITY \<longrightarrow> 0 \<le> sv_first_hop v \<and> sv_first_hop v < int (length vs)" using hop(1) by fastforce
  have dist: "distinct (map sv_router_id rest)" using vs(3) cons by simp
  obtain res t' where o: "spf_routes s vs rest ?w = Some (res, router_put ?rt (?r\<lparr>ro_route_tbl := t'\<rparr>) ?w)" "route_table_wf t'"
    "\<And>k. rib_map t' k = rib_map t1 k \<or> (\<exists>v \<in> set rest. k = spf_key v \<and> spf_route s vs v \<noteq> None \<and> rib_map t' k = spf_route s vs v)"
    "res = 0 \<and> (\<forall>v \<in> set rest. spf_route s vs v \<noteq> None \<longrightarrow> rib_map t' (spf_key v) = spf_route s vs v) \<or> res = - 1 \<and> rt_rib_count t' = int ROUTE_RIB_SIZE"
    using spf_routes_outcome [OF r1 dist fh] by fastforce
  have put: "router_put ?rt (?r\<lparr>ro_route_tbl := t'\<rparr>) ?w = router_put ?rt (r\<lparr>ro_route_tbl := t'\<rparr>) w" by (simp add: router_put_def)
  have run: "ospf_run_spf state w = Some (res, router_put ?rt (r\<lparr>ro_route_tbl := t'\<rparr>) w)"
    using assms(1,3) nn vs(1) t1(1) o(1) put cons by (simp add: ospf_run_spf_def on_route_tbl_def)
  have other: "rib_map t' (p, l, pr) = rib_map (ro_route_tbl r) (p, l, pr)" if "pr \<noteq> ROUTE_PROTO_OSPF" for p l pr
    using o(3) [of "(p, l, pr)"] t1(3) that by auto
  have sound: "l = 32 \<and> spf_route_sound s v x" if x: "rib_map t' (v, l, ROUTE_PROTO_OSPF) = Some x" for v l x
  proof -
    obtain y where y: "y \<in> set rest" "v = sv_router_id y" "l = 32" "spf_route s vs y = Some x"
      using o(3) [of "(v, l, ROUTE_PROTO_OSPF)"] t1(3) x by auto
    then obtain k where k: "sv_distance y \<noteq> OSPF_INFINITY" "first_idx (spf_neighbor (sv_router_id (vs ! nat (sv_first_hop y)))) (os_neighbors s) = Some k"
      "x = (nb_ip_addr (os_neighbors s ! k), nb_iface (os_neighbors s ! k), sv_distance y)" by (auto simp: spf_route_def split: if_splits)
    have "os_neighbors s ! k \<in> set (os_neighbors s)" using first_idx_lt [OF k(2)] by simp
    then show ?thesis using hop [OF y(1) k(1)] y first_idx_sat [OF k(2)] k(3) by (auto simp: spf_route_sound_def spf_neighbor_def)
  qed
  have complete: "rib_map t' (v, 32, ROUTE_PROTO_OSPF) \<noteq> None"
    if "res = 0" and v: "v \<noteq> ?id" "ospf_distance ?db ?id v d" "\<forall>h. ospf_first_hop ?db ?id v d h \<longrightarrow> (\<exists>n \<in> set (os_neighbors s). spf_neighbor h n)" for v d
  proof -
    obtain i where i: "i < length vs" "sv_router_id (vs ! i) = v" "sv_dist vs i = d" using found [OF v(2)] by blast
    have "i \<noteq> 0" using v(1) vs(4) i(2) by metis
    then have mem: "vs ! i \<in> set rest" using i(1) cons by (cases i) auto
    have fin: "sv_distance (vs ! i) \<noteq> OSPF_INFINITY" using v(2) i(3) dist_finite by (simp add: ospf_distance_def)
    from hop(1) [OF mem fin] obtain h where h: "sv_first_hop (vs ! i) = int h" "ospf_first_hop ?db ?id v d (sv_router_id (vs ! h))" using i by auto
    then obtain n where "n \<in> set (os_neighbors s)" "spf_neighbor (sv_router_id (vs ! h)) n" using v(3) by blast
    then have "first_idx (spf_neighbor (sv_router_id (vs ! h))) (os_neighbors s) \<noteq> None" unfolding first_idx_None by blast
    then have "spf_route s vs (vs ! i) \<noteq> None" using fin h(1) by (auto simp: spf_route_def)
    then show ?thesis using o(4) mem i(2) that(1) by auto
  qed
  show ?thesis using run o(2,4) other sound complete by (intro exI [of _ res] exI [of _ t']) blast
qed

text \<open>C2. A run of the shortest-path computation on a well-formed state never faults and ends. It changes nothing but the routing
  table of the router, and there only the routes of OSPF: afterwards each of these leads to a router other than this one, at a
  metric that is the length of the shortest paths to it in the graph of the link-state database, through a live neighbour that is
  the first hop of a shortest path. When it returns 0, every router that can be reached below infinity, and all of whose first
  hops are live neighbours, has a route; it returns -1 only when the table is full.\<close>

theorem ospf_run_spf_shortest:
  assumes "ospf_at state w = Some s" "ospf_wf s" "router_at (os_router s) w = Some r" "route_table_wf (ro_route_tbl r)"
  shows "\<exists>res t'. ospf_run_spf state w = Some (res, router_put (os_router s) (r\<lparr>ro_route_tbl := t'\<rparr>) w) \<and> route_table_wf t' \<and>
    (\<forall>p l pr. pr \<noteq> ROUTE_PROTO_OSPF \<longrightarrow> rib_map t' (p, l, pr) = rib_map (ro_route_tbl r) (p, l, pr)) \<and>
    (\<forall>v l x. rib_map t' (v, l, ROUTE_PROTO_OSPF) = Some x \<longrightarrow> l = 32 \<and> spf_route_sound s v x) \<and>
    (res = 0 \<and> (\<forall>v d. v \<noteq> os_router_id s \<longrightarrow> ospf_distance (os_lsdb s) (os_router_id s) v d \<longrightarrow>
        (\<forall>h. ospf_first_hop (os_lsdb s) (os_router_id s) v d h \<longrightarrow> (\<exists>n \<in> set (os_neighbors s). spf_neighbor h n)) \<longrightarrow>
        rib_map t' (v, 32, ROUTE_PROTO_OSPF) \<noteq> None) \<or>
     res = - 1 \<and> rt_rib_count t' = int ROUTE_RIB_SIZE)"
  using assms by (rule spf_run_outcome)

section \<open>Ageing of neighbours\<close>

text \<open>A scheduler with room for \<open>n\<close> more events, and memory for them.\<close>

definition has_room :: "nat \<Rightarrow> addr \<Rightarrow> Scheduler \<Rightarrow> 'a sim_world_scheme \<Rightarrow> bool" where
  "has_room n a sch w \<longleftrightarrow> sched_at a w = Some sch \<and> sched_wf sch \<and> eq_count (sch_eq sch) + n \<le> eq_capacity (sch_eq sch) \<and> mem_oom (w_mem w) = []"

lemma create_and_schedule:
  assumes "has_room (Suc n) a sch w"
  obtains w1 w' sch' where
    "event_create_callback ty t VNull VNull NULL VNull h ctx w = (Some (timer_event ty t h ctx), w1)"
    "scheduler_schedule a (Some (timer_event ty t h ctx)) w1 = Some (0, w')" "has_room n a sch' w'" "sch_now sch' = sch_now sch"
    "eq_list (sch_eq sch') = insert_by evt_key (timer_event ty t h ctx) (eq_list (sch_eq sch))" "sched_frame w w'"
proof -
  let ?e = "timer_event ty t h ctx" and ?w = "w\<lparr>w_mem := (w_mem w)\<lparr>mem_next := Suc (mem_next (w_mem w))\<rparr>\<rparr>"
  have r: "sched_at a w = Some sch" "sched_wf sch" "eq_count (sch_eq sch) + Suc n \<le> eq_capacity (sch_eq sch)" "mem_oom (w_mem w) = []"
    using assms by (simp_all add: has_room_def)
  note nn = sched_at_nonnull [OF r(1)]
  have ev: "event_create_callback ty t VNull VNull NULL VNull h ctx w = (Some ?e, ?w)"
    by (simp add: event_create_callback_def alloc_plenty [OF r(4)] timer_event_def)
  obtain q where q: "event_queue_push (sch_eq sch) ?e ?w = Some (0, q, ?w)" "queue_wf q" "eq_list q = insert_by evt_key ?e (eq_list (sch_eq sch))"
    "eq_capacity q = eq_capacity (sch_eq sch)" using push_room [of "sch_eq sch" ?e ?w] r(2,3) by (auto simp: sched_wf_def)
  have c: "eq_count q = Suc (eq_count (sch_eq sch))"
    using queue_wf_array(2) [OF q(2)] queue_wf_array(2) [of "sch_eq sch"] r(2) q(3) length_insert_by [of evt_key ?e "eq_list (sch_eq sch)"]
    by (simp add: sched_wf_def)
  let ?s = "sch\<lparr>sch_eq := q\<rparr>"
  have s: "scheduler_schedule a (Some ?e) ?w = Some (0, sched_put a ?s ?w)" using r(1) nn q(1) by (simp add: scheduler_schedule_def)
  have "has_room n a ?s (sched_put a ?s ?w)" using r q(2,4) c nn by (simp add: has_room_def sched_wf_def) (simp add: sched_put_def)
  then show thesis using that [OF ev s] q(3) by (simp add: sched_frame_def sched_put_def)
qed

lemma ospf_sched_frame:
  assumes "sched_frame w w'"
  shows "ospf_at a w' = ospf_at a w" "sim_at a w' = sim_at a w" "router_at a w' = router_at a w"
  using assms by (cases w; cases w'; simp add: sched_frame_def ospf_at_def sim_at_def router_at_def)+

lemma ospf_put_frames [simp]:
  "sim_at a (ospf_put b s w) = sim_at a w" "sched_at a (ospf_put b s w) = sched_at a w" "pkt_at a (ospf_put b s w) = pkt_at a w"
  "iface_at a (ospf_put b s w) = iface_at a w" "router_at a (ospf_put b s w) = router_at a w" "w_mem (ospf_put b s w) = w_mem w"
  "link_at a (ospf_put b s w) = link_at a w" "cache_at a (ospf_put b s w) = cache_at a w" "dev_at a (ospf_put b s w) = dev_at a w"
  "topo_at a (ospf_put b s w) = topo_at a w" "has_room n a sch (ospf_put b s w) = has_room n a sch w"
  by (simp_all add: ospf_put_def sim_at_def sched_at_def pkt_at_def iface_at_def router_at_def link_at_def cache_at_def dev_at_def topo_at_def has_room_def)

lemma ip_ready_ospf_put [simp]: "ip_ready sim (ospf_put a s w) = ip_ready sim w"
  by (simp add: ip_ready_def net_wf_def heap_wf_def sim_ready_def attached_def topo_live_def caches_live_def)

lemma ospf_at_put [simp]: "b \<noteq> NULL \<Longrightarrow> ospf_at a (ospf_put b s w) = (if a = b then Some s else ospf_at a w)"
  by (simp add: ospf_at_def ospf_put_def)

definition bury :: "u64 \<Rightarrow> OspfNeighbor \<Rightarrow> OspfNeighbor" where
  "bury now n = (if nbr_dead now n then n\<lparr>nb_state := OSPF_NBR_DOWN\<rparr> else n)"

lemma dead_slots_map: "dead_slots now ns c = (map (bury now) ns, c \<or> (\<exists>n \<in> set ns. nbr_dead now n))"
  by (induction ns arbitrary: c) (auto simp: bury_def)

lemma bury_wf: "ospf_wf s \<Longrightarrow> ospf_wf (s\<lparr>os_neighbors := map (bury now) (os_neighbors s)\<rparr>)"
proof -
  have b: "nb_valid (bury now n) = nb_valid n" "nb_router_id (bury now n) = nb_router_id n" for n by (simp_all add: bury_def)
  then have "length (filter (\<lambda>n. nb_valid n \<noteq> 0) (map (bury now) ns)) = length (filter (\<lambda>n. nb_valid n \<noteq> 0) ns)" for ns by (simp add: filter_map comp_def)
  moreover have "nbrs.unique (map (bury now) ns) = nbrs.unique ns" for ns by (simp add: nbrs.unique_def b)
  ultimately show "ospf_wf s \<Longrightarrow> ospf_wf (s\<lparr>os_neighbors := map (bury now) (os_neighbors s)\<rparr>)"
    by (simp add: ospf_wf_def neighbors_wf_def nbrs.live_count_def)
qed

text \<open>C25. The dead timer takes down exactly the live neighbours that have sent no hello for 40 seconds, keeps every other field of the
  state and its invariant, queues a run of the shortest-path computation half a second later exactly when a neighbour went down,
  and queues itself again.\<close>

theorem ospf_dead_timer_correct:
  assumes "ospf_at state w = Some s" "ospf_wf s" "sim_at (os_sim s) w = Some m" "has_room 2 (sim_sched m) sch w"
  shows "\<exists>w' s' sch'. ospf_dead_timer e (VOspf state) w = Some w' \<and> ospf_at state w' = Some s' \<and> ospf_wf s' \<and>
    s' = s\<lparr>os_neighbors := map (\<lambda>n. if nb_valid n \<noteq> 0 \<and> nb_last_hello_ts n \<le> sch_now sch \<and> OSPF_DEAD_INTERVAL_US \<le> sch_now sch - nb_last_hello_ts n
      then n\<lparr>nb_state := OSPF_NBR_DOWN\<rparr> else n) (os_neighbors s)\<rparr> \<and>
    sched_at (sim_sched m) w' = Some sch' \<and>
    eq_list (sch_eq sch') = insert_by evt_key (timer_event EVT_OSPF_DEAD (sch_now sch + OSPF_DEAD_INTERVAL_US) Cb_ospf_dead_timer (VOspf state))
      ((if s' = s then (\<lambda>es. es)
        else insert_by evt_key (timer_event EVT_OSPF_SPF (sch_now sch + OSPF_SPF_DELAY_US) Cb_ospf_spf_timer (VOspf state))) (eq_list (sch_eq sch)))"
proof -
  let ?now = "sch_now sch" and ?a = "sim_sched m"
  let ?s = "s\<lparr>os_neighbors := map (bury (sch_now sch)) (os_neighbors s)\<rparr>"
  let ?died = "\<exists>n \<in> set (os_neighbors s). nbr_dead (sch_now sch) n"
  have r0: "sched_at ?a w = Some sch" using assms(4) by (simp add: has_room_def)
  have nn: "state \<noteq> NULL" "os_sim s \<noteq> NULL" "?a \<noteq> NULL" using assms(1,3) r0 by (auto dest: ospf_at_nonnull sim_at_nonnull sched_at_nonnull)
  have same: "?s = s \<longleftrightarrow> \<not> ?died"
  proof -
    have "bury ?now n = n \<longleftrightarrow> \<not> nbr_dead ?now n" for n by (cases n) (auto simp: bury_def nbr_dead_def)
    moreover have "map (bury ?now) ns = ns \<longleftrightarrow> (\<forall>n \<in> set ns. bury ?now n = n)" for ns by (induction ns) auto
    ultimately have "map (bury ?now) (os_neighbors s) = os_neighbors s \<longleftrightarrow> \<not> ?died" by simp
    then show ?thesis by (cases s) simp
  qed
  have eqn: "?s = s\<lparr>os_neighbors := map (\<lambda>n. if nb_valid n \<noteq> 0 \<and> nb_last_hello_ts n \<le> ?now \<and> OSPF_DEAD_INTERVAL_US \<le> ?now - nb_last_hello_ts n
      then n\<lparr>nb_state := OSPF_NBR_DOWN\<rparr> else n) (os_neighbors s)\<rparr>"
  proof -
    have "bury ?now n = (if nb_valid n \<noteq> 0 \<and> nb_last_hello_ts n \<le> ?now \<and> OSPF_DEAD_INTERVAL_US \<le> ?now - nb_last_hello_ts n
      then n\<lparr>nb_state := OSPF_NBR_DOWN\<rparr> else n)" for n by (cases n) (auto simp: bury_def nbr_dead_def not_less)
    then show ?thesis by simp
  qed
  let ?w = "ospf_put state ?s w"
  obtain w1 sch1 where 1: "(if ?died then map_option snd (ospf_schedule_spf state ?a ?now ?w) else Some ?w) = Some w1" "has_room 1 ?a sch1 w1" "sch_now sch1 = ?now"
    "eq_list (sch_eq sch1) = (if ?died then insert_by evt_key (timer_event EVT_OSPF_SPF (?now + OSPF_SPF_DELAY_US) Cb_ospf_spf_timer (VOspf state)) else (\<lambda>es. es)) (eq_list (sch_eq sch))"
    "sched_frame ?w w1"
  proof (cases ?died)
    case True
    have "has_room (Suc 1) ?a sch ?w" using assms(4) by (simp add: numeral_2_eq_2)
    from create_and_schedule [OF this, of EVT_OSPF_SPF "?now + OSPF_SPF_DELAY_US" Cb_ospf_spf_timer "VOspf state"] obtain v w1 sch1 where
      "event_create_callback EVT_OSPF_SPF (?now + OSPF_SPF_DELAY_US) VNull VNull NULL VNull Cb_ospf_spf_timer (VOspf state) ?w =
        (Some (timer_event EVT_OSPF_SPF (?now + OSPF_SPF_DELAY_US) Cb_ospf_spf_timer (VOspf state)), v)"
      "scheduler_schedule ?a (Some (timer_event EVT_OSPF_SPF (?now + OSPF_SPF_DELAY_US) Cb_ospf_spf_timer (VOspf state))) v = Some (0, w1)"
      "has_room 1 ?a sch1 w1" "sch_now sch1 = ?now"
      "eq_list (sch_eq sch1) = insert_by evt_key (timer_event EVT_OSPF_SPF (?now + OSPF_SPF_DELAY_US) Cb_ospf_spf_timer (VOspf state)) (eq_list (sch_eq sch))"
      "sched_frame ?w w1" .
    then show thesis using that [of w1 sch1] True by (simp add: ospf_schedule_spf_def)
  next
    case False
    have "has_room 1 ?a sch ?w" using assms(4) by (simp add: has_room_def)
    then show thesis using that [of ?w sch] False by simp
  qed
  have w1: "ospf_at state w1 = Some ?s" "sim_at (os_sim s) w1 = Some m" using ospf_sched_frame [OF 1(5)] nn assms(3) by simp_all
  have "has_room (Suc 0) ?a sch1 w1" using 1(2) by simp
  from create_and_schedule [OF this, of EVT_OSPF_DEAD "?now + OSPF_DEAD_INTERVAL_US" Cb_ospf_dead_timer "VOspf state"] obtain v w2 sch2 where
    2: "event_create_callback EVT_OSPF_DEAD (?now + OSPF_DEAD_INTERVAL_US) VNull VNull NULL VNull Cb_ospf_dead_timer (VOspf state) w1 =
        (Some (timer_event EVT_OSPF_DEAD (?now + OSPF_DEAD_INTERVAL_US) Cb_ospf_dead_timer (VOspf state)), v)"
      "scheduler_schedule ?a (Some (timer_event EVT_OSPF_DEAD (?now + OSPF_DEAD_INTERVAL_US) Cb_ospf_dead_timer (VOspf state))) v = Some (0, w2)"
      "has_room 0 ?a sch2 w2" "sch_now sch2 = sch_now sch1"
      "eq_list (sch_eq sch2) = insert_by evt_key (timer_event EVT_OSPF_DEAD (?now + OSPF_DEAD_INTERVAL_US) Cb_ospf_dead_timer (VOspf state)) (eq_list (sch_eq sch1))"
      "sched_frame w1 w2" .
  have "sched_at ?a w1 = Some sch1" "sched_at ?a w2 = Some sch2" using 1(2) 2(3) by (simp_all add: has_room_def)
  then have p: "ospf_schedule_periodic (os_sim s) EVT_OSPF_DEAD OSPF_DEAD_INTERVAL_US Cb_ospf_dead_timer state w1 = Some w2" "sched_at ?a w2 = Some sch2"
    using nn w1(2) 1(3) 2(1,2) by (simp_all add: ospf_schedule_periodic_def)
  have "ospf_dead_timer e (VOspf state) w = Some w2"
    using assms(1,3) r0 nn 1(1) p(1) by (simp add: ospf_dead_timer_def as_ospf_def dead_slots_map)
  then show ?thesis using bury_wf [OF assms(2), of ?now] ospf_sched_frame(1) [OF 2(6)] w1(1) p(2) 2(5) 1(4) same eqn
    by (intro exI [of _ w2] exI [of _ ?s] exI [of _ sch2]) simp
qed

end
