(* ===== verification/Ospf_Receive.thy ===== *)
theory Ospf_Receive
  imports Ospf_Routes
begin

text \<open>
  The messages of OSPF (\<open>protocols/ospf.c\<close>): the bytes that \<open>ospf_send_hello\<close> and \<open>ospf_flood_lsa\<close> send, the safety of
  sending and of \<open>ospf_receive\<close> on arbitrary packets, and that a receiver reads back what a sender wrote.
\<close>

section \<open>Consecutive writes\<close>

lemma pkt_write_next:
  assumes "pkt_wf p" "visible p = pre @ rest" "off = length pre" "length bs \<le> length rest"
  obtains p' where "pkt_write off bs p = Some p'" "pkt_wf p'" "visible p' = (pre @ bs) @ drop (length bs) rest"
proof -
  have "off + length bs \<le> pkt_len p" using length_visible [OF assms(1)] assms(2-4) by simp
  from pkt_write_within [OF assms(1) this] obtain p' where p': "pkt_write off bs p = Some p'" "pkt_wf p'"
    "visible p' = take off (visible p) @ bs @ drop (off + length bs) (visible p)" by blast
  then show thesis using that assms(2,3) by simp
qed

lemma length_ospf_bytes [simp]:
  "length (OspfHeader a b c d e f g h i) = 24" "length (OspfHello j k l m n q r) = 20" "length (OspfLsuHeader u v) = 4"
  "length (OspfLsaWire x y z a1 b1 c1) = 16" "length (wire_link lk) = 12" "length (ospf_header s ty len) = 24"
  by (simp_all add: OspfHeader_def OspfHello_def OspfLsuHeader_def OspfLsaWire_def wire_link_def ospf_header_def)

section \<open>What is sent\<close>

definition hello_ids_of :: "addr \<Rightarrow> OspfState \<Rightarrow> u32 list" where
  "hello_ids_of iface s = map nb_router_id (filter (hello_lists iface) (os_neighbors s))"

definition hello_bytes :: "OspfState \<Rightarrow> addr \<Rightarrow> u8 \<Rightarrow> bytes" where
  "hello_bytes s iface plen = ospf_header s OSPF_TYPE_HELLO (of_nat (44 + 4 * length (hello_ids_of iface s))) @
     OspfHello (ns_htonl (ipv4_prefix_mask plen)) (ns_htons 10) 0 0 (ns_htonl 40) 0 0 @ concat (map (\<lambda>x. put32 (ns_htonl x)) (hello_ids_of iface s))"

definition lsu_bytes :: "OspfState \<Rightarrow> OspfLsaEntry \<Rightarrow> bytes" where
  "lsu_bytes s lsa = ospf_header s OSPF_TYPE_LSU (of_nat (44 + 12 * nat (le_link_count lsa))) @ OspfLsuHeader (ns_htons 1) 0 @
     OspfLsaWire (ns_htonl (le_lsa_id lsa)) (ns_htonl (le_adv_router lsa)) (ns_htonl (le_seq_num lsa)) (ns_htons (le_checksum lsa))
       (le_lsa_type lsa) (of_int (le_link_count lsa)) @ concat (map wire_link (take (nat (le_link_count lsa)) (le_links lsa)))"

lemma length_ids [simp]: "length (concat (map (\<lambda>x. put32 (ns_htonl x)) xs)) = 4 * length xs" "length (concat (map wire_link ls)) = 12 * length ls"
  by (induction xs, simp_all) (induction ls, simp_all)

lemma hello_ids_written:
  assumes "pkt_wf p" "visible p = pre @ rest" "length pre = 44 + 4 * n" "4 * length (filter (hello_lists iface) ns) \<le> length rest"
  obtains p' where "hello_ids iface ns n p = Some (n + length (filter (hello_lists iface) ns), p')" "pkt_wf p'"
    "visible p' = (pre @ concat (map (\<lambda>x. put32 (ns_htonl x)) (map nb_router_id (filter (hello_lists iface) ns)))) @ drop (4 * length (filter (hello_lists iface) ns)) rest"
  using assms
proof (induction ns arbitrary: p pre rest n thesis)
  case Nil
  then show ?case by simp
next
  case (Cons x ns)
  show ?case
  proof (cases "hello_lists iface x")
    case False
    show ?thesis by (rule Cons.IH [OF _ Cons.prems(2-4)], rule Cons.prems(1)) (use Cons.prems(5) False in simp_all)
  next
    case True
    let ?b = "put32 (ns_htonl (nb_router_id x))"
    obtain p1 where 1: "pkt_write (44 + 4 * n) ?b p = Some p1" "pkt_wf p1" "visible p1 = (pre @ ?b) @ drop (length ?b) rest"
      by (rule pkt_write_next [OF Cons.prems(2,3), of "44 + 4 * n" ?b]) (use Cons.prems(4,5) True in simp_all)
    obtain p2 where 2: "hello_ids iface ns (Suc n) p1 = Some (Suc n + length (filter (hello_lists iface) ns), p2)" "pkt_wf p2"
      "visible p2 = ((pre @ ?b) @ concat (map (\<lambda>x. put32 (ns_htonl x)) (map nb_router_id (filter (hello_lists iface) ns)))) @
         drop (4 * length (filter (hello_lists iface) ns)) (drop (length ?b) rest)"
      by (rule Cons.IH [OF _ 1(2,3), of "Suc n"]) (use Cons.prems(4,5) True in simp_all)
    show ?thesis by (rule Cons.prems(1) [of p2])
      (use 1(1) 2 True in \<open>simp_all add: ospf_sizes ac_simps\<close>)
  qed
qed

lemma flood_links_written:
  assumes "pkt_wf p" "visible p = pre @ rest" "length pre = 44 + 12 * n" "n + m \<le> length (le_links lsa)" "12 * m \<le> length rest"
  obtains p' where "flood_links lsa [n..<n + m] p = Some p'" "pkt_wf p'"
    "visible p' = (pre @ concat (map wire_link (take m (drop n (le_links lsa))))) @ drop (12 * m) rest"
  using assms
proof (induction m arbitrary: p pre rest n thesis)
  case 0
  then show ?case by simp
next
  case (Suc m)
  let ?b = "wire_link (le_links lsa ! n)"
  obtain p1 where 1: "pkt_write (44 + 12 * n) ?b p = Some p1" "pkt_wf p1" "visible p1 = (pre @ ?b) @ drop (length ?b) rest"
    by (rule pkt_write_next [OF Suc.prems(2,3), of "44 + 12 * n" ?b]) (use Suc.prems(4,6) in simp_all)
  obtain p2 where 2: "flood_links lsa [Suc n..<Suc n + m] p1 = Some p2" "pkt_wf p2"
    "visible p2 = ((pre @ ?b) @ concat (map wire_link (take m (drop (Suc n) (le_links lsa))))) @ drop (12 * m) (drop (length ?b) rest)"
    by (rule Suc.IH [OF _ 1(2,3), of "Suc n"]) (use Suc.prems(4-6) in simp_all)
  have n: "n < length (le_links lsa)" using Suc.prems(5) by simp
  have up: "[n..<n + Suc m] = n # [Suc n..<Suc n + m]" by (simp add: upt_conv_Cons)
  have tk: "take (Suc m) (drop n (le_links lsa)) = le_links lsa ! n # take m (drop (Suc n) (le_links lsa))"
    using Cons_nth_drop_Suc [OF n] by (metis take_Suc_Cons)
  have fl: "flood_links lsa [n..<n + Suc m] p = Some p2" unfolding up using n 1(1) 2(1) by (simp add: lsa_link_def ospf_sizes mult.commute)
  have vis: "visible p2 = (pre @ concat (map wire_link (take (Suc m) (drop n (le_links lsa))))) @ drop (12 * Suc m) rest"
    unfolding tk using 2(3) by (simp add: add.commute)
  show ?case by (rule Suc.prems(1) [OF fl 2(2) vis])
qed

text \<open>A created packet after it was filled.\<close>

lemma ip_step_new:
  assumes "ip_ready sim w" "packet_create n w = (pkt, w1)" "pkt \<noteq> NULL" "pkt_wf q"
  shows "ip_step sim {} w (pkt_put pkt q w1)" "pkt_at pkt (pkt_put pkt q w1) = Some q" "pkt_at pkt w = None"
proof -
  note net = ip_ready_net [OF assms(1)]
  note s1 = safe_step_create [OF net assms(2)]
  show f: "pkt_at pkt w = None" by (rule s1(2) [OF assms(3)])
  have "pkt_at pkt w1 \<noteq> None" using packet_create_wf [OF assms(2,3)] by auto
  then have "safe_step sim {pkt} w1 (pkt_put pkt q w1)" using safe_step_put [OF safe_step_wf [OF s1(1)] _ assms(4)] by blast
  then have "safe_step sim {} w (pkt_put pkt q w1)" using safe_step_fresh [OF safe_step_trans [OF safe_step_mono [OF s1(1)]] f] by blast
  then show "ip_step sim {} w (pkt_put pkt q w1)" by (rule ip_step_safe [OF assms(1)])
  show "pkt_at pkt (pkt_put pkt q w1) = Some q" using assms(3) by simp
qed

lemma created_packet:
  assumes "packet_create n w = (pkt, w1)" "pkt \<noteq> NULL"
  obtains p where "pkt_at pkt w1 = Some p" "pkt_wf (p\<lparr>pkt_len := n\<rparr>)" "length (visible (p\<lparr>pkt_len := n\<rparr>)) = n"
proof -
  obtain p where p: "pkt_at pkt w1 = Some p" "pkt_wf p" "pkt_data p = PKT_HEADROOM" "pkt_capacity p = n"
    using packet_create_wf [OF assms] by blast
  have wf: "pkt_wf (p\<lparr>pkt_len := n\<rparr>)" using p(2-4) by (simp add: pkt_wf_def)
  show thesis using that [OF p(1) wf] length_visible [OF wf] by simp
qed

lemma hello_lists_bound: "neighbors_wf ns c \<Longrightarrow> length (filter (hello_lists iface) ns) \<le> 32"
  using length_filter_le [of "hello_lists iface" ns] by (simp add: neighbors_wf_def OSPF_MAX_NEIGHBORS_def)

lemma hello_intervals [simp]:
  "ucast (OSPF_HELLO_INTERVAL_US div 1000000) = (10 :: u16)" "ucast (OSPF_DEAD_INTERVAL_US div 1000000) = (40 :: u32)"
  by (simp_all add: OSPF_HELLO_INTERVAL_US_def OSPF_DEAD_INTERVAL_US_def)

lemma htonl_0 [simp]: "ns_htonl 0 = 0" "ns_ntohl 0 = 0" "ns_ntohs 0 = 0"
  by (simp_all add: ns_htonl_def ns_bswap32_def ns_ntohl_def ns_ntohs_def ns_bswap16_def)

text \<open>A hello is one packet with exactly the bytes of the reference; it is handed to \<open>ip_output\<close> and then freed.\<close>

lemma hello_sent:
  assumes "ospf_at state w = Some s" "ospf_wf s" "os_sim s \<noteq> NULL" "iface_at iface w = Some i" "if_prefix_len i \<le> 32"
  defines "n \<equiv> 44 + 4 * length (hello_ids_of iface s)"
  obtains pkt w1 where "packet_create n w = (pkt, w1)" "pkt = NULL" "ospf_send_hello state iface w = Some (- 1, w1)"
    | pkt w1 q where "packet_create n w = (pkt, w1)" "pkt \<noteq> NULL" "pkt_wf q" "visible q = hello_bytes s iface (if_prefix_len i)"
      "ospf_send_hello state iface w = ospf_transmit (os_sim s) (ns_ntohl (if_ip_addr i)) pkt (pkt_put pkt q w1)"
proof -
  let ?ns = "filter (hello_lists iface) (os_neighbors s)"
  have nn: "state \<noteq> NULL" "iface \<noteq> NULL" "\<not> 32 < if_prefix_len i" using assms(1,4,5) by (auto dest: ospf_at_nonnull iface_at_nonnull)
  have le: "length ?ns \<le> 32" using hello_lists_bound ospf_wfD(1) [OF assms(2)] by blast
  have n: "n = 44 + 4 * length ?ns" by (simp add: n_def hello_ids_of_def)
  let ?len = "of_nat (44 + length ?ns * 4) :: u16"
  have k: "44 + length ?ns * 4 = n" "n < 2 ^ 16" using n le by simp_all
  have len: "?len = of_nat n" "unat ?len = n" unfolding k(1) using k(2) by (simp_all add: unat_of_nat)
  obtain pkt w1 where c: "packet_create n w = (pkt, w1)" by (cases "packet_create n w") auto
  show thesis
  proof (cases "pkt = NULL")
    case True
    have "ospf_send_hello state iface w = Some (- 1, w1)"
      using assms(1,3,4) nn c True len(2) by (simp add: ospf_send_hello_def ospf_sizes del: of_nat_add of_nat_mult)
    then show thesis using that(1) c True by blast
  next
    case False
    obtain p' where p': "pkt_at pkt w1 = Some p'" "pkt_wf (p'\<lparr>pkt_len := n\<rparr>)" "length (visible (p'\<lparr>pkt_len := n\<rparr>)) = n" by (rule created_packet [OF c False])
    obtain p where p: "p'\<lparr>pkt_len := n\<rparr> = p" "pkt_wf p" "length (visible p) = n" using p'(2,3) by blast
    have l: "24 \<le> length (visible p)" "20 \<le> length (visible p) - 24" "4 * length ?ns \<le> length (visible p) - 44" unfolding p(3) n by simp_all
    let ?h = "ospf_header s OSPF_TYPE_HELLO ?len" and ?m = "OspfHello (ns_htonl (ipv4_prefix_mask (if_prefix_len i))) (ns_htons 10) 0 0 (ns_htonl 40) 0 0"
    obtain p1 where 1: "pkt_write 0 ?h p = Some p1" "pkt_wf p1" "visible p1 = ([] @ ?h) @ drop (length ?h) (visible p)"
      by (rule pkt_write_next [OF p(2), of "[]" "visible p" 0 ?h]) (use l(1) in simp_all)
    obtain p2 where 2: "pkt_write 24 ?m p1 = Some p2" "pkt_wf p2" "visible p2 = (([] @ ?h) @ ?m) @ drop (length ?m) (drop (length ?h) (visible p))"
      by (rule pkt_write_next [OF 1(2,3), of 24 ?m]) (use l(2) in simp_all)
    obtain q where 3: "hello_ids iface (os_neighbors s) 0 p2 = Some (0 + length ?ns, q)" "pkt_wf q"
      "visible q = ((([] @ ?h) @ ?m) @ concat (map (\<lambda>x. put32 (ns_htonl x)) (map nb_router_id ?ns))) @
        drop (4 * length ?ns) (drop (length ?m) (drop (length ?h) (visible p)))"
      by (rule hello_ids_written [OF 2(2,3), of 0 iface "os_neighbors s"]) (use l(3) in simp_all)
    have vis: "visible q = hello_bytes s iface (if_prefix_len i)" using 3(3) p(3) len(1) n by (simp add: hello_bytes_def hello_ids_of_def mult.commute)
    have "ospf_send_hello state iface w = ospf_transmit (os_sim s) (ns_ntohl (if_ip_addr i)) pkt (pkt_put pkt q w1)"
      using assms(1,3,4) nn c False len(2) p'(1) p(1) 1(1) 2(1) 3(1) by (simp add: ospf_send_hello_def ospf_sizes del: of_nat_add of_nat_mult)
    then show thesis using that(2) c False 3(2) vis by blast
  qed
qed

lemma lsu_sent:
  assumes "lsa_ok lsa"
  defines "n \<equiv> 44 + 12 * nat (le_link_count lsa)"
  obtains pkt w1 where "packet_create n w = (pkt, w1)" "pkt = NULL" "flood_on s lsa src w = Some (- 1, w1)"
    | pkt w1 q where "packet_create n w = (pkt, w1)" "pkt \<noteq> NULL" "pkt_wf q" "visible q = lsu_bytes s lsa"
      "flood_on s lsa src w = ospf_transmit (os_sim s) src pkt (pkt_put pkt q w1)"
proof -
  let ?k = "nat (le_link_count lsa)"
  have k: "?k \<le> length (le_links lsa)" using assms(1) by (auto simp: lsa_ok_def)
  obtain pkt w1 where c: "packet_create n w = (pkt, w1)" by (cases "packet_create n w") auto
  have tl: "24 + 4 + 16 + ?k * 12 = n" by (simp add: n_def)
  show thesis
  proof (cases "pkt = NULL")
    case True
    have "flood_on s lsa src w = Some (- 1, w1)" unfolding flood_on_def ospf_sizes tl using c True by simp
    then show thesis using that(1) c True by blast
  next
    case False
    obtain p' where p': "pkt_at pkt w1 = Some p'" "pkt_wf (p'\<lparr>pkt_len := n\<rparr>)" "length (visible (p'\<lparr>pkt_len := n\<rparr>)) = n" by (rule created_packet [OF c False])
    obtain p where p: "p'\<lparr>pkt_len := n\<rparr> = p" "pkt_wf p" "length (visible p) = n" using p'(2,3) by blast
    have l: "24 \<le> length (visible p)" "4 \<le> length (visible p) - 24" "16 \<le> length (visible p) - 28" "12 * ?k \<le> length (visible p) - 44"
      unfolding p(3) n_def by simp_all
    let ?h = "ospf_header s OSPF_TYPE_LSU (of_nat n)" and ?u = "OspfLsuHeader (ns_htons 1) 0"
    let ?m = "OspfLsaWire (ns_htonl (le_lsa_id lsa)) (ns_htonl (le_adv_router lsa)) (ns_htonl (le_seq_num lsa)) (ns_htons (le_checksum lsa))
       (le_lsa_type lsa) (of_int (le_link_count lsa))"
    obtain p1 where 1: "pkt_write 0 ?h p = Some p1" "pkt_wf p1" "visible p1 = ([] @ ?h) @ drop (length ?h) (visible p)"
      by (rule pkt_write_next [OF p(2), of "[]" "visible p" 0 ?h]) (use l(1) in simp_all)
    obtain p2 where 2: "pkt_write 24 ?u p1 = Some p2" "pkt_wf p2" "visible p2 = (([] @ ?h) @ ?u) @ drop (length ?u) (drop (length ?h) (visible p))"
      by (rule pkt_write_next [OF 1(2,3), of 24 ?u]) (use l(2) in simp_all)
    obtain p3 where 3: "pkt_write 28 ?m p2 = Some p3" "pkt_wf p3"
      "visible p3 = ((([] @ ?h) @ ?u) @ ?m) @ drop (length ?m) (drop (length ?u) (drop (length ?h) (visible p)))"
      by (rule pkt_write_next [OF 2(2,3), of 28 ?m]) (use l(3) in simp_all)
    obtain q where 4: "flood_links lsa [0..<0 + ?k] p3 = Some q" "pkt_wf q"
      "visible q = (((([] @ ?h) @ ?u) @ ?m) @ concat (map wire_link (take ?k (drop 0 (le_links lsa))))) @
        drop (12 * ?k) (drop (length ?m) (drop (length ?u) (drop (length ?h) (visible p))))"
      by (rule flood_links_written [OF 3(2,3), of 0 ?k lsa]) (use l(4) k in simp_all)
    have "drop (12 * ?k) (drop (length ?m) (drop (length ?u) (drop (length ?h) (visible p)))) = []" using p(3) by (simp add: n_def)
    then have vis: "visible q = lsu_bytes s lsa" using 4(3) by (simp add: lsu_bytes_def n_def)
    have "flood_on s lsa src w = ospf_transmit (os_sim s) src pkt (pkt_put pkt q w1)"
      unfolding flood_on_def ospf_sizes tl using c False p'(1) p(1) 1(1) 2(1) 3(1) 4(1) by (simp add: lsa_indices_def)
    then show thesis using that(2) c False 4(2) vis by blast
  qed
qed

section \<open>Safety\<close>

text \<open>The state of OSPF in a live network.\<close>

definition ospf_ok :: "addr \<Rightarrow> addr \<Rightarrow> 'a ospf_world_scheme \<Rightarrow> OspfState \<Rightarrow> bool" where
  "ospf_ok sim state w s \<longleftrightarrow> ospf_at state w = Some s \<and> ospf_wf s \<and> os_sim s = sim \<and> os_router s \<noteq> NULL \<and> ip_ready sim w \<and>
     (\<forall>slot \<in> set (os_ifaces s). oi_valid slot \<noteq> 0 \<longrightarrow> iface_at (oi_iface slot) w \<noteq> None)"

lemma ospf_okD:
  assumes "ospf_ok sim state w s"
  shows "ospf_at state w = Some s" "ospf_wf s" "os_sim s = sim" "os_router s \<noteq> NULL" "ip_ready sim w" "state \<noteq> NULL"
    "slot \<in> set (os_ifaces s) \<Longrightarrow> oi_valid slot \<noteq> 0 \<Longrightarrow> iface_at (oi_iface slot) w \<noteq> None"
  using assms by (auto simp: ospf_ok_def dest: ospf_at_nonnull)

lemma ip_step_ospf:
  assumes "ip_step sim X w w'"
  shows "ospf_at a w' = ospf_at a w"
proof -
  have m: "arp_world.more w' = arp_world.more w" using assms by (simp add: ip_step_def)
  show "ospf_at a w' = ospf_at a w" using m by (cases w; cases w') (simp add: ospf_at_def)
qed

lemma ip_step_ospf_sim: "ip_step sim X w w' \<Longrightarrow> sim_at a w' = sim_at a w"
  by (simp add: ip_step_def sim_at_def)

lemma ospf_ok_step: "ospf_ok sim state w s \<Longrightarrow> ip_step sim X w w' \<Longrightarrow> ospf_ok sim state w' s"
  unfolding ospf_ok_def using ip_step_ospf ip_step_ready ip_step_iface by metis

lemma ospf_transmit_safe:
  assumes "ip_ready sim w" "pkt_at pkt w \<noteq> None"
  obtains r w' where "ospf_transmit sim src pkt w = Some (r, w')" "r \<in> {0, - 1}" "ip_step sim {pkt} w w'"
proof -
  obtain r1 w1 where 1: "ip_output sim src OSPF_ALLSPFROUTERS OSPF_PROTO_NUM pkt w = Some (r1, w1)" "ip_step sim {pkt} w w1" "pkt_at pkt w1 \<noteq> None"
    by (rule ip_output_total [OF assms])
  obtain w2 where 2: "packet_free pkt w1 = Some w2" "ip_step sim {pkt} w1 w2" by (rule ip_step_free [OF ip_step_ready [OF 1(2)] disjI2 [OF 1(3)]])
  show thesis by (rule that [of "if r1 < 0 then - 1 else 0" w2]) (use 1(1) 2 ip_step_trans [OF 1(2) 2(2)] in \<open>simp_all add: ospf_transmit_def\<close>)
qed

text \<open>Sending a packet that was just created.\<close>

lemma ospf_send_new:
  assumes "ip_ready sim w" "packet_create n w = (pkt, w1)" "pkt \<noteq> NULL" "pkt_wf q"
  obtains r w' where "ospf_transmit sim src pkt (pkt_put pkt q w1) = Some (r, w')" "r \<in> {0, - 1}" "ip_step sim {} w w'"
proof -
  note new = ip_step_new [OF assms]
  have live: "pkt_at pkt (pkt_put pkt q w1) \<noteq> None" unfolding new(2) by simp
  obtain r w' where t: "ospf_transmit sim src pkt (pkt_put pkt q w1) = Some (r, w')" "r \<in> {0, - 1}" "ip_step sim {pkt} (pkt_put pkt q w1) w'"
    by (rule ospf_transmit_safe [OF ip_step_ready [OF new(1)] live])
  have "ip_step sim {pkt} w w'" by (rule ip_step_trans [OF ip_step_mono [OF new(1)] t(3)]) simp
  then show thesis using that t(1,2) ip_step_fresh new(3) by blast
qed

lemma hello_safe:
  assumes "ospf_ok sim state w s" "iface_at iface w \<noteq> None"
  obtains r w' where "ospf_send_hello state iface w = Some (r, w')" "r \<in> {0, - 1}" "ip_step sim {} w w'"
proof -
  note ok = ospf_okD [OF assms(1)]
  obtain i where i: "iface_at iface w = Some i" using assms(2) by auto
  obtain m sch where m: "sim_at sim w = Some m" "sim \<noteq> NULL" by (rule ready_parts [OF ok(5)])
  then have sim: "os_sim s \<noteq> NULL" using ok(3) by simp
  show thesis
  proof (cases "if_prefix_len i \<le> 32")
    case False
    then have "32 < if_prefix_len i" by simp
    then have "ospf_send_hello state iface w = Some (- 1, w)" using ok(1,6) i sim iface_at_nonnull [OF i] by (simp add: ospf_send_hello_def)
    then show thesis using that [of "- 1" w] ip_step_refl [OF ok(5)] by simp
  next
    case True
    note cr = ip_step_safe [OF ok(5) safe_step_create(1) [OF ip_ready_net [OF ok(5)]]]
    show thesis
    proof (rule hello_sent [OF ok(1,2) sim i True])
      fix pkt w1 assume "packet_create (44 + 4 * length (hello_ids_of iface s)) w = (pkt, w1)" "ospf_send_hello state iface w = Some (- 1, w1)"
      then show thesis using that [of "- 1" w1] cr by simp
    next
      fix pkt w1 q assume q: "packet_create (44 + 4 * length (hello_ids_of iface s)) w = (pkt, w1)" "pkt \<noteq> NULL" "pkt_wf q"
        "ospf_send_hello state iface w = ospf_transmit (os_sim s) (ns_ntohl (if_ip_addr i)) pkt (pkt_put pkt q w1)"
      show thesis by (rule ospf_send_new [OF ok(5) q(1-3)]) (use that q(4) ok(3) in auto)
    qed
  qed
qed

lemma flood_on_safe:
  assumes "ip_ready sim w" "lsa_ok lsa" "os_sim s = sim"
  obtains r w' where "flood_on s lsa src w = Some (r, w')" "r \<in> {0, - 1}" "ip_step sim {} w w'"
proof (rule lsu_sent [OF assms(2), of w s src])
  fix pkt w1 assume "packet_create (44 + 12 * nat (le_link_count lsa)) w = (pkt, w1)" "flood_on s lsa src w = Some (- 1, w1)"
  then show thesis using that [of "- 1" w1] ip_step_safe [OF assms(1) safe_step_create(1) [OF ip_ready_net [OF assms(1)]]] by simp
next
  fix pkt w1 q assume q: "packet_create (44 + 12 * nat (le_link_count lsa)) w = (pkt, w1)" "pkt \<noteq> NULL" "pkt_wf q"
    "flood_on s lsa src w = ospf_transmit (os_sim s) src pkt (pkt_put pkt q w1)"
  show thesis by (rule ospf_send_new [OF assms(1) q(1-3)]) (use that q(4) assms(3) in auto)
qed

lemma flood_ifaces_safe:
  assumes "ip_ready sim w" "lsa_ok lsa" "os_sim s = sim" "\<forall>slot \<in> set slots. oi_valid slot \<noteq> 0 \<longrightarrow> iface_at (oi_iface slot) w \<noteq> None"
  shows "\<exists>r w'. flood_ifaces s lsa except slots w = Some (r, w') \<and> r \<in> {0, - 1} \<and> ip_step sim {} w w'"
  using assms(1,4)
proof (induction slots arbitrary: w)
  case Nil
  then show ?case using ip_step_refl by simp
next
  case (Cons slot slots)
  have rest: "\<forall>slot \<in> set slots. oi_valid slot \<noteq> 0 \<longrightarrow> iface_at (oi_iface slot) w \<noteq> None" using Cons.prems(2) by simp
  note ih = Cons.IH [OF Cons.prems(1) rest]
  show ?case
  proof (cases "oi_valid slot = 0 \<or> oi_iface slot = NULL \<or> oi_iface slot = except")
    case True
    moreover have "iface_at (oi_iface slot) w \<noteq> None" if "oi_valid slot \<noteq> 0" using Cons.prems(2) that by simp
    ultimately show ?thesis using ih by auto
  next
    case False
    then obtain i where i: "iface_at (oi_iface slot) w = Some i" using Cons.prems(2) by auto
    obtain r w1 where 1: "flood_on s lsa (ns_ntohl (if_ip_addr i)) w = Some (r, w1)" "r \<in> {0, - 1}" "ip_step sim {} w w1"
      by (rule flood_on_safe [OF Cons.prems(1) assms(2,3)])
    have "\<forall>slot \<in> set slots. oi_valid slot \<noteq> 0 \<longrightarrow> iface_at (oi_iface slot) w1 \<noteq> None" using rest ip_step_iface [OF 1(3)] by blast
    from Cons.IH [OF ip_step_ready [OF 1(3)] this] obtain r2 w2 where 2: "flood_ifaces s lsa except slots w1 = Some (r2, w2)" "r2 \<in> {0, - 1}" "ip_step sim {} w1 w2"
      by blast
    show ?thesis
    proof (cases "r < 0")
      case True
      then show ?thesis using False i 1 by auto
    next
      case ok: False
      then have "flood_ifaces s lsa except (slot # slots) w = Some (r2, w2)" using False i 1(1) 2(1) by simp
      then show ?thesis using 2(2) ip_step_trans [OF 1(3) 2(3)] by blast
    qed
  qed
qed

lemma ospf_flood_safe:
  assumes "ospf_ok sim state w s" "lsa_ok lsa"
  obtains r w' where "ospf_flood_lsa state (Some lsa) except w = Some (r, w')" "r \<in> {0, - 1}" "ip_step sim {} w w'"
proof -
  note ok = ospf_okD [OF assms(1)]
  obtain m sch where m: "sim_at sim w = Some m" "sim \<noteq> NULL" by (rule ready_parts [OF ok(5)])
  have "\<forall>slot \<in> set (os_ifaces s). oi_valid slot \<noteq> 0 \<longrightarrow> iface_at (oi_iface slot) w \<noteq> None" using ok(7) by blast
  from flood_ifaces_safe [OF ok(5) assms(2) ok(3) this] show thesis using that ok(1,3,4,6) m(2) assms(2)
    by (auto simp: ospf_flood_lsa_def lsa_ok_def)
qed

lemma flood_changed_safe:
  assumes "ospf_ok sim state w s" "\<forall>k \<in> set ks. k < OSPF_LSDB_SIZE"
  shows "\<exists>f w'. flood_changed state iface ks failed w = Some (f, w') \<and> ip_step sim {} w w'"
  using assms
proof (induction ks arbitrary: w failed)
  case Nil
  then show ?case using ip_step_refl [OF ospf_okD(5) [OF Nil(1)]] by simp
next
  case (Cons k ks)
  have "lsa_ok (os_lsdb s ! k)" using ospf_wfD(2) [OF ospf_okD(2) [OF Cons.prems(1)]] Cons.prems(2) by (simp add: lsdb_wf_def)
  from ospf_flood_safe [OF Cons.prems(1) this] obtain r w1 where
    1: "ospf_flood_lsa state (Some (os_lsdb s ! k)) iface w = Some (r, w1)" "ip_step sim {} w w1" by metis
  have "\<forall>k \<in> set ks. k < OSPF_LSDB_SIZE" using Cons.prems(2) by simp
  from Cons.IH [OF ospf_ok_step [OF Cons.prems(1) 1(2)] this, of "failed \<or> r = - 1"] show ?case
    using 1(1) ospf_okD(1) [OF Cons.prems(1)] ip_step_trans [OF 1(2)] by auto
qed

section \<open>Parsing\<close>

lemma zero_lsa_ok: "le_link_count e = n \<Longrightarrow> 0 \<le> n \<Longrightarrow> n \<le> 4 \<Longrightarrow> le_links e = le_links zero_lsa \<Longrightarrow> lsa_ok e"
  by (simp add: lsa_ok_def zero_lsa_def OSPF_MAX_LSA_LINKS_def)

lemma parse_links_safe:
  assumes "pkt_wf p" "lsa_ok e" "\<forall>k \<in> set ks. k < nat (le_link_count e)" "cursor + 12 * nat (le_link_count e) \<le> pkt_len p"
  shows "\<exists>e'. parse_links p cursor ks e = Some e' \<and> lsa_ok e' \<and> e' = e\<lparr>le_links := le_links e'\<rparr>"
  using assms(2-4)
proof (induction ks arbitrary: e)
  case (Cons k ks)
  have k: "k < nat (le_link_count e)" "k < length (le_links e)" using Cons.prems(1,2) by (auto simp: lsa_ok_def)
  have "cursor + k * 12 + 12 \<le> pkt_len p" using k(1) Cons.prems(3) by linarith
  then obtain b where b: "pkt_read p (cursor + k * 12) 12 = Some b" using pkt_read_within [OF assms(1)] by blast
  let ?e = "e\<lparr>le_links := (le_links e)[k := \<lparr>ol_link_id = ns_ntohl (get32 b 0), ol_link_data = ns_ntohl (get32 b 4),
       ol_type = b ! 8, ol_num_tos = b ! 9, ol_metric = ns_ntohs (get16 b 10)\<rparr>]\<rparr>"
  have "lsa_ok ?e" using Cons.prems(1) by (simp add: lsa_ok_def)
  from Cons.IH [OF this] Cons.prems(2,3) obtain e' where "parse_links p cursor ks ?e = Some e'" "lsa_ok e'" "e' = ?e\<lparr>le_links := le_links e'\<rparr>" by auto
  then show ?case using b k(2) by (auto simp: sizeof_OspfLsaLink_def lsa_link_def)
qed simp

lemma parse_lsas_safe:
  assumes "pkt_wf p" "cursor + remaining \<le> pkt_len p"
  shows "\<exists>r. parse_lsas p n cursor remaining = Some r \<and> (\<forall>es m. r = Inr (es, m) \<longrightarrow> length es = n \<and> (\<forall>e \<in> set es. lsa_ok e))"
  using assms(2)
proof (induction n arbitrary: cursor remaining)
  case (Suc n)
  show ?case
  proof (cases "remaining < 16")
    case False
    then have rd: "cursor + 16 \<le> pkt_len p" using Suc.prems by simp
    then obtain b where b: "pkt_read p cursor 16 = Some b" using pkt_read_within [OF assms(1)] by blast
    let ?e = "zero_lsa\<lparr>le_lsa_id := ns_ntohl (get32 b 0), le_adv_router := ns_ntohl (get32 b 4), le_seq_num := ns_ntohl (get32 b 8),
          le_checksum := ns_ntohs (get16 b 12), le_lsa_type := b ! 14, le_link_count := uint (b ! 15)\<rparr>"
    let ?k = "nat (le_link_count ?e)"
    show ?thesis
    proof (cases "int OSPF_MAX_LSA_LINKS < le_link_count ?e \<or> remaining - 16 < ?k * 12")
      case True
      then have "parse_lsas p (Suc n) cursor remaining = Some (Inl ())" using False b by (auto simp: ospf_sizes Let_def)
      then show ?thesis by simp
    next
      case ok: False
      have e: "lsa_ok ?e" by (rule zero_lsa_ok [OF refl]) (use ok in \<open>simp_all add: OSPF_MAX_LSA_LINKS_def\<close>)
      have "?k * 12 \<le> remaining - 16" using ok by (simp add: not_less)
      then have fits: "cursor + 16 + 12 * ?k \<le> pkt_len p" using False Suc.prems by linarith
      obtain e' where e': "parse_links p (cursor + 16) (lsa_indices ?e) ?e = Some e'" "lsa_ok e'" "e' = ?e\<lparr>le_links := le_links e'\<rparr>"
        using parse_links_safe [OF assms(1) e _ fits, of "lsa_indices ?e"] by (auto simp: lsa_indices_def)
      have k': "le_link_count e' = le_link_count ?e" using arg_cong [OF e'(3), of le_link_count] by simp
      have "cursor + 16 + ?k * 12 + (remaining - 16 - ?k * 12) \<le> pkt_len p" using fits False Suc.prems by linarith
      from Suc.IH [OF this] obtain r where r: "parse_lsas p n (cursor + 16 + ?k * 12) (remaining - 16 - ?k * 12) = Some r"
        "\<And>es m. r = Inr (es, m) \<Longrightarrow> length es = n \<and> (\<forall>e \<in> set es. lsa_ok e)" by blast
      have "parse_lsas p (Suc n) cursor remaining = Some (case r of Inl _ \<Rightarrow> Inl () | Inr (lsas, remaining) \<Rightarrow> Inr (e' # lsas, remaining))"
        using False b ok e'(1) k' r(1) by (simp add: ospf_sizes)
      then show ?thesis using r(2) e'(2) by (cases r) auto
    qed
  qed (simp add: ospf_sizes)
qed simp

section \<open>The database\<close>

abbreviation lsa_key :: "OspfLsaEntry \<Rightarrow> u32 \<times> u32" where
  "lsa_key e \<equiv> (le_lsa_id e, le_adv_router e)"

lemma lsdb_find: "first_idx (\<lambda>e. le_valid e \<noteq> 0 \<and> le_lsa_id e = a \<and> le_adv_router e = b) db = lsas.find_key (a, b) db"
  by (simp add: lsas.find_key_def)

lemma lsdb_free: "first_idx (\<lambda>e. le_valid e = 0) db = lsas.find_free db"
  by (simp add: lsas.find_free_def)

text \<open>Storing an LSA that is newer than the copy in the database, or not in it.\<close>

lemma lsdb_install:
  assumes "lsdb_wf db n" "lsa_ok e" "lsdb_index e db = Some k"
  defines "e' \<equiv> e\<lparr>le_valid := 1\<rparr>" and "n' \<equiv> if le_valid (db ! k) = 0 then n + 1 else n"
  shows "k < OSPF_LSDB_SIZE" "lsdb_wf (db[k := e']) n'" "lsas.lookup (db[k := e']) = (lsas.lookup db)(lsa_key e \<mapsto> e')"
    "\<And>old. lsas.lookup db (lsa_key e) = Some old \<Longrightarrow> le_seq_num old < le_seq_num e"
proof -
  have db: "length db = OSPF_LSDB_SIZE" "lsas.unique db" "n = int (lsas.live_count db)" "\<forall>e \<in> set db. lsa_ok e"
    using assms(1) by (simp_all add: lsdb_wf_def)
  have live: "le_valid e' \<noteq> 0" and key: "lsa_key e' = lsa_key e" and ok: "lsa_ok e'" using assms(2) by (simp_all add: e'_def lsa_ok_def)
  have oks: "\<forall>x \<in> set (db[k := e']). lsa_ok x" using set_update_subset_insert [of db k e'] db(4) ok by blast
  have "k < OSPF_LSDB_SIZE \<and> lsdb_wf (db[k := e']) n' \<and> lsas.lookup (db[k := e']) = (lsas.lookup db)(lsa_key e \<mapsto> e') \<and>
    (\<forall>old. lsas.lookup db (lsa_key e) = Some old \<longrightarrow> le_seq_num old < le_seq_num e)"
  proof (cases "lsas.find_key (lsa_key e) db")
    case (Some j)
    then have j: "j = k" "le_seq_num (db ! k) < le_seq_num e" using assms(3) by (auto simp: lsdb_index_def lsdb_find split: if_splits)
    have f: "lsas.find_key (lsa_key e') db = Some k" using Some j(1) key by simp
    note fk = lsas.find_key_Some [OF f]
    have "lsdb_wf (db[k := e']) n'" unfolding lsdb_wf_def
      using db(1,3) oks fk lsas.unique_overwrite [OF db(2) f] lsas.live_count_overwrite [OF f live] by (simp add: n'_def)
    then show ?thesis using lsas.lookup_overwrite [OF db(2) f live] key fk db(1) j Some by (auto simp: lsas.lookup_def)
  next
    case None
    then have "lsas.find_free db = Some k" using assms(3) by (simp add: lsdb_index_def lsdb_find lsdb_free)
    note fk = lsas.find_free_Some [OF this]
    have f: "lsas.find_key (lsa_key e') db = None" using None key by simp
    have "lsdb_wf (db[k := e']) n'" unfolding lsdb_wf_def
      using db(1,3) oks fk lsas.unique_fill [OF db(2) f, of k] lsas.live_count_fill [of k db e'] live by (simp add: n'_def)
    then show ?thesis using lsas.lookup_fill [OF db(2) f, of k] key fk live db(1) None by (simp add: lsas.lookup_def)
  qed
  then show "k < OSPF_LSDB_SIZE" "lsdb_wf (db[k := e']) n'" "lsas.lookup (db[k := e']) = (lsas.lookup db)(lsa_key e \<mapsto> e')"
    "\<And>old. lsas.lookup db (lsa_key e) = Some old \<Longrightarrow> le_seq_num old < le_seq_num e" by blast+
qed

text \<open>A database never goes back to an older copy of an LSA, and holds nothing but its own LSAs and those of the update.\<close>

definition lsdb_newer :: "OspfLsaEntry list \<Rightarrow> OspfLsaEntry list \<Rightarrow> OspfLsaEntry list \<Rightarrow> bool" where
  "lsdb_newer es db db' \<longleftrightarrow> (\<forall>k e. lsas.lookup db k = Some e \<longrightarrow> (\<exists>e'. lsas.lookup db' k = Some e' \<and> (e' = e \<or> le_seq_num e < le_seq_num e'))) \<and>
     (\<forall>k e'. lsas.lookup db' k = Some e' \<longrightarrow> lsas.lookup db k = Some e' \<or> (\<exists>e \<in> set es. k = lsa_key e \<and> e' = e\<lparr>le_valid := 1\<rparr>))"

lemma lsdb_newer_refl [simp]: "lsdb_newer es db db"
  by (simp add: lsdb_newer_def)

lemma lsdb_newer_step:
  assumes "lsas.lookup db1 = (lsas.lookup db)(lsa_key e \<mapsto> e\<lparr>le_valid := 1\<rparr>)" "lsdb_newer es db1 db2"
    and "\<And>old. lsas.lookup db (lsa_key e) = Some old \<Longrightarrow> le_seq_num old < le_seq_num e"
  shows "lsdb_newer (e # es) db db2"
  unfolding lsdb_newer_def
proof (intro conjI allI impI)
  fix k x assume x: "lsas.lookup db k = Some x"
  show "\<exists>e'. lsas.lookup db2 k = Some e' \<and> (e' = x \<or> le_seq_num x < le_seq_num e')"
  proof (cases "k = lsa_key e")
    case True
    then have "lsas.lookup db1 k = Some (e\<lparr>le_valid := 1\<rparr>)" using assms(1) by simp
    from assms(2) [unfolded lsdb_newer_def, THEN conjunct1, rule_format, OF this]
    obtain e' where "lsas.lookup db2 k = Some e'" "e' = e\<lparr>le_valid := 1\<rparr> \<or> le_seq_num e < le_seq_num e'" by auto
    then show ?thesis using assms(3) [of x] x True by auto
  next
    case False
    then have "lsas.lookup db1 k = Some x" using assms(1) x by simp
    from assms(2) [unfolded lsdb_newer_def, THEN conjunct1, rule_format, OF this] show ?thesis .
  qed
next
  fix k e' assume "lsas.lookup db2 k = Some e'"
  from assms(2) [unfolded lsdb_newer_def, THEN conjunct2, rule_format, OF this]
  show "lsas.lookup db k = Some e' \<or> (\<exists>e \<in> set (e # es). k = lsa_key e \<and> e' = e\<lparr>le_valid := 1\<rparr>)"
    using assms(1) by (cases "k = lsa_key e") auto
qed

lemma lsdb_newer_skip: "lsdb_newer es db db' \<Longrightarrow> lsdb_newer (e # es) db db'"
  unfolding lsdb_newer_def by simp blast

lemma lsdb_store_safe:
  assumes "lsdb_wf db n" "\<forall>e \<in> set es. lsa_ok e" "distinct ch" "set ch \<subseteq> {..<OSPF_LSDB_SIZE}"
  shows "\<exists>db' n' ch'. lsdb_store es db n ch = Some (db', n', ch') \<and> lsdb_wf db' n' \<and> set ch' \<subseteq> {..<OSPF_LSDB_SIZE} \<and> lsdb_newer es db db'"
  using assms
proof (induction es arbitrary: db n ch)
  case (Cons e es)
  have es: "\<forall>e \<in> set es. lsa_ok e" "lsa_ok e" using Cons.prems(2) by simp_all
  show ?case
  proof (cases "lsdb_index e db")
    case None
    then show ?thesis using Cons.IH [OF Cons.prems(1) es(1) Cons.prems(3,4)] lsdb_newer_skip by (auto; blast)
  next
    case (Some k)
    let ?db = "db[k := e\<lparr>le_valid := 1\<rparr>]" and ?n = "if le_valid (db ! k) = 0 then n + 1 else n"
    note ins = lsdb_install [OF Cons.prems(1) es(2) Some]
    obtain ch1 where ch1: "lsdb_store (e # es) db n ch = lsdb_store es ?db ?n ch1" "distinct ch1" "set ch1 \<subseteq> {..<OSPF_LSDB_SIZE}"
    proof (cases "k \<in> set ch")
      case True
      then show thesis using that [of ch] Some Cons.prems(3,4) by (simp add: Let_def)
    next
      case False
      have "set ch \<subset> {..<OSPF_LSDB_SIZE}" using False ins(1) Cons.prems(4) by blast
      then have "length ch < OSPF_LSDB_SIZE" using distinct_card [OF Cons.prems(3)] psubset_card_mono [of "{..<OSPF_LSDB_SIZE}" "set ch"] by simp
      then show thesis using that [of "ch @ [k]"] Some False ins(1) Cons.prems(3,4) by (simp add: Let_def)
    qed
    from Cons.IH [OF ins(2) es(1) ch1(2,3)] obtain db' n' ch' where "lsdb_store es ?db ?n ch1 = Some (db', n', ch')" "lsdb_wf db' n'"
      "set ch' \<subseteq> {..<OSPF_LSDB_SIZE}" "lsdb_newer es ?db db'" by blast
    then show ?thesis using ch1(1) lsdb_newer_step [OF ins(3) _ ins(4)] by auto
  qed
qed auto

section \<open>Reception\<close>

text \<open>What a reception ends in: no fault, a return value, the packet gone, and the invariant with a database that is no older.\<close>

definition ospf_ends :: "addr \<Rightarrow> addr \<Rightarrow> addr \<Rightarrow> OspfState \<Rightarrow> (int \<times> 'a ospf_world_scheme) option \<Rightarrow> bool" where
  "ospf_ends sim state pkt s res \<longleftrightarrow> (\<exists>r w' s'. res = Some (r, w') \<and> r \<in> {0, - 1} \<and> ospf_ok sim state w' s' \<and> pkt_at pkt w' = None \<and>
     os_router_id s' = os_router_id s \<and> os_area_id s' = os_area_id s \<and> os_router s' = os_router s \<and> os_ifaces s' = os_ifaces s \<and>
     (\<exists>es. lsdb_newer es (os_lsdb s) (os_lsdb s')))"

lemma ospf_endsI:
  assumes "ospf_ok sim state w s'" "res = Some (r, w)" "r \<in> {0, - 1}" "pkt_at pkt w = None"
    and "s' = s\<lparr>os_neighbors := ns, os_neighbor_count := nc, os_lsdb := db, os_lsdb_count := dc\<rparr>" "lsdb_newer es (os_lsdb s) db"
  shows "ospf_ends sim state pkt s res"
proof -
  have f: "os_router_id s' = os_router_id s" "os_area_id s' = os_area_id s" "os_router s' = os_router s" "os_ifaces s' = os_ifaces s" "os_lsdb s' = db"
    unfolding assms(5) by simp_all
  have "lsdb_newer es (os_lsdb s) (os_lsdb s')" unfolding f(5) by (rule assms(6))
  then show ?thesis unfolding ospf_ends_def using assms(1-4) f(1-4) by blast
qed

lemma same_state: "s = s\<lparr>os_neighbors := os_neighbors s, os_neighbor_count := os_neighbor_count s, os_lsdb := os_lsdb s, os_lsdb_count := os_lsdb_count s\<rparr>"
  by simp

text \<open>The exits: the packet is freed, and a counter of the interface goes up or not.\<close>

definition ospf_done :: "addr \<Rightarrow> addr \<Rightarrow> addr \<Rightarrow> OspfState \<Rightarrow> (int \<times> 'a ospf_world_scheme) option \<Rightarrow> bool" where
  "ospf_done sim state pkt s res \<longleftrightarrow> (\<exists>r w'. res = Some (r, w') \<and> r \<in> {0, - 1} \<and> ospf_ok sim state w' s \<and> pkt_at pkt w' = None)"

lemma ospf_exit_done:
  assumes "ospf_ok sim state w s" "pkt_at pkt w \<noteq> None" "iface_at iface w \<noteq> None"
  shows "ospf_done sim state pkt s (ospf_error iface pkt w)" "ospf_done sim state pkt s (ospf_drop iface pkt w)"
    "ospf_done sim state pkt s (do { w \<leftarrow> packet_free pkt w; Some (0, w) })"
proof -
  note rd = ospf_okD(5) [OF assms(1)]
  obtain w1 where 1: "packet_free pkt w = Some w1" "ip_step sim {pkt} w w1" by (rule ip_step_free [OF rd disjI2 [OF assms(2)]])
  note gone = packet_free_gone [OF 1(1)]
  note ok1 = ospf_ok_step [OF assms(1) 1(2)]
  have "iface_at iface w1 \<noteq> None" using ip_step_iface [OF 1(2)] assms(3) by blast
  from ip_step_counts [OF ip_step_ready [OF 1(2)] this] obtain w2 w3 where 2: "count_rx_error iface w1 = Some w2" "ip_step sim {} w1 w2"
    "count_rx_drop iface w1 = Some w3" "ip_step sim {} w1 w3" by blast
  have "pkt_at pkt w2 = None" "pkt_at pkt w3 = None"
    using 2(1,3) gone by (auto simp: count_rx_error_def count_rx_drop_def iface_upd_def iface_put_def pkt_at_def split: bind_splits if_splits)
  then show "ospf_done sim state pkt s (ospf_error iface pkt w)" "ospf_done sim state pkt s (ospf_drop iface pkt w)"
    "ospf_done sim state pkt s (do { w \<leftarrow> packet_free pkt w; Some (0, w) })"
    using 1(1) 2(1,3) gone ok1 ospf_ok_step [OF ok1 2(2)] ospf_ok_step [OF ok1 2(4)] by (simp_all add: ospf_done_def ospf_error_def ospf_drop_def)
qed

lemma ospf_done_ends:
  assumes "ospf_done sim state pkt s' res" "s' = s\<lparr>os_neighbors := ns, os_neighbor_count := nc, os_lsdb := db, os_lsdb_count := dc\<rparr>" "lsdb_newer es (os_lsdb s) db"
  shows "ospf_ends sim state pkt s res"
proof -
  obtain r w' where "ospf_ok sim state w' s'" "res = Some (r, w')" "r \<in> {0, - 1}" "pkt_at pkt w' = None" using assms(1) unfolding ospf_done_def by blast
  then show ?thesis using ospf_endsI assms(2,3) by blast
qed

lemma ospf_exit:
  assumes "ospf_ok sim state w s" "pkt_at pkt w \<noteq> None" "iface_at iface w \<noteq> None"
  shows "ospf_ends sim state pkt s (ospf_error iface pkt w)" "ospf_ends sim state pkt s (ospf_drop iface pkt w)"
    "ospf_ends sim state pkt s (do { w \<leftarrow> packet_free pkt w; Some (0, w) })"
  by (rule ospf_done_ends [OF _ same_state lsdb_newer_refl], rule ospf_exit_done [OF assms])+

lemma ospf_ok_put:
  assumes "ospf_ok sim state w s" "ospf_wf s'" "os_sim s' = os_sim s" "os_router s' = os_router s" "os_ifaces s' = os_ifaces s"
  shows "ospf_ok sim state (ospf_put state s' w) s'"
proof -
  note ok = ospf_okD [OF assms(1)]
  then show ?thesis using assms(2-5) by (simp add: ospf_ok_def)
qed

lemma local_id_in_safe:
  assumes "pkt_wf p" "\<forall>i \<in> set is. 44 + 4 * i + 4 \<le> pkt_len p"
  shows "local_id_in r p is = Some (\<exists>i \<in> set is. ns_ntohl (get32 (take 4 (drop (44 + 4 * i) (visible p))) 0) = r)"
  using assms(2) by (induction "is") (simp_all add: ospf_sizes pkt_read_within [OF assms(1)])

text \<open>The neighbour of a hello goes to its own slot or a free one.\<close>

lemma neighbor_install:
  assumes "neighbors_wf (os_neighbors s) (os_neighbor_count s)" "neighbor_slot (nb_router_id n) s = Some (k, c)" "nb_valid n \<noteq> 0"
  shows "neighbors_wf ((os_neighbors s)[k := n]) c" "nbrs.lookup ((os_neighbors s)[k := n]) = (nbrs.lookup (os_neighbors s))(nb_router_id n \<mapsto> n)"
proof -
  let ?ns = "os_neighbors s"
  have ns: "length ?ns = OSPF_MAX_NEIGHBORS" "nbrs.unique ?ns" "os_neighbor_count s = int (nbrs.live_count ?ns)" using assms(1) by (simp_all add: neighbors_wf_def)
  have slot: "neighbor_slot (nb_router_id n) s = (case nbrs.find_key (nb_router_id n) ?ns of Some i \<Rightarrow> Some (i, os_neighbor_count s)
     | None \<Rightarrow> map_option (\<lambda>i. (i, os_neighbor_count s + 1)) (nbrs.find_free ?ns))"
    unfolding neighbor_slot_def nbrs.find_key_def nbrs.find_free_def by (simp split: option.split)
  have "neighbors_wf (?ns[k := n]) c \<and> nbrs.lookup (?ns[k := n]) = (nbrs.lookup ?ns)(nb_router_id n \<mapsto> n)"
  proof (cases "nbrs.find_key (nb_router_id n) ?ns")
    case (Some j)
    then have j: "nbrs.find_key (nb_router_id n) ?ns = Some k" "c = os_neighbor_count s" using slot assms(2) by auto
    show ?thesis unfolding neighbors_wf_def
      using ns j(2) nbrs.unique_overwrite [OF ns(2) j(1)] nbrs.live_count_overwrite [OF j(1) assms(3)] nbrs.lookup_overwrite [OF ns(2) j(1) assms(3)] by simp
  next
    case None
    then have j: "nbrs.find_free ?ns = Some k" "c = os_neighbor_count s + 1" using slot assms(2) by (cases "nbrs.find_free ?ns"; simp)+
    note fk = nbrs.find_free_Some [OF j(1)]
    show ?thesis unfolding neighbors_wf_def
      using ns j(2) fk nbrs.unique_fill [OF ns(2) None, of k] nbrs.live_count_fill [of k ?ns n] nbrs.lookup_fill [OF ns(2) None, of k] assms(3) by simp
  qed
  then show "neighbors_wf (?ns[k := n]) c" "nbrs.lookup (?ns[k := n]) = (nbrs.lookup ?ns)(nb_router_id n \<mapsto> n)" by blast+
qed

lemma receive_hello_safe:
  assumes "ospf_ok sim state w s" "pkt_at pkt w = Some p" "pkt_wf p" "iface_at iface w = Some i" "len = pkt_len p"
  shows "ospf_ends sim state pkt s (ospf_receive_hello state s iface i pkt p src sender len now w)"
proof -
  note ok = ospf_okD [OF assms(1)]
  have live: "pkt_at pkt w \<noteq> None" "iface_at iface w \<noteq> None" using assms(2,4) by simp_all
  note exit = ospf_exit [OF assms(1) live]
  let ?h = "take 20 (drop 24 (visible p))" and ?ids = "[0..<(len - 24 - 20) div 4]"
  show ?thesis
  proof (cases "len < 44")
    case True
    then show ?thesis using exit(1) by (simp add: ospf_receive_hello_def ospf_sizes)
  next
    case long: False
    then have rd: "pkt_read p 24 20 = Some ?h" using pkt_read_within [OF assms(3), of 24 20] assms(5) by simp
    show ?thesis
    proof (cases "(len - 24 - 20) mod 4 \<noteq> 0 \<or> sender = os_router_id s \<or> ns_ntohl (get32 ?h 0) \<noteq> ipv4_prefix_mask (if_prefix_len i) \<or>
        ns_ntohs (get16 ?h 4) \<noteq> 10 \<or> ns_ntohl (get32 ?h 8) \<noteq> 40")
      case True
      then show ?thesis using exit(1,2) long rd by (auto simp: ospf_receive_hello_def ospf_sizes Let_def)
    next
      case False
      have "\<forall>k \<in> set ?ids. 44 + 4 * k + 4 \<le> pkt_len p" using long assms(5) by auto
      from local_id_in_safe [OF assms(3) this, of "os_router_id s"] obtain seen where seen: "local_id_in (os_router_id s) p ?ids = Some seen" by blast
      show ?thesis
      proof (cases "neighbor_slot sender s")
        case None
        then show ?thesis using exit(2) long rd False seen by (simp add: ospf_receive_hello_def ospf_sizes Let_def)
      next
        case (Some kc)
        obtain k c where kc: "kc = (k, c)" by (cases kc) auto
        let ?n = "\<lparr>nb_router_id = sender, nb_ip_addr = src, nb_state = if seen then OSPF_NBR_FULL else OSPF_NBR_INIT, nb_last_hello_ts = now, nb_iface = iface, nb_valid = 1\<rparr>"
        let ?s = "s\<lparr>os_neighbors := (os_neighbors s)[k := ?n], os_neighbor_count := c\<rparr>"
        have "neighbors_wf ((os_neighbors s)[k := ?n]) c" using neighbor_install(1) [OF ospf_wfD(1) [OF ok(2)], of ?n k c] Some kc by simp
        then have "ospf_wf ?s" using ok(2) by (simp add: ospf_wf_def)
        then have ok': "ospf_ok sim state (ospf_put state ?s w) ?s" by (intro ospf_ok_put [OF assms(1)]) simp_all
        have "ospf_receive_hello state s iface i pkt p src sender len now w = do { w \<leftarrow> packet_free pkt (ospf_put state ?s w); Some (0, w) }"
          using long rd False seen Some kc by (simp add: ospf_receive_hello_def ospf_sizes Let_def)
        moreover have "ospf_ends sim state pkt s (do { w \<leftarrow> packet_free pkt (ospf_put state ?s w); Some (0, w) })"
          by (rule ospf_done_ends [OF ospf_exit_done(3) [OF ok', of pkt iface], where ns = "os_neighbors ?s" and nc = c and db = "os_lsdb s" and dc = "os_lsdb_count s"]) (use live in simp_all)
        ultimately show ?thesis by simp
      qed
    qed
  qed
qed

lemma schedule_spf_safe:
  assumes "ospf_ok sim state w s" "sim_at sim w = Some m"
  obtains r w' where "ospf_schedule_spf state (sim_sched m) now w = Some (r, w')" "ip_step sim {} w w'"
proof -
  obtain e w1 where 1: "event_create_callback EVT_OSPF_SPF (now + OSPF_SPF_DELAY_US) VNull VNull NULL VNull Cb_ospf_spf_timer (VOspf state) w = (e, w1)"
    "ip_step sim {} w w1" by (rule ip_step_event [OF ospf_okD(5) [OF assms(1)]])
  have m: "sim_at sim w1 = Some m" using ip_step_ospf_sim [OF 1(2)] assms(2) by simp
  show thesis
  proof (cases e)
    case None
    then show thesis using that [of "- 1" w1] 1 by (simp add: ospf_schedule_spf_def)
  next
    case (Some ev)
    obtain r w2 where 2: "scheduler_schedule (sim_sched m) (Some ev) w1 = Some (r, w2)" "ip_step sim {} w1 w2"
      by (rule ip_step_schedule [OF ip_step_ready [OF 1(2)] m])
    show thesis by (rule that [of "if r \<noteq> 0 then - 1 else 0" w2])
      (use 1(1) 2(1) Some ip_step_trans [OF 1(2) 2(2)] in \<open>simp_all add: ospf_schedule_spf_def\<close>)
  qed
qed

text \<open>Flooding the changed slots and queueing the computation.\<close>

lemma spread_safe:
  assumes "ospf_ok sim state w s" "sim_at sim w = Some m" "set ch \<subseteq> {..<OSPF_LSDB_SIZE}"
  obtains f w' where "do {
      (failed, w) \<leftarrow> flood_changed state iface ch False w;
      if ch = [] then Some (failed, w)
      else do { sch \<leftarrow> sched_at (sim_sched m) w; (r, w) \<leftarrow> ospf_schedule_spf state (sim_sched m) (sch_now sch) w; Some (failed \<or> r \<noteq> 0, w) }
    } = Some (f, w')" "ip_step sim {} w w'"
proof -
  have "\<forall>k \<in> set ch. k < OSPF_LSDB_SIZE" using assms(3) by auto
  from flood_changed_safe [OF assms(1) this] obtain f w1 where 1: "flood_changed state iface ch False w = Some (f, w1)" "ip_step sim {} w w1" by blast
  have m: "sim_at sim w1 = Some m" using ip_step_ospf_sim [OF 1(2)] assms(2) by simp
  note ok1 = ospf_ok_step [OF assms(1) 1(2)]
  obtain m' sch where "sim_at sim w1 = Some m'" "sched_at (sim_sched m') w1 = Some sch" by (rule ready_parts [OF ospf_okD(5) [OF ok1]])
  then have sch: "sched_at (sim_sched m) w1 = Some sch" using m by simp
  obtain r w2 where 2: "ospf_schedule_spf state (sim_sched m) (sch_now sch) w1 = Some (r, w2)" "ip_step sim {} w1 w2" by (rule schedule_spf_safe [OF ok1 m])
  show thesis
  proof (cases "ch = []")
    case True
    then show thesis using that [of f w1] 1 by simp
  next
    case False
    then show thesis using that [of "f \<or> r \<noteq> 0" w2] 1(1) sch 2(1) ip_step_trans [OF 1(2) 2(2)] by simp
  qed
qed

text \<open>An update that parses is stored, flooded and acted upon.\<close>

lemma receive_lsu_stored:
  assumes "ospf_ok sim state w s" "pkt_at pkt w = Some p" "iface_at iface w \<noteq> None" "sim_at sim w = Some m" "28 \<le> len" "pkt_read p 24 4 = Some b"
    and "unat (ns_ntohs (get16 b 0)) \<le> OSPF_LSDB_SIZE" "parse_lsas p (unat (ns_ntohs (get16 b 0))) 28 (len - 28) = Some (Inr (es, 0))"
    and "lsdb_store es (os_lsdb s) (os_lsdb_count s) [] = Some (db, n, ch)" "lsdb_wf db n" "set ch \<subseteq> {..<OSPF_LSDB_SIZE}"
  shows "ospf_done sim state pkt (s\<lparr>os_lsdb := db, os_lsdb_count := n\<rparr>) (ospf_receive_lsu state s iface pkt p len (sim_sched m) w)"
proof -
  let ?s = "s\<lparr>os_lsdb := db, os_lsdb_count := n\<rparr>"
  have "ospf_wf ?s" using ospf_okD(2) [OF assms(1)] assms(10) by (simp add: ospf_wf_def)
  then have ok1: "ospf_ok sim state (ospf_put state ?s w) ?s" by (intro ospf_ok_put [OF assms(1)]) simp_all
  have m1: "sim_at sim (ospf_put state ?s w) = Some m" using assms(4) by simp
  obtain f w2 where sp: "do {
      (failed, w) \<leftarrow> flood_changed state iface ch False (ospf_put state ?s w);
      if ch = [] then Some (failed, w)
      else do { sch \<leftarrow> sched_at (sim_sched m) w; (r, w) \<leftarrow> ospf_schedule_spf state (sim_sched m) (sch_now sch) w; Some (failed \<or> r \<noteq> 0, w) }
    } = Some (f, w2)" "ip_step sim {} (ospf_put state ?s w) w2" by (rule spread_safe [OF ok1 m1 assms(11)])
  have live2: "pkt_at pkt w2 \<noteq> None" "iface_at iface w2 \<noteq> None"
    using ip_step_pkt [OF sp(2), of pkt p] assms(2) ip_step_iface [OF sp(2), of iface] assms(3) by simp_all
  have "ospf_receive_lsu state s iface pkt p len (sim_sched m) w =
      (if f then ospf_error iface pkt w2 else do { w \<leftarrow> packet_free pkt w2; Some (0, w) })"
    using assms(5-9) sp(1) by (auto simp: ospf_receive_lsu_def ospf_sizes ospf_error_def bind_eq_Some_conv split: if_splits)
  then show ?thesis using ospf_exit_done(1,3) [OF ospf_ok_step [OF ok1 sp(2)] live2] by simp
qed

lemma receive_lsu_safe:
  assumes "ospf_ok sim state w s" "pkt_at pkt w = Some p" "pkt_wf p" "iface_at iface w \<noteq> None" "len = pkt_len p" "sim_at sim w = Some m"
  shows "ospf_ends sim state pkt s (ospf_receive_lsu state s iface pkt p len (sim_sched m) w)"
proof -
  note ok = ospf_okD [OF assms(1)]
  have live: "pkt_at pkt w \<noteq> None" using assms(2) by simp
  note exit = ospf_exit [OF assms(1) live assms(4)]
  let ?b = "take 4 (drop 24 (visible p))" let ?n = "unat (ns_ntohs (get16 (take 4 (drop 24 (visible p))) 0))"
  show ?thesis
  proof (cases "len < 28 \<or> OSPF_LSDB_SIZE < ?n")
    case True
    have "pkt_read p 24 4 = Some ?b" if "\<not> len < 28" using pkt_read_within [OF assms(3), of 24 4] assms(5) that by simp
    then show ?thesis using exit(1) True by (cases "len < 28") (simp_all add: ospf_receive_lsu_def ospf_sizes)
  next
    case long: False
    then have rd: "pkt_read p 24 4 = Some ?b" using pkt_read_within [OF assms(3), of 24 4] assms(5) by simp
    have "28 + (len - 28) \<le> pkt_len p" using long assms(5) by simp
    from parse_lsas_safe [OF assms(3) this] obtain r where r: "parse_lsas p ?n 28 (len - 28) = Some r"
      "\<And>es m. r = Inr (es, m) \<Longrightarrow> length es = ?n \<and> (\<forall>e \<in> set es. lsa_ok e)" by blast
    show ?thesis
    proof (cases "\<exists>es. r = Inr (es, 0)")
      case False
      then have "ospf_receive_lsu state s iface pkt p len (sim_sched m) w = ospf_error iface pkt w"
        using long rd r(1) by (cases r) (auto simp: ospf_receive_lsu_def ospf_sizes split: if_splits)
      then show ?thesis using exit(1) by simp
    next
      case True
      then obtain es where es: "r = Inr (es, 0)" "\<forall>e \<in> set es. lsa_ok e" using r(2) by blast
      obtain db n ch where st: "lsdb_store es (os_lsdb s) (os_lsdb_count s) [] = Some (db, n, ch)" "lsdb_wf db n" "set ch \<subseteq> {..<OSPF_LSDB_SIZE}"
        "lsdb_newer es (os_lsdb s) db" using lsdb_store_safe [OF ospf_wfD(2) [OF ok(2)] es(2), of "[]"] by auto
      have "28 \<le> len" "?n \<le> OSPF_LSDB_SIZE" using long by simp_all
      from receive_lsu_stored [OF assms(1,2,4,6) this(1) rd this(2) r(1) [unfolded es(1)] st(1-3)]
      show ?thesis by (rule ospf_done_ends [OF _ _ st(4), where ns = "os_neighbors s" and nc = "os_neighbor_count s" and dc = n]) simp
    qed
  qed
qed

text \<open>The checks of the header, once the packet is known to have one.\<close>

lemma receive_checks:
  assumes "ospf_ok sim state w s" "pkt_at pkt w = Some p" "iface_at iface w = Some i" "sim_at sim w = Some m" "sched_at (sim_sched m) w = Some sch"
    and "\<not> 32 < if_prefix_len i" "20 \<le> pkt_data p" "24 \<le> pkt_len p" "pkt_wf p" "h = take 24 (visible p)" "ip = take 20 (drop (pkt_data p - 20) (pkt_head p))"
  shows "ospf_receive iface pkt (VOspf state) w =
    (let len = unat (ns_ntohs (get16 h 2)) in
     if ih_protocol (ip_load ip) \<noteq> OSPF_PROTO_NUM then ospf_error iface pkt w
     else if h ! 0 \<noteq> OSPF_VERSION then ospf_error iface pkt w
     else if ns_ntohl (get32 h 8) \<noteq> os_area_id s then ospf_drop iface pkt w
     else if len \<noteq> pkt_len p \<or> len < 24 then ospf_error iface pkt w
     else if ns_ntohs (get16 h 12) \<noteq> 0 then ospf_error iface pkt w
     else if ns_ntohs (get16 h 14) \<noteq> 0 \<or> get32 h 16 \<noteq> 0 \<or> get32 h 20 \<noteq> 0 then ospf_error iface pkt w
     else if h ! 1 = OSPF_TYPE_HELLO then
       ospf_receive_hello state s iface i pkt p (ns_ntohl (ih_src_ip (ip_load ip))) (ns_ntohl (get32 h 4)) len (sch_now sch) w
     else if h ! 1 = OSPF_TYPE_LSU then ospf_receive_lsu state s iface pkt p len (sim_sched m) w
     else if h ! 1 = OSPF_TYPE_DBD \<or> h ! 1 = OSPF_TYPE_LSR \<or> h ! 1 = OSPF_TYPE_LSACK then do { w \<leftarrow> packet_free pkt w; Some (0, w) }
     else ospf_error iface pkt w)"
proof -
  note ok = ospf_okD [OF assms(1)]
  have nn: "pkt \<noteq> NULL" "iface \<noteq> NULL" "sim \<noteq> NULL" "sim_sched m \<noteq> NULL"
    using assms(2-5) by (auto dest: pkt_at_nonnull iface_at_nonnull sim_at_nonnull sched_at_nonnull)
  have v: "packet_validate_view (Some p) IP_HDR_LEN sizeof_OspfHeader = 0"
    using validate_view_wf [OF assms(9), of 20 24] assms(7,8) by (simp add: IP_HDR_LEN_def sizeof_OspfHeader_def)
  have rd: "ip_before p = Some ip" "pkt_read p 0 24 = Some h"
    using ip_before_ok [OF assms(9,7)] pkt_read_within [OF assms(9), of 0 24] assms(8,10,11) by simp_all
  show ?thesis unfolding ospf_receive_def as_ospf_def using nn assms(2-6) ok(1,3,4,6) v rd by (simp add: sizeof_OspfHeader_def Let_def)
qed

lemma receive_safe:
  assumes "ospf_ok sim state w s" "pkt_at pkt w = Some p" "iface_at iface w = Some i"
  shows "ospf_ends sim state pkt s (ospf_receive iface pkt (VOspf state) w)"
proof -
  note ok = ospf_okD [OF assms(1)]
  obtain m sch where m: "sim_at sim w = Some m" "sched_at (sim_sched m) w = Some sch" "sim_sched m \<noteq> NULL" "sim \<noteq> NULL" by (rule ready_parts [OF ok(5)])
  have live: "pkt_at pkt w \<noteq> None" "iface_at iface w \<noteq> None" "pkt \<noteq> NULL" "iface \<noteq> NULL"
    using assms(2,3) by (auto dest: pkt_at_nonnull iface_at_nonnull)
  note exit = ospf_exit [OF assms(1) live(1,2)]
  have wf: "pkt_wf p" using ip_ready_net [OF ok(5)] assms(2) by (simp add: net_wf_def heap_wf_def)
  show ?thesis
  proof (cases "32 < if_prefix_len i \<or> packet_validate_view (Some p) IP_HDR_LEN sizeof_OspfHeader \<noteq> 0")
    case True
    then have "ospf_receive iface pkt (VOspf state) w = ospf_error iface pkt w" using live(3,4) assms(2,3) ok(1,3,4,6) m
      by (cases "32 < if_prefix_len i") (simp_all add: ospf_receive_def as_ospf_def)
    then show ?thesis using exit(1) by simp
  next
    case False
    then have len: "20 \<le> pkt_data p" "24 \<le> pkt_len p" using validate_view_wf [OF wf, of 20 24] by (simp_all add: IP_HDR_LEN_def sizeof_OspfHeader_def)
    have pl: "\<not> 32 < if_prefix_len i" using False by simp
    show ?thesis unfolding receive_checks [OF assms m(1,2) pl len wf refl refl] Let_def
      using exit receive_hello_safe [OF assms(1,2) wf assms(3)] receive_lsu_safe [OF assms(1,2) wf live(2) _ m(1)] by simp
  qed
qed


end
