(* ===== verification/Ospf_Roundtrip.thy ===== *)
theory Ospf_Roundtrip
  imports Ospf_Receive
begin

text \<open>
  Messages of OSPF between two routers (\<open>protocols/ospf.c\<close>): what \<open>ospf_receive\<close> makes of the bytes that
  \<open>ospf_send_hello\<close> and \<open>ospf_flood_lsa\<close> of a neighbour write.
\<close>

section \<open>Reading fields\<close>

lemma get16_at: "n = length a \<Longrightarrow> get16 (a @ put16 x @ b) n = x"
  using get16_shift [of a "put16 x @ b" 0] by (simp add: get16_append get16_put16)

lemma get32_at: "n = length a \<Longrightarrow> get32 (a @ put32 x @ b) n = x"
  using get32_shift [of a "put32 x @ b" 0] by (simp add: get32_append get32_put32)

lemma OspfHeader_fields:
  fixes v ty len rid aid ck au a0 a1
  defines "h \<equiv> OspfHeader v ty len rid aid ck au a0 a1"
  shows "h ! 0 = v" "h ! 1 = ty" "get16 h 2 = len" "get32 h 4 = rid" "get32 h 8 = aid" "get16 h 12 = ck" "get16 h 14 = au"
    "get32 h 16 = a0" "get32 h 20 = a1"
proof -
  show "h ! 0 = v" "h ! 1 = ty" by (simp_all add: h_def OspfHeader_def)
  show "get16 h 2 = len" using get16_at [of 2 "[v, ty]" len] by (simp add: h_def OspfHeader_def)
  show "get32 h 4 = rid" using get32_at [of 4 "[v, ty] @ put16 len" rid] by (simp add: h_def OspfHeader_def)
  show "get32 h 8 = aid" using get32_at [of 8 "[v, ty] @ put16 len @ put32 rid" aid] by (simp add: h_def OspfHeader_def)
  show "get16 h 12 = ck" using get16_at [of 12 "[v, ty] @ put16 len @ put32 rid @ put32 aid" ck] by (simp add: h_def OspfHeader_def)
  show "get16 h 14 = au" using get16_at [of 14 "[v, ty] @ put16 len @ put32 rid @ put32 aid @ put16 ck" au] by (simp add: h_def OspfHeader_def)
  show "get32 h 16 = a0" using get32_at [of 16 "[v, ty] @ put16 len @ put32 rid @ put32 aid @ put16 ck @ put16 au" a0] by (simp add: h_def OspfHeader_def)
  show "get32 h 20 = a1" using get32_at [of 20 "[v, ty] @ put16 len @ put32 rid @ put32 aid @ put16 ck @ put16 au @ put32 a0" a1 "[]"]
    by (simp add: h_def OspfHeader_def)
qed

lemma OspfHello_fields:
  "get32 (OspfHello mk hi opt pr di dr bdr) 0 = mk" "get16 (OspfHello mk hi opt pr di dr bdr) 4 = hi" "get32 (OspfHello mk hi opt pr di dr bdr) 8 = di"
  using get32_at [of 0 "[]" mk] get16_at [of 4 "put32 mk" hi] get32_at [of 8 "put32 mk @ put16 hi @ [opt, pr]" di] by (simp_all add: OspfHello_def)

lemma OspfLsaWire_fields:
  fixes a b c ck ty n
  defines "h \<equiv> OspfLsaWire a b c ck ty n"
  shows "get32 h 0 = a" "get32 h 4 = b" "get32 h 8 = c" "get16 h 12 = ck" "h ! 14 = ty" "h ! 15 = n"
proof -
  show "get32 h 0 = a" using get32_at [of 0 "[]" a] by (simp add: h_def OspfLsaWire_def)
  show "get32 h 4 = b" using get32_at [of 4 "put32 a" b] by (simp add: h_def OspfLsaWire_def)
  show "get32 h 8 = c" using get32_at [of 8 "put32 a @ put32 b" c] by (simp add: h_def OspfLsaWire_def)
  show "get16 h 12 = ck" using get16_at [of 12 "put32 a @ put32 b @ put32 c" ck] by (simp add: h_def OspfLsaWire_def)
  show "h ! 14 = ty" "h ! 15 = n" by (simp_all add: h_def OspfLsaWire_def nth_append)
qed

lemma wire_link_fields:
  "get32 (wire_link l) 0 = ns_htonl (ol_link_id l)" "get32 (wire_link l) 4 = ns_htonl (ol_link_data l)" "wire_link l ! 8 = ol_type l"
  "wire_link l ! 9 = ol_num_tos l" "get16 (wire_link l) 10 = ns_htons (ol_metric l)"
  using get32_at [of 0 "[]" "ns_htonl (ol_link_id l)"] get32_at [of 4 "put32 (ns_htonl (ol_link_id l))" "ns_htonl (ol_link_data l)"]
    get16_at [of 10 "put32 (ns_htonl (ol_link_id l)) @ put32 (ns_htonl (ol_link_data l)) @ [ol_type l, ol_num_tos l]" "ns_htons (ol_metric l)" "[]"]
  by (simp_all add: wire_link_def nth_append)

lemma chunk_at: "i < length xs \<Longrightarrow> (\<And>x. length (f x) = n) \<Longrightarrow> take n (drop (n * i) (concat (map f xs))) = f (xs ! i)"
proof (induction xs arbitrary: i)
  case (Cons x xs)
  then show ?case by (cases i) simp_all
qed simp

section \<open>Hellos\<close>

text \<open>A packet behind an IP header of protocol OSPF.\<close>

definition ospf_packet :: "addr \<Rightarrow> addr \<Rightarrow> u32 \<Rightarrow> bytes \<Rightarrow> 'a ospf_world_scheme \<Rightarrow> bool" where
  "ospf_packet pkt iface src bs w \<longleftrightarrow> (\<exists>p ip. pkt_at pkt w = Some p \<and> visible p = bs \<and> 20 \<le> pkt_data p \<and> ip_before p = Some ip \<and>
     ih_protocol (ip_load ip) = OSPF_PROTO_NUM \<and> ns_ntohl (ih_src_ip (ip_load ip)) = src)"

text \<open>The header that both kinds of messages start with passes all checks.\<close>

lemma receive_message:
  assumes "ospf_ok sim state w s" "ospf_packet pkt iface src (ospf_header sa ty (of_nat n) @ body) w" "iface_at iface w = Some i" "if_prefix_len i \<le> 32"
    and "n = 24 + length body" "n < 2 ^ 16" "os_area_id sa = os_area_id s" "sim_at sim w = Some m" "sched_at (sim_sched m) w = Some sch"
    and "ty = OSPF_TYPE_HELLO \<or> ty = OSPF_TYPE_LSU"
  obtains p where "pkt_at pkt w = Some p" "pkt_wf p" "visible p = ospf_header sa ty (of_nat n) @ body" "pkt_len p = n"
    "ospf_receive iface pkt (VOspf state) w =
      (if ty = OSPF_TYPE_HELLO then ospf_receive_hello state s iface i pkt p src (os_router_id sa) n (sch_now sch) w
       else ospf_receive_lsu state s iface pkt p n (sim_sched m) w)"
proof -
  obtain p ip where p: "pkt_at pkt w = Some p" "visible p = ospf_header sa ty (of_nat n) @ body" "20 \<le> pkt_data p" "ip_before p = Some ip"
    "ih_protocol (ip_load ip) = OSPF_PROTO_NUM" "ns_ntohl (ih_src_ip (ip_load ip)) = src" using assms(2) unfolding ospf_packet_def by blast
  have wf: "pkt_wf p" using ip_ready_net [OF ospf_okD(5) [OF assms(1)]] p(1) by (simp add: net_wf_def heap_wf_def)
  have len: "pkt_len p = n" using length_visible [OF wf] p(2) assms(5) by simp
  have h: "take 24 (visible p) = ospf_header sa ty (of_nat n)" using p(2) by simp
  have ip: "ip = take 20 (drop (pkt_data p - 20) (pkt_head p))" using p(4) ip_before_ok [OF wf p(3)] by simp
  have n: "unat (of_nat n :: u16) = n" using assms(6) by (simp add: unat_of_nat)
  have pl: "\<not> 32 < if_prefix_len i" "24 \<le> pkt_len p" using assms(4,5) len by simp_all
  note fields = OspfHeader_fields [of OSPF_VERSION ty "ns_htons (of_nat n)" "ns_htonl (os_router_id sa)" "ns_htonl (os_area_id sa)" 0 "ns_htons 0" 0 0,
      folded ospf_header_def]
  have ne: "OSPF_TYPE_LSU \<noteq> OSPF_TYPE_HELLO" by (simp add: OSPF_TYPE_LSU_def OSPF_TYPE_HELLO_def)
  have "ospf_receive iface pkt (VOspf state) w =
      (if ty = OSPF_TYPE_HELLO then ospf_receive_hello state s iface i pkt p src (os_router_id sa) n (sch_now sch) w
       else ospf_receive_lsu state s iface pkt p n (sim_sched m) w)"
    unfolding receive_checks [OF assms(1) p(1) assms(3,8,9) pl(1) p(3) pl(2) wf h [symmetric] ip] fields
    using p(5,6) assms(5,7,10) n len ne by (auto simp: Let_def)
  then show thesis using that p(1,2) wf len by blast
qed

lemma hello_read:
  assumes "pkt_wf p" "visible p = hello_bytes sa ia plen" "length (hello_ids_of ia sa) \<le> 32"
  shows "pkt_len p = 44 + 4 * length (hello_ids_of ia sa)" "pkt_read p 24 20 = Some (OspfHello (ns_htonl (ipv4_prefix_mask plen)) (ns_htons 10) 0 0 (ns_htonl 40) 0 0)"
    "local_id_in r p [0..<length (hello_ids_of ia sa)] = Some (r \<in> set (hello_ids_of ia sa))"
proof -
  let ?ids = "hello_ids_of ia sa"
  show len: "pkt_len p = 44 + 4 * length ?ids" using length_visible [OF assms(1)] assms(2) by (simp add: hello_bytes_def)
  show "pkt_read p 24 20 = Some (OspfHello (ns_htonl (ipv4_prefix_mask plen)) (ns_htons 10) 0 0 (ns_htonl 40) 0 0)"
    using pkt_read_within [OF assms(1), of 24 20] len assms(2) by (simp add: hello_bytes_def)
  have rd: "take 4 (drop (44 + 4 * i) (visible p)) = put32 (ns_htonl (?ids ! i))" if "i < length ?ids" for i
    using chunk_at [OF that, of "\<lambda>x. put32 (ns_htonl x)" 4] assms(2) by (simp add: hello_bytes_def)
  have "\<forall>i \<in> set [0..<length ?ids]. 44 + 4 * i + 4 \<le> pkt_len p" using len by auto
  from local_id_in_safe [OF assms(1) this, of r] rd
  have "local_id_in r p [0..<length ?ids] = Some (\<exists>i < length ?ids. ?ids ! i = r)" by (auto simp: get32_put32)
  then show "local_id_in r p [0..<length ?ids] = Some (r \<in> set ?ids)" by (simp add: in_set_conv_nth)
qed

lemma ospf_at_free: "packet_free p w = Some w' \<Longrightarrow> ospf_at a w' = ospf_at a w"
  by (auto simp: packet_free_def ospf_at_def split: if_splits bind_splits)

lemma hello_received:
  assumes "ospf_ok sim state w s" "ospf_packet pkt iface src (hello_bytes sa ia (if_prefix_len i)) w" "iface_at iface w = Some i" "if_prefix_len i \<le> 32"
    and "length (hello_ids_of ia sa) \<le> 32" "os_area_id sa = os_area_id s" "os_router_id sa \<noteq> os_router_id s"
    and "neighbor_slot (os_router_id sa) s \<noteq> None" "sim_at sim w = Some m" "sched_at (sim_sched m) w = Some sch"
  shows "\<exists>w' s'. ospf_receive iface pkt (VOspf state) w = Some (0, w') \<and> ospf_at state w' = Some s' \<and> os_lsdb s' = os_lsdb s \<and>
    nbrs.lookup (os_neighbors s') = (nbrs.lookup (os_neighbors s))(os_router_id sa \<mapsto> \<lparr>nb_router_id = os_router_id sa, nb_ip_addr = src,
      nb_state = if os_router_id s \<in> set (hello_ids_of ia sa) then OSPF_NBR_FULL else OSPF_NBR_INIT, nb_last_hello_ts = sch_now sch, nb_iface = iface, nb_valid = 1\<rparr>)"
proof -
  let ?ids = "hello_ids_of ia sa" let ?n = "44 + 4 * length (hello_ids_of ia sa)"
  let ?body = "OspfHello (ns_htonl (ipv4_prefix_mask (if_prefix_len i))) (ns_htons 10) 0 0 (ns_htonl 40) 0 0 @ concat (map (\<lambda>x. put32 (ns_htonl x)) ?ids)"
  note ok = ospf_okD [OF assms(1)]
  have nb: "?n = 24 + length ?body" "?n < 2 ^ 16" using assms(5) by simp_all
  obtain p where p: "pkt_at pkt w = Some p" "pkt_wf p" "visible p = hello_bytes sa ia (if_prefix_len i)"
    "ospf_receive iface pkt (VOspf state) w = ospf_receive_hello state s iface i pkt p src (os_router_id sa) ?n (sch_now sch) w"
    by (rule receive_message [OF assms(1) assms(2) [unfolded hello_bytes_def] assms(3,4) nb assms(6,9,10) disjI1 [OF refl]]) (simp add: hello_bytes_def)
  note rd = hello_read [OF p(2,3) assms(5)]
  obtain k c where kc: "neighbor_slot (os_router_id sa) s = Some (k, c)" using assms(8) by auto
  let ?x = "\<lparr>nb_router_id = os_router_id sa, nb_ip_addr = src, nb_state = if os_router_id s \<in> set ?ids then OSPF_NBR_FULL else OSPF_NBR_INIT,
      nb_last_hello_ts = sch_now sch, nb_iface = iface, nb_valid = 1\<rparr>"
  let ?s = "s\<lparr>os_neighbors := (os_neighbors s)[k := ?x], os_neighbor_count := c\<rparr>"
  have live: "pkt_at pkt (ospf_put state ?s w) \<noteq> None" using p(1) by simp
  from packet_free_live [OF live] obtain w' where f: "packet_free pkt (ospf_put state ?s w) = Some w'" by blast
  have "ospf_at state w' = Some ?s" using ospf_at_free [OF f] ok(6) by simp
  moreover have "ospf_receive iface pkt (VOspf state) w = Some (0, w')" unfolding p(4)
    using rd assms(7) kc f by (simp add: ospf_receive_hello_def ospf_sizes OspfHello_fields Let_def)
  moreover have "nbrs.lookup ((os_neighbors s)[k := ?x]) = (nbrs.lookup (os_neighbors s))(os_router_id sa \<mapsto> ?x)"
    using neighbor_install(2) [OF ospf_wfD(1) [OF ok(2)], of ?x k c] kc by simp
  ultimately show ?thesis by (intro exI [of _ w'] exI [of _ ?s]) simp
qed

text \<open>C23. The hello that a router sends is one packet, and a neighbour that receives its bytes on an interface with the same prefix
  length, behind an IP header of protocol OSPF, stores the sender as a neighbour with that source address, this interface and
  the time of reception. The neighbour is FULL exactly when the sender has listed the receiver among the routers it has heard
  from on its interface, and INIT otherwise. No other neighbour and no LSA changes.\<close>

theorem ospf_hello_roundtrip:
  assumes "ospf_at a w = Some sa" "ospf_wf sa" "os_sim sa \<noteq> NULL" "iface_at ia w = Some i" "if_prefix_len i \<le> 32"
    and "packet_create (44 + 4 * length (hello_ids_of ia sa)) w = (pkt, w1)" "pkt \<noteq> NULL"
    and "ospf_ok sim b v sb" "iface_at ib v = Some j" "if_prefix_len j = if_prefix_len i" "os_area_id sa = os_area_id sb"
    and "os_router_id sa \<noteq> os_router_id sb" "neighbor_slot (os_router_id sa) sb \<noteq> None" "sim_at sim v = Some m" "sched_at (sim_sched m) v = Some sch"
  shows "\<exists>q. ospf_send_hello a ia w = ospf_transmit (os_sim sa) (ns_ntohl (if_ip_addr i)) pkt (pkt_put pkt q w1) \<and> pkt_wf q \<and>
    visible q = hello_bytes sa ia (if_prefix_len i) \<and>
    (\<forall>rx src. ospf_packet rx ib src (visible q) v \<longrightarrow> (\<exists>v' sb'. ospf_receive ib rx (VOspf b) v = Some (0, v') \<and> ospf_at b v' = Some sb' \<and>
       os_lsdb sb' = os_lsdb sb \<and> nbrs.lookup (os_neighbors sb') = (nbrs.lookup (os_neighbors sb))(os_router_id sa \<mapsto>
         \<lparr>nb_router_id = os_router_id sa, nb_ip_addr = src, nb_state = if os_router_id sb \<in> set (hello_ids_of ia sa) then OSPF_NBR_FULL else OSPF_NBR_INIT,
           nb_last_hello_ts = sch_now sch, nb_iface = ib, nb_valid = 1\<rparr>)))"
proof (rule hello_sent [OF assms(1-5)])
  fix pkt' w1' assume "packet_create (44 + 4 * length (hello_ids_of ia sa)) w = (pkt', w1')" "pkt' = NULL"
  then show ?thesis using assms(6,7) by simp
next
  fix pkt' w1' q assume q: "packet_create (44 + 4 * length (hello_ids_of ia sa)) w = (pkt', w1')" "pkt_wf q" "visible q = hello_bytes sa ia (if_prefix_len i)"
    "ospf_send_hello a ia w = ospf_transmit (os_sim sa) (ns_ntohl (if_ip_addr i)) pkt' (pkt_put pkt' q w1')"
  have le: "length (hello_ids_of ia sa) \<le> 32" using hello_lists_bound [OF ospf_wfD(1) [OF assms(2)]] by (simp add: hello_ids_of_def)
  have vis: "visible q = hello_bytes sa ia (if_prefix_len j)" using q(3) assms(10) by simp
  have pl: "if_prefix_len j \<le> 32" using assms(5,10) by simp
  have e: "pkt' = pkt" "w1' = w1" using q(1) assms(6) by simp_all
  note rx = hello_received [OF assms(8) _ assms(9) pl le assms(11-15), folded vis]
  show ?thesis by (rule exI [of _ q]) (use q(2,3,4) rx in \<open>unfold e, blast\<close>)
qed

section \<open>Link-state updates\<close>

text \<open>The copy of an LSA in the database of a receiver.\<close>

definition lsa_copy :: "OspfLsaEntry \<Rightarrow> OspfLsaEntry" where
  "lsa_copy lsa = lsa\<lparr>le_valid := 1, le_links := take (nat (le_link_count lsa)) (le_links lsa) @ replicate (OSPF_MAX_LSA_LINKS - nat (le_link_count lsa)) zero_link\<rparr>"

lemma link_rebuilt: "\<lparr>ol_link_id = ol_link_id l, ol_link_data = ol_link_data l, ol_type = ol_type l, ol_num_tos = ol_num_tos l, ol_metric = ol_metric l\<rparr> = l"
  by (cases l) simp

lemma parse_links_read:
  assumes "pkt_wf p" "visible p = pre @ concat (map wire_link ls)" "length pre = 44"
    and "k + m \<le> length ls" "k + m \<le> length (le_links e)"
  shows "parse_links p 44 [k..<k + m] e = Some (e\<lparr>le_links := take k (le_links e) @ take m (drop k ls) @ drop (k + m) (le_links e)\<rparr>)"
  using assms(4,5)
proof (induction m arbitrary: k e)
  case (Suc m)
  have len: "pkt_len p = 44 + 12 * length ls" using length_visible [OF assms(1)] assms(2,3) by simp
  have k: "k < length ls" "k < length (le_links e)" using Suc.prems by simp_all
  have "pkt_read p (44 + k * 12) 12 = Some (take 12 (drop (44 + k * 12) (visible p)))" using pkt_read_within [OF assms(1)] len k(1) by simp
  also have "take 12 (drop (44 + k * 12) (visible p)) = wire_link (ls ! k)"
    using chunk_at [OF k(1), of wire_link 12] assms(2,3) by (simp add: mult.commute)
  finally have rd: "pkt_read p (44 + k * 12) 12 = Some (wire_link (ls ! k))" .
  let ?e = "e\<lparr>le_links := (le_links e)[k := ls ! k]\<rparr>"
  have up: "[k..<k + Suc m] = k # [Suc k..<Suc k + m]" by (simp add: upt_conv_Cons)
  have "parse_links p 44 [k..<k + Suc m] e = parse_links p 44 [Suc k..<Suc k + m] ?e"
    unfolding up using rd k(2) by (simp add: sizeof_OspfLsaLink_def lsa_link_def wire_link_fields link_rebuilt del: upt_Suc)
  also have "\<dots> = Some (?e\<lparr>le_links := take (Suc k) (le_links ?e) @ take m (drop (Suc k) ls) @ drop (Suc k + m) (le_links ?e)\<rparr>)"
    using Suc.IH [of "Suc k" ?e] Suc.prems by simp
  finally have step: "parse_links p 44 [k..<k + Suc m] e =
    Some (?e\<lparr>le_links := take (Suc k) (le_links ?e) @ take m (drop (Suc k) ls) @ drop (Suc k + m) (le_links ?e)\<rparr>)" .
  have t1: "take (Suc k) ((le_links e)[k := ls ! k]) = take k (le_links e) @ [ls ! k]" using k(2) by (simp add: take_Suc_conv_app_nth take_update_cancel)
  have t2: "take (Suc m) (drop k ls) = ls ! k # take m (drop (Suc k) ls)" using Cons_nth_drop_Suc [OF k(1)] by (metis take_Suc_Cons)
  show ?case unfolding step t2 using k(2) t1 by (simp add: drop_update_cancel)
qed simp

lemma lsu_read:
  assumes "pkt_wf p" "visible p = lsu_bytes sa lsa" "lsa_ok lsa"
  shows "pkt_len p = 44 + 12 * nat (le_link_count lsa)" "pkt_read p 24 4 = Some (OspfLsuHeader (ns_htons 1) 0)"
    "parse_lsas p 1 28 (16 + 12 * nat (le_link_count lsa)) = Some (Inr ([(lsa_copy lsa)\<lparr>le_valid := 0\<rparr>], 0))"
proof -
  let ?k = "nat (le_link_count lsa)"
  have c: "0 \<le> le_link_count lsa" "le_link_count lsa \<le> 4" "length (le_links lsa) = 4" "?k \<le> 4" using assms(3) by (auto simp: lsa_ok_def OSPF_MAX_LSA_LINKS_def)
  show len: "pkt_len p = 44 + 12 * ?k" using length_visible [OF assms(1)] assms(2) c by (simp add: lsu_bytes_def)
  show "pkt_read p 24 4 = Some (OspfLsuHeader (ns_htons 1) 0)" using pkt_read_within [OF assms(1), of 24 4] len assms(2) by (simp add: lsu_bytes_def)
  let ?w = "OspfLsaWire (ns_htonl (le_lsa_id lsa)) (ns_htonl (le_adv_router lsa)) (ns_htonl (le_seq_num lsa)) (ns_htons (le_checksum lsa))
     (le_lsa_type lsa) (of_int (le_link_count lsa))"
  have rd: "pkt_read p 28 16 = Some ?w" using pkt_read_within [OF assms(1), of 28 16] len assms(2) by (simp add: lsu_bytes_def)
  have u: "uint (of_int (le_link_count lsa) :: u8) = le_link_count lsa" using c(1,2) by (simp add: uint_word_of_int)
  let ?e = "zero_lsa\<lparr>le_lsa_id := le_lsa_id lsa, le_adv_router := le_adv_router lsa, le_seq_num := le_seq_num lsa,
          le_checksum := le_checksum lsa, le_lsa_type := le_lsa_type lsa, le_link_count := le_link_count lsa\<rparr>"
  have z: "le_links ?e = replicate 4 zero_link" by (simp add: zero_lsa_def OSPF_MAX_LSA_LINKS_def)
  let ?pre = "ospf_header sa OSPF_TYPE_LSU (of_nat (44 + 12 * ?k)) @ OspfLsuHeader (ns_htons 1) 0 @ ?w"
  have v: "visible p = ?pre @ concat (map wire_link (take ?k (le_links lsa)))" using assms(2) by (simp add: lsu_bytes_def)
  have "parse_links p 44 [0..<0 + ?k] ?e = Some (?e\<lparr>le_links := take 0 (le_links ?e) @ take ?k (drop 0 (take ?k (le_links lsa))) @ drop (0 + ?k) (le_links ?e)\<rparr>)"
    by (rule parse_links_read [OF assms(1) v]) (use c z in simp_all)
  moreover have "?e\<lparr>le_links := take 0 (le_links ?e) @ take ?k (drop 0 (take ?k (le_links lsa))) @ drop (0 + ?k) (le_links ?e)\<rparr> = (lsa_copy lsa)\<lparr>le_valid := 0\<rparr>"
    unfolding z by (cases lsa) (simp add: lsa_copy_def zero_lsa_def OSPF_MAX_LSA_LINKS_def)
  ultimately have pl: "parse_links p 44 (lsa_indices ?e) ?e = Some ((lsa_copy lsa)\<lparr>le_valid := 0\<rparr>)" by (simp add: lsa_indices_def)
  have lc: "le_link_count (lsa_copy lsa) = le_link_count lsa" by (simp add: lsa_copy_def)
  have "parse_lsas p (Suc 0) 28 (16 + 12 * ?k) = Some (Inr ([(lsa_copy lsa)\<lparr>le_valid := 0\<rparr>], 0))"
    using rd u c pl lc by (simp add: ospf_sizes OspfLsaWire_fields OSPF_MAX_LSA_LINKS_def Let_def not_less)
  then show "parse_lsas p 1 28 (16 + 12 * ?k) = Some (Inr ([(lsa_copy lsa)\<lparr>le_valid := 0\<rparr>], 0))" by simp
qed

lemma lsa_copy_simps [simp]:
  "lsa_key (lsa_copy lsa) = lsa_key lsa" "le_seq_num (lsa_copy lsa) = le_seq_num lsa" "(lsa_copy lsa)\<lparr>le_valid := 0, le_valid := 1\<rparr> = lsa_copy lsa"
  by (simp_all add: lsa_copy_def)

lemma lsa_copy_ok: "lsa_ok lsa \<Longrightarrow> lsa_ok ((lsa_copy lsa)\<lparr>le_valid := 0\<rparr>)"
  by (auto simp: lsa_ok_def lsa_copy_def)

text \<open>The database after an update with one LSA.\<close>

definition lsdb_after :: "OspfLsaEntry \<Rightarrow> OspfState \<Rightarrow> u32 \<times> u32 \<Rightarrow> OspfLsaEntry option" where
  "lsdb_after lsa s = (if (case lsas.lookup (os_lsdb s) (lsa_key lsa) of Some old \<Rightarrow> le_seq_num old < le_seq_num lsa | None \<Rightarrow> os_lsdb_count s < int OSPF_LSDB_SIZE)
     then (lsas.lookup (os_lsdb s))(lsa_key lsa \<mapsto> lsa_copy lsa) else lsas.lookup (os_lsdb s))"

lemma lsdb_full_iff: "lsdb_wf db n \<Longrightarrow> lsas.find_free db = None \<longleftrightarrow> \<not> n < int OSPF_LSDB_SIZE"
  unfolding lsas.find_free_def first_idx_None lsdb_wf_def lsas.live_count_def
  using length_filter_full [of "\<lambda>e. le_valid e \<noteq> 0" db] length_filter_le [of "\<lambda>e. le_valid e \<noteq> 0" db] by auto

lemma lsdb_store_one:
  assumes "lsdb_wf (os_lsdb s) (os_lsdb_count s)" "lsa_ok lsa"
  obtains db n ch where "lsdb_store [(lsa_copy lsa)\<lparr>le_valid := 0\<rparr>] (os_lsdb s) (os_lsdb_count s) [] = Some (db, n, ch)" "lsdb_wf db n"
    "set ch \<subseteq> {..<OSPF_LSDB_SIZE}" "lsas.lookup db = lsdb_after lsa s"
proof -
  let ?e = "(lsa_copy lsa)\<lparr>le_valid := 0\<rparr>" and ?db = "os_lsdb s"
  have key: "lsa_key ?e = lsa_key lsa" "le_seq_num ?e = le_seq_num lsa" "?e\<lparr>le_valid := 1\<rparr> = lsa_copy lsa" by (simp_all add: lsa_copy_def)
  have idx: "lsdb_index ?e ?db = None \<longleftrightarrow>
      \<not> (case lsas.lookup ?db (lsa_key lsa) of Some old \<Rightarrow> le_seq_num old < le_seq_num lsa | None \<Rightarrow> os_lsdb_count s < int OSPF_LSDB_SIZE)"
    unfolding lsdb_index_def lsdb_find lsdb_free lsas.lookup_def key using lsdb_full_iff [OF assms(1)]
    by (cases "lsas.find_key (lsa_key lsa) ?db") (auto simp: not_less)
  show thesis
  proof (cases "lsdb_index ?e ?db")
    case None
    then show thesis using that [of ?db "os_lsdb_count s" "[]"] assms(1) idx by (simp add: lsdb_after_def)
  next
    case (Some k)
    note ins = lsdb_install [OF assms(1) lsa_copy_ok [OF assms(2)] Some, unfolded key]
    have st: "lsdb_store [?e] ?db (os_lsdb_count s) [] =
        Some (?db[k := lsa_copy lsa], if le_valid (?db ! k) = 0 then os_lsdb_count s + 1 else os_lsdb_count s, [k])"
      using Some key(3) by (simp add: OSPF_LSDB_SIZE_def Let_def)
    show thesis by (rule that [OF st ins(2)]) (use ins(1,3) idx Some in \<open>simp_all add: lsdb_after_def\<close>)
  qed
qed

lemma lsu_received:
  assumes "ospf_ok sim state w s" "ospf_packet pkt iface src (lsu_bytes sa lsa) w" "lsa_ok lsa" "iface_at iface w = Some i" "if_prefix_len i \<le> 32"
    and "os_area_id sa = os_area_id s"
  shows "\<exists>r w' s'. ospf_receive iface pkt (VOspf state) w = Some (r, w') \<and> r \<in> {0, - 1} \<and> ospf_ok sim state w' s' \<and>
    os_neighbors s' = os_neighbors s \<and> lsas.lookup (os_lsdb s') = lsdb_after lsa s"
proof -
  let ?n = "44 + 12 * nat (le_link_count lsa)"
  have k: "nat (le_link_count lsa) \<le> 4" "length (le_links lsa) = 4" using assms(3) by (auto simp: lsa_ok_def OSPF_MAX_LSA_LINKS_def)
  obtain m sch where m: "sim_at sim w = Some m" "sched_at (sim_sched m) w = Some sch" by (rule ready_parts [OF ospf_okD(5) [OF assms(1)]])
  have ne: "OSPF_TYPE_LSU \<noteq> OSPF_TYPE_HELLO" by (simp add: OSPF_TYPE_LSU_def OSPF_TYPE_HELLO_def)
  obtain p where p: "pkt_at pkt w = Some p" "pkt_wf p" "visible p = lsu_bytes sa lsa"
    "ospf_receive iface pkt (VOspf state) w = ospf_receive_lsu state s iface pkt p ?n (sim_sched m) w"
    by (rule receive_message [OF assms(1) assms(2) [unfolded lsu_bytes_def] assms(4,5) _ _ assms(6) m disjI2 [OF refl]])
      (use k ne in \<open>simp_all add: lsu_bytes_def\<close>)
  note rd = lsu_read [OF p(2,3) assms(3)]
  have one: "unat (ns_ntohs (get16 (OspfLsuHeader (ns_htons 1) 0) 0)) = 1" using get16_at [of 0 "[]" "ns_htons 1"] by (simp add: OspfLsuHeader_def)
  obtain db n ch where st: "lsdb_store [(lsa_copy lsa)\<lparr>le_valid := 0\<rparr>] (os_lsdb s) (os_lsdb_count s) [] = Some (db, n, ch)" "lsdb_wf db n"
    "set ch \<subseteq> {..<OSPF_LSDB_SIZE}" "lsas.lookup db = lsdb_after lsa s" by (rule lsdb_store_one [OF ospf_wfD(2) [OF ospf_okD(2) [OF assms(1)]] assms(3)])
  have live: "iface_at iface w \<noteq> None" using assms(4) by simp
  have "ospf_done sim state pkt (s\<lparr>os_lsdb := db, os_lsdb_count := n\<rparr>) (ospf_receive_lsu state s iface pkt p ?n (sim_sched m) w)"
    by (rule receive_lsu_stored [OF assms(1) p(1) live m(1) _ rd(2) _ _ st(1-3)], unfold one) (use rd(3) in \<open>simp_all add: OSPF_LSDB_SIZE_def\<close>)
  then obtain r w' where "ospf_receive iface pkt (VOspf state) w = Some (r, w')" "r \<in> {0, - 1}" "ospf_ok sim state w' (s\<lparr>os_lsdb := db, os_lsdb_count := n\<rparr>)"
    unfolding p(4) ospf_done_def by blast
  then show ?thesis using st(4) by (intro exI [of _ r] exI [of _ w'] exI [of _ "s\<lparr>os_lsdb := db, os_lsdb_count := n\<rparr>"]) simp
qed

text \<open>C24. The update that a router floods for an LSA is one packet for an interface, and a router that receives its bytes behind an IP
  header of protocol OSPF stores exactly that LSA, with the links that are not in use cleared, when it has no copy and a free
  slot or an older copy; otherwise its database stays. Neighbours stay, and the invariant of OSPF is kept.\<close>

theorem ospf_lsu_roundtrip:
  assumes "lsa_ok lsa" "packet_create (44 + 12 * nat (le_link_count lsa)) w = (pkt, w1)" "pkt \<noteq> NULL"
    and "ospf_ok sim b v sb" "iface_at ib v = Some j" "if_prefix_len j \<le> 32" "os_area_id sa = os_area_id sb"
  shows "\<exists>q. flood_on sa lsa src w = ospf_transmit (os_sim sa) src pkt (pkt_put pkt q w1) \<and> pkt_wf q \<and> visible q = lsu_bytes sa lsa \<and>
    (\<forall>rx src. ospf_packet rx ib src (visible q) v \<longrightarrow> (\<exists>r v' sb'. ospf_receive ib rx (VOspf b) v = Some (r, v') \<and> r \<in> {0, - 1} \<and> ospf_ok sim b v' sb' \<and>
       os_neighbors sb' = os_neighbors sb \<and> lsas.lookup (os_lsdb sb') =
         (if (case lsas.lookup (os_lsdb sb) (lsa_key lsa) of Some old \<Rightarrow> le_seq_num old < le_seq_num lsa | None \<Rightarrow> os_lsdb_count sb < int OSPF_LSDB_SIZE)
          then (lsas.lookup (os_lsdb sb))(lsa_key lsa \<mapsto> lsa_copy lsa) else lsas.lookup (os_lsdb sb))))"
proof (rule lsu_sent [OF assms(1), of w sa src])
  fix pkt' w1' assume "packet_create (44 + 12 * nat (le_link_count lsa)) w = (pkt', w1')" "pkt' = NULL"
  then show ?thesis using assms(2,3) by simp
next
  fix pkt' w1' q assume q: "packet_create (44 + 12 * nat (le_link_count lsa)) w = (pkt', w1')" "pkt_wf q" "visible q = lsu_bytes sa lsa"
    "flood_on sa lsa src w = ospf_transmit (os_sim sa) src pkt' (pkt_put pkt' q w1')"
  have e: "pkt' = pkt" "w1' = w1" using q(1) assms(2) by simp_all
  note rx = lsu_received [OF assms(4) _ assms(1,5-7), folded q(3), unfolded lsdb_after_def]
  show ?thesis by (rule exI [of _ q]) (use q(2,3,4) rx in \<open>unfold e, blast\<close>)
qed

end
