(* ===== verification/Ospf_Examples.thy ===== *)
theory Ospf_Examples
  imports Ospf_Roundtrip
begin

text \<open>
  A small network on which the properties of OSPF are applied: a router with one neighbour and the link-state database
  that describes their link, the state of the neighbour, a HELLO packet and an update that wait to be received.
\<close>

section \<open>Arrays with one entry\<close>

context slot_array
begin

lemma unique_single: "\<not> live d \<Longrightarrow> unique (x # replicate n d)"
  by (auto simp: unique_def nth_Cons split: nat.splits)

lemma live_count_single: "\<not> live d \<Longrightarrow> live_count (x # replicate n d) = (if live x then 1 else 0)"
  by (simp add: live_count_def)

lemma lookup_single: "live x \<Longrightarrow> lookup (x # xs) (key x) = Some x"
  by (simp add: lookup_def find_key_def)

end

section \<open>The network\<close>

definition demo_p2p :: "u32 \<Rightarrow> u32 \<Rightarrow> u32 \<Rightarrow> OspfLsaEntry" where
  "demo_p2p router_id neighbor_id seq = \<lparr>le_lsa_id = router_id, le_adv_router = router_id, le_seq_num = seq, le_checksum = 0,
     le_lsa_type = OSPF_LSA_TYPE_ROUTER, le_valid = 1,
     le_links = \<lparr>ol_link_id = neighbor_id, ol_link_data = 0, ol_type = OSPF_LINK_P2P, ol_num_tos = 0, ol_metric = 10\<rparr> # replicate (OSPF_MAX_LSA_LINKS - 1) zero_link,
     le_link_count = 1\<rparr>"

definition demo_neighbor :: "u32 \<Rightarrow> u32 \<Rightarrow> addr \<Rightarrow> OspfNeighbor" where
  "demo_neighbor router_id ip iface = \<lparr>nb_router_id = router_id, nb_ip_addr = ip, nb_state = OSPF_NBR_FULL, nb_last_hello_ts = 5, nb_iface = iface, nb_valid = 1\<rparr>"

definition demo_ospf :: "u32 \<Rightarrow> u32 \<Rightarrow> u32 \<Rightarrow> addr \<Rightarrow> OspfState" where
  "demo_ospf router_id neighbor_id ip iface = \<lparr>os_router_id = router_id, os_area_id = 0,
     os_neighbors = demo_neighbor neighbor_id ip iface # replicate (OSPF_MAX_NEIGHBORS - 1) zero_neighbor, os_neighbor_count = 1,
     os_lsdb = demo_p2p router_id neighbor_id 2 # replicate (OSPF_LSDB_SIZE - 1) zero_lsa, os_lsdb_count = 1,
     os_ifaces = \<lparr>oi_iface = iface, oi_cost = 10, oi_valid = 1\<rparr> # replicate (OSPF_MAX_IFACES - 1) \<lparr>oi_iface = NULL, oi_cost = 0, oi_valid = 0\<rparr>,
     os_iface_count = 1, os_sim = 7, os_router = 30\<rparr>"

abbreviation demo_local :: OspfState where
  "demo_local \<equiv> demo_ospf 0x01010101 0x02020202 0x0A000002 2"

abbreviation demo_peer :: OspfState where
  "demo_peer \<equiv> demo_ospf 0x02020202 0x01010101 0x0A000001 3"

definition demo_ospf_packet :: "bytes \<Rightarrow> Packet" where
  "demo_ospf_packet bs = \<lparr>pkt_head = replicate 44 0 @ ip_bytes (new_ip_header 0x0A000002 0x0A000001 89 (length bs)) @ bs,
     pkt_data = 64, pkt_len = length bs, pkt_capacity = length bs, pkt_id = 5, pkt_trace_id = 5, pkt_parent_id = 0, pkt_layer = 4\<rparr>"

definition demo_wide :: Scheduler where
  "demo_wide = demo_sched\<lparr>sch_eq := \<lparr>eq_events = [Some (demo_event 3 1), Some (demo_event 9 2), None, None], eq_count = 2, eq_capacity = 4\<rparr>, sch_now := 60000000\<rparr>"

definition demo_ospf_world :: ospf_world where
  "demo_ospf_world = host_world.extend (demo_host_world\<lparr>
     w_pkts := [4 \<mapsto> demo_ospf_packet (hello_bytes demo_peer 3 24), 9 \<mapsto> demo_ospf_packet (lsu_bytes demo_peer (demo_p2p 0x02020202 0x01010101 3))],
     w_scheds := [5 \<mapsto> demo_wide], w_routers := [30 \<mapsto> \<lparr>ro_route_tbl = empty_route_table, ro_sim = 7\<rparr>]\<rparr>)
     \<lparr>w_ospfs = [80 \<mapsto> demo_local, 81 \<mapsto> demo_peer]\<rparr>"

lemma demo_ospf_parts:
  "ospf_at 80 demo_ospf_world = Some demo_local" "ospf_at 81 demo_ospf_world = Some demo_peer"
  "pkt_at 4 demo_ospf_world = Some (demo_ospf_packet (hello_bytes demo_peer 3 24))"
  "pkt_at 9 demo_ospf_world = Some (demo_ospf_packet (lsu_bytes demo_peer (demo_p2p 0x02020202 0x01010101 3)))"
  "iface_at 2 demo_ospf_world = Some demo_port" "iface_at 3 demo_ospf_world = Some demo_eth1"
  "sim_at 7 demo_ospf_world = Some \<lparr>sim_topo = 8, sim_sched = 5, sim_end_time = 0\<rparr>" "sched_at 5 demo_ospf_world = Some demo_wide"
  "router_at 30 demo_ospf_world = Some \<lparr>ro_route_tbl = empty_route_table, ro_sim = 7\<rparr>" "mem_oom (w_mem demo_ospf_world) = []"
  by (simp_all add: demo_ospf_world_def host_world.defs demo_host_world_def tcp_world.defs demo_tcp_world_def ospf_at_def pkt_at_def iface_at_def
      sim_at_def sched_at_def router_at_def)

lemma demo_wide_wf: "sched_wf demo_wide" "sch_now demo_wide = 60000000"
  by (simp_all add: sched_wf_def demo_wide_def demo_sched_def queue_wf_def eq_list_def PTRDIFF_MAX_def demo_event_def evt_key_def)

lemma demo_ospf_fields:
  "os_router_id (demo_ospf r n ip i) = r" "os_area_id (demo_ospf r n ip i) = 0" "os_sim (demo_ospf r n ip i) = 7" "os_router (demo_ospf r n ip i) = 30"
  "hello_ids_of i (demo_ospf r n ip i) = [n]"
  by (simp_all add: demo_ospf_def hello_ids_of_def hello_lists_def demo_neighbor_def zero_neighbor_def)

lemma demo_ospf_wf: "0 < i \<Longrightarrow> ospf_wf (demo_ospf r n ip i)"
  by (simp add: ospf_wf_def neighbors_wf_def lsdb_wf_def ifaces_wf_def demo_ospf_def nbrs.unique_single nbrs.live_count_single lsas.unique_single
      lsas.live_count_single oifs.unique_single oifs.live_count_single zero_neighbor_def zero_lsa_def demo_neighbor_def demo_p2p_def lsa_ok_def
      OSPF_MAX_NEIGHBORS_def OSPF_LSDB_SIZE_def OSPF_MAX_IFACES_def OSPF_MAX_LSA_LINKS_def)

lemma demo_ospf_packet_wf:
  assumes "length bs \<le> 1000"
  shows "pkt_wf (demo_ospf_packet bs)" "visible (demo_ospf_packet bs) = bs"
  using assms by (simp_all add: demo_ospf_packet_def pkt_wf_def PKT_HEADROOM_def SIZE_MAX_def visible_def)

lemma demo_received:
  assumes "pkt_at pkt w = Some (demo_ospf_packet bs)" "length bs \<le> 1000"
  shows "ospf_packet pkt iface 0x0A000002 bs w"
proof -
  have "ip_before (demo_ospf_packet bs) = Some (ip_bytes (new_ip_header 0x0A000002 0x0A000001 89 (length bs)))"
    using ip_before_ok [OF demo_ospf_packet_wf(1) [OF assms(2)]] by (simp add: demo_ospf_packet_def)
  moreover have "ip_load (ip_bytes h) = h" for h using ip_load_bytes [of h "[]"] by simp
  ultimately show ?thesis unfolding ospf_packet_def using assms demo_ospf_packet_wf
    by (simp add: new_ip_header_fields OSPF_PROTO_NUM_def) (simp add: demo_ospf_packet_def)
qed

lemma demo_messages: "length (hello_bytes demo_peer 3 24) \<le> 1000" "length (lsu_bytes demo_peer (demo_p2p r n q)) \<le> 1000"
  by (simp_all add: hello_bytes_def lsu_bytes_def demo_ospf_fields) (simp add: demo_p2p_def)

lemma demo_ospf_ready: "ip_ready 7 demo_ospf_world"
proof -
  have same: "w_ifaces demo_ospf_world = w_ifaces (demo_tcp_world t)" "w_devs demo_ospf_world = w_devs (demo_tcp_world t)"
    "w_links demo_ospf_world = w_links (demo_tcp_world t)" "w_topos demo_ospf_world = w_topos (demo_tcp_world t)"
    "w_sims demo_ospf_world = w_sims (demo_tcp_world t)" "w_caches demo_ospf_world = w_caches (demo_tcp_world t)" for t
    by (simp_all add: demo_ospf_world_def host_world.defs demo_host_world_def tcp_world.defs demo_tcp_world_def)
  have "pkt_wf p \<and> a \<le> mem_next (w_mem demo_ospf_world)" if "pkt_at a demo_ospf_world = Some p" for a p
    using that demo_ospf_packet_wf(1) [OF demo_messages(1)] demo_ospf_packet_wf(1) [OF demo_messages(2)]
    by (auto simp: pkt_at_def demo_ospf_world_def host_world.defs demo_host_world_def tcp_world.defs demo_tcp_world_def split: if_splits)
  moreover have "sim_ready 7 demo_ospf_world" using demo_wide_wf by (simp add: sim_ready_def demo_ospf_parts)
  ultimately show ?thesis using demo_tcp_ready [of "demo_tcp_table demo_listener"]
    unfolding ip_ready_def net_wf_def heap_wf_def attached_def topo_live_def caches_live_def iface_at_def link_at_def sim_at_def topo_at_def dev_at_def
      cache_at_def same [of "demo_tcp_table demo_listener"] by blast
qed

lemma demo_ospf_ok: "ospf_ok 7 80 demo_ospf_world demo_local"
  using demo_ospf_wf [of 2] demo_ospf_ready unfolding ospf_ok_def
  by (simp add: demo_ospf_parts demo_ospf_fields) (auto simp: demo_ospf_def demo_ospf_parts)

section \<open>Shortest paths\<close>

lemma demo_edge: "ospf_edge (os_lsdb demo_local) u v m \<longleftrightarrow> u = 0x01010101 \<and> v = 0x02020202 \<and> m = 10"
  by (auto simp: ospf_edge_def demo_ospf_def demo_p2p_def zero_lsa_def OSPF_LSA_TYPE_ROUTER_def OSPF_LINK_P2P_def)

lemma demo_path:
  assumes "ospf_path (os_lsdb demo_local) 0x01010101 v d"
  shows "(v = 0x01010101 \<and> d = 0) \<or> (v = 0x02020202 \<and> d = 10)"
  using assms by (induction "0x01010101 :: u32" v d rule: ospf_path.induct) (auto simp: demo_edge)

lemma demo_distance: "ospf_distance (os_lsdb demo_local) 0x01010101 0x02020202 10"
proof -
  have "ospf_path (os_lsdb demo_local) 0x01010101 0x02020202 (0 + 10)" by (rule path_snoc [OF path_nil]) (simp add: demo_edge)
  then show ?thesis unfolding ospf_distance_def using demo_path by (fastforce simp: OSPF_INFINITY_def)
qed

lemma ospf_run_spf_shortest_witness:
  "\<exists>res t'. ospf_run_spf 80 demo_ospf_world = Some (res, router_put 30 \<lparr>ro_route_tbl = t', ro_sim = 7\<rparr> demo_ospf_world) \<and>
     (rib_map t' (0x02020202, 32, ROUTE_PROTO_OSPF) \<noteq> None \<or> rt_rib_count t' = int ROUTE_RIB_SIZE)"
proof -
  let ?s = demo_local and ?r = "\<lparr>ro_route_tbl = empty_route_table, ro_sim = 7\<rparr>"
  have r: "router_at (os_router ?s) demo_ospf_world = Some ?r" "route_table_wf (ro_route_tbl ?r)"
    using empty_route_table_wf(1) by (simp_all add: demo_ospf_fields demo_ospf_parts)
  have "\<exists>n \<in> set (os_neighbors ?s). spf_neighbor h n" if "ospf_first_hop (os_lsdb ?s) 0x01010101 0x02020202 10 h" for h
    using that by (auto simp: ospf_first_hop_def demo_edge) (simp add: demo_ospf_def demo_neighbor_def spf_neighbor_def)
  then have hop: "\<forall>h. ospf_first_hop (os_lsdb ?s) 0x01010101 0x02020202 10 h \<longrightarrow> (\<exists>n \<in> set (os_neighbors ?s). spf_neighbor h n)" by blast
  have i: "(0 :: nat) < 2" by simp
  from ospf_run_spf_shortest [OF demo_ospf_parts(1) demo_ospf_wf [OF i] r, unfolded demo_ospf_fields]
  obtain res t' where t: "ospf_run_spf 80 demo_ospf_world = Some (res, router_put 30 (?r\<lparr>ro_route_tbl := t'\<rparr>) demo_ospf_world)"
    "res = 0 \<and> (\<forall>v d. v \<noteq> 0x01010101 \<longrightarrow> ospf_distance (os_lsdb ?s) 0x01010101 v d \<longrightarrow>
        (\<forall>h. ospf_first_hop (os_lsdb ?s) 0x01010101 v d h \<longrightarrow> (\<exists>n \<in> set (os_neighbors ?s). spf_neighbor h n)) \<longrightarrow>
        rib_map t' (v, 32, ROUTE_PROTO_OSPF) \<noteq> None) \<or> res = - 1 \<and> rt_rib_count t' = int ROUTE_RIB_SIZE" by (elim exE conjE) rule
  have "(0x02020202 :: u32) \<noteq> 0x01010101" by simp
  with t(2) demo_distance hop have "rib_map t' (0x02020202, 32, ROUTE_PROTO_OSPF) \<noteq> None \<or> rt_rib_count t' = int ROUTE_RIB_SIZE" by blast
  then show ?thesis using t(1) by auto
qed

section \<open>Ageing\<close>

lemma demo_dead:
  "map (\<lambda>n. if nb_valid n \<noteq> 0 \<and> nb_last_hello_ts n \<le> 60000000 \<and> OSPF_DEAD_INTERVAL_US \<le> 60000000 - nb_last_hello_ts n
      then n\<lparr>nb_state := OSPF_NBR_DOWN\<rparr> else n) (os_neighbors demo_local) =
    (demo_neighbor 0x02020202 0x0A000002 2)\<lparr>nb_state := OSPF_NBR_DOWN\<rparr> # replicate (OSPF_MAX_NEIGHBORS - 1) zero_neighbor"
  by (simp add: demo_ospf_def demo_neighbor_def zero_neighbor_def OSPF_DEAD_INTERVAL_US_def)

lemma ospf_dead_timer_correct_witness:
  "\<exists>e w' s'. ospf_dead_timer e (VOspf 80) demo_ospf_world = Some w' \<and> ospf_at 80 w' = Some s' \<and>
     os_neighbors s' = (demo_neighbor 0x02020202 0x0A000002 2)\<lparr>nb_state := OSPF_NBR_DOWN\<rparr> # replicate (OSPF_MAX_NEIGHBORS - 1) zero_neighbor"
proof -
  have m: "sim_at (os_sim demo_local) demo_ospf_world = Some \<lparr>sim_topo = 8, sim_sched = 5, sim_end_time = 0\<rparr>"
    by (simp add: demo_ospf_fields demo_ospf_parts)
  have "has_room 2 (sim_sched \<lparr>sim_topo = 8, sim_sched = 5, sim_end_time = 0\<rparr>) demo_wide demo_ospf_world"
    using demo_wide_wf by (simp add: has_room_def demo_ospf_parts) (simp add: demo_wide_def)
  from ospf_dead_timer_correct [OF demo_ospf_parts(1) demo_ospf_wf m this, unfolded demo_wide_wf demo_dead] show ?thesis by fastforce
qed

section \<open>Messages\<close>


lemma demo_lookup: "nbrs.lookup (os_neighbors demo_local) 0x02020202 = Some (demo_neighbor 0x02020202 0x0A000002 2)"
  using nbrs.lookup_single [of "demo_neighbor 0x02020202 0x0A000002 2"] by (simp add: demo_ospf_def demo_neighbor_def)

lemma demo_prefix_len: "if_prefix_len demo_port = 24" "if_prefix_len demo_eth1 = 24"
  by (simp_all add: demo_port_def demo_eth0_def demo_eth1_def demo_iface_def)

lemma ospf_hello_roundtrip_witness:
  "\<exists>pkt w1 q v' s'. ospf_send_hello 81 3 demo_ospf_world = ospf_transmit 7 (ns_ntohl (if_ip_addr demo_eth1)) pkt (pkt_put pkt q w1) \<and>
     visible q = hello_bytes demo_peer 3 24 \<and> ospf_receive 2 4 (VOspf 80) demo_ospf_world = Some (0, v') \<and> ospf_at 80 v' = Some s' \<and>
     nbrs.lookup (os_neighbors s') 0x02020202 = Some ((demo_neighbor 0x02020202 0x0A000002 2)\<lparr>nb_last_hello_ts := 60000000\<rparr>)"
proof -
  obtain pkt w1 where c: "packet_create (44 + 4 * length (hello_ids_of 3 demo_peer)) demo_ospf_world = (pkt, w1)" by (rule prod.exhaust)
  have "fst (packet_create (44 + 4 * length (hello_ids_of 3 demo_peer)) demo_ospf_world) \<noteq> NULL"
    by (rule packet_create_plenty) (simp_all add: demo_ospf_parts demo_ospf_fields PKT_HEADROOM_def PTRDIFF_MAX_def)
  then have n: "pkt \<noteq> NULL" using c by simp
  have f: "os_sim demo_peer \<noteq> NULL" "if_prefix_len demo_eth1 \<le> 32" "if_prefix_len demo_port = if_prefix_len demo_eth1"
    "os_area_id demo_peer = os_area_id demo_local" "os_router_id demo_peer \<noteq> os_router_id demo_local"
    "neighbor_slot (os_router_id demo_peer) demo_local \<noteq> None"
    by (simp_all add: demo_ospf_fields demo_prefix_len) (simp add: neighbor_slot_def demo_ospf_def demo_neighbor_def)
  obtain q where q: "ospf_send_hello 81 3 demo_ospf_world = ospf_transmit (os_sim demo_peer) (ns_ntohl (if_ip_addr demo_eth1)) pkt (pkt_put pkt q w1)"
    "visible q = hello_bytes demo_peer 3 (if_prefix_len demo_eth1)"
    "\<exists>v' s'. ospf_receive 2 4 (VOspf 80) demo_ospf_world = Some (0, v') \<and> ospf_at 80 v' = Some s' \<and> os_lsdb s' = os_lsdb demo_local \<and>
       nbrs.lookup (os_neighbors s') = (nbrs.lookup (os_neighbors demo_local))(os_router_id demo_peer \<mapsto>
         \<lparr>nb_router_id = os_router_id demo_peer, nb_ip_addr = 0x0A000002,
           nb_state = if os_router_id demo_local \<in> set (hello_ids_of 3 demo_peer) then OSPF_NBR_FULL else OSPF_NBR_INIT,
           nb_last_hello_ts = sch_now demo_wide, nb_iface = 2, nb_valid = 1\<rparr>)"
    using ospf_hello_roundtrip [OF demo_ospf_parts(2) demo_ospf_wf f(1) demo_ospf_parts(6) f(2) c n demo_ospf_ok demo_ospf_parts(5) f(3-6) demo_ospf_parts(7), of demo_wide]
      demo_received [OF demo_ospf_parts(3) demo_messages(1), of 2] demo_ospf_parts(8) by (auto simp: demo_prefix_len)
  then show ?thesis by (fastforce simp: demo_ospf_fields demo_prefix_len demo_wide_wf demo_neighbor_def)
qed

lemma ospf_lsu_roundtrip_witness:
  "\<exists>pkt w1 q r v' s'. flood_on demo_peer (demo_p2p 0x02020202 0x01010101 3) 0x0A000002 demo_ospf_world = ospf_transmit 7 0x0A000002 pkt (pkt_put pkt q w1) \<and>
     ospf_receive 2 9 (VOspf 80) demo_ospf_world = Some (r, v') \<and> ospf_ok 7 80 v' s' \<and>
     lsas.lookup (os_lsdb s') (0x02020202, 0x02020202) = Some (demo_p2p 0x02020202 0x01010101 3)"
proof -
  let ?l = "demo_p2p 0x02020202 0x01010101 3"
  have l: "lsa_ok ?l" "le_link_count ?l = 1" "lsa_key ?l = (0x02020202, 0x02020202)" "lsa_copy ?l = ?l"
    by (simp_all add: lsa_ok_def lsa_copy_def demo_p2p_def OSPF_MAX_LSA_LINKS_def)
  obtain pkt w1 where c: "packet_create (44 + 12 * nat (le_link_count ?l)) demo_ospf_world = (pkt, w1)" by (rule prod.exhaust)
  have "fst (packet_create (44 + 12 * nat (le_link_count ?l)) demo_ospf_world) \<noteq> NULL"
    by (rule packet_create_plenty) (simp_all add: demo_ospf_parts l PKT_HEADROOM_def PTRDIFF_MAX_def)
  then have n: "pkt \<noteq> NULL" using c by simp
  have f: "if_prefix_len demo_port \<le> 32" "os_area_id demo_peer = os_area_id demo_local"
    by (simp_all add: demo_ospf_fields demo_prefix_len)
  have "lsas.lookup (os_lsdb demo_local) (0x02020202, 0x02020202) = None" "os_lsdb_count demo_local < int OSPF_LSDB_SIZE"
    by (simp_all add: lsas.lookup_def lsas.find_key_def demo_ospf_def demo_p2p_def zero_lsa_def OSPF_LSDB_SIZE_def first_idx_None)
  then show ?thesis
    using ospf_lsu_roundtrip [OF l(1) c n demo_ospf_ok demo_ospf_parts(5) f, of "0x0A000002"] demo_received [OF demo_ospf_parts(4) demo_messages(2), of 2]
    by (fastforce simp: l demo_ospf_fields)
qed

end
