(* ===== verification/Dispatch.thy ===== *)
theory Dispatch
  imports Ospf_Examples
begin

text \<open>
  The whole program as one system. Function pointers are data in the model; here every call through one (of an event, a receive
  handler, an IP protocol, a UDP or TCP client) is resolved to the handler of the program it names, and handlers of client code,
  which the repository does not contain, are parameters.

  The lemmas of collection \<open>clock\<close> show of every operation that no handler turns the clock or breaks the queue of the
  scheduler. They make the handlers an instance of the contract \<open>event_dispatch\<close> of the scheduler, and so a run of the
  simulator over the whole program an event loop in the order of time.
\<close>

named_theorems clock

lemmas step_splits = bind_splits if_splits prod.splits option.splits sum.splits

text \<open>The frame of all handlers: the scheduler \<open>s\<close> stays well formed with the clock at \<open>u\<close>, and the simulators are \<open>ms\<close>.\<close>

type_synonym clock = "addr \<times> u64 \<times> (addr \<rightharpoonup> Simulator)"

definition clocked :: "clock \<Rightarrow> 'a sim_world_scheme \<Rightarrow> bool" where
  "clocked k w \<longleftrightarrow> w_sims w = snd (snd k) \<and> (\<exists>sch. sched_at (fst k) w = Some sch \<and> sched_wf sch \<and> sch_now sch = fst (snd k))"

lemma clocked_upd [simp]:
  "clocked k (w\<lparr>w_mem := m\<rparr>) = clocked k w" "clocked k (w\<lparr>w_pkts := ps\<rparr>) = clocked k w" "clocked k (pkt_put a p w) = clocked k w"
  "clocked k (w\<lparr>w_next_id := n\<rparr>) = clocked k w"
  by (simp_all add: clocked_def sched_at_def pkt_put_def)

lemma clocked_put [simp]:
  "clocked k (iface_put a i w1) = clocked k w1" "clocked k (cache_put a c w2) = clocked k w2" "clocked k (stack_put a st w3) = clocked k w3"
  "clocked k (udp_put a u w4) = clocked k w4" "clocked k (router_put a ro w5) = clocked k w5" "clocked k (switch_put a sw w6) = clocked k w6"
  "clocked k (rip_put a ri w7) = clocked k w7" "clocked k (tcp_put a tc w8) = clocked k w8" "clocked k (ospf_put a os w9) = clocked k w9"
  by (simp_all add: clocked_def sched_at_def iface_put_def cache_put_def stack_put_def udp_put_def router_put_def switch_put_def rip_put_def tcp_put_def ospf_put_def)

lemma clocked_frame: "pkt_frame w w' \<Longrightarrow> clocked k w \<Longrightarrow> clocked k w'"
  unfolding pkt_frame_def by (metis clocked_upd(1,2,4))

text \<open>For the longer functions: what holds of every result.\<close>

definition keeps :: "('r \<Rightarrow> bool) \<Rightarrow> 'r option \<Rightarrow> bool" where
  "keeps P m \<longleftrightarrow> (\<forall>x. m = Some x \<longrightarrow> P x)"

lemma keeps_bind: "(\<And>x. m = Some x \<Longrightarrow> keeps P (f x)) \<Longrightarrow> keeps P (m \<bind> f)"
  by (cases m) (auto simp: keeps_def)

lemma keeps_if: "(b \<Longrightarrow> keeps P x) \<Longrightarrow> (\<not> b \<Longrightarrow> keeps P y) \<Longrightarrow> keeps P (if b then x else y)"
  by simp

lemma keeps_prod: "(\<And>a b. p = (a, b) \<Longrightarrow> keeps P (f a b)) \<Longrightarrow> keeps P (case p of (a, b) \<Rightarrow> f a b)"
  by (cases p) simp

lemma keeps_let: "keeps P (f x) \<Longrightarrow> keeps P (Let x f)"
  by simp

lemma keeps_option: "(m = None \<Longrightarrow> keeps P y) \<Longrightarrow> (\<And>x. m = Some x \<Longrightarrow> keeps P (f x)) \<Longrightarrow> keeps P (case m of None \<Rightarrow> y | Some x \<Rightarrow> f x)"
  by (cases m) simp_all

lemma keeps_Some: "P x \<Longrightarrow> keeps P (Some x)"
  by (simp add: keeps_def)

lemmas keeps_rules = keeps_bind keeps_if keeps_prod keeps_let keeps_option keeps_Some

lemma keepsE:
  "m = Some w' \<Longrightarrow> keeps (clocked k) m \<Longrightarrow> clocked k w'"
  "m2 = Some (r, w') \<Longrightarrow> keeps (\<lambda>(r, w). clocked k w) m2 \<Longrightarrow> clocked k w'"
  "m3 = Some (r, q, w') \<Longrightarrow> keeps (\<lambda>(r, q, w). clocked k w) m3 \<Longrightarrow> clocked k w'"
  by (simp_all add: keeps_def)

lemma clock_alloc [clock]: "alloc w = (a, w') \<Longrightarrow> clocked k w \<Longrightarrow> clocked k w'"
  by (auto simp: alloc_def split: prod.splits)

lemma clock_create [clock]: "packet_create c w = (a, w') \<Longrightarrow> clocked k w \<Longrightarrow> clocked k w'"
  by (rule clocked_frame [OF packet_create_frame])

lemma clock_free [clock]: "packet_free p w = Some w' \<Longrightarrow> clocked k w \<Longrightarrow> clocked k w'"
  by (rule clocked_frame [OF packet_free_frame])

lemma clock_prepend [clock]: "packet_prepend p h w = Some (r, w') \<Longrightarrow> clocked k w \<Longrightarrow> clocked k w'"
  by (auto simp: packet_prepend_def split: step_splits)

lemma clock_strip [clock]: "packet_strip p h w = Some (r, w') \<Longrightarrow> clocked k w \<Longrightarrow> clocked k w'"
  by (auto simp: packet_strip_def split: step_splits)

lemma clock_clone [clock]: "packet_clone p w = Some (r, w') \<Longrightarrow> clocked k w \<Longrightarrow> clocked k w'"
  by (auto simp: packet_clone_def Let_def split: step_splits) (fastforce dest: clock)+

lemma clock_iface [clock]: "iface_upd a f w = Some w' \<Longrightarrow> clocked k w \<Longrightarrow> clocked k w'"
  by (auto simp: iface_upd_def split: bind_splits)

lemma clock_event [clock]: "event_create_callback ty u a b p c h x w = (e, w') \<Longrightarrow> clocked k w \<Longrightarrow> clocked k w'"
  by (auto simp: event_create_callback_def split: prod.splits if_splits dest: clock)

lemma clock_event_create [clock]: "event_create ty u a b p c w = (e, w') \<Longrightarrow> clocked k w \<Longrightarrow> clocked k w'"
  by (auto simp: event_create_def dest: clock)

lemma event_queue_push_mem: "event_queue_push eq e w = Some (r, eq', w') \<Longrightarrow> w' = w\<lparr>w_mem := w_mem w'\<rparr>"
  by (auto simp: event_queue_push_def alloc_ptrs_def alloc_bytes_def alloc_def Let_def split: step_splits)

lemma scheduler_schedule_at:
  assumes "scheduler_schedule a (Some e) w = Some (r, w')" "a \<noteq> NULL"
  obtains sch eq m where "sched_at a w = Some sch" "w' = sched_put a (sch\<lparr>sch_eq := eq\<rparr>) (w\<lparr>w_mem := m\<rparr>)"
proof -
  obtain sch eq w1 where "sched_at a w = Some sch" "event_queue_push (sch_eq sch) e w = Some (r, eq, w1)" "w' = sched_put a (sch\<lparr>sch_eq := eq\<rparr>) w1"
    using assms by (auto simp: scheduler_schedule_def split: bind_splits)
  then show thesis using that [of sch eq "w_mem w1"] event_queue_push_mem by metis
qed

lemma clock_schedule [clock]:
  assumes "scheduler_schedule a e w = Some (r, w')" "clocked k w"
  shows "clocked k w'"
proof (cases "e = None \<or> a = NULL")
  case True
  then show ?thesis using assms by (auto simp: scheduler_schedule_def split: option.splits)
next
  case False
  then obtain ev where ev: "e = Some ev" "a \<noteq> NULL" by auto
  obtain s u ms where k: "k = (s, u, ms)" by (cases k)
  obtain sch where sch: "sched_at s w = Some sch" "sched_wf sch" "sch_now sch = u" "w_sims w = ms" using assms(2) k by (auto simp: clocked_def)
  obtain sch1 eq m where w': "sched_at a w = Some sch1" "w' = sched_put a (sch1\<lparr>sch_eq := eq\<rparr>) (w\<lparr>w_mem := m\<rparr>)"
    using scheduler_schedule_at [OF assms(1) [unfolded ev(1)] ev(2)] by blast
  have sims: "w_sims w' = ms" using sch(4) by (simp add: w'(2) sched_put_def)
  show ?thesis
  proof (cases "a = s")
    case True
    have "\<exists>sch'. sched_at s w' = Some sch' \<and> sched_wf sch'" using scheduler_schedule_wf [OF sch(1,2), of ev] assms(1) ev(1) True by auto
    then show ?thesis using w' sch sims k True ev(2) by (auto simp: clocked_def)
  next
    case False
    then have "sched_at s w' = sched_at s w" using ev(2) by (simp add: w'(2))
    then show ?thesis using sch sims k by (simp add: clocked_def)
  qed
qed

lemma clock_link [clock]: "link_transmit l p i a u h x w = Some (r, w') \<Longrightarrow> clocked k w \<Longrightarrow> clocked k w'"
  by (auto simp: link_transmit_def split: step_splits dest: clock)

lemma clock_tx_error [clock]: "tx_error sim i w = Some (r, w') \<Longrightarrow> clocked k w \<Longrightarrow> clocked k w'"
  by (auto simp: tx_error_def split: bind_splits dest: clock)


subsection \<open>Ethernet\<close>

lemma clock_ethernet_send [clock]: "ethernet_send x1 x2 x3 x4 x5 w = Some (r, w') \<Longrightarrow> clocked k w \<Longrightarrow> clocked k w'"
  by (fastforce simp: ethernet_send_def Let_def split: step_splits dest: clock)

lemma clock_ethernet_receive [clock]: "ethernet_receive x1 x2 x3 w = Some (r, q, w') \<Longrightarrow> clocked k w \<Longrightarrow> clocked k w'"
  by (fastforce simp: ethernet_receive_def Let_def split: step_splits dest: clock)


subsection \<open>Arp\<close>

lemma clock_flush_slot [clock]: "flush_slot x1 x2 x3 x4 x5 x6 w = Some (r, w') \<Longrightarrow> clocked k w \<Longrightarrow> clocked k w'"
  by (fastforce simp: flush_slot_def Let_def split: step_splits dest: clock)

lemma clock_flush_slots [clock]: "flush_slots x1 x2 x3 x4 xs x6 w = Some (r, w') \<Longrightarrow> clocked k w \<Longrightarrow> clocked k w'"
  by (induction xs arbitrary: x1 x2 x3 x4 x6 w) (fastforce split: step_splits dest: clock)+

lemma clock_arp_pending_flush [clock]: "arp_pending_flush x1 x2 x3 x4 w = Some (r, w') \<Longrightarrow> clocked k w \<Longrightarrow> clocked k w'"
  by (fastforce simp: arp_pending_flush_def Let_def split: step_splits dest: clock)

lemma clock_arp_send_request [clock]: "arp_send_request x1 x2 x3 w = Some (r, w') \<Longrightarrow> clocked k w \<Longrightarrow> clocked k w'"
  by (fastforce simp: arp_send_request_def Let_def split: step_splits dest: clock)

lemma clock_arp_send_reply [clock]: "arp_send_reply x1 x2 x3 w = Some (r, w') \<Longrightarrow> clocked k w \<Longrightarrow> clocked k w'"
  by (fastforce simp: arp_send_reply_def Let_def split: step_splits dest: clock)

lemma clock_learn_sender [clock]: "learn_sender x1 x2 x3 x4 w = Some w' \<Longrightarrow> clocked k w \<Longrightarrow> clocked k w'"
  by (fastforce simp: learn_sender_def Let_def split: step_splits dest: clock)

lemma clock_arp_request_handler [clock]: "arp_request_handler x1 x2 w = Some w' \<Longrightarrow> clocked k w \<Longrightarrow> clocked k w'"
  by (fastforce simp: arp_request_handler_def Let_def split: step_splits dest: clock)

lemma clock_arp_reply_handler [clock]: "arp_reply_handler x1 x2 w = Some w' \<Longrightarrow> clocked k w \<Longrightarrow> clocked k w'"
  by (fastforce simp: arp_reply_handler_def Let_def split: step_splits dest: clock)


subsection \<open>Ip\<close>

lemma clock_ip_prepend_header [clock]: "ip_prepend_header x1 x2 x3 x4 w = Some (r, w') \<Longrightarrow> clocked k w \<Longrightarrow> clocked k w'"
  by (fastforce simp: ip_prepend_header_def Let_def split: step_splits dest: clock)

lemma clock_ip_transmit [clock]: "ip_transmit x1 x2 x3 x4 w = Some (r, w') \<Longrightarrow> clocked k w \<Longrightarrow> clocked k w'"
  by (fastforce simp: ip_transmit_def Let_def split: step_splits dest: clock)

lemma clock_ip_send [clock]: "ip_send x1 x2 x3 x4 x5 x6 x7 w = Some (r, w') \<Longrightarrow> clocked k w \<Longrightarrow> clocked k w'"
  by (fastforce simp: ip_send_def Let_def split: step_splits dest: clock)

lemma clock_ip_resolve_and_send [clock]: "ip_resolve_and_send x1 x2 x3 x4 w = Some (r, w') \<Longrightarrow> clocked k w \<Longrightarrow> clocked k w'"
  by (fastforce simp: ip_resolve_and_send_def Let_def split: step_splits dest: clock)

lemma clock_ip_output [clock]: "ip_output x1 x2 x3 x4 x5 w = Some (r, w') \<Longrightarrow> clocked k w \<Longrightarrow> clocked k w'"
  by (fastforce simp: ip_output_def Let_def split: step_splits dest: clock)


subsection \<open>Icmp\<close>

lemma clock_count_tx_error [clock]: "count_tx_error x1 w = Some w' \<Longrightarrow> clocked k w \<Longrightarrow> clocked k w'"
  by (fastforce simp: count_tx_error_def Let_def split: step_splits dest: clock)

lemma clock_count_rx_error [clock]: "count_rx_error x1 w = Some w' \<Longrightarrow> clocked k w \<Longrightarrow> clocked k w'"
  by (fastforce simp: count_rx_error_def Let_def split: step_splits dest: clock)

lemma clock_count_rx_drop [clock]: "count_rx_drop x1 w = Some w' \<Longrightarrow> clocked k w \<Longrightarrow> clocked k w'"
  by (fastforce simp: count_rx_drop_def Let_def split: step_splits dest: clock)

lemma clock_icmp_send_error [clock]: "icmp_send_error x1 x2 x3 x4 x5 x6 w = Some (r, w') \<Longrightarrow> clocked k w \<Longrightarrow> clocked k w'"
  by (fastforce simp: icmp_send_error_def Let_def split: step_splits dest: clock)

lemma clock_icmp_send_time_exceeded [clock]: "icmp_send_time_exceeded x1 x2 x3 w = Some (r, w') \<Longrightarrow> clocked k w \<Longrightarrow> clocked k w'"
  by (fastforce simp: icmp_send_time_exceeded_def Let_def split: step_splits dest: clock)

lemma clock_icmp_send_unreach_net [clock]: "icmp_send_unreach_net x1 x2 x3 w = Some (r, w') \<Longrightarrow> clocked k w \<Longrightarrow> clocked k w'"
  by (fastforce simp: icmp_send_unreach_net_def Let_def split: step_splits dest: clock)

lemma clock_icmp_send_unreach_port [clock]: "icmp_send_unreach_port x1 x2 x3 w = Some (r, w') \<Longrightarrow> clocked k w \<Longrightarrow> clocked k w'"
  by (fastforce simp: icmp_send_unreach_port_def Let_def split: step_splits dest: clock)

lemma clock_icmp_send_echo_reply [clock]: "icmp_send_echo_reply x1 x2 x3 w = Some (r, w') \<Longrightarrow> clocked k w \<Longrightarrow> clocked k w'"
  by (auto simp: icmp_send_echo_reply_def Let_def bind_eq_Some_conv split: if_splits prod.splits) (fastforce dest: clock)+

lemma clock_icmp_receive [clock]: "icmp_receive x1 x2 x3 w = Some (r, w') \<Longrightarrow> clocked k w \<Longrightarrow> clocked k w'"
  by (erule keepsE(2)) (unfold icmp_receive_def, intro keeps_rules; fastforce simp: keeps_def split: if_splits dest: clock)


subsection \<open>Udp\<close>

lemma clock_udp_send [clock]: "udp_send x1 x2 x3 x4 x5 x6 x7 w = Some (r, w') \<Longrightarrow> clocked k w \<Longrightarrow> clocked k w'"
  by (fastforce simp: udp_send_def Let_def split: step_splits dest: clock)

lemma clock_udp_discard [clock]: "udp_discard x1 x2 w = Some (r, w') \<Longrightarrow> clocked k w \<Longrightarrow> clocked k w'"
  by (fastforce simp: udp_discard_def Let_def split: step_splits dest: clock)


subsection \<open>Router\<close>

lemma clock_router_output [clock]: "router_output x1 x2 x3 x4 x5 w = Some (r, w') \<Longrightarrow> clocked k w \<Longrightarrow> clocked k w'"
  by (fastforce simp: router_output_def Let_def split: step_splits dest: clock)

lemma clock_on_route_tbl [clock]: "on_route_tbl x1 x2 w = Some (r, w') \<Longrightarrow> clocked k w \<Longrightarrow> clocked k w'"
  by (fastforce simp: on_route_tbl_def Let_def split: step_splits dest: clock)

lemma clock_router_add_route [clock]: "router_add_route x1 x2 x3 x4 x5 x6 x7 w = Some (r, w') \<Longrightarrow> clocked k w \<Longrightarrow> clocked k w'"
  by (fastforce simp: router_add_route_def Let_def split: step_splits dest: clock)

lemma clock_router_del_route [clock]: "router_del_route x1 x2 x3 x4 w = Some (r, w') \<Longrightarrow> clocked k w \<Longrightarrow> clocked k w'"
  by (fastforce simp: router_del_route_def Let_def split: step_splits dest: clock)


subsection \<open>Switch\<close>

lemma clock_mac_age_event [clock]: "mac_age_event x1 x2 w = (r, w') \<Longrightarrow> clocked k w \<Longrightarrow> clocked k w'"
  by (fastforce simp: mac_age_event_def Let_def split: step_splits dest: clock)

lemma clock_mac_age_handler [clock]: "mac_age_handler x1 x2 w = Some w' \<Longrightarrow> clocked k w \<Longrightarrow> clocked k w'"
  by (fastforce simp: mac_age_handler_def Let_def split: step_splits dest: clock)

lemma clock_flood [clock]: "flood x1 x2 x3 x4 x5 xs w = Some w' \<Longrightarrow> clocked k w \<Longrightarrow> clocked k w'"
  by (induction xs arbitrary: x1 x2 x3 x4 x5 w) (fastforce split: step_splits dest: clock)+

lemma clock_switch_deliver [clock]: "switch_deliver x1 x2 x3 x4 x5 x6 w = Some w' \<Longrightarrow> clocked k w \<Longrightarrow> clocked k w'"
  by (fastforce simp: switch_deliver_def Let_def split: step_splits dest: clock)

lemma clock_switch_receive [clock]: "switch_receive x1 x2 x3 x4 w = Some w' \<Longrightarrow> clocked k w \<Longrightarrow> clocked k w'"
  by (fastforce simp: switch_receive_def Let_def split: step_splits dest: clock)

lemma clock_switch_rx_shim [clock]: "switch_rx_shim x1 x2 x3 x4 w = Some w' \<Longrightarrow> clocked k w \<Longrightarrow> clocked k w'"
  by (fastforce simp: switch_rx_shim_def Let_def split: step_splits dest: clock)


subsection \<open>Rip\<close>

lemma clock_rip_schedule_periodic [clock]: "rip_schedule_periodic x1 x2 x3 x4 x5 w = Some w' \<Longrightarrow> clocked k w \<Longrightarrow> clocked k w'"
  by (fastforce simp: rip_schedule_periodic_def Let_def split: step_splits dest: clock)

lemma clock_rip_learn [clock]: "rip_learn x1 x2 x3 x4 x5 x6 x7 w = Some w' \<Longrightarrow> clocked k w \<Longrightarrow> clocked k w'"
  by (fastforce simp: rip_learn_def Let_def split: step_splits dest: clock)

lemma clock_rip_receive_entry [clock]: "rip_receive_entry x1 x2 x3 x4 x5 w = Some w' \<Longrightarrow> clocked k w \<Longrightarrow> clocked k w'"
  by (fastforce simp: rip_receive_entry_def Let_def split: step_splits dest: clock)

lemma clock_rip_receive_entries [clock]: "rip_receive_entries x1 x2 x3 x4 x5 xs w = Some w' \<Longrightarrow> clocked k w \<Longrightarrow> clocked k w'"
  by (induction xs arbitrary: x1 x2 x3 x4 x5 w) (fastforce split: step_splits dest: clock)+

lemma clock_rip_receive [clock]: "rip_receive x1 x2 x3 x4 x5 w = Some w' \<Longrightarrow> clocked k w \<Longrightarrow> clocked k w'"
  by (fastforce simp: rip_receive_def Let_def split: step_splits dest: clock)

lemma clock_rip_flush_payload [clock]: "rip_flush_payload x1 x2 x3 x4 w = Some (r, w') \<Longrightarrow> clocked k w \<Longrightarrow> clocked k w'"
  by (fastforce simp: rip_flush_payload_def Let_def split: step_splits dest: clock)

lemma clock_rip_send_entries [clock]: "rip_send_entries x1 x2 x3 xs x5 x6 w = Some (r, w') \<Longrightarrow> clocked k w \<Longrightarrow> clocked k w'"
  by (induction xs arbitrary: x1 x2 x3 x5 x6 w) (fastforce split: step_splits dest: clock)+

lemma clock_rip_send_update [clock]: "rip_send_update x1 x2 w = Some (r, w') \<Longrightarrow> clocked k w \<Longrightarrow> clocked k w'"
  by (fastforce simp: rip_send_update_def Let_def split: step_splits dest: clock)

lemma clock_rip_update_ifaces [clock]: "rip_update_ifaces x1 xs w = Some w' \<Longrightarrow> clocked k w \<Longrightarrow> clocked k w'"
  by (induction xs arbitrary: x1 w) (fastforce split: step_splits dest: clock)+

lemma clock_rip_handler:
  assumes "rip_handler x body w = Some w'" "clocked k w" "\<And>st r u w w'. body st r u w = Some w' \<Longrightarrow> clocked k w \<Longrightarrow> clocked k w'"
  shows "clocked k w'"
  using assms(1,2) by (auto simp: rip_handler_def split: bind_splits if_splits dest: assms(3))

lemma clock_rip_update_handler [clock]: "rip_update_handler x1 x2 w = Some w' \<Longrightarrow> clocked k w \<Longrightarrow> clocked k w'"
  unfolding rip_update_handler_def by (erule clock_rip_handler) (auto split: bind_splits prod.splits dest: clock)

lemma clock_rip_timeout_slots [clock]: "rip_timeout_slots x1 x2 xs w = Some w' \<Longrightarrow> clocked k w \<Longrightarrow> clocked k w'"
proof (induction xs arbitrary: w)
  case (Cons i xs)
  from Cons.prems show ?case
    by (auto simp: Let_def bind_eq_Some_conv split: if_splits dest!: Cons.IH dest: clock)
qed simp

lemma clock_rip_timeout_handler [clock]: "rip_timeout_handler x1 x2 w = Some w' \<Longrightarrow> clocked k w \<Longrightarrow> clocked k w'"
  unfolding rip_timeout_handler_def by (erule clock_rip_handler) (auto split: bind_splits prod.splits dest: clock)

lemma clock_rip_gc_handler [clock]: "rip_gc_handler x1 x2 w = Some w' \<Longrightarrow> clocked k w \<Longrightarrow> clocked k w'"
  unfolding rip_gc_handler_def by (erule clock_rip_handler) (auto split: bind_splits prod.splits dest: clock)


subsection \<open>Tcp\<close>

lemma clock_tcb_upd [clock]: "tcb_upd x1 x2 w = Some w' \<Longrightarrow> clocked k w \<Longrightarrow> clocked k w'"
  by (fastforce simp: tcb_upd_def Let_def split: step_splits dest: clock)

lemma clock_tcp_alloc_tcb [clock]: "tcp_alloc_tcb x1 w = Some (r, w') \<Longrightarrow> clocked k w \<Longrightarrow> clocked k w'"
  by (fastforce simp: tcp_alloc_tcb_def Let_def split: step_splits dest: clock)

lemma clock_free_segments [clock]: "free_segments xs w = Some w' \<Longrightarrow> clocked k w \<Longrightarrow> clocked k w'"
  by (induction xs arbitrary: w) (fastforce split: step_splits dest: clock)+

lemma clock_tcp_release_tcb [clock]: "tcp_release_tcb x1 x2 w = Some w' \<Longrightarrow> clocked k w \<Longrightarrow> clocked k w'"
  by (fastforce simp: tcp_release_tcb_def Let_def split: step_splits dest: clock)

lemma clock_tcp_sendq_track [clock]: "tcp_sendq_track x1 x2 x3 x4 x5 x6 w = Some (r, w') \<Longrightarrow> clocked k w \<Longrightarrow> clocked k w'"
  by (fastforce simp: tcp_sendq_track_def Let_def split: step_splits dest: clock)

lemma clock_ack_segments [clock]: "ack_segments x1 xs x3 w = Some (r, q, w') \<Longrightarrow> clocked k w \<Longrightarrow> clocked k w'"
  by (induction xs arbitrary: x1 x3 w r) (fastforce split: step_splits dest: clock)+

lemma clock_tcp_sendq_ack [clock]: "tcp_sendq_ack x1 x2 w = Some w' \<Longrightarrow> clocked k w \<Longrightarrow> clocked k w'"
  by (fastforce simp: tcp_sendq_ack_def Let_def split: step_splits dest: clock)

lemma clock_tcp_send_segment [clock]: "tcp_send_segment x1 x2 x3 x4 x5 x6 x7 x8 x9 x10 x11 w = Some (r, q, w') \<Longrightarrow> clocked k w \<Longrightarrow> clocked k w'"
  by (erule keepsE(3)) (unfold tcp_send_segment_def, intro keeps_rules; fastforce simp: keeps_def split: if_splits dest: clock)

lemma clock_tcp_send_ack [clock]: "tcp_send_ack x1 x2 w = Some (r, w') \<Longrightarrow> clocked k w \<Longrightarrow> clocked k w'"
  by (fastforce simp: tcp_send_ack_def Let_def split: step_splits dest: clock)

lemma clock_tcp_schedule_retransmit [clock]: "tcp_schedule_retransmit x1 x2 x3 w = Some w' \<Longrightarrow> clocked k w \<Longrightarrow> clocked k w'"
  by (erule keepsE(1)) (unfold tcp_schedule_retransmit_def, intro keeps_rules; fastforce simp: keeps_def split: if_splits dest: clock)

lemma clock_tcp_arm [clock]: "tcp_arm x1 x2 w = Some w' \<Longrightarrow> clocked k w \<Longrightarrow> clocked k w'"
  by (fastforce simp: tcp_arm_def Let_def split: step_splits dest: clock)

lemma clock_tcp_time_wait_handler [clock]: "tcp_time_wait_handler x1 x2 w = Some w' \<Longrightarrow> clocked k w \<Longrightarrow> clocked k w'"
  by (fastforce simp: tcp_time_wait_handler_def Let_def split: step_splits dest: clock)

lemma clock_tcp_fail [clock]: "tcp_fail x1 x2 w = Some (r, w') \<Longrightarrow> clocked k w \<Longrightarrow> clocked k w'"
  by (fastforce simp: tcp_fail_def Let_def split: step_splits dest: clock)

lemma clock_tcp_drop [clock]: "tcp_drop x1 x2 w = Some (r, w') \<Longrightarrow> clocked k w \<Longrightarrow> clocked k w'"
  by (fastforce simp: tcp_drop_def Let_def split: step_splits dest: clock)

lemma clock_tcp_done [clock]: "tcp_done x1 w = Some (r, w') \<Longrightarrow> clocked k w \<Longrightarrow> clocked k w'"
  by (fastforce simp: tcp_done_def Let_def split: step_splits dest: clock)

lemma clock_tcp_accept [clock]: "tcp_accept x1 x2 x3 x4 x5 x6 x7 x8 x9 w = Some (r, w') \<Longrightarrow> clocked k w \<Longrightarrow> clocked k w'"
  by (fastforce simp: tcp_accept_def Let_def split: step_splits dest: clock)

lemma clock_tcp_take_ack [clock]: "tcp_take_ack x1 x2 x3 w = Some w' \<Longrightarrow> clocked k w \<Longrightarrow> clocked k w'"
  by (fastforce simp: tcp_take_ack_def Let_def split: step_splits dest: clock)

lemma clock_tcp_ack_fin [clock]: "tcp_ack_fin x1 x2 w = Some (r, w') \<Longrightarrow> clocked k w \<Longrightarrow> clocked k w'"
  by (fastforce simp: tcp_ack_fin_def Let_def split: step_splits dest: clock)

lemma clock_tcp_fin_wait_1 [clock]: "tcp_fin_wait_1 x1 x2 x3 x4 x5 w = Some (r, w') \<Longrightarrow> clocked k w \<Longrightarrow> clocked k w'"
  by (fastforce simp: tcp_fin_wait_1_def Let_def split: step_splits dest: clock)

lemma clock_tcp_enter_time_wait [clock]: "tcp_enter_time_wait x1 x2 w = Some w' \<Longrightarrow> clocked k w \<Longrightarrow> clocked k w'"
  by (fastforce simp: tcp_enter_time_wait_def Let_def split: step_splits dest: clock)

lemma clock_tcp_fin_wait_2 [clock]: "tcp_fin_wait_2 x1 x2 x3 x4 x5 x6 w = Some (r, w') \<Longrightarrow> clocked k w \<Longrightarrow> clocked k w'"
  by (fastforce simp: tcp_fin_wait_2_def Let_def split: step_splits dest: clock)

lemma clock_tcp_closing [clock]: "tcp_closing x1 x2 x3 x4 x5 w = Some (r, w') \<Longrightarrow> clocked k w \<Longrightarrow> clocked k w'"
  by (fastforce simp: tcp_closing_def Let_def split: step_splits dest: clock)

lemma clock_tcp_last_ack [clock]: "tcp_last_ack x1 x2 x3 x4 x5 x6 w = Some (r, w') \<Longrightarrow> clocked k w \<Longrightarrow> clocked k w'"
  by (fastforce simp: tcp_last_ack_def Let_def split: step_splits dest: clock)

lemma clock_retransmit_segments [clock]: "retransmit_segments x1 x2 x3 xs w = Some w' \<Longrightarrow> clocked k w \<Longrightarrow> clocked k w'"
proof (induction xs arbitrary: w)
  case (Cons i xs)
  from Cons.prems show ?case
    by (auto simp: Let_def bind_eq_Some_conv split: if_splits dest!: Cons.IH dest: clock)
qed simp

lemma clock_tcp_retransmit_handler [clock]: "tcp_retransmit_handler x1 x2 w = Some w' \<Longrightarrow> clocked k w \<Longrightarrow> clocked k w'"
  by (fastforce simp: tcp_retransmit_handler_def Let_def split: step_splits dest: clock)


subsection \<open>Ospf\<close>

lemma clock_ospf_schedule_periodic [clock]: "ospf_schedule_periodic x1 x2 x3 x4 x5 w = Some w' \<Longrightarrow> clocked k w \<Longrightarrow> clocked k w'"
  by (fastforce simp: ospf_schedule_periodic_def Let_def split: step_splits dest: clock)

lemma clock_ospf_transmit [clock]: "ospf_transmit x1 x2 x3 w = Some (r, w') \<Longrightarrow> clocked k w \<Longrightarrow> clocked k w'"
  by (fastforce simp: ospf_transmit_def Let_def split: step_splits dest: clock)

lemma clock_ospf_send_hello [clock]: "ospf_send_hello x1 x2 w = Some (r, w') \<Longrightarrow> clocked k w \<Longrightarrow> clocked k w'"
  by (fastforce simp: ospf_send_hello_def Let_def split: step_splits dest: clock)

lemma clock_flood_on [clock]: "flood_on x1 x2 x3 w = Some (r, w') \<Longrightarrow> clocked k w \<Longrightarrow> clocked k w'"
  by (fastforce simp: flood_on_def Let_def split: step_splits dest: clock)

lemma clock_flood_ifaces [clock]: "flood_ifaces x1 x2 x3 xs w = Some (r, w') \<Longrightarrow> clocked k w \<Longrightarrow> clocked k w'"
  by (induction xs arbitrary: x1 x2 x3 w) (fastforce split: step_splits dest: clock)+

lemma clock_ospf_flood_lsa [clock]: "ospf_flood_lsa x1 x2 x3 w = Some (r, w') \<Longrightarrow> clocked k w \<Longrightarrow> clocked k w'"
  by (fastforce simp: ospf_flood_lsa_def Let_def split: step_splits dest: clock)

lemma clock_ospf_error [clock]: "ospf_error x1 x2 w = Some (r, w') \<Longrightarrow> clocked k w \<Longrightarrow> clocked k w'"
  by (fastforce simp: ospf_error_def Let_def split: step_splits dest: clock)

lemma clock_ospf_drop [clock]: "ospf_drop x1 x2 w = Some (r, w') \<Longrightarrow> clocked k w \<Longrightarrow> clocked k w'"
  by (fastforce simp: ospf_drop_def Let_def split: step_splits dest: clock)

lemma clock_ospf_receive_hello [clock]: "ospf_receive_hello x1 x2 x3 x4 x5 x6 x7 x8 x9 x10 w = Some (r, w') \<Longrightarrow> clocked k w \<Longrightarrow> clocked k w'"
  by (fastforce simp: ospf_receive_hello_def Let_def split: step_splits dest: clock)

lemma clock_flood_changed [clock]: "flood_changed x1 x2 xs x4 w = Some (r, w') \<Longrightarrow> clocked k w \<Longrightarrow> clocked k w'"
  by (induction xs arbitrary: x1 x2 x4 w) (fastforce split: step_splits dest: clock)+

lemma clock_ospf_schedule_spf [clock]: "ospf_schedule_spf x1 x2 x3 w = Some (r, w') \<Longrightarrow> clocked k w \<Longrightarrow> clocked k w'"
  by (fastforce simp: ospf_schedule_spf_def Let_def split: step_splits dest: clock)

lemma clock_ospf_receive_lsu [clock]: "ospf_receive_lsu x1 x2 x3 x4 x5 x6 x7 w = Some (r, w') \<Longrightarrow> clocked k w \<Longrightarrow> clocked k w'"
  by (auto simp: ospf_receive_lsu_def Let_def split: bind_splits if_splits sum.splits prod.splits) (fastforce dest: clock)+

lemma clock_ospf_receive [clock]: "ospf_receive x1 x2 x3 w = Some (r, w') \<Longrightarrow> clocked k w \<Longrightarrow> clocked k w'"
  by (erule keepsE(2)) (unfold ospf_receive_def, intro keeps_rules; fastforce simp: keeps_def split: if_splits dest: clock)

lemma clock_spf_routes [clock]: "spf_routes x1 x2 xs w = Some (r, w') \<Longrightarrow> clocked k w \<Longrightarrow> clocked k w'"
  by (induction xs arbitrary: x1 x2 w) (fastforce split: step_splits dest: clock)+

lemma clock_ospf_run_spf [clock]: "ospf_run_spf x1 w = Some (r, w') \<Longrightarrow> clocked k w \<Longrightarrow> clocked k w'"
  by (auto simp: ospf_run_spf_def split: bind_splits if_splits sum.splits dest: clock)

lemma clock_hello_ifaces [clock]: "hello_ifaces x1 xs w = Some w' \<Longrightarrow> clocked k w \<Longrightarrow> clocked k w'"
  by (induction xs arbitrary: x1 w) (fastforce split: step_splits dest: clock)+

lemma clock_ospf_hello_timer [clock]: "ospf_hello_timer x1 x2 w = Some w' \<Longrightarrow> clocked k w \<Longrightarrow> clocked k w'"
  by (fastforce simp: ospf_hello_timer_def Let_def split: step_splits dest: clock)

lemma clock_ospf_dead_timer [clock]: "ospf_dead_timer x1 x2 w = Some w' \<Longrightarrow> clocked k w \<Longrightarrow> clocked k w'"
  by (fastforce simp: ospf_dead_timer_def Let_def split: step_splits dest: clock)

lemma clock_ospf_spf_timer [clock]: "ospf_spf_timer x1 x2 w = Some w' \<Longrightarrow> clocked k w \<Longrightarrow> clocked k w'"
  by (fastforce simp: ospf_spf_timer_def Let_def split: step_splits dest: clock)


section \<open>Indirect calls\<close>

text \<open>The code of clients, which registers its own handlers.\<close>

record 'w apps =
  app_udp :: "nat \<Rightarrow> addr \<Rightarrow> u32 \<Rightarrow> u16 \<Rightarrow> addr \<Rightarrow> vptr \<Rightarrow> 'w \<Rightarrow> 'w option"
  app_tcp_recv :: "nat \<Rightarrow> addr \<times> nat \<Rightarrow> addr \<Rightarrow> vptr \<Rightarrow> 'w \<Rightarrow> 'w option"
  app_tcp_connect :: "nat \<Rightarrow> addr \<times> nat \<Rightarrow> vptr \<Rightarrow> 'w \<Rightarrow> 'w option"
  app_ip :: "nat \<Rightarrow> addr \<Rightarrow> addr \<Rightarrow> vptr \<Rightarrow> 'w \<Rightarrow> (int \<times> 'w) option"
  app_rx :: "nat \<Rightarrow> addr \<Rightarrow> addr \<Rightarrow> u16 \<Rightarrow> vptr \<Rightarrow> 'w \<Rightarrow> 'w option"
  app_event :: "nat \<Rightarrow> Event \<Rightarrow> vptr \<Rightarrow> 'w \<Rightarrow> 'w option"

definition call_recv_handler :: "'a ospf_world_scheme apps \<Rightarrow> Udp_Recv_Handler \<Rightarrow> addr \<Rightarrow> u32 \<Rightarrow> u16 \<Rightarrow> addr \<Rightarrow> vptr \<Rightarrow>
    'a ospf_world_scheme \<Rightarrow> 'a ospf_world_scheme option" where
  "call_recv_handler apps h iface src_ip src_port pkt ctx w = (case h of
     Udp_NULL \<Rightarrow> None
   | Udp_rip_receive \<Rightarrow> rip_receive iface src_ip src_port pkt ctx w
   | Udp_extern n \<Rightarrow> app_udp apps n iface src_ip src_port pkt ctx w)"

definition call_tcp_recv :: "'a ospf_world_scheme apps \<Rightarrow> TcpRecvHandler \<Rightarrow> addr \<times> nat \<Rightarrow> addr \<Rightarrow> vptr \<Rightarrow>
    'a ospf_world_scheme \<Rightarrow> 'a ospf_world_scheme option" where
  "call_tcp_recv apps h tcb pkt ctx w = (case h of Tcp_recv_NULL \<Rightarrow> None | Tcp_recv_extern n \<Rightarrow> app_tcp_recv apps n tcb pkt ctx w)"

definition call_tcp_connect :: "'a ospf_world_scheme apps \<Rightarrow> TcpConnectHandler \<Rightarrow> addr \<times> nat \<Rightarrow> vptr \<Rightarrow>
    'a ospf_world_scheme \<Rightarrow> 'a ospf_world_scheme option" where
  "call_tcp_connect apps h tcb ctx w = (case h of Tcp_connect_NULL \<Rightarrow> None | Tcp_connect_extern n \<Rightarrow> app_tcp_connect apps n tcb ctx w)"

definition call_ip_protocol :: "'a ospf_world_scheme apps \<Rightarrow> IpProtocolHandler \<Rightarrow> addr \<Rightarrow> addr \<Rightarrow> vptr \<Rightarrow>
    'a ospf_world_scheme \<Rightarrow> (int \<times> 'a ospf_world_scheme) option" where
  "call_ip_protocol apps h iface pkt ctx w = (case h of
     Ip_NULL \<Rightarrow> None
   | Ip_icmp_receive \<Rightarrow> icmp_receive iface pkt ctx w
   | Ip_udp_receive \<Rightarrow> udp_receive (call_recv_handler apps) iface pkt ctx w
   | Ip_tcp_receive \<Rightarrow> tcp_receive (call_tcp_recv apps) (call_tcp_connect apps) iface pkt ctx w
   | Ip_ospf_receive \<Rightarrow> ospf_receive iface pkt ctx w
   | Ip_extern n \<Rightarrow> app_ip apps n iface pkt ctx w)"

definition call_rx_handler :: "'a ospf_world_scheme apps \<Rightarrow> RxHandler \<Rightarrow> addr \<Rightarrow> addr \<Rightarrow> u16 \<Rightarrow> vptr \<Rightarrow>
    'a ospf_world_scheme \<Rightarrow> 'a ospf_world_scheme option" where
  "call_rx_handler apps h iface pkt ethertype ctx w = (case h of
     Rx_NULL \<Rightarrow> None
   | Rx_ip_rx_shim \<Rightarrow> ip_rx_shim (call_ip_protocol apps) iface pkt ethertype ctx w
   | Rx_router_rx_shim \<Rightarrow> router_rx_shim (call_ip_protocol apps) iface pkt ethertype ctx w
   | Rx_switch_rx_shim \<Rightarrow> switch_rx_shim iface pkt ethertype ctx w
   | Rx_extern n \<Rightarrow> app_rx apps n iface pkt ethertype ctx w)"

definition call_event :: "'a ospf_world_scheme apps \<Rightarrow> EventCallback \<Rightarrow> Event \<Rightarrow> vptr \<Rightarrow> 'a ospf_world_scheme \<Rightarrow> 'a ospf_world_scheme option" where
  "call_event apps h e ctx w = (case h of
     Cb_NULL \<Rightarrow> None
   | Cb_ethernet_receive_event \<Rightarrow> ethernet_receive_event (call_rx_handler apps) e ctx w
   | Cb_arp_request_handler \<Rightarrow> arp_request_handler e ctx w
   | Cb_arp_reply_handler \<Rightarrow> arp_reply_handler e ctx w
   | Cb_mac_age_handler \<Rightarrow> mac_age_handler e ctx w
   | Cb_tcp_retransmit_handler \<Rightarrow> tcp_retransmit_handler e ctx w
   | Cb_tcp_time_wait_handler \<Rightarrow> tcp_time_wait_handler e ctx w
   | Cb_rip_update_handler \<Rightarrow> rip_update_handler e ctx w
   | Cb_rip_timeout_handler \<Rightarrow> rip_timeout_handler e ctx w
   | Cb_rip_gc_handler \<Rightarrow> rip_gc_handler e ctx w
   | Cb_ospf_hello_timer \<Rightarrow> ospf_hello_timer e ctx w
   | Cb_ospf_dead_timer \<Rightarrow> ospf_dead_timer e ctx w
   | Cb_ospf_spf_timer \<Rightarrow> ospf_spf_timer e ctx w
   | Cb_extern n \<Rightarrow> app_event apps n e ctx w)"

section \<open>The frame of the calls\<close>

text \<open>What clients must respect: the scheduler \<open>s\<close> is reached through its operations only, which leave the clock alone, and
  simulators are not created or freed by handlers.\<close>

locale client_code =
  fixes apps :: "'a ospf_world_scheme apps"
    and s :: addr
  assumes udp_clock: "app_udp apps n iface a port pkt x w = Some w' \<Longrightarrow> clocked (s, k) w \<Longrightarrow> clocked (s, k) w'"
    and recv_clock: "app_tcp_recv apps n tcb pkt x w = Some w' \<Longrightarrow> clocked (s, k) w \<Longrightarrow> clocked (s, k) w'"
    and connect_clock: "app_tcp_connect apps n tcb x w = Some w' \<Longrightarrow> clocked (s, k) w \<Longrightarrow> clocked (s, k) w'"
    and ip_clock: "app_ip apps n iface pkt x w = Some (r, w') \<Longrightarrow> clocked (s, k) w \<Longrightarrow> clocked (s, k) w'"
    and rx_clock: "app_rx apps n iface pkt ty x w = Some w' \<Longrightarrow> clocked (s, k) w \<Longrightarrow> clocked (s, k) w'"
    and event_clock: "app_event apps n e x w = Some w' \<Longrightarrow> clocked (s, k) w \<Longrightarrow> clocked (s, k) w'"
begin

lemmas client_clocks = udp_clock recv_clock connect_clock ip_clock rx_clock event_clock

lemma clock_recv_handler: "call_recv_handler apps h iface a port pkt x w = Some w' \<Longrightarrow> clocked (s, k) w \<Longrightarrow> clocked (s, k) w'"
  by (auto simp: call_recv_handler_def split: Udp_Recv_Handler.splits dest: clock client_clocks)

lemma clock_call_recv: "call_tcp_recv apps h tcb pkt x w = Some w' \<Longrightarrow> clocked (s, k) w \<Longrightarrow> clocked (s, k) w'"
  by (auto simp: call_tcp_recv_def split: TcpRecvHandler.splits dest: client_clocks)

lemma clock_call_connect: "call_tcp_connect apps h tcb x w = Some w' \<Longrightarrow> clocked (s, k) w \<Longrightarrow> clocked (s, k) w'"
  by (auto simp: call_tcp_connect_def split: TcpConnectHandler.splits dest: client_clocks)

lemmas call_clocks = clock_recv_handler clock_call_recv clock_call_connect

lemma clock_connected: "tcp_connected (call_tcp_connect apps) tcb w = Some w' \<Longrightarrow> clocked (s, k) w \<Longrightarrow> clocked (s, k) w'"
  by (auto simp: tcp_connected_def split: step_splits dest: call_clocks)

lemma clock_syn_sent: "tcp_syn_sent (call_tcp_connect apps) i p c tcb x y f w = Some (r, w') \<Longrightarrow> clocked (s, k) w \<Longrightarrow> clocked (s, k) w'"
  by (fastforce simp: tcp_syn_sent_def Let_def split: step_splits dest: clock clock_connected)

lemma clock_syn_received: "tcp_syn_received (call_tcp_connect apps) i p tcb x f w = Some (r, w') \<Longrightarrow> clocked (s, k) w \<Longrightarrow> clocked (s, k) w'"
  by (fastforce simp: tcp_syn_received_def Let_def split: step_splits dest: clock clock_connected)

lemma clock_data: "tcp_data (call_tcp_recv apps) i p c tcb x n w = Some (r, w') \<Longrightarrow> clocked (s, k) w \<Longrightarrow> clocked (s, k) w'"
  by (fastforce simp: tcp_data_def Let_def split: step_splits dest: clock call_clocks)

lemma clock_established: "tcp_established (call_tcp_recv apps) i p c tcb x y f n w = Some (r, w') \<Longrightarrow> clocked (s, k) w \<Longrightarrow> clocked (s, k) w'"
  by (fastforce simp: tcp_established_def Let_def split: step_splits dest: clock clock_data)

lemma clock_segment_arrives:
  "tcp_segment_arrives (call_tcp_recv apps) (call_tcp_connect apps) i p c tcb x y f n w = Some (r, w') \<Longrightarrow> clocked (s, k) w \<Longrightarrow> clocked (s, k) w'"
  by (auto simp: tcp_segment_arrives_def Let_def split: step_splits TcpState.splits dest: clock clock_syn_sent clock_syn_received clock_established)

lemma clock_tcp_receive:
  "tcp_receive (call_tcp_recv apps) (call_tcp_connect apps) i p x w = Some (r, w') \<Longrightarrow> clocked (s, k) w \<Longrightarrow> clocked (s, k) w'"
  by (erule keepsE(2)) (unfold tcp_receive_def, intro keeps_rules; fastforce simp: keeps_def split: if_splits dest: clock clock_segment_arrives)

lemma clock_udp_receive:
  "udp_receive (call_recv_handler apps) i p x w = Some (r, w') \<Longrightarrow> clocked (s, k) w \<Longrightarrow> clocked (s, k) w'"
  by (erule keepsE(2)) (unfold udp_receive_def, intro keeps_rules; fastforce simp: keeps_def split: if_splits dest: clock call_clocks)

lemma clock_ip_protocol: "call_ip_protocol apps h i p x w = Some (r, w') \<Longrightarrow> clocked (s, k) w \<Longrightarrow> clocked (s, k) w'"
  by (auto simp: call_ip_protocol_def split: IpProtocolHandler.splits dest: clock client_clocks clock_tcp_receive clock_udp_receive)

lemma clock_ip_receive:
  "ip_receive (call_ip_protocol apps) i p ty x w = Some (r, w') \<Longrightarrow> clocked (s, k) w \<Longrightarrow> clocked (s, k) w'"
  by (erule keepsE(2)) (unfold ip_receive_def, intro keeps_rules; fastforce simp: keeps_def split: if_splits dest: clock clock_ip_protocol)

lemma clock_router_drop: "router_drop i p m = Some (r, w') \<Longrightarrow> (\<And>r w'. m = Some (r, w') \<Longrightarrow> clocked k w') \<Longrightarrow> clocked k w'"
  by (fastforce simp: router_drop_def split: bind_splits dest: clock)

lemma clock_router_receive:
  "router_receive (call_ip_protocol apps) a i p w = Some (r, w') \<Longrightarrow> clocked (s, k) w \<Longrightarrow> clocked (s, k) w'"
  by (erule keepsE(2)) (unfold router_receive_def, intro keeps_rules; fastforce simp: keeps_def dest: clock clock_ip_receive dest!: clock_router_drop)

lemma clock_rx_handler: "call_rx_handler apps h i p ty x w = Some w' \<Longrightarrow> clocked (s, k) w \<Longrightarrow> clocked (s, k) w'"
  by (auto simp: call_rx_handler_def ip_rx_shim_def router_rx_shim_def split: RxHandler.splits step_splits
      dest: clock client_clocks clock_ip_receive clock_router_receive)

lemma clock_receive_event: "ethernet_receive_event (call_rx_handler apps) e x w = Some w' \<Longrightarrow> clocked (s, k) w \<Longrightarrow> clocked (s, k) w'"
  by (auto simp: ethernet_receive_event_def Let_def split: step_splits dest: clock clock_rx_handler)

lemma clock_call_event: "call_event apps h e x w = Some w' \<Longrightarrow> clocked (s, k) w \<Longrightarrow> clocked (s, k) w'"
  by (auto simp: call_event_def split: EventCallback.splits dest: clock client_clocks clock_receive_event)

end

section \<open>Runs of the simulator\<close>

text \<open>Induction over the turns of a simulation that returns.\<close>

lemma simulator_loop_induct [consumes 1, case_names stopped turn]:
  assumes "simulator_loop call sim w = Some w'"
    and "\<And>w m sch. sim_at sim w = Some m \<Longrightarrow> sched_at (sim_sched m) w = Some sch \<Longrightarrow> sch_running sch \<noteq> 1 \<Longrightarrow> Q w w"
    and "\<And>w m sch w1 w2. sim_at sim w = Some m \<Longrightarrow> sched_at (sim_sched m) w = Some sch \<Longrightarrow> sch_running sch = 1 \<Longrightarrow>
      simulator_turn call sim w = Some w1 \<Longrightarrow> simulator_loop call sim w1 = Some w2 \<Longrightarrow> Q w1 w2 \<Longrightarrow> Q w w2"
  shows "Q w w'"
proof -
  have "c = call \<and> t = sim \<longrightarrow> simulator_loop c t v = Some v' \<and> Q v v'" if "simulator_loop c t v = Some v'" for c t v v'
    using that
  proof (rule simulator_loop.raw_induct [rotated])
    fix loop c t v v'
    assume IH: "\<And>c t v v'. loop c t v = Some v' \<Longrightarrow> c = call \<and> t = sim \<longrightarrow> simulator_loop c t v = Some v' \<and> Q v v'"
      and body: "do { m \<leftarrow> sim_at t v; sch \<leftarrow> sched_at (sim_sched m) v;
        if sch_running sch = 1 then do { w \<leftarrow> simulator_turn c t v; loop c t w } else Some v } = Some v'"
    from body obtain m sch where m: "sim_at t v = Some m" "sched_at (sim_sched m) v = Some sch"
      and rest: "(if sch_running sch = 1 then do { w \<leftarrow> simulator_turn c t v; loop c t w } else Some v) = Some v'"
      by (auto split: bind_splits)
    show "c = call \<and> t = sim \<longrightarrow> simulator_loop c t v = Some v' \<and> Q v v'"
    proof (cases "sch_running sch = 1")
      case True
      then obtain w1 where "simulator_turn c t v = Some w1" "loop c t w1 = Some v'" using rest by (auto split: bind_splits)
      then show ?thesis using True m IH [of c t w1 v'] assms(3) [of v m sch w1 v'] simulator_loop_runs [OF m True, of c] by auto
    next
      case False
      then show ?thesis using rest m assms(2) [OF _ _ False] simulator_loop_stopped [OF m False, of c] by auto
    qed
  qed
  with assms(1) show ?thesis by blast
qed

text \<open>The events that the turns of a run handle, each with the time of the clock. The last turn may find the queue empty.\<close>

inductive handles :: "'a dispatch \<Rightarrow> addr \<Rightarrow> 'a sim_world_scheme \<Rightarrow> (u64 \<times> Event) list \<Rightarrow> 'a sim_world_scheme \<Rightarrow> bool" for call sim where
  handles_nil: "handles call sim w [] w"
| handles_idle: "sim_at sim w = Some m \<Longrightarrow> sched_at (sim_sched m) w = Some sch \<Longrightarrow> eq_list (sch_eq sch) = [] \<Longrightarrow>
    simulator_turn call sim w = Some w' \<Longrightarrow> handles call sim w [] w'"
| handles_turn: "sim_at sim w = Some m \<Longrightarrow> sched_at (sim_sched m) w = Some sch \<Longrightarrow> eq_list (sch_eq sch) = e # es \<Longrightarrow>
    simulator_turn call sim w = Some w1 \<Longrightarrow> simulator_now sim w1 = Some u \<Longrightarrow> handles call sim w1 tr w' \<Longrightarrow>
    handles call sim w ((u, e) # tr) w'"

text \<open>Handled in the order of time, none before its timestamp, and nothing more once the clock has reached the end time.\<close>

definition in_time_order :: "u64 \<Rightarrow> u64 \<Rightarrow> (u64 \<times> Event) list \<Rightarrow> u64 \<Rightarrow> bool" where
  "in_time_order end_time start tr finish \<longleftrightarrow> sorted (map fst tr) \<and> start \<le> finish \<and>
     (\<forall>(u, e) \<in> set tr. start \<le> u \<and> evt_timestamp e \<le> u \<and> u \<le> finish) \<and>
     (\<forall>(u, e) \<in> set (butlast tr). end_time = 0 \<or> u < end_time)"

lemma in_time_order_Cons:
  assumes "in_time_order en u tr f" "start \<le> u" "evt_timestamp e \<le> u" "tr \<noteq> [] \<Longrightarrow> en = 0 \<or> u < en"
  shows "in_time_order en start ((u, e) # tr) f"
  using assms by (fastforce simp: in_time_order_def)

locale sim_dispatch = event_dispatch call s for call :: "'a dispatch" and s :: addr +
  assumes call_sims: "sched_at s w = Some sch \<Longrightarrow> sched_wf sch \<Longrightarrow> call fn e ctx w = Some w' \<Longrightarrow> w_sims w' = w_sims w"
begin

lemma step_sims:
  assumes "sched_at s w = Some sch" "sched_wf sch" "scheduler_step call s w = Some (r, w')"
  shows "w_sims w' = w_sims w"
proof (cases "eq_list (sch_eq sch)")
  case Nil
  then show ?thesis using assms by (auto simp: scheduler_step_def event_queue_pop_empty sched_wf_def)
next
  case (Cons e es)
  have q: "queue_wf (sch_eq sch)" using assms(2) by (simp add: sched_wf_def)
  obtain eq' where eq': "event_queue_pop (sch_eq sch) = Some (Some e, eq')" "queue_wf eq'" using event_queue_pop_wf [OF q Cons] by blast
  let ?sch = "sch\<lparr>sch_eq := eq', sch_now := max (sch_now sch) (evt_timestamp e)\<rparr>"
  have m: "(if sch_now sch < evt_timestamp e then evt_timestamp e else sch_now sch) = max (sch_now sch) (evt_timestamp e)" by (auto simp: max_def)
  have wf: "sched_wf ?sch" "sched_at s (sched_put s ?sch w) = Some ?sch"
    using assms(2) eq' sched_at_nonnull [OF assms(1)] by (simp_all add: sched_wf_def)
  have put: "w_sims (sched_put s ?sch w) = w_sims w" by (simp add: sched_put_def)
  from assms(1,3) eq' have "(case handler_of e ?sch of None \<Rightarrow> Some (sched_put s ?sch w) | Some (fn, ctx) \<Rightarrow> call fn e ctx (sched_put s ?sch w)) = Some w'"
    by (auto simp: scheduler_step_def m Let_def split: bind_splits)
  then show ?thesis using call_sims [OF wf(2,1)] put by (auto split: option.splits prod.splits)
qed

lemma turn_frame:
  assumes "sim_at sim w = Some m" "sim_sched m = s" "sched_at s w = Some sch" "sched_wf sch" "simulator_turn call sim w = Some w'"
  shows "\<exists>sch'. sim_at sim w' = Some m \<and> sched_at s w' = Some sch' \<and> sched_wf sch' \<and>
    (case eq_list (sch_eq sch) of [] \<Rightarrow> sch_now sch' = sch_now sch \<and> sch_running sch' = 0
     | e # es \<Rightarrow> sch_now sch' = max (sch_now sch) (evt_timestamp e) \<and> (0 < sim_end_time m \<and> sim_end_time m \<le> sch_now sch' \<longrightarrow> sch_running sch' = 0))"
proof -
  obtain r w1 where step: "scheduler_step call s w = Some (r, w1)" using assms(1,2,5) by (auto simp: simulator_turn_def split: bind_splits)
  have m1: "sim_at sim w1 = Some m" using step_sims [OF assms(3,4) step] assms(1) by (auto simp: sim_at_def split: if_splits)
  obtain sch1 where f: "sched_at s w1 = Some sch1" "sched_wf sch1" "sch_now sch \<le> sch_now sch1"
    "r = 0 \<and> eq_list (sch_eq sch) = [] \<and> w1 = w \<or> r = 1 \<and> eq_list (sch_eq sch) \<noteq> [] \<and>
       sch_now sch1 = max (sch_now sch) (evt_timestamp (hd (eq_list (sch_eq sch))))"
    using step_frame [OF assms(3,4) step] by blast
  have s: "s \<noteq> NULL" by (rule sched_at_nonnull [OF assms(3)])
  let ?stop = "\<lambda>sch. sch\<lparr>sch_running := 0\<rparr>"
  have wf: "sched_wf (?stop sch1)" "sched_wf (?stop (?stop sch1))" using f(2) by (simp_all add: sched_wf_def)
  show ?thesis using assms(5) unfolding simulator_turn_def
    using assms(1-3) step m1 f(1,2,4) s wf
    by (auto simp: sched_set_running_def split: if_splits list.splits)
qed

lemma run_handles:
  assumes "simulator_loop call sim w = Some w'" "sim_at sim w = Some m" "sim_sched m = s" "sched_at s w = Some sch" "sched_wf sch"
  shows "\<exists>tr sch'. handles call sim w tr w' \<and> sim_at sim w' = Some m \<and> sched_at s w' = Some sch' \<and> sched_wf sch' \<and> sch_running sch' \<noteq> 1 \<and>
    in_time_order (sim_end_time m) (sch_now sch) tr (sch_now sch') \<and> (sch_running sch \<noteq> 1 \<longrightarrow> tr = [])"
  using assms
proof (induction arbitrary: sch rule: simulator_loop_induct)
  case (stopped w m' sch1)
  then show ?case by (intro exI [of _ "[]"] exI [of _ sch]) (auto simp: in_time_order_def intro: handles_nil)
next
  case (turn w m' sch0 w1 w2)
  have e: "sch0 = sch" "m' = m" using turn.hyps(1,2) turn.prems by simp_all
  obtain sch1 where f: "sim_at sim w1 = Some m" "sched_at s w1 = Some sch1" "sched_wf sch1"
    and c: "case eq_list (sch_eq sch) of [] \<Rightarrow> sch_now sch1 = sch_now sch \<and> sch_running sch1 = 0
     | e # es \<Rightarrow> sch_now sch1 = max (sch_now sch) (evt_timestamp e) \<and> (0 < sim_end_time m \<and> sim_end_time m \<le> sch_now sch1 \<longrightarrow> sch_running sch1 = 0)"
    using turn_frame [OF turn.prems turn.hyps(4)] by blast
  obtain tr sch2 where t: "handles call sim w1 tr w2" "sim_at sim w2 = Some m" "sched_at s w2 = Some sch2" "sched_wf sch2" "sch_running sch2 \<noteq> 1"
    "in_time_order (sim_end_time m) (sch_now sch1) tr (sch_now sch2)" "sch_running sch1 \<noteq> 1 \<longrightarrow> tr = []"
    using turn.IH [OF f(1) turn.prems(2) f(2,3)] by blast
  show ?case
  proof (cases "eq_list (sch_eq sch)")
    case Nil
    have r: "sch_running sch1 \<noteq> 1" "sch_now sch1 = sch_now sch" using c Nil by simp_all
    have "simulator_loop call sim w1 = Some w1" using simulator_loop_stopped [OF f(1), of sch1] f(2) r turn.prems(2) by simp
    then have "w2 = w1" using turn.hyps(5) by simp
    then have "handles call sim w [] w2" using handles_idle [OF turn.prems(1) _ Nil turn.hyps(4)] turn.prems(2,3) by simp
    then show ?thesis using t(2-7) r turn.hyps(3) e by (intro exI [of _ "[]"] exI [of _ sch2]) simp
  next
    case (Cons ev es)
    have n: "sch_now sch1 = max (sch_now sch) (evt_timestamp ev)" "0 < sim_end_time m \<and> sim_end_time m \<le> sch_now sch1 \<longrightarrow> sch_running sch1 = 0"
      using c Cons by simp_all
    have "simulator_now sim w1 = Some (sch_now sch1)"
      using f(1,2) turn.prems(2) sim_at_nonnull by (simp add: simulator_now_def sim_at_nonnull [OF f(1)])
    then have "handles call sim w ((sch_now sch1, ev) # tr) w2"
      using handles_turn [OF turn.prems(1) _ Cons turn.hyps(4) _ t(1)] turn.prems(2,3) by simp
    moreover have "in_time_order (sim_end_time m) (sch_now sch) ((sch_now sch1, ev) # tr) (sch_now sch2)"
      using t(6,7) n by (intro in_time_order_Cons) (auto simp: word_neq_0_conv not_le)
    ultimately show ?thesis using t(2-5) turn.hyps(3) e by blast
  qed
qed

end

sublocale client_code \<subseteq> sim_dispatch "call_event apps" s
proof
  fix w sch fn e ctx w'
  assume h: "sched_at s w = Some sch" "sched_wf sch" "call_event apps fn e ctx w = Some w'"
  have "clocked (s, sch_now sch, w_sims w) w" using h(1,2) by (simp add: clocked_def)
  then have c: "clocked (s, sch_now sch, w_sims w) w'" by (rule clock_call_event [OF h(3)])
  then show "\<exists>sch'. sched_at s w' = Some sch' \<and> sched_wf sch' \<and> sch_now sch' = sch_now sch" "w_sims w' = w_sims w"
    by (simp_all add: clocked_def)
qed

context client_code
begin

lemma simulate:
  assumes "sim_at sim w = Some m" "sim_sched m = s" "sched_at s w = Some sch" "sched_wf sch" "simulator_run (call_event apps) sim w = Some (r, w')"
  shows "\<exists>w0 tr sch'. sched_set_running s 1 w = Some w0 \<and> handles (call_event apps) sim w0 tr w' \<and> r = 0 \<and>
    sched_at s w' = Some sch' \<and> sched_wf sch' \<and> sch_running sch' \<noteq> 1 \<and> in_time_order (sim_end_time m) (sch_now sch) tr (sch_now sch')"
proof -
  let ?sch = "sch\<lparr>sch_running := 1\<rparr>"
  let ?w = "sched_put s ?sch w"
  have run: "sched_set_running s 1 w = Some ?w" using assms(3) by (simp add: sched_set_running_def)
  have l: "r = 0" "simulator_loop (call_event apps) sim ?w = Some w'"
    using assms(1,2,5) run by (auto simp: simulator_run_def split: bind_splits)
  have w0: "sim_at sim ?w = Some m" "sched_at s ?w = Some ?sch" "sched_wf ?sch"
    using assms(1,4) sched_at_nonnull [OF assms(3)] by (simp_all add: sched_wf_def)
  show ?thesis using run_handles [OF l(2) w0(1) assms(2) w0(2,3)] run l(1) by auto
qed

end

text \<open>C3. A simulation with all the handlers of the program runs in the order of time. Whatever network the world holds, with
  clients that reach the scheduler through its operations only, a run of the simulator that returns has handled a sequence of
  events, each the first of the queue at its turn, in which the time of the clock never goes back, no event is handled before
  its timestamp, and only the last can be handled at or after the end time; it returns 0 with the scheduler stopped and its
  queue well formed.\<close>

theorem simulation_in_time_order:
  assumes "client_code apps (sim_sched m)" "sim_at sim w = Some m" "sched_at (sim_sched m) w = Some sch" "sched_wf sch"
    and "simulator_run (call_event apps) sim w = Some (r, w')"
  shows "\<exists>w0 tr sch'. sched_set_running (sim_sched m) 1 w = Some w0 \<and> handles (call_event apps) sim w0 tr w' \<and> r = 0 \<and>
    sched_at (sim_sched m) w' = Some sch' \<and> sched_wf sch' \<and> sch_running sch' \<noteq> 1 \<and>
    in_time_order (sim_end_time m) (sch_now sch) tr (sch_now sch')"
  by (rule client_code.simulate [OF assms(1,2) refl assms(3-5)])

section \<open>Instances\<close>

text \<open>The discard service: clients that free every packet they are handed.\<close>

definition discard_apps :: "'a ospf_world_scheme apps" where
  "discard_apps = \<lparr>app_udp = (\<lambda>n iface a port pkt x w. packet_free pkt w), app_tcp_recv = (\<lambda>n tcb pkt x w. packet_free pkt w),
     app_tcp_connect = (\<lambda>n tcb x w. Some w), app_ip = (\<lambda>n iface pkt x w. map_option (Pair 0) (packet_free pkt w)),
     app_rx = (\<lambda>n iface pkt ty x w. packet_free pkt w), app_event = (\<lambda>n e x w. packet_free (evt_packet e) w)\<rparr>"

interpretation discard: client_code discard_apps s for s
  by unfold_locales (auto simp: discard_apps_def dest: clock)

definition demo_answer :: "u64 \<Rightarrow> nat \<Rightarrow> Event" where
  "demo_answer ts sq = (demo_event ts sq)\<lparr>evt_type := EVT_ARP_REPLY, evt_handler := Cb_arp_reply_handler, evt_handler_ctx := VSim 7\<rparr>"

text \<open>Two of these events, \<open>n\<close> of them still queued. Popping an event leaves what is behind the end of the queue in place.\<close>

definition demo_replies :: "nat \<Rightarrow> u64 \<Rightarrow> int \<Rightarrow> Scheduler" where
  "demo_replies n now running = \<lparr>sch_eq = \<lparr>eq_events = [Some (demo_answer (if n = 2 then 6 else 9) (if n = 2 then 3 else 2)), Some (demo_answer 9 2)],
     eq_count = n, eq_capacity = 2\<rparr>, sch_now = now, sch_running = running, sch_handlers = replicate 27 \<lparr>he_fn = Cb_NULL, he_ctx = VNull\<rparr>\<rparr>"

definition demo_run_world :: "Scheduler \<Rightarrow> ospf_world" where
  "demo_run_world sch = demo_ospf_world\<lparr>w_scheds := [5 \<mapsto> sch]\<rparr>"

lemma demo_run_parts:
  "sim_at 7 (demo_run_world sch) = Some \<lparr>sim_topo = 8, sim_sched = 5, sim_end_time = 0\<rparr>" "sched_at 5 (demo_run_world sch) = Some sch"
  "sched_put 5 sch' (demo_run_world sch) = demo_run_world sch'" "sched_set_running 5 r (demo_run_world sch) = Some (demo_run_world (sch\<lparr>sch_running := r\<rparr>))"
proof -
  show "sim_at 7 (demo_run_world sch) = Some \<lparr>sim_topo = 8, sim_sched = 5, sim_end_time = 0\<rparr>"
    using demo_ospf_parts(7) by (simp add: demo_run_world_def sim_at_def)
  show s: "sched_at 5 (demo_run_world sch) = Some sch" by (simp add: demo_run_world_def sched_at_def)
  show p: "sched_put 5 sch' (demo_run_world sch) = demo_run_world sch'" for sch' by (simp add: demo_run_world_def sched_put_def)
  show "sched_set_running 5 r (demo_run_world sch) = Some (demo_run_world (sch\<lparr>sch_running := r\<rparr>))" by (simp add: sched_set_running_def s p)
qed

lemma demo_replies_wf: "sched_wf (demo_replies 2 4 0)"
  by (simp add: sched_wf_def demo_replies_def queue_wf_def eq_list_def PTRDIFF_MAX_def demo_answer_def demo_event_def evt_key_def)

lemma demo_answer_handled: "call_event apps Cb_arp_reply_handler (demo_answer ts sq) (VSim 7) w = Some w"
  by (simp add: call_event_def arp_reply_handler_def as_sim_def as_iface_def demo_answer_def demo_event_def)

lemma demo_reply_step:
  assumes "event_queue_pop (sch_eq q) = Some (Some (demo_answer ts sq), eq')" "sch_now q < ts"
  shows "simulator_turn (call_event apps) 7 (demo_run_world q) = Some (demo_run_world (q\<lparr>sch_eq := eq', sch_now := ts\<rparr>))"
proof -
  have e: "evt_timestamp (demo_answer ts sq) = ts" "evt_handler (demo_answer ts sq) = Cb_arp_reply_handler" "evt_handler_ctx (demo_answer ts sq) = VSim 7"
    by (simp_all add: demo_answer_def demo_event_def)
  have "scheduler_step (call_event apps) 5 (demo_run_world q) = Some (1, demo_run_world (q\<lparr>sch_eq := eq', sch_now := ts\<rparr>))"
    using assms by (simp add: scheduler_step_def demo_run_parts handler_of_def e demo_answer_handled)
  then show ?thesis by (simp add: simulator_turn_def demo_run_parts)
qed

lemma demo_reply_steps:
  "simulator_turn (call_event apps) 7 (demo_run_world (demo_replies 2 4 1)) = Some (demo_run_world (demo_replies 1 6 1))"
  "simulator_turn (call_event apps) 7 (demo_run_world (demo_replies 1 6 1)) = Some (demo_run_world (demo_replies 0 9 1))"
  by (subst demo_reply_step [where ts = 6 and sq = 3 and eq' = "sch_eq (demo_replies 1 6 1)"], simp_all add: event_queue_pop_def demo_replies_def)
    (subst demo_reply_step [where ts = 9 and sq = 2 and eq' = "sch_eq (demo_replies 0 9 1)"], simp_all add: event_queue_pop_def demo_replies_def)

lemma demo_idle_step:
  "simulator_turn (call_event apps) 7 (demo_run_world (demo_replies 0 now 1)) = Some (demo_run_world (demo_replies 0 now 0))"
proof -
  have "scheduler_step (call_event apps) 5 (demo_run_world (demo_replies 0 now 1)) = Some (0, demo_run_world (demo_replies 0 now 1))"
    by (simp add: scheduler_step_def demo_run_parts event_queue_pop_def) (simp add: demo_replies_def)
  then show ?thesis by (simp add: simulator_turn_def demo_run_parts) (simp add: demo_replies_def)
qed

lemma demo_run: "simulator_run (call_event apps) 7 (demo_run_world (demo_replies 2 4 0)) = Some (0, demo_run_world (demo_replies 0 9 0))"
proof -
  let ?loop = "simulator_loop (call_event apps) 7" and ?w = "\<lambda>n u r. demo_run_world (demo_replies n u r)"
  have more: "sch_running (demo_replies n u r) = r" "(demo_replies n u r)\<lparr>sch_running := q\<rparr> = demo_replies n u q" for n u r q
    by (simp_all add: demo_replies_def)
  have go: "?loop (?w n u 1) = do { w \<leftarrow> simulator_turn (call_event apps) 7 (?w n u 1); ?loop w }" for n u
    by (rule simulator_loop_runs [OF demo_run_parts(1)]) (simp add: demo_run_parts, simp add: more)
  have "?loop (?w 0 9 0) = Some (?w 0 9 0)" by (rule simulator_loop_stopped [OF demo_run_parts(1)]) (simp add: demo_run_parts, simp add: more)
  then have "?loop (?w 0 9 1) = Some (?w 0 9 0)" by (simp add: go demo_idle_step)
  then have "?loop (?w 1 6 1) = Some (?w 0 9 0)" unfolding go [of 1 6] demo_reply_steps by simp
  then have "?loop (?w 2 4 1) = Some (?w 0 9 0)" unfolding go [of 2 4] demo_reply_steps by simp
  then show ?thesis by (simp add: simulator_run_def demo_run_parts more)
qed

lemma simulation_in_time_order_witness:
  "\<exists>tr. handles (call_event discard_apps) 7 (demo_run_world (demo_replies 2 4 1)) tr (demo_run_world (demo_replies 0 9 0)) \<and> in_time_order 0 4 tr 9"
proof -
  let ?m = "\<lparr>sim_topo = 8, sim_sched = 5, sim_end_time = 0\<rparr>"
  have c: "client_code discard_apps (sim_sched ?m)" by (rule discard.client_code_axioms)
  have s: "sched_at (sim_sched ?m) (demo_run_world (demo_replies 2 4 0)) = Some (demo_replies 2 4 0)" by (simp add: demo_run_parts)
  have q: "sch_now (demo_replies n u r) = u" "(demo_replies n u r)\<lparr>sch_running := 1\<rparr> = demo_replies n u 1" for n u r
    by (simp_all add: demo_replies_def)
  from simulation_in_time_order [OF c demo_run_parts(1) s demo_replies_wf demo_run] show ?thesis
    by (auto simp: demo_run_parts q)
qed

end
