(* ===== verification/Delivery.thy ===== *)
theory Delivery
  imports Dispatch
begin

text \<open>
  The way of a datagram through the whole program: \<open>udp_send\<close> on one host, the link, the event loop, Ethernet, IP and UDP of the
  neighbour, and the handler that is bound there.
\<close>

section \<open>Out\<close>

text \<open>Interfaces \<open>a\<close> and \<open>b\<close>, both in service, at the two ends of a link that is up.\<close>

definition wired :: "'a link_world_scheme \<Rightarrow> addr \<Rightarrow> addr \<Rightarrow> u64 \<Rightarrow> bool" where
  "wired w a b delay \<longleftrightarrow> (\<exists>i l j. iface_at a w = Some i \<and> if_up i \<noteq> 0 \<and> if_state i = IFACE_OK \<and>
     link_at (if_link i) w = Some l \<and> lk_up l \<noteq> 0 \<and> delay = ucast (lk_delay_ms l) \<and> link_get_other_interface (if_link i) a w = Some b \<and>
     b \<noteq> a \<and> iface_at b w = Some j \<and> if_up j \<noteq> 0 \<and> if_state j = IFACE_OK)"

lemma wired_frame:
  assumes "net_frame w w'" "wired w a b delay"
  shows "wired w' a b delay"
proof -
  obtain i l j where w: "iface_at a w = Some i" "if_up i \<noteq> 0" "if_state i = IFACE_OK" "link_at (if_link i) w = Some l" "lk_up l \<noteq> 0"
    "delay = ucast (lk_delay_ms l)" "link_get_other_interface (if_link i) a w = Some b" "b \<noteq> a" "iface_at b w = Some j" "if_up j \<noteq> 0" "if_state j = IFACE_OK"
    using assms(2) unfolding wired_def by blast
  obtain i' where i': "iface_at a w' = Some i'" "iface_core i' = iface_core i" by (rule net_frame_iface_at [OF assms(1) w(1)])
  obtain j' where j': "iface_at b w' = Some j'" "iface_core j' = iface_core j" by (rule net_frame_iface_at [OF assms(1) w(9)])
  have l: "link_at x w' = link_at x w" "link_get_other_interface x y w' = link_get_other_interface x y w" for x y
    using net_frame_link [OF assms(1)] by (simp_all add: link_get_other_interface_def)
  show ?thesis unfolding wired_def l using i' j' w iface_coreD [OF i'(2)] iface_coreD [OF j'(2)] by simp
qed

text \<open>A network in which memory lasts: what sending needs besides a well-formed network.\<close>

definition idle_net :: "'a sim_world_scheme \<Rightarrow> addr \<Rightarrow> u64 \<Rightarrow> bool" where
  "idle_net w sim now \<longleftrightarrow> net_wf sim w \<and> mem_oom (w_mem w) = [] \<and> (\<exists>m sch. sim_at sim w = Some m \<and> sched_at (sim_sched m) w = Some sch \<and>
     sch_now sch = now \<and> eq_list (sch_eq sch) = [] \<and> 16 * eq_capacity (sch_eq sch) \<le> PTRDIFF_MAX)"

lemma idle_net_frame:
  assumes "idle_net w sim now" "net_frame w w'" "heap_wf w'" "w_scheds w' = w_scheds w" "mem_oom (w_mem w') = []"
  shows "idle_net w' sim now"
proof -
  have s: "sched_at x w' = sched_at x w" "sim_at x w' = sim_at x w" for x
    using assms(4) net_frame_sim [OF assms(2)] by (simp_all add: sched_at_def)
  have "net_wf sim w'" using assms(1) by (intro net_wf_frame [OF _ assms(2,3)]) (auto simp: idle_net_def net_wf_def sim_ready_def s)
  then show ?thesis using assms(1,5) unfolding idle_net_def s by simp
qed

text \<open>A frame on its way: the only event is its reception.\<close>

definition on_wire :: "'a sim_world_scheme \<Rightarrow> addr \<Rightarrow> addr \<Rightarrow> addr \<Rightarrow> u64 \<Rightarrow> u64 \<Rightarrow> bytes \<Rightarrow> bool" where
  "on_wire w sim a b now at f \<longleftrightarrow> net_wf sim w \<and> (\<exists>m sch c q. sim_at sim w = Some m \<and> sched_at (sim_sched m) w = Some sch \<and> sch_now sch = now \<and>
     eq_list (sch_eq sch) = [rx_event at a b c Cb_ethernet_receive_event (VSim sim)] \<and> pkt_at c w = Some q \<and> pkt_wf q \<and> visible q = f)"

lemma frame_sent:
  assumes "idle_net w sim now" "wired w a b delay" "iface_at a w = Some i" "pkt_at pkt w = Some p" "14 \<le> pkt_data p"
    and "PKT_HEADROOM + pkt_len p + 14 \<le> PTRDIFF_MAX" "length mac = 6"
  shows "\<exists>w'. ethernet_send sim a (Some mac) ty pkt w = Some (1, w') \<and> net_frame w w' \<and>
    on_wire w' sim a b now (now + delay) (EthernetHeader mac (if_mac i) ty @ visible p)"
proof -
  obtain m sch where s: "net_wf sim w" "mem_oom (w_mem w) = []" "sim_at sim w = Some m" "sched_at (sim_sched m) w = Some sch" "sch_now sch = now"
    "eq_list (sch_eq sch) = []" "16 * eq_capacity (sch_eq sch) \<le> PTRDIFF_MAX" using assms(1) unfolding idle_net_def by blast
  obtain l j where l: "if_state i = IFACE_OK" "link_at (if_link i) w = Some l" "lk_up l \<noteq> 0" "delay = ucast (lk_delay_ms l)"
    "link_get_other_interface (if_link i) a w = Some b" "b \<noteq> a" "iface_at b w = Some j" "if_up j \<noteq> 0" "if_state j = IFACE_OK"
    using assms(2,3) unfolding wired_def by auto
  have wf: "sched_wf sch" "pkt_wf p" "pkt \<le> mem_next (w_mem w)" "length (if_mac i) = 6" "length (if_mac j) = 6"
    using s(1,3,4) assms(3,4) l(7) heap_wfD [of w pkt p] by (auto simp: net_wf_def sim_ready_def attached_def)
  have "can_send w sim a b pkt" unfolding can_send_def using s l wf assms(3-6) by blast
  from ethernet_send_outcome [OF this assms(7) s(3) assms(3) l(2) assms(4) s(4), of ty] obtain w' c q sch' where
    e: "ethernet_send sim a (Some mac) ty pkt w = Some (1, w')" "pkt_at c w' = Some q" "pkt_wf q" "visible q = EthernetHeader mac (if_mac i) ty @ visible p"
      "sched_at (sim_sched m) w' = Some sch'" "sch_now sch' = sch_now sch"
      "eq_list (sch_eq sch') = insert_by evt_key (rx_event (sch_now sch + ucast (lk_delay_ms l)) a b c Cb_ethernet_receive_event (VSim sim)) (eq_list (sch_eq sch))"
    by blast
  have f: "net_frame w w'" "net_wf sim w'" using ethernet_send_total [OF s(1), of a pkt mac ty] assms(3,4) e(1) by (auto simp: sent_safely_def)
  have "eq_list (sch_eq sch') = [rx_event (now + delay) a b c Cb_ethernet_receive_event (VSim sim)]" using e(7) s(5,6) l(4) by (simp add: insert_by_def)
  then have "on_wire w' sim a b now (now + delay) (EthernetHeader mac (if_mac i) ty @ visible p)"
    unfolding on_wire_def net_frame_sim [OF f(1)] using f(2) s(3,5) e(2-6) by blast
  then show ?thesis using e(1) f(1) by blast
qed

text \<open>\<open>ip_transmit\<close> counts and sends; \<open>ip_output\<close> finds interface and address first.\<close>

lemma source_iface_cong:
  assumes "\<And>a. map_option if_ip_addr (iface_at a w') = map_option if_ip_addr (iface_at a w)"
  shows "source_iface_in n as w' = source_iface_in n as w"
proof (induction as)
  case (Cons a as)
  then show ?case using assms [of a] by (cases "iface_at a w"; cases "iface_at a w'") auto
qed simp

lemma source_ifaces_cong:
  assumes "\<And>a. map_option if_ip_addr (iface_at a w') = map_option if_ip_addr (iface_at a w)" "\<And>d. dev_at d w' = dev_at d w"
  shows "source_iface_of n ds w' = source_iface_of n ds w"
  by (induction ds) (simp_all add: assms(2) source_iface_cong [OF assms(1)] cong: if_cong)

lemma net_frame_upper:
  assumes "net_frame w w'"
  shows "dev_at d w' = dev_at d w" "topo_at t w' = topo_at t w"
  using assms by (cases w; cases w'; simp add: net_frame_def dev_at_def topo_at_def)+

lemma find_source_frame:
  assumes "net_frame w w'"
  shows "ip_find_source_iface sim src w' = ip_find_source_iface sim src w"
proof -
  have "map_option if_ip_addr (iface_at a w') = map_option if_ip_addr (iface_at a w)" for a
  proof (cases "iface_at a w")
    case None
    moreover have "map_option iface_core (iface_at a w') = map_option iface_core (iface_at a w)" using assms by (simp add: net_frame_def)
    ultimately show ?thesis by simp
  next
    case (Some i)
    obtain i' where i': "iface_at a w' = Some i'" "iface_core i' = iface_core i" by (rule net_frame_iface_at [OF assms Some])
    then show ?thesis using Some iface_coreD(3) [OF i'(2)] by simp
  qed
  note cong = source_ifaces_cong [OF this net_frame_upper(1) [OF assms]]
  show ?thesis by (simp add: ip_find_source_iface_def net_frame_sim [OF assms] net_frame_upper(2) [OF assms] cong cong: if_cong)
qed

lemma ip_sent:
  assumes "idle_net w sim now" "wired w a b delay" "iface_at a w = Some i" "ip_find_source_iface sim src w = Some a"
    and "cache_at (if_arp_cache i) w = Some c" "arp_cache_lookup (Some c) dst True = (0, Some mac)" "length mac = 6"
    and "ip_same_subnet (ns_ntohl (if_ip_addr i)) dst (if_prefix_len i)" "ip_is_multicast dst = 0"
    and "pkt_at pkt w = Some p" "34 \<le> pkt_data p" "PKT_HEADROOM + pkt_len p + 34 \<le> PTRDIFF_MAX"
  shows "\<exists>w'. ip_output sim src dst pr pkt w = Some (1, w') \<and> net_frame w w' \<and>
    on_wire w' sim a b now (now + delay) (EthernetHeader mac (if_mac i) ETHERTYPE_IPV4 @ ip_bytes (new_ip_header src dst pr (pkt_len p)) @ visible p)"
proof -
  have nn: "sim \<noteq> NULL" "a \<noteq> NULL" "pkt \<noteq> NULL" using assms(1,3,10)
    by (auto simp: idle_net_def dest: sim_at_nonnull iface_at_nonnull pkt_at_nonnull)
  have hw: "heap_wf w" "pkt_wf p" using assms(1,10) by (auto simp: idle_net_def net_wf_def dest: heap_wfD)
  have up: "interface_is_up a w = Some 1" "if_arp_cache i \<noteq> NULL"
    using assms(2,3,5) nn by (auto simp: interface_is_up_def wired_def cache_at_def split: if_splits)
  obtain p' where p': "ip_prepend_header src dst pr pkt w = Some (0, pkt_put pkt p' w)" "pkt_wf p'"
    "visible p' = ip_bytes (new_ip_header src dst pr (pkt_len p)) @ visible p" "pkt_data p' = pkt_data p - 20" "pkt_len p' = pkt_len p + 20"
    by (rule ip_prepend_outcome [OF assms(10) hw(2), of src dst pr]) (use assms(11) in auto)
  let ?w1 = "pkt_put pkt p' w" and ?i = "i\<lparr>if_tx_bytes := if_tx_bytes i + of_nat (pkt_len p'), if_last_tx_time := now\<rparr>"
  let ?w2 = "iface_put a ?i ?w1"
  have a1: "iface_at a ?w1 = Some i" using assms(3) by simp
  have f: "net_frame w ?w2"
    by (rule net_frame_trans [OF net_frame_put]) (rule net_frame_iface [OF a1], simp add: iface_core_def)
  have h2: "heap_wf ?w2" using heap_wf_put [OF hw(1), of pkt p'] assms(10) p'(2) by (simp add: heap_wf_def)
  have id2: "idle_net ?w2 sim now" using assms(1) f h2 by (intro idle_net_frame [OF assms(1) f h2]) (simp_all add: iface_put_def pkt_put_def idle_net_def)
  have "\<exists>w'. ethernet_send sim a (Some mac) ETHERTYPE_IPV4 pkt ?w2 = Some (1, w') \<and> net_frame ?w2 w' \<and>
    on_wire w' sim a b now (now + delay) (EthernetHeader mac (if_mac ?i) ETHERTYPE_IPV4 @ visible p')"
    using assms(7,11,12) p' nn by (intro frame_sent [OF id2 wired_frame [OF f assms(2)], of ?i pkt p']) simp_all
  then obtain w' where e: "ethernet_send sim a (Some mac) ETHERTYPE_IPV4 pkt ?w2 = Some (1, w')" "net_frame w w'"
    "on_wire w' sim a b now (now + delay) (EthernetHeader mac (if_mac i) ETHERTYPE_IPV4 @ visible p')" using net_frame_trans [OF f] by auto
  have n: "simulator_now sim ?w1 = Some now" using assms(1) nn by (auto simp: idle_net_def simulator_now_def)
  have "ip_transmit sim a mac pkt ?w1 = Some (1, w')" using e(1) n a1 nn by (simp add: ip_transmit_def iface_upd_def)
  moreover have "cache_at (if_arp_cache i) ?w1 = Some c" using assms(5) by (simp add: cache_at_def pkt_put_def split: if_splits)
  ultimately have "ip_output sim src dst pr pkt w = Some (1, w')"
    using assms(3,4,6,8,9) nn up p'(1) a1 by (simp add: ip_output_def ip_resolve_and_send_def)
  then show ?thesis using e(2,3) p'(3) by auto
qed

text \<open>The frame that carries a datagram.\<close>

definition datagram :: "u16 \<Rightarrow> u16 \<Rightarrow> bytes \<Rightarrow> bytes" where
  "datagram sp dp payload = UdpHeader (ns_htons sp) (ns_htons dp) (ns_htons (of_nat (8 + length payload))) 0 @ payload"

lemma length_datagram [simp]: "length (datagram sp dp payload) = 8 + length payload"
  by (simp add: datagram_def udp_header_fields)

definition udp_frame :: "bytes \<Rightarrow> bytes \<Rightarrow> u32 \<Rightarrow> u32 \<Rightarrow> u16 \<Rightarrow> u16 \<Rightarrow> bytes \<Rightarrow> bytes" where
  "udp_frame to from src dst sp dp payload = EthernetHeader to from ETHERTYPE_IPV4 @
     ip_bytes (new_ip_header src dst IPPROTO_UDP (8 + length payload)) @ datagram sp dp payload"

lemma udp_sent:
  assumes "idle_net w sim now" "wired w a b delay" "iface_at a w = Some i" "ip_find_source_iface sim src w = Some a"
    and "cache_at (if_arp_cache i) w = Some c0" "arp_cache_lookup (Some c0) dst True = (0, Some mac)" "length mac = 6"
    and "ip_same_subnet (ns_ntohl (if_ip_addr i)) dst (if_prefix_len i)" "ip_is_multicast dst = 0"
    and "dp \<noteq> 0" "length payload \<le> 65507"
  shows "\<exists>w'. udp_send sim src dst sp dp (Some payload) (length payload) w = Some (0, w') \<and> net_frame w w' \<and>
    on_wire w' sim a b now (now + delay) (udp_frame mac (if_mac i) src dst sp dp payload)"
proof -
  let ?n = "8 + length payload" and ?hd = "UdpHeader (ns_htons sp) (ns_htons dp) (ns_htons (of_nat (8 + length payload))) 0"
  obtain pkt w1 where c: "packet_create ?n w = (pkt, w1)" by fastforce
  have small: "PKT_HEADROOM + ?n \<le> PTRDIFF_MAX" using assms(11) by (simp add: PKT_HEADROOM_def PTRDIFF_MAX_def)
  have net: "heap_wf w" "mem_oom (w_mem w) = []" "sim \<noteq> NULL" using assms(1) by (auto simp: idle_net_def net_wf_def dest: sim_at_nonnull)
  have pkt: "pkt \<noteq> NULL" using packet_create_plenty [OF net(2) small] c by simp
  obtain p where p: "pkt_at pkt w1 = Some p" "pkt_wf p" "pkt_len p = 0" "pkt_data p = PKT_HEADROOM" "pkt_capacity p = ?n"
    using packet_create_wf [OF c pkt] by blast
  note h1 = packet_create_heap [OF c net(1)]
  let ?p = "p\<lparr>pkt_len := ?n\<rparr>"
  have wf: "pkt_wf ?p" using p(2-5) assms(11) by (simp add: pkt_wf_def PKT_HEADROOM_def SIZE_MAX_def)
  obtain p1 where p1: "pkt_write 0 ?hd ?p = Some p1" "pkt_wf p1" "visible p1 = ?hd @ drop 8 (visible ?p)" "p1 = ?p\<lparr>pkt_head := pkt_head p1\<rparr>"
    by (rule pkt_write_within [OF wf, of 0 ?hd]) (simp_all add: udp_header_fields)
  have l1: "pkt_len p1 = ?n" "pkt_data p1 = PKT_HEADROOM" "pkt_capacity p1 = ?n" using p(4,5) by (subst p1(4), simp)+
  obtain p2 where p2: "pkt_write 8 payload p1 = Some p2" "pkt_wf p2" "visible p2 = ?hd @ payload" "p2 = p1\<lparr>pkt_head := pkt_head p2\<rparr>"
    by (rule pkt_write_within [OF p1(2), of 8 payload]) (use p1(3) l1 length_visible [OF wf] in \<open>simp_all add: udp_header_fields\<close>)
  let ?p1 = "p\<lparr>pkt_head := pkt_head p1\<rparr>" and ?p2 = "p\<lparr>pkt_head := pkt_head p2\<rparr>"
  let ?q = "?p2\<lparr>pkt_len := ?n, pkt_layer := 4\<rparr>"
  have l2: "pkt_len p2 = ?n" "pkt_data p2 = PKT_HEADROOM" "pkt_capacity p2 = ?n" using l1 by (subst p2(4), simp)+
  have wr: "pkt_write 0 ?hd p = Some ?p1" "pkt_write 8 payload ?p1 = Some ?p2" using p1(1) p2(1) l1
    by (auto simp: pkt_write_def split: bind_splits)
  have "pkt_write 8 [] ?p1 = Some ?p1" using l1 p1(2) by (simp add: pkt_write_def write_at_def pkt_wf_def p(4))
  then have tail: "payload = [] \<Longrightarrow> ?p2 = ?p1" using wr(2) by simp
  have q: "pkt_wf ?q" "visible ?q = datagram sp dp payload" using p2(2,3) l2 p(4,5) p1(2)
    by (auto simp: pkt_wf_def visible_def datagram_def udp_header_fields)
  let ?w2 = "pkt_put pkt ?q w1"
  have f: "net_frame w ?w2" by (rule net_frame_trans [OF net_frame_pkt [OF packet_create_frame [OF c]]]) simp
  have h2: "heap_wf ?w2" using heap_wf_put [OF h1(1)] p(1) q(1) by simp
  have "w_scheds ?w2 = w_scheds w" using pkt_frame_more [OF packet_create_frame [OF c]] by (cases w; cases w1) (simp add: pkt_put_def)
  then have id2: "idle_net ?w2 sim now"
    using packet_create_oom [OF c net(2)] by (intro idle_net_frame [OF assms(1) f h2]) simp_all
  have fs: "ip_find_source_iface sim src ?w2 = Some a" "cache_at (if_arp_cache i) ?w2 = Some c0"
    using assms(4,5) find_source_frame [OF f] net_frame_cache [OF f] by simp_all
  obtain i' where i': "iface_at a ?w2 = Some i'" "iface_core i' = iface_core i" by (rule net_frame_iface_at [OF f assms(3)])
  note core = iface_coreD [OF i'(2)]
  have "\<exists>w'. ip_output sim src dst IPPROTO_UDP pkt ?w2 = Some (1, w') \<and> net_frame ?w2 w' \<and>
    on_wire w' sim a b now (now + delay) (EthernetHeader mac (if_mac i') ETHERTYPE_IPV4 @ ip_bytes (new_ip_header src dst IPPROTO_UDP (pkt_len ?q)) @ visible ?q)"
    using assms(6-9,11) fs pkt p(4) by (intro ip_sent [OF id2 wired_frame [OF f assms(2)] i'(1)]) (simp_all add: core PKT_HEADROOM_def PTRDIFF_MAX_def)
  then obtain w' where e: "ip_output sim src dst IPPROTO_UDP pkt ?w2 = Some (1, w')" "net_frame w w'"
    "on_wire w' sim a b now (now + delay) (udp_frame mac (if_mac i) src dst sp dp payload)" using net_frame_trans [OF f] q(2) core by (auto simp: udp_frame_def)
  have "udp_send sim src dst sp dp (Some payload) (length payload) w = Some (0, w')"
    using net(3) assms(10,11) c pkt p(1) wr tail e(1) by (auto simp: udp_send_def UDP_HDR_LEN_def)
  then show ?thesis using e(2,3) by blast
qed

section \<open>In\<close>

lemma net_frame_udp:
  assumes "net_frame w w'"
  shows "stack_at a w' = stack_at a w" "udp_ctx_at a w' = udp_ctx_at a w" "udp_at a w' = udp_at a w"
  using assms by (cases w; cases w'; simp add: net_frame_def stack_at_def udp_ctx_at_def udp_at_def)+

lemma datagram_received:
  assumes "iface_at b w = Some j" "if_state j = IFACE_OK" "length (if_mac j) = 6" "if_rx_handler j = Rx_ip_rx_shim" "if_handler_ctx j = VStack st"
    and "stack_at st w = Some s" "st_sim s = sim" "simulator_now sim w = Some now"
    and "st_protocols s ! unat IPPROTO_UDP = \<lparr>pe_handler = Ip_udp_receive, pe_ctx = VUdpCtx uc\<rparr>"
    and "udp_ctx_at uc w = Some u" "udp_at (uc_state u) w = Some us" "udp_wf us" "udp_map us dp = Some (fn, fctx)"
    and "pkt_at c w = Some f" "pkt_wf f" "visible f = udp_frame (if_mac j) from src dst sp dp payload" "length from = 6" "length payload \<le> 65507"
  shows "\<exists>w2 q. net_frame w w2 \<and> w_scheds w2 = w_scheds w \<and> pkt_at c w2 = Some q \<and> pkt_wf q \<and> visible q = payload \<and>
    ethernet_receive_event (call_rx_handler apps) (rx_event at a b c h x) ctx w = call_recv_handler apps fn b src sp c fctx w2"
proof -
  let ?h = "new_ip_header src dst IPPROTO_UDP (length (datagram sp dp payload))"
  have nn: "b \<noteq> NULL" "c \<noteq> NULL" using assms(1,14) by (auto dest: iface_at_nonnull pkt_at_nonnull)
  have v: "visible f = EthernetHeader (if_mac j) from ETHERTYPE_IPV4 @ ip_bytes ?h @ datagram sp dp payload" by (simp add: assms(16) udp_frame_def)
  note hf = header_fields [OF assms(3,17), where g = "ip_bytes ?h @ datagram sp dp payload" and ty = ETHERTYPE_IPV4, folded v]
  let ?i1 = "j\<lparr>if_rx_bytes := if_rx_bytes j + of_nat (pkt_len f - 14)\<rparr>"
  have "14 \<le> pkt_len f" using length_visible [OF assms(15)] v assms(3,17) by (simp add: EthernetHeader_def)
  moreover have "accepts j (visible f)" using hf(1) assms(3) by (simp add: accepts_def)
  ultimately obtain f1 where e: "pkt_wf f1" "visible f1 = ip_bytes ?h @ datagram sp dp payload"
    "ethernet_receive b c True w = Some (0, Some ETHERTYPE_IPV4, pkt_put c f1 (iface_put b ?i1 w))"
    using ethernet_takes [OF assms(1,14,15,2)] hf by auto
  let ?w1 = "pkt_put c f1 (iface_put b ?i1 w)" and ?i2 = "?i1\<lparr>if_last_rx_time := at\<rparr>"
  let ?w2 = "iface_put b ?i2 ?w1"
  have at2: "iface_at b ?w2 = Some ?i2" "pkt_at c ?w2 = Some f1" using nn by simp_all
  have now: "simulator_now sim ?w2 = Some now" "stack_at st ?w2 = Some s" using assms(6,8) by simp_all
  let ?i3 = "?i2\<lparr>if_rx_bytes := if_rx_bytes ?i2 + of_nat (pkt_len f1), if_last_rx_time := (if sim = NULL then 0 else now)\<rparr>"
  let ?w3 = "pkt_put c (ip_taken f1) (iface_put b ?i3 ?w2)"
  have r: "ip_receive (call_ip_protocol apps) b c ETHERTYPE_IPV4 (VStack st) ?w2 = call_ip_protocol apps Ip_udp_receive b c (VUdpCtx uc) ?w3"
    using ip_received [OF at2(2) e(1,2) at2(1) now(2) assms(7) now(1), of "call_ip_protocol apps" ETHERTYPE_IPV4] assms(9) by (simp add: Let_def)
  note q = ip_taken_view [OF e(1,2)]
  have ib: "ip_before (ip_taken f1) = Some (ip_bytes ?h)" using q(4) by (simp add: ip_before_def IP_HDR_LEN_def pkt_read_def ip_taken_def)
  have core: "iface_core ?i1 = iface_core j" "iface_core ?i2 = iface_core ?i1" "iface_core ?i3 = iface_core ?i2" by (simp_all add: iface_core_def)
  have f1: "net_frame w ?w1" by (rule net_frame_trans [OF net_frame_iface [OF assms(1) core(1)]]) simp
  have f2: "net_frame w ?w2" by (rule net_frame_trans [OF f1 net_frame_iface [of b _ ?i1]]) (use nn core(2) in simp_all)
  have f3: "net_frame w ?w3" by (rule net_frame_trans [OF net_frame_trans [OF f2 net_frame_iface [OF at2(1) core(3)]]]) simp
  note u = net_frame_udp(2,3) [OF f3]
  have "udp_ctx_at uc ?w3 = Some u" "udp_at (uc_state u) ?w3 = Some us" "pkt_at c ?w3 = Some (ip_taken f1)" using assms(10,11) u nn by simp_all
  from udp_datagram [OF this(1) refl this(2) assms(12) nn(1) this(3) q(1,3) ib, of sp dp payload "call_recv_handler apps"] obtain q2 where
    d: "visible q2 = payload" "pkt_wf q2" "udp_receive (call_recv_handler apps) b c (VUdpCtx uc) ?w3 =
      do { w \<leftarrow> call_recv_handler apps fn b src sp c fctx (pkt_put c q2 ?w3); Some (0, w) }"
    using q(2) assms(13,18) by (auto simp: new_ip_header_fields datagram_def)
  have "ethernet_receive_event (call_rx_handler apps) (rx_event at a b c h x) ctx w = call_recv_handler apps fn b src sp c fctx (pkt_put c q2 ?w3)"
    using nn at2 e(3) r d(3) assms(4,5)
    by (simp add: ethernet_receive_event_def rx_event_def as_iface_def iface_upd_def call_rx_handler_def ip_rx_shim_def call_ip_protocol_def)
  moreover have "net_frame w (pkt_put c q2 ?w3)" by (rule net_frame_trans [OF f3]) simp
  moreover have "w_scheds (pkt_put c q2 ?w3) = w_scheds w" by (simp add: pkt_put_def iface_put_def)
  moreover have "pkt_at c (pkt_put c q2 ?w3) = Some q2" using nn by simp
  ultimately show ?thesis using d(1,2) by blast
qed

section \<open>From end to end\<close>

lemma simulator_now_same: "net_frame w w' \<Longrightarrow> w_scheds w' = w_scheds w \<Longrightarrow> simulator_now sim w' = simulator_now sim w"
  by (simp add: simulator_now_def net_frame_sim sched_at_def cong: if_cong)

text \<open>Interface \<open>a\<close> is the one of \<open>src\<close> and knows the address \<open>mac\<close> of \<open>dst\<close> on its own subnet.\<close>

definition can_reach :: "'a ip_world_scheme \<Rightarrow> addr \<Rightarrow> u32 \<Rightarrow> u32 \<Rightarrow> addr \<Rightarrow> bytes \<Rightarrow> bool" where
  "can_reach w sim src dst a mac \<longleftrightarrow> ip_find_source_iface sim src w = Some a \<and> ip_is_multicast dst = 0 \<and>
     (\<exists>i c. iface_at a w = Some i \<and> cache_at (if_arp_cache i) w = Some c \<and> arp_cache_lookup (Some c) dst True = (0, Some mac) \<and>
        ip_same_subnet (ns_ntohl (if_ip_addr i)) dst (if_prefix_len i))"

lemma reception_step:
  assumes "on_wire w sim a b now at f" "sim_at sim w = Some m"
    and "\<And>c q w1. net_frame w w1 \<Longrightarrow> simulator_now sim w1 = Some (max now at) \<Longrightarrow> pkt_at c w1 = Some q \<Longrightarrow> pkt_wf q \<Longrightarrow> visible q = f \<Longrightarrow>
      \<exists>w2. net_frame w1 w2 \<and> w_scheds w2 = w_scheds w1 \<and> P c w2 \<and>
        ethernet_receive_event (call_rx_handler apps) (rx_event at a b c Cb_ethernet_receive_event (VSim sim)) (VSim sim) w1 = g c w2"
  shows "\<exists>c w2. net_frame w w2 \<and> simulator_now sim w2 = Some (max now at) \<and> P c w2 \<and>
    scheduler_step (call_event apps) (sim_sched m) w = do { w \<leftarrow> g c w2; Some (1, w) }"
proof -
  obtain sch c q where s: "net_wf sim w" "sched_at (sim_sched m) w = Some sch" "sch_now sch = now"
    "eq_list (sch_eq sch) = [rx_event at a b c Cb_ethernet_receive_event (VSim sim)]" "pkt_at c w = Some q" "pkt_wf q" "visible q = f"
    using assms(1,2) unfolding on_wire_def by auto
  have wf: "queue_wf (sch_eq sch)" using s(1,2) assms(2) by (auto simp: net_wf_def sim_ready_def sched_wf_def)
  obtain eq where p: "event_queue_pop (sch_eq sch) = Some (Some (rx_event at a b c Cb_ethernet_receive_event (VSim sim)), eq)"
    using event_queue_pop_wf [OF wf s(4)] by blast
  let ?sch = "sch\<lparr>sch_eq := eq, sch_now := max now at\<rparr>"
  let ?w1 = "sched_put (sim_sched m) ?sch w"
  have nn: "sim \<noteq> NULL" "sim_sched m \<noteq> NULL" using assms(2) s(2) by (auto dest: sim_at_nonnull sched_at_nonnull)
  have f: "net_frame w ?w1" by (rule net_frame_sched) simp
  have n: "simulator_now sim ?w1 = Some (max now at)" using nn net_frame_sim [OF f] assms(2) by (simp add: simulator_now_def)
  have "pkt_at c ?w1 = Some q" using s(5) by (simp add: pkt_at_def sched_put_def split: if_splits)
  from assms(3) [OF f n this s(6,7)] obtain w2 where w2: "net_frame ?w1 w2" "w_scheds w2 = w_scheds ?w1" "P c w2"
    "ethernet_receive_event (call_rx_handler apps) (rx_event at a b c Cb_ethernet_receive_event (VSim sim)) (VSim sim) ?w1 = g c w2" by blast
  have n2: "simulator_now sim w2 = Some (max now at)"
    using n simulator_now_same [OF w2(1,2)] by simp
  have h: "handler_of (rx_event at a b c Cb_ethernet_receive_event (VSim sim)) x = Some (Cb_ethernet_receive_event, VSim sim)" for x
    by (simp add: handler_of_def rx_event_def)
  have "evt_timestamp (rx_event at a b c Cb_ethernet_receive_event (VSim sim)) = at" by (simp add: rx_event_def)
  moreover from this have mx: "(if now < at then evt_timestamp (rx_event at a b c Cb_ethernet_receive_event (VSim sim)) else sch_now sch) = max now at"
    using s(3) by (auto simp: max_def)
  ultimately have "scheduler_step (call_event apps) (sim_sched m) w = do { w \<leftarrow> g c w2; Some (1, w) }"
    using s(2,3) p h w2(4) by (simp add: scheduler_step_def call_event_def Let_def mx split del: if_split)
  then show ?thesis using n2 w2(3) net_frame_trans [OF f w2(1)] by blast
qed

text \<open>C4. A datagram between two hosts on a link. When the address of the neighbour is resolved, \<open>udp_send\<close> succeeds, and the next
  step of the scheduler is the delivery of the datagram: the clock stands at the time of sending plus the delay of the link, and exactly the
  handler that the receiving host bound to the destination port is called, with the address and the port of the sender and
  with exactly the bytes that were sent.\<close>

theorem datagram_delivered:
  assumes "idle_net w sim now" "wired w a b delay" "sim_at sim w = Some m" "iface_at b w = Some j" "can_reach w sim src dst a (if_mac j)"
    and "host_wf w host" "host_at host w = Some h" "ho_sim h = sim" "dev_at host w = Some d" "b \<in> set (dev_interfaces d)"
    and "udp_at (ho_udp_state h) w = Some u" "udp_map u dp = Some (fn, fctx)" "dp \<noteq> 0" "length payload \<le> 65507"
  shows "\<exists>w1 w2 c q. udp_send sim src dst sp dp (Some payload) (length payload) w = Some (0, w1) \<and>
    scheduler_step (call_event apps) (sim_sched m) w1 = do { w \<leftarrow> call_recv_handler apps fn b src sp c fctx w2; Some (1, w) } \<and>
    pkt_at c w2 = Some q \<and> visible q = payload \<and> simulator_now sim w2 = Some (max now (now + delay)) \<and> net_frame w w2"
proof -
  have macs: "length (if_mac x) = 6" if "iface_at y w = Some x" for x y using assms(1) that by (auto simp: idle_net_def net_wf_def attached_def)
  obtain i c0 where i: "ip_find_source_iface sim src w = Some a" "ip_is_multicast dst = 0" "iface_at a w = Some i" "cache_at (if_arp_cache i) w = Some c0"
    "arp_cache_lookup (Some c0) dst True = (0, Some (if_mac j))" "ip_same_subnet (ns_ntohl (if_ip_addr i)) dst (if_prefix_len i)"
    using assms(5) unfolding can_reach_def by blast
  obtain w1 where w1: "udp_send sim src dst sp dp (Some payload) (length payload) w = Some (0, w1)" "net_frame w w1"
    "on_wire w1 sim a b now (now + delay) (udp_frame (if_mac j) (if_mac i) src dst sp dp payload)"
    using udp_sent [OF assms(1,2) i(3,1,4,5) macs [OF assms(4)] i(6,2) assms(13,14)] by blast
  have j: "if_state j = IFACE_OK" "if_rx_handler j = Rx_ip_rx_shim" "if_handler_ctx j = VStack (ho_ip_stack h)"
    using assms(2,4,6,7,9,10) by (auto simp: wired_def host_wf_def)
  obtain s where s: "stack_at (ho_ip_stack h) w = Some s" "st_sim s = sim" "udp_wf u"
    "st_protocols s ! unat IPPROTO_UDP = \<lparr>pe_handler = Ip_udp_receive, pe_ctx = VUdpCtx (ho_udp_context h)\<rparr>"
    "udp_ctx_at (ho_udp_context h) w = Some \<lparr>uc_sim = sim, uc_state = ho_udp_state h\<rparr>" using assms(6,7,8,11) by (auto simp: host_wf_def)
  have "\<exists>c w2. net_frame w1 w2 \<and> simulator_now sim w2 = Some (max now (now + delay)) \<and> (\<exists>q. pkt_at c w2 = Some q \<and> visible q = payload) \<and>
    scheduler_step (call_event apps) (sim_sched m) w1 = do { w \<leftarrow> call_recv_handler apps fn b src sp c fctx w2; Some (1, w) }"
  proof (rule reception_step [OF w1(3)])
    show "sim_at sim w1 = Some m" using assms(3) net_frame_sim [OF w1(2)] by simp
  next
    fix c q v assume v: "net_frame w1 v" "simulator_now sim v = Some (max now (now + delay))" "pkt_at c v = Some q" "pkt_wf q"
      "visible q = udp_frame (if_mac j) (if_mac i) src dst sp dp payload"
    note f = net_frame_trans [OF w1(2) v(1)]
    obtain k where k: "iface_at b v = Some k" "iface_core k = iface_core j" by (rule net_frame_iface_at [OF f assms(4)])
    note core = iface_coreD [OF k(2)]
    from datagram_received [OF k(1), of "ho_ip_stack h" s sim "max now (now + delay)" "ho_udp_context h" _ u dp fn fctx c q "if_mac i" src dst sp payload
        apps "now + delay" a Cb_ethernet_receive_event "VSim sim" "VSim sim"]
    show "\<exists>w2. net_frame v w2 \<and> w_scheds w2 = w_scheds v \<and> (\<exists>q. pkt_at c w2 = Some q \<and> visible q = payload) \<and>
      ethernet_receive_event (call_rx_handler apps) (rx_event (now + delay) a b c Cb_ethernet_receive_event (VSim sim)) (VSim sim) v =
        call_recv_handler apps fn b src sp c fctx w2"
      using j s v core macs [OF i(3)] macs [OF assms(4)] net_frame_udp [OF f] assms(11,12,14) by auto
  qed
  then show ?thesis using w1(1) net_frame_trans [OF w1(2)] by blast
qed

section \<open>Instance\<close>

text \<open>Two hosts on a cable: the sender at 10.0.0.1, which knows the address of the receiver at 10.0.0.20, and the receiver with a client on port 53.\<close>

definition demo_resolved :: ArpCache where
  "demo_resolved = \<lparr>ac_entries = \<lparr>ae_ip_addr = 0x0A000014, ae_mac_addr = [2, 0, 0, 0, 0, 2], ae_timestamp = 3, ae_valid = 1\<rparr> #
       replicate 255 zero_arp_entry, ac_count = 1, ac_pending = replicate ARP_MAX_PENDING_PACKETS zero_pending, ac_pending_count = 0\<rparr>"

definition demo_bound :: UdpState where
  "demo_bound = \<lparr>ud_sockets = \<lparr>us_port = 53, us_valid = 1, us_recv_handler = Udp_extern 9, us_ctx = VNull\<rparr> #
       replicate 31 \<lparr>us_port = 0, us_valid = 0, us_recv_handler = Udp_NULL, us_ctx = VNull\<rparr>, ud_count = 1\<rparr>"

definition demo_near :: Interface where
  "demo_near = demo_eth0\<lparr>if_ip_addr := ns_htonl 0x0A000001, if_device := 30, if_arp_cache := 30\<rparr>"

definition demo_far :: Interface where
  "demo_far = demo_eth1\<lparr>if_ip_addr := ns_htonl 0x0A000014, if_device := 50, if_arp_cache := 51, if_rx_handler := Rx_ip_rx_shim, if_handler_ctx := VStack 52\<rparr>"

definition demo_quiet :: Scheduler where
  "demo_quiet = demo_sched\<lparr>sch_eq := \<lparr>eq_events = replicate 4 None, eq_count = 0, eq_capacity = 4\<rparr>\<rparr>"

definition demo_peer_host :: Host where
  "demo_peer_host = \<lparr>ho_interfaces = 50, ho_sim = 7, ho_arp_cache = 51, ho_ip_stack = 52, ho_udp_state = 53, ho_udp_context = 54,
     ho_tcp_table = 55, ho_tcp_context = 56, ho_gateway_ip = 0\<rparr>"

definition demo_pair :: ospf_world where
  "demo_pair = demo_ospf_world\<lparr>w_pkts := Map.empty, w_scheds := [5 \<mapsto> demo_quiet], w_ifaces := [2 \<mapsto> demo_near, 3 \<mapsto> demo_far],
     w_devs := [30 \<mapsto> \<lparr>dev_name = ''H1'', dev_interfaces = [2], dev_iface_max = 8\<rparr>, 50 \<mapsto> \<lparr>dev_name = ''H2'', dev_interfaces = [3], dev_iface_max = 8\<rparr>],
     w_caches := [30 \<mapsto> demo_resolved, 51 \<mapsto> demo_arp_cache], w_stacks := [52 \<mapsto> host_stack 7 54 56],
     w_udps := [53 \<mapsto> demo_bound], w_udp_ctxs := [54 \<mapsto> \<lparr>uc_sim = 7, uc_state = 53\<rparr>],
     w_tcps := [55 \<mapsto> demo_tcp_table demo_listener], w_tcp_ctxs := [56 \<mapsto> \<lparr>tx_sim = 7, tx_table = 55\<rparr>], w_hosts := [50 \<mapsto> demo_peer_host]\<rparr>"

lemma demo_pair_parts:
  "pkt_at x demo_pair = None" "sched_at 5 demo_pair = Some demo_quiet" "iface_at 2 demo_pair = Some demo_near" "iface_at 3 demo_pair = Some demo_far"
  "dev_at 30 demo_pair = Some \<lparr>dev_name = ''H1'', dev_interfaces = [2], dev_iface_max = 8\<rparr>"
  "dev_at 50 demo_pair = Some \<lparr>dev_name = ''H2'', dev_interfaces = [3], dev_iface_max = 8\<rparr>"
  "cache_at 30 demo_pair = Some demo_resolved" "cache_at 51 demo_pair = Some demo_arp_cache" "stack_at 52 demo_pair = Some (host_stack 7 54 56)"
  "udp_at 53 demo_pair = Some demo_bound" "udp_ctx_at 54 demo_pair = Some \<lparr>uc_sim = 7, uc_state = 53\<rparr>"
  "tcp_at 55 demo_pair = Some (demo_tcp_table demo_listener)" "tcp_ctx_at 56 demo_pair = Some \<lparr>tx_sim = 7, tx_table = 55\<rparr>"
  "host_at 50 demo_pair = Some demo_peer_host"
  by (simp_all add: demo_pair_def pkt_at_def sched_at_def iface_at_def dev_at_def cache_at_def stack_at_def udp_at_def udp_ctx_at_def tcp_at_def tcp_ctx_at_def host_at_def)

lemma demo_pair_old:
  "sim_at 7 demo_pair = Some \<lparr>sim_topo = 8, sim_sched = 5, sim_end_time = 0\<rparr>" "link_at 6 demo_pair = Some demo_cable"
  "topo_at 8 demo_pair = Some \<lparr>tp_devices = [30], tp_dev_cap = 4, tp_links = [6], tp_link_cap = 4\<rparr>" "mem_oom (w_mem demo_pair) = []"
  by (simp_all add: demo_pair_def demo_ospf_world_def host_world.defs demo_host_world_def tcp_world.defs demo_tcp_world_def sim_at_def link_at_def topo_at_def)

lemma demo_pair_ifaces: "iface_at x demo_pair = (if x = 2 then Some demo_near else if x = 3 then Some demo_far else None)"
  by (simp add: demo_pair_def iface_at_def)

lemmas demo_ends = demo_near_def demo_far_def demo_eth0_def demo_eth1_def demo_iface_def

lemma demo_pair_idle: "idle_net demo_pair 7 4"
proof -
  have "sched_wf demo_quiet" by (simp add: sched_wf_def demo_quiet_def demo_sched_def queue_wf_def eq_list_def PTRDIFF_MAX_def)
  moreover have "attached demo_pair i" if "iface_at x demo_pair = Some i" for x i
  proof -
    have "length (if_mac i) = 6" "if_link i = 6" using that by (auto simp: demo_pair_ifaces demo_ends split: if_splits)
    then show ?thesis unfolding attached_def by (simp add: demo_pair_old) (simp add: demo_cable_def demo_pair_ifaces)
  qed
  ultimately show ?thesis unfolding idle_net_def net_wf_def heap_wf_def sim_ready_def
    by (simp add: demo_pair_parts demo_pair_old) (simp add: demo_quiet_def demo_sched_def eq_list_def PTRDIFF_MAX_def)
qed

lemma demo_pair_wired: "wired demo_pair 2 3 5"
proof -
  have "if_link demo_near = 6" "if_up demo_near = 1" "if_state demo_near = IFACE_OK" "if_up demo_far = 1" "if_state demo_far = IFACE_OK" by (simp_all add: demo_ends)
  then show ?thesis unfolding wired_def link_get_other_interface_def by (simp add: demo_pair_parts demo_pair_old) (simp add: demo_cable_def)
qed

lemma demo_pair_reach: "can_reach demo_pair 7 0x0A000001 0x0A000014 2 (if_mac demo_far)"
proof -
  have "if_arp_cache demo_near = 30" "ns_ntohl (if_ip_addr demo_near) = 0x0A000001" "if_prefix_len demo_near = 24" by (simp_all add: demo_ends)
  moreover have "arp_cache_lookup (Some demo_resolved) 0x0A000014 True = (0, Some (if_mac demo_far))"
    by (simp add: arp_cache_lookup_def demo_resolved_def demo_ends)
  moreover have "ip_same_subnet 0x0A000001 0x0A000014 24" "ip_is_multicast 0x0A000014 = 0"
    by (simp_all add: ip_same_subnet_def ipv4_prefix_mask_def ip_is_multicast_def IP_MULTICAST_MASK_def IP_MULTICAST_BASE_def)
  moreover have "ip_find_source_iface 7 0x0A000001 demo_pair = Some 2"
    by (simp add: ip_find_source_iface_def demo_pair_parts demo_pair_old) (simp add: demo_ends)
  ultimately show ?thesis unfolding can_reach_def by (simp add: demo_pair_parts)
qed

lemma demo_bound_wf: "udp_wf demo_bound" "udp_map demo_bound 53 = Some (Udp_extern 9, VNull)"
  by (auto simp: udp_wf_def demo_bound_def UDP_MAX_SOCKETS_def socks.live_count_def socks.unique_def nth_Cons udp_map_def socks.lookup_def
      socks.find_key_def split: nat.splits)

lemma demo_pair_host: "host_wf demo_pair 50"
proof -
  have "table_wf (demo_tcp_table demo_listener)" using demo_tcp_facts(1) by (rule tinvD)
  moreover have "if_device demo_far = 50" "if_arp_cache demo_far = 51" "if_rx_handler demo_far = Rx_ip_rx_shim" "if_handler_ctx demo_far = VStack 52"
    by (simp_all add: demo_ends)
  moreover have "st_sim (host_stack 7 54 56) = 7" "length (st_protocols (host_stack 7 54 56)) = 256"
    "st_protocols (host_stack 7 54 56) ! unat IPPROTO_ICMP = \<lparr>pe_handler = Ip_icmp_receive, pe_ctx = VSim 7\<rparr>"
    "st_protocols (host_stack 7 54 56) ! unat IPPROTO_UDP = \<lparr>pe_handler = Ip_udp_receive, pe_ctx = VUdpCtx 54\<rparr>"
    "st_protocols (host_stack 7 54 56) ! unat IPPROTO_TCP = \<lparr>pe_handler = Ip_tcp_receive, pe_ctx = VTcpCtx 56\<rparr>"
    by (simp_all add: host_stack_def IPPROTO_ICMP_def IPPROTO_UDP_def IPPROTO_TCP_def)
  ultimately show ?thesis using arp_init_wf(2) demo_bound_wf(1) unfolding host_wf_def dev_wf_def
    by (simp add: demo_pair_parts) (simp add: demo_peer_host_def demo_pair_parts HOST_MAX_PORTS_def)
qed

lemma datagram_delivered_witness:
  "\<exists>w1 w2 c q. udp_send 7 0x0A000001 0x0A000014 1000 53 (Some [1, 2, 3]) 3 demo_pair = Some (0, w1) \<and>
     scheduler_step (call_event discard_apps) 5 w1 = do { w \<leftarrow> packet_free c w2; Some (1, w) } \<and> pkt_at c w2 = Some q \<and> visible q = [1, 2, 3] \<and>
     simulator_now 7 w2 = Some 9"
proof -
  have u: "udp_at (ho_udp_state demo_peer_host) demo_pair = Some demo_bound" "ho_sim demo_peer_host = 7"
    by (simp_all add: demo_peer_host_def demo_pair_parts)
  have n: "(53 :: u16) \<noteq> 0" "length [1, 2, 3 :: u8] \<le> 65507" "max (4 :: u64) (4 + 5) = 9" "length [1, 2, 3 :: u8] = 3" by (simp_all add: max_def)
  have d: "3 \<in> set (dev_interfaces \<lparr>dev_name = ''H2'', dev_interfaces = [3], dev_iface_max = 8\<rparr>)" by simp
  have h: "call_recv_handler discard_apps (Udp_extern 9) x s p c VNull w2 = packet_free c w2" for x s p c w2 by (simp add: call_recv_handler_def discard_apps_def)
  from datagram_delivered [OF demo_pair_idle demo_pair_wired demo_pair_old(1) demo_pair_parts(4) demo_pair_reach demo_pair_host demo_pair_parts(14) u(2)
      demo_pair_parts(6) d u(1) demo_bound_wf(2) n(1,2), of 1000 discard_apps]
  show ?thesis unfolding n(3,4) h by auto
qed

end
