(* ===== verification/Trace.thy ===== *)
theory Trace
  imports Event
begin

text \<open>
  The trace log (\<open>engine/trace.h\<close>, \<open>engine/trace.c\<close>): validated records with consecutive sequence numbers
  in a growing array, and the capture of a packet into a record. Enumerations are the integers the C type
  holds, since \<open>trace_log_append\<close> checks for values outside of them; character arrays are their bytes.
  Slots of the array that \<open>realloc\<close> added are indeterminate (\<open>None\<close>) until they are written.
\<close>

section \<open>State\<close>

definition TRACE_ACTION_UNSPECIFIED :: int where "TRACE_ACTION_UNSPECIFIED = 0"
definition TRACE_EVENT_SCHEDULED :: int where "TRACE_EVENT_SCHEDULED = 1"
definition TRACE_EVENT_STARTED :: int where "TRACE_EVENT_STARTED = 2"
definition TRACE_EVENT_FINISHED :: int where "TRACE_EVENT_FINISHED = 3"
definition TRACE_PACKET_CREATED :: int where "TRACE_PACKET_CREATED = 4"
definition TRACE_PACKET_CLONED :: int where "TRACE_PACKET_CLONED = 5"
definition TRACE_PACKET_TX :: int where "TRACE_PACKET_TX = 6"
definition TRACE_PACKET_RX :: int where "TRACE_PACKET_RX = 7"
definition TRACE_PACKET_DROPPED :: int where "TRACE_PACKET_DROPPED = 8"
definition TRACE_HEADER_ADDED :: int where "TRACE_HEADER_ADDED = 9"
definition TRACE_HEADER_REMOVED :: int where "TRACE_HEADER_REMOVED = 10"
definition TRACE_ARP_LOOKUP :: int where "TRACE_ARP_LOOKUP = 11"
definition TRACE_MAC_LOOKUP :: int where "TRACE_MAC_LOOKUP = 16"
definition TRACE_IP_LOCAL_DELIVERY :: int where "TRACE_IP_LOCAL_DELIVERY = 19"
definition TRACE_ROUTE_LOOKUP :: int where "TRACE_ROUTE_LOOKUP = 20"
definition TRACE_TRANSPORT_DELIVERY :: int where "TRACE_TRANSPORT_DELIVERY = 23"
definition TRACE_TIMER_FIRED :: int where "TRACE_TIMER_FIRED = 25"
definition TRACE_ACTION_COUNT :: int where "TRACE_ACTION_COUNT = 27"

definition TRACE_NAME_LEN :: nat where "TRACE_NAME_LEN = 32"
definition TRACE_SUMMARY_LEN :: nat where "TRACE_SUMMARY_LEN = 128"
definition TRACE_PACKET_SNAPSHOT_MAX :: nat where "TRACE_PACKET_SNAPSHOT_MAX = 256"

definition TRACE_RESULT_FAILURE :: int where "TRACE_RESULT_FAILURE = - 1"
definition TRACE_RESULT_NONE :: int where "TRACE_RESULT_NONE = 0"
definition TRACE_RESULT_SUCCESS :: int where "TRACE_RESULT_SUCCESS = 1"

record TraceRecord =
  tr_timestamp :: u64
  tr_end_timestamp :: u64
  tr_event_timestamp :: u64
  tr_sequence :: u64
  tr_event_sequence :: u64
  tr_action :: int
  tr_event_type :: int
  tr_packet_id :: u32
  tr_trace_id :: u32
  tr_parent_packet_id :: u32
  tr_protocol :: u8
  tr_layer :: u8
  tr_result :: int
  tr_source_device :: bytes
  tr_source_iface :: bytes
  tr_destination_device :: bytes
  tr_destination_iface :: bytes
  tr_summary :: bytes
  tr_packet_length :: nat
  tr_snapshot_length :: nat
  tr_snapshot_truncated :: u8
  tr_snapshot :: bytes

record TraceLog =
  tl_records :: "TraceRecord option list option"
  tl_count :: nat
  tl_capacity :: nat
  tl_next_sequence :: u64
  tl_enabled :: int

text \<open>\<open>sizeof(TraceRecord)\<close> on an LP64 host: five 8-byte, two 4-byte and three 4-byte fields, two bytes, the
  4-byte result at offset 64, 256 bytes of text, two sizes at offset 328, and 257 bytes, padded to 8.\<close>

definition sizeof_TraceRecord :: nat where
  "sizeof_TraceRecord = 608"

definition zero_trace_record :: TraceRecord where
  "zero_trace_record = \<lparr>tr_timestamp = 0, tr_end_timestamp = 0, tr_event_timestamp = 0, tr_sequence = 0,
     tr_event_sequence = 0, tr_action = 0, tr_event_type = 0, tr_packet_id = 0, tr_trace_id = 0,
     tr_parent_packet_id = 0, tr_protocol = 0, tr_layer = 0, tr_result = 0,
     tr_source_device = replicate TRACE_NAME_LEN 0, tr_source_iface = replicate TRACE_NAME_LEN 0,
     tr_destination_device = replicate TRACE_NAME_LEN 0, tr_destination_iface = replicate TRACE_NAME_LEN 0,
     tr_summary = replicate TRACE_SUMMARY_LEN 0, tr_packet_length = 0, tr_snapshot_length = 0,
     tr_snapshot_truncated = 0, tr_snapshot = replicate TRACE_PACKET_SNAPSHOT_MAX 0\<rparr>"

section \<open>Operations\<close>

definition trace_log_create :: "nat \<Rightarrow> 'a pkt_world_scheme \<Rightarrow> TraceLog option \<times> 'a pkt_world_scheme" where
  "trace_log_create initial_capacity w =
     (if initial_capacity = 0 then (None, w)
      else if SIZE_MAX div sizeof_TraceRecord < initial_capacity then (None, w)
      else case alloc w of (t_log, w) \<Rightarrow>
        if t_log = NULL then (None, w)
        else case alloc_bytes (sizeof_TraceRecord * initial_capacity) w of (t_records, w) \<Rightarrow>
          if t_records = NULL then (None, w)
          else (Some \<lparr>tl_records = Some (replicate initial_capacity (Some zero_trace_record)), tl_count = 0,
                  tl_capacity = initial_capacity, tl_next_sequence = 1, tl_enabled = 1\<rparr>, w))"

definition trace_record_init :: "TraceRecord option \<Rightarrow> int \<Rightarrow> u64 \<Rightarrow> int \<times> TraceRecord option" where
  "trace_record_init r action timestamp = (case r of None \<Rightarrow> (- 1, None) | Some _ \<Rightarrow>
     if action \<le> TRACE_ACTION_UNSPECIFIED \<or> TRACE_ACTION_COUNT \<le> action then (- 1, r)
     else (0, Some (zero_trace_record\<lparr>tr_timestamp := timestamp, tr_end_timestamp := timestamp,
             tr_action := action, tr_event_type := int (evt_index EVT_TYPE_COUNT), tr_result := TRACE_RESULT_NONE\<rparr>)))"

text \<open>The state checks that the accessors share.\<close>

definition log_usable :: "TraceLog \<Rightarrow> bool" where
  "log_usable l \<longleftrightarrow> tl_records l \<noteq> None \<and> tl_capacity l \<noteq> 0 \<and> \<not> tl_capacity l < tl_count l"

definition trace_log_clear :: "TraceLog option \<Rightarrow> TraceLog option" where
  "trace_log_clear log = map_option (\<lambda>l. if log_usable l then l\<lparr>tl_count := 0, tl_next_sequence := 1\<rparr> else l) log"

definition trace_log_set_enabled :: "TraceLog option \<Rightarrow> int \<Rightarrow> TraceLog option" where
  "trace_log_set_enabled log enabled =
     map_option (\<lambda>l. if log_usable l then l\<lparr>tl_enabled := (if enabled \<noteq> 0 then 1 else 0)\<rparr> else l) log"

text \<open>The checks of \<open>trace_log_append\<close> on the record: times, action, event, layer and result, ...\<close>

definition trace_times_ok :: "TraceRecord \<Rightarrow> bool" where
  "trace_times_ok r \<longleftrightarrow> \<not> tr_end_timestamp r < tr_timestamp r \<and>
     \<not> (tr_action r \<le> TRACE_ACTION_UNSPECIFIED \<or> TRACE_ACTION_COUNT \<le> tr_action r) \<and>
     \<not> (tr_action r \<noteq> TRACE_PACKET_TX \<and> tr_end_timestamp r \<noteq> tr_timestamp r)"

definition trace_event_ok :: "TraceRecord \<Rightarrow> bool" where
  "trace_event_ok r \<longleftrightarrow>
     \<not> (tr_event_type r < int (evt_index EVT_PACKET_SEND) \<or> int (evt_index EVT_TYPE_COUNT) < tr_event_type r) \<and>
     (if tr_event_type r = int (evt_index EVT_TYPE_COUNT)
      then \<not> (tr_event_timestamp r \<noteq> 0 \<or> tr_event_sequence r \<noteq> 0)
      else tr_event_sequence r \<noteq> 0)"

definition trace_result_ok :: "TraceRecord \<Rightarrow> bool" where
  "trace_result_ok r \<longleftrightarrow> \<not> 4 < tr_layer r \<and>
     tr_result r \<in> {TRACE_RESULT_FAILURE, TRACE_RESULT_NONE, TRACE_RESULT_SUCCESS} \<and>
     (if tr_action r \<in> {TRACE_EVENT_STARTED, TRACE_EVENT_FINISHED, TRACE_TIMER_FIRED}
      then tr_result r = TRACE_RESULT_NONE
      else if tr_action r \<in> {TRACE_ARP_LOOKUP, TRACE_MAC_LOOKUP, TRACE_ROUTE_LOOKUP}
      then tr_result r \<in> {TRACE_RESULT_FAILURE, TRACE_RESULT_SUCCESS}
      else if tr_action r = TRACE_PACKET_DROPPED then tr_result r = TRACE_RESULT_FAILURE
      else tr_result r = TRACE_RESULT_SUCCESS)"

text \<open>... snapshot and packet identity.\<close>

definition trace_snapshot_ok :: "TraceRecord \<Rightarrow> bool" where
  "trace_snapshot_ok r \<longleftrightarrow>
     \<not> (TRACE_PACKET_SNAPSHOT_MAX < tr_snapshot_length r \<or> tr_packet_length r < tr_snapshot_length r) \<and>
     tr_snapshot_truncated r = (if tr_snapshot_length r < tr_packet_length r then 1 else 0)"

definition trace_packet_ok :: "TraceRecord \<Rightarrow> bool" where
  "trace_packet_ok r \<longleftrightarrow> \<not> (tr_packet_id r \<noteq> 0 \<and> tr_trace_id r = 0) \<and>
     \<not> (tr_parent_packet_id r \<noteq> 0 \<and> (tr_packet_id r = 0 \<or> tr_trace_id r = 0)) \<and>
     (if tr_action r \<in> {TRACE_EVENT_SCHEDULED, TRACE_EVENT_STARTED, TRACE_EVENT_FINISHED}
      then \<not> int (evt_index EVT_TYPE_COUNT) \<le> tr_event_type r
      else if tr_action r \<in> {TRACE_PACKET_CREATED, TRACE_PACKET_CLONED, TRACE_PACKET_TX, TRACE_PACKET_RX,
          TRACE_PACKET_DROPPED, TRACE_HEADER_ADDED, TRACE_HEADER_REMOVED, TRACE_IP_LOCAL_DELIVERY,
          TRACE_TRANSPORT_DELIVERY}
      then \<not> (tr_packet_id r = 0 \<or> tr_trace_id r = 0)
      else True)"

definition trace_record_ok :: "TraceRecord \<Rightarrow> bool" where
  "trace_record_ok r \<longleftrightarrow> trace_times_ok r \<and> trace_event_ok r \<and> trace_result_ok r \<and> trace_snapshot_ok r \<and> trace_packet_ok r"

text \<open>The stored copy: terminated strings and the sequence number of the log.\<close>

definition stored_copy :: "u64 \<Rightarrow> TraceRecord \<Rightarrow> TraceRecord" where
  "stored_copy n r = r\<lparr>tr_source_device := (tr_source_device r)[TRACE_NAME_LEN - 1 := 0],
     tr_source_iface := (tr_source_iface r)[TRACE_NAME_LEN - 1 := 0],
     tr_destination_device := (tr_destination_device r)[TRACE_NAME_LEN - 1 := 0],
     tr_destination_iface := (tr_destination_iface r)[TRACE_NAME_LEN - 1 := 0],
     tr_summary := (tr_summary r)[TRACE_SUMMARY_LEN - 1 := 0], tr_sequence := n\<rparr>"

text \<open>Growing a full log to twice its capacity; \<open>None\<close> as the first component when it is refused.\<close>

definition log_grow :: "TraceLog \<Rightarrow> 'a pkt_world_scheme \<Rightarrow> TraceLog option \<times> 'a pkt_world_scheme" where
  "log_grow l w =
     (if tl_count l = tl_capacity l
      then if SIZE_MAX div 2 < tl_capacity l then (None, w)
        else let new_capacity = tl_capacity l * 2 in
          if SIZE_MAX div sizeof_TraceRecord < new_capacity then (None, w)
          else case alloc_bytes (new_capacity * sizeof_TraceRecord) w of (new_records, w) \<Rightarrow>
            if new_records = NULL then (None, w)
            else (Some (l\<lparr>tl_records := map_option (\<lambda>rs. take new_capacity (rs @ replicate new_capacity None)) (tl_records l),
                    tl_capacity := new_capacity\<rparr>), w)
      else (Some l, w))"

definition trace_log_append :: "TraceLog option \<Rightarrow> TraceRecord option \<Rightarrow> 'a pkt_world_scheme \<Rightarrow>
    (int \<times> TraceLog option \<times> 'a pkt_world_scheme) option" where
  "trace_log_append log r w = (case (log, r) of
     (Some l, Some rec) \<Rightarrow>
       if tl_records l = None \<or> tl_capacity l = 0 \<or> tl_capacity l < tl_count l \<or>
          (tl_enabled l \<noteq> 0 \<and> tl_enabled l \<noteq> 1) \<or> tl_next_sequence l = 0 then Some (- 1, log, w)
       else if tl_enabled l = 0 then Some (0, log, w)
       else if \<not> trace_record_ok rec then Some (- 1, log, w)
       else if tl_next_sequence l = - 1 then Some (- 1, log, w)
       else (case log_grow l w of
         (None, w) \<Rightarrow> Some (- 1, log, w)
       | (Some l, w) \<Rightarrow> (case tl_records l of None \<Rightarrow> None | Some rs \<Rightarrow>
           if tl_count l < length rs
           then Some (0, Some (l\<lparr>tl_records := Some (rs[tl_count l := Some (stored_copy (tl_next_sequence l) rec)]),
                  tl_next_sequence := tl_next_sequence l + 1, tl_count := tl_count l + 1\<rparr>), w)
           else None))
   | _ \<Rightarrow> Some (- 1, log, w))"

definition trace_log_count :: "TraceLog option \<Rightarrow> nat" where
  "trace_log_count log = (case log of None \<Rightarrow> 0 | Some l \<Rightarrow> if log_usable l then tl_count l else 0)"

definition trace_log_get :: "TraceLog option \<Rightarrow> nat \<Rightarrow> TraceRecord option option" where
  "trace_log_get log index = (case log of None \<Rightarrow> Some None | Some l \<Rightarrow>
     if \<not> log_usable l \<or> tl_count l \<le> index then Some None
     else (case tl_records l of None \<Rightarrow> None | Some rs \<Rightarrow>
       if index < length rs then map_option Some (rs ! index) else None))"

definition trace_record_capture_packet :: "TraceRecord option \<Rightarrow> Packet option \<Rightarrow> (int \<times> TraceRecord option) option" where
  "trace_record_capture_packet r pkt = (case r of None \<Rightarrow> Some (- 1, None) | Some rec \<Rightarrow>
     let rec = rec\<lparr>tr_packet_id := 0, tr_trace_id := 0, tr_parent_packet_id := 0, tr_layer := 0, tr_packet_length := 0,
           tr_snapshot_length := 0, tr_snapshot_truncated := 0, tr_snapshot := replicate TRACE_PACKET_SNAPSHOT_MAX 0\<rparr> in
     case pkt of None \<Rightarrow> Some (0, Some rec) | Some p \<Rightarrow>
       if packet_validate_view pkt 0 0 \<noteq> 0 then Some (- 1, Some rec)
       else if pkt_id p = 0 \<or> pkt_trace_id p = 0 then Some (- 1, Some rec)
       else if pkt_layer p < 0 \<or> 4 < pkt_layer p then Some (- 1, Some rec)
       else do {
         let n = (if pkt_len p < TRACE_PACKET_SNAPSHOT_MAX then pkt_len p else TRACE_PACKET_SNAPSHOT_MAX);
         bs \<leftarrow> pkt_read p 0 n;
         Some (0, Some (rec\<lparr>tr_packet_id := pkt_id p, tr_trace_id := pkt_trace_id p,
           tr_parent_packet_id := pkt_parent_id p, tr_layer := of_int (pkt_layer p), tr_packet_length := pkt_len p,
           tr_snapshot_length := n, tr_snapshot := bs @ drop n (tr_snapshot rec),
           tr_snapshot_truncated := (if n < pkt_len p then 1 else 0)\<rparr>))
       })"

section \<open>Well-formed logs\<close>

definition trace_seen :: "TraceLog \<Rightarrow> TraceRecord list" where
  "trace_seen l = (case tl_records l of None \<Rightarrow> [] | Some rs \<Rightarrow> List.map_filter id (take (tl_count l) rs))"

definition terminated :: "TraceRecord \<Rightarrow> bool" where
  "terminated r \<longleftrightarrow> (\<forall>n \<in> set [tr_source_device r, tr_source_iface r, tr_destination_device r, tr_destination_iface r].
      length n = TRACE_NAME_LEN \<longrightarrow> n ! (TRACE_NAME_LEN - 1) = 0) \<and>
    (length (tr_summary r) = TRACE_SUMMARY_LEN \<longrightarrow> tr_summary r ! (TRACE_SUMMARY_LEN - 1) = 0)"

text \<open>Every slot below \<open>count\<close> holds a validated record with terminated strings; the sequence numbers count
  from one without gaps, and the next one is free.\<close>

definition log_wf :: "TraceLog \<Rightarrow> bool" where
  "log_wf l \<longleftrightarrow> (\<exists>rs. tl_records l = Some rs \<and> length rs = tl_capacity l \<and>
      (\<forall>i < tl_count l. \<exists>r. rs ! i = Some r)) \<and>
    tl_capacity l \<noteq> 0 \<and> tl_count l \<le> tl_capacity l \<and> tl_enabled l \<in> {0, 1} \<and>
    unat (tl_next_sequence l) = Suc (tl_count l) \<and>
    (\<forall>i < tl_count l. unat (tr_sequence (trace_seen l ! i)) = Suc i \<and>
       trace_record_ok (trace_seen l ! i) \<and> terminated (trace_seen l ! i))"

lemma map_filter_id_Some: "(\<forall>x \<in> set xs. x \<noteq> None) \<Longrightarrow> List.map_filter id xs = map the xs"
  by (induction xs) (auto simp: List.map_filter_simps)

lemma trace_seen_take:
  "tl_records l = Some rs \<Longrightarrow> length rs = tl_capacity l \<Longrightarrow> tl_count l \<le> tl_capacity l \<Longrightarrow>
   \<forall>i < tl_count l. \<exists>r. rs ! i = Some r \<Longrightarrow> trace_seen l = map the (take (tl_count l) rs)"
  by (auto simp: trace_seen_def in_set_conv_nth intro!: map_filter_id_Some)

lemma log_wf_usable: "log_wf l \<Longrightarrow> log_usable l"
  by (auto simp: log_wf_def log_usable_def)

lemma length_trace_seen: "log_wf l \<Longrightarrow> length (trace_seen l) = tl_count l"
  by (auto simp: log_wf_def trace_seen_take)

lemmas trace_record_checks = trace_record_ok_def trace_times_ok_def trace_event_ok_def trace_result_ok_def
  trace_snapshot_ok_def trace_packet_ok_def

lemma stored_copy_sequence [simp]: "tr_sequence (stored_copy n r) = n"
  by (simp add: stored_copy_def)

lemma stored_copy_keeps:
  "tr_timestamp (stored_copy n r) = tr_timestamp r" "tr_end_timestamp (stored_copy n r) = tr_end_timestamp r"
  "tr_event_timestamp (stored_copy n r) = tr_event_timestamp r" "tr_event_sequence (stored_copy n r) = tr_event_sequence r"
  "tr_action (stored_copy n r) = tr_action r" "tr_event_type (stored_copy n r) = tr_event_type r"
  "tr_packet_id (stored_copy n r) = tr_packet_id r" "tr_trace_id (stored_copy n r) = tr_trace_id r"
  "tr_parent_packet_id (stored_copy n r) = tr_parent_packet_id r" "tr_layer (stored_copy n r) = tr_layer r"
  "tr_result (stored_copy n r) = tr_result r" "tr_packet_length (stored_copy n r) = tr_packet_length r"
  "tr_snapshot_length (stored_copy n r) = tr_snapshot_length r"
  "tr_snapshot_truncated (stored_copy n r) = tr_snapshot_truncated r"
  by (simp_all add: stored_copy_def)

lemma stored_copy_ok [simp]: "trace_record_ok (stored_copy n r) = trace_record_ok r"
  by (simp only: trace_record_checks stored_copy_keeps)

lemma terminated_stored_copy [simp]: "terminated (stored_copy n r)"
  by (simp add: terminated_def stored_copy_def TRACE_NAME_LEN_def TRACE_SUMMARY_LEN_def)

lemma log_grow_cases:
  assumes "log_grow l w = (g, w')" "log_wf l"
  shows "case g of None \<Rightarrow> tl_count l = tl_capacity l
    | Some l' \<Rightarrow> log_wf l' \<and> trace_seen l' = trace_seen l \<and> tl_count l' < tl_capacity l' \<and>
        tl_count l' = tl_count l \<and> tl_next_sequence l' = tl_next_sequence l \<and> tl_enabled l' = tl_enabled l"
proof (cases "tl_count l = tl_capacity l \<and> g \<noteq> None")
  case False
  then show ?thesis using assms
    by (auto simp: log_grow_def log_wf_def Let_def split: if_splits option.splits prod.splits)
next
  case True
  from assms(2) obtain rs where rs: "tl_records l = Some rs" "length rs = tl_capacity l"
    "\<forall>i < tl_count l. \<exists>r. rs ! i = Some r" "tl_capacity l \<noteq> 0" by (auto simp: log_wf_def)
  let ?n = "tl_capacity l * 2"
  let ?rs = "rs @ replicate (tl_capacity l) None"
  let ?l = "l\<lparr>tl_records := Some ?rs, tl_capacity := ?n\<rparr>"
  have "take ?n (rs @ replicate ?n None) = ?rs" using rs by (simp add: mult_2_right)
  then have g: "g = Some ?l" using True assms(1) rs
    by (auto simp: log_grow_def Let_def split: if_splits prod.splits)
  have seen: "trace_seen ?l = trace_seen l" using rs True by (simp add: trace_seen_def)
  have "log_wf ?l" using assms(2) rs True unfolding log_wf_def seen by (auto simp: nth_append)
  with g seen rs True show ?thesis by simp
qed

lemma trace_append_store:
  assumes "log_wf l" "tl_records l = Some rs" "tl_count l < tl_capacity l" "trace_record_ok r"
    "tl_next_sequence l \<noteq> - 1"
  defines "l' \<equiv> l\<lparr>tl_records := Some (rs[tl_count l := Some (stored_copy (tl_next_sequence l) r)]),
      tl_next_sequence := tl_next_sequence l + 1, tl_count := tl_count l + 1\<rparr>"
  shows "log_wf l'" and "trace_seen l' = trace_seen l @ [stored_copy (tl_next_sequence l) r]"
proof -
  let ?c = "tl_count l" and ?e = "stored_copy (tl_next_sequence l) r"
  from assms have rs: "length rs = tl_capacity l" "\<forall>i < ?c. \<exists>r. rs ! i = Some r" by (auto simp: log_wf_def)
  have defd: "\<forall>i < Suc ?c. \<exists>x. rs[?c := Some ?e] ! i = Some x"
    using rs assms(3) by (auto simp: less_Suc_eq nth_list_update)
  have old: "trace_seen l = map the (take ?c rs)" using trace_seen_take assms rs by auto
  have new: "trace_seen l' = map the (take (Suc ?c) (rs[?c := Some ?e]))"
    using trace_seen_take [of l' "rs[?c := Some ?e]"] defd rs assms(3) by (simp add: l'_def)
  show seen: "trace_seen l' = trace_seen l @ [?e]"
    using new old rs assms(3) by (simp add: take_Suc_conv_app_nth)
  have "unat (tl_next_sequence l + 1) = Suc (unat (tl_next_sequence l))"
    using assms(5) by (metis add.commute add_eq_0_iff unatSuc)
  then have seq: "unat (tl_next_sequence l') = Suc (Suc ?c)" "unat (tl_next_sequence l) = Suc ?c"
    using assms(1) by (simp_all add: l'_def log_wf_def)
  have len: "length (trace_seen l) = ?c" by (rule length_trace_seen [OF assms(1)])
  have "\<forall>i < Suc ?c. unat (tr_sequence (trace_seen l' ! i)) = Suc i \<and>
      trace_record_ok (trace_seen l' ! i) \<and> terminated (trace_seen l' ! i)"
    using assms(1,4) len seq unfolding seen log_wf_def by (auto simp: less_Suc_eq nth_append)
  then show "log_wf l'"
    using assms(1,3) defd rs seq(1) unfolding log_wf_def by (auto simp: l'_def)
qed

lemma trace_log_append_outcome:
  assumes "log_wf l"
  shows "\<exists>rc l' w'. trace_log_append (Some l) (Some r) w = Some (rc, Some l', w') \<and> rc \<in> {0, - 1} \<and> log_wf l' \<and>
    trace_seen l' = trace_seen l @
      (if rc = 0 \<and> tl_enabled l = 1 then [stored_copy (of_nat (Suc (tl_count l))) r] else []) \<and>
    (rc = 0 \<and> tl_enabled l = 1 \<longrightarrow> trace_record_ok r) \<and>
    (rc = - 1 \<longrightarrow> \<not> trace_record_ok r \<or> tl_count l = tl_capacity l \<or> tl_count l = 2 ^ 64 - 2)"
proof -
  have u: "unat (tl_next_sequence l) = Suc (tl_count l)" using assms by (simp add: log_wf_def)
  then have seq: "tl_next_sequence l = of_nat (Suc (tl_count l))" by (metis of_nat_unat ucast_id)
  then have seq': "1 + of_nat (tl_count l) = tl_next_sequence l" by simp
  have st: "tl_records l \<noteq> None" "tl_capacity l \<noteq> 0" "\<not> tl_capacity l < tl_count l" "tl_enabled l = 0 \<or> tl_enabled l = 1"
      "tl_next_sequence l \<noteq> 0"
    using assms u by (auto simp: log_wf_def)
  have last: "tl_next_sequence l = - 1 \<Longrightarrow> tl_count l = 2 ^ 64 - 2"
    using u by (simp add: unsigned_minus_1_eq_mask mask_eq_exp_minus_1)
  show ?thesis
  proof (cases "tl_enabled l = 1 \<and> trace_record_ok r \<and> tl_next_sequence l \<noteq> - 1")
    case False
    then show ?thesis using st assms last by (auto simp: trace_log_append_def)
  next
    case True
    obtain g w1 where g: "log_grow l w = (g, w1)" by fastforce
    note gc = log_grow_cases [OF g assms]
    show ?thesis
    proof (cases g)
      case None
      then show ?thesis using gc g True st assms by (auto simp: trace_log_append_def)
    next
      case (Some l1)
      with gc obtain rs where l1: "log_wf l1" "tl_records l1 = Some rs" "length rs = tl_capacity l1"
        "tl_count l1 < tl_capacity l1" "trace_seen l1 = trace_seen l" "tl_next_sequence l1 = tl_next_sequence l"
        by (auto simp: log_wf_def)
      from trace_append_store [OF l1(1,2,4), of r] show ?thesis
        using g Some True st l1 by (auto simp: trace_log_append_def seq')
    qed
  qed
qed


lemma trace_log_create_wf: "trace_log_create c w = (Some l, w') \<Longrightarrow> log_wf l \<and> trace_seen l = []"
  by (auto simp: trace_log_create_def log_wf_def trace_seen_def List.map_filter_simps split: if_splits prod.splits)

lemma trace_log_clear_wf: "log_wf l \<Longrightarrow> \<exists>l'. trace_log_clear (Some l) = Some l' \<and> log_wf l' \<and> trace_seen l' = []"
  by (auto simp: trace_log_clear_def log_wf_usable) (auto simp: log_wf_def trace_seen_def List.map_filter_simps)

lemma trace_log_set_enabled_wf:
  "log_wf l \<Longrightarrow> \<exists>l'. trace_log_set_enabled (Some l) e = Some l' \<and> log_wf l' \<and> trace_seen l' = trace_seen l"
  by (auto simp: trace_log_set_enabled_def log_wf_usable) (auto simp: log_wf_def trace_seen_def)

lemma trace_log_get_seen:
  assumes "log_wf l"
  shows "trace_log_get (Some l) i = Some (if i < tl_count l then Some (trace_seen l ! i) else None)"
proof -
  from assms obtain rs where rs: "tl_records l = Some rs" "length rs = tl_capacity l"
    "\<forall>i < tl_count l. \<exists>r. rs ! i = Some r" "tl_count l \<le> tl_capacity l" by (auto simp: log_wf_def)
  with assms show ?thesis
    by (auto simp: trace_log_get_def log_wf_usable trace_seen_take map_option_case dest!: spec [of _ i])
qed

section \<open>Packet capture\<close>

text \<open>\<open>trace_record_capture_packet\<close> on a well-formed packet with identifiers and a layer of the stack
  succeeds: the record takes the packet's identity and length, its snapshot holds the first 256 visible bytes with
  zeros after them, and the snapshot, truncation and identity checks of \<open>trace_log_append\<close> accept it.\<close>

theorem capture_packet_correct:
  assumes "pkt_wf p" "pkt_id p \<noteq> 0" "pkt_trace_id p \<noteq> 0" "0 \<le> pkt_layer p" "pkt_layer p \<le> 4"
  shows "\<exists>r'. trace_record_capture_packet (Some r) (Some p) = Some (0, Some r') \<and>
    tr_packet_id r' = pkt_id p \<and> tr_trace_id r' = pkt_trace_id p \<and> tr_parent_packet_id r' = pkt_parent_id p \<and>
    tr_packet_length r' = pkt_len p \<and> int (unat (tr_layer r')) = pkt_layer p \<and>
    take (tr_snapshot_length r') (tr_snapshot r') = take 256 (visible p) \<and>
    length (tr_snapshot r') = 256 \<and> set (drop (tr_snapshot_length r') (tr_snapshot r')) \<subseteq> {0} \<and>
    trace_snapshot_ok r' \<and> (tr_action r = TRACE_PACKET_RX \<longrightarrow> trace_packet_ok r') \<and>
    tr_action r' = tr_action r"
proof -
  let ?n = "if pkt_len p < 256 then pkt_len p else 256"
  have "packet_validate_view (Some p) 0 0 = 0" using assms(1)
    by (auto simp: packet_validate_view_def pkt_wf_def PKT_HEADROOM_def Let_def)
  moreover have "pkt_read p 0 ?n = Some (take ?n (visible p))" using pkt_read_within [OF assms(1), of 0 ?n] by simp
  moreover have layer: "int (unat (of_int (pkt_layer p) :: u8)) = pkt_layer p"
    using assms(4,5) by (simp add: unat_eq_nat_uint uint_word_of_int_eq take_bit_int_eq_self)
  moreover have "take ?n (visible p) = take 256 (visible p)" using assms(1) by auto
  moreover have "length (take 256 (visible p)) = ?n" using assms(1) by auto
  moreover define r' where "r' = r\<lparr>tr_packet_id := pkt_id p, tr_trace_id := pkt_trace_id p,
     tr_parent_packet_id := pkt_parent_id p, tr_layer := of_int (pkt_layer p), tr_packet_length := pkt_len p,
     tr_snapshot_length := ?n, tr_snapshot_truncated := (if ?n < pkt_len p then 1 else 0),
     tr_snapshot := take ?n (visible p) @ replicate (256 - ?n) 0\<rparr>"
  ultimately have 1: "trace_record_capture_packet (Some r) (Some p) = Some (0, Some r')"
    using assms(2-5) by (cases "pkt_len p < 256")
      (simp_all add: trace_record_capture_packet_def TRACE_PACKET_SNAPSHOT_MAX_def Let_def)
  have 2: "take ?n (tr_snapshot r') = take 256 (visible p)" "length (tr_snapshot r') = 256"
      "set (drop ?n (tr_snapshot r')) \<subseteq> {0}"
    using assms(1) by (auto simp: r'_def)
  have 3: "trace_snapshot_ok r'" by (simp add: r'_def trace_snapshot_ok_def TRACE_PACKET_SNAPSHOT_MAX_def)
  have 4: "tr_action r = TRACE_PACKET_RX \<longrightarrow> trace_packet_ok r'" using assms(2,3)
    by (simp add: r'_def trace_packet_ok_def TRACE_PACKET_RX_def TRACE_EVENT_SCHEDULED_def TRACE_EVENT_STARTED_def
        TRACE_EVENT_FINISHED_def)
  have 5: "tr_packet_id r' = pkt_id p" "tr_trace_id r' = pkt_trace_id p" "tr_parent_packet_id r' = pkt_parent_id p"
      "tr_packet_length r' = pkt_len p" "int (unat (tr_layer r')) = pkt_layer p" "tr_action r' = tr_action r"
      "tr_snapshot_length r' = ?n"
    using layer by (simp_all add: r'_def)
  show ?thesis using 1 2 3 4 5 by (intro exI [of _ r']) simp
qed

section \<open>Instances\<close>

definition demo_log :: TraceLog where
  "demo_log = \<lparr>tl_records = Some [Some zero_trace_record], tl_count = 0, tl_capacity = 1, tl_next_sequence = 1,
     tl_enabled = 1\<rparr>"


lemma capture_packet_correct_witness:
  "\<exists>r'. trace_record_capture_packet (Some zero_trace_record) (Some demo_packet) = Some (0, Some r') \<and> trace_snapshot_ok r'"
proof -
  have "pkt_wf demo_packet" "pkt_id demo_packet \<noteq> 0" "pkt_trace_id demo_packet \<noteq> 0" "0 \<le> pkt_layer demo_packet"
    "pkt_layer demo_packet \<le> 4" by (simp_all add: demo_packet_facts)
  from capture_packet_correct [OF this, of zero_trace_record] show ?thesis by blast
qed

end
