(* ===== verification/Divergences.thy ===== *)
theory Divergences
  imports Trace Dispatch
begin

text \<open>
  Places where the code does something other than its contracts and comments say, each shown on the model: frames that a switch
  or a router never passes on, events that the trace log refuses, contracts of single functions.
\<close>

section \<open>Reception\<close>

text \<open>A frame for another station is counted as dropped by the port it reaches, whatever its handler. The ports of a switch are
  no exception: unicast frames between two hosts never reach \<open>switch_receive\<close>.\<close>

lemma foreign_frame_unheard:
  assumes "iface_at iface w = Some i" "pkt_at frame w = Some f" "pkt_wf f" "if_state i = IFACE_OK" "14 \<le> pkt_len f" "\<not> accepts i (visible f)"
    and "evt_dst_device e = VIface iface" "evt_packet e = frame"
  shows "ethernet_receive_event rx e ctx w = Some (iface_put iface (i\<lparr>if_rx_dropped := if_rx_dropped i + 1\<rparr>) w)"
proof -
  have "ethernet_receive iface frame True w = Some (1, None, w)" using ethernet_receive_correct [OF assms(1-5)] assms(6) by simp
  then show ?thesis using assms(1,2,7,8) iface_at_nonnull [OF assms(1)] pkt_at_nonnull [OF assms(2)]
    by (simp add: ethernet_receive_event_def as_iface_def iface_upd_def)
qed

text \<open>A router frees every frame that is not IPv4, so ARP never arrives there.\<close>

lemma router_hears_ipv4_only:
  assumes "as_router ctx = Some router" "ethertype \<noteq> ETHERTYPE_IPV4" "pkt \<noteq> NULL" "iface \<noteq> NULL"
  shows "router_rx_shim pcall iface pkt ethertype ctx w =
    do { w \<leftarrow> packet_free pkt w; iface_upd iface (\<lambda>i. i\<lparr>if_rx_dropped := if_rx_dropped i + 1\<rparr>) w }"
  using assms by (simp add: router_rx_shim_def)

section \<open>Events\<close>

text \<open>The sequence number of an event is set to zero and never again, and the trace log rejects events with that number.\<close>

lemma created_event_unnumbered:
  "event_create_callback ty ts a b p c h x w = (Some e, w') \<Longrightarrow> evt_sequence e = 0"
  by (auto simp: event_create_callback_def split: prod.splits if_splits)

lemma unnumbered_event_rejected:
  assumes "log_wf l" "tl_enabled l = 1" "tr_event_type r \<noteq> int (evt_index EVT_TYPE_COUNT)" "tr_event_sequence r = 0"
  shows "trace_log_append (Some l) (Some r) w = Some (- 1, Some l, w)"
proof -
  have "\<not> trace_record_ok r" using assms(3,4) by (simp add: trace_record_ok_def trace_event_ok_def)
  then show ?thesis using assms(1,2) by (auto simp: trace_log_append_def log_wf_def)
qed

section \<open>Contracts\<close>

text \<open>\<open>tcp_send\<close> of no data at all from a null pointer is a success.\<close>

lemma tcp_send_null_empty:
  assumes "tcb_at b w = Some x" "tb_valid x = 1" "tb_state x = TCP_ESTABLISHED" "sim \<noteq> NULL"
  shows "tcp_send sim (Some b) None 0 w = Some (0, w)"
  using assms by (simp add: tcp_send_def)

end
