(* ===== verification/Spec2Isabelle.thy ===== *)
theory Spec2Isabelle
  imports Packet_Dump Delivery Divergences
begin

text \<open>
  FrameRunner, a discrete-event simulator of packet networks in C: a model of all its source modules and the theorems
  that make them correct. Every path below is relative to \<^verbatim>\<open>src/src\<close> of the repository.

  \<^bold>\<open>The program.\<close> A simulator (\<open>engine/simulator.c\<close>) owns a topology of devices and links and a scheduler. The scheduler
  (\<open>engine/scheduler.c\<close>) pops the first event of a queue ordered by time (\<open>engine/event.c\<close>), sets its clock and calls the
  handler of the event through a function pointer. The handlers are the program proper. A frame is sent by
  \<open>ethernet_send\<close>, which gives it a header and hands it to \<open>link_transmit\<close>; that schedules the reception of a clone of the
  frame at the far end, where \<open>ethernet_receive_event\<close> strips the header and calls the receive handler of the interface:
  the one of a switch, which learns and forwards, the one of a router, which delivers or routes, or the one of the IP
  stack of a host. The stack calls the handler of the protocol: ICMP, UDP, TCP or OSPF, and UDP that of the bound
  port, RIP among them. All of them answer by sending frames and by scheduling timers.

  \<^bold>\<open>Conventions.\<close> A function of the source is a HOL function of the same name; a struct is a record with the
  fields of the source under a prefix of two or three letters, an enumeration is a datatype, an integer of \<open>n\<close> bits is an
  \<open>n word\<close>, \<open>size_t\<close> a natural number with the wrap-around written out, an \<open>int\<close> that never leaves its range an integer.
  The heap is a family of maps from addresses to the objects of each type, in a record that every layer extends
  (\<open>pkt_world\<close>, \<open>sched_world\<close> and so on to \<open>ospf_world\<close>), so that the operations of a layer run unchanged in every larger world.
  Objects with one owner that is passed along, such as tables, are passed by value and returned updated. A result of \<open>None\<close>
  is undefined behaviour: a null or dangling pointer, an access outside an array; in the event loop it is also a run that
  does not end. Every theorem about safety shows that the result is \<open>Some\<close>. Errors that the source returns are the integers it
  returns. \<open>malloc\<close> may fail, by a list of coming outcomes in the world, and the bytes it returns are arbitrary. Function pointers are datatypes
  with one constructor for each function of the program and one for functions of client code; theory \<open>Dispatch\<close> calls them.

  \<^bold>\<open>Theories and sources.\<close>

  \<^item> \<open>Prelude\<close>: pointers, memory, the option monad, lists and words. \<open>Slot_Table\<close>: the locales \<open>slot_array\<close> (an array
    of slots with a validity flag and unique keys) and \<open>bounded_map\<close> (an array that implements a map of bounded size), with
    the lemmas about searching, updating and ageing that all tables share; their interpretations are the tables themselves.
  \<^item> \<open>Byte_Order\<close>, \<open>Checksum\<close>, \<open>Packet\<close>, \<open>Packet_Dump\<close>: \<open>common/byte_order.h\<close>, \<open>common/ip_utils.h\<close>, \<open>network/packet.c\<close> and the
    checksum loops of \<open>network/packet.c\<close>, \<open>protocols/ip.c\<close> and \<open>protocols/icmp.c\<close>. The locale \<open>header_stack\<close> gives the laws of pushing and popping headers,
    \<open>ones_complement\<close> those of a checksum field.
  \<^item> \<open>Event\<close>, \<open>Scheduler\<close>, \<open>Simulator\<close>, \<open>Trace\<close>: \<open>engine/event.c\<close>, \<open>engine/scheduler.c\<close>, \<open>engine/simulator.c\<close>,
    \<open>engine/trace.c\<close>. The locale \<open>stable_queue\<close> is the contract of the event queue, \<open>event_dispatch\<close> that of the handlers.
  \<^item> \<open>Interface\<close>, \<open>Device\<close>, \<open>Link\<close>, \<open>Topology\<close>: \<open>network/interface.c\<close>, \<open>network/device.c\<close>, \<open>network/link.c\<close>, \<open>network/topology.c\<close>.
  \<^item> \<open>Ethernet\<close>, \<open>Mac_Table\<close>, \<open>Switch\<close>: \<open>protocols/ethernet.c\<close>, \<open>network/mac_table.c\<close>, \<open>network/switch.c\<close>.
  \<^item> \<open>Arp_Cache\<close>, \<open>Arp\<close>: \<open>protocols/arp_cache.c\<close>, \<open>protocols/arp.c\<close>. \<open>Ip\<close> and \<open>Ip_Output\<close>: \<open>protocols/ip.c\<close> and the safety of
    its output. \<open>Icmp\<close>, \<open>Udp\<close>: \<open>protocols/icmp.c\<close>, \<open>protocols/udp.c\<close>.
  \<^item> \<open>Route_Table\<close>, \<open>Router\<close>, \<open>Static_Route\<close>, \<open>Rip\<close>: \<open>routing/route_table.c\<close>, \<open>network/router.c\<close>,
    \<open>routing/static_route.c\<close>, \<open>protocols/rip.c\<close>.
  \<^item> \<open>Tcp\<close> (definitions), \<open>Tcp_Safety\<close> and \<open>Tcp_Ops\<close> (the invariant, kept by every operation), \<open>Tcp_Machine\<close> (the step
    relation and the reachable worlds), \<open>Tcp_Theorems\<close>: \<open>protocols/tcp.c\<close>. \<open>Host\<close>: \<open>network/host.c\<close>.
  \<^item> \<open>Ospf\<close> and \<open>Ospf_Spf\<close> (definitions), \<open>Ospf_Routes\<close> (shortest paths and ageing), \<open>Ospf_Receive\<close> (safety of reception), \<open>Ospf_Roundtrip\<close>
    (messages between two routers), \<open>Ospf_Examples\<close>: \<open>protocols/ospf.c\<close>.
  \<^item> \<open>Dispatch\<close>: the calls through function pointers, and the program as one system. \<open>Delivery\<close>: a datagram on its way
    through all layers, from \<open>udp_send\<close> on one host to the handler on its neighbour. \<open>Divergences\<close>: where the
    code does not do what its contracts say.

  \<^bold>\<open>What is shown.\<close> Each component has an invariant (\<open>pkt_wf\<close>, \<open>queue_wf\<close>, \<open>sched_wf\<close>, \<open>net_wf\<close>, \<open>mac_table_wf\<close>, \<open>arp_cache_wf\<close>,
  \<open>route_table_wf\<close>, \<open>router_wf\<close>, \<open>switch_wf\<close>, \<open>table_wf\<close>, and those of RIP and OSPF), that its operations establish and keep, and its operations are
  described on every branch. Beyond that:

  \<^item> Time: the queue refines a stable sorted insertion; a run of the simulator stops at the end time; and with all the
    handlers of the program behind the function pointers, time never goes back. A datagram sent to a neighbour is handed to the
    client there by the next step of the scheduler, after the delay of the link.
  \<^item> Frames: sending is safe in every well-formed network, and what is sent is received after the delay of the link.
    A switch forwards to the port it learned; ARP releases the packets that waited.
  \<^item> Packets: headers and checksums verify and invert; a router forwards along the longest matching prefix with the least
    administrative distance; the forwarding table is the best of the routing table; errors of ICMP quote what they should.
  \<^item> TCP: reception refines a pure specification of segment arrival; every interleaving of operations keeps the table well formed and
    follows the state diagram; at most one segment is in flight.
  \<^item> RIP and OSPF: reception of arbitrary bytes is safe; RIP keeps its database and the routing table in step, with metrics
    from 1 to 16; the routes that OSPF installs are exactly shortest paths of its database, an instance of Dijkstra's algorithm; hellos and updates survive the
    way from router to router; timers age out exactly what is stale.
  \<^item> Where the code is wrong, the theorem states what it does: errors of ICMP sent to the wrong address, updates of RIP that no router hears,
    sequence numbers of TCP that wrap around, unicast frames that a switch never sees.

  \<^bold>\<open>Loops.\<close> The loops over arrays recurse over the list of their indices. The checksum loops and the selection loop of the
  shortest-path computation are functions with a termination proof (the carry shrinks, the number of unvisited vertices falls).
  The loops of scheduler and simulator may run forever, since handlers schedule events; they are partial functions, with an induction
  rule for runs that return, and with theorems that they do return when handlers schedule nothing. No fuel is used.

  \<^bold>\<open>Not modelled.\<close> The files of the command line and the display are empty in this revision, as is \<open>main.c\<close>. Handlers of client code are parameters;
  locale \<open>client_code\<close> states that they reach the scheduler through its operations only. Memory that is freed disappears from the heap, so that
  its use is a fault; leaks are visible as objects that stay. The bytes of a stored integer are those of a little-endian machine, as
  the swapping helpers of the source assume. The loss rate of a link is a field that nothing reads.
\<close>

end
